(* ===== verification/Prelude.thy ===== *)
theory Prelude
  imports Main "HOL-Library.Word" "HOL-Library.Sublist"
begin

text \<open>
  What every component shares: the machine types of the Go code, the results of a fallible Go
  function, the two string types, and the collections of facts the component theories add to.

  Go's \<open>byte\<close>, \<open>int16\<close>, \<open>int32\<close>, \<open>int64\<close> (and their unsigned forms) are words of their width;
  a word is read as signed by \<^const>\<open>sint\<close> where the source type is signed. \<open>float32\<close> and
  \<open>float64\<close> are their IEEE-754 bit patterns, so \<open>math.Float32bits\<close> and its companions are
  identities. A Go \<open>int\<close> (64 bit, used for lengths and offsets) is a \<^typ>\<open>nat\<close> where the code keeps
  it non-negative and an \<^typ>\<open>int\<close> where it can be negative. A Go \<open>string\<close> is an Isabelle
  \<^typ>\<open>string\<close> of byte-sized characters.
\<close>

type_synonym byte = "8 word"
type_synonym i16 = "16 word"
type_synonym i32 = "32 word"
type_synonym i64 = "64 word"
type_synonym f32 = "32 word"
type_synonym f64 = "64 word"
type_synonym bytes = "byte list"

text \<open>A slice that the code compares with \<open>nil\<close>: \<^const>\<open>None\<close> is the nil slice.\<close>

type_synonym 'a slice = "'a list option"

definition elems :: "'a slice \<Rightarrow> 'a list" where
  "elems s = (case s of None \<Rightarrow> [] | Some xs \<Rightarrow> xs)"

lemma elems_simps [simp]: "elems None = []" "elems (Some xs) = xs"
  by (simp_all add: elems_def)

subsection \<open>Results\<close>

text \<open>
  The errors of the protocol layer and of the storage layer, and the run-time panics the code can
  raise. \<open>FuelOut\<close> is no error of the code: it is the value of a bounded recursion whose bound was
  too small, and the theories that use a bound prove it unreachable.
\<close>

datatype go_error =
    ErrEOF
  | IoEOF
  | IoUnexpectedEOF
  | ErrUnknownType byte
  | ErrText string
  | ErrWrapped byte go_error
  | FuelOut

datatype go_panic = MakeSliceLen | IndexOutOfRange | SliceBounds | DivideByZero | NilDeref | TypeAssertion

datatype 'a res = Ok 'a | Err go_error | Panic go_panic

fun res_bind :: "'a res \<Rightarrow> ('a \<Rightarrow> 'b res) \<Rightarrow> 'b res" where
  "res_bind (Ok x) f = f x"
| "res_bind (Err e) f = Err e"
| "res_bind (Panic p) f = Panic p"

fun is_Ok :: "'a res \<Rightarrow> bool" where
  "is_Ok (Ok x) = True"
| "is_Ok (Err e) = False"
| "is_Ok (Panic p) = False"

lemma res_bind_eq_Ok: "res_bind r f = Ok y \<longleftrightarrow> (\<exists>x. r = Ok x \<and> f x = Ok y)"
  by (cases r) auto

lemma res_bind_Ok_right [simp]: "res_bind r Ok = r"
  by (cases r) auto

text \<open>The end of the data, also under the wrapping that \<open>ReadPack\<close> adds.\<close>

fun is_eof :: "go_error \<Rightarrow> bool" where
  "is_eof ErrEOF = True"
| "is_eof IoEOF = True"
| "is_eof IoUnexpectedEOF = True"
| "is_eof (ErrWrapped _ e) = is_eof e"
| "is_eof _ = False"

text \<open>
  \<open>make([]T, n)\<close>: the run time panics when \<open>n\<close> is negative or the block of \<open>n\<close> elements of
  \<open>esize\<close> bytes is larger than the address space the allocator covers (\<open>2 ^ 48\<close> bytes on the 64-bit
  targets the server is built for).
\<close>

definition max_alloc :: int where
  "max_alloc = 2 ^ 48"

definition make_ok :: "int \<Rightarrow> int \<Rightarrow> bool" where
  "make_ok esize n \<longleftrightarrow> 0 \<le> n \<and> n * esize \<le> max_alloc"

subsection \<open>Bytes and strings\<close>

definition byte_of_char :: "char \<Rightarrow> byte" where
  "byte_of_char c = word_of_nat (of_char c)"

definition char_of_byte :: "byte \<Rightarrow> char" where
  "char_of_byte b = char_of (unat b)"

definition bytes_of_string :: "string \<Rightarrow> bytes" where
  "bytes_of_string s = map byte_of_char s"

definition string_of_bytes :: "bytes \<Rightarrow> string" where
  "string_of_bytes b = map char_of_byte b"

lemma char_of_byte_of_char [simp]: "char_of_byte (byte_of_char c) = c"
proof -
  have "of_char c < (256 :: nat)" by (cases c) (simp add: of_char_def horner_sum_bound)
  then have "unat (word_of_nat (of_char c) :: byte) = of_char c"
    by (simp add: unat_of_nat)
  then show ?thesis by (simp add: char_of_byte_def byte_of_char_def)
qed

lemma byte_of_char_of_byte [simp]: "byte_of_char (char_of_byte b) = b"
proof -
  have "unat b < 256" using unsigned_less [of b, where 'a = nat] by simp
  then show ?thesis
    by (simp add: char_of_byte_def byte_of_char_def of_char_of)
qed

lemma string_of_bytes_of_string [simp]: "string_of_bytes (bytes_of_string s) = s"
  by (induction s) (simp_all add: string_of_bytes_def bytes_of_string_def)

lemma bytes_of_string_of_bytes [simp]: "bytes_of_string (string_of_bytes b) = b"
  by (induction b) (simp_all add: string_of_bytes_def bytes_of_string_def)

lemma length_bytes_of_string [simp]: "length (bytes_of_string s) = length s"
  by (simp add: bytes_of_string_def)

lemma bytes_of_string_Nil [simp]: "bytes_of_string s = [] \<longleftrightarrow> s = []"
  by (simp add: bytes_of_string_def)

lemma string_of_bytes_Nil [simp]: "string_of_bytes [] = []"
  by (simp add: string_of_bytes_def)

lemma bytes_of_string_inj [simp]: "bytes_of_string s = bytes_of_string t \<longleftrightarrow> s = t"
  by (metis string_of_bytes_of_string)

subsection \<open>Signed conversions\<close>

text \<open>
  A Go conversion to a narrower type keeps the low bits (\<open>ucast\<close>); one from a signed type to a
  wider one extends the sign (\<open>scast\<close>).
\<close>

lemma sint_ucast_narrow:
  fixes v :: "'a::len word"
  assumes "LENGTH('b::len) \<le> LENGTH('a)"
    and "- (2 ^ (LENGTH('b) - 1)) \<le> sint v" and "sint v < 2 ^ (LENGTH('b) - 1)"
  shows "sint (ucast v :: 'b word) = sint v"
proof -
  have "sint (ucast v :: 'b word) = signed_take_bit (LENGTH('b) - 1) (uint v)"
    by (simp add: signed_ucast_eq)
  also have "\<dots> = signed_take_bit (LENGTH('b) - 1) (sint v)"
    using assms(1)
    by (auto simp: sint_uint signed_take_bit_signed_take_bit min_def intro!: bit_eqI
        simp add: bit_signed_take_bit_iff)
  also have "\<dots> = sint v"
    using assms(2,3) by (simp add: signed_take_bit_int_eq_self_iff)
  finally show ?thesis .
qed

lemma scast_ucast_narrow:
  fixes v :: "'a::len word"
  assumes "LENGTH('b::len) \<le> LENGTH('a)"
    and "- (2 ^ (LENGTH('b) - 1)) \<le> sint v" and "sint v < 2 ^ (LENGTH('b) - 1)"
  shows "scast (ucast v :: 'b word) = v"
proof -
  have "scast (ucast v :: 'b word) = (word_of_int (sint (ucast v :: 'b word)) :: 'a word)"
    by (rule scast_eq)
  also have "\<dots> = v"
    by (simp only: sint_ucast_narrow [OF assms] of_int_sint scast_id)
  finally show ?thesis .
qed

lemma ucast_scast_widen:
  fixes v :: "'b::len word"
  assumes "LENGTH('b) \<le> LENGTH('a::len)"
  shows "ucast (scast v :: 'a word) = v"
  using assms by (auto intro!: bit_word_eqI simp: bit_simps)

text \<open>A length that fits is not changed by the conversion to a word.\<close>

lemma uint_word_of_nat:
  "n < 2 ^ LENGTH('a::len) \<Longrightarrow> uint (word_of_nat n :: 'a word) = int n"
  by (simp add: uint_word_of_int take_bit_nat_eq_self_iff unsigned_of_nat take_bit_nat_eq_self)

lemma sint_word_of_nat:
  assumes "n < 2 ^ (LENGTH('a::len) - 1)"
  shows "sint (word_of_nat n :: 'a word) = int n"
proof -
  have "sint (word_of_nat n :: 'a word) = signed_take_bit (LENGTH('a) - 1) (int n)"
    by (simp add: signed_of_nat)
  also have "\<dots> = int n"
    using assms by (subst signed_take_bit_int_eq_self_iff) (auto intro: order_trans [of _ 0])
  finally show ?thesis .
qed

subsection \<open>Lists\<close>

lemma take_append_exact [simp]: "n = length xs \<Longrightarrow> take n (xs @ ys) = xs"
  by simp

lemma drop_append_exact [simp]: "n = length xs \<Longrightarrow> drop n (xs @ ys) = ys"
  by simp

lemma strict_prefix_length: "strict_prefix p xs \<Longrightarrow> length p < length xs"
  by (rule prefix_length_less)

lemma strict_prefix_append_cases:
  assumes "strict_prefix p (xs @ ys)"
  shows "strict_prefix p xs \<or> (\<exists>q. p = xs @ q \<and> strict_prefix q ys)"
proof -
  from assms obtain z zs where p: "xs @ ys = p @ z # zs"
    by (auto elim: strict_prefixE')
  show ?thesis
  proof (cases "length p < length xs")
    case True
    with p have "p = take (length p) xs"
      by (metis append_eq_conv_conj less_imp_le take_all_iff take_append append.right_neutral
          diff_is_0_eq take0)
    with True show ?thesis
      by (metis less_not_refl prefix_order.le_neq_trans take_is_prefix)
  next
    case False
    then obtain q where q: "p = xs @ q"
      using p by (auto simp: append_eq_append_conv2)
    with p have "ys = q @ z # zs" by simp
    with q show ?thesis by (auto simp: strict_prefix_def prefix_def)
  qed
qed

subsection \<open>Bytes in place\<close>

text \<open>\<open>patch n ys xs\<close> overwrites \<open>xs\<close> from position \<open>n\<close>; \<open>seg n k xs\<close> are the \<open>k\<close> elements from there.\<close>

definition patch :: "nat \<Rightarrow> 'a list \<Rightarrow> 'a list \<Rightarrow> 'a list" where
  "patch n ys xs = take n xs @ ys @ drop (n + length ys) xs"

definition seg :: "nat \<Rightarrow> nat \<Rightarrow> 'a list \<Rightarrow> 'a list" where
  "seg n k xs = take k (drop n xs)"

lemma length_patch [simp]: "n + length ys \<le> length xs \<Longrightarrow> length (patch n ys xs) = length xs"
  by (simp add: patch_def)

lemma length_seg [simp]: "n + k \<le> length xs \<Longrightarrow> length (seg n k xs) = k"
  by (simp add: seg_def)

lemma nth_patch:
  "n + length ys \<le> length xs \<Longrightarrow> i < length xs \<Longrightarrow>
   patch n ys xs ! i = (if n \<le> i \<and> i < n + length ys then ys ! (i - n) else xs ! i)"
  by (auto simp: patch_def nth_append not_less)

lemma seg_patch_same: "n + length ys \<le> length xs \<Longrightarrow> k = length ys \<Longrightarrow> seg n k (patch n ys xs) = ys"
  by (simp add: seg_def patch_def)

lemma seg_patch_other:
  assumes "m + length ys \<le> length xs" and "n + k \<le> length xs" and "n + k \<le> m \<or> m + length ys \<le> n"
  shows "seg n k (patch m ys xs) = seg n k xs"
proof (rule nth_equalityI)
  fix i assume "i < length (seg n k (patch m ys xs))"
  then have "i < k" using assms by (simp add: seg_def)
  then show "seg n k (patch m ys xs) ! i = seg n k xs ! i"
    using assms by (auto simp: seg_def nth_patch)
qed (use assms in simp)

lemma patch_append: "n = length pre \<Longrightarrow> length ys = length old \<Longrightarrow> patch n ys (pre @ old @ post) = pre @ ys @ post"
  by (simp add: patch_def)

end
