(* ===== verification/Endian.thy ===== *)
theory Endian
  imports Prelude
begin

unbundle bit_operations_syntax

text \<open>
  The byte conversions of internal/protocol/endian.go (the type \<open>bigEndian\<close>) and those of Go's
  \<open>encoding/binary\<close> package that the code calls. A conversion that reads a slice takes the list of
  the bytes it reads; the callers slice it to length. The lemmas show that every \<open>Put\<close> is inverted
  by the reader of the same width, for the 3 and 5 byte forms on the values that fit.
\<close>

subsection \<open>encoding/binary\<close>

definition PutUint16 :: "i16 \<Rightarrow> bytes" where
  "PutUint16 v = [ucast (drop_bit 8 v), ucast v]"

definition PutUint32 :: "i32 \<Rightarrow> bytes" where
  "PutUint32 v = [ucast (drop_bit 24 v), ucast (drop_bit 16 v), ucast (drop_bit 8 v), ucast v]"

definition PutUint64 :: "i64 \<Rightarrow> bytes" where
  "PutUint64 v = [ucast (drop_bit 56 v), ucast (drop_bit 48 v), ucast (drop_bit 40 v),
     ucast (drop_bit 32 v), ucast (drop_bit 24 v), ucast (drop_bit 16 v), ucast (drop_bit 8 v),
     ucast v]"

definition Uint16 :: "bytes \<Rightarrow> i16" where
  "Uint16 b = push_bit 8 (ucast (b ! 0)) OR ucast (b ! 1)"

definition Uint32 :: "bytes \<Rightarrow> i32" where
  "Uint32 b = push_bit 24 (ucast (b ! 0)) OR push_bit 16 (ucast (b ! 1)) OR
     push_bit 8 (ucast (b ! 2)) OR ucast (b ! 3)"

definition Uint64 :: "bytes \<Rightarrow> i64" where
  "Uint64 b = push_bit 56 (ucast (b ! 0)) OR push_bit 48 (ucast (b ! 1)) OR
     push_bit 40 (ucast (b ! 2)) OR push_bit 32 (ucast (b ! 3)) OR push_bit 24 (ucast (b ! 4)) OR
     push_bit 16 (ucast (b ! 5)) OR push_bit 8 (ucast (b ! 6)) OR ucast (b ! 7)"

subsection \<open>bigEndian\<close>

definition Int3 :: "bytes \<Rightarrow> i32" where
  "Int3 b = signed_drop_bit 8
     (push_bit 24 (ucast (b ! 0)) + push_bit 16 (ucast (b ! 1)) + push_bit 8 (ucast (b ! 2)))"

definition PutInt3 :: "i32 \<Rightarrow> bytes" where
  "PutInt3 v = [ucast (signed_drop_bit 16 v), ucast (signed_drop_bit 8 v), ucast v]"

definition Int5 :: "bytes \<Rightarrow> i64" where
  "Int5 b = push_bit 32 (scast (b ! 0)) OR push_bit 24 (ucast (b ! 1)) OR
     push_bit 16 (ucast (b ! 2)) OR push_bit 8 (ucast (b ! 3)) OR ucast (b ! 4)"

definition PutInt5 :: "i64 \<Rightarrow> bytes" where
  "PutInt5 v = [ucast (signed_drop_bit 32 v), ucast (signed_drop_bit 24 v),
     ucast (signed_drop_bit 16 v), ucast (signed_drop_bit 8 v), ucast v]"

definition Int32 :: "bytes \<Rightarrow> i32" where
  "Int32 b = Uint32 b"

definition PutInt32 :: "i32 \<Rightarrow> bytes" where
  "PutInt32 v = PutUint32 v"

definition Int64 :: "bytes \<Rightarrow> i64" where
  "Int64 b = Uint64 b"

definition PutInt64 :: "i64 \<Rightarrow> bytes" where
  "PutInt64 v = PutUint64 v"

definition Bytes5 :: "i64 \<Rightarrow> bytes" where
  "Bytes5 v = PutInt5 v"

definition Bytes4 :: "i32 \<Rightarrow> bytes" where
  "Bytes4 v = PutInt32 v"

definition Bytes8 :: "i64 \<Rightarrow> bytes" where
  "Bytes8 v = PutInt64 v"

text \<open>The values the 3 byte and the 5 byte forms can hold (\<open>INT3MinValue\<close> to \<open>LONG5MaxValue\<close>).\<close>

definition fits3 :: "i32 \<Rightarrow> bool" where
  "fits3 v \<longleftrightarrow> - 8388608 \<le> sint v \<and> sint v \<le> 8388607"

definition fits5 :: "i64 \<Rightarrow> bool" where
  "fits5 v \<longleftrightarrow> - 549755813888 \<le> sint v \<and> sint v \<le> 549755813887"

lemma length_Put [simp]:
  "length (PutUint16 a) = 2" "length (PutUint32 b) = 4" "length (PutUint64 c) = 8"
  "length (PutInt3 b) = 3" "length (PutInt5 c) = 5" "length (PutInt32 b) = 4"
  "length (PutInt64 c) = 8" "length (Bytes5 c) = 5" "length (Bytes4 b) = 4" "length (Bytes8 c) = 8"
  by (simp_all add: PutUint16_def PutUint32_def PutUint64_def PutInt3_def PutInt5_def
      PutInt32_def PutInt64_def Bytes5_def Bytes4_def Bytes8_def)

lemma Put_neq_Nil [simp]:
  "PutUint16 a \<noteq> []" "PutUint32 b \<noteq> []" "PutUint64 c \<noteq> []" "PutInt3 b \<noteq> []" "PutInt5 c \<noteq> []"
  by (simp_all add: PutUint16_def PutUint32_def PutUint64_def PutInt3_def PutInt5_def)

text \<open>The byte at bit position \<open>k\<close> of a word, put back where it was.\<close>

lemma bit_byte_at [simp]:
  fixes v :: "'a::len word"
  shows "bit (push_bit k (ucast (ucast (drop_bit k v) :: byte) :: 'a word)) n \<longleftrightarrow>
    k \<le> n \<and> n < k + 8 \<and> bit v n"
  by (cases "k \<le> n") (auto simp: bit_simps dest: bit_imp_le_length)

lemma bit_byte_at_0 [simp]:
  fixes v :: "'a::len word"
  shows "bit (ucast (ucast v :: byte) :: 'a word) n \<longleftrightarrow> n < 8 \<and> bit v n"
  by (auto simp: bit_simps dest: bit_imp_le_length)

lemma byte_signed_drop:
  fixes v :: "'a::len word"
  shows "k + 8 \<le> LENGTH('a) \<Longrightarrow> (ucast (signed_drop_bit k v) :: byte) = ucast (drop_bit k v)"
  by (rule bit_word_eqI) (auto simp: bit_simps)

lemma Uint16_Put [simp]: "Uint16 (PutUint16 v) = v"
  by (rule bit_word_eqI) (auto simp: Uint16_def PutUint16_def bit_or_iff)

lemma Uint32_Put [simp]: "Uint32 (PutUint32 v) = v"
  by (rule bit_word_eqI) (simp add: Uint32_def PutUint32_def bit_or_iff, arith)

lemma Uint64_Put [simp]: "Uint64 (PutUint64 v) = v"
  by (rule bit_word_eqI) (simp add: Uint64_def PutUint64_def bit_or_iff, arith)

lemma Int32_Put [simp]: "Int32 (PutInt32 v) = v"
  by (simp add: Int32_def PutInt32_def)

lemma Int64_Put [simp]: "Int64 (PutInt64 v) = v"
  by (simp add: Int64_def PutInt64_def)

lemma fits3_bits: "fits3 v \<Longrightarrow> signed_take_bit 23 v = v"
proof -
  assume "fits3 v"
  then have "signed_take_bit 23 (sint v) = sint v"
    by (simp add: fits3_def signed_take_bit_int_eq_self_iff)
  then have "word_of_int (signed_take_bit 23 (sint v)) = v" by simp
  then show ?thesis by (simp add: of_int_signed_take_bit)
qed

lemma fits5_bits: "fits5 v \<Longrightarrow> signed_take_bit 39 v = v"
proof -
  assume "fits5 v"
  then have "signed_take_bit 39 (sint v) = sint v"
    by (simp add: fits5_def signed_take_bit_int_eq_self_iff)
  then have "word_of_int (signed_take_bit 39 (sint v)) = v" by simp
  then show ?thesis by (simp add: of_int_signed_take_bit)
qed

lemma bit_byte_shift:
  fixes v :: "'a::len word"
  shows "bit (push_bit j (ucast (ucast (drop_bit k v) :: byte) :: 'a word)) n \<longleftrightarrow>
    j \<le> n \<and> n < j + 8 \<and> n < LENGTH('a) \<and> bit v (n - j + k)"
  by (cases "j \<le> n") (auto simp: bit_simps add.commute dest: bit_imp_le_length)

lemma bit_byte_shift_0:
  fixes v :: "'a::len word"
  shows "bit (push_bit j (ucast (ucast v :: byte) :: 'a word)) n \<longleftrightarrow>
    j \<le> n \<and> n < j + 8 \<and> n < LENGTH('a) \<and> bit v (n - j)"
  using bit_byte_shift [of j 0 v n] by simp

text \<open>The 3 and the 5 byte forms keep the low bits and extend their sign.\<close>

lemma Int3_Put_wrap: "Int3 (PutInt3 v) = signed_take_bit 23 v"
proof -
  let ?b = "\<lambda>k. (ucast (ucast (drop_bit k v) :: byte) :: i32)"
  let ?S = "push_bit 24 (?b 16) OR push_bit 16 (?b 8) OR push_bit 8 (?b 0)"
  have "push_bit 24 (?b 16) + push_bit 16 (?b 8) + push_bit 8 (?b 0) = ?S"
  proof -
    have 1: "push_bit 24 (?b 16) + push_bit 16 (?b 8) = push_bit 24 (?b 16) OR push_bit 16 (?b 8)"
      by (rule disjunctive_add_eq_or, rule bit_word_eqI) (auto simp: bit_and_iff bit_byte_shift)
    have 2: "(push_bit 24 (?b 16) OR push_bit 16 (?b 8)) + push_bit 8 (?b 0) =
        (push_bit 24 (?b 16) OR push_bit 16 (?b 8)) OR push_bit 8 (?b 0)"
      by (rule disjunctive_add_eq_or, rule bit_word_eqI) (auto simp: bit_and_iff bit_or_iff bit_byte_shift bit_byte_shift_0)
    show ?thesis by (simp only: 1 2 or.assoc)
  qed
  then have e: "Int3 (PutInt3 v) = signed_drop_bit 8 ?S"
    by (simp add: Int3_def PutInt3_def byte_signed_drop)
  have "bit (signed_drop_bit 8 ?S) n \<longleftrightarrow> bit (signed_take_bit 23 v) n" if "n < 32" for n
    using that by (cases n "23 :: nat" rule: linorder_cases; cases "n < 16")
      (auto simp: bit_signed_drop_bit_iff bit_signed_take_bit_iff bit_or_iff bit_byte_shift
        bit_byte_shift_0 bit_drop_bit_eq min_def not_less not_le)
  then have "signed_drop_bit 8 ?S = signed_take_bit 23 v"
    by (intro bit_word_eqI) simp
  with e show ?thesis by simp
qed

lemma Int3_Put [simp]: "fits3 v \<Longrightarrow> Int3 (PutInt3 v) = v"
  by (simp add: Int3_Put_wrap fits3_bits)

lemma Int5_Put_wrap: "Int5 (PutInt5 v) = signed_take_bit 39 v"
proof -
  have s: "bit (push_bit 32 (scast (ucast (drop_bit 32 v) :: byte) :: i64)) n \<longleftrightarrow>
      32 \<le> n \<and> n < 64 \<and> bit v (min n 39)" for n
    by (cases n "39 :: nat" rule: linorder_cases)
      (auto simp: bit_simps min_def dest: bit_imp_le_length)
  show ?thesis
    by (rule bit_word_eqI)
      (simp add: Int5_def PutInt5_def byte_signed_drop bit_or_iff s bit_signed_take_bit_iff min_def, arith)
qed

lemma Int5_Put [simp]: "fits5 v \<Longrightarrow> Int5 (PutInt5 v) = v"
  by (simp add: Int5_Put_wrap fits5_bits)

lemma Int5_Bytes5 [simp]: "fits5 v \<Longrightarrow> Int5 (Bytes5 v) = v"
  by (simp add: Bytes5_def)

lemma Int64_Bytes8 [simp]: "Int64 (Bytes8 v) = v"
  by (simp add: Bytes8_def)

lemma Bytes8_inj [simp]: "Bytes8 v = Bytes8 w \<longleftrightarrow> v = w"
  by (metis Int64_Bytes8)

end
