(* ===== verification/DataOutput.thy ===== *)
theory DataOutput
  imports Endian
begin

text \<open>
  internal/protocol/dataoutx.go: the type \<open>DataOutputX\<close>, which appends to a byte buffer or, in stream
  mode, writes to an \<open>io.Writer\<close>. The record has its fields; the writer of stream mode is the sequence
  of bytes handed to it (the code ignores the error a write can return), and the scratch buffer, which
  carries nothing between calls, is left out. Every operation is a state transformer, so a sequence of
  calls is a list of them, run by \<open>writes\<close>. The main fact, \<open>emits\<close>, is that each operation
  appends a fixed byte string in both modes and counts it.
\<close>

fun writes :: "('s \<Rightarrow> 's) list \<Rightarrow> 's \<Rightarrow> 's" where
  "writes [] = id"
| "writes [w] = w"
| "writes (w # v # ws) = fcomp w (writes (v # ws))"

record dout =
  out_buf :: bytes
  out_written :: nat
  out_writer :: "bytes option"

definition NewDataOutputX :: dout where
  "NewDataOutputX = \<lparr>out_buf = [], out_written = 0, out_writer = None\<rparr>"

definition NewDataOutputXStream :: dout where
  "NewDataOutputXStream = \<lparr>out_buf = [], out_written = 0, out_writer = Some []\<rparr>"

definition ToByteArray :: "dout \<Rightarrow> bytes" where
  "ToByteArray out = out_buf out"

definition Reset :: "dout \<Rightarrow> dout" where
  "Reset out = out\<lparr>out_buf := [], out_written := 0\<rparr>"

definition Size :: "dout \<Rightarrow> nat" where
  "Size out = out_written out"

definition Write :: "bytes \<Rightarrow> dout \<Rightarrow> dout" where
  "Write b out = (case out_writer out of
     Some w \<Rightarrow> out\<lparr>out_writer := Some (w @ b), out_written := out_written out + length b\<rparr>
   | None \<Rightarrow> out\<lparr>out_buf := out_buf out @ b, out_written := out_written out + length b\<rparr>)"

definition WriteByte :: "byte \<Rightarrow> dout \<Rightarrow> dout" where
  "WriteByte v out = (case out_writer out of
     Some w \<Rightarrow> out\<lparr>out_writer := Some (w @ [v]), out_written := out_written out + 1\<rparr>
   | None \<Rightarrow> out\<lparr>out_buf := out_buf out @ [v], out_written := out_written out + 1\<rparr>)"

definition WriteBoolean :: "bool \<Rightarrow> dout \<Rightarrow> dout" where
  "WriteBoolean v = (if v then WriteByte 1 else WriteByte 0)"

definition WriteInt16 :: "i16 \<Rightarrow> dout \<Rightarrow> dout" where
  "WriteInt16 v out = (case out_writer out of
     Some w \<Rightarrow> out\<lparr>out_writer := Some (w @ PutUint16 v), out_written := out_written out + 2\<rparr>
   | None \<Rightarrow> out\<lparr>out_buf := out_buf out @ [ucast (drop_bit 8 v), ucast v],
       out_written := out_written out + 2\<rparr>)"

definition WriteUint16 :: "i16 \<Rightarrow> dout \<Rightarrow> dout" where
  "WriteUint16 v out = (case out_writer out of
     Some w \<Rightarrow> out\<lparr>out_writer := Some (w @ PutUint16 v), out_written := out_written out + 2\<rparr>
   | None \<Rightarrow> out\<lparr>out_buf := out_buf out @ [ucast (drop_bit 8 v), ucast v],
       out_written := out_written out + 2\<rparr>)"

definition WriteInt32 :: "i32 \<Rightarrow> dout \<Rightarrow> dout" where
  "WriteInt32 v out = (case out_writer out of
     Some w \<Rightarrow> out\<lparr>out_writer := Some (w @ PutUint32 v), out_written := out_written out + 4\<rparr>
   | None \<Rightarrow> out\<lparr>out_buf := out_buf out @
         [ucast (drop_bit 24 v), ucast (drop_bit 16 v), ucast (drop_bit 8 v), ucast v],
       out_written := out_written out + 4\<rparr>)"

definition WriteInt64 :: "i64 \<Rightarrow> dout \<Rightarrow> dout" where
  "WriteInt64 v out = (case out_writer out of
     Some w \<Rightarrow> out\<lparr>out_writer := Some (w @ PutUint64 v), out_written := out_written out + 8\<rparr>
   | None \<Rightarrow> out\<lparr>out_buf := out_buf out @
         [ucast (drop_bit 56 v), ucast (drop_bit 48 v), ucast (drop_bit 40 v),
          ucast (drop_bit 32 v), ucast (drop_bit 24 v), ucast (drop_bit 16 v),
          ucast (drop_bit 8 v), ucast v],
       out_written := out_written out + 8\<rparr>)"

definition WriteFloat32 :: "f32 \<Rightarrow> dout \<Rightarrow> dout" where
  "WriteFloat32 v = WriteInt32 v"

definition WriteFloat64 :: "f64 \<Rightarrow> dout \<Rightarrow> dout" where
  "WriteFloat64 v = WriteInt64 v"

definition WriteInt3 :: "i32 \<Rightarrow> dout \<Rightarrow> dout" where
  "WriteInt3 v out = (case out_writer out of
     Some w \<Rightarrow> out\<lparr>out_writer := Some (w @ PutInt3 v), out_written := out_written out + 3\<rparr>
   | None \<Rightarrow> out\<lparr>out_buf := out_buf out @
         [ucast (signed_drop_bit 16 v), ucast (signed_drop_bit 8 v), ucast v],
       out_written := out_written out + 3\<rparr>)"

definition WriteLong5 :: "i64 \<Rightarrow> dout \<Rightarrow> dout" where
  "WriteLong5 v out = (case out_writer out of
     Some w \<Rightarrow> out\<lparr>out_writer := Some (w @ PutInt5 v), out_written := out_written out + 5\<rparr>
   | None \<Rightarrow> out\<lparr>out_buf := out_buf out @
         [ucast (signed_drop_bit 32 v), ucast (signed_drop_bit 24 v),
          ucast (signed_drop_bit 16 v), ucast (signed_drop_bit 8 v), ucast v],
       out_written := out_written out + 5\<rparr>)"

definition WriteDecimal :: "i64 \<Rightarrow> dout \<Rightarrow> dout" where
  "WriteDecimal v =
     (if v = 0 then WriteByte 0
      else if -128 \<le> sint v \<and> sint v \<le> 127 then writes [WriteByte 1, WriteByte (ucast v)]
      else if -32768 \<le> sint v \<and> sint v \<le> 32767 then writes [WriteByte 2, WriteInt16 (ucast v)]
      else if -8388608 \<le> sint v \<and> sint v \<le> 8388607 then writes [WriteByte 3, WriteInt3 (ucast v)]
      else if -2147483648 \<le> sint v \<and> sint v \<le> 2147483647
        then writes [WriteByte 4, WriteInt32 (ucast v)]
      else if -549755813888 \<le> sint v \<and> sint v \<le> 549755813887
        then writes [WriteByte 5, WriteLong5 v]
      else writes [WriteByte 8, WriteInt64 v])"

definition WriteBlob :: "bytes \<Rightarrow> dout \<Rightarrow> dout" where
  "WriteBlob b =
     (if length b = 0 then WriteByte 0
      else if length b \<le> 253 then writes [WriteByte (word_of_nat (length b)), Write b]
      else if length b \<le> 65535
        then writes [WriteByte 255, WriteUint16 (word_of_nat (length b)), Write b]
      else writes [WriteByte 254, WriteInt32 (word_of_nat (length b)), Write b])"

definition WriteText :: "string \<Rightarrow> dout \<Rightarrow> dout" where
  "WriteText s = (if s = '''' then WriteByte 0 else WriteBlob (bytes_of_string s))"

definition WriteIntBytes :: "bytes \<Rightarrow> dout \<Rightarrow> dout" where
  "WriteIntBytes b = writes [WriteInt32 (word_of_nat (length b)), Write b]"

definition WriteShortBytes :: "bytes \<Rightarrow> dout \<Rightarrow> dout" where
  "WriteShortBytes b = writes [WriteInt16 (word_of_nat (length b)), Write b]"

definition WriteArrayInt :: "i32 slice \<Rightarrow> dout \<Rightarrow> dout" where
  "WriteArrayInt v = (case v of
     None \<Rightarrow> WriteInt16 0
   | Some xs \<Rightarrow> writes [WriteInt16 (word_of_nat (length xs)), fold WriteInt32 xs])"

definition WriteArrayLong :: "i64 slice \<Rightarrow> dout \<Rightarrow> dout" where
  "WriteArrayLong v = (case v of
     None \<Rightarrow> WriteInt16 0
   | Some xs \<Rightarrow> writes [WriteInt16 (word_of_nat (length xs)), fold WriteInt64 xs])"

definition WriteArrayFloat :: "f32 slice \<Rightarrow> dout \<Rightarrow> dout" where
  "WriteArrayFloat v = (case v of
     None \<Rightarrow> WriteInt16 0
   | Some xs \<Rightarrow> writes [WriteInt16 (word_of_nat (length xs)), fold WriteFloat32 xs])"

definition WriteDecimalArray :: "i64 slice \<Rightarrow> dout \<Rightarrow> dout" where
  "WriteDecimalArray v = (case v of
     None \<Rightarrow> WriteDecimal 0
   | Some xs \<Rightarrow> writes [WriteDecimal (word_of_nat (length xs)), fold WriteDecimal xs])"

definition WriteDecimalIntArray :: "i32 slice \<Rightarrow> dout \<Rightarrow> dout" where
  "WriteDecimalIntArray v = (case v of
     None \<Rightarrow> WriteDecimal 0
   | Some xs \<Rightarrow> writes [WriteDecimal (word_of_nat (length xs)), fold (\<lambda>x. WriteDecimal (scast x)) xs])"

subsection \<open>What the operations emit\<close>

text \<open>The bytes an output has received, in the buffer or through its writer.\<close>

definition out_bytes :: "dout \<Rightarrow> bytes" where
  "out_bytes out = (case out_writer out of Some w \<Rightarrow> w | None \<Rightarrow> out_buf out)"

definition emits :: "(dout \<Rightarrow> dout) \<Rightarrow> bytes \<Rightarrow> bool" where
  "emits w bs \<longleftrightarrow> (\<forall>out. w out = Write bs out)"

named_theorems emits_intro "what an output operation emits"

lemma emitsD: "emits w bs \<Longrightarrow> w out = Write bs out"
  by (simp add: emits_def)

lemma emits_unique: "emits w bs \<Longrightarrow> emits w cs \<Longrightarrow> bs = cs"
  by (auto simp: emits_def Write_def NewDataOutputX_def
      dest!: spec [where x = NewDataOutputX])

lemma Write_append: "Write b (Write a out) = Write (a @ b) out"
  by (simp add: Write_def split: option.split)

lemma emits_Write [emits_intro]: "emits (Write b) b"
  by (simp add: emits_def)

lemma emits_seq [emits_intro]: "emits f a \<Longrightarrow> emits g b \<Longrightarrow> emits (fcomp f g) (a @ b)"
  by (simp add: emits_def fcomp_apply Write_append)

lemma emits_fold:
  assumes "\<And>x. x \<in> set xs \<Longrightarrow> emits (w x) (e x)"
  shows "emits (fold w xs) (concat (map e xs))"
  using assms
proof (induction xs)
  case Nil
  show ?case by (simp add: emits_def Write_def split: option.split)
next
  case (Cons x xs)
  then have "emits (fold w xs) (concat (map e xs))" and "emits (w x) (e x)" by simp_all
  then show ?case by (simp add: emits_def Write_append)
qed

lemma emits_WriteByte [emits_intro]: "emits (WriteByte v) [v]"
  by (simp add: emits_def WriteByte_def Write_def split: option.split)

lemma emits_WriteBoolean [emits_intro]: "emits (WriteBoolean v) [if v then 1 else 0]"
  by (simp add: WriteBoolean_def emits_WriteByte)

lemma emits_WriteInt16 [emits_intro]: "emits (WriteInt16 v) (PutUint16 v)"
  by (simp add: emits_def WriteInt16_def Write_def PutUint16_def split: option.split)

lemma emits_WriteUint16 [emits_intro]: "emits (WriteUint16 v) (PutUint16 v)"
  by (simp add: emits_def WriteUint16_def Write_def PutUint16_def split: option.split)

lemma emits_WriteInt32 [emits_intro]: "emits (WriteInt32 v) (PutUint32 v)"
  by (simp add: emits_def WriteInt32_def Write_def PutUint32_def split: option.split)

lemma emits_WriteInt64 [emits_intro]: "emits (WriteInt64 v) (PutUint64 v)"
  by (simp add: emits_def WriteInt64_def Write_def PutUint64_def split: option.split)

lemma emits_WriteFloat32 [emits_intro]: "emits (WriteFloat32 v) (PutUint32 v)"
  by (simp add: WriteFloat32_def emits_WriteInt32)

lemma emits_WriteFloat64 [emits_intro]: "emits (WriteFloat64 v) (PutUint64 v)"
  by (simp add: WriteFloat64_def emits_WriteInt64)

lemma emits_WriteInt3 [emits_intro]: "emits (WriteInt3 v) (PutInt3 v)"
  by (simp add: emits_def WriteInt3_def Write_def PutInt3_def split: option.split)

lemma emits_WriteLong5 [emits_intro]: "emits (WriteLong5 v) (PutInt5 v)"
  by (simp add: emits_def WriteLong5_def Write_def PutInt5_def split: option.split)

text \<open>An operation that emits writes the same bytes in both modes and counts each of them.\<close>

lemma emits_ToByteArray: "emits w bs \<Longrightarrow> ToByteArray (w NewDataOutputX) = bs"
  by (simp add: emits_def Write_def ToByteArray_def NewDataOutputX_def)

lemma emits_out_bytes: "emits w bs \<Longrightarrow> out_bytes (w out) = out_bytes out @ bs"
  by (simp add: emits_def Write_def out_bytes_def split: option.split)

lemma emits_Size: "emits w bs \<Longrightarrow> Size (w out) = Size out + length bs"
  by (simp add: emits_def Write_def Size_def split: option.split)

end
