(* ===== verification/DataInput.thy ===== *)
theory DataInput
  imports Endian
begin

text \<open>
  internal/protocol/datainx.go: the type \<open>DataInputX\<close>, which reads from a byte buffer at an offset or,
  in stream mode, from an \<open>io.Reader\<close>. The reader of stream mode is the finite sequence of bytes it
  still delivers; \<open>io.ReadFull\<close> takes what it is asked for, or what is left and then fails. A read
  operation returns its result with the changed input, so the state after an error is part of the
  model. The Go sequence "read, return the error if there is one, go on" is \<open>rd_bind\<close>.
\<close>

record din =
  in_buf :: bytes
  in_offset :: nat
  in_reader :: "bytes option"

type_synonym 'a rd = "din \<Rightarrow> 'a res \<times> din"

definition NewDataInputX :: "bytes \<Rightarrow> din" where
  "NewDataInputX b = \<lparr>in_buf = b, in_offset = 0, in_reader = None\<rparr>"

definition NewDataInputXOffset :: "bytes \<Rightarrow> nat \<Rightarrow> din" where
  "NewDataInputXOffset b off = \<lparr>in_buf = b, in_offset = off, in_reader = None\<rparr>"

definition NewDataInputXStream :: "bytes \<Rightarrow> din" where
  "NewDataInputXStream r = \<lparr>in_buf = [], in_offset = 0, in_reader = Some r\<rparr>"

definition Available :: "din \<Rightarrow> int" where
  "Available d = (case in_reader d of
     Some r \<Rightarrow> 2147483647
   | None \<Rightarrow> int (length (in_buf d)) - int (in_offset d))"

definition Offset :: "din \<Rightarrow> nat" where
  "Offset d = in_offset d"

subsection \<open>Sequencing\<close>

definition rd_ret :: "'a \<Rightarrow> 'a rd" where
  "rd_ret x d = (Ok x, d)"

definition rd_fail :: "go_error \<Rightarrow> 'a rd" where
  "rd_fail e d = (Err e, d)"

definition rd_panic :: "go_panic \<Rightarrow> 'a rd" where
  "rd_panic p d = (Panic p, d)"

definition rd_bind :: "'a rd \<Rightarrow> ('a \<Rightarrow> 'b rd) \<Rightarrow> 'b rd" where
  "rd_bind r f d = (case r d of
     (Ok x, d') \<Rightarrow> f x d'
   | (Err e, d') \<Rightarrow> (Err e, d')
   | (Panic p, d') \<Rightarrow> (Panic p, d'))"

text \<open>A counted loop that reads one element per round.\<close>

primrec rd_times :: "nat \<Rightarrow> 'a rd \<Rightarrow> 'a list rd" where
  "rd_times 0 r = rd_ret []"
| "rd_times (Suc n) r = rd_bind r (\<lambda>x. rd_bind (rd_times n r) (\<lambda>xs. rd_ret (x # xs)))"

text \<open>\<open>make([]T, n)\<close> followed by such a loop for \<open>i < n\<close>.\<close>

definition rd_slice :: "int \<Rightarrow> int \<Rightarrow> 'a rd \<Rightarrow> 'a list rd" where
  "rd_slice esize n r = (if make_ok esize n then rd_times (nat n) r else rd_panic MakeSliceLen)"

subsection \<open>The operations\<close>

definition Read :: "int \<Rightarrow> bytes rd" where
  "Read n d = (case in_reader d of
     Some r \<Rightarrow>
       if n < 0 then (Panic MakeSliceLen, d)
       else if nat n \<le> length r
         then (Ok (take (nat n) r),
               d\<lparr>in_reader := Some (drop (nat n) r), in_offset := in_offset d + nat n\<rparr>)
       else (Err (if r = [] then IoEOF else IoUnexpectedEOF), d\<lparr>in_reader := Some []\<rparr>)
   | None \<Rightarrow>
       if int (in_offset d) + n > int (length (in_buf d)) then (Err ErrEOF, d)
       else if n < 0 then (Panic MakeSliceLen, d)
       else (Ok (take (nat n) (drop (in_offset d) (in_buf d))),
             d\<lparr>in_offset := in_offset d + nat n\<rparr>))"

definition ReadByte :: "byte rd" where
  "ReadByte d = (case in_reader d of
     Some r \<Rightarrow>
       (case r of
          [] \<Rightarrow> (Err IoEOF, d)
        | b # r' \<Rightarrow> (Ok b, d\<lparr>in_reader := Some r', in_offset := in_offset d + 1\<rparr>))
   | None \<Rightarrow>
       if in_offset d \<ge> length (in_buf d) then (Err ErrEOF, d)
       else (Ok (in_buf d ! in_offset d), d\<lparr>in_offset := in_offset d + 1\<rparr>))"

definition ReadBoolean :: "bool rd" where
  "ReadBoolean = rd_bind ReadByte (\<lambda>b. rd_ret (b \<noteq> 0))"

definition ReadInt16 :: "i16 rd" where
  "ReadInt16 d = (case in_reader d of
     Some r \<Rightarrow> rd_bind (Read 2) (\<lambda>b. rd_ret (Uint16 b)) d
   | None \<Rightarrow>
       if in_offset d + 2 > length (in_buf d) then (Err ErrEOF, d)
       else (Ok (Uint16 (drop (in_offset d) (in_buf d))), d\<lparr>in_offset := in_offset d + 2\<rparr>))"

definition ReadUint16 :: "i16 rd" where
  "ReadUint16 d = (case in_reader d of
     Some r \<Rightarrow> rd_bind (Read 2) (\<lambda>b. rd_ret (Uint16 b)) d
   | None \<Rightarrow>
       if in_offset d + 2 > length (in_buf d) then (Err ErrEOF, d)
       else (Ok (Uint16 (drop (in_offset d) (in_buf d))), d\<lparr>in_offset := in_offset d + 2\<rparr>))"

definition ReadInt32 :: "i32 rd" where
  "ReadInt32 d = (case in_reader d of
     Some r \<Rightarrow> rd_bind (Read 4) (\<lambda>b. rd_ret (Uint32 b)) d
   | None \<Rightarrow>
       if in_offset d + 4 > length (in_buf d) then (Err ErrEOF, d)
       else (Ok (Uint32 (drop (in_offset d) (in_buf d))), d\<lparr>in_offset := in_offset d + 4\<rparr>))"

definition ReadInt64 :: "i64 rd" where
  "ReadInt64 d = (case in_reader d of
     Some r \<Rightarrow> rd_bind (Read 8) (\<lambda>b. rd_ret (Uint64 b)) d
   | None \<Rightarrow>
       if in_offset d + 8 > length (in_buf d) then (Err ErrEOF, d)
       else (Ok (Uint64 (drop (in_offset d) (in_buf d))), d\<lparr>in_offset := in_offset d + 8\<rparr>))"

definition ReadFloat32 :: "f32 rd" where
  "ReadFloat32 = rd_bind ReadInt32 rd_ret"

definition ReadFloat64 :: "f64 rd" where
  "ReadFloat64 = rd_bind ReadInt64 rd_ret"

definition ReadInt3 :: "i32 rd" where
  "ReadInt3 = rd_bind (Read 3) (\<lambda>b. rd_ret (Int3 b))"

definition ReadLong5 :: "i64 rd" where
  "ReadLong5 = rd_bind (Read 5) (\<lambda>b. rd_ret (Int5 b))"

definition ReadDecimal :: "i64 rd" where
  "ReadDecimal = rd_bind ReadByte (\<lambda>lenByte.
     if lenByte = 0 then rd_ret 0
     else if lenByte = 1 then rd_bind ReadByte (\<lambda>b. rd_ret (scast b))
     else if lenByte = 2 then rd_bind ReadInt16 (\<lambda>v. rd_ret (scast v))
     else if lenByte = 3 then rd_bind ReadInt3 (\<lambda>v. rd_ret (scast v))
     else if lenByte = 4 then rd_bind ReadInt32 (\<lambda>v. rd_ret (scast v))
     else if lenByte = 5 then ReadLong5
     else ReadInt64)"

definition ReadBlob :: "bytes rd" where
  "ReadBlob = rd_bind ReadByte (\<lambda>b.
     if b = 0 then rd_ret []
     else if b = 255 then rd_bind ReadUint16 (\<lambda>l. Read (uint l))
     else if b = 254 then rd_bind ReadInt32 (\<lambda>l. Read (sint l))
     else Read (uint b))"

definition ReadBlobRef :: "bytes rd" where
  "ReadBlobRef d = (case in_reader d of
     Some r \<Rightarrow> ReadBlob d
   | None \<Rightarrow>
       rd_bind ReadByte (\<lambda>b.
         if b = 0 then rd_ret []
         else rd_bind
           (if b = 255 then rd_bind ReadUint16 (\<lambda>l. rd_ret (uint l))
            else if b = 254 then rd_bind ReadInt32 (\<lambda>l. rd_ret (sint l))
            else rd_ret (uint b))
           (\<lambda>len d. if int (in_offset d) + len > int (length (in_buf d)) then (Err ErrEOF, d)
              else if len < 0 then (Panic SliceBounds, d)
              else (Ok (take (nat len) (drop (in_offset d) (in_buf d))),
                    d\<lparr>in_offset := in_offset d + nat len\<rparr>))) d)"

definition ReadText :: "string rd" where
  "ReadText = rd_bind ReadBlob (\<lambda>b. rd_ret (string_of_bytes b))"

definition ReadIntBytes :: "bytes rd" where
  "ReadIntBytes = rd_bind ReadInt32 (\<lambda>l. Read (sint l))"

definition ReadShortBytes :: "bytes rd" where
  "ReadShortBytes = rd_bind ReadUint16 (\<lambda>l. Read (uint l))"

definition ReadArrayInt :: "i32 list rd" where
  "ReadArrayInt = rd_bind ReadInt16 (\<lambda>l. rd_slice 4 (sint l) ReadInt32)"

definition ReadArrayLong :: "i64 list rd" where
  "ReadArrayLong = rd_bind ReadInt16 (\<lambda>l. rd_slice 8 (sint l) ReadInt64)"

definition ReadArrayFloat :: "f32 list rd" where
  "ReadArrayFloat = rd_bind ReadInt16 (\<lambda>l. rd_slice 4 (sint l) ReadFloat32)"

definition ReadDecimalArray :: "i64 list rd" where
  "ReadDecimalArray = rd_bind ReadDecimal (\<lambda>l. rd_slice 8 (sint l) ReadDecimal)"

definition ReadDecimalIntArray :: "i32 list rd" where
  "ReadDecimalIntArray = rd_bind ReadDecimal (\<lambda>l.
     rd_slice 4 (sint l) (rd_bind ReadDecimal (\<lambda>v. rd_ret (ucast v))))"

text \<open>\<open>SkipBytes\<close> is only called with the constant 24, so its argument is a \<^typ>\<open>nat\<close>.\<close>

definition SkipBytes :: "nat \<Rightarrow> unit rd" where
  "SkipBytes n d = (case in_reader d of
     Some r \<Rightarrow> rd_bind (Read (int n)) (\<lambda>_. rd_ret ()) d
   | None \<Rightarrow>
       if in_offset d + n > length (in_buf d) then (Err ErrEOF, d)
       else (Ok (), d\<lparr>in_offset := in_offset d + n\<rparr>))"

subsection \<open>What is left to read\<close>

text \<open>The bytes an input still delivers, in both modes, and the input after \<open>n\<close> of them.\<close>

definition pending :: "din \<Rightarrow> bytes" where
  "pending d = (case in_reader d of Some r \<Rightarrow> r | None \<Rightarrow> drop (in_offset d) (in_buf d))"

definition advance :: "nat \<Rightarrow> din \<Rightarrow> din" where
  "advance n d = (case in_reader d of
     Some r \<Rightarrow> d\<lparr>in_reader := Some (drop n r), in_offset := in_offset d + n\<rparr>
   | None \<Rightarrow> d\<lparr>in_offset := in_offset d + n\<rparr>)"

lemma pending_advance [simp]: "pending (advance n d) = drop n (pending d)"
  by (simp add: pending_def advance_def add.commute split: option.split)

lemma advance_advance [simp]: "advance m (advance n d) = advance (n + m) d"
  by (simp add: advance_def ac_simps split: option.split)

lemma advance_0 [simp]: "advance 0 d = d"
  by (simp add: advance_def split: option.split)

lemma pending_New [simp]:
  "pending (NewDataInputX b) = b" "pending (NewDataInputXStream b) = b"
  "pending (NewDataInputXOffset b k) = drop k b"
  by (simp_all add: pending_def NewDataInputX_def NewDataInputXStream_def NewDataInputXOffset_def)

lemma in_reader_advance: "in_reader (advance n d) = None \<longleftrightarrow> in_reader d = None"
  by (simp add: advance_def split: option.split)

lemma Available_pos: "pending d \<noteq> [] \<Longrightarrow> Available d > 0"
  by (simp add: pending_def Available_def split: option.splits)

lemma Available_buffer: "in_reader d = None \<Longrightarrow> Available d > 0 \<longleftrightarrow> pending d \<noteq> []"
  by (auto simp: pending_def Available_def)

subsection \<open>Reading what was written\<close>

text \<open>
  \<open>consumes r bs v\<close>: where the pending bytes start with \<open>bs\<close>, the reader returns \<open>v\<close> and takes exactly
  \<open>bs\<close>. \<open>truncates r bs\<close>: where only a proper prefix of \<open>bs\<close> is pending, it fails with an
  end-of-data error. Both are stated for the two modes at once.
\<close>

definition consumes :: "'a rd \<Rightarrow> bytes \<Rightarrow> 'a \<Rightarrow> bool" where
  "consumes r bs v \<longleftrightarrow>
     (\<forall>d rest. pending d = bs @ rest \<longrightarrow> r d = (Ok v, advance (length bs) d))"

definition truncates :: "'a rd \<Rightarrow> bytes \<Rightarrow> bool" where
  "truncates r bs \<longleftrightarrow>
     (\<forall>d. strict_prefix (pending d) bs \<longrightarrow> (\<exists>e d'. r d = (Err e, d') \<and> is_eof e))"

named_theorems reads_intro "what an input operation consumes, and how it fails on less"

lemma consumesD: "consumes r bs v \<Longrightarrow> pending d = bs @ rest \<Longrightarrow> r d = (Ok v, advance (length bs) d)"
  by (simp add: consumes_def)

lemma consumes_ret [reads_intro]: "consumes (rd_ret v) [] v"
  by (simp add: consumes_def rd_ret_def)

lemma truncates_Nil [reads_intro]: "truncates r []"
  by (simp add: truncates_def)

lemma consumes_bind:
  assumes "consumes r a x" and "consumes (f x) b y"
  shows "consumes (rd_bind r f) (a @ b) y"
  using assms by (auto simp: consumes_def rd_bind_def)

lemma truncates_bind:
  assumes "consumes r a x" and "truncates r a" and "truncates (f x) b"
  shows "truncates (rd_bind r f) (a @ b)"
  unfolding truncates_def
proof (intro allI impI)
  fix d assume "strict_prefix (pending d) (a @ b)"
  then consider "strict_prefix (pending d) a"
    | q where "pending d = a @ q" "strict_prefix q b"
    by (metis strict_prefix_append_cases)
  then show "\<exists>e d'. rd_bind r f d = (Err e, d') \<and> is_eof e"
  proof cases
    case 1
    with assms(2) show ?thesis by (fastforce simp: truncates_def rd_bind_def)
  next
    case 2
    then have "r d = (Ok x, advance (length a) d)"
      using assms(1) by (simp add: consumes_def)
    moreover have "strict_prefix (pending (advance (length a) d)) b"
      using 2 by simp
    ultimately show ?thesis
      using assms(3) by (auto simp: truncates_def rd_bind_def)
  qed
qed

text \<open>
  The primitive readers of a fixed width: with \<open>k\<close> bytes pending they take them and convert them,
  with fewer they fail at the end of the data.
\<close>

definition fixed_reader :: "nat \<Rightarrow> (bytes \<Rightarrow> 'a) \<Rightarrow> 'a rd \<Rightarrow> bool" where
  "fixed_reader k f r \<longleftrightarrow>
     (\<forall>d. k \<le> length (pending d) \<longrightarrow> r d = (Ok (f (take k (pending d))), advance k d)) \<and>
     (\<forall>d. length (pending d) < k \<longrightarrow> (\<exists>e d'. r d = (Err e, d') \<and> is_eof e))"

lemma fixed_reader_consumes:
  "fixed_reader k f r \<Longrightarrow> length bs = k \<Longrightarrow> f bs = v \<Longrightarrow> consumes r bs v"
  by (auto simp: fixed_reader_def consumes_def)

lemma fixed_reader_truncates: "fixed_reader k f r \<Longrightarrow> length bs = k \<Longrightarrow> truncates r bs"
  using strict_prefix_length by (fastforce simp: fixed_reader_def truncates_def)

lemma fixed_reader_bind_ret:
  "fixed_reader k f r \<Longrightarrow> fixed_reader k (\<lambda>b. g (f b)) (rd_bind r (\<lambda>x. rd_ret (g x)))"
  by (fastforce simp: fixed_reader_def rd_bind_def rd_ret_def)

lemma fixed_reader_Read: "0 < k \<Longrightarrow> n = int k \<Longrightarrow> fixed_reader k (\<lambda>b. b) (Read n)"
  by (auto simp: fixed_reader_def Read_def pending_def advance_def split: option.splits)

lemma fixed_reader_ReadByte: "fixed_reader 1 hd ReadByte"
  by (auto simp: fixed_reader_def ReadByte_def pending_def advance_def hd_drop_conv_nth
      split: option.splits list.splits)

text \<open>The buffer branch of the multi-byte readers looks at the whole rest of the buffer.\<close>

lemma conv_take: "Uint16 (take 2 b) = Uint16 b" "Uint32 (take 4 b) = Uint32 b"
  "Uint64 (take 8 b) = Uint64 b"
  by (simp_all add: Uint16_def Uint32_def Uint64_def)

lemma fixed_reader_ReadInt16: "fixed_reader 2 Uint16 ReadInt16"
  using fixed_reader_bind_ret [OF fixed_reader_Read, of 2 2 Uint16]
  by (auto simp: fixed_reader_def ReadInt16_def pending_def advance_def conv_take
      split: option.splits)

lemma fixed_reader_ReadUint16: "fixed_reader 2 Uint16 ReadUint16"
  using fixed_reader_ReadInt16 by (simp add: fixed_reader_def ReadUint16_def ReadInt16_def)

lemma fixed_reader_ReadInt32: "fixed_reader 4 Uint32 ReadInt32"
  using fixed_reader_bind_ret [OF fixed_reader_Read, of 4 4 Uint32]
  by (auto simp: fixed_reader_def ReadInt32_def pending_def advance_def conv_take
      split: option.splits)

lemma fixed_reader_ReadInt64: "fixed_reader 8 Uint64 ReadInt64"
  using fixed_reader_bind_ret [OF fixed_reader_Read, of 8 8 Uint64]
  by (auto simp: fixed_reader_def ReadInt64_def pending_def advance_def conv_take
      split: option.splits)

lemma fixed_reader_ReadInt3: "fixed_reader 3 Int3 ReadInt3"
  unfolding ReadInt3_def by (rule fixed_reader_bind_ret [OF fixed_reader_Read]) simp_all

lemma fixed_reader_ReadLong5: "fixed_reader 5 Int5 ReadLong5"
  unfolding ReadLong5_def by (rule fixed_reader_bind_ret [OF fixed_reader_Read]) simp_all

lemma fixed_reader_ReadFloat32: "fixed_reader 4 Uint32 ReadFloat32"
  unfolding ReadFloat32_def using fixed_reader_bind_ret [OF fixed_reader_ReadInt32, of "\<lambda>x. x"] by simp

lemma fixed_reader_ReadFloat64: "fixed_reader 8 Uint64 ReadFloat64"
  unfolding ReadFloat64_def using fixed_reader_bind_ret [OF fixed_reader_ReadInt64, of "\<lambda>x. x"] by simp

lemma fixed_reader_ReadBoolean: "fixed_reader 1 (\<lambda>b. hd b \<noteq> 0) ReadBoolean"
  unfolding ReadBoolean_def by (rule fixed_reader_bind_ret [OF fixed_reader_ReadByte])

lemma fixed_reader_SkipBytes: "0 < k \<Longrightarrow> fixed_reader k (\<lambda>_. ()) (SkipBytes k)"
  using fixed_reader_bind_ret [OF fixed_reader_Read, of k "int k" "\<lambda>_. ()"]
  by (auto simp: fixed_reader_def SkipBytes_def pending_def advance_def split: option.splits)

lemmas fixed_readers = fixed_reader_Read fixed_reader_ReadByte fixed_reader_ReadInt16
  fixed_reader_ReadUint16 fixed_reader_ReadInt32 fixed_reader_ReadInt64 fixed_reader_ReadInt3
  fixed_reader_ReadLong5 fixed_reader_ReadFloat32 fixed_reader_ReadFloat64
  fixed_reader_ReadBoolean fixed_reader_SkipBytes

subsection \<open>How much a reader takes\<close>

text \<open>
  \<open>takes k r\<close>: a reader that succeeds has taken at least \<open>k\<close> of the pending bytes. The bounded
  recursions over the input terminate because of it.
\<close>

definition takes :: "nat \<Rightarrow> 'a rd \<Rightarrow> bool" where
  "takes k r \<longleftrightarrow>
     (\<forall>d v d'. r d = (Ok v, d') \<longrightarrow> length (pending d') + k \<le> length (pending d))"

named_theorems takes_intro "how many bytes an input operation takes at least"

lemma takesD: "takes k r \<Longrightarrow> r d = (Ok v, d') \<Longrightarrow> length (pending d') + k \<le> length (pending d)"
  by (simp add: takes_def)

lemma takes_mono: "takes k r \<Longrightarrow> j \<le> k \<Longrightarrow> takes j r"
  by (fastforce simp: takes_def)

lemma takes_ret [takes_intro]: "takes 0 (rd_ret v)"
  by (simp add: takes_def rd_ret_def)

lemma takes_fail [takes_intro]: "takes k (rd_fail e)" "takes k (rd_panic p)"
  by (simp_all add: takes_def rd_fail_def rd_panic_def)

lemma takes_bind:
  assumes "takes j r" and "\<And>x. takes k (f x)"
  shows "takes (j + k) (rd_bind r f)"
  using assms unfolding takes_def rd_bind_def
  by (fastforce split: prod.splits res.splits)

lemma takes_bind_first: "takes j r \<Longrightarrow> (\<And>x. takes 0 (f x)) \<Longrightarrow> takes j (rd_bind r f)"
  using takes_bind [of j r 0 f] by simp

lemma fixed_reader_takes: "fixed_reader k f r \<Longrightarrow> takes k r"
  unfolding takes_def
proof (intro allI impI)
  fix d v d' assume fr: "fixed_reader k f r" and ok: "r d = (Ok v, d')"
  have "k \<le> length (pending d)"
    using fr ok by (fastforce simp: fixed_reader_def not_le [symmetric])
  with fr ok show "length (pending d') + k \<le> length (pending d)"
    by (auto simp: fixed_reader_def)
qed

lemma takes_Read [takes_intro]: "takes 0 (Read n)"
  by (auto simp: takes_def Read_def pending_def split: option.splits if_splits)

lemmas takes_fixed [takes_intro] =
  fixed_reader_ReadByte [THEN fixed_reader_takes] fixed_reader_ReadInt16 [THEN fixed_reader_takes]
  fixed_reader_ReadUint16 [THEN fixed_reader_takes] fixed_reader_ReadInt32 [THEN fixed_reader_takes]
  fixed_reader_ReadInt64 [THEN fixed_reader_takes] fixed_reader_ReadInt3 [THEN fixed_reader_takes]
  fixed_reader_ReadLong5 [THEN fixed_reader_takes] fixed_reader_ReadBoolean [THEN fixed_reader_takes]

lemma takes_times [takes_intro]: "takes 0 r \<Longrightarrow> takes 0 (rd_times n r)"
proof (induction n)
  case 0
  show ?case by (simp add: takes_ret)
next
  case (Suc n)
  then show ?case by (auto intro!: takes_bind_first takes_ret)
qed

lemma takes_slice [takes_intro]: "takes 0 r \<Longrightarrow> takes 0 (rd_slice s n r)"
  by (simp add: rd_slice_def takes_times takes_fail)

end
