(* ===== verification/Codec.thy ===== *)
theory Codec
  imports DataOutput DataInput
begin

text \<open>
  The interface between the two halves of the protocol layer: \<open>wire w r v\<close> says that what the output
  operation \<open>w\<close> emits, the input operation \<open>r\<close> reads back as \<open>v\<close>, taking exactly those bytes, and
  that \<open>r\<close> reports the end of the data on every proper prefix of them. The locale \<open>codec\<close> is the
  contract of a type with a \<open>Write\<close> and a \<open>Read\<close> method; values, steps and packs are its instances.
\<close>

definition wire :: "(dout \<Rightarrow> dout) \<Rightarrow> 'a rd \<Rightarrow> 'a \<Rightarrow> bool" where
  "wire w r v \<longleftrightarrow> (\<exists>bs. emits w bs \<and> consumes r bs v \<and> truncates r bs)"

named_theorems wire_intro "matching output and input operations"

lemma wireI: "emits w bs \<Longrightarrow> consumes r bs v \<Longrightarrow> truncates r bs \<Longrightarrow> wire w r v"
  by (auto simp: wire_def)

lemma wireE:
  assumes "wire w r v"
  obtains bs where "emits w bs" "consumes r bs v" "truncates r bs"
  using assms by (auto simp: wire_def)

lemma wire_cong: "wire w r v' \<Longrightarrow> v' = v \<Longrightarrow> wire w r v"
  by simp

lemma wire_fixed:
  "emits w bs \<Longrightarrow> fixed_reader k f r \<Longrightarrow> length bs = k \<Longrightarrow> f bs = v \<Longrightarrow> wire w r v"
  by (blast intro: wireI fixed_reader_consumes fixed_reader_truncates)

lemma wire_seq: "wire w x v \<Longrightarrow> wire w' (f v) u \<Longrightarrow> wire (fcomp w w') (rd_bind x f) u"
  by (auto elim!: wireE intro!: wireI intro: emits_seq consumes_bind truncates_bind)

lemma wire_last: "wire w x v \<Longrightarrow> wire w (rd_bind x (\<lambda>y. rd_ret (f y))) (f v)"
proof -
  assume "wire w x v"
  then obtain bs where bs: "emits w bs" "consumes x bs v" "truncates x bs" by (rule wireE)
  from bs(2) consumes_ret [of "f v"]
  have "consumes (rd_bind x (\<lambda>y. rd_ret (f y))) (bs @ []) (f v)" by (rule consumes_bind)
  moreover from bs(2,3) truncates_Nil [of "rd_ret (f v)"]
  have "truncates (rd_bind x (\<lambda>y. rd_ret (f y))) (bs @ [])" by (rule truncates_bind)
  ultimately show ?thesis using bs(1) by (auto intro: wireI)
qed

lemma wire_if: "(c \<Longrightarrow> wire w r v) \<Longrightarrow> (\<not> c \<Longrightarrow> wire w' r v) \<Longrightarrow> wire (if c then w else w') r v"
  by simp

subsection \<open>The primitive operations\<close>

lemma wire_Byte [wire_intro]: "wire (WriteByte v) ReadByte v"
  by (rule wire_fixed [OF emits_WriteByte fixed_reader_ReadByte]) simp_all

lemma wire_Boolean [wire_intro]: "wire (WriteBoolean v) ReadBoolean v"
  by (rule wire_fixed [OF emits_WriteBoolean fixed_reader_ReadBoolean]) simp_all

lemma wire_Int16 [wire_intro]: "wire (WriteInt16 v) ReadInt16 v"
  by (rule wire_fixed [OF emits_WriteInt16 fixed_reader_ReadInt16]) simp_all

lemma wire_Uint16 [wire_intro]: "wire (WriteUint16 v) ReadUint16 v"
  by (rule wire_fixed [OF emits_WriteUint16 fixed_reader_ReadUint16]) simp_all

lemma wire_Int32 [wire_intro]: "wire (WriteInt32 v) ReadInt32 v"
  by (rule wire_fixed [OF emits_WriteInt32 fixed_reader_ReadInt32]) simp_all

lemma wire_Int64 [wire_intro]: "wire (WriteInt64 v) ReadInt64 v"
  by (rule wire_fixed [OF emits_WriteInt64 fixed_reader_ReadInt64]) simp_all

lemma wire_Float32 [wire_intro]: "wire (WriteFloat32 v) ReadFloat32 v"
  by (rule wire_fixed [OF emits_WriteFloat32 fixed_reader_ReadFloat32]) simp_all

lemma wire_Float64 [wire_intro]: "wire (WriteFloat64 v) ReadFloat64 v"
  by (rule wire_fixed [OF emits_WriteFloat64 fixed_reader_ReadFloat64]) simp_all

lemma wire_Int3: "fits3 v \<Longrightarrow> wire (WriteInt3 v) ReadInt3 v"
  by (rule wire_fixed [OF emits_WriteInt3 fixed_reader_ReadInt3]) simp_all

lemma wire_Long5: "fits5 v \<Longrightarrow> wire (WriteLong5 v) ReadLong5 v"
  by (rule wire_fixed [OF emits_WriteLong5 fixed_reader_ReadLong5]) simp_all

lemma wire_Write: "bs \<noteq> [] \<Longrightarrow> n = int (length bs) \<Longrightarrow> wire (Write bs) (Read n) bs"
  by (rule wire_fixed [OF emits_Write fixed_reader_Read [of "length bs"]]) simp_all

text \<open>The variable-length integer: every \<open>int64\<close> comes back, whatever length class it is in.\<close>

lemma wire_tagged:
  assumes "wire w r v" and "f t = r"
  shows "wire (fcomp (WriteByte t) w) (rd_bind ReadByte f) v"
  using assms by (auto intro: wire_seq wire_Byte)

lemma wire_tag_only:
  assumes "f t = rd_ret v"
  shows "wire (WriteByte t) (rd_bind ReadByte f) v"
proof -
  have c: "consumes ReadByte [t] t" and t: "truncates ReadByte [t]"
    by (simp_all add: fixed_reader_consumes [OF fixed_reader_ReadByte]
        fixed_reader_truncates [OF fixed_reader_ReadByte])
  have "consumes (f t) [] v" unfolding assms by (rule consumes_ret)
  with c have "consumes (rd_bind ReadByte f) ([t] @ []) v" by (rule consumes_bind)
  moreover have "truncates (rd_bind ReadByte f) ([t] @ [])"
    using c t truncates_Nil by (rule truncates_bind)
  ultimately show ?thesis by (auto intro: wireI [OF emits_WriteByte])
qed

lemma wire_Decimal_narrow:
  fixes w :: "'b::len word \<Rightarrow> dout \<Rightarrow> dout" and v :: i64
  assumes "\<And>x. wire (w x) r x" and "ReadDecimal = rd_bind ReadByte f"
    and "f t = rd_bind r (\<lambda>x. rd_ret (scast x))" and "LENGTH('b) \<le> 64"
    and "- (2 ^ (LENGTH('b) - 1)) \<le> sint v" and "sint v < 2 ^ (LENGTH('b) - 1)"
  shows "wire (fcomp (WriteByte t) (w (ucast v))) ReadDecimal v"
proof -
  have "scast (ucast v :: 'b word) = v" using assms(4-6) by (intro scast_ucast_narrow) simp_all
  then have "wire (w (ucast v)) (rd_bind r (\<lambda>x. rd_ret (scast x))) v"
    using wire_last [OF assms(1), of "ucast v" "scast :: 'b word \<Rightarrow> i64"] by simp
  then show ?thesis unfolding assms(2) using assms(3) by (rule wire_tagged)
qed

lemma wire_Decimal [wire_intro]: "wire (WriteDecimal v) ReadDecimal v"
proof -
  show ?thesis
  proof (cases "v = 0")
    case True
    then show ?thesis by (simp add: WriteDecimal_def ReadDecimal_def wire_tag_only)
  next
    case nz: False
    consider "-128 \<le> sint v \<and> sint v \<le> 127"
      | "\<not> (-128 \<le> sint v \<and> sint v \<le> 127)" "-32768 \<le> sint v \<and> sint v \<le> 32767"
      | "\<not> (-32768 \<le> sint v \<and> sint v \<le> 32767)" "-8388608 \<le> sint v \<and> sint v \<le> 8388607"
      | "\<not> (-8388608 \<le> sint v \<and> sint v \<le> 8388607)"
        "-2147483648 \<le> sint v \<and> sint v \<le> 2147483647"
      | "\<not> (-2147483648 \<le> sint v \<and> sint v \<le> 2147483647)" "fits5 v"
      | "\<not> fits5 v"
      by blast
    then show ?thesis
    proof cases
      case 1
      then have "wire (fcomp (WriteByte 1) (WriteByte (ucast v))) ReadDecimal v"
        by (intro wire_Decimal_narrow [OF wire_Byte ReadDecimal_def]) simp_all
      with nz 1 show ?thesis unfolding WriteDecimal_def by auto
    next
      case 2
      then have "wire (fcomp (WriteByte 2) (WriteInt16 (ucast v))) ReadDecimal v"
        by (intro wire_Decimal_narrow [OF wire_Int16 ReadDecimal_def]) simp_all
      with nz 2 show ?thesis unfolding WriteDecimal_def by auto
    next
      case 3
      then have eq: "sint (ucast v :: i32) = sint v"
        by (intro sint_ucast_narrow) auto
      then have "scast (ucast v :: i32) = v"
        using 3 by (intro scast_ucast_narrow) auto
      moreover have "wire (WriteInt3 (ucast v)) (rd_bind ReadInt3 (\<lambda>x. rd_ret (scast x :: i64)))
          (scast (ucast v :: i32))"
        using 3 by (intro wire_last wire_Int3) (simp add: fits3_def eq)
      ultimately have "wire (fcomp (WriteByte 3) (WriteInt3 (ucast v))) ReadDecimal v"
        by (auto simp: ReadDecimal_def intro: wire_tagged)
      with nz 3 show ?thesis unfolding WriteDecimal_def by auto
    next
      case 4
      then have "wire (fcomp (WriteByte 4) (WriteInt32 (ucast v))) ReadDecimal v"
        by (intro wire_Decimal_narrow [OF wire_Int32 ReadDecimal_def]) simp_all
      with nz 4 show ?thesis unfolding WriteDecimal_def by auto
    next
      case 5
      then have "wire (fcomp (WriteByte 5) (WriteLong5 v)) ReadDecimal v"
        by (auto simp: ReadDecimal_def intro: wire_tagged wire_Long5)
      with nz 5 show ?thesis unfolding WriteDecimal_def fits5_def by auto
    next
      case 6
      then have "wire (fcomp (WriteByte 8) (WriteInt64 v)) ReadDecimal v"
        by (auto simp: ReadDecimal_def intro: wire_tagged wire_Int64)
      with nz 6 show ?thesis by (auto simp: WriteDecimal_def fits5_def)
    qed
  qed
qed

subsection \<open>Blobs, texts and arrays\<close>

text \<open>A blob of up to \<open>2 ^ 31 - 1\<close> bytes: beyond that \<open>int32(len(b))\<close> is negative.\<close>

definition ok_blob :: "bytes \<Rightarrow> bool" where
  "ok_blob b \<longleftrightarrow> length b < 2 ^ 31"

definition ok_text :: "string \<Rightarrow> bool" where
  "ok_text s \<longleftrightarrow> length s < 2 ^ 31"

lemma wire_sized:
  assumes "wire w r l" and "f l = Read (int (length b))" and "b \<noteq> []"
  shows "wire (fcomp w (Write b)) (rd_bind r f) b"
  using assms by (intro wire_seq [of w r l]) (auto intro: wire_Write)

lemma wire_Blob [wire_intro]:
  assumes "ok_blob b"
  shows "wire (WriteBlob b) ReadBlob b"
proof -
  consider "b = []" | "b \<noteq> []" "length b \<le> 253" | "\<not> length b \<le> 253" "length b \<le> 65535"
    | "\<not> length b \<le> 65535" by fastforce
  then show ?thesis
  proof cases
    case 1
    then show ?thesis by (auto simp: WriteBlob_def ReadBlob_def intro: wire_tag_only)
  next
    case 2
    let ?n = "word_of_nat (length b) :: byte"
    have u: "uint ?n = int (length b)" using 2 by (intro uint_word_of_nat) simp
    with 2 have "?n \<noteq> 0" "?n \<noteq> 255" "?n \<noteq> 254" by (auto simp flip: uint_0_iff)
    with 2 u have "wire (fcomp (WriteByte ?n) (Write b)) ReadBlob b"
      unfolding ReadBlob_def by (intro wire_sized [OF wire_Byte]) auto
    with 2 show ?thesis by (auto simp: WriteBlob_def)
  next
    case 3
    let ?n = "word_of_nat (length b) :: i16"
    have "uint ?n = int (length b)" using 3 by (intro uint_word_of_nat) simp
    with 3 have "wire (fcomp (WriteUint16 ?n) (Write b)) (rd_bind ReadUint16 (\<lambda>l. Read (uint l))) b"
      by (intro wire_sized [OF wire_Uint16]) auto
    then have "wire (fcomp (WriteByte 255) (fcomp (WriteUint16 ?n) (Write b))) ReadBlob b"
      unfolding ReadBlob_def by (rule wire_tagged) simp
    with 3 show ?thesis by (auto simp: WriteBlob_def writes.simps fcomp_assoc)
  next
    case 4
    let ?n = "word_of_nat (length b) :: i32"
    have "sint ?n = int (length b)" using assms by (intro sint_word_of_nat) (simp add: ok_blob_def)
    with 4 have "wire (fcomp (WriteInt32 ?n) (Write b)) (rd_bind ReadInt32 (\<lambda>l. Read (sint l))) b"
      by (intro wire_sized [OF wire_Int32]) auto
    then have "wire (fcomp (WriteByte 254) (fcomp (WriteInt32 ?n) (Write b))) ReadBlob b"
      unfolding ReadBlob_def by (rule wire_tagged) simp
    with 4 show ?thesis by (auto simp: WriteBlob_def writes.simps fcomp_assoc)
  qed
qed

lemma WriteText_Blob: "WriteText s = WriteBlob (bytes_of_string s)"
  by (simp add: WriteText_def WriteBlob_def)

lemma wire_Text [wire_intro]: "ok_text s \<Longrightarrow> wire (WriteText s) ReadText s"
  using wire_last [OF wire_Blob, of "bytes_of_string s" string_of_bytes]
  by (simp add: WriteText_Blob ReadText_def ok_blob_def ok_text_def)

lemma wire_sized_any:
  assumes "wire w r l" and "f l = Read (int (length b))" and "b = [] \<Longrightarrow> wire w (rd_bind r f) []"
  shows "wire (fcomp w (Write b)) (rd_bind r f) b"
proof (cases "b = []")
  case True
  have "fcomp w (Write []) = w" by (simp add: fcomp_def Write_def fun_eq_iff split: option.split)
  with True assms(3) show ?thesis by simp
qed (use assms in \<open>auto intro: wire_sized\<close>)

text \<open>A count and then as many elements.\<close>

lemma wire_fold:
  assumes "\<And>x. x \<in> set xs \<Longrightarrow> wire (w x) r (h x)"
  shows "wire (fold w xs) (rd_times (length xs) r) (map h xs)"
  using assms
proof (induction xs)
  case Nil
  have "emits id []" using emits_fold [of "[]" w] by simp
  then have "wire id (rd_ret []) []" by (rule wireI [OF _ consumes_ret truncates_Nil])
  then show ?case by (simp add: id_def)
next
  case (Cons x xs)
  then have "wire (fcomp (w x) (fold w xs))
      (rd_bind r (\<lambda>x. rd_bind (rd_times (length xs) r) (\<lambda>xs. rd_ret (x # xs)))) (h x # map h xs)"
    by (intro wire_seq [of "w x" r "h x"] wire_last [of _ _ "map h xs"]) simp_all
  then show ?case by (simp add: fcomp_def comp_def)
qed

lemma wire_slice:
  assumes "\<And>x. x \<in> set xs \<Longrightarrow> wire (w x) r (h x)"
    and "n = int (length xs)" and "make_ok esize n"
  shows "wire (fold w xs) (rd_slice esize n r) (map h xs)"
  using wire_fold [OF assms(1)] assms(2,3) by (simp add: rd_slice_def)

definition ok_array16 :: "'a slice \<Rightarrow> bool" where
  "ok_array16 v \<longleftrightarrow> length (elems v) < 2 ^ 15"

lemma wire_array16:
  fixes v :: "'a slice"
  assumes "ok_array16 v" and "\<And>x. x \<in> set (elems v) \<Longrightarrow> wire (w x) r x" and "0 < s" "s \<le> 16"
    and "\<And>xs. arr (Some xs) = fcomp (WriteInt16 (word_of_nat (length xs))) (fold w xs)"
    and "arr None = WriteInt16 0"
  shows "wire (arr v) (rd_bind ReadInt16 (\<lambda>l. rd_slice s (sint l) r)) (elems v)"
proof -
  let ?xs = "elems v"
  have len: "sint (word_of_nat (length ?xs) :: i16) = int (length ?xs)"
    using assms(1) by (intro sint_word_of_nat) (simp add: ok_array16_def)
  moreover have "make_ok s (int (length ?xs))"
  proof -
    have "int (length ?xs) * s \<le> 2 ^ 15 * 16"
      using assms(1,3,4) by (intro mult_mono) (simp_all add: ok_array16_def)
    then show ?thesis by (simp add: make_ok_def max_alloc_def)
  qed
  ultimately have "wire (fcomp (WriteInt16 (word_of_nat (length ?xs))) (fold w ?xs))
      (rd_bind ReadInt16 (\<lambda>l. rd_slice s (sint l) r)) (map (\<lambda>x. x) ?xs)"
    using assms(2) by (intro wire_seq [OF wire_Int16] wire_slice) simp_all
  moreover have "arr v = fcomp (WriteInt16 (word_of_nat (length ?xs))) (fold w ?xs)"
    using assms(5,6) by (cases v) (simp_all add: fcomp_def)
  ultimately show ?thesis by simp
qed

lemma wire_ArrayInt [wire_intro]: "ok_array16 v \<Longrightarrow> wire (WriteArrayInt v) ReadArrayInt (elems v)"
  unfolding ReadArrayInt_def
  by (rule wire_array16 [where w = WriteInt32]) (simp_all add: WriteArrayInt_def fcomp_def wire_Int32)

lemma wire_ArrayLong [wire_intro]: "ok_array16 v \<Longrightarrow> wire (WriteArrayLong v) ReadArrayLong (elems v)"
  unfolding ReadArrayLong_def
  by (rule wire_array16 [where w = WriteInt64]) (simp_all add: WriteArrayLong_def fcomp_def wire_Int64)

lemma wire_ArrayFloat [wire_intro]: "ok_array16 v \<Longrightarrow> wire (WriteArrayFloat v) ReadArrayFloat (elems v)"
  unfolding ReadArrayFloat_def
  by (rule wire_array16 [where w = WriteFloat32]) (simp_all add: WriteArrayFloat_def fcomp_def wire_Float32)

text \<open>The arrays with a decimal count; what bounds them is the allocation of the reader.\<close>

definition ok_array :: "'a slice \<Rightarrow> bool" where
  "ok_array v \<longleftrightarrow> length (elems v) \<le> 2 ^ 40"

lemma make_ok_array: "ok_array v \<Longrightarrow> 0 \<le> s \<Longrightarrow> s \<le> 64 \<Longrightarrow> make_ok s (int (length (elems v)))"
proof -
  assume "ok_array v" "0 \<le> s" "s \<le> 64"
  then have "int (length (elems v)) * s \<le> 2 ^ 40 * 64"
    by (intro mult_mono) (simp_all add: ok_array_def)
  then show ?thesis by (simp add: make_ok_def max_alloc_def)
qed

lemma sint_ok_array: "ok_array v \<Longrightarrow> sint (word_of_nat (length (elems v)) :: i64) = int (length (elems v))"
  by (intro sint_word_of_nat) (simp add: ok_array_def)

lemma wire_DecimalArray [wire_intro]:
  assumes "ok_array v"
  shows "wire (WriteDecimalArray v) ReadDecimalArray (elems v)"
proof -
  let ?xs = "elems v"
  have "WriteDecimalArray v = fcomp (WriteDecimal (word_of_nat (length ?xs))) (fold WriteDecimal ?xs)"
    by (cases v) (simp_all add: WriteDecimalArray_def fcomp_def)
  moreover have "wire (fold WriteDecimal ?xs) (rd_slice 8 (sint (word_of_nat (length ?xs) :: i64)) ReadDecimal)
      (map (\<lambda>x. x) ?xs)"
    using assms by (intro wire_slice) (simp_all add: wire_Decimal sint_ok_array make_ok_array)
  ultimately show ?thesis
    unfolding ReadDecimalArray_def using wire_seq [OF wire_Decimal] by fastforce
qed

lemma wire_Decimal32: "wire (WriteDecimal (scast x)) (rd_bind ReadDecimal (\<lambda>v. rd_ret (ucast v))) (x :: i32)"
  using wire_last [OF wire_Decimal, of "scast x" "ucast :: i64 \<Rightarrow> i32"] by (simp add: ucast_scast_widen)

lemma wire_DecimalIntArray [wire_intro]:
  assumes "ok_array v"
  shows "wire (WriteDecimalIntArray v) ReadDecimalIntArray (elems v)"
proof -
  let ?xs = "elems v" and ?w = "\<lambda>x :: i32. WriteDecimal (scast x)"
  have "WriteDecimalIntArray v = fcomp (WriteDecimal (word_of_nat (length ?xs))) (fold ?w ?xs)"
    by (cases v) (simp_all add: WriteDecimalIntArray_def fcomp_def)
  moreover have "wire (fold ?w ?xs)
      (rd_slice 4 (sint (word_of_nat (length ?xs) :: i64)) (rd_bind ReadDecimal (\<lambda>v. rd_ret (ucast v))))
      (map (\<lambda>x. x) ?xs)"
    using assms by (intro wire_slice) (simp_all add: wire_Decimal32 sint_ok_array make_ok_array)
  ultimately show ?thesis
    unfolding ReadDecimalIntArray_def using wire_seq [OF wire_Decimal] by fastforce
qed

text \<open>The length-prefixed forms of \<open>ReadIntBytes\<close> and \<open>ReadShortBytes\<close>; an empty one reads 0 bytes.\<close>

lemma wire_fixed_empty:
  assumes "emits w bs" and "fixed_reader k g r" and "length bs = k" and "0 < k"
    and "f (g bs) = Read 0"
  shows "wire w (rd_bind r f) []"
proof -
  have r: "consumes r bs (g bs)" "truncates r bs"
    using assms(2,3) by (auto intro: fixed_reader_consumes fixed_reader_truncates)
  have "rd_bind r f d = (Ok [], advance k d)" if p: "pending d = bs @ rest" for d rest
  proof -
    have "r d = (Ok (g bs), advance k d)" using consumesD [OF r(1) p] assms(3) by simp
    moreover have "Read 0 (advance k d) = (Ok [], advance k d)"
      using arg_cong [OF p, of length] assms(3,4)
      by (auto simp: Read_def advance_def pending_def split: option.splits)
    ultimately show ?thesis by (simp add: rd_bind_def assms(5))
  qed
  then have "consumes (rd_bind r f) bs []" by (simp add: consumes_def assms(3))
  moreover have "truncates (rd_bind r f) bs"
    using r(2) by (fastforce simp: truncates_def rd_bind_def)
  ultimately show ?thesis using assms(1) by (blast intro: wireI)
qed

lemma wire_IntBytes [wire_intro]:
  assumes "ok_blob b"
  shows "wire (WriteIntBytes b) ReadIntBytes b"
proof -
  have "sint (word_of_nat (length b) :: i32) = int (length b)"
    using assms by (intro sint_word_of_nat) (simp add: ok_blob_def)
  then show ?thesis unfolding WriteIntBytes_def ReadIntBytes_def writes.simps
    by (intro wire_sized_any [OF wire_Int32])
      (auto intro: wire_fixed_empty [OF emits_WriteInt32 fixed_reader_ReadInt32])
qed

lemma wire_ShortBytes [wire_intro]:
  assumes "length b < 2 ^ 16"
  shows "wire (WriteShortBytes b) ReadShortBytes b"
proof -
  have "uint (word_of_nat (length b) :: i16) = int (length b)"
    using assms by (intro uint_word_of_nat) simp
  moreover have "wire (WriteInt16 v) ReadUint16 v" for v
    by (rule wire_fixed [OF emits_WriteInt16 fixed_reader_ReadUint16]) simp_all
  ultimately show ?thesis unfolding WriteShortBytes_def ReadShortBytes_def writes.simps
    by (intro wire_sized_any [where l = "word_of_nat (length b)"])
      (auto intro: wire_fixed_empty [OF emits_WriteInt16 fixed_reader_ReadUint16])
qed

subsection \<open>The readers make progress\<close>

lemma takes_if: "(c \<Longrightarrow> takes k r) \<Longrightarrow> (\<not> c \<Longrightarrow> takes k r') \<Longrightarrow> takes k (if c then r else r')"
  by simp

lemma takes_weaken: "takes k r \<Longrightarrow> takes 0 r"
  by (rule takes_mono) simp_all

lemma takes_Decimal [takes_intro]: "takes 1 ReadDecimal"
  unfolding ReadDecimal_def
  by (rule takes_bind_first takes_if takes_fixed takes_ret takes_fixed [THEN takes_weaken])+

lemma takes_Blob [takes_intro]: "takes 1 ReadBlob"
  unfolding ReadBlob_def
  by (rule takes_bind_first takes_if takes_fixed takes_ret takes_Read takes_fixed [THEN takes_weaken])+

lemma takes_Text [takes_intro]: "takes 1 ReadText"
  unfolding ReadText_def by (rule takes_bind_first takes_Blob takes_ret)+

lemma takes_Float32 [takes_intro]: "takes 4 ReadFloat32"
  by (rule fixed_reader_takes [OF fixed_reader_ReadFloat32])

lemma takes_Float64 [takes_intro]: "takes 8 ReadFloat64"
  by (rule fixed_reader_takes [OF fixed_reader_ReadFloat64])

lemma takes_IntBytes [takes_intro]: "takes 4 ReadIntBytes"
  unfolding ReadIntBytes_def by (rule takes_bind_first takes_fixed takes_Read)+

lemma takes_array16: "takes k r \<Longrightarrow> takes 2 (rd_bind ReadInt16 (\<lambda>l. rd_slice s (sint l) r))"
  by (rule takes_bind_first takes_fixed takes_slice | erule takes_weaken)+

lemma takes_Array [takes_intro]: "takes 2 ReadArrayInt" "takes 2 ReadArrayLong" "takes 2 ReadArrayFloat"
  unfolding ReadArrayInt_def ReadArrayLong_def ReadArrayFloat_def
  by (rule takes_array16 takes_fixed takes_Float32)+

section \<open>The contract of a type with a Write and a Read method\<close>

locale codec =
  fixes put :: "'a \<Rightarrow> dout \<Rightarrow> dout" and get :: "'b rd"
    and ok :: "'a \<Rightarrow> bool" and norm :: "'a \<Rightarrow> 'b"
  assumes wire: "ok x \<Longrightarrow> wire (put x) get (norm x)"
begin

lemma put_bytes:
  assumes "ok x"
  obtains bs where "emits (put x) bs" "consumes get bs (norm x)" "truncates get bs"
    "ToByteArray (put x NewDataOutputX) = bs"
  using wire [OF assms] by (auto elim!: wireE simp: emits_ToByteArray)

text \<open>What is written to a buffer or to a stream is the same, and is read back from both.\<close>

lemma modes_agree: "ok x \<Longrightarrow> out_bytes (put x NewDataOutputXStream) = ToByteArray (put x NewDataOutputX)"
  by (erule put_bytes) (simp add: emits_out_bytes, simp add: out_bytes_def NewDataOutputXStream_def)

lemma Size_put: "ok x \<Longrightarrow> Size (put x NewDataOutputX) = length (ToByteArray (put x NewDataOutputX))"
  by (erule put_bytes) (simp add: emits_Size, simp add: Size_def NewDataOutputX_def)

lemma read_back:
  assumes "ok x" and "pending d = ToByteArray (put x NewDataOutputX) @ rest"
  shows "get d = (Ok (norm x), advance (Size (put x NewDataOutputX)) d)"
  using assms(1)
proof (rule put_bytes)
  fix bs assume bs: "emits (put x) bs" "consumes get bs (norm x)" "ToByteArray (put x NewDataOutputX) = bs"
  moreover have "Size (put x NewDataOutputX) = length bs"
    using emits_Size [OF bs(1), of NewDataOutputX] by (simp add: Size_def NewDataOutputX_def)
  ultimately show ?thesis using assms(2) by (simp add: consumesD)
qed

lemma round_trip: "ok x \<Longrightarrow> fst (get (NewDataInputX (ToByteArray (put x NewDataOutputX)))) = Ok (norm x)"
  by (simp add: read_back [where rest = "[]"])

lemma round_trip_stream:
  "ok x \<Longrightarrow> fst (get (NewDataInputXStream (out_bytes (put x NewDataOutputXStream)))) = Ok (norm x)"
  by (simp add: read_back [where rest = "[]"] modes_agree)

lemma truncated:
  assumes "ok x" and "n < length (ToByteArray (put x NewDataOutputX))"
  shows "\<exists>e d. get (NewDataInputX (take n (ToByteArray (put x NewDataOutputX)))) = (Err e, d) \<and> is_eof e"
  using assms(1)
proof (rule put_bytes)
  fix bs assume bs: "truncates get bs" "ToByteArray (put x NewDataOutputX) = bs"
  then have "strict_prefix (take n bs) bs"
    using assms(2) by (auto simp: strict_prefix_def take_is_prefix)
  with bs show ?thesis by (simp add: truncates_def)
qed

text \<open>The encoding determines the value, even when something follows it.\<close>

lemma prefix_free:
  assumes "ok x" and "ok y"
    and "ToByteArray (put x NewDataOutputX) @ r = ToByteArray (put y NewDataOutputX) @ s"
  shows "norm x = norm y"
  using read_back [OF assms(1), of "NewDataInputX (ToByteArray (put x NewDataOutputX) @ r)" r]
    read_back [OF assms(2), of "NewDataInputX (ToByteArray (put x NewDataOutputX) @ r)" s] assms(3)
  by simp

text \<open>A run of values is read back by as many reads.\<close>

lemma wire_list: "(\<And>x. x \<in> set xs \<Longrightarrow> ok x) \<Longrightarrow> wire (fold put xs) (rd_times (length xs) get) (map norm xs)"
  by (intro wire_fold wire)

end

subsection \<open>The zero-copy blob read\<close>

text \<open>
  \<open>ReadBlobRef\<close> returns a part of the buffer instead of a copy of it. It yields what \<open>ReadBlob\<close>
  yields, with the same errors; a negative length panics in both, in one in \<open>make\<close> and in the
  other in the slice expression.
\<close>

lemma ReadBlobRef_stream: "in_reader d = Some r \<Longrightarrow> ReadBlobRef d = ReadBlob d"
  by (simp add: ReadBlobRef_def)

lemma in_reader_ReadByte: "in_reader d = None \<Longrightarrow> in_reader (snd (ReadByte d)) = None"
  by (simp add: ReadByte_def)

lemma in_reader_ReadUint16: "in_reader d = None \<Longrightarrow> in_reader (snd (ReadUint16 d)) = None"
  by (simp add: ReadUint16_def)

lemma in_reader_ReadInt32: "in_reader d = None \<Longrightarrow> in_reader (snd (ReadInt32 d)) = None"
  by (simp add: ReadInt32_def)

lemma ReadBlobRef_agrees:
  "ReadBlobRef d = ReadBlob d \<or>
   (fst (ReadBlobRef d) = Panic SliceBounds \<and> fst (ReadBlob d) = Panic MakeSliceLen)"
proof (cases "in_reader d")
  case None
  then show ?thesis
    using in_reader_ReadByte [of d] in_reader_ReadUint16 [of "snd (ReadByte d)"]
      in_reader_ReadInt32 [of "snd (ReadByte d)"]
    by (auto simp: ReadBlobRef_def ReadBlob_def rd_bind_def rd_ret_def Read_def
        split: prod.splits res.splits)
qed (simp add: ReadBlobRef_stream)

lemma ReadBlobRef_not_panic: "fst (ReadBlob d) \<noteq> Panic MakeSliceLen \<Longrightarrow> ReadBlobRef d = ReadBlob d"
  using ReadBlobRef_agrees by blast

lemma consumes_BlobRef: "consumes ReadBlob bs v \<Longrightarrow> consumes ReadBlobRef bs v"
  unfolding consumes_def using ReadBlobRef_not_panic by (metis fst_conv res.distinct(3))

lemma truncates_BlobRef: "truncates ReadBlob bs \<Longrightarrow> truncates ReadBlobRef bs"
  unfolding truncates_def using ReadBlobRef_not_panic by (metis fst_conv res.distinct(5))

lemma wire_BlobRef [wire_intro]: "ok_blob b \<Longrightarrow> wire (WriteBlob b) ReadBlobRef b"
  using wire_Blob by (blast elim: wireE intro: wireI consumes_BlobRef truncates_BlobRef)

section \<open>Bounded recursion over the input\<close>

text \<open>
  Two readers agree below \<open>n\<close> if they do the same on fewer than \<open>n\<close> pending bytes. \<open>fails n E P r\<close>
  names the errors and the panics a reader can end with there.
\<close>

definition agree :: "nat \<Rightarrow> 'a rd \<Rightarrow> 'a rd \<Rightarrow> bool" where
  "agree n r r' \<longleftrightarrow> (\<forall>d. length (pending d) < n \<longrightarrow> r d = r' d)"

definition fails :: "nat \<Rightarrow> (go_error \<Rightarrow> bool) \<Rightarrow> (go_panic \<Rightarrow> bool) \<Rightarrow> 'a rd \<Rightarrow> bool" where
  "fails n E P r \<longleftrightarrow> (\<forall>d. length (pending d) < n \<longrightarrow>
     (case fst (r d) of Ok x \<Rightarrow> True | Err e \<Rightarrow> E e | Panic p \<Rightarrow> P p))"

named_theorems agree_intro "readers that differ only in a reader they call"
named_theorems fails_intro "the errors and panics of a reader"

lemma agree_refl [agree_intro]: "agree n r r"
  by (simp add: agree_def)

lemma agree_mono: "agree n r r' \<Longrightarrow> m \<le> n \<Longrightarrow> agree m r r'"
  by (simp add: agree_def)

lemma agree_bind:
  assumes "takes k r" and "agree (n + k) r r'" and "\<And>x. agree n (f x) (f' x)"
  shows "agree (n + k) (rd_bind r f) (rd_bind r' f')"
  unfolding agree_def
proof (intro allI impI)
  fix d assume "length (pending d) < n + k"
  with assms(2) takesD [OF assms(1), of d] assms(3) show "rd_bind r f d = rd_bind r' f' d"
    by (fastforce simp: agree_def rd_bind_def split: prod.splits res.splits)
qed

lemma agree_bind0 [agree_intro]:
  "takes 0 r \<Longrightarrow> agree n r r' \<Longrightarrow> (\<And>x. agree n (f x) (f' x)) \<Longrightarrow> agree n (rd_bind r f) (rd_bind r' f')"
  using agree_bind [of 0 r n r' f f'] by simp

lemma agree_times: "takes 0 r \<Longrightarrow> agree n r r' \<Longrightarrow> agree n (rd_times k r) (rd_times k r')"
proof (induction k)
  case (Suc k)
  then show ?case
    by (auto intro!: agree_bind0 agree_refl takes_times)
qed (simp add: agree_refl)

lemma agree_slice [agree_intro]: "takes 0 r \<Longrightarrow> agree n r r' \<Longrightarrow> agree n (rd_slice s k r) (rd_slice s k r')"
  by (simp add: rd_slice_def agree_times agree_refl)

lemma failsI_outcome:
  "(\<And>d. case fst (r d) of Ok x \<Rightarrow> True | Err e \<Rightarrow> E e | Panic p \<Rightarrow> P p) \<Longrightarrow> fails n E P r"
  by (simp add: fails_def)

lemma fails_ret [fails_intro]: "fails n E P (rd_ret v)"
  by (simp add: fails_def rd_ret_def)

lemma fails_fail: "E e \<Longrightarrow> fails n E P (rd_fail e)"
  by (simp add: fails_def rd_fail_def)

lemma fails_panic: "P p \<Longrightarrow> fails n E P (rd_panic p)"
  by (simp add: fails_def rd_panic_def)

lemma fails_mono: "fails n E P r \<Longrightarrow> m \<le> n \<Longrightarrow> fails m E P r"
  by (simp add: fails_def)

lemma fails_bind:
  assumes "takes k r" and "fails (n + k) E P r" and "\<And>x. fails n E P (f x)"
  shows "fails (n + k) E P (rd_bind r f)"
  unfolding fails_def
proof (intro allI impI)
  fix d assume d: "length (pending d) < n + k"
  obtain res d' where r: "r d = (res, d')" by (cases "r d")
  show "case fst (rd_bind r f d) of Ok x \<Rightarrow> True | Err e \<Rightarrow> E e | Panic p \<Rightarrow> P p"
  proof (cases res)
    case (Ok x)
    then have "length (pending d') < n" using takesD [OF assms(1)] r d by fastforce
    with assms(3) [of x] Ok r show ?thesis by (simp add: fails_def rd_bind_def)
  next
    case (Err e)
    then show ?thesis using assms(2) d r by (fastforce simp: fails_def rd_bind_def)
  next
    case (Panic p)
    then show ?thesis using assms(2) d r by (fastforce simp: fails_def rd_bind_def)
  qed
qed

lemma fails_bind0 [fails_intro]:
  "takes 0 r \<Longrightarrow> fails n E P r \<Longrightarrow> (\<And>x. fails n E P (f x)) \<Longrightarrow> fails n E P (rd_bind r f)"
  using fails_bind [of 0 r n E P f] by simp

lemma fails_times: "takes 0 r \<Longrightarrow> fails n E P r \<Longrightarrow> fails n E P (rd_times k r)"
proof (induction k)
  case (Suc k)
  then show ?case by (auto intro!: fails_bind0 fails_ret takes_times)
qed (simp add: fails_ret)

lemma fails_slice [fails_intro]:
  "P MakeSliceLen \<Longrightarrow> takes 0 r \<Longrightarrow> fails n E P r \<Longrightarrow> fails n E P (rd_slice s k r)"
  by (simp add: rd_slice_def fails_times fails_panic)

lemma fixed_reader_fails:
  assumes "fixed_reader k f r" and "\<And>e. is_eof e \<Longrightarrow> E e"
  shows "fails n E P r"
proof (rule failsI_outcome)
  fix d
  show "case fst (r d) of Ok x \<Rightarrow> True | Err e \<Rightarrow> E e | Panic p \<Rightarrow> P p"
  proof (cases "k \<le> length (pending d)")
    case True
    with assms(1) show ?thesis by (simp add: fixed_reader_def)
  next
    case False
    with assms(1) obtain e d' where "r d = (Err e, d')" "is_eof e"
      by (fastforce simp: fixed_reader_def not_le)
    with assms(2) show ?thesis by simp
  qed
qed

text \<open>Errors of the primitive operations: the end of the data, and the panic of a negative length.\<close>

abbreviation make_panic :: "go_panic \<Rightarrow> bool" where
  "make_panic p \<equiv> p = MakeSliceLen"

lemma fails_Read [fails_intro]: "(\<And>e. is_eof e \<Longrightarrow> E e) \<Longrightarrow> fails n E make_panic (Read l)"
  by (rule failsI_outcome) (auto simp: Read_def split: option.split)

lemma fails_fixed:
  assumes "\<And>e. is_eof e \<Longrightarrow> E e"
  shows "fails n E P ReadByte" "fails n E P ReadInt16" "fails n E P ReadUint16"
    "fails n E P ReadInt32" "fails n E P ReadInt64" "fails n E P ReadInt3" "fails n E P ReadLong5"
    "fails n E P ReadFloat32" "fails n E P ReadFloat64" "fails n E P ReadBoolean"
  using assms by (auto intro: fixed_readers [THEN fixed_reader_fails])

lemma fails_if: "(c \<Longrightarrow> fails n E P r) \<Longrightarrow> (\<not> c \<Longrightarrow> fails n E P r') \<Longrightarrow> fails n E P (if c then r else r')"
  by simp

lemma fails_Decimal [fails_intro]:
  assumes E: "\<And>e. is_eof e \<Longrightarrow> E e"
  shows "fails n E P ReadDecimal"
  unfolding ReadDecimal_def
  by (rule fails_bind0 fails_if fails_ret fails_fixed [OF E] takes_fixed [THEN takes_weaken] | assumption)+

lemma fails_Blob [fails_intro]:
  assumes E: "\<And>e. is_eof e \<Longrightarrow> E e"
  shows "fails n E make_panic ReadBlob"
  unfolding ReadBlob_def
  by (rule fails_bind0 fails_if fails_ret fails_fixed [OF E] fails_Read takes_fixed [THEN takes_weaken] E | assumption)+

lemma fails_Text [fails_intro]:
  assumes E: "\<And>e. is_eof e \<Longrightarrow> E e"
  shows "fails n E make_panic ReadText"
  unfolding ReadText_def
  by (rule fails_bind0 fails_ret fails_Blob takes_Blob [THEN takes_weaken] E | assumption)+

lemma fails_array16:
  assumes "\<And>e. is_eof e \<Longrightarrow> E e" and "takes k r" and "fails n E make_panic r"
  shows "fails n E make_panic (rd_bind ReadInt16 (\<lambda>l. rd_slice s (sint l) r))"
  using assms
  by (intro fails_bind0 fails_slice fails_fixed takes_fixed [THEN takes_weaken] refl) (auto intro: takes_weaken)

text \<open>
  The contract of a recursive reader: its body takes a byte before it calls the reader, so a
  recursion bounded by the number of pending bytes is the recursion of the code.
\<close>

locale bounded_reader =
  fixes body :: "'a rd \<Rightarrow> 'a rd" and bounded :: "nat \<Rightarrow> 'a rd" and reader :: "'a rd"
  assumes bounded_0: "bounded 0 = rd_fail FuelOut"
    and bounded_Suc: "bounded (Suc n) = body (bounded n)"
    and body_takes: "takes 0 r \<Longrightarrow> takes 1 (body r)"
    and body_agree: "takes 0 r \<Longrightarrow> takes 0 r' \<Longrightarrow> agree n r r' \<Longrightarrow> agree (Suc n) (body r) (body r')"
    and reader_def: "reader d = bounded (Suc (length (pending d))) d"
begin

lemma takes: "takes 1 (bounded n)"
proof (induction n)
  case 0
  show ?case by (simp add: bounded_0 takes_fail)
next
  case (Suc n)
  then show ?case unfolding bounded_Suc by (intro body_takes) (rule takes_weaken)
qed

lemma enough: "n \<le> m \<Longrightarrow> agree n (bounded n) (bounded m)"
proof (induction n arbitrary: m)
  case 0
  show ?case by (simp add: agree_def)
next
  case (Suc n)
  then obtain m' where "m = Suc m'" "n \<le> m'" by (cases m) auto
  with Suc.IH show ?case
    by (simp add: bounded_Suc body_agree takes takes [THEN takes_weaken])
qed

lemma reader_agree: "agree n reader (bounded n)"
  unfolding agree_def reader_def
  using enough by (metis Suc_leI agree_def lessI)

lemma reader_takes: "takes 1 reader"
  using takes unfolding takes_def reader_def by blast

text \<open>The recursion equation of the code.\<close>

lemma reader_rec: "reader = body reader"
proof
  fix d
  let ?n = "Suc (length (pending d))"
  have "agree (Suc ?n) (body reader) (body (bounded ?n))"
    by (rule body_agree [OF reader_takes [THEN takes_weaken] takes [THEN takes_weaken] reader_agree])
  then have "body reader d = bounded (Suc ?n) d"
    by (simp add: agree_def bounded_Suc)
  also have "\<dots> = reader d"
    using reader_agree [of "Suc ?n"] by (simp add: agree_def)
  finally show "reader d = body reader d" by simp
qed

lemma reader_fails:
  assumes "\<And>n r. takes 0 r \<Longrightarrow> fails n E P r \<Longrightarrow> fails (Suc n) E P (body r)"
  shows "fails n E P reader"
proof (induction n)
  case 0
  show ?case by (simp add: fails_def)
next
  case (Suc n)
  then have "fails (Suc n) E P (body reader)"
    by (intro assms) (rule reader_takes [THEN takes_weaken])
  then show ?case by (subst reader_rec)
qed

end

section \<open>Structures read field by field\<close>

text \<open>
  A \<open>Read\<close> method fills the fields of its receiver in turn and returns at the first error: it is a
  sequence of state transformers on the structure. \<open>rd_set\<close> reads one field, \<open>rd_when\<close> is a field
  that is present only under a condition on the fields before it.
\<close>

definition rd_set :: "'a rd \<Rightarrow> ('a \<Rightarrow> 's \<Rightarrow> 's) \<Rightarrow> 's \<Rightarrow> 's rd" where
  "rd_set r upd s = rd_bind r (\<lambda>v. rd_ret (upd v s))"

definition rd_when :: "('s \<Rightarrow> bool) \<Rightarrow> ('s \<Rightarrow> 's rd) \<Rightarrow> 's \<Rightarrow> 's rd" where
  "rd_when c f s = (if c s then f s else rd_ret s)"

primrec rd_steps :: "('s \<Rightarrow> 's rd) list \<Rightarrow> 's \<Rightarrow> 's rd" where
  "rd_steps [] s = rd_ret s"
| "rd_steps (f # fs) s = rd_bind (f s) (rd_steps fs)"

lemma wire_id: "wire id (rd_ret v) v"
proof -
  have "emits id []" using emits_fold [of "[]" WriteByte] by simp
  then show ?thesis by (rule wireI [OF _ consumes_ret truncates_Nil])
qed

lemma wire_set: "wire w r v \<Longrightarrow> wire w (rd_set r upd s) (upd v s)"
  unfolding rd_set_def by (rule wire_last)

lemma wire_when:
  assumes "c s = b" and "b \<Longrightarrow> wire w (f s) u"
  shows "wire (if b then w else id) (rd_when c f s) (if b then u else s)"
  using assms by (simp add: rd_when_def wire_id)

lemma wire_steps_Cons:
  "wire w (f s) s' \<Longrightarrow> wire w' (rd_steps fs s') u \<Longrightarrow> wire (fcomp w w') (rd_steps (f # fs) s) u"
  unfolding rd_steps.simps by (rule wire_seq)

lemma rd_bind_ret [simp]: "rd_bind r rd_ret = r"
  by (rule ext) (simp add: rd_bind_def rd_ret_def split: prod.split res.split)

lemma rd_steps_single [simp]: "rd_steps [f] = f"
proof -
  have nil: "rd_steps [] = rd_ret" by (rule ext) simp
  show ?thesis by (rule ext) (simp add: nil)
qed

lemma wire_steps_last: "wire w (f s) u \<Longrightarrow> wire w (rd_steps [f] s) u"
  by simp

text \<open>An \<open>int32\<close> field travels as a decimal; the conversion back keeps its value.\<close>

lemma wire_dec32:
  "wire (WriteDecimal (scast (x :: i32))) (rd_set ReadDecimal (\<lambda>v. upd (ucast v)) s) (upd x s)"
  using wire_set [OF wire_Decimal, of "scast x" "\<lambda>v. upd (ucast v)"] by (simp add: ucast_scast_widen)

lemmas wire_fields = wire_steps_Cons wire_steps_last wire_set wire_when

lemma takes_set: "takes k r \<Longrightarrow> takes k (rd_set r upd s)"
  unfolding rd_set_def by (rule takes_bind_first) (auto intro: takes_ret)

lemma takes_steps: "(\<And>f s. f \<in> set fs \<Longrightarrow> takes 0 (f s)) \<Longrightarrow> takes 0 (rd_steps fs s)"
  by (induction fs arbitrary: s) (auto intro!: takes_bind_first intro: takes_ret)

section \<open>Nested buffers and optional fields\<close>

text \<open>
  Some types write their fields to a buffer of their own and that buffer as one blob. Reading back,
  the fields come from a new input over the blob.
\<close>

definition rd_inner :: "'a rd \<Rightarrow> bytes \<Rightarrow> 'a rd" where
  "rd_inner r blob d = (fst (r (NewDataInputX blob)), d)"

definition write_inner :: "(dout \<Rightarrow> dout) \<Rightarrow> dout \<Rightarrow> dout" where
  "write_inner w = WriteBlob (ToByteArray (w NewDataOutputX))"

text \<open>\<open>if d.Available() > 0\<close> around the reads of a group of fields.\<close>

definition rd_avail :: "('s \<Rightarrow> 's rd) \<Rightarrow> 's \<Rightarrow> 's rd" where
  "rd_avail f s d = (if Available d > 0 then f s d else (Ok s, d))"

text \<open>
  A reader with such groups does not fail where the data ends between two groups, so only the first
  half of \<^const>\<open>wire\<close> holds of it: \<open>reads\<close>.
\<close>

definition reads :: "(dout \<Rightarrow> dout) \<Rightarrow> 'a rd \<Rightarrow> 'a \<Rightarrow> bool" where
  "reads w r v \<longleftrightarrow> (\<exists>bs. emits w bs \<and> consumes r bs v)"

lemma wire_reads: "wire w r v \<Longrightarrow> reads w r v"
  by (auto simp: wire_def reads_def)

lemma reads_cong: "reads w r v' \<Longrightarrow> v' = v \<Longrightarrow> reads w r v"
  by simp

lemma reads_Cons:
  "reads w (f s) s' \<Longrightarrow> reads w' (rd_steps fs s') u \<Longrightarrow> reads (fcomp w w') (rd_steps (f # fs) s) u"
  unfolding reads_def rd_steps.simps by (blast intro: emits_seq consumes_bind)

lemma reads_last: "reads w (f s) u \<Longrightarrow> reads w (rd_steps [f] s) u"
  by simp

lemma reads_avail:
  assumes "reads w (f s) u" and "takes 1 (f s)"
  shows "reads w (rd_avail f s) u"
proof -
  from assms(1) obtain bs where bs: "emits w bs" "consumes (f s) bs u" by (auto simp: reads_def)
  have "f s (NewDataInputX bs) = (Ok u, advance (length bs) (NewDataInputX bs))"
    by (rule consumesD [OF bs(2), of _ "[]"]) simp
  with takesD [OF assms(2), of "NewDataInputX bs"] have "bs \<noteq> []" by auto
  then have "rd_avail f s d = f s d" if "pending d = bs @ rest" for d rest
    using that Available_pos [of d] by (simp add: rd_avail_def)
  with bs(2) have "consumes (rd_avail f s) bs u" by (simp add: consumes_def)
  with bs(1) show ?thesis by (auto simp: reads_def)
qed

lemma reads_buffer:
  "reads w r v \<Longrightarrow> fst (r (NewDataInputX (ToByteArray (w NewDataOutputX)))) = Ok v"
  by (auto simp: reads_def emits_ToByteArray consumesD [where rest = "[]"])

lemma wire_inner:
  assumes "fst (r (NewDataInputX (ToByteArray (w NewDataOutputX)))) = Ok v"
    and "ok_blob (ToByteArray (w NewDataOutputX))"
  shows "wire (write_inner w) (rd_bind ReadBlob (rd_inner r)) v"
proof -
  from wire_Blob [OF assms(2)] obtain bs where bs: "emits (write_inner w) bs"
    "consumes ReadBlob bs (ToByteArray (w NewDataOutputX))" "truncates ReadBlob bs"
    unfolding write_inner_def by (rule wireE)
  have inner: "consumes (rd_inner r (ToByteArray (w NewDataOutputX))) [] v"
    using assms(1) by (simp add: consumes_def rd_inner_def)
  have "consumes (rd_bind ReadBlob (rd_inner r)) (bs @ []) v"
    using bs(2) inner by (rule consumes_bind)
  moreover have "truncates (rd_bind ReadBlob (rd_inner r)) (bs @ [])"
    using bs(2,3) truncates_Nil by (rule truncates_bind)
  ultimately show ?thesis using bs(1) by (auto intro: wireI)
qed

lemma wire_inner_reads:
  "reads w r v \<Longrightarrow> ok_blob (ToByteArray (w NewDataOutputX)) \<Longrightarrow>
   wire (write_inner w) (rd_bind ReadBlob (rd_inner r)) v"
  by (intro wire_inner reads_buffer)

text \<open>At the end of a buffer the optional groups change nothing.\<close>

lemma rd_avail_end: "pending d = [] \<Longrightarrow> in_reader d = None \<Longrightarrow> rd_avail f s d = (Ok s, d)"
  using Available_buffer [of d] by (simp add: rd_avail_def)

lemma rd_steps_avail_end:
  "pending d = [] \<Longrightarrow> in_reader d = None \<Longrightarrow> rd_steps (map rd_avail fs) s d = (Ok s, d)"
  by (induction fs arbitrary: s) (simp_all add: rd_ret_def rd_bind_def rd_avail_end)

lemma rd_bind_assoc: "rd_bind (rd_bind r f) g = rd_bind r (\<lambda>x. rd_bind (f x) g)"
  by (rule ext) (simp add: rd_bind_def split: prod.split res.split)

lemma rd_bind_ret_left [simp]: "rd_bind (rd_ret x) f = f x"
  by (rule ext) (simp add: rd_bind_def rd_ret_def)

lemma rd_steps_append: "rd_steps (fs @ gs) s = rd_bind (rd_steps fs s) (rd_steps gs)"
proof (induction fs arbitrary: s)
  case (Cons f fs)
  then have "rd_steps (fs @ gs) = (\<lambda>x. rd_bind (rd_steps fs x) (rd_steps gs))" by (rule ext)
  then show ?case by (simp add: rd_bind_assoc)
qed simp

lemma rd_steps_prefix:
  assumes "reads w (rd_steps fs s) u"
  shows "fst (rd_steps (fs @ map rd_avail gs) s (NewDataInputX (ToByteArray (w NewDataOutputX)))) = Ok u"
proof -
  from assms obtain bs where bs: "emits w bs" "consumes (rd_steps fs s) bs u"
    by (auto simp: reads_def)
  let ?d = "NewDataInputX bs"
  have "rd_steps fs s ?d = (Ok u, advance (length bs) ?d)"
    by (rule consumesD [OF bs(2), of _ "[]"]) simp
  moreover have "in_reader (advance (length bs) ?d) = None"
    by (simp add: in_reader_advance NewDataInputX_def)
  ultimately show ?thesis
    by (simp add: emits_ToByteArray [OF bs(1)] rd_steps_append rd_bind_def rd_steps_avail_end)
qed

text \<open>
  A list of optional groups, each with its writer, its reader and what it copies: written up to any
  of them and read by the whole list, the later groups are left as they were.
\<close>

definition group_ok :: "(dout \<Rightarrow> dout) \<times> ('s \<Rightarrow> 's rd) \<times> ('s \<Rightarrow> 's) \<Rightarrow> bool" where
  "group_ok g \<longleftrightarrow> (case g of (w, r, c) \<Rightarrow> \<forall>s. reads w (r s) (c s) \<and> takes 1 (r s))"

lemma reads_groups:
  assumes "\<And>g. g \<in> set gs \<Longrightarrow> group_ok g"
  shows "reads (fold fst gs) (rd_steps (map (\<lambda>g. rd_avail (fst (snd g))) gs) s)
    (fold (\<lambda>g. snd (snd g)) gs s)"
  using assms
proof (induction gs arbitrary: s)
  case Nil
  show ?case using wire_reads [OF wire_id] by (simp add: id_def)
next
  case (Cons g gs)
  obtain w r c where g: "g = (w, r, c)" by (cases g)
  from Cons.prems g have "group_ok (w, r, c)" by simp
  then have "reads w (rd_avail r s) (c s)" unfolding group_ok_def prod.case by (blast intro: reads_avail)
  moreover have "reads (fold fst gs) (rd_steps (map (\<lambda>g. rd_avail (fst (snd g))) gs) (c s))
      (fold (\<lambda>g. snd (snd g)) gs (c s))"
    by (rule Cons.IH) (rule Cons.prems, simp)
  ultimately have "reads (fcomp w (fold fst gs))
      (rd_steps (rd_avail r # map (\<lambda>g. rd_avail (fst (snd g))) gs) s) (fold (\<lambda>g. snd (snd g)) gs (c s))"
    by (rule reads_Cons)
  then show ?case by (simp add: g fcomp_def comp_def)
qed

text \<open>Errors wrapped with a byte of context.\<close>

definition rd_wrap :: "byte \<Rightarrow> 'a rd \<Rightarrow> 'a rd" where
  "rd_wrap t r d = (case r d of
     (Ok x, d') \<Rightarrow> (Ok x, d')
   | (Err e, d') \<Rightarrow> (Err (ErrWrapped t e), d')
   | (Panic p, d') \<Rightarrow> (Panic p, d'))"

lemma wire_wrap: "wire w r v \<Longrightarrow> wire w (rd_wrap t r) v"
  by (fastforce simp: wire_def consumes_def truncates_def rd_wrap_def)

end
