(* ===== verification/Values.thy ===== *)
theory Values
  imports Codec
begin

text \<open>
  internal/protocol/value: the dynamically typed values of the protocol. A Go \<open>Value\<close> that may be
  nil (the nil interface, or a nil pointer in it, which \<open>isNilValue\<close> treats alike) is a
  \<^typ>\<open>'a option\<close>; the datatype has one constructor per implementing type, with its fields.
\<close>

datatype "value" =
    NullValue
  | BooleanValue bool
  | DecimalValue i64
  | FloatValue f32
  | DoubleValue f64
  | DoubleSummary f64 i32 f64 f64
  | LongSummary i64 i32 i64 i64
  | TextValue string
  | TextHashValue i32
  | BlobValue bytes
  | IP4Value byte byte byte byte
  | ListValue "value option list option"
  | IntArray "i32 slice"
  | FloatArray "f32 slice"
  | TextArray "string slice"
  | LongArray "i64 slice"
  | MapValue "(string \<times> value option) list option"

fun ValueType :: "value \<Rightarrow> byte" where
  "ValueType NullValue = 0"
| "ValueType (BooleanValue _) = 10"
| "ValueType (DecimalValue _) = 20"
| "ValueType (FloatValue _) = 30"
| "ValueType (DoubleValue _) = 40"
| "ValueType (DoubleSummary _ _ _ _) = 45"
| "ValueType (LongSummary _ _ _ _) = 46"
| "ValueType (TextValue _) = 50"
| "ValueType (TextHashValue _) = 51"
| "ValueType (BlobValue _) = 60"
| "ValueType (IP4Value _ _ _ _) = 61"
| "ValueType (ListValue _) = 70"
| "ValueType (IntArray _) = 71"
| "ValueType (FloatArray _) = 72"
| "ValueType (TextArray _) = 73"
| "ValueType (LongArray _) = 74"
| "ValueType (MapValue _) = 80"

text \<open>\<open>CreateValue\<close> allocates the zero value of the type, whose \<open>Read\<close> then fills it.\<close>

definition CreateValue :: "byte \<Rightarrow> value res" where
  "CreateValue typeCode =
     (if typeCode = 0 then Ok NullValue
      else if typeCode = 10 then Ok (BooleanValue False)
      else if typeCode = 20 then Ok (DecimalValue 0)
      else if typeCode = 30 then Ok (FloatValue 0)
      else if typeCode = 40 then Ok (DoubleValue 0)
      else if typeCode = 45 then Ok (DoubleSummary 0 0 0 0)
      else if typeCode = 46 then Ok (LongSummary 0 0 0 0)
      else if typeCode = 50 then Ok (TextValue '''')
      else if typeCode = 51 then Ok (TextHashValue 0)
      else if typeCode = 60 then Ok (BlobValue [])
      else if typeCode = 61 then Ok (IP4Value 0 0 0 0)
      else if typeCode = 70 then Ok (ListValue None)
      else if typeCode = 71 then Ok (IntArray None)
      else if typeCode = 72 then Ok (FloatArray None)
      else if typeCode = 73 then Ok (TextArray None)
      else if typeCode = 74 then Ok (LongArray None)
      else if typeCode = 80 then Ok (MapValue None)
      else Err (ErrUnknownType typeCode))"

subsection \<open>Writing\<close>

lemma fold_fun_cong [fundef_cong]:
  "xs = ys \<Longrightarrow> (\<And>x. x \<in> set ys \<Longrightarrow> f x = g x) \<Longrightarrow> fold f xs = fold g ys"
  by (auto simp: fun_eq_iff intro: fold_cong)

definition TextArray_Write :: "string slice \<Rightarrow> dout \<Rightarrow> dout" where
  "TextArray_Write v = (case v of
     None \<Rightarrow> WriteInt16 0
   | Some xs \<Rightarrow> writes [WriteInt16 (word_of_nat (length xs)), fold WriteText xs])"

text \<open>The \<open>Write\<close> methods of the types without elements.\<close>

definition NullValue_Write :: "dout \<Rightarrow> dout" where
  "NullValue_Write = id"

definition BooleanValue_Write :: "bool \<Rightarrow> dout \<Rightarrow> dout" where
  "BooleanValue_Write v = WriteBoolean v"

definition DecimalValue_Write :: "i64 \<Rightarrow> dout \<Rightarrow> dout" where
  "DecimalValue_Write v = WriteDecimal v"

definition FloatValue_Write :: "f32 \<Rightarrow> dout \<Rightarrow> dout" where
  "FloatValue_Write v = WriteFloat32 v"

definition DoubleValue_Write :: "f64 \<Rightarrow> dout \<Rightarrow> dout" where
  "DoubleValue_Write v = WriteFloat64 v"

definition TextValue_Write :: "string \<Rightarrow> dout \<Rightarrow> dout" where
  "TextValue_Write v = WriteText v"

definition TextHashValue_Write :: "i32 \<Rightarrow> dout \<Rightarrow> dout" where
  "TextHashValue_Write v = WriteInt32 v"

definition BlobValue_Write :: "bytes \<Rightarrow> dout \<Rightarrow> dout" where
  "BlobValue_Write v = WriteBlob v"

definition IntArray_Write :: "i32 slice \<Rightarrow> dout \<Rightarrow> dout" where
  "IntArray_Write v = WriteArrayInt v"

definition FloatArray_Write :: "f32 slice \<Rightarrow> dout \<Rightarrow> dout" where
  "FloatArray_Write v = WriteArrayFloat v"

definition LongArray_Write :: "i64 slice \<Rightarrow> dout \<Rightarrow> dout" where
  "LongArray_Write v = WriteArrayLong v"

definition DoubleSummary_Write :: "f64 \<Rightarrow> i32 \<Rightarrow> f64 \<Rightarrow> f64 \<Rightarrow> dout \<Rightarrow> dout" where
  "DoubleSummary_Write s c mi ma =
     writes [WriteFloat64 s, WriteInt32 c, WriteFloat64 mi, WriteFloat64 ma]"

definition LongSummary_Write :: "i64 \<Rightarrow> i32 \<Rightarrow> i64 \<Rightarrow> i64 \<Rightarrow> dout \<Rightarrow> dout" where
  "LongSummary_Write s c mi ma =
     writes [WriteInt64 s, WriteInt32 c, WriteInt64 mi, WriteInt64 ma]"

definition IP4Value_Write :: "byte \<Rightarrow> byte \<Rightarrow> byte \<Rightarrow> byte \<Rightarrow> dout \<Rightarrow> dout" where
  "IP4Value_Write a b c e = Write [a, b, c, e]"

lemma size_list_member: "x \<in> set xs \<Longrightarrow> f x < size_list f xs"
  by (induction xs) auto

function (sequential) WriteValue :: "value option \<Rightarrow> dout \<Rightarrow> dout"
  and value_Write :: "value \<Rightarrow> dout \<Rightarrow> dout"
  and MapEntry_Write :: "string \<times> value option \<Rightarrow> dout \<Rightarrow> dout" where
  "WriteValue None = writes [WriteByte (ValueType NullValue), value_Write NullValue]"
| "WriteValue (Some v) = writes [WriteByte (ValueType v), value_Write v]"
| "value_Write NullValue = NullValue_Write"
| "value_Write (BooleanValue v) = BooleanValue_Write v"
| "value_Write (DecimalValue v) = DecimalValue_Write v"
| "value_Write (FloatValue v) = FloatValue_Write v"
| "value_Write (DoubleValue v) = DoubleValue_Write v"
| "value_Write (DoubleSummary s c mi ma) = DoubleSummary_Write s c mi ma"
| "value_Write (LongSummary s c mi ma) = LongSummary_Write s c mi ma"
| "value_Write (TextValue v) = TextValue_Write v"
| "value_Write (TextHashValue v) = TextHashValue_Write v"
| "value_Write (BlobValue v) = BlobValue_Write v"
| "value_Write (IP4Value a b c e) = IP4Value_Write a b c e"
| "value_Write (ListValue None) = WriteDecimal 0"
| "value_Write (ListValue (Some xs)) =
     writes [WriteDecimal (word_of_nat (length xs)), fold WriteValue xs]"
| "value_Write (IntArray v) = IntArray_Write v"
| "value_Write (FloatArray v) = FloatArray_Write v"
| "value_Write (TextArray v) = TextArray_Write v"
| "value_Write (LongArray v) = LongArray_Write v"
| "value_Write (MapValue None) = WriteDecimal 0"
| "value_Write (MapValue (Some es)) =
     writes [WriteDecimal (word_of_nat (length es)), fold MapEntry_Write es]"
| "MapEntry_Write (k, v) = writes [WriteText k, WriteValue v]"
  by pat_completeness auto
termination
  by (relation "measure (case_sum (size_option size)
      (case_sum size (size_prod (\<lambda>_. 0) (size_option size))))")
    (auto dest: size_list_member [where f = "size_option size"]
      size_list_member [where f = "size_prod (\<lambda>_. 0) (size_option size)"])

subsection \<open>Reading\<close>

definition TextArray_Read :: "string list rd" where
  "TextArray_Read = rd_bind ReadInt16 (\<lambda>l. rd_slice 16 (sint l) ReadText)"

text \<open>The \<open>Read\<close> methods; \<open>rv\<close> is the \<open>ReadValue\<close> that lists and maps call for their elements.\<close>

definition NullValue_Read :: "value rd" where
  "NullValue_Read = rd_ret NullValue"

definition BooleanValue_Read :: "value rd" where
  "BooleanValue_Read = rd_bind ReadBoolean (\<lambda>x. rd_ret (BooleanValue x))"

definition DecimalValue_Read :: "value rd" where
  "DecimalValue_Read = rd_bind ReadDecimal (\<lambda>x. rd_ret (DecimalValue x))"

definition FloatValue_Read :: "value rd" where
  "FloatValue_Read = rd_bind ReadFloat32 (\<lambda>x. rd_ret (FloatValue x))"

definition DoubleValue_Read :: "value rd" where
  "DoubleValue_Read = rd_bind ReadFloat64 (\<lambda>x. rd_ret (DoubleValue x))"

definition TextValue_Read :: "value rd" where
  "TextValue_Read = rd_bind ReadText (\<lambda>x. rd_ret (TextValue x))"

definition TextHashValue_Read :: "value rd" where
  "TextHashValue_Read = rd_bind ReadInt32 (\<lambda>x. rd_ret (TextHashValue x))"

definition BlobValue_Read :: "value rd" where
  "BlobValue_Read = rd_bind ReadBlob (\<lambda>x. rd_ret (BlobValue x))"

definition IP4Value_Read :: "value rd" where
  "IP4Value_Read = rd_bind (Read 4) (\<lambda>x. rd_ret (IP4Value (x ! 0) (x ! 1) (x ! 2) (x ! 3)))"

definition IntArray_Read :: "value rd" where
  "IntArray_Read = rd_bind ReadArrayInt (\<lambda>x. rd_ret (IntArray (Some x)))"

definition FloatArray_Read :: "value rd" where
  "FloatArray_Read = rd_bind ReadArrayFloat (\<lambda>x. rd_ret (FloatArray (Some x)))"

definition LongArray_Read :: "value rd" where
  "LongArray_Read = rd_bind ReadArrayLong (\<lambda>x. rd_ret (LongArray (Some x)))"

definition DoubleSummary_Read :: "value rd" where
  "DoubleSummary_Read =
     rd_bind ReadFloat64 (\<lambda>s. rd_bind ReadInt32 (\<lambda>c.
     rd_bind ReadFloat64 (\<lambda>mi. rd_bind ReadFloat64 (\<lambda>ma. rd_ret (DoubleSummary s c mi ma)))))"

definition LongSummary_Read :: "value rd" where
  "LongSummary_Read =
     rd_bind ReadInt64 (\<lambda>s. rd_bind ReadInt32 (\<lambda>c.
     rd_bind ReadInt64 (\<lambda>mi. rd_bind ReadInt64 (\<lambda>ma. rd_ret (LongSummary s c mi ma)))))"

definition ListValue_Read :: "value rd \<Rightarrow> value rd" where
  "ListValue_Read rv = rd_bind ReadDecimal (\<lambda>count.
     rd_bind (rd_slice 16 (sint count) (rd_bind rv (\<lambda>x. rd_ret (Some x))))
       (\<lambda>xs. rd_ret (ListValue (Some xs))))"

definition MapValue_Read :: "value rd \<Rightarrow> value rd" where
  "MapValue_Read rv = rd_bind ReadDecimal (\<lambda>count.
     rd_bind (rd_slice 32 (sint count)
         (rd_bind ReadText (\<lambda>k. rd_bind rv (\<lambda>x. rd_ret (k, Some x)))))
       (\<lambda>es. rd_ret (MapValue (Some es))))"

text \<open>The call \<open>v.Read(d)\<close> on the zero value \<open>CreateValue\<close> made.\<close>

definition value_Read :: "value rd \<Rightarrow> value \<Rightarrow> value rd" where
  "value_Read rv v = (case v of
     NullValue \<Rightarrow> NullValue_Read
   | BooleanValue _ \<Rightarrow> BooleanValue_Read
   | DecimalValue _ \<Rightarrow> DecimalValue_Read
   | FloatValue _ \<Rightarrow> FloatValue_Read
   | DoubleValue _ \<Rightarrow> DoubleValue_Read
   | DoubleSummary _ _ _ _ \<Rightarrow> DoubleSummary_Read
   | LongSummary _ _ _ _ \<Rightarrow> LongSummary_Read
   | TextValue _ \<Rightarrow> TextValue_Read
   | TextHashValue _ \<Rightarrow> TextHashValue_Read
   | BlobValue _ \<Rightarrow> BlobValue_Read
   | IP4Value _ _ _ _ \<Rightarrow> IP4Value_Read
   | ListValue _ \<Rightarrow> ListValue_Read rv
   | IntArray _ \<Rightarrow> IntArray_Read
   | FloatArray _ \<Rightarrow> FloatArray_Read
   | TextArray _ \<Rightarrow> rd_bind TextArray_Read (\<lambda>x. rd_ret (TextArray (Some x)))
   | LongArray _ \<Rightarrow> LongArray_Read
   | MapValue _ \<Rightarrow> MapValue_Read rv)"

lemmas value_read_defs = value_Read_def NullValue_Read_def BooleanValue_Read_def DecimalValue_Read_def
  FloatValue_Read_def DoubleValue_Read_def DoubleSummary_Read_def LongSummary_Read_def
  TextValue_Read_def TextHashValue_Read_def BlobValue_Read_def IP4Value_Read_def ListValue_Read_def
  IntArray_Read_def FloatArray_Read_def LongArray_Read_def MapValue_Read_def

lemmas value_write_defs = NullValue_Write_def BooleanValue_Write_def DecimalValue_Write_def
  FloatValue_Write_def DoubleValue_Write_def DoubleSummary_Write_def LongSummary_Write_def
  TextValue_Write_def TextHashValue_Write_def BlobValue_Write_def IP4Value_Write_def
  IntArray_Write_def FloatArray_Write_def LongArray_Write_def

text \<open>
  The body of \<open>ReadValue\<close>, with the calls inside it to \<open>rv\<close>, and the function itself as a recursion
  bounded by the number of pending bytes: each call takes the type byte before it recurses, so the
  bound is never reached (\<open>ReadValue_rec\<close>, \<open>ReadValue_fails\<close>).
\<close>

definition ReadValue_body :: "value rd \<Rightarrow> value rd" where
  "ReadValue_body rv = rd_bind ReadByte (\<lambda>typeByte. case CreateValue typeByte of
     Ok v \<Rightarrow> value_Read rv v
   | Err e \<Rightarrow> rd_fail e
   | Panic p \<Rightarrow> rd_panic p)"

primrec ReadValue_bounded :: "nat \<Rightarrow> value rd" where
  "ReadValue_bounded 0 = rd_fail FuelOut"
| "ReadValue_bounded (Suc n) = ReadValue_body (ReadValue_bounded n)"

definition ReadValue :: "value rd" where
  "ReadValue d = ReadValue_bounded (Suc (length (pending d))) d"

subsection \<open>ReadValue is the recursion of the code\<close>

lemma takes_TextArray_Read: "takes 2 TextArray_Read"
  unfolding TextArray_Read_def by (rule takes_array16 takes_Text)+

lemmas value_takes = takes_fixed [THEN takes_weaken] takes_Decimal [THEN takes_weaken]
  takes_Text [THEN takes_weaken] takes_Blob [THEN takes_weaken] takes_Float32 [THEN takes_weaken]
  takes_Float64 [THEN takes_weaken] takes_Array [THEN takes_weaken]
  takes_TextArray_Read [THEN takes_weaken] takes_Read takes_ret takes_slice

lemma takes_value_Read: "takes 0 rv \<Longrightarrow> takes 0 (value_Read rv v)"
  by (cases v) (auto simp: value_read_defs intro!: takes_bind_first intro: value_takes)

lemma agree_value_Read: "takes 0 r \<Longrightarrow> agree n r r' \<Longrightarrow> agree n (value_Read r v) (value_Read r' v)"
  by (cases v) (auto simp: value_read_defs
      intro!: agree_bind0 agree_slice agree_refl takes_bind_first intro: value_takes)

lemma CreateValue_outcome: "(\<exists>v. CreateValue t = Ok v) \<or> CreateValue t = Err (ErrUnknownType t)"
  by (simp add: CreateValue_def)

lemma CreateValue_cases:
  obtains v where "CreateValue t = Ok v" | "CreateValue t = Err (ErrUnknownType t)"
  using CreateValue_outcome by blast

lemma takes_ReadValue_body: "takes 0 rv \<Longrightarrow> takes 1 (ReadValue_body rv)"
  unfolding ReadValue_body_def
  by (rule takes_bind_first, rule takes_fixed)
    (auto split: res.split intro: takes_value_Read takes_fail)

lemma agree_ReadValue_body:
  "takes 0 r \<Longrightarrow> agree n r r' \<Longrightarrow> agree (Suc n) (ReadValue_body r) (ReadValue_body r')"
  unfolding ReadValue_body_def
  by (rule agree_bind [of 1 _ n, unfolded One_nat_def add_Suc_right add_0_right])
    (auto split: res.split intro: agree_value_Read agree_refl takes_fixed [unfolded One_nat_def])

interpretation vr: bounded_reader ReadValue_body ReadValue_bounded ReadValue
  by unfold_locales
    (simp_all add: ReadValue_def takes_ReadValue_body agree_ReadValue_body del: One_nat_def)

text \<open>The errors: the end of the data, or a type byte outside the table of \<open>CreateValue\<close>.\<close>

definition value_error :: "go_error \<Rightarrow> bool" where
  "value_error e \<longleftrightarrow> is_eof e \<or> (\<exists>t. e = ErrUnknownType t \<and> \<not> is_Ok (CreateValue t))"

lemma value_error_eof: "is_eof e \<Longrightarrow> value_error e"
  by (simp add: value_error_def)

lemmas value_fails = value_error_eof fails_ret fails_fixed [OF value_error_eof]
  fails_Read [OF value_error_eof] fails_Decimal [OF value_error_eof] fails_Text [OF value_error_eof]
  fails_Blob [OF value_error_eof]

lemma fails_TextArray_Read: "fails n value_error make_panic TextArray_Read"
  unfolding TextArray_Read_def
  by (rule fails_array16 [OF value_error_eof takes_Text]) (auto intro: value_fails)

lemma fails_Arrays: "fails n value_error make_panic ReadArrayInt"
  "fails n value_error make_panic ReadArrayLong" "fails n value_error make_panic ReadArrayFloat"
  unfolding ReadArrayInt_def ReadArrayLong_def ReadArrayFloat_def
  by (rule fails_array16 [OF value_error_eof] takes_fixed takes_Float32 value_fails | assumption)+

lemma fails_value_Read:
  "takes 0 rv \<Longrightarrow> fails n value_error make_panic rv \<Longrightarrow> fails n value_error make_panic (value_Read rv v)"
  by (cases v) (auto simp: value_read_defs
      intro!: fails_bind0 fails_slice takes_bind_first value_fails fails_TextArray_Read fails_Arrays
      intro: value_takes)

lemma fails_ReadValue_body:
  assumes "takes 0 rv" and "fails n value_error make_panic rv"
  shows "fails (Suc n) value_error make_panic (ReadValue_body rv)"
  unfolding ReadValue_body_def
proof (rule fails_bind [of 1 _ n, unfolded One_nat_def add_Suc_right add_0_right])
  fix t
  show "fails n value_error make_panic (case CreateValue t of Ok v \<Rightarrow> value_Read rv v
      | Err e \<Rightarrow> rd_fail e | Panic p \<Rightarrow> rd_panic p)"
    by (rule CreateValue_cases [of t])
      (simp_all add: fails_value_Read assms fails_fail value_error_def)
qed (simp_all add: takes_fixed [unfolded One_nat_def] value_fails)

lemma ReadValue_fails: "fails n value_error make_panic ReadValue"
  by (rule vr.reader_fails fails_ReadValue_body)+

lemma takes_ReadValue: "takes 1 ReadValue"
  by (rule vr.reader_takes)

subsection \<open>Round trip\<close>

lemma size_elems: "x \<in> set (elems v) \<Longrightarrow> f x < size_option (size_list f) v"
  by (cases v) (auto dest: size_list_member [where f = f])

text \<open>
  The values the wire format can hold, and what is read back: a nil value comes back as
  \<open>NullValue\<close> and a nil slice as an empty one.
\<close>

function (sequential) ok_value :: "value option \<Rightarrow> bool" and ok_val :: "value \<Rightarrow> bool"
  and ok_entry :: "string \<times> value option \<Rightarrow> bool" where
  "ok_value None = True"
| "ok_value (Some v) = ok_val v"
| "ok_val (TextValue s) = ok_text s"
| "ok_val (BlobValue b) = ok_blob b"
| "ok_val (ListValue v) = (ok_array v \<and> (\<forall>x \<in> set (elems v). ok_value x))"
| "ok_val (IntArray v) = ok_array16 v"
| "ok_val (FloatArray v) = ok_array16 v"
| "ok_val (LongArray v) = ok_array16 v"
| "ok_val (TextArray v) = (ok_array16 v \<and> (\<forall>s \<in> set (elems v). ok_text s))"
| "ok_val (MapValue v) = (ok_array v \<and> (\<forall>e \<in> set (elems v). ok_entry e))"
| "ok_val _ = True"
| "ok_entry (k, v) = (ok_text k \<and> ok_value v)"
  by pat_completeness auto
termination
  by (relation "measure (case_sum (size_option size)
      (case_sum size (size_prod (\<lambda>_. 0) (size_option size))))")
    (auto dest: size_elems [where f = "size_option size"]
      size_elems [where f = "size_prod (\<lambda>_. 0) (size_option size)"])

function (sequential) norm_value :: "value option \<Rightarrow> value" and norm_val :: "value \<Rightarrow> value"
  and norm_entry :: "string \<times> value option \<Rightarrow> string \<times> value option" where
  "norm_value None = NullValue"
| "norm_value (Some v) = norm_val v"
| "norm_val (ListValue v) = ListValue (Some (map (\<lambda>x. Some (norm_value x)) (elems v)))"
| "norm_val (IntArray v) = IntArray (Some (elems v))"
| "norm_val (FloatArray v) = FloatArray (Some (elems v))"
| "norm_val (LongArray v) = LongArray (Some (elems v))"
| "norm_val (TextArray v) = TextArray (Some (elems v))"
| "norm_val (MapValue v) = MapValue (Some (map norm_entry (elems v)))"
| "norm_val v = v"
| "norm_entry (k, v) = (k, Some (norm_value v))"
  by pat_completeness auto
termination
  by (relation "measure (case_sum (size_option size)
      (case_sum size (size_prod (\<lambda>_. 0) (size_option size))))")
    (auto dest: size_elems [where f = "size_option size"]
      size_elems [where f = "size_prod (\<lambda>_. 0) (size_option size)"])

text \<open>The table of \<open>CreateValue\<close> and the \<open>ValueType\<close> methods are inverse to each other.\<close>

lemma CreateValue_ValueType: "\<exists>v'. CreateValue (ValueType v) = Ok v' \<and> value_Read rv v' = value_Read rv v"
  by (cases v) (simp_all add: CreateValue_def value_read_defs)

lemma ValueType_CreateValue: "CreateValue t = Ok v \<Longrightarrow> ValueType v = t"
  by (auto simp: CreateValue_def split: if_splits)

lemma wire_ReadValue:
  assumes "wire (value_Write v) (value_Read ReadValue v) x"
  shows "wire (fcomp (WriteByte (ValueType v)) (value_Write v)) ReadValue x"
proof -
  obtain v' where "CreateValue (ValueType v) = Ok v'" "value_Read ReadValue v' = value_Read ReadValue v"
    using CreateValue_ValueType by blast
  with assms show ?thesis
    by (subst vr.reader_rec) (simp add: ReadValue_body_def wire_tagged)
qed

lemma wire_TextArray:
  assumes "ok_array16 v" and "\<And>s. s \<in> set (elems v) \<Longrightarrow> ok_text s"
  shows "wire (TextArray_Write v) TextArray_Read (elems v)"
  unfolding TextArray_Read_def
  by (rule wire_array16 [where w = WriteText])
    (simp_all add: assms wire_Text TextArray_Write_def fcomp_def)

lemma wire_list_body:
  assumes "ok_array v" and "\<And>x. x \<in> set (elems v) \<Longrightarrow> wire (w x) r (h x)" and "0 \<le> s" "s \<le> 64"
  shows "wire (fcomp (WriteDecimal (word_of_nat (length (elems v)))) (fold w (elems v)))
    (rd_bind ReadDecimal (\<lambda>count. rd_bind (rd_slice s (sint count) r) (\<lambda>xs. rd_ret (c xs))))
    (c (map h (elems v)))"
  using assms by (intro wire_seq [OF wire_Decimal] wire_last [of _ _ "map h (elems v)" c] wire_slice)
    (simp_all add: sint_ok_array make_ok_array)

lemma value_Write_ListValue: "value_Write (ListValue v) = fcomp (WriteDecimal (word_of_nat (length (elems v)))) (fold WriteValue (elems v))"
  by (cases v) (simp_all add: fcomp_def)

lemma value_Write_MapValue: "value_Write (MapValue v) = fcomp (WriteDecimal (word_of_nat (length (elems v)))) (fold MapEntry_Write (elems v))"
  by (cases v) (simp_all add: fcomp_def)

lemma wire_values:
  "ok_value ov \<Longrightarrow> wire (WriteValue ov) ReadValue (norm_value ov)"
  "ok_val v \<Longrightarrow> wire (value_Write v) (value_Read ReadValue v) (norm_val v)"
  "ok_entry e \<Longrightarrow> wire (MapEntry_Write e)
     (rd_bind ReadText (\<lambda>k. rd_bind ReadValue (\<lambda>x. rd_ret (k, Some x)))) (norm_entry e)"
proof (induction ov and v and e rule: ok_value_ok_val_ok_entry.induct)
  case 1
  show ?case using wire_ReadValue [of NullValue NullValue]
    by (simp add: value_read_defs value_write_defs wire_id)
next
  case (2 v)
  then show ?case unfolding WriteValue.simps norm_value.simps writes.simps by (intro wire_ReadValue) simp
next
  case (5 v)
  then have "\<And>x. x \<in> set (elems v) \<Longrightarrow> wire (WriteValue x) (rd_bind ReadValue (\<lambda>x. rd_ret (Some x))) (Some (norm_value x))"
    by (intro wire_last) simp_all
  with 5 show ?case unfolding value_Write_ListValue norm_val.simps value_read_defs "value.case"
    by (intro wire_list_body [where c = "\<lambda>xs. ListValue (Some xs)"]) simp_all
next
  case (10 v)
  then show ?case unfolding value_Write_MapValue norm_val.simps value_read_defs "value.case"
    by (intro wire_list_body [where c = "\<lambda>es. MapValue (Some es)"]) simp_all
next
  case (12 k v)
  then show ?case unfolding MapEntry_Write.simps norm_entry.simps writes.simps
    by (intro wire_seq [OF wire_Text] wire_last) simp_all
qed (unfold value_Write.simps value_write_defs value_read_defs "value.case" norm_val.simps writes.simps fcomp_assoc,
  ((rule wire_seq wire_last wire_intro wire_TextArray wire_id wire_last [OF wire_Write, THEN wire_cong])+, simp_all)+)

interpretation vc: codec WriteValue ReadValue ok_value norm_value
  by unfold_locales (rule wire_values)

text \<open>Reading back what was read changes nothing more.\<close>

lemma norm_value_idem: "norm_value (Some (norm_value ov)) = norm_value ov"
  "norm_val (norm_val v) = norm_val v" "norm_entry (norm_entry e) = norm_entry e"
  by (induction ov and v and e rule: norm_value_norm_val_norm_entry.induct) simp_all

subsection \<open>Map and list access\<close>

text \<open>
  \<open>MapValue.Put\<close> overwrites the value of the first entry with the key or appends an entry;
  \<open>Get\<close> finds the first one. The entries are the slice of the \<^const>\<open>MapValue\<close>.
\<close>

type_synonym map_entries = "(string \<times> value option) list"

definition NewMapValue :: map_entries where
  "NewMapValue = []"

fun map_Put :: "map_entries \<Rightarrow> string \<Rightarrow> value option \<Rightarrow> map_entries" where
  "map_Put [] key v = [(key, v)]"
| "map_Put ((k, x) # es) key v = (if k = key then (k, v) # es else (k, x) # map_Put es key v)"

fun map_Get :: "map_entries \<Rightarrow> string \<Rightarrow> value option option" where
  "map_Get [] key = None"
| "map_Get ((k, x) # es) key = (if k = key then Some x else map_Get es key)"

definition map_Size :: "map_entries \<Rightarrow> nat" where
  "map_Size es = length es"

definition list_elem :: "value option slice \<Rightarrow> int \<Rightarrow> value option" where
  "list_elem v idx = (if idx < 0 \<or> idx \<ge> int (length (elems v)) then None else elems v ! nat idx)"

text \<open>
  The three accessors of \<open>ListValue\<close>; an index out of range and an element of another type give the
  zero value.
\<close>

definition GetInt :: "value option slice \<Rightarrow> int \<Rightarrow> i32" where
  "GetInt v idx = (case list_elem v idx of Some (DecimalValue x) \<Rightarrow> ucast x | _ \<Rightarrow> 0)"

definition GetString :: "value option slice \<Rightarrow> int \<Rightarrow> string" where
  "GetString v idx = (case list_elem v idx of Some (TextValue x) \<Rightarrow> x | _ \<Rightarrow> '''')"

definition GetLong :: "value option slice \<Rightarrow> int \<Rightarrow> i64" where
  "GetLong v idx = (case list_elem v idx of Some (DecimalValue x) \<Rightarrow> x | _ \<Rightarrow> 0)"

text \<open>The abstraction: a \<open>MapValue\<close> is a finite map from keys to values.\<close>

lemma map_Get_map_of: "map_Get es key = map_of es key"
  by (induction es) auto

lemma map_of_map_Put: "map_of (map_Put es key v) = (map_of es)(key \<mapsto> v)"
  by (induction es) (auto simp: fun_eq_iff)

lemma keys_map_Put: "map fst (map_Put es key v) =
    (if key \<in> set (map fst es) then map fst es else map fst es @ [key])"
  by (induction es) (auto simp del: set_map simp add: list.set_map [symmetric])

lemma distinct_map_Put: "distinct (map fst es) \<Longrightarrow> distinct (map fst (map_Put es key v))"
  by (simp add: keys_map_Put)

text \<open>The contract of a keyed store: what a lookup returns after an update.\<close>

locale keyed_store =
  fixes lookup :: "'s \<Rightarrow> 'k \<Rightarrow> 'v option" and update :: "'s \<Rightarrow> 'k \<Rightarrow> 'v \<Rightarrow> 's"
    and inv :: "'s \<Rightarrow> bool"
  assumes update_inv: "inv s \<Longrightarrow> inv (update s k v)"
    and lookup_update: "inv s \<Longrightarrow> lookup (update s k v) k' = (if k' = k then Some v else lookup s k')"
begin

lemma updates_inv: "inv s \<Longrightarrow> inv (fold (\<lambda>(k, v) s. update s k v) kvs s)"
  by (induction kvs arbitrary: s) (auto intro: update_inv)

text \<open>After a sequence of updates a lookup finds the last value its key was given.\<close>

lemma lookup_updates:
  "inv s \<Longrightarrow> lookup (fold (\<lambda>(k, v) s. update s k v) kvs s) key =
     (case map_of (rev kvs) key of Some v \<Rightarrow> Some v | None \<Rightarrow> lookup s key)"
  by (induction kvs arbitrary: s)
    (auto simp: lookup_update update_inv map_add_Some_iff map_add_def split: option.splits)

end

interpretation mapval: keyed_store map_Get map_Put "\<lambda>es. distinct (map fst es)"
  by unfold_locales (simp_all add: distinct_map_Put map_Get_map_of map_of_map_Put)

end
