(* ===== verification/Steps.thy ===== *)
theory Steps
  imports Values
begin

text \<open>
  internal/protocol/step: the steps of a transaction profile. Each Go struct is a record with the
  fields of the struct, prefixed to keep them apart; a struct that embeds another extends its record,
  which promotes the embedded fields as Go does. \<open>StepSummary\<close> has no fields and is left out of the
  records that embed it. Each \<open>Write\<close> is the composition of the writes of its fields, each \<open>Read\<close> the
  sequence of field reads into the receiver.
\<close>

subsection \<open>The base struct\<close>

record StepSingle =
  step_Parent :: i32
  step_Index :: i32
  step_StartTime :: i32
  step_StartCpu :: i32

definition StepSingle_Write :: "'a StepSingle_scheme \<Rightarrow> dout \<Rightarrow> dout" where
  "StepSingle_Write s =
     writes [WriteDecimal (scast (step_Parent s)),
     WriteDecimal (scast (step_Index s)),
     WriteDecimal (scast (step_StartTime s)),
     WriteDecimal (scast (step_StartCpu s))]"

definition StepSingle_Read :: "'a StepSingle_scheme \<Rightarrow> 'a StepSingle_scheme rd" where
  "StepSingle_Read = rd_steps
    [rd_set ReadDecimal (\<lambda>v s. s\<lparr>step_Parent := ucast v\<rparr>),
     rd_set ReadDecimal (\<lambda>v s. s\<lparr>step_Index := ucast v\<rparr>),
     rd_set ReadDecimal (\<lambda>v s. s\<lparr>step_StartTime := ucast v\<rparr>),
     rd_set ReadDecimal (\<lambda>v s. s\<lparr>step_StartCpu := ucast v\<rparr>)]"

subsection \<open>The step types\<close>

record MethodStep = StepSingle +
  method_Hash :: i32
  method_Elapsed :: i32
  method_CpuTime :: i32

definition MethodStep_Write :: "'a MethodStep_scheme \<Rightarrow> dout \<Rightarrow> dout" where
  "MethodStep_Write s =
     writes [StepSingle_Write s,
     WriteDecimal (scast (method_Hash s)),
     WriteDecimal (scast (method_Elapsed s)),
     WriteDecimal (scast (method_CpuTime s))]"

definition MethodStep_Read :: "'a MethodStep_scheme \<Rightarrow> 'a MethodStep_scheme rd" where
  "MethodStep_Read = rd_steps
    [StepSingle_Read,
     rd_set ReadDecimal (\<lambda>v s. s\<lparr>method_Hash := ucast v\<rparr>),
     rd_set ReadDecimal (\<lambda>v s. s\<lparr>method_Elapsed := ucast v\<rparr>),
     rd_set ReadDecimal (\<lambda>v s. s\<lparr>method_CpuTime := ucast v\<rparr>)]"

record MethodStep2 = MethodStep +
  method2_Error :: i32

definition MethodStep2_Write :: "MethodStep2 \<Rightarrow> dout \<Rightarrow> dout" where
  "MethodStep2_Write s =
     writes [StepSingle_Write s,
     WriteDecimal (scast (method_Hash s)),
     WriteDecimal (scast (method_Elapsed s)),
     WriteDecimal (scast (method_CpuTime s)),
     WriteDecimal (scast (method2_Error s))]"

definition MethodStep2_Read :: "MethodStep2 \<Rightarrow> MethodStep2 rd" where
  "MethodStep2_Read = rd_steps
    [StepSingle_Read,
     rd_set ReadDecimal (\<lambda>v s. s\<lparr>method_Hash := ucast v\<rparr>),
     rd_set ReadDecimal (\<lambda>v s. s\<lparr>method_Elapsed := ucast v\<rparr>),
     rd_set ReadDecimal (\<lambda>v s. s\<lparr>method_CpuTime := ucast v\<rparr>),
     rd_set ReadDecimal (\<lambda>v s. s\<lparr>method2_Error := ucast v\<rparr>)]"

record SqlStep = StepSingle +
  sql_Hash :: i32
  sql_Elapsed :: i32
  sql_CpuTime :: i32
  sql_Param :: string
  sql_Error :: i32

definition SqlStep_Write :: "'a SqlStep_scheme \<Rightarrow> dout \<Rightarrow> dout" where
  "SqlStep_Write s =
     writes [StepSingle_Write s,
     WriteDecimal (scast (sql_Hash s)),
     WriteDecimal (scast (sql_Elapsed s)),
     WriteDecimal (scast (sql_CpuTime s)),
     WriteText (sql_Param s),
     WriteDecimal (scast (sql_Error s))]"

definition SqlStep_Read :: "'a SqlStep_scheme \<Rightarrow> 'a SqlStep_scheme rd" where
  "SqlStep_Read = rd_steps
    [StepSingle_Read,
     rd_set ReadDecimal (\<lambda>v s. s\<lparr>sql_Hash := ucast v\<rparr>),
     rd_set ReadDecimal (\<lambda>v s. s\<lparr>sql_Elapsed := ucast v\<rparr>),
     rd_set ReadDecimal (\<lambda>v s. s\<lparr>sql_CpuTime := ucast v\<rparr>),
     rd_set ReadText (\<lambda>v s. s\<lparr>sql_Param := v\<rparr>),
     rd_set ReadDecimal (\<lambda>v s. s\<lparr>sql_Error := ucast v\<rparr>)]"

record SqlStep2 = SqlStep +
  sql2_XType :: byte

definition SqlStep2_Write :: "'a SqlStep2_scheme \<Rightarrow> dout \<Rightarrow> dout" where
  "SqlStep2_Write s =
     writes [StepSingle_Write s,
     WriteDecimal (scast (sql_Hash s)),
     WriteDecimal (scast (sql_Elapsed s)),
     WriteDecimal (scast (sql_CpuTime s)),
     WriteText (sql_Param s),
     WriteDecimal (scast (sql_Error s)),
     WriteByte (sql2_XType s)]"

definition SqlStep2_Read :: "'a SqlStep2_scheme \<Rightarrow> 'a SqlStep2_scheme rd" where
  "SqlStep2_Read = rd_steps
    [StepSingle_Read,
     rd_set ReadDecimal (\<lambda>v s. s\<lparr>sql_Hash := ucast v\<rparr>),
     rd_set ReadDecimal (\<lambda>v s. s\<lparr>sql_Elapsed := ucast v\<rparr>),
     rd_set ReadDecimal (\<lambda>v s. s\<lparr>sql_CpuTime := ucast v\<rparr>),
     rd_set ReadText (\<lambda>v s. s\<lparr>sql_Param := v\<rparr>),
     rd_set ReadDecimal (\<lambda>v s. s\<lparr>sql_Error := ucast v\<rparr>),
     rd_set ReadByte (\<lambda>v s. s\<lparr>sql2_XType := v\<rparr>)]"

record SqlStep3 = SqlStep2 +
  sql3_Updated :: i32

definition SqlStep3_Write :: "SqlStep3 \<Rightarrow> dout \<Rightarrow> dout" where
  "SqlStep3_Write s =
     writes [StepSingle_Write s,
     WriteDecimal (scast (sql_Hash s)),
     WriteDecimal (scast (sql_Elapsed s)),
     WriteDecimal (scast (sql_CpuTime s)),
     WriteText (sql_Param s),
     WriteDecimal (scast (sql_Error s)),
     WriteByte (sql2_XType s),
     WriteDecimal (scast (sql3_Updated s))]"

definition SqlStep3_Read :: "SqlStep3 \<Rightarrow> SqlStep3 rd" where
  "SqlStep3_Read = rd_steps
    [StepSingle_Read,
     rd_set ReadDecimal (\<lambda>v s. s\<lparr>sql_Hash := ucast v\<rparr>),
     rd_set ReadDecimal (\<lambda>v s. s\<lparr>sql_Elapsed := ucast v\<rparr>),
     rd_set ReadDecimal (\<lambda>v s. s\<lparr>sql_CpuTime := ucast v\<rparr>),
     rd_set ReadText (\<lambda>v s. s\<lparr>sql_Param := v\<rparr>),
     rd_set ReadDecimal (\<lambda>v s. s\<lparr>sql_Error := ucast v\<rparr>),
     rd_set ReadByte (\<lambda>v s. s\<lparr>sql2_XType := v\<rparr>),
     rd_set ReadDecimal (\<lambda>v s. s\<lparr>sql3_Updated := ucast v\<rparr>)]"

record MessageStep = StepSingle +
  message_Message :: string

definition MessageStep_Write :: "MessageStep \<Rightarrow> dout \<Rightarrow> dout" where
  "MessageStep_Write s =
     writes [StepSingle_Write s,
     WriteText (message_Message s)]"

definition MessageStep_Read :: "MessageStep \<Rightarrow> MessageStep rd" where
  "MessageStep_Read = rd_steps
    [StepSingle_Read,
     rd_set ReadText (\<lambda>v s. s\<lparr>message_Message := v\<rparr>)]"

record SocketStep = StepSingle +
  socket_IPAddr :: bytes
  socket_Port :: i32
  socket_Elapsed :: i32
  socket_Error :: i32

definition SocketStep_Write :: "SocketStep \<Rightarrow> dout \<Rightarrow> dout" where
  "SocketStep_Write s =
     writes [StepSingle_Write s,
     WriteBlob (socket_IPAddr s),
     WriteDecimal (scast (socket_Port s)),
     WriteDecimal (scast (socket_Elapsed s)),
     WriteDecimal (scast (socket_Error s))]"

definition SocketStep_Read :: "SocketStep \<Rightarrow> SocketStep rd" where
  "SocketStep_Read = rd_steps
    [StepSingle_Read,
     rd_set ReadBlob (\<lambda>v s. s\<lparr>socket_IPAddr := v\<rparr>),
     rd_set ReadDecimal (\<lambda>v s. s\<lparr>socket_Port := ucast v\<rparr>),
     rd_set ReadDecimal (\<lambda>v s. s\<lparr>socket_Elapsed := ucast v\<rparr>),
     rd_set ReadDecimal (\<lambda>v s. s\<lparr>socket_Error := ucast v\<rparr>)]"

record ApiCallStep = StepSingle +
  apicall_Txid :: i64
  apicall_Hash :: i32
  apicall_Elapsed :: i32
  apicall_CpuTime :: i32
  apicall_Error :: i32
  apicall_Opt :: byte
  apicall_Address :: string

definition ApiCallStep_Write :: "'a ApiCallStep_scheme \<Rightarrow> dout \<Rightarrow> dout" where
  "ApiCallStep_Write s =
     writes [StepSingle_Write s,
     WriteInt64 (apicall_Txid s),
     WriteDecimal (scast (apicall_Hash s)),
     WriteDecimal (scast (apicall_Elapsed s)),
     WriteDecimal (scast (apicall_CpuTime s)),
     WriteDecimal (scast (apicall_Error s)),
     WriteByte (apicall_Opt s),
     (if apicall_Opt s = 1 then WriteText (apicall_Address s) else id)]"

definition ApiCallStep_Read :: "'a ApiCallStep_scheme \<Rightarrow> 'a ApiCallStep_scheme rd" where
  "ApiCallStep_Read = rd_steps
    [StepSingle_Read,
     rd_set ReadInt64 (\<lambda>v s. s\<lparr>apicall_Txid := v\<rparr>),
     rd_set ReadDecimal (\<lambda>v s. s\<lparr>apicall_Hash := ucast v\<rparr>),
     rd_set ReadDecimal (\<lambda>v s. s\<lparr>apicall_Elapsed := ucast v\<rparr>),
     rd_set ReadDecimal (\<lambda>v s. s\<lparr>apicall_CpuTime := ucast v\<rparr>),
     rd_set ReadDecimal (\<lambda>v s. s\<lparr>apicall_Error := ucast v\<rparr>),
     rd_set ReadByte (\<lambda>v s. s\<lparr>apicall_Opt := v\<rparr>),
     rd_when (\<lambda>s. apicall_Opt s = 1) (rd_set ReadText (\<lambda>v s. s\<lparr>apicall_Address := v\<rparr>))]"

record ApiCallStep2 = ApiCallStep +
  apicall2_Async :: byte

definition ApiCallStep2_Write :: "ApiCallStep2 \<Rightarrow> dout \<Rightarrow> dout" where
  "ApiCallStep2_Write s =
     writes [StepSingle_Write s,
     WriteInt64 (apicall_Txid s),
     WriteDecimal (scast (apicall_Hash s)),
     WriteDecimal (scast (apicall_Elapsed s)),
     WriteDecimal (scast (apicall_CpuTime s)),
     WriteDecimal (scast (apicall_Error s)),
     WriteByte (apicall_Opt s),
     (if apicall_Opt s = 1 then WriteText (apicall_Address s) else id),
     WriteByte (apicall2_Async s)]"

definition ApiCallStep2_Read :: "ApiCallStep2 \<Rightarrow> ApiCallStep2 rd" where
  "ApiCallStep2_Read = rd_steps
    [StepSingle_Read,
     rd_set ReadInt64 (\<lambda>v s. s\<lparr>apicall_Txid := v\<rparr>),
     rd_set ReadDecimal (\<lambda>v s. s\<lparr>apicall_Hash := ucast v\<rparr>),
     rd_set ReadDecimal (\<lambda>v s. s\<lparr>apicall_Elapsed := ucast v\<rparr>),
     rd_set ReadDecimal (\<lambda>v s. s\<lparr>apicall_CpuTime := ucast v\<rparr>),
     rd_set ReadDecimal (\<lambda>v s. s\<lparr>apicall_Error := ucast v\<rparr>),
     rd_set ReadByte (\<lambda>v s. s\<lparr>apicall_Opt := v\<rparr>),
     rd_when (\<lambda>s. apicall_Opt s = 1) (rd_set ReadText (\<lambda>v s. s\<lparr>apicall_Address := v\<rparr>)),
     rd_set ReadByte (\<lambda>v s. s\<lparr>apicall2_Async := v\<rparr>)]"

record DispatchStep = StepSingle +
  dispatch_Txid :: i64
  dispatch_Hash :: i32
  dispatch_Elapsed :: i32
  dispatch_CpuTime :: i32
  dispatch_Error :: i32
  dispatch_Opt :: byte
  dispatch_Address :: string

definition DispatchStep_Write :: "DispatchStep \<Rightarrow> dout \<Rightarrow> dout" where
  "DispatchStep_Write s =
     writes [StepSingle_Write s,
     WriteInt64 (dispatch_Txid s),
     WriteDecimal (scast (dispatch_Hash s)),
     WriteDecimal (scast (dispatch_Elapsed s)),
     WriteDecimal (scast (dispatch_CpuTime s)),
     WriteDecimal (scast (dispatch_Error s)),
     WriteByte (dispatch_Opt s),
     (if dispatch_Opt s = 1 then WriteText (dispatch_Address s) else id)]"

definition DispatchStep_Read :: "DispatchStep \<Rightarrow> DispatchStep rd" where
  "DispatchStep_Read = rd_steps
    [StepSingle_Read,
     rd_set ReadInt64 (\<lambda>v s. s\<lparr>dispatch_Txid := v\<rparr>),
     rd_set ReadDecimal (\<lambda>v s. s\<lparr>dispatch_Hash := ucast v\<rparr>),
     rd_set ReadDecimal (\<lambda>v s. s\<lparr>dispatch_Elapsed := ucast v\<rparr>),
     rd_set ReadDecimal (\<lambda>v s. s\<lparr>dispatch_CpuTime := ucast v\<rparr>),
     rd_set ReadDecimal (\<lambda>v s. s\<lparr>dispatch_Error := ucast v\<rparr>),
     rd_set ReadByte (\<lambda>v s. s\<lparr>dispatch_Opt := v\<rparr>),
     rd_when (\<lambda>s. dispatch_Opt s = 1) (rd_set ReadText (\<lambda>v s. s\<lparr>dispatch_Address := v\<rparr>))]"

record ThreadSubmitStep = StepSingle +
  tsubmit_Txid :: i64
  tsubmit_Hash :: i32
  tsubmit_Elapsed :: i32
  tsubmit_CpuTime :: i32
  tsubmit_Error :: i32

definition ThreadSubmitStep_Write :: "ThreadSubmitStep \<Rightarrow> dout \<Rightarrow> dout" where
  "ThreadSubmitStep_Write s =
     writes [StepSingle_Write s,
     WriteInt64 (tsubmit_Txid s),
     WriteDecimal (scast (tsubmit_Hash s)),
     WriteDecimal (scast (tsubmit_Elapsed s)),
     WriteDecimal (scast (tsubmit_CpuTime s)),
     WriteDecimal (scast (tsubmit_Error s))]"

definition ThreadSubmitStep_Read :: "ThreadSubmitStep \<Rightarrow> ThreadSubmitStep rd" where
  "ThreadSubmitStep_Read = rd_steps
    [StepSingle_Read,
     rd_set ReadInt64 (\<lambda>v s. s\<lparr>tsubmit_Txid := v\<rparr>),
     rd_set ReadDecimal (\<lambda>v s. s\<lparr>tsubmit_Hash := ucast v\<rparr>),
     rd_set ReadDecimal (\<lambda>v s. s\<lparr>tsubmit_Elapsed := ucast v\<rparr>),
     rd_set ReadDecimal (\<lambda>v s. s\<lparr>tsubmit_CpuTime := ucast v\<rparr>),
     rd_set ReadDecimal (\<lambda>v s. s\<lparr>tsubmit_Error := ucast v\<rparr>)]"

record ThreadCallPossibleStep = StepSingle +
  tcall_Txid :: i64
  tcall_Hash :: i32
  tcall_Elapsed :: i32
  tcall_Threaded :: byte

definition ThreadCallPossibleStep_Write :: "ThreadCallPossibleStep \<Rightarrow> dout \<Rightarrow> dout" where
  "ThreadCallPossibleStep_Write s =
     writes [StepSingle_Write s,
     WriteInt64 (tcall_Txid s),
     WriteDecimal (scast (tcall_Hash s)),
     WriteDecimal (scast (tcall_Elapsed s)),
     WriteByte (tcall_Threaded s)]"

definition ThreadCallPossibleStep_Read :: "ThreadCallPossibleStep \<Rightarrow> ThreadCallPossibleStep rd" where
  "ThreadCallPossibleStep_Read = rd_steps
    [StepSingle_Read,
     rd_set ReadInt64 (\<lambda>v s. s\<lparr>tcall_Txid := v\<rparr>),
     rd_set ReadDecimal (\<lambda>v s. s\<lparr>tcall_Hash := ucast v\<rparr>),
     rd_set ReadDecimal (\<lambda>v s. s\<lparr>tcall_Elapsed := ucast v\<rparr>),
     rd_set ReadByte (\<lambda>v s. s\<lparr>tcall_Threaded := v\<rparr>)]"

record HashedMessageStep = StepSingle +
  hmsg_Hash :: i32
  hmsg_Time :: i32
  hmsg_Value :: i32

definition HashedMessageStep_Write :: "HashedMessageStep \<Rightarrow> dout \<Rightarrow> dout" where
  "HashedMessageStep_Write s =
     writes [StepSingle_Write s,
     WriteDecimal (scast (hmsg_Hash s)),
     WriteDecimal (scast (hmsg_Time s)),
     WriteDecimal (scast (hmsg_Value s))]"

definition HashedMessageStep_Read :: "HashedMessageStep \<Rightarrow> HashedMessageStep rd" where
  "HashedMessageStep_Read = rd_steps
    [StepSingle_Read,
     rd_set ReadDecimal (\<lambda>v s. s\<lparr>hmsg_Hash := ucast v\<rparr>),
     rd_set ReadDecimal (\<lambda>v s. s\<lparr>hmsg_Time := ucast v\<rparr>),
     rd_set ReadDecimal (\<lambda>v s. s\<lparr>hmsg_Value := ucast v\<rparr>)]"

record ParameterizedMessageStep = StepSingle +
  pmsg_Hash :: i32
  pmsg_Elapsed :: i32
  pmsg_Level :: byte
  pmsg_ParamString :: string

definition ParameterizedMessageStep_Write :: "ParameterizedMessageStep \<Rightarrow> dout \<Rightarrow> dout" where
  "ParameterizedMessageStep_Write s =
     writes [StepSingle_Write s,
     WriteDecimal (scast (pmsg_Hash s)),
     WriteDecimal (scast (pmsg_Elapsed s)),
     WriteByte (pmsg_Level s),
     WriteText (pmsg_ParamString s)]"

definition ParameterizedMessageStep_Read :: "ParameterizedMessageStep \<Rightarrow> ParameterizedMessageStep rd" where
  "ParameterizedMessageStep_Read = rd_steps
    [StepSingle_Read,
     rd_set ReadDecimal (\<lambda>v s. s\<lparr>pmsg_Hash := ucast v\<rparr>),
     rd_set ReadDecimal (\<lambda>v s. s\<lparr>pmsg_Elapsed := ucast v\<rparr>),
     rd_set ReadByte (\<lambda>v s. s\<lparr>pmsg_Level := v\<rparr>),
     rd_set ReadText (\<lambda>v s. s\<lparr>pmsg_ParamString := v\<rparr>)]"

record DumpStep = StepSingle +
  dump_Stacks :: "i32 slice"
  dump_ThreadId :: i64
  dump_ThreadName :: string
  dump_ThreadState :: string
  dump_LockOwnerId :: i64
  dump_LockName :: string
  dump_LockOwnerName :: string

definition DumpStep_Write :: "DumpStep \<Rightarrow> dout \<Rightarrow> dout" where
  "DumpStep_Write s =
     writes [StepSingle_Write s,
     WriteDecimalIntArray (dump_Stacks s),
     WriteInt64 (dump_ThreadId s),
     WriteText (dump_ThreadName s),
     WriteText (dump_ThreadState s),
     WriteInt64 (dump_LockOwnerId s),
     WriteText (dump_LockName s),
     WriteText (dump_LockOwnerName s)]"

definition DumpStep_Read :: "DumpStep \<Rightarrow> DumpStep rd" where
  "DumpStep_Read = rd_steps
    [StepSingle_Read,
     rd_set ReadDecimalIntArray (\<lambda>v s. s\<lparr>dump_Stacks := Some v\<rparr>),
     rd_set ReadInt64 (\<lambda>v s. s\<lparr>dump_ThreadId := v\<rparr>),
     rd_set ReadText (\<lambda>v s. s\<lparr>dump_ThreadName := v\<rparr>),
     rd_set ReadText (\<lambda>v s. s\<lparr>dump_ThreadState := v\<rparr>),
     rd_set ReadInt64 (\<lambda>v s. s\<lparr>dump_LockOwnerId := v\<rparr>),
     rd_set ReadText (\<lambda>v s. s\<lparr>dump_LockName := v\<rparr>),
     rd_set ReadText (\<lambda>v s. s\<lparr>dump_LockOwnerName := v\<rparr>)]"

record MethodSum = 
  msum_Hash :: i32
  msum_Count :: i32
  msum_Elapsed :: i32
  msum_CpuTime :: i32

definition MethodSum_Write :: "MethodSum \<Rightarrow> dout \<Rightarrow> dout" where
  "MethodSum_Write s =
     writes [WriteDecimal (scast (msum_Hash s)),
     WriteDecimal (scast (msum_Count s)),
     WriteDecimal (scast (msum_Elapsed s)),
     WriteDecimal (scast (msum_CpuTime s))]"

definition MethodSum_Read :: "MethodSum \<Rightarrow> MethodSum rd" where
  "MethodSum_Read = rd_steps
    [rd_set ReadDecimal (\<lambda>v s. s\<lparr>msum_Hash := ucast v\<rparr>),
     rd_set ReadDecimal (\<lambda>v s. s\<lparr>msum_Count := ucast v\<rparr>),
     rd_set ReadDecimal (\<lambda>v s. s\<lparr>msum_Elapsed := ucast v\<rparr>),
     rd_set ReadDecimal (\<lambda>v s. s\<lparr>msum_CpuTime := ucast v\<rparr>)]"

record SqlSum = 
  sqlsum_Hash :: i32
  sqlsum_Count :: i32
  sqlsum_Elapsed :: i32
  sqlsum_CpuTime :: i32
  sqlsum_Error :: i32
  sqlsum_Param :: string
  sqlsum_ParamError :: string

definition SqlSum_Write :: "SqlSum \<Rightarrow> dout \<Rightarrow> dout" where
  "SqlSum_Write s =
     writes [WriteDecimal (scast (sqlsum_Hash s)),
     WriteDecimal (scast (sqlsum_Count s)),
     WriteDecimal (scast (sqlsum_Elapsed s)),
     WriteDecimal (scast (sqlsum_CpuTime s)),
     WriteDecimal (scast (sqlsum_Error s)),
     WriteText (sqlsum_Param s),
     WriteText (sqlsum_ParamError s)]"

definition SqlSum_Read :: "SqlSum \<Rightarrow> SqlSum rd" where
  "SqlSum_Read = rd_steps
    [rd_set ReadDecimal (\<lambda>v s. s\<lparr>sqlsum_Hash := ucast v\<rparr>),
     rd_set ReadDecimal (\<lambda>v s. s\<lparr>sqlsum_Count := ucast v\<rparr>),
     rd_set ReadDecimal (\<lambda>v s. s\<lparr>sqlsum_Elapsed := ucast v\<rparr>),
     rd_set ReadDecimal (\<lambda>v s. s\<lparr>sqlsum_CpuTime := ucast v\<rparr>),
     rd_set ReadDecimal (\<lambda>v s. s\<lparr>sqlsum_Error := ucast v\<rparr>),
     rd_set ReadText (\<lambda>v s. s\<lparr>sqlsum_Param := v\<rparr>),
     rd_set ReadText (\<lambda>v s. s\<lparr>sqlsum_ParamError := v\<rparr>)]"

record MessageSum = 
  msgsum_Hash :: i32
  msgsum_Count :: i32

definition MessageSum_Write :: "MessageSum \<Rightarrow> dout \<Rightarrow> dout" where
  "MessageSum_Write s =
     writes [WriteDecimal (scast (msgsum_Hash s)),
     WriteDecimal (scast (msgsum_Count s))]"

definition MessageSum_Read :: "MessageSum \<Rightarrow> MessageSum rd" where
  "MessageSum_Read = rd_steps
    [rd_set ReadDecimal (\<lambda>v s. s\<lparr>msgsum_Hash := ucast v\<rparr>),
     rd_set ReadDecimal (\<lambda>v s. s\<lparr>msgsum_Count := ucast v\<rparr>)]"

record SocketSum = 
  sksum_IPAddr :: bytes
  sksum_Port :: i32
  sksum_Count :: i32
  sksum_Elapsed :: i32
  sksum_Error :: i32

definition SocketSum_Write :: "SocketSum \<Rightarrow> dout \<Rightarrow> dout" where
  "SocketSum_Write s =
     writes [WriteBlob (sksum_IPAddr s),
     WriteDecimal (scast (sksum_Port s)),
     WriteDecimal (scast (sksum_Count s)),
     WriteDecimal (scast (sksum_Elapsed s)),
     WriteDecimal (scast (sksum_Error s))]"

definition SocketSum_Read :: "SocketSum \<Rightarrow> SocketSum rd" where
  "SocketSum_Read = rd_steps
    [rd_set ReadBlob (\<lambda>v s. s\<lparr>sksum_IPAddr := v\<rparr>),
     rd_set ReadDecimal (\<lambda>v s. s\<lparr>sksum_Port := ucast v\<rparr>),
     rd_set ReadDecimal (\<lambda>v s. s\<lparr>sksum_Count := ucast v\<rparr>),
     rd_set ReadDecimal (\<lambda>v s. s\<lparr>sksum_Elapsed := ucast v\<rparr>),
     rd_set ReadDecimal (\<lambda>v s. s\<lparr>sksum_Error := ucast v\<rparr>)]"

record ApiCallSum = 
  apisum_Hash :: i32
  apisum_Count :: i32
  apisum_Elapsed :: i32
  apisum_CpuTime :: i32
  apisum_Error :: i32

definition ApiCallSum_Write :: "ApiCallSum \<Rightarrow> dout \<Rightarrow> dout" where
  "ApiCallSum_Write s =
     writes [WriteDecimal (scast (apisum_Hash s)),
     WriteDecimal (scast (apisum_Count s)),
     WriteDecimal (scast (apisum_Elapsed s)),
     WriteDecimal (scast (apisum_CpuTime s)),
     WriteDecimal (scast (apisum_Error s))]"

definition ApiCallSum_Read :: "ApiCallSum \<Rightarrow> ApiCallSum rd" where
  "ApiCallSum_Read = rd_steps
    [rd_set ReadDecimal (\<lambda>v s. s\<lparr>apisum_Hash := ucast v\<rparr>),
     rd_set ReadDecimal (\<lambda>v s. s\<lparr>apisum_Count := ucast v\<rparr>),
     rd_set ReadDecimal (\<lambda>v s. s\<lparr>apisum_Elapsed := ucast v\<rparr>),
     rd_set ReadDecimal (\<lambda>v s. s\<lparr>apisum_CpuTime := ucast v\<rparr>),
     rd_set ReadDecimal (\<lambda>v s. s\<lparr>apisum_Error := ucast v\<rparr>)]"

record CommonSpanStep = StepSingle +
  span_LocalEndpointServiceName :: i32
  span_LocalEndpointIp :: bytes
  span_LocalEndpointPort :: i16
  span_RemoteEndpointServiceName :: i32
  span_RemoteEndpointIp :: bytes
  span_RemoteEndpointPort :: i16
  span_Debug :: bool
  span_Shared :: bool
  span_Timestamp :: i64
  span_Elapsed :: i32
  span_Error :: i32
  span_AnnotationTimestamps :: "i64 slice"
  span_AnnotationValues :: "i32 slice"

definition CommonSpanStep_Write :: "'a CommonSpanStep_scheme \<Rightarrow> dout \<Rightarrow> dout" where
  "CommonSpanStep_Write s =
     writes [StepSingle_Write s,
     WriteDecimal (scast (span_LocalEndpointServiceName s)),
     WriteBlob (span_LocalEndpointIp s),
     WriteInt16 (span_LocalEndpointPort s),
     WriteDecimal (scast (span_RemoteEndpointServiceName s)),
     WriteBlob (span_RemoteEndpointIp s),
     WriteInt16 (span_RemoteEndpointPort s),
     WriteBoolean (span_Debug s),
     WriteBoolean (span_Shared s),
     WriteInt64 (span_Timestamp s),
     WriteDecimal (scast (span_Elapsed s)),
     WriteDecimal (scast (span_Error s)),
     WriteDecimalArray (span_AnnotationTimestamps s),
     WriteDecimalIntArray (span_AnnotationValues s)]"

definition CommonSpanStep_Read :: "'a CommonSpanStep_scheme \<Rightarrow> 'a CommonSpanStep_scheme rd" where
  "CommonSpanStep_Read = rd_steps
    [StepSingle_Read,
     rd_set ReadDecimal (\<lambda>v s. s\<lparr>span_LocalEndpointServiceName := ucast v\<rparr>),
     rd_set ReadBlob (\<lambda>v s. s\<lparr>span_LocalEndpointIp := v\<rparr>),
     rd_set ReadInt16 (\<lambda>v s. s\<lparr>span_LocalEndpointPort := v\<rparr>),
     rd_set ReadDecimal (\<lambda>v s. s\<lparr>span_RemoteEndpointServiceName := ucast v\<rparr>),
     rd_set ReadBlob (\<lambda>v s. s\<lparr>span_RemoteEndpointIp := v\<rparr>),
     rd_set ReadInt16 (\<lambda>v s. s\<lparr>span_RemoteEndpointPort := v\<rparr>),
     rd_set ReadBoolean (\<lambda>v s. s\<lparr>span_Debug := v\<rparr>),
     rd_set ReadBoolean (\<lambda>v s. s\<lparr>span_Shared := v\<rparr>),
     rd_set ReadInt64 (\<lambda>v s. s\<lparr>span_Timestamp := v\<rparr>),
     rd_set ReadDecimal (\<lambda>v s. s\<lparr>span_Elapsed := ucast v\<rparr>),
     rd_set ReadDecimal (\<lambda>v s. s\<lparr>span_Error := ucast v\<rparr>),
     rd_set ReadDecimalArray (\<lambda>v s. s\<lparr>span_AnnotationTimestamps := Some v\<rparr>),
     rd_set ReadDecimalIntArray (\<lambda>v s. s\<lparr>span_AnnotationValues := Some v\<rparr>)]"

type_synonym SpanStep = CommonSpanStep

definition SpanStep_Write :: "SpanStep \<Rightarrow> dout \<Rightarrow> dout" where
  "SpanStep_Write s = CommonSpanStep_Write s"

definition SpanStep_Read :: "SpanStep \<Rightarrow> SpanStep rd" where
  "SpanStep_Read s = CommonSpanStep_Read s"

record SpanCallStep = CommonSpanStep +
  spancall_Txid :: i64
  spancall_Opt :: byte
  spancall_Address :: string
  spancall_Async :: byte

definition SpanCallStep_Write :: "SpanCallStep \<Rightarrow> dout \<Rightarrow> dout" where
  "SpanCallStep_Write s =
     writes [CommonSpanStep_Write s,
     WriteInt64 (spancall_Txid s),
     WriteByte (spancall_Opt s),
     (if spancall_Opt s = 1 then WriteText (spancall_Address s) else id),
     WriteByte (spancall_Async s)]"

definition SpanCallStep_Read :: "SpanCallStep \<Rightarrow> SpanCallStep rd" where
  "SpanCallStep_Read = rd_steps
    [CommonSpanStep_Read,
     rd_set ReadInt64 (\<lambda>v s. s\<lparr>spancall_Txid := v\<rparr>),
     rd_set ReadByte (\<lambda>v s. s\<lparr>spancall_Opt := v\<rparr>),
     rd_when (\<lambda>s. spancall_Opt s = 1) (rd_set ReadText (\<lambda>v s. s\<lparr>spancall_Address := v\<rparr>)),
     rd_set ReadByte (\<lambda>v s. s\<lparr>spancall_Async := v\<rparr>)]"

record StepControl = StepSingle +
  control_Code :: byte
  control_Message :: string

definition StepControl_Write :: "StepControl \<Rightarrow> dout \<Rightarrow> dout" where
  "StepControl_Write s =
     writes [StepSingle_Write s,
     WriteByte (control_Code s),
     WriteText (control_Message s)]"

definition StepControl_Read :: "StepControl \<Rightarrow> StepControl rd" where
  "StepControl_Read = rd_steps
    [StepSingle_Read,
     rd_set ReadByte (\<lambda>v s. s\<lparr>control_Code := v\<rparr>),
     rd_set ReadText (\<lambda>v s. s\<lparr>control_Message := v\<rparr>)]"

subsection \<open>The step interface\<close>

datatype step =
    MethodStep MethodStep
  | MethodStep2 MethodStep2
  | SqlStep SqlStep
  | SqlStep2 SqlStep2
  | SqlStep3 SqlStep3
  | MessageStep MessageStep
  | SocketStep SocketStep
  | ApiCallStep ApiCallStep
  | ApiCallStep2 ApiCallStep2
  | DispatchStep DispatchStep
  | ThreadSubmitStep ThreadSubmitStep
  | ThreadCallPossibleStep ThreadCallPossibleStep
  | HashedMessageStep HashedMessageStep
  | ParameterizedMessageStep ParameterizedMessageStep
  | DumpStep DumpStep
  | MethodSum MethodSum
  | SqlSum SqlSum
  | MessageSum MessageSum
  | SocketSum SocketSum
  | ApiCallSum ApiCallSum
  | SpanStep SpanStep
  | SpanCallStep SpanCallStep
  | StepControl StepControl

fun StepType :: "step \<Rightarrow> byte" where
  "StepType (MethodStep _) = 1"
| "StepType (MethodStep2 _) = 10"
| "StepType (SqlStep _) = 2"
| "StepType (SqlStep2 _) = 8"
| "StepType (SqlStep3 _) = 16"
| "StepType (MessageStep _) = 3"
| "StepType (SocketStep _) = 5"
| "StepType (ApiCallStep _) = 6"
| "StepType (ApiCallStep2 _) = 15"
| "StepType (DispatchStep _) = 13"
| "StepType (ThreadSubmitStep _) = 7"
| "StepType (ThreadCallPossibleStep _) = 14"
| "StepType (HashedMessageStep _) = 9"
| "StepType (ParameterizedMessageStep _) = 17"
| "StepType (DumpStep _) = 12"
| "StepType (MethodSum _) = 11"
| "StepType (SqlSum _) = 21"
| "StepType (MessageSum _) = 31"
| "StepType (SocketSum _) = 42"
| "StepType (ApiCallSum _) = 43"
| "StepType (SpanStep _) = 51"
| "StepType (SpanCallStep _) = 52"
| "StepType (StepControl _) = 99"

text \<open>\<open>CreateStep\<close> allocates the zero struct of the type.\<close>

definition CreateStep :: "byte \<Rightarrow> step res" where
  "CreateStep typeCode =
     (if typeCode = 1 then Ok (MethodStep
         \<lparr>step_Parent = 0, step_Index = 0, step_StartTime = 0, step_StartCpu = 0,
          method_Hash = 0, method_Elapsed = 0, method_CpuTime = 0\<rparr>)
      else if typeCode = 10 then Ok (MethodStep2
         \<lparr>step_Parent = 0, step_Index = 0, step_StartTime = 0, step_StartCpu = 0,
          method_Hash = 0, method_Elapsed = 0, method_CpuTime = 0, method2_Error = 0\<rparr>)
      else if typeCode = 2 then Ok (SqlStep
         \<lparr>step_Parent = 0, step_Index = 0, step_StartTime = 0, step_StartCpu = 0, sql_Hash
          = 0, sql_Elapsed = 0, sql_CpuTime = 0, sql_Param = '''', sql_Error = 0\<rparr>)
      else if typeCode = 8 then Ok (SqlStep2
         \<lparr>step_Parent = 0, step_Index = 0, step_StartTime = 0, step_StartCpu = 0, sql_Hash
          = 0, sql_Elapsed = 0, sql_CpuTime = 0, sql_Param = '''', sql_Error = 0, sql2_XType =
          0\<rparr>)
      else if typeCode = 16 then Ok (SqlStep3
         \<lparr>step_Parent = 0, step_Index = 0, step_StartTime = 0, step_StartCpu = 0, sql_Hash
          = 0, sql_Elapsed = 0, sql_CpuTime = 0, sql_Param = '''', sql_Error = 0, sql2_XType = 0,
          sql3_Updated = 0\<rparr>)
      else if typeCode = 3 then Ok (MessageStep
         \<lparr>step_Parent = 0, step_Index = 0, step_StartTime = 0, step_StartCpu = 0,
          message_Message = ''''\<rparr>)
      else if typeCode = 5 then Ok (SocketStep
         \<lparr>step_Parent = 0, step_Index = 0, step_StartTime = 0, step_StartCpu = 0,
          socket_IPAddr = [], socket_Port = 0, socket_Elapsed = 0, socket_Error = 0\<rparr>)
      else if typeCode = 6 then Ok (ApiCallStep
         \<lparr>step_Parent = 0, step_Index = 0, step_StartTime = 0, step_StartCpu = 0,
          apicall_Txid = 0, apicall_Hash = 0, apicall_Elapsed = 0, apicall_CpuTime = 0,
          apicall_Error = 0, apicall_Opt = 0, apicall_Address = ''''\<rparr>)
      else if typeCode = 15 then Ok (ApiCallStep2
         \<lparr>step_Parent = 0, step_Index = 0, step_StartTime = 0, step_StartCpu = 0,
          apicall_Txid = 0, apicall_Hash = 0, apicall_Elapsed = 0, apicall_CpuTime = 0,
          apicall_Error = 0, apicall_Opt = 0, apicall_Address = '''', apicall2_Async = 0\<rparr>)
      else if typeCode = 13 then Ok (DispatchStep
         \<lparr>step_Parent = 0, step_Index = 0, step_StartTime = 0, step_StartCpu = 0,
          dispatch_Txid = 0, dispatch_Hash = 0, dispatch_Elapsed = 0, dispatch_CpuTime = 0,
          dispatch_Error = 0, dispatch_Opt = 0, dispatch_Address = ''''\<rparr>)
      else if typeCode = 7 then Ok (ThreadSubmitStep
         \<lparr>step_Parent = 0, step_Index = 0, step_StartTime = 0, step_StartCpu = 0,
          tsubmit_Txid = 0, tsubmit_Hash = 0, tsubmit_Elapsed = 0, tsubmit_CpuTime = 0,
          tsubmit_Error = 0\<rparr>)
      else if typeCode = 14 then Ok (ThreadCallPossibleStep
         \<lparr>step_Parent = 0, step_Index = 0, step_StartTime = 0, step_StartCpu = 0,
          tcall_Txid = 0, tcall_Hash = 0, tcall_Elapsed = 0, tcall_Threaded = 0\<rparr>)
      else if typeCode = 9 then Ok (HashedMessageStep
         \<lparr>step_Parent = 0, step_Index = 0, step_StartTime = 0, step_StartCpu = 0,
          hmsg_Hash = 0, hmsg_Time = 0, hmsg_Value = 0\<rparr>)
      else if typeCode = 17 then Ok (ParameterizedMessageStep
         \<lparr>step_Parent = 0, step_Index = 0, step_StartTime = 0, step_StartCpu = 0,
          pmsg_Hash = 0, pmsg_Elapsed = 0, pmsg_Level = 0, pmsg_ParamString = ''''\<rparr>)
      else if typeCode = 12 then Ok (DumpStep
         \<lparr>step_Parent = 0, step_Index = 0, step_StartTime = 0, step_StartCpu = 0,
          dump_Stacks = None, dump_ThreadId = 0, dump_ThreadName = '''', dump_ThreadState = '''',
          dump_LockOwnerId = 0, dump_LockName = '''', dump_LockOwnerName = ''''\<rparr>)
      else if typeCode = 11 then Ok (MethodSum
         \<lparr>msum_Hash = 0, msum_Count = 0, msum_Elapsed = 0, msum_CpuTime = 0\<rparr>)
      else if typeCode = 21 then Ok (SqlSum
         \<lparr>sqlsum_Hash = 0, sqlsum_Count = 0, sqlsum_Elapsed = 0, sqlsum_CpuTime = 0,
          sqlsum_Error = 0, sqlsum_Param = '''', sqlsum_ParamError = ''''\<rparr>)
      else if typeCode = 31 then Ok (MessageSum
         \<lparr>msgsum_Hash = 0, msgsum_Count = 0\<rparr>)
      else if typeCode = 42 then Ok (SocketSum
         \<lparr>sksum_IPAddr = [], sksum_Port = 0, sksum_Count = 0, sksum_Elapsed = 0,
          sksum_Error = 0\<rparr>)
      else if typeCode = 43 then Ok (ApiCallSum
         \<lparr>apisum_Hash = 0, apisum_Count = 0, apisum_Elapsed = 0, apisum_CpuTime = 0,
          apisum_Error = 0\<rparr>)
      else if typeCode = 51 then Ok (SpanStep
         \<lparr>step_Parent = 0, step_Index = 0, step_StartTime = 0, step_StartCpu = 0,
          span_LocalEndpointServiceName = 0, span_LocalEndpointIp = [], span_LocalEndpointPort =
          0, span_RemoteEndpointServiceName = 0, span_RemoteEndpointIp = [],
          span_RemoteEndpointPort = 0, span_Debug = False, span_Shared = False, span_Timestamp =
          0, span_Elapsed = 0, span_Error = 0, span_AnnotationTimestamps = None,
          span_AnnotationValues = None\<rparr>)
      else if typeCode = 52 then Ok (SpanCallStep
         \<lparr>step_Parent = 0, step_Index = 0, step_StartTime = 0, step_StartCpu = 0,
          span_LocalEndpointServiceName = 0, span_LocalEndpointIp = [], span_LocalEndpointPort =
          0, span_RemoteEndpointServiceName = 0, span_RemoteEndpointIp = [],
          span_RemoteEndpointPort = 0, span_Debug = False, span_Shared = False, span_Timestamp =
          0, span_Elapsed = 0, span_Error = 0, span_AnnotationTimestamps = None,
          span_AnnotationValues = None, spancall_Txid = 0, spancall_Opt = 0, spancall_Address =
          '''', spancall_Async = 0\<rparr>)
      else if typeCode = 99 then Ok (StepControl
         \<lparr>step_Parent = 0, step_Index = 0, step_StartTime = 0, step_StartCpu = 0,
          control_Code = 0, control_Message = ''''\<rparr>)
      else Err (ErrUnknownType typeCode))"

fun step_Write :: "step \<Rightarrow> dout \<Rightarrow> dout" where
  "step_Write (MethodStep s) = MethodStep_Write s"
| "step_Write (MethodStep2 s) = MethodStep2_Write s"
| "step_Write (SqlStep s) = SqlStep_Write s"
| "step_Write (SqlStep2 s) = SqlStep2_Write s"
| "step_Write (SqlStep3 s) = SqlStep3_Write s"
| "step_Write (MessageStep s) = MessageStep_Write s"
| "step_Write (SocketStep s) = SocketStep_Write s"
| "step_Write (ApiCallStep s) = ApiCallStep_Write s"
| "step_Write (ApiCallStep2 s) = ApiCallStep2_Write s"
| "step_Write (DispatchStep s) = DispatchStep_Write s"
| "step_Write (ThreadSubmitStep s) = ThreadSubmitStep_Write s"
| "step_Write (ThreadCallPossibleStep s) = ThreadCallPossibleStep_Write s"
| "step_Write (HashedMessageStep s) = HashedMessageStep_Write s"
| "step_Write (ParameterizedMessageStep s) = ParameterizedMessageStep_Write s"
| "step_Write (DumpStep s) = DumpStep_Write s"
| "step_Write (MethodSum s) = MethodSum_Write s"
| "step_Write (SqlSum s) = SqlSum_Write s"
| "step_Write (MessageSum s) = MessageSum_Write s"
| "step_Write (SocketSum s) = SocketSum_Write s"
| "step_Write (ApiCallSum s) = ApiCallSum_Write s"
| "step_Write (SpanStep s) = SpanStep_Write s"
| "step_Write (SpanCallStep s) = SpanCallStep_Write s"
| "step_Write (StepControl s) = StepControl_Write s"

fun step_Read :: "step \<Rightarrow> step rd" where
  "step_Read (MethodStep s) = rd_bind (MethodStep_Read s) (\<lambda>s. rd_ret (MethodStep s))"
| "step_Read (MethodStep2 s) = rd_bind (MethodStep2_Read s) (\<lambda>s. rd_ret (MethodStep2 s))"
| "step_Read (SqlStep s) = rd_bind (SqlStep_Read s) (\<lambda>s. rd_ret (SqlStep s))"
| "step_Read (SqlStep2 s) = rd_bind (SqlStep2_Read s) (\<lambda>s. rd_ret (SqlStep2 s))"
| "step_Read (SqlStep3 s) = rd_bind (SqlStep3_Read s) (\<lambda>s. rd_ret (SqlStep3 s))"
| "step_Read (MessageStep s) = rd_bind (MessageStep_Read s) (\<lambda>s. rd_ret (MessageStep s))"
| "step_Read (SocketStep s) = rd_bind (SocketStep_Read s) (\<lambda>s. rd_ret (SocketStep s))"
| "step_Read (ApiCallStep s) = rd_bind (ApiCallStep_Read s) (\<lambda>s. rd_ret (ApiCallStep s))"
| "step_Read (ApiCallStep2 s) = rd_bind (ApiCallStep2_Read s) (\<lambda>s. rd_ret (ApiCallStep2 s))"
| "step_Read (DispatchStep s) = rd_bind (DispatchStep_Read s) (\<lambda>s. rd_ret (DispatchStep s))"
| "step_Read (ThreadSubmitStep s) = rd_bind (ThreadSubmitStep_Read s) (\<lambda>s. rd_ret (ThreadSubmitStep s))"
| "step_Read (ThreadCallPossibleStep s) = rd_bind (ThreadCallPossibleStep_Read s) (\<lambda>s. rd_ret (ThreadCallPossibleStep s))"
| "step_Read (HashedMessageStep s) = rd_bind (HashedMessageStep_Read s) (\<lambda>s. rd_ret (HashedMessageStep s))"
| "step_Read (ParameterizedMessageStep s) = rd_bind (ParameterizedMessageStep_Read s) (\<lambda>s. rd_ret (ParameterizedMessageStep s))"
| "step_Read (DumpStep s) = rd_bind (DumpStep_Read s) (\<lambda>s. rd_ret (DumpStep s))"
| "step_Read (MethodSum s) = rd_bind (MethodSum_Read s) (\<lambda>s. rd_ret (MethodSum s))"
| "step_Read (SqlSum s) = rd_bind (SqlSum_Read s) (\<lambda>s. rd_ret (SqlSum s))"
| "step_Read (MessageSum s) = rd_bind (MessageSum_Read s) (\<lambda>s. rd_ret (MessageSum s))"
| "step_Read (SocketSum s) = rd_bind (SocketSum_Read s) (\<lambda>s. rd_ret (SocketSum s))"
| "step_Read (ApiCallSum s) = rd_bind (ApiCallSum_Read s) (\<lambda>s. rd_ret (ApiCallSum s))"
| "step_Read (SpanStep s) = rd_bind (SpanStep_Read s) (\<lambda>s. rd_ret (SpanStep s))"
| "step_Read (SpanCallStep s) = rd_bind (SpanCallStep_Read s) (\<lambda>s. rd_ret (SpanCallStep s))"
| "step_Read (StepControl s) = rd_bind (StepControl_Read s) (\<lambda>s. rd_ret (StepControl s))"

definition WriteStep :: "step \<Rightarrow> dout \<Rightarrow> dout" where
  "WriteStep s = writes [WriteByte (StepType s), step_Write s]"

definition ReadStep :: "step rd" where
  "ReadStep = rd_bind ReadByte (\<lambda>typeCode. case CreateStep typeCode of
     Ok s \<Rightarrow> step_Read s
   | Err e \<Rightarrow> rd_fail e
   | Panic p \<Rightarrow> rd_panic p)"

subsection \<open>Round trip\<close>

text \<open>
  What the wire format can hold of a step, and what is read back: an \<open>Address\<close> is only kept when
  \<open>Opt\<close> is 1, and a nil annotation or stack array comes back empty.
\<close>

fun ok_step :: "step \<Rightarrow> bool" where
  "ok_step (MethodStep s) = True"
| "ok_step (MethodStep2 s) = True"
| "ok_step (SqlStep s) = (ok_text (sql_Param s))"
| "ok_step (SqlStep2 s) = (ok_text (sql_Param s))"
| "ok_step (SqlStep3 s) = (ok_text (sql_Param s))"
| "ok_step (MessageStep s) = (ok_text (message_Message s))"
| "ok_step (SocketStep s) = (ok_blob (socket_IPAddr s))"
| "ok_step (ApiCallStep s) = ((apicall_Opt s = 1 \<longrightarrow> ok_text (apicall_Address s)))"
| "ok_step (ApiCallStep2 s) = ((apicall_Opt s = 1 \<longrightarrow> ok_text (apicall_Address s)))"
| "ok_step (DispatchStep s) = ((dispatch_Opt s = 1 \<longrightarrow> ok_text (dispatch_Address s)))"
| "ok_step (ThreadSubmitStep s) = True"
| "ok_step (ThreadCallPossibleStep s) = True"
| "ok_step (HashedMessageStep s) = True"
| "ok_step (ParameterizedMessageStep s) = (ok_text (pmsg_ParamString s))"
| "ok_step (DumpStep s) = (ok_array (dump_Stacks s) \<and> ok_text (dump_ThreadName s) \<and> ok_text (dump_ThreadState s) \<and> ok_text (dump_LockName s) \<and> ok_text (dump_LockOwnerName s))"
| "ok_step (MethodSum s) = True"
| "ok_step (SqlSum s) = (ok_text (sqlsum_Param s) \<and> ok_text (sqlsum_ParamError s))"
| "ok_step (MessageSum s) = True"
| "ok_step (SocketSum s) = (ok_blob (sksum_IPAddr s))"
| "ok_step (ApiCallSum s) = True"
| "ok_step (SpanStep s) = (ok_blob (span_LocalEndpointIp s) \<and> ok_blob (span_RemoteEndpointIp s) \<and> ok_array (span_AnnotationTimestamps s) \<and> ok_array (span_AnnotationValues s))"
| "ok_step (SpanCallStep s) = (ok_blob (span_LocalEndpointIp s) \<and> ok_blob (span_RemoteEndpointIp s) \<and> ok_array (span_AnnotationTimestamps s) \<and> ok_array (span_AnnotationValues s) \<and> (spancall_Opt s = 1 \<longrightarrow> ok_text (spancall_Address s)))"
| "ok_step (StepControl s) = (ok_text (control_Message s))"

fun norm_step :: "step \<Rightarrow> step" where
  "norm_step (MethodStep s) = MethodStep s"
| "norm_step (MethodStep2 s) = MethodStep2 s"
| "norm_step (SqlStep s) = SqlStep s"
| "norm_step (SqlStep2 s) = SqlStep2 s"
| "norm_step (SqlStep3 s) = SqlStep3 s"
| "norm_step (MessageStep s) = MessageStep s"
| "norm_step (SocketStep s) = SocketStep s"
| "norm_step (ApiCallStep s) = ApiCallStep (s\<lparr>apicall_Address := (if apicall_Opt s = 1 then apicall_Address s else '''')\<rparr>)"
| "norm_step (ApiCallStep2 s) = ApiCallStep2 (s\<lparr>apicall_Address := (if apicall_Opt s = 1 then apicall_Address s else '''')\<rparr>)"
| "norm_step (DispatchStep s) = DispatchStep (s\<lparr>dispatch_Address := (if dispatch_Opt s = 1 then dispatch_Address s else '''')\<rparr>)"
| "norm_step (ThreadSubmitStep s) = ThreadSubmitStep s"
| "norm_step (ThreadCallPossibleStep s) = ThreadCallPossibleStep s"
| "norm_step (HashedMessageStep s) = HashedMessageStep s"
| "norm_step (ParameterizedMessageStep s) = ParameterizedMessageStep s"
| "norm_step (DumpStep s) = DumpStep (s\<lparr>dump_Stacks := Some (elems (dump_Stacks s))\<rparr>)"
| "norm_step (MethodSum s) = MethodSum s"
| "norm_step (SqlSum s) = SqlSum s"
| "norm_step (MessageSum s) = MessageSum s"
| "norm_step (SocketSum s) = SocketSum s"
| "norm_step (ApiCallSum s) = ApiCallSum s"
| "norm_step (SpanStep s) = SpanStep (s\<lparr>span_AnnotationTimestamps := Some (elems (span_AnnotationTimestamps s)), span_AnnotationValues := Some (elems (span_AnnotationValues s))\<rparr>)"
| "norm_step (SpanCallStep s) = SpanCallStep (s\<lparr>span_AnnotationTimestamps := Some (elems (span_AnnotationTimestamps s)), span_AnnotationValues := Some (elems (span_AnnotationValues s)), spancall_Address := (if spancall_Opt s = 1 then spancall_Address s else '''')\<rparr>)"
| "norm_step (StepControl s) = StepControl s"

lemma wire_StepSingle [wire_intro]:
  "wire (StepSingle_Write x) (StepSingle_Read s)
     (s\<lparr>step_Parent := step_Parent x, step_Index := step_Index x,
        step_StartTime := step_StartTime x, step_StartCpu := step_StartCpu x\<rparr>)"
  unfolding StepSingle_Write_def StepSingle_Read_def writes.simps fcomp_assoc
  by (rule wire_dec32 wire_fields wire_intro)+

lemma wire_MethodStep [wire_intro]:
  "wire (MethodStep_Write x) (MethodStep_Read s)
     (s\<lparr>step_Parent := step_Parent x, step_Index := step_Index x, step_StartTime :=
         step_StartTime x, step_StartCpu := step_StartCpu x, method_Hash := method_Hash x,
         method_Elapsed := method_Elapsed x, method_CpuTime := method_CpuTime x\<rparr>)"
  unfolding MethodStep_Write_def MethodStep_Read_def writes.simps fcomp_assoc
  by (rule wire_dec32 wire_fields wire_intro)+

lemma wire_MethodStep2 [wire_intro]:
  "wire (MethodStep2_Write x) (MethodStep2_Read s)
     (s\<lparr>step_Parent := step_Parent x, step_Index := step_Index x, step_StartTime :=
         step_StartTime x, step_StartCpu := step_StartCpu x, method_Hash := method_Hash x,
         method_Elapsed := method_Elapsed x, method_CpuTime := method_CpuTime x, method2_Error
         := method2_Error x\<rparr>)"
  unfolding MethodStep2_Write_def MethodStep2_Read_def writes.simps fcomp_assoc
  by (rule wire_dec32 wire_fields wire_intro)+

lemma wire_SqlStep [wire_intro]:
  assumes "ok_text (sql_Param x)"
  shows "wire (SqlStep_Write x) (SqlStep_Read s)
     (s\<lparr>step_Parent := step_Parent x, step_Index := step_Index x, step_StartTime :=
         step_StartTime x, step_StartCpu := step_StartCpu x, sql_Hash := sql_Hash x,
         sql_Elapsed := sql_Elapsed x, sql_CpuTime := sql_CpuTime x, sql_Param := sql_Param x,
         sql_Error := sql_Error x\<rparr>)"
  unfolding SqlStep_Write_def SqlStep_Read_def writes.simps fcomp_assoc
  by (rule wire_dec32 wire_fields wire_intro assms)+

lemma wire_SqlStep2 [wire_intro]:
  assumes "ok_text (sql_Param x)"
  shows "wire (SqlStep2_Write x) (SqlStep2_Read s)
     (s\<lparr>step_Parent := step_Parent x, step_Index := step_Index x, step_StartTime :=
         step_StartTime x, step_StartCpu := step_StartCpu x, sql_Hash := sql_Hash x,
         sql_Elapsed := sql_Elapsed x, sql_CpuTime := sql_CpuTime x, sql_Param := sql_Param x,
         sql_Error := sql_Error x, sql2_XType := sql2_XType x\<rparr>)"
  unfolding SqlStep2_Write_def SqlStep2_Read_def writes.simps fcomp_assoc
  by (rule wire_dec32 wire_fields wire_intro assms)+

lemma wire_SqlStep3 [wire_intro]:
  assumes "ok_text (sql_Param x)"
  shows "wire (SqlStep3_Write x) (SqlStep3_Read s)
     (s\<lparr>step_Parent := step_Parent x, step_Index := step_Index x, step_StartTime :=
         step_StartTime x, step_StartCpu := step_StartCpu x, sql_Hash := sql_Hash x,
         sql_Elapsed := sql_Elapsed x, sql_CpuTime := sql_CpuTime x, sql_Param := sql_Param x,
         sql_Error := sql_Error x, sql2_XType := sql2_XType x, sql3_Updated := sql3_Updated x\<rparr>)"
  unfolding SqlStep3_Write_def SqlStep3_Read_def writes.simps fcomp_assoc
  by (rule wire_dec32 wire_fields wire_intro assms)+

lemma wire_MessageStep [wire_intro]:
  assumes "ok_text (message_Message x)"
  shows "wire (MessageStep_Write x) (MessageStep_Read s)
     (s\<lparr>step_Parent := step_Parent x, step_Index := step_Index x, step_StartTime :=
         step_StartTime x, step_StartCpu := step_StartCpu x, message_Message := message_Message
         x\<rparr>)"
  unfolding MessageStep_Write_def MessageStep_Read_def writes.simps fcomp_assoc
  by (rule wire_dec32 wire_fields wire_intro assms)+

lemma wire_SocketStep [wire_intro]:
  assumes "ok_blob (socket_IPAddr x)"
  shows "wire (SocketStep_Write x) (SocketStep_Read s)
     (s\<lparr>step_Parent := step_Parent x, step_Index := step_Index x, step_StartTime :=
         step_StartTime x, step_StartCpu := step_StartCpu x, socket_IPAddr := socket_IPAddr x,
         socket_Port := socket_Port x, socket_Elapsed := socket_Elapsed x, socket_Error :=
         socket_Error x\<rparr>)"
  unfolding SocketStep_Write_def SocketStep_Read_def writes.simps fcomp_assoc
  by (rule wire_dec32 wire_fields wire_intro assms)+

lemma wire_ApiCallStep [wire_intro]:
  assumes "apicall_Opt x = 1 \<Longrightarrow> ok_text (apicall_Address x)"
  shows "wire (ApiCallStep_Write x) (ApiCallStep_Read s)
     (s\<lparr>step_Parent := step_Parent x, step_Index := step_Index x, step_StartTime :=
         step_StartTime x, step_StartCpu := step_StartCpu x, apicall_Txid := apicall_Txid x,
         apicall_Hash := apicall_Hash x, apicall_Elapsed := apicall_Elapsed x, apicall_CpuTime
         := apicall_CpuTime x, apicall_Error := apicall_Error x, apicall_Opt := apicall_Opt x,
         apicall_Address := (if apicall_Opt x = 1 then apicall_Address x else apicall_Address
         s)\<rparr>)"
  unfolding ApiCallStep_Write_def ApiCallStep_Read_def writes.simps fcomp_assoc
  by (rule wire_cong, (rule wire_dec32 wire_fields wire_intro assms | assumption | (simp; fail))+)

lemma wire_ApiCallStep2 [wire_intro]:
  assumes "apicall_Opt x = 1 \<Longrightarrow> ok_text (apicall_Address x)"
  shows "wire (ApiCallStep2_Write x) (ApiCallStep2_Read s)
     (s\<lparr>step_Parent := step_Parent x, step_Index := step_Index x, step_StartTime :=
         step_StartTime x, step_StartCpu := step_StartCpu x, apicall_Txid := apicall_Txid x,
         apicall_Hash := apicall_Hash x, apicall_Elapsed := apicall_Elapsed x, apicall_CpuTime
         := apicall_CpuTime x, apicall_Error := apicall_Error x, apicall_Opt := apicall_Opt x,
         apicall_Address := (if apicall_Opt x = 1 then apicall_Address x else apicall_Address
         s), apicall2_Async := apicall2_Async x\<rparr>)"
  unfolding ApiCallStep2_Write_def ApiCallStep2_Read_def writes.simps fcomp_assoc
  by (rule wire_cong, (rule wire_dec32 wire_fields wire_intro assms | assumption | (simp; fail))+)

lemma wire_DispatchStep [wire_intro]:
  assumes "dispatch_Opt x = 1 \<Longrightarrow> ok_text (dispatch_Address x)"
  shows "wire (DispatchStep_Write x) (DispatchStep_Read s)
     (s\<lparr>step_Parent := step_Parent x, step_Index := step_Index x, step_StartTime :=
         step_StartTime x, step_StartCpu := step_StartCpu x, dispatch_Txid := dispatch_Txid x,
         dispatch_Hash := dispatch_Hash x, dispatch_Elapsed := dispatch_Elapsed x,
         dispatch_CpuTime := dispatch_CpuTime x, dispatch_Error := dispatch_Error x,
         dispatch_Opt := dispatch_Opt x, dispatch_Address := (if dispatch_Opt x = 1 then
         dispatch_Address x else dispatch_Address s)\<rparr>)"
  unfolding DispatchStep_Write_def DispatchStep_Read_def writes.simps fcomp_assoc
  by (rule wire_cong, (rule wire_dec32 wire_fields wire_intro assms | assumption | (simp; fail))+)

lemma wire_ThreadSubmitStep [wire_intro]:
  "wire (ThreadSubmitStep_Write x) (ThreadSubmitStep_Read s)
     (s\<lparr>step_Parent := step_Parent x, step_Index := step_Index x, step_StartTime :=
         step_StartTime x, step_StartCpu := step_StartCpu x, tsubmit_Txid := tsubmit_Txid x,
         tsubmit_Hash := tsubmit_Hash x, tsubmit_Elapsed := tsubmit_Elapsed x, tsubmit_CpuTime
         := tsubmit_CpuTime x, tsubmit_Error := tsubmit_Error x\<rparr>)"
  unfolding ThreadSubmitStep_Write_def ThreadSubmitStep_Read_def writes.simps fcomp_assoc
  by (rule wire_dec32 wire_fields wire_intro)+

lemma wire_ThreadCallPossibleStep [wire_intro]:
  "wire (ThreadCallPossibleStep_Write x) (ThreadCallPossibleStep_Read s)
     (s\<lparr>step_Parent := step_Parent x, step_Index := step_Index x, step_StartTime :=
         step_StartTime x, step_StartCpu := step_StartCpu x, tcall_Txid := tcall_Txid x,
         tcall_Hash := tcall_Hash x, tcall_Elapsed := tcall_Elapsed x, tcall_Threaded :=
         tcall_Threaded x\<rparr>)"
  unfolding ThreadCallPossibleStep_Write_def ThreadCallPossibleStep_Read_def writes.simps fcomp_assoc
  by (rule wire_dec32 wire_fields wire_intro)+

lemma wire_HashedMessageStep [wire_intro]:
  "wire (HashedMessageStep_Write x) (HashedMessageStep_Read s)
     (s\<lparr>step_Parent := step_Parent x, step_Index := step_Index x, step_StartTime :=
         step_StartTime x, step_StartCpu := step_StartCpu x, hmsg_Hash := hmsg_Hash x,
         hmsg_Time := hmsg_Time x, hmsg_Value := hmsg_Value x\<rparr>)"
  unfolding HashedMessageStep_Write_def HashedMessageStep_Read_def writes.simps fcomp_assoc
  by (rule wire_dec32 wire_fields wire_intro)+

lemma wire_ParameterizedMessageStep [wire_intro]:
  assumes "ok_text (pmsg_ParamString x)"
  shows "wire (ParameterizedMessageStep_Write x) (ParameterizedMessageStep_Read s)
     (s\<lparr>step_Parent := step_Parent x, step_Index := step_Index x, step_StartTime :=
         step_StartTime x, step_StartCpu := step_StartCpu x, pmsg_Hash := pmsg_Hash x,
         pmsg_Elapsed := pmsg_Elapsed x, pmsg_Level := pmsg_Level x, pmsg_ParamString :=
         pmsg_ParamString x\<rparr>)"
  unfolding ParameterizedMessageStep_Write_def ParameterizedMessageStep_Read_def writes.simps fcomp_assoc
  by (rule wire_dec32 wire_fields wire_intro assms)+

lemma wire_DumpStep [wire_intro]:
  assumes "ok_array (dump_Stacks x)" "ok_text (dump_ThreadName x)" "ok_text (dump_ThreadState x)" "ok_text (dump_LockName x)" "ok_text (dump_LockOwnerName x)"
  shows "wire (DumpStep_Write x) (DumpStep_Read s)
     (s\<lparr>step_Parent := step_Parent x, step_Index := step_Index x, step_StartTime :=
         step_StartTime x, step_StartCpu := step_StartCpu x, dump_Stacks := Some (elems
         (dump_Stacks x)), dump_ThreadId := dump_ThreadId x, dump_ThreadName := dump_ThreadName
         x, dump_ThreadState := dump_ThreadState x, dump_LockOwnerId := dump_LockOwnerId x,
         dump_LockName := dump_LockName x, dump_LockOwnerName := dump_LockOwnerName x\<rparr>)"
  unfolding DumpStep_Write_def DumpStep_Read_def writes.simps fcomp_assoc
  by (rule wire_dec32 wire_fields wire_intro assms)+

lemma wire_MethodSum [wire_intro]:
  "wire (MethodSum_Write x) (MethodSum_Read s)
     (s\<lparr>msum_Hash := msum_Hash x, msum_Count := msum_Count x, msum_Elapsed := msum_Elapsed x,
         msum_CpuTime := msum_CpuTime x\<rparr>)"
  unfolding MethodSum_Write_def MethodSum_Read_def writes.simps fcomp_assoc
  by (rule wire_dec32 wire_fields wire_intro)+

lemma wire_SqlSum [wire_intro]:
  assumes "ok_text (sqlsum_Param x)" "ok_text (sqlsum_ParamError x)"
  shows "wire (SqlSum_Write x) (SqlSum_Read s)
     (s\<lparr>sqlsum_Hash := sqlsum_Hash x, sqlsum_Count := sqlsum_Count x, sqlsum_Elapsed :=
         sqlsum_Elapsed x, sqlsum_CpuTime := sqlsum_CpuTime x, sqlsum_Error := sqlsum_Error x,
         sqlsum_Param := sqlsum_Param x, sqlsum_ParamError := sqlsum_ParamError x\<rparr>)"
  unfolding SqlSum_Write_def SqlSum_Read_def writes.simps fcomp_assoc
  by (rule wire_dec32 wire_fields wire_intro assms)+

lemma wire_MessageSum [wire_intro]:
  "wire (MessageSum_Write x) (MessageSum_Read s)
     (s\<lparr>msgsum_Hash := msgsum_Hash x, msgsum_Count := msgsum_Count x\<rparr>)"
  unfolding MessageSum_Write_def MessageSum_Read_def writes.simps fcomp_assoc
  by (rule wire_dec32 wire_fields wire_intro)+

lemma wire_SocketSum [wire_intro]:
  assumes "ok_blob (sksum_IPAddr x)"
  shows "wire (SocketSum_Write x) (SocketSum_Read s)
     (s\<lparr>sksum_IPAddr := sksum_IPAddr x, sksum_Port := sksum_Port x, sksum_Count := sksum_Count
         x, sksum_Elapsed := sksum_Elapsed x, sksum_Error := sksum_Error x\<rparr>)"
  unfolding SocketSum_Write_def SocketSum_Read_def writes.simps fcomp_assoc
  by (rule wire_dec32 wire_fields wire_intro assms)+

lemma wire_ApiCallSum [wire_intro]:
  "wire (ApiCallSum_Write x) (ApiCallSum_Read s)
     (s\<lparr>apisum_Hash := apisum_Hash x, apisum_Count := apisum_Count x, apisum_Elapsed :=
         apisum_Elapsed x, apisum_CpuTime := apisum_CpuTime x, apisum_Error := apisum_Error x\<rparr>)"
  unfolding ApiCallSum_Write_def ApiCallSum_Read_def writes.simps fcomp_assoc
  by (rule wire_dec32 wire_fields wire_intro)+

lemma wire_CommonSpanStep [wire_intro]:
  assumes "ok_blob (span_LocalEndpointIp x)" "ok_blob (span_RemoteEndpointIp x)" "ok_array (span_AnnotationTimestamps x)" "ok_array (span_AnnotationValues x)"
  shows "wire (CommonSpanStep_Write x) (CommonSpanStep_Read s)
     (s\<lparr>step_Parent := step_Parent x, step_Index := step_Index x, step_StartTime :=
         step_StartTime x, step_StartCpu := step_StartCpu x, span_LocalEndpointServiceName :=
         span_LocalEndpointServiceName x, span_LocalEndpointIp := span_LocalEndpointIp x,
         span_LocalEndpointPort := span_LocalEndpointPort x, span_RemoteEndpointServiceName :=
         span_RemoteEndpointServiceName x, span_RemoteEndpointIp := span_RemoteEndpointIp x,
         span_RemoteEndpointPort := span_RemoteEndpointPort x, span_Debug := span_Debug x,
         span_Shared := span_Shared x, span_Timestamp := span_Timestamp x, span_Elapsed :=
         span_Elapsed x, span_Error := span_Error x, span_AnnotationTimestamps := Some (elems
         (span_AnnotationTimestamps x)), span_AnnotationValues := Some (elems
         (span_AnnotationValues x))\<rparr>)"
  unfolding CommonSpanStep_Write_def CommonSpanStep_Read_def writes.simps fcomp_assoc
  by (rule wire_dec32 wire_fields wire_intro assms)+

lemma wire_SpanStep [wire_intro]:
  assumes "ok_blob (span_LocalEndpointIp x)" "ok_blob (span_RemoteEndpointIp x)" "ok_array (span_AnnotationTimestamps x)" "ok_array (span_AnnotationValues x)"
  shows "wire (SpanStep_Write x) (SpanStep_Read s)
     (s\<lparr>step_Parent := step_Parent x, step_Index := step_Index x, step_StartTime :=
         step_StartTime x, step_StartCpu := step_StartCpu x, span_LocalEndpointServiceName :=
         span_LocalEndpointServiceName x, span_LocalEndpointIp := span_LocalEndpointIp x,
         span_LocalEndpointPort := span_LocalEndpointPort x, span_RemoteEndpointServiceName :=
         span_RemoteEndpointServiceName x, span_RemoteEndpointIp := span_RemoteEndpointIp x,
         span_RemoteEndpointPort := span_RemoteEndpointPort x, span_Debug := span_Debug x,
         span_Shared := span_Shared x, span_Timestamp := span_Timestamp x, span_Elapsed :=
         span_Elapsed x, span_Error := span_Error x, span_AnnotationTimestamps := Some (elems
         (span_AnnotationTimestamps x)), span_AnnotationValues := Some (elems
         (span_AnnotationValues x))\<rparr>)"
  unfolding SpanStep_Write_def SpanStep_Read_def using assms by (rule wire_CommonSpanStep)

lemma wire_SpanCallStep [wire_intro]:
  assumes "ok_blob (span_LocalEndpointIp x)" "ok_blob (span_RemoteEndpointIp x)" "ok_array (span_AnnotationTimestamps x)" "ok_array (span_AnnotationValues x)" "spancall_Opt x = 1 \<Longrightarrow> ok_text (spancall_Address x)"
  shows "wire (SpanCallStep_Write x) (SpanCallStep_Read s)
     (s\<lparr>step_Parent := step_Parent x, step_Index := step_Index x, step_StartTime :=
         step_StartTime x, step_StartCpu := step_StartCpu x, span_LocalEndpointServiceName :=
         span_LocalEndpointServiceName x, span_LocalEndpointIp := span_LocalEndpointIp x,
         span_LocalEndpointPort := span_LocalEndpointPort x, span_RemoteEndpointServiceName :=
         span_RemoteEndpointServiceName x, span_RemoteEndpointIp := span_RemoteEndpointIp x,
         span_RemoteEndpointPort := span_RemoteEndpointPort x, span_Debug := span_Debug x,
         span_Shared := span_Shared x, span_Timestamp := span_Timestamp x, span_Elapsed :=
         span_Elapsed x, span_Error := span_Error x, span_AnnotationTimestamps := Some (elems
         (span_AnnotationTimestamps x)), span_AnnotationValues := Some (elems
         (span_AnnotationValues x)), spancall_Txid := spancall_Txid x, spancall_Opt :=
         spancall_Opt x, spancall_Address := (if spancall_Opt x = 1 then spancall_Address x
         else spancall_Address s), spancall_Async := spancall_Async x\<rparr>)"
  unfolding SpanCallStep_Write_def SpanCallStep_Read_def writes.simps fcomp_assoc
  by (rule wire_cong, (rule wire_dec32 wire_fields wire_intro assms | assumption | (simp; fail))+)

lemma wire_StepControl [wire_intro]:
  assumes "ok_text (control_Message x)"
  shows "wire (StepControl_Write x) (StepControl_Read s)
     (s\<lparr>step_Parent := step_Parent x, step_Index := step_Index x, step_StartTime :=
         step_StartTime x, step_StartCpu := step_StartCpu x, control_Code := control_Code x,
         control_Message := control_Message x\<rparr>)"
  unfolding StepControl_Write_def StepControl_Read_def writes.simps fcomp_assoc
  by (rule wire_dec32 wire_fields wire_intro assms)+

lemmas step_wires =
  wire_MethodStep wire_MethodStep2 wire_SqlStep wire_SqlStep2 wire_SqlStep3 wire_MessageStep
  wire_SocketStep wire_ApiCallStep wire_ApiCallStep2 wire_DispatchStep wire_ThreadSubmitStep
  wire_ThreadCallPossibleStep wire_HashedMessageStep wire_ParameterizedMessageStep wire_DumpStep
  wire_MethodSum wire_SqlSum wire_MessageSum wire_SocketSum wire_ApiCallSum wire_SpanStep
  wire_SpanCallStep wire_StepControl

text \<open>The table of \<open>CreateStep\<close> and the \<open>StepType\<close> methods are inverse to each other.\<close>

lemma StepType_CreateStep: "CreateStep t = Ok z \<Longrightarrow> StepType z = t"
  by (auto simp: CreateStep_def split: if_splits)

lemma CreateStep_outcome: "(\<exists>z. CreateStep t = Ok z) \<or> CreateStep t = Err (ErrUnknownType t)"
  by (simp add: CreateStep_def)

lemma wire_step_body:
  assumes "ok_step s"
  shows "\<exists>z. CreateStep (StepType s) = Ok z \<and> wire (step_Write s) (step_Read z) (norm_step s)"
proof (cases s)

  case (MethodStep x)
  with assms show ?thesis unfolding MethodStep step_Write.simps CreateStep_def
    by (auto intro!: wire_last [THEN wire_cong] wire_MethodStep)
next
  case (MethodStep2 x)
  with assms show ?thesis unfolding MethodStep2 step_Write.simps CreateStep_def
    by (auto intro!: wire_last [THEN wire_cong] wire_MethodStep2)
next
  case (SqlStep x)
  with assms show ?thesis unfolding SqlStep step_Write.simps CreateStep_def
    by (auto intro!: wire_last [THEN wire_cong] wire_SqlStep)
next
  case (SqlStep2 x)
  with assms show ?thesis unfolding SqlStep2 step_Write.simps CreateStep_def
    by (auto intro!: wire_last [THEN wire_cong] wire_SqlStep2)
next
  case (SqlStep3 x)
  with assms show ?thesis unfolding SqlStep3 step_Write.simps CreateStep_def
    by (auto intro!: wire_last [THEN wire_cong] wire_SqlStep3)
next
  case (MessageStep x)
  with assms show ?thesis unfolding MessageStep step_Write.simps CreateStep_def
    by (auto intro!: wire_last [THEN wire_cong] wire_MessageStep)
next
  case (SocketStep x)
  with assms show ?thesis unfolding SocketStep step_Write.simps CreateStep_def
    by (auto intro!: wire_last [THEN wire_cong] wire_SocketStep)
next
  case (ApiCallStep x)
  with assms show ?thesis unfolding ApiCallStep step_Write.simps CreateStep_def
    by (auto intro!: wire_last [THEN wire_cong] wire_ApiCallStep)
next
  case (ApiCallStep2 x)
  with assms show ?thesis unfolding ApiCallStep2 step_Write.simps CreateStep_def
    by (auto intro!: wire_last [THEN wire_cong] wire_ApiCallStep2)
next
  case (DispatchStep x)
  with assms show ?thesis unfolding DispatchStep step_Write.simps CreateStep_def
    by (auto intro!: wire_last [THEN wire_cong] wire_DispatchStep)
next
  case (ThreadSubmitStep x)
  with assms show ?thesis unfolding ThreadSubmitStep step_Write.simps CreateStep_def
    by (auto intro!: wire_last [THEN wire_cong] wire_ThreadSubmitStep)
next
  case (ThreadCallPossibleStep x)
  with assms show ?thesis unfolding ThreadCallPossibleStep step_Write.simps CreateStep_def
    by (auto intro!: wire_last [THEN wire_cong] wire_ThreadCallPossibleStep)
next
  case (HashedMessageStep x)
  with assms show ?thesis unfolding HashedMessageStep step_Write.simps CreateStep_def
    by (auto intro!: wire_last [THEN wire_cong] wire_HashedMessageStep)
next
  case (ParameterizedMessageStep x)
  with assms show ?thesis unfolding ParameterizedMessageStep step_Write.simps CreateStep_def
    by (auto intro!: wire_last [THEN wire_cong] wire_ParameterizedMessageStep)
next
  case (DumpStep x)
  with assms show ?thesis unfolding DumpStep step_Write.simps CreateStep_def
    by (auto intro!: wire_last [THEN wire_cong] wire_DumpStep)
next
  case (MethodSum x)
  with assms show ?thesis unfolding MethodSum step_Write.simps CreateStep_def
    by (auto intro!: wire_last [THEN wire_cong] wire_MethodSum)
next
  case (SqlSum x)
  with assms show ?thesis unfolding SqlSum step_Write.simps CreateStep_def
    by (auto intro!: wire_last [THEN wire_cong] wire_SqlSum)
next
  case (MessageSum x)
  with assms show ?thesis unfolding MessageSum step_Write.simps CreateStep_def
    by (auto intro!: wire_last [THEN wire_cong] wire_MessageSum)
next
  case (SocketSum x)
  with assms show ?thesis unfolding SocketSum step_Write.simps CreateStep_def
    by (auto intro!: wire_last [THEN wire_cong] wire_SocketSum)
next
  case (ApiCallSum x)
  with assms show ?thesis unfolding ApiCallSum step_Write.simps CreateStep_def
    by (auto intro!: wire_last [THEN wire_cong] wire_ApiCallSum)
next
  case (SpanStep x)
  with assms show ?thesis unfolding SpanStep step_Write.simps CreateStep_def
    by (auto intro!: wire_last [THEN wire_cong] wire_SpanStep)
next
  case (SpanCallStep x)
  with assms show ?thesis unfolding SpanCallStep step_Write.simps CreateStep_def
    by (auto intro!: wire_last [THEN wire_cong] wire_SpanCallStep)
next
  case (StepControl x)
  with assms show ?thesis unfolding StepControl step_Write.simps CreateStep_def
    by (auto intro!: wire_last [THEN wire_cong] wire_StepControl)
qed

lemma wire_step: "ok_step s \<Longrightarrow> wire (WriteStep s) ReadStep (norm_step s)"
  unfolding WriteStep_def ReadStep_def writes.simps
  by (drule wire_step_body, elim exE conjE, rule wire_tagged) simp_all

interpretation sc: codec WriteStep ReadStep ok_step norm_step
  by unfold_locales (rule wire_step)

end
