(* ===== verification/XLogPack.thy ===== *)
theory XLogPack
  imports Values
begin

text \<open>
  internal/protocol/pack/xlog\_pack.go: the transaction log pack. Its fields are written to a buffer
  of their own, and that buffer as one blob. The fields after \<open>ApicallTime\<close> form twelve groups that
  later agent versions added; the reader takes a group only if the blob has bytes left, so the blob
  of an older agent is read with the missing fields zero. \<open>ReadXLogFilterFields\<close> parses only the
  start of a stored pack; it is shown to find what the full read finds. The buffer comes from a pool
  and is reset before it goes back, so it is empty when it is taken.
\<close>

subsection \<open>The pack\<close>

record XLogPack = 
  xlog_EndTime :: i64
  xlog_ObjHash :: i32
  xlog_Service :: i32
  xlog_Txid :: i64
  xlog_ThreadNameHash :: i32
  xlog_Caller :: i64
  xlog_Gxid :: i64
  xlog_Elapsed :: i32
  xlog_Error :: i32
  xlog_Cpu :: i32
  xlog_SqlCount :: i32
  xlog_SqlTime :: i32
  xlog_IPAddr :: bytes
  xlog_Kbytes :: i32
  xlog_Status :: i32
  xlog_Userid :: i64
  xlog_UserAgent :: i32
  xlog_Referer :: i32
  xlog_Group :: i32
  xlog_ApicallCount :: i32
  xlog_ApicallTime :: i32
  xlog_CountryCode :: string
  xlog_City :: i32
  xlog_XType :: byte
  xlog_Login :: i32
  xlog_Desc :: i32
  xlog_WebHash :: i32
  xlog_WebTime :: i32
  xlog_HasDump :: byte
  xlog_Text1 :: string
  xlog_Text2 :: string
  xlog_QueuingHostHash :: i32
  xlog_QueuingTime :: i32
  xlog_Queuing2ndHostHash :: i32
  xlog_Queuing2ndTime :: i32
  xlog_Text3 :: string
  xlog_Text4 :: string
  xlog_Text5 :: string
  xlog_ProfileCount :: i32
  xlog_B3Mode :: bool
  xlog_ProfileSize :: i32
  xlog_DiscardType :: byte
  xlog_IgnoreGlobalConsequentSampling :: bool

definition XLogPack_zero :: XLogPack where
  "XLogPack_zero =
     \<lparr>xlog_EndTime = 0, xlog_ObjHash = 0, xlog_Service = 0, xlog_Txid = 0,
      xlog_ThreadNameHash = 0, xlog_Caller = 0, xlog_Gxid = 0, xlog_Elapsed = 0, xlog_Error =
      0, xlog_Cpu = 0, xlog_SqlCount = 0, xlog_SqlTime = 0, xlog_IPAddr = [], xlog_Kbytes = 0,
      xlog_Status = 0, xlog_Userid = 0, xlog_UserAgent = 0, xlog_Referer = 0, xlog_Group = 0,
      xlog_ApicallCount = 0, xlog_ApicallTime = 0, xlog_CountryCode = '''', xlog_City = 0,
      xlog_XType = 0, xlog_Login = 0, xlog_Desc = 0, xlog_WebHash = 0, xlog_WebTime = 0,
      xlog_HasDump = 0, xlog_Text1 = '''', xlog_Text2 = '''', xlog_QueuingHostHash = 0,
      xlog_QueuingTime = 0, xlog_Queuing2ndHostHash = 0, xlog_Queuing2ndTime = 0, xlog_Text3 =
      '''', xlog_Text4 = '''', xlog_Text5 = '''', xlog_ProfileCount = 0, xlog_B3Mode = False,
      xlog_ProfileSize = 0, xlog_DiscardType = 0, xlog_IgnoreGlobalConsequentSampling =
      False\<rparr>"

definition XLogPack_fields_Write :: "XLogPack \<Rightarrow> dout \<Rightarrow> dout" where
  "XLogPack_fields_Write p =
     writes [WriteDecimal (xlog_EndTime p),
     WriteDecimal (scast (xlog_ObjHash p)),
     WriteDecimal (scast (xlog_Service p)),
     WriteInt64 (xlog_Txid p),
     WriteInt64 (xlog_Caller p),
     WriteInt64 (xlog_Gxid p),
     WriteDecimal (scast (xlog_Elapsed p)),
     WriteDecimal (scast (xlog_Error p)),
     WriteDecimal (scast (xlog_Cpu p)),
     WriteDecimal (scast (xlog_SqlCount p)),
     WriteDecimal (scast (xlog_SqlTime p)),
     WriteBlob (xlog_IPAddr p),
     WriteDecimal (scast (xlog_Kbytes p)),
     WriteDecimal (scast (xlog_Status p)),
     WriteDecimal (xlog_Userid p),
     WriteDecimal (scast (xlog_UserAgent p)),
     WriteDecimal (scast (xlog_Referer p)),
     WriteDecimal (scast (xlog_Group p)),
     WriteDecimal (scast (xlog_ApicallCount p)),
     WriteDecimal (scast (xlog_ApicallTime p)),
     WriteText (xlog_CountryCode p),
     WriteDecimal (scast (xlog_City p)),
     WriteByte (xlog_XType p),
     WriteDecimal (scast (xlog_Login p)),
     WriteDecimal (scast (xlog_Desc p)),
     WriteDecimal (scast (xlog_WebHash p)),
     WriteDecimal (scast (xlog_WebTime p)),
     WriteByte (xlog_HasDump p),
     WriteDecimal (scast (xlog_ThreadNameHash p)),
     WriteText (xlog_Text1 p),
     WriteText (xlog_Text2 p),
     WriteDecimal (scast (xlog_QueuingHostHash p)),
     WriteDecimal (scast (xlog_QueuingTime p)),
     WriteDecimal (scast (xlog_Queuing2ndHostHash p)),
     WriteDecimal (scast (xlog_Queuing2ndTime p)),
     WriteText (xlog_Text3 p),
     WriteText (xlog_Text4 p),
     WriteText (xlog_Text5 p),
     WriteDecimal (scast (xlog_ProfileCount p)),
     WriteBoolean (xlog_B3Mode p),
     WriteDecimal (scast (xlog_ProfileSize p)),
     WriteByte (xlog_DiscardType p),
     WriteBoolean (xlog_IgnoreGlobalConsequentSampling p)]"

definition XLogPack_Write :: "XLogPack \<Rightarrow> dout \<Rightarrow> dout" where
  "XLogPack_Write p = write_inner (XLogPack_fields_Write p)"

text \<open>The reads of the fields every version has, and of the optional groups in their order.\<close>

definition xlog_head_reads :: "(XLogPack \<Rightarrow> XLogPack rd) list" where
  "xlog_head_reads =
    [rd_set ReadDecimal (\<lambda>v p. p\<lparr>xlog_EndTime := v\<rparr>),
     rd_set ReadDecimal (\<lambda>v p. p\<lparr>xlog_ObjHash := ucast v\<rparr>),
     rd_set ReadDecimal (\<lambda>v p. p\<lparr>xlog_Service := ucast v\<rparr>),
     rd_set ReadInt64 (\<lambda>v p. p\<lparr>xlog_Txid := v\<rparr>),
     rd_set ReadInt64 (\<lambda>v p. p\<lparr>xlog_Caller := v\<rparr>),
     rd_set ReadInt64 (\<lambda>v p. p\<lparr>xlog_Gxid := v\<rparr>),
     rd_set ReadDecimal (\<lambda>v p. p\<lparr>xlog_Elapsed := ucast v\<rparr>),
     rd_set ReadDecimal (\<lambda>v p. p\<lparr>xlog_Error := ucast v\<rparr>),
     rd_set ReadDecimal (\<lambda>v p. p\<lparr>xlog_Cpu := ucast v\<rparr>),
     rd_set ReadDecimal (\<lambda>v p. p\<lparr>xlog_SqlCount := ucast v\<rparr>),
     rd_set ReadDecimal (\<lambda>v p. p\<lparr>xlog_SqlTime := ucast v\<rparr>),
     rd_set ReadBlob (\<lambda>v p. p\<lparr>xlog_IPAddr := v\<rparr>),
     rd_set ReadDecimal (\<lambda>v p. p\<lparr>xlog_Kbytes := ucast v\<rparr>),
     rd_set ReadDecimal (\<lambda>v p. p\<lparr>xlog_Status := ucast v\<rparr>),
     rd_set ReadDecimal (\<lambda>v p. p\<lparr>xlog_Userid := v\<rparr>),
     rd_set ReadDecimal (\<lambda>v p. p\<lparr>xlog_UserAgent := ucast v\<rparr>),
     rd_set ReadDecimal (\<lambda>v p. p\<lparr>xlog_Referer := ucast v\<rparr>),
     rd_set ReadDecimal (\<lambda>v p. p\<lparr>xlog_Group := ucast v\<rparr>),
     rd_set ReadDecimal (\<lambda>v p. p\<lparr>xlog_ApicallCount := ucast v\<rparr>),
     rd_set ReadDecimal (\<lambda>v p. p\<lparr>xlog_ApicallTime := ucast v\<rparr>)]"

definition xlog_group1_Read :: "XLogPack \<Rightarrow> XLogPack rd" where
  "xlog_group1_Read = rd_steps
    [rd_set ReadText (\<lambda>v p. p\<lparr>xlog_CountryCode := v\<rparr>),
     rd_set ReadDecimal (\<lambda>v p. p\<lparr>xlog_City := ucast v\<rparr>)]"

definition xlog_group2_Read :: "XLogPack \<Rightarrow> XLogPack rd" where
  "xlog_group2_Read = rd_steps
    [rd_set ReadByte (\<lambda>v p. p\<lparr>xlog_XType := v\<rparr>)]"

definition xlog_group3_Read :: "XLogPack \<Rightarrow> XLogPack rd" where
  "xlog_group3_Read = rd_steps
    [rd_set ReadDecimal (\<lambda>v p. p\<lparr>xlog_Login := ucast v\<rparr>),
     rd_set ReadDecimal (\<lambda>v p. p\<lparr>xlog_Desc := ucast v\<rparr>)]"

definition xlog_group4_Read :: "XLogPack \<Rightarrow> XLogPack rd" where
  "xlog_group4_Read = rd_steps
    [rd_set ReadDecimal (\<lambda>v p. p\<lparr>xlog_WebHash := ucast v\<rparr>),
     rd_set ReadDecimal (\<lambda>v p. p\<lparr>xlog_WebTime := ucast v\<rparr>)]"

definition xlog_group5_Read :: "XLogPack \<Rightarrow> XLogPack rd" where
  "xlog_group5_Read = rd_steps
    [rd_set ReadByte (\<lambda>v p. p\<lparr>xlog_HasDump := v\<rparr>)]"

definition xlog_group6_Read :: "XLogPack \<Rightarrow> XLogPack rd" where
  "xlog_group6_Read = rd_steps
    [rd_set ReadDecimal (\<lambda>v p. p\<lparr>xlog_ThreadNameHash := ucast v\<rparr>)]"

definition xlog_group7_Read :: "XLogPack \<Rightarrow> XLogPack rd" where
  "xlog_group7_Read = rd_steps
    [rd_set ReadText (\<lambda>v p. p\<lparr>xlog_Text1 := v\<rparr>),
     rd_set ReadText (\<lambda>v p. p\<lparr>xlog_Text2 := v\<rparr>)]"

definition xlog_group8_Read :: "XLogPack \<Rightarrow> XLogPack rd" where
  "xlog_group8_Read = rd_steps
    [rd_set ReadDecimal (\<lambda>v p. p\<lparr>xlog_QueuingHostHash := ucast v\<rparr>),
     rd_set ReadDecimal (\<lambda>v p. p\<lparr>xlog_QueuingTime := ucast v\<rparr>),
     rd_set ReadDecimal (\<lambda>v p. p\<lparr>xlog_Queuing2ndHostHash := ucast v\<rparr>),
     rd_set ReadDecimal (\<lambda>v p. p\<lparr>xlog_Queuing2ndTime := ucast v\<rparr>)]"

definition xlog_group9_Read :: "XLogPack \<Rightarrow> XLogPack rd" where
  "xlog_group9_Read = rd_steps
    [rd_set ReadText (\<lambda>v p. p\<lparr>xlog_Text3 := v\<rparr>),
     rd_set ReadText (\<lambda>v p. p\<lparr>xlog_Text4 := v\<rparr>),
     rd_set ReadText (\<lambda>v p. p\<lparr>xlog_Text5 := v\<rparr>)]"

definition xlog_group10_Read :: "XLogPack \<Rightarrow> XLogPack rd" where
  "xlog_group10_Read = rd_steps
    [rd_set ReadDecimal (\<lambda>v p. p\<lparr>xlog_ProfileCount := ucast v\<rparr>)]"

definition xlog_group11_Read :: "XLogPack \<Rightarrow> XLogPack rd" where
  "xlog_group11_Read = rd_steps
    [rd_set ReadBoolean (\<lambda>v p. p\<lparr>xlog_B3Mode := v\<rparr>)]"

definition xlog_group12_Read :: "XLogPack \<Rightarrow> XLogPack rd" where
  "xlog_group12_Read = rd_steps
    [rd_set ReadDecimal (\<lambda>v p. p\<lparr>xlog_ProfileSize := ucast v\<rparr>),
     rd_set ReadByte (\<lambda>v p. p\<lparr>xlog_DiscardType := v\<rparr>),
     rd_set ReadBoolean (\<lambda>v p. p\<lparr>xlog_IgnoreGlobalConsequentSampling := v\<rparr>)]"

definition xlog_group_reads :: "(XLogPack \<Rightarrow> XLogPack rd) list" where
  "xlog_group_reads =
    [xlog_group1_Read, xlog_group2_Read, xlog_group3_Read, xlog_group4_Read,
     xlog_group5_Read, xlog_group6_Read, xlog_group7_Read, xlog_group8_Read, xlog_group9_Read,
     xlog_group10_Read, xlog_group11_Read, xlog_group12_Read]"

definition XLogPack_fields_Read :: "XLogPack \<Rightarrow> XLogPack rd" where
  "XLogPack_fields_Read = rd_steps (xlog_head_reads @ map rd_avail xlog_group_reads)"

definition XLogPack_Read :: "XLogPack \<Rightarrow> XLogPack rd" where
  "XLogPack_Read p = rd_bind ReadBlob (rd_inner (XLogPack_fields_Read p))"

text \<open>The partial read: the pack type byte, the blob, and seven fields of it.\<close>

definition ReadXLogFilterFields :: "bytes \<Rightarrow> (i32 \<times> i32) res" where
  "ReadXLogFilterFields data = fst (rd_bind ReadByte (\<lambda>_. rd_bind ReadBlobRef (rd_inner
     (rd_bind ReadDecimal (\<lambda>_.
      rd_bind ReadDecimal (\<lambda>objHash.
      rd_bind ReadDecimal (\<lambda>_.
      rd_bind (SkipBytes 24) (\<lambda>_.
      rd_bind ReadDecimal (\<lambda>elapsed. rd_ret (ucast objHash, ucast elapsed))))))))) (NewDataInputX data))"

subsection \<open>Round trip, and blobs of older versions\<close>

text \<open>The groups with their writers and the fields they carry; an older version wrote a prefix of them.\<close>

definition xlog_head_Write :: "XLogPack \<Rightarrow> dout \<Rightarrow> dout" where
  "xlog_head_Write p =
     writes [WriteDecimal (xlog_EndTime p),
     WriteDecimal (scast (xlog_ObjHash p)),
     WriteDecimal (scast (xlog_Service p)),
     WriteInt64 (xlog_Txid p),
     WriteInt64 (xlog_Caller p),
     WriteInt64 (xlog_Gxid p),
     WriteDecimal (scast (xlog_Elapsed p)),
     WriteDecimal (scast (xlog_Error p)),
     WriteDecimal (scast (xlog_Cpu p)),
     WriteDecimal (scast (xlog_SqlCount p)),
     WriteDecimal (scast (xlog_SqlTime p)),
     WriteBlob (xlog_IPAddr p),
     WriteDecimal (scast (xlog_Kbytes p)),
     WriteDecimal (scast (xlog_Status p)),
     WriteDecimal (xlog_Userid p),
     WriteDecimal (scast (xlog_UserAgent p)),
     WriteDecimal (scast (xlog_Referer p)),
     WriteDecimal (scast (xlog_Group p)),
     WriteDecimal (scast (xlog_ApicallCount p)),
     WriteDecimal (scast (xlog_ApicallTime p))]"

definition xlog_head_copy :: "XLogPack \<Rightarrow> XLogPack \<Rightarrow> XLogPack" where
  "xlog_head_copy p s = s\<lparr>xlog_EndTime := xlog_EndTime p, xlog_ObjHash := xlog_ObjHash p, xlog_Service :=
         xlog_Service p, xlog_Txid := xlog_Txid p, xlog_Caller := xlog_Caller p, xlog_Gxid :=
         xlog_Gxid p, xlog_Elapsed := xlog_Elapsed p, xlog_Error := xlog_Error p, xlog_Cpu :=
         xlog_Cpu p, xlog_SqlCount := xlog_SqlCount p, xlog_SqlTime := xlog_SqlTime p,
         xlog_IPAddr := xlog_IPAddr p, xlog_Kbytes := xlog_Kbytes p, xlog_Status :=
         xlog_Status p, xlog_Userid := xlog_Userid p, xlog_UserAgent := xlog_UserAgent p,
         xlog_Referer := xlog_Referer p, xlog_Group := xlog_Group p, xlog_ApicallCount :=
         xlog_ApicallCount p, xlog_ApicallTime := xlog_ApicallTime p\<rparr>"

definition xlog_groups :: "XLogPack \<Rightarrow> ((dout \<Rightarrow> dout) \<times> (XLogPack \<Rightarrow> XLogPack rd) \<times> (XLogPack \<Rightarrow> XLogPack)) list" where
  "xlog_groups p =
     [(writes [WriteText (xlog_CountryCode p), WriteDecimal (scast (xlog_City p))],
       xlog_group1_Read,
       \<lambda>s. s\<lparr>xlog_CountryCode := xlog_CountryCode p, xlog_City := xlog_City
         p\<rparr>),
      (WriteByte (xlog_XType p),
       xlog_group2_Read,
       \<lambda>s. s\<lparr>xlog_XType := xlog_XType p\<rparr>),
      (writes [WriteDecimal (scast (xlog_Login p)), WriteDecimal (scast (xlog_Desc p))],
       xlog_group3_Read,
       \<lambda>s. s\<lparr>xlog_Login := xlog_Login p, xlog_Desc := xlog_Desc p\<rparr>),
      (writes [WriteDecimal (scast (xlog_WebHash p)), WriteDecimal (scast (xlog_WebTime p))],
       xlog_group4_Read,
       \<lambda>s. s\<lparr>xlog_WebHash := xlog_WebHash p, xlog_WebTime := xlog_WebTime
         p\<rparr>),
      (WriteByte (xlog_HasDump p),
       xlog_group5_Read,
       \<lambda>s. s\<lparr>xlog_HasDump := xlog_HasDump p\<rparr>),
      (WriteDecimal (scast (xlog_ThreadNameHash p)),
       xlog_group6_Read,
       \<lambda>s. s\<lparr>xlog_ThreadNameHash := xlog_ThreadNameHash p\<rparr>),
      (writes [WriteText (xlog_Text1 p), WriteText (xlog_Text2 p)],
       xlog_group7_Read,
       \<lambda>s. s\<lparr>xlog_Text1 := xlog_Text1 p, xlog_Text2 := xlog_Text2 p\<rparr>),
      (writes [WriteDecimal (scast (xlog_QueuingHostHash p)), WriteDecimal (scast
       (xlog_QueuingTime p)), WriteDecimal (scast (xlog_Queuing2ndHostHash p)), WriteDecimal (scast (xlog_Queuing2ndTime p))],
       xlog_group8_Read,
       \<lambda>s. s\<lparr>xlog_QueuingHostHash := xlog_QueuingHostHash p, xlog_QueuingTime
         := xlog_QueuingTime p, xlog_Queuing2ndHostHash := xlog_Queuing2ndHostHash p,
         xlog_Queuing2ndTime := xlog_Queuing2ndTime p\<rparr>),
      (writes [WriteText (xlog_Text3 p), WriteText (xlog_Text4 p), WriteText
       (xlog_Text5 p)],
       xlog_group9_Read,
       \<lambda>s. s\<lparr>xlog_Text3 := xlog_Text3 p, xlog_Text4 := xlog_Text4 p,
         xlog_Text5 := xlog_Text5 p\<rparr>),
      (WriteDecimal (scast (xlog_ProfileCount p)),
       xlog_group10_Read,
       \<lambda>s. s\<lparr>xlog_ProfileCount := xlog_ProfileCount p\<rparr>),
      (WriteBoolean (xlog_B3Mode p),
       xlog_group11_Read,
       \<lambda>s. s\<lparr>xlog_B3Mode := xlog_B3Mode p\<rparr>),
      (writes [WriteDecimal (scast (xlog_ProfileSize p)), WriteByte (xlog_DiscardType p), WriteBoolean (xlog_IgnoreGlobalConsequentSampling p)],
       xlog_group12_Read,
       \<lambda>s. s\<lparr>xlog_ProfileSize := xlog_ProfileSize p, xlog_DiscardType :=
         xlog_DiscardType p, xlog_IgnoreGlobalConsequentSampling :=
         xlog_IgnoreGlobalConsequentSampling p\<rparr>)]"

text \<open>What a version with the first \<open>k\<close> groups writes, and the pack with only those fields.\<close>

definition xlog_version_Write :: "nat \<Rightarrow> XLogPack \<Rightarrow> dout \<Rightarrow> dout" where
  "xlog_version_Write k p = writes [xlog_head_Write p, fold fst (take k (xlog_groups p))]"

definition xlog_version :: "nat \<Rightarrow> XLogPack \<Rightarrow> XLogPack" where
  "xlog_version k p = fold (\<lambda>g. snd (snd g)) (take k (xlog_groups p)) (xlog_head_copy p XLogPack_zero)"

definition ok_xlog :: "XLogPack \<Rightarrow> bool" where
  "ok_xlog p \<longleftrightarrow> ok_blob (xlog_IPAddr p) \<and> ok_text (xlog_CountryCode p) \<and>
     ok_text (xlog_Text1 p) \<and> ok_text (xlog_Text2 p) \<and> ok_text (xlog_Text3 p) \<and>
     ok_text (xlog_Text4 p) \<and> ok_text (xlog_Text5 p) \<and>
     ok_blob (ToByteArray (XLogPack_fields_Write p NewDataOutputX))"

lemma xlog_version_all: "xlog_version_Write 12 p = XLogPack_fields_Write p"
  by (simp add: xlog_version_Write_def XLogPack_fields_Write_def xlog_head_Write_def
      xlog_groups_def fcomp_def)

lemma xlog_version_12: "xlog_version 12 p = p"
  by (simp add: xlog_version_def xlog_groups_def xlog_head_copy_def XLogPack_zero_def)

lemma reads_xlog_head:
  assumes "ok_xlog p"
  shows "reads (xlog_head_Write p) (rd_steps xlog_head_reads s) (xlog_head_copy p s)"
proof -
  have "ok_blob (xlog_IPAddr p)" using assms by (simp add: ok_xlog_def)
  note [wire_intro] = wire_Blob [OF this]
  show ?thesis unfolding xlog_head_Write_def xlog_head_reads_def xlog_head_copy_def writes.simps fcomp_assoc
    by (rule wire_reads) (rule wire_dec32 wire_fields wire_intro)+
qed

subsection \<open>The groups\<close>

lemma takes_set_steps: "takes 1 r \<Longrightarrow> (\<And>s. takes 0 (rd_steps fs s)) \<Longrightarrow> takes 1 (rd_steps (rd_set r upd # fs) s)"
  unfolding rd_steps.simps by (rule takes_bind_first) (auto intro: takes_set)

lemmas xlog_takes = takes_set_steps takes_steps takes_set takes_fixed takes_Decimal takes_Text
  takes_fixed [THEN takes_weaken] takes_Decimal [THEN takes_weaken] takes_Text [THEN takes_weaken]

text \<open>A group is in order if its fields are written and read alike and its first field takes a byte.\<close>

lemma group_okI:
  assumes "\<And>s. wire w (rd_steps (rd_set r upd # fs) s) (c s)" and "takes 1 r"
    and "\<And>f s. f \<in> set fs \<Longrightarrow> takes 0 (f s)"
  shows "group_ok (w, rd_steps (rd_set r upd # fs), c)"
  unfolding group_ok_def prod.case
  using assms by (auto simp del: rd_steps.simps One_nat_def
      intro!: wire_reads takes_set_steps takes_steps)

lemma xlog_groups_ok:
  assumes "ok_xlog p" and "g \<in> set (xlog_groups p)"
  shows "group_ok g"
proof -
  have texts: "ok_text (xlog_CountryCode p)" "ok_text (xlog_Text1 p)" "ok_text (xlog_Text2 p)"
    "ok_text (xlog_Text3 p)" "ok_text (xlog_Text4 p)" "ok_text (xlog_Text5 p)"
    using assms(1) by (simp_all add: ok_xlog_def)
  note reads = xlog_group1_Read_def xlog_group2_Read_def xlog_group3_Read_def
    xlog_group4_Read_def xlog_group5_Read_def xlog_group6_Read_def xlog_group7_Read_def
    xlog_group8_Read_def xlog_group9_Read_def xlog_group10_Read_def xlog_group11_Read_def
    xlog_group12_Read_def
  have "list_all group_ok (xlog_groups p)"
    unfolding xlog_groups_def reads list.pred_inject writes.simps fcomp_assoc
    by (rule conjI TrueI group_okI wire_dec32 wire_fields wire_intro texts takes_fixed takes_Decimal takes_Text
      | (auto intro!: takes_set [THEN takes_weaken] intro: takes_fixed takes_Decimal takes_Text; fail))+
  with assms(2) show ?thesis by (simp add: list_all_iff)
qed

lemma reads_append:
  "reads w (rd_steps fs s) s' \<Longrightarrow> reads w' (rd_steps gs s') u \<Longrightarrow>
   reads (fcomp w w') (rd_steps (fs @ gs) s) u"
  unfolding reads_def rd_steps_append by (blast intro: emits_seq consumes_bind)

lemma xlog_group_reads_groups: "map (\<lambda>g. fst (snd g)) (xlog_groups p) = xlog_group_reads"
  by (simp add: xlog_groups_def xlog_group_reads_def)

lemma reads_xlog_version:
  assumes "ok_xlog p"
  shows "reads (xlog_version_Write k p)
    (rd_steps (xlog_head_reads @ map rd_avail (take k xlog_group_reads)) XLogPack_zero) (xlog_version k p)"
proof -
  let ?gs = "take k (xlog_groups p)"
  have "map (\<lambda>g. rd_avail (fst (snd g))) ?gs = map rd_avail (take k xlog_group_reads)"
    by (simp flip: xlog_group_reads_groups [of p] add: take_map)
  moreover have "group_ok g" if "g \<in> set ?gs" for g
    using assms that by (blast intro: xlog_groups_ok dest: in_set_takeD)
  ultimately have "reads (fold fst ?gs) (rd_steps (map rd_avail (take k xlog_group_reads)) s)
      (fold (\<lambda>g. snd (snd g)) ?gs s)" for s
    using reads_groups [of ?gs s] by simp
  with reads_xlog_head [OF assms] show ?thesis
    unfolding xlog_version_Write_def xlog_version_def writes.simps by (rule reads_append)
qed

text \<open>The reader of today on what a version with the first \<open>k\<close> groups wrote.\<close>

lemma XLogPack_fields_version:
  assumes "ok_xlog p"
  shows "fst (XLogPack_fields_Read XLogPack_zero
      (NewDataInputX (ToByteArray (xlog_version_Write k p NewDataOutputX)))) = Ok (xlog_version k p)"
  using rd_steps_prefix [OF reads_xlog_version [OF assms], of k "drop k xlog_group_reads"]
  by (simp add: XLogPack_fields_Read_def flip: map_append)

text \<open>An older version writes a prefix of what the full pack writes.\<close>

lemma xlog_version_emits:
  assumes "ok_xlog p"
  obtains bs cs where "emits (xlog_version_Write k p) bs" "emits (XLogPack_fields_Write p) (bs @ cs)"
proof -
  obtain bs where bs: "emits (xlog_version_Write k p) bs"
    using reads_xlog_version [OF assms] by (auto simp: reads_def)
  have "\<And>g. g \<in> set (drop k (xlog_groups p)) \<Longrightarrow> group_ok g"
    using assms by (blast intro: xlog_groups_ok dest: in_set_dropD)
  then obtain cs where cs: "emits (fold fst (drop k (xlog_groups p))) cs"
    using reads_groups [of "drop k (xlog_groups p)" XLogPack_zero] unfolding reads_def by blast
  have len: "take 12 (xlog_groups p) = xlog_groups p" by (simp add: xlog_groups_def)
  have "XLogPack_fields_Write p = fcomp (xlog_version_Write k p) (fold fst (drop k (xlog_groups p)))"
    unfolding xlog_version_all [symmetric] xlog_version_Write_def len writes.simps fcomp_assoc
    by (simp add: fun_eq_iff flip: fold_append [unfolded comp_def fun_eq_iff, rule_format])
  with emits_seq [OF bs cs] bs that show ?thesis by simp
qed

lemma wire_xlog_version:
  assumes "ok_xlog p"
  shows "wire (write_inner (xlog_version_Write k p)) (XLogPack_Read XLogPack_zero) (xlog_version k p)"
proof -
  obtain bs cs where bs: "emits (xlog_version_Write k p) bs" "emits (XLogPack_fields_Write p) (bs @ cs)"
    using assms by (rule xlog_version_emits)
  have "length (bs @ cs) < 2 ^ 31"
    using assms by (simp add: ok_xlog_def ok_blob_def emits_ToByteArray [OF bs(2)])
  then have "ok_blob (ToByteArray (xlog_version_Write k p NewDataOutputX))"
    by (simp add: ok_blob_def emits_ToByteArray [OF bs(1)])
  then show ?thesis unfolding XLogPack_Read_def
    by (intro wire_inner XLogPack_fields_version assms)
qed

lemma wire_XLogPack [wire_intro]: "ok_xlog p \<Longrightarrow> wire (XLogPack_Write p) (XLogPack_Read XLogPack_zero) p"
  using wire_xlog_version [of p 12] by (simp add: XLogPack_Write_def xlog_version_all xlog_version_12)

subsection \<open>The partial read finds what the full read finds\<close>

text \<open>A step keeps a field if it returns a structure with the same field.\<close>

definition keeps :: "('s \<Rightarrow> 'a) \<Rightarrow> ('s \<Rightarrow> 's rd) \<Rightarrow> bool" where
  "keeps g f \<longleftrightarrow> (\<forall>s d s' d'. f s d = (Ok s', d') \<longrightarrow> g s' = g s)"

lemma rd_bind_Ok:
  "rd_bind r f d = (Ok y, d') \<longleftrightarrow> (\<exists>x d1. r d = (Ok x, d1) \<and> f x d1 = (Ok y, d'))"
  by (simp add: rd_bind_def split: prod.split res.split)

lemma keeps_set: "(\<And>v s. g (upd v s) = g s) \<Longrightarrow> keeps g (rd_set r upd)"
  by (auto simp: keeps_def rd_set_def rd_bind_Ok rd_ret_def)

lemma keeps_Nil: "keeps g (rd_steps [])"
  by (auto simp: keeps_def rd_ret_def)

lemma keeps_Cons: "keeps g f \<Longrightarrow> keeps g (rd_steps fs) \<Longrightarrow> keeps g (rd_steps (f # fs))"
  by (fastforce simp: keeps_def rd_bind_Ok)

lemma keeps_avail: "keeps g f \<Longrightarrow> keeps g (rd_avail f)"
  by (auto simp: keeps_def rd_avail_def)

lemma keepsD: "keeps g f \<Longrightarrow> f s d = (Ok s', d') \<Longrightarrow> g s' = g s"
  unfolding keeps_def by blast

lemma xlog_rest_keeps:
  assumes "\<And>f. f \<in> set (drop 7 xlog_head_reads) \<Longrightarrow> keeps g f"
    and "\<And>f. f \<in> set xlog_group_reads \<Longrightarrow> keeps g f"
  shows "keeps g (rd_steps (drop 7 xlog_head_reads @ map rd_avail xlog_group_reads))"
proof -
  have all: "keeps g (rd_steps fs)" if "\<And>f. f \<in> set fs \<Longrightarrow> keeps g f" for fs :: "(XLogPack \<Rightarrow> XLogPack rd) list"
    using that by (induction fs) (auto simp del: rd_steps.simps intro: keeps_Nil keeps_Cons)
  show ?thesis by (rule all) (use assms in \<open>auto intro: keeps_avail\<close>)
qed

lemmas xlog_group_defs = xlog_group1_Read_def xlog_group2_Read_def xlog_group3_Read_def
  xlog_group4_Read_def xlog_group5_Read_def xlog_group6_Read_def xlog_group7_Read_def
  xlog_group8_Read_def xlog_group9_Read_def xlog_group10_Read_def xlog_group11_Read_def
  xlog_group12_Read_def

lemma xlog_keeps_ObjHash: "keeps xlog_ObjHash (rd_steps (drop 7 xlog_head_reads @ map rd_avail xlog_group_reads))"
  by (rule xlog_rest_keeps)
    (auto simp: xlog_head_reads_def xlog_group_reads_def xlog_group_defs simp del: rd_steps.simps
      intro!: keeps_set keeps_Cons keeps_Nil)

lemma xlog_keeps_Elapsed: "keeps xlog_Elapsed (rd_steps (drop 7 xlog_head_reads @ map rd_avail xlog_group_reads))"
  by (rule xlog_rest_keeps)
    (auto simp: xlog_head_reads_def xlog_group_reads_def xlog_group_defs simp del: rd_steps.simps
      intro!: keeps_set keeps_Cons keeps_Nil)

text \<open>Three successful reads of 8 bytes skip 24.\<close>

lemma ReadInt64_Ok:
  "ReadInt64 d = (Ok v, d') \<Longrightarrow> 8 \<le> length (pending d) \<and> d' = advance 8 d"
  using fixed_reader_ReadInt64 unfolding fixed_reader_def
  by (metis (no_types, lifting) Pair_inject not_le res.distinct(1))

lemma SkipBytes_Ok: "24 \<le> length (pending d) \<Longrightarrow> SkipBytes 24 d = (Ok (), advance 24 d)"
  using fixed_reader_SkipBytes [of 24] by (simp add: fixed_reader_def)

lemma SkipBytes_three:
  assumes "ReadInt64 d = (Ok x, d1)" "ReadInt64 d1 = (Ok y, d2)" "ReadInt64 d2 = (Ok z, d3)"
  shows "SkipBytes 24 d = (Ok (), d3)"
proof -
  have d: "8 \<le> length (pending d)" "d1 = advance 8 d" "8 \<le> length (pending d) - 8" "d2 = advance 16 d"
    "8 \<le> length (pending d) - 16" "d3 = advance 24 d"
    using ReadInt64_Ok [OF assms(1)] ReadInt64_Ok [OF assms(2)] ReadInt64_Ok [OF assms(3)] by auto
  then have "24 \<le> length (pending d)" by arith
  with d(6) show ?thesis by (simp add: SkipBytes_Ok)
qed

lemma rd_set_Ok: "rd_set r upd s d = (Ok s', d') \<longleftrightarrow> (\<exists>v. r d = (Ok v, d') \<and> s' = upd v s)"
  by (auto simp: rd_set_def rd_bind_Ok rd_ret_def)

lemma filter_fields_inner:
  assumes "XLogPack_fields_Read s d = (Ok p, d')"
  shows "fst (rd_bind ReadDecimal (\<lambda>_.
      rd_bind ReadDecimal (\<lambda>objHash.
      rd_bind ReadDecimal (\<lambda>_.
      rd_bind (SkipBytes 24) (\<lambda>_.
      rd_bind ReadDecimal (\<lambda>elapsed. rd_ret (ucast objHash, ucast elapsed)))))) d) =
    Ok (xlog_ObjHash p, xlog_Elapsed p)"
proof -
  have "xlog_head_reads = take 7 xlog_head_reads @ drop 7 xlog_head_reads" by simp
  then have "XLogPack_fields_Read s d = rd_bind (rd_steps (take 7 xlog_head_reads) s)
      (rd_steps (drop 7 xlog_head_reads @ map rd_avail xlog_group_reads)) d"
    unfolding XLogPack_fields_Read_def by (metis append_assoc rd_steps_append)
  with assms obtain q d6 where q: "rd_steps (take 7 xlog_head_reads) s d = (Ok q, d6)"
    "rd_steps (drop 7 xlog_head_reads @ map rd_avail xlog_group_reads) q d6 = (Ok p, d')"
    by (auto simp: rd_bind_Ok)
  have p: "xlog_ObjHash p = xlog_ObjHash q" "xlog_Elapsed p = xlog_Elapsed q"
    using keepsD [OF xlog_keeps_ObjHash q(2)] keepsD [OF xlog_keeps_Elapsed q(2)] by simp_all
  from q(1) show ?thesis
    by (auto simp: xlog_head_reads_def rd_bind_Ok rd_set_Ok p)
      (auto simp: rd_bind_def rd_ret_def SkipBytes_three)
qed

end
