(* ===== verification/Packs.thy ===== *)
theory Packs
  imports XLogPack
begin

text \<open>
  internal/protocol/pack: the pack types and their dispatch. A field of type \<open>*value.MapValue\<close> is
  \<^const>\<open>None\<close> for the nil pointer and else the entry slice of the map; likewise for
  \<open>*value.ListValue\<close>. What is not a map on the wire is read as an empty map.
\<close>

subsection \<open>Map and list fields\<close>

type_synonym map_field = "map_entries option option"
type_synonym list_field = "value option slice option"

definition WriteMapField :: "map_field \<Rightarrow> dout \<Rightarrow> dout" where
  "WriteMapField m = WriteValue (map_option MapValue m)"

definition WriteListField :: "list_field \<Rightarrow> dout \<Rightarrow> dout" where
  "WriteListField m = WriteValue (map_option ListValue m)"

definition as_map :: "value \<Rightarrow> map_field" where
  "as_map v = (case v of MapValue e \<Rightarrow> Some e | _ \<Rightarrow> Some (Some NewMapValue))"

definition as_list :: "value \<Rightarrow> list_field" where
  "as_list v = (case v of ListValue e \<Rightarrow> Some e | _ \<Rightarrow> Some (Some []))"

text \<open>\<open>AlertPack\<close> writes an empty map for nil tags.\<close>

definition WriteAlertTags :: "map_field \<Rightarrow> dout \<Rightarrow> dout" where
  "WriteAlertTags tags = WriteValue (Some (MapValue (case tags of None \<Rightarrow> Some NewMapValue | Some e \<Rightarrow> e)))"

definition ok_map_field :: "map_field \<Rightarrow> bool" where
  "ok_map_field m \<longleftrightarrow> ok_value (map_option MapValue m)"

definition norm_map_field :: "map_field \<Rightarrow> map_field" where
  "norm_map_field m = as_map (norm_value (map_option MapValue m))"

definition ok_list_field :: "list_field \<Rightarrow> bool" where
  "ok_list_field m \<longleftrightarrow> ok_value (map_option ListValue m)"

definition norm_list_field :: "list_field \<Rightarrow> list_field" where
  "norm_list_field m = as_list (norm_value (map_option ListValue m))"

lemma wire_map_field:
  "ok_map_field m \<Longrightarrow> wire (WriteMapField m) (rd_set ReadValue (\<lambda>v. upd (as_map v)) s) (upd (norm_map_field m) s)"
  using wire_set [OF wire_values(1), of "map_option MapValue m" "\<lambda>v. upd (as_map v)"]
  by (simp add: WriteMapField_def ok_map_field_def norm_map_field_def)

lemma wire_list_field:
  "ok_list_field m \<Longrightarrow> wire (WriteListField m) (rd_set ReadValue (\<lambda>v. upd (as_list v)) s) (upd (norm_list_field m) s)"
  using wire_set [OF wire_values(1), of "map_option ListValue m" "\<lambda>v. upd (as_list v)"]
  by (simp add: WriteListField_def ok_list_field_def norm_list_field_def)

lemma wire_alert_tags:
  "ok_map_field m \<Longrightarrow> wire (WriteAlertTags m) (rd_set ReadValue (\<lambda>v. upd (as_map v)) s) (upd (norm_map_field m) s)"
proof (cases m)
  case None
  then show ?thesis
    using wire_set [OF wire_values(1), of "Some (MapValue (Some NewMapValue))" "\<lambda>v. upd (as_map v)"]
    by (simp add: WriteAlertTags_def norm_map_field_def as_map_def NewMapValue_def ok_array_def)
next
  case (Some e)
  moreover assume "ok_map_field m"
  ultimately show ?thesis using wire_map_field [of m] by (simp add: WriteAlertTags_def WriteMapField_def)
qed

subsection \<open>The pack types\<close>

record TextPack = 
  text_XType :: string
  text_Hash :: i32
  text_Text :: string

definition TextPack_Write :: "TextPack \<Rightarrow> dout \<Rightarrow> dout" where
  "TextPack_Write p =
     writes [WriteText (text_XType p),
     WriteInt32 (text_Hash p),
     WriteText (text_Text p)]"

definition TextPack_Read :: "TextPack \<Rightarrow> TextPack rd" where
  "TextPack_Read = rd_steps
    [rd_set ReadText (\<lambda>v p. p\<lparr>text_XType := v\<rparr>),
     rd_set ReadInt32 (\<lambda>v p. p\<lparr>text_Hash := v\<rparr>),
     rd_set ReadText (\<lambda>v p. p\<lparr>text_Text := v\<rparr>)]"

record PerfCounterPack = 
  perf_Time :: i64
  perf_ObjName :: string
  perf_TimeType :: byte
  perf_Data :: map_field

definition PerfCounterPack_Write :: "PerfCounterPack \<Rightarrow> dout \<Rightarrow> dout" where
  "PerfCounterPack_Write p =
     writes [WriteInt64 (perf_Time p),
     WriteText (perf_ObjName p),
     WriteByte (perf_TimeType p),
     WriteMapField (perf_Data p)]"

definition PerfCounterPack_Read :: "PerfCounterPack \<Rightarrow> PerfCounterPack rd" where
  "PerfCounterPack_Read = rd_steps
    [rd_set ReadInt64 (\<lambda>v p. p\<lparr>perf_Time := v\<rparr>),
     rd_set ReadText (\<lambda>v p. p\<lparr>perf_ObjName := v\<rparr>),
     rd_set ReadByte (\<lambda>v p. p\<lparr>perf_TimeType := v\<rparr>),
     rd_set ReadValue (\<lambda>v p. p\<lparr>perf_Data := as_map v\<rparr>)]"

record StatusPack = 
  status_Time :: i64
  status_ObjType :: string
  status_ObjHash :: i32
  status_Key :: string
  status_Data :: map_field

definition StatusPack_Write :: "StatusPack \<Rightarrow> dout \<Rightarrow> dout" where
  "StatusPack_Write p =
     writes [WriteDecimal (status_Time p),
     WriteText (status_ObjType p),
     WriteDecimal (scast (status_ObjHash p)),
     WriteText (status_Key p),
     WriteMapField (status_Data p)]"

definition StatusPack_Read :: "StatusPack \<Rightarrow> StatusPack rd" where
  "StatusPack_Read = rd_steps
    [rd_set ReadDecimal (\<lambda>v p. p\<lparr>status_Time := v\<rparr>),
     rd_set ReadText (\<lambda>v p. p\<lparr>status_ObjType := v\<rparr>),
     rd_set ReadDecimal (\<lambda>v p. p\<lparr>status_ObjHash := ucast v\<rparr>),
     rd_set ReadText (\<lambda>v p. p\<lparr>status_Key := v\<rparr>),
     rd_set ReadValue (\<lambda>v p. p\<lparr>status_Data := as_map v\<rparr>)]"

record StackPack = 
  stack_Time :: i64
  stack_ObjHash :: i32
  stack_Data :: bytes

definition StackPack_Write :: "StackPack \<Rightarrow> dout \<Rightarrow> dout" where
  "StackPack_Write p =
     writes [WriteDecimal (stack_Time p),
     WriteDecimal (scast (stack_ObjHash p)),
     WriteBlob (stack_Data p)]"

definition StackPack_Read :: "StackPack \<Rightarrow> StackPack rd" where
  "StackPack_Read = rd_steps
    [rd_set ReadDecimal (\<lambda>v p. p\<lparr>stack_Time := v\<rparr>),
     rd_set ReadDecimal (\<lambda>v p. p\<lparr>stack_ObjHash := ucast v\<rparr>),
     rd_set ReadBlob (\<lambda>v p. p\<lparr>stack_Data := v\<rparr>)]"

record SummaryPack = 
  summary_Time :: i64
  summary_ObjHash :: i32
  summary_ObjType :: string
  summary_SType :: byte
  summary_Table :: map_field

definition SummaryPack_Write :: "SummaryPack \<Rightarrow> dout \<Rightarrow> dout" where
  "SummaryPack_Write p =
     writes [WriteDecimal (summary_Time p),
     WriteInt32 (summary_ObjHash p),
     WriteText (summary_ObjType p),
     WriteByte (summary_SType p),
     WriteMapField (summary_Table p)]"

definition SummaryPack_Read :: "SummaryPack \<Rightarrow> SummaryPack rd" where
  "SummaryPack_Read = rd_steps
    [rd_set ReadDecimal (\<lambda>v p. p\<lparr>summary_Time := v\<rparr>),
     rd_set ReadInt32 (\<lambda>v p. p\<lparr>summary_ObjHash := v\<rparr>),
     rd_set ReadText (\<lambda>v p. p\<lparr>summary_ObjType := v\<rparr>),
     rd_set ReadByte (\<lambda>v p. p\<lparr>summary_SType := v\<rparr>),
     rd_set ReadValue (\<lambda>v p. p\<lparr>summary_Table := as_map v\<rparr>)]"

record BatchPack = 
  batch_StartTime :: i64
  batch_ObjHash :: i32
  batch_BatchJobId :: string
  batch_Args :: string
  batch_PID :: i32
  batch_ElapsedTime :: i64
  batch_ThreadCnt :: i32
  batch_CpuTime :: i64
  batch_GcTime :: i64
  batch_GcCount :: i64
  batch_SqlTotalCnt :: i32
  batch_SqlTotalTime :: i64
  batch_SqlTotalRows :: i64
  batch_SqlTotalRuns :: i64
  batch_IsStack :: bool
  batch_ObjName :: string
  batch_ObjType :: string
  batch_Position :: i64

definition BatchPack_fields_Write :: "BatchPack \<Rightarrow> dout \<Rightarrow> dout" where
  "BatchPack_fields_Write p =
     writes [WriteInt64 (batch_StartTime p),
     WriteInt32 (batch_ObjHash p),
     WriteText (batch_BatchJobId p),
     WriteText (batch_Args p),
     WriteInt32 (batch_PID p),
     WriteInt64 (batch_ElapsedTime p),
     WriteInt32 (batch_ThreadCnt p),
     WriteInt64 (batch_CpuTime p),
     WriteInt64 (batch_GcTime p),
     WriteInt64 (batch_GcCount p),
     WriteInt32 (batch_SqlTotalCnt p),
     WriteInt64 (batch_SqlTotalTime p),
     WriteInt64 (batch_SqlTotalRows p),
     WriteInt64 (batch_SqlTotalRuns p),
     WriteBoolean (batch_IsStack p),
     WriteText (batch_ObjName p),
     WriteText (batch_ObjType p),
     WriteInt64 (batch_Position p)]"

definition BatchPack_Write :: "BatchPack \<Rightarrow> dout \<Rightarrow> dout" where
  "BatchPack_Write p = write_inner (BatchPack_fields_Write p)"

definition BatchPack_fields_Read :: "BatchPack \<Rightarrow> BatchPack rd" where
  "BatchPack_fields_Read = rd_steps
    [rd_set ReadInt64 (\<lambda>v p. p\<lparr>batch_StartTime := v\<rparr>),
     rd_set ReadInt32 (\<lambda>v p. p\<lparr>batch_ObjHash := v\<rparr>),
     rd_set ReadText (\<lambda>v p. p\<lparr>batch_BatchJobId := v\<rparr>),
     rd_set ReadText (\<lambda>v p. p\<lparr>batch_Args := v\<rparr>),
     rd_set ReadInt32 (\<lambda>v p. p\<lparr>batch_PID := v\<rparr>),
     rd_set ReadInt64 (\<lambda>v p. p\<lparr>batch_ElapsedTime := v\<rparr>),
     rd_set ReadInt32 (\<lambda>v p. p\<lparr>batch_ThreadCnt := v\<rparr>),
     rd_set ReadInt64 (\<lambda>v p. p\<lparr>batch_CpuTime := v\<rparr>),
     rd_set ReadInt64 (\<lambda>v p. p\<lparr>batch_GcTime := v\<rparr>),
     rd_set ReadInt64 (\<lambda>v p. p\<lparr>batch_GcCount := v\<rparr>),
     rd_set ReadInt32 (\<lambda>v p. p\<lparr>batch_SqlTotalCnt := v\<rparr>),
     rd_set ReadInt64 (\<lambda>v p. p\<lparr>batch_SqlTotalTime := v\<rparr>),
     rd_set ReadInt64 (\<lambda>v p. p\<lparr>batch_SqlTotalRows := v\<rparr>),
     rd_set ReadInt64 (\<lambda>v p. p\<lparr>batch_SqlTotalRuns := v\<rparr>),
     rd_set ReadBoolean (\<lambda>v p. p\<lparr>batch_IsStack := v\<rparr>),
     rd_set ReadText (\<lambda>v p. p\<lparr>batch_ObjName := v\<rparr>),
     rd_set ReadText (\<lambda>v p. p\<lparr>batch_ObjType := v\<rparr>),
     rd_set ReadInt64 (\<lambda>v p. p\<lparr>batch_Position := v\<rparr>)]"

definition BatchPack_Read :: "BatchPack \<Rightarrow> BatchPack rd" where
  "BatchPack_Read p = rd_bind ReadBlob (rd_inner (BatchPack_fields_Read p))"

record InteractionPerfCounterPack = 
  inter_Time :: i64
  inter_ObjName :: string
  inter_InteractionType :: string
  inter_FromHash :: i32
  inter_ToHash :: i32
  inter_Period :: i32
  inter_Count :: i32
  inter_ErrorCount :: i32
  inter_TotalElapsed :: i64
  inter_CustomData :: map_field

definition InteractionPerfCounterPack_Write :: "InteractionPerfCounterPack \<Rightarrow> dout \<Rightarrow> dout" where
  "InteractionPerfCounterPack_Write p =
     writes [WriteInt64 (inter_Time p),
     WriteText (inter_ObjName p),
     WriteText (inter_InteractionType p),
     WriteInt32 (inter_FromHash p),
     WriteInt32 (inter_ToHash p),
     WriteInt32 (inter_Period p),
     WriteInt32 (inter_Count p),
     WriteInt32 (inter_ErrorCount p),
     WriteInt64 (inter_TotalElapsed p),
     WriteMapField (inter_CustomData p)]"

definition InteractionPerfCounterPack_Read :: "InteractionPerfCounterPack \<Rightarrow> InteractionPerfCounterPack rd" where
  "InteractionPerfCounterPack_Read = rd_steps
    [rd_set ReadInt64 (\<lambda>v p. p\<lparr>inter_Time := v\<rparr>),
     rd_set ReadText (\<lambda>v p. p\<lparr>inter_ObjName := v\<rparr>),
     rd_set ReadText (\<lambda>v p. p\<lparr>inter_InteractionType := v\<rparr>),
     rd_set ReadInt32 (\<lambda>v p. p\<lparr>inter_FromHash := v\<rparr>),
     rd_set ReadInt32 (\<lambda>v p. p\<lparr>inter_ToHash := v\<rparr>),
     rd_set ReadInt32 (\<lambda>v p. p\<lparr>inter_Period := v\<rparr>),
     rd_set ReadInt32 (\<lambda>v p. p\<lparr>inter_Count := v\<rparr>),
     rd_set ReadInt32 (\<lambda>v p. p\<lparr>inter_ErrorCount := v\<rparr>),
     rd_set ReadInt64 (\<lambda>v p. p\<lparr>inter_TotalElapsed := v\<rparr>),
     rd_set ReadValue (\<lambda>v p. p\<lparr>inter_CustomData := as_map v\<rparr>)]"

record AlertPack = 
  alert_Time :: i64
  alert_Level :: byte
  alert_ObjType :: string
  alert_ObjHash :: i32
  alert_Title :: string
  alert_Message :: string
  alert_Tags :: map_field

definition AlertPack_Write :: "AlertPack \<Rightarrow> dout \<Rightarrow> dout" where
  "AlertPack_Write p =
     writes [WriteInt64 (alert_Time p),
     WriteByte (alert_Level p),
     WriteText (alert_ObjType p),
     WriteInt32 (alert_ObjHash p),
     WriteText (alert_Title p),
     WriteText (alert_Message p),
     WriteAlertTags (alert_Tags p)]"

definition AlertPack_Read :: "AlertPack \<Rightarrow> AlertPack rd" where
  "AlertPack_Read = rd_steps
    [rd_set ReadInt64 (\<lambda>v p. p\<lparr>alert_Time := v\<rparr>),
     rd_set ReadByte (\<lambda>v p. p\<lparr>alert_Level := v\<rparr>),
     rd_set ReadText (\<lambda>v p. p\<lparr>alert_ObjType := v\<rparr>),
     rd_set ReadInt32 (\<lambda>v p. p\<lparr>alert_ObjHash := v\<rparr>),
     rd_set ReadText (\<lambda>v p. p\<lparr>alert_Title := v\<rparr>),
     rd_set ReadText (\<lambda>v p. p\<lparr>alert_Message := v\<rparr>),
     rd_set ReadValue (\<lambda>v p. p\<lparr>alert_Tags := as_map v\<rparr>)]"

record ObjectPack = 
  object_ObjType :: string
  object_ObjHash :: i32
  object_ObjName :: string
  object_Address :: string
  object_Version :: string
  object_Alive :: bool
  object_Wakeup :: i64
  object_Tags :: map_field

definition ObjectPack_Write :: "ObjectPack \<Rightarrow> dout \<Rightarrow> dout" where
  "ObjectPack_Write p =
     writes [WriteText (object_ObjType p),
     WriteDecimal (scast (object_ObjHash p)),
     WriteText (object_ObjName p),
     WriteText (object_Address p),
     WriteText (object_Version p),
     WriteBoolean (object_Alive p),
     WriteDecimal (object_Wakeup p),
     WriteMapField (object_Tags p)]"

definition ObjectPack_Read :: "ObjectPack \<Rightarrow> ObjectPack rd" where
  "ObjectPack_Read = rd_steps
    [rd_set ReadText (\<lambda>v p. p\<lparr>object_ObjType := v\<rparr>),
     rd_set ReadDecimal (\<lambda>v p. p\<lparr>object_ObjHash := ucast v\<rparr>),
     rd_set ReadText (\<lambda>v p. p\<lparr>object_ObjName := v\<rparr>),
     rd_set ReadText (\<lambda>v p. p\<lparr>object_Address := v\<rparr>),
     rd_set ReadText (\<lambda>v p. p\<lparr>object_Version := v\<rparr>),
     rd_set ReadBoolean (\<lambda>v p. p\<lparr>object_Alive := v\<rparr>),
     rd_set ReadDecimal (\<lambda>v p. p\<lparr>object_Wakeup := v\<rparr>),
     rd_set ReadValue (\<lambda>v p. p\<lparr>object_Tags := as_map v\<rparr>)]"

record SpanContainerPack = 
  spanc_Gxid :: i64
  spanc_SpanCount :: i32
  spanc_Timestamp :: i64
  spanc_Spans :: bytes

definition SpanContainerPack_Write :: "SpanContainerPack \<Rightarrow> dout \<Rightarrow> dout" where
  "SpanContainerPack_Write p =
     writes [WriteInt64 (spanc_Gxid p),
     WriteDecimal (scast (spanc_SpanCount p)),
     WriteInt64 (spanc_Timestamp p),
     WriteBlob (spanc_Spans p)]"

definition SpanContainerPack_Read :: "SpanContainerPack \<Rightarrow> SpanContainerPack rd" where
  "SpanContainerPack_Read = rd_steps
    [rd_set ReadInt64 (\<lambda>v p. p\<lparr>spanc_Gxid := v\<rparr>),
     rd_set ReadDecimal (\<lambda>v p. p\<lparr>spanc_SpanCount := ucast v\<rparr>),
     rd_set ReadInt64 (\<lambda>v p. p\<lparr>spanc_Timestamp := v\<rparr>),
     rd_set ReadBlob (\<lambda>v p. p\<lparr>spanc_Spans := v\<rparr>)]"

record SpanPack = 
  span_Gxid :: i64
  span_Txid :: i64
  span_Caller :: i64
  span_Timestamp :: i64
  span_Elapsed :: i32
  span_SpanType :: byte
  span_Name :: i32
  span_ObjHash :: i32
  span_Error :: i32
  span_LocalEndpointServiceName :: i32
  span_LocalEndpointIp :: bytes
  span_LocalEndpointPort :: i16
  span_RemoteEndpointServiceName :: i32
  span_RemoteEndpointIp :: bytes
  span_RemoteEndpointPort :: i16
  span_Debug :: bool
  span_Shared :: bool
  span_AnnotationTimestamps :: list_field
  span_AnnotationValues :: list_field
  span_Tags :: map_field

definition SpanPack_Write :: "SpanPack \<Rightarrow> dout \<Rightarrow> dout" where
  "SpanPack_Write p =
     writes [WriteInt64 (span_Gxid p),
     WriteInt64 (span_Txid p),
     WriteInt64 (span_Caller p),
     WriteInt64 (span_Timestamp p),
     WriteDecimal (scast (span_Elapsed p)),
     WriteByte (span_SpanType p),
     WriteDecimal (scast (span_Name p)),
     WriteDecimal (scast (span_ObjHash p)),
     WriteDecimal (scast (span_Error p)),
     WriteDecimal (scast (span_LocalEndpointServiceName p)),
     WriteBlob (span_LocalEndpointIp p),
     WriteInt16 (span_LocalEndpointPort p),
     WriteDecimal (scast (span_RemoteEndpointServiceName p)),
     WriteBlob (span_RemoteEndpointIp p),
     WriteInt16 (span_RemoteEndpointPort p),
     WriteBoolean (span_Debug p),
     WriteBoolean (span_Shared p),
     WriteListField (span_AnnotationTimestamps p),
     WriteListField (span_AnnotationValues p),
     WriteMapField (span_Tags p)]"

definition SpanPack_Read :: "SpanPack \<Rightarrow> SpanPack rd" where
  "SpanPack_Read = rd_steps
    [rd_set ReadInt64 (\<lambda>v p. p\<lparr>span_Gxid := v\<rparr>),
     rd_set ReadInt64 (\<lambda>v p. p\<lparr>span_Txid := v\<rparr>),
     rd_set ReadInt64 (\<lambda>v p. p\<lparr>span_Caller := v\<rparr>),
     rd_set ReadInt64 (\<lambda>v p. p\<lparr>span_Timestamp := v\<rparr>),
     rd_set ReadDecimal (\<lambda>v p. p\<lparr>span_Elapsed := ucast v\<rparr>),
     rd_set ReadByte (\<lambda>v p. p\<lparr>span_SpanType := v\<rparr>),
     rd_set ReadDecimal (\<lambda>v p. p\<lparr>span_Name := ucast v\<rparr>),
     rd_set ReadDecimal (\<lambda>v p. p\<lparr>span_ObjHash := ucast v\<rparr>),
     rd_set ReadDecimal (\<lambda>v p. p\<lparr>span_Error := ucast v\<rparr>),
     rd_set ReadDecimal (\<lambda>v p. p\<lparr>span_LocalEndpointServiceName := ucast v\<rparr>),
     rd_set ReadBlob (\<lambda>v p. p\<lparr>span_LocalEndpointIp := v\<rparr>),
     rd_set ReadInt16 (\<lambda>v p. p\<lparr>span_LocalEndpointPort := v\<rparr>),
     rd_set ReadDecimal (\<lambda>v p. p\<lparr>span_RemoteEndpointServiceName := ucast v\<rparr>),
     rd_set ReadBlob (\<lambda>v p. p\<lparr>span_RemoteEndpointIp := v\<rparr>),
     rd_set ReadInt16 (\<lambda>v p. p\<lparr>span_RemoteEndpointPort := v\<rparr>),
     rd_set ReadBoolean (\<lambda>v p. p\<lparr>span_Debug := v\<rparr>),
     rd_set ReadBoolean (\<lambda>v p. p\<lparr>span_Shared := v\<rparr>),
     rd_set ReadValue (\<lambda>v p. p\<lparr>span_AnnotationTimestamps := as_list v\<rparr>),
     rd_set ReadValue (\<lambda>v p. p\<lparr>span_AnnotationValues := as_list v\<rparr>),
     rd_set ReadValue (\<lambda>v p. p\<lparr>span_Tags := as_map v\<rparr>)]"

record XLogProfilePack = 
  prof_Time :: i64
  prof_ObjHash :: i32
  prof_Service :: i32
  prof_Txid :: i64
  prof_Profile :: bytes

definition XLogProfilePack_Write :: "'a XLogProfilePack_scheme \<Rightarrow> dout \<Rightarrow> dout" where
  "XLogProfilePack_Write p =
     writes [WriteDecimal (prof_Time p),
     WriteDecimal (scast (prof_ObjHash p)),
     WriteDecimal (scast (prof_Service p)),
     WriteInt64 (prof_Txid p),
     WriteBlob (prof_Profile p)]"

definition XLogProfilePack_Read :: "'a XLogProfilePack_scheme \<Rightarrow> 'a XLogProfilePack_scheme rd" where
  "XLogProfilePack_Read = rd_steps
    [rd_set ReadDecimal (\<lambda>v p. p\<lparr>prof_Time := v\<rparr>),
     rd_set ReadDecimal (\<lambda>v p. p\<lparr>prof_ObjHash := ucast v\<rparr>),
     rd_set ReadDecimal (\<lambda>v p. p\<lparr>prof_Service := ucast v\<rparr>),
     rd_set ReadInt64 (\<lambda>v p. p\<lparr>prof_Txid := v\<rparr>),
     rd_set ReadBlob (\<lambda>v p. p\<lparr>prof_Profile := v\<rparr>)]"

record XLogProfilePack2 = XLogProfilePack +
  prof2_Gxid :: i64
  prof2_XType :: byte
  prof2_DiscardType :: byte
  prof2_IgnoreGlobalConsequentSampling :: bool

definition XLogProfilePack2_Write :: "XLogProfilePack2 \<Rightarrow> dout \<Rightarrow> dout" where
  "XLogProfilePack2_Write p =
     writes [XLogProfilePack_Write p,
     WriteInt64 (prof2_Gxid p),
     WriteByte (prof2_XType p),
     WriteByte (prof2_DiscardType p),
     WriteBoolean (prof2_IgnoreGlobalConsequentSampling p)]"

definition XLogProfilePack2_Read :: "XLogProfilePack2 \<Rightarrow> XLogProfilePack2 rd" where
  "XLogProfilePack2_Read = rd_steps
    [XLogProfilePack_Read,
     rd_set ReadInt64 (\<lambda>v p. p\<lparr>prof2_Gxid := v\<rparr>),
     rd_set ReadByte (\<lambda>v p. p\<lparr>prof2_XType := v\<rparr>),
     rd_set ReadByte (\<lambda>v p. p\<lparr>prof2_DiscardType := v\<rparr>),
     rd_set ReadBoolean (\<lambda>v p. p\<lparr>prof2_IgnoreGlobalConsequentSampling := v\<rparr>)]"

record DroppedXLogPack = 
  dropped_Gxid :: i64
  dropped_Txid :: i64

definition DroppedXLogPack_Write :: "DroppedXLogPack \<Rightarrow> dout \<Rightarrow> dout" where
  "DroppedXLogPack_Write p =
     writes [WriteInt64 (dropped_Gxid p),
     WriteInt64 (dropped_Txid p)]"

definition DroppedXLogPack_Read :: "DroppedXLogPack \<Rightarrow> DroppedXLogPack rd" where
  "DroppedXLogPack_Read = rd_steps
    [rd_set ReadInt64 (\<lambda>v p. p\<lparr>dropped_Gxid := v\<rparr>),
     rd_set ReadInt64 (\<lambda>v p. p\<lparr>dropped_Txid := v\<rparr>)]"

text \<open>
  \<open>MapPack\<close>: a table of entries with the same \<open>Put\<close> and the same wire form as a map value, without
  the type byte. A nil table and an empty one are not told apart by the code.
\<close>

record MapPack =
  map_Table :: map_entries

definition MapPack_Write :: "MapPack \<Rightarrow> dout \<Rightarrow> dout" where
  "MapPack_Write p = writes [WriteDecimal (word_of_nat (length (map_Table p))),
     fold (\<lambda>(key, val). writes [WriteText key, WriteValue val]) (map_Table p)]"

definition MapPack_Read :: "MapPack \<Rightarrow> MapPack rd" where
  "MapPack_Read p = rd_bind ReadDecimal (\<lambda>count.
     rd_bind (rd_slice 32 (sint count)
         (rd_bind ReadText (\<lambda>key. rd_bind ReadValue (\<lambda>val. rd_ret (key, Some val)))))
       (\<lambda>es. rd_ret (p\<lparr>map_Table := es\<rparr>)))"

fun table_Put :: "map_entries \<Rightarrow> string \<Rightarrow> value option \<Rightarrow> map_entries" where
  "table_Put [] key v = [(key, v)]"
| "table_Put ((k, x) # es) key v = (if k = key then (k, v) # es else (k, x) # table_Put es key v)"

definition MapPack_Put :: "MapPack \<Rightarrow> string \<Rightarrow> value option \<Rightarrow> MapPack" where
  "MapPack_Put p key v = p\<lparr>map_Table := table_Put (map_Table p) key v\<rparr>"

fun table_Get :: "map_entries \<Rightarrow> string \<Rightarrow> value option" where
  "table_Get [] key = None"
| "table_Get ((k, x) # es) key = (if k = key then x else table_Get es key)"

definition MapPack_Get :: "MapPack \<Rightarrow> string \<Rightarrow> value option" where
  "MapPack_Get p key = table_Get (map_Table p) key"

definition MapPack_PutStr :: "MapPack \<Rightarrow> string \<Rightarrow> string \<Rightarrow> MapPack" where
  "MapPack_PutStr p key val = MapPack_Put p key (Some (TextValue val))"

definition MapPack_PutLong :: "MapPack \<Rightarrow> string \<Rightarrow> i64 \<Rightarrow> MapPack" where
  "MapPack_PutLong p key val = MapPack_Put p key (Some (DecimalValue val))"

definition MapPack_GetText :: "MapPack \<Rightarrow> string \<Rightarrow> string" where
  "MapPack_GetText p key = (case MapPack_Get p key of Some (TextValue x) \<Rightarrow> x | _ \<Rightarrow> '''')"

definition MapPack_GetInt :: "MapPack \<Rightarrow> string \<Rightarrow> i32" where
  "MapPack_GetInt p key = (case MapPack_Get p key of Some (DecimalValue x) \<Rightarrow> ucast x | _ \<Rightarrow> 0)"

definition MapPack_GetLong :: "MapPack \<Rightarrow> string \<Rightarrow> i64" where
  "MapPack_GetLong p key = (case MapPack_Get p key of Some (DecimalValue x) \<Rightarrow> x | _ \<Rightarrow> 0)"

definition MapPack_GetList :: "MapPack \<Rightarrow> string \<Rightarrow> list_field" where
  "MapPack_GetList p key = (case MapPack_Get p key of Some (ListValue x) \<Rightarrow> Some x | _ \<Rightarrow> None)"

definition MapPack_GetBoolean :: "MapPack \<Rightarrow> string \<Rightarrow> bool" where
  "MapPack_GetBoolean p key = (case MapPack_Get p key of Some (BooleanValue x) \<Rightarrow> x | _ \<Rightarrow> False)"

definition MapPack_Size :: "MapPack \<Rightarrow> nat" where
  "MapPack_Size p = length (map_Table p)"

subsection \<open>The pack interface\<close>

datatype pack =
    MapPack MapPack
  | XLogPack XLogPack
  | DroppedXLogPack DroppedXLogPack
  | XLogProfilePack XLogProfilePack
  | XLogProfilePack2 XLogProfilePack2
  | SpanPack SpanPack
  | SpanContainerPack SpanContainerPack
  | TextPack TextPack
  | PerfCounterPack PerfCounterPack
  | StatusPack StatusPack
  | StackPack StackPack
  | SummaryPack SummaryPack
  | BatchPack BatchPack
  | InteractionPerfCounterPack InteractionPerfCounterPack
  | AlertPack AlertPack
  | ObjectPack ObjectPack

fun PackType :: "pack \<Rightarrow> byte" where
  "PackType (MapPack _) = 10"
| "PackType (XLogPack _) = 21"
| "PackType (DroppedXLogPack _) = 22"
| "PackType (XLogProfilePack _) = 26"
| "PackType (XLogProfilePack2 _) = 27"
| "PackType (SpanPack _) = 31"
| "PackType (SpanContainerPack _) = 32"
| "PackType (TextPack _) = 50"
| "PackType (PerfCounterPack _) = 60"
| "PackType (StatusPack _) = 61"
| "PackType (StackPack _) = 62"
| "PackType (SummaryPack _) = 63"
| "PackType (BatchPack _) = 64"
| "PackType (InteractionPerfCounterPack _) = 65"
| "PackType (AlertPack _) = 70"
| "PackType (ObjectPack _) = 80"

text \<open>\<open>CreatePack\<close> allocates the zero struct of the type.\<close>

definition CreatePack :: "byte \<Rightarrow> pack res" where
  "CreatePack typeCode =
     (if typeCode = 10 then Ok (MapPack
         \<lparr>map_Table = []\<rparr>)
      else if typeCode = 21 then Ok (XLogPack
         XLogPack_zero)
      else if typeCode = 22 then Ok (DroppedXLogPack
         \<lparr>dropped_Gxid = 0, dropped_Txid = 0\<rparr>)
      else if typeCode = 26 then Ok (XLogProfilePack
         \<lparr>prof_Time = 0, prof_ObjHash = 0, prof_Service = 0, prof_Txid = 0,
          prof_Profile = []\<rparr>)
      else if typeCode = 27 then Ok (XLogProfilePack2
         \<lparr>prof_Time = 0, prof_ObjHash = 0, prof_Service = 0, prof_Txid = 0,
          prof_Profile = [], prof2_Gxid = 0, prof2_XType = 0, prof2_DiscardType = 0,
          prof2_IgnoreGlobalConsequentSampling = False\<rparr>)
      else if typeCode = 31 then Ok (SpanPack
         \<lparr>span_Gxid = 0, span_Txid = 0, span_Caller = 0, span_Timestamp = 0,
          span_Elapsed = 0, span_SpanType = 0, span_Name = 0, span_ObjHash = 0, span_Error =
          0, span_LocalEndpointServiceName = 0, span_LocalEndpointIp = [],
          span_LocalEndpointPort = 0, span_RemoteEndpointServiceName = 0,
          span_RemoteEndpointIp = [], span_RemoteEndpointPort = 0, span_Debug = False,
          span_Shared = False, span_AnnotationTimestamps = None, span_AnnotationValues = None,
          span_Tags = None\<rparr>)
      else if typeCode = 32 then Ok (SpanContainerPack
         \<lparr>spanc_Gxid = 0, spanc_SpanCount = 0, spanc_Timestamp = 0, spanc_Spans =
          []\<rparr>)
      else if typeCode = 50 then Ok (TextPack
         \<lparr>text_XType = '''', text_Hash = 0, text_Text = ''''\<rparr>)
      else if typeCode = 60 then Ok (PerfCounterPack
         \<lparr>perf_Time = 0, perf_ObjName = '''', perf_TimeType = 0, perf_Data =
          None\<rparr>)
      else if typeCode = 61 then Ok (StatusPack
         \<lparr>status_Time = 0, status_ObjType = '''', status_ObjHash = 0, status_Key =
          '''', status_Data = None\<rparr>)
      else if typeCode = 62 then Ok (StackPack
         \<lparr>stack_Time = 0, stack_ObjHash = 0, stack_Data = []\<rparr>)
      else if typeCode = 63 then Ok (SummaryPack
         \<lparr>summary_Time = 0, summary_ObjHash = 0, summary_ObjType = '''', summary_SType
          = 0, summary_Table = None\<rparr>)
      else if typeCode = 64 then Ok (BatchPack
         \<lparr>batch_StartTime = 0, batch_ObjHash = 0, batch_BatchJobId = '''', batch_Args
          = '''', batch_PID = 0, batch_ElapsedTime = 0, batch_ThreadCnt = 0, batch_CpuTime =
          0, batch_GcTime = 0, batch_GcCount = 0, batch_SqlTotalCnt = 0, batch_SqlTotalTime =
          0, batch_SqlTotalRows = 0, batch_SqlTotalRuns = 0, batch_IsStack = False,
          batch_ObjName = '''', batch_ObjType = '''', batch_Position = 0\<rparr>)
      else if typeCode = 65 then Ok (InteractionPerfCounterPack
         \<lparr>inter_Time = 0, inter_ObjName = '''', inter_InteractionType = '''',
          inter_FromHash = 0, inter_ToHash = 0, inter_Period = 0, inter_Count = 0,
          inter_ErrorCount = 0, inter_TotalElapsed = 0, inter_CustomData = None\<rparr>)
      else if typeCode = 70 then Ok (AlertPack
         \<lparr>alert_Time = 0, alert_Level = 0, alert_ObjType = '''', alert_ObjHash = 0,
          alert_Title = '''', alert_Message = '''', alert_Tags = None\<rparr>)
      else if typeCode = 80 then Ok (ObjectPack
         \<lparr>object_ObjType = '''', object_ObjHash = 0, object_ObjName = '''',
          object_Address = '''', object_Version = '''', object_Alive = False, object_Wakeup =
          0, object_Tags = None\<rparr>)
      else Err (ErrUnknownType typeCode))"

fun pack_Write :: "pack \<Rightarrow> dout \<Rightarrow> dout" where
  "pack_Write (MapPack p) = MapPack_Write p"
| "pack_Write (XLogPack p) = XLogPack_Write p"
| "pack_Write (DroppedXLogPack p) = DroppedXLogPack_Write p"
| "pack_Write (XLogProfilePack p) = XLogProfilePack_Write p"
| "pack_Write (XLogProfilePack2 p) = XLogProfilePack2_Write p"
| "pack_Write (SpanPack p) = SpanPack_Write p"
| "pack_Write (SpanContainerPack p) = SpanContainerPack_Write p"
| "pack_Write (TextPack p) = TextPack_Write p"
| "pack_Write (PerfCounterPack p) = PerfCounterPack_Write p"
| "pack_Write (StatusPack p) = StatusPack_Write p"
| "pack_Write (StackPack p) = StackPack_Write p"
| "pack_Write (SummaryPack p) = SummaryPack_Write p"
| "pack_Write (BatchPack p) = BatchPack_Write p"
| "pack_Write (InteractionPerfCounterPack p) = InteractionPerfCounterPack_Write p"
| "pack_Write (AlertPack p) = AlertPack_Write p"
| "pack_Write (ObjectPack p) = ObjectPack_Write p"

fun pack_Read :: "pack \<Rightarrow> pack rd" where
  "pack_Read (MapPack p) = rd_bind (MapPack_Read p) (\<lambda>p. rd_ret (MapPack p))"
| "pack_Read (XLogPack p) = rd_bind (XLogPack_Read p) (\<lambda>p. rd_ret (XLogPack p))"
| "pack_Read (DroppedXLogPack p) = rd_bind (DroppedXLogPack_Read p) (\<lambda>p. rd_ret (DroppedXLogPack p))"
| "pack_Read (XLogProfilePack p) = rd_bind (XLogProfilePack_Read p) (\<lambda>p. rd_ret (XLogProfilePack p))"
| "pack_Read (XLogProfilePack2 p) = rd_bind (XLogProfilePack2_Read p) (\<lambda>p. rd_ret (XLogProfilePack2 p))"
| "pack_Read (SpanPack p) = rd_bind (SpanPack_Read p) (\<lambda>p. rd_ret (SpanPack p))"
| "pack_Read (SpanContainerPack p) = rd_bind (SpanContainerPack_Read p) (\<lambda>p. rd_ret (SpanContainerPack p))"
| "pack_Read (TextPack p) = rd_bind (TextPack_Read p) (\<lambda>p. rd_ret (TextPack p))"
| "pack_Read (PerfCounterPack p) = rd_bind (PerfCounterPack_Read p) (\<lambda>p. rd_ret (PerfCounterPack p))"
| "pack_Read (StatusPack p) = rd_bind (StatusPack_Read p) (\<lambda>p. rd_ret (StatusPack p))"
| "pack_Read (StackPack p) = rd_bind (StackPack_Read p) (\<lambda>p. rd_ret (StackPack p))"
| "pack_Read (SummaryPack p) = rd_bind (SummaryPack_Read p) (\<lambda>p. rd_ret (SummaryPack p))"
| "pack_Read (BatchPack p) = rd_bind (BatchPack_Read p) (\<lambda>p. rd_ret (BatchPack p))"
| "pack_Read (InteractionPerfCounterPack p) = rd_bind (InteractionPerfCounterPack_Read p) (\<lambda>p. rd_ret (InteractionPerfCounterPack p))"
| "pack_Read (AlertPack p) = rd_bind (AlertPack_Read p) (\<lambda>p. rd_ret (AlertPack p))"
| "pack_Read (ObjectPack p) = rd_bind (ObjectPack_Read p) (\<lambda>p. rd_ret (ObjectPack p))"

definition WritePack :: "pack \<Rightarrow> dout \<Rightarrow> dout" where
  "WritePack p = writes [WriteByte (PackType p), pack_Write p]"

definition ReadPack :: "pack rd" where
  "ReadPack = rd_bind ReadByte (\<lambda>typeCode. case CreatePack typeCode of
     Ok p \<Rightarrow> rd_wrap typeCode (pack_Read p)
   | Err e \<Rightarrow> rd_fail e
   | Panic p \<Rightarrow> rd_panic p)"

subsection \<open>Round trip\<close>

fun ok_pack :: "pack \<Rightarrow> bool" where
  "ok_pack (MapPack p) = ok_val (MapValue (Some (map_Table p)))"
| "ok_pack (XLogPack p) = ok_xlog p"
| "ok_pack (DroppedXLogPack p) = (True)"
| "ok_pack (XLogProfilePack p) = (ok_blob (prof_Profile p))"
| "ok_pack (XLogProfilePack2 p) = (ok_blob (prof_Profile p))"
| "ok_pack (SpanPack p) = (ok_blob (span_LocalEndpointIp p) \<and> ok_blob (span_RemoteEndpointIp p) \<and>
     ok_list_field (span_AnnotationTimestamps p) \<and> ok_list_field (span_AnnotationValues
     p) \<and> ok_map_field (span_Tags p))"
| "ok_pack (SpanContainerPack p) = (ok_blob (spanc_Spans p))"
| "ok_pack (TextPack p) = (ok_text (text_XType p) \<and> ok_text (text_Text p))"
| "ok_pack (PerfCounterPack p) = (ok_text (perf_ObjName p) \<and> ok_map_field (perf_Data p))"
| "ok_pack (StatusPack p) = (ok_text (status_ObjType p) \<and> ok_text (status_Key p) \<and> ok_map_field (status_Data
     p))"
| "ok_pack (StackPack p) = (ok_blob (stack_Data p))"
| "ok_pack (SummaryPack p) = (ok_text (summary_ObjType p) \<and> ok_map_field (summary_Table p))"
| "ok_pack (BatchPack p) = (ok_text (batch_BatchJobId p) \<and> ok_text (batch_Args p) \<and> ok_text (batch_ObjName
     p) \<and> ok_text (batch_ObjType p) \<and> ok_blob (ToByteArray (BatchPack_fields_Write p
     NewDataOutputX)))"
| "ok_pack (InteractionPerfCounterPack p) = (ok_text (inter_ObjName p) \<and> ok_text (inter_InteractionType p) \<and> ok_map_field
     (inter_CustomData p))"
| "ok_pack (AlertPack p) = (ok_text (alert_ObjType p) \<and> ok_text (alert_Title p) \<and> ok_text (alert_Message p)
     \<and> ok_map_field (alert_Tags p))"
| "ok_pack (ObjectPack p) = (ok_text (object_ObjType p) \<and> ok_text (object_ObjName p) \<and> ok_text
     (object_Address p) \<and> ok_text (object_Version p) \<and> ok_map_field (object_Tags p))"

fun norm_pack :: "pack \<Rightarrow> pack" where
  "norm_pack (MapPack p) = MapPack (p\<lparr>map_Table := map norm_entry (map_Table p)\<rparr>)"
| "norm_pack (XLogPack p) = XLogPack p"
| "norm_pack (DroppedXLogPack p) = DroppedXLogPack p"
| "norm_pack (XLogProfilePack p) = XLogProfilePack p"
| "norm_pack (XLogProfilePack2 p) = XLogProfilePack2 p"
| "norm_pack (SpanPack p) = SpanPack (p\<lparr>span_AnnotationTimestamps := norm_list_field (span_AnnotationTimestamps p),
       span_AnnotationValues := norm_list_field (span_AnnotationValues p), span_Tags :=
       norm_map_field (span_Tags p)\<rparr>)"
| "norm_pack (SpanContainerPack p) = SpanContainerPack p"
| "norm_pack (TextPack p) = TextPack p"
| "norm_pack (PerfCounterPack p) = PerfCounterPack (p\<lparr>perf_Data := norm_map_field (perf_Data p)\<rparr>)"
| "norm_pack (StatusPack p) = StatusPack (p\<lparr>status_Data := norm_map_field (status_Data p)\<rparr>)"
| "norm_pack (StackPack p) = StackPack p"
| "norm_pack (SummaryPack p) = SummaryPack (p\<lparr>summary_Table := norm_map_field (summary_Table p)\<rparr>)"
| "norm_pack (BatchPack p) = BatchPack p"
| "norm_pack (InteractionPerfCounterPack p) = InteractionPerfCounterPack (p\<lparr>inter_CustomData := norm_map_field (inter_CustomData p)\<rparr>)"
| "norm_pack (AlertPack p) = AlertPack (p\<lparr>alert_Tags := norm_map_field (alert_Tags p)\<rparr>)"
| "norm_pack (ObjectPack p) = ObjectPack (p\<lparr>object_Tags := norm_map_field (object_Tags p)\<rparr>)"

lemma wire_TextPack [wire_intro]:
  assumes "ok_text (text_XType x)"
    and "ok_text (text_Text x)"
  shows "wire (TextPack_Write x) (TextPack_Read s)
     (s\<lparr>text_XType := text_XType x, text_Hash := text_Hash x, text_Text := text_Text x\<rparr>)"
  unfolding TextPack_Write_def TextPack_Read_def writes.simps fcomp_assoc
  by (rule wire_map_field wire_list_field wire_alert_tags wire_dec32 wire_fields wire_intro assms)+

lemma wire_PerfCounterPack [wire_intro]:
  assumes "ok_text (perf_ObjName x)"
    and "ok_map_field (perf_Data x)"
  shows "wire (PerfCounterPack_Write x) (PerfCounterPack_Read s)
     (s\<lparr>perf_Time := perf_Time x, perf_ObjName := perf_ObjName x, perf_TimeType :=
         perf_TimeType x, perf_Data := norm_map_field (perf_Data x)\<rparr>)"
  unfolding PerfCounterPack_Write_def PerfCounterPack_Read_def writes.simps fcomp_assoc
  by (rule wire_map_field wire_list_field wire_alert_tags wire_dec32 wire_fields wire_intro assms)+

lemma wire_StatusPack [wire_intro]:
  assumes "ok_text (status_ObjType x)"
    and "ok_text (status_Key x)"
    and "ok_map_field (status_Data x)"
  shows "wire (StatusPack_Write x) (StatusPack_Read s)
     (s\<lparr>status_Time := status_Time x, status_ObjType := status_ObjType x, status_ObjHash :=
         status_ObjHash x, status_Key := status_Key x, status_Data := norm_map_field
         (status_Data x)\<rparr>)"
  unfolding StatusPack_Write_def StatusPack_Read_def writes.simps fcomp_assoc
  by (rule wire_map_field wire_list_field wire_alert_tags wire_dec32 wire_fields wire_intro assms)+

lemma wire_StackPack [wire_intro]:
  assumes "ok_blob (stack_Data x)"
  shows "wire (StackPack_Write x) (StackPack_Read s)
     (s\<lparr>stack_Time := stack_Time x, stack_ObjHash := stack_ObjHash x, stack_Data :=
         stack_Data x\<rparr>)"
  unfolding StackPack_Write_def StackPack_Read_def writes.simps fcomp_assoc
  by (rule wire_map_field wire_list_field wire_alert_tags wire_dec32 wire_fields wire_intro assms)+

lemma wire_SummaryPack [wire_intro]:
  assumes "ok_text (summary_ObjType x)"
    and "ok_map_field (summary_Table x)"
  shows "wire (SummaryPack_Write x) (SummaryPack_Read s)
     (s\<lparr>summary_Time := summary_Time x, summary_ObjHash := summary_ObjHash x, summary_ObjType
         := summary_ObjType x, summary_SType := summary_SType x, summary_Table :=
         norm_map_field (summary_Table x)\<rparr>)"
  unfolding SummaryPack_Write_def SummaryPack_Read_def writes.simps fcomp_assoc
  by (rule wire_map_field wire_list_field wire_alert_tags wire_dec32 wire_fields wire_intro assms)+

lemma wire_BatchPack [wire_intro]:
  assumes "ok_text (batch_BatchJobId x)"
    and "ok_text (batch_Args x)"
    and "ok_text (batch_ObjName x)"
    and "ok_text (batch_ObjType x)"
    and "ok_blob (ToByteArray (BatchPack_fields_Write x NewDataOutputX))"
  shows "wire (BatchPack_Write x) (BatchPack_Read s)
     (s\<lparr>batch_StartTime := batch_StartTime x, batch_ObjHash := batch_ObjHash x,
         batch_BatchJobId := batch_BatchJobId x, batch_Args := batch_Args x, batch_PID :=
         batch_PID x, batch_ElapsedTime := batch_ElapsedTime x, batch_ThreadCnt :=
         batch_ThreadCnt x, batch_CpuTime := batch_CpuTime x, batch_GcTime := batch_GcTime x,
         batch_GcCount := batch_GcCount x, batch_SqlTotalCnt := batch_SqlTotalCnt x,
         batch_SqlTotalTime := batch_SqlTotalTime x, batch_SqlTotalRows := batch_SqlTotalRows
         x, batch_SqlTotalRuns := batch_SqlTotalRuns x, batch_IsStack := batch_IsStack x,
         batch_ObjName := batch_ObjName x, batch_ObjType := batch_ObjType x, batch_Position :=
         batch_Position x\<rparr>)"
proof -
  have "wire (BatchPack_fields_Write x) (BatchPack_fields_Read s)
     (s\<lparr>batch_StartTime := batch_StartTime x, batch_ObjHash := batch_ObjHash x,
         batch_BatchJobId := batch_BatchJobId x, batch_Args := batch_Args x, batch_PID :=
         batch_PID x, batch_ElapsedTime := batch_ElapsedTime x, batch_ThreadCnt :=
         batch_ThreadCnt x, batch_CpuTime := batch_CpuTime x, batch_GcTime := batch_GcTime x,
         batch_GcCount := batch_GcCount x, batch_SqlTotalCnt := batch_SqlTotalCnt x,
         batch_SqlTotalTime := batch_SqlTotalTime x, batch_SqlTotalRows := batch_SqlTotalRows
         x, batch_SqlTotalRuns := batch_SqlTotalRuns x, batch_IsStack := batch_IsStack x,
         batch_ObjName := batch_ObjName x, batch_ObjType := batch_ObjType x, batch_Position :=
         batch_Position x\<rparr>)"
    unfolding BatchPack_fields_Write_def BatchPack_fields_Read_def writes.simps fcomp_assoc
    by (rule wire_map_field wire_list_field wire_alert_tags wire_dec32 wire_fields wire_intro assms)+
  then show ?thesis unfolding BatchPack_Write_def BatchPack_Read_def
    by (intro wire_inner_reads wire_reads assms)
qed

lemma wire_InteractionPerfCounterPack [wire_intro]:
  assumes "ok_text (inter_ObjName x)"
    and "ok_text (inter_InteractionType x)"
    and "ok_map_field (inter_CustomData x)"
  shows "wire (InteractionPerfCounterPack_Write x) (InteractionPerfCounterPack_Read s)
     (s\<lparr>inter_Time := inter_Time x, inter_ObjName := inter_ObjName x, inter_InteractionType
         := inter_InteractionType x, inter_FromHash := inter_FromHash x, inter_ToHash :=
         inter_ToHash x, inter_Period := inter_Period x, inter_Count := inter_Count x,
         inter_ErrorCount := inter_ErrorCount x, inter_TotalElapsed := inter_TotalElapsed x,
         inter_CustomData := norm_map_field (inter_CustomData x)\<rparr>)"
  unfolding InteractionPerfCounterPack_Write_def InteractionPerfCounterPack_Read_def writes.simps fcomp_assoc
  by (rule wire_map_field wire_list_field wire_alert_tags wire_dec32 wire_fields wire_intro assms)+

lemma wire_AlertPack [wire_intro]:
  assumes "ok_text (alert_ObjType x)"
    and "ok_text (alert_Title x)"
    and "ok_text (alert_Message x)"
    and "ok_map_field (alert_Tags x)"
  shows "wire (AlertPack_Write x) (AlertPack_Read s)
     (s\<lparr>alert_Time := alert_Time x, alert_Level := alert_Level x, alert_ObjType :=
         alert_ObjType x, alert_ObjHash := alert_ObjHash x, alert_Title := alert_Title x,
         alert_Message := alert_Message x, alert_Tags := norm_map_field (alert_Tags x)\<rparr>)"
  unfolding AlertPack_Write_def AlertPack_Read_def writes.simps fcomp_assoc
  by (rule wire_map_field wire_list_field wire_alert_tags wire_dec32 wire_fields wire_intro assms)+

lemma wire_ObjectPack [wire_intro]:
  assumes "ok_text (object_ObjType x)"
    and "ok_text (object_ObjName x)"
    and "ok_text (object_Address x)"
    and "ok_text (object_Version x)"
    and "ok_map_field (object_Tags x)"
  shows "wire (ObjectPack_Write x) (ObjectPack_Read s)
     (s\<lparr>object_ObjType := object_ObjType x, object_ObjHash := object_ObjHash x,
         object_ObjName := object_ObjName x, object_Address := object_Address x,
         object_Version := object_Version x, object_Alive := object_Alive x, object_Wakeup :=
         object_Wakeup x, object_Tags := norm_map_field (object_Tags x)\<rparr>)"
  unfolding ObjectPack_Write_def ObjectPack_Read_def writes.simps fcomp_assoc
  by (rule wire_map_field wire_list_field wire_alert_tags wire_dec32 wire_fields wire_intro assms)+

lemma wire_SpanContainerPack [wire_intro]:
  assumes "ok_blob (spanc_Spans x)"
  shows "wire (SpanContainerPack_Write x) (SpanContainerPack_Read s)
     (s\<lparr>spanc_Gxid := spanc_Gxid x, spanc_SpanCount := spanc_SpanCount x, spanc_Timestamp :=
         spanc_Timestamp x, spanc_Spans := spanc_Spans x\<rparr>)"
  unfolding SpanContainerPack_Write_def SpanContainerPack_Read_def writes.simps fcomp_assoc
  by (rule wire_map_field wire_list_field wire_alert_tags wire_dec32 wire_fields wire_intro assms)+

lemma wire_SpanPack [wire_intro]:
  assumes "ok_blob (span_LocalEndpointIp x)"
    and "ok_blob (span_RemoteEndpointIp x)"
    and "ok_list_field (span_AnnotationTimestamps x)"
    and "ok_list_field (span_AnnotationValues x)"
    and "ok_map_field (span_Tags x)"
  shows "wire (SpanPack_Write x) (SpanPack_Read s)
     (s\<lparr>span_Gxid := span_Gxid x, span_Txid := span_Txid x, span_Caller := span_Caller x,
         span_Timestamp := span_Timestamp x, span_Elapsed := span_Elapsed x, span_SpanType :=
         span_SpanType x, span_Name := span_Name x, span_ObjHash := span_ObjHash x, span_Error
         := span_Error x, span_LocalEndpointServiceName := span_LocalEndpointServiceName x,
         span_LocalEndpointIp := span_LocalEndpointIp x, span_LocalEndpointPort :=
         span_LocalEndpointPort x, span_RemoteEndpointServiceName :=
         span_RemoteEndpointServiceName x, span_RemoteEndpointIp := span_RemoteEndpointIp x,
         span_RemoteEndpointPort := span_RemoteEndpointPort x, span_Debug := span_Debug x,
         span_Shared := span_Shared x, span_AnnotationTimestamps := norm_list_field
         (span_AnnotationTimestamps x), span_AnnotationValues := norm_list_field
         (span_AnnotationValues x), span_Tags := norm_map_field (span_Tags x)\<rparr>)"
  unfolding SpanPack_Write_def SpanPack_Read_def writes.simps fcomp_assoc
  by (rule wire_map_field wire_list_field wire_alert_tags wire_dec32 wire_fields wire_intro assms)+

lemma wire_XLogProfilePack [wire_intro]:
  assumes "ok_blob (prof_Profile x)"
  shows "wire (XLogProfilePack_Write x) (XLogProfilePack_Read s)
     (s\<lparr>prof_Time := prof_Time x, prof_ObjHash := prof_ObjHash x, prof_Service :=
         prof_Service x, prof_Txid := prof_Txid x, prof_Profile := prof_Profile x\<rparr>)"
  unfolding XLogProfilePack_Write_def XLogProfilePack_Read_def writes.simps fcomp_assoc
  by (rule wire_map_field wire_list_field wire_alert_tags wire_dec32 wire_fields wire_intro assms)+

lemma wire_XLogProfilePack2 [wire_intro]:
  assumes "ok_blob (prof_Profile x)"
  shows "wire (XLogProfilePack2_Write x) (XLogProfilePack2_Read s)
     (s\<lparr>prof_Time := prof_Time x, prof_ObjHash := prof_ObjHash x, prof_Service :=
         prof_Service x, prof_Txid := prof_Txid x, prof_Profile := prof_Profile x, prof2_Gxid
         := prof2_Gxid x, prof2_XType := prof2_XType x, prof2_DiscardType := prof2_DiscardType
         x, prof2_IgnoreGlobalConsequentSampling := prof2_IgnoreGlobalConsequentSampling x\<rparr>)"
  unfolding XLogProfilePack2_Write_def XLogProfilePack2_Read_def writes.simps fcomp_assoc
  by (rule wire_map_field wire_list_field wire_alert_tags wire_dec32 wire_fields wire_intro assms)+

lemma wire_DroppedXLogPack [wire_intro]:
  "wire (DroppedXLogPack_Write x) (DroppedXLogPack_Read s)
     (s\<lparr>dropped_Gxid := dropped_Gxid x, dropped_Txid := dropped_Txid x\<rparr>)"
  unfolding DroppedXLogPack_Write_def DroppedXLogPack_Read_def writes.simps fcomp_assoc
  by (rule wire_map_field wire_list_field wire_alert_tags wire_dec32 wire_fields wire_intro)+

lemma wire_MapPack [wire_intro]:
  assumes "ok_val (MapValue (Some (map_Table x)))"
  shows "wire (MapPack_Write x) (MapPack_Read s) (s\<lparr>map_Table := map norm_entry (map_Table x)\<rparr>)"
proof -
  have "wire (case e of (key, val) \<Rightarrow> fcomp (WriteText key) (WriteValue val))
      (rd_bind ReadText (\<lambda>k. rd_bind ReadValue (\<lambda>x. rd_ret (k, Some x)))) (norm_entry e)"
    if "e \<in> set (map_Table x)" for e
    using wire_values(3) [of e] assms that by (cases e) auto
  then show ?thesis unfolding MapPack_Write_def MapPack_Read_def
    using assms wire_list_body [of "Some (map_Table x)" "\<lambda>(key, val). fcomp (WriteText key) (WriteValue val)"
      _ norm_entry 32 "\<lambda>es. s\<lparr>map_Table := es\<rparr>"] by simp
qed

text \<open>The table of \<open>CreatePack\<close> and the \<open>PackType\<close> methods are inverse to each other.\<close>

lemma PackType_CreatePack: "CreatePack t = Ok z \<Longrightarrow> PackType z = t"
  by (auto simp: CreatePack_def split: if_splits)

lemma CreatePack_outcome: "(\<exists>z. CreatePack t = Ok z) \<or> CreatePack t = Err (ErrUnknownType t)"
  by (simp add: CreatePack_def)

lemma wire_pack_body:
  assumes "ok_pack p"
  shows "\<exists>z. CreatePack (PackType p) = Ok z \<and> wire (pack_Write p) (pack_Read z) (norm_pack p)"
proof (cases p)
  case (MapPack x)
  with assms show ?thesis unfolding MapPack pack_Write.simps CreatePack_def
    by (auto intro!: wire_last [THEN wire_cong] wire_MapPack)
next
  case (XLogPack x)
  with assms show ?thesis unfolding XLogPack pack_Write.simps CreatePack_def
    by (auto intro!: wire_last [THEN wire_cong] wire_XLogPack)
next
  case (DroppedXLogPack x)
  with assms show ?thesis unfolding DroppedXLogPack pack_Write.simps CreatePack_def
    by (auto intro!: wire_last [THEN wire_cong] wire_DroppedXLogPack)
next
  case (XLogProfilePack x)
  with assms show ?thesis unfolding XLogProfilePack pack_Write.simps CreatePack_def
    by (auto intro!: wire_last [THEN wire_cong] wire_XLogProfilePack)
next
  case (XLogProfilePack2 x)
  with assms show ?thesis unfolding XLogProfilePack2 pack_Write.simps CreatePack_def
    by (auto intro!: wire_last [THEN wire_cong] wire_XLogProfilePack2)
next
  case (SpanPack x)
  with assms show ?thesis unfolding SpanPack pack_Write.simps CreatePack_def
    by (auto intro!: wire_last [THEN wire_cong] wire_SpanPack)
next
  case (SpanContainerPack x)
  with assms show ?thesis unfolding SpanContainerPack pack_Write.simps CreatePack_def
    by (auto intro!: wire_last [THEN wire_cong] wire_SpanContainerPack)
next
  case (TextPack x)
  with assms show ?thesis unfolding TextPack pack_Write.simps CreatePack_def
    by (auto intro!: wire_last [THEN wire_cong] wire_TextPack)
next
  case (PerfCounterPack x)
  with assms show ?thesis unfolding PerfCounterPack pack_Write.simps CreatePack_def
    by (auto intro!: wire_last [THEN wire_cong] wire_PerfCounterPack)
next
  case (StatusPack x)
  with assms show ?thesis unfolding StatusPack pack_Write.simps CreatePack_def
    by (auto intro!: wire_last [THEN wire_cong] wire_StatusPack)
next
  case (StackPack x)
  with assms show ?thesis unfolding StackPack pack_Write.simps CreatePack_def
    by (auto intro!: wire_last [THEN wire_cong] wire_StackPack)
next
  case (SummaryPack x)
  with assms show ?thesis unfolding SummaryPack pack_Write.simps CreatePack_def
    by (auto intro!: wire_last [THEN wire_cong] wire_SummaryPack)
next
  case (BatchPack x)
  with assms show ?thesis unfolding BatchPack pack_Write.simps CreatePack_def
    by (auto intro!: wire_last [THEN wire_cong] wire_BatchPack)
next
  case (InteractionPerfCounterPack x)
  with assms show ?thesis unfolding InteractionPerfCounterPack pack_Write.simps CreatePack_def
    by (auto intro!: wire_last [THEN wire_cong] wire_InteractionPerfCounterPack)
next
  case (AlertPack x)
  with assms show ?thesis unfolding AlertPack pack_Write.simps CreatePack_def
    by (auto intro!: wire_last [THEN wire_cong] wire_AlertPack)
next
  case (ObjectPack x)
  with assms show ?thesis unfolding ObjectPack pack_Write.simps CreatePack_def
    by (auto intro!: wire_last [THEN wire_cong] wire_ObjectPack)
qed

lemma wire_pack: "ok_pack p \<Longrightarrow> wire (WritePack p) ReadPack (norm_pack p)"
  unfolding WritePack_def ReadPack_def writes.simps
  by (drule wire_pack_body, elim exE conjE, rule wire_tagged [OF wire_wrap]) simp_all

interpretation pc: codec WritePack ReadPack ok_pack norm_pack
  by unfold_locales (rule wire_pack)

subsection \<open>The table of a MapPack\<close>

lemma table_Put_map_Put: "table_Put es key v = map_Put es key v"
  by (induction es) auto

lemma table_Get_map_Get: "table_Get es key = (case map_Get es key of None \<Rightarrow> None | Some v \<Rightarrow> v)"
  by (induction es) auto

lemma MapPack_Get_Put: "MapPack_Get (MapPack_Put p k v) k' = (if k' = k then v else MapPack_Get p k')"
  by (simp add: MapPack_Get_def MapPack_Put_def table_Put_map_Put table_Get_map_Get
      map_Get_map_of map_of_map_Put)

text \<open>A setter and the getter of its type: the getter of another type finds its zero value.\<close>

lemma MapPack_getters:
  "MapPack_GetText (MapPack_PutStr p k s) k' = (if k' = k then s else MapPack_GetText p k')"
  "MapPack_GetLong (MapPack_PutLong p k n) k' = (if k' = k then n else MapPack_GetLong p k')"
  "MapPack_GetInt (MapPack_PutLong p k n) k' = (if k' = k then ucast n else MapPack_GetInt p k')"
  "MapPack_GetText (MapPack_PutLong p k n) k' = (if k' = k then '''' else MapPack_GetText p k')"
  "MapPack_GetLong (MapPack_PutStr p k s) k' = (if k' = k then 0 else MapPack_GetLong p k')"
  by (simp_all add: MapPack_GetText_def MapPack_GetLong_def MapPack_GetInt_def MapPack_PutStr_def
      MapPack_PutLong_def MapPack_Get_Put)

lemma MapPack_Size_Put:
  "MapPack_Size (MapPack_Put p k v) =
     (if k \<in> set (map fst (map_Table p)) then MapPack_Size p else MapPack_Size p + 1)"
  using arg_cong [OF keys_map_Put, of length "map_Table p" k v]
  by (simp add: MapPack_Size_def MapPack_Put_def table_Put_map_Put split: if_splits)

subsection \<open>The filter fields of a stored XLog\<close>

lemma ReadPack_XLog:
  assumes "ReadPack d = (Ok (XLogPack p), d')"
  obtains t d1 blob where "ReadByte d = (Ok t, d1)" "ReadBlob d1 = (Ok blob, d')"
    "fst (XLogPack_fields_Read XLogPack_zero (NewDataInputX blob)) = Ok p"
proof -
  from assms obtain t d1 where t: "ReadByte d = (Ok t, d1)" and
    c: "(case CreatePack t of Ok p \<Rightarrow> rd_wrap t (pack_Read p)
       | Err e \<Rightarrow> rd_fail e | Panic p \<Rightarrow> rd_panic p) d1 = (Ok (XLogPack p), d')"
    unfolding ReadPack_def by (auto simp: rd_bind_Ok)
  from c obtain z where z: "CreatePack t = Ok z" and
    r: "rd_wrap t (pack_Read z) d1 = (Ok (XLogPack p), d')"
    by (cases "CreatePack t") (auto simp: rd_fail_def rd_panic_def)
  have pr: "pack_Read z d1 = (Ok (XLogPack p), d')"
    using r by (auto simp: rd_wrap_def split: prod.splits res.splits)
  then obtain q where q: "z = XLogPack q" by (cases z) (auto simp: rd_bind_Ok rd_ret_def)
  then have "t = 21" using PackType_CreatePack [OF z] by simp
  then have "q = XLogPack_zero" using z q by (simp add: CreatePack_def)
  then obtain blob where b: "ReadBlob d1 = (Ok blob, d')"
    "fst (XLogPack_fields_Read XLogPack_zero (NewDataInputX blob)) = Ok p"
    using pr q by (auto simp: rd_bind_Ok rd_ret_def XLogPack_Read_def rd_inner_def)
  with t that show thesis by blast
qed

lemma filter_fields_agree:
  assumes "fst (ReadPack (NewDataInputX data)) = Ok (XLogPack p)"
  shows "ReadXLogFilterFields data = Ok (xlog_ObjHash p, xlog_Elapsed p)"
proof -
  from assms obtain d' where "ReadPack (NewDataInputX data) = (Ok (XLogPack p), d')"
    by (metis prod.collapse)
  then obtain t d1 blob where b: "ReadByte (NewDataInputX data) = (Ok t, d1)"
    "ReadBlob d1 = (Ok blob, d')" and r: "fst (XLogPack_fields_Read XLogPack_zero (NewDataInputX blob)) = Ok p"
    by (rule ReadPack_XLog)
  have "ReadBlobRef d1 = (Ok blob, d')" using ReadBlobRef_not_panic [of d1] b(2) by simp
  moreover obtain d2 where "XLogPack_fields_Read XLogPack_zero (NewDataInputX blob) = (Ok p, d2)"
    using r by (metis prod.collapse)
  note filter_fields_inner [OF this]
  ultimately show ?thesis
    unfolding ReadXLogFilterFields_def using b(1)
    by (subst rd_bind_def, simp, subst rd_bind_def, simp add: rd_inner_def)
qed

end
