(* ===== verification/MultiPacket.thy ===== *)
theory MultiPacket
  imports Packs "HOL-Library.AList"
begin

text \<open>
  internal/netio/udp/multipacket.go: reassembly of packets that an agent split to fit the MTU. The Go
  map of pending packets is an association list with distinct keys. Its iteration order, which
  decides the entry that an overflow drops, is the parameter \<open>victim\<close>; the clock is the
  argument \<open>now\<close>, in nanoseconds. \<open>Add\<close> holds the lock for its whole body, so calls are atomic steps.
\<close>

record multiPacket =
  mp_total :: int
  mp_objHash :: i32
  mp_fragments :: "bytes option list"
  mp_received :: int
  mp_created :: int

definition isDone :: "multiPacket \<Rightarrow> bool" where
  "isDone mp \<longleftrightarrow> mp_received mp \<ge> mp_total mp"

definition toBytes :: "multiPacket \<Rightarrow> bytes" where
  "toBytes mp = concat (map (\<lambda>f. case f of None \<Rightarrow> [] | Some b \<Rightarrow> b) (mp_fragments mp))"

record MultiPacketProcessor =
  mpp_packets :: "(i64 \<times> multiPacket) list"
  mpp_maxItems :: nat
  mpp_expiry :: int

definition NewMultiPacketProcessor :: MultiPacketProcessor where
  "NewMultiPacketProcessor = \<lparr>mpp_packets = [], mpp_maxItems = 1000, mpp_expiry = 10 * 1000000000\<rparr>"

text \<open>The entry for a key that is not there: an overflow drops one entry first, then \<open>make\<close> may panic.\<close>

definition mp_evict :: "((i64 \<times> multiPacket) list \<Rightarrow> i64) \<Rightarrow> MultiPacketProcessor \<Rightarrow> MultiPacketProcessor" where
  "mp_evict victim p =
     (if length (mpp_packets p) \<ge> mpp_maxItems p
      then p\<lparr>mpp_packets := AList.delete (victim (mpp_packets p)) (mpp_packets p)\<rparr> else p)"

text \<open>The fragment is stored if its index is in range and its slot is free.\<close>

definition mp_store :: "i16 \<Rightarrow> bytes \<Rightarrow> multiPacket \<Rightarrow> multiPacket" where
  "mp_store num data mp =
     (let idx = sint num in
      if 0 \<le> idx \<and> idx < mp_total mp \<and> mp_fragments mp ! nat idx = None
      then mp\<lparr>mp_fragments := (mp_fragments mp)[nat idx := Some data], mp_received := mp_received mp + 1\<rparr>
      else mp)"

definition Add :: "((i64 \<times> multiPacket) list \<Rightarrow> i64) \<Rightarrow> int \<Rightarrow> i64 \<Rightarrow> i16 \<Rightarrow> i16 \<Rightarrow> bytes \<Rightarrow> i32 \<Rightarrow>
    MultiPacketProcessor \<Rightarrow> bytes option res \<times> MultiPacketProcessor" where
  "Add victim now pkid tot num data objHash p =
     (let (entry, p1) = (case map_of (mpp_packets p) pkid of
            Some mp \<Rightarrow> (Ok mp, p)
          | None \<Rightarrow>
              let p' = mp_evict victim p in
              if sint tot < 0 then (Panic MakeSliceLen, p')
              else (Ok \<lparr>mp_total = sint tot, mp_objHash = objHash,
                       mp_fragments = replicate (nat (sint tot)) None,
                       mp_received = 0, mp_created = now\<rparr>, p'))
      in case entry of
           Ok mp \<Rightarrow>
             (let mp' = mp_store num data mp in
              if isDone mp'
              then (Ok (Some (toBytes mp')), p1\<lparr>mpp_packets := AList.delete pkid (mpp_packets p1)\<rparr>)
              else (Ok None, p1\<lparr>mpp_packets := AList.update pkid mp' (mpp_packets p1)\<rparr>))
         | Err e \<Rightarrow> (Err e, p1)
         | Panic q \<Rightarrow> (Panic q, p1))"

text \<open>One tick of \<open>cleanupLoop\<close>.\<close>

definition mp_cleanup :: "int \<Rightarrow> MultiPacketProcessor \<Rightarrow> MultiPacketProcessor" where
  "mp_cleanup now p =
     p\<lparr>mpp_packets := filter (\<lambda>(k, mp). \<not> (now - mp_created mp > mpp_expiry p)) (mpp_packets p)\<rparr>"

subsection \<open>Invariant\<close>

text \<open>
  The slots of a packet are as many as it announced, \<open>received\<close> counts the filled ones, and a packet
  that is complete is not kept. There is one entry per key and never more than \<open>maxItems\<close> of them.
\<close>

definition filled :: "bytes option list \<Rightarrow> nat" where
  "filled fs = length (filter (\<lambda>f. f \<noteq> None) fs)"

definition mp_ok :: "multiPacket \<Rightarrow> bool" where
  "mp_ok mp \<longleftrightarrow> 0 \<le> mp_total mp \<and> length (mp_fragments mp) = nat (mp_total mp) \<and>
     mp_received mp = int (filled (mp_fragments mp))"

definition mpp_inv :: "MultiPacketProcessor \<Rightarrow> bool" where
  "mpp_inv p \<longleftrightarrow> distinct (map fst (mpp_packets p)) \<and> length (mpp_packets p) \<le> mpp_maxItems p \<and>
     0 < mpp_maxItems p \<and> (\<forall>(k, mp) \<in> set (mpp_packets p). mp_ok mp \<and> \<not> isDone mp)"

lemma filled_update:
  "i < length fs \<Longrightarrow> fs ! i = None \<Longrightarrow> filled (fs[i := Some b]) = filled fs + 1"
proof (induction fs arbitrary: i)
  case (Cons f fs)
  then show ?case by (cases i) (auto simp: filled_def)
qed simp

lemma filled_replicate [simp]: "filled (replicate n None) = 0"
  by (simp add: filled_def)

lemma mp_ok_store: "mp_ok mp \<Longrightarrow> mp_ok (mp_store num data mp)"
  by (auto simp: mp_ok_def mp_store_def Let_def filled_update)

text \<open>The choice of the entry to drop: Go's \<open>range\<close> yields some key of the map.\<close>

definition picks :: "((i64 \<times> multiPacket) list \<Rightarrow> i64) \<Rightarrow> bool" where
  "picks victim \<longleftrightarrow> (\<forall>ps. ps \<noteq> [] \<longrightarrow> victim ps \<in> fst ` set ps)"

lemma length_delete_less: "k \<in> fst ` set ps \<Longrightarrow> length (AList.delete k ps) < length ps"
  by (auto simp: AList.delete_eq intro: length_filter_less)

lemma length_delete_le: "length (AList.delete k ps) \<le> length ps"
  by (simp add: AList.delete_eq)

lemma length_update: "length (AList.update k v ps) = (if k \<in> fst ` set ps then length ps else length ps + 1)"
  by (induction ps) auto

lemma set_update: "(k', v') \<in> set (AList.update k v ps) \<Longrightarrow> (k' = k \<and> v' = v) \<or> (k', v') \<in> set ps"
  by (induction ps) (auto split: if_splits)

lemma mpp_inv_delete: "mpp_inv p \<Longrightarrow> mpp_inv (p\<lparr>mpp_packets := AList.delete k (mpp_packets p)\<rparr>)"
  using length_delete_le [of k "mpp_packets p"]
  by (auto simp: mpp_inv_def AList.distinct_delete) (auto simp: AList.delete_eq)

lemma mp_evict_inv: "mpp_inv p \<Longrightarrow> mpp_inv (mp_evict victim p)"
  by (simp add: mp_evict_def mpp_inv_delete)

lemma mp_evict_room:
  "mpp_inv p \<Longrightarrow> picks victim \<Longrightarrow> length (mpp_packets (mp_evict victim p)) < mpp_maxItems p"
  by (auto simp: mp_evict_def picks_def mpp_inv_def not_less
      dest!: spec [where x = "mpp_packets p"] length_delete_less)

lemma mp_evict_maxItems [simp]: "mpp_maxItems (mp_evict victim p) = mpp_maxItems p"
  by (simp add: mp_evict_def)

lemma mpp_inv_update:
  assumes "mpp_inv p" and "mp_ok mp" and "\<not> isDone mp"
    and "k \<in> fst ` set (mpp_packets p) \<or> length (mpp_packets p) < mpp_maxItems p"
  shows "mpp_inv (p\<lparr>mpp_packets := AList.update k mp (mpp_packets p)\<rparr>)"
proof -
  have "mp_ok mp' \<and> \<not> isDone mp'" if "(k', mp') \<in> set (AList.update k mp (mpp_packets p))" for k' mp'
    using set_update [OF that] assms(1-3) by (auto simp: mpp_inv_def)
  moreover have "length (AList.update k mp (mpp_packets p)) \<le> mpp_maxItems p"
    using assms(1,4) by (auto simp: length_update mpp_inv_def)
  ultimately show ?thesis
    using assms(1) by (auto simp: mpp_inv_def AList.distinct_update)
qed

lemma mp_new_ok: "0 \<le> sint (tot :: i16) \<Longrightarrow> mp_ok \<lparr>mp_total = sint tot, mp_objHash = h,
    mp_fragments = replicate (nat (sint tot)) None, mp_received = 0, mp_created = now\<rparr>"
  by (simp add: mp_ok_def)

lemma Add_inv:
  assumes "mpp_inv p" and "picks victim"
  shows "mpp_inv (snd (Add victim now pkid tot num data objHash p))"
proof (cases "map_of (mpp_packets p) pkid")
  case None
  then show ?thesis
    using assms mp_evict_room [OF assms] mp_ok_store [OF mp_new_ok, of tot num data objHash now]
    by (auto simp: Add_def Let_def mp_evict_inv mpp_inv_delete intro!: mpp_inv_update)
next
  case (Some mp)
  then have "(pkid, mp) \<in> set (mpp_packets p)" by (rule map_of_SomeD)
  moreover from this have "mp_ok mp" using assms(1) by (auto simp: mpp_inv_def)
  ultimately show ?thesis
    using assms Some by (auto simp: Add_def Let_def mpp_inv_delete
        intro!: mpp_inv_update mp_ok_store rev_image_eqI)
qed

lemma mp_cleanup_inv: "mpp_inv p \<Longrightarrow> mpp_inv (mp_cleanup now p)"
  by (auto simp: mpp_inv_def mp_cleanup_def intro: order_trans [OF length_filter_le] distinct_map_filter)

lemma NewMultiPacketProcessor_inv: "mpp_inv NewMultiPacketProcessor"
  by (simp add: mpp_inv_def NewMultiPacketProcessor_def)

subsection \<open>Reassembly\<close>

text \<open>A packet of which the fragments with the indices in \<open>S\<close> have arrived.\<close>

definition partial :: "bytes list \<Rightarrow> i32 \<Rightarrow> int \<Rightarrow> nat set \<Rightarrow> multiPacket" where
  "partial frags h now S = \<lparr>mp_total = int (length frags), mp_objHash = h,
     mp_fragments = map (\<lambda>i. if i \<in> S then Some (frags ! i) else None) [0..<length frags],
     mp_received = int (card S), mp_created = now\<rparr>"

definition ok_frags :: "bytes list \<Rightarrow> bool" where
  "ok_frags frags \<longleftrightarrow> 0 < length frags \<and> length frags < 2 ^ 15"

lemma sint_index: "ok_frags frags \<Longrightarrow> i < length frags \<Longrightarrow> sint (word_of_nat i :: i16) = int i"
  by (intro sint_word_of_nat) (simp add: ok_frags_def)

lemma sint_total: "ok_frags frags \<Longrightarrow> sint (word_of_nat (length frags) :: i16) = int (length frags)"
  by (intro sint_word_of_nat) (simp add: ok_frags_def)

lemma partial_store:
  assumes "ok_frags frags" "i < length frags" "S \<subseteq> {..<length frags}"
  shows "mp_store (word_of_nat i) (frags ! i) (partial frags h now S) = partial frags h now (insert i S)"
proof (cases "i \<in> S")
  case True
  then show ?thesis using assms
    by (simp add: mp_store_def Let_def sint_index partial_def insert_absorb)
next
  case False
  have "(map (\<lambda>j. if j \<in> S then Some (frags ! j) else None) [0..<length frags])[i := Some (frags ! i)] =
    map (\<lambda>j. if j \<in> insert i S then Some (frags ! j) else None) [0..<length frags]"
    using assms(2) by (intro nth_equalityI) (auto simp: nth_list_update)
  moreover have "finite S" using assms(3) finite_subset by blast
  ultimately show ?thesis using assms False
    by (simp add: mp_store_def Let_def sint_index partial_def)
qed

lemma partial_done:
  assumes "S \<subseteq> {..<length frags}"
  shows "isDone (partial frags h now S) \<longleftrightarrow> S = {..<length frags}"
proof -
  have "card S \<le> length frags" using card_mono [OF _ assms] by simp
  then show ?thesis
    using card_subset_eq [OF _ assms] by (auto simp: isDone_def partial_def)
qed

lemma partial_toBytes: "toBytes (partial frags h now {..<length frags}) = concat frags"
proof -
  have "map (\<lambda>f. case f of None \<Rightarrow> [] | Some b \<Rightarrow> b)
      (map (\<lambda>i. if i \<in> {..<length frags} then Some (frags ! i) else None) [0..<length frags]) = frags"
    by (rule nth_equalityI) auto
  then show ?thesis by (simp add: toBytes_def partial_def)
qed

text \<open>\<open>awaits p key frags h S\<close>: of the packet \<open>frags\<close> under \<open>key\<close> the processor has the fragments in \<open>S\<close>.\<close>

definition awaits :: "MultiPacketProcessor \<Rightarrow> i64 \<Rightarrow> bytes list \<Rightarrow> i32 \<Rightarrow> nat set \<Rightarrow> bool" where
  "awaits p key frags h S \<longleftrightarrow> S \<subset> {..<length frags} \<and>
     (if S = {} then map_of (mpp_packets p) key = None
      else \<exists>now. map_of (mpp_packets p) key = Some (partial frags h now S))"

lemma mp_evict_room_id: "length (mpp_packets p) < mpp_maxItems p \<Longrightarrow> mp_evict victim p = p"
  by (simp add: mp_evict_def)

lemma partial_empty: "partial frags h now {} = \<lparr>mp_total = int (length frags), mp_objHash = h,
    mp_fragments = replicate (length frags) None, mp_received = 0, mp_created = now\<rparr>"
  by (simp add: partial_def map_replicate_const)

lemma Add_awaited:
  assumes "ok_frags frags" and "i < length frags" and "awaits p key frags h S"
    and room: "length (mpp_packets p) < mpp_maxItems p \<or> map_of (mpp_packets p) key \<noteq> None"
  shows "\<exists>now'. Add victim now key (word_of_nat (length frags)) (word_of_nat i) (frags ! i) h p =
    (if insert i S = {..<length frags}
     then (Ok (Some (concat frags)), p\<lparr>mpp_packets := AList.delete key (mpp_packets p)\<rparr>)
     else (Ok None, p\<lparr>mpp_packets := AList.update key (partial frags h now' (insert i S)) (mpp_packets p)\<rparr>))"
proof -
  have sub: "S \<subseteq> {..<length frags}" and ins: "insert i S \<subseteq> {..<length frags}"
    using assms(2,3) by (auto simp: awaits_def)
  show ?thesis
  proof (cases "S = {}")
    case True
    then have none: "map_of (mpp_packets p) key = None" using assms(3) by (simp add: awaits_def)
    with room have "length (mpp_packets p) < mpp_maxItems p" by simp
    then show ?thesis
      using none partial_store [OF assms(1,2) sub, of h now] partial_done [OF ins, of h now] assms(1)
      by (auto simp: Add_def Let_def mp_evict_room_id sint_total True partial_empty [symmetric]
          partial_toBytes intro!: exI [of _ now])
  next
    case False
    then obtain now' where e: "map_of (mpp_packets p) key = Some (partial frags h now' S)"
      using assms(3) by (auto simp: awaits_def)
    then show ?thesis
      using partial_store [OF assms(1,2) sub, of h now'] partial_done [OF ins, of h now']
      by (auto simp: Add_def Let_def partial_toBytes intro!: exI [of _ now'])
  qed
qed

text \<open>A call for another key leaves the entry alone, as long as the table is not full.\<close>

lemma Add_other:
  assumes "k \<noteq> key" and "length (mpp_packets p) < mpp_maxItems p \<or> map_of (mpp_packets p) key \<noteq> None"
  shows "map_of (mpp_packets (snd (Add victim now key tot num data h p))) k = map_of (mpp_packets p) k"
  using assms by (auto simp: Add_def Let_def mp_evict_room_id AList.update_conv' AList.delete_conv'
      split: option.split)

lemma Add_packets:
  assumes "length (mpp_packets p) < mpp_maxItems p \<or> map_of (mpp_packets p) key \<noteq> None"
  shows "mpp_packets (snd (Add victim now key tot num data h p)) \<in>
    {mpp_packets p, AList.delete key (mpp_packets p)} \<union> range (\<lambda>m. AList.update key m (mpp_packets p))"
  using assms by (auto simp: Add_def Let_def mp_evict_room_id split: option.split)

lemma Add_keys:
  assumes "length (mpp_packets p) < mpp_maxItems p \<or> map_of (mpp_packets p) key \<noteq> None"
  shows "fst ` set (mpp_packets (snd (Add victim now key tot num data h p))) \<subseteq>
    insert key (fst ` set (mpp_packets p))"
proof -
  have "fst ` set ps' \<subseteq> insert key (fst ` set (mpp_packets p))"
    if "ps' \<in> {mpp_packets p, AList.delete key (mpp_packets p)} \<union> range (\<lambda>m. AList.update key m (mpp_packets p))"
    for ps'
    using that AList.dom_update [of key _ "mpp_packets p"] by (auto simp: AList.delete_eq)
  from this [OF Add_packets [OF assms]] show ?thesis .
qed

lemma Add_maxItems [simp]: "mpp_maxItems (snd (Add victim now key tot num data h p)) = mpp_maxItems p"
  by (simp add: Add_def Let_def split: option.split)

subsection \<open>Runs\<close>

text \<open>The fragments that arrive, for whatever packets, with the time of each, and what each call returns.\<close>

record fragment =
  fr_now :: int
  fr_pkid :: i64
  fr_total :: i16
  fr_num :: i16
  fr_data :: bytes
  fr_objHash :: i32

fun mp_run :: "((i64 \<times> multiPacket) list \<Rightarrow> i64) \<Rightarrow> fragment list \<Rightarrow> MultiPacketProcessor \<Rightarrow>
    bytes option res list \<times> MultiPacketProcessor" where
  "mp_run victim [] p = ([], p)"
| "mp_run victim (e # es) p =
     (let (r, p1) = Add victim (fr_now e) (fr_pkid e) (fr_total e) (fr_num e) (fr_data e) (fr_objHash e) p;
          (rs, p2) = mp_run victim es p1
      in (r # rs, p2))"

definition frag_of :: "i64 \<Rightarrow> bytes list \<Rightarrow> i32 \<Rightarrow> fragment \<Rightarrow> nat \<Rightarrow> bool" where
  "frag_of key frags h e i \<longleftrightarrow> i < length frags \<and> fr_pkid e = key \<and> fr_total e = word_of_nat (length frags) \<and>
     fr_num e = word_of_nat i \<and> fr_data e = frags ! i \<and> fr_objHash e = h"

text \<open>The indices of the fragments of one packet in a list of arrivals.\<close>

definition arrived :: "i64 \<Rightarrow> fragment list \<Rightarrow> nat set" where
  "arrived key es = {nat (sint (fr_num e)) | e. e \<in> set es \<and> fr_pkid e = key}"

lemma arrived_Cons:
  "arrived key (e # es) = (if fr_pkid e = key then insert (nat (sint (fr_num e))) (arrived key es) else arrived key es)"
  by (auto simp: arrived_def)

text \<open>No overflow: all the keys in play fit.\<close>

definition roomy :: "MultiPacketProcessor \<Rightarrow> fragment list \<Rightarrow> bool" where
  "roomy p es \<longleftrightarrow> card (fst ` set (mpp_packets p) \<union> fr_pkid ` set es) \<le> mpp_maxItems p"

lemma roomy_first:
  assumes "roomy p (e # es)" and "distinct (map fst (mpp_packets p))"
  shows "length (mpp_packets p) < mpp_maxItems p \<or> map_of (mpp_packets p) (fr_pkid e) \<noteq> None"
proof (cases "fr_pkid e \<in> fst ` set (mpp_packets p)")
  case True
  then show ?thesis by (auto simp: map_of_eq_None_iff)
next
  case False
  have "length (mpp_packets p) = card (fst ` set (mpp_packets p))"
    using assms(2) by (metis distinct_card length_map list.set_map)
  also have "\<dots> < card (fst ` set (mpp_packets p) \<union> fr_pkid ` set (e # es))"
    using False by (intro psubset_card_mono) auto
  finally show ?thesis using assms(1) by (simp add: roomy_def)
qed

lemma roomy_step:
  assumes "roomy p (e # es)" and "distinct (map fst (mpp_packets p))"
  shows "roomy (snd (Add victim (fr_now e) (fr_pkid e) t n b h p)) es"
proof -
  let ?q = "snd (Add victim (fr_now e) (fr_pkid e) t n b h p)"
  have "fst ` set (mpp_packets ?q) \<union> fr_pkid ` set es \<subseteq> fst ` set (mpp_packets p) \<union> fr_pkid ` set (e # es)"
    using Add_keys [OF roomy_first [OF assms], of victim "fr_now e" t n b h] by auto
  then have "card (fst ` set (mpp_packets ?q) \<union> fr_pkid ` set es) \<le>
      card (fst ` set (mpp_packets p) \<union> fr_pkid ` set (e # es))"
    by (intro card_mono) auto
  with assms(1) show ?thesis by (simp add: roomy_def)
qed

lemma Add_distinct:
  "distinct (map fst (mpp_packets p)) \<Longrightarrow> distinct (map fst (mpp_packets (snd (Add victim now key t n b h p))))"
  by (auto simp: Add_def Let_def mp_evict_def AList.distinct_delete AList.distinct_update split: option.split)

text \<open>
  As long as some fragment is missing every call for the packet returns nothing, and the processor
  has exactly what arrived, whatever arrives in between for other packets.
\<close>

lemma mp_run_waits:
  assumes "ok_frags frags"
    and "\<And>e. e \<in> set es \<Longrightarrow> fr_pkid e = key \<Longrightarrow> \<exists>i. frag_of key frags h e i"
    and "roomy p es" and "distinct (map fst (mpp_packets p))"
    and "awaits p key frags h S" and "S \<union> arrived key es \<subset> {..<length frags}"
  shows "awaits (snd (mp_run victim es p)) key frags h (S \<union> arrived key es) \<and>
    (\<forall>j < length es. fr_pkid (es ! j) = key \<longrightarrow> fst (mp_run victim es p) ! j = Ok None)"
  using assms(2-6)
proof (induction es arbitrary: p S)
  case Nil
  then show ?case by (simp add: arrived_def)
next
  case (Cons e es)
  let ?add = "Add victim (fr_now e) (fr_pkid e) (fr_total e) (fr_num e) (fr_data e) (fr_objHash e) p"
  let ?q = "snd ?add"
  note room = roomy_first [OF Cons.prems(2,3)]
  have next_q: "roomy ?q es" "distinct (map fst (mpp_packets ?q))"
    using roomy_step [OF Cons.prems(2,3)] Add_distinct [OF Cons.prems(3)] by blast+
  have split: "mp_run victim (e # es) p = (fst ?add # fst (mp_run victim es ?q), snd (mp_run victim es ?q))"
    by (simp add: case_prod_beta Let_def)
  show ?case
  proof (cases "fr_pkid e = key")
    case True
    then obtain i where i: "frag_of key frags h e i" using Cons.prems(1) [of e] by auto
    have arr: "arrived key (e # es) = insert i (arrived key es)"
      using i True sint_index [OF assms(1), of i] by (simp add: arrived_Cons frag_of_def)
    then have miss: "insert i S \<union> arrived key es \<subset> {..<length frags}"
      using Cons.prems(5) by auto
    then have ne: "insert i S \<noteq> {..<length frags}" "insert i S \<subset> {..<length frags}" by auto
    obtain now' where add: "?add = (Ok None, p\<lparr>mpp_packets :=
        AList.update key (partial frags h now' (insert i S)) (mpp_packets p)\<rparr>)"
      using Add_awaited [OF assms(1) _ Cons.prems(4), of i victim "fr_now e"] room True i ne
      by (auto simp: frag_of_def)
    then have "awaits ?q key frags h (insert i S)"
      using ne by (auto simp: awaits_def AList.update_conv')
    from Cons.IH [OF _ next_q this miss] Cons.prems(1) add arr True show ?thesis
      unfolding split by (auto simp: nth_Cons split: nat.splits)
  next
    case False
    then have "awaits ?q key frags h S"
      using Add_other [OF not_sym [OF False] room] Cons.prems(4) by (simp add: awaits_def)
    moreover have "arrived key (e # es) = arrived key es" using False by (simp add: arrived_Cons)
    ultimately show ?thesis
      using Cons.IH [OF _ next_q, of S] Cons.prems(1,5) False
      unfolding split by (auto simp: nth_Cons split: nat.splits)
  qed
qed

lemma mp_run_append: "mp_run victim (es @ fs) p =
    (fst (mp_run victim es p) @ fst (mp_run victim fs (snd (mp_run victim es p))),
     snd (mp_run victim fs (snd (mp_run victim es p))))"
  by (induction es arbitrary: p) (simp_all add: case_prod_beta Let_def)

lemma arrived_append: "arrived key (es @ fs) = arrived key es \<union> arrived key fs"
  by (auto simp: arrived_def)

lemma length_mp_run [simp]: "length (fst (mp_run victim es p)) = length es"
  by (induction es arbitrary: p) (simp_all add: case_prod_beta Let_def)

lemma mp_run_inv: "mpp_inv p \<Longrightarrow> picks victim \<Longrightarrow> mpp_inv (snd (mp_run victim es p))"
  by (induction es arbitrary: p) (simp_all add: case_prod_beta Let_def Add_inv)

lemma mp_run_roomy:
  "roomy p (es @ fs) \<Longrightarrow> distinct (map fst (mpp_packets p)) \<Longrightarrow>
   roomy (snd (mp_run victim es p)) fs \<and> distinct (map fst (mpp_packets (snd (mp_run victim es p))))"
  by (induction es arbitrary: p)
    (simp_all add: case_prod_beta Let_def roomy_step Add_distinct)

lemma roomy_subset: "roomy p es \<Longrightarrow> set fs \<subseteq> set es \<Longrightarrow> roomy p fs"
proof -
  assume r: "roomy p es" and s: "set fs \<subseteq> set es"
  have "card (fst ` set (mpp_packets p) \<union> fr_pkid ` set fs) \<le> card (fst ` set (mpp_packets p) \<union> fr_pkid ` set es)"
    using s by (intro card_mono) auto
  with r show ?thesis by (simp add: roomy_def)
qed

text \<open>
  The fragment that completes a packet makes \<open>Add\<close> return the whole of it, once, and the processor
  forgets the packet; before that every call for it returns nothing.
\<close>

lemma mp_run_reassembles:
  assumes "ok_frags frags" and "mpp_inv p" and "map_of (mpp_packets p) key = None"
    and ours: "\<And>e. e \<in> set (es @ [l]) \<Longrightarrow> fr_pkid e = key \<Longrightarrow> \<exists>i. frag_of key frags h e i"
    and "roomy p (es @ [l])" and last: "fr_pkid l = key"
    and missing: "arrived key es \<noteq> {..<length frags}"
    and complete: "arrived key (es @ [l]) = {..<length frags}"
  shows "fst (mp_run victim (es @ [l]) p) ! length es = Ok (Some (concat frags)) \<and>
    (\<forall>j < length es. fr_pkid (es ! j) = key \<longrightarrow> fst (mp_run victim (es @ [l]) p) ! j = Ok None) \<and>
    map_of (mpp_packets (snd (mp_run victim (es @ [l]) p))) key = None"
proof -
  have d: "distinct (map fst (mpp_packets p))" using assms(2) by (simp add: mpp_inv_def)
  have arr: "arrived key es \<subset> {..<length frags}"
    using missing complete by (auto simp: arrived_def)
  have w0: "awaits p key frags h {}" using assms(1,3) by (auto simp: awaits_def ok_frags_def)
  let ?q = "snd (mp_run victim es p)"
  have wait: "awaits ?q key frags h (arrived key es)"
    "\<forall>j < length es. fr_pkid (es ! j) = key \<longrightarrow> fst (mp_run victim es p) ! j = Ok None"
    using mp_run_waits [OF assms(1) _ roomy_subset [OF assms(5)] d w0, of es victim] ours arr by auto
  have q: "roomy ?q [l]" "distinct (map fst (mpp_packets ?q))"
    using mp_run_roomy [OF assms(5) d] by simp_all
  obtain i where i: "frag_of key frags h l i" using ours [of l] last by auto
  have "insert i (arrived key es) = arrived key (es @ [l])"
    using i sint_index [OF assms(1), of i]
    by (simp add: arrived_append arrived_Cons frag_of_def arrived_def [of _ "[]"])
  with complete have full: "insert i (arrived key es) = {..<length frags}" by simp
  have "Add victim (fr_now l) (fr_pkid l) (fr_total l) (fr_num l) (fr_data l) (fr_objHash l) ?q =
      (Ok (Some (concat frags)), ?q\<lparr>mpp_packets := AList.delete key (mpp_packets ?q)\<rparr>)"
    using Add_awaited [OF assms(1) _ wait(1), of i victim "fr_now l"] roomy_first [OF q] i full
    by (auto simp: frag_of_def)
  then show ?thesis using wait(2)
    by (simp add: mp_run_append nth_append AList.delete_conv')
qed

text \<open>Expiry only removes, and keeps what is still in time.\<close>

lemma mp_cleanup_keeps:
  assumes "mpp_inv p"
  shows "map_of (mpp_packets (mp_cleanup now p)) k =
    (case map_of (mpp_packets p) k of Some mp \<Rightarrow>
       if now - mp_created mp > mpp_expiry p then None else Some mp | None \<Rightarrow> None)"
proof -
  have "map_of (filter (\<lambda>(k, mp). \<not> (now - mp_created mp > mpp_expiry p)) ps) k =
    (case map_of ps k of Some mp \<Rightarrow>
       if now - mp_created mp > mpp_expiry p then None else Some mp | None \<Rightarrow> None)"
    if "distinct (map fst ps)" for ps
    using that by (induction ps) (auto split: option.split dest: map_of_SomeD, (metis fst_conv image_eqI)+)
  from this [of "mpp_packets p"] assms show ?thesis
    unfolding mp_cleanup_def mpp_inv_def by (simp del: not_less)
qed

end
