(* ===== verification/UdpProcessor.thy ===== *)
theory UdpProcessor
  imports MultiPacket
begin

text \<open>
  internal/netio/udp/processor.go and internal/core/dispatcher.go: what the server does with one UDP
  datagram. A frame yields the packs that are handed to the dispatcher, in order. A panic of a reader
  is recovered by \<open>process\<close>, after the packs dispatched before it; a fragment changes the state of the
  reassembly. Logging is left out.
\<close>

definition UDP_CAFE :: i32 where "UDP_CAFE = 0x43414645"
definition UDP_CAFE_N :: i32 where "UDP_CAFE_N = 0x4341464e"
definition UDP_CAFE_MTU :: i32 where "UDP_CAFE_MTU = 0x4341464d"
definition UDP_JAVA :: i32 where "UDP_JAVA = 0x4a415641"
definition UDP_JAVA_N :: i32 where "UDP_JAVA_N = 0x4a41564e"
definition UDP_JAVA_MTU :: i32 where "UDP_JAVA_MTU = 0x4a4d5455"

definition processCafe :: "din \<Rightarrow> pack list" where
  "processCafe d = (case fst (ReadPack d) of Ok pk \<Rightarrow> [pk] | Err e \<Rightarrow> [] | Panic q \<Rightarrow> [])"

text \<open>The loop of a multi-pack frame, with the number of rounds left.\<close>

fun cafeN_loop :: "nat \<Rightarrow> din \<Rightarrow> pack list" where
  "cafeN_loop 0 d = []"
| "cafeN_loop (Suc n) d = (case ReadPack d of
     (Ok pk, d') \<Rightarrow> pk # cafeN_loop n d'
   | (Err e, d') \<Rightarrow> []
   | (Panic q, d') \<Rightarrow> [])"

definition processCafeN :: "din \<Rightarrow> pack list" where
  "processCafeN d = (case ReadInt16 d of
     (Ok n, d') \<Rightarrow> cafeN_loop (nat (sint n)) d'
   | (Err e, d') \<Rightarrow> []
   | (Panic q, d') \<Rightarrow> [])"

text \<open>The header and the blob of a fragment.\<close>

definition read_fragment :: "int \<Rightarrow> fragment rd" where
  "read_fragment now = rd_bind ReadInt32 (\<lambda>objHash. rd_bind ReadInt64 (\<lambda>pkid.
     rd_bind ReadInt16 (\<lambda>tot. rd_bind ReadInt16 (\<lambda>num. rd_bind ReadBlob (\<lambda>data.
     rd_ret \<lparr>fr_now = now, fr_pkid = pkid, fr_total = tot, fr_num = num, fr_data = data,
             fr_objHash = objHash\<rparr>)))))"

definition processCafeMTU :: "((i64 \<times> multiPacket) list \<Rightarrow> i64) \<Rightarrow> int \<Rightarrow> din \<Rightarrow>
    MultiPacketProcessor \<Rightarrow> pack list \<times> MultiPacketProcessor" where
  "processCafeMTU victim now d p = (case fst (read_fragment now d) of
     Ok f \<Rightarrow>
       (case Add victim now (fr_pkid f) (fr_total f) (fr_num f) (fr_data f) (fr_objHash f) p of
          (Ok (Some done), p') \<Rightarrow> (processCafe (NewDataInputX done), p')
        | (Ok None, p') \<Rightarrow> ([], p')
        | (Err e, p') \<Rightarrow> ([], p')
        | (Panic q, p') \<Rightarrow> ([], p'))
   | Err e \<Rightarrow> ([], p)
   | Panic q \<Rightarrow> ([], p))"

definition udp_process :: "((i64 \<times> multiPacket) list \<Rightarrow> i64) \<Rightarrow> int \<Rightarrow> bytes \<Rightarrow>
    MultiPacketProcessor \<Rightarrow> pack list \<times> MultiPacketProcessor" where
  "udp_process victim now data p = (case ReadInt32 (NewDataInputX data) of
     (Ok cafe, d) \<Rightarrow>
       if cafe = UDP_CAFE \<or> cafe = UDP_JAVA then (processCafe d, p)
       else if cafe = UDP_CAFE_N \<or> cafe = UDP_JAVA_N then (processCafeN d, p)
       else if cafe = UDP_CAFE_MTU \<or> cafe = UDP_JAVA_MTU then processCafeMTU victim now d p
       else ([], p)
   | (Err e, d) \<Rightarrow> ([], p)
   | (Panic q, d) \<Rightarrow> ([], p))"

text \<open>The datagrams that arrive, each with its time, one after the other.\<close>

fun udp_run :: "((i64 \<times> multiPacket) list \<Rightarrow> i64) \<Rightarrow> (int \<times> bytes) list \<Rightarrow> MultiPacketProcessor \<Rightarrow>
    pack list list \<times> MultiPacketProcessor" where
  "udp_run victim [] p = ([], p)"
| "udp_run victim ((now, data) # ds) p =
     (let (ps, p1) = udp_process victim now data p; (rest, p2) = udp_run victim ds p1 in (ps # rest, p2))"

subsection \<open>The dispatcher\<close>

text \<open>Handlers by pack type; a handler is a change of the state \<open>'s\<close> behind it.\<close>

record 's Dispatcher =
  disp_handlers :: "(byte \<times> (pack \<Rightarrow> 's \<Rightarrow> 's)) list"

definition NewDispatcher :: "'s Dispatcher" where
  "NewDispatcher = \<lparr>disp_handlers = []\<rparr>"

definition Register :: "byte \<Rightarrow> (pack \<Rightarrow> 's \<Rightarrow> 's) \<Rightarrow> 's Dispatcher \<Rightarrow> 's Dispatcher" where
  "Register packType handler d = d\<lparr>disp_handlers := AList.update packType handler (disp_handlers d)\<rparr>"

definition Dispatch :: "'s Dispatcher \<Rightarrow> pack \<Rightarrow> 's \<Rightarrow> 's" where
  "Dispatch d p s = (case map_of (disp_handlers d) (PackType p) of Some h \<Rightarrow> h p s | None \<Rightarrow> s)"

lemma Dispatch_Register:
  "Dispatch (Register t h d) p s = (if PackType p = t then h p s else Dispatch d p s)"
  by (simp add: Dispatch_def Register_def AList.update_conv')

subsection \<open>What a frame yields\<close>

text \<open>The frames an agent sends: one pack, several packs, one fragment of a pack.\<close>

definition frame_cafe :: "pack \<Rightarrow> bytes" where
  "frame_cafe p = ToByteArray ((writes [WriteInt32 UDP_CAFE, WritePack p]) NewDataOutputX)"

definition frame_cafe_n :: "pack list \<Rightarrow> bytes \<Rightarrow> bytes" where
  "frame_cafe_n ps junk = ToByteArray ((writes [WriteInt32 UDP_CAFE_N, WriteInt16 (word_of_nat (length ps)),
     fold WritePack ps, Write junk]) NewDataOutputX)"

definition fragment_Write :: "fragment \<Rightarrow> dout \<Rightarrow> dout" where
  "fragment_Write f = writes [WriteInt32 (fr_objHash f), WriteInt64 (fr_pkid f),
     WriteInt16 (fr_total f), WriteInt16 (fr_num f), WriteBlob (fr_data f)]"

definition frame_fragment :: "fragment \<Rightarrow> bytes" where
  "frame_fragment f = ToByteArray ((writes [WriteInt32 UDP_CAFE_MTU, fragment_Write f]) NewDataOutputX)"

lemmas udp_magic_defs = UDP_CAFE_def UDP_CAFE_N_def UDP_CAFE_MTU_def UDP_JAVA_def UDP_JAVA_N_def UDP_JAVA_MTU_def

lemma udp_process_magic:
  "ReadInt32 (NewDataInputX data) = (Ok UDP_CAFE, d) \<Longrightarrow> udp_process victim now data p = (processCafe d, p)"
  "ReadInt32 (NewDataInputX data) = (Ok UDP_CAFE_N, d) \<Longrightarrow> udp_process victim now data p = (processCafeN d, p)"
  "ReadInt32 (NewDataInputX data) = (Ok UDP_CAFE_MTU, d) \<Longrightarrow>
     udp_process victim now data p = processCafeMTU victim now d p"
  by (simp_all add: udp_process_def udp_magic_defs)

lemma ReadInt32_frame:
  assumes "emits w bs"
  shows "ReadInt32 (NewDataInputX (ToByteArray ((fcomp (WriteInt32 m) w) NewDataOutputX))) =
    (Ok m, advance 4 (NewDataInputX (PutUint32 m @ bs)))"
proof -
  have "consumes ReadInt32 (PutUint32 m) m"
    by (rule fixed_reader_consumes [OF fixed_reader_ReadInt32]) simp_all
  then show ?thesis
    using emits_ToByteArray [OF emits_seq [OF emits_WriteInt32 assms], of m]
      consumesD [of ReadInt32 "PutUint32 m" m "NewDataInputX (PutUint32 m @ bs)" bs] by simp
qed

lemma pending_frame: "pending (advance 4 (NewDataInputX (PutUint32 m @ bs))) = bs"
  by simp

lemma udp_cafe:
  assumes "ok_pack pk"
  shows "udp_process victim now (frame_cafe pk) p = ([norm_pack pk], p)"
proof -
  obtain bs where bs: "emits (WritePack pk) bs" "consumes ReadPack bs (norm_pack pk)"
    using wire_pack [OF assms] by (rule wireE)
  then show ?thesis
    by (simp add: udp_process_magic(1) [OF ReadInt32_frame [OF bs(1)]] frame_cafe_def processCafe_def
        consumesD [OF bs(2), where rest = "[]"] del: fcomp_apply)
qed

lemma cafeN_loop_packs:
  assumes "\<And>pk. pk \<in> set ps \<Longrightarrow> ok_pack pk" and "pending d = bs @ rest" and "emits (fold WritePack ps) bs"
    and "n \<ge> length ps"
  shows "\<exists>d'. pending d' = rest \<and> cafeN_loop n d = map norm_pack ps @ cafeN_loop (n - length ps) d'"
  using assms
proof (induction ps arbitrary: d bs n)
  case Nil
  have "emits (fold WritePack []) []" using emits_fold [of "[]" WritePack] by simp
  with Nil have "bs = []" by (blast dest: emits_unique)
  with Nil show ?case by auto
next
  case (Cons pk ps)
  obtain b where b: "emits (WritePack pk) b" "consumes ReadPack b (norm_pack pk)"
    using wire_pack [of pk] Cons.prems(1) by (auto elim: wireE)
  obtain c where c: "emits (fold WritePack ps) c"
    using pc.wire_list [of ps] Cons.prems(1) by (auto elim: wireE)
  have "fold WritePack (pk # ps) = fcomp (WritePack pk) (fold WritePack ps)" by (simp add: fun_eq_iff)
  with emits_seq [OF b(1) c] Cons.prems(3) have bs: "bs = b @ c" by (metis emits_unique)
  obtain m where n: "n = Suc m" using Cons.prems(4) by (cases n) auto
  have "ReadPack d = (Ok (norm_pack pk), advance (length b) d)"
    by (rule consumesD [OF b(2), of _ "c @ rest"]) (simp add: Cons.prems(2) bs)
  moreover have "\<exists>d'. pending d' = rest \<and>
      cafeN_loop m (advance (length b) d) = map norm_pack ps @ cafeN_loop (m - length ps) d'"
    using Cons.prems bs n by (intro Cons.IH [of _ c] c) auto
  ultimately show ?case by (auto simp: n)
qed

text \<open>A multi-pack frame yields its packs in order; what follows them is not looked at.\<close>

lemma udp_cafe_n:
  assumes "\<And>pk. pk \<in> set ps \<Longrightarrow> ok_pack pk" and "length ps < 2 ^ 15"
  shows "udp_process victim now (frame_cafe_n ps junk) p = (map norm_pack ps, p)"
proof -
  let ?n = "word_of_nat (length ps) :: i16"
  obtain bs where bs: "emits (fold WritePack ps) bs"
    using pc.wire_list [of ps] assms(1) by (auto elim: wireE)
  have e: "emits (fcomp (WriteInt16 ?n) (fcomp (fold WritePack ps) (Write junk))) (PutUint16 ?n @ (bs @ junk))"
    by (intro emits_seq emits_WriteInt16 bs emits_Write)
  have n: "sint ?n = int (length ps)" using assms(2) by (intro sint_word_of_nat) simp
  let ?d = "advance 4 (NewDataInputX (PutUint32 UDP_CAFE_N @ PutUint16 ?n @ bs @ junk))"
  have "consumes ReadInt16 (PutUint16 ?n) ?n"
    by (rule fixed_reader_consumes [OF fixed_reader_ReadInt16]) simp_all
  then have "ReadInt16 ?d = (Ok ?n, advance 2 ?d)"
    using consumesD [of ReadInt16 "PutUint16 ?n" ?n ?d "bs @ junk"] by simp
  moreover have "cafeN_loop (length ps) (advance 2 ?d) = map norm_pack ps"
    using cafeN_loop_packs [OF assms(1) _ bs, of "advance 2 ?d" junk "length ps"] by auto
  ultimately show ?thesis
    by (simp add: udp_process_magic(2) [OF ReadInt32_frame [OF e]] frame_cafe_n_def processCafeN_def n
        del: fcomp_apply)
qed

text \<open>A fragment frame is one call of \<open>Add\<close>.\<close>

lemma wire_fragment:
  "ok_blob (fr_data f) \<Longrightarrow> wire (fragment_Write f) (read_fragment (fr_now f)) f"
  unfolding fragment_Write_def read_fragment_def writes.simps
  by (rule wire_cong, (rule wire_seq wire_last wire_intro | assumption)+) simp

lemma udp_fragment:
  assumes "ok_blob (fr_data f)"
  shows "udp_process victim (fr_now f) (frame_fragment f) p =
    (case Add victim (fr_now f) (fr_pkid f) (fr_total f) (fr_num f) (fr_data f) (fr_objHash f) p of
       (r, p') \<Rightarrow> ((case r of Ok (Some done) \<Rightarrow> processCafe (NewDataInputX done)
                    | Ok None \<Rightarrow> [] | Err e \<Rightarrow> [] | Panic q \<Rightarrow> []), p'))"
proof -
  obtain bs where bs: "emits (fragment_Write f) bs" "consumes (read_fragment (fr_now f)) bs f"
    using wire_fragment [OF assms] by (rule wireE)
  have "fst (read_fragment (fr_now f) (advance 4 (NewDataInputX (PutUint32 UDP_CAFE_MTU @ bs)))) = Ok f"
    using consumesD [OF bs(2), of _ "[]"] by simp
  then show ?thesis
    by (simp add: udp_process_magic(3) [OF ReadInt32_frame [OF bs(1)]] frame_fragment_def processCafeMTU_def
        split: prod.split res.split option.split del: fcomp_apply)
qed

lemma udp_run_fragments:
  assumes "\<And>f. f \<in> set fs \<Longrightarrow> ok_blob (fr_data f)"
  shows "udp_run victim (map (\<lambda>f. (fr_now f, frame_fragment f)) fs) p =
    (map (\<lambda>r. case r of Ok (Some done) \<Rightarrow> processCafe (NewDataInputX done)
                | Ok None \<Rightarrow> [] | Err e \<Rightarrow> [] | Panic q \<Rightarrow> []) (fst (mp_run victim fs p)),
     snd (mp_run victim fs p))"
  using assms by (induction fs arbitrary: p) (simp_all add: udp_fragment case_prod_beta Let_def)

text \<open>
  A pack that was split: whatever the order and the repetitions in which its fragments arrive, and
  whatever comes for other packs in between, it is dispatched by the frame that completes it and by no
  other.
\<close>

lemma udp_reassembles:
  assumes "ok_pack pk" and "concat frags = ToByteArray (WritePack pk NewDataOutputX)"
    and "ok_frags frags" and "mpp_inv p" and "map_of (mpp_packets p) key = None"
    and "\<And>e. e \<in> set (es @ [l]) \<Longrightarrow> fr_pkid e = key \<Longrightarrow> \<exists>i. frag_of key frags h e i"
    and "roomy p (es @ [l])" and "fr_pkid l = key"
    and "arrived key es \<noteq> {..<length frags}" and "arrived key (es @ [l]) = {..<length frags}"
    and "\<And>f. f \<in> set (es @ [l]) \<Longrightarrow> ok_blob (fr_data f)"
  shows "fst (udp_run victim (map (\<lambda>f. (fr_now f, frame_fragment f)) (es @ [l])) p) ! length es = [norm_pack pk] \<and>
    (\<forall>j < length es. fr_pkid (es ! j) = key \<longrightarrow>
       fst (udp_run victim (map (\<lambda>f. (fr_now f, frame_fragment f)) (es @ [l])) p) ! j = [])"
proof -
  have "processCafe (NewDataInputX (concat frags)) = [norm_pack pk]"
    using pc.round_trip [OF assms(1)] by (simp add: processCafe_def assms(2))
  with mp_run_reassembles [OF assms(3-10), of victim] udp_run_fragments [OF assms(11), of "es @ [l]" victim p]
  show ?thesis by (simp add: nth_append)
qed

text \<open>Whatever arrives, the reassembly keeps its invariant.\<close>

lemma udp_process_inv:
  assumes "mpp_inv p" and "picks victim"
  shows "mpp_inv (snd (udp_process victim now data p))"
  using assms Add_inv [OF assms]
  by (auto simp: udp_process_def processCafeMTU_def split: prod.split res.split option.split)
     (metis snd_conv)+

lemma udp_run_inv: "mpp_inv p \<Longrightarrow> picks victim \<Longrightarrow> mpp_inv (snd (udp_run victim ds p))"
  by (induction ds arbitrary: p) (auto simp: case_prod_beta Let_def udp_process_inv)

end
