(* ===== verification/HashUtil.thy ===== *)
theory HashUtil
  imports Prelude
begin

unbundle bit_operations_syntax

text \<open>
  internal/util/hash.go and hexa32.go: the table-driven CRC-32 that hashes keys and texts, and the
  base-32 rendering of a hash. The reference definition of CRC-32 works bit by bit with the reflected
  polynomial; the table has its values for the 256 bytes, and the table-driven loop computes it.
\<close>

definition crc32Table :: "i32 list" where
  "crc32Table =
    [0x00000000, 0x77073096, 0xee0e612c, 0x990951ba, 0x076dc419, 0x706af48f,
     0xe963a535, 0x9e6495a3, 0x0edb8832, 0x79dcb8a4, 0xe0d5e91e, 0x97d2d988,
     0x09b64c2b, 0x7eb17cbd, 0xe7b82d07, 0x90bf1d91, 0x1db71064, 0x6ab020f2,
     0xf3b97148, 0x84be41de, 0x1adad47d, 0x6ddde4eb, 0xf4d4b551, 0x83d385c7,
     0x136c9856, 0x646ba8c0, 0xfd62f97a, 0x8a65c9ec, 0x14015c4f, 0x63066cd9,
     0xfa0f3d63, 0x8d080df5, 0x3b6e20c8, 0x4c69105e, 0xd56041e4, 0xa2677172,
     0x3c03e4d1, 0x4b04d447, 0xd20d85fd, 0xa50ab56b, 0x35b5a8fa, 0x42b2986c,
     0xdbbbc9d6, 0xacbcf940, 0x32d86ce3, 0x45df5c75, 0xdcd60dcf, 0xabd13d59,
     0x26d930ac, 0x51de003a, 0xc8d75180, 0xbfd06116, 0x21b4f4b5, 0x56b3c423,
     0xcfba9599, 0xb8bda50f, 0x2802b89e, 0x5f058808, 0xc60cd9b2, 0xb10be924,
     0x2f6f7c87, 0x58684c11, 0xc1611dab, 0xb6662d3d, 0x76dc4190, 0x01db7106,
     0x98d220bc, 0xefd5102a, 0x71b18589, 0x06b6b51f, 0x9fbfe4a5, 0xe8b8d433,
     0x7807c9a2, 0x0f00f934, 0x9609a88e, 0xe10e9818, 0x7f6a0dbb, 0x086d3d2d,
     0x91646c97, 0xe6635c01, 0x6b6b51f4, 0x1c6c6162, 0x856530d8, 0xf262004e,
     0x6c0695ed, 0x1b01a57b, 0x8208f4c1, 0xf50fc457, 0x65b0d9c6, 0x12b7e950,
     0x8bbeb8ea, 0xfcb9887c, 0x62dd1ddf, 0x15da2d49, 0x8cd37cf3, 0xfbd44c65,
     0x4db26158, 0x3ab551ce, 0xa3bc0074, 0xd4bb30e2, 0x4adfa541, 0x3dd895d7,
     0xa4d1c46d, 0xd3d6f4fb, 0x4369e96a, 0x346ed9fc, 0xad678846, 0xda60b8d0,
     0x44042d73, 0x33031de5, 0xaa0a4c5f, 0xdd0d7cc9, 0x5005713c, 0x270241aa,
     0xbe0b1010, 0xc90c2086, 0x5768b525, 0x206f85b3, 0xb966d409, 0xce61e49f,
     0x5edef90e, 0x29d9c998, 0xb0d09822, 0xc7d7a8b4, 0x59b33d17, 0x2eb40d81,
     0xb7bd5c3b, 0xc0ba6cad, 0xedb88320, 0x9abfb3b6, 0x03b6e20c, 0x74b1d29a,
     0xead54739, 0x9dd277af, 0x04db2615, 0x73dc1683, 0xe3630b12, 0x94643b84,
     0x0d6d6a3e, 0x7a6a5aa8, 0xe40ecf0b, 0x9309ff9d, 0x0a00ae27, 0x7d079eb1,
     0xf00f9344, 0x8708a3d2, 0x1e01f268, 0x6906c2fe, 0xf762575d, 0x806567cb,
     0x196c3671, 0x6e6b06e7, 0xfed41b76, 0x89d32be0, 0x10da7a5a, 0x67dd4acc,
     0xf9b9df6f, 0x8ebeeff9, 0x17b7be43, 0x60b08ed5, 0xd6d6a3e8, 0xa1d1937e,
     0x38d8c2c4, 0x4fdff252, 0xd1bb67f1, 0xa6bc5767, 0x3fb506dd, 0x48b2364b,
     0xd80d2bda, 0xaf0a1b4c, 0x36034af6, 0x41047a60, 0xdf60efc3, 0xa867df55,
     0x316e8eef, 0x4669be79, 0xcb61b38c, 0xbc66831a, 0x256fd2a0, 0x5268e236,
     0xcc0c7795, 0xbb0b4703, 0x220216b9, 0x5505262f, 0xc5ba3bbe, 0xb2bd0b28,
     0x2bb45a92, 0x5cb36a04, 0xc2d7ffa7, 0xb5d0cf31, 0x2cd99e8b, 0x5bdeae1d,
     0x9b64c2b0, 0xec63f226, 0x756aa39c, 0x026d930a, 0x9c0906a9, 0xeb0e363f,
     0x72076785, 0x05005713, 0x95bf4a82, 0xe2b87a14, 0x7bb12bae, 0x0cb61b38,
     0x92d28e9b, 0xe5d5be0d, 0x7cdcefb7, 0x0bdbdf21, 0x86d3d2d4, 0xf1d4e242,
     0x68ddb3f8, 0x1fda836e, 0x81be16cd, 0xf6b9265b, 0x6fb077e1, 0x18b74777,
     0x88085ae6, 0xff0f6a70, 0x66063bca, 0x11010b5c, 0x8f659eff, 0xf862ae69,
     0x616bffd3, 0x166ccf45, 0xa00ae278, 0xd70dd2ee, 0x4e048354, 0x3903b3c2,
     0xa7672661, 0xd06016f7, 0x4969474d, 0x3e6e77db, 0xaed16a4a, 0xd9d65adc,
     0x40df0b66, 0x37d83bf0, 0xa9bcae53, 0xdebb9ec5, 0x47b2cf7f, 0x30b5ffe9,
     0xbdbdf21c, 0xcabac28a, 0x53b39330, 0x24b4a3a6, 0xbad03605, 0xcdd70693,
     0x54de5729, 0x23d967bf, 0xb3667a2e, 0xc4614ab8, 0x5d681b02, 0x2a6f2b94,
     0xb40bbe37, 0xc30c8ea1, 0x5a05df1b, 0x2d02ef8d]"

definition crc_step :: "i32 \<Rightarrow> byte \<Rightarrow> i32" where
  "crc_step crc b = drop_bit 8 crc XOR crc32Table ! unat ((crc XOR ucast b) AND 0xff)"

definition HashBytes :: "bytes \<Rightarrow> i32" where
  "HashBytes bs = fold (\<lambda>b crc. crc_step crc b) bs 0xffffffff XOR 0xffffffff"

definition HashString :: "string \<Rightarrow> i32" where
  "HashString s = HashBytes (bytes_of_string s)"

subsection \<open>The bit by bit reference\<close>

definition crc_poly :: i32 where
  "crc_poly = 0xedb88320"

definition crc_bit :: "i32 \<Rightarrow> i32" where
  "crc_bit c = (if bit c 0 then drop_bit 1 c XOR crc_poly else drop_bit 1 c)"

definition crc_byte :: "i32 \<Rightarrow> i32" where
  "crc_byte c = crc_bit (crc_bit (crc_bit (crc_bit (crc_bit (crc_bit (crc_bit (crc_bit c)))))))"

definition crc32 :: "bytes \<Rightarrow> i32" where
  "crc32 bs = NOT (fold (\<lambda>b c. crc_byte (c XOR ucast b)) bs (NOT 0))"

lemma crc_bit_xor: "crc_bit (x XOR y) = crc_bit x XOR crc_bit y"
  by (rule bit_word_eqI) (auto simp: crc_bit_def bit_xor_iff bit_drop_bit_eq)

lemma crc_byte_xor: "crc_byte (x XOR y) = crc_byte x XOR crc_byte y"
  by (simp add: crc_byte_def crc_bit_xor)

lemma crc_byte_high:
  assumes "take_bit 8 x = 0"
  shows "crc_byte x = drop_bit 8 x"
proof -
  have low: "\<not> bit x n" if "n < 8" for n
    using arg_cong [OF assms, of "\<lambda>w. bit w n"] that by (simp add: bit_take_bit_iff)
  then have step: "crc_bit (drop_bit n x) = drop_bit (Suc n) x" if "n < 8" for n
    using that by (simp add: crc_bit_def bit_drop_bit_eq)
  show ?thesis
    using step [of 0] step [of 1] step [of 2] step [of 3] step [of 4] step [of 5] step [of 6] step [of 7]
    by (simp add: crc_byte_def eval_nat_numeral)
qed

text \<open>The table doubles: its second half is its first half with the entry of the next bit.\<close>

definition crc_double :: "i32 \<Rightarrow> i32 list \<Rightarrow> i32 list" where
  "crc_double b t = t @ map (\<lambda>x. x XOR b) t"

lemma crc_double_bytes:
  assumes "k < 32" and "t = map (\<lambda>i. crc_byte (word_of_nat i)) [0..<2 ^ k]" and "b = crc_byte (2 ^ k)"
  shows "crc_double b t = map (\<lambda>i. crc_byte (word_of_nat i)) [0..<2 ^ Suc k]"
proof -
  have "crc_byte (word_of_nat (2 ^ k + i)) = crc_byte (word_of_nat i) XOR b" if "i < 2 ^ k" for i
  proof -
    have "word_of_nat i AND (2 ^ k :: i32) = 0"
      using bit_take_bit_iff [of k i k] take_bit_nat_eq_self [OF that]
      by (intro bit_word_eqI) (auto simp: bit_and_iff bit_exp_iff bit_of_nat_iff)
    then have "(word_of_nat (2 ^ k + i) :: i32) = word_of_nat i XOR 2 ^ k"
      by (simp add: disjunctive_xor_eq_or disjunctive_add_eq_or add.commute)
    with assms(3) show ?thesis by (simp add: crc_byte_xor)
  qed
  then have "map (\<lambda>i. crc_byte (word_of_nat (i + 2 ^ k))) [0..<2 ^ k] = map (\<lambda>x. x XOR b) t"
    by (simp add: assms(2) add.commute)
  moreover have "[0..<2 ^ Suc k] = [0..<2 ^ k] @ map (\<lambda>i. i + 2 ^ k) [0..<2 ^ k]"
    using upt_add_eq_append [of 0 "2 ^ k" "2 ^ k"] map_add_upt [of "2 ^ k" "2 ^ k"] by (simp add: mult_2)
  ultimately show ?thesis by (simp add: crc_double_def assms(2) comp_def)
qed

lemma crc_basis:
  "crc_byte 1 = 0x77073096" "crc_byte 2 = 0xee0e612c" "crc_byte 4 = 0x076dc419" "crc_byte 8 = 0x0edb8832"
  "crc_byte 16 = 0x1db71064" "crc_byte 32 = 0x3b6e20c8" "crc_byte 64 = 0x76dc4190" "crc_byte 128 = 0xedb88320"
  by (simp_all add: crc_byte_def crc_bit_def crc_poly_def)

lemma crc32Table_doubled:
  "crc32Table = fold crc_double [0x77073096, 0xee0e612c, 0x076dc419, 0x0edb8832, 0x1db71064, 0x3b6e20c8,
     0x76dc4190, 0xedb88320] [0]"
  by (simp add: crc32Table_def crc_double_def)

lemma crc32Table_bytes: "crc32Table = map (\<lambda>i. crc_byte (word_of_nat i)) [0..<256]"
proof -
  let ?T = "\<lambda>k. map (\<lambda>i. crc_byte (word_of_nat i)) [0..<2 ^ k]"
  have "crc_byte 0 = 0" by (simp add: crc_byte_def crc_bit_def)
  then have "[0] = ?T 0" by simp
  then have "fold crc_double [0x77073096, 0xee0e612c, 0x076dc419, 0x0edb8832, 0x1db71064, 0x3b6e20c8,
     0x76dc4190, 0xedb88320] [0] = ?T 8"
    using crc_double_bytes [of 0 "?T 0"] crc_double_bytes [of 1 "?T 1"] crc_double_bytes [of 2 "?T 2"]
      crc_double_bytes [of 3 "?T 3"] crc_double_bytes [of 4 "?T 4"] crc_double_bytes [of 5 "?T 5"]
      crc_double_bytes [of 6 "?T 6"] crc_double_bytes [of 7 "?T 7"]
    by (simp add: crc_basis numeral_eq_Suc del: upt_Suc)
  then show ?thesis by (simp add: crc32Table_doubled)
qed

lemma crc32Table_nth: "i < 256 \<Longrightarrow> crc32Table ! i = crc_byte (word_of_nat i)"
  by (simp add: crc32Table_bytes)

lemma crc_step_byte: "crc_step c b = crc_byte (c XOR ucast b)"
proof -
  let ?x = "c XOR ucast b :: i32"
  let ?lo = "take_bit 8 ?x" and ?hi = "?x XOR take_bit 8 ?x"
  have mask: "?x AND 0xff = ?lo" by (simp add: take_bit_eq_mask mask_eq_exp_minus_1)
  have "unat ?lo = take_bit 8 (unat ?x)" by (simp only: unsigned_take_bit_eq)
  then have "unat ?lo < 256" using take_bit_nat_less_exp [of 8 "unat ?x"] by simp
  then have tab: "crc32Table ! unat ?lo = crc_byte ?lo"
    by (simp add: crc32Table_nth)
  have hi0: "take_bit 8 ?hi = 0" by (simp add: take_bit_xor)
  have "\<not> bit b (8 + n)" for n using bit_imp_le_length [of b "8 + n"] by auto
  then have "drop_bit 8 ?hi = drop_bit 8 c"
    by (intro bit_word_eqI) (auto simp: bit_simps)
  then have "crc_byte ?hi = drop_bit 8 c" using crc_byte_high [OF hi0] by simp
  moreover have "?x = ?hi XOR ?lo" by (simp add: xor.assoc)
  ultimately have "crc_byte ?x = drop_bit 8 c XOR crc_byte ?lo" by (metis crc_byte_xor)
  then show ?thesis unfolding crc_step_def mask tab by simp
qed

lemma HashBytes_crc32: "HashBytes bs = crc32 bs"
proof -
  have "(0xffffffff :: i32) = - 1" "(NOT 0 :: i32) = - 1" by simp_all
  then show ?thesis unfolding HashBytes_def crc32_def crc_step_byte by (simp only: bit.xor_one_right)
qed

subsection \<open>Hexa32\<close>

text \<open>\<open>strconv.FormatInt\<close> of a non-negative number in base 32, and \<open>Itoa\<close> of a single digit.\<close>

definition digit32 :: "nat \<Rightarrow> char" where
  "digit32 d = (if d < 10 then char_of (48 + d) else char_of (87 + d))"

fun FormatInt32 :: "nat \<Rightarrow> string" where
  "FormatInt32 n = (if n < 32 then [digit32 n] else FormatInt32 (n div 32) @ [digit32 (n mod 32)])"

declare FormatInt32.simps [simp del]

definition Hexa32ToString32 :: "i32 \<Rightarrow> string" where
  "Hexa32ToString32 h =
     (if 0 \<le> sint h \<and> sint h < 10 then [digit32 (nat (sint h))]
      else if 0 \<le> sint h then ''x'' @ FormatInt32 (nat (sint h))
      else ''z'' @ FormatInt32 (nat (- sint h)))"

text \<open>The number a string of digits stands for: it recovers the hash, so no two hashes share a rendering.\<close>

definition undigit32 :: "char \<Rightarrow> nat" where
  "undigit32 c = (if (of_char c :: nat) < 58 then of_char c - 48 else of_char c - 87)"

definition ParseInt32 :: "string \<Rightarrow> nat" where
  "ParseInt32 s = foldl (\<lambda>a c. 32 * a + undigit32 c) 0 s"

definition ParseHexa32 :: "string \<Rightarrow> int" where
  "ParseHexa32 s = (case s of
     [] \<Rightarrow> 0
   | c # rest \<Rightarrow> if c = CHR ''x'' then int (ParseInt32 rest)
                else if c = CHR ''z'' then - int (ParseInt32 rest)
                else int (undigit32 c))"

lemma undigit32_digit32 [simp]: "d < 32 \<Longrightarrow> undigit32 (digit32 d) = d"
  by (simp add: undigit32_def digit32_def of_char_of)

lemma ParseInt32_FormatInt32 [simp]: "ParseInt32 (FormatInt32 n) = n"
proof (induction n rule: FormatInt32.induct)
  case (1 n)
  then show ?case
    by (subst FormatInt32.simps) (auto simp: ParseInt32_def)
qed

lemma digit32_low: "d < 10 \<Longrightarrow> digit32 d \<noteq> CHR ''x'' \<and> digit32 d \<noteq> CHR ''z''"
proof -
  assume "d < 10"
  then have "undigit32 (digit32 d) < 10" by simp
  then show ?thesis by (auto simp: undigit32_def)
qed

lemma ParseHexa32_ToString32: "ParseHexa32 (Hexa32ToString32 h) = sint h"
  by (auto simp: ParseHexa32_def Hexa32ToString32_def digit32_low)

lemma Hexa32ToString32_inj: "Hexa32ToString32 h = Hexa32ToString32 k \<longleftrightarrow> h = k"
  by (metis ParseHexa32_ToString32 signed_word_eqI)

end
