(* ===== verification/ChainIndex.thy ===== *)
theory ChainIndex
  imports Codec
begin

text \<open>
  What the index files of internal/db/io share: the records of a key file, the loops over them, and
  the two interfaces the index files are built on. A bucket table (\<open>MemHashBlock\<close>, \<open>MemTimeBlock\<close>)
  gives every hash the position of the newest record of its bucket; a record file (\<open>RealKeyFile\<close>)
  stores records that link to the record before them in the same bucket. The locale \<open>chain_index\<close>
  puts both together and proves what the loops of the index files deliver.
\<close>

record KeyRecord =
  kr_Deleted :: bool
  kr_PrevPos :: i64
  kr_TimeKey :: bytes
  kr_DataPos :: bytes
  kr_Offset :: nat

subsection \<open>The loops\<close>

text \<open>
  \<open>for pos > 0 { r, err := GetRecord(pos); ...; pos = r.PrevPos }\<close>: \<open>f\<close> is the body behind the
  error check, which returns (\<^const>\<open>Inl\<close>) or goes on with a new accumulator. The loop follows links
  that come from the file, so it may run forever.
\<close>

partial_function (option) chain_walk ::
  "(nat \<Rightarrow> 's \<Rightarrow> KeyRecord res \<times> 's) \<Rightarrow> (KeyRecord \<Rightarrow> 'x \<Rightarrow> 'r + 'x) \<Rightarrow> i64 \<Rightarrow> 's \<Rightarrow> 'x \<Rightarrow>
   (('r + 'x) res \<times> 's) option" where
  "chain_walk get f pos s x =
     (if 0 < sint pos
      then (case get (unat pos) s of
              (Ok r, s') \<Rightarrow> (case f r x of
                                Inl y \<Rightarrow> Some (Ok (Inl y), s')
                              | Inr x' \<Rightarrow> chain_walk get f (kr_PrevPos r) s' x')
            | (Err e, s') \<Rightarrow> Some (Err e, s')
            | (Panic q, s') \<Rightarrow> Some (Panic q, s'))
      else Some (Ok (Inr x), s))"

text \<open>
  The loop of the two \<open>Delete\<close> methods. \<open>sel\<close> decides whether an undeleted record is meant; the
  number of records deleted so far is returned with an error, too.
\<close>

partial_function (option) chain_delete ::
  "(nat \<Rightarrow> 's \<Rightarrow> bool res \<times> 's) \<Rightarrow> (nat \<Rightarrow> 's \<Rightarrow> bool res \<times> 's) \<Rightarrow> (nat \<Rightarrow> 's \<Rightarrow> i64 res \<times> 's) \<Rightarrow>
   (nat \<Rightarrow> bool \<Rightarrow> 's \<Rightarrow> 's) \<Rightarrow> i64 \<Rightarrow> 's \<Rightarrow> nat \<Rightarrow> (unit res \<times> nat \<times> 's) option" where
  "chain_delete isdel sel prev setdel pos s n =
     (if 0 < sint pos
      then (case isdel (unat pos) s of
              (Ok d, s1) \<Rightarrow>
                (case (if d then (Ok False, s1) else sel (unat pos) s1) of
                   (Ok m, s2) \<Rightarrow>
                     (case prev (unat pos) (if m then setdel (unat pos) True s2 else s2) of
                        (Ok p, s3) \<Rightarrow> chain_delete isdel sel prev setdel p s3 (if m then n + 1 else n)
                      | (Err e, s3) \<Rightarrow> Some (Err e, (if m then n + 1 else n), s3)
                      | (Panic q, s3) \<Rightarrow> Some (Panic q, (if m then n + 1 else n), s3))
                 | (Err e, s2) \<Rightarrow> Some (Err e, n, s2)
                 | (Panic q, s2) \<Rightarrow> Some (Panic q, n, s2))
            | (Err e, s1) \<Rightarrow> Some (Err e, n, s1)
            | (Panic q, s1) \<Rightarrow> Some (Panic q, n, s1))
      else Some (Ok (), n, s))"

text \<open>
  \<open>for pos < length && pos > 0 { r, err := GetRecord(pos); ...; pos = r.Offset }\<close>. The body \<open>f\<close>
  changes the accumulator (the calls of a handler, the counters) and may panic.
\<close>

partial_function (option) seq_read ::
  "(nat \<Rightarrow> 's \<Rightarrow> KeyRecord res \<times> 's) \<Rightarrow> (KeyRecord \<Rightarrow> 'x \<Rightarrow> 'x res) \<Rightarrow> nat \<Rightarrow> nat \<Rightarrow> 's \<Rightarrow> 'x \<Rightarrow>
   (unit res \<times> 'x \<times> 's) option" where
  "seq_read get f len pos s x =
     (if pos < len \<and> 0 < pos
      then (case get pos s of
              (Ok r, s') \<Rightarrow> (case f r x of
                                Ok x' \<Rightarrow> seq_read get f len (kr_Offset r) s' x'
                              | Err e \<Rightarrow> Some (Err e, x, s')
                              | Panic q \<Rightarrow> Some (Panic q, x, s'))
            | (Err e, s') \<Rightarrow> Some (Err e, x, s')
            | (Panic q, s') \<Rightarrow> Some (Panic q, x, s'))
      else Some (Ok (), x, s))"

primrec fold_calls :: "('e \<Rightarrow> 'x \<Rightarrow> 'x res) \<Rightarrow> 'e list \<Rightarrow> 'x \<Rightarrow> unit res \<times> 'x" where
  "fold_calls f [] x = (Ok (), x)"
| "fold_calls f (e # es) x = (case f e x of
     Ok x' \<Rightarrow> fold_calls f es x'
   | Err er \<Rightarrow> (Err er, x)
   | Panic q \<Rightarrow> (Panic q, x))"

lemma fold_calls_append:
  "fold_calls f (es @ es') x = (case fold_calls f es x of
     (Ok u, x') \<Rightarrow> fold_calls f es' x' | (Err e, x') \<Rightarrow> (Err e, x') | (Panic q, x') \<Rightarrow> (Panic q, x'))"
  by (induction es arbitrary: x) (simp_all split: res.split)

subsection \<open>Bucket tables\<close>

text \<open>Every hash has a bucket, and \<open>put\<close> changes the bucket of its hash only.\<close>

locale bucket_table =
  fixes tinv :: "'t \<Rightarrow> bool"
    and bkt :: "'t \<Rightarrow> 'h \<Rightarrow> nat"
    and val :: "'t \<Rightarrow> nat \<Rightarrow> i64"
    and tget :: "'t \<Rightarrow> 'h \<Rightarrow> i64 res"
    and tput :: "'t \<Rightarrow> 'h \<Rightarrow> i64 \<Rightarrow> 't res"
  assumes tget: "tinv t \<Longrightarrow> tget t h = Ok (val t (bkt t h))"
    and tput: "tinv t \<Longrightarrow> fits5 v \<Longrightarrow> \<exists>t'. tput t h v = Ok t' \<and> tinv t' \<and> bkt t' = bkt t \<and>
      (\<forall>h'. val t' (bkt t h') = (if bkt t h' = bkt t h then v else val t (bkt t h')))"
begin

lemma get_after_put:
  assumes "tinv t" and "fits5 v"
  shows "\<exists>t'. tput t h v = Ok t' \<and> tinv t' \<and>
    (\<forall>h'. tget t' h' = (if bkt t h' = bkt t h then Ok v else tget t h'))"
proof -
  obtain t' where "tput t h v = Ok t'" "tinv t'" "bkt t' = bkt t"
    "\<forall>h'. val t' (bkt t h') = (if bkt t h' = bkt t h then v else val t (bkt t h'))"
    using tput [OF assms] by blast
  with assms(1) show ?thesis by (auto simp: tget)
qed

end

subsection \<open>Record files\<close>

text \<open>A stored record. The file is described by the list of its records, the newest first.\<close>

datatype entry = Entry (e_del: bool) (e_prev: i64) (e_key: bytes) (e_data: bytes)

definition entry_record :: "nat \<Rightarrow> entry \<Rightarrow> KeyRecord" where
  "entry_record offset e = \<lparr>kr_Deleted = e_del e, kr_PrevPos = e_prev e, kr_TimeKey = e_key e,
     kr_DataPos = e_data e, kr_Offset = offset\<rparr>"

definition with_del :: "bool \<Rightarrow> entry \<Rightarrow> entry" where
  "with_del d e = Entry d (e_prev e) (e_key e) (e_data e)"

lemma entry_record_simps [simp]:
  "kr_Deleted (entry_record p e) = e_del e" "kr_PrevPos (entry_record p e) = e_prev e"
  "kr_TimeKey (entry_record p e) = e_key e" "kr_DataPos (entry_record p e) = e_data e"
  "kr_Offset (entry_record p e) = p"
  by (simp_all add: entry_record_def)

lemma with_del_simps [simp]:
  "e_del (with_del d e) = d" "e_prev (with_del d e) = e_prev e" "e_key (with_del d e) = e_key e"
  "e_data (with_del d e) = e_data e"
  by (simp_all add: with_del_def)

definition records_size :: "(entry \<Rightarrow> nat) \<Rightarrow> nat \<Rightarrow> entry list \<Rightarrow> nat" where
  "records_size esize start es = start + sum_list (map esize es)"

lemma records_size_simps [simp]:
  "records_size esize start [] = start"
  "records_size esize start (e # es) = records_size esize start es + esize e"
  by (simp_all add: records_size_def)

lemma records_size_append: "records_size esize start es \<le> records_size esize start (es' @ es)"
  by (induction es') auto

text \<open>
  \<open>frep s es\<close>: the state \<open>s\<close> holds the records \<open>es\<close>. The position of a record is the size of the
  file before it was appended. The reading operations may change the state (they flush the append
  buffer), but not the records.
\<close>

locale record_file =
  fixes frep :: "'s \<Rightarrow> entry list \<Rightarrow> bool"
    and okrec :: "bytes \<Rightarrow> bytes \<Rightarrow> bool"
    and esize :: "entry \<Rightarrow> nat"
    and start :: nat
    and flen :: "'s \<Rightarrow> nat"
    and fappend :: "i64 \<Rightarrow> bytes \<Rightarrow> bytes \<Rightarrow> 's \<Rightarrow> nat \<times> 's"
    and fget :: "nat \<Rightarrow> 's \<Rightarrow> KeyRecord res \<times> 's"
    and fisdel :: "nat \<Rightarrow> 's \<Rightarrow> bool res \<times> 's"
    and fkey :: "nat \<Rightarrow> 's \<Rightarrow> bytes res \<times> 's"
    and fdata :: "nat \<Rightarrow> 's \<Rightarrow> bytes res \<times> 's"
    and fprev :: "nat \<Rightarrow> 's \<Rightarrow> i64 res \<times> 's"
    and fsetdel :: "nat \<Rightarrow> bool \<Rightarrow> 's \<Rightarrow> 's"
  assumes start: "0 < start"
    and esize: "0 < esize e"
    and esize_del: "esize (with_del d e) = esize e"
    and flen: "frep s es \<Longrightarrow> flen s = records_size esize start es"
    and fappend: "frep s es \<Longrightarrow> okrec key data \<Longrightarrow> fits5 prev \<Longrightarrow>
      \<exists>s'. fappend prev key data s = (records_size esize start es, s') \<and> frep s' (Entry False prev key data # es)"
    and fget: "frep s (new @ e # es) \<Longrightarrow>
      \<exists>s'. fget (records_size esize start es) s = (Ok (entry_record (records_size esize start (e # es)) e), s') \<and>
        frep s' (new @ e # es)"
    and fisdel: "frep s (new @ e # es) \<Longrightarrow>
      \<exists>s'. fisdel (records_size esize start es) s = (Ok (e_del e), s') \<and> frep s' (new @ e # es)"
    and fkey: "frep s (new @ e # es) \<Longrightarrow>
      \<exists>s'. fkey (records_size esize start es) s = (Ok (e_key e), s') \<and> frep s' (new @ e # es)"
    and fdata: "frep s (new @ e # es) \<Longrightarrow>
      \<exists>s'. fdata (records_size esize start es) s = (Ok (e_data e), s') \<and> frep s' (new @ e # es)"
    and fprev: "frep s (new @ e # es) \<Longrightarrow>
      \<exists>s'. fprev (records_size esize start es) s = (Ok (e_prev e), s') \<and> frep s' (new @ e # es)"
    and fsetdel: "frep s (new @ e # es) \<Longrightarrow>
      frep (fsetdel (records_size esize start es) d s) (new @ with_del d e # es)"
begin

abbreviation "fsize \<equiv> records_size esize start"

lemma fsize_pos: "0 < fsize es"
  using start by (simp add: records_size_def)

text \<open>Reading from the first record on meets the records in the order they were appended.\<close>

lemma seq_read_from:
  assumes "\<And>p e x. f (entry_record p e) x = g e x"
  shows "frep s (new @ old) \<Longrightarrow> \<exists>s'. seq_read fget f (fsize (new @ old)) (fsize old) s x =
     Some (fst (fold_calls g (rev new) x), snd (fold_calls g (rev new) x), s') \<and> frep s' (new @ old)"
proof (induction new arbitrary: old s x rule: rev_induct)
  case Nil
  then show ?case by (auto simp: seq_read.simps [of _ _ _ _ s])
next
  case (snoc e new)
  obtain s' where s': "fget (fsize old) s = (Ok (entry_record (fsize (e # old)) e), s')" "frep s' (new @ e # old)"
    using fget [of s new e old] snoc.prems by auto
  have "fsize old < fsize (new @ e # old)"
    using records_size_append [of esize start "e # old" new] esize [of e] by simp
  then show ?case
    using snoc.IH [of s' "e # old"] s' fsize_pos [of old]
    by (subst seq_read.simps) (auto simp: assms split: res.split)
qed

lemma seq_read_all:
  assumes "frep s es" and "\<And>p e x. f (entry_record p e) x = g e x"
  shows "\<exists>s'. seq_read fget f (flen s) start s x =
    Some (fst (fold_calls g (rev es) x), snd (fold_calls g (rev es) x), s') \<and> frep s' es"
  using seq_read_from [of f g s es "[]" x] flen [of s es] assms by simp

end

subsection \<open>Both together\<close>

text \<open>
  The newest record of a bucket; the link to a bucket, which is its newest record or 0 once all its
  records are deleted; and the condition that every record links to the bucket as it was before.
  \<open>bk\<close> gives the bucket of a key.
\<close>

primrec newest :: "(bytes \<Rightarrow> nat) \<Rightarrow> (entry list \<Rightarrow> nat) \<Rightarrow> nat \<Rightarrow> entry list \<Rightarrow> nat" where
  "newest bk sz b [] = 0"
| "newest bk sz b (e # es) = (if bk (e_key e) = b then sz es else newest bk sz b es)"

definition all_deleted :: "(bytes \<Rightarrow> nat) \<Rightarrow> nat \<Rightarrow> entry list \<Rightarrow> bool" where
  "all_deleted bk b es \<longleftrightarrow> (\<forall>e \<in> set es. bk (e_key e) = b \<longrightarrow> e_del e)"

definition link_to :: "(bytes \<Rightarrow> nat) \<Rightarrow> (entry list \<Rightarrow> nat) \<Rightarrow> nat \<Rightarrow> entry list \<Rightarrow> i64 \<Rightarrow> bool" where
  "link_to bk sz b es p \<longleftrightarrow> p = word_of_nat (newest bk sz b es) \<or> (p = 0 \<and> all_deleted bk b es)"

primrec linked :: "(bytes \<Rightarrow> nat) \<Rightarrow> (entry list \<Rightarrow> nat) \<Rightarrow> entry list \<Rightarrow> bool" where
  "linked bk sz [] = True"
| "linked bk sz (e # es) = (link_to bk sz (bk (e_key e)) es (e_prev e) \<and> linked bk sz es)"

lemma link_to_Cons_other:
  "bk (e_key e) \<noteq> b \<Longrightarrow> link_to bk sz b (e # es) p = link_to bk sz b es p"
  by (simp add: link_to_def all_deleted_def)

lemma link_to_empty: "link_to bk sz b [] p \<longleftrightarrow> p = 0"
  by (auto simp: link_to_def all_deleted_def)

primrec fold_until :: "('e \<Rightarrow> 'x \<Rightarrow> 'r + 'x) \<Rightarrow> 'e list \<Rightarrow> 'x \<Rightarrow> 'r + 'x" where
  "fold_until f [] x = Inr x"
| "fold_until f (e # es) x = (case f e x of Inl y \<Rightarrow> Inl y | Inr x' \<Rightarrow> fold_until f es x')"

lemma fold_until_deleted:
  "(\<And>e x. e_del e \<Longrightarrow> g e x = Inr x) \<Longrightarrow> list_all e_del es \<Longrightarrow> fold_until g es x = Inr x"
  by (induction es) auto

locale chain_index = bucket_table tinv bkt val tget tput +
  record_file frep okrec esize start flen fappend fget fisdel fkey fdata fprev fsetdel
  for tinv :: "'t \<Rightarrow> bool" and bkt :: "'t \<Rightarrow> 'h \<Rightarrow> nat" and val :: "'t \<Rightarrow> nat \<Rightarrow> i64"
    and tget :: "'t \<Rightarrow> 'h \<Rightarrow> i64 res" and tput :: "'t \<Rightarrow> 'h \<Rightarrow> i64 \<Rightarrow> 't res"
    and frep :: "'s \<Rightarrow> entry list \<Rightarrow> bool" and okrec :: "bytes \<Rightarrow> bytes \<Rightarrow> bool"
    and esize :: "entry \<Rightarrow> nat" and start :: nat and flen :: "'s \<Rightarrow> nat"
    and fappend :: "i64 \<Rightarrow> bytes \<Rightarrow> bytes \<Rightarrow> 's \<Rightarrow> nat \<times> 's"
    and fget :: "nat \<Rightarrow> 's \<Rightarrow> KeyRecord res \<times> 's" and fisdel :: "nat \<Rightarrow> 's \<Rightarrow> bool res \<times> 's"
    and fkey :: "nat \<Rightarrow> 's \<Rightarrow> bytes res \<times> 's"
    and fdata :: "nat \<Rightarrow> 's \<Rightarrow> bytes res \<times> 's" and fprev :: "nat \<Rightarrow> 's \<Rightarrow> i64 res \<times> 's"
    and fsetdel :: "nat \<Rightarrow> bool \<Rightarrow> 's \<Rightarrow> 's" +
  fixes slot :: "bytes \<Rightarrow> 'h"
begin

text \<open>
  \<open>irep t s es\<close>: table and file hold the records \<open>es\<close>, and every bucket has the position of its
  newest record. Positions are below \<open>2 ^ 39\<close>, what five bytes can hold.
\<close>

definition irep :: "'t \<Rightarrow> 's \<Rightarrow> entry list \<Rightarrow> bool" where
  "irep t s es \<longleftrightarrow> tinv t \<and> frep s es \<and> linked (\<lambda>k. bkt t (slot k)) fsize es \<and>
     (\<forall>h. link_to (\<lambda>k. bkt t (slot k)) fsize (bkt t h) es (val t (bkt t h))) \<and> fsize es \<le> 2 ^ 39"

lemma pos_word:
  assumes "n < 2 ^ 39"
  shows "unat (word_of_nat n :: i64) = n" "0 < sint (word_of_nat n :: i64) \<longleftrightarrow> 0 < n" "fits5 (word_of_nat n)"
proof -
  have n: "n < 2 ^ LENGTH(63)" "n < 2 ^ LENGTH(64)" using assms by simp_all
  then show u: "unat (word_of_nat n :: i64) = n" by (simp add: unat_of_nat take_bit_nat_eq_self)
  have "sint (word_of_nat n :: i64) = int n" using n by (simp add: sint_word_of_nat)
  then show "0 < sint (word_of_nat n :: i64) \<longleftrightarrow> 0 < n" "fits5 (word_of_nat n)"
    using assms by (simp_all add: fits5_def)
qed

lemma newest_le: "newest bk fsize b es \<le> fsize es"
  by (induction es) auto

text \<open>The loops that follow the links of a bucket meet its records, the newest first.\<close>

abbreviation "bucket t b es \<equiv> filter (\<lambda>e. bkt t (slot (e_key e)) = b) es"

lemma bucket_deleted: "all_deleted (\<lambda>k. bkt t (slot k)) b es \<Longrightarrow> list_all e_del (bucket t b es)"
  by (auto simp: all_deleted_def list_all_iff)

lemma chain_walk_bucket:
  assumes "\<And>p e x. f (entry_record p e) x = g e x" and "\<And>e x. e_del e \<Longrightarrow> g e x = Inr x"
  shows "frep s (new @ es) \<Longrightarrow> linked (\<lambda>k. bkt t (slot k)) fsize es \<Longrightarrow> fsize es \<le> 2 ^ 39 \<Longrightarrow>
    link_to (\<lambda>k. bkt t (slot k)) fsize b es p \<Longrightarrow>
    \<exists>s'. chain_walk fget f p s x = Some (Ok (fold_until g (bucket t b es) x), s') \<and> frep s' (new @ es)"
proof (induction es arbitrary: new s x p)
  case Nil
  then show ?case by (auto simp: chain_walk.simps link_to_empty)
next
  case (Cons e es)
  have IH: "\<exists>s'. chain_walk fget f p s x = Some (Ok (fold_until g (bucket t b es) x), s') \<and> frep s' (new @ e # es)"
    if "frep s (new @ e # es)" "link_to (\<lambda>k. bkt t (slot k)) fsize b es p" for s x p
    using Cons.IH [of s "new @ [e]" p x] Cons.prems(2,3) that by simp
  show ?case
  proof (cases "bkt t (slot (e_key e)) = b")
    case same: True
    have lt: "fsize es < 2 ^ 39" using Cons.prems(3) esize [of e] by simp
    note pos = pos_word [OF lt]
    have prev: "link_to (\<lambda>k. bkt t (slot k)) fsize b es (e_prev e)" using Cons.prems(2) same by simp
    show ?thesis
    proof (cases "p = 0")
      case True
      then have "all_deleted (\<lambda>k. bkt t (slot k)) b (e # es)"
        using Cons.prems(4) same pos(1) fsize_pos [of es] by (auto simp: link_to_def)
      from fold_until_deleted [OF assms(2) bucket_deleted [OF this]] True show ?thesis
        using Cons.prems(1) by (subst chain_walk.simps) simp
    next
      case False
      then have p: "p = word_of_nat (fsize es)" using Cons.prems(4) same by (simp add: link_to_def)
      obtain s1 where s1: "fget (fsize es) s = (Ok (entry_record (fsize (e # es)) e), s1)" "frep s1 (new @ e # es)"
        using fget [OF Cons.prems(1)] by blast
      show ?thesis
      proof (cases "g e x")
        case (Inl y)
        then show ?thesis using same p pos s1 fsize_pos [of es] by (subst chain_walk.simps) (simp add: assms(1))
      next
        case (Inr x')
        then show ?thesis using same p pos s1 fsize_pos [of es] IH [OF s1(2) prev, of x']
          by (subst chain_walk.simps) (simp add: assms(1))
      qed
    qed
  qed (use IH [OF Cons.prems(1)] Cons.prems(4) in \<open>simp add: link_to_Cons_other\<close>)
qed

definition hit :: "'t \<Rightarrow> nat \<Rightarrow> (bytes \<Rightarrow> bool) \<Rightarrow> entry \<Rightarrow> bool" where
  "hit t b P e \<longleftrightarrow> bkt t (slot (e_key e)) = b \<and> \<not> e_del e \<and> P (e_key e)"

definition mark :: "'t \<Rightarrow> nat \<Rightarrow> (bytes \<Rightarrow> bool) \<Rightarrow> entry \<Rightarrow> entry" where
  "mark t b P e = (if hit t b P e then with_del True e else e)"

lemma mark_simps [simp]: "e_key (mark t b P e) = e_key e" "e_prev (mark t b P e) = e_prev e"
  "esize (mark t b P e) = esize e" "e_data (mark t b P e) = e_data e"
  by (simp_all add: mark_def esize_del)

lemma fsize_mark [simp]: "fsize (map (mark t b P) es) = fsize es"
  by (induction es) simp_all

lemma newest_mark [simp]: "newest bk fsize c (map (mark t b P) es) = newest bk fsize c es"
  by (induction es) simp_all

lemma all_deleted_mark: "all_deleted bk c es \<Longrightarrow> all_deleted bk c (map (mark t b P) es)"
  by (auto simp: all_deleted_def mark_def)

lemma link_to_mark: "link_to bk fsize c es p \<Longrightarrow> link_to bk fsize c (map (mark t b P) es) p"
  by (auto simp: link_to_def all_deleted_mark)

lemma linked_mark: "linked bk fsize es \<Longrightarrow> linked bk fsize (map (mark t b P) es)"
  by (induction es) (auto simp: link_to_mark)

lemma hits_deleted:
  assumes "all_deleted (\<lambda>k. bkt t (slot k)) b es"
  shows "filter (hit t b P) es = []" and "map (mark t b P) es = es"
proof -
  have "\<not> hit t b P e" if "e \<in> set es" for e using assms that by (auto simp: all_deleted_def hit_def)
  then show "filter (hit t b P) es = []" "map (mark t b P) es = es"
    by (simp_all add: filter_empty_conv mark_def map_idI)
qed

lemma chain_delete_bucket:
  assumes sel: "\<And>s new e es. frep s (new @ e # es) \<Longrightarrow>
      \<exists>s'. sel (fsize es) s = (Ok (P (e_key e)), s') \<and> frep s' (new @ e # es)"
  shows "frep s (new @ es) \<Longrightarrow> linked (\<lambda>k. bkt t (slot k)) fsize es \<Longrightarrow> fsize es \<le> 2 ^ 39 \<Longrightarrow>
    link_to (\<lambda>k. bkt t (slot k)) fsize b es p \<Longrightarrow>
    \<exists>s'. chain_delete fisdel sel fprev fsetdel p s n =
      Some (Ok (), n + length (filter (hit t b P) es), s') \<and> frep s' (new @ map (mark t b P) es)"
proof (induction es arbitrary: new s n p)
  case Nil
  then show ?case by (auto simp: chain_delete.simps link_to_empty)
next
  case (Cons e es)
  show ?case
  proof (cases "bkt t (slot (e_key e)) = b")
    case same: True
    have lt: "fsize es < 2 ^ 39" using Cons.prems(3) esize [of e] by simp
    note pos = pos_word [OF lt]
    have prev: "link_to (\<lambda>k. bkt t (slot k)) fsize b es (e_prev e)" using Cons.prems(2) same by simp
    show ?thesis
    proof (cases "p = 0")
      case True
      then have "all_deleted (\<lambda>k. bkt t (slot k)) b (e # es)"
        using Cons.prems(4) same pos(1) fsize_pos [of es] by (auto simp: link_to_def)
      from hits_deleted [OF this] True Cons.prems(1) show ?thesis
        by (subst chain_delete.simps) (simp del: filter.simps list.map)
    next
      case False
      then have p: "p = word_of_nat (fsize es)" using Cons.prems(4) same by (simp add: link_to_def)
      obtain s1 where s1: "fisdel (fsize es) s = (Ok (e_del e), s1)" "frep s1 (new @ e # es)"
        using fisdel [OF Cons.prems(1)] by blast
      obtain s2 where s2: "(if e_del e then (Ok False, s1) else sel (fsize es) s1) = (Ok (hit t b P e), s2)"
        "frep s2 (new @ e # es)" using sel [OF s1(2)] s1(2) same by (cases "e_del e") (auto simp: hit_def)
      define s3 where "s3 = (if hit t b P e then fsetdel (fsize es) True s2 else s2)"
      have "frep s3 (new @ mark t b P e # es)" using fsetdel [OF s2(2)] s2(2) by (simp add: s3_def mark_def)
      then obtain s4 where s4: "fprev (fsize es) s3 = (Ok (e_prev e), s4)" "frep s4 (new @ mark t b P e # es)"
        using fprev by fastforce
      have "chain_delete fisdel sel fprev fsetdel p s n =
          chain_delete fisdel sel fprev fsetdel (e_prev e) s4 (if hit t b P e then n + 1 else n)"
        using fsize_pos [of es] unfolding p by (subst chain_delete.simps)
          (simp only: pos s1(1) s2(1) s4(1) s3_def [symmetric] if_True prod.case res.case)
      then show ?thesis using prev Cons.prems(2,3) s4(2)
          Cons.IH [of s4 "new @ [mark t b P e]" "e_prev e" "if hit t b P e then n + 1 else n"]
        by auto
    qed
  next
    case False
    then have "mark t b P e = e" "\<not> hit t b P e" by (simp_all add: mark_def hit_def)
    then show ?thesis using False Cons.prems Cons.IH [of s "new @ [e]" p n] by (simp add: link_to_Cons_other)
  qed
qed

text \<open>The ways the index files use the interfaces.\<close>

lemma irep_walk:
  assumes "irep t s es" and "\<And>p e x. f (entry_record p e) x = g e x" and "\<And>e x. e_del e \<Longrightarrow> g e x = Inr x"
  shows "\<exists>s'. tget t h = Ok (val t (bkt t h)) \<and>
    chain_walk fget f (val t (bkt t h)) s x = Some (Ok (fold_until g (bucket t (bkt t h) es) x), s') \<and> irep t s' es"
  using chain_walk_bucket [of f g s "[]" es t "bkt t h" "val t (bkt t h)" x] assms tget [of t h] by (auto simp: irep_def)

lemma irep_delete:
  assumes "irep t s es" and "\<And>s new e es. frep s (new @ e # es) \<Longrightarrow>
      \<exists>s'. sel (fsize es) s = (Ok (P (e_key e)), s') \<and> frep s' (new @ e # es)"
  shows "\<exists>s'. chain_delete fisdel sel fprev fsetdel (val t (bkt t h)) s 0 =
    Some (Ok (), length (filter (hit t (bkt t h) P) es), s') \<and> irep t s' (map (mark t (bkt t h) P) es)"
  using chain_delete_bucket [of sel P s "[]" es t "bkt t h" "val t (bkt t h)" 0] assms
  by (auto simp: irep_def linked_mark link_to_mark)

text \<open>A bucket whose records are all deleted may be emptied.\<close>

lemma irep_clear:
  assumes "irep t s es" and "all_deleted (\<lambda>k. bkt t (slot k)) (bkt t h) es"
  shows "\<exists>t'. tput t h 0 = Ok t' \<and> bkt t' = bkt t \<and> irep t' s es"
proof -
  have "fits5 0" by (simp add: fits5_def)
  then obtain t' where "tput t h 0 = Ok t'" "tinv t'" "bkt t' = bkt t"
    "\<forall>h'. val t' (bkt t h') = (if bkt t h' = bkt t h then 0 else val t (bkt t h'))"
    using tput [of t 0 h] assms(1) by (auto simp: irep_def)
  then show ?thesis using assms by (auto simp: irep_def link_to_def)
qed

lemma link_to_fits:
  assumes "link_to bk fsize b es p" and "fsize es < 2 ^ 39"
  shows "fits5 p"
proof -
  have "fits5 (word_of_nat (newest bk fsize b es))"
    using assms(2) newest_le by (intro pos_word(3)) (rule le_less_trans)
  then show ?thesis using assms(1) by (auto simp: link_to_def fits5_def)
qed

lemma irep_put:
  assumes "irep t s es" and "okrec key data" and "fsize (Entry False p key data # es) \<le> 2 ^ 39"
    and "p = val t (bkt t (slot key))"
  shows "\<exists>s' t'. fappend p key data s = (fsize es, s') \<and> tput t (slot key) (word_of_nat (fsize es)) = Ok t' \<and>
    bkt t' = bkt t \<and> irep t' s' (Entry False p key data # es)"
proof -
  have p: "link_to (\<lambda>k. bkt t (slot k)) fsize (bkt t (slot key)) es p"
    using assms(1,4) by (simp add: irep_def)
  have lt: "fsize es < 2 ^ 39" using assms(3) esize [of "Entry False p key data"] by simp
  obtain s' where s': "fappend p key data s = (fsize es, s')" "frep s' (Entry False p key data # es)"
    using fappend link_to_fits [OF p lt] assms(1,2) by (fastforce simp: irep_def)
  obtain t' where t': "tput t (slot key) (word_of_nat (fsize es)) = Ok t'" "tinv t'" "bkt t' = bkt t"
    "\<forall>h. val t' (bkt t h) = (if bkt t h = bkt t (slot key) then word_of_nat (fsize es) else val t (bkt t h))"
    using tput [of t "word_of_nat (fsize es)" "slot key"] pos_word(3) [OF lt] assms(1) by (auto simp: irep_def)
  have "link_to (\<lambda>k. bkt t (slot k)) fsize (bkt t h) (Entry False p key data # es) (val t' (bkt t h))" for h
  proof (cases "bkt t h = bkt t (slot key)")
    case True
    then show ?thesis using t'(4) by (simp add: link_to_def)
  next
    case False
    then show ?thesis using t'(4) assms(1) by (auto simp: irep_def link_to_Cons_other)
  qed
  then show ?thesis using s' assms(1,3) t' p by (auto simp: irep_def)
qed

lemma irep_seq_read:
  assumes "irep t s es" and "\<And>p e x. f (entry_record p e) x = g e x"
  shows "\<exists>s'. seq_read fget f (flen s) start s x =
    Some (fst (fold_calls g (rev es) x), snd (fold_calls g (rev es) x), s') \<and> irep t s' es"
  using seq_read_all [of s es f g x] assms by (auto simp: irep_def)

end

end
