(* ===== verification/MemHashBlock.thy ===== *)
theory MemHashBlock
  imports ChainIndex
begin

text \<open>
  internal/db/io/mem\_hash\_block.go: the bucket table of an index file. It is an array of 5-byte
  positions behind a header of 1024 bytes, all of it in memory; \<open>Flush\<close> writes it to the \<open>.hfile\<close>.
  The record has the fields of the struct and, as \<open>mh_file\<close>, the content of that file, \<^const>\<open>None\<close>
  if there is none. Reading and writing the file do not fail in the model.
\<close>

definition memHeadReserved :: nat where "memHeadReserved = 1024"
definition keyLength :: nat where "keyLength = 5"

record MemHashBlock =
  mh_buf :: bytes
  mh_bufSize :: nat
  mh_count :: int
  mh_capacity :: nat
  mh_dirty :: bool
  mh_file :: "bytes option"

definition mh_open :: "bytes option \<Rightarrow> nat \<Rightarrow> MemHashBlock" where
  "mh_open file memSize =
     (let fresh = \<lparr>mh_buf = [0xCA, 0xFE] @ replicate (memHeadReserved + memSize - 2) 0,
                   mh_bufSize = memSize, mh_count = 0, mh_capacity = memSize div keyLength,
                   mh_dirty = False, mh_file = file\<rparr>
      in case file of
           None \<Rightarrow> fresh
         | Some data \<Rightarrow>
             if length data < memHeadReserved then fresh
             else \<lparr>mh_buf = data, mh_bufSize = length data - memHeadReserved,
                   mh_count = sint (Int32 (drop 4 data)),
                   mh_capacity = (length data - memHeadReserved) div keyLength,
                   mh_dirty = False, mh_file = file\<rparr>)"

definition mh_offset :: "MemHashBlock \<Rightarrow> i32 \<Rightarrow> nat res" where
  "mh_offset m keyHash =
     (if mh_capacity m = 0 then Panic DivideByZero
      else Ok (keyLength * (unat (keyHash AND 0x7FFFFFFF) mod mh_capacity m) + memHeadReserved))"

text \<open>\<open>Int5(m.buf[pos:])\<close> and \<open>PutInt5(m.buf[pos:], v)\<close>, which need five bytes.\<close>

definition mh_slot :: "MemHashBlock \<Rightarrow> nat \<Rightarrow> i64 res" where
  "mh_slot m pos = (if pos + keyLength \<le> length (mh_buf m) then Ok (Int5 (drop pos (mh_buf m)))
     else Panic IndexOutOfRange)"

definition mh_Get :: "MemHashBlock \<Rightarrow> i32 \<Rightarrow> i64 res" where
  "mh_Get m keyHash = res_bind (mh_offset m keyHash) (mh_slot m)"

definition mh_Count :: "MemHashBlock \<Rightarrow> int" where
  "mh_Count m = mh_count m"

definition mh_addCount :: "int \<Rightarrow> MemHashBlock \<Rightarrow> MemHashBlock" where
  "mh_addCount n m = m\<lparr>mh_count := mh_count m + n,
     mh_buf := patch 4 (PutInt32 (word_of_int (mh_count m + n))) (mh_buf m)\<rparr>"

definition mh_Put :: "MemHashBlock \<Rightarrow> i32 \<Rightarrow> i64 \<Rightarrow> MemHashBlock res" where
  "mh_Put m keyHash v = res_bind (mh_offset m keyHash) (\<lambda>pos. res_bind (mh_slot m pos) (\<lambda>old.
     let m' = (if old = 0 then mh_addCount 1 m else m)
     in Ok (m'\<lparr>mh_buf := patch pos (PutInt5 v) (mh_buf m'), mh_dirty := True\<rparr>)))"

definition mh_Flush :: "MemHashBlock \<Rightarrow> MemHashBlock" where
  "mh_Flush m = (if \<not> mh_dirty m then m else m\<lparr>mh_file := Some (mh_buf m), mh_dirty := False\<rparr>)"

definition mh_IsDirty :: "MemHashBlock \<Rightarrow> bool" where
  "mh_IsDirty m = mh_dirty m"

definition mh_Reload :: "MemHashBlock \<Rightarrow> MemHashBlock res" where
  "mh_Reload m = (case mh_file m of
     None \<Rightarrow> Err (ErrText ''no such file'')
   | Some data \<Rightarrow>
       if length data < memHeadReserved then Ok m
       else Ok (m\<lparr>mh_buf := data, mh_bufSize := length data - memHeadReserved,
                  mh_capacity := (length data - memHeadReserved) div keyLength,
                  mh_count := sint (Int32 (drop 4 data)), mh_dirty := False\<rparr>))"

subsection \<open>A table of buckets\<close>

definition mh_inv :: "MemHashBlock \<Rightarrow> bool" where
  "mh_inv m \<longleftrightarrow> length (mh_buf m) = memHeadReserved + mh_bufSize m \<and>
     mh_capacity m = mh_bufSize m div keyLength \<and> 0 < mh_capacity m"

text \<open>The bucket of a hash among \<open>cap\<close>, and the value in a bucket.\<close>

definition bucket_of :: "nat \<Rightarrow> i32 \<Rightarrow> nat" where
  "bucket_of cap keyHash = unat (keyHash AND 0x7FFFFFFF) mod cap"

definition mh_bucket :: "MemHashBlock \<Rightarrow> nat \<Rightarrow> i64" where
  "mh_bucket m b = Int5 (seg (keyLength * b + memHeadReserved) 5 (mh_buf m))"

lemma Int5_take: "Int5 (take 5 b) = Int5 b"
  by (simp add: Int5_def)

lemma bucket_of_less: "0 < cap \<Longrightarrow> bucket_of cap h < cap"
  by (simp add: bucket_of_def)

lemma mh_room:
  assumes "mh_inv m" and "b < mh_capacity m"
  shows "keyLength * b + memHeadReserved + 5 \<le> length (mh_buf m)"
proof -
  have "5 * (b + 1) \<le> 5 * mh_capacity m" using assms(2) by simp
  also have "\<dots> \<le> mh_bufSize m" using assms(1) by (simp add: mh_inv_def keyLength_def)
  finally show ?thesis using assms(1) by (simp add: mh_inv_def keyLength_def)
qed

lemma mh_Get_bucket: "mh_inv m \<Longrightarrow> mh_Get m h = Ok (mh_bucket m (bucket_of (mh_capacity m) h))"
  using mh_room [of m "bucket_of (mh_capacity m) h"]
  by (simp add: mh_Get_def mh_offset_def mh_slot_def mh_bucket_def seg_def Int5_take bucket_of_def
      bucket_of_less mh_inv_def keyLength_def)

text \<open>What \<open>Put\<close> makes of the table.\<close>

definition mh_put :: "MemHashBlock \<Rightarrow> i32 \<Rightarrow> i64 \<Rightarrow> MemHashBlock" where
  "mh_put m h v = (let pos = keyLength * bucket_of (mh_capacity m) h + memHeadReserved;
     m' = (if mh_bucket m (bucket_of (mh_capacity m) h) = 0 then mh_addCount 1 m else m)
     in m'\<lparr>mh_buf := patch pos (PutInt5 v) (mh_buf m'), mh_dirty := True\<rparr>)"

lemma mh_Put_put: "mh_inv m \<Longrightarrow> mh_Put m h v = Ok (mh_put m h v)"
  using mh_Get_bucket [of m h]
  by (auto simp: mh_Put_def mh_put_def mh_Get_def mh_offset_def bucket_of_def Let_def mh_inv_def)

lemma mh_addCount_simps [simp]:
  "mh_capacity (mh_addCount n m) = mh_capacity m" "mh_bufSize (mh_addCount n m) = mh_bufSize m"
  "mh_count (mh_addCount n m) = mh_count m + n" "mh_file (mh_addCount n m) = mh_file m"
  by (simp_all add: mh_addCount_def)

lemma mh_addCount_inv: "mh_inv m \<Longrightarrow> mh_inv (mh_addCount n m)"
  by (simp add: mh_inv_def mh_addCount_def memHeadReserved_def PutInt32_def)

lemma mh_addCount_bucket: "mh_inv m \<Longrightarrow> b < mh_capacity m \<Longrightarrow> mh_bucket (mh_addCount n m) b = mh_bucket m b"
  using mh_room [of m b] seg_patch_other [of 4 "PutInt32 (word_of_int (mh_count m + n))" "mh_buf m"
      "keyLength * b + memHeadReserved" 5]
  by (simp add: mh_bucket_def mh_addCount_def memHeadReserved_def PutInt32_def)

lemma mh_put_capacity [simp]: "mh_capacity (mh_put m h v) = mh_capacity m"
  by (simp add: mh_put_def Let_def)

lemma mh_put_inv:
  assumes "mh_inv m"
  shows "mh_inv (mh_put m h v)"
proof -
  have "bucket_of (mh_capacity m) h < mh_capacity m" using assms by (simp add: bucket_of_less mh_inv_def)
  with assms mh_room [of m] mh_room [OF mh_addCount_inv [OF assms], of _ 1] mh_addCount_inv [OF assms, of 1]
  show ?thesis by (auto simp: mh_put_def Let_def mh_inv_def)
qed

lemma mh_bucket_put:
  assumes "mh_inv m" and "b < mh_capacity m" and "fits5 v"
  shows "mh_bucket (mh_put m h v) b = (if b = bucket_of (mh_capacity m) h then v else mh_bucket m b)"
proof -
  let ?c = "bucket_of (mh_capacity m) h"
  let ?m = "if mh_bucket m ?c = 0 then mh_addCount 1 m else m"
  have c: "?c < mh_capacity m" using assms(1) by (simp add: bucket_of_less mh_inv_def)
  have inv: "mh_inv ?m" "mh_capacity ?m = mh_capacity m" using assms(1) by (simp_all add: mh_addCount_inv)
  have same: "mh_bucket ?m b = mh_bucket m b" using assms by (simp add: mh_addCount_bucket)
  note room = mh_room [OF inv(1), unfolded inv(2)]
  have put: "mh_bucket (mh_put m h v) b =
      Int5 (seg (keyLength * b + memHeadReserved) 5 (patch (keyLength * ?c + memHeadReserved) (PutInt5 v) (mh_buf ?m)))"
    by (simp add: mh_bucket_def mh_put_def Let_def)
  show ?thesis
  proof (cases "b = ?c")
    case True
    then show ?thesis unfolding put using room [OF c] assms(3) by (simp add: seg_patch_same)
  next
    case False
    then have "keyLength * b + memHeadReserved + 5 \<le> keyLength * ?c + memHeadReserved \<or>
        keyLength * ?c + memHeadReserved + 5 \<le> keyLength * b + memHeadReserved"
      by (auto simp: keyLength_def)
    then have "mh_bucket (mh_put m h v) b = mh_bucket ?m b"
      unfolding put mh_bucket_def [of ?m b] using room [OF c] room [OF assms(2)]
      by (subst seg_patch_other) auto
    with False same show ?thesis by simp
  qed
qed

lemma mh_put_count: "mh_count (mh_put m h v) =
    mh_count m + (if mh_bucket m (bucket_of (mh_capacity m) h) = 0 then 1 else 0)"
  by (simp add: mh_put_def Let_def)

text \<open>\<open>count\<close> is the number of buckets in use, as long as no position 0 is stored.\<close>

definition mh_counted :: "MemHashBlock \<Rightarrow> bool" where
  "mh_counted m \<longleftrightarrow> mh_count m = int (card {b. b < mh_capacity m \<and> mh_bucket m b \<noteq> 0})"

lemma mh_put_counted:
  assumes "mh_inv m" and "mh_counted m" and "fits5 v" and "v \<noteq> 0"
  shows "mh_counted (mh_put m h v)"
proof -
  let ?c = "bucket_of (mh_capacity m) h" and ?U = "{b. b < mh_capacity m \<and> mh_bucket m b \<noteq> 0}"
  have "?c < mh_capacity m" using assms(1) by (simp add: bucket_of_less mh_inv_def)
  then have "{b. b < mh_capacity m \<and> mh_bucket (mh_put m h v) b \<noteq> 0} = insert ?c ?U"
    using mh_bucket_put [OF assms(1) _ assms(3)] assms(4) by (auto split: if_splits)
  moreover have "finite ?U" by simp
  moreover have "?c \<in> ?U \<longleftrightarrow> mh_bucket m ?c \<noteq> 0" using \<open>?c < mh_capacity m\<close> by simp
  ultimately show ?thesis using assms(2)
    by (cases "mh_bucket m ?c = 0") (auto simp: mh_counted_def mh_put_count insert_absorb)
qed

text \<open>A new table is empty; a file that was flushed opens, and reloads, as the table that was flushed.\<close>

lemma mh_open_new:
  assumes "5 \<le> memSize"
  shows "mh_inv (mh_open None memSize)" and "b < mh_capacity (mh_open None memSize) \<Longrightarrow>
      mh_bucket (mh_open None memSize) b = 0" and "mh_counted (mh_open None memSize)"
proof -
  have [simp]: "mh_capacity (mh_open None memSize) = memSize div 5" "mh_count (mh_open None memSize) = 0"
    by (simp_all add: mh_open_def Let_def keyLength_def)
  show inv: "mh_inv (mh_open None memSize)"
    using assms by (simp add: mh_inv_def mh_open_def Let_def keyLength_def memHeadReserved_def div_greater_zero_iff)
  have zero: "mh_bucket (mh_open None memSize) b = 0" if "b < memSize div 5" for b
  proof -
    have le: "keyLength * b + memHeadReserved + 5 \<le> memHeadReserved + memSize"
      using mh_room [OF inv, of b] that
      by (simp add: mh_open_def Let_def memHeadReserved_def keyLength_def)
    have "seg (keyLength * b + memHeadReserved) 5 (mh_buf (mh_open None memSize)) = replicate 5 0"
      using le by (simp add: seg_def mh_open_def Let_def memHeadReserved_def drop_Cons' )
    then show ?thesis by (simp add: mh_bucket_def Int5_def numeral_eq_Suc)
  qed
  then show "b < mh_capacity (mh_open None memSize) \<Longrightarrow> mh_bucket (mh_open None memSize) b = 0" by simp
  show "mh_counted (mh_open None memSize)" using zero by (auto simp: mh_counted_def)
qed

lemma mh_Flush_buf [simp]: "mh_buf (mh_Flush m) = mh_buf m" "mh_capacity (mh_Flush m) = mh_capacity m"
  "mh_bufSize (mh_Flush m) = mh_bufSize m" "mh_count (mh_Flush m) = mh_count m" "mh_dirty (mh_Flush m) = False"
  by (simp_all add: mh_Flush_def)

lemma mh_open_flushed:
  assumes "mh_inv m" and "mh_dirty m \<or> mh_file m = Some (mh_buf m)"
  shows "mh_open (mh_file (mh_Flush m)) memSize =
    (mh_Flush m)\<lparr>mh_count := sint (Int32 (drop 4 (mh_buf m)))\<rparr>"
proof -
  have "mh_file (mh_Flush m) = Some (mh_buf m)" using assms(2) by (auto simp: mh_Flush_def)
  then show ?thesis using assms(1)
    by (simp add: mh_open_def Let_def mh_inv_def memHeadReserved_def)
qed

text \<open>The table is a bucket table in the sense of the locale.\<close>

interpretation mh: bucket_table mh_inv "\<lambda>m. bucket_of (mh_capacity m)" mh_bucket mh_Get mh_Put
proof
  fix t h v
  assume t: "mh_inv t"
  then have "bucket_of (mh_capacity t) h' < mh_capacity t" for h' by (simp add: mh_inv_def bucket_of_less)
  with t show "fits5 v \<Longrightarrow> \<exists>t'. mh_Put t h v = Ok t' \<and> mh_inv t' \<and>
      bucket_of (mh_capacity t') = bucket_of (mh_capacity t) \<and>
      (\<forall>h'. mh_bucket t' (bucket_of (mh_capacity t) h') = (if bucket_of (mh_capacity t) h' =
        bucket_of (mh_capacity t) h then v else mh_bucket t (bucket_of (mh_capacity t) h')))"
    by (simp add: mh_Put_put mh_put_inv mh_bucket_put)
qed (rule mh_Get_bucket)

subsection \<open>Sequences of puts\<close>

fun mh_Puts :: "(i32 \<times> i64) list \<Rightarrow> MemHashBlock \<Rightarrow> MemHashBlock res" where
  "mh_Puts [] m = Ok m"
| "mh_Puts ((h, v) # ps) m = res_bind (mh_Put m h v) (mh_Puts ps)"

definition by_bucket :: "nat \<Rightarrow> (i32 \<times> i64) list \<Rightarrow> (nat \<times> i64) list" where
  "by_bucket cap ps = map (\<lambda>(h, v). (bucket_of cap h, v)) ps"

lemma mh_Puts_from:
  assumes "mh_inv m" and "mh_counted m" and "list_all (\<lambda>(h, v). fits5 v \<and> v \<noteq> 0) ps"
  shows "\<exists>m'. mh_Puts ps m = Ok m' \<and> mh_inv m' \<and> mh_counted m' \<and> mh_capacity m' = mh_capacity m \<and>
    (\<forall>b < mh_capacity m. mh_bucket m' b =
      (case map_of (rev (by_bucket (mh_capacity m) ps)) b of Some v \<Rightarrow> v | None \<Rightarrow> mh_bucket m b))"
  using assms
proof (induction ps arbitrary: m)
  case Nil
  then show ?case by (simp add: by_bucket_def)
next
  case (Cons p ps)
  obtain h v where p: "p = (h, v)" by (cases p)
  have v: "fits5 v" "v \<noteq> 0" using Cons.prems(3) p by auto
  let ?m = "mh_put m h v"
  obtain m' where m': "mh_Puts ps ?m = Ok m'" "mh_inv m'" "mh_counted m'" "mh_capacity m' = mh_capacity m"
    "\<forall>b < mh_capacity m. mh_bucket m' b =
      (case map_of (rev (by_bucket (mh_capacity m) ps)) b of Some v \<Rightarrow> v | None \<Rightarrow> mh_bucket ?m b)"
    using Cons.IH [of ?m] mh_put_inv [OF Cons.prems(1)] mh_put_counted [OF Cons.prems(1,2) v] Cons.prems(3) by fastforce
  have "\<forall>b < mh_capacity m. mh_bucket m' b =
      (case map_of (rev (by_bucket (mh_capacity m) (p # ps))) b of Some v \<Rightarrow> v | None \<Rightarrow> mh_bucket m b)"
    using m'(5) mh_bucket_put [OF Cons.prems(1) _ v(1), of _ h]
    by (simp add: by_bucket_def p map_add_def split: option.split)
  then show ?case using m'(1-4) Cons.prems(1) by (simp add: p mh_Put_put)
qed

lemma mh_Puts_new:
  assumes "5 \<le> memSize" and "list_all (\<lambda>(h, v). fits5 v \<and> v \<noteq> 0) ps"
  shows "\<exists>m. mh_Puts ps (mh_open None memSize) = Ok m \<and>
    (\<forall>h. mh_Get m h = Ok (case map_of (rev (by_bucket (memSize div 5) ps)) (bucket_of (memSize div 5) h) of
       Some v \<Rightarrow> v | None \<Rightarrow> 0)) \<and>
    mh_Count m = int (card (bucket_of (memSize div 5) ` fst ` set ps))"
proof -
  let ?m = "mh_open None memSize" and ?c = "memSize div 5"
  have cap: "mh_capacity ?m = ?c" by (simp add: mh_open_def Let_def keyLength_def)
  obtain m where m: "mh_Puts ps ?m = Ok m" "mh_inv m" "mh_counted m" "mh_capacity m = ?c"
    "\<forall>b < ?c. mh_bucket m b = (case map_of (rev (by_bucket ?c ps)) b of Some v \<Rightarrow> v | None \<Rightarrow> mh_bucket ?m b)"
    using mh_Puts_from [OF mh_open_new(1,3) [OF assms(1)] assms(2)] unfolding cap by blast
  have c: "0 < ?c" using assms(1) by (simp add: div_greater_zero_iff)
  have zero: "mh_bucket ?m b = 0" if "b < ?c" for b using mh_open_new(2) [OF assms(1)] that by (simp add: cap)
  have get: "mh_Get m h = Ok (case map_of (rev (by_bucket ?c ps)) (bucket_of ?c h) of Some v \<Rightarrow> v | None \<Rightarrow> 0)" for h
    using mh_Get_bucket [OF m(2), of h] m(4,5) zero bucket_of_less [OF c] by (simp split: option.split)
  have "{b. b < ?c \<and> mh_bucket m b \<noteq> 0} = bucket_of ?c ` fst ` set ps"
  proof -
    have "mh_bucket m b \<noteq> 0 \<longleftrightarrow> b \<in> fst ` set (by_bucket ?c ps)" if "b < ?c" for b
    proof (cases "map_of (rev (by_bucket ?c ps)) b")
      case None
      then have "mh_bucket m b = 0" "b \<notin> fst ` set (by_bucket ?c ps)"
        using that m(5) zero by (simp, simp add: map_of_eq_None_iff)
      then show ?thesis by simp
    next
      case (Some v)
      then have "(b, v) \<in> set (by_bucket ?c ps)" using map_of_SomeD by fastforce
      moreover from this have "v \<noteq> 0" using assms(2) by (auto simp: by_bucket_def list_all_iff)
      ultimately show ?thesis using that m(5) Some by force
    qed
    moreover have "fst ` set (by_bucket ?c ps) = bucket_of ?c ` fst ` set ps" by (force simp: by_bucket_def)
    ultimately have iff: "mh_bucket m b \<noteq> 0 \<longleftrightarrow> b \<in> bucket_of ?c ` fst ` set ps" if "b < ?c" for b
      using that by blast
    have "bucket_of ?c ` fst ` set ps \<subseteq> {..<?c}" using bucket_of_less [OF c] by auto
    with iff show ?thesis by blast
  qed
  then show ?thesis using m(1,3,4) get by (simp add: mh_counted_def mh_Count_def)
qed

text \<open>The header has the count, so that the reopened table has it again.\<close>

definition mh_header :: "MemHashBlock \<Rightarrow> bool" where
  "mh_header m \<longleftrightarrow> seg 4 4 (mh_buf m) = PutInt32 (word_of_int (mh_count m))"

lemma mh_put_header:
  assumes "mh_inv m" and "mh_header m"
  shows "mh_header (mh_put m h v)"
proof -
  let ?c = "bucket_of (mh_capacity m) h"
  let ?m = "if mh_bucket m ?c = 0 then mh_addCount 1 m else m"
  have c: "?c < mh_capacity m" using assms(1) by (simp add: bucket_of_less mh_inv_def)
  have inv: "mh_inv ?m" "mh_capacity ?m = mh_capacity m" using assms(1) by (simp_all add: mh_addCount_inv)
  have "4 + 4 \<le> length (mh_buf m)" using assms(1) by (simp add: mh_inv_def memHeadReserved_def)
  then have m: "mh_header ?m"
    using assms(2) by (simp add: mh_header_def mh_addCount_def seg_patch_same)
  have "seg 4 4 (mh_buf (mh_put m h v)) = seg 4 4 (mh_buf ?m)"
    using mh_room [OF inv(1), unfolded inv(2), OF c] by (simp add: mh_put_def Let_def seg_patch_other memHeadReserved_def)
  moreover have "mh_count (mh_put m h v) = mh_count ?m" by (simp add: mh_put_def Let_def)
  ultimately show ?thesis using m by (simp add: mh_header_def)
qed

lemma mh_Puts_header:
  "mh_Puts ps m = Ok m' \<Longrightarrow> mh_inv m \<Longrightarrow> mh_header m \<Longrightarrow> mh_header m' \<and> (ps \<noteq> [] \<longrightarrow> mh_dirty m')"
proof (induction ps arbitrary: m)
  case (Cons p ps)
  then obtain h v where p: "p = (h, v)" by (cases p)
  have "mh_Puts ps (mh_put m h v) = Ok m'" using Cons.prems p by (simp add: mh_Put_put)
  moreover have "mh_dirty (mh_put m h v)" by (simp add: mh_put_def Let_def)
  ultimately show ?case
    using Cons.IH [of "mh_put m h v"] Cons.prems(2,3) mh_put_inv mh_put_header by (cases ps) auto
qed simp

lemma mh_open_new_header: "mh_header (mh_open None memSize)"
  by (cases memSize) (simp_all add: mh_header_def mh_open_def Let_def seg_def memHeadReserved_def numeral_eq_Suc PutInt32_def PutUint32_def)

lemma mh_Puts_reopened:
  assumes "5 \<le> memSize" and "memSize < 2 ^ 31" and "list_all (\<lambda>(h, v). fits5 v \<and> v \<noteq> 0) ps" and "ps \<noteq> []"
  shows "\<exists>m. mh_Puts ps (mh_open None memSize) = Ok m \<and> mh_open (mh_file (mh_Flush m)) memSize' = mh_Flush m"
proof -
  obtain m where m: "mh_Puts ps (mh_open None memSize) = Ok m" "mh_inv m" "mh_counted m"
    "mh_capacity m = mh_capacity (mh_open None memSize)"
    using mh_Puts_from [OF mh_open_new(1,3) [OF assms(1)] assms(3)] by blast
  have h: "mh_header m" "mh_dirty m"
    using mh_Puts_header [OF m(1) mh_open_new(1) [OF assms(1)] mh_open_new_header] assms(4) by simp_all
  have "card {b. b < mh_capacity m \<and> mh_bucket m b \<noteq> 0} \<le> card {..<mh_capacity m}"
    by (rule card_mono) auto
  also have "\<dots> \<le> memSize" using m(4) by (simp add: mh_open_def Let_def)
  finally have "nat (mh_count m) < 2 ^ 31" "0 \<le> mh_count m"
    using m(3) assms(2) by (simp_all add: mh_counted_def)
  then have "sint (word_of_nat (nat (mh_count m)) :: i32) = mh_count m" by (subst sint_word_of_nat) simp_all
  with \<open>0 \<le> mh_count m\<close> have s: "sint (word_of_int (mh_count m) :: i32) = mh_count m" by simp
  have "Int32 (drop 4 (mh_buf m)) = Int32 (seg 4 4 (mh_buf m))" by (simp add: seg_def Int32_def conv_take)
  also have "\<dots> = word_of_int (mh_count m)" using h(1) by (simp add: mh_header_def)
  finally have "mh_open (mh_file (mh_Flush m)) memSize' = (mh_Flush m)\<lparr>mh_count := mh_count m\<rparr>"
    using mh_open_flushed [OF m(2)] h(2) s by simp
  then show ?thesis using m(1) by (simp add: mh_Flush_def)
qed

end
