(* ===== verification/RealKeyFile.thy ===== *)
theory RealKeyFile
  imports ChainIndex "HOL-Library.Sublist"
begin

text \<open>
  internal/db/io/real\_key\_file.go: the append-only file of chained key records, with its append
  buffer. The record has the content of the file on disk, the buffer and \<open>fileEnd\<close>. The system calls
  on the open file succeed; what they deliver at the end of the file is modelled: \<open>Read\<close> returns
  fewer bytes than asked for without an error and leaves the rest of the slice zero, \<open>ReadAt\<close> returns
  them with \<open>io.EOF\<close>. Positions are only used when they are positive, so they are \<^typ>\<open>nat\<close>; links
  read from the file stay \<^typ>\<open>i64\<close>.
\<close>

definition kfileHeaderSize :: nat where "kfileHeaderSize = 2"
definition appendBufThreshold :: nat where "appendBufThreshold = 16384"

record RealKeyFile =
  kf_disk :: bytes
  kf_appendBuf :: bytes
  kf_fileEnd :: nat

subsection \<open>System calls\<close>

text \<open>A \<open>Seek\<close> and one \<open>Read\<close> of \<open>n\<close> bytes: the filled slice and the position after it.\<close>

definition file_read :: "bytes \<Rightarrow> nat \<Rightarrow> nat \<Rightarrow> (bytes \<times> nat) res" where
  "file_read disk pos n =
     (let got = take n (drop pos disk)
      in if 0 < n \<and> got = [] then Err IoEOF
         else Ok (got @ replicate (n - length got) 0, pos + length got))"

definition file_write :: "bytes \<Rightarrow> nat \<Rightarrow> bytes \<Rightarrow> bytes" where
  "file_write disk pos bs = patch pos bs (disk @ replicate (pos - length disk) 0)"

subsection \<open>The operations\<close>

definition kf_open :: "bytes \<Rightarrow> RealKeyFile" where
  "kf_open disk = (if disk = []
     then \<lparr>kf_disk = [0xCA, 0xFE], kf_appendBuf = [], kf_fileEnd = kfileHeaderSize\<rparr>
     else \<lparr>kf_disk = disk, kf_appendBuf = [], kf_fileEnd = length disk\<rparr>)"

definition flushAppendBuf :: "RealKeyFile \<Rightarrow> RealKeyFile" where
  "flushAppendBuf f = (if kf_appendBuf f = [] then f
     else f\<lparr>kf_disk := file_write (kf_disk f) (kf_fileEnd f) (kf_appendBuf f),
            kf_fileEnd := kf_fileEnd f + length (kf_appendBuf f), kf_appendBuf := []\<rparr>)"

definition kf_IsDirty :: "RealKeyFile \<Rightarrow> bool" where
  "kf_IsDirty f \<longleftrightarrow> 0 < length (kf_appendBuf f)"

text \<open>
  \<open>getRecordReadAt\<close>: one \<open>ReadAt\<close> of 128 bytes into \<open>buf\<close>. The first definition is its switch on the
  blob prefix, at the offset behind it; the second its last part, where a blob that goes beyond
  the buffer is completed by a second \<open>ReadAt\<close>.
\<close>

definition record_blob_len :: "bytes \<Rightarrow> nat \<Rightarrow> nat \<Rightarrow> (nat \<times> nat) res" where
  "record_blob_len buf off blobPrefix =
     (if blobPrefix = 255
      then if off + 2 > length buf then Err (ErrText ''blob length header truncated'')
           else Ok (unat (Uint16 (drop off buf)), off + 2)
      else if blobPrefix = 254
      then if off + 4 > length buf then Err (ErrText ''blob length header truncated'')
           else Ok (unat (Uint32 (drop off buf)), off + 4)
      else Ok (blobPrefix, off))"

definition record_blob_data :: "bytes \<Rightarrow> nat \<Rightarrow> bytes \<Rightarrow> nat \<Rightarrow> nat \<Rightarrow> bytes res" where
  "record_blob_data disk pos buf off blobLen =
     (if off + blobLen \<le> length buf then Ok (take blobLen (drop off buf))
      else let copied = length buf - off; more = take (blobLen - copied) (drop (pos + length buf) disk)
           in if length more < blobLen - copied then Err IoEOF else Ok (drop off buf @ more))"

definition getRecordReadAt :: "bytes \<Rightarrow> nat \<Rightarrow> KeyRecord res" where
  "getRecordReadAt disk pos =
     (let buf = take 128 (drop pos disk); n = length buf
      in if n < 8 then Err IoEOF
      else let deleted = (buf ! 0 \<noteq> 0); prevPos = Int5 (drop 1 buf); keyLen = unat (Uint16 (drop 6 buf))
      in if 8 + keyLen + 1 > n then Err (ErrText ''record extends beyond read buffer'')
      else let key = take keyLen (drop 8 buf); blobPrefix = unat (buf ! (8 + keyLen)); off = 8 + keyLen + 1
      in if blobPrefix = 0
         then Ok \<lparr>kr_Deleted = deleted, kr_PrevPos = prevPos, kr_TimeKey = key, kr_DataPos = [],
                  kr_Offset = pos + off\<rparr>
      else res_bind (record_blob_len buf off blobPrefix) (\<lambda>(blobLen, off).
           res_bind (record_blob_data disk pos buf off blobLen) (\<lambda>data.
           Ok \<lparr>kr_Deleted = deleted, kr_PrevPos = prevPos, kr_TimeKey = key, kr_DataPos = data,
               kr_Offset = pos + off + blobLen\<rparr>)))"

definition GetRecord :: "nat \<Rightarrow> RealKeyFile \<Rightarrow> KeyRecord res \<times> RealKeyFile" where
  "GetRecord pos f =
     (if pos < kf_fileEnd f then (getRecordReadAt (kf_disk f) pos, f)
      else let f' = flushAppendBuf f in (getRecordReadAt (kf_disk f') pos, f'))"

definition kf_readBlob :: "bytes \<Rightarrow> nat \<Rightarrow> bytes res" where
  "kf_readBlob disk pos = res_bind (file_read disk pos 1) (\<lambda>(b, pos).
     let baseLen = unat (b ! 0)
     in if baseLen = 0 then Ok []
        else if baseLen = 255 then res_bind (file_read disk pos 2) (\<lambda>(l, pos).
          res_bind (file_read disk pos (unat (Uint16 l))) (\<lambda>(data, _). Ok data))
        else if baseLen = 254 then res_bind (file_read disk pos 4) (\<lambda>(l, pos).
          res_bind (file_read disk pos (unat (Uint32 l))) (\<lambda>(data, _). Ok data))
        else res_bind (file_read disk pos baseLen) (\<lambda>(data, _). Ok data))"

definition IsDeleted :: "nat \<Rightarrow> RealKeyFile \<Rightarrow> bool res \<times> RealKeyFile" where
  "IsDeleted pos f = (let f' = flushAppendBuf f in
     (res_bind (file_read (kf_disk f') pos 1) (\<lambda>(b, _). Ok (b ! 0 \<noteq> 0)), f'))"

definition GetPrevPos :: "nat \<Rightarrow> RealKeyFile \<Rightarrow> i64 res \<times> RealKeyFile" where
  "GetPrevPos pos f = (let f' = flushAppendBuf f in
     (res_bind (file_read (kf_disk f') (pos + 1) 5) (\<lambda>(b, _). Ok (Int5 b)), f'))"

definition GetTimeKey :: "nat \<Rightarrow> RealKeyFile \<Rightarrow> bytes res \<times> RealKeyFile" where
  "GetTimeKey pos f = (let f' = flushAppendBuf f in
     (res_bind (file_read (kf_disk f') (pos + 1 + 5) 2) (\<lambda>(l, p).
        let keyLen = unat (Uint16 l) in
        if keyLen > 0 then res_bind (file_read (kf_disk f') p keyLen) (\<lambda>(data, _). Ok data)
        else Ok []), f'))"

definition GetDataPos :: "nat \<Rightarrow> RealKeyFile \<Rightarrow> bytes res \<times> RealKeyFile" where
  "GetDataPos pos f = (let f' = flushAppendBuf f in
     (res_bind (file_read (kf_disk f') (pos + 1 + 5) 2) (\<lambda>(l, p).
        kf_readBlob (kf_disk f') (p + unat (Uint16 l))), f'))"

definition SetDelete :: "nat \<Rightarrow> bool \<Rightarrow> RealKeyFile \<Rightarrow> RealKeyFile" where
  "SetDelete pos deleted f = (let f' = flushAppendBuf f in
     f'\<lparr>kf_disk := file_write (kf_disk f') pos [if deleted then 1 else 0]\<rparr>)"

definition SetHashLink :: "nat \<Rightarrow> i64 \<Rightarrow> RealKeyFile \<Rightarrow> RealKeyFile" where
  "SetHashLink pos v f = (let f' = flushAppendBuf f in
     f'\<lparr>kf_disk := file_write (kf_disk f') (pos + 1) (Bytes5 v)\<rparr>)"

definition kf_record :: "i64 \<Rightarrow> bytes \<Rightarrow> bytes \<Rightarrow> dout \<Rightarrow> dout" where
  "kf_record prevPos indexKey dataPos = writes [WriteBoolean False, WriteLong5 prevPos,
     WriteShortBytes indexKey, WriteBlob dataPos]"

definition kf_Write :: "nat \<Rightarrow> i64 \<Rightarrow> bytes \<Rightarrow> bytes \<Rightarrow> RealKeyFile \<Rightarrow> RealKeyFile" where
  "kf_Write pos prevPos indexKey dataPos f = (let f' = flushAppendBuf f in
     f'\<lparr>kf_disk := file_write (kf_disk f') pos (ToByteArray (kf_record prevPos indexKey dataPos NewDataOutputX))\<rparr>)"

definition kf_Update :: "nat \<Rightarrow> bytes \<Rightarrow> bytes \<Rightarrow> RealKeyFile \<Rightarrow> bool res \<times> RealKeyFile" where
  "kf_Update pos key v f = (let f' = flushAppendBuf f; disk = kf_disk f' in
     case file_read disk (pos + 1 + 5) 2 of
       Ok (l, p) \<Rightarrow>
         let keyLen = unat (Uint16 l) in
         (case kf_readBlob disk (p + keyLen) of
            Ok org \<Rightarrow>
              if length org < length v then (Ok False, f')
              else (Ok True, f'\<lparr>kf_disk := file_write disk (pos + 1 + 5 + 2 + keyLen)
                                   (ToByteArray (WriteBlob v NewDataOutputX))\<rparr>)
          | Err e \<Rightarrow> (Err e, f')
          | Panic q \<Rightarrow> (Panic q, f'))
     | Err e \<Rightarrow> (Err e, f')
     | Panic q \<Rightarrow> (Panic q, f'))"

definition kf_Append :: "i64 \<Rightarrow> bytes \<Rightarrow> bytes \<Rightarrow> RealKeyFile \<Rightarrow> nat \<times> RealKeyFile" where
  "kf_Append prevPos indexKey dataPos f =
     (let pos = kf_fileEnd f + length (kf_appendBuf f);
          f' = f\<lparr>kf_appendBuf := kf_appendBuf f @ ToByteArray (kf_record prevPos indexKey dataPos NewDataOutputX)\<rparr>
      in (pos, if length (kf_appendBuf f') \<ge> appendBufThreshold then flushAppendBuf f' else f'))"

definition FirstPos :: nat where
  "FirstPos = kfileHeaderSize"

definition kf_Length :: "RealKeyFile \<Rightarrow> nat" where
  "kf_Length f = kf_fileEnd f + length (kf_appendBuf f)"

subsection \<open>The content of the file\<close>

text \<open>What is on disk or waits in the buffer. \<open>fileEnd\<close> is the length of the part on disk.\<close>

definition kf_content :: "RealKeyFile \<Rightarrow> bytes" where
  "kf_content f = kf_disk f @ kf_appendBuf f"

definition kf_inv :: "RealKeyFile \<Rightarrow> bool" where
  "kf_inv f \<longleftrightarrow> kf_fileEnd f = length (kf_disk f)"

lemma file_write_end: "file_write disk (length disk) bs = disk @ bs"
  by (simp add: file_write_def patch_def)

lemma file_write_inside: "pos + length bs \<le> length disk \<Longrightarrow> file_write disk pos bs = patch pos bs disk"
  by (simp add: file_write_def)

lemma flush_content [simp]: "kf_inv f \<Longrightarrow> kf_content (flushAppendBuf f) = kf_content f"
  by (simp add: flushAppendBuf_def kf_content_def kf_inv_def file_write_end)

lemma flush_inv [simp]: "kf_inv f \<Longrightarrow> kf_inv (flushAppendBuf f)"
  by (simp add: flushAppendBuf_def kf_inv_def file_write_end)

lemma flush_disk: "kf_inv f \<Longrightarrow> kf_disk (flushAppendBuf f) = kf_content f"
  by (simp add: flushAppendBuf_def kf_content_def kf_inv_def file_write_end)

lemma flush_buf [simp]: "kf_appendBuf (flushAppendBuf f) = []"
  by (simp add: flushAppendBuf_def)

lemma kf_Length_content: "kf_inv f \<Longrightarrow> kf_Length f = length (kf_content f)"
  by (simp add: kf_Length_def kf_inv_def kf_content_def)

subsection \<open>The bytes of a record\<close>

definition blob_bytes :: "bytes \<Rightarrow> bytes" where
  "blob_bytes b =
     (if length b = 0 then [0]
      else if length b \<le> 253 then [word_of_nat (length b)] @ b
      else if length b \<le> 65535 then [255] @ PutUint16 (word_of_nat (length b)) @ b
      else [254] @ PutUint32 (word_of_nat (length b)) @ b)"

definition blob_head :: "bytes \<Rightarrow> nat" where
  "blob_head b = (if length b \<le> 253 then 1 else if length b \<le> 65535 then 3 else 5)"

lemma length_blob_bytes: "length (blob_bytes b) = blob_head b + length b"
  by (auto simp: blob_bytes_def blob_head_def)

lemma emits_WriteBlob: "emits (WriteBlob b) (blob_bytes b)"
  unfolding WriteBlob_def blob_bytes_def writes.simps fcomp_assoc
  by (auto intro!: emits_intro simp del: append_Cons append_Nil)

definition enc_record :: "bool \<Rightarrow> i64 \<Rightarrow> bytes \<Rightarrow> bytes \<Rightarrow> bytes" where
  "enc_record del prev key data = [if del then 1 else 0] @ PutInt5 prev @
     PutUint16 (word_of_nat (length key)) @ key @ blob_bytes data"

lemma emits_record: "emits (kf_record prev key data) (enc_record False prev key data)"
  unfolding kf_record_def enc_record_def writes.simps fcomp_assoc WriteShortBytes_def
  by (intro emits_seq emits_WriteLong5 emits_WriteInt16 emits_Write emits_WriteBlob)
    (use emits_WriteBoolean [of False] in simp)

lemma kf_record_bytes: "ToByteArray (kf_record prev key data NewDataOutputX) = enc_record False prev key data"
  by (rule emits_ToByteArray [OF emits_record])

lemma length_enc_record: "length (enc_record del prev key data) = 8 + length key + blob_head data + length data"
  by (simp add: enc_record_def length_blob_bytes)

text \<open>
  The records that \<open>getRecordReadAt\<close> can read: the key and the length bytes of the blob have to lie
  in its buffer of 128 bytes. The data may be of any length.
\<close>

definition ok_record :: "bytes \<Rightarrow> bytes \<Rightarrow> bool" where
  "ok_record key data \<longleftrightarrow> 8 + length key + blob_head data \<le> 128 \<and> ok_blob data"

lemma take_drop_take: "i + k \<le> m \<Longrightarrow> take k (drop i (take m xs)) = take k (drop i xs)"
  by (simp add: drop_take min_def)

lemma Uint16_take: "Uint16 (take 2 b) = Uint16 b" and Uint32_take: "Uint32 (take 4 b) = Uint32 b"
  by (simp_all add: conv_take)

lemma Int5_take5: "Int5 (take 5 b) = Int5 b"
  by (simp add: Int5_def)

text \<open>The three parts of the header in the first bytes of the buffer.\<close>

lemma record_header:
  assumes "X = enc_record del prev key data @ post" and "ok_record key data" and "fits5 prev"
  shows "(take 128 X ! 0 \<noteq> 0) = del" "Int5 (drop 1 (take 128 X)) = prev"
    "unat (Uint16 (drop 6 (take 128 X))) = length key" "take (length key) (drop 8 (take 128 X)) = key"
    "take 128 X ! (8 + length key) = hd (blob_bytes data)"
    "8 + length key + blob_head data \<le> length (take 128 X)"
    "8 + length key + blob_head data + length data \<le> length X"
proof -
  have len: "length key < 2 ^ 16" "8 + length key + blob_head data \<le> 128" "1 \<le> blob_head data"
    using assms(2) by (auto simp: ok_record_def blob_head_def split: if_splits)
  have X: "X = [if del then 1 else 0] @ PutInt5 prev @ PutUint16 (word_of_nat (length key)) @ key @ blob_bytes data @ post"
    using assms(1) by (simp add: enc_record_def)
  show "(take 128 X ! 0 \<noteq> 0) = del" by (simp add: X)
  have "take 5 (drop 1 (take 128 X)) = take 5 (drop 1 X)" by (rule take_drop_take) simp
  also have "\<dots> = PutInt5 prev" by (simp add: X)
  finally show "Int5 (drop 1 (take 128 X)) = prev"
    using Int5_take5 [of "drop 1 (take 128 X)"] assms(3) by simp
  have "take 2 (drop 6 (take 128 X)) = take 2 (drop 6 X)" by (rule take_drop_take) simp
  also have "\<dots> = PutUint16 (word_of_nat (length key))" by (simp add: X)
  finally have "Uint16 (drop 6 (take 128 X)) = word_of_nat (length key)"
    using Uint16_take [of "drop 6 (take 128 X)"] by simp
  then show "unat (Uint16 (drop 6 (take 128 X))) = length key"
    using len(1) by (simp add: unat_of_nat take_bit_nat_eq_self)
  have "take (length key) (drop 8 (take 128 X)) = take (length key) (drop 8 X)"
    using len by (intro take_drop_take) simp
  also have "\<dots> = key" by (simp add: X)
  finally show "take (length key) (drop 8 (take 128 X)) = key" .
  have "take 128 X ! (8 + length key) = X ! (8 + length key)" using len by simp
  also have "\<dots> = hd (blob_bytes data)"
    using length_blob_bytes [of data] len(3) by (cases "blob_bytes data") (simp_all add: X nth_append)
  finally show "take 128 X ! (8 + length key) = hd (blob_bytes data)" .
  have "length X = 8 + length key + blob_head data + length data + length post"
    by (simp add: X length_blob_bytes)
  then show "8 + length key + blob_head data \<le> length (take 128 X)"
    "8 + length key + blob_head data + length data \<le> length X"
    using len by simp_all
qed

text \<open>The length bytes and the data of the blob.\<close>

lemma record_drop:
  assumes "X = enc_record del prev key data @ post"
  shows "drop (8 + length key) X = blob_bytes data @ post"
    "drop (8 + length key + blob_head data) X = data @ post"
proof -
  obtain P where P: "P = [if del then 1 else 0] @ PutInt5 prev @ PutUint16 (word_of_nat (length key)) @ key"
    by simp
  then have "length P = 8 + length key" and "X = P @ (blob_bytes data @ post)"
    using assms by (simp_all add: enc_record_def)
  then show "drop (8 + length key) X = blob_bytes data @ post" by simp
  then have "drop (blob_head data) (drop (8 + length key) X) = drop (blob_head data) (blob_bytes data) @ post"
    by (simp add: length_blob_bytes)
  also have "drop (blob_head data) (blob_bytes data) = data"
    by (auto simp: blob_bytes_def blob_head_def)
  finally show "drop (8 + length key + blob_head data) X = data @ post" by (simp add: add.commute)
qed

lemma blob_head_hd:
  "ok_blob data \<Longrightarrow> unat (hd (blob_bytes data)) =
     (if length data \<le> 253 then length data else if length data \<le> 65535 then 255 else 254)"
  by (auto simp: blob_bytes_def ok_blob_def unat_of_nat take_bit_nat_eq_self)

text \<open>The length of the blob, as the three branches of the code find it.\<close>

lemma record_blob_len:
  assumes "X = enc_record del prev key data @ post" and "ok_record key data"
    and "off = 8 + length key + 1" and "blobPrefix = unat (hd (blob_bytes data))" and "data \<noteq> []"
  shows "record_blob_len (take 128 X) off blobPrefix = Ok (length data, 8 + length key + blob_head data)"
proof -
  have ok: "8 + length key + blob_head data \<le> 128" "ok_blob data"
    using assms(2) by (simp_all add: ok_record_def)
  have blobs: "drop off X = tl (blob_bytes data @ post)"
    using record_drop(1) [OF assms(1)] assms(3) by (metis drop_Suc tl_drop Suc_eq_plus1)
  have n: "8 + length key + blob_head data \<le> length (take 128 X)"
    using ok(1) record_drop(2) [OF assms(1)] by (simp add: assms(1) length_enc_record)
  consider "length data \<le> 253" | "\<not> length data \<le> 253" "length data \<le> 65535" | "\<not> length data \<le> 65535"
    by fastforce
  then show ?thesis
  proof cases
    case 1
    with assms(4,5) ok(2) show ?thesis by (simp add: record_blob_len_def blob_head_hd blob_head_def assms(3))
  next
    case 2
    have "take 2 (drop off (take 128 X)) = take 2 (drop off X)"
      using ok(1) 2 assms(3) by (intro take_drop_take) (simp add: blob_head_def)
    also have "\<dots> = PutUint16 (word_of_nat (length data))" using 2 assms(5) by (simp add: blobs blob_bytes_def)
    finally have "Uint16 (drop off (take 128 X)) = word_of_nat (length data)"
      using Uint16_take [of "drop off (take 128 X)"] by simp
    with 2 n assms(3,4) ok(2) show ?thesis
      by (simp add: record_blob_len_def blob_head_hd del: length_take)
        (simp add: blob_head_def unat_of_nat take_bit_nat_eq_self del: length_take)
  next
    case 3
    have "take 4 (drop off (take 128 X)) = take 4 (drop off X)"
      using ok(1) 3 assms(3) by (intro take_drop_take) (simp add: blob_head_def)
    also have "\<dots> = PutUint32 (word_of_nat (length data))" using 3 assms(5) by (simp add: blobs blob_bytes_def)
    finally have "Uint32 (drop off (take 128 X)) = word_of_nat (length data)"
      using Uint32_take [of "drop off (take 128 X)"] by simp
    with 3 n assms(3,4) ok(2) show ?thesis
      by (simp add: record_blob_len_def blob_head_hd del: length_take)
        (simp add: blob_head_def ok_blob_def unat_of_nat take_bit_nat_eq_self del: length_take)
  qed
qed

text \<open>The data, from the buffer alone or completed from the file.\<close>

lemma record_data:
  assumes "drop off X = data @ post" and "off \<le> length (take 128 X)" and "X = drop pos disk"
  shows "record_blob_data disk pos (take 128 X) off (length data) = Ok data"
proof (cases "off + length data \<le> length (take 128 X)")
  case True
  then have "take (length data) (drop off (take 128 X)) = take (length data) (drop off X)"
    by (intro take_drop_take) simp
  with True assms(1) show ?thesis by (simp add: record_blob_data_def)
next
  case False
  have "off + length data \<le> length X" using arg_cong [OF assms(1), of length] assms(2) by auto
  with False have n: "length (take 128 X) = 128" by simp
  have "drop (pos + 128) disk = drop 128 X" using assms(3) by (simp add: add.commute)
  moreover have "drop off X = drop off (take 128 X) @ drop 128 X"
    using assms(2) n by (metis append_take_drop_id drop_append diff_is_0_eq drop0)
  then have "data @ post = drop off (take 128 X) @ drop 128 X" using assms(1) by simp
  then have "take (length data) (data @ post) = take (length data) (drop off (take 128 X) @ drop 128 X)"
    by (rule arg_cong)
  then have "data = drop off (take 128 X) @ take (length data - (128 - off)) (drop 128 X)"
    using False n by (simp only: take_append length_drop) simp
  moreover from this have "length (take (length data - (128 - off)) (drop 128 X)) = length data - (128 - off)"
    using False n by (metis add_diff_cancel_left' length_append length_drop)
  ultimately show ?thesis using False [unfolded n]
    unfolding record_blob_data_def Let_def n by (simp del: length_take take_take)
qed

lemma getRecordReadAt_record:
  assumes "drop pos disk = enc_record del prev key data @ post" and "ok_record key data" and "fits5 prev"
  shows "getRecordReadAt disk pos = Ok \<lparr>kr_Deleted = del, kr_PrevPos = prev, kr_TimeKey = key,
    kr_DataPos = data, kr_Offset = pos + length (enc_record del prev key data)\<rparr>"
proof -
  define X where "X = drop pos disk"
  have X: "X = enc_record del prev key data @ post" using assms(1) by (simp add: X_def)
  note h = record_header [OF X assms(2,3)] and d = record_drop [OF X]
  have b: "ok_blob data" "1 \<le> blob_head data" using assms(2) by (simp_all add: ok_record_def blob_head_def)
  note len = record_blob_len [OF X assms(2) refl refl]
  note data = record_data [OF d(2) h(6) X_def]
  show ?thesis
  proof (cases "data = []")
    case True
    then show ?thesis using h b
      unfolding getRecordReadAt_def Let_def X_def [symmetric]
      by (simp add: blob_head_hd length_enc_record del: length_take nth_take) (simp add: blob_head_def)
  next
    case False
    then have "unat (hd (blob_bytes data)) \<noteq> 0" using b(1) by (simp add: blob_head_hd)
    have "length key + 9 \<le> length (take 128 X)" using h(6) b(2) by linarith
    moreover have "record_blob_len (take 128 X) (9 + length key) (unat (hd (blob_bytes data))) =
      Ok (length data, 8 + length key + blob_head data)" using len [OF False] by simp
    ultimately show ?thesis using \<open>unat (hd (blob_bytes data)) \<noteq> 0\<close>
      unfolding getRecordReadAt_def Let_def X_def [symmetric]
      by (simp add: h(1-5) h(2) [unfolded One_nat_def] data length_enc_record del: length_take nth_take)
  qed
qed

subsection \<open>A file of records\<close>

text \<open>
  The bytes of a file that holds the records, the newest first, and what the state has of them: the
  disk holds the older ones in whole, the append buffer the others.
\<close>

definition enc_entry :: "entry \<Rightarrow> bytes" where
  "enc_entry e = enc_record (e_del e) (e_prev e) (e_key e) (e_data e)"

definition kf_size :: "entry \<Rightarrow> nat" where
  "kf_size e = 8 + length (e_key e) + blob_head (e_data e) + length (e_data e)"

primrec kf_img :: "entry list \<Rightarrow> bytes" where
  "kf_img [] = [0xCA, 0xFE]"
| "kf_img (e # es) = kf_img es @ enc_entry e"

definition kf_rep :: "RealKeyFile \<Rightarrow> entry list \<Rightarrow> bool" where
  "kf_rep f es \<longleftrightarrow> kf_inv f \<and> kf_content f = kf_img es \<and> (\<exists>old. suffix old es \<and> kf_disk f = kf_img old) \<and>
     (\<forall>e\<in>set es. ok_record (e_key e) (e_data e) \<and> fits5 (e_prev e))"

lemma length_enc_entry: "length (enc_entry e) = kf_size e"
  by (simp add: enc_entry_def kf_size_def length_enc_record)

lemma length_kf_img: "length (kf_img es) = records_size kf_size FirstPos es"
  by (induction es) (simp_all add: length_enc_entry FirstPos_def kfileHeaderSize_def)

lemma kf_img_append: "\<exists>post. kf_img (new @ es) = kf_img es @ post"
  by (induction new) auto

lemma kf_img_at: "\<exists>post. drop (records_size kf_size FirstPos es) (kf_img (new @ e # es)) = enc_entry e @ post"
  using kf_img_append [of new "e # es"] by (auto simp: length_kf_img [symmetric])

lemma kf_rep_flush: "kf_rep f es \<Longrightarrow> kf_rep (flushAppendBuf f) es"
  by (auto simp: kf_rep_def flush_disk)

lemma kf_rep_flush_disk: "kf_rep f es \<Longrightarrow> kf_disk (flushAppendBuf f) = kf_img es"
  by (simp add: kf_rep_def flush_disk)

lemma kf_size_pos: "0 < kf_size e"
  by (simp add: kf_size_def)

lemma suffix_longer:
  assumes "suffix old (new @ e # es)" and "records_size kf_size FirstPos es < records_size kf_size FirstPos old"
  shows "\<exists>mid. old = mid @ e # es"
proof -
  have "\<not> suffix old es"
    using assms(2) records_size_append [of kf_size FirstPos old] by (auto simp: suffix_def leD)
  moreover have "suffix (e # es) (new @ e # es)" by (simp add: suffix_def)
  ultimately show ?thesis using suffix_same_cases [OF assms(1), of "e # es"] suffix_Cons [of old e es]
    by (auto simp: suffix_def)
qed

lemma kf_read_entry:
  assumes "drop pos disk = enc_entry e @ post" and "ok_record (e_key e) (e_data e)" and "fits5 (e_prev e)"
  shows "getRecordReadAt disk pos = Ok (entry_record (pos + kf_size e) e)"
  using getRecordReadAt_record [of pos disk "e_del e" "e_prev e" "e_key e" "e_data e" post] assms
  by (simp add: enc_entry_def entry_record_def length_enc_record kf_size_def)

lemma GetRecord_rep:
  assumes "kf_rep f (new @ e # es)"
  shows "\<exists>f'. GetRecord (records_size kf_size FirstPos es) f =
    (Ok (entry_record (records_size kf_size FirstPos (e # es)) e), f') \<and> kf_rep f' (new @ e # es)"
proof -
  let ?p = "records_size kf_size FirstPos es"
  have ok: "ok_record (e_key e) (e_data e)" "fits5 (e_prev e)" using assms by (auto simp: kf_rep_def)
  show ?thesis
  proof (cases "?p < kf_fileEnd f")
    case True
    obtain old where old: "suffix old (new @ e # es)" "kf_disk f = kf_img old" "kf_inv f"
      using assms by (auto simp: kf_rep_def)
    then obtain mid where "old = mid @ e # es"
      using suffix_longer [of old new e es] True by (auto simp: kf_inv_def length_kf_img)
    with old obtain post where "drop ?p (kf_disk f) = enc_entry e @ post" using kf_img_at by fastforce
    from kf_read_entry [OF this ok] show ?thesis using True assms by (simp add: GetRecord_def)
  next
    case False
    obtain post where "drop ?p (kf_disk (flushAppendBuf f)) = enc_entry e @ post"
      using kf_img_at kf_rep_flush_disk [OF assms] by fastforce
    from kf_read_entry [OF this ok] show ?thesis using False kf_rep_flush [OF assms] by (simp add: GetRecord_def Let_def)
  qed
qed

lemma file_read_at:
  "drop pos disk = xs @ ys \<Longrightarrow> length xs = n \<Longrightarrow> file_read disk pos n = Ok (xs, pos + n)"
  by (auto simp: file_read_def)

lemma enc_entry_parts:
  assumes "drop pos disk = enc_entry e @ post"
  shows "\<exists>p. drop pos disk = [if e_del e then 1 else 0] @ p"
    "\<exists>p. drop (pos + 1) disk = PutInt5 (e_prev e) @ p"
    "\<exists>p. drop (pos + 6) disk = PutUint16 (word_of_nat (length (e_key e))) @ p"
    "\<exists>p. drop (pos + 8) disk = e_key e @ p"
proof -
  have d: "drop (pos + k) disk = drop k (enc_entry e @ post)" for k
    using arg_cong [OF assms, of "drop k"] by (simp add: add.commute)
  show "\<exists>p. drop pos disk = [if e_del e then 1 else 0] @ p" using assms by (auto simp: enc_entry_def enc_record_def)
  show "\<exists>p. drop (pos + 1) disk = PutInt5 (e_prev e) @ p"
    "\<exists>p. drop (pos + 6) disk = PutUint16 (word_of_nat (length (e_key e))) @ p"
    "\<exists>p. drop (pos + 8) disk = e_key e @ p"
    unfolding d by (simp_all add: enc_entry_def enc_record_def)
qed

lemma flushed_entry:
  assumes "kf_rep f (new @ e # es)"
  shows "\<exists>post. drop (records_size kf_size FirstPos es) (kf_disk (flushAppendBuf f)) = enc_entry e @ post"
  using kf_img_at kf_rep_flush_disk [OF assms] by simp

lemma entry_reads:
  assumes "drop pos disk = enc_entry e @ post"
  shows "file_read disk pos 1 = Ok ([if e_del e then 1 else 0], pos + 1)"
    "file_read disk (pos + 1) 5 = Ok (PutInt5 (e_prev e), pos + 1 + 5)"
    "file_read disk (pos + 1 + 5) 2 = Ok (PutUint16 (word_of_nat (length (e_key e))), pos + 1 + 5 + 2)"
    "file_read disk (pos + 1 + 5 + 2) (length (e_key e)) = Ok (e_key e, pos + 1 + 5 + 2 + length (e_key e))"
proof -
  have six: "pos + 1 + 5 = pos + 6" and eight: "pos + 6 + 2 = pos + 8" by simp_all
  note parts = enc_entry_parts [OF assms]
  show "file_read disk pos 1 = Ok ([if e_del e then 1 else 0], pos + 1)"
    by (rule exE [OF parts(1)], erule file_read_at) simp
  show "file_read disk (pos + 1) 5 = Ok (PutInt5 (e_prev e), pos + 1 + 5)"
    by (rule exE [OF parts(2)], erule file_read_at) simp
  show "file_read disk (pos + 1 + 5) 2 = Ok (PutUint16 (word_of_nat (length (e_key e))), pos + 1 + 5 + 2)"
    unfolding six by (rule exE [OF parts(3)], erule file_read_at) simp
  show "file_read disk (pos + 1 + 5 + 2) (length (e_key e)) = Ok (e_key e, pos + 1 + 5 + 2 + length (e_key e))"
    unfolding six eight by (rule exE [OF parts(4)], erule file_read_at) simp
qed

lemma IsDeleted_rep:
  assumes "kf_rep f (new @ e # es)"
  shows "\<exists>f'. IsDeleted (records_size kf_size FirstPos es) f = (Ok (e_del e), f') \<and> kf_rep f' (new @ e # es)"
proof -
  obtain post where "drop (records_size kf_size FirstPos es) (kf_disk (flushAppendBuf f)) = enc_entry e @ post"
    using flushed_entry [OF assms] by blast
  note reads = entry_reads [OF this]
  show ?thesis unfolding IsDeleted_def Let_def reads using kf_rep_flush [OF assms] by simp
qed

lemma GetPrevPos_rep:
  assumes "kf_rep f (new @ e # es)"
  shows "\<exists>f'. GetPrevPos (records_size kf_size FirstPos es) f = (Ok (e_prev e), f') \<and> kf_rep f' (new @ e # es)"
proof -
  have "fits5 (e_prev e)" using assms by (auto simp: kf_rep_def)
  moreover obtain post where "drop (records_size kf_size FirstPos es) (kf_disk (flushAppendBuf f)) = enc_entry e @ post"
    using flushed_entry [OF assms] by blast
  note reads = entry_reads [OF this]
  ultimately show ?thesis unfolding GetPrevPos_def Let_def reads using kf_rep_flush [OF assms] by simp
qed

lemma GetTimeKey_rep:
  assumes "kf_rep f (new @ e # es)"
  shows "\<exists>f'. GetTimeKey (records_size kf_size FirstPos es) f = (Ok (e_key e), f') \<and> kf_rep f' (new @ e # es)"
proof -
  have "length (e_key e) < 65536" using assms by (auto simp: kf_rep_def ok_record_def)
  then have len: "unat (Uint16 (PutUint16 (word_of_nat (length (e_key e))))) = length (e_key e)"
    by (simp add: unat_of_nat take_bit_nat_eq_self)
  obtain post where "drop (records_size kf_size FirstPos es) (kf_disk (flushAppendBuf f)) = enc_entry e @ post"
    using flushed_entry [OF assms] by blast
  note reads = entry_reads [OF this]
  show ?thesis unfolding GetTimeKey_def Let_def reads res_bind.simps prod.case len
    using kf_rep_flush [OF assms] by simp
qed

text \<open>\<open>readBlob\<close> on the bytes of a blob, on each branch of its length byte.\<close>

lemma kf_readBlob_blob:
  assumes "drop pos disk = blob_bytes d @ post" and "ok_blob d"
  shows "kf_readBlob disk pos = Ok d"
proof -
  have d: "drop (pos + k) disk = drop k (blob_bytes d @ post)" for k
    using arg_cong [OF assms(1), of "drop k"] by (simp add: add.commute)
  have ok: "length d < 2 ^ 32" using assms(2) by (simp add: ok_blob_def)
  consider "d = []" | "d \<noteq> []" "length d \<le> 253" | "\<not> length d \<le> 253" "length d \<le> 65535" | "\<not> length d \<le> 65535"
    by fastforce
  then show ?thesis
  proof cases
    case 1
    then have "file_read disk pos 1 = Ok ([0], pos + 1)"
      using assms(1) by (intro file_read_at [where ys = post]) (simp_all add: blob_bytes_def)
    with 1 show ?thesis by (simp add: kf_readBlob_def)
  next
    case 2
    have u: "unat (word_of_nat (length d) :: byte) = length d"
      using 2 by (simp add: unat_of_nat take_bit_nat_eq_self)
    have "file_read disk pos 1 = Ok ([word_of_nat (length d)], pos + 1)"
      using assms(1) 2 by (intro file_read_at [where ys = "d @ post"]) (simp_all add: blob_bytes_def)
    moreover have "file_read disk (pos + 1) (length d) = Ok (d, pos + 1 + length d)"
      using 2 by (intro file_read_at [where ys = post]) (simp_all add: d [of 1, simplified] blob_bytes_def)
    ultimately show ?thesis using 2 unfolding kf_readBlob_def by (simp add: Let_def u)
  next
    case 3
    have bb: "blob_bytes d = [255] @ PutUint16 (word_of_nat (length d)) @ d"
      using 3 by (auto simp: blob_bytes_def)
    have u: "unat (word_of_nat (length d) :: 16 word) = length d"
      using 3 by (simp add: unat_of_nat take_bit_nat_eq_self)
    have "file_read disk pos 1 = Ok ([255], pos + 1)"
      using assms(1) by (intro file_read_at [where ys = "PutUint16 (word_of_nat (length d)) @ d @ post"])
        (simp_all add: bb)
    moreover have "file_read disk (pos + 1) 2 = Ok (PutUint16 (word_of_nat (length d)), pos + 1 + 2)"
      using d [of 1] by (intro file_read_at [where ys = "d @ post"]) (simp_all add: bb)
    moreover have "file_read disk (pos + 1 + 2) (length d) = Ok (d, pos + 1 + 2 + length d)"
    proof (rule file_read_at [where ys = post])
      show "drop (pos + 1 + 2) disk = d @ post" using d [of 3] by (simp add: bb eval_nat_numeral)
    qed simp
    ultimately show ?thesis unfolding kf_readBlob_def by (simp only: res_bind.simps prod.case) (simp add: Let_def u)
  next
    case 4
    have bb: "blob_bytes d = [254] @ PutUint32 (word_of_nat (length d)) @ d"
      using 4 by (auto simp: blob_bytes_def)
    have u: "unat (word_of_nat (length d) :: 32 word) = length d"
      using ok by (simp add: unat_of_nat take_bit_nat_eq_self)
    have "file_read disk pos 1 = Ok ([254], pos + 1)"
      using assms(1) by (intro file_read_at [where ys = "PutUint32 (word_of_nat (length d)) @ d @ post"])
        (simp_all add: bb)
    moreover have "file_read disk (pos + 1) 4 = Ok (PutUint32 (word_of_nat (length d)), pos + 1 + 4)"
      using d [of 1] by (intro file_read_at [where ys = "d @ post"]) (simp_all add: bb)
    moreover have "file_read disk (pos + 1 + 4) (length d) = Ok (d, pos + 1 + 4 + length d)"
    proof (rule file_read_at [where ys = post])
      show "drop (pos + 1 + 4) disk = d @ post" using d [of 5] by (simp add: bb eval_nat_numeral)
    qed simp
    ultimately show ?thesis unfolding kf_readBlob_def by (simp only: res_bind.simps prod.case) (simp add: Let_def u)
  qed
qed

lemma GetDataPos_rep:
  assumes "kf_rep f (new @ e # es)"
  shows "\<exists>f'. GetDataPos (records_size kf_size FirstPos es) f = (Ok (e_data e), f') \<and> kf_rep f' (new @ e # es)"
proof -
  let ?pos = "records_size kf_size FirstPos es" and ?disk = "kf_disk (flushAppendBuf f)"
  have ok: "length (e_key e) < 65536" "ok_record (e_key e) (e_data e)" using assms by (auto simp: kf_rep_def ok_record_def)
  then have len: "unat (Uint16 (PutUint16 (word_of_nat (length (e_key e))))) = length (e_key e)"
    by (simp add: unat_of_nat take_bit_nat_eq_self)
  obtain post where post: "drop ?pos ?disk = enc_entry e @ post" using flushed_entry [OF assms] by blast
  note reads = entry_reads [OF post]
  have "drop (8 + length (e_key e)) (drop ?pos ?disk) = blob_bytes (e_data e) @ post"
    by (rule record_drop(1)) (simp add: post enc_entry_def)
  then have "drop (?pos + 1 + 5 + 2 + length (e_key e)) ?disk = blob_bytes (e_data e) @ post"
    by (simp add: add.commute add.left_commute)
  then have "kf_readBlob ?disk (?pos + 1 + 5 + 2 + length (e_key e)) = Ok (e_data e)"
    using ok(2) by (intro kf_readBlob_blob) (auto simp: ok_record_def)
  then show ?thesis unfolding GetDataPos_def Let_def reads res_bind.simps prod.case len
    using kf_rep_flush [OF assms] by simp
qed

lemma patch_middle: "length b' = length b \<Longrightarrow> patch (length a) b' (a @ b @ c) = a @ b' @ c"
  by (simp add: patch_def)

lemma kf_img_del: "\<exists>tail. kf_img (new @ e # es) = kf_img es @ [if e_del e then 1 else 0] @ tail \<and>
    kf_img (new @ with_del d e # es) = kf_img es @ [if d then 1 else 0] @ tail"
proof (induction new)
  case Nil
  then show ?case by (auto simp: enc_entry_def enc_record_def)
qed auto

lemma SetDelete_rep:
  assumes "kf_rep f (new @ e # es)"
  shows "kf_rep (SetDelete (records_size kf_size FirstPos es) d f) (new @ with_del d e # es)"
proof -
  obtain tail where tail: "kf_img (new @ e # es) = kf_img es @ [if e_del e then 1 else 0] @ tail"
    "kf_img (new @ with_del d e # es) = kf_img es @ [if d then 1 else 0] @ tail" using kf_img_del by blast
  have "file_write (kf_img (new @ e # es)) (length (kf_img es)) [if d then 1 else 0] = kf_img (new @ with_del d e # es)"
    unfolding tail by (subst file_write_inside) (simp, rule patch_middle, simp)
  then have "kf_disk (SetDelete (records_size kf_size FirstPos es) d f) = kf_img (new @ with_del d e # es)"
    by (simp add: SetDelete_def Let_def kf_rep_flush_disk [OF assms] length_kf_img)
  moreover have "length (kf_img (new @ with_del d e # es)) = length (kf_img (new @ e # es))" by (simp add: tail)
  ultimately show ?thesis using kf_rep_flush [OF assms] kf_rep_flush_disk [OF assms]
    by (auto simp: kf_rep_def SetDelete_def Let_def kf_inv_def kf_content_def)
qed

lemma kf_Append_rep:
  assumes "kf_rep f es" and "ok_record key data" and "fits5 prev"
  shows "\<exists>f'. kf_Append prev key data f = (records_size kf_size FirstPos es, f') \<and>
    kf_rep f' (Entry False prev key data # es)"
proof -
  let ?f = "f\<lparr>kf_appendBuf := kf_appendBuf f @ enc_record False prev key data\<rparr>"
  have "kf_Length f = records_size kf_size FirstPos es"
    using assms(1) by (simp add: kf_rep_def kf_Length_content length_kf_img)
  moreover have "kf_rep ?f (Entry False prev key data # es)"
    using assms suffix_ConsI by (fastforce simp: kf_rep_def kf_inv_def kf_content_def enc_entry_def)
  ultimately show ?thesis using kf_rep_flush [of ?f]
    by (auto simp: kf_Append_def Let_def kf_record_bytes kf_Length_def)
qed

lemma kf_open_rep: "kf_rep (kf_open []) []"
  by (simp add: kf_rep_def kf_open_def kf_inv_def kf_content_def kfileHeaderSize_def)

lemma kf_reopen_rep:
  assumes "kf_rep f es"
  shows "kf_rep (kf_open (kf_disk (flushAppendBuf f))) es"
proof -
  have "kf_img es \<noteq> []" by (induction es) auto
  then show ?thesis using assms kf_rep_flush_disk [OF assms]
    by (auto simp: kf_rep_def kf_open_def kf_inv_def kf_content_def)
qed

text \<open>The file is a record file in the sense of the locale.\<close>

interpretation kf: record_file kf_rep ok_record kf_size FirstPos kf_Length kf_Append GetRecord IsDeleted
  GetTimeKey GetDataPos GetPrevPos SetDelete
proof
  show "0 < FirstPos" by (simp add: FirstPos_def kfileHeaderSize_def)
  show "0 < kf_size e" for e by (rule kf_size_pos)
  show "kf_size (with_del d e) = kf_size e" for d e by (simp add: kf_size_def)
  show "kf_rep s es \<Longrightarrow> kf_Length s = records_size kf_size FirstPos es" for s es
    by (simp add: kf_rep_def kf_Length_content length_kf_img)
qed (fact kf_Append_rep GetRecord_rep IsDeleted_rep GetTimeKey_rep GetDataPos_rep GetPrevPos_rep SetDelete_rep)+

subsection \<open>Sequences of appends\<close>

fun kf_Appends :: "(i64 \<times> bytes \<times> bytes) list \<Rightarrow> RealKeyFile \<Rightarrow> nat list \<times> RealKeyFile" where
  "kf_Appends [] f = ([], f)"
| "kf_Appends ((prev, k, d) # rs) f =
     (let (pos, f') = kf_Append prev k d f; (ps, f'') = kf_Appends rs f' in (pos # ps, f''))"

lemma kf_Appends_rep:
  assumes "kf_rep f es" and "list_all (\<lambda>(p, k, d). ok_record k d \<and> fits5 p) rs"
  shows "kf_rep (snd (kf_Appends rs f)) (rev (map (\<lambda>(p, k, d). Entry False p k d) rs) @ es) \<and>
    length (fst (kf_Appends rs f)) = length rs \<and>
    (\<forall>i < length rs. fst (kf_Appends rs f) ! i =
       records_size kf_size FirstPos (rev (map (\<lambda>(p, k, d). Entry False p k d) (take i rs)) @ es))"
  using assms
proof (induction rs arbitrary: f es)
  case (Cons r rs)
  obtain p k d where r: "r = (p, k, d)" by (cases r)
  obtain f' where f': "kf_Append p k d f = (records_size kf_size FirstPos es, f')" "kf_rep f' (Entry False p k d # es)"
    using kf_Append_rep [OF Cons.prems(1)] Cons.prems(2) r by force
  from Cons.IH [OF f'(2)] Cons.prems(2) f'(1) show ?case
    by (auto simp: r Let_def case_prod_beta nth_Cons split: nat.split)
qed simp

lemma kf_Appends_read:
  assumes "list_all (\<lambda>(p, k, d). ok_record k d \<and> fits5 p) rs" and "i < length rs" and "rs ! i = (prev, key, data)"
  shows "fst (GetRecord (fst (kf_Appends rs (kf_open [])) ! i) (snd (kf_Appends rs (kf_open [])))) =
    Ok \<lparr>kr_Deleted = False, kr_PrevPos = prev, kr_TimeKey = key, kr_DataPos = data,
        kr_Offset = (if Suc i < length rs then fst (kf_Appends rs (kf_open [])) ! Suc i
                     else kf_Length (snd (kf_Appends rs (kf_open []))))\<rparr>"
proof -
  let ?e = "\<lambda>(p, k, d). Entry False p k d" and ?f = "snd (kf_Appends rs (kf_open []))"
  note run = kf_Appends_rep [OF kf_open_rep assms(1), unfolded append_Nil2]
  have rs: "rs = take i rs @ (prev, key, data) # drop (Suc i) rs" using assms(2,3) id_take_nth_drop by metis
  have split: "rev (map ?e rs) = rev (map ?e (drop (Suc i) rs)) @ Entry False prev key data # rev (map ?e (take i rs))"
    by (subst rs) simp
  have len: "kf_Length ?f = records_size kf_size FirstPos (rev (map ?e rs))" using kf.flen run by blast
  have next_i: "rev (map ?e (take (Suc i) rs)) = Entry False prev key data # rev (map ?e (take i rs))"
    using assms(2,3) by (simp add: take_Suc_conv_app_nth)
  have "kf_rep ?f (rev (map ?e (drop (Suc i) rs)) @ Entry False prev key data # rev (map ?e (take i rs)))"
    using run split by metis
  from kf.fget [OF this] show ?thesis
    using run assms(2) next_i len by (cases "Suc i < length rs") (auto simp: entry_record_def)
qed

text \<open>
  A key that is too long for the buffer of \<open>getRecordReadAt\<close>: \<open>Append\<close> accepts it, but the record
  cannot be read.
\<close>

lemma long_key_unreadable:
  assumes "119 < length key" and "length key < 2 ^ 16" and inv_f: "kf_inv f"
  shows "fst (GetRecord (fst (kf_Append prev key data f)) (snd (kf_Append prev key data f))) =
      Err (ErrText ''record extends beyond read buffer'')"
proof -
  let ?pos = "kf_Length f" and ?f = "snd (kf_Append prev key data f)"
  let ?X = "enc_record False prev key data"
  have inv: "kf_inv ?f" and content: "kf_content ?f = kf_content f @ ?X"
  proof -
    let ?g = "f\<lparr>kf_appendBuf := kf_appendBuf f @ ?X\<rparr>"
    have "kf_inv ?g" "kf_content ?g = kf_content f @ ?X" using inv_f by (simp_all add: kf_inv_def kf_content_def)
    then show "kf_inv ?f" "kf_content ?f = kf_content f @ ?X"
      using flush_inv [of ?g] flush_content [of ?g] by (auto simp: kf_Append_def Let_def kf_record_bytes)
  qed
  have X: "?X = [0] @ PutInt5 prev @ PutUint16 (word_of_nat (length key)) @ key @ blob_bytes data"
    by (simp add: enc_record_def)
  have read: "getRecordReadAt disk ?pos = Err (ErrText ''record extends beyond read buffer'')"
    if "drop ?pos disk = ?X" for disk
  proof -
    have n: "length (take 128 (drop ?pos disk)) = 128" using that assms(1) by (simp add: length_enc_record)
    have "take 2 (drop 6 (take 128 (drop ?pos disk))) = take 2 (drop 6 ?X)"
      unfolding that by (rule take_drop_take) simp
    also have "\<dots> = PutUint16 (word_of_nat (length key))" by (simp add: X)
    finally have "Uint16 (drop 6 (take 128 (drop ?pos disk))) = word_of_nat (length key)"
      using Uint16_take [of "drop 6 (take 128 (drop ?pos disk))"] by simp
    then have "unat (Uint16 (drop 6 (take 128 (drop ?pos disk)))) = length key"
      using assms(2) by (simp add: unat_of_nat take_bit_nat_eq_self)
    then show ?thesis using assms(1) unfolding getRecordReadAt_def Let_def n by simp
  qed
  have pos: "fst (kf_Append prev key data f) = ?pos" by (simp add: kf_Append_def Let_def kf_Length_def)
  have len: "length (kf_content f) = ?pos" using inv_f by (simp add: kf_Length_content)
  show ?thesis
  proof (cases "?pos < kf_fileEnd ?f")
    case True
    then have "kf_appendBuf ?f = []"
      using inv_f by (auto simp: kf_Append_def Let_def kf_Length_def)
    then have "drop ?pos (kf_disk ?f) = ?X" using content len by (simp add: kf_content_def)
    from read [OF this] True show ?thesis by (simp add: GetRecord_def pos)
  next
    case False
    have "drop ?pos (kf_disk (flushAppendBuf ?f)) = ?X" using flush_disk [OF inv] content len by simp
    from read [OF this] False show ?thesis by (simp add: GetRecord_def pos Let_def)
  qed
qed

end
