(* ===== verification/IndexKeyFile.thy ===== *)
theory IndexKeyFile
  imports MemHashBlock RealKeyFile HashUtil
begin

text \<open>
  internal/db/io/index\_key\_file.go: the index from keys to data positions, a bucket table and a key
  file. A key that is nil in Go is \<^const>\<open>None\<close>. The loops that follow links from the file yield
  \<^const>\<open>None\<close> where the code would not return. The warning about long chains is only logged and
  is not modelled.
\<close>

definition defaultHashSizeMB :: int where "defaultHashSizeMB = 1"
definition MB :: int where "MB = 1024 * 1024"

record IndexKeyFile =
  ix_hashBlock :: MemHashBlock
  ix_keyFile :: RealKeyFile

definition NewIndexKeyFile :: "bytes option \<Rightarrow> bytes \<Rightarrow> int \<Rightarrow> IndexKeyFile" where
  "NewIndexKeyFile hfile kfile hashSizeMB =
     (let mb = (if hashSizeMB \<le> 0 then defaultHashSizeMB else hashSizeMB)
      in \<lparr>ix_hashBlock = mh_open hfile (nat (mb * MB)), ix_keyFile = kf_open kfile\<rparr>)"

definition ix_Put :: "bytes option \<Rightarrow> bytes option \<Rightarrow> IndexKeyFile \<Rightarrow> unit res \<times> IndexKeyFile" where
  "ix_Put indexKey dataOffset ix = (case (indexKey, dataOffset) of
     (Some k, Some d) \<Rightarrow>
       let keyHash = HashBytes k in
       (case mh_Get (ix_hashBlock ix) keyHash of
          Ok prevKeyPos \<Rightarrow>
            let (newKeyPos, kf') = kf_Append prevKeyPos k d (ix_keyFile ix) in
            (case mh_Put (ix_hashBlock ix) keyHash (word_of_nat newKeyPos) of
               Ok hb' \<Rightarrow> (Ok (), \<lparr>ix_hashBlock = hb', ix_keyFile = kf'\<rparr>)
             | Err e \<Rightarrow> (Err e, ix\<lparr>ix_keyFile := kf'\<rparr>)
             | Panic q \<Rightarrow> (Panic q, ix\<lparr>ix_keyFile := kf'\<rparr>))
        | Err e \<Rightarrow> (Err e, ix)
        | Panic q \<Rightarrow> (Panic q, ix))
   | _ \<Rightarrow> (Err (ErrText ''invalid key/value''), ix))"

definition ix_Update :: "bytes option \<Rightarrow> bytes option \<Rightarrow> IndexKeyFile \<Rightarrow> bool res \<times> IndexKeyFile" where
  "ix_Update key v ix = (case (key, v) of
     (Some k, Some d) \<Rightarrow>
       (case mh_Get (ix_hashBlock ix) (HashBytes k) of
          Ok pos \<Rightarrow> let (r, kf') = kf_Update (unat pos) k d (ix_keyFile ix) in (r, ix\<lparr>ix_keyFile := kf'\<rparr>)
        | Err e \<Rightarrow> (Err e, ix)
        | Panic q \<Rightarrow> (Panic q, ix))
   | _ \<Rightarrow> (Err (ErrText ''invalid key/value''), ix))"

text \<open>The walk through the bucket of a key, for \<open>Get\<close>, \<open>HasKey\<close> and \<open>GetAll\<close>.\<close>

definition ix_walk :: "(KeyRecord \<Rightarrow> 'x \<Rightarrow> 'r + 'x) \<Rightarrow> bytes \<Rightarrow> 'x \<Rightarrow> IndexKeyFile \<Rightarrow> (('r + 'x) res \<times> IndexKeyFile) option" where
  "ix_walk f key x ix = (case mh_Get (ix_hashBlock ix) (HashBytes key) of
     Ok pos \<Rightarrow> map_option (\<lambda>(r, kf'). (r, ix\<lparr>ix_keyFile := kf'\<rparr>)) (chain_walk GetRecord f pos (ix_keyFile ix) x)
   | Err e \<Rightarrow> Some (Err e, ix)
   | Panic q \<Rightarrow> Some (Panic q, ix))"

definition ix_Get :: "bytes option \<Rightarrow> IndexKeyFile \<Rightarrow> (bytes option res \<times> IndexKeyFile) option" where
  "ix_Get key ix = (case key of
     None \<Rightarrow> Some (Err (ErrText ''invalid key''), ix)
   | Some k \<Rightarrow> map_option (\<lambda>(r, ix'). (res_bind r (\<lambda>y. Ok (case y of Inl data \<Rightarrow> Some data | Inr _ \<Rightarrow> None)), ix'))
       (ix_walk (\<lambda>r _. if \<not> kr_Deleted r \<and> kr_TimeKey r = k then Inl (kr_DataPos r) else Inr ()) k () ix))"

definition ix_HasKey :: "bytes option \<Rightarrow> IndexKeyFile \<Rightarrow> (bool res \<times> IndexKeyFile) option" where
  "ix_HasKey key ix = (case key of
     None \<Rightarrow> Some (Err (ErrText ''invalid key''), ix)
   | Some k \<Rightarrow> map_option (\<lambda>(r, ix'). (res_bind r (\<lambda>y. Ok (case y of Inl b \<Rightarrow> b | Inr _ \<Rightarrow> False)), ix'))
       (ix_walk (\<lambda>r _. if \<not> kr_Deleted r \<and> kr_TimeKey r = k then Inl True else Inr ()) k () ix))"

definition ix_GetAll :: "bytes option \<Rightarrow> IndexKeyFile \<Rightarrow> (bytes list res \<times> IndexKeyFile) option" where
  "ix_GetAll key ix = (case key of
     None \<Rightarrow> Some (Err (ErrText ''invalid key''), ix)
   | Some k \<Rightarrow> map_option (\<lambda>(r, ix'). (res_bind r (\<lambda>y. Ok (case y of Inl out \<Rightarrow> out | Inr out \<Rightarrow> out)), ix'))
       (ix_walk (\<lambda>r out. Inr (if \<not> kr_Deleted r \<and> kr_TimeKey r = k then out @ [kr_DataPos r] else out)) k [] ix))"

definition ix_Delete :: "bytes option \<Rightarrow> IndexKeyFile \<Rightarrow> (unit res \<times> nat \<times> IndexKeyFile) option" where
  "ix_Delete key ix = (case key of
     None \<Rightarrow> Some (Err (ErrText ''invalid key''), 0, ix)
   | Some k \<Rightarrow>
       (case mh_Get (ix_hashBlock ix) (HashBytes k) of
          Ok pos \<Rightarrow> map_option (\<lambda>(r, n, kf'). (r, n, ix\<lparr>ix_keyFile := kf'\<rparr>))
            (chain_delete IsDeleted (\<lambda>pos f. let (r, f') = GetTimeKey pos f in (res_bind r (\<lambda>oKey. Ok (oKey = k)), f'))
               GetPrevPos SetDelete pos (ix_keyFile ix) 0)
        | Err e \<Rightarrow> Some (Err e, 0, ix)
        | Panic q \<Rightarrow> Some (Panic q, 0, ix)))"

text \<open>\<open>Read\<close> and \<open>ReadWithDataReader\<close>, with the calls of the handler in their order.\<close>

definition ix_scan :: "(KeyRecord \<Rightarrow> 'x \<Rightarrow> 'x res) \<Rightarrow> 'x \<Rightarrow> IndexKeyFile \<Rightarrow> (unit res \<times> 'x \<times> IndexKeyFile) option" where
  "ix_scan f x ix = map_option (\<lambda>(r, x', kf'). (r, x', ix\<lparr>ix_keyFile := kf'\<rparr>))
     (seq_read GetRecord f (kf_Length (ix_keyFile ix)) FirstPos (ix_keyFile ix) x)"

definition ix_Read :: "IndexKeyFile \<Rightarrow> (unit res \<times> (bytes \<times> bytes) list \<times> IndexKeyFile) option" where
  "ix_Read = ix_scan (\<lambda>r calls. Ok (if kr_Deleted r then calls else calls @ [(kr_TimeKey r, kr_DataPos r)])) []"

definition ix_ReadWithDataReader ::
  "(i64 \<Rightarrow> bytes) \<Rightarrow> IndexKeyFile \<Rightarrow> (unit res \<times> (bytes \<times> bytes) list \<times> IndexKeyFile) option" where
  "ix_ReadWithDataReader reader = ix_scan (\<lambda>r calls.
     if kr_Deleted r then Ok calls
     else if length (kr_DataPos r) < 5 then Panic IndexOutOfRange
     else Ok (calls @ [(kr_TimeKey r, reader (Int5 (kr_DataPos r)))])) []"

text \<open>
  \<open>Stat\<close> stops silently at an error. The result has the entries \<open>count\<close>, \<open>deleted\<close> and
  \<open>scatter\<close>; \<open>scan\<close>, the quotient of \<open>count + deleted\<close> and \<open>scatter\<close>, is a float and left out.
\<close>

definition ix_Stat :: "IndexKeyFile \<Rightarrow> ((nat \<times> nat \<times> int) \<times> IndexKeyFile) option" where
  "ix_Stat ix = map_option (\<lambda>(_, (count, deleted), ix'). ((count, deleted, mh_Count (ix_hashBlock ix')), ix'))
     (ix_scan (\<lambda>r (count, deleted). Ok (if kr_Deleted r then (count, deleted + 1) else (count + 1, deleted)))
        (0::nat, 0::nat) ix)"

definition ix_Reload :: "IndexKeyFile \<Rightarrow> unit res \<times> IndexKeyFile" where
  "ix_Reload ix = (case mh_Reload (ix_hashBlock ix) of
     Ok hb \<Rightarrow> (Ok (), ix\<lparr>ix_hashBlock := hb\<rparr>)
   | Err e \<Rightarrow> (Err e, ix)
   | Panic q \<Rightarrow> (Panic q, ix))"

definition ix_Close :: "IndexKeyFile \<Rightarrow> IndexKeyFile" where
  "ix_Close ix = \<lparr>ix_hashBlock = mh_Flush (ix_hashBlock ix), ix_keyFile = flushAppendBuf (ix_keyFile ix)\<rparr>"

subsection \<open>What the index holds\<close>

text \<open>
  The index is a history of puts, the newest first: the flag that \<open>Delete\<close> sets, the key and the
  data. The bucket table and the links are not part of it.
\<close>

type_synonym history = "(bool \<times> bytes \<times> bytes) list"

definition hist_of :: "entry \<Rightarrow> bool \<times> bytes \<times> bytes" where
  "hist_of e = (e_del e, e_key e, e_data e)"

definition hist_Get :: "bytes \<Rightarrow> history \<Rightarrow> bytes option" where
  "hist_Get k h = map_option (\<lambda>(d, k', v). v) (find (\<lambda>(d, k', v). \<not> d \<and> k' = k) h)"

definition hist_GetAll :: "bytes \<Rightarrow> history \<Rightarrow> bytes list" where
  "hist_GetAll k h = map (\<lambda>(d, k', v). v) (filter (\<lambda>(d, k', v). \<not> d \<and> k' = k) h)"

definition hist_Delete :: "bytes \<Rightarrow> history \<Rightarrow> history" where
  "hist_Delete k h = map (\<lambda>(d, k', v). (d \<or> k' = k, k', v)) h"

definition hist_Read :: "history \<Rightarrow> (bytes \<times> bytes) list" where
  "hist_Read h = map (\<lambda>(d, k, v). (k, v)) (filter (\<lambda>(d, k, v). \<not> d) (rev h))"

definition hist_size :: "history \<Rightarrow> nat" where
  "hist_size h = FirstPos + sum_list (map (\<lambda>(d, k, v). 8 + length k + blob_head v + length v) h)"

interpretation ik: chain_index mh_inv "\<lambda>m. bucket_of (mh_capacity m)" mh_bucket mh_Get mh_Put
  kf_rep ok_record kf_size FirstPos kf_Length kf_Append GetRecord IsDeleted GetTimeKey GetDataPos GetPrevPos SetDelete HashBytes
  by unfold_locales

definition ix_holds :: "IndexKeyFile \<Rightarrow> history \<Rightarrow> bool" where
  "ix_holds ix h \<longleftrightarrow> (\<exists>es. ik.irep (ix_hashBlock ix) (ix_keyFile ix) es \<and> h = map hist_of es)"

lemma fold_until_find:
  "fold_until (\<lambda>e _. if P e then Inl (g e) else Inr ()) es () =
     (case find P es of Some e \<Rightarrow> Inl (g e) | None \<Rightarrow> Inr ())"
  by (induction es) simp_all

lemma fold_until_filter:
  "fold_until (\<lambda>e out. Inr (if P e then out @ [g e] else out)) es out = (Inr (out @ map g (filter P es)) :: 'r + 'b list)"
  by (induction es arbitrary: out) simp_all

lemma find_filter: "(\<And>e. P e \<Longrightarrow> Q e) \<Longrightarrow> find P (filter Q es) = find P es"
  by (induction es) auto

lemma filter_filter_imp: "(\<And>e. P e \<Longrightarrow> Q e) \<Longrightarrow> filter P (filter Q es) = filter P es"
  by (induction es) auto

lemma find_map_comp: "find P (map g xs) = map_option g (find (\<lambda>x. P (g x)) xs)"
  by (induction xs) auto

lemma filter_map_comp: "filter P (map g xs) = map g (filter (\<lambda>x. P (g x)) xs)"
  by (induction xs) auto

text \<open>Each operation on an index that holds a history.\<close>

lemma ix_walk_holds:
  assumes "ik.irep (ix_hashBlock ix) (ix_keyFile ix) es" and "\<And>p e x. f (entry_record p e) x = g e x"
    and "\<And>e x. e_del e \<Longrightarrow> g e x = Inr x"
  shows "\<exists>ix'. ix_walk f k x ix = Some (Ok (fold_until g (filter (\<lambda>e.
      bucket_of (mh_capacity (ix_hashBlock ix)) (HashBytes (e_key e)) =
      bucket_of (mh_capacity (ix_hashBlock ix)) (HashBytes k)) es) x), ix') \<and>
    ik.irep (ix_hashBlock ix') (ix_keyFile ix') es"
  using ik.irep_walk [of _ _ es f g "HashBytes k" x, OF assms] by (auto simp: ix_walk_def)

lemma ix_find_holds:
  assumes "ik.irep (ix_hashBlock ix) (ix_keyFile ix) es" and "\<And>p e. y (entry_record p e) = z e"
  shows "\<exists>ix'. ix_walk (\<lambda>r _. if \<not> kr_Deleted r \<and> kr_TimeKey r = k then Inl (y r) else Inr ()) k () ix =
      Some (Ok (case find (\<lambda>e. \<not> e_del e \<and> e_key e = k) es of Some e \<Rightarrow> Inl (z e) | None \<Rightarrow> Inr ()), ix') \<and>
    ik.irep (ix_hashBlock ix') (ix_keyFile ix') es"
proof -
  let ?g = "\<lambda>e _. if \<not> e_del e \<and> e_key e = k then Inl (z e) else Inr ()"
  show ?thesis
    using ix_walk_holds [of ix es _ ?g k "()", OF assms(1)] assms(2)
    unfolding fold_until_find by (subst (asm) find_filter) auto
qed

lemma ix_Get_holds:
  assumes "ix_holds ix h"
  shows "\<exists>ix'. ix_Get (Some k) ix = Some (Ok (hist_Get k h), ix') \<and> ix_holds ix' h"
proof -
  obtain es where es: "ik.irep (ix_hashBlock ix) (ix_keyFile ix) es" "h = map hist_of es"
    using assms by (auto simp: ix_holds_def)
  show ?thesis using ix_find_holds [OF es(1), of kr_DataPos e_data k] es(2)
    by (auto simp: ix_Get_def ix_holds_def hist_Get_def find_map_comp hist_of_def comp_def split: option.split)
qed

lemma ix_HasKey_holds:
  assumes "ix_holds ix h"
  shows "\<exists>ix'. ix_HasKey (Some k) ix = Some (Ok (hist_Get k h \<noteq> None), ix') \<and> ix_holds ix' h"
proof -
  obtain es where es: "ik.irep (ix_hashBlock ix) (ix_keyFile ix) es" "h = map hist_of es"
    using assms by (auto simp: ix_holds_def)
  show ?thesis using ix_find_holds [OF es(1), of "\<lambda>_. True" "\<lambda>_. True" k] es(2)
    by (auto simp: ix_HasKey_def ix_holds_def hist_Get_def find_map_comp hist_of_def comp_def split: option.split)
qed

lemma ix_GetAll_holds:
  assumes "ix_holds ix h"
  shows "\<exists>ix'. ix_GetAll (Some k) ix = Some (Ok (hist_GetAll k h), ix') \<and> ix_holds ix' h"
proof -
  obtain es where es: "ik.irep (ix_hashBlock ix) (ix_keyFile ix) es" "h = map hist_of es"
    using assms by (auto simp: ix_holds_def)
  let ?P = "\<lambda>e. \<not> e_del e \<and> e_key e = k" and ?b = "bucket_of (mh_capacity (ix_hashBlock ix))"
  have "filter ?P (filter (\<lambda>e. ?b (HashBytes (e_key e)) = ?b (HashBytes k)) es) = filter ?P es"
    by (rule filter_filter_imp) simp
  moreover have "hist_GetAll k h = map e_data (filter ?P es)"
    unfolding es(2) hist_GetAll_def by (induction es) (simp_all add: hist_of_def)
  moreover have "(Inr (if \<not> kr_Deleted r \<and> kr_TimeKey r = k then out @ [kr_DataPos r] else out) :: bytes list + bytes list) =
      Inr (if ?P e then out @ [e_data e] else out)" if "r = entry_record p e" for r p e out
    using that by simp
  ultimately show ?thesis using ix_walk_holds [OF es(1), where k = k and x = "[]"
      and f = "\<lambda>r out. (Inr (if \<not> kr_Deleted r \<and> kr_TimeKey r = k then out @ [kr_DataPos r] else out) :: bytes list + bytes list)"
      and g = "\<lambda>e out. Inr (if ?P e then out @ [e_data e] else out)"] es(2)
    unfolding fold_until_filter by (auto simp: ix_GetAll_def ix_holds_def simp del: filter_filter)
qed

lemma ix_Put_holds:
  assumes "ix_holds ix h" and "ok_record k d" and "hist_size ((False, k, d) # h) \<le> 2 ^ 39"
  shows "\<exists>ix'. ix_Put (Some k) (Some d) ix = (Ok (), ix') \<and> ix_holds ix' ((False, k, d) # h)"
proof -
  obtain es where es: "ik.irep (ix_hashBlock ix) (ix_keyFile ix) es" "h = map hist_of es"
    using assms by (auto simp: ix_holds_def)
  have size: "records_size kf_size FirstPos es' = hist_size (map hist_of es')" for es'
    by (induction es') (simp_all add: hist_size_def kf_size_def hist_of_def)
  have inv: "mh_inv (ix_hashBlock ix)" using es(1) by (simp add: ik.irep_def)
  define p where "p = mh_bucket (ix_hashBlock ix) (bucket_of (mh_capacity (ix_hashBlock ix)) (HashBytes k))"
  have "records_size kf_size FirstPos (Entry False p k d # es) \<le> 2 ^ 39"
    using assms(3) es(2) by (simp only: size) (simp add: hist_of_def)
  from ik.irep_put [OF es(1) assms(2) this p_def] mh_Get_bucket [OF inv, of "HashBytes k"]
  obtain kf' hb' where "ix_Put (Some k) (Some d) ix = (Ok (), \<lparr>ix_hashBlock = hb', ix_keyFile = kf'\<rparr>)"
    "ik.irep hb' kf' (Entry False p k d # es)" by (auto simp: ix_Put_def Let_def p_def)
  then show ?thesis using es(2) by (auto simp: ix_holds_def hist_of_def intro!: exI [of _ "Entry False p k d # es"])
qed

lemma ix_Delete_holds:
  assumes "ix_holds ix h"
  shows "\<exists>ix'. ix_Delete (Some k) ix = Some (Ok (), length (hist_GetAll k h), ix') \<and> ix_holds ix' (hist_Delete k h)"
proof -
  let ?b = "bucket_of (mh_capacity (ix_hashBlock ix)) (HashBytes k)" and ?P = "\<lambda>k'. k' = k"
  obtain es where es: "ik.irep (ix_hashBlock ix) (ix_keyFile ix) es" "h = map hist_of es"
    using assms by (auto simp: ix_holds_def)
  have hit: "ik.hit (ix_hashBlock ix) ?b ?P e \<longleftrightarrow> \<not> e_del e \<and> e_key e = k" for e
    by (auto simp: ik.hit_def)
  have sel: "\<exists>s'. (\<lambda>pos f. let (r, f') = GetTimeKey pos f in (res_bind r (\<lambda>oKey. Ok (oKey = k)), f'))
      (records_size kf_size FirstPos old) s = (Ok (e_key e = k), s') \<and> kf_rep s' (new @ e # old)"
    if "kf_rep s (new @ e # old)" for s new e old
    using kf.fkey [OF that] by auto
  have "map hist_of (map (ik.mark (ix_hashBlock ix) ?b ?P) es) = hist_Delete k h"
    unfolding es(2) by (induction es) (auto simp: ik.mark_def hit hist_Delete_def hist_of_def)
  moreover have "length (filter (ik.hit (ix_hashBlock ix) ?b ?P) es) = length (hist_GetAll k h)"
    unfolding es(2) by (induction es) (simp_all add: hit hist_GetAll_def hist_of_def)
  ultimately show ?thesis
    using ik.irep_delete [OF es(1), of _ ?P "HashBytes k", OF sel] mh_Get_bucket [of "ix_hashBlock ix"] es(1)
    by (fastforce simp: ix_Delete_def ix_holds_def ik.irep_def [of _ "ix_keyFile ix"])
qed

lemma fold_calls_Ok: "fold_calls (\<lambda>e x. Ok (f e x)) es x = (Ok (), foldl (\<lambda>x e. f e x) x es)"
  by (induction es arbitrary: x) simp_all

lemma ix_scan_holds:
  assumes "ix_holds ix h" and "\<And>p e x. f (entry_record p e) x = g (hist_of e) x"
  shows "\<exists>ix'. ix_scan f x ix = Some (fst (fold_calls g (rev h) x), snd (fold_calls g (rev h) x), ix') \<and>
    ix_hashBlock ix' = ix_hashBlock ix \<and> ix_holds ix' h"
proof -
  obtain es where es: "ik.irep (ix_hashBlock ix) (ix_keyFile ix) es" "h = map hist_of es"
    using assms(1) by (auto simp: ix_holds_def)
  have "fold_calls (\<lambda>e. g (hist_of e)) xs y = fold_calls g (map hist_of xs) y" for xs y
    by (induction xs arbitrary: y) (simp_all split: res.split)
  then show ?thesis using ik.irep_seq_read [OF es(1), of f "\<lambda>e. g (hist_of e)" x] assms(2) es(2)
    by (auto simp: ix_scan_def ix_holds_def rev_map)
qed

lemma foldl_calls: "foldl (\<lambda>calls e. if fst e then calls else calls @ [f e]) calls es =
    calls @ map f (filter (\<lambda>e. \<not> fst e) es)"
  by (induction es arbitrary: calls) simp_all

lemma ix_Read_holds:
  assumes "ix_holds ix h"
  shows "\<exists>ix'. ix_Read ix = Some (Ok (), hist_Read h, ix') \<and> ix_holds ix' h"
proof -
  have "hist_Read h = map snd (filter (\<lambda>e. \<not> fst e) (rev h))"
    by (simp add: hist_Read_def case_prod_unfold)
  moreover have "(if kr_Deleted r then x else x @ [(kr_TimeKey r, kr_DataPos r)]) =
      (if fst (hist_of e) then x else x @ [snd (hist_of e)])" if "r = entry_record p e" for r p e x
    using that by (simp add: hist_of_def)
  ultimately show ?thesis
    using ix_scan_holds [OF assms, of "\<lambda>r calls. Ok (if kr_Deleted r then calls else calls @ [(kr_TimeKey r, kr_DataPos r)])"
        "\<lambda>e x. Ok (if fst e then x else x @ [snd e])" "[]"]
    by (auto simp: ix_Read_def fold_calls_Ok foldl_calls)
qed

lemma ix_Stat_holds:
  assumes "ix_holds ix h"
  shows "\<exists>ix'. ix_Stat ix = Some ((length (hist_Read h), length h - length (hist_Read h), mh_count (ix_hashBlock ix)), ix') \<and>
    ix_holds ix' h"
proof -
  let ?g = "\<lambda>e (x :: nat \<times> nat). if fst e then (fst x, snd x + 1) else (fst x + 1, snd x)"
  have fold: "foldl (\<lambda>x e. ?g e x) (c, d) es =
      (c + length (filter (\<lambda>e. \<not> fst e) es), d + length (filter (\<lambda>e. fst e) es))" for c d and es :: history
    by (induction es arbitrary: c d) simp_all
  have "length (filter (\<lambda>e. fst e) h) = length h - length (filter (\<lambda>e. \<not> fst e) h)"
    using sum_length_filter_compl [of fst h] by simp
  moreover have "length (hist_Read h) = length (filter (\<lambda>e. \<not> fst e) h)"
    by (simp add: hist_Read_def case_prod_unfold rev_filter [symmetric])
  moreover have "(if kr_Deleted r then (fst x, snd x + 1) else (fst x + 1, snd x)) = ?g (hist_of e) x"
    if "r = entry_record p e" for r p e x using that by (simp add: hist_of_def)
  ultimately show ?thesis
    using ix_scan_holds [OF assms, of "\<lambda>r (c, d). Ok (if kr_Deleted r then (c, d + 1) else (c + 1, d))"
        "\<lambda>e x. Ok (?g e x)" "(0, 0)"]
    by (auto simp: ix_Stat_def fold_calls_Ok fold case_prod_unfold mh_Count_def rev_filter [symmetric])
qed

text \<open>A new index is empty, and an index that was closed opens with the same history.\<close>

lemma new_size: "5 \<le> nat ((if n \<le> 0 then defaultHashSizeMB else n) * MB)"
proof (cases "n \<le> 0")
  case False
  then have "5 \<le> n * 1048576" by linarith
  with False show ?thesis by (simp add: MB_def)
qed (simp add: defaultHashSizeMB_def MB_def)

lemma mh_open_irep:
  assumes "5 \<le> m" and "kf_rep k []"
  shows "ik.irep (mh_open None m) k []"
proof -
  note inv = mh_open_new(1) [OF assms(1)]
  then have "0 < mh_capacity (mh_open None m)" by (simp add: mh_inv_def)
  then show ?thesis unfolding ik.irep_def
    using inv assms(2) mh_open_new(2) [OF assms(1)] by (simp add: link_to_empty bucket_of_less FirstPos_def kfileHeaderSize_def)
qed

lemma ix_open_new: "ix_holds (NewIndexKeyFile None [] n) []"
  using mh_open_irep [OF new_size kf_open_rep] by (auto simp: ix_holds_def NewIndexKeyFile_def Let_def)

definition ix_ready :: "IndexKeyFile \<Rightarrow> history \<Rightarrow> bool" where
  "ix_ready ix h \<longleftrightarrow> ix_holds ix h \<and> (mh_dirty (ix_hashBlock ix) \<or>
     mh_file (ix_hashBlock ix) = Some (mh_buf (ix_hashBlock ix)) \<or> (mh_file (ix_hashBlock ix) = None \<and> h = []))"

definition ix_reopen :: "int \<Rightarrow> IndexKeyFile \<Rightarrow> IndexKeyFile" where
  "ix_reopen n ix = (let c = ix_Close ix in
     NewIndexKeyFile (mh_file (ix_hashBlock c)) (kf_disk (ix_keyFile c)) n)"

lemma mh_bucket_cong: "mh_buf m = mh_buf m' \<Longrightarrow> mh_bucket m = mh_bucket m'"
  by (simp add: mh_bucket_def fun_eq_iff)

lemma ix_reopen_ready:
  assumes "ix_ready ix h"
  shows "ix_ready (ix_reopen n ix) h"
proof -
  obtain es where es: "ik.irep (ix_hashBlock ix) (ix_keyFile ix) es" "h = map hist_of es"
    using assms by (auto simp: ix_ready_def ix_holds_def)
  let ?hb = "ix_hashBlock ix" and ?k = "kf_open (kf_disk (flushAppendBuf (ix_keyFile ix)))"
  have k: "kf_rep ?k es" using es(1) kf_reopen_rep by (auto simp: ik.irep_def)
  have new: "ix_reopen n ix = \<lparr>ix_hashBlock = mh_open (mh_file (mh_Flush ?hb))
      (nat ((if n \<le> 0 then defaultHashSizeMB else n) * MB)), ix_keyFile = ?k\<rparr>"
    by (simp add: ix_reopen_def NewIndexKeyFile_def ix_Close_def Let_def)
  show ?thesis
  proof (cases "mh_dirty ?hb \<or> mh_file ?hb = Some (mh_buf ?hb)")
    case True
    let ?m = "(mh_Flush ?hb)\<lparr>mh_count := sint (Int32 (drop 4 (mh_buf ?hb)))\<rparr>"
    have m: "ix_reopen n ix = \<lparr>ix_hashBlock = ?m, ix_keyFile = ?k\<rparr>"
      unfolding new using mh_open_flushed [OF _ True] es(1) by (simp add: ik.irep_def)
    have "mh_inv ?m" "mh_bucket ?m = mh_bucket ?hb" "mh_capacity ?m = mh_capacity ?hb" "mh_file ?m = Some (mh_buf ?m)"
      using es(1) True mh_bucket_cong [of ?m ?hb] by (auto simp: ik.irep_def mh_inv_def mh_Flush_def)
    then have "ik.irep ?m ?k es" using es(1) k by (simp add: ik.irep_def)
    then show ?thesis unfolding m ix_ready_def ix_holds_def
      using es(2) \<open>mh_file ?m = Some (mh_buf ?m)\<close> by auto
  next
    case False
    then have "h = []" "mh_file (mh_Flush ?hb) = None" using assms by (auto simp: ix_ready_def mh_Flush_def)
    then have "es = []" using es(2) by simp
    with k have "kf_rep ?k []" by simp
    then have "ik.irep (mh_open None (nat ((if n \<le> 0 then defaultHashSizeMB else n) * MB))) ?k []"
      by (rule mh_open_irep [OF new_size])
    then show ?thesis unfolding ix_ready_def ix_holds_def new
      using \<open>h = []\<close> \<open>mh_file (mh_Flush ?hb) = None\<close> by (auto simp: mh_open_def Let_def)
  qed
qed

subsection \<open>Sequences of operations\<close>

datatype ix_op =
    OpPut bytes bytes
  | OpGet bytes
  | OpHasKey bytes
  | OpGetAll bytes
  | OpDelete bytes
  | OpRead
  | OpStat
  | OpReopen int

datatype ix_out =
    OutDone
  | OutData "bytes option"
  | OutBool bool
  | OutAll "bytes list"
  | OutDeleted nat
  | OutCalls "(bytes \<times> bytes) list"
  | OutStat nat nat

text \<open>The operations on the model, and what they do to a history.\<close>

fun ix_step :: "ix_op \<Rightarrow> IndexKeyFile \<Rightarrow> (ix_out res \<times> IndexKeyFile) option" where
  "ix_step (OpPut k d) ix = (let (r, ix') = ix_Put (Some k) (Some d) ix in Some (res_bind r (\<lambda>_. Ok OutDone), ix'))"
| "ix_step (OpGet k) ix = map_option (\<lambda>(r, ix'). (res_bind r (\<lambda>y. Ok (OutData y)), ix')) (ix_Get (Some k) ix)"
| "ix_step (OpHasKey k) ix = map_option (\<lambda>(r, ix'). (res_bind r (\<lambda>y. Ok (OutBool y)), ix')) (ix_HasKey (Some k) ix)"
| "ix_step (OpGetAll k) ix = map_option (\<lambda>(r, ix'). (res_bind r (\<lambda>y. Ok (OutAll y)), ix')) (ix_GetAll (Some k) ix)"
| "ix_step (OpDelete k) ix = map_option (\<lambda>(r, n, ix'). (res_bind r (\<lambda>_. Ok (OutDeleted n)), ix')) (ix_Delete (Some k) ix)"
| "ix_step OpRead ix = map_option (\<lambda>(r, c, ix'). (res_bind r (\<lambda>_. Ok (OutCalls c)), ix')) (ix_Read ix)"
| "ix_step OpStat ix = map_option (\<lambda>((c, d, _), ix'). (Ok (OutStat c d), ix')) (ix_Stat ix)"
| "ix_step (OpReopen n) ix = Some (Ok OutDone, ix_reopen n ix)"

fun hist_step :: "ix_op \<Rightarrow> history \<Rightarrow> ix_out \<times> history" where
  "hist_step (OpPut k d) h = (OutDone, (False, k, d) # h)"
| "hist_step (OpGet k) h = (OutData (hist_Get k h), h)"
| "hist_step (OpHasKey k) h = (OutBool (hist_Get k h \<noteq> None), h)"
| "hist_step (OpGetAll k) h = (OutAll (hist_GetAll k h), h)"
| "hist_step (OpDelete k) h = (OutDeleted (length (hist_GetAll k h)), hist_Delete k h)"
| "hist_step OpRead h = (OutCalls (hist_Read h), h)"
| "hist_step OpStat h = (OutStat (length (hist_Read h)) (length h - length (hist_Read h)), h)"
| "hist_step (OpReopen n) h = (OutDone, h)"

fun ix_run :: "ix_op list \<Rightarrow> IndexKeyFile \<Rightarrow> (ix_out res list \<times> IndexKeyFile) option" where
  "ix_run [] ix = Some ([], ix)"
| "ix_run (c # cs) ix = (case ix_step c ix of
     None \<Rightarrow> None
   | Some (r, ix') \<Rightarrow> map_option (\<lambda>(rs, ix''). (r # rs, ix'')) (ix_run cs ix'))"

fun hist_run :: "ix_op list \<Rightarrow> history \<Rightarrow> ix_out list \<times> history" where
  "hist_run [] h = ([], h)"
| "hist_run (c # cs) h = (let (r, h') = hist_step c h; (rs, h'') = hist_run cs h' in (r # rs, h''))"

text \<open>What a \<open>Put\<close> can store.\<close>

fun ok_op :: "ix_op \<Rightarrow> bool" where
  "ok_op (OpPut k d) = ok_record k d"
| "ok_op _ = True"

text \<open>Only \<open>Put\<close> and \<open>Reload\<close> change the bucket table.\<close>

lemma ix_walk_table: "ix_walk f k x ix = Some (r, ix') \<Longrightarrow> ix_hashBlock ix' = ix_hashBlock ix"
  by (auto simp: ix_walk_def split: res.splits)

lemma ix_scan_table: "ix_scan f x ix = Some (r, y, ix') \<Longrightarrow> ix_hashBlock ix' = ix_hashBlock ix"
  by (auto simp: ix_scan_def)

lemma ix_table_kept:
  "ix_Get key ix = Some (r1, ix') \<Longrightarrow> ix_hashBlock ix' = ix_hashBlock ix"
  "ix_HasKey key ix = Some (r2, ix') \<Longrightarrow> ix_hashBlock ix' = ix_hashBlock ix"
  "ix_GetAll key ix = Some (r3, ix') \<Longrightarrow> ix_hashBlock ix' = ix_hashBlock ix"
  "ix_Delete key ix = Some (r4, n, ix') \<Longrightarrow> ix_hashBlock ix' = ix_hashBlock ix"
  "ix_Read ix = Some (r5, calls, ix') \<Longrightarrow> ix_hashBlock ix' = ix_hashBlock ix"
  "ix_Stat ix = Some (st, ix') \<Longrightarrow> ix_hashBlock ix' = ix_hashBlock ix"
  by (auto simp: ix_Get_def ix_HasKey_def ix_GetAll_def ix_Delete_def ix_Read_def ix_Stat_def
      dest: ix_walk_table ix_scan_table split: option.splits res.splits)

lemma ix_Put_dirty: "ix_Put key data ix = (Ok (), ix') \<Longrightarrow> mh_dirty (ix_hashBlock ix')"
  by (auto simp: ix_Put_def mh_Put_def Let_def res_bind_eq_Ok split: option.splits res.splits prod.splits)

lemma ix_ready_same_table:
  "ix_ready ix h \<Longrightarrow> ix_holds ix' h' \<Longrightarrow> ix_hashBlock ix' = ix_hashBlock ix \<Longrightarrow> (h = [] \<Longrightarrow> h' = []) \<Longrightarrow> ix_ready ix' h'"
  by (auto simp: ix_ready_def)

lemma ix_step_ready:
  assumes "ix_ready ix h" and "ok_op c" and "hist_size (snd (hist_step c h)) \<le> 2 ^ 39"
  shows "\<exists>ix'. ix_step c ix = Some (Ok (fst (hist_step c h)), ix') \<and> ix_ready ix' (snd (hist_step c h))"
proof -
  have h: "ix_holds ix h" using assms(1) by (simp add: ix_ready_def)
  note same = ix_ready_same_table [OF assms(1)]
  show ?thesis
  proof (cases c)
    case (OpPut k d)
    with assms(2,3) ix_Put_holds [OF h, of k d] ix_Put_dirty show ?thesis
      by (fastforce simp: ix_ready_def)
  next
    case (OpGet k)
    with ix_Get_holds [OF h, of k] same ix_table_kept(1) show ?thesis by fastforce
  next
    case (OpHasKey k)
    with ix_HasKey_holds [OF h, of k] same ix_table_kept(2) show ?thesis by fastforce
  next
    case (OpGetAll k)
    with ix_GetAll_holds [OF h, of k] same ix_table_kept(3) show ?thesis by fastforce
  next
    case (OpDelete k)
    moreover have "h = [] \<Longrightarrow> hist_Delete k h = []" by (simp add: hist_Delete_def)
    ultimately show ?thesis using ix_Delete_holds [OF h, of k] same ix_table_kept(4) by fastforce
  next
    case OpRead
    with ix_Read_holds [OF h] same ix_table_kept(5) show ?thesis by fastforce
  next
    case OpStat
    with ix_Stat_holds [OF h] same ix_table_kept(6) show ?thesis by fastforce
  next
    case (OpReopen n)
    with ix_reopen_ready [OF assms(1)] show ?thesis by simp
  qed
qed

lemma hist_size_step: "hist_size h \<le> hist_size (snd (hist_step c h))"
  by (cases c) (auto simp: hist_size_def hist_Delete_def comp_def case_prod_unfold)

lemma hist_size_run: "hist_size h \<le> hist_size (snd (hist_run cs h))"
proof (induction cs arbitrary: h)
  case (Cons c cs)
  have "hist_size h \<le> hist_size (snd (hist_step c h))" by (rule hist_size_step)
  also have "\<dots> \<le> hist_size (snd (hist_run cs (snd (hist_step c h))))" by (rule Cons.IH)
  finally show ?case by (simp add: Let_def case_prod_unfold)
qed simp

lemma ix_run_ready:
  "ix_ready ix h \<Longrightarrow> list_all ok_op cs \<Longrightarrow> hist_size (snd (hist_run cs h)) \<le> 2 ^ 39 \<Longrightarrow>
    \<exists>ix'. ix_run cs ix = Some (map Ok (fst (hist_run cs h)), ix') \<and> ix_ready ix' (snd (hist_run cs h))"
proof (induction cs arbitrary: ix h)
  case (Cons c cs)
  let ?h = "snd (hist_step c h)"
  have run: "snd (hist_run (c # cs) h) = snd (hist_run cs ?h)"
    "fst (hist_run (c # cs) h) = fst (hist_step c h) # fst (hist_run cs ?h)"
    by (simp_all add: Let_def case_prod_unfold)
  then have "hist_size ?h \<le> 2 ^ 39" using Cons.prems(3) hist_size_run [of ?h cs] by simp
  then obtain ix1 where "ix_step c ix = Some (Ok (fst (hist_step c h)), ix1)" "ix_ready ix1 ?h"
    using ix_step_ready [OF Cons.prems(1)] Cons.prems(2) by auto
  then show ?case using Cons.IH [of ix1 ?h] Cons.prems(2,3) unfolding run by fastforce
qed simp

lemma ix_new_ready: "ix_ready (NewIndexKeyFile None [] n) []"
  using ix_open_new [of n] by (simp add: ix_ready_def NewIndexKeyFile_def mh_open_def Let_def)

lemma ix_Put_ready:
  assumes "ix_ready ix h" and "ok_record k d" and "hist_size ((False, k, d) # h) \<le> 2 ^ 39"
  shows "\<exists>ix'. ix_Put (Some k) (Some d) ix = (Ok (), ix') \<and> ix_ready ix' ((False, k, d) # h)"
  using ix_Put_holds [of ix h k d] ix_Put_dirty assms by (fastforce simp: ix_ready_def)

lemma ix_Put_place:
  assumes "ix_ready ix h" and "hist_size ((False, Bytes8 k, Bytes5 p) # h) \<le> 2 ^ 39"
  shows "\<exists>ix'. ix_Put (Some (Bytes8 k)) (Some (Bytes5 p)) ix = (Ok (), ix') \<and> ix_ready ix' ((False, Bytes8 k, Bytes5 p) # h)"
  by (rule ix_Put_ready [OF assms(1) _ assms(2)]) (simp add: ok_record_def blob_head_def ok_blob_def)

lemma ix_Get_ready:
  assumes "ix_ready ix h"
  shows "\<exists>ix'. ix_Get (Some k) ix = Some (Ok (hist_Get k h), ix') \<and> ix_ready ix' h"
  using ix_Get_holds [of ix h k] ix_ready_same_table [OF assms] ix_table_kept(1) assms by (fastforce simp: ix_ready_def)

lemma ix_GetAll_ready:
  assumes "ix_ready ix h"
  shows "\<exists>ix'. ix_GetAll (Some k) ix = Some (Ok (hist_GetAll k h), ix') \<and> ix_ready ix' h"
  using ix_GetAll_holds [of ix h k] ix_ready_same_table [OF assms] ix_table_kept(3) assms by (fastforce simp: ix_ready_def)

end
