(* ===== verification/MemTimeBlock.thy ===== *)
theory MemTimeBlock
  imports MemHashBlock
begin

text \<open>
  internal/db/io/mem\_time\_block.go: the bucket table of a time index, one bucket for each half second
  of a day. Its file has the layout of \<open>MemHashBlock\<close>. The local time zone is a parameter: \<open>gdm\<close> is
  \<open>GetDateMillis\<close>, the milliseconds since local midnight.
\<close>

definition timeBlockCapacity :: nat where "timeBlockCapacity = 3600 * 24 * 2"
definition timeBlockBufSize :: nat where "timeBlockBufSize = timeBlockCapacity * keyLength"

record MemTimeBlock =
  mt_buf :: bytes
  mt_bufSize :: nat
  mt_count :: int
  mt_dirty :: bool
  mt_file :: "bytes option"

definition mt_open :: "bytes option \<Rightarrow> MemTimeBlock" where
  "mt_open file =
     (let fresh = \<lparr>mt_buf = [0xCA, 0xFE] @ replicate (memHeadReserved + timeBlockBufSize - 2) 0,
                   mt_bufSize = timeBlockBufSize, mt_count = 0, mt_dirty = False, mt_file = file\<rparr>
      in case file of
           None \<Rightarrow> fresh
         | Some data \<Rightarrow>
             if length data < memHeadReserved then fresh
             else \<lparr>mt_buf = data, mt_bufSize = length data - memHeadReserved,
                   mt_count = sint (Int32 (drop 4 data)), mt_dirty = False, mt_file = file\<rparr>)"

definition mt_offset :: "(i64 \<Rightarrow> nat) \<Rightarrow> i64 \<Rightarrow> nat" where
  "mt_offset gdm timeMs =
     (let seconds = gdm timeMs div 500; hash = seconds mod timeBlockCapacity in keyLength * hash + memHeadReserved)"

definition mt_slot :: "MemTimeBlock \<Rightarrow> nat \<Rightarrow> i64 res" where
  "mt_slot m pos = (if pos + keyLength \<le> length (mt_buf m) then Ok (Int5 (drop pos (mt_buf m)))
     else Panic IndexOutOfRange)"

definition mt_Get :: "(i64 \<Rightarrow> nat) \<Rightarrow> MemTimeBlock \<Rightarrow> i64 \<Rightarrow> i64 res" where
  "mt_Get gdm m timeMs = mt_slot m (mt_offset gdm timeMs)"

definition mt_Count :: "MemTimeBlock \<Rightarrow> int" where
  "mt_Count m = mt_count m"

definition mt_AddCount :: "int \<Rightarrow> MemTimeBlock \<Rightarrow> MemTimeBlock" where
  "mt_AddCount n m = m\<lparr>mt_count := mt_count m + n,
     mt_buf := patch 4 (PutInt32 (word_of_int (mt_count m + n))) (mt_buf m)\<rparr>"

definition mt_Put :: "(i64 \<Rightarrow> nat) \<Rightarrow> MemTimeBlock \<Rightarrow> i64 \<Rightarrow> i64 \<Rightarrow> MemTimeBlock res" where
  "mt_Put gdm m timeMs v = (let pos = mt_offset gdm timeMs in res_bind (mt_slot m pos) (\<lambda>old.
     let m' = (if old = 0 then mt_AddCount 1 m else m)
     in Ok (m'\<lparr>mt_buf := patch pos (PutInt5 v) (mt_buf m'), mt_dirty := True\<rparr>)))"

definition mt_Flush :: "MemTimeBlock \<Rightarrow> MemTimeBlock" where
  "mt_Flush m = (if \<not> mt_dirty m then m else m\<lparr>mt_file := Some (mt_buf m), mt_dirty := False\<rparr>)"

definition mt_IsDirty :: "MemTimeBlock \<Rightarrow> bool" where
  "mt_IsDirty m = mt_dirty m"

subsection \<open>As a hash table\<close>

text \<open>
  A time table is a hash table with one bucket per half second, which every hash below the capacity
  denotes; so the laws of the hash table carry over.
\<close>

definition mt_as :: "MemTimeBlock \<Rightarrow> MemHashBlock" where
  "mt_as m = \<lparr>mh_buf = mt_buf m, mh_bufSize = mt_bufSize m, mh_count = mt_count m,
     mh_capacity = timeBlockCapacity, mh_dirty = mt_dirty m, mh_file = mt_file m\<rparr>"

definition mt_bkt :: "(i64 \<Rightarrow> nat) \<Rightarrow> i64 \<Rightarrow> nat" where
  "mt_bkt gdm timeMs = (gdm timeMs div 500) mod timeBlockCapacity"

definition mt_hash :: "(i64 \<Rightarrow> nat) \<Rightarrow> i64 \<Rightarrow> i32" where
  "mt_hash gdm timeMs = word_of_nat (mt_bkt gdm timeMs)"

definition mt_inv :: "MemTimeBlock \<Rightarrow> bool" where
  "mt_inv m \<longleftrightarrow> mh_inv (mt_as m)"

definition mt_bucket :: "MemTimeBlock \<Rightarrow> nat \<Rightarrow> i64" where
  "mt_bucket m = mh_bucket (mt_as m)"

lemma mt_bkt_less: "mt_bkt gdm t < timeBlockCapacity"
  by (simp add: mt_bkt_def timeBlockCapacity_def)

lemma bucket_of_hash [simp]: "bucket_of timeBlockCapacity (mt_hash gdm t) = mt_bkt gdm t"
proof -
  have b: "mt_bkt gdm t < 2 ^ 31" using mt_bkt_less [of gdm t] by (simp add: timeBlockCapacity_def)
  have "mt_hash gdm t AND 0x7FFFFFFF = take_bit 31 (mt_hash gdm t)"
    by (simp add: take_bit_eq_mask mask_eq_exp_minus_1)
  also have "unat \<dots> = take_bit 31 (unat (mt_hash gdm t))" by (simp only: unsigned_take_bit_eq)
  also have "\<dots> = mt_bkt gdm t"
    using b by (simp add: mt_hash_def unat_of_nat take_bit_nat_eq_self)
  finally show ?thesis by (simp add: bucket_of_def mt_bkt_less)
qed

lemma mt_as_simps [simp]:
  "mh_capacity (mt_as m) = timeBlockCapacity" "mh_count (mt_as m) = mt_count m" "mh_buf (mt_as m) = mt_buf m"
  by (simp_all add: mt_as_def)

lemma mh_offset_mt: "mh_offset (mt_as m) (mt_hash gdm t) = Ok (mt_offset gdm t)"
  using bucket_of_hash [of gdm t]
  by (simp add: mh_offset_def mt_offset_def bucket_of_def mt_bkt_def Let_def timeBlockCapacity_def)

lemma mt_Get_mh: "mt_Get gdm m t = mh_Get (mt_as m) (mt_hash gdm t)"
  by (simp add: mt_Get_def mh_Get_def mh_offset_mt mt_slot_def mh_slot_def)

lemma mt_Put_mh: "mh_Put (mt_as m) (mt_hash gdm t) v = res_bind (mt_Put gdm m t v) (\<lambda>m'. Ok (mt_as m'))"
  by (simp add: mt_Put_def mh_Put_def mh_offset_mt Let_def mt_slot_def mh_slot_def)
    (auto simp: mt_as_def mt_AddCount_def mh_addCount_def)

lemma mt_Get_bucket: "mt_inv m \<Longrightarrow> mt_Get gdm m t = Ok (mt_bucket m (mt_bkt gdm t))"
  by (simp add: mt_Get_mh mt_inv_def mh_Get_bucket mt_bucket_def)

lemma mt_Put_Ok:
  assumes "mt_inv m"
  shows "\<exists>m'. mt_Put gdm m t v = Ok m' \<and> mt_as m' = mh_put (mt_as m) (mt_hash gdm t) v \<and> mt_dirty m'"
proof -
  have "res_bind (mt_Put gdm m t v) (\<lambda>m'. Ok (mt_as m')) = Ok (mh_put (mt_as m) (mt_hash gdm t) v)"
    using mh_Put_put [of "mt_as m" "mt_hash gdm t" v] assms by (simp add: mt_Put_mh [symmetric] mt_inv_def)
  then obtain m' where "mt_Put gdm m t v = Ok m'" "mt_as m' = mh_put (mt_as m) (mt_hash gdm t) v"
    by (auto simp: res_bind_eq_Ok)
  moreover from this(1) have "mt_dirty m'" by (auto simp: mt_Put_def Let_def res_bind_eq_Ok)
  ultimately show ?thesis by blast
qed

interpretation mt: bucket_table mt_inv "\<lambda>m. mt_bkt gdm" mt_bucket "mt_Get gdm" "mt_Put gdm"
  for gdm :: "i64 \<Rightarrow> nat"
proof
  fix m h v
  assume m: "mt_inv m"
  show "mt_Get gdm m h = Ok (mt_bucket m (mt_bkt gdm h))" using m by (rule mt_Get_bucket)
  assume v: "fits5 v"
  obtain m' where m': "mt_Put gdm m h v = Ok m'" "mt_as m' = mh_put (mt_as m) (mt_hash gdm h) v"
    using mt_Put_Ok [OF m] by blast
  moreover have "mt_inv m'" using m m'(2) by (simp add: mt_inv_def mh_put_inv)
  moreover have "mt_bucket m' (mt_bkt gdm h') = (if mt_bkt gdm h' = mt_bkt gdm h then v else mt_bucket m (mt_bkt gdm h'))" for h'
    using mh_bucket_put [OF m [unfolded mt_inv_def], of "mt_bkt gdm h'" v "mt_hash gdm h"] v mt_bkt_less
    by (simp add: mt_bucket_def m'(2))
  ultimately show "\<exists>t'. mt_Put gdm m h v = Ok t' \<and> mt_inv t' \<and> mt_bkt gdm = mt_bkt gdm \<and>
      (\<forall>h'. mt_bucket t' (mt_bkt gdm h') = (if mt_bkt gdm h' = mt_bkt gdm h then v else mt_bucket m (mt_bkt gdm h')))"
    by blast
qed

lemma mt_open_new: "mt_inv (mt_open None)" and mt_open_new_bucket: "b < timeBlockCapacity \<Longrightarrow> mt_bucket (mt_open None) b = 0"
proof -
  have "mt_as (mt_open None) = mh_open None timeBlockBufSize"
    by (simp add: mt_as_def mt_open_def mh_open_def Let_def timeBlockBufSize_def keyLength_def)
  moreover have "5 \<le> timeBlockBufSize" by (simp add: timeBlockBufSize_def timeBlockCapacity_def keyLength_def)
  note mh_open_new [OF this]
  ultimately show "mt_inv (mt_open None)" "b < timeBlockCapacity \<Longrightarrow> mt_bucket (mt_open None) b = 0"
    by (simp_all add: mt_inv_def mt_bucket_def) (metis mt_as_simps(1))
qed

lemma mt_AddCount_keeps:
  assumes "mt_inv m"
  shows "mt_inv (mt_AddCount n m)" and "b < timeBlockCapacity \<Longrightarrow> mt_bucket (mt_AddCount n m) b = mt_bucket m b"
proof -
  have "mt_as (mt_AddCount n m) = mh_addCount n (mt_as m)"
    by (simp add: mt_as_def mt_AddCount_def mh_addCount_def)
  then show "mt_inv (mt_AddCount n m)" "b < timeBlockCapacity \<Longrightarrow> mt_bucket (mt_AddCount n m) b = mt_bucket m b"
    using assms mh_addCount_inv [of "mt_as m" n] mh_addCount_bucket [of "mt_as m" b n] by (simp_all add: mt_inv_def mt_bucket_def)
qed

end
