(* ===== verification/IndexTimeFile.thy ===== *)
theory IndexTimeFile
  imports MemTimeBlock RealKeyFile IndexKeyFile "HOL-Library.Multiset"
begin

text \<open>
  internal/db/io/index\_time\_file.go: the index from times to data positions, a bucket table with a
  bucket per half second and a key file. \<open>gdm\<close> is \<open>GetDateMillis\<close> in the local time zone; \<open>srt\<close> is
  what \<open>sort.Slice\<close> makes of the items, which orders them by time, in no particular order among equal
  times. A handler is a function on a state of its own, whose result says whether to go on; it may panic.
\<close>

definition SecondsPerDay :: nat where "SecondsPerDay = 86400"

record IndexTimeFile =
  it_timeBlockHash :: MemTimeBlock
  it_keyFile :: RealKeyFile

type_synonym timed = "i64 \<times> bytes"

definition NewIndexTimeFile :: "bytes option \<Rightarrow> bytes \<Rightarrow> IndexTimeFile" where
  "NewIndexTimeFile hfile kfile = \<lparr>it_timeBlockHash = mt_open hfile, it_keyFile = kf_open kfile\<rparr>"

definition it_Put :: "(i64 \<Rightarrow> nat) \<Rightarrow> i64 \<Rightarrow> bytes option \<Rightarrow> IndexTimeFile \<Rightarrow> nat res \<times> IndexTimeFile" where
  "it_Put gdm timeMs dataPos it = (case dataPos of
     None \<Rightarrow> (Err (ErrText ''invalid key/value''), it)
   | Some d \<Rightarrow>
       if sint timeMs \<le> 0 then (Err (ErrText ''invalid key/value''), it)
       else (case mt_Get gdm (it_timeBlockHash it) timeMs of
          Ok prevKeyPos \<Rightarrow>
            let (newKeyPos, kf') = kf_Append prevKeyPos (Bytes8 timeMs) d (it_keyFile it) in
            (case mt_Put gdm (it_timeBlockHash it) timeMs (word_of_nat newKeyPos) of
               Ok tb \<Rightarrow> (Ok newKeyPos, \<lparr>it_timeBlockHash = mt_AddCount 1 tb, it_keyFile = kf'\<rparr>)
             | Err e \<Rightarrow> (Err e, it\<lparr>it_keyFile := kf'\<rparr>)
             | Panic q \<Rightarrow> (Panic q, it\<lparr>it_keyFile := kf'\<rparr>))
        | Err e \<Rightarrow> (Err e, it)
        | Panic q \<Rightarrow> (Panic q, it)))"

text \<open>\<open>Int64\<close> of a key panics if the key is shorter than eight bytes.\<close>

definition time_item :: "KeyRecord \<Rightarrow> timed list \<Rightarrow> go_panic + timed list" where
  "time_item r items =
     (if kr_Deleted r then Inr items
      else if length (kr_TimeKey r) < 8 then Inl IndexOutOfRange
      else Inr (items @ [(Int64 (kr_TimeKey r), kr_DataPos r)]))"

definition getSecAllInto :: "(i64 \<Rightarrow> nat) \<Rightarrow> (timed list \<Rightarrow> timed list) \<Rightarrow> i64 \<Rightarrow> timed list \<Rightarrow> IndexTimeFile \<Rightarrow>
    (timed list res \<times> IndexTimeFile) option" where
  "getSecAllInto gdm srt timeMs items it =
     (if sint timeMs \<le> 0 then Some (Err (ErrText ''invalid key''), it)
      else case mt_Get gdm (it_timeBlockHash it) timeMs of
        Ok pos \<Rightarrow> map_option (\<lambda>(r, kf'). (res_bind r (\<lambda>y. case y of Inl q \<Rightarrow> Panic q | Inr xs \<Rightarrow> Ok (srt xs)),
            it\<lparr>it_keyFile := kf'\<rparr>)) (chain_walk GetRecord time_item pos (it_keyFile it) items)
      | Err e \<Rightarrow> Some (Err e, it)
      | Panic q \<Rightarrow> Some (Panic q, it))"

definition getSecAll :: "(i64 \<Rightarrow> nat) \<Rightarrow> (timed list \<Rightarrow> timed list) \<Rightarrow> i64 \<Rightarrow> IndexTimeFile \<Rightarrow>
    (timed list res \<times> IndexTimeFile) option" where
  "getSecAll gdm srt timeMs it = getSecAllInto gdm srt timeMs [] it"

definition GetDirect :: "nat \<Rightarrow> IndexTimeFile \<Rightarrow> timed option res \<times> IndexTimeFile" where
  "GetDirect pos it = (let (r, kf') = GetRecord pos (it_keyFile it) in
     (res_bind r (\<lambda>r. if kr_Deleted r then Ok None
        else if length (kr_TimeKey r) < 8 then Panic IndexOutOfRange
        else Ok (Some (Int64 (kr_TimeKey r), kr_DataPos r))), it\<lparr>it_keyFile := kf'\<rparr>))"

definition it_Delete :: "(i64 \<Rightarrow> nat) \<Rightarrow> i64 \<Rightarrow> IndexTimeFile \<Rightarrow> (unit res \<times> nat \<times> IndexTimeFile) option" where
  "it_Delete gdm timeMs it =
     (if sint timeMs \<le> 0 then Some (Err (ErrText ''invalid key''), 0, it)
      else case mt_Get gdm (it_timeBlockHash it) timeMs of
        Ok pos \<Rightarrow> map_option (\<lambda>(r, deleted, kf').
            (case r of
               Ok _ \<Rightarrow> (case mt_Put gdm (it_timeBlockHash it) timeMs 0 of
                   Ok tb \<Rightarrow> (Ok (), deleted, \<lparr>it_timeBlockHash = mt_AddCount (- int deleted) tb, it_keyFile = kf'\<rparr>)
                 | Err e \<Rightarrow> (Err e, deleted, it\<lparr>it_keyFile := kf'\<rparr>)
                 | Panic q \<Rightarrow> (Panic q, deleted, it\<lparr>it_keyFile := kf'\<rparr>))
             | Err e \<Rightarrow> (Err e, deleted, it\<lparr>it_keyFile := kf'\<rparr>)
             | Panic q \<Rightarrow> (Panic q, deleted, it\<lparr>it_keyFile := kf'\<rparr>)))
          (chain_delete IsDeleted (\<lambda>_ f. (Ok True, f)) GetPrevPos SetDelete pos (it_keyFile it) 0)
      | Err e \<Rightarrow> Some (Err e, 0, it)
      | Panic q \<Rightarrow> Some (Panic q, 0, it))"

subsection \<open>Reading a range\<close>

text \<open>What the loops do with the items of one bucket; \<^const>\<open>False\<close> is that the handler stops the reading.\<close>

fun deliver :: "(timed \<Rightarrow> 'x \<Rightarrow> bool res \<times> 'x) \<Rightarrow> timed list \<Rightarrow> 'x \<Rightarrow> bool res \<times> 'x" where
  "deliver handler [] s = (Ok True, s)"
| "deliver handler (x # xs) s = (case handler x s of
     (Ok True, s') \<Rightarrow> deliver handler xs s'
   | r \<Rightarrow> r)"

fun deliver_data :: "i64 \<Rightarrow> i64 \<Rightarrow> (i64 \<Rightarrow> bytes) \<Rightarrow> (timed \<Rightarrow> 'x \<Rightarrow> bool res \<times> 'x) \<Rightarrow> timed list \<Rightarrow> 'x \<Rightarrow>
    bool res \<times> 'x" where
  "deliver_data stime etime reader handler [] s = (Ok True, s)"
| "deliver_data stime etime reader handler ((time, dataPos) # xs) s =
     (if sint stime \<le> sint time \<and> sint time \<le> sint etime
      then if length dataPos < 5 then (Panic IndexOutOfRange, s)
           else (case handler (time, reader (Int5 dataPos)) s of
                   (Ok True, s') \<Rightarrow> deliver_data stime etime reader handler xs s'
                 | r \<Rightarrow> r)
      else deliver_data stime etime reader handler xs s)"

text \<open>
  The loop over the buckets with the number of rounds left, its condition on the time, its step and
  what it does with the items of a bucket.
\<close>

fun ticks :: "(i64 \<Rightarrow> nat) \<Rightarrow> (timed list \<Rightarrow> timed list) \<Rightarrow> (i64 \<Rightarrow> bool) \<Rightarrow> i64 \<Rightarrow>
    (timed list \<Rightarrow> 'x \<Rightarrow> bool res \<times> 'x) \<Rightarrow> nat \<Rightarrow> i64 \<Rightarrow> 'x \<Rightarrow> IndexTimeFile \<Rightarrow>
    (unit res \<times> 'x \<times> IndexTimeFile) option" where
  "ticks gdm srt go step out 0 t calls it = Some (Ok (), calls, it)"
| "ticks gdm srt go step out (Suc n) t calls it =
     (if \<not> go t then Some (Ok (), calls, it)
      else case mt_Get gdm (it_timeBlockHash it) t of
        Ok v \<Rightarrow>
          if v = 0 then ticks gdm srt go step out n (t + step) calls it
          else (case getSecAll gdm srt t it of
              None \<Rightarrow> None
            | Some (Ok items, it') \<Rightarrow>
                (case out items calls of
                   (Ok True, calls') \<Rightarrow> ticks gdm srt go step out n (t + step) calls' it'
                 | (Ok False, calls') \<Rightarrow> Some (Ok (), calls', it')
                 | (Err e, calls') \<Rightarrow> Some (Err e, calls', it')
                 | (Panic q, calls') \<Rightarrow> Some (Panic q, calls', it'))
            | Some (Err e, it') \<Rightarrow> Some (Err e, calls, it')
            | Some (Panic q, it') \<Rightarrow> Some (Panic q, calls, it'))
      | Err e \<Rightarrow> Some (Err e, calls, it)
      | Panic q \<Rightarrow> Some (Panic q, calls, it))"

definition it_Read :: "(i64 \<Rightarrow> nat) \<Rightarrow> (timed list \<Rightarrow> timed list) \<Rightarrow> i64 \<Rightarrow> i64 \<Rightarrow> (timed \<Rightarrow> 'x \<Rightarrow> bool res \<times> 'x) \<Rightarrow> 'x \<Rightarrow>
    IndexTimeFile \<Rightarrow> (unit res \<times> 'x \<times> IndexTimeFile) option" where
  "it_Read gdm srt stime etime handler s it =
     ticks gdm srt (\<lambda>t. sint t \<le> sint etime) 500 (deliver handler) (SecondsPerDay * 2) stime s it"

definition ReadFromEnd :: "(i64 \<Rightarrow> nat) \<Rightarrow> (timed list \<Rightarrow> timed list) \<Rightarrow> i64 \<Rightarrow> i64 \<Rightarrow> (timed \<Rightarrow> 'x \<Rightarrow> bool res \<times> 'x) \<Rightarrow> 'x \<Rightarrow>
    IndexTimeFile \<Rightarrow> (unit res \<times> 'x \<times> IndexTimeFile) option" where
  "ReadFromEnd gdm srt stime etime handler s it =
     ticks gdm srt (\<lambda>t. sint stime \<le> sint t) (-500) (\<lambda>items. deliver handler (rev items)) (SecondsPerDay * 2) etime s it"

definition it_ReadWithDataReader :: "(i64 \<Rightarrow> nat) \<Rightarrow> (timed list \<Rightarrow> timed list) \<Rightarrow> i64 \<Rightarrow> i64 \<Rightarrow>
    (timed \<Rightarrow> 'x \<Rightarrow> bool res \<times> 'x) \<Rightarrow> (i64 \<Rightarrow> bytes) \<Rightarrow> 'x \<Rightarrow> IndexTimeFile \<Rightarrow> (unit res \<times> 'x \<times> IndexTimeFile) option" where
  "it_ReadWithDataReader gdm srt stime etime handler reader s it =
     ticks gdm srt (\<lambda>t. sint t \<le> sint etime) 500 (deliver_data stime etime reader handler) (SecondsPerDay * 2) stime s it"

definition ReadFromEndWithDataReader :: "(i64 \<Rightarrow> nat) \<Rightarrow> (timed list \<Rightarrow> timed list) \<Rightarrow> i64 \<Rightarrow> i64 \<Rightarrow>
    (timed \<Rightarrow> 'x \<Rightarrow> bool res \<times> 'x) \<Rightarrow> (i64 \<Rightarrow> bytes) \<Rightarrow> 'x \<Rightarrow> IndexTimeFile \<Rightarrow> (unit res \<times> 'x \<times> IndexTimeFile) option" where
  "ReadFromEndWithDataReader gdm srt stime etime handler reader s it =
     ticks gdm srt (\<lambda>t. sint stime \<le> sint t) (-500)
       (\<lambda>items. deliver_data stime etime reader handler (rev items)) (SecondsPerDay * 2) etime s it"

definition it_ReadAll :: "IndexTimeFile \<Rightarrow> (unit res \<times> (bytes \<times> bytes) list \<times> IndexTimeFile) option" where
  "it_ReadAll it = map_option (\<lambda>(r, x', kf'). (r, x', it\<lparr>it_keyFile := kf'\<rparr>))
     (seq_read GetRecord (\<lambda>r calls. Ok (if kr_Deleted r then calls else calls @ [(kr_TimeKey r, kr_DataPos r)]))
        (kf_Length (it_keyFile it)) FirstPos (it_keyFile it) [])"

subsection \<open>The ends of a range\<close>

partial_function (option) chain_first ::
  "(nat \<Rightarrow> 's \<Rightarrow> i64 res \<times> 's) \<Rightarrow> (nat \<Rightarrow> 's \<Rightarrow> bytes res \<times> 's) \<Rightarrow> i64 \<Rightarrow> 's \<Rightarrow> (bytes option res \<times> 's) option" where
  "chain_first prev data pos s =
     (if 0 < sint pos
      then (case prev (unat pos) s of
              (Ok p, s') \<Rightarrow>
                if p = 0 then (let (r, s'') = data (unat pos) s' in Some (res_bind r (\<lambda>d. Ok (Some d)), s''))
                else chain_first prev data p s'
            | (Err e, s') \<Rightarrow> Some (Err e, s')
            | (Panic q, s') \<Rightarrow> Some (Panic q, s'))
      else Some (Ok None, s))"

definition getDataPosFirstAt :: "(i64 \<Rightarrow> nat) \<Rightarrow> i64 \<Rightarrow> IndexTimeFile \<Rightarrow> (bytes option res \<times> IndexTimeFile) option" where
  "getDataPosFirstAt gdm timeMs it = (case mt_Get gdm (it_timeBlockHash it) timeMs of
     Ok pos \<Rightarrow> map_option (\<lambda>(r, kf'). (r, it\<lparr>it_keyFile := kf'\<rparr>)) (chain_first GetPrevPos GetDataPos pos (it_keyFile it))
   | Err e \<Rightarrow> Some (Err e, it)
   | Panic q \<Rightarrow> Some (Panic q, it))"

definition getDataPosLastAt :: "(i64 \<Rightarrow> nat) \<Rightarrow> i64 \<Rightarrow> IndexTimeFile \<Rightarrow> (bytes option res \<times> IndexTimeFile) option" where
  "getDataPosLastAt gdm timeMs it = (case mt_Get gdm (it_timeBlockHash it) timeMs of
     Ok pos \<Rightarrow> if pos = 0 then Some (Ok None, it)
       else (let (r, kf') = GetDataPos (unat pos) (it_keyFile it) in
         Some (res_bind r (\<lambda>d. Ok (Some d)), it\<lparr>it_keyFile := kf'\<rparr>))
   | Err e \<Rightarrow> Some (Err e, it)
   | Panic q \<Rightarrow> Some (Panic q, it))"

fun first_tick :: "(i64 \<Rightarrow> IndexTimeFile \<Rightarrow> (bytes option res \<times> IndexTimeFile) option) \<Rightarrow> (i64 \<Rightarrow> bool) \<Rightarrow> i64 \<Rightarrow>
    nat \<Rightarrow> i64 \<Rightarrow> IndexTimeFile \<Rightarrow> (bytes option res \<times> IndexTimeFile) option" where
  "first_tick at go step 0 t it = Some (Ok None, it)"
| "first_tick at go step (Suc n) t it =
     (if \<not> go t then Some (Ok None, it)
      else case at t it of
        None \<Rightarrow> None
      | Some (Ok (Some dp), it') \<Rightarrow> Some (Ok (Some dp), it')
      | Some (Ok None, it') \<Rightarrow> first_tick at go step n (t + step) it'
      | Some (Err e, it') \<Rightarrow> Some (Err e, it')
      | Some (Panic q, it') \<Rightarrow> Some (Panic q, it'))"

definition getDataPosFirst :: "(i64 \<Rightarrow> nat) \<Rightarrow> i64 \<Rightarrow> i64 \<Rightarrow> IndexTimeFile \<Rightarrow> (bytes option res \<times> IndexTimeFile) option" where
  "getDataPosFirst gdm stime etime it =
     first_tick (getDataPosFirstAt gdm) (\<lambda>t. sint t \<le> sint etime) 500 (SecondsPerDay * 2) stime it"

definition getDataPosLast :: "(i64 \<Rightarrow> nat) \<Rightarrow> i64 \<Rightarrow> i64 \<Rightarrow> IndexTimeFile \<Rightarrow> (bytes option res \<times> IndexTimeFile) option" where
  "getDataPosLast gdm stime etime it =
     first_tick (getDataPosLastAt gdm) (\<lambda>t. sint stime \<le> sint t) (-500) (SecondsPerDay * 2) etime it"

definition GetStartEndDataPos :: "(i64 \<Rightarrow> nat) \<Rightarrow> i64 \<Rightarrow> i64 \<Rightarrow> IndexTimeFile \<Rightarrow>
    ((bytes option \<times> bytes option) res \<times> IndexTimeFile) option" where
  "GetStartEndDataPos gdm stime etime it = (case getDataPosFirst gdm stime etime it of
     None \<Rightarrow> None
   | Some (Ok f, it1) \<Rightarrow> map_option (\<lambda>(r, it2). (res_bind r (\<lambda>l. Ok (f, l)), it2)) (getDataPosLast gdm stime etime it1)
   | Some (Err e, it1) \<Rightarrow> Some (Err e, it1)
   | Some (Panic q, it1) \<Rightarrow> Some (Panic q, it1))"

definition it_Close :: "IndexTimeFile \<Rightarrow> IndexTimeFile" where
  "it_Close it = \<lparr>it_timeBlockHash = mt_Flush (it_timeBlockHash it), it_keyFile = flushAppendBuf (it_keyFile it)\<rparr>"

subsection \<open>What the index holds\<close>

interpretation itx: chain_index mt_inv "\<lambda>m. mt_bkt gdm" mt_bucket "mt_Get gdm" "mt_Put gdm"
  kf_rep ok_record kf_size FirstPos kf_Length kf_Append GetRecord IsDeleted GetTimeKey GetDataPos GetPrevPos SetDelete Int64
  for gdm :: "i64 \<Rightarrow> nat"
  by unfold_locales

text \<open>The history of puts, the newest first: the flag that \<open>Delete\<close> sets, the time and the data.\<close>

type_synonym time_history = "(bool \<times> i64 \<times> bytes) list"

definition time_of :: "entry \<Rightarrow> bool \<times> i64 \<times> bytes" where
  "time_of e = (e_del e, Int64 (e_key e), e_data e)"

definition it_holds :: "(i64 \<Rightarrow> nat) \<Rightarrow> IndexTimeFile \<Rightarrow> time_history \<Rightarrow> bool" where
  "it_holds gdm it h \<longleftrightarrow> (\<exists>es. itx.irep gdm (it_timeBlockHash it) (it_keyFile it) es \<and>
     (\<forall>e \<in> set es. length (e_key e) = 8) \<and> h = map time_of es)"

definition hist_sec :: "(i64 \<Rightarrow> nat) \<Rightarrow> time_history \<Rightarrow> i64 \<Rightarrow> timed list" where
  "hist_sec gdm h t = map snd (filter (\<lambda>(d, t', v). \<not> d \<and> mt_bkt gdm t' = mt_bkt gdm t) h)"

definition time_hist_size :: "time_history \<Rightarrow> nat" where
  "time_hist_size h = FirstPos + sum_list (map (\<lambda>(d, t, v). 16 + blob_head v + length v) h)"

definition time_hist_Delete :: "(i64 \<Rightarrow> nat) \<Rightarrow> i64 \<Rightarrow> time_history \<Rightarrow> time_history" where
  "time_hist_Delete gdm t h = map (\<lambda>(d, t', v). (d \<or> mt_bkt gdm t' = mt_bkt gdm t, t', v)) h"

text \<open>What \<open>sort.Slice\<close> guarantees.\<close>

definition sorts :: "(timed list \<Rightarrow> timed list) \<Rightarrow> bool" where
  "sorts srt \<longleftrightarrow> (\<forall>xs. mset (srt xs) = mset xs \<and> sorted (map (\<lambda>x. sint (fst x)) (srt xs)))"

lemma sorts_Nil [simp]: "sorts srt \<Longrightarrow> srt [] = []"
  by (simp add: sorts_def flip: mset_zero_iff)

lemma length_Bytes8 [simp]: "length (Bytes8 t) = 8"
  by (simp add: Bytes8_def)

lemma time_size:
  "\<forall>e \<in> set es. length (e_key e) = 8 \<Longrightarrow> records_size kf_size FirstPos es = time_hist_size (map time_of es)"
  by (induction es) (simp_all add: time_hist_size_def time_of_def kf_size_def)

lemma irep_table:
  assumes "itx.irep gdm tb kf es" and "mt_inv tb'" and "\<And>b. b < timeBlockCapacity \<Longrightarrow> mt_bucket tb' b = mt_bucket tb b"
  shows "itx.irep gdm tb' kf es"
  using assms by (auto simp: itx.irep_def mt_bkt_less)

lemma it_Put_holds:
  assumes "it_holds gdm it h" and "0 < sint t" and "ok_blob d" and "time_hist_size ((False, t, d) # h) \<le> 2 ^ 39"
  shows "\<exists>it'. it_Put gdm t (Some d) it = (Ok (time_hist_size h), it') \<and> it_holds gdm it' ((False, t, d) # h)"
proof -
  obtain es where es: "itx.irep gdm (it_timeBlockHash it) (it_keyFile it) es" "\<forall>e \<in> set es. length (e_key e) = 8"
    "h = map time_of es" using assms(1) by (auto simp: it_holds_def)
  define p where "p = mt_bucket (it_timeBlockHash it) (mt_bkt gdm (Int64 (Bytes8 t)))"
  have ok: "ok_record (Bytes8 t) d" using assms(3) by (simp add: ok_record_def blob_head_def)
  have size: "records_size kf_size FirstPos (Entry False p (Bytes8 t) d # es) \<le> 2 ^ 39"
    using assms(4) es(2,3) time_size [of "Entry False p (Bytes8 t) d # es"] by (simp add: time_of_def)
  obtain kf' tb where put: "kf_Append p (Bytes8 t) d (it_keyFile it) = (records_size kf_size FirstPos es, kf')"
    "mt_Put gdm (it_timeBlockHash it) t (word_of_nat (records_size kf_size FirstPos es)) = Ok tb"
    "itx.irep gdm tb kf' (Entry False p (Bytes8 t) d # es)"
    using itx.irep_put [OF es(1) ok size p_def] by auto
  have inv: "mt_inv tb" using put(3) by (simp add: itx.irep_def)
  have "itx.irep gdm (mt_AddCount 1 tb) kf' (Entry False p (Bytes8 t) d # es)"
    using irep_table [OF put(3)] mt_AddCount_keeps [OF inv] by blast
  moreover have "mt_Get gdm (it_timeBlockHash it) t = Ok p"
    using mt_Get_bucket es(1) by (simp add: itx.irep_def p_def)
  ultimately show ?thesis using assms(2) es(2,3) put(1,2) time_size [OF es(2)]
    by (auto simp: it_Put_def it_holds_def time_of_def intro!: exI [of _ "Entry False p (Bytes8 t) d # es"])
qed

lemma fold_until_collect:
  assumes "\<And>e items. e \<in> set es \<Longrightarrow> g e items = Inr (if e_del e then items else items @ [f e])"
  shows "fold_until g es items = Inr (items @ map f (filter (\<lambda>e. \<not> e_del e) es))"
  using assms by (induction es arbitrary: items) auto

lemma getSecAll_holds:
  assumes "it_holds gdm it h" and "0 < sint t"
  shows "\<exists>it'. getSecAll gdm srt t it = Some (Ok (srt (hist_sec gdm h t)), it') \<and> it_holds gdm it' h \<and>
    it_timeBlockHash it' = it_timeBlockHash it"
proof -
  obtain es where es: "itx.irep gdm (it_timeBlockHash it) (it_keyFile it) es" "\<forall>e \<in> set es. length (e_key e) = 8"
    "h = map time_of es" using assms(1) by (auto simp: it_holds_def)
  let ?es = "filter (\<lambda>e. mt_bkt gdm (Int64 (e_key e)) = mt_bkt gdm t) es"
  define g where "g e items = time_item (entry_record 0 e) items" for e items
  have rec: "time_item (entry_record p e) items = g e items" for p e items
    by (simp add: g_def time_item_def)
  have del: "e_del e \<Longrightarrow> g e items = Inr items" for e items by (simp add: g_def time_item_def)
  have "fold_until g ?es [] = Inr ([] @ map (\<lambda>e. (Int64 (e_key e), e_data e)) (filter (\<lambda>e. \<not> e_del e) ?es))"
    using es(2) by (intro fold_until_collect) (auto simp: g_def time_item_def)
  moreover have "map (\<lambda>e. (Int64 (e_key e), e_data e)) (filter (\<lambda>e. \<not> e_del e) ?es) = hist_sec gdm h t"
    unfolding es(3) hist_sec_def by (induction es) (simp_all add: time_of_def)
  ultimately show ?thesis using itx.irep_walk [where f = time_item and g = g and h = t and x = "[]", OF es(1) rec del] assms(2) es(2,3)
    by (auto simp: getSecAll_def getSecAllInto_def it_holds_def)
qed

lemma it_Delete_holds:
  assumes "it_holds gdm it h" and "0 < sint t"
  shows "\<exists>it'. it_Delete gdm t it = Some (Ok (), length (hist_sec gdm h t), it') \<and>
    it_holds gdm it' (time_hist_Delete gdm t h)"
proof -
  let ?tb = "it_timeBlockHash it" and ?b = "mt_bkt gdm t" and ?P = "\<lambda>_::bytes. True"
  obtain es where es: "itx.irep gdm ?tb (it_keyFile it) es" "\<forall>e \<in> set es. length (e_key e) = 8"
    "h = map time_of es" using assms(1) by (auto simp: it_holds_def)
  let ?es = "map (itx.mark gdm ?tb ?b ?P) es"
  obtain kf' where kf': "chain_delete IsDeleted (\<lambda>_ f. (Ok True, f)) GetPrevPos SetDelete (mt_bucket ?tb ?b) (it_keyFile it) 0 =
      Some (Ok (), length (filter (itx.hit gdm ?tb ?b ?P) es), kf')" "itx.irep gdm ?tb kf' ?es"
    using itx.irep_delete [OF es(1), of "\<lambda>_ f. (Ok True, f)" ?P t] by auto
  have "all_deleted (\<lambda>k. mt_bkt gdm (Int64 k)) ?b ?es"
    by (auto simp: all_deleted_def itx.mark_def itx.hit_def)
  from itx.irep_clear [OF kf'(2), of t, OF this] obtain tb where tb: "mt_Put gdm ?tb t 0 = Ok tb" "itx.irep gdm tb kf' ?es"
    by blast
  have inv: "mt_inv tb" using tb(2) by (simp add: itx.irep_def)
  have n: "length (filter (itx.hit gdm ?tb ?b ?P) es) = length (hist_sec gdm h t)"
    unfolding es(3) hist_sec_def by (induction es) (auto simp: time_of_def itx.hit_def)
  have "itx.irep gdm (mt_AddCount c tb) kf' ?es" for c
    using irep_table [OF tb(2)] mt_AddCount_keeps [OF inv] by blast
  moreover have "map time_of ?es = time_hist_Delete gdm t h"
    unfolding es(3) time_hist_Delete_def by (induction es) (auto simp: time_of_def itx.mark_def itx.hit_def)
  moreover have "mt_Get gdm ?tb t = Ok (mt_bucket ?tb ?b)" using mt_Get_bucket es(1) by (simp add: itx.irep_def)
  ultimately show ?thesis using kf'(1) tb(1) assms(2) es(2) n
    by (auto simp: it_Delete_def it_holds_def intro!: exI [of _ ?es])
qed

text \<open>An empty bucket has no undeleted records.\<close>

lemma empty_bucket:
  assumes "it_holds gdm it h" and "mt_Get gdm (it_timeBlockHash it) t = Ok 0"
  shows "hist_sec gdm h t = []"
proof -
  obtain es where es: "itx.irep gdm (it_timeBlockHash it) (it_keyFile it) es" "h = map time_of es"
    using assms(1) by (auto simp: it_holds_def)
  have "mt_bucket (it_timeBlockHash it) (mt_bkt gdm t) = 0"
    using assms(2) mt_Get_bucket es(1) by (simp add: itx.irep_def)
  then have "link_to (\<lambda>k. mt_bkt gdm (Int64 k)) (records_size kf_size FirstPos) (mt_bkt gdm t) es 0"
    using es(1) by (metis itx.irep_def)
  moreover have "records_size kf_size FirstPos es \<le> 2 ^ 39" using es(1) by (simp add: itx.irep_def)
  ultimately have "all_deleted (\<lambda>k. mt_bkt gdm (Int64 k)) (mt_bkt gdm t) es"
  proof (induction es)
    case (Cons e es)
    have lt: "records_size kf_size FirstPos es < 2 ^ 39" using Cons.prems(2) kf_size_pos [of e] by simp
    show ?case
    proof (cases "mt_bkt gdm (Int64 (e_key e)) = mt_bkt gdm t")
      case True
      then have "link_to (\<lambda>k. mt_bkt gdm (Int64 k)) (records_size kf_size FirstPos) (mt_bkt gdm t) (e # es) 0" 
        using Cons.prems(1) by simp
      moreover have "word_of_nat (records_size kf_size FirstPos es) \<noteq> (0 :: i64)"
        using itx.pos_word(1) [OF lt] kf.fsize_pos [of es] by auto
      ultimately show ?thesis using True by (auto simp: link_to_def)
    next
      case False
      with Cons lt show ?thesis by (simp add: link_to_Cons_other all_deleted_def)
    qed
  qed (simp add: all_deleted_def)
  then show ?thesis unfolding es(2) hist_sec_def by (auto simp: all_deleted_def filter_empty_conv time_of_def)
qed

subsection \<open>Reading a range, on the history\<close>

fun tick_times :: "(i64 \<Rightarrow> bool) \<Rightarrow> i64 \<Rightarrow> nat \<Rightarrow> i64 \<Rightarrow> i64 list" where
  "tick_times go step 0 t = []"
| "tick_times go step (Suc n) t = (if go t then t # tick_times go step n (t + step) else [])"

fun deliver_all :: "(timed list \<Rightarrow> 'x \<Rightarrow> bool res \<times> 'x) \<Rightarrow> timed list list \<Rightarrow> 'x \<Rightarrow>
    unit res \<times> 'x" where
  "deliver_all out [] calls = (Ok (), calls)"
| "deliver_all out (xs # xss) calls = (case out xs calls of
     (Ok True, calls') \<Rightarrow> deliver_all out xss calls'
   | (Ok False, calls') \<Rightarrow> (Ok (), calls')
   | (Err e, calls') \<Rightarrow> (Err e, calls')
   | (Panic q, calls') \<Rightarrow> (Panic q, calls'))"

lemma ticks_holds:
  assumes "it_holds gdm it h" and "sorts srt" and "\<And>calls. out [] calls = (Ok True, calls)"
    and "\<And>t'. t' \<in> set (tick_times go step n t) \<Longrightarrow> 0 < sint t'"
  shows "\<exists>it'. ticks gdm srt go step out n t calls it =
      Some (fst (deliver_all out (map (\<lambda>t. srt (hist_sec gdm h t)) (tick_times go step n t)) calls),
            snd (deliver_all out (map (\<lambda>t. srt (hist_sec gdm h t)) (tick_times go step n t)) calls), it') \<and>
    it_holds gdm it' h"
  using assms(1,4)
proof (induction n arbitrary: t calls it)
  case (Suc n)
  show ?case
  proof (cases "go t")
    case True
    have t: "0 < sint t" using Suc.prems(2) [of t] True by simp
    have IH: "\<exists>it''. ticks gdm srt go step out n (t + step) calls it' =
      Some (fst (deliver_all out (map (\<lambda>t. srt (hist_sec gdm h t)) (tick_times go step n (t + step))) calls),
            snd (deliver_all out (map (\<lambda>t. srt (hist_sec gdm h t)) (tick_times go step n (t + step))) calls), it'') \<and>
      it_holds gdm it'' h" if "it_holds gdm it' h" for calls it'
      using Suc.IH [OF that] Suc.prems(2) True by simp
    have inv: "mt_inv (it_timeBlockHash it)" using Suc.prems(1) by (auto simp: it_holds_def itx.irep_def)
    note get = mt_Get_bucket [OF this, of gdm t]
    show ?thesis
    proof (cases "mt_bucket (it_timeBlockHash it) (mt_bkt gdm t) = 0")
      case zero: True
      then have "hist_sec gdm h t = []" using empty_bucket [OF Suc.prems(1)] get by simp
      with IH [OF Suc.prems(1), of calls] show ?thesis
        using True get zero by (simp add: sorts_Nil [OF assms(2)] assms(3))
    next
      case False
      obtain it' where "getSecAll gdm srt t it = Some (Ok (srt (hist_sec gdm h t)), it')" "it_holds gdm it' h"
        using getSecAll_holds [OF Suc.prems(1) t] by blast
      then show ?thesis using True get False IH
        by (auto split: prod.split res.split bool.split)
    qed
  qed (use Suc.prems(1) in auto)
qed auto

text \<open>The handler that only notes its calls.\<close>

definition note_calls :: "timed \<Rightarrow> timed list \<Rightarrow> bool res \<times> timed list" where
  "note_calls x calls = (Ok True, calls @ [x])"

lemma deliver_always: "deliver note_calls xs calls = (Ok True, calls @ xs)"
  by (induction xs arbitrary: calls) (simp_all add: note_calls_def)

lemma deliver_all_concat:
  "(\<And>xs calls. xs \<in> set xss \<Longrightarrow> out xs calls = (Ok True, calls @ f xs)) \<Longrightarrow>
   deliver_all out xss calls = (Ok (), calls @ concat (map f xss))"
  by (induction xss arbitrary: calls) simp_all

definition in_range :: "i64 \<Rightarrow> i64 \<Rightarrow> timed \<Rightarrow> bool" where
  "in_range stime etime x \<longleftrightarrow> sint stime \<le> sint (fst x) \<and> sint (fst x) \<le> sint etime"

definition resolve :: "(i64 \<Rightarrow> bytes) \<Rightarrow> timed \<Rightarrow> timed" where
  "resolve reader x = (fst x, reader (Int5 (snd x)))"

lemma deliver_data_always:
  assumes "\<And>x. x \<in> set xs \<Longrightarrow> in_range stime etime x \<Longrightarrow> 5 \<le> length (snd x)"
  shows "deliver_data stime etime reader note_calls xs calls =
    (Ok True, calls @ map (resolve reader) (filter (in_range stime etime) xs))"
  using assms
proof (induction xs arbitrary: calls)
  case (Cons x xs)
  have "\<not> length (snd x) < 5" if "in_range stime etime x" using Cons.prems [of x] that by simp
  then show ?case using Cons.IH Cons.prems
    by (cases x) (auto simp: note_calls_def in_range_def resolve_def)
qed simp

text \<open>The times that the forward loops visit.\<close>

lemma tick_times_forward:
  assumes "sint etime + 500 < 2 ^ 63" and "sint stime \<le> sint etime + 500"
  shows "tick_times (\<lambda>t. sint t \<le> sint etime) 500 n stime =
    map (\<lambda>i. stime + 500 * word_of_nat i) [0..<min n (nat ((sint etime - sint stime) div 500 + 1))]"
  using assms(2)
proof (induction n arbitrary: stime)
  case (Suc n)
  show ?case
  proof (cases "sint stime \<le> sint etime")
    case True
    have step: "sint (stime + 500) = sint stime + 500"
      using True assms(1) sint_ge [of stime] by (simp add: sint_word_ariths signed_take_bit_int_eq_self)
    let ?m = "nat ((sint etime - sint stime) div 500)"
    have "(sint etime - sint (stime + 500)) div 500 + 1 = (sint etime - sint stime) div 500"
      unfolding step by simp
    then have "tick_times (\<lambda>t. sint t \<le> sint etime) 500 n (stime + 500) =
        map (\<lambda>i. (stime + 500) + 500 * word_of_nat i) [0..<min n ?m]"
      using Suc.IH [of "stime + 500"] True step by simp
    moreover have "nat ((sint etime - sint stime) div 500 + 1) = Suc ?m"
      using True by (simp add: nat_add_distrib pos_imp_zdiv_nonneg_iff)
    ultimately show ?thesis using True
      by (simp add: map_upt_Suc algebra_simps del: upt_Suc)
  next
    case False
    then have "(sint etime - sint stime) div 500 + 1 \<le> 0" using Suc.prems by simp
    with False show ?thesis by simp
  qed
qed simp

text \<open>
  On one local day, the milliseconds since midnight are the distance to it. There the buckets of a
  range that starts on a half second are those of its ticks, one after the other.
\<close>

definition local_day :: "(i64 \<Rightarrow> nat) \<Rightarrow> int \<Rightarrow> bool" where
  "local_day gdm mid \<longleftrightarrow> 0 \<le> mid \<and> mid < 2 ^ 62 \<and>
     (\<forall>t. mid \<le> sint t \<and> sint t < mid + 86400000 \<longrightarrow> gdm t = nat (sint t - mid))"

lemma local_bucket:
  assumes "local_day gdm mid" and "mid \<le> sint t" and "sint t < mid + 86400000"
  shows "int (mt_bkt gdm t) = (sint t - mid) div 500"
proof -
  have g: "gdm t = nat (sint t - mid)" using assms by (simp add: local_day_def)
  have "(sint t - mid) div 500 < 172800" using assms(3) by linarith
  then have "nat (sint t - mid) div 500 < 172800" using assms(2) by (simp add: nat_less_iff zdiv_int)
  then show ?thesis using assms(2) g by (simp add: mt_bkt_def timeBlockCapacity_def zdiv_int)
qed

lemma tick_sint:
  fixes stime :: i64
  assumes "0 \<le> sint stime" and "sint stime + 500 * int i < 2 ^ 63"
  shows "sint (stime + 500 * word_of_nat i) = sint stime + 500 * int i"
proof -
  have "stime + 500 * word_of_nat i = (word_of_int (sint stime + 500 * int i) :: i64)"
    by simp
  then have "sint (stime + 500 * word_of_nat i) = signed_take_bit 63 (sint stime + 500 * int i)"
    by (simp only: signed_of_int) simp
  then show ?thesis using assms by (simp add: signed_take_bit_int_eq_self)
qed

lemma permuted_map: "mset xs = image_mset f M \<Longrightarrow> \<exists>ys. mset ys = M \<and> map f ys = xs"
proof (induction xs arbitrary: M)
  case (Cons x xs)
  then obtain N a where N: "M = add_mset a N" "f a = x" "image_mset f N = mset xs"
    by (metis msed_map_invR mset.simps(2))
  then obtain ys where "mset ys = N" "map f ys = xs" using Cons.IH by metis
  with N show ?case by (intro exI [of _ "a # ys"]) simp
qed simp

lemma mset_concat_buckets:
  assumes "distinct (map B ts)"
  shows "mset (concat (map (\<lambda>t. filter (\<lambda>x. B (fst x) = B t) xs) ts)) = filter_mset (\<lambda>x. B (fst x) \<in> B ` set ts) (mset xs)"
proof -
  have single: "(\<Sum>t\<leftarrow>ts. if b = B t then {#x#} else {#}) = (if b \<in> B ` set ts then {#x#} else {#})" for b x
    using assms
  proof (induction ts)
    case (Cons t ts)
    show ?case
    proof (cases "b = B t")
      case True
      then have "b \<notin> B ` set ts" using Cons.prems by auto
      then show ?thesis using Cons True by simp
    qed (use Cons in auto)
  qed simp
  show ?thesis
  proof (induction xs)
    case (Cons x xs)
    have "mset (concat (map (\<lambda>t. filter (\<lambda>x. B (fst x) = B t) (x # xs)) ts)) =
        (\<Sum>t\<leftarrow>ts. (if B (fst x) = B t then {#x#} else {#}) + mset (filter (\<lambda>x. B (fst x) = B t) xs))"
      by (simp add: mset_concat comp_def) (intro arg_cong [of _ _ sum_list] map_cong refl, simp)
    also have "\<dots> = (if B (fst x) \<in> B ` set ts then {#x#} else {#}) +
        mset (concat (map (\<lambda>t. filter (\<lambda>x. B (fst x) = B t) xs) ts))"
      using single [of "B (fst x)" x] by (simp add: sum_list_addf mset_concat comp_def)
    finally show ?case using Cons by simp
  next
    case Nil
    show ?case by (induction ts) simp_all
  qed
qed

lemma sorted_concat_blocks:
  assumes "\<And>i x. i < length xss \<Longrightarrow> x \<in> set (xss ! i) \<Longrightarrow> lo i \<le> x \<and> x < lo (Suc i)"
    and "\<And>i. i < length xss \<Longrightarrow> sorted (xss ! i)" and "mono lo"
  shows "sorted (concat xss :: int list)"
  using assms(1,2)
proof (induction xss rule: rev_induct)
  case (snoc xs xss)
  have old: "lo i \<le> x \<and> x < lo (Suc i)" if "i < length xss" "x \<in> set (xss ! i)" for i x
    using snoc.prems(1) [of i x] that by (simp add: nth_append)
  have "sorted (xss ! i)" if "i < length xss" for i using snoc.prems(2) [of i] that by (simp add: nth_append)
  then have "sorted (concat xss)" using snoc.IH old by blast
  moreover have "sorted xs" using snoc.prems(2) [of "length xss"] by simp
  moreover have "x \<le> y" if x: "x \<in> set (concat xss)" and y: "y \<in> set xs" for x y
  proof -
    from x have "x \<in> \<Union> (set ` set xss)" by (simp only: set_concat)
    then obtain ys where ys: "ys \<in> set xss" "x \<in> set ys" by blast
    obtain i where i: "i < length xss" "ys = xss ! i" using ys(1) unfolding in_set_conv_nth by blast
    have "lo (Suc i) \<le> lo (length xss)" by (rule monoD [OF assms(3)]) (use i(1) in simp)
    moreover have "lo (length xss) \<le> y" using snoc.prems(1) [of "length xss" y] y by simp
    ultimately show ?thesis using old [of i x] i ys(2) by auto
  qed
  ultimately show ?case by (simp add: sorted_append)
qed simp

definition undeleted :: "time_history \<Rightarrow> timed list" where
  "undeleted h = map snd (filter (\<lambda>(d, t, v). \<not> d) h)"

lemma hist_sec_undeleted: "hist_sec gdm h t = filter (\<lambda>x. mt_bkt gdm (fst x) = mt_bkt gdm t) (undeleted h)"
  by (induction h) (auto simp: hist_sec_def undeleted_def)

lemma range_ticks:
  assumes "local_day gdm mid" and "mid \<le> sint stime" and "sint stime \<le> sint etime" and "sint etime < mid + 86400000"
  defines "k \<equiv> nat ((sint etime - sint stime) div 500 + 1)"
  shows "tick_times (\<lambda>t. sint t \<le> sint etime) 500 (SecondsPerDay * 2) stime =
      map (\<lambda>i. stime + 500 * word_of_nat i) [0..<k]"
    and "\<And>i. i < k \<Longrightarrow> sint (stime + 500 * word_of_nat i) = sint stime + 500 * int i"
    and "\<And>i. i < k \<Longrightarrow> int (mt_bkt gdm (stime + 500 * word_of_nat i)) = (sint stime - mid) div 500 + int i"
proof -
  have mid: "0 \<le> mid" "mid < 2 ^ 62" using assms(1) by (simp_all add: local_day_def)
  have "k \<le> 172800" using assms(2,4) unfolding k_def by linarith
  moreover have "sint etime + 500 < 2 ^ 63" using mid assms(4) by simp
  ultimately show "tick_times (\<lambda>t. sint t \<le> sint etime) 500 (SecondsPerDay * 2) stime =
      map (\<lambda>i. stime + 500 * word_of_nat i) [0..<k]"
    using tick_times_forward [of etime stime "SecondsPerDay * 2"] assms(3)
    by (simp add: k_def SecondsPerDay_def min_def)
  have last: "sint stime + 500 * int i \<le> sint etime" if "i < k" for i
    using that assms(3) unfolding k_def by linarith
  show s: "sint (stime + 500 * word_of_nat i) = sint stime + 500 * int i" if "i < k" for i
    using last [OF that] assms(2,4) mid by (intro tick_sint) simp_all
  show "int (mt_bkt gdm (stime + 500 * word_of_nat i)) = (sint stime - mid) div 500 + int i" if "i < k" for i
    using local_bucket [OF assms(1), of "stime + 500 * word_of_nat i"] s [OF that] last [OF that] assms(2,4) by simp
qed

text \<open>
  The buckets visited by a forward loop whose last tick reaches the bucket of \<open>etime\<close>, and what it
  collects there of the records that satisfy \<open>P\<close>, which must be records of the day.
\<close>

definition in_buckets :: "int \<Rightarrow> i64 \<Rightarrow> i64 \<Rightarrow> timed \<Rightarrow> bool" where
  "in_buckets mid stime etime x \<longleftrightarrow> (sint stime - mid) div 500 \<le> (sint (fst x) - mid) div 500 \<and>
     (sint (fst x) - mid) div 500 \<le> (sint etime - mid) div 500"

definition range_reach :: "int \<Rightarrow> i64 \<Rightarrow> i64 \<Rightarrow> bool" where
  "range_reach mid stime etime \<longleftrightarrow> mid \<le> sint stime \<and> sint stime \<le> sint etime \<and> sint etime < mid + 86400000 \<and>
     (sint stime - mid) mod 500 \<le> (sint etime - mid) mod 500"

definition of_day :: "int \<Rightarrow> timed \<Rightarrow> bool" where
  "of_day mid x \<longleftrightarrow> mid \<le> sint (fst x) \<and> sint (fst x) < mid + 86400000"

lemma div_distance:
  fixes a b :: int
  assumes "a mod 500 \<le> b mod 500"
  shows "(b - a) div 500 = b div 500 - a div 500"
proof -
  have "d - c = (s - r) + (q - p) * 500" if "c = p * 500 + r" "d = q * 500 + s" for c d p q r s :: int
    using that by (simp add: algebra_simps)
  from this [OF div_mult_mod_eq [symmetric] div_mult_mod_eq [symmetric]]
  have "b - a = (b mod 500 - a mod 500) + (b div 500 - a div 500) * 500" .
  moreover have "(c + d * 500) div 500 = d + c div 500" for c d :: int by simp
  moreover have "(b mod 500 - a mod 500) div 500 = 0"
    using assms pos_mod_bound [of 500 b] pos_mod_sign [of 500 a] by (intro div_pos_pos_trivial) linarith+
  ultimately show ?thesis by (simp only: add_0_right)
qed

lemma range_collect:
  fixes stime etime :: i64
  assumes "sorts srt" and "local_day gdm mid" and "range_reach mid stime etime"
    and day: "\<And>x. x \<in> set U \<Longrightarrow> P x \<Longrightarrow> of_day mid x"
  defines "ts \<equiv> tick_times (\<lambda>t. sint t \<le> sint etime) 500 (SecondsPerDay * 2) stime"
  defines "calls \<equiv> concat (map (\<lambda>t. filter P (srt (filter (\<lambda>x. mt_bkt gdm (fst x) = mt_bkt gdm t) U))) ts)"
  shows "mset calls = filter_mset (\<lambda>x. P x \<and> in_buckets mid stime etime x) (mset U)"
    and "sorted (map (\<lambda>x. sint (fst x)) calls)"
proof -
  note reach = assms(3) [unfolded range_reach_def]
  define k where "k = nat ((sint etime - sint stime) div 500 + 1)"
  define b where "b = (sint stime - mid) div 500"
  note ticks = range_ticks [OF assms(2), of stime etime, folded k_def b_def]
  have ts: "ts = map (\<lambda>i. stime + 500 * word_of_nat i) [0..<k]" using ticks(1) reach by (simp only: ts_def)
  let ?B = "mt_bkt gdm" and ?key = "\<lambda>x. sint (fst x)"
  have len: "length ts = k" by (simp add: ts)
  have B: "int (?B (ts ! i)) = b + int i" if "i < k" for i using ticks(3) [of i] that reach by (simp add: ts)
  have dist: "distinct (map ?B ts)"
    unfolding distinct_conv_nth len length_map using B by (metis add_left_cancel len nth_map of_nat_eq_iff)
  have bx: "int (?B (fst x)) = (sint (fst x) - mid) div 500" if "x \<in> set U" "P x" for x
    using day [OF that] local_bucket [OF assms(2)] by (simp add: of_day_def)
  have "(sint etime - sint stime) div 500 = (sint etime - mid) div 500 - b"
    using div_distance [of "sint stime - mid" "sint etime - mid"] reach by (simp add: b_def)
  moreover have "0 \<le> (sint etime - sint stime) div 500" using reach by (simp add: pos_imp_zdiv_nonneg_iff)
  ultimately have k: "int k = (sint etime - mid) div 500 - b + 1" by (simp add: k_def)
  have mem: "?B (fst x) \<in> ?B ` set ts \<longleftrightarrow> in_buckets mid stime etime x" if x: "x \<in> set U" "P x" for x
  proof -
    have "?B (fst x) \<in> ?B ` set ts \<longleftrightarrow> (\<exists>i < k. int (?B (fst x)) = int (?B (ts ! i)))"
      unfolding set_conv_nth len by (auto simp: image_iff)
    also have "\<dots> \<longleftrightarrow> (\<exists>i < k. (sint (fst x) - mid) div 500 = b + int i)" using B bx [OF x] by auto
    also have "\<dots> \<longleftrightarrow> b \<le> (sint (fst x) - mid) div 500 \<and> (sint (fst x) - mid) div 500 \<le> (sint etime - mid) div 500"
      (is "?l \<longleftrightarrow> ?r")
    proof
      assume ?r
      then have "nat ((sint (fst x) - mid) div 500 - b) < k" "(sint (fst x) - mid) div 500 = b + int (nat ((sint (fst x) - mid) div 500 - b))"
        using k by linarith+
      then show ?l by blast
    qed (use k in auto)
    finally show ?thesis by (simp add: in_buckets_def b_def)
  qed
  have "mset (filter P (srt (filter (\<lambda>x. ?B (fst x) = ?B t) U))) = mset (filter (\<lambda>x. ?B (fst x) = ?B t) (filter P U))" for t
    using assms(1) by (simp add: sorts_def filter_filter_mset conj_commute)
  then have "mset calls = mset (concat (map (\<lambda>t. filter (\<lambda>x. ?B (fst x) = ?B t) (filter P U)) ts))"
    unfolding calls_def by (induction ts) simp_all
  also have "\<dots> = filter_mset (\<lambda>x. ?B (fst x) \<in> ?B ` set ts) (mset (filter P U))" by (rule mset_concat_buckets [OF dist])
  also have "\<dots> = mset (filter (\<lambda>x. P x \<and> ?B (fst x) \<in> ?B ` set ts) U)" by (simp add: filter_filter_mset)
  also have "filter (\<lambda>x. P x \<and> ?B (fst x) \<in> ?B ` set ts) U = filter (\<lambda>x. P x \<and> in_buckets mid stime etime x) U"
    using mem by (intro filter_cong) auto
  also have "mset \<dots> = filter_mset (\<lambda>x. P x \<and> in_buckets mid stime etime x) (mset U)" by simp
  finally show "mset calls = filter_mset (\<lambda>x. P x \<and> in_buckets mid stime etime x) (mset U)" .
  let ?blk = "\<lambda>t. filter P (srt (filter (\<lambda>x. ?B (fst x) = ?B t) U))"
  have "sorted (concat (map (\<lambda>t. map ?key (?blk t)) ts))"
  proof (rule sorted_concat_blocks [where lo = "\<lambda>i. mid + 500 * (b + int i)"])
    fix i assume i: "i < length (map (\<lambda>t. map ?key (?blk t)) ts)"
    have "sorted (map ?key (srt xs))" for xs using assms(1) by (simp add: sorts_def)
    then have "sorted (map ?key (filter P (srt xs)))" for xs by (rule sorted_filter)
    then show "sorted (map (\<lambda>t. map ?key (?blk t)) ts ! i)" using i by (simp only: nth_map length_map)
    have "set (srt xs) = set xs" for xs using assms(1) by (metis sorts_def set_mset_mset)
    moreover fix y assume "y \<in> set (map (\<lambda>t. map ?key (?blk t)) ts ! i)"
    ultimately obtain x where x: "y = ?key x" "x \<in> set U" "P x" "?B (fst x) = ?B (ts ! i)"
      using i by (simp only: nth_map length_map) auto
    have "(sint (fst x) - mid) div 500 = b + int i" using bx [OF x(2,3)] x(4) B [of i] i len by simp
    then show "mid + 500 * (b + int i) \<le> y \<and> y < mid + 500 * (b + int (Suc i))" using x(1) by auto
  qed (auto simp: mono_def)
  then show "sorted (map ?key calls)" by (simp add: calls_def map_concat comp_def)
qed

lemma in_range_buckets:
  assumes "range_reach mid stime etime" and "in_range stime etime x"
  shows "of_day mid x" and "in_buckets mid stime etime x"
  using assms by (auto simp: range_reach_def in_range_def of_day_def in_buckets_def intro!: zdiv_mono1)

lemma range_ticks_pos:
  assumes "local_day gdm mid" and "range_reach mid stime etime" and "0 < sint stime"
    and "t \<in> set (tick_times (\<lambda>t. sint t \<le> sint etime) 500 (SecondsPerDay * 2) stime)"
  shows "0 < sint t"
  using assms(3,4) range_ticks(1,2) [OF assms(1), of stime etime] assms(2) by (auto simp: range_reach_def)

lemma time_range_complete:
  assumes "it_holds gdm it h" and "sorts srt" and "local_day gdm mid" and "0 < sint stime" and "range_reach mid stime etime"
    and "\<forall>x \<in> set (undeleted h). 5 \<le> length (snd x)"
  shows "\<exists>calls it'. it_ReadWithDataReader gdm srt stime etime note_calls reader [] it = Some (Ok (), calls, it') \<and>
    mset calls = image_mset (resolve reader) (filter_mset (in_range stime etime) (mset (undeleted h))) \<and>
    sorted (map (\<lambda>x. sint (fst x)) calls) \<and> it_holds gdm it' h"
proof -
  define ts where "ts = tick_times (\<lambda>t. sint t \<le> sint etime) 500 (SecondsPerDay * 2) stime"
  let ?rng = "in_range stime etime" and ?U = "undeleted h"
  let ?out = "deliver_data stime etime reader note_calls"
  let ?blk = "\<lambda>t. filter ?rng (srt (hist_sec gdm h t))"
  have srt_set: "set (srt xs) = set xs" for xs
    using assms(2) by (metis sorts_def set_mset_mset)
  have out: "?out xs calls = (Ok True, calls @ map (resolve reader) (filter ?rng xs))" if "set xs \<subseteq> set ?U" for xs calls
    using assms(6) that by (intro deliver_data_always) auto
  have "deliver_all ?out (map (\<lambda>t. srt (hist_sec gdm h t)) ts) [] =
      (Ok (), [] @ concat (map (\<lambda>xs. map (resolve reader) (filter ?rng xs)) (map (\<lambda>t. srt (hist_sec gdm h t)) ts)))"
    by (rule deliver_all_concat, rule out) (auto simp: srt_set hist_sec_undeleted)
  then have all: "deliver_all ?out (map (\<lambda>t. srt (hist_sec gdm h t)) ts) [] =
      (Ok (), map (resolve reader) (concat (map ?blk ts)))"
    by (simp add: comp_def map_concat)
  have read: "\<exists>it'. it_ReadWithDataReader gdm srt stime etime note_calls reader [] it =
      Some (Ok (), map (resolve reader) (concat (map ?blk ts)), it') \<and> it_holds gdm it' h"
    using ticks_holds [OF assms(1,2), of ?out "\<lambda>t. sint t \<le> sint etime" 500 "SecondsPerDay * 2" stime "[]",
        folded ts_def, unfolded all] out [of "[]"] range_ticks_pos [OF assms(3,5,4), folded ts_def]
    unfolding it_ReadWithDataReader_def by simp
  note collect = range_collect [OF assms(2,3,5), of ?U ?rng, folded ts_def, folded hist_sec_undeleted]
  have "(\<lambda>x. ?rng x \<and> in_buckets mid stime etime x) = ?rng" using in_range_buckets(2) [OF assms(5)] by blast
  then have "mset (concat (map ?blk ts)) = filter_mset ?rng (mset ?U)"
    using collect(1) in_range_buckets(1) [OF assms(5)] by simp
  moreover have "sorted (map (\<lambda>x. sint (fst x)) (map (resolve reader) (concat (map ?blk ts))))"
    using collect(2) in_range_buckets(1) [OF assms(5)] by (simp add: comp_def resolve_def)
  ultimately show ?thesis using read by fastforce
qed

text \<open>\<open>Read\<close> does not compare the times: it delivers the records of all buckets from \<open>stime\<close> to \<open>etime\<close>.\<close>

lemma deliver_append: "deliver handler (xs @ ys) s = (case deliver handler xs s of
     (Ok True, s') \<Rightarrow> deliver handler ys s'
   | r \<Rightarrow> r)"
  by (induction xs arbitrary: s) (auto split: prod.split res.split bool.split)

lemma deliver_all_deliver:
  "deliver_all (deliver handler) xss s = (res_bind (fst (deliver handler (concat xss) s)) (\<lambda>_. Ok ()), snd (deliver handler (concat xss) s))"
  by (induction xss arbitrary: s) (auto simp: deliver_append split: prod.split res.split bool.split)

lemma it_Read_complete:
  assumes "it_holds gdm it h" and "sorts srt" and "local_day gdm mid" and "0 < sint stime" and "range_reach mid stime etime"
    and "\<forall>x \<in> set (undeleted h). of_day mid x"
  shows "\<exists>xs. mset xs = filter_mset (in_buckets mid stime etime) (mset (undeleted h)) \<and>
    sorted (map (\<lambda>x. sint (fst x)) xs) \<and>
    (\<exists>it'. it_Read gdm srt stime etime handler s it =
      Some (res_bind (fst (deliver handler xs s)) (\<lambda>_. Ok ()), snd (deliver handler xs s), it') \<and> it_holds gdm it' h)"
proof -
  define ts where "ts = tick_times (\<lambda>t. sint t \<le> sint etime) 500 (SecondsPerDay * 2) stime"
  let ?xs = "concat (map (\<lambda>t. srt (hist_sec gdm h t)) ts)"
  have "\<exists>it'. it_Read gdm srt stime etime handler s it =
      Some (res_bind (fst (deliver handler ?xs s)) (\<lambda>_. Ok ()), snd (deliver handler ?xs s), it') \<and> it_holds gdm it' h"
    using ticks_holds [OF assms(1,2), of "deliver handler" "\<lambda>t. sint t \<le> sint etime" 500 "SecondsPerDay * 2" stime s,
        folded ts_def] range_ticks_pos [OF assms(3,5,4), folded ts_def]
    unfolding it_Read_def by (simp add: deliver_all_deliver)
  moreover note range_collect [OF assms(2,3,5), of "undeleted h" "\<lambda>_. True", folded ts_def, folded hist_sec_undeleted]
  ultimately show ?thesis using assms(6) by (intro exI [of _ ?xs]) simp
qed

text \<open>
  Only the ticks count that the loop visits: a record in the bucket of \<open>etime\<close> is not delivered when
  the last tick lies in the bucket before it.
\<close>

lemma time_range_tail:
  assumes "it_holds gdm it [(False, x, d)]" and "sorts srt" and "local_day gdm mid" and "0 < sint stime" and "mid \<le> sint stime"
    and "sint stime \<le> sint etime" and "sint etime < mid + 86400000"
    and "mid \<le> sint x" and "sint x < mid + 86400000"
    and "(sint x - mid) div 500 = (sint etime - mid) div 500" and "(sint etime - mid) mod 500 < (sint stime - mid) mod 500"
  shows "\<exists>it'. it_ReadWithDataReader gdm srt stime etime handler reader s it = Some (Ok (), s, it')"
proof -
  define k where "k = nat ((sint etime - sint stime) div 500 + 1)"
  define ts where "ts = map (\<lambda>i. stime + 500 * word_of_nat i) [0..<k]"
  note ticks = range_ticks [OF assms(3,5,6,7), folded k_def]
  have times: "tick_times (\<lambda>t. sint t \<le> sint etime) 500 (SecondsPerDay * 2) stime = ts"
    using ticks(1) by (simp only: ts_def)
  have pos: "0 < sint t" if "t \<in> set ts" for t
    using that ticks(2) assms(4) by (auto simp: ts_def)
  have other: "mt_bkt gdm x \<noteq> mt_bkt gdm t" if t: "t \<in> set ts" for t
  proof
    assume eq: "mt_bkt gdm x = mt_bkt gdm t"
    obtain i where i: "i < k" "t = stime + 500 * word_of_nat i" using t by (auto simp: ts_def)
    have "int i \<le> (sint etime - sint stime) div 500" using i(1) assms(6) unfolding k_def by linarith
    then have le: "sint stime + 500 * int i \<le> sint etime" by linarith
    have "(sint stime - mid) div 500 + int i = (sint etime - mid) div 500"
      using local_bucket [OF assms(3,8,9)] ticks(3) [OF i(1)] i(2) eq assms(10) by simp
    then show False using le assms(11) mult_div_mod_eq [of 500 "sint stime - mid"] mult_div_mod_eq [of 500 "sint etime - mid"]
      by linarith
  qed
  have empty: "map (\<lambda>t. srt (hist_sec gdm [(False, x, d)] t)) ts = map (\<lambda>t. []) ts"
    using other sorts_Nil [OF assms(2)] by (intro map_cong) (auto simp: hist_sec_def)
  have "deliver_all (deliver_data stime etime reader handler) (map (\<lambda>t. []) ts') s = (Ok (), s)" for ts' :: "i64 list"
    by (induction ts') simp_all
  then show ?thesis
    using ticks_holds [OF assms(1,2), of "deliver_data stime etime reader handler" "\<lambda>t. sint t \<le> sint etime" 500
        "SecondsPerDay * 2" stime s, unfolded times empty, OF _ pos]
    by (auto simp: it_ReadWithDataReader_def)
qed

subsection \<open>Sequences of operations\<close>

datatype time_op = TimePut i64 bytes | TimeDelete i64 | TimeGet i64

datatype time_out = TimeDone nat | TimeItems "timed list"

fun time_step :: "(i64 \<Rightarrow> nat) \<Rightarrow> (timed list \<Rightarrow> timed list) \<Rightarrow> time_op \<Rightarrow> IndexTimeFile \<Rightarrow>
    (time_out res \<times> IndexTimeFile) option" where
  "time_step gdm srt (TimePut t d) it = (let (r, it') = it_Put gdm t (Some d) it in Some (res_bind r (\<lambda>p. Ok (TimeDone p)), it'))"
| "time_step gdm srt (TimeDelete t) it =
     map_option (\<lambda>(r, n, it'). (res_bind r (\<lambda>_. Ok (TimeDone n)), it')) (it_Delete gdm t it)"
| "time_step gdm srt (TimeGet t) it =
     map_option (\<lambda>(r, it'). (res_bind r (\<lambda>xs. Ok (TimeItems xs)), it')) (getSecAll gdm srt t it)"

fun time_run :: "(i64 \<Rightarrow> nat) \<Rightarrow> (timed list \<Rightarrow> timed list) \<Rightarrow> time_op list \<Rightarrow> IndexTimeFile \<Rightarrow>
    (time_out res list \<times> IndexTimeFile) option" where
  "time_run gdm srt [] it = Some ([], it)"
| "time_run gdm srt (c # cs) it = (case time_step gdm srt c it of
     None \<Rightarrow> None
   | Some (r, it') \<Rightarrow> map_option (\<lambda>(rs, it''). (r # rs, it'')) (time_run gdm srt cs it'))"

text \<open>The same operations on the history: \<open>Put\<close> tells where the record goes, \<open>Delete\<close> how many it deleted.\<close>

fun time_hist_step :: "(i64 \<Rightarrow> nat) \<Rightarrow> (timed list \<Rightarrow> timed list) \<Rightarrow> time_op \<Rightarrow> time_history \<Rightarrow> time_out \<times> time_history" where
  "time_hist_step gdm srt (TimePut t d) h = (TimeDone (time_hist_size h), (False, t, d) # h)"
| "time_hist_step gdm srt (TimeDelete t) h = (TimeDone (length (hist_sec gdm h t)), time_hist_Delete gdm t h)"
| "time_hist_step gdm srt (TimeGet t) h = (TimeItems (srt (hist_sec gdm h t)), h)"

fun time_hist_run :: "(i64 \<Rightarrow> nat) \<Rightarrow> (timed list \<Rightarrow> timed list) \<Rightarrow> time_op list \<Rightarrow> time_history \<Rightarrow> time_out list \<times> time_history" where
  "time_hist_run gdm srt [] h = ([], h)"
| "time_hist_run gdm srt (c # cs) h =
     (let (r, h') = time_hist_step gdm srt c h; (rs, h'') = time_hist_run gdm srt cs h' in (r # rs, h''))"

fun ok_time_op :: "time_op \<Rightarrow> bool" where
  "ok_time_op (TimePut t d) \<longleftrightarrow> 0 < sint t \<and> ok_blob d"
| "ok_time_op (TimeDelete t) \<longleftrightarrow> 0 < sint t"
| "ok_time_op (TimeGet t) \<longleftrightarrow> 0 < sint t"

lemma time_step_holds:
  assumes "it_holds gdm it h" and "ok_time_op c" and "time_hist_size (snd (time_hist_step gdm srt c h)) \<le> 2 ^ 39"
  shows "\<exists>it'. time_step gdm srt c it = Some (Ok (fst (time_hist_step gdm srt c h)), it') \<and>
    it_holds gdm it' (snd (time_hist_step gdm srt c h))"
proof (cases c)
  case (TimePut t d)
  with assms it_Put_holds [OF assms(1), of t d] show ?thesis by fastforce
next
  case (TimeDelete t)
  with assms it_Delete_holds [OF assms(1), of t] show ?thesis by fastforce
next
  case (TimeGet t)
  with assms getSecAll_holds [OF assms(1), of t srt] show ?thesis by fastforce
qed

lemma time_hist_size_run: "time_hist_size h \<le> time_hist_size (snd (time_hist_run gdm srt cs h))"
proof (induction cs arbitrary: h)
  case (Cons c cs)
  have "time_hist_size h \<le> time_hist_size (snd (time_hist_step gdm srt c h))"
    by (cases c) (auto simp: time_hist_size_def time_hist_Delete_def comp_def case_prod_unfold)
  also have "\<dots> \<le> time_hist_size (snd (time_hist_run gdm srt cs (snd (time_hist_step gdm srt c h))))" by (rule Cons.IH)
  finally show ?case by (simp add: Let_def case_prod_unfold)
qed simp

lemma time_run_holds:
  "it_holds gdm it h \<Longrightarrow> list_all ok_time_op cs \<Longrightarrow> time_hist_size (snd (time_hist_run gdm srt cs h)) \<le> 2 ^ 39 \<Longrightarrow>
    \<exists>it'. time_run gdm srt cs it = Some (map Ok (fst (time_hist_run gdm srt cs h)), it') \<and>
      it_holds gdm it' (snd (time_hist_run gdm srt cs h))"
proof (induction cs arbitrary: it h)
  case (Cons c cs)
  let ?h = "snd (time_hist_step gdm srt c h)"
  have run: "snd (time_hist_run gdm srt (c # cs) h) = snd (time_hist_run gdm srt cs ?h)"
    "fst (time_hist_run gdm srt (c # cs) h) = fst (time_hist_step gdm srt c h) # fst (time_hist_run gdm srt cs ?h)"
    by (simp_all add: Let_def case_prod_unfold)
  then have "time_hist_size ?h \<le> 2 ^ 39" using Cons.prems(3) time_hist_size_run [of ?h gdm srt cs] by simp
  then obtain it1 where "time_step gdm srt c it = Some (Ok (fst (time_hist_step gdm srt c h)), it1)" "it_holds gdm it1 ?h"
    using time_step_holds [OF Cons.prems(1)] Cons.prems(2) by auto
  then show ?case using Cons.IH [of it1 ?h] Cons.prems(2,3) unfolding run by fastforce
qed simp

lemma it_new_holds: "it_holds gdm (NewIndexTimeFile None []) []"
proof -
  have "FirstPos \<le> 2 ^ 39" by (simp add: FirstPos_def kfileHeaderSize_def)
  then have "itx.irep gdm (mt_open None) (kf_open []) []"
    unfolding itx.irep_def using mt_open_new mt_open_new_bucket kf_open_rep mt_bkt_less
    by (auto simp: link_to_def all_deleted_def)
  then show ?thesis by (simp add: it_holds_def NewIndexTimeFile_def)
qed

text \<open>
  A \<open>Put\<close> into an empty bucket is counted twice, by \<open>MemTimeBlock.Put\<close> and by \<open>IndexTimeFile.Put\<close>.
\<close>

lemma it_Put_count:
  assumes "it_Put gdm t (Some d) it = (Ok p, it')" and "mt_Get gdm (it_timeBlockHash it) t = Ok v"
  shows "mt_Count (it_timeBlockHash it') = mt_Count (it_timeBlockHash it) + (if v = 0 then 2 else 1)"
  using assms
  by (auto simp: it_Put_def mt_Put_def mt_Get_def mt_Count_def mt_AddCount_def Let_def res_bind_eq_Ok
      split: if_splits res.splits prod.splits)

subsection \<open>Closing and opening again\<close>

definition it_ready :: "(i64 \<Rightarrow> nat) \<Rightarrow> IndexTimeFile \<Rightarrow> time_history \<Rightarrow> bool" where
  "it_ready gdm it h \<longleftrightarrow> it_holds gdm it h \<and> (mt_dirty (it_timeBlockHash it) \<or>
     mt_file (it_timeBlockHash it) = Some (mt_buf (it_timeBlockHash it)) \<or> (mt_file (it_timeBlockHash it) = None \<and> h = []))"

definition it_reopen :: "IndexTimeFile \<Rightarrow> IndexTimeFile" where
  "it_reopen it = (let c = it_Close it in NewIndexTimeFile (mt_file (it_timeBlockHash c)) (kf_disk (it_keyFile c)))"

lemma it_new_ready: "it_ready gdm (NewIndexTimeFile None []) []"
  using it_new_holds by (simp add: it_ready_def NewIndexTimeFile_def mt_open_def Let_def)

lemma it_ready_same_table:
  "it_ready gdm it h \<Longrightarrow> it_holds gdm it' h \<Longrightarrow> it_timeBlockHash it' = it_timeBlockHash it \<Longrightarrow> it_ready gdm it' h"
  by (simp add: it_ready_def)

lemma mt_open_flushed:
  assumes "mt_inv m" and "mt_dirty m \<or> mt_file m = Some (mt_buf m)"
  shows "mt_inv (mt_open (mt_file (mt_Flush m)))" and "mt_bucket (mt_open (mt_file (mt_Flush m))) = mt_bucket m"
    and "mt_file (mt_open (mt_file (mt_Flush m))) = Some (mt_buf (mt_open (mt_file (mt_Flush m))))"
proof -
  have "mt_file (mt_Flush m) = Some (mt_buf m)" using assms(2) by (auto simp: mt_Flush_def)
  moreover have "memHeadReserved \<le> length (mt_buf m)" "timeBlockCapacity = (length (mt_buf m) - memHeadReserved) div keyLength"
    using assms(1) by (simp_all add: mt_inv_def mh_inv_def mt_as_def)
  ultimately show "mt_inv (mt_open (mt_file (mt_Flush m)))" "mt_bucket (mt_open (mt_file (mt_Flush m))) = mt_bucket m"
    "mt_file (mt_open (mt_file (mt_Flush m))) = Some (mt_buf (mt_open (mt_file (mt_Flush m))))"
    by (simp_all add: mt_open_def Let_def mt_inv_def mh_inv_def mt_as_def mt_bucket_def mh_bucket_def fun_eq_iff
        timeBlockCapacity_def)
qed

lemma it_reopen_ready:
  assumes "it_ready gdm it h"
  shows "it_ready gdm (it_reopen it) h"
proof -
  let ?tb = "it_timeBlockHash it" and ?k = "kf_open (kf_disk (flushAppendBuf (it_keyFile it)))"
  obtain es where es: "itx.irep gdm ?tb (it_keyFile it) es" "\<forall>e \<in> set es. length (e_key e) = 8" "h = map time_of es"
    using assms by (auto simp: it_ready_def it_holds_def)
  have k: "kf_rep ?k es" using es(1) kf_reopen_rep by (auto simp: itx.irep_def)
  have new: "it_reopen it = \<lparr>it_timeBlockHash = mt_open (mt_file (mt_Flush ?tb)), it_keyFile = ?k\<rparr>"
    by (simp add: it_reopen_def NewIndexTimeFile_def it_Close_def Let_def)
  show ?thesis
  proof (cases "mt_dirty ?tb \<or> mt_file ?tb = Some (mt_buf ?tb)")
    case True
    have inv: "mt_inv ?tb" using es(1) by (simp add: itx.irep_def)
    note m = mt_open_flushed [OF inv True]
    have "itx.irep gdm (mt_open (mt_file (mt_Flush ?tb))) ?k es" using es(1) k m(1,2) by (simp add: itx.irep_def)
    then show ?thesis unfolding new it_ready_def it_holds_def using es(2,3) m(3) by auto
  next
    case False
    then have "h = []" "mt_file (mt_Flush ?tb) = None" using assms by (auto simp: it_ready_def mt_Flush_def)
    moreover from this have "es = []" using es(3) by simp
    ultimately have "itx.irep gdm (mt_open None) ?k []"
      using k mt_open_new mt_open_new_bucket mt_bkt_less es(1) by (auto simp: itx.irep_def link_to_def all_deleted_def)
    then have "it_holds gdm (it_reopen it) []" unfolding new using \<open>mt_file (mt_Flush ?tb) = None\<close> by (simp add: it_holds_def)
    then show ?thesis using \<open>h = []\<close> \<open>mt_file (mt_Flush ?tb) = None\<close> unfolding new it_ready_def by (simp add: mt_open_def Let_def)
  qed
qed

lemma it_Put_ready:
  assumes "it_ready gdm it h" and "0 < sint t" and "ok_blob d" and "time_hist_size ((False, t, d) # h) \<le> 2 ^ 39"
  shows "\<exists>it'. it_Put gdm t (Some d) it = (Ok (time_hist_size h), it') \<and> it_ready gdm it' ((False, t, d) # h)"
proof -
  have h: "it_holds gdm it h" using assms(1) by (simp add: it_ready_def)
  obtain it' where it': "it_Put gdm t (Some d) it = (Ok (time_hist_size h), it')" "it_holds gdm it' ((False, t, d) # h)"
    using it_Put_holds [OF h assms(2-4)] by blast
  from it'(1) have "mt_dirty (it_timeBlockHash it')"
    by (auto simp: it_Put_def mt_Put_def mt_AddCount_def Let_def res_bind_eq_Ok split: if_splits res.splits prod.splits)
  with it' show ?thesis by (simp add: it_ready_def)
qed

lemma getSecAll_table: "getSecAll gdm srt t it = Some (r, it') \<Longrightarrow> it_timeBlockHash it' = it_timeBlockHash it"
  by (auto simp: getSecAll_def getSecAllInto_def split: if_splits res.splits)

lemma ticks_table:
  "ticks gdm srt go step out n t calls it = Some (r, calls', it') \<Longrightarrow> it_timeBlockHash it' = it_timeBlockHash it"
proof (induction n arbitrary: t calls it)
  case (Suc n)
  then show ?case
    by (auto split: if_splits res.splits option.splits prod.splits bool.splits dest!: getSecAll_table)
qed simp

lemma it_Read_ready:
  assumes "it_ready gdm it h" and "it_Read gdm srt stime etime handler s it = Some (r, calls, it')" and "it_holds gdm it' h"
  shows "it_ready gdm it' h"
  by (rule it_ready_same_table [OF assms(1,3) ticks_table [OF assms(2) [unfolded it_Read_def]]])

end
