(* ===== verification/DataFile.thy ===== *)
theory DataFile
  imports RealKeyFile
begin

text \<open>
  internal/db/io/real\_data\_file.go: the append-only data file behind a \<open>bufio.Writer\<close> of 8192 bytes,
  and internal/db/compress/zstd.go: the framing of compressed bodies. The record of the file has its
  content on disk, what waits in the buffer, and the offset. The system calls succeed. The zstd
  library is a pair of parameters, \<open>enc\<close> for \<open>EncodeAll\<close> and \<open>dec\<close> for \<open>DecodeAll\<close>, \<^const>\<open>None\<close> an error.

  The lemmas show that the buffer cannot be seen in what the file finally holds, and where a body
  that was appended to a file of framed bodies is found.
\<close>

subsection \<open>The data file\<close>

definition writerSize :: nat where "writerSize = 8192"

text \<open>The loop of \<open>bufio.Writer.Write\<close> on the file and the buffer; a write to the file takes all of \<open>p\<close>.\<close>

function bufio_Write :: "bytes \<Rightarrow> bytes \<Rightarrow> bytes \<Rightarrow> bytes \<times> bytes" where
  "bufio_Write p disk buf =
     (let available = writerSize - length buf
      in if length p \<le> available then (disk, buf @ p)
         else if buf = [] then bufio_Write [] (disk @ p) []
         else bufio_Write (drop available p) (disk @ buf @ take available p) [])"
  by pat_completeness auto

termination
  by (relation "measure (\<lambda>(p, disk, buf). length p + (if buf = [] then 0 else 1))") auto

declare bufio_Write.simps [simp del]

record RealDataFile =
  rd_disk :: bytes
  rd_writer :: bytes
  rd_offset :: nat

definition NewRealDataFile :: "bytes \<Rightarrow> RealDataFile" where
  "NewRealDataFile disk = \<lparr>rd_disk = disk, rd_writer = [], rd_offset = length disk\<rparr>"

definition rd_Offset :: "RealDataFile \<Rightarrow> nat" where
  "rd_Offset f = rd_offset f"

definition rd_Write :: "bytes \<Rightarrow> RealDataFile \<Rightarrow> nat \<times> RealDataFile" where
  "rd_Write data f = (let idx = rd_offset f; (disk, buf) = bufio_Write data (rd_disk f) (rd_writer f)
     in (idx, \<lparr>rd_disk = disk, rd_writer = buf, rd_offset = rd_offset f + length data\<rparr>))"

definition rd_WriteShort :: "i16 \<Rightarrow> RealDataFile \<Rightarrow> nat \<times> RealDataFile" where
  "rd_WriteShort s f = (let idx = rd_offset f; (disk, buf) = bufio_Write (PutUint16 s) (rd_disk f) (rd_writer f)
     in (idx, \<lparr>rd_disk = disk, rd_writer = buf, rd_offset = rd_offset f + 2\<rparr>))"

definition rd_WriteInt :: "i32 \<Rightarrow> RealDataFile \<Rightarrow> nat \<times> RealDataFile" where
  "rd_WriteInt i f = (let idx = rd_offset f; (disk, buf) = bufio_Write (PutUint32 i) (rd_disk f) (rd_writer f)
     in (idx, \<lparr>rd_disk = disk, rd_writer = buf, rd_offset = rd_offset f + 4\<rparr>))"

definition rd_Flush :: "RealDataFile \<Rightarrow> RealDataFile" where
  "rd_Flush f = f\<lparr>rd_disk := rd_disk f @ rd_writer f, rd_writer := []\<rparr>"

definition rd_Close :: "RealDataFile \<Rightarrow> RealDataFile" where
  "rd_Close f = rd_Flush f"

text \<open>\<open>ReadAt\<close> on a file: all of the bytes, or \<open>io.EOF\<close>, or the error for a negative offset.\<close>

definition ReadAt :: "bytes \<Rightarrow> int \<Rightarrow> nat \<Rightarrow> bytes res" where
  "ReadAt disk off n =
     (if off < 0 then Err (ErrText ''negative offset'')
      else let got = take n (drop (nat off) disk) in if length got < n then Err IoEOF else Ok got)"

text \<open>What the file finally holds.\<close>

definition rd_content :: "RealDataFile \<Rightarrow> bytes" where
  "rd_content f = rd_disk f @ rd_writer f"

definition rd_inv :: "RealDataFile \<Rightarrow> bool" where
  "rd_inv f \<longleftrightarrow> rd_offset f = length (rd_content f) \<and> length (rd_writer f) \<le> writerSize"

lemma bufio_Write_content:
  "length buf \<le> writerSize \<Longrightarrow>
   fst (bufio_Write p disk buf) @ snd (bufio_Write p disk buf) = disk @ buf @ p \<and>
   length (snd (bufio_Write p disk buf)) \<le> writerSize"
proof (induction p disk buf rule: bufio_Write.induct)
  case (1 p disk buf)
  let ?n = "writerSize - length buf"
  consider "length p \<le> ?n" | "\<not> length p \<le> ?n" "buf = []" | "\<not> length p \<le> ?n" "buf \<noteq> []" by blast
  then show ?case
  proof cases
    case 1
    then show ?thesis using "1.prems" by (simp add: bufio_Write.simps [of p] Let_def)
  next
    case 2
    then show ?thesis using "1.IH"(1) [OF refl 2] by (simp add: bufio_Write.simps [of p] Let_def)
  next
    case 3
    have "bufio_Write p disk buf = bufio_Write (drop ?n p) (disk @ buf @ take ?n p) []"
      using 3 by (simp add: bufio_Write.simps [of p disk buf] Let_def)
    then show ?thesis using "1.IH"(2) [OF refl 3] by simp
  qed
qed

lemma rd_Write_content:
  assumes "rd_inv f"
  shows "fst (rd_Write data f) = length (rd_content f)" and "rd_content (snd (rd_Write data f)) = rd_content f @ data"
    and "rd_inv (snd (rd_Write data f))"
  using assms bufio_Write_content [of "rd_writer f" data "rd_disk f"]
  by (auto simp: rd_Write_def rd_inv_def rd_content_def Let_def case_prod_unfold)

lemma rd_Write_parts: "rd_WriteShort s = rd_Write (PutUint16 s)" "rd_WriteInt i = rd_Write (PutUint32 i)"
  by (simp_all add: rd_WriteShort_def rd_WriteInt_def rd_Write_def fun_eq_iff)

lemma rd_Flush_content [simp]:
  "rd_content (rd_Flush f) = rd_content f" "rd_disk (rd_Flush f) = rd_content f" "rd_inv f \<Longrightarrow> rd_inv (rd_Flush f)"
  by (simp_all add: rd_Flush_def rd_content_def rd_inv_def)

lemma rd_open_content [simp]: "rd_content (NewRealDataFile disk) = disk" "rd_inv (NewRealDataFile disk)"
  by (simp_all add: NewRealDataFile_def rd_content_def rd_inv_def)

lemma ReadAt_part: "int (length pre) = off \<Longrightarrow> length mid = n \<Longrightarrow> ReadAt (pre @ mid @ post) off n = Ok mid"
  by (auto simp: ReadAt_def)

subsection \<open>Compressed bodies\<close>

definition flagNewFormat :: byte where "flagNewFormat = 0"
definition compTypeRaw :: byte where "compTypeRaw = 0"
definition compTypeZstd :: byte where "compTypeZstd = 1"

definition Compress :: "(bytes \<Rightarrow> bytes) \<Rightarrow> bytes \<Rightarrow> bytes" where
  "Compress enc data = [flagNewFormat, compTypeZstd] @ enc data"

definition Decode :: "(bytes \<Rightarrow> bytes option) \<Rightarrow> bytes \<Rightarrow> bytes res" where
  "Decode dec body =
     (if length body = 0 then Ok body
      else if body ! 0 \<noteq> flagNewFormat then Ok body
      else if length body < 2 then Ok body
      else if body ! 1 = compTypeRaw then Ok (drop 2 body)
      else if body ! 1 = compTypeZstd then (case dec (drop 2 body) of Some decoded \<Rightarrow> Ok decoded | None \<Rightarrow> Err (ErrText ''zstd''))
      else Ok (drop 2 body))"

text \<open>The body of an entry, as the configuration says.\<close>

definition data_body :: "(bytes \<Rightarrow> bytes) \<Rightarrow> bool \<Rightarrow> bytes \<Rightarrow> bytes" where
  "data_body enc compressing data = (if compressing then Compress enc data else data)"

text \<open>
  Data written without compression comes back unless it looks like a compressed body.
\<close>

lemma Decode_body:
  assumes "\<And>d. dec (enc d) = Some d" and "c \<or> d = [] \<or> hd d \<noteq> 0"
  shows "Decode dec (data_body enc c d) = Ok d"
  using assms by (cases d) (auto simp: Decode_def data_body_def Compress_def flagNewFormat_def compTypeRaw_def compTypeZstd_def)

subsection \<open>A file of entries\<close>

text \<open>The image of a list of entries, the newest first, under the frame of an entry, and where each is.\<close>

fun log_image :: "('e \<Rightarrow> bytes) \<Rightarrow> 'e list \<Rightarrow> bytes" where
  "log_image frame [] = []"
| "log_image frame (e # es) = log_image frame es @ frame e"

fun log_places :: "('e \<Rightarrow> bytes) \<Rightarrow> 'e list \<Rightarrow> ('e \<times> bytes) list" where
  "log_places frame [] = []"
| "log_places frame (e # es) = (e, Bytes5 (word_of_nat (length (log_image frame es)))) # log_places frame es"

lemma Int5_place: "n < 2 ^ 39 \<Longrightarrow> sint (Int5 (Bytes5 (word_of_nat n))) = int n"
  by (simp add: Bytes5_def Int5_Put fits5_def sint_word_of_nat)

lemma log_place:
  assumes "(e, pos) \<in> set (log_places frame es)" and "length (log_image frame es) < 2 ^ 39"
  shows "\<exists>pre post. log_image frame es = pre @ frame e @ post \<and> sint (Int5 pos) = int (length pre)"
  using assms
proof (induction es)
  case (Cons e' es)
  show ?case
  proof (cases "(e, pos) \<in> set (log_places frame es)")
    case True
    then obtain pre post where "log_image frame es = pre @ frame e @ post" "sint (Int5 pos) = int (length pre)"
      using Cons by auto
    then show ?thesis by (intro exI [of _ pre] exI [of _ "post @ frame e'"]) simp
  next
    case False
    then have "e' = e" "pos = Bytes5 (word_of_nat (length (log_image frame es)))" using Cons.prems(1) by auto
    then show ?thesis using Cons.prems(2) Int5_place [of "length (log_image frame es)"]
      by (intro exI [of _ "log_image frame es"] exI [of _ "[]"]) simp
  qed
qed simp

lemma log_places_fst [simp]: "map fst (log_places frame es) = es"
  by (induction es) simp_all

lemma log_place_length: "(e, pos) \<in> set (log_places frame es) \<Longrightarrow> length pos = 5"
  by (induction es) auto

lemma file_read_part: "pos = length pre \<Longrightarrow> n = length mid \<Longrightarrow> file_read (pre @ mid @ post) pos n = Ok (mid, pos + n)"
  by (auto simp: file_read_def)

end
