(* ===== verification/DayStore.thy ===== *)
theory DayStore
  imports DataFile
begin

text \<open>
  What the writers of internal/db (\<open>xlog.XLogWR\<close>, \<open>profile.ProfileWR\<close>, \<open>alert.AlertWR\<close>,
  \<open>summary.SummaryWR\<close>) share: a queue of bounded length that drops what does not fit, and a map from
  days to open containers, each opened from the files of its day when it is first needed and closed
  when the day is purged. The container, how it is opened, written, flushed and closed are parameters
  here; the theories of the databases give them. The locale \<open>day_store\<close> states what a container
  promises and proves what the map of containers then holds.
\<close>

record ('k, 'c, 'f) DayWriter =
  dw_days :: "'k \<Rightarrow> 'c option"
  dw_files :: "'k \<Rightarrow> 'f option"

definition dw_new :: "('k, 'c, 'f) DayWriter" where
  "dw_new = \<lparr>dw_days = (\<lambda>_. None), dw_files = (\<lambda>_. None)\<rparr>"

text \<open>
  \<open>dw_files\<close> are the files of the days that have no open container; a directory that was just created
  is \<open>none\<close>.
\<close>

definition dw_getContainer :: "('f \<Rightarrow> 'c) \<Rightarrow> 'f \<Rightarrow> 'k \<Rightarrow> ('k, 'c, 'f) DayWriter \<Rightarrow> 'c \<times> ('k, 'c, 'f) DayWriter" where
  "dw_getContainer open none k w = (case dw_days w k of
     Some c \<Rightarrow> (c, w)
   | None \<Rightarrow> let c = open (case dw_files w k of None \<Rightarrow> none | Some f \<Rightarrow> f)
             in (c, w\<lparr>dw_days := (dw_days w)(k := Some c)\<rparr>))"

definition dw_set :: "'k \<Rightarrow> 'c \<Rightarrow> ('k, 'c, 'f) DayWriter \<Rightarrow> ('k, 'c, 'f) DayWriter" where
  "dw_set k c w = w\<lparr>dw_days := (dw_days w)(k := Some c)\<rparr>"

definition dw_process :: "('f \<Rightarrow> 'c) \<Rightarrow> 'f \<Rightarrow> ('e \<Rightarrow> 'c \<Rightarrow> unit res \<times> 'c) \<Rightarrow> 'k \<Rightarrow> 'e \<Rightarrow>
    ('k, 'c, 'f) DayWriter \<Rightarrow> unit res \<times> ('k, 'c, 'f) DayWriter" where
  "dw_process open none write k e w =
     (let (c, w') = dw_getContainer open none k w; (r, c') = write e c in (r, dw_set k c' w'))"

definition dw_flush :: "('c \<Rightarrow> 'c) \<Rightarrow> ('k, 'c, 'f) DayWriter \<Rightarrow> ('k, 'c, 'f) DayWriter" where
  "dw_flush flush w = w\<lparr>dw_days := (\<lambda>k. map_option flush (dw_days w k))\<rparr>"

definition dw_purge :: "('c \<Rightarrow> 'f) \<Rightarrow> ('k \<Rightarrow> bool) \<Rightarrow> ('k, 'c, 'f) DayWriter \<Rightarrow> ('k, 'c, 'f) DayWriter" where
  "dw_purge close keep w =
     \<lparr>dw_days = (\<lambda>k. if keep k then dw_days w k else None),
      dw_files = (\<lambda>k. case dw_days w k of
         Some c \<Rightarrow> if keep k then dw_files w k else Some (close c)
       | None \<Rightarrow> dw_files w k)\<rparr>"

definition dw_close :: "('c \<Rightarrow> 'f) \<Rightarrow> ('k, 'c, 'f) DayWriter \<Rightarrow> ('k, 'c, 'f) DayWriter" where
  "dw_close close w = dw_purge close (\<lambda>_. False) w"

text \<open>An operation on the open container of a day, \<^const>\<open>None\<close> if the day has none.\<close>

definition dw_read :: "'k \<Rightarrow> ('c \<Rightarrow> ('r \<times> 'c) option) \<Rightarrow> ('k, 'c, 'f) DayWriter \<Rightarrow>
    ('r option \<times> ('k, 'c, 'f) DayWriter) option" where
  "dw_read k f w = (case dw_days w k of
     None \<Rightarrow> Some (None, w)
   | Some c \<Rightarrow> map_option (\<lambda>(r, c'). (Some r, dw_set k c' w)) (f c))"

text \<open>A reader opens a day only if it has files.\<close>

definition dw_getReader :: "('f \<Rightarrow> 'c) \<Rightarrow> 'k \<Rightarrow> ('k, 'c, 'f) DayWriter \<Rightarrow> 'c option \<times> ('k, 'c, 'f) DayWriter" where
  "dw_getReader open k w = (case dw_days w k of
     Some c \<Rightarrow> (Some c, w)
   | None \<Rightarrow> (case dw_files w k of
         None \<Rightarrow> (None, w)
       | Some f \<Rightarrow> let c = open f in (Some c, dw_set k c w)))"

subsection \<open>The queue\<close>

definition enqueue :: "nat \<Rightarrow> 'e \<Rightarrow> 'e list \<Rightarrow> 'e list" where
  "enqueue cap e q = (if length q < cap then q @ [e] else q)"

text \<open>
  The goroutine of \<open>XLogWR.Start\<close>: it takes entries from the queue until the batch is full or the queue
  empty, then processes the batch and flushes. The step that is possible is determined by the state;
  \<^const>\<open>None\<close> is waiting for the first entry.
\<close>

record ('e, 'w) batch_writer =
  bw_queue :: "'e list"
  bw_batch :: "'e list"
  bw_writer :: 'w

definition bw_step :: "nat \<Rightarrow> ('e \<Rightarrow> 'w \<Rightarrow> 'w) \<Rightarrow> ('w \<Rightarrow> 'w) \<Rightarrow> ('e, 'w) batch_writer \<Rightarrow> ('e, 'w) batch_writer option" where
  "bw_step batchSize process flush s =
     (if length (bw_batch s) < batchSize \<and> bw_queue s \<noteq> []
      then Some (s\<lparr>bw_queue := List.tl (bw_queue s), bw_batch := bw_batch s @ [hd (bw_queue s)]\<rparr>)
      else if bw_batch s = [] then None
      else Some (s\<lparr>bw_batch := [], bw_writer := flush (fold process (bw_batch s) (bw_writer s))\<rparr>))"

definition bw_add :: "nat \<Rightarrow> 'e \<Rightarrow> ('e, 'w) batch_writer \<Rightarrow> ('e, 'w) batch_writer" where
  "bw_add cap e s = s\<lparr>bw_queue := enqueue cap e (bw_queue s)\<rparr>"

text \<open>The runs of the goroutine against the callers of \<open>Add\<close>, with the entries accepted and processed so far.\<close>

inductive bw_reach :: "nat \<Rightarrow> nat \<Rightarrow> ('e \<Rightarrow> 'w \<Rightarrow> 'w) \<Rightarrow> ('w \<Rightarrow> 'w) \<Rightarrow> 'w \<Rightarrow> ('e, 'w) batch_writer \<Rightarrow> 'e list \<Rightarrow> bool"
  for cap batchSize :: nat and process :: "'e \<Rightarrow> 'w \<Rightarrow> 'w" and flush :: "'w \<Rightarrow> 'w" and w0 :: 'w where
  bw_start: "bw_reach cap batchSize process flush w0 \<lparr>bw_queue = [], bw_batch = [], bw_writer = w0\<rparr> []"
| bw_accept: "bw_reach cap batchSize process flush w0 s es \<Longrightarrow> length (bw_queue s) < cap \<Longrightarrow>
    bw_reach cap batchSize process flush w0 (bw_add cap e s) (es @ [e])"
| bw_drop: "bw_reach cap batchSize process flush w0 s es \<Longrightarrow> \<not> length (bw_queue s) < cap \<Longrightarrow>
    bw_reach cap batchSize process flush w0 (bw_add cap e s) es"
| bw_work: "bw_reach cap batchSize process flush w0 s es \<Longrightarrow> bw_step batchSize process flush s = Some s' \<Longrightarrow>
    bw_reach cap batchSize process flush w0 s' es"

inductive_cases bw_reachE: "bw_reach cap batchSize process flush w0 s es"

text \<open>
  The queue and the batch are bounded, and the accepted entries are those processed, those in the batch
  and those in the queue, in this order: none is lost, repeated or overtaken. The writer was flushed
  after the last batch.
\<close>

fun flushed_batches :: "('e \<Rightarrow> 'w \<Rightarrow> 'w) \<Rightarrow> ('w \<Rightarrow> 'w) \<Rightarrow> 'e list list \<Rightarrow> 'w \<Rightarrow> 'w" where
  "flushed_batches process flush [] w = w"
| "flushed_batches process flush (b # bs) w = flushed_batches process flush bs (flush (fold process b w))"

lemma flushed_batches_snoc [simp]:
  "flushed_batches process flush (bs @ [b]) w = flush (fold process b (flushed_batches process flush bs w))"
  by (induction bs arbitrary: w) simp_all

lemma bw_reach_inv:
  assumes "bw_reach cap batchSize process flush w0 s es"
  shows "length (bw_queue s) \<le> cap \<and> length (bw_batch s) \<le> batchSize \<and>
    (\<exists>bs. es = concat bs @ bw_batch s @ bw_queue s \<and> (\<forall>b \<in> set bs. b \<noteq> [] \<and> length b \<le> batchSize) \<and>
      bw_writer s = flushed_batches process flush bs w0)"
  using assms
proof (induction rule: bw_reach.induct)
  case (bw_work s es s')
  then obtain bs where bs: "es = concat bs @ bw_batch s @ bw_queue s" "\<forall>b \<in> set bs. b \<noteq> [] \<and> length b \<le> batchSize"
    "bw_writer s = flushed_batches process flush bs w0" by blast
  show ?case
  proof (cases "length (bw_batch s) < batchSize \<and> bw_queue s \<noteq> []")
    case True
    obtain q qs where q: "bw_queue s = q # qs" using True by (cases "bw_queue s") auto
    then have "s' = s\<lparr>bw_queue := qs, bw_batch := bw_batch s @ [q]\<rparr>"
      using bw_work.hyps(2) True by (simp add: bw_step_def)
    moreover have "length (bw_queue s) \<le> cap" using bw_work.IH by simp
    ultimately show ?thesis using bs True q by (intro conjI exI [of _ bs]) simp_all
  next
    case False
    then have "s' = s\<lparr>bw_batch := [], bw_writer := flush (fold process (bw_batch s) (bw_writer s))\<rparr>" "bw_batch s \<noteq> []"
      using bw_work.hyps(2) by (auto simp: bw_step_def split: if_splits)
    moreover have "length (bw_queue s) \<le> cap" "length (bw_batch s) \<le> batchSize" using bw_work.IH by simp_all
    ultimately show ?thesis using bs by (intro conjI exI [of _ "bs @ [bw_batch s]"]) simp_all
  qed
next
  case bw_start
  show ?case by (intro conjI exI [of _ "[]"]) simp_all
next
  case (bw_accept s es e)
  then obtain bs where "es = concat bs @ bw_batch s @ bw_queue s" "\<forall>b \<in> set bs. b \<noteq> [] \<and> length b \<le> batchSize"
    "bw_writer s = flushed_batches process flush bs w0" by blast
  with bw_accept show ?case by (intro conjI exI [of _ bs]) (simp_all add: bw_add_def enqueue_def)
qed (simp add: bw_add_def enqueue_def)

text \<open>
  Left alone, the goroutine processes everything that is queued and then waits.
\<close>

fun bw_steps :: "nat \<Rightarrow> ('e \<Rightarrow> 'w \<Rightarrow> 'w) \<Rightarrow> ('w \<Rightarrow> 'w) \<Rightarrow> nat \<Rightarrow> ('e, 'w) batch_writer \<Rightarrow> ('e, 'w) batch_writer" where
  "bw_steps batchSize process flush 0 s = s"
| "bw_steps batchSize process flush (Suc n) s = (case bw_step batchSize process flush s of
     None \<Rightarrow> s | Some s' \<Rightarrow> bw_steps batchSize process flush n s')"

lemma bw_steps_reach:
  "bw_reach cap batchSize process flush w0 s es \<Longrightarrow> bw_reach cap batchSize process flush w0 (bw_steps batchSize process flush n s) es"
  by (induction n arbitrary: s) (auto split: option.split intro: bw_work)

lemma bw_drains:
  assumes "0 < batchSize" and "2 * length (bw_queue s) + (if bw_batch s = [] then 0 else 1) \<le> n"
  shows "bw_step batchSize process flush (bw_steps batchSize process flush n s) = None"
  using assms(2)
proof (induction n arbitrary: s)
  case 0
  then show ?case by (auto simp: bw_step_def split: if_splits)
next
  case (Suc n)
  show ?case
  proof (cases "bw_step batchSize process flush s")
    case (Some s')
    then have "2 * length (bw_queue s') + (if bw_batch s' = [] then 0 else 1) \<le> n"
      using Suc.prems by (cases "bw_queue s") (auto simp: bw_step_def split: if_splits)
    then show ?thesis using Suc.IH Some by simp
  qed simp
qed

lemma bw_waits: "0 < batchSize \<Longrightarrow> bw_step batchSize process flush s = None \<longleftrightarrow> bw_queue s = [] \<and> bw_batch s = []"
  by (auto simp: bw_step_def)

subsection \<open>A worker and its queue\<close>

text \<open>
  The goroutines of the other writers take one entry at a time: the queue and what
  they have written.
\<close>

record ('e, 'w) queue_worker =
  qw_queue :: "'e list"
  qw_writer :: 'w

definition qw_step :: "('e \<Rightarrow> 'w \<Rightarrow> 'w) \<Rightarrow> ('e, 'w) queue_worker \<Rightarrow> ('e, 'w) queue_worker option" where
  "qw_step process s = (case qw_queue s of
     [] \<Rightarrow> None
   | e # q \<Rightarrow> Some \<lparr>qw_queue = q, qw_writer = process e (qw_writer s)\<rparr>)"

definition qw_add :: "nat \<Rightarrow> 'e \<Rightarrow> ('e, 'w) queue_worker \<Rightarrow> ('e, 'w) queue_worker" where
  "qw_add cap e s = s\<lparr>qw_queue := enqueue cap e (qw_queue s)\<rparr>"

text \<open>The runs of the goroutine against the callers of \<open>Add\<close>, with the entries that were accepted.\<close>

inductive qw_reach :: "nat \<Rightarrow> ('e \<Rightarrow> 'w \<Rightarrow> 'w) \<Rightarrow> 'w \<Rightarrow> ('e, 'w) queue_worker \<Rightarrow> 'e list \<Rightarrow> bool"
  for cap :: nat and process :: "'e \<Rightarrow> 'w \<Rightarrow> 'w" and w0 :: 'w where
  qw_start: "qw_reach cap process w0 \<lparr>qw_queue = [], qw_writer = w0\<rparr> []"
| qw_accept: "qw_reach cap process w0 s es \<Longrightarrow> length (qw_queue s) < cap \<Longrightarrow> qw_reach cap process w0 (qw_add cap e s) (es @ [e])"
| qw_drop: "qw_reach cap process w0 s es \<Longrightarrow> \<not> length (qw_queue s) < cap \<Longrightarrow> qw_reach cap process w0 (qw_add cap e s) es"
| qw_work: "qw_reach cap process w0 s es \<Longrightarrow> qw_step process s = Some s' \<Longrightarrow> qw_reach cap process w0 s' es"

inductive_cases qw_reachE: "qw_reach cap process w0 s es"

lemma qw_reach_inv:
  assumes "qw_reach cap process w0 s es"
  shows "length (qw_queue s) \<le> cap \<and> (\<exists>ws. es = ws @ qw_queue s \<and> qw_writer s = fold process ws w0)"
  using assms
proof (induction rule: qw_reach.induct)
  case (qw_work s es s')
  then obtain e q ws where q: "qw_queue s = e # q" "s' = \<lparr>qw_queue = q, qw_writer = process e (qw_writer s)\<rparr>"
    "es = ws @ qw_queue s" "qw_writer s = fold process ws w0"
    by (auto simp: qw_step_def split: list.splits)
  then show ?case using qw_work.IH by (auto intro!: exI [of _ "ws @ [e]"])
next
  case (qw_accept s es e)
  then obtain ws where "es = ws @ qw_queue s" "qw_writer s = fold process ws w0" by blast
  with qw_accept.hyps show ?case by (auto simp: qw_add_def enqueue_def)
qed (auto simp: qw_add_def enqueue_def)

fun qw_steps :: "('e \<Rightarrow> 'w \<Rightarrow> 'w) \<Rightarrow> nat \<Rightarrow> ('e, 'w) queue_worker \<Rightarrow> ('e, 'w) queue_worker" where
  "qw_steps process 0 s = s"
| "qw_steps process (Suc n) s = (case qw_step process s of None \<Rightarrow> s | Some s' \<Rightarrow> qw_steps process n s')"

lemma qw_drains: "qw_steps process (length (qw_queue s)) s = \<lparr>qw_queue = [], qw_writer = fold process (qw_queue s) (qw_writer s)\<rparr>"
proof (induction "qw_queue s" arbitrary: s)
  case (Cons e q)
  then show ?case using Cons.hyps(1) [of "\<lparr>qw_queue = q, qw_writer = process e (qw_writer s)\<rparr>"]
    by (simp add: qw_step_def flip: Cons.hyps(2))
qed (cases s, simp)

subsection \<open>Sequences of writes and purges\<close>

text \<open>An error of a write is logged and dropped; a panic is not.\<close>

definition no_error :: "'a res \<Rightarrow> unit res" where
  "no_error r = (case r of Panic q \<Rightarrow> Panic q | _ \<Rightarrow> Ok ())"

datatype 'e day_op = DayWrite 'e | DayPurge "string \<Rightarrow> bool"

fun day_writes :: "'e day_op list \<Rightarrow> 'e list" where
  "day_writes [] = []"
| "day_writes (DayWrite e # ops) = e # day_writes ops"
| "day_writes (DayPurge keep # ops) = day_writes ops"

text \<open>The entries for a key, the newest first.\<close>

definition day_log :: "('e \<Rightarrow> 'k) \<Rightarrow> 'e day_op list \<Rightarrow> 'k \<Rightarrow> 'e list" where
  "day_log key ops k = rev (filter (\<lambda>e. key e = k) (day_writes ops))"

lemma day_writes_append [simp]: "day_writes (ops @ ops') = day_writes ops @ day_writes ops'"
  by (induction ops rule: day_writes.induct) simp_all

lemma day_log_snoc [simp]:
  "day_log key [] = (\<lambda>_. [])" "day_log key (ops @ [DayPurge keep]) = day_log key ops"
  "day_log key (ops @ [DayWrite e]) = (day_log key ops)(key e := e # day_log key ops (key e))"
  by (auto simp: day_log_def fun_eq_iff)

subsection \<open>What the days hold\<close>

text \<open>
  \<open>holds c es\<close>: the container has the entries \<open>es\<close>, the newest first; \<open>fits\<close> bounds them and \<open>stored\<close> is
  what is kept of an entry. \<open>synced\<close>: nothing waits in a buffer.
\<close>

locale day_store =
  fixes open_day :: "'f \<Rightarrow> 'c"
    and close_day :: "'c \<Rightarrow> 'f"
    and no_files :: 'f
    and write_day :: "'e \<Rightarrow> 'c \<Rightarrow> unit res \<times> 'c"
    and flush_day :: "'c \<Rightarrow> 'c"
    and holds :: "'c \<Rightarrow> 's list \<Rightarrow> bool"
    and synced :: "'c \<Rightarrow> bool"
    and stored :: "'e \<Rightarrow> 's"
    and fits :: "'s list \<Rightarrow> bool"
  assumes open_new: "holds (open_day no_files) []"
    and open_synced: "synced (open_day f)"
    and reopen_holds: "holds c es \<Longrightarrow> holds (open_day (close_day c)) es"
    and write_holds: "holds c es \<Longrightarrow> fits (stored e # es) \<Longrightarrow>
      \<exists>c'. write_day e c = (Ok (), c') \<and> holds c' (stored e # es)"
    and flush_holds: "holds c es \<Longrightarrow> holds (flush_day c) es" and flush_synced: "synced (flush_day c)"
begin

fun day_holds :: "'c option \<Rightarrow> 'f option \<Rightarrow> 's list \<Rightarrow> bool" where
  "day_holds (Some c) f es = holds c es"
| "day_holds None (Some f) es = holds (open_day f) es"
| "day_holds None None es = (es = [])"

definition dw_holds :: "('k, 'c, 'f) DayWriter \<Rightarrow> ('k \<Rightarrow> 's list) \<Rightarrow> bool" where
  "dw_holds w H \<longleftrightarrow> (\<forall>k. day_holds (dw_days w k) (dw_files w k) (H k))"

definition dw_synced :: "('k, 'c, 'f) DayWriter \<Rightarrow> bool" where
  "dw_synced w \<longleftrightarrow> (\<forall>k c. dw_days w k = Some c \<longrightarrow> synced c)"

lemma dw_new_holds: "dw_holds dw_new (\<lambda>_. [])"
  by (simp add: dw_holds_def dw_new_def)

lemma dw_holdsD: "dw_holds w H \<Longrightarrow> day_holds (dw_days w k) (dw_files w k) (H k)"
  by (simp add: dw_holds_def)

lemma dw_open_holds: "dw_holds w H \<Longrightarrow> dw_days w k = Some c \<Longrightarrow> holds c (H k)"
  using dw_holdsD [of w H k] by simp

lemma dw_set_holds: "dw_holds w H \<Longrightarrow> holds c es \<Longrightarrow> dw_holds (dw_set k c w) (H(k := es))"
  by (simp add: dw_holds_def dw_set_def)

lemma dw_set_same: "dw_holds w H \<Longrightarrow> holds c (H k) \<Longrightarrow> dw_holds (dw_set k c w) H"
  by (simp add: dw_holds_def dw_set_def)

lemma dw_set_synced: "dw_synced w \<Longrightarrow> synced c \<Longrightarrow> dw_synced (dw_set k c w)"
  by (auto simp: dw_synced_def dw_set_def)

lemma dw_getContainer_holds:
  assumes "dw_holds w H"
  shows "\<exists>c w'. dw_getContainer open_day no_files k w = (c, w') \<and> holds c (H k) \<and> dw_holds w' H \<and>
    dw_days w' k = Some c \<and> (dw_synced w \<longrightarrow> dw_synced w')"
proof (cases "dw_days w k")
  case None
  define c where "c = open_day (case dw_files w k of None \<Rightarrow> no_files | Some f \<Rightarrow> f)"
  have "holds c (H k)" using dw_holdsD [OF assms, of k] None open_new by (cases "dw_files w k") (auto simp: c_def)
  moreover have "dw_getContainer open_day no_files k w = (c, dw_set k c w)"
    using None by (simp add: dw_getContainer_def c_def dw_set_def Let_def)
  moreover have "dw_synced (dw_set k c w)" if "dw_synced w" unfolding c_def by (rule dw_set_synced [OF that open_synced])
  moreover have "dw_days (dw_set k c w) k = Some c" by (simp add: dw_set_def)
  ultimately show ?thesis using dw_set_same [OF assms] by metis
qed (use assms dw_open_holds in \<open>auto simp: dw_getContainer_def\<close>)

lemma dw_process_holds:
  assumes "dw_holds w H" and "fits (stored e # H k)"
  shows "\<exists>w'. dw_process open_day no_files write_day k e w = (Ok (), w') \<and> dw_holds w' (H(k := stored e # H k))"
proof -
  obtain c w1 where w1: "dw_getContainer open_day no_files k w = (c, w1)" "holds c (H k)" "dw_holds w1 H"
    using dw_getContainer_holds [OF assms(1)] by metis
  then obtain c' where "write_day e c = (Ok (), c')" "holds c' (stored e # H k)" using write_holds assms(2) by blast
  with w1 show ?thesis using dw_set_holds by (auto simp: dw_process_def)
qed

lemma dw_flush_holds:
  assumes "dw_holds w H"
  shows "dw_holds (dw_flush flush_day w) H"
  unfolding dw_holds_def
proof
  fix k
  show "day_holds (dw_days (dw_flush flush_day w) k) (dw_files (dw_flush flush_day w) k) (H k)"
    using dw_holdsD [OF assms, of k] flush_holds by (cases "dw_days w k") (simp_all add: dw_flush_def)
qed

lemma dw_flush_synced: "dw_synced (dw_flush flush_day w)"
  using flush_synced by (auto simp: dw_synced_def dw_flush_def)

lemma dw_purge_holds:
  assumes "dw_holds w H"
  shows "dw_holds (dw_purge close_day keep w) H"
  unfolding dw_holds_def
proof
  fix k
  show "day_holds (dw_days (dw_purge close_day keep w) k) (dw_files (dw_purge close_day keep w) k) (H k)"
    using dw_holdsD [OF assms, of k] reopen_holds by (cases "dw_days w k") (simp_all add: dw_purge_def)
qed

lemma dw_getReader_holds:
  assumes "dw_holds w H" and "dw_synced w"
  shows "\<exists>c w'. dw_getReader open_day k w = (c, w') \<and> dw_holds w' H \<and> dw_synced w' \<and>
    (case c of None \<Rightarrow> H k = [] | Some c \<Rightarrow> holds c (H k) \<and> synced c)"
proof (cases "dw_days w k")
  case None
  show ?thesis
  proof (cases "dw_files w k")
    case (Some f)
    then have "holds (open_day f) (H k)" using dw_holdsD [OF assms(1), of k] None by simp
    then show ?thesis using None Some dw_set_same [OF assms(1), of "open_day f" k] dw_set_synced [OF assms(2)] open_synced
      by (simp add: dw_getReader_def Let_def)
  qed (use assms None dw_holdsD [OF assms(1), of k] in \<open>simp add: dw_getReader_def\<close>)
next
  case (Some c)
  with assms dw_open_holds show ?thesis by (auto simp: dw_getReader_def dw_synced_def)
qed

text \<open>A batch of entries for their days.\<close>

lemma dw_batch_holds:
  assumes "dw_holds w H" and "\<forall>k. fits (rev (map stored (map snd (filter (\<lambda>(k', e). k' = k) es))) @ H k)"
    and "\<And>k es es'. fits (es @ es') \<Longrightarrow> fits es'"
  shows "dw_holds (fold (\<lambda>(k, e) w. snd (dw_process open_day no_files write_day k e w)) es w)
    (\<lambda>k. rev (map stored (map snd (filter (\<lambda>(k', e). k' = k) es))) @ H k)"
  using assms(1,2)
proof (induction es arbitrary: w H)
  case (Cons ke es)
  obtain k e where ke: "ke = (k, e)" by (cases ke)
  let ?H = "H(k := stored e # H k)"
  have eq: "rev (map stored (map snd (filter (\<lambda>(k', e). k' = j) (ke # es)))) @ H j =
      rev (map stored (map snd (filter (\<lambda>(k', e). k' = j) es))) @ ?H j" for j
    by (simp add: ke)
  have all: "\<forall>j. fits (rev (map stored (map snd (filter (\<lambda>(k', e). k' = j) es))) @ ?H j)"
    using Cons.prems(2) unfolding eq .
  then have "fits (?H k)" using assms(3) by blast
  then have fit: "fits (stored e # H k)" by simp
  obtain w' where w': "dw_process open_day no_files write_day k e w = (Ok (), w')" "dw_holds w' ?H"
    using dw_process_holds [OF Cons.prems(1) fit] by blast
  show ?case unfolding eq using Cons.IH [OF w'(2) all] w'(1) by (simp add: ke)
qed simp

text \<open>Any sequence of writes and purges, and what is found of it after the writer was closed.\<close>

lemma dw_ops_holds:
  assumes "\<And>op w. step op w = (case op of DayWrite e \<Rightarrow> snd (dw_process open_day no_files write_day (key e) e w)
      | DayPurge keep \<Rightarrow> dw_purge close_day (keeps keep) w)"
    and "\<And>k. fits (map stored (day_log key ops k))" and "\<And>es es'. fits (es @ es') \<Longrightarrow> fits es'"
  shows "dw_holds (fold step ops dw_new) (\<lambda>k. map stored (day_log key ops k))"
  using assms(2)
proof (induction ops rule: rev_induct)
  case Nil
  show ?case using dw_new_holds by simp
next
  case (snoc op ops)
  let ?H = "\<lambda>k. map stored (day_log key ops k)"
  have "fits (?H k)" for k
    using snoc.prems [of k] assms(3) [of "[_]"] by (cases op) (auto simp: split: if_splits)
  note w = snoc.IH [OF this]
  show ?case
  proof (cases op)
    case (DayPurge keep)
    then show ?thesis using dw_purge_holds [OF w] by (simp add: assms(1))
  next
    case (DayWrite e)
    have "fits (stored e # ?H (key e))" using snoc.prems [of "key e"] DayWrite by simp
    from dw_process_holds [OF w this] obtain w' where
      w': "dw_process open_day no_files write_day (key e) e (fold step ops dw_new) = (Ok (), w')"
      "dw_holds w' (?H(key e := stored e # ?H (key e)))" by blast
    have "fold step (ops @ [op]) dw_new = w'" using w'(1) by (simp add: assms(1) DayWrite)
    moreover have "(\<lambda>k. map stored (day_log key (ops @ [op]) k)) = ?H(key e := stored e # ?H (key e))"
      by (auto simp: DayWrite fun_eq_iff)
    ultimately show ?thesis using w'(2) by (simp only:)
  qed
qed

lemma dw_close_reader:
  assumes "dw_holds w H"
  shows "dw_holds (dw_close close_day w) H" and "dw_synced (dw_close close_day w)"
  using dw_purge_holds [OF assms, of "\<lambda>_. False"] by (simp_all add: dw_close_def) (simp add: dw_synced_def dw_purge_def)

end

end
