(* ===== verification/XLogDb.thy ===== *)
theory XLogDb
  imports DayStore IndexTimeFile IndexKeyFile
begin

text \<open>
  internal/db/xlog: the xlogs of a day, a data file of framed bodies with three indexes onto it, by
  time, transaction and global transaction (xlog\_data.go, xlog\_index.go), the writer with its batches
  (xlog\_wr.go) and the reader (xlog\_rd.go). The pools of read buffers are not modelled: every read
  gets a buffer of its own. \<open>enc\<close> and \<open>dec\<close> are the zstd library, \<open>compressing\<close> is the configuration at
  the time of the write, \<open>fmt\<close> is \<open>FormatDate\<close> in the local time zone.
\<close>

subsection \<open>The data file\<close>

record XLogData =
  xd_dataFile :: RealDataFile

definition xd_Write :: "(bytes \<Rightarrow> bytes) \<Rightarrow> bool \<Rightarrow> bytes \<Rightarrow> XLogData \<Rightarrow> nat \<times> XLogData" where
  "xd_Write enc compressing data x =
     (let body = data_body enc compressing data;
          buf = PutUint16 (word_of_nat (length body)) @ body;
          (pos, f) = rd_Write buf (xd_dataFile x)
      in (pos, x\<lparr>xd_dataFile := f\<rparr>))"

definition xd_Read :: "(bytes \<Rightarrow> bytes option) \<Rightarrow> int \<Rightarrow> XLogData \<Rightarrow> bytes res" where
  "xd_Read dec offset x =
     res_bind (ReadAt (rd_disk (xd_dataFile x)) offset 2) (\<lambda>lenBuf.
     let len = unat (Uint16 lenBuf)
     in res_bind (ReadAt (rd_disk (xd_dataFile x)) (offset + 2) len) (Decode dec))"

definition xd_Flush :: "XLogData \<Rightarrow> XLogData" where
  "xd_Flush x = x\<lparr>xd_dataFile := rd_Flush (xd_dataFile x)\<rparr>"

definition xd_Close :: "XLogData \<Rightarrow> XLogData" where
  "xd_Close x = x\<lparr>xd_dataFile := rd_Close (xd_dataFile x)\<rparr>"

subsection \<open>The indexes\<close>

record XLogIndex =
  xi_timeIndex :: IndexTimeFile
  xi_txidIndex :: IndexKeyFile
  xi_gxidIndex :: IndexKeyFile

text \<open>The files of a day: the bucket table, if there is one, and the key file of each index, and the data.\<close>

record xlog_files =
  xf_tim :: "bytes option \<times> bytes"
  xf_tid :: "bytes option \<times> bytes"
  xf_gid :: "bytes option \<times> bytes"
  xf_data :: bytes

definition NewXLogIndex :: "xlog_files \<Rightarrow> XLogIndex" where
  "NewXLogIndex fs =
     \<lparr>xi_timeIndex = NewIndexTimeFile (fst (xf_tim fs)) (snd (xf_tim fs)),
      xi_txidIndex = NewIndexKeyFile (fst (xf_tid fs)) (snd (xf_tid fs)) 1,
      xi_gxidIndex = NewIndexKeyFile (fst (xf_gid fs)) (snd (xf_gid fs)) 1\<rparr>"

definition SetByTime :: "(i64 \<Rightarrow> nat) \<Rightarrow> i64 \<Rightarrow> i64 \<Rightarrow> XLogIndex \<Rightarrow> unit res \<times> XLogIndex" where
  "SetByTime gdm timeMs dataPos x = (let (r, t) = it_Put gdm timeMs (Some (Bytes5 dataPos)) (xi_timeIndex x)
     in (res_bind r (\<lambda>_. Ok ()), x\<lparr>xi_timeIndex := t\<rparr>))"

definition SetByTxid :: "i64 \<Rightarrow> i64 \<Rightarrow> XLogIndex \<Rightarrow> unit res \<times> XLogIndex" where
  "SetByTxid txid dataPos x = (let (r, t) = ix_Put (Some (Bytes8 txid)) (Some (Bytes5 dataPos)) (xi_txidIndex x)
     in (r, x\<lparr>xi_txidIndex := t\<rparr>))"

definition SetByGxid :: "i64 \<Rightarrow> i64 \<Rightarrow> XLogIndex \<Rightarrow> unit res \<times> XLogIndex" where
  "SetByGxid gxid dataPos x =
     (if gxid = 0 then (Ok (), x)
      else let (r, t) = ix_Put (Some (Bytes8 gxid)) (Some (Bytes5 dataPos)) (xi_gxidIndex x)
           in (r, x\<lparr>xi_gxidIndex := t\<rparr>))"

definition pos_value :: "bytes \<Rightarrow> i64 res" where
  "pos_value v = (if length v < 5 then Panic IndexOutOfRange else Ok (Int5 v))"

definition xi_GetByTxid :: "i64 \<Rightarrow> XLogIndex \<Rightarrow> (i64 res \<times> XLogIndex) option" where
  "xi_GetByTxid txid x = map_option (\<lambda>(r, t). (res_bind r (\<lambda>v. case v of None \<Rightarrow> Ok (-1) | Some v \<Rightarrow> pos_value v),
     x\<lparr>xi_txidIndex := t\<rparr>)) (ix_Get (Some (Bytes8 txid)) (xi_txidIndex x))"

fun pos_values :: "bytes list \<Rightarrow> i64 list res" where
  "pos_values [] = Ok []"
| "pos_values (v # vs) = res_bind (pos_value v) (\<lambda>p. res_bind (pos_values vs) (\<lambda>ps. Ok (p # ps)))"

definition xi_GetByGxid :: "i64 \<Rightarrow> XLogIndex \<Rightarrow> (i64 list res \<times> XLogIndex) option" where
  "xi_GetByGxid gxid x = map_option (\<lambda>(r, t). (res_bind r pos_values, x\<lparr>xi_gxidIndex := t\<rparr>))
     (ix_GetAll (Some (Bytes8 gxid)) (xi_gxidIndex x))"

definition xi_Close :: "XLogIndex \<Rightarrow> XLogIndex" where
  "xi_Close x = \<lparr>xi_timeIndex = it_Close (xi_timeIndex x), xi_txidIndex = ix_Close (xi_txidIndex x),
     xi_gxidIndex = ix_Close (xi_gxidIndex x)\<rparr>"

subsection \<open>The container of a day\<close>

record dayContainer =
  dc_index :: XLogIndex
  dc_data :: XLogData

record xlog_entry =
  xe_Time :: i64
  xe_Txid :: i64
  xe_Gxid :: i64
  xe_Elapsed :: i32
  xe_Data :: bytes

definition no_xlog_files :: xlog_files where
  "no_xlog_files = \<lparr>xf_tim = (None, []), xf_tid = (None, []), xf_gid = (None, []), xf_data = []\<rparr>"

definition dc_open :: "xlog_files \<Rightarrow> dayContainer" where
  "dc_open fs = \<lparr>dc_index = NewXLogIndex fs, dc_data = \<lparr>xd_dataFile = NewRealDataFile (xf_data fs)\<rparr>\<rparr>"

text \<open>\<open>Flush\<close> and \<open>Close\<close> of the data, then \<open>Close\<close> of the index; and the files that are left.\<close>

definition dc_close :: "dayContainer \<Rightarrow> xlog_files" where
  "dc_close c =
     (let x = xi_Close (dc_index c); d = xd_Close (xd_Flush (dc_data c))
      in \<lparr>xf_tim = (mt_file (it_timeBlockHash (xi_timeIndex x)), kf_disk (it_keyFile (xi_timeIndex x))),
          xf_tid = (mh_file (ix_hashBlock (xi_txidIndex x)), kf_disk (ix_keyFile (xi_txidIndex x))),
          xf_gid = (mh_file (ix_hashBlock (xi_gxidIndex x)), kf_disk (ix_keyFile (xi_gxidIndex x))),
          xf_data = rd_disk (xd_dataFile d)\<rparr>)"

definition dc_flush :: "dayContainer \<Rightarrow> dayContainer" where
  "dc_flush c = c\<lparr>dc_data := xd_Flush (dc_data c)\<rparr>"

text \<open>
  The part of \<open>process\<close> behind \<open>getContainer\<close>, with the configuration at that time: it returns at the
  first error; only a panic goes further.
\<close>

definition dc_write :: "(bytes \<Rightarrow> bytes) \<Rightarrow> (i64 \<Rightarrow> nat) \<Rightarrow> bool \<times> xlog_entry \<Rightarrow> dayContainer \<Rightarrow> unit res \<times> dayContainer" where
  "dc_write enc gdm ce c =
     (let (compressing, e) = ce;
          (dataPos, d) = xd_Write enc compressing (xe_Data e) (dc_data c);
          c = c\<lparr>dc_data := d\<rparr>;
          (r1, x1) = SetByTime gdm (xe_Time e) (word_of_nat dataPos) (dc_index c)
      in if \<not> is_Ok r1 then (no_error r1, c\<lparr>dc_index := x1\<rparr>)
         else let (r2, x2) = SetByTxid (xe_Txid e) (word_of_nat dataPos) x1
         in if \<not> is_Ok r2 then (no_error r2, c\<lparr>dc_index := x2\<rparr>)
         else let (r3, x3) = SetByGxid (xe_Gxid e) (word_of_nat dataPos) x2
         in (no_error r3, c\<lparr>dc_index := x3\<rparr>))"

subsection \<open>Reading a container\<close>

text \<open>The handler that \<open>ReadByTime\<close> passes to the index: it skips what cannot be read.\<close>

definition by_place :: "(bytes \<Rightarrow> bytes option) \<Rightarrow> XLogData \<Rightarrow> (bytes \<Rightarrow> 'x \<Rightarrow> bool res \<times> 'x) \<Rightarrow> timed \<Rightarrow> 'x \<Rightarrow>
    bool res \<times> 'x" where
  "by_place dec d handler item s =
     (if length (snd item) < 5 then (Panic IndexOutOfRange, s)
      else case xd_Read dec (sint (Int5 (snd item))) d of Ok data \<Rightarrow> handler data s | _ \<Rightarrow> (Ok True, s))"

definition dc_ReadByTime :: "(bytes \<Rightarrow> bytes option) \<Rightarrow> (i64 \<Rightarrow> nat) \<Rightarrow> (timed list \<Rightarrow> timed list) \<Rightarrow> i64 \<Rightarrow> i64 \<Rightarrow>
    (bytes \<Rightarrow> 'x \<Rightarrow> bool res \<times> 'x) \<Rightarrow> 'x \<Rightarrow> dayContainer \<Rightarrow> ((unit res \<times> 'x) \<times> dayContainer) option" where
  "dc_ReadByTime dec gdm srt stime etime handler s c =
     map_option (\<lambda>(r, s', t). ((r, s'), c\<lparr>dc_index := (dc_index c)\<lparr>xi_timeIndex := t\<rparr>\<rparr>))
       (it_Read gdm srt stime etime (by_place dec (dc_data c) handler) s (xi_timeIndex (dc_index c)))"

definition dc_ReadFromEndTime :: "(bytes \<Rightarrow> bytes option) \<Rightarrow> (i64 \<Rightarrow> nat) \<Rightarrow> (timed list \<Rightarrow> timed list) \<Rightarrow> i64 \<Rightarrow> i64 \<Rightarrow>
    (bytes \<Rightarrow> 'x \<Rightarrow> bool res \<times> 'x) \<Rightarrow> 'x \<Rightarrow> dayContainer \<Rightarrow> ((unit res \<times> 'x) \<times> dayContainer) option" where
  "dc_ReadFromEndTime dec gdm srt stime etime handler s c =
     map_option (\<lambda>(r, s', t). ((r, s'), c\<lparr>dc_index := (dc_index c)\<lparr>xi_timeIndex := t\<rparr>\<rparr>))
       (ReadFromEnd gdm srt stime etime (by_place dec (dc_data c) handler) s (xi_timeIndex (dc_index c)))"

definition dc_GetByTxid :: "(bytes \<Rightarrow> bytes option) \<Rightarrow> i64 \<Rightarrow> dayContainer \<Rightarrow> (bytes option res \<times> dayContainer) option" where
  "dc_GetByTxid dec txid c = map_option (\<lambda>(r, x). (res_bind r (\<lambda>offset.
       if sint offset < 0 then Ok None
       else res_bind (xd_Read dec (sint offset) (dc_data c)) (\<lambda>data. Ok (Some data))), c\<lparr>dc_index := x\<rparr>))
     (xi_GetByTxid txid (dc_index c))"

definition dc_ReadByGxid :: "(bytes \<Rightarrow> bytes option) \<Rightarrow> i64 \<Rightarrow> dayContainer \<Rightarrow> (bytes list res \<times> dayContainer) option" where
  "dc_ReadByGxid dec gxid c = map_option (\<lambda>(r, x). (res_bind r (\<lambda>offsets.
       Ok (List.map_filter (\<lambda>p. case xd_Read dec (sint p) (dc_data c) of Ok data \<Rightarrow> Some data | _ \<Rightarrow> None) offsets)),
       c\<lparr>dc_index := x\<rparr>))
     (xi_GetByGxid gxid (dc_index c))"

subsection \<open>The writer and the reader\<close>

type_synonym XLogWR = "(string, dayContainer, xlog_files) DayWriter"

definition batchSize :: nat where "batchSize = 512"
definition xlogQueueSize :: nat where "xlogQueueSize = 10000"

definition xw_getContainer :: "string \<Rightarrow> XLogWR \<Rightarrow> dayContainer \<times> XLogWR" where
  "xw_getContainer = dw_getContainer dc_open no_xlog_files"

definition xw_process :: "(bytes \<Rightarrow> bytes) \<Rightarrow> (i64 \<Rightarrow> nat) \<Rightarrow> (i64 \<Rightarrow> string) \<Rightarrow> bool \<times> xlog_entry \<Rightarrow> XLogWR \<Rightarrow>
    unit res \<times> XLogWR" where
  "xw_process enc gdm fmt ce = dw_process dc_open no_xlog_files (dc_write enc gdm) (fmt (xe_Time (snd ce))) ce"

definition xw_flushData :: "XLogWR \<Rightarrow> XLogWR" where
  "xw_flushData = dw_flush dc_flush"

definition xw_Add :: "xlog_entry \<Rightarrow> xlog_entry list \<Rightarrow> xlog_entry list" where
  "xw_Add = enqueue xlogQueueSize"

definition xw_ReadByTime :: "(bytes \<Rightarrow> bytes option) \<Rightarrow> (i64 \<Rightarrow> nat) \<Rightarrow> (timed list \<Rightarrow> timed list) \<Rightarrow> string \<Rightarrow> i64 \<Rightarrow> i64 \<Rightarrow>
    (bytes \<Rightarrow> 'x \<Rightarrow> bool res \<times> 'x) \<Rightarrow> 'x \<Rightarrow> XLogWR \<Rightarrow> ((unit res \<times> 'x) option \<times> XLogWR) option" where
  "xw_ReadByTime dec gdm srt date stime etime handler s = dw_read date (dc_ReadByTime dec gdm srt stime etime handler s)"

definition xw_ReadFromEndTime :: "(bytes \<Rightarrow> bytes option) \<Rightarrow> (i64 \<Rightarrow> nat) \<Rightarrow> (timed list \<Rightarrow> timed list) \<Rightarrow> string \<Rightarrow> i64 \<Rightarrow> i64 \<Rightarrow>
    (bytes \<Rightarrow> 'x \<Rightarrow> bool res \<times> 'x) \<Rightarrow> 'x \<Rightarrow> XLogWR \<Rightarrow> ((unit res \<times> 'x) option \<times> XLogWR) option" where
  "xw_ReadFromEndTime dec gdm srt date stime etime handler s =
     dw_read date (dc_ReadFromEndTime dec gdm srt stime etime handler s)"

definition xw_GetByTxid :: "(bytes \<Rightarrow> bytes option) \<Rightarrow> string \<Rightarrow> i64 \<Rightarrow> XLogWR \<Rightarrow> (bytes option res option \<times> XLogWR) option" where
  "xw_GetByTxid dec date txid = dw_read date (dc_GetByTxid dec txid)"

definition xw_ReadByGxid :: "(bytes \<Rightarrow> bytes option) \<Rightarrow> string \<Rightarrow> i64 \<Rightarrow> XLogWR \<Rightarrow> (bytes list res option \<times> XLogWR) option" where
  "xw_ReadByGxid dec date gxid = dw_read date (dc_ReadByGxid dec gxid)"

definition xw_PurgeOldDays :: "(string \<Rightarrow> bool) \<Rightarrow> XLogWR \<Rightarrow> XLogWR" where
  "xw_PurgeOldDays keep = dw_purge dc_close keep"

definition xw_Close :: "XLogWR \<Rightarrow> XLogWR" where
  "xw_Close = dw_close dc_close"

text \<open>The reader keeps containers of its own; the files of a day are those at the time it opens them.\<close>

definition xr_getContainer :: "string \<Rightarrow> XLogWR \<Rightarrow> dayContainer option \<times> XLogWR" where
  "xr_getContainer = dw_getReader dc_open"

definition xr_read :: "string \<Rightarrow> 'r \<Rightarrow> (dayContainer \<Rightarrow> ('r \<times> dayContainer) option) \<Rightarrow> XLogWR \<Rightarrow> ('r \<times> XLogWR) option" where
  "xr_read date nothing f r = (case xr_getContainer date r of
     (None, r') \<Rightarrow> Some (nothing, r')
   | (Some c, r') \<Rightarrow> map_option (\<lambda>(y, c'). (y, dw_set date c' r')) (f c))"

definition xr_ReadByTime :: "(bytes \<Rightarrow> bytes option) \<Rightarrow> (i64 \<Rightarrow> nat) \<Rightarrow> (timed list \<Rightarrow> timed list) \<Rightarrow> string \<Rightarrow> i64 \<Rightarrow> i64 \<Rightarrow>
    (bytes \<Rightarrow> 'x \<Rightarrow> bool res \<times> 'x) \<Rightarrow> 'x \<Rightarrow> XLogWR \<Rightarrow> ((unit res \<times> 'x) \<times> XLogWR) option" where
  "xr_ReadByTime dec gdm srt date stime etime handler s =
     xr_read date (Ok (), s) (dc_ReadByTime dec gdm srt stime etime handler s)"

definition xr_ReadFromEndTime :: "(bytes \<Rightarrow> bytes option) \<Rightarrow> (i64 \<Rightarrow> nat) \<Rightarrow> (timed list \<Rightarrow> timed list) \<Rightarrow> string \<Rightarrow> i64 \<Rightarrow> i64 \<Rightarrow>
    (bytes \<Rightarrow> 'x \<Rightarrow> bool res \<times> 'x) \<Rightarrow> 'x \<Rightarrow> XLogWR \<Rightarrow> ((unit res \<times> 'x) \<times> XLogWR) option" where
  "xr_ReadFromEndTime dec gdm srt date stime etime handler s =
     xr_read date (Ok (), s) (dc_ReadFromEndTime dec gdm srt stime etime handler s)"

definition xr_GetByTxid :: "(bytes \<Rightarrow> bytes option) \<Rightarrow> string \<Rightarrow> i64 \<Rightarrow> XLogWR \<Rightarrow> (bytes option res \<times> XLogWR) option" where
  "xr_GetByTxid dec date txid = xr_read date (Ok None) (dc_GetByTxid dec txid)"

definition xr_ReadByGxid :: "(bytes \<Rightarrow> bytes option) \<Rightarrow> string \<Rightarrow> i64 \<Rightarrow> XLogWR \<Rightarrow> (bytes list res \<times> XLogWR) option" where
  "xr_ReadByGxid dec date gxid = xr_read date (Ok []) (dc_ReadByGxid dec gxid)"

text \<open>\<open>PurgeOldDays\<close> and \<open>Close\<close> of the reader close the files, which they have not changed.\<close>

definition xr_PurgeOldDays :: "(string \<Rightarrow> bool) \<Rightarrow> XLogWR \<Rightarrow> XLogWR" where
  "xr_PurgeOldDays keep r = r\<lparr>dw_days := (\<lambda>k. if keep k then dw_days r k else None)\<rparr>"

definition xr_Close :: "XLogWR \<Rightarrow> XLogWR" where
  "xr_Close r = r\<lparr>dw_days := (\<lambda>_. None)\<rparr>"


subsection \<open>What a container holds\<close>

text \<open>The entries with their bodies, the newest first, and the histories of the three indexes.\<close>

type_synonym stored_xlog = "xlog_entry \<times> bytes"

definition xl_frame :: "stored_xlog \<Rightarrow> bytes" where
  "xl_frame eb = PutUint16 (word_of_nat (length (snd eb))) @ snd eb"

definition xl_places :: "stored_xlog list \<Rightarrow> (stored_xlog \<times> bytes) list" where
  "xl_places = log_places xl_frame"

definition xl_time_hist :: "stored_xlog list \<Rightarrow> time_history" where
  "xl_time_hist es = map (\<lambda>(eb, p). (False, xe_Time (fst eb), p)) (xl_places es)"

definition xl_txid_hist :: "stored_xlog list \<Rightarrow> history" where
  "xl_txid_hist es = map (\<lambda>(eb, p). (False, Bytes8 (xe_Txid (fst eb)), p)) (xl_places es)"

definition xl_gxid_hist :: "stored_xlog list \<Rightarrow> history" where
  "xl_gxid_hist es = map (\<lambda>(eb, p). (False, Bytes8 (xe_Gxid (fst eb)), p))
     (filter (\<lambda>(eb, p). xe_Gxid (fst eb) \<noteq> 0) (xl_places es))"

definition xl_fits :: "(bytes \<Rightarrow> bytes option) \<Rightarrow> stored_xlog list \<Rightarrow> bool" where
  "xl_fits dec es \<longleftrightarrow> length es \<le> 2 ^ 34 \<and> length (log_image xl_frame es) < 2 ^ 39 \<and>
     (\<forall>eb \<in> set es. 0 < sint (xe_Time (fst eb)) \<and> length (snd eb) < 2 ^ 16 \<and> Decode dec (snd eb) = Ok (xe_Data (fst eb)))"

definition dc_holds :: "(bytes \<Rightarrow> bytes option) \<Rightarrow> (i64 \<Rightarrow> nat) \<Rightarrow> dayContainer \<Rightarrow> stored_xlog list \<Rightarrow> bool" where
  "dc_holds dec gdm c es \<longleftrightarrow>
     it_ready gdm (xi_timeIndex (dc_index c)) (xl_time_hist es) \<and>
     ix_ready (xi_txidIndex (dc_index c)) (xl_txid_hist es) \<and>
     ix_ready (xi_gxidIndex (dc_index c)) (xl_gxid_hist es) \<and>
     rd_inv (xd_dataFile (dc_data c)) \<and> rd_content (xd_dataFile (dc_data c)) = log_image xl_frame es \<and> xl_fits dec es"

definition dc_synced :: "dayContainer \<Rightarrow> bool" where
  "dc_synced c \<longleftrightarrow> rd_writer (xd_dataFile (dc_data c)) = []"

definition xl_stored :: "(bytes \<Rightarrow> bytes) \<Rightarrow> bool \<times> xlog_entry \<Rightarrow> stored_xlog" where
  "xl_stored enc ce = (snd ce, data_body enc (fst ce) (xe_Data (snd ce)))"

lemma xl_places_simps [simp]:
  "xl_places [] = []"
  "xl_places (eb # es) = (eb, Bytes5 (word_of_nat (length (log_image xl_frame es)))) # xl_places es"
  by (simp_all add: xl_places_def)

lemma map_fst_xl_places [simp]: "map fst (xl_places es) = es"
  by (simp add: xl_places_def)

lemma xl_place_length: "(eb, p) \<in> set (xl_places es) \<Longrightarrow> length p = 5"
  by (auto simp: xl_places_def dest: log_place_length)

lemma xl_hist_sizes:
  "time_hist_size (xl_time_hist es) = 2 + 22 * length es" "hist_size (xl_txid_hist es) = 2 + 22 * length es"
  "hist_size (xl_gxid_hist es) \<le> 2 + 22 * length es"
proof -
  have "map (\<lambda>x. 16 + blob_head (snd x) + length (snd x)) (filter Q (xl_places es)) = map (\<lambda>_. 22) (filter Q (xl_places es))" for Q
    using xl_place_length by (intro map_cong) (auto simp: blob_head_def)
  then have sum: "(\<Sum>x\<leftarrow>filter Q (xl_places es). 16 + blob_head (snd x) + length (snd x)) = 22 * length (filter Q (xl_places es))" for Q
    by (simp only:) (simp add: sum_list_triv)
  have n: "length (xl_places es) = length es" by (metis length_map map_fst_xl_places)
  have "(\<Sum>x\<leftarrow>xl_places es. 16 + blob_head (snd x) + length (snd x)) = 22 * length es"
    using sum [of "\<lambda>_. True"] n by simp
  then show "time_hist_size (xl_time_hist es) = 2 + 22 * length es" "hist_size (xl_txid_hist es) = 2 + 22 * length es"
    by (simp_all add: time_hist_size_def hist_size_def xl_time_hist_def xl_txid_hist_def comp_def case_prod_unfold
        FirstPos_def kfileHeaderSize_def)
  have "length (filter Q (xl_places es)) \<le> length es" for Q using length_filter_le [of Q "xl_places es"] n by simp
  then show "hist_size (xl_gxid_hist es) \<le> 2 + 22 * length es"
    by (simp add: hist_size_def xl_gxid_hist_def comp_def case_prod_unfold FirstPos_def kfileHeaderSize_def sum)
qed

lemma dc_write_holds:
  assumes "dc_holds dec gdm c es" and "xl_fits dec (xl_stored enc ce # es)"
  shows "\<exists>c'. dc_write enc gdm ce c = (Ok (), c') \<and> dc_holds dec gdm c' (xl_stored enc ce # es)"
proof -
  obtain z e where ce: "ce = (z, e)" by (cases ce)
  let ?n = "length (log_image xl_frame es)" and ?x = "dc_index c" and ?es = "xl_stored enc ce # es"
  let ?p = "Bytes5 (word_of_nat ?n)" and ?f = "xd_dataFile (dc_data c)"
  have "length ?es \<le> 2 ^ 34" using assms(2) by (simp add: xl_fits_def)
  then have size: "2 + 22 * length ?es \<le> 2 ^ 39" by simp
  have time: "0 < sint (xe_Time e)" using assms(2) by (simp add: xl_fits_def xl_stored_def ce)
  obtain t where t: "it_Put gdm (xe_Time e) (Some ?p) (xi_timeIndex ?x) = (Ok (time_hist_size (xl_time_hist es)), t)"
    "it_ready gdm t (xl_time_hist ?es)"
    using it_Put_ready [of gdm "xi_timeIndex ?x" "xl_time_hist es" "xe_Time e" ?p] assms(1) time size xl_hist_sizes(1) [of ?es]
    by (auto simp: dc_holds_def xl_time_hist_def xl_stored_def ce ok_blob_def)
  obtain i where i: "ix_Put (Some (Bytes8 (xe_Txid e))) (Some ?p) (xi_txidIndex ?x) = (Ok (), i)" "ix_ready i (xl_txid_hist ?es)"
    using ix_Put_place [of "xi_txidIndex ?x" "xl_txid_hist es" "xe_Txid e" "word_of_nat ?n"] assms(1) size xl_hist_sizes(2) [of ?es]
    by (auto simp: dc_holds_def xl_txid_hist_def xl_stored_def ce)
  obtain g where g: "SetByGxid (xe_Gxid e) (word_of_nat ?n) (?x\<lparr>xi_timeIndex := t, xi_txidIndex := i\<rparr>) =
      (Ok (), ?x\<lparr>xi_timeIndex := t, xi_txidIndex := i, xi_gxidIndex := g\<rparr>)" "ix_ready g (xl_gxid_hist ?es)"
  proof (cases "xe_Gxid e = 0")
    case True
    then show ?thesis using assms(1) that [of "xi_gxidIndex ?x"]
      by (simp add: SetByGxid_def dc_holds_def xl_gxid_hist_def xl_stored_def ce)
  next
    case False
    then show ?thesis using that ix_Put_place [of "xi_gxidIndex ?x" "xl_gxid_hist es" "xe_Gxid e" "word_of_nat ?n"] assms(1) size
        xl_hist_sizes(3) [of ?es]
      by (auto simp: SetByGxid_def dc_holds_def xl_gxid_hist_def xl_stored_def ce)
  qed
  have rd: "rd_inv ?f" "rd_content ?f = log_image xl_frame es" using assms(1) by (simp_all add: dc_holds_def)
  obtain f where f: "rd_Write (xl_frame (xl_stored enc ce)) ?f = (?n, f)" "rd_inv f" "rd_content f = log_image xl_frame ?es"
    using rd_Write_content [OF rd(1), of "xl_frame (xl_stored enc ce)"] rd(2)
    by (cases "rd_Write (xl_frame (xl_stored enc ce)) ?f") simp
  have "xd_Write enc z (xe_Data e) (dc_data c) = (?n, (dc_data c)\<lparr>xd_dataFile := f\<rparr>)"
    using f(1) by (simp add: xd_Write_def Let_def xl_frame_def xl_stored_def ce)
  then have "dc_write enc gdm ce c = (Ok (), c\<lparr>dc_data := (dc_data c)\<lparr>xd_dataFile := f\<rparr>,
      dc_index := ?x\<lparr>xi_timeIndex := t, xi_txidIndex := i, xi_gxidIndex := g\<rparr>\<rparr>)"
    using t(1) i(1) g(1) by (simp add: dc_write_def ce SetByTime_def SetByTxid_def no_error_def)
  then show ?thesis using t(2) i(2) g(2) f(2,3) assms(2) by (simp add: dc_holds_def)
qed

lemma dc_open_new: "dc_holds dec gdm (dc_open no_xlog_files) []"
  using it_new_ready ix_new_ready
  by (simp add: dc_holds_def dc_open_def no_xlog_files_def NewXLogIndex_def xl_time_hist_def xl_txid_hist_def
      xl_gxid_hist_def xl_fits_def)

lemma dc_reopen_holds:
  assumes "dc_holds dec gdm c es"
  shows "dc_holds dec gdm (dc_open (dc_close c)) es"
proof -
  let ?x = "dc_index c"
  have "dc_index (dc_open (dc_close c)) = \<lparr>xi_timeIndex = it_reopen (xi_timeIndex ?x),
      xi_txidIndex = ix_reopen 1 (xi_txidIndex ?x), xi_gxidIndex = ix_reopen 1 (xi_gxidIndex ?x)\<rparr>"
    by (simp add: dc_open_def dc_close_def NewXLogIndex_def xi_Close_def it_reopen_def ix_reopen_def Let_def)
  moreover have "xd_dataFile (dc_data (dc_open (dc_close c))) = NewRealDataFile (rd_content (xd_dataFile (dc_data c)))"
    by (simp add: dc_open_def dc_close_def xd_Close_def xd_Flush_def rd_Close_def Let_def)
  ultimately show ?thesis using assms it_reopen_ready ix_reopen_ready by (simp add: dc_holds_def)
qed

interpretation xw: day_store dc_open dc_close no_xlog_files "dc_write enc gdm" dc_flush "dc_holds dec gdm" dc_synced
  "xl_stored enc" "xl_fits dec"
  for enc :: "bytes \<Rightarrow> bytes" and dec :: "bytes \<Rightarrow> bytes option" and gdm :: "i64 \<Rightarrow> nat"
proof unfold_locales
  show "dc_synced (dc_open f)" "dc_synced (dc_flush c)" for f c
    by (simp_all add: dc_synced_def dc_open_def NewRealDataFile_def dc_flush_def xd_Flush_def rd_Flush_def)
  show "dc_holds dec gdm c es \<Longrightarrow> dc_holds dec gdm (dc_flush c) es" for c es
    by (simp add: dc_holds_def dc_flush_def xd_Flush_def)
qed (rule dc_open_new dc_reopen_holds dc_write_holds; assumption)+

subsection \<open>What the reads return\<close>

text \<open>Once the data is flushed, an entry is read at its place.\<close>

lemma xd_Read_place:
  assumes "dc_holds dec gdm c es" and "dc_synced c" and "(eb, p) \<in> set (xl_places es)"
  shows "xd_Read dec (sint (Int5 p)) (dc_data c) = Ok (xe_Data (fst eb))"
proof -
  have len: "length (log_image xl_frame es) < 2 ^ 39" using assms(1) by (simp add: dc_holds_def xl_fits_def)
  have eb: "length (snd eb) < 2 ^ 16" "Decode dec (snd eb) = Ok (xe_Data (fst eb))"
    using assms(1,3) map_fst_xl_places [of es] by (auto simp: dc_holds_def xl_fits_def simp del: map_fst_xl_places)
      (metis fst_conv image_eqI set_map)+
  obtain pre post where im: "log_image xl_frame es = pre @ xl_frame eb @ post" "sint (Int5 p) = int (length pre)"
    using log_place [of eb p xl_frame es] assms(3) len by (auto simp: xl_places_def)
  have disk: "rd_disk (xd_dataFile (dc_data c)) = pre @ PutUint16 (word_of_nat (length (snd eb))) @ snd eb @ post"
    using assms(1,2) im(1) by (simp add: dc_holds_def dc_synced_def rd_content_def xl_frame_def)
  have n: "unat (word_of_nat (length (snd eb)) :: i16) = length (snd eb)" using eb(1) by (simp add: unat_of_nat)
  have "ReadAt (rd_disk (xd_dataFile (dc_data c))) (int (length pre)) 2 = Ok (PutUint16 (word_of_nat (length (snd eb))))"
    unfolding disk by (rule ReadAt_part) simp_all
  moreover have "ReadAt (rd_disk (xd_dataFile (dc_data c))) (int (length pre) + 2) (length (snd eb)) = Ok (snd eb)"
    unfolding disk using ReadAt_part [of "pre @ PutUint16 (word_of_nat (length (snd eb)))" _ "snd eb"] by simp
  ultimately show ?thesis by (simp add: xd_Read_def im(2) n eb(2))
qed

lemma find_places: "map_option fst (find (\<lambda>x. P (fst x)) (xl_places es)) = find P es"
  by (induction es) auto

lemma dc_GetByTxid_holds:
  assumes "dc_holds dec gdm c es" and "dc_synced c"
  shows "\<exists>c'. dc_GetByTxid dec txid c = Some (Ok (map_option (\<lambda>eb. xe_Data (fst eb)) (find (\<lambda>eb. xe_Txid (fst eb) = txid) es)), c') \<and>
    dc_holds dec gdm c' es \<and> dc_synced c'"
proof -
  let ?x = "dc_index c"
  obtain t where t: "ix_Get (Some (Bytes8 txid)) (xi_txidIndex ?x) = Some (Ok (hist_Get (Bytes8 txid) (xl_txid_hist es)), t)"
    "ix_ready t (xl_txid_hist es)" using ix_Get_ready assms(1) by (metis dc_holds_def)
  let ?c = "c\<lparr>dc_index := ?x\<lparr>xi_txidIndex := t\<rparr>\<rparr>"
  have c: "dc_holds dec gdm ?c es" "dc_synced ?c" using assms t(2) by (simp_all add: dc_holds_def dc_synced_def)
  have get: "hist_Get (Bytes8 txid) (xl_txid_hist es) = map_option snd (find (\<lambda>x. xe_Txid (fst (fst x)) = txid) (xl_places es))"
    by (induction es) (simp_all add: hist_Get_def xl_txid_hist_def)
  show ?thesis
  proof (cases "find (\<lambda>x. xe_Txid (fst (fst x)) = txid) (xl_places es)")
    case None
    then have "find (\<lambda>eb. xe_Txid (fst eb) = txid) es = None"
      using find_places [of "\<lambda>eb. xe_Txid (fst eb) = txid" es] by simp
    then show ?thesis using c t(1) None get by (auto simp: dc_GetByTxid_def xi_GetByTxid_def)
  next
    case (Some x)
    obtain eb p where x: "x = (eb, p)" by (cases x)
    with Some have "(eb, p) \<in> set (xl_places es)" by (auto simp: find_Some_iff)
    note read = xd_Read_place [OF assms this] xl_place_length [OF this]
    have "0 \<le> sint (Int5 p)"
      using log_place [of eb p xl_frame es] \<open>(eb, p) \<in> set (xl_places es)\<close> assms(1)
      by (auto simp: xl_places_def dc_holds_def xl_fits_def)
    moreover have "find (\<lambda>eb. xe_Txid (fst eb) = txid) es = Some eb"
      using find_places [of "\<lambda>eb. xe_Txid (fst eb) = txid" es] Some x by simp
    ultimately show ?thesis using c t(1) Some get x read
      by (auto simp: dc_GetByTxid_def xi_GetByTxid_def pos_value_def)
  qed
qed

lemma pos_values_Ok: "(\<And>v. v \<in> set vs \<Longrightarrow> length v = 5) \<Longrightarrow> pos_values vs = Ok (map Int5 vs)"
  by (induction vs) (simp_all add: pos_value_def)

lemma map_filter_Some: "(\<And>x. x \<in> set xs \<Longrightarrow> f x = Some (g x)) \<Longrightarrow> List.map_filter f xs = map g xs"
  by (induction xs) (simp_all add: List.map_filter_simps)

lemma dc_ReadByGxid_holds:
  assumes "dc_holds dec gdm c es" and "dc_synced c"
  shows "\<exists>c'. dc_ReadByGxid dec gxid c =
      Some (Ok (map (\<lambda>eb. xe_Data (fst eb)) (filter (\<lambda>eb. xe_Gxid (fst eb) = gxid \<and> gxid \<noteq> 0) es)), c') \<and>
    dc_holds dec gdm c' es \<and> dc_synced c'"
proof -
  let ?x = "dc_index c" and ?Q = "\<lambda>x. xe_Gxid (fst (fst x)) = gxid \<and> gxid \<noteq> 0"
  obtain g where g: "ix_GetAll (Some (Bytes8 gxid)) (xi_gxidIndex ?x) = Some (Ok (hist_GetAll (Bytes8 gxid) (xl_gxid_hist es)), g)"
    "ix_ready g (xl_gxid_hist es)" using ix_GetAll_ready assms(1) by (metis dc_holds_def)
  let ?c = "c\<lparr>dc_index := ?x\<lparr>xi_gxidIndex := g\<rparr>\<rparr>"
  have c: "dc_holds dec gdm ?c es" "dc_synced ?c" using assms g(2) by (simp_all add: dc_holds_def dc_synced_def)
  let ?vs = "map snd (filter ?Q (xl_places es))"
  have all: "hist_GetAll (Bytes8 gxid) (xl_gxid_hist es) = ?vs"
    by (induction es) (auto simp: hist_GetAll_def xl_gxid_hist_def)
  have "pos_values ?vs = Ok (map Int5 ?vs)" by (rule pos_values_Ok) (auto dest: xl_place_length)
  moreover have "List.map_filter (\<lambda>p. case xd_Read dec (sint p) (dc_data c) of Ok data \<Rightarrow> Some data | _ \<Rightarrow> None) (map Int5 ?vs) =
      map (\<lambda>x. xe_Data (fst (fst x))) (filter ?Q (xl_places es))"
  proof -
    have "List.map_filter f (map Int5 ?vs) = List.map_filter (\<lambda>x. f (Int5 (snd x))) (filter ?Q (xl_places es))" for f :: "i64 \<Rightarrow> bytes option"
      by (simp add: List.map_filter_def filter_map comp_def)
    moreover have "List.map_filter (\<lambda>x. case xd_Read dec (sint (Int5 (snd x))) (dc_data c) of Ok data \<Rightarrow> Some data | _ \<Rightarrow> None)
        (filter ?Q (xl_places es)) = map (\<lambda>x. xe_Data (fst (fst x))) (filter ?Q (xl_places es))"
      by (rule map_filter_Some) (auto simp: xd_Read_place [OF assms])
    ultimately show ?thesis by simp
  qed
  moreover have "map (\<lambda>x. xe_Data (fst (fst x))) (filter ?Q (xl_places es)) =
      map (\<lambda>eb. xe_Data (fst eb)) (filter (\<lambda>eb. xe_Gxid (fst eb) = gxid \<and> gxid \<noteq> 0) es)"
    by (induction es) auto
  ultimately show ?thesis using c g(1) by (simp add: dc_ReadByGxid_def xi_GetByGxid_def all)
qed

text \<open>The calls of the handler of \<open>ReadByTime\<close> for a list of data.\<close>

fun pass_on :: "('d \<Rightarrow> 'x \<Rightarrow> bool res \<times> 'x) \<Rightarrow> 'd list \<Rightarrow> 'x \<Rightarrow> unit res \<times> 'x" where
  "pass_on handler [] s = (Ok (), s)"
| "pass_on handler (d # ds) s = (case handler d s of
     (Ok True, s') \<Rightarrow> pass_on handler ds s'
   | (r, s') \<Rightarrow> (res_bind r (\<lambda>_. Ok ()), s'))"

lemma deliver_by_place:
  assumes "dc_holds dec gdm c es" and "dc_synced c" and "set ys \<subseteq> set (xl_places es)"
  shows "deliver (by_place dec (dc_data c) handler) (map (\<lambda>(eb, p). (xe_Time (fst eb), p)) ys) s = (r, s') \<Longrightarrow>
    pass_on handler (map (\<lambda>x. xe_Data (fst (fst x))) ys) s = (res_bind r (\<lambda>_. Ok ()), s')"
  using assms(3)
proof (induction ys arbitrary: s)
  case (Cons x ys)
  obtain eb p where x: "x = (eb, p)" by (cases x)
  with Cons.prems(2) have "(eb, p) \<in> set (xl_places es)" by simp
  note read = xd_Read_place [OF assms(1,2) this] xl_place_length [OF this]
  then have "by_place dec (dc_data c) handler (xe_Time (fst eb), p) s = handler (xe_Data (fst eb)) s" for s
    by (simp add: by_place_def)
  then show ?case using Cons by (auto simp: x split: prod.splits res.splits bool.splits)
qed auto

lemma dc_ReadByTime_holds:
  assumes "dc_holds dec gdm c es" and "dc_synced c" and "sorts srt" and "local_day gdm mid" and "0 < sint stime"
    and "range_reach mid stime etime" and "\<forall>eb \<in> set es. of_day mid (xe_Time (fst eb), [])"
  shows "\<exists>ys c'. mset ys = filter_mset (\<lambda>eb. in_buckets mid stime etime (xe_Time (fst eb), [])) (mset es) \<and>
    sorted (map (\<lambda>eb. sint (xe_Time (fst eb))) ys) \<and>
    dc_ReadByTime dec gdm srt stime etime handler s c = Some (pass_on handler (map (\<lambda>eb. xe_Data (fst eb)) ys) s, c') \<and>
    dc_holds dec gdm c' es \<and> dc_synced c'"
proof -
  let ?x = "dc_index c" and ?h = "xl_time_hist es" and ?f = "\<lambda>(eb, p). (xe_Time (fst eb), p :: bytes)"
  have ready: "it_ready gdm (xi_timeIndex ?x) ?h" using assms(1) by (simp add: dc_holds_def)
  then have holds: "it_holds gdm (xi_timeIndex ?x) ?h" by (simp add: it_ready_def)
  have und: "undeleted ?h = map ?f (xl_places es)"
    by (simp add: undeleted_def xl_time_hist_def filter_map comp_def case_prod_unfold)
  have "fst x \<in> set es" if "x \<in> set (xl_places es)" for x using that map_fst_xl_places by (metis image_eqI set_map)
  then have day: "\<forall>x \<in> set (undeleted ?h). of_day mid x" using assms(7) unfolding und by (fastforce simp: of_day_def)
  let ?place = "by_place dec (dc_data c) handler"
  obtain xs t where xs: "mset xs = filter_mset (in_buckets mid stime etime) (mset (undeleted ?h))" "sorted (map (\<lambda>x. sint (fst x)) xs)"
    "it_Read gdm srt stime etime ?place s (xi_timeIndex ?x) =
      Some (res_bind (fst (deliver ?place xs s)) (\<lambda>_. Ok ()), snd (deliver ?place xs s), t)" "it_holds gdm t ?h"
    using it_Read_complete [OF holds assms(3-6) day, of ?place s] by blast
  let ?c = "c\<lparr>dc_index := ?x\<lparr>xi_timeIndex := t\<rparr>\<rparr>"
  have c: "dc_holds dec gdm ?c es" "dc_synced ?c"
    using assms(1,2) it_Read_ready [OF ready xs(3,4)] by (simp_all add: dc_holds_def dc_synced_def)
  have "mset xs = image_mset ?f (filter_mset (\<lambda>x. in_buckets mid stime etime (xe_Time (fst (fst x)), [])) (mset (xl_places es)))"
    using xs(1) by (simp add: und filter_mset_image_mset in_buckets_def case_prod_unfold comp_def)
  from permuted_map [OF this] obtain ys where ys:
    "mset ys = filter_mset (\<lambda>x. in_buckets mid stime etime (xe_Time (fst (fst x)), [])) (mset (xl_places es))" "map ?f ys = xs" by blast
  have "set ys \<subseteq> set (xl_places es)" using ys(1) by (metis filter_is_subset mset_filter set_mset_mset)
  with deliver_by_place [OF assms(1,2), of ys handler s]
  have pass: "pass_on handler (map (\<lambda>x. xe_Data (fst (fst x))) ys) s =
      (res_bind (fst (deliver ?place xs s)) (\<lambda>_. Ok ()), snd (deliver ?place xs s))"
    unfolding ys(2) by (cases "deliver ?place xs s") simp
  have "mset (map fst ys) = filter_mset (\<lambda>eb. in_buckets mid stime etime (xe_Time (fst eb), [])) (mset (map fst (xl_places es)))"
    using ys(1) by (simp add: filter_mset_image_mset comp_def del: map_fst_xl_places)
  moreover have "sorted (map (\<lambda>eb. sint (xe_Time (fst eb))) (map fst ys))"
    using xs(2) unfolding ys(2) [symmetric] by (simp add: comp_def case_prod_unfold)
  moreover have "dc_ReadByTime dec gdm srt stime etime handler s c = Some (pass_on handler (map (\<lambda>eb. xe_Data (fst eb)) (map fst ys)) s, ?c)"
    using xs(3) pass by (simp add: dc_ReadByTime_def comp_def)
  ultimately show ?thesis using c by (intro exI [of _ "map fst ys"]) auto
qed

subsection \<open>Sequences of batches and purges\<close>

definition xw_batch :: "(bytes \<Rightarrow> bytes) \<Rightarrow> (i64 \<Rightarrow> nat) \<Rightarrow> (i64 \<Rightarrow> string) \<Rightarrow> (bool \<times> xlog_entry) list \<Rightarrow> XLogWR \<Rightarrow> XLogWR" where
  "xw_batch enc gdm fmt ces w = xw_flushData (fold (\<lambda>ce w. snd (xw_process enc gdm fmt ce w)) ces w)"

datatype xw_op = XwBatch "(bool \<times> xlog_entry) list" | XwPurge "string \<Rightarrow> bool"

fun xw_do :: "(bytes \<Rightarrow> bytes) \<Rightarrow> (i64 \<Rightarrow> nat) \<Rightarrow> (i64 \<Rightarrow> string) \<Rightarrow> xw_op \<Rightarrow> XLogWR \<Rightarrow> XLogWR" where
  "xw_do enc gdm fmt (XwBatch ces) w = xw_batch enc gdm fmt ces w"
| "xw_do enc gdm fmt (XwPurge keep) w = xw_PurgeOldDays keep w"

definition xw_run :: "(bytes \<Rightarrow> bytes) \<Rightarrow> (i64 \<Rightarrow> nat) \<Rightarrow> (i64 \<Rightarrow> string) \<Rightarrow> xw_op list \<Rightarrow> XLogWR \<Rightarrow> XLogWR" where
  "xw_run enc gdm fmt ops w = fold (xw_do enc gdm fmt) ops w"

fun op_entries :: "xw_op \<Rightarrow> (bool \<times> xlog_entry) list" where
  "op_entries (XwBatch ces) = ces"
| "op_entries (XwPurge keep) = []"

definition ops_entries :: "xw_op list \<Rightarrow> (bool \<times> xlog_entry) list" where
  "ops_entries ops = concat (map op_entries ops)"

text \<open>The entries of a day, the newest first.\<close>

definition day_entries :: "(i64 \<Rightarrow> string) \<Rightarrow> (bool \<times> xlog_entry) list \<Rightarrow> string \<Rightarrow> (bool \<times> xlog_entry) list" where
  "day_entries fmt ces date = rev (filter (\<lambda>ce. fmt (xe_Time (snd ce)) = date) ces)"

definition day_stored :: "(bytes \<Rightarrow> bytes) \<Rightarrow> (i64 \<Rightarrow> string) \<Rightarrow> (bool \<times> xlog_entry) list \<Rightarrow> string \<Rightarrow> stored_xlog list" where
  "day_stored enc fmt ces date = map (xl_stored enc) (day_entries fmt ces date)"

text \<open>
  What can be stored: the time is positive, the length of the body fits 16 bits, and data that is not
  compressed does not start with the byte that marks compressed data. All files stay within the 5 byte
  positions.
\<close>

definition ok_write :: "(bytes \<Rightarrow> bytes) \<Rightarrow> bool \<times> xlog_entry \<Rightarrow> bool" where
  "ok_write enc ce \<longleftrightarrow> 0 < sint (xe_Time (snd ce)) \<and> length (data_body enc (fst ce) (xe_Data (snd ce))) < 2 ^ 16 \<and>
     (fst ce \<or> xe_Data (snd ce) = [] \<or> hd (xe_Data (snd ce)) \<noteq> 0)"

definition ok_writes :: "(bytes \<Rightarrow> bytes) \<Rightarrow> (bool \<times> xlog_entry) list \<Rightarrow> bool" where
  "ok_writes enc ces \<longleftrightarrow> list_all (ok_write enc) ces \<and> length ces \<le> 2 ^ 34 \<and>
     (\<Sum>ce\<leftarrow>ces. 2 + length (data_body enc (fst ce) (xe_Data (snd ce)))) < 2 ^ 39"

lemma length_log_image: "length (log_image frame es) = (\<Sum>e\<leftarrow>es. length (frame e))"
  by (induction es) simp_all

lemma sum_list_filter_le: "(\<Sum>x\<leftarrow>filter P xs. f x) \<le> (\<Sum>x\<leftarrow>xs. f x :: nat)"
  by (induction xs) auto

lemma day_stored_fits:
  assumes "\<And>d. dec (enc d) = Some d" and "ok_writes enc ces"
  shows "xl_fits dec (day_stored enc fmt ces date)"
proof -
  let ?P = "\<lambda>ce. fmt (xe_Time (snd ce)) = date" and ?len = "\<lambda>ce. 2 + length (data_body enc (fst ce) (xe_Data (snd ce)))"
  have "length (log_image xl_frame (day_stored enc fmt ces date)) = (\<Sum>ce\<leftarrow>filter ?P ces. ?len ce)"
    by (simp add: length_log_image day_stored_def day_entries_def comp_def xl_frame_def xl_stored_def flip: rev_map)
  also have "\<dots> \<le> (\<Sum>ce\<leftarrow>ces. ?len ce)" by (rule sum_list_filter_le)
  finally have "length (log_image xl_frame (day_stored enc fmt ces date)) < 2 ^ 39" using assms(2) by (simp add: ok_writes_def)
  moreover have "length (day_stored enc fmt ces date) \<le> 2 ^ 34"
    using assms(2) order_trans [OF length_filter_le [of ?P ces]] by (simp add: day_stored_def day_entries_def ok_writes_def)
  moreover have "Decode dec (data_body enc (fst ce) (xe_Data (snd ce))) = Ok (xe_Data (snd ce))" if "ok_write enc ce" for ce
    using that by (intro Decode_body assms(1)) (simp add: ok_write_def)
  ultimately show ?thesis using assms(2)
    by (auto simp: xl_fits_def day_stored_def day_entries_def xl_stored_def ok_writes_def list_all_iff ok_write_def)
qed

lemma xl_fits_suffix: "xl_fits dec (es @ es') \<Longrightarrow> xl_fits dec es'"
  by (simp add: xl_fits_def length_log_image)

lemma ok_writes_append: "ok_writes enc (ces @ ces') \<Longrightarrow> ok_writes enc ces"
  by (simp add: ok_writes_def)

lemma day_stored_append: "day_stored enc fmt (ces @ ces') date = day_stored enc fmt ces' date @ day_stored enc fmt ces date"
  by (simp add: day_stored_def day_entries_def)

lemma xw_batch_holds:
  assumes "xw.dw_holds dec gdm w (day_stored enc fmt old)" and "\<forall>date. xl_fits dec (day_stored enc fmt (old @ ces) date)"
  shows "xw.dw_holds dec gdm (xw_batch enc gdm fmt ces w) (day_stored enc fmt (old @ ces))"
proof -
  let ?es = "map (\<lambda>ce. (fmt (xe_Time (snd ce)), ce)) ces"
  have day: "rev (map (xl_stored enc) (map snd (filter (\<lambda>(k', e). k' = date) ?es))) = day_stored enc fmt ces date" for date
    by (simp add: day_stored_def day_entries_def filter_map comp_def rev_map)
  have "\<forall>date. xl_fits dec (rev (map (xl_stored enc) (map snd (filter (\<lambda>(k', e). k' = date) ?es))) @ day_stored enc fmt old date)"
    using assms(2) unfolding day day_stored_append .
  note fits = this
  have "xw.dw_holds dec gdm (fold (\<lambda>(k, e) w. snd (dw_process dc_open no_xlog_files (dc_write enc gdm) k e w)) ?es w)
      (\<lambda>date. rev (map (xl_stored enc) (map snd (filter (\<lambda>(k', e). k' = date) ?es))) @ day_stored enc fmt old date)"
    by (rule xw.dw_batch_holds [OF assms(1) fits]) (rule xl_fits_suffix)
  then have "xw.dw_holds dec gdm (fold (\<lambda>(k, e) w. snd (dw_process dc_open no_xlog_files (dc_write enc gdm) k e w)) ?es w)
      (day_stored enc fmt (old @ ces))" unfolding day day_stored_append .
  moreover have "fold (\<lambda>(k, e) w. snd (dw_process dc_open no_xlog_files (dc_write enc gdm) k e w)) ?es w =
      fold (\<lambda>ce w. snd (xw_process enc gdm fmt ce w)) ces w"
    by (induction ces arbitrary: w) (simp_all add: xw_process_def)
  ultimately show ?thesis unfolding xw_batch_def xw_flushData_def using xw.dw_flush_holds by simp
qed

lemma xw_run_holds:
  assumes "\<And>d. dec (enc d) = Some d" and "ok_writes enc (ops_entries ops)"
  shows "xw.dw_holds dec gdm (xw_run enc gdm fmt ops dw_new) (day_stored enc fmt (ops_entries ops)) \<and>
    xw.dw_synced (xw_run enc gdm fmt ops dw_new)"
  using assms(2)
proof (induction ops rule: rev_induct)
  case Nil
  show ?case using xw.dw_new_holds
    by (simp add: xw_run_def ops_entries_def day_stored_def day_entries_def xw.dw_synced_def dw_new_def)
next
  case (snoc op ops)
  let ?w = "xw_run enc gdm fmt ops dw_new"
  have "ok_writes enc (ops_entries ops)" using snoc.prems ok_writes_append by (simp add: ops_entries_def)
  note IH = snoc.IH [OF this]
  have w: "xw_run enc gdm fmt (ops @ [op]) dw_new = xw_do enc gdm fmt op ?w" by (simp add: xw_run_def)
  show ?case
  proof (cases op)
    case (XwBatch ces)
    have ents: "ops_entries (ops @ [op]) = ops_entries ops @ ces" by (simp add: ops_entries_def XwBatch)
    have "\<forall>date. xl_fits dec (day_stored enc fmt (ops_entries ops @ ces) date)"
      using day_stored_fits [OF assms(1) snoc.prems] unfolding ents by blast
    then show ?thesis unfolding w ents using xw_batch_holds [OF IH [THEN conjunct1]] xw.dw_flush_synced
      by (simp add: XwBatch xw_batch_def xw_flushData_def)
  next
    case (XwPurge keep)
    have ents: "ops_entries (ops @ [op]) = ops_entries ops" by (simp add: ops_entries_def XwPurge)
    have "xw.dw_synced (dw_purge dc_close keep ?w)"
      using IH by (auto simp: xw.dw_synced_def dw_purge_def split: if_splits)
    moreover have "xw.dw_holds dec gdm (dw_purge dc_close keep ?w) (day_stored enc fmt (ops_entries ops))"
      using IH [THEN conjunct1] by (rule xw.dw_purge_holds)
    ultimately show ?thesis unfolding w ents by (simp add: XwPurge xw_PurgeOldDays_def)
  qed
qed

text \<open>A read of the writer, for a day that is open.\<close>

lemma dw_read_Some:
  assumes "dw_days w date = Some c" and "f c = Some (r, c')"
  shows "dw_read date f w = Some (Some r, dw_set date c' w)"
  using assms by (simp add: dw_read_def)

lemma xw_open:
  assumes "xw.dw_holds dec gdm w H" and "xw.dw_synced w" and "dw_days w date = Some c"
  shows "dc_holds dec gdm c (H date)" and "dc_synced c"
  using assms xw.dw_open_holds by (auto simp: xw.dw_synced_def)

text \<open>A read of the reader, over the files a closed writer left.\<close>

lemma xw_close_reader:
  assumes "xw.dw_holds dec gdm w H"
  shows "xw.dw_holds dec gdm (xw_Close w) H" and "xw.dw_synced (xw_Close w)"
proof -
  show "xw.dw_holds dec gdm (xw_Close w) H"
    unfolding xw_Close_def dw_close_def using assms by (rule xw.dw_purge_holds)
  show "xw.dw_synced (xw_Close w)" by (simp add: xw_Close_def dw_close_def xw.dw_synced_def dw_purge_def)
qed

lemma xr_read_holds:
  assumes "xw.dw_holds dec gdm r H" and "xw.dw_synced r"
    and "\<And>c. dc_holds dec gdm c (H date) \<Longrightarrow> dc_synced c \<Longrightarrow> \<exists>c'. f c = Some (y, c') \<and> dc_holds dec gdm c' (H date) \<and> dc_synced c'"
    and "H date = [] \<Longrightarrow> nothing = y"
  shows "\<exists>r'. xr_read date nothing f r = Some (y, r') \<and> xw.dw_holds dec gdm r' H \<and> xw.dw_synced r'"
proof -
  note get = xw.dw_getReader_holds [OF assms(1,2), of date]
  obtain c r1 where r1: "dw_getReader dc_open date r = (c, r1)" "xw.dw_holds dec gdm r1 H" "xw.dw_synced r1"
    "case c of None \<Rightarrow> H date = [] | Some c \<Rightarrow> dc_holds dec gdm c (H date) \<and> dc_synced c"
    using get by blast
  show ?thesis
  proof (cases c)
    case None
    with r1 assms(4) show ?thesis by (simp add: xr_read_def xr_getContainer_def)
  next
    case (Some c0)
    with r1(4) have "dc_holds dec gdm c0 (H date)" "dc_synced c0" by simp_all
    from assms(3) [OF this] obtain c' where c': "f c0 = Some (y, c')" "dc_holds dec gdm c' (H date)" "dc_synced c'" by blast
    moreover have "xw.dw_holds dec gdm (dw_set date c' r1) H" using r1(2) c'(2) by (rule xw.dw_set_same)
    moreover have "xw.dw_synced (dw_set date c' r1)" using r1(3) c'(3) by (rule xw.dw_set_synced)
    ultimately show ?thesis using r1(1) Some by (simp add: xr_read_def xr_getContainer_def)
  qed
qed

text \<open>The entries of the histories.\<close>

lemma find_day_stored: "map_option (\<lambda>eb. f (fst eb)) (find (\<lambda>eb. P (fst eb)) (day_stored enc fmt ces date)) =
    map_option (\<lambda>ce. f (snd ce)) (find (\<lambda>ce. P (snd ce)) (day_entries fmt ces date))"
proof -
  have "map_option (\<lambda>eb. f (fst eb)) (find (\<lambda>eb. P (fst eb)) (map (xl_stored enc) xs)) =
      map_option (\<lambda>ce. f (snd ce)) (find (\<lambda>ce. P (snd ce)) xs)" for xs
    by (induction xs) (auto simp: xl_stored_def)
  then show ?thesis by (simp add: day_stored_def)
qed

lemma filter_day_stored: "map (\<lambda>eb. f (fst eb)) (filter (\<lambda>eb. P (fst eb)) (day_stored enc fmt ces date)) =
    map (\<lambda>ce. f (snd ce)) (filter (\<lambda>ce. P (snd ce)) (day_entries fmt ces date))"
  by (simp add: day_stored_def filter_map comp_def xl_stored_def)

definition newest_data :: "(i64 \<Rightarrow> string) \<Rightarrow> (bool \<times> xlog_entry) list \<Rightarrow> string \<Rightarrow> i64 \<Rightarrow> bytes option" where
  "newest_data fmt ces date txid =
     map_option (\<lambda>ce. xe_Data (snd ce)) (find (\<lambda>ce. xe_Txid (snd ce) = txid) (day_entries fmt ces date))"

definition gxid_data :: "(i64 \<Rightarrow> string) \<Rightarrow> (bool \<times> xlog_entry) list \<Rightarrow> string \<Rightarrow> i64 \<Rightarrow> bytes list" where
  "gxid_data fmt ces date gxid =
     map (\<lambda>ce. xe_Data (snd ce)) (filter (\<lambda>ce. xe_Gxid (snd ce) = gxid \<and> gxid \<noteq> 0) (day_entries fmt ces date))"

lemma xw_run_GetByTxid:
  assumes "\<And>d. dec (enc d) = Some d" and "ok_writes enc (ops_entries ops)"
    and "dw_days (xw_run enc gdm fmt ops dw_new) date \<noteq> None"
  shows "\<exists>w'. xw_GetByTxid dec date txid (xw_run enc gdm fmt ops dw_new) =
      Some (Some (Ok (newest_data fmt (ops_entries ops) date txid)), w')"
proof -
  obtain c where c: "dw_days (xw_run enc gdm fmt ops dw_new) date = Some c" using assms(3) by blast
  note run = xw_run_holds [OF assms(1,2), where gdm = gdm and fmt = fmt]
  from dc_GetByTxid_holds [OF xw_open [OF run [THEN conjunct1] run [THEN conjunct2] c], of txid] obtain c' where
    "dc_GetByTxid dec txid c = Some (Ok (newest_data fmt (ops_entries ops) date txid), c')"
    unfolding find_day_stored [where f = xe_Data and P = "\<lambda>e. xe_Txid e = txid"] newest_data_def by blast
  from dw_read_Some [where f = "dc_GetByTxid dec txid", OF c this] show ?thesis by (auto simp: xw_GetByTxid_def)
qed

lemma xr_after_close:
  assumes "\<And>d. dec (enc d) = Some d" and "ok_writes enc (ops_entries ops)"
  shows "\<exists>r'. xr_GetByTxid dec date txid (xw_Close (xw_run enc gdm fmt ops dw_new)) =
      Some (Ok (newest_data fmt (ops_entries ops) date txid), r')"
    and "\<exists>r'. xr_ReadByGxid dec date gxid (xw_Close (xw_run enc gdm fmt ops dw_new)) =
      Some (Ok (gxid_data fmt (ops_entries ops) date gxid), r')"
proof -
  note run = xw_run_holds [OF assms(1,2), where gdm = gdm and fmt = fmt, THEN conjunct1, THEN xw_close_reader(1)]
  note sync = xw_run_holds [OF assms(1,2), where gdm = gdm and fmt = fmt, THEN conjunct1, THEN xw_close_reader(2)]
  let ?H = "day_stored enc fmt (ops_entries ops)" and ?r = "xw_Close (xw_run enc gdm fmt ops dw_new)"
  have "\<exists>r'. xr_read date (Ok None) (dc_GetByTxid dec txid) ?r =
      Some (Ok (map_option (\<lambda>eb. xe_Data (fst eb)) (find (\<lambda>eb. xe_Txid (fst eb) = txid) (?H date))), r') \<and>
      xw.dw_holds dec gdm r' ?H \<and> xw.dw_synced r'"
    by (rule xr_read_holds [OF run sync]) (simp_all add: dc_GetByTxid_holds)
  then show "\<exists>r'. xr_GetByTxid dec date txid ?r = Some (Ok (newest_data fmt (ops_entries ops) date txid), r')"
    unfolding find_day_stored [where f = xe_Data and P = "\<lambda>e. xe_Txid e = txid"]
    by (auto simp: xr_GetByTxid_def newest_data_def)
  have "\<exists>r'. xr_read date (Ok []) (dc_ReadByGxid dec gxid) ?r =
      Some (Ok (map (\<lambda>eb. xe_Data (fst eb)) (filter (\<lambda>eb. xe_Gxid (fst eb) = gxid \<and> gxid \<noteq> 0) (?H date))), r') \<and>
      xw.dw_holds dec gdm r' ?H \<and> xw.dw_synced r'"
    by (rule xr_read_holds [OF run sync]) (simp_all add: dc_ReadByGxid_holds)
  then show "\<exists>r'. xr_ReadByGxid dec date gxid ?r = Some (Ok (gxid_data fmt (ops_entries ops) date gxid), r')"
    unfolding filter_day_stored [where f = xe_Data and P = "\<lambda>e. xe_Gxid e = gxid \<and> gxid \<noteq> 0"]
    by (auto simp: xr_ReadByGxid_def gxid_data_def)
qed

lemma xw_run_ReadByTime:
  assumes "\<And>d. dec (enc d) = Some d" and "ok_writes enc (ops_entries ops)"
    and "dw_days (xw_run enc gdm fmt ops dw_new) date \<noteq> None" and "sorts srt" and "local_day gdm mid" and "0 < sint stime"
    and "range_reach mid stime etime" and "\<forall>ce \<in> set (day_entries fmt (ops_entries ops) date). of_day mid (xe_Time (snd ce), [])"
  shows "\<exists>ys w'. mset ys = filter_mset (\<lambda>e. in_buckets mid stime etime (xe_Time e, []))
        (mset (map snd (day_entries fmt (ops_entries ops) date))) \<and>
    sorted (map (\<lambda>e. sint (xe_Time e)) ys) \<and>
    xw_ReadByTime dec gdm srt date stime etime handler s (xw_run enc gdm fmt ops dw_new) =
      Some (Some (pass_on handler (map xe_Data ys) s), w')"
proof -
  let ?es = "day_stored enc fmt (ops_entries ops) date"
  obtain c where c: "dw_days (xw_run enc gdm fmt ops dw_new) date = Some c" using assms(3) by blast
  note run = xw_run_holds [OF assms(1,2), where gdm = gdm and fmt = fmt]
  have fst: "map fst ?es = map snd (day_entries fmt (ops_entries ops) date)" by (simp add: day_stored_def xl_stored_def)
  have day: "\<forall>eb \<in> set ?es. of_day mid (xe_Time (fst eb), [])" using assms(8) by (simp add: day_stored_def xl_stored_def)
  from dc_ReadByTime_holds [OF xw_open [OF run [THEN conjunct1] run [THEN conjunct2] c] assms(4-7) day, of handler s]
  obtain ys c' where ys: "mset ys = filter_mset (\<lambda>eb. in_buckets mid stime etime (xe_Time (fst eb), [])) (mset ?es)"
    "sorted (map (\<lambda>eb. sint (xe_Time (fst eb))) ys)"
    "dc_ReadByTime dec gdm srt stime etime handler s c = Some (pass_on handler (map (\<lambda>eb. xe_Data (fst eb)) ys) s, c')" by blast
  have "mset (map fst ys) = filter_mset (\<lambda>e. in_buckets mid stime etime (xe_Time e, [])) (mset (map fst ?es))"
    using ys(1) by (simp add: filter_mset_image_mset comp_def)
  moreover have "sorted (map (\<lambda>e. sint (xe_Time e)) (map fst ys))" using ys(2) by (simp add: comp_def)
  moreover have "xw_ReadByTime dec gdm srt date stime etime handler s (xw_run enc gdm fmt ops dw_new) =
      Some (Some (pass_on handler (map xe_Data (map fst ys)) s), dw_set date c' (xw_run enc gdm fmt ops dw_new))"
    using dw_read_Some [where f = "dc_ReadByTime dec gdm srt stime etime handler s", OF c ys(3)]
    by (simp add: xw_ReadByTime_def comp_def)
  ultimately show ?thesis unfolding fst by blast
qed

end
