(* ===== verification/AlertDb.thy ===== *)
theory AlertDb
  imports DayStore IndexTimeFile
begin

text \<open>
  internal/db/alert and internal/db/summary: per day, and for the summaries per type, a time index and a
  data file of entries behind a 16 bit length; a writer with a queue and a reader. The two packages have
  the same code but for the names of the files; a summary of a type that has no name of its own shares
  its files with all such types, which is not modelled: the types here are those with a name.

  \<open>gdm\<close> and \<open>srt\<close> are as in the time index, \<open>fmt\<close> is \<open>FormatDate\<close>.
\<close>

subsection \<open>The container of a day\<close>

record AlertData =
  ad_index :: IndexTimeFile
  ad_data :: RealDataFile

record alert_files =
  af_index :: "bytes option \<times> bytes"
  af_data :: bytes

definition no_alert_files :: alert_files where
  "no_alert_files = \<lparr>af_index = (None, []), af_data = []\<rparr>"

definition NewAlertData :: "alert_files \<Rightarrow> AlertData" where
  "NewAlertData fs = \<lparr>ad_index = NewIndexTimeFile (fst (af_index fs)) (snd (af_index fs)), ad_data = NewRealDataFile (af_data fs)\<rparr>"

definition ad_Write :: "(i64 \<Rightarrow> nat) \<Rightarrow> i64 \<Rightarrow> bytes \<Rightarrow> AlertData \<Rightarrow> unit res \<times> AlertData" where
  "ad_Write gdm timeMs alertBytes ad =
     (let (offset, f) = rd_Write (PutUint16 (word_of_nat (length alertBytes))) (ad_data ad);
          (_, f) = rd_Write alertBytes f;
          (r, t) = it_Put gdm timeMs (Some (Bytes5 (word_of_nat offset))) (ad_index ad)
      in (res_bind r (\<lambda>_. Ok ()), \<lparr>ad_index = t, ad_data = f\<rparr>))"

text \<open>\<open>Read\<close> of a file returns what there is, so an entry that is cut off is filled with zeros.\<close>

definition readEntryAt :: "bytes \<Rightarrow> i64 \<Rightarrow> bytes res" where
  "readEntryAt disk offset =
     (if sint offset < 0 then Err (ErrText ''negative offset'')
      else res_bind (file_read disk (nat (sint offset)) 2) (\<lambda>(lenBuf, pos).
        res_bind (file_read disk pos (unat (Uint16 lenBuf))) (\<lambda>(data, _). Ok data)))"

definition ad_item :: "bytes \<Rightarrow> (i64 \<Rightarrow> bytes \<Rightarrow> 'x \<Rightarrow> 'x) \<Rightarrow> timed \<Rightarrow> 'x \<Rightarrow> bool res \<times> 'x" where
  "ad_item disk handler item s =
     (if length (snd item) < 5 then (Panic IndexOutOfRange, s)
      else case readEntryAt disk (Int5 (snd item)) of Ok raw \<Rightarrow> (Ok True, handler (fst item) raw s) | _ \<Rightarrow> (Ok True, s))"

definition ad_ReadRange :: "(i64 \<Rightarrow> nat) \<Rightarrow> (timed list \<Rightarrow> timed list) \<Rightarrow> i64 \<Rightarrow> i64 \<Rightarrow> (i64 \<Rightarrow> bytes \<Rightarrow> 'x \<Rightarrow> 'x) \<Rightarrow> 'x \<Rightarrow>
    AlertData \<Rightarrow> ((unit res \<times> 'x) \<times> AlertData) option" where
  "ad_ReadRange gdm srt stime etime handler s ad =
     map_option (\<lambda>(r, s', t). ((r, s'), ad\<lparr>ad_index := t\<rparr>))
       (it_Read gdm srt stime etime (ad_item (rd_disk (ad_data ad)) handler) s (ad_index ad))"

definition ad_Flush :: "AlertData \<Rightarrow> AlertData" where
  "ad_Flush ad = ad\<lparr>ad_data := rd_Flush (ad_data ad)\<rparr>"

definition ad_Close :: "AlertData \<Rightarrow> AlertData" where
  "ad_Close ad = \<lparr>ad_index = it_Close (ad_index ad), ad_data = rd_Close (ad_data ad)\<rparr>"

definition ad_files :: "AlertData \<Rightarrow> alert_files" where
  "ad_files ad = \<lparr>af_index = (mt_file (it_timeBlockHash (ad_index ad)), kf_disk (it_keyFile (ad_index ad))),
     af_data = rd_disk (ad_data ad)\<rparr>"

subsection \<open>The alert writer and reader\<close>

record AlertEntry =
  ae_TimeMs :: i64
  ae_Data :: bytes

type_synonym AlertWR = "(string, AlertData, alert_files) DayWriter"

definition alertQueueSize :: nat where "alertQueueSize = 10000"

definition ad_write :: "(i64 \<Rightarrow> nat) \<Rightarrow> AlertEntry \<Rightarrow> AlertData \<Rightarrow> unit res \<times> AlertData" where
  "ad_write gdm e ad = (let (r, ad) = ad_Write gdm (ae_TimeMs e) (ae_Data e) ad in (no_error r, ad))"

text \<open>\<open>Flush\<close> and \<open>Close\<close>, and the files that are left.\<close>

definition ad_shut :: "AlertData \<Rightarrow> alert_files" where
  "ad_shut ad = ad_files (ad_Close (ad_Flush ad))"

definition aw_getContainer :: "string \<Rightarrow> AlertWR \<Rightarrow> AlertData \<times> AlertWR" where
  "aw_getContainer = dw_getContainer NewAlertData no_alert_files"

definition aw_process :: "(i64 \<Rightarrow> nat) \<Rightarrow> (i64 \<Rightarrow> string) \<Rightarrow> AlertEntry \<Rightarrow> AlertWR \<Rightarrow> unit res \<times> AlertWR" where
  "aw_process gdm fmt e = dw_process NewAlertData no_alert_files (ad_write gdm) (fmt (ae_TimeMs e)) e"

definition aw_Add :: "AlertEntry \<Rightarrow> AlertEntry list \<Rightarrow> AlertEntry list" where
  "aw_Add = enqueue alertQueueSize"

definition aw_PurgeOldDays :: "(string \<Rightarrow> bool) \<Rightarrow> AlertWR \<Rightarrow> AlertWR" where
  "aw_PurgeOldDays keep = dw_purge ad_shut keep"

definition aw_Close :: "AlertWR \<Rightarrow> AlertWR" where
  "aw_Close = dw_close ad_shut"

definition ar_getContainer :: "string \<Rightarrow> AlertWR \<Rightarrow> AlertData option \<times> AlertWR" where
  "ar_getContainer = dw_getReader NewAlertData"

definition ar_ReadRange :: "(i64 \<Rightarrow> nat) \<Rightarrow> (timed list \<Rightarrow> timed list) \<Rightarrow> string \<Rightarrow> i64 \<Rightarrow> i64 \<Rightarrow> (bytes \<Rightarrow> 'x \<Rightarrow> 'x) \<Rightarrow> 'x \<Rightarrow>
    AlertWR \<Rightarrow> ((unit res \<times> 'x) \<times> AlertWR) option" where
  "ar_ReadRange gdm srt date stime etime handler s r = (case ar_getContainer date r of
     (None, r') \<Rightarrow> Some ((Ok (), s), r')
   | (Some c, r') \<Rightarrow> map_option (\<lambda>(y, c'). (y, dw_set date c' r')) (ad_ReadRange gdm srt stime etime (\<lambda>t. handler) s c))"

definition ar_PurgeOldDays :: "(string \<Rightarrow> bool) \<Rightarrow> AlertWR \<Rightarrow> AlertWR" where
  "ar_PurgeOldDays keep r = r\<lparr>dw_days := (\<lambda>k. if keep k then dw_days r k else None)\<rparr>"

definition ar_Close :: "AlertWR \<Rightarrow> AlertWR" where
  "ar_Close r = r\<lparr>dw_days := (\<lambda>_. None)\<rparr>"

subsection \<open>What a container holds\<close>

type_synonym timed_entry = "i64 \<times> bytes"

definition al_frame :: "timed_entry \<Rightarrow> bytes" where
  "al_frame e = PutUint16 (word_of_nat (length (snd e))) @ snd e"

definition al_hist :: "timed_entry list \<Rightarrow> time_history" where
  "al_hist es = map (\<lambda>(e, p). (False, fst e, p)) (log_places al_frame es)"

definition al_fits :: "timed_entry list \<Rightarrow> bool" where
  "al_fits es \<longleftrightarrow> length es \<le> 2 ^ 34 \<and> length (log_image al_frame es) < 2 ^ 39 \<and>
     (\<forall>e \<in> set es. 0 < sint (fst e) \<and> length (snd e) < 2 ^ 16)"

definition ad_holds :: "(i64 \<Rightarrow> nat) \<Rightarrow> AlertData \<Rightarrow> timed_entry list \<Rightarrow> bool" where
  "ad_holds gdm ad es \<longleftrightarrow> it_ready gdm (ad_index ad) (al_hist es) \<and> rd_inv (ad_data ad) \<and>
     rd_content (ad_data ad) = log_image al_frame es \<and> al_fits es"

definition ad_synced :: "AlertData \<Rightarrow> bool" where
  "ad_synced ad \<longleftrightarrow> rd_writer (ad_data ad) = []"

definition al_stored :: "AlertEntry \<Rightarrow> timed_entry" where
  "al_stored e = (ae_TimeMs e, ae_Data e)"

lemma al_hist_size: "time_hist_size (al_hist es) = 2 + 22 * length es"
proof -
  have "(\<Sum>x\<leftarrow>log_places al_frame es. 16 + blob_head (snd x) + length (snd x)) = (\<Sum>x\<leftarrow>log_places al_frame es. 22)"
    by (intro arg_cong [of _ _ sum_list] map_cong) (auto simp: blob_head_def dest: log_place_length)
  moreover have "length (log_places al_frame es) = length es" by (metis length_map log_places_fst)
  ultimately show ?thesis
    by (simp add: time_hist_size_def al_hist_def comp_def case_prod_unfold FirstPos_def kfileHeaderSize_def sum_list_triv)
qed

lemma ad_Write_holds:
  assumes "ad_holds gdm ad es" and "al_fits ((t, d) # es)"
  shows "\<exists>ad'. ad_Write gdm t d ad = (Ok (), ad') \<and> ad_holds gdm ad' ((t, d) # es)"
proof -
  let ?n = "length (log_image al_frame es)" and ?f = "ad_data ad" and ?es = "(t, d) # es"
  have fit: "length ?es \<le> 2 ^ 34" "0 < sint t" using assms(2) by (simp_all add: al_fits_def)
  then have size: "time_hist_size (al_hist ?es) \<le> 2 ^ 39" by (simp add: al_hist_size)
  have hist: "al_hist ?es = (False, t, Bytes5 (word_of_nat ?n)) # al_hist es" by (simp add: al_hist_def)
  have ready: "it_ready gdm (ad_index ad) (al_hist es)" using assms(1) by (simp add: ad_holds_def)
  have blob: "ok_blob (Bytes5 (word_of_nat ?n))" by (simp add: ok_blob_def)
  obtain i where i: "it_Put gdm t (Some (Bytes5 (word_of_nat ?n))) (ad_index ad) = (Ok (time_hist_size (al_hist es)), i)"
    "it_ready gdm i (al_hist ?es)"
    using it_Put_ready [OF ready fit(2) blob] size unfolding hist by blast
  have rd: "rd_inv ?f" "rd_content ?f = log_image al_frame es" using assms(1) by (simp_all add: ad_holds_def)
  obtain f1 where f1: "rd_Write (PutUint16 (word_of_nat (length d))) ?f = (?n, f1)" "rd_inv f1"
    "rd_content f1 = log_image al_frame es @ PutUint16 (word_of_nat (length d))"
    using rd_Write_content [OF rd(1), of "PutUint16 (word_of_nat (length d))"] rd(2)
    by (cases "rd_Write (PutUint16 (word_of_nat (length d))) ?f") simp
  obtain p f2 where f2: "rd_Write d f1 = (p, f2)" "rd_inv f2" "rd_content f2 = log_image al_frame ?es"
    using rd_Write_content [OF f1(2), of d] f1(3) by (cases "rd_Write d f1") (simp add: al_frame_def)
  show ?thesis using i f1(1) f2 assms(2) by (simp add: ad_Write_def ad_holds_def)
qed

lemma ad_write_holds:
  assumes "ad_holds gdm ad es" and "al_fits (al_stored e # es)"
  shows "\<exists>ad'. ad_write gdm e ad = (Ok (), ad') \<and> ad_holds gdm ad' (al_stored e # es)"
  using ad_Write_holds [OF assms(1), of "ae_TimeMs e" "ae_Data e"] assms(2)
  by (auto simp: ad_write_def al_stored_def no_error_def)

lemma ad_open_new: "ad_holds gdm (NewAlertData no_alert_files) []"
  using it_new_ready by (simp add: ad_holds_def NewAlertData_def no_alert_files_def al_hist_def al_fits_def)

lemma ad_reopen_holds:
  assumes "ad_holds gdm ad es"
  shows "ad_holds gdm (NewAlertData (ad_shut ad)) es"
proof -
  have "ad_index (NewAlertData (ad_shut ad)) = it_reopen (ad_index ad)"
    by (simp add: NewAlertData_def ad_shut_def ad_files_def ad_Close_def ad_Flush_def it_reopen_def Let_def)
  moreover have "ad_data (NewAlertData (ad_shut ad)) = NewRealDataFile (rd_content (ad_data ad))"
    by (simp add: NewAlertData_def ad_shut_def ad_files_def ad_Close_def ad_Flush_def rd_Close_def)
  ultimately show ?thesis using assms it_reopen_ready by (simp add: ad_holds_def)
qed

interpretation aw: day_store NewAlertData ad_shut no_alert_files "ad_write gdm" ad_Flush "ad_holds gdm" ad_synced al_stored al_fits
  for gdm :: "i64 \<Rightarrow> nat"
proof unfold_locales
  show "ad_synced (NewAlertData f)" "ad_synced (ad_Flush c)" for f c
    by (simp_all add: ad_synced_def NewAlertData_def NewRealDataFile_def ad_Flush_def rd_Flush_def)
  show "ad_holds gdm c es \<Longrightarrow> ad_holds gdm (ad_Flush c) es" for c es
    by (simp add: ad_holds_def ad_Flush_def)
qed (rule ad_open_new ad_reopen_holds ad_write_holds; assumption)+

subsection \<open>What a read returns\<close>

lemma readEntryAt_frame:
  assumes "length (snd e) < 2 ^ 16" and "sint p = int (length pre)"
  shows "readEntryAt (pre @ al_frame e @ post) p = Ok (snd e)"
proof -
  have n: "unat (word_of_nat (length (snd e)) :: i16) = length (snd e)" using assms(1) by (simp add: unat_of_nat)
  have "file_read (pre @ al_frame e @ post) (length pre) 2 = Ok (PutUint16 (word_of_nat (length (snd e))), length pre + 2)"
    using file_read_part [of "length pre" pre 2 "PutUint16 (word_of_nat (length (snd e)))"] by (simp add: al_frame_def)
  moreover have "file_read (pre @ al_frame e @ post) (length pre + 2) (length (snd e)) = Ok (snd e, length pre + 2 + length (snd e))"
    using file_read_part [of "length pre + 2" "pre @ PutUint16 (word_of_nat (length (snd e)))" "length (snd e)" "snd e" post]
    by (simp add: al_frame_def)
  ultimately show ?thesis using n assms(2) by (simp add: readEntryAt_def)
qed

lemma readEntryAt_place:
  assumes "ad_holds gdm ad es" and "ad_synced ad" and "(e, p) \<in> set (log_places al_frame es)"
  shows "readEntryAt (rd_disk (ad_data ad)) (Int5 p) = Ok (snd e)"
proof -
  have fits: "al_fits es" "rd_disk (ad_data ad) = log_image al_frame es"
    using assms(1,2) by (simp_all add: ad_holds_def ad_synced_def rd_content_def)
  have "e \<in> set es" using assms(3) log_places_fst [of al_frame es] by (metis fst_conv image_eqI set_map)
  then have "length (snd e) < 2 ^ 16" using fits(1) by (simp add: al_fits_def)
  moreover obtain pre post where "log_image al_frame es = pre @ al_frame e @ post" "sint (Int5 p) = int (length pre)"
    using log_place [OF assms(3)] fits(1) by (auto simp: al_fits_def)
  ultimately show ?thesis using readEntryAt_frame fits(2) by simp
qed

lemma deliver_ad_item:
  assumes "ad_holds gdm ad es" and "ad_synced ad" and "set ys \<subseteq> set (log_places al_frame es)"
  shows "deliver (ad_item (rd_disk (ad_data ad)) handler) (map (\<lambda>(e, p). (fst e, p)) ys) s =
    (Ok True, fold (\<lambda>e. handler (fst e) (snd e)) (map fst ys) s)"
  using assms(3)
proof (induction ys arbitrary: s)
  case (Cons x ys)
  obtain e p where x: "x = (e, p)" by (cases x)
  with Cons.prems have "(e, p) \<in> set (log_places al_frame es)" by simp
  note read = readEntryAt_place [OF assms(1,2) this] log_place_length [OF this]
  then have "ad_item (rd_disk (ad_data ad)) handler (fst e, p) s = (Ok True, handler (fst e) (snd e) s)"
    by (simp add: ad_item_def)
  then show ?case using Cons by (simp add: x)
qed simp

lemma ad_ReadRange_holds:
  assumes "ad_holds gdm ad es" and "ad_synced ad" and "sorts srt" and "local_day gdm mid" and "0 < sint stime"
    and "range_reach mid stime etime" and "\<forall>e \<in> set es. of_day mid (fst e, [])"
  shows "\<exists>ys ad'. mset ys = filter_mset (\<lambda>e. in_buckets mid stime etime (fst e, [])) (mset es) \<and>
    sorted (map (\<lambda>e. sint (fst e)) ys) \<and>
    ad_ReadRange gdm srt stime etime handler s ad = Some ((Ok (), fold (\<lambda>e. handler (fst e) (snd e)) ys s), ad') \<and>
    ad_holds gdm ad' es \<and> ad_synced ad'"
proof -
  let ?h = "al_hist es" and ?f = "\<lambda>(e, p). (fst e, p :: bytes)" and ?ps = "log_places al_frame es"
  have ready: "it_ready gdm (ad_index ad) ?h" using assms(1) by (simp add: ad_holds_def)
  then have holds: "it_holds gdm (ad_index ad) ?h" by (simp add: it_ready_def)
  have und: "undeleted ?h = map ?f ?ps"
    by (simp add: undeleted_def al_hist_def filter_map comp_def case_prod_unfold)
  have "fst x \<in> set es" if "x \<in> set ?ps" for x using that log_places_fst by (metis image_eqI set_map)
  then have day: "\<forall>x \<in> set (undeleted ?h). of_day mid x" using assms(7) unfolding und by (fastforce simp: of_day_def)
  let ?item = "ad_item (rd_disk (ad_data ad)) handler"
  obtain xs t where xs: "mset xs = filter_mset (in_buckets mid stime etime) (mset (undeleted ?h))" "sorted (map (\<lambda>x. sint (fst x)) xs)"
    "it_Read gdm srt stime etime ?item s (ad_index ad) =
      Some (res_bind (fst (deliver ?item xs s)) (\<lambda>_. Ok ()), snd (deliver ?item xs s), t)" "it_holds gdm t ?h"
    using it_Read_complete [OF holds assms(3-6) day, of ?item s] by blast
  let ?ad = "ad\<lparr>ad_index := t\<rparr>"
  have ad: "ad_holds gdm ?ad es" "ad_synced ?ad"
    using assms(1,2) it_Read_ready [OF ready xs(3,4)] by (simp_all add: ad_holds_def ad_synced_def)
  have "mset xs = image_mset ?f (filter_mset (\<lambda>x. in_buckets mid stime etime (fst (fst x), [])) (mset ?ps))"
    using xs(1) by (simp add: und filter_mset_image_mset in_buckets_def case_prod_unfold comp_def)
  from permuted_map [OF this] obtain ys where ys:
    "mset ys = filter_mset (\<lambda>x. in_buckets mid stime etime (fst (fst x), [])) (mset ?ps)" "map ?f ys = xs" by blast
  have "set ys \<subseteq> set ?ps" using ys(1) by (metis filter_is_subset mset_filter set_mset_mset)
  note item = deliver_ad_item [OF assms(1,2) this, of handler s, unfolded ys(2)]
  have "mset (map fst ys) = filter_mset (\<lambda>e. in_buckets mid stime etime (fst e, [])) (mset (map fst ?ps))"
    using ys(1) by (simp add: filter_mset_image_mset comp_def del: log_places_fst)
  moreover have "sorted (map (\<lambda>e. sint (fst e)) (map fst ys))"
    using xs(2) unfolding ys(2) [symmetric] by (simp add: comp_def case_prod_unfold)
  moreover have "ad_ReadRange gdm srt stime etime handler s ad = Some ((Ok (), fold (\<lambda>e. handler (fst e) (snd e)) (map fst ys) s), ?ad)"
    using xs(3) item by (simp add: ad_ReadRange_def)
  ultimately show ?thesis using ad by (intro exI [of _ "map fst ys"]) auto
qed

subsection \<open>The alerts after any writes and purges\<close>

fun aw_do :: "(i64 \<Rightarrow> nat) \<Rightarrow> (i64 \<Rightarrow> string) \<Rightarrow> AlertEntry day_op \<Rightarrow> AlertWR \<Rightarrow> AlertWR" where
  "aw_do gdm fmt (DayWrite e) w = snd (aw_process gdm fmt e w)"
| "aw_do gdm fmt (DayPurge keep) w = aw_PurgeOldDays keep w"

definition alerts_of :: "(i64 \<Rightarrow> string) \<Rightarrow> AlertEntry day_op list \<Rightarrow> string \<Rightarrow> AlertEntry list" where
  "alerts_of fmt = day_log (\<lambda>e. fmt (ae_TimeMs e))"

text \<open>What can be stored: positive times, at most 65535 bytes, and files within the 5 byte positions.\<close>

definition ok_alerts :: "AlertEntry day_op list \<Rightarrow> bool" where
  "ok_alerts ops \<longleftrightarrow> (\<forall>e \<in> set (day_writes ops). 0 < sint (ae_TimeMs e) \<and> length (ae_Data e) < 2 ^ 16) \<and>
     length (day_writes ops) \<le> 2 ^ 20"

lemma al_fits_suffix: "al_fits (es @ es') \<Longrightarrow> al_fits es'"
proof (induction es)
  case (Cons e es)
  then show ?case by (simp add: al_fits_def)
qed simp

lemma al_image_bound: "\<forall>e \<in> set es. length (snd e) < 2 ^ 16 \<Longrightarrow> length (log_image al_frame es) \<le> length es * 65538"
  by (induction es) (auto simp: al_frame_def)

lemma al_log_fits:
  assumes "\<forall>e \<in> set (day_writes ops). 0 < sint (fst (g e)) \<and> length (snd (g e)) < 2 ^ 16" and "length (day_writes ops) \<le> 2 ^ 20"
  shows "al_fits (map g (day_log key ops k))"
proof -
  let ?es = "map g (day_log key ops k)"
  have "length ?es \<le> 2 ^ 20"
    using assms(2) order_trans [OF length_filter_le [of "\<lambda>e. key e = k" "day_writes ops"]] by (simp add: day_log_def)
  moreover have small: "\<forall>e \<in> set ?es. 0 < sint (fst e) \<and> length (snd e) < 2 ^ 16" using assms(1) by (auto simp: day_log_def)
  moreover from small have "length (log_image al_frame ?es) \<le> length ?es * 65538" by (intro al_image_bound) blast
  ultimately show ?thesis by (auto simp: al_fits_def)
qed

lemma aw_run_holds:
  assumes "ok_alerts ops"
  shows "aw.dw_holds gdm (fold (aw_do gdm fmt) ops dw_new) (\<lambda>date. map al_stored (alerts_of fmt ops date))"
  unfolding alerts_of_def
proof (rule aw.dw_ops_holds [where keeps = "\<lambda>keep. keep"])
  show "aw_do gdm fmt op w = (case op of
      DayWrite e \<Rightarrow> snd (dw_process NewAlertData no_alert_files (ad_write gdm) (fmt (ae_TimeMs e)) e w)
    | DayPurge keep \<Rightarrow> dw_purge ad_shut keep w)" for op w
    by (cases op) (simp_all add: aw_process_def aw_PurgeOldDays_def)
  show "al_fits (map al_stored (day_log (\<lambda>e. fmt (ae_TimeMs e)) ops k))" for k
    using assms by (intro al_log_fits) (auto simp: ok_alerts_def al_stored_def)
qed (rule al_fits_suffix)

text \<open>A read by a reader, whatever the key of the containers.\<close>

lemma ar_read_holds:
  assumes "aw.dw_holds gdm r H" and "aw.dw_synced r" and "sorts srt" and "local_day gdm mid" and "0 < sint stime"
    and "range_reach mid stime etime" and "\<forall>e \<in> set (H k). of_day mid (fst e, [])"
  shows "\<exists>ys r'. mset ys = filter_mset (\<lambda>e. in_buckets mid stime etime (fst e, [])) (mset (H k)) \<and>
    sorted (map (\<lambda>e. sint (fst e)) ys) \<and>
    (case dw_getReader NewAlertData k r of
       (None, r') \<Rightarrow> Some ((Ok (), s), r')
     | (Some c, r') \<Rightarrow> map_option (\<lambda>(y, c'). (y, dw_set k c' r')) (ad_ReadRange gdm srt stime etime handler s c)) =
      Some ((Ok (), fold (\<lambda>e. handler (fst e) (snd e)) ys s), r')"
proof -
  obtain c r1 where r1: "dw_getReader NewAlertData k r = (c, r1)"
    "case c of None \<Rightarrow> H k = [] | Some c \<Rightarrow> ad_holds gdm c (H k) \<and> ad_synced c"
    using aw.dw_getReader_holds [OF assms(1,2), of k] by blast
  show ?thesis
  proof (cases c)
    case None
    then show ?thesis using r1 by (intro exI [of _ "[]"]) simp
  next
    case (Some c0)
    then have "ad_holds gdm c0 (H k)" "ad_synced c0" using r1(2) by simp_all
    from ad_ReadRange_holds [OF this assms(3-7), of handler s] show ?thesis using r1(1) Some by fastforce
  qed
qed

lemma alerts_after_close:
  assumes "ok_alerts ops" and "sorts srt" and "local_day gdm mid" and "0 < sint stime" and "range_reach mid stime etime"
    and "\<forall>e \<in> set (alerts_of fmt ops date). of_day mid (ae_TimeMs e, [])"
  shows "\<exists>ys r'. mset ys = filter_mset (\<lambda>e. in_buckets mid stime etime (ae_TimeMs e, [])) (mset (alerts_of fmt ops date)) \<and>
    sorted (map (\<lambda>e. sint (ae_TimeMs e)) ys) \<and>
    ar_ReadRange gdm srt date stime etime handler s (aw_Close (fold (aw_do gdm fmt) ops dw_new)) =
      Some ((Ok (), fold handler (map ae_Data ys) s), r')"
proof -
  note close = aw.dw_close_reader [OF aw_run_holds [OF assms(1)]]
  have "\<forall>e \<in> set (map al_stored (alerts_of fmt ops date)). of_day mid (fst e, [])" using assms(6) by (simp add: al_stored_def)
  from ar_read_holds [where handler = "\<lambda>t. handler" and s = s, OF close assms(2-5) this] obtain xs r' where
    xs: "mset xs = filter_mset (\<lambda>e. in_buckets mid stime etime (fst e, [])) (mset (map al_stored (alerts_of fmt ops date)))"
    "sorted (map (\<lambda>e. sint (fst e)) xs)"
    "ar_ReadRange gdm srt date stime etime handler s (aw_Close (fold (aw_do gdm fmt) ops dw_new)) =
      Some ((Ok (), fold (\<lambda>e. handler (snd e)) xs s), r')"
    by (auto simp: ar_ReadRange_def ar_getContainer_def aw_Close_def)
  from xs(1) have "mset xs = image_mset al_stored (filter_mset (\<lambda>e. in_buckets mid stime etime (ae_TimeMs e, [])) (mset (alerts_of fmt ops date)))"
    by (simp add: filter_mset_image_mset al_stored_def comp_def)
  from permuted_map [OF this] obtain ys where
    ys: "mset ys = filter_mset (\<lambda>e. in_buckets mid stime etime (ae_TimeMs e, [])) (mset (alerts_of fmt ops date))" "map al_stored ys = xs"
    by blast
  have "sorted (map (\<lambda>e. sint (ae_TimeMs e)) ys)"
    using xs(2) unfolding ys(2) [symmetric] by (simp add: al_stored_def comp_def)
  moreover have "fold (\<lambda>e. handler (snd e)) xs s = fold handler (map ae_Data ys) s"
    unfolding ys(2) [symmetric] by (simp add: fold_map al_stored_def comp_def)
  ultimately show ?thesis using ys(1) xs(3) by auto
qed

subsection \<open>The summaries\<close>

definition formatFileName :: "byte \<Rightarrow> string" where
  "formatFileName stype =
     (case map_of [(1, ''summary_app''), (2, ''summary_sql''), (3, ''summary_apicall''), (4, ''summary_ip''), (5, ''summary_ua''),
        (6, ''summary_error''), (7, ''summary_alert'')] stype of
        Some name \<Rightarrow> name | None \<Rightarrow> ''summary_unknown'')"

lemma summary_files_distinct:
  "formatFileName s = formatFileName t \<longleftrightarrow> s = t \<or> (s \<notin> {1..7} \<and> t \<notin> {1..7})"
proof -
  have r: "x \<in> {1..7} \<longleftrightarrow> x \<in> {1, 2, 3, 4, 5, 6, 7}" for x :: byte
  proof
    assume "x \<in> {1..7}"
    then have "unat x \<in> {1..7}" by (auto simp: word_le_nat_alt)
    then have "unat x \<in> set [1, 2, 3, 4, 5, 6, 7]" by auto
    then show "x \<in> {1, 2, 3, 4, 5, 6, 7}" by (auto simp: word_unat_eq_iff)
  qed auto
  show ?thesis unfolding r by (auto simp: formatFileName_def)
qed

record SummaryData =
  sd_index :: IndexTimeFile
  sd_data :: RealDataFile

definition NewSummaryData :: "alert_files \<Rightarrow> SummaryData" where
  "NewSummaryData fs = \<lparr>sd_index = NewIndexTimeFile (fst (af_index fs)) (snd (af_index fs)), sd_data = NewRealDataFile (af_data fs)\<rparr>"

definition sd_Write :: "(i64 \<Rightarrow> nat) \<Rightarrow> i64 \<Rightarrow> bytes \<Rightarrow> SummaryData \<Rightarrow> unit res \<times> SummaryData" where
  "sd_Write gdm timeMs summaryBytes sd =
     (let (offset, f) = rd_Write (PutUint16 (word_of_nat (length summaryBytes))) (sd_data sd);
          (_, f) = rd_Write summaryBytes f;
          (r, t) = it_Put gdm timeMs (Some (Bytes5 (word_of_nat offset))) (sd_index sd)
      in (res_bind r (\<lambda>_. Ok ()), \<lparr>sd_index = t, sd_data = f\<rparr>))"

definition sd_ReadRange :: "(i64 \<Rightarrow> nat) \<Rightarrow> (timed list \<Rightarrow> timed list) \<Rightarrow> i64 \<Rightarrow> i64 \<Rightarrow> (i64 \<Rightarrow> bytes \<Rightarrow> 'x \<Rightarrow> 'x) \<Rightarrow> 'x \<Rightarrow>
    SummaryData \<Rightarrow> ((unit res \<times> 'x) \<times> SummaryData) option" where
  "sd_ReadRange gdm srt stime etime handler s sd =
     map_option (\<lambda>(r, s', t). ((r, s'), sd\<lparr>sd_index := t\<rparr>))
       (it_Read gdm srt stime etime (ad_item (rd_disk (sd_data sd)) handler) s (sd_index sd))"

definition sd_Flush :: "SummaryData \<Rightarrow> SummaryData" where
  "sd_Flush sd = sd\<lparr>sd_data := rd_Flush (sd_data sd)\<rparr>"

definition sd_Close :: "SummaryData \<Rightarrow> SummaryData" where
  "sd_Close sd = \<lparr>sd_index = it_Close (sd_index sd), sd_data = rd_Close (sd_data sd)\<rparr>"

definition sd_shut :: "SummaryData \<Rightarrow> alert_files" where
  "sd_shut sd = (let sd = sd_Close (sd_Flush sd) in
     \<lparr>af_index = (mt_file (it_timeBlockHash (sd_index sd)), kf_disk (it_keyFile (sd_index sd))), af_data = rd_disk (sd_data sd)\<rparr>)"

record SummaryEntry =
  se_TimeMs :: i64
  se_SType :: byte
  se_Data :: bytes

type_synonym SummaryWR = "(string \<times> byte, SummaryData, alert_files) DayWriter"

definition summaryQueueSize :: nat where "summaryQueueSize = 10000"

definition sd_write :: "(i64 \<Rightarrow> nat) \<Rightarrow> SummaryEntry \<Rightarrow> SummaryData \<Rightarrow> unit res \<times> SummaryData" where
  "sd_write gdm e sd = (let (r, sd) = sd_Write gdm (se_TimeMs e) (se_Data e) sd in (no_error r, sd))"

definition sw_getContainer :: "string \<Rightarrow> byte \<Rightarrow> SummaryWR \<Rightarrow> SummaryData \<times> SummaryWR" where
  "sw_getContainer date stype = dw_getContainer NewSummaryData no_alert_files (date, stype)"

definition sw_process :: "(i64 \<Rightarrow> nat) \<Rightarrow> (i64 \<Rightarrow> string) \<Rightarrow> SummaryEntry \<Rightarrow> SummaryWR \<Rightarrow> unit res \<times> SummaryWR" where
  "sw_process gdm fmt e = dw_process NewSummaryData no_alert_files (sd_write gdm) (fmt (se_TimeMs e), se_SType e) e"

definition sw_Add :: "SummaryEntry \<Rightarrow> SummaryEntry list \<Rightarrow> SummaryEntry list" where
  "sw_Add = enqueue summaryQueueSize"

definition sw_PurgeOldDays :: "(string \<Rightarrow> bool) \<Rightarrow> SummaryWR \<Rightarrow> SummaryWR" where
  "sw_PurgeOldDays keep = dw_purge sd_shut (\<lambda>(date, stype). keep date)"

definition sw_Close :: "SummaryWR \<Rightarrow> SummaryWR" where
  "sw_Close = dw_close sd_shut"

definition sr_getContainer :: "string \<Rightarrow> byte \<Rightarrow> SummaryWR \<Rightarrow> SummaryData option \<times> SummaryWR" where
  "sr_getContainer date stype = dw_getReader NewSummaryData (date, stype)"

definition sr_ReadRangeWithTime :: "(i64 \<Rightarrow> nat) \<Rightarrow> (timed list \<Rightarrow> timed list) \<Rightarrow> string \<Rightarrow> byte \<Rightarrow> i64 \<Rightarrow> i64 \<Rightarrow>
    (i64 \<Rightarrow> bytes \<Rightarrow> 'x \<Rightarrow> 'x) \<Rightarrow> 'x \<Rightarrow> SummaryWR \<Rightarrow> ((unit res \<times> 'x) \<times> SummaryWR) option" where
  "sr_ReadRangeWithTime gdm srt date stype stime etime handler s r = (case sr_getContainer date stype r of
     (None, r') \<Rightarrow> Some ((Ok (), s), r')
   | (Some c, r') \<Rightarrow> map_option (\<lambda>(y, c'). (y, dw_set (date, stype) c' r')) (sd_ReadRange gdm srt stime etime handler s c))"

definition sr_ReadRange :: "(i64 \<Rightarrow> nat) \<Rightarrow> (timed list \<Rightarrow> timed list) \<Rightarrow> string \<Rightarrow> byte \<Rightarrow> i64 \<Rightarrow> i64 \<Rightarrow>
    (bytes \<Rightarrow> 'x \<Rightarrow> 'x) \<Rightarrow> 'x \<Rightarrow> SummaryWR \<Rightarrow> ((unit res \<times> 'x) \<times> SummaryWR) option" where
  "sr_ReadRange gdm srt date stype stime etime handler s r = (case sr_getContainer date stype r of
     (None, r') \<Rightarrow> Some ((Ok (), s), r')
   | (Some c, r') \<Rightarrow> map_option (\<lambda>(y, c'). (y, dw_set (date, stype) c' r')) (sd_ReadRange gdm srt stime etime (\<lambda>t. handler) s c))"

definition sr_PurgeOldDays :: "(string \<Rightarrow> bool) \<Rightarrow> SummaryWR \<Rightarrow> SummaryWR" where
  "sr_PurgeOldDays keep r = r\<lparr>dw_days := (\<lambda>k. if keep (fst k) then dw_days r k else None)\<rparr>"

definition sr_Close :: "SummaryWR \<Rightarrow> SummaryWR" where
  "sr_Close r = r\<lparr>dw_days := (\<lambda>_. None)\<rparr>"

text \<open>The containers are those of the alerts under other names.\<close>

definition sd_alert :: "SummaryData \<Rightarrow> AlertData" where
  "sd_alert sd = \<lparr>ad_index = sd_index sd, ad_data = sd_data sd\<rparr>"

lemma sd_alert_simps:
  "sd_alert (NewSummaryData fs) = NewAlertData fs" "sd_shut sd = ad_shut (sd_alert sd)" "sd_alert (sd_Flush sd) = ad_Flush (sd_alert sd)"
  by (simp_all add: sd_alert_def NewSummaryData_def NewAlertData_def sd_shut_def ad_shut_def ad_files_def sd_Flush_def ad_Flush_def
      sd_Close_def ad_Close_def Let_def)

lemma sd_alert_Write: "map_prod (\<lambda>r. r) sd_alert (sd_Write gdm t d sd) = ad_Write gdm t d (sd_alert sd)"
  by (simp add: sd_Write_def ad_Write_def sd_alert_def case_prod_unfold Let_def)

lemma sd_alert_ReadRange: "map_option (map_prod (\<lambda>r. r) sd_alert) (sd_ReadRange gdm srt stime etime handler s sd) =
    ad_ReadRange gdm srt stime etime handler s (sd_alert sd)"
  by (simp add: sd_ReadRange_def ad_ReadRange_def sd_alert_def option.map_comp comp_def case_prod_unfold)

definition sm_stored :: "SummaryEntry \<Rightarrow> timed_entry" where
  "sm_stored e = (se_TimeMs e, se_Data e)"

lemma sd_write_holds:
  assumes "ad_holds gdm (sd_alert sd) es" and "al_fits (sm_stored e # es)"
  shows "\<exists>sd'. sd_write gdm e sd = (Ok (), sd') \<and> ad_holds gdm (sd_alert sd') (sm_stored e # es)"
  using ad_Write_holds [OF assms(1), of "se_TimeMs e" "se_Data e"] assms(2) sd_alert_Write [of gdm "se_TimeMs e" "se_Data e" sd]
  by (cases "sd_Write gdm (se_TimeMs e) (se_Data e) sd") (auto simp: sd_write_def sm_stored_def no_error_def)

interpretation sw: day_store NewSummaryData sd_shut no_alert_files "sd_write gdm" sd_Flush "\<lambda>sd. ad_holds gdm (sd_alert sd)"
  "\<lambda>sd. ad_synced (sd_alert sd)" sm_stored al_fits for gdm :: "i64 \<Rightarrow> nat"
proof unfold_locales
  show "ad_synced (sd_alert (sd_Flush c))" for c by (simp add: ad_synced_def sd_alert_def sd_Flush_def rd_Flush_def)
  show "ad_holds gdm (sd_alert c) es \<Longrightarrow> ad_holds gdm (sd_alert (sd_Flush c)) es" for c es
    unfolding sd_alert_simps by (rule aw.flush_holds)
  show "ad_holds gdm (sd_alert c) es \<Longrightarrow> ad_holds gdm (sd_alert (NewSummaryData (sd_shut c))) es" for c es
    unfolding sd_alert_simps by (rule ad_reopen_holds)
qed (simp_all add: sd_alert_simps ad_open_new aw.open_synced sd_write_holds)

fun sw_do :: "(i64 \<Rightarrow> nat) \<Rightarrow> (i64 \<Rightarrow> string) \<Rightarrow> SummaryEntry day_op \<Rightarrow> SummaryWR \<Rightarrow> SummaryWR" where
  "sw_do gdm fmt (DayWrite e) w = snd (sw_process gdm fmt e w)"
| "sw_do gdm fmt (DayPurge keep) w = sw_PurgeOldDays keep w"

definition summaries_of :: "(i64 \<Rightarrow> string) \<Rightarrow> SummaryEntry day_op list \<Rightarrow> string \<times> byte \<Rightarrow> SummaryEntry list" where
  "summaries_of fmt = day_log (\<lambda>e. (fmt (se_TimeMs e), se_SType e))"

definition ok_summaries :: "SummaryEntry day_op list \<Rightarrow> bool" where
  "ok_summaries ops \<longleftrightarrow> (\<forall>e \<in> set (day_writes ops). 0 < sint (se_TimeMs e) \<and> length (se_Data e) < 2 ^ 16 \<and> se_SType e \<in> {1..7}) \<and>
     length (day_writes ops) \<le> 2 ^ 20"

lemma sw_run_holds:
  assumes "ok_summaries ops"
  shows "sw.dw_holds gdm (fold (sw_do gdm fmt) ops dw_new) (\<lambda>k. map sm_stored (summaries_of fmt ops k))"
  unfolding summaries_of_def
proof (rule sw.dw_ops_holds [where keeps = "\<lambda>keep (date, stype). keep date"])
  show "sw_do gdm fmt op w = (case op of
      DayWrite e \<Rightarrow> snd (dw_process NewSummaryData no_alert_files (sd_write gdm) (fmt (se_TimeMs e), se_SType e) e w)
    | DayPurge keep \<Rightarrow> dw_purge sd_shut (\<lambda>(date, stype). keep date) w)" for op w
    by (cases op) (simp_all add: sw_process_def sw_PurgeOldDays_def)
  show "al_fits (map sm_stored (day_log (\<lambda>e. (fmt (se_TimeMs e), se_SType e)) ops k))" for k
    using assms by (intro al_log_fits) (auto simp: ok_summaries_def sm_stored_def)
qed (rule al_fits_suffix)

lemma summaries_after_close:
  assumes "ok_summaries ops" and "sorts srt" and "local_day gdm mid" and "0 < sint stime" and "range_reach mid stime etime"
    and "\<forall>e \<in> set (summaries_of fmt ops (date, stype)). of_day mid (se_TimeMs e, [])"
  shows "\<exists>ys r'. mset ys = filter_mset (\<lambda>e. in_buckets mid stime etime (se_TimeMs e, [])) (mset (summaries_of fmt ops (date, stype))) \<and>
    sorted (map (\<lambda>e. sint (se_TimeMs e)) ys) \<and>
    sr_ReadRangeWithTime gdm srt date stype stime etime handler s (sw_Close (fold (sw_do gdm fmt) ops dw_new)) =
      Some ((Ok (), fold (\<lambda>e. handler (se_TimeMs e) (se_Data e)) ys s), r')"
proof -
  let ?es = "summaries_of fmt ops (date, stype)" and ?r = "sw_Close (fold (sw_do gdm fmt) ops dw_new)"
  note close = sw.dw_close_reader [OF sw_run_holds [OF assms(1), where gdm = gdm and fmt = fmt], folded sw_Close_def]
  have day: "\<forall>e \<in> set (map sm_stored ?es). of_day mid (fst e, [])" using assms(6) by (simp add: sm_stored_def)
  obtain c r1 where r1: "dw_getReader NewSummaryData (date, stype) ?r = (c, r1)"
    "case c of None \<Rightarrow> map sm_stored ?es = [] | Some c \<Rightarrow> ad_holds gdm (sd_alert c) (map sm_stored ?es) \<and> ad_synced (sd_alert c)"
    using sw.dw_getReader_holds [OF close, of "(date, stype)"] by blast
  show ?thesis
  proof (cases c)
    case None
    then show ?thesis using r1 by (intro exI [of _ "[]"]) (simp add: sr_ReadRangeWithTime_def sr_getContainer_def)
  next
    case (Some c0)
    then have c0: "ad_holds gdm (sd_alert c0) (map sm_stored ?es)" "ad_synced (sd_alert c0)" using r1(2) by simp_all
    from ad_ReadRange_holds [OF c0 assms(2-5) day, of handler s] obtain xs ad where
      xs: "mset xs = filter_mset (\<lambda>e. in_buckets mid stime etime (fst e, [])) (mset (map sm_stored ?es))"
      "sorted (map (\<lambda>e. sint (fst e)) xs)"
      "ad_ReadRange gdm srt stime etime handler s (sd_alert c0) = Some ((Ok (), fold (\<lambda>e. handler (fst e) (snd e)) xs s), ad)"
      by blast
    obtain sd where sd: "sd_ReadRange gdm srt stime etime handler s c0 = Some ((Ok (), fold (\<lambda>e. handler (fst e) (snd e)) xs s), sd)"
      using xs(3) unfolding sd_alert_ReadRange [symmetric] by auto
    from xs(1) have "mset xs = image_mset sm_stored (filter_mset (\<lambda>e. in_buckets mid stime etime (se_TimeMs e, [])) (mset ?es))"
      by (simp add: filter_mset_image_mset sm_stored_def comp_def)
    from permuted_map [OF this] obtain ys where
      ys: "mset ys = filter_mset (\<lambda>e. in_buckets mid stime etime (se_TimeMs e, [])) (mset ?es)" "map sm_stored ys = xs" by blast
    have "sorted (map (\<lambda>e. sint (se_TimeMs e)) ys)"
      using xs(2) unfolding ys(2) [symmetric] by (simp add: sm_stored_def comp_def)
    moreover have "fold (\<lambda>e. handler (fst e) (snd e)) xs s = fold (\<lambda>e. handler (se_TimeMs e) (se_Data e)) ys s"
      unfolding ys(2) [symmetric] by (simp add: fold_map sm_stored_def comp_def)
    ultimately show ?thesis using ys(1) r1(1) Some sd by (auto simp: sr_ReadRangeWithTime_def sr_getContainer_def)
  qed
qed

end
