(* ===== verification/ProfileDb.thy ===== *)
theory ProfileDb
  imports DayStore IndexKeyFile DataOutput
begin

text \<open>
  internal/db/profile: the profile blocks of transactions, per day a data file of blocks behind a 32 bit
  length and a key index from transactions to their blocks (profile.go), the writer, which also reads
  (profile\_wr.go), and the reader (profile\_rd.go). Blocks are flushed as they are written. \<open>enc\<close>,
  \<open>dec\<close> and \<open>compressing\<close> are as in the xlog database.
\<close>

subsection \<open>The container of a day\<close>

record ProfileData =
  pd_index :: IndexKeyFile
  pd_data :: RealDataFile

record profile_files =
  pf_index :: "bytes option \<times> bytes"
  pf_data :: bytes

definition no_profile_files :: profile_files where
  "no_profile_files = \<lparr>pf_index = (None, []), pf_data = []\<rparr>"

definition NewProfileData :: "profile_files \<Rightarrow> ProfileData" where
  "NewProfileData fs = \<lparr>pd_index = NewIndexKeyFile (fst (pf_index fs)) (snd (pf_index fs)) 1, pd_data = NewRealDataFile (pf_data fs)\<rparr>"

definition pd_Write :: "(bytes \<Rightarrow> bytes) \<Rightarrow> bool \<Rightarrow> i64 \<Rightarrow> bytes \<Rightarrow> ProfileData \<Rightarrow> unit res \<times> ProfileData" where
  "pd_Write enc compressing txid block pd =
     (let body = data_body enc compressing block;
          out = PutUint32 (word_of_nat (length body)) @ body;
          (offset, f) = rd_Write out (pd_data pd);
          f = rd_Flush f;
          (r, ix) = ix_Put (Some (Bytes8 txid)) (Some (Bytes5 (word_of_nat offset))) (pd_index pd)
      in (r, \<lparr>pd_index = ix, pd_data = f\<rparr>))"

text \<open>A block at an offset; \<open>Read\<close> of a file returns what there is and leaves the rest of the buffer zero.\<close>

definition readBlock :: "(bytes \<Rightarrow> bytes option) \<Rightarrow> bytes \<Rightarrow> i64 \<Rightarrow> bytes res" where
  "readBlock dec disk offset =
     (if sint offset < 0 then Err (ErrText ''negative offset'')
      else res_bind (file_read disk (nat (sint offset)) 4) (\<lambda>(lenBuf, pos).
        res_bind (file_read disk pos (unat (Uint32 lenBuf))) (\<lambda>(body, _). Decode dec body)))"

fun pd_blocks :: "(bytes \<Rightarrow> bytes option) \<Rightarrow> bytes \<Rightarrow> int \<Rightarrow> bytes list \<Rightarrow> bytes list \<Rightarrow> bytes list res" where
  "pd_blocks dec disk maxBlocks [] blocks = Ok blocks"
| "pd_blocks dec disk maxBlocks (p # ps) blocks =
     (if 0 < maxBlocks \<and> maxBlocks \<le> int (length blocks) then Ok blocks
      else if length p < 5 then Panic IndexOutOfRange
      else case readBlock dec disk (Int5 p) of
             Ok decoded \<Rightarrow> pd_blocks dec disk maxBlocks ps (blocks @ [decoded])
           | _ \<Rightarrow> pd_blocks dec disk maxBlocks ps blocks)"

definition pd_Read :: "(bytes \<Rightarrow> bytes option) \<Rightarrow> i64 \<Rightarrow> int \<Rightarrow> ProfileData \<Rightarrow> (bytes list res \<times> ProfileData) option" where
  "pd_Read dec txid maxBlocks pd = map_option (\<lambda>(r, ix).
       (res_bind r (\<lambda>offsets. if offsets = [] then Ok [] else pd_blocks dec (rd_disk (pd_data pd)) maxBlocks offsets []),
        pd\<lparr>pd_index := ix\<rparr>))
     (ix_GetAll (Some (Bytes8 txid)) (pd_index pd))"

definition pd_Flush :: "ProfileData \<Rightarrow> ProfileData" where
  "pd_Flush pd = pd\<lparr>pd_data := rd_Flush (pd_data pd)\<rparr>"

definition pd_Close :: "ProfileData \<Rightarrow> ProfileData" where
  "pd_Close pd = \<lparr>pd_index = ix_Close (pd_index pd), pd_data = rd_Close (pd_data pd)\<rparr>"

definition pd_files :: "ProfileData \<Rightarrow> profile_files" where
  "pd_files pd = \<lparr>pf_index = (mh_file (ix_hashBlock (pd_index pd)), kf_disk (ix_keyFile (pd_index pd))), pf_data = rd_disk (pd_data pd)\<rparr>"

definition pd_shut :: "ProfileData \<Rightarrow> profile_files" where
  "pd_shut pd = pd_files (pd_Close (pd_Flush pd))"

subsection \<open>The writer and the reader\<close>

record ProfileEntry =
  pe_TimeMs :: i64
  pe_Txid :: i64
  pe_Data :: bytes

type_synonym ProfileWR = "(string, ProfileData, profile_files) DayWriter"

text \<open>The size of the queue, for the argument of \<open>NewProfileWR\<close>.\<close>

definition profileQueueSize :: "int \<Rightarrow> nat" where
  "profileQueueSize queueSize = (if queueSize \<le> 0 then 1000 else nat queueSize)"

definition pd_write :: "(bytes \<Rightarrow> bytes) \<Rightarrow> bool \<times> ProfileEntry \<Rightarrow> ProfileData \<Rightarrow> unit res \<times> ProfileData" where
  "pd_write enc ce pd = (let (r, pd) = pd_Write enc (fst ce) (pe_Txid (snd ce)) (pe_Data (snd ce)) pd in (no_error r, pd))"

definition pw_getData :: "string \<Rightarrow> ProfileWR \<Rightarrow> ProfileData \<times> ProfileWR" where
  "pw_getData = dw_getContainer NewProfileData no_profile_files"

definition pw_process :: "(bytes \<Rightarrow> bytes) \<Rightarrow> (i64 \<Rightarrow> string) \<Rightarrow> bool \<times> ProfileEntry \<Rightarrow> ProfileWR \<Rightarrow> unit res \<times> ProfileWR" where
  "pw_process enc fmt ce = dw_process NewProfileData no_profile_files (pd_write enc) (fmt (pe_TimeMs (snd ce))) ce"

definition pw_Add :: "int \<Rightarrow> ProfileEntry \<Rightarrow> ProfileEntry list \<Rightarrow> ProfileEntry list" where
  "pw_Add queueSize = enqueue (profileQueueSize queueSize)"

definition pw_PurgeOldDays :: "(string \<Rightarrow> bool) \<Rightarrow> ProfileWR \<Rightarrow> ProfileWR" where
  "pw_PurgeOldDays keep = dw_purge pd_shut keep"

definition pw_flushAll :: "ProfileWR \<Rightarrow> ProfileWR" where
  "pw_flushAll = dw_flush pd_Flush"

text \<open>\<open>Read\<close> of the writer opens the day, and creates it if there is none.\<close>

definition pw_Read :: "(bytes \<Rightarrow> bytes option) \<Rightarrow> string \<Rightarrow> i64 \<Rightarrow> int \<Rightarrow> ProfileWR \<Rightarrow> (bytes list res \<times> ProfileWR) option" where
  "pw_Read dec date txid maxBlocks w =
     (let (c, w) = pw_getData date w in map_option (\<lambda>(r, c). (r, dw_set date c w)) (pd_Read dec txid maxBlocks c))"

text \<open>
  \<open>Close\<close> of the writer is its last operation: it closes the containers without a \<open>Flush\<close>, which the
  \<open>Close\<close> of the data file does, and leaves them in the map.
\<close>

definition pw_Close :: "ProfileWR \<Rightarrow> ProfileWR" where
  "pw_Close = dw_close (\<lambda>pd. pd_files (pd_Close pd))"

definition pr_getData :: "string \<Rightarrow> ProfileWR \<Rightarrow> ProfileData option \<times> ProfileWR" where
  "pr_getData = dw_getReader NewProfileData"

definition GetProfile :: "(bytes \<Rightarrow> bytes option) \<Rightarrow> string \<Rightarrow> i64 \<Rightarrow> int \<Rightarrow> ProfileWR \<Rightarrow> (bytes list res \<times> ProfileWR) option" where
  "GetProfile dec date txid maxBlocks r = (case pr_getData date r of
     (None, r) \<Rightarrow> Some (Ok [], r)
   | (Some c, r) \<Rightarrow> map_option (\<lambda>(y, c). (y, dw_set date c r)) (pd_Read dec txid maxBlocks c))"

definition pr_PurgeOldDays :: "(string \<Rightarrow> bool) \<Rightarrow> ProfileWR \<Rightarrow> ProfileWR" where
  "pr_PurgeOldDays keep r = r\<lparr>dw_days := (\<lambda>k. if keep k then dw_days r k else None)\<rparr>"

definition pr_Close :: "ProfileWR \<Rightarrow> ProfileWR" where
  "pr_Close r = r\<lparr>dw_days := (\<lambda>_. None)\<rparr>"

subsection \<open>What a container holds\<close>

type_synonym stored_profile = "ProfileEntry \<times> bytes"

definition pl_frame :: "stored_profile \<Rightarrow> bytes" where
  "pl_frame eb = PutUint32 (word_of_nat (length (snd eb))) @ snd eb"

definition pl_hist :: "stored_profile list \<Rightarrow> history" where
  "pl_hist es = map (\<lambda>(eb, p). (False, Bytes8 (pe_Txid (fst eb)), p)) (log_places pl_frame es)"

definition pl_fits :: "(bytes \<Rightarrow> bytes option) \<Rightarrow> stored_profile list \<Rightarrow> bool" where
  "pl_fits dec es \<longleftrightarrow> length es \<le> 2 ^ 34 \<and> length (log_image pl_frame es) < 2 ^ 39 \<and>
     (\<forall>eb \<in> set es. length (snd eb) < 2 ^ 32 \<and> Decode dec (snd eb) = Ok (pe_Data (fst eb)))"

definition pd_holds :: "(bytes \<Rightarrow> bytes option) \<Rightarrow> ProfileData \<Rightarrow> stored_profile list \<Rightarrow> bool" where
  "pd_holds dec pd es \<longleftrightarrow> ix_ready (pd_index pd) (pl_hist es) \<and> rd_inv (pd_data pd) \<and> rd_writer (pd_data pd) = [] \<and>
     rd_disk (pd_data pd) = log_image pl_frame es \<and> pl_fits dec es"

definition pl_stored :: "(bytes \<Rightarrow> bytes) \<Rightarrow> bool \<times> ProfileEntry \<Rightarrow> stored_profile" where
  "pl_stored enc ce = (snd ce, data_body enc (fst ce) (pe_Data (snd ce)))"

lemma pl_hist_size: "hist_size (pl_hist es) = 2 + 22 * length es"
proof -
  have "(\<Sum>x\<leftarrow>log_places pl_frame es. 16 + blob_head (snd x) + length (snd x)) = (\<Sum>x\<leftarrow>log_places pl_frame es. 22)"
    by (intro arg_cong [of _ _ sum_list] map_cong) (auto simp: blob_head_def dest: log_place_length)
  moreover have "length (log_places pl_frame es) = length es" by (metis length_map log_places_fst)
  ultimately show ?thesis
    by (simp add: hist_size_def pl_hist_def comp_def case_prod_unfold FirstPos_def kfileHeaderSize_def sum_list_triv)
qed

lemma pd_write_holds:
  assumes "pd_holds dec pd es" and "pl_fits dec (pl_stored enc ce # es)"
  shows "\<exists>pd'. pd_write enc ce pd = (Ok (), pd') \<and> pd_holds dec pd' (pl_stored enc ce # es)"
proof -
  obtain z e where ce: "ce = (z, e)" by (cases ce)
  let ?es = "pl_stored enc ce # es" and ?n = "length (log_image pl_frame es)" and ?f = "pd_data pd"
  let ?k = "Bytes8 (pe_Txid e)" and ?p = "Bytes5 (word_of_nat ?n)"
  have "length ?es \<le> 2 ^ 34" using assms(2) by (simp add: pl_fits_def)
  then have size: "hist_size (pl_hist ?es) \<le> 2 ^ 39" by (simp add: pl_hist_size)
  have hist: "pl_hist ?es = (False, ?k, ?p) # pl_hist es" by (simp add: pl_hist_def pl_stored_def ce)
  have "ix_ready (pd_index pd) (pl_hist es)" using assms(1) by (simp add: pd_holds_def)
  from ix_Put_place [OF this, of "pe_Txid e" "word_of_nat ?n"] obtain ix where
    ix: "ix_Put (Some ?k) (Some ?p) (pd_index pd) = (Ok (), ix)" "ix_ready ix (pl_hist ?es)"
    using size unfolding hist by blast
  have rd: "rd_inv ?f" "rd_content ?f = log_image pl_frame es" using assms(1) by (simp_all add: pd_holds_def rd_content_def)
  obtain f where f: "rd_Write (pl_frame (pl_stored enc ce)) ?f = (?n, f)" "rd_inv f" "rd_content f = log_image pl_frame ?es"
    using rd_Write_content [OF rd(1), of "pl_frame (pl_stored enc ce)"] rd(2)
    by (cases "rd_Write (pl_frame (pl_stored enc ce)) ?f") simp
  have "pd_write enc ce pd = (Ok (), \<lparr>pd_index = ix, pd_data = rd_Flush f\<rparr>)"
    using f(1) ix(1) by (simp add: pd_write_def pd_Write_def Let_def pl_frame_def pl_stored_def ce no_error_def)
  then show ?thesis using ix(2) f(2,3) assms(2) by (simp add: pd_holds_def) (simp add: rd_Flush_def)
qed

lemma pd_open_new: "pd_holds dec (NewProfileData no_profile_files) []"
  using ix_new_ready
  by (simp add: pd_holds_def NewProfileData_def no_profile_files_def pl_hist_def pl_fits_def) (simp add: NewRealDataFile_def)

lemma pd_reopen_holds:
  assumes "pd_holds dec pd es"
  shows "pd_holds dec (NewProfileData (pd_shut pd)) es"
proof -
  have "pd_index (NewProfileData (pd_shut pd)) = ix_reopen 1 (pd_index pd)"
    by (simp add: NewProfileData_def pd_shut_def pd_files_def pd_Close_def pd_Flush_def ix_reopen_def Let_def)
  moreover have "pd_data (NewProfileData (pd_shut pd)) = NewRealDataFile (rd_content (pd_data pd))"
    by (simp add: NewProfileData_def pd_shut_def pd_files_def pd_Close_def pd_Flush_def rd_Close_def)
  ultimately show ?thesis using assms ix_reopen_ready
    by (simp add: pd_holds_def rd_content_def) (simp add: NewRealDataFile_def)
qed

interpretation pw: day_store NewProfileData pd_shut no_profile_files "pd_write enc" pd_Flush "pd_holds dec" "\<lambda>_. True"
  "pl_stored enc" "pl_fits dec"
  for enc :: "bytes \<Rightarrow> bytes" and dec :: "bytes \<Rightarrow> bytes option"
proof unfold_locales
  show "pd_holds dec c es \<Longrightarrow> pd_holds dec (pd_Flush c) es" for c es
    by (simp add: pd_holds_def pd_Flush_def rd_content_def) (simp add: rd_Flush_def)
qed (simp_all add: pd_open_new pd_reopen_holds pd_write_holds)

subsection \<open>What a read returns\<close>

lemma readBlock_place:
  assumes "pd_holds dec pd es" and "(eb, p) \<in> set (log_places pl_frame es)"
  shows "readBlock dec (rd_disk (pd_data pd)) (Int5 p) = Ok (pe_Data (fst eb))"
proof -
  have fits: "pl_fits dec es" "rd_disk (pd_data pd) = log_image pl_frame es" using assms(1) by (simp_all add: pd_holds_def)
  have "eb \<in> set es" using assms(2) log_places_fst [of pl_frame es] by (metis fst_conv image_eqI set_map)
  then have eb: "length (snd eb) < 2 ^ 32" "Decode dec (snd eb) = Ok (pe_Data (fst eb))" using fits(1) by (simp_all add: pl_fits_def)
  obtain pre post where im: "log_image pl_frame es = pre @ pl_frame eb @ post" "sint (Int5 p) = int (length pre)"
    using log_place [OF assms(2)] fits(1) by (auto simp: pl_fits_def)
  have n: "unat (word_of_nat (length (snd eb)) :: i32) = length (snd eb)" using eb(1) by (simp add: unat_of_nat)
  have "file_read (pre @ pl_frame eb @ post) (length pre) 4 = Ok (PutUint32 (word_of_nat (length (snd eb))), length pre + 4)"
    using file_read_part [of "length pre" pre 4 "PutUint32 (word_of_nat (length (snd eb)))"] by (simp add: pl_frame_def)
  moreover have "file_read (pre @ pl_frame eb @ post) (length pre + 4) (length (snd eb)) = Ok (snd eb, length pre + 4 + length (snd eb))"
    using file_read_part [of "length pre + 4" "pre @ PutUint32 (word_of_nat (length (snd eb)))" "length (snd eb)" "snd eb" post]
    by (simp add: pl_frame_def)
  ultimately show ?thesis using n eb(2) im fits(2) by (simp add: readBlock_def)
qed

definition max_blocks :: "int \<Rightarrow> 'a list \<Rightarrow> 'a list" where
  "max_blocks n xs = (if 0 < n then take (nat n) xs else xs)"

lemma pd_blocks_holds:
  assumes "pd_holds dec pd es" and "set xs \<subseteq> set (log_places pl_frame es)" and "length blocks \<le> nat n \<or> n \<le> 0"
  shows "pd_blocks dec (rd_disk (pd_data pd)) n (map snd xs) blocks =
    Ok (max_blocks n (blocks @ map (\<lambda>x. pe_Data (fst (fst x))) xs))"
  using assms(2,3)
proof (induction xs arbitrary: blocks)
  case (Cons x xs)
  obtain eb p where x: "x = (eb, p)" by (cases x)
  with Cons.prems have "(eb, p) \<in> set (log_places pl_frame es)" by simp
  note read = readBlock_place [OF assms(1) this] log_place_length [OF this]
  show ?case
  proof (cases "0 < n \<and> n \<le> int (length blocks)")
    case True
    then have "nat n = length blocks" using Cons.prems(2) by linarith
    then show ?thesis using True by (simp add: max_blocks_def)
  next
    case False
    then have "length (blocks @ [pe_Data (fst eb)]) \<le> nat n \<or> n \<le> 0" by auto
    from Cons.IH [OF _ this] Cons.prems(1) show ?thesis using False read by (auto simp: x)
  qed
qed (auto simp: max_blocks_def)

lemma pd_Read_holds:
  assumes "pd_holds dec pd es"
  shows "\<exists>pd'. pd_Read dec txid n pd =
      Some (Ok (max_blocks n (map (\<lambda>eb. pe_Data (fst eb)) (filter (\<lambda>eb. pe_Txid (fst eb) = txid) es))), pd') \<and> pd_holds dec pd' es"
proof -
  let ?Q = "\<lambda>x. pe_Txid (fst (fst x)) = txid" and ?ps = "log_places pl_frame es"
  have "ix_ready (pd_index pd) (pl_hist es)" using assms by (simp add: pd_holds_def)
  from ix_GetAll_ready [OF this, of "Bytes8 txid"] obtain ix where
    ix: "ix_GetAll (Some (Bytes8 txid)) (pd_index pd) = Some (Ok (hist_GetAll (Bytes8 txid) (pl_hist es)), ix)"
    "ix_ready ix (pl_hist es)" by blast
  have all: "hist_GetAll (Bytes8 txid) (pl_hist es) = map snd (filter ?Q ?ps)"
    by (auto simp: hist_GetAll_def pl_hist_def filter_map comp_def case_prod_unfold)
  have blocks: "pd_blocks dec (rd_disk (pd_data pd)) n (map snd (filter ?Q ?ps)) [] =
      Ok (max_blocks n (map (\<lambda>x. pe_Data (fst (fst x))) (filter ?Q ?ps)))"
    using pd_blocks_holds [OF assms, of "filter ?Q ?ps" "[]" n] by auto
  have "map (\<lambda>eb. pe_Data (fst eb)) (filter (\<lambda>eb. pe_Txid (fst eb) = txid) (map fst ?ps)) =
      map (\<lambda>x. pe_Data (fst (fst x))) (filter ?Q ?ps)"
    by (simp add: filter_map comp_def del: log_places_fst)
  then have data: "map (\<lambda>x. pe_Data (fst (fst x))) (filter ?Q ?ps) = map (\<lambda>eb. pe_Data (fst eb)) (filter (\<lambda>eb. pe_Txid (fst eb) = txid) es)"
    by simp
  let ?pd = "pd\<lparr>pd_index := ix\<rparr>"
  have "pd_Read dec txid n pd = Some (Ok (max_blocks n (map (\<lambda>x. pe_Data (fst (fst x))) (filter ?Q ?ps))), ?pd)"
    using ix(1) blocks by (auto simp: pd_Read_def all max_blocks_def)
  moreover have "pd_holds dec ?pd es" using assms ix(2) by (simp add: pd_holds_def)
  ultimately show ?thesis unfolding data by blast
qed

subsection \<open>The profiles after any writes and purges\<close>

fun pw_do :: "(bytes \<Rightarrow> bytes) \<Rightarrow> (i64 \<Rightarrow> string) \<Rightarrow> (bool \<times> ProfileEntry) day_op \<Rightarrow> ProfileWR \<Rightarrow> ProfileWR" where
  "pw_do enc fmt (DayWrite ce) w = snd (pw_process enc fmt ce w)"
| "pw_do enc fmt (DayPurge keep) w = pw_PurgeOldDays keep w"

text \<open>The blocks of a transaction of a day, the newest first.\<close>

definition blocks_of :: "(i64 \<Rightarrow> string) \<Rightarrow> (bool \<times> ProfileEntry) day_op list \<Rightarrow> string \<Rightarrow> i64 \<Rightarrow> bytes list" where
  "blocks_of fmt ops date txid =
     rev (map (\<lambda>ce. pe_Data (snd ce)) (filter (\<lambda>ce. fmt (pe_TimeMs (snd ce)) = date \<and> pe_Txid (snd ce) = txid) (day_writes ops)))"

definition ok_profiles :: "(bytes \<Rightarrow> bytes) \<Rightarrow> (bool \<times> ProfileEntry) day_op list \<Rightarrow> bool" where
  "ok_profiles enc ops \<longleftrightarrow> length (day_writes ops) \<le> 2 ^ 34 \<and>
     (\<Sum>ce\<leftarrow>day_writes ops. 4 + length (data_body enc (fst ce) (pe_Data (snd ce)))) < 2 ^ 39 \<and>
     (\<forall>ce \<in> set (day_writes ops). length (data_body enc (fst ce) (pe_Data (snd ce))) < 2 ^ 32 \<and>
       (fst ce \<or> pe_Data (snd ce) = [] \<or> hd (pe_Data (snd ce)) \<noteq> 0))"

lemma pl_fits_suffix: "pl_fits dec (es @ es') \<Longrightarrow> pl_fits dec es'"
proof (induction es)
  case (Cons e es)
  then show ?case by (simp add: pl_fits_def)
qed simp

lemma log_image_filter: "length (log_image frame (rev (filter P xs))) \<le> (\<Sum>x\<leftarrow>xs. length (frame x))"
proof -
  have app: "length (log_image frame (ys @ zs)) = length (log_image frame ys) + length (log_image frame zs)" for ys zs
    by (induction ys) simp_all
  show ?thesis by (induction xs) (simp_all add: app)
qed

lemma pl_log_fits:
  assumes "\<And>d. dec (enc d) = Some d" and "ok_profiles enc ops"
  shows "pl_fits dec (map (pl_stored enc) (day_log key ops k))"
proof -
  have map: "log_image pl_frame (map (pl_stored enc) es) = log_image (pl_frame \<circ> pl_stored enc) es" for es
    by (induction es) simp_all
  have "length (log_image pl_frame (map (pl_stored enc) (day_log key ops k))) \<le>
      (\<Sum>ce\<leftarrow>day_writes ops. length ((pl_frame \<circ> pl_stored enc) ce))"
    unfolding map day_log_def by (rule log_image_filter)
  also have "\<dots> < 2 ^ 39" using assms(2) by (simp add: ok_profiles_def pl_frame_def pl_stored_def comp_def)
  finally have "length (log_image pl_frame (map (pl_stored enc) (day_log key ops k))) < 2 ^ 39" .
  moreover have "length (day_log key ops k) \<le> 2 ^ 34"
    using assms(2) order_trans [OF length_filter_le [of "\<lambda>e. key e = k" "day_writes ops"]] by (simp add: day_log_def ok_profiles_def)
  moreover have "Decode dec (data_body enc (fst ce) (pe_Data (snd ce))) = Ok (pe_Data (snd ce))" if "ce \<in> set (day_writes ops)" for ce
    using assms(2) that by (intro Decode_body assms(1)) (auto simp: ok_profiles_def)
  ultimately show ?thesis using assms(2)
    by (auto simp: pl_fits_def day_log_def pl_stored_def ok_profiles_def)
qed

lemma pw_run_holds:
  assumes "\<And>d. dec (enc d) = Some d" and "ok_profiles enc ops"
  shows "pw.dw_holds dec (fold (pw_do enc fmt) ops dw_new)
    (\<lambda>date. map (pl_stored enc) (day_log (\<lambda>ce. fmt (pe_TimeMs (snd ce))) ops date))"
proof (rule pw.dw_ops_holds [where enc = enc and keeps = "\<lambda>keep. keep"])
  show "pw_do enc fmt op w = (case op of
      DayWrite ce \<Rightarrow> snd (dw_process NewProfileData no_profile_files (pd_write enc) (fmt (pe_TimeMs (snd ce))) ce w)
    | DayPurge keep \<Rightarrow> dw_purge pd_shut keep w)" for op w
    by (cases op) (simp_all add: pw_process_def pw_PurgeOldDays_def)
  show "pl_fits dec (map (pl_stored enc) (day_log (\<lambda>ce. fmt (pe_TimeMs (snd ce))) ops k))" for k
    by (rule pl_log_fits [OF assms])
qed (rule pl_fits_suffix)

lemma profile_blocks:
  assumes "\<And>d. dec (enc d) = Some d" and "ok_profiles enc ops"
  shows "\<exists>w'. pw_Read dec date txid n (fold (pw_do enc fmt) ops dw_new) = Some (Ok (max_blocks n (blocks_of fmt ops date txid)), w')"
    and "\<exists>r'. GetProfile dec date txid n (dw_close pd_shut (fold (pw_do enc fmt) ops dw_new)) =
      Some (Ok (max_blocks n (blocks_of fmt ops date txid)), r')"
proof -
  let ?w = "fold (pw_do enc fmt) ops dw_new" and ?H = "\<lambda>date. map (pl_stored enc) (day_log (\<lambda>ce. fmt (pe_TimeMs (snd ce))) ops date)"
  note w = pw_run_holds [OF assms, where fmt = fmt]
  have blocks: "map (\<lambda>eb. pe_Data (fst eb)) (filter (\<lambda>eb. pe_Txid (fst eb) = txid) (?H date)) = blocks_of fmt ops date txid"
    by (simp add: blocks_of_def day_log_def pl_stored_def filter_map comp_def rev_map rev_filter)
  have get: "\<exists>c w'. dw_getContainer NewProfileData no_profile_files date ?w = (c, w') \<and> pd_holds dec c (?H date)"
    using pw.dw_getContainer_holds [OF w, of date] by blast
  then obtain c w' where c: "pw_getData date ?w = (c, w')" "pd_holds dec c (?H date)" by (auto simp: pw_getData_def)
  from pd_Read_holds [OF c(2), of txid n, unfolded blocks] c(1)
  show "\<exists>w'. pw_Read dec date txid n ?w = Some (Ok (max_blocks n (blocks_of fmt ops date txid)), w')" by (auto simp: pw_Read_def)
  let ?r = "dw_close pd_shut ?w"
  obtain c r1 where r1: "dw_getReader NewProfileData date ?r = (c, r1)"
    "case c of None \<Rightarrow> ?H date = [] | Some c \<Rightarrow> pd_holds dec c (?H date) \<and> True"
    using pw.dw_getReader_holds [OF pw.dw_close_reader [OF w], of date] by blast
  show "\<exists>r'. GetProfile dec date txid n ?r = Some (Ok (max_blocks n (blocks_of fmt ops date txid)), r')"
  proof (cases c)
    case None
    then show ?thesis using r1 blocks by (auto simp: GetProfile_def pr_getData_def max_blocks_def)
  next
    case (Some c0)
    then have "pd_holds dec c0 (?H date)" using r1(2) by simp
    from pd_Read_holds [OF this, of txid n, unfolded blocks] r1(1) Some show ?thesis
      by (auto simp: GetProfile_def pr_getData_def)
  qed
qed

text \<open>Closing without a \<open>Flush\<close> leaves the same files, since the blocks are flushed as they are written.\<close>

lemma pd_Close_files: "pd_files (pd_Close pd) = pd_shut pd"
  by (simp add: pd_shut_def pd_files_def pd_Close_def pd_Flush_def rd_Close_def rd_content_def)
    (simp add: rd_Flush_def)

end
