(* ===== verification/XLogCache.thy ===== *)
theory XLogCache
  imports Prelude "HOL-Library.Multiset"
begin

text \<open>
  internal/core/cache/xlog\_cache.go: the ring buffer of the newest xlogs, which clients poll with the
  position they got from the last poll, and its index from object hashes to positions. An entry that
  was never written is the zero struct, whose data is nil. Go's iteration over a set of hashes is in
  no particular order; the set is a list of distinct hashes here, in the order of the iteration.

  The lemmas relate the buffer to the log of everything that was put, the newest last: a poll returns
  what was put since the last poll, as far as the buffer goes.
\<close>

record XLogEntry =
  ce_ObjHash :: i32
  ce_Elapsed :: i32
  ce_IsError :: bool
  ce_Data :: "bytes option"

definition zero_entry :: XLogEntry where
  "zero_entry = \<lparr>ce_ObjHash = 0, ce_Elapsed = 0, ce_IsError = False, ce_Data = None\<rparr>"

record XLogCache =
  xc_entries :: "XLogEntry list"
  xc_size :: nat
  xc_pos :: nat
  xc_loop :: i64
  xc_count :: nat
  xc_objIndex :: "i32 \<Rightarrow> nat list"

definition NewXLogCache :: "nat \<Rightarrow> XLogCache" where
  "NewXLogCache n = \<lparr>xc_entries = replicate n zero_entry, xc_size = n, xc_pos = 0, xc_loop = 0, xc_count = 0,
     xc_objIndex = (\<lambda>_. [])\<rparr>"

text \<open>The index without the position that is about to be overwritten.\<close>

definition xc_forget :: "XLogCache \<Rightarrow> i32 \<Rightarrow> nat list" where
  "xc_forget c =
     (let old = xc_entries c ! xc_pos c
      in if ce_Data old \<noteq> None
         then let l = xc_objIndex c (ce_ObjHash old)
              in if 0 < length l \<and> l ! 0 = xc_pos c
                 then (xc_objIndex c)(ce_ObjHash old := drop 1 l) else xc_objIndex c
         else xc_objIndex c)"

definition xc_Put :: "i32 \<Rightarrow> i32 \<Rightarrow> bool \<Rightarrow> bytes option \<Rightarrow> XLogCache \<Rightarrow> XLogCache res" where
  "xc_Put objHash elapsed isError data c =
     (if length (xc_entries c) \<le> xc_pos c then Panic IndexOutOfRange
      else
        let idx = xc_forget c;
            e = \<lparr>ce_ObjHash = objHash, ce_Elapsed = elapsed, ce_IsError = isError, ce_Data = data\<rparr>;
            c = c\<lparr>xc_entries := (xc_entries c)[xc_pos c := e],
                  xc_objIndex := idx(objHash := idx objHash @ [xc_pos c]), xc_pos := xc_pos c + 1\<rparr>;
            c = (if xc_size c \<le> xc_pos c then c\<lparr>xc_loop := xc_loop c + 1, xc_pos := 0\<rparr> else c)
        in Ok (if xc_count c < xc_size c then c\<lparr>xc_count := xc_count c + 1\<rparr> else c))"

definition xc_keep :: "i32 \<Rightarrow> XLogEntry \<Rightarrow> bool" where
  "xc_keep minElapsed e \<longleftrightarrow> ce_Data e \<noteq> None \<and> \<not> (sint (ce_Elapsed e) < sint minElapsed \<and> \<not> ce_IsError e)"

definition xc_copyFiltered :: "XLogCache \<Rightarrow> i32 \<Rightarrow> int \<Rightarrow> int \<Rightarrow> XLogEntry list res" where
  "xc_copyFiltered c minElapsed from to =
     (if from < to \<and> (from < 0 \<or> int (length (xc_entries c)) < to) then Panic IndexOutOfRange
      else Ok (filter (xc_keep minElapsed) (map (\<lambda>i. xc_entries c ! i) [nat from..<nat to])))"

definition xc_inRange :: "nat \<Rightarrow> i64 \<Rightarrow> int \<Rightarrow> i64 \<Rightarrow> int \<Rightarrow> bool" where
  "xc_inRange pos lastLoop lastIndex endLoop endIndex =
     (if endLoop - lastLoop = 0 then lastIndex \<le> int pos \<and> int pos < endIndex
      else if endLoop - lastLoop = 1 then
        if lastIndex \<le> endIndex then True else lastIndex \<le> int pos \<or> int pos < endIndex
      else True)"

definition xc_copyFromIndex :: "XLogCache \<Rightarrow> i64 \<Rightarrow> int \<Rightarrow> i64 \<Rightarrow> int \<Rightarrow> i32 \<Rightarrow> i32 list \<Rightarrow> XLogEntry list" where
  "xc_copyFromIndex c lastLoop lastIndex endLoop endIndex minElapsed objHashSet =
     concat (map (\<lambda>objHash. filter (xc_keep minElapsed) (map (\<lambda>pos. xc_entries c ! pos)
       (filter (\<lambda>pos. xc_inRange pos lastLoop lastIndex endLoop endIndex) (xc_objIndex c objHash)))) objHashSet)"

text \<open>The result: loop, index and data.\<close>

definition xc_Get :: "i64 \<Rightarrow> int \<Rightarrow> i32 \<Rightarrow> i32 list option \<Rightarrow> XLogCache \<Rightarrow> (i64 \<times> nat \<times> XLogEntry list) res" where
  "xc_Get lastLoop lastIndex minElapsed objHashSet c =
     (let endIndex = xc_pos c; endLoop = xc_loop c;
          copy = xc_copyFiltered c minElapsed;
          both = (\<lambda>a b. res_bind a (\<lambda>xs. res_bind b (\<lambda>ys. Ok (xs @ ys))));
          data = (case objHashSet of
              Some hs \<Rightarrow> Ok (xc_copyFromIndex c lastLoop lastIndex endLoop (int endIndex) minElapsed hs)
            | None \<Rightarrow>
                if endLoop - lastLoop = 0 then
                  if lastIndex < int endIndex then copy lastIndex (int endIndex) else Ok []
                else if endLoop - lastLoop = 1 then
                  if lastIndex \<le> int endIndex
                  then both (copy (int endIndex) (int (xc_size c))) (copy 0 (int endIndex))
                  else both (copy lastIndex (int (xc_size c))) (copy 0 (int endIndex))
                else both (copy (int endIndex) (int (xc_size c))) (copy 0 (int endIndex)))
      in res_bind data (\<lambda>d. Ok (endLoop, endIndex, d)))"

definition xc_GetRecent :: "int \<Rightarrow> XLogCache \<Rightarrow> XLogEntry list res" where
  "xc_GetRecent maxCount c =
     (let n = (if maxCount < int (xc_count c) then maxCount else int (xc_count c))
      in if n < 0 then Panic MakeSliceLen
         else if xc_size c = 0 then Panic DivideByZero
         else let start = (xc_pos c + xc_size c - nat n) mod xc_size c
              in Ok (map (\<lambda>i. xc_entries c ! ((start + i) mod xc_size c)) [0..<nat n]))"

text \<open>The loop stops when \<open>maxCount\<close> entries were found.\<close>

definition xc_GetRecentByObjHash :: "i32 \<Rightarrow> int \<Rightarrow> XLogCache \<Rightarrow> XLogEntry list res" where
  "xc_GetRecentByObjHash objHash maxCount c =
     (let n = xc_count c
      in if xc_size c = 0 then Panic DivideByZero
         else let start = (xc_pos c + xc_size c - n) mod xc_size c
              in Ok (take (nat maxCount) (filter (\<lambda>e. ce_ObjHash e = objHash)
                   (map (\<lambda>i. xc_entries c ! ((start + i) mod xc_size c)) [0..<n]))))"

definition xc_Count :: "XLogCache \<Rightarrow> nat" where
  "xc_Count c = xc_count c"

subsection \<open>The log\<close>

text \<open>The cache after everything in the log was put, with entries that have data.\<close>

fun xc_Puts :: "XLogEntry list \<Rightarrow> XLogCache \<Rightarrow> XLogCache res" where
  "xc_Puts [] c = Ok c"
| "xc_Puts (e # es) c = res_bind (xc_Put (ce_ObjHash e) (ce_Elapsed e) (ce_IsError e) (ce_Data e) c) (xc_Puts es)"

text \<open>The log has \<open>n\<close> entries; those from \<open>oldest n s\<close> on are in the buffer.\<close>

definition oldest :: "nat \<Rightarrow> nat \<Rightarrow> nat" where
  "oldest n s = n - min n s"

definition xc_rep :: "nat \<Rightarrow> XLogEntry list \<Rightarrow> XLogCache \<Rightarrow> bool" where
  "xc_rep s log c \<longleftrightarrow> 0 < s \<and> xc_size c = s \<and> length (xc_entries c) = s \<and> (\<forall>e \<in> set log. ce_Data e \<noteq> None) \<and>
     xc_pos c = length log mod s \<and> xc_loop c = word_of_nat (length log div s) \<and> xc_count c = min (length log) s \<and>
     (\<forall>j. oldest (length log) s \<le> j \<longrightarrow> j < length log \<longrightarrow> xc_entries c ! (j mod s) = log ! j) \<and>
     (\<forall>i. length log \<le> i \<longrightarrow> i < s \<longrightarrow> xc_entries c ! i = zero_entry) \<and>
     (\<forall>h. xc_objIndex c h =
        map (\<lambda>j. j mod s) (filter (\<lambda>j. ce_ObjHash (log ! j) = h) [oldest (length log) s..<length log]))"

lemma xc_new_rep: "0 < s \<Longrightarrow> xc_rep s [] (NewXLogCache s)"
  by (simp add: xc_rep_def NewXLogCache_def oldest_def)

lemma mod_Suc_eq: "0 < s \<Longrightarrow> Suc n mod s = (if Suc (n mod s) = s then 0 else Suc (n mod s))"
  by (simp add: mod_Suc)

lemma div_Suc_eq: "0 < s \<Longrightarrow> Suc n div s = (if Suc (n mod s) = s then Suc (n div s) else n div s)"
  by (simp add: div_Suc mod_Suc)

lemma mod_neq:
  assumes "n < j + s" and "j < (n :: nat)"
  shows "j mod s \<noteq> n mod s"
proof
  assume "j mod s = n mod s"
  then have "s dvd n - j" using assms(2) by (metis less_imp_le mod_eq_dvd_iff_nat)
  then show False using assms nat_dvd_not_less [of "n - j" s] by linarith
qed

lemma upt_oldest_Suc:
  assumes "0 < s"
  shows "[oldest (Suc n) s..<n] = (if s \<le> n then drop 1 [oldest n s..<n] else [oldest n s..<n])"
    and "s \<le> n \<Longrightarrow> oldest n s < n \<and> oldest n s mod s = n mod s"
proof -
  show "[oldest (Suc n) s..<n] = (if s \<le> n then drop 1 [oldest n s..<n] else [oldest n s..<n])"
    using assms by (auto simp: oldest_def drop_upt min_def Suc_diff_le not_le le_Suc_eq)
  show "oldest n s < n \<and> oldest n s mod s = n mod s" if "s \<le> n"
    using that assms by (simp add: oldest_def min_absorb2 le_mod_geq [symmetric] flip: le_mod_geq)
qed

lemma xc_Put_rep:
  assumes "xc_rep s log c" and "ce_Data e \<noteq> None"
  shows "\<exists>c'. xc_Put (ce_ObjHash e) (ce_Elapsed e) (ce_IsError e) (ce_Data e) c = Ok c' \<and> xc_rep s (log @ [e]) c'"
proof -
  let ?n = "length log" and ?p = "length log mod s" and ?old = "xc_entries c ! xc_pos c"
  have s: "0 < s" and size: "xc_size c = s" "length (xc_entries c) = s" and pos: "xc_pos c = ?p"
    and loop: "xc_loop c = word_of_nat (?n div s)" and count: "xc_count c = min ?n s"
    and data: "\<And>e. e \<in> set log \<Longrightarrow> ce_Data e \<noteq> None"
    and ent: "\<And>j. oldest ?n s \<le> j \<Longrightarrow> j < ?n \<Longrightarrow> xc_entries c ! (j mod s) = log ! j"
    and zero: "\<And>i. ?n \<le> i \<Longrightarrow> i < s \<Longrightarrow> xc_entries c ! i = zero_entry"
    and idx: "\<And>h. xc_objIndex c h = map (\<lambda>j. j mod s) (filter (\<lambda>j. ce_ObjHash (log ! j) = h) [oldest ?n s..<?n])"
    using assms(1) by (simp_all add: xc_rep_def)
  have p: "?p < s" using s by simp
  note up = upt_oldest_Suc [OF s, of ?n]
  define ix where "ix = xc_forget c"
  have ix: "ix h = map (\<lambda>j. j mod s) (filter (\<lambda>j. ce_ObjHash (log ! j) = h) [oldest (Suc ?n) s..<?n])" for h
  proof (cases "s \<le> ?n")
    case True
    then have o: "oldest ?n s < ?n" "oldest ?n s mod s = ?p" using up(2) by auto
    have old: "?old = log ! oldest ?n s" using ent [of "oldest ?n s"] o by (simp add: pos)
    then have "ce_Data ?old \<noteq> None" using data o(1) by simp
    moreover have "[oldest ?n s..<?n] = oldest ?n s # [oldest (Suc ?n) s..<?n]"
      using True up(1) o(1) by (simp add: upt_conv_Cons)
    ultimately show ?thesis using old o(2) by (auto simp: ix_def xc_forget_def idx pos Let_def)
  next
    case False
    then have "?old = zero_entry" using zero [of ?p] by (simp add: pos)
    then show ?thesis using False up(1) by (simp add: ix_def xc_forget_def idx zero_entry_def)
  qed
  let ?e = "\<lparr>ce_ObjHash = ce_ObjHash e, ce_Elapsed = ce_Elapsed e, ce_IsError = ce_IsError e, ce_Data = ce_Data e\<rparr>"
  have e: "?e = e" by simp
  define c' where "c' = \<lparr>xc_entries = (xc_entries c)[?p := e], xc_size = s, xc_pos = Suc ?n mod s,
    xc_loop = word_of_nat (Suc ?n div s), xc_count = min (Suc ?n) s, xc_objIndex = ix(ce_ObjHash e := ix (ce_ObjHash e) @ [?p])\<rparr>"
  have "c = \<lparr>xc_entries = xc_entries c, xc_size = s, xc_pos = ?p, xc_loop = word_of_nat (?n div s), xc_count = min ?n s,
      xc_objIndex = xc_objIndex c\<rparr>"
    using size pos loop count by (cases c) simp
  then obtain es oi where c: "c = \<lparr>xc_entries = es, xc_size = s, xc_pos = ?p, xc_loop = word_of_nat (?n div s),
      xc_count = min ?n s, xc_objIndex = oi\<rparr>" by metis
  have "xc_Put (ce_ObjHash e) (ce_Elapsed e) (ce_IsError e) (ce_Data e) c = Ok c'"
    unfolding xc_Put_def ix_def [symmetric] Let_def e c'_def
    using p s size linorder_not_le [THEN iffD2, OF p] unfolding c by (cases "Suc ?p = s"; cases "?n < s") (simp_all add: mod_Suc_eq div_Suc_eq)
  moreover have "xc_rep s (log @ [e]) c'"
  proof -
    have "xc_entries c' ! (j mod s) = (log @ [e]) ! j" if "oldest (Suc ?n) s \<le> j" "j < Suc ?n" for j
    proof (cases "j = ?n")
      case False
      then have "j < ?n" "oldest ?n s \<le> j" "?n < j + s" using that by (auto simp: oldest_def)
      then show ?thesis using ent mod_neq [of ?n j s] by (simp add: c'_def nth_append)
    qed (use p size in \<open>simp add: c'_def\<close>)
    moreover have "xc_entries c' ! i = zero_entry" if "Suc ?n \<le> i" "i < s" for i
      using that zero by (simp add: c'_def)
    moreover have "xc_objIndex c' h = map (\<lambda>j. j mod s) (filter (\<lambda>j. ce_ObjHash ((log @ [e]) ! j) = h) [oldest (Suc ?n) s..<Suc ?n])" for h
    proof -
      have "filter (\<lambda>j. ce_ObjHash ((log @ [e]) ! j) = h) [oldest (Suc ?n) s..<?n] =
          filter (\<lambda>j. ce_ObjHash (log ! j) = h) [oldest (Suc ?n) s..<?n]"
        by (intro filter_cong) (auto simp: nth_append)
      moreover have "oldest (Suc ?n) s \<le> ?n" using s by (simp add: oldest_def)
      ultimately show ?thesis by (simp add: c'_def ix)
    qed
    ultimately show ?thesis using s data assms(2) size by (auto simp: xc_rep_def c'_def)
  qed
  ultimately show ?thesis by blast
qed

lemma xc_Puts_from:
  assumes "xc_rep s old c" and "\<forall>e \<in> set log. ce_Data e \<noteq> None"
  shows "\<exists>c'. xc_Puts log c = Ok c' \<and> xc_rep s (old @ log) c'"
  using assms
proof (induction log arbitrary: old c)
  case (Cons e log)
  from Cons.prems obtain c1 where "xc_Put (ce_ObjHash e) (ce_Elapsed e) (ce_IsError e) (ce_Data e) c = Ok c1" "xc_rep s (old @ [e]) c1"
    using xc_Put_rep by (metis list.set_intros(1))
  with Cons.IH [of "old @ [e]" c1] Cons.prems show ?case by simp
qed simp

lemma xc_Puts_rep:
  assumes "0 < s" and "\<forall>e \<in> set log. ce_Data e \<noteq> None"
  shows "\<exists>c. xc_Puts log (NewXLogCache s) = Ok c \<and> xc_rep s log c"
  using xc_Puts_from [OF xc_new_rep [OF assms(1)] assms(2)] by simp

lemma upt_mod:
  assumes "q * s \<le> a" and "n \<le> Suc q * s"
  shows "map (\<lambda>j. j mod s) [a..<n] = [a - q * s..<n - q * s]"
proof -
  have "j mod s = j - q * s" if "a \<le> j" "j < n" for j
  proof -
    have "j = q * s + (j - q * s)" "j - q * s < s" using that assms by simp_all
    then show ?thesis by (metis mod_less mod_mult_self3)
  qed
  then have "map (\<lambda>j. j mod s) [a..<n] = map (\<lambda>j. j - q * s) [a..<n]" by simp
  also have "\<dots> = [a - q * s..<n - q * s]"
    using assms(1) by (induction n) (auto simp: Suc_diff_le)
  finally show ?thesis .
qed

lemma xc_slice:
  assumes "xc_rep s log c" and "oldest (length log) s \<le> a" and "b \<le> length log"
  shows "map (\<lambda>i. xc_entries c ! i) (map (\<lambda>j. j mod s) [a..<b]) = drop a (take b log)"
proof -
  have "map (\<lambda>i. xc_entries c ! i) (map (\<lambda>j. j mod s) [a..<b]) = map (\<lambda>j. log ! j) [a..<b]"
    using assms by (auto simp: xc_rep_def)
  also have "\<dots> = drop a (take b log)" using assms(3) by (intro nth_equalityI) simp_all
  finally show ?thesis .
qed

text \<open>The whole buffer from the oldest entry on.\<close>

lemma xc_wrapped:
  assumes "xc_rep s log c" and "s \<le> length log"
  shows "map (\<lambda>j. j mod s) [length log - s..<length log] = [length log mod s..<s] @ [0..<length log mod s]"
proof -
  let ?n = "length log" and ?q = "length log div s"
  have s: "0 < s" using assms(1) by (simp add: xc_rep_def)
  then have q: "0 < ?q" using assms(2) by (simp add: div_greater_zero_iff)
  have n: "?n = ?q * s + ?n mod s" "?n mod s < s" using s by simp_all
  have qs: "?q * s = (?q - 1) * s + s" using q by (metis Suc_diff_1 mult_Suc add.commute)
  have "[?n - s..<?n] = [?n - s..<?q * s] @ [?q * s..<?n]"
  proof -
    have "?n - s \<le> ?q * s" "?q * s \<le> ?n" using n by linarith+
    then show ?thesis by (metis le_add_diff_inverse upt_add_eq_append)
  qed
  moreover have "map (\<lambda>j. j mod s) [?n - s..<?q * s] = [?n - s - (?q - 1) * s..<?q * s - (?q - 1) * s]"
    using n qs assms(2) by (intro upt_mod) simp_all
  moreover have "map (\<lambda>j. j mod s) [?q * s..<?n] = [?q * s - ?q * s..<?n - ?q * s]"
  proof (rule upt_mod)
    show "?n \<le> Suc ?q * s" unfolding mult_Suc using n by linarith
  qed simp
  moreover have "?n - s - (?q - 1) * s = ?n mod s" "?q * s - (?q - 1) * s = s" "?n - ?q * s = ?n mod s" using n qs by linarith+
  ultimately show ?thesis by simp
qed

lemma xc_copy:
  assumes "xc_rep s log c" and "j \<le> s"
  shows "xc_copyFiltered c m (int i) (int j) = Ok (filter (xc_keep m) (map (\<lambda>i. xc_entries c ! i) [i..<j]))"
  using assms by (auto simp: xc_copyFiltered_def xc_rep_def)

lemma xc_whole:
  assumes "xc_rep s log c"
  shows "filter (xc_keep m) (map (\<lambda>i. xc_entries c ! i) ([xc_pos c..<s] @ [0..<xc_pos c])) =
    filter (xc_keep m) (drop (oldest (length log) s) log)"
proof (cases "s \<le> length log")
  case True
  then have "oldest (length log) s = length log - s" by (simp add: oldest_def)
  then show ?thesis using xc_wrapped [OF assms True] xc_slice [OF assms, of "length log - s" "length log"] assms
    by (simp add: xc_rep_def)
next
  case False
  then have pos: "xc_pos c = length log" and o: "oldest (length log) s = 0" using assms by (simp_all add: xc_rep_def oldest_def)
  have "filter (xc_keep m) (map (\<lambda>i. xc_entries c ! i) [length log..<s]) = []"
    using assms by (auto simp: xc_rep_def filter_empty_conv xc_keep_def zero_entry_def)
  moreover have "map (\<lambda>j. j mod s) [0..<length log] = [0..<length log]" using upt_mod [of 0 s 0 "length log"] False by simp
  ultimately show ?thesis using xc_slice [OF assms, of 0 "length log"] pos o by simp
qed

lemma loop_diff:
  assumes "a \<le> b" and "b < 2 ^ 63"
  shows "(word_of_nat b - word_of_nat a = (0 :: i64)) = (a = b)" and "(word_of_nat b - word_of_nat a = (1 :: i64)) = (b = Suc a)"
proof -
  have d: "word_of_nat b - word_of_nat a = (word_of_nat (b - a) :: i64)" using assms(1) by simp
  have u: "unat (word_of_nat (b - a) :: i64) = b - a" using assms(2) by (simp add: unat_of_nat)
  show "(word_of_nat b - word_of_nat a = (0 :: i64)) = (a = b)" unfolding d using u assms(1) by (auto simp: unat_eq_0 [symmetric])
  show "(word_of_nat b - word_of_nat a = (1 :: i64)) = (b = Suc a)" unfolding d using u assms(1) by (auto simp: word_unat_eq_iff)
qed

lemma xc_Get_since:
  assumes "xc_rep s log c" and "k \<le> length log" and "length log < 2 ^ 63"
  shows "xc_Get (word_of_nat (k div s)) (int (k mod s)) m None c =
    Ok (word_of_nat (length log div s), length log mod s, filter (xc_keep m) (drop (max k (oldest (length log) s)) log))"
proof -
  let ?n = "length log" and ?d = "\<lambda>a. filter (xc_keep m) (drop a log)"
  have s: "0 < s" and pos: "xc_pos c = ?n mod s" and loop: "xc_loop c = word_of_nat (?n div s)" and size: "xc_size c = s"
    using assms(1) by (simp_all add: xc_rep_def)
  have p: "?n mod s < s" "k mod s < s" using s by simp_all
  have le: "k div s \<le> ?n div s" using assms(2) by (rule div_le_mono)
  have lt: "?n div s < 2 ^ 63" using assms(3) by (meson div_le_dividend le_less_trans)
  note diff = loop_diff [OF le lt]
  define q r Q R where "q = k div s" and "r = k mod s" and "Q = ?n div s" and "R = ?n mod s"
  have k: "k = q * s + r" and n: "?n = Q * s + R" by (simp_all add: q_def r_def Q_def R_def)
  have rR: "r < s" "R < s" using s by (simp_all add: r_def R_def)
  note copy = xc_copy [OF assms(1)]
  have pos': "xc_pos c = R" by (simp add: pos R_def)
  have both: "res_bind (xc_copyFiltered c m (int R) (int s)) (\<lambda>xs. res_bind (xc_copyFiltered c m 0 (int R)) (\<lambda>ys. Ok (xs @ ys))) =
      Ok (?d (oldest ?n s))"
    using copy [of s m R] copy [of R m 0] rR xc_whole [OF assms(1), of m] by (simp add: pos')
  have get: "xc_Get (word_of_nat q) (int r) m None c =
    res_bind (if q = Q then if int r < int R then xc_copyFiltered c m (int r) (int R) else Ok []
      else if Q = Suc q then
        if int r \<le> int R
        then res_bind (xc_copyFiltered c m (int R) (int s)) (\<lambda>xs. res_bind (xc_copyFiltered c m 0 (int R)) (\<lambda>ys. Ok (xs @ ys)))
        else res_bind (xc_copyFiltered c m (int r) (int s)) (\<lambda>xs. res_bind (xc_copyFiltered c m 0 (int R)) (\<lambda>ys. Ok (xs @ ys)))
      else res_bind (xc_copyFiltered c m (int R) (int s)) (\<lambda>xs. res_bind (xc_copyFiltered c m 0 (int R)) (\<lambda>ys. Ok (xs @ ys))))
     (\<lambda>d. Ok (word_of_nat Q, R, d))"
    using diff unfolding xc_Get_def Let_def loop size pos' q_def Q_def option.case(1) by (simp only:)
  have "res_bind (if q = Q then if int r < int R then xc_copyFiltered c m (int r) (int R) else Ok []
      else if Q = Suc q then
        if int r \<le> int R
        then res_bind (xc_copyFiltered c m (int R) (int s)) (\<lambda>xs. res_bind (xc_copyFiltered c m 0 (int R)) (\<lambda>ys. Ok (xs @ ys)))
        else res_bind (xc_copyFiltered c m (int r) (int s)) (\<lambda>xs. res_bind (xc_copyFiltered c m 0 (int R)) (\<lambda>ys. Ok (xs @ ys)))
      else res_bind (xc_copyFiltered c m (int R) (int s)) (\<lambda>xs. res_bind (xc_copyFiltered c m 0 (int R)) (\<lambda>ys. Ok (xs @ ys))))
     (\<lambda>d. Ok (word_of_nat Q, R, d)) = Ok (word_of_nat Q, R, ?d (max k (oldest ?n s)))"
  proof -
    consider (same) "q = Q" | (next_small) "Q = Suc q" "r \<le> R" | (next_large) "Q = Suc q" "R < r" | (far) "Suc q < Q"
      using le unfolding q_def [symmetric] Q_def [symmetric] by linarith
    then show ?thesis
    proof cases
      case same
      have "map (\<lambda>j. j mod s) [k..<?n] = [k - Q * s..<?n - Q * s]" using k n rR same by (intro upt_mod) simp_all
      then have "map (\<lambda>j. j mod s) [k..<?n] = [r..<R]" using k n same by simp
      moreover have o: "oldest ?n s \<le> k" using k n rR same by (simp add: oldest_def)
      ultimately have sl: "map (\<lambda>i. xc_entries c ! i) [r..<R] = drop k log"
        using xc_slice [OF assms(1), of k ?n] by simp
      have "drop k log = []" if "\<not> r < R" using that k n same assms(2) by simp
      then show ?thesis using copy [of R m r] rR same o sl by (simp add: max_absorb1)
    next
      case next_small
      have "k + s \<le> ?n" using k n next_small by simp
      then have "max k (oldest ?n s) = oldest ?n s" by (simp add: oldest_def)
      then show ?thesis using next_small both by simp
    next
      case next_large
      have s_n: "s \<le> ?n" and o: "oldest ?n s \<le> k" using k n rR next_large by (simp_all add: oldest_def)
      have "map (\<lambda>j. j mod s) [k..<Q * s] = [k - q * s..<Q * s - q * s]" using k next_large by (intro upt_mod) simp_all
      moreover have "map (\<lambda>j. j mod s) [Q * s..<?n] = [Q * s - Q * s..<?n - Q * s]" using n rR by (intro upt_mod) simp_all
      moreover have "[k..<?n] = [k..<Q * s] @ [Q * s..<?n]"
      proof -
        have "k \<le> Q * s" "Q * s \<le> ?n" using k n rR next_large by simp_all
        then show ?thesis by (metis le_add_diff_inverse upt_add_eq_append)
      qed
      ultimately have "map (\<lambda>j. j mod s) [k..<?n] = [r..<s] @ [0..<R]" using k n next_large by simp
      then have "map (\<lambda>i. xc_entries c ! i) ([r..<s] @ [0..<R]) = drop k log"
        using xc_slice [OF assms(1) o, of ?n] by simp
      then have "?d k = filter (xc_keep m) (map (\<lambda>i. xc_entries c ! i) [r..<s]) @
          filter (xc_keep m) (map (\<lambda>i. xc_entries c ! i) [0..<R])" by (metis filter_append map_append)
      then show ?thesis using copy [of s m r] copy [of R m 0] rR next_large o by (simp add: max_absorb1)
    next
      case far
      have "Suc (Suc q) * s \<le> Q * s" using far by (intro mult_le_mono1) simp
      then have "k + s \<le> ?n" using k n rR by simp
      then have "max k (oldest ?n s) = oldest ?n s" by (simp add: oldest_def)
      then show ?thesis using far both by simp
    qed
  qed
  then show ?thesis using get unfolding q_def r_def Q_def R_def by (rule trans [rotated])
qed

text \<open>The same poll for a set of objects, by the index: the same entries, grouped by object.\<close>

lemma mset_concat_keys:
  "distinct hs \<Longrightarrow> mset (concat (map (\<lambda>h. filter (\<lambda>x. K x = h) xs) hs)) = filter_mset (\<lambda>x. K x \<in> set hs) (mset xs)"
  by (induction hs) (auto intro!: multiset_eqI)

lemma mod_recent:
  assumes "n = Q * s + R" and "R < s" and "n - min n s \<le> j" and "j < (n :: nat)"
  shows "j mod s = (if Q * s \<le> j then j - Q * s else j - (Q - 1) * s)" and "Q * s \<le> j \<or> ((Q - 1) * s \<le> j \<and> 0 < Q)"
proof -
  show far: "Q * s \<le> j \<or> ((Q - 1) * s \<le> j \<and> 0 < Q)"
  proof (cases Q)
    case (Suc q)
    then have "Q * s = q * s + s" by simp
    then show ?thesis using assms Suc by (simp add: min_def split: if_splits)
  qed simp
  show "j mod s = (if Q * s \<le> j then j - Q * s else j - (Q - 1) * s)"
  proof (cases "Q * s \<le> j")
    case True
    have "j - Q * s < s" using assms(1,2,4) True by linarith
    moreover have "j = (j - Q * s) + Q * s" using True by simp
    ultimately show ?thesis using True by (metis mod_less mod_mult_self1)
  next
    case False
    then obtain q where q: "Q = Suc q" "q * s \<le> j" using far by (cases Q) auto
    then have "j - q * s < s" using False by simp
    moreover have "j = (j - q * s) + q * s" using q(2) by simp
    ultimately show ?thesis using False q(1) by (metis diff_Suc_1 mod_less mod_mult_self1)
  qed
qed

lemma xc_inRange_since:
  assumes "0 < s" and "k \<le> n" and "n < 2 ^ 63" and "oldest n s \<le> j" and "j < n"
  shows "xc_inRange (j mod s) (word_of_nat (k div s)) (int (k mod s)) (word_of_nat (n div s)) (int (n mod s)) \<longleftrightarrow> k \<le> j"
proof -
  define q r Q R where "q = k div s" and "r = k mod s" and "Q = n div s" and "R = n mod s"
  have k: "k = q * s + r" and n: "n = Q * s + R" by (simp_all add: q_def r_def Q_def R_def)
  have rR: "r < s" "R < s" using assms(1) by (simp_all add: r_def R_def)
  have le: "q \<le> Q" using assms(2) by (simp add: q_def Q_def div_le_mono)
  have lt: "Q < 2 ^ 63" using assms(3) by (simp add: Q_def) (meson div_le_dividend le_less_trans)
  note diff = loop_diff [OF le lt]
  have o: "n - min n s \<le> j" "n \<le> j + s" using assms(4) by (simp_all add: oldest_def)
  note mod = mod_recent [OF n rR(2) o(1) assms(5)]
  have range: "xc_inRange (j mod s) (word_of_nat q) (int r) (word_of_nat Q) (int R) \<longleftrightarrow>
    (if q = Q then r \<le> j mod s \<and> j mod s < R else if Q = Suc q then r \<le> R \<or> r \<le> j mod s \<or> j mod s < R else True)"
    unfolding xc_inRange_def diff by (simp only: of_nat_le_iff of_nat_less_iff) auto
  consider (same) "q = Q" | (succ) "Q = Suc q" | (far) "Suc q < Q" using le by linarith
  then have "(if q = Q then r \<le> j mod s \<and> j mod s < R else if Q = Suc q then r \<le> R \<or> r \<le> j mod s \<or> j mod s < R else True) \<longleftrightarrow> k \<le> j"
  proof cases
    case same
    show ?thesis
    proof (cases "Q * s \<le> j")
      case True
      then show ?thesis using mod(1) k n same assms(5) by simp linarith
    next
      case False
      then obtain p where p: "Q = Suc p" "p * s \<le> j" using mod(2) by (cases Q) auto
      have "R \<le> j - p * s" "\<not> k \<le> j" using k n same o(2) False p by simp_all
      then show ?thesis using mod(1) same False p(1) by simp
    qed
  next
    case succ
    show ?thesis
    proof (cases "Q * s \<le> j")
      case True
      then show ?thesis using mod(1) k n succ assms(5) rR by simp linarith
    next
      case False
      then show ?thesis using mod k n succ o(2) rR by simp linarith
    qed
  next
    case far
    have "Suc (Suc q) * s \<le> Q * s" using far by (intro mult_le_mono1) simp
    then show ?thesis using far k n rR o(2) by simp
  qed
  then show ?thesis using range unfolding q_def r_def Q_def R_def by simp
qed

lemma xc_Get_hashes:
  assumes "xc_rep s log c" and "k \<le> length log" and "length log < 2 ^ 63" and "distinct hs"
  shows "\<exists>d. xc_Get (word_of_nat (k div s)) (int (k mod s)) m (Some hs) c = Ok (word_of_nat (length log div s), length log mod s, d) \<and>
    mset d = mset (filter (\<lambda>e. ce_ObjHash e \<in> set hs \<and> xc_keep m e) (drop (max k (oldest (length log) s)) log))"
proof -
  let ?n = "length log" and ?o = "oldest (length log) s" and ?a = "max k (oldest (length log) s)"
  let ?in = "\<lambda>p. xc_inRange p (word_of_nat (k div s)) (int (k mod s)) (word_of_nat (?n div s)) (int (?n mod s))"
  have s: "0 < s" and pos: "xc_pos c = ?n mod s" and loop: "xc_loop c = word_of_nat (?n div s)"
    and idx: "\<And>h. xc_objIndex c h = map (\<lambda>j. j mod s) (filter (\<lambda>j. ce_ObjHash (log ! j) = h) [?o..<?n])"
    and ent: "\<And>j. ?o \<le> j \<Longrightarrow> j < ?n \<Longrightarrow> xc_entries c ! (j mod s) = log ! j"
    using assms(1) by (simp_all add: xc_rep_def)
  have a: "?o \<le> ?a" "?a \<le> ?n" using assms(2) by (simp_all add: oldest_def)
  have part: "map (\<lambda>pos. xc_entries c ! pos) (filter ?in (xc_objIndex c h)) = filter (\<lambda>e. ce_ObjHash e = h) (drop ?a log)" for h
  proof -
    have "filter ?in (xc_objIndex c h) = map (\<lambda>j. j mod s) (filter (\<lambda>j. ce_ObjHash (log ! j) = h \<and> k \<le> j) [?o..<?n])"
      unfolding idx filter_map filter_filter comp_def
      using xc_inRange_since [OF s assms(2,3)] by (intro arg_cong [of _ _ "map _"] filter_cong) auto
    also have "filter (\<lambda>j. ce_ObjHash (log ! j) = h \<and> k \<le> j) [?o..<?n] = filter (\<lambda>j. ce_ObjHash (log ! j) = h) [?a..<?n]"
    proof -
      have "[?o..<?n] = [?o..<?a] @ [?a..<?n]" using a by (metis le_add_diff_inverse upt_add_eq_append)
      moreover have "filter (\<lambda>j. ce_ObjHash (log ! j) = h \<and> k \<le> j) [?o..<?a] = []" by (auto simp: filter_empty_conv)
      moreover have "filter (\<lambda>j. ce_ObjHash (log ! j) = h \<and> k \<le> j) [?a..<?n] = filter (\<lambda>j. ce_ObjHash (log ! j) = h) [?a..<?n]"
        by (intro filter_cong) auto
      ultimately show ?thesis by simp
    qed
    finally have "map (\<lambda>pos. xc_entries c ! pos) (filter ?in (xc_objIndex c h)) =
        map (\<lambda>j. log ! j) (filter (\<lambda>j. ce_ObjHash (log ! j) = h) [?a..<?n])" using ent a by auto
    also have "\<dots> = filter (\<lambda>e. ce_ObjHash e = h) (map (\<lambda>j. log ! j) [?a..<?n])" by (simp add: filter_map comp_def)
    also have "map (\<lambda>j. log ! j) [?a..<?n] = drop ?a log" using a by (intro nth_equalityI) simp_all
    finally show ?thesis .
  qed
  have "xc_copyFromIndex c (word_of_nat (k div s)) (int (k mod s)) (word_of_nat (?n div s)) (int (?n mod s)) m hs =
      concat (map (\<lambda>h. filter (\<lambda>e. ce_ObjHash e = h) (filter (xc_keep m) (drop ?a log))) hs)"
    unfolding xc_copyFromIndex_def part filter_filter by (intro arg_cong [of _ _ concat] map_cong refl filter_cong) auto
  then have "mset (xc_copyFromIndex c (word_of_nat (k div s)) (int (k mod s)) (word_of_nat (?n div s)) (int (?n mod s)) m hs) =
      mset (filter (\<lambda>e. ce_ObjHash e \<in> set hs \<and> xc_keep m e) (drop ?a log))"
    using mset_concat_keys [OF assms(4), of ce_ObjHash "filter (xc_keep m) (drop ?a log)"]
    by (simp only: mset_filter filter_filter_mset conj_commute)
  then show ?thesis by (simp add: xc_Get_def Let_def pos loop)
qed

text \<open>\<open>GetRecent\<close> returns the newest entries, \<open>GetRecentByObjHash\<close> the oldest ones of an object.\<close>

lemma xc_ring:
  assumes "xc_rep s log c" and "n \<le> min (length log) s"
  shows "map (\<lambda>i. xc_entries c ! (((xc_pos c + s - n) mod s + i) mod s)) [0..<n] = drop (length log - n) log"
proof -
  let ?l = "length log"
  have s: "0 < s" and pos: "xc_pos c = ?l mod s" using assms(1) by (simp_all add: xc_rep_def)
  have "((?l mod s + s - n) mod s + i) mod s = (?l - n + i) mod s" for i
  proof -
    have "(?l mod s + s - n) mod s = (?l - n) mod s"
    proof -
      have "(?l mod s + s - n) mod s = (?l mod s + (s - n)) mod s" using assms(2) by simp
      also have "\<dots> = (?l + (s - n)) mod s" by (simp add: mod_add_left_eq)
      also have "?l + (s - n) = (?l - n) + s" using assms(2) by simp
      finally show ?thesis by simp
    qed
    then show ?thesis by (simp add: mod_add_left_eq)
  qed
  then have "map (\<lambda>i. xc_entries c ! (((xc_pos c + s - n) mod s + i) mod s)) [0..<n] = map (\<lambda>i. log ! (?l - n + i)) [0..<n]"
    using assms by (auto simp: pos xc_rep_def oldest_def)
  also have "\<dots> = drop (?l - n) log" using assms(2) by (intro nth_equalityI) simp_all
  finally show ?thesis .
qed

lemma xc_GetRecent_rep:
  assumes "xc_rep s log c" and "0 \<le> maxCount"
  shows "xc_GetRecent maxCount c = Ok (drop (length log - min (nat maxCount) (min (length log) s)) log)"
proof -
  let ?n = "min (nat maxCount) (min (length log) s)"
  have n: "nat (if maxCount < int (xc_count c) then maxCount else int (xc_count c)) = ?n" "xc_size c = s" "0 < s"
    using assms by (auto simp: xc_rep_def)
  have "?n \<le> min (length log) s" by (rule min.cobounded2)
  note ring = xc_ring [OF assms(1) this]
  have "(if maxCount < int (xc_count c) then maxCount else int (xc_count c)) < 0 \<longleftrightarrow> False" "s = 0 \<longleftrightarrow> False"
    using assms(2) n(3) by simp_all
  then show ?thesis unfolding xc_GetRecent_def Let_def n(1,2) by (simp only: if_False ring)
qed

lemma xc_GetRecentByObjHash_rep:
  assumes "xc_rep s log c"
  shows "xc_GetRecentByObjHash h maxCount c =
    Ok (take (nat maxCount) (filter (\<lambda>e. ce_ObjHash e = h) (drop (oldest (length log) s) log)))"
proof -
  have n: "xc_count c = min (length log) s" "xc_size c = s" "0 < s" using assms by (simp_all add: xc_rep_def)
  note ring = xc_ring [OF assms order_refl]
  have "s = 0 \<longleftrightarrow> False" using n(3) by simp
  then show ?thesis unfolding xc_GetRecentByObjHash_def Let_def n(1,2) oldest_def by (simp only: if_False ring)
qed

subsection \<open>A client that polls\<close>

text \<open>Batches of entries, with a poll after each from the position that the last one returned.\<close>

fun xc_polls :: "i32 \<Rightarrow> XLogEntry list list \<Rightarrow> i64 \<Rightarrow> nat \<Rightarrow> XLogCache \<Rightarrow> XLogEntry list list res" where
  "xc_polls m [] l i c = Ok []"
| "xc_polls m (b # bs) l i c = res_bind (xc_Puts b c) (\<lambda>c. res_bind (xc_Get l (int i) m None c)
     (\<lambda>(l, i, d). res_bind (xc_polls m bs l i c) (\<lambda>ds. Ok (d # ds))))"

lemma newest_part: "drop (max (length old) (oldest (length (old @ b)) s)) (old @ b) = drop (length b - s) b"
  by (cases "length (old @ b) \<le> s") (auto simp: oldest_def max_def)

lemma xc_polls_rep:
  assumes "xc_rep s old c" and "\<forall>e \<in> set (concat bs). ce_Data e \<noteq> None" and "length old + length (concat bs) < 2 ^ 63"
  shows "xc_polls m bs (word_of_nat (length old div s)) (length old mod s) c =
    Ok (map (\<lambda>b. filter (xc_keep m) (drop (length b - s) b)) bs)"
  using assms
proof (induction bs arbitrary: old c)
  case (Cons b bs)
  obtain c1 where c1: "xc_Puts b c = Ok c1" "xc_rep s (old @ b) c1" using xc_Puts_from [OF Cons.prems(1), of b] Cons.prems(2) by auto
  have "length (old @ b) < 2 ^ 63" using Cons.prems(3) by simp
  note get = xc_Get_since [OF c1(2) _ this, of "length old" m, unfolded newest_part]
  show ?case using c1(1) get Cons.IH [OF c1(2)] Cons.prems(2,3) by simp
qed simp

end
