(* ===== verification/AlertCache.thy ===== *)
theory AlertCache
  imports XLogCache
begin

text \<open>
  internal/core/cache/alert\_cache.go: the ring of the newest alerts. A poll gets what was added since
  the position of the last one, or nothing when more than the size of the ring was added.
\<close>

record AlertCache =
  ac_buf :: "bytes option list"
  ac_size :: nat
  ac_loop :: i64
  ac_index :: nat

definition NewAlertCache :: "nat \<Rightarrow> AlertCache" where
  "NewAlertCache n = \<lparr>ac_buf = replicate n None, ac_size = n, ac_loop = 0, ac_index = 0\<rparr>"

definition ac_Add :: "bytes option \<Rightarrow> AlertCache \<Rightarrow> AlertCache res" where
  "ac_Add data c =
     (if length (ac_buf c) \<le> ac_index c then Panic IndexOutOfRange
      else let c = c\<lparr>ac_buf := (ac_buf c)[ac_index c := data], ac_index := ac_index c + 1\<rparr>
           in Ok (if ac_size c \<le> ac_index c then c\<lparr>ac_index := 0, ac_loop := ac_loop c + 1\<rparr> else c))"

text \<open>The loops over a part of the ring, which skip what is nil.\<close>

definition ac_copy :: "AlertCache \<Rightarrow> int \<Rightarrow> int \<Rightarrow> bytes list res" where
  "ac_copy c from to =
     (if from < to \<and> (from < 0 \<or> int (length (ac_buf c)) < to) then Panic IndexOutOfRange
      else Ok (List.map_filter (\<lambda>i. ac_buf c ! i) [nat from..<nat to]))"

definition ac_GetSince :: "i64 \<Rightarrow> int \<Rightarrow> AlertCache \<Rightarrow> (bytes list \<times> i64 \<times> nat) res" where
  "ac_GetSince clientLoop clientIndex c =
     (let curLoop = ac_loop c; curIndex = ac_index c; done = (\<lambda>result. Ok (result, curLoop, curIndex))
      in if sint clientLoop < sint (curLoop - 1) then done []
         else if clientLoop = curLoop \<and> clientIndex = int curIndex then done []
         else if clientLoop = curLoop then res_bind (ac_copy c clientIndex (int curIndex)) done
         else if clientLoop = curLoop - 1 \<and> int curIndex < clientIndex then
           res_bind (ac_copy c clientIndex (int (ac_size c))) (\<lambda>xs. res_bind (ac_copy c 0 (int curIndex)) (\<lambda>ys. done (xs @ ys)))
         else done [])"

definition ac_Position :: "AlertCache \<Rightarrow> i64 \<times> nat" where
  "ac_Position c = (ac_loop c, ac_index c)"

subsection \<open>The log\<close>

fun ac_Adds :: "bytes list \<Rightarrow> AlertCache \<Rightarrow> AlertCache res" where
  "ac_Adds [] c = Ok c"
| "ac_Adds (d # ds) c = res_bind (ac_Add (Some d) c) (ac_Adds ds)"

definition ac_rep :: "nat \<Rightarrow> bytes list \<Rightarrow> AlertCache \<Rightarrow> bool" where
  "ac_rep s log c \<longleftrightarrow> 0 < s \<and> ac_size c = s \<and> length (ac_buf c) = s \<and>
     ac_index c = length log mod s \<and> ac_loop c = word_of_nat (length log div s) \<and>
     (\<forall>j. oldest (length log) s \<le> j \<longrightarrow> j < length log \<longrightarrow> ac_buf c ! (j mod s) = Some (log ! j))"

lemma ac_new_rep: "0 < s \<Longrightarrow> ac_rep s [] (NewAlertCache s)"
  by (simp add: ac_rep_def NewAlertCache_def)

lemma ac_Add_rep:
  assumes "ac_rep s log c"
  shows "\<exists>c'. ac_Add (Some d) c = Ok c' \<and> ac_rep s (log @ [d]) c'"
proof -
  let ?n = "length log" and ?p = "length log mod s"
  have s: "0 < s" and size: "ac_size c = s" "length (ac_buf c) = s" and pos: "ac_index c = ?p"
    and loop: "ac_loop c = word_of_nat (?n div s)"
    and ent: "\<And>j. oldest ?n s \<le> j \<Longrightarrow> j < ?n \<Longrightarrow> ac_buf c ! (j mod s) = Some (log ! j)"
    using assms by (simp_all add: ac_rep_def)
  have p: "?p < s" "\<not> s \<le> ?p" using mod_less_divisor [OF s, of ?n] by linarith+
  define c' where "c' = \<lparr>ac_buf = (ac_buf c)[?p := Some d], ac_size = s, ac_loop = word_of_nat (Suc ?n div s), ac_index = Suc ?n mod s\<rparr>"
  have "c = \<lparr>ac_buf = ac_buf c, ac_size = s, ac_loop = word_of_nat (?n div s), ac_index = ?p\<rparr>"
    using size pos loop by (cases c) simp
  then obtain es where c: "c = \<lparr>ac_buf = es, ac_size = s, ac_loop = word_of_nat (?n div s), ac_index = ?p\<rparr>" by metis
  have "ac_Add (Some d) c = Ok c'"
    unfolding ac_Add_def Let_def c'_def using p s size unfolding c
    by (cases "Suc ?p = s") (simp_all add: mod_Suc_eq div_Suc_eq)
  moreover have "ac_buf c' ! (j mod s) = Some ((log @ [d]) ! j)" if "oldest (Suc ?n) s \<le> j" "j < Suc ?n" for j
  proof (cases "j = ?n")
    case False
    then have "j < ?n" "oldest ?n s \<le> j" "?n < j + s" using that by (auto simp: oldest_def)
    then show ?thesis using ent mod_neq [of ?n j s] by (simp add: c'_def nth_append)
  qed (use p size in \<open>simp add: c'_def\<close>)
  then have "ac_rep s (log @ [d]) c'" using s size by (simp add: ac_rep_def c'_def)
  ultimately show ?thesis by blast
qed

lemma ac_Adds_from:
  assumes "ac_rep s old c"
  shows "\<exists>c'. ac_Adds log c = Ok c' \<and> ac_rep s (old @ log) c'"
  using assms
proof (induction log arbitrary: old c)
  case (Cons d log)
  then obtain c1 where "ac_Add (Some d) c = Ok c1" "ac_rep s (old @ [d]) c1" using ac_Add_rep by blast
  with Cons.IH [of "old @ [d]" c1] show ?case by simp
qed simp

lemma ac_slice:
  assumes "ac_rep s log c" and "oldest (length log) s \<le> a" and "b \<le> length log" and "map (\<lambda>j. j mod s) [a..<b] = is"
  shows "List.map_filter (\<lambda>i. ac_buf c ! i) is = drop a (take b log)"
proof -
  have all: "List.map_filter (\<lambda>i. ac_buf c ! i) (map (\<lambda>j. j mod s) js) = map (\<lambda>j. log ! j) js"
    if "\<And>j. j \<in> set js \<Longrightarrow> ac_buf c ! (j mod s) = Some (log ! j)" for js
    using that by (induction js) (simp_all add: List.map_filter_simps)
  have "ac_buf c ! (j mod s) = Some (log ! j)" if "j \<in> set [a..<b]" for j
    using assms(1-3) that by (simp add: ac_rep_def)
  then have "List.map_filter (\<lambda>i. ac_buf c ! i) is = map (\<lambda>j. log ! j) [a..<b]" unfolding assms(4) [symmetric] by (rule all)
  also have "\<dots> = drop a (take b log)" using assms(3) by (intro nth_equalityI) simp_all
  finally show ?thesis .
qed

lemma ac_GetSince_rep:
  assumes "ac_rep s log c" and "k \<le> length log" and "length log < 2 ^ 63"
  shows "ac_GetSince (word_of_nat (k div s)) (int (k mod s)) c =
    Ok (if length log < k + s then drop k log else [], word_of_nat (length log div s), length log mod s)"
proof -
  let ?n = "length log"
  have s: "0 < s" and pos: "ac_index c = ?n mod s" and loop: "ac_loop c = word_of_nat (?n div s)"
    and size: "ac_size c = s" "length (ac_buf c) = s"
    using assms(1) by (simp_all add: ac_rep_def)
  define q r Q R where "q = k div s" and "r = k mod s" and "Q = ?n div s" and "R = ?n mod s"
  have k: "k = q * s + r" and n: "?n = Q * s + R" by (simp_all add: q_def r_def Q_def R_def)
  have rR: "r < s" "R < s" using s by (simp_all add: r_def R_def)
  have le: "q \<le> Q" using assms(2) by (simp add: q_def Q_def div_le_mono)
  have lt: "Q < 2 ^ 63" using assms(3) by (simp add: Q_def) (meson div_le_dividend le_less_trans)
  note diff = loop_diff [OF le lt]
  have sq: "sint (word_of_nat q :: i64) = int q" "sint (word_of_nat Q :: i64) = int Q"
    using le lt by (simp_all add: sint_word_of_nat)
  have eq0: "(word_of_nat q :: i64) = word_of_nat Q \<longleftrightarrow> q = Q" using diff(1) by (metis right_minus_eq)
  have eq1: "(word_of_nat q :: i64) = word_of_nat Q - 1 \<longleftrightarrow> Q = Suc q"
    using diff(2) by (metis add.commute add_diff_cancel_right' diff_add_cancel)
  have below: "sint (word_of_nat q :: i64) < sint (word_of_nat Q - 1 :: i64) \<longleftrightarrow> Suc q < Q"
  proof (cases Q)
    case (Suc p)
    then have "word_of_nat Q - 1 = (word_of_nat p :: i64)" by simp
    then show ?thesis using Suc sq(1) lt by (simp add: sint_word_of_nat)
  next
    case 0
    then show ?thesis using le by simp
  qed
  consider (same) "q = Q" | (next_small) "Q = Suc q" "r \<le> R" | (next_large) "Q = Suc q" "R < r" | (far) "Suc q < Q"
    using le by linarith
  then have "ac_GetSince (word_of_nat q) (int r) c =
    Ok (if ?n < k + s then drop k log else [], word_of_nat Q, R)"
  proof cases
    case same
    have "map (\<lambda>j. j mod s) [k..<?n] = [k - Q * s..<?n - Q * s]" using k n rR same by (intro upt_mod) simp_all
    then have "map (\<lambda>j. j mod s) [k..<?n] = [r..<R]" using k n same by simp
    moreover have "oldest ?n s \<le> k" using k n rR same by (simp add: oldest_def)
    ultimately have "List.map_filter (\<lambda>i. ac_buf c ! i) [r..<R] = drop k log"
      using ac_slice [OF assms(1), of k ?n] by simp
    moreover have "?n < k + s" "r = R \<Longrightarrow> drop k log = []" using k n same rR by simp_all
    ultimately show ?thesis using same below rR
      by (simp add: ac_GetSince_def ac_copy_def Let_def pos loop size Q_def [symmetric] R_def [symmetric])
  next
    case next_small
    then have "\<not> ?n < k + s" using k n by simp
    then show ?thesis using next_small below eq0 eq1
      by (simp add: ac_GetSince_def Let_def pos loop Q_def [symmetric] R_def [symmetric])
  next
    case next_large
    have o: "oldest ?n s \<le> k" and lt: "?n < k + s" using k n rR next_large by (simp_all add: oldest_def)
    have "map (\<lambda>j. j mod s) [k..<Q * s] = [k - q * s..<Q * s - q * s]" using k next_large by (intro upt_mod) simp_all
    then have one: "List.map_filter (\<lambda>i. ac_buf c ! i) [r..<s] = drop k (take (Q * s) log)"
      using k n next_large by (intro ac_slice [OF assms(1) o]) simp_all
    have "map (\<lambda>j. j mod s) [Q * s..<?n] = [Q * s - Q * s..<?n - Q * s]" using n rR by (intro upt_mod) simp_all
    then have two: "List.map_filter (\<lambda>i. ac_buf c ! i) [0..<R] = drop (Q * s) (take ?n log)"
      using n o k rR next_large by (intro ac_slice [OF assms(1)]) (simp_all add: oldest_def)
    have "drop k (take (Q * s) log) @ drop (Q * s) log = drop k log"
    proof -
      have "k \<le> Q * s" using k next_large rR by simp
      then show ?thesis by (metis append_take_drop_id drop_take drop_drop le_add_diff_inverse2)
    qed
    then show ?thesis using next_large below eq0 eq1 one two lt rR
      by (simp add: ac_GetSince_def ac_copy_def Let_def pos loop size Q_def [symmetric] R_def [symmetric])
  next
    case far
    have "Suc (Suc q) * s \<le> Q * s" using far by (intro mult_le_mono1) simp
    then have "\<not> ?n < k + s" using k n rR by simp
    then show ?thesis using far below by (simp add: ac_GetSince_def Let_def pos loop Q_def [symmetric] R_def [symmetric])
  qed
  then show ?thesis by (simp add: q_def r_def Q_def R_def)
qed

subsection \<open>A client that polls\<close>

fun ac_polls :: "bytes list list \<Rightarrow> i64 \<Rightarrow> nat \<Rightarrow> AlertCache \<Rightarrow> bytes list list res" where
  "ac_polls [] l i c = Ok []"
| "ac_polls (b # bs) l i c = res_bind (ac_Adds b c) (\<lambda>c. res_bind (ac_GetSince l (int i) c)
     (\<lambda>(d, l, i). res_bind (ac_polls bs l i c) (\<lambda>ds. Ok (d # ds))))"

lemma ac_polls_rep:
  assumes "ac_rep s old c" and "length old + length (concat bs) < 2 ^ 63"
  shows "ac_polls bs (word_of_nat (length old div s)) (length old mod s) c = Ok (map (\<lambda>b. if length b < s then b else []) bs)"
  using assms
proof (induction bs arbitrary: old c)
  case (Cons b bs)
  obtain c1 where c1: "ac_Adds b c = Ok c1" "ac_rep s (old @ b) c1" using ac_Adds_from [OF Cons.prems(1)] by blast
  have "length (old @ b) < 2 ^ 63" using Cons.prems(2) by simp
  note get = ac_GetSince_rep [OF c1(2) _ this, of "length old"]
  show ?case using c1(1) get Cons.IH [OF c1(2)] Cons.prems(2) by simp
qed simp

end
