(* ===== verification/TextCache.thy ===== *)
theory TextCache
  imports Prelude
begin

text \<open>
  internal/core/cache/text\_cache.go: texts by type and hash, with eviction of the least recently used.
  The code keeps a \<open>container/list\<close> of entries and a map from keys to its elements; an element is an
  address here and \<open>tc_heap\<close> gives the entry it points to, so that an update through the map is seen in
  the list. The lemmas show that the list, the map and the pointers together are the plain
  list of the \<open>maxSize\<close> entries used last.
\<close>

definition defaultTextCacheMaxSize :: nat where "defaultTextCacheMaxSize = 100000"

type_synonym textKey = "string \<times> i32"

record textEntry =
  te_key :: textKey
  te_value :: string

record TextCache =
  tc_maxSize :: nat
  tc_items :: "textKey \<Rightarrow> nat option"
  tc_evict :: "nat list"
  tc_heap :: "nat \<Rightarrow> textEntry"
  tc_fresh :: nat

definition NewTextCacheWithSize :: "int \<Rightarrow> TextCache" where
  "NewTextCacheWithSize maxSize =
     \<lparr>tc_maxSize = (if maxSize \<le> 0 then defaultTextCacheMaxSize else nat maxSize), tc_items = (\<lambda>_. None),
      tc_evict = [], tc_heap = (\<lambda>_. \<lparr>te_key = ([], 0), te_value = []\<rparr>), tc_fresh = 0\<rparr>"

definition NewTextCache :: TextCache where
  "NewTextCache = NewTextCacheWithSize (int defaultTextCacheMaxSize)"

definition MoveToFront :: "nat \<Rightarrow> TextCache \<Rightarrow> TextCache" where
  "MoveToFront e c = c\<lparr>tc_evict := (if e \<in> set (tc_evict c) then e # remove1 e (tc_evict c) else tc_evict c)\<rparr>"

definition removeElement :: "nat \<Rightarrow> TextCache \<Rightarrow> TextCache" where
  "removeElement e c = c\<lparr>tc_evict := remove1 e (tc_evict c), tc_items := (tc_items c)(te_key (tc_heap c e) := None)\<rparr>"

text \<open>The loop that makes room; it ends because every round takes an element out of the list.\<close>

function makeRoom :: "TextCache \<Rightarrow> TextCache" where
  "makeRoom c =
     (if length (tc_evict c) < tc_maxSize c then c
      else if tc_evict c = [] then c
      else makeRoom (removeElement (last (tc_evict c)) c))"
  by pat_completeness auto

termination
  by (relation "measure (\<lambda>c. length (tc_evict c))") (auto simp: removeElement_def length_remove1)

declare makeRoom.simps [simp del]

definition tc_Put :: "string \<Rightarrow> i32 \<Rightarrow> string \<Rightarrow> TextCache \<Rightarrow> TextCache" where
  "tc_Put dv hash text c =
     (let key = (dv, hash)
      in case tc_items c key of
           Some e \<Rightarrow> (let c = MoveToFront e c in c\<lparr>tc_heap := (tc_heap c)(e := (tc_heap c e)\<lparr>te_value := text\<rparr>)\<rparr>)
         | None \<Rightarrow>
             (let c = makeRoom c; e = tc_fresh c
              in c\<lparr>tc_heap := (tc_heap c)(e := \<lparr>te_key = key, te_value = text\<rparr>), tc_evict := e # tc_evict c,
                   tc_items := (tc_items c)(key := Some e), tc_fresh := e + 1\<rparr>))"

definition tc_Get :: "string \<Rightarrow> i32 \<Rightarrow> TextCache \<Rightarrow> string option \<times> TextCache" where
  "tc_Get dv hash c = (case tc_items c (dv, hash) of
     None \<Rightarrow> (None, c)
   | Some e \<Rightarrow> (Some (te_value (tc_heap c e)), MoveToFront e c))"

definition tc_Size :: "TextCache \<Rightarrow> nat" where
  "tc_Size c = length (tc_evict c)"

subsection \<open>The entries used last\<close>

type_synonym lru = "(textKey \<times> string) list"

definition lru_touch :: "textKey \<Rightarrow> string \<Rightarrow> lru \<Rightarrow> lru" where
  "lru_touch k v xs = (k, v) # filter (\<lambda>x. fst x \<noteq> k) xs"

definition lru_Put :: "nat \<Rightarrow> textKey \<Rightarrow> string \<Rightarrow> lru \<Rightarrow> lru" where
  "lru_Put n k v xs = take n (lru_touch k v xs)"

definition lru_Get :: "textKey \<Rightarrow> lru \<Rightarrow> string option \<times> lru" where
  "lru_Get k xs = (map_of xs k, case map_of xs k of None \<Rightarrow> xs | Some v \<Rightarrow> lru_touch k v xs)"

definition tc_abs :: "TextCache \<Rightarrow> lru" where
  "tc_abs c = map (\<lambda>e. (te_key (tc_heap c e), te_value (tc_heap c e))) (tc_evict c)"

definition tc_inv :: "TextCache \<Rightarrow> bool" where
  "tc_inv c \<longleftrightarrow> 0 < tc_maxSize c \<and> length (tc_evict c) \<le> tc_maxSize c \<and> distinct (tc_evict c) \<and>
     (\<forall>e \<in> set (tc_evict c). e < tc_fresh c) \<and>
     (\<forall>k e. tc_items c k = Some e \<longleftrightarrow> e \<in> set (tc_evict c) \<and> te_key (tc_heap c e) = k)"

lemma tc_new: "tc_inv (NewTextCacheWithSize n)" "tc_abs (NewTextCacheWithSize n) = []"
  "tc_maxSize (NewTextCacheWithSize n) = (if n \<le> 0 then defaultTextCacheMaxSize else nat n)"
  by (auto simp: tc_inv_def tc_abs_def NewTextCacheWithSize_def defaultTextCacheMaxSize_def)

lemma tc_item:
  assumes "tc_inv c"
  shows "tc_items c k = Some e \<longleftrightarrow> e \<in> set (tc_evict c) \<and> te_key (tc_heap c e) = k"
  using assms unfolding tc_inv_def by blast

lemma tc_keys:
  assumes "tc_inv c" and "e \<in> set (tc_evict c)" and "e' \<in> set (tc_evict c)" and "te_key (tc_heap c e) = te_key (tc_heap c e')"
  shows "e = e'"
  using assms by (metis option.inject tc_item)

lemma tc_lookup:
  assumes "tc_inv c"
  shows "map_of (tc_abs c) k = map_option (\<lambda>e. te_value (tc_heap c e)) (tc_items c k)"
proof (cases "tc_items c k")
  case None
  then have "\<forall>e \<in> set (tc_evict c). te_key (tc_heap c e) \<noteq> k" using tc_item [OF assms, of k] by auto
  then show ?thesis using None by (auto simp: tc_abs_def map_of_eq_None_iff)
next
  case (Some e)
  then have e: "e \<in> set (tc_evict c)" "te_key (tc_heap c e) = k" using tc_item [OF assms] by auto
  have "distinct (map fst (tc_abs c))"
    using assms tc_keys [OF assms] by (simp add: tc_abs_def distinct_map inj_on_def comp_def tc_inv_def)
  then have "map_of (tc_abs c) k = Some (te_value (tc_heap c e))" using e by (auto simp: tc_abs_def intro!: map_of_is_SomeI)
  then show ?thesis using Some by simp
qed

lemma tc_others:
  assumes "tc_inv c" and "e \<in> set (tc_evict c)"
  shows "filter (\<lambda>x. fst x \<noteq> te_key (tc_heap c e)) (tc_abs c) =
    map (\<lambda>e. (te_key (tc_heap c e), te_value (tc_heap c e))) (remove1 e (tc_evict c))"
proof -
  have "filter (\<lambda>e'. te_key (tc_heap c e') \<noteq> te_key (tc_heap c e)) (tc_evict c) = filter (\<lambda>e'. e' \<noteq> e) (tc_evict c)"
    using tc_keys [OF assms(1) assms(2)] by (intro filter_cong refl) metis
  also have "\<dots> = remove1 e (tc_evict c)"
    using assms(1) by (simp add: tc_inv_def distinct_remove1_removeAll removeAll_filter_not_eq)
      (auto intro: filter_cong)
  finally show ?thesis by (simp add: tc_abs_def filter_map comp_def)
qed

lemma MoveToFront_inv:
  assumes "tc_inv c" and "tc_items c k = Some e"
  shows "tc_inv (MoveToFront e c)" and "tc_abs (MoveToFront e c) = lru_touch k (te_value (tc_heap c e)) (tc_abs c)"
proof -
  have e: "e \<in> set (tc_evict c)" "te_key (tc_heap c e) = k" using tc_item [OF assms(1)] assms(2) by auto
  then show "tc_abs (MoveToFront e c) = lru_touch k (te_value (tc_heap c e)) (tc_abs c)"
    using tc_others [OF assms(1) e(1)] by (simp add: MoveToFront_def lru_touch_def tc_abs_def)
  have "set (e # remove1 e (tc_evict c)) = set (tc_evict c)" "distinct (e # remove1 e (tc_evict c))"
    "length (e # remove1 e (tc_evict c)) = length (tc_evict c)"
    using assms(1) e(1) length_pos_if_in_set [OF e(1)] by (auto simp: tc_inv_def length_remove1)
  then show "tc_inv (MoveToFront e c)" using assms(1) e(1) by (simp add: tc_inv_def MoveToFront_def)
qed

lemma tc_Get_abs:
  assumes "tc_inv c"
  shows "tc_inv (snd (tc_Get d h c))" and "(fst (tc_Get d h c), tc_abs (snd (tc_Get d h c))) = lru_Get (d, h) (tc_abs c)"
    and "tc_maxSize (snd (tc_Get d h c)) = tc_maxSize c"
  using assms MoveToFront_inv [OF assms] tc_lookup [OF assms]
  by (auto simp: tc_Get_def lru_Get_def MoveToFront_def split: option.splits)

lemma removeElement_last:
  assumes "tc_inv c" and "tc_evict c \<noteq> []"
  shows "tc_inv (removeElement (last (tc_evict c)) c)" and "tc_abs (removeElement (last (tc_evict c)) c) = butlast (tc_abs c)"
    and "tc_evict (removeElement (last (tc_evict c)) c) = butlast (tc_evict c)"
proof -
  let ?e = "last (tc_evict c)"
  have es: "tc_evict c = butlast (tc_evict c) @ [?e]" using assms(2) by simp
  have d: "distinct (butlast (tc_evict c) @ [?e])" using assms(1) es by (simp add: tc_inv_def)
  then show ev: "tc_evict (removeElement ?e c) = butlast (tc_evict c)"
    using es by (simp add: removeElement_def) (metis append_Nil2 distinct_append remove1.simps remove1_append list.set_intros(1) disjoint_iff)
  then show "tc_abs (removeElement ?e c) = butlast (tc_abs c)"
    by (simp add: tc_abs_def map_butlast) (simp add: removeElement_def)
  have "tc_items (removeElement ?e c) k = Some e \<longleftrightarrow> e \<in> set (butlast (tc_evict c)) \<and> te_key (tc_heap c e) = k" for k e
  proof -
    have mem: "e \<in> set (tc_evict c) \<longleftrightarrow> e \<in> set (butlast (tc_evict c)) \<or> e = ?e"
      by (subst es) (auto simp del: append_butlast_last_id)
    have last: "?e \<in> set (tc_evict c)" "?e \<notin> set (butlast (tc_evict c))" using assms(2) d by (simp_all del: append_butlast_last_id)
    show ?thesis
    proof (cases "k = te_key (tc_heap c ?e)")
      case True
      then show ?thesis using tc_keys [OF assms(1) _ last(1)] mem last(2) by (auto simp: removeElement_def)
    next
      case False
      then show ?thesis using assms(1) mem by (auto simp: removeElement_def tc_item)
    qed
  qed
  then show "tc_inv (removeElement ?e c)" using assms(1) ev d in_set_butlastD [of _ "tc_evict c"]
    by (auto simp: tc_inv_def removeElement_def)
qed

lemma makeRoom_inv:
  "tc_inv c \<Longrightarrow> tc_inv (makeRoom c) \<and> length (tc_evict (makeRoom c)) < tc_maxSize c \<and>
    tc_abs (makeRoom c) = take (tc_maxSize c - 1) (tc_abs c) \<and> tc_maxSize (makeRoom c) = tc_maxSize c"
proof (induction c rule: makeRoom.induct)
  case (1 c)
  have len: "length (tc_abs c) = length (tc_evict c)" by (simp add: tc_abs_def)
  consider "length (tc_evict c) < tc_maxSize c" | "\<not> length (tc_evict c) < tc_maxSize c" "tc_evict c \<noteq> []"
    using "1.prems" unfolding tc_inv_def by fastforce
  then show ?case
  proof cases
    case 1
    then show ?thesis using "1.prems" len by (simp add: makeRoom.simps [of c])
  next
    case 2
    let ?c = "removeElement (last (tc_evict c)) c"
    note rem = removeElement_last [OF "1.prems" 2(2)]
    have full: "length (tc_evict c) = tc_maxSize c" using "1.prems" 2(1) by (simp add: tc_inv_def)
    have m: "tc_maxSize ?c = tc_maxSize c" by (simp add: removeElement_def)
    have "makeRoom c = makeRoom ?c" using 2 by (simp add: makeRoom.simps [of c])
    moreover have "take (tc_maxSize c - 1) (butlast (tc_abs c)) = take (tc_maxSize c - 1) (tc_abs c)"
      using full len by (simp add: butlast_conv_take)
    ultimately show ?thesis using "1.IH" [OF 2 rem(1)] rem(2) m by simp
  qed
qed

lemma tc_Put_abs:
  assumes "tc_inv c"
  shows "tc_inv (tc_Put d h v c)" and "tc_abs (tc_Put d h v c) = lru_Put (tc_maxSize c) (d, h) v (tc_abs c)"
    and "tc_maxSize (tc_Put d h v c) = tc_maxSize c"
proof -
  let ?k = "(d, h)"
  have "tc_inv (tc_Put d h v c) \<and> tc_abs (tc_Put d h v c) = lru_Put (tc_maxSize c) ?k v (tc_abs c) \<and>
    tc_maxSize (tc_Put d h v c) = tc_maxSize c"
  proof (cases "tc_items c ?k")
    case (Some e)
    let ?c = "MoveToFront e c"
    note mv = MoveToFront_inv [OF assms Some]
    have e: "e \<in> set (tc_evict c)" "te_key (tc_heap c e) = ?k" using tc_item [OF assms] Some by auto
    have put: "tc_Put d h v c = ?c\<lparr>tc_heap := (tc_heap ?c)(e := (tc_heap ?c e)\<lparr>te_value := v\<rparr>)\<rparr>"
      using Some by (simp add: tc_Put_def Let_def)
    have ev: "tc_evict ?c = e # remove1 e (tc_evict c)" "tc_heap ?c = tc_heap c" using e by (simp_all add: MoveToFront_def)
    have d: "e \<notin> set (remove1 e (tc_evict c))" using assms by (simp add: tc_inv_def)
    have "tc_abs (tc_Put d h v c) = lru_touch ?k v (tc_abs c)"
      using tc_others [OF assms e(1)] d e(2) unfolding put lru_touch_def by (auto simp: tc_abs_def ev)
    moreover have "length (lru_touch ?k v (tc_abs c)) \<le> tc_maxSize c"
      using tc_others [OF assms e(1)] assms e by (auto simp: lru_touch_def tc_inv_def length_remove1)
    moreover have "tc_inv (tc_Put d h v c)" using mv(1) unfolding put by (simp add: tc_inv_def)
    ultimately show ?thesis unfolding lru_Put_def by (simp add: put MoveToFront_def)
  next
    case None
    let ?c = "makeRoom c"
    note room = makeRoom_inv [OF assms]
    have no: "?k \<notin> fst ` set (tc_abs c)" using tc_lookup [OF assms, of ?k] None by (simp add: map_of_eq_None_iff)
    then have filter: "filter (\<lambda>x. fst x \<noteq> ?k) (tc_abs c) = tc_abs c" by (auto simp: filter_id_conv image_iff)
    have pos: "0 < tc_maxSize c" using assms by (simp add: tc_inv_def)
    have fresh: "tc_fresh ?c \<notin> set (tc_evict ?c)" using room by (auto simp: tc_inv_def)
    have put: "tc_Put d h v c = ?c\<lparr>tc_heap := (tc_heap ?c)(tc_fresh ?c := \<lparr>te_key = ?k, te_value = v\<rparr>),
        tc_evict := tc_fresh ?c # tc_evict ?c, tc_items := (tc_items ?c)(?k := Some (tc_fresh ?c)), tc_fresh := tc_fresh ?c + 1\<rparr>"
      using None by (simp add: tc_Put_def Let_def)
    have none: "tc_items ?c ?k = None"
    proof -
      have "fst ` set (tc_abs ?c) \<subseteq> fst ` set (tc_abs c)"
        using room by (auto intro!: image_mono set_take_subset)
      then have "map_of (tc_abs ?c) ?k = None" using no by (auto simp: map_of_eq_None_iff)
      then show ?thesis using tc_lookup [of ?c ?k] room by simp
    qed
    have "tc_abs (tc_Put d h v c) = (?k, v) # tc_abs ?c" using fresh unfolding put by (auto simp: tc_abs_def)
    then have "tc_abs (tc_Put d h v c) = lru_Put (tc_maxSize c) ?k v (tc_abs c)"
      using room pos by (cases "tc_maxSize c") (simp_all add: lru_Put_def lru_touch_def filter)
    moreover have "tc_inv (tc_Put d h v c)"
    proof -
      have "tc_items (tc_Put d h v c) k = Some e \<longleftrightarrow> e \<in> set (tc_evict (tc_Put d h v c)) \<and>
          te_key (tc_heap (tc_Put d h v c) e) = k" for k e
        using tc_item [of ?c k e] room none fresh tc_item [of ?c k "tc_fresh ?c"] unfolding put by auto
      moreover have "\<forall>e \<in> set (tc_evict ?c). e < tc_fresh ?c" "distinct (tc_evict ?c)" using room by (auto simp: tc_inv_def)
      ultimately show ?thesis using room fresh pos unfolding tc_inv_def [of "tc_Put d h v c"]
        by (auto simp: put less_Suc_eq)
    qed
    ultimately show ?thesis using room unfolding put by simp
  qed
  then show "tc_inv (tc_Put d h v c)" "tc_abs (tc_Put d h v c) = lru_Put (tc_maxSize c) ?k v (tc_abs c)"
    "tc_maxSize (tc_Put d h v c) = tc_maxSize c" by auto
qed

subsection \<open>Sequences of operations\<close>

datatype text_op = TextPut string i32 string | TextGet string i32

fun text_run :: "text_op list \<Rightarrow> TextCache \<Rightarrow> string option list \<times> TextCache" where
  "text_run [] c = ([], c)"
| "text_run (TextPut d h v # ops) c = (let (rs, c') = text_run ops (tc_Put d h v c) in (None # rs, c'))"
| "text_run (TextGet d h # ops) c = (let (r, c1) = tc_Get d h c; (rs, c') = text_run ops c1 in (r # rs, c'))"

fun lru_run :: "nat \<Rightarrow> text_op list \<Rightarrow> lru \<Rightarrow> string option list \<times> lru" where
  "lru_run n [] xs = ([], xs)"
| "lru_run n (TextPut d h v # ops) xs = (let (rs, ys) = lru_run n ops (lru_Put n (d, h) v xs) in (None # rs, ys))"
| "lru_run n (TextGet d h # ops) xs = (let (r, x1) = lru_Get (d, h) xs; (rs, ys) = lru_run n ops x1 in (r # rs, ys))"

lemma text_run_lru:
  "tc_inv c \<Longrightarrow> tc_inv (snd (text_run ops c)) \<and>
    (fst (text_run ops c), tc_abs (snd (text_run ops c))) = lru_run (tc_maxSize c) ops (tc_abs c) \<and>
    tc_maxSize (snd (text_run ops c)) = tc_maxSize c"
proof (induction ops arbitrary: c)
  case (Cons op ops)
  show ?case
  proof (cases op)
    case (TextPut d h v)
    note put = tc_Put_abs [OF Cons.prems, of d h v]
    show ?thesis using Cons.IH [OF put(1)] unfolding put(2,3) TextPut
      by (auto simp: Let_def case_prod_unfold prod_eq_iff)
  next
    case (TextGet d h)
    note get = tc_Get_abs [OF Cons.prems, of d h]
    show ?thesis using Cons.IH [OF get(1)] get(2) unfolding get(3) TextGet
      by (auto simp: Let_def case_prod_unfold prod_eq_iff)
  qed
qed simp

end
