(* ===== verification/Agents.thy ===== *)
theory Agents
  imports Packs HashUtil DayStore TextCache
begin

text \<open>
  The objects, which are the monitored agents: internal/core/cache/object\_cache.go and
  counter\_cache.go, the object types of internal/counter/manager.go, and internal/core/agent\_manager.go,
  which takes the heartbeats and watches for silence. A time is an \<^typ>\<open>int\<close> of nanoseconds. \<open>clk i\<close>
  is what the \<open>i\<close>-th call of \<open>time.Now\<close> returns. Go's iteration over a map is in no particular order;
  an operation that iterates gets the order of the keys as an argument. The text core and the alert
  core have queues of their own; what is passed to them is a list of calls here.
\<close>

subsection \<open>The object cache\<close>

text \<open>\<open>Sub\<close> of \<open>time.Time\<close> saturates.\<close>

definition time_Sub :: "int \<Rightarrow> int \<Rightarrow> int" where
  "time_Sub t u = max (- (2 ^ 63)) (min (2 ^ 63 - 1) (t - u))"

definition UnixMilli :: "int \<Rightarrow> i64" where
  "UnixMilli t = word_of_int (t div 1000000)"

record ObjectInfo =
  oi_Pack :: ObjectPack
  oi_LastSeen :: int

type_synonym ObjectCache = "i32 \<Rightarrow> ObjectInfo option"

definition NewObjectCache :: ObjectCache where
  "NewObjectCache = (\<lambda>_. None)"

definition oc_Put :: "int \<Rightarrow> i32 \<Rightarrow> ObjectPack \<Rightarrow> ObjectCache \<Rightarrow> ObjectCache" where
  "oc_Put now objHash p c = c(objHash \<mapsto> \<lparr>oi_Pack = p, oi_LastSeen = now\<rparr>)"

definition oc_Get :: "i32 \<Rightarrow> ObjectCache \<Rightarrow> ObjectInfo option" where
  "oc_Get objHash c = c objHash"

definition oc_GetAll :: "i32 list \<Rightarrow> ObjectCache \<Rightarrow> ObjectInfo list" where
  "oc_GetAll keys c = List.map_filter c keys"

definition oc_GetLive :: "i32 list \<Rightarrow> int \<Rightarrow> int \<Rightarrow> ObjectCache \<Rightarrow> ObjectInfo list" where
  "oc_GetLive keys now timeout c = filter (\<lambda>v. time_Sub now (oi_LastSeen v) < timeout) (List.map_filter c keys)"

fun oc_MarkDead :: "i32 list \<Rightarrow> int \<Rightarrow> int \<Rightarrow> ObjectCache \<Rightarrow> ObjectInfo list \<times> ObjectCache" where
  "oc_MarkDead [] now timeout c = ([], c)"
| "oc_MarkDead (k # keys) now timeout c = (case c k of
     None \<Rightarrow> oc_MarkDead keys now timeout c
   | Some v \<Rightarrow>
       if object_Alive (oi_Pack v) \<and> timeout \<le> time_Sub now (oi_LastSeen v)
       then let v = v\<lparr>oi_Pack := (oi_Pack v)\<lparr>object_Alive := False\<rparr>\<rparr>;
                (dead, c) = oc_MarkDead keys now timeout (c(k \<mapsto> v))
            in (v # dead, c)
       else oc_MarkDead keys now timeout c)"

definition oc_Touch :: "int \<Rightarrow> i32 \<Rightarrow> ObjectCache \<Rightarrow> bool \<times> ObjectCache" where
  "oc_Touch now objHash c = (case c objHash of
     Some v \<Rightarrow> (True, c(objHash \<mapsto> v\<lparr>oi_LastSeen := now\<rparr>))
   | None \<Rightarrow> (False, c))"

definition oc_Remove :: "i32 \<Rightarrow> ObjectCache \<Rightarrow> ObjectCache" where
  "oc_Remove objHash c = c(objHash := None)"

fun oc_ClearInactive :: "i32 list \<Rightarrow> ObjectCache \<Rightarrow> nat \<times> ObjectCache" where
  "oc_ClearInactive [] c = (0, c)"
| "oc_ClearInactive (k # keys) c = (case c k of
     None \<Rightarrow> oc_ClearInactive keys c
   | Some v \<Rightarrow>
       if \<not> object_Alive (oi_Pack v)
       then let (count, c) = oc_ClearInactive keys (c(k := None)) in (count + 1, c)
       else oc_ClearInactive keys c)"

definition oc_Size :: "i32 list \<Rightarrow> ObjectCache \<Rightarrow> nat" where
  "oc_Size keys c = length keys"

text \<open>The possible orders of an iteration.\<close>

definition iterates :: "'k list \<Rightarrow> ('k \<Rightarrow> 'v option) \<Rightarrow> bool" where
  "iterates keys m \<longleftrightarrow> distinct keys \<and> set keys = dom m"

definition silent :: "int \<Rightarrow> int \<Rightarrow> ObjectInfo \<Rightarrow> bool" where
  "silent now timeout v \<longleftrightarrow> object_Alive (oi_Pack v) \<and> timeout \<le> time_Sub now (oi_LastSeen v)"

definition mark_dead :: "ObjectInfo \<Rightarrow> ObjectInfo" where
  "mark_dead v = v\<lparr>oi_Pack := (oi_Pack v)\<lparr>object_Alive := False\<rparr>\<rparr>"

lemma oc_MarkDead_eq:
  "distinct keys \<Longrightarrow> oc_MarkDead keys now timeout c =
    (map mark_dead (filter (silent now timeout) (List.map_filter c keys)),
     \<lambda>k. if k \<in> set keys then map_option (\<lambda>v. if silent now timeout v then mark_dead v else v) (c k) else c k)"
proof (induction keys arbitrary: c)
  case (Cons k keys)
  have keys: "distinct keys" "k \<notin> set keys" using Cons.prems by simp_all
  show ?case
  proof (cases "c k")
    case None
    then show ?thesis using Cons.IH [OF keys(1), of c] by (simp add: List.map_filter_simps fun_eq_iff)
  next
    case (Some v)
    show ?thesis
    proof (cases "silent now timeout v")
      case True
      let ?c = "c(k \<mapsto> mark_dead v)"
      have step: "oc_MarkDead (k # keys) now timeout c = (let (dead, c) = oc_MarkDead keys now timeout ?c in (mark_dead v # dead, c))"
        using Some True by (simp add: silent_def mark_dead_def Let_def)
      have same: "List.map_filter ?c keys = List.map_filter c keys"
        using keys(2) by (auto simp: List.map_filter_def intro!: map_cong filter_cong)
      show ?thesis unfolding step Cons.IH [OF keys(1)] same using keys(2) Some True
        by (auto simp: List.map_filter_simps fun_eq_iff)
    next
      case False
      then have "oc_MarkDead (k # keys) now timeout c = oc_MarkDead keys now timeout c"
        using Some by (auto simp: silent_def)
      then show ?thesis using Cons.IH [OF keys(1), of c] keys(2) Some False
        by (auto simp: List.map_filter_simps fun_eq_iff)
    qed
  qed
qed (simp add: List.map_filter_simps)

lemma oc_ClearInactive_eq:
  "distinct keys \<Longrightarrow> oc_ClearInactive keys c =
    (length (filter (\<lambda>v. \<not> object_Alive (oi_Pack v)) (List.map_filter c keys)),
     \<lambda>k. if k \<in> set keys then (case c k of Some v \<Rightarrow> if object_Alive (oi_Pack v) then Some v else None | None \<Rightarrow> None) else c k)"
proof (induction keys arbitrary: c)
  case (Cons k keys)
  have keys: "distinct keys" "k \<notin> set keys" using Cons.prems by simp_all
  have same: "List.map_filter (c(k := None)) keys = List.map_filter c keys"
    using keys(2) by (auto simp: List.map_filter_def intro!: map_cong filter_cong)
  show ?case
  proof (cases "\<exists>v. c k = Some v \<and> \<not> object_Alive (oi_Pack v)")
    case True
    then have step: "oc_ClearInactive (k # keys) c =
        (let (count, c) = oc_ClearInactive keys (c(k := None)) in (count + 1, c))" by auto
    show ?thesis unfolding step Cons.IH [OF keys(1)] same using True keys(2)
      by (auto simp: List.map_filter_simps fun_eq_iff)
  next
    case False
    then have "oc_ClearInactive (k # keys) c = oc_ClearInactive keys c" by (auto split: option.split)
    then show ?thesis using Cons.IH [OF keys(1), of c] keys(2) False
      by (auto simp: List.map_filter_simps fun_eq_iff split: option.splits)
  qed
qed (simp add: List.map_filter_simps)

text \<open>An object that was touched is live, whether or not it is alive.\<close>

lemma touched_live:
  assumes "iterates keys c" and "c h = Some v" and "0 < timeout"
  shows "v\<lparr>oi_LastSeen := now\<rparr> \<in> set (oc_GetLive keys now timeout (snd (oc_Touch now h c)))"
  using assms by (auto simp: oc_GetLive_def oc_Touch_def iterates_def List.map_filter_def time_Sub_def image_iff dom_def
      intro!: bexI [of _ h])

subsection \<open>The counter cache\<close>

record CounterKey =
  ck_ObjHash :: i32
  ck_Counter :: string
  ck_TimeType :: byte

definition TimeTypeRealtime :: byte where "TimeTypeRealtime = 1"
definition TimeTypeOneMin :: byte where "TimeTypeOneMin = 2"
definition TimeTypeFiveMin :: byte where "TimeTypeFiveMin = 3"

type_synonym CounterCache = "CounterKey \<Rightarrow> value option option"

definition cc_Put :: "CounterKey \<Rightarrow> value option \<Rightarrow> CounterCache \<Rightarrow> CounterCache" where
  "cc_Put key v c = c(key \<mapsto> v)"

definition cc_Get :: "CounterKey \<Rightarrow> CounterCache \<Rightarrow> value option option" where
  "cc_Get key c = c key"

definition cc_GetByObjHash :: "CounterKey list \<Rightarrow> i32 \<Rightarrow> CounterCache \<Rightarrow> string \<Rightarrow> value option option" where
  "cc_GetByObjHash keys objHash c =
     fold (\<lambda>k result. case c k of Some v \<Rightarrow> if ck_ObjHash k = objHash then result(ck_Counter k \<mapsto> v) else result
       | None \<Rightarrow> result) keys (\<lambda>_. None)"

text \<open>
  When a counter was put with two time types, the value that \<open>GetByObjHash\<close> gives for it depends on the
  order of the iteration.
\<close>

lemma counter_by_order:
  assumes "c \<lparr>ck_ObjHash = h, ck_Counter = n, ck_TimeType = t1\<rparr> = Some v1"
    and "c \<lparr>ck_ObjHash = h, ck_Counter = n, ck_TimeType = t2\<rparr> = Some v2" and "finite (dom c)"
  shows "\<exists>keys keys'. iterates keys c \<and> iterates keys' c \<and> cc_GetByObjHash keys h c n = Some v1 \<and>
    cc_GetByObjHash keys' h c n = Some v2"
proof -
  have last: "cc_GetByObjHash (ks @ [k]) (ck_ObjHash k) c (ck_Counter k) = Some v" if "c k = Some v" for ks k v
    using that by (simp add: cc_GetByObjHash_def)
  have order: "\<exists>ks. iterates (ks @ [k]) c" if "k \<in> dom c" for k
  proof -
    obtain ks where "distinct ks" "set ks = dom c - {k}"
      using finite_distinct_list [of "dom c - {k}"] assms(3) by auto
    then show ?thesis using that by (intro exI [of _ ks]) (auto simp: iterates_def)
  qed
  let ?k = "\<lambda>t. \<lparr>ck_ObjHash = h, ck_Counter = n, ck_TimeType = t\<rparr>"
  obtain ks ks' where "iterates (ks @ [?k t1]) c" "iterates (ks' @ [?k t2]) c"
    using order [of "?k t1"] order [of "?k t2"] assms(1,2) by blast
  moreover from this have "cc_GetByObjHash (ks @ [?k t1]) h c n = Some v1" "cc_GetByObjHash (ks' @ [?k t2]) h c n = Some v2"
    using last [OF assms(1), of ks] last [OF assms(2), of ks'] by simp_all
  ultimately show ?thesis by blast
qed


subsection \<open>Object types\<close>

record ObjectTypeInfo =
  ot_Name :: string
  ot_Family :: string
  ot_DispName :: string
  ot_Icon :: string
  ot_SubObject :: bool

record ObjectTypeManager =
  tm_knownTypes :: "string \<Rightarrow> ObjectTypeInfo option"
  tm_customTypes :: "string \<Rightarrow> ObjectTypeInfo option"
  tm_familyMasters :: "string \<Rightarrow> string option"
  tm_customDirty :: bool
  tm_customXML :: "string option"

text \<open>What \<open>xml.Unmarshal\<close> gives for the embedded file: the families with their masters, and the types.\<close>

record xmlObjectType =
  xt_Name :: string
  xt_Family :: string
  xt_Disp :: string
  xt_Icon :: string
  xt_SubObject :: string

definition parseDefaultXML :: "(string \<times> string) list \<Rightarrow> xmlObjectType list \<Rightarrow> ObjectTypeManager \<Rightarrow> ObjectTypeManager" where
  "parseDefaultXML families types m = m\<lparr>
     tm_familyMasters := fold (\<lambda>(name, master) f. if master \<noteq> [] then f(name \<mapsto> master) else f) families (tm_familyMasters m),
     tm_knownTypes := fold (\<lambda>t f. f(xt_Name t \<mapsto> \<lparr>ot_Name = xt_Name t, ot_Family = xt_Family t, ot_DispName = xt_Disp t,
       ot_Icon = xt_Icon t, ot_SubObject = (xt_SubObject t = ''true'')\<rparr>)) types (tm_knownTypes m)\<rparr>"

definition NewObjectTypeManager :: "(string \<times> string) list \<Rightarrow> xmlObjectType list \<Rightarrow> ObjectTypeManager" where
  "NewObjectTypeManager families types = parseDefaultXML families types
     \<lparr>tm_knownTypes = (\<lambda>_. None), tm_customTypes = (\<lambda>_. None), tm_familyMasters = (\<lambda>_. None), tm_customDirty = False,
      tm_customXML = None\<rparr>"

definition detected_tag :: "map_field \<Rightarrow> string" where
  "detected_tag tags = (case tags of
     None \<Rightarrow> []
   | Some es \<Rightarrow> (case map_Get (elems es) ''detected'' of Some (Some (TextValue t)) \<Rightarrow> t | _ \<Rightarrow> []))"

definition AddObjectTypeIfNotExist :: "string \<Rightarrow> map_field \<Rightarrow> ObjectTypeManager \<Rightarrow> bool \<times> ObjectTypeManager" where
  "AddObjectTypeIfNotExist objType tags m =
     (if tm_knownTypes m objType \<noteq> None then (False, m)
      else if tm_customTypes m objType \<noteq> None then (False, m)
      else
        let detected = detected_tag tags;
            refType = (case tm_knownTypes m detected of None \<Rightarrow> tm_customTypes m detected | Some t \<Rightarrow> Some t)
        in case refType of
             None \<Rightarrow> (False, m)
           | Some t \<Rightarrow>
               (True, m\<lparr>tm_customTypes := (tm_customTypes m)(objType \<mapsto>
                  \<lparr>ot_Name = objType, ot_Family = ot_Family t, ot_DispName = objType,
                   ot_Icon = (if ot_Icon t \<noteq> [] then ot_Icon t else ot_Name t), ot_SubObject = ot_SubObject t\<rparr>),
                  tm_customDirty := True\<rparr>))"

definition IsKnownType :: "string \<Rightarrow> ObjectTypeManager \<Rightarrow> bool" where
  "IsKnownType objType m = (tm_knownTypes m objType \<noteq> None \<or> tm_customTypes m objType \<noteq> None)"

definition GetMasterCounter :: "string \<Rightarrow> ObjectTypeManager \<Rightarrow> string" where
  "GetMasterCounter objType m =
     (let family = (case tm_knownTypes m objType of
          Some info \<Rightarrow> ot_Family info
        | None \<Rightarrow> (case tm_customTypes m objType of Some info \<Rightarrow> ot_Family info | None \<Rightarrow> []))
      in if family = [] then [] else (case tm_familyMasters m family of Some master \<Rightarrow> master | None \<Rightarrow> []))"

text \<open>A custom type belongs to the family of a known type, and no type is both.\<close>

definition tm_inv :: "ObjectTypeManager \<Rightarrow> bool" where
  "tm_inv m \<longleftrightarrow> (\<forall>n t. tm_customTypes m n = Some t \<longrightarrow> tm_knownTypes m n = None \<and> ot_Name t = n \<and>
     (\<exists>n' t'. tm_knownTypes m n' = Some t' \<and> ot_Family t = ot_Family t' \<and> ot_SubObject t = ot_SubObject t'))"

lemma tm_new_inv: "tm_inv (NewObjectTypeManager families types)"
  by (simp add: tm_inv_def NewObjectTypeManager_def parseDefaultXML_def)

lemma tm_Add_inv:
  assumes "tm_inv m"
  shows "tm_inv (snd (AddObjectTypeIfNotExist objType tags m))"
  using assms unfolding tm_inv_def AddObjectTypeIfNotExist_def
  by (auto simp: Let_def split: if_splits option.splits)

lemma tm_Add_known:
  "fst (AddObjectTypeIfNotExist objType tags m) \<Longrightarrow>
   \<not> IsKnownType objType m \<and> IsKnownType objType (snd (AddObjectTypeIfNotExist objType tags m))"
  by (auto simp: IsKnownType_def AddObjectTypeIfNotExist_def Let_def split: option.splits if_splits)

subsection \<open>The agent manager\<close>

text \<open>The calls of \<open>alertCore.Add\<close> and \<open>textCore.AddText\<close>, which put them into their queues.\<close>

datatype agent_call = AlertAdd AlertPack | AddText string i32 string

record AgentManager =
  am_objectCache :: ObjectCache
  am_textCache :: "TextCache option"
  am_hasTextCore :: bool
  am_hasAlertCore :: bool
  am_deadTimeout :: int
  am_typeManager :: "ObjectTypeManager option"

definition object_alert :: "i64 \<Rightarrow> byte \<Rightarrow> i32 \<Rightarrow> string \<Rightarrow> string \<Rightarrow> AlertPack" where
  "object_alert time level objHash title message =
     \<lparr>alert_Time = time, alert_Level = level, alert_ObjType = ''scouter'', alert_ObjHash = objHash, alert_Title = title,
      alert_Message = message, alert_Tags = None\<rparr>"

definition am_identify :: "string option \<Rightarrow> ObjectPack \<Rightarrow> ObjectPack" where
  "am_identify addr op =
     (let op = (if object_ObjHash op = 0 \<and> object_ObjName op \<noteq> [] then op\<lparr>object_ObjHash := HashString (object_ObjName op)\<rparr> else op)
      in case addr of
           Some ip \<Rightarrow> if object_Address op = [] then op\<lparr>object_Address := ip\<rparr> else op
         | None \<Rightarrow> op)"

definition am_Handler :: "(nat \<Rightarrow> int) \<Rightarrow> pack \<Rightarrow> string option \<Rightarrow> AgentManager \<Rightarrow> agent_call list \<times> AgentManager" where
  "am_Handler clk p addr am = (case p of
     ObjectPack op \<Rightarrow>
       let op = am_identify addr op;
           wasDead = (case oc_Get (object_ObjHash op) (am_objectCache am) of
               Some existing \<Rightarrow> \<not> object_Alive (oi_Pack existing) | None \<Rightarrow> False);
           op = op\<lparr>object_Alive := True, object_Wakeup := UnixMilli (clk 0)\<rparr>;
           am = am\<lparr>am_typeManager := map_option (\<lambda>m. snd (AddObjectTypeIfNotExist (object_ObjType op) (object_Tags op) m)) (am_typeManager am),
                   am_objectCache := oc_Put (clk 1) (object_ObjHash op) op (am_objectCache am)\<rparr>;
           alerts = (if wasDead \<and> am_hasAlertCore am
             then [AlertAdd (object_alert (UnixMilli (clk 2)) 0 (object_ObjHash op) ''ACTIVATED_OBJECT''
                    (object_ObjName op @ '' is running now.''))] else []);
           am = (if object_ObjName op \<noteq> []
             then am\<lparr>am_textCache := map_option (tc_Put ''object'' (object_ObjHash op) (object_ObjName op)) (am_textCache am)\<rparr> else am);
           texts = (if object_ObjName op \<noteq> [] \<and> am_hasTextCore am
             then [AddText ''object'' (object_ObjHash op) (object_ObjName op)] else [])
       in (alerts @ texts, am)
   | _ \<Rightarrow> ([], am))"

text \<open>One round of \<open>monitorLoop\<close>: \<open>level\<close> is the configured level of the alert.\<close>

definition am_monitor :: "(nat \<Rightarrow> int) \<Rightarrow> byte \<Rightarrow> i32 list \<Rightarrow> AgentManager \<Rightarrow> agent_call list \<times> AgentManager" where
  "am_monitor clk level keys am =
     (let (dead, c) = oc_MarkDead keys (clk 0) (am_deadTimeout am) (am_objectCache am)
      in (if am_hasAlertCore am
          then map (\<lambda>(i, d). AlertAdd (object_alert (UnixMilli (clk (Suc i))) level (object_ObjHash (oi_Pack d)) ''INACTIVE_OBJECT''
                 (object_ObjName (oi_Pack d) @ '' is not running.''))) (List.enumerate 0 dead)
          else [], am\<lparr>am_objectCache := c\<rparr>))"


subsection \<open>Sequences of heartbeats and rounds\<close>

datatype agent_event =
    Heartbeat "nat \<Rightarrow> int" "string option" ObjectPack
  | MonitorRound "nat \<Rightarrow> int" byte "i32 list"
  | TouchObject int i32

fun am_do :: "agent_event \<Rightarrow> AgentManager \<Rightarrow> agent_call list \<times> AgentManager" where
  "am_do (Heartbeat clk addr op) am = am_Handler clk (ObjectPack op) addr am"
| "am_do (MonitorRound clk level keys) am = am_monitor clk level keys am"
| "am_do (TouchObject now h) am = ([], am\<lparr>am_objectCache := snd (oc_Touch now h (am_objectCache am))\<rparr>)"

fun am_run :: "agent_event list \<Rightarrow> AgentManager \<Rightarrow> agent_call list \<times> AgentManager" where
  "am_run [] am = ([], am)"
| "am_run (e # es) am = (let (cs, am) = am_do e am; (cs', am) = am_run es am in (cs @ cs', am))"

text \<open>Every round iterates over the objects there are.\<close>

fun am_rounds :: "agent_event list \<Rightarrow> AgentManager \<Rightarrow> bool" where
  "am_rounds [] am = True"
| "am_rounds (e # es) am = ((case e of MonitorRound clk level keys \<Rightarrow> iterates keys (am_objectCache am) | _ \<Rightarrow> True) \<and>
     am_rounds es (snd (am_do e am)))"

text \<open>The titles of the alerts for an object, in their order.\<close>

fun call_title :: "i32 \<Rightarrow> agent_call \<Rightarrow> string option" where
  "call_title h (AlertAdd a) = (if alert_ObjHash a = h then Some (alert_Title a) else None)"
| "call_title h (AddText d k t) = None"

definition titles :: "i32 \<Rightarrow> agent_call list \<Rightarrow> string list" where
  "titles h cs = List.map_filter (call_title h) cs"

fun alternate :: "'a \<Rightarrow> 'a \<Rightarrow> 'a list \<Rightarrow> bool" where
  "alternate a b [] = True"
| "alternate a b (x # xs) = (x = a \<and> alternate b a xs)"

definition am_dead :: "i32 \<Rightarrow> AgentManager \<Rightarrow> bool" where
  "am_dead h am \<longleftrightarrow> (case am_objectCache am h of Some v \<Rightarrow> \<not> object_Alive (oi_Pack v) | None \<Rightarrow> False)"

definition am_keyed :: "AgentManager \<Rightarrow> bool" where
  "am_keyed am \<longleftrightarrow> (\<forall>h v. am_objectCache am h = Some v \<longrightarrow> object_ObjHash (oi_Pack v) = h)"

lemma titles_simps [simp]:
  "titles h [] = []" "titles h (cs @ cs') = titles h cs @ titles h cs'"
  "titles h (AlertAdd a # cs) = (if alert_ObjHash a = h then alert_Title a # titles h cs else titles h cs)"
  "titles h (AddText d k t # cs) = titles h cs"
  by (simp_all add: titles_def List.map_filter_def)

text \<open>What an event does to an object: the alert it raises, and whether the object is dead then.\<close>

lemma am_Handler_effect:
  assumes "am_keyed am" and "am_hasAlertCore am"
  shows "am_keyed (snd (am_Handler clk (ObjectPack op) addr am))" and "am_hasAlertCore (snd (am_Handler clk (ObjectPack op) addr am))"
    and "titles h (fst (am_Handler clk (ObjectPack op) addr am)) =
      (if h = object_ObjHash (am_identify addr op) \<and> am_dead h am then [''ACTIVATED_OBJECT''] else [])"
    and "am_dead h (snd (am_Handler clk (ObjectPack op) addr am)) =
      (if h = object_ObjHash (am_identify addr op) then False else am_dead h am)"
  using assms
  by (auto simp: am_Handler_def Let_def am_keyed_def am_dead_def oc_Put_def oc_Get_def object_alert_def split: option.splits)

lemma titles_inactive:
  assumes "distinct (map (\<lambda>d. object_ObjHash (oi_Pack d)) ds)"
  shows "titles h (map (\<lambda>(i, d). AlertAdd (object_alert (f i) l (object_ObjHash (oi_Pack d)) t (g d))) (List.enumerate n ds)) =
    (if h \<in> (\<lambda>d. object_ObjHash (oi_Pack d)) ` set ds then [t] else [])"
  using assms by (induction ds arbitrary: n) (auto simp: object_alert_def)

lemma am_monitor_effect:
  fixes clk :: "nat \<Rightarrow> int"
  assumes "am_keyed am" and "am_hasAlertCore am" and "iterates keys (am_objectCache am)"
  defines "dies \<equiv> \<lambda>h. \<exists>v. am_objectCache am h = Some v \<and> silent (clk 0) (am_deadTimeout am) v"
  shows "am_keyed (snd (am_monitor clk level keys am))" and "am_hasAlertCore (snd (am_monitor clk level keys am))"
    and "titles h (fst (am_monitor clk level keys am)) = (if dies h then [''INACTIVE_OBJECT''] else [])"
    and "am_dead h (snd (am_monitor clk level keys am)) \<longleftrightarrow> am_dead h am \<or> dies h"
    and "dies h \<Longrightarrow> \<not> am_dead h am"
proof -
  let ?c = "am_objectCache am" and ?s = "silent (clk 0) (am_deadTimeout am)"
  have keys: "distinct keys" "set keys = dom ?c" using assms(3) by (simp_all add: iterates_def)
  have hash: "object_ObjHash (oi_Pack v) = k" if "?c k = Some v" for k v using assms(1) that by (simp add: am_keyed_def)
  note dead = oc_MarkDead_eq [OF keys(1), of "clk 0" "am_deadTimeout am" ?c]
  let ?dead = "map mark_dead (filter ?s (List.map_filter ?c keys))"
  have hashes: "map (\<lambda>d. object_ObjHash (oi_Pack d)) ?dead = filter (\<lambda>k. \<exists>v. ?c k = Some v \<and> ?s v) keys"
  proof -
    have "set ks \<subseteq> dom ?c \<Longrightarrow> map (\<lambda>d. object_ObjHash (oi_Pack d)) (map mark_dead (filter ?s (List.map_filter ?c ks))) =
        filter (\<lambda>k. \<exists>v. ?c k = Some v \<and> ?s v) ks" for ks
      by (induction ks) (auto simp: List.map_filter_simps mark_dead_def hash)
    then show ?thesis using keys(2) by simp
  qed
  have "distinct (map (\<lambda>d. object_ObjHash (oi_Pack d)) ?dead)" using keys(1) hashes by simp
  moreover have "(\<lambda>d. object_ObjHash (oi_Pack d)) ` set ?dead = {h. dies h}"
    using hashes keys(2) unfolding set_map [symmetric] by (auto simp: dies_def)
  ultimately show "titles h (fst (am_monitor clk level keys am)) = (if dies h then [''INACTIVE_OBJECT''] else [])"
    using assms(2) titles_inactive [of ?dead h] by (simp add: am_monitor_def dead)
  show "am_keyed (snd (am_monitor clk level keys am))"
    using assms(1) by (auto simp: am_monitor_def dead am_keyed_def mark_dead_def split: if_splits)
  show "am_hasAlertCore (snd (am_monitor clk level keys am))" using assms(2) by (simp add: am_monitor_def dead)
  show "am_dead h (snd (am_monitor clk level keys am)) \<longleftrightarrow> am_dead h am \<or> dies h"
    using keys(2) by (auto simp: am_monitor_def dead am_dead_def mark_dead_def dies_def split: option.splits)
  show "dies h \<Longrightarrow> \<not> am_dead h am" by (auto simp: dies_def am_dead_def silent_def)
qed

lemma alternate_snoc: "alternate a b (xs @ [x]) \<longleftrightarrow> alternate a b xs \<and> x = (if even (length xs) then a else b)"
  by (induction xs arbitrary: a b) auto

lemma am_run_titles:
  assumes "am_keyed am" and "am_hasAlertCore am" and "am_rounds es am"
    and "alternate ''INACTIVE_OBJECT'' ''ACTIVATED_OBJECT'' ts" and "am_dead h am \<longleftrightarrow> odd (length ts)"
  shows "alternate ''INACTIVE_OBJECT'' ''ACTIVATED_OBJECT'' (ts @ titles h (fst (am_run es am))) \<and>
    (am_dead h (snd (am_run es am)) \<longleftrightarrow> odd (length (ts @ titles h (fst (am_run es am)))))"
  using assms
proof (induction es arbitrary: am ts)
  case (Cons e es)
  let ?am = "snd (am_do e am)" and ?ts = "ts @ titles h (fst (am_do e am))"
  have "am_keyed ?am \<and> am_hasAlertCore ?am \<and> alternate ''INACTIVE_OBJECT'' ''ACTIVATED_OBJECT'' ?ts \<and>
    (am_dead h ?am \<longleftrightarrow> odd (length ?ts))"
  proof (cases e)
    case (Heartbeat clk addr op)
    then show ?thesis using Cons.prems(4,5) am_Handler_effect [OF Cons.prems(1,2), where clk = clk and op = op and addr = addr]
      by (auto simp: alternate_snoc)
  next
    case (MonitorRound clk level keys)
    then have "iterates keys (am_objectCache am)" using Cons.prems(3) by simp
    then show ?thesis using Cons.prems(4,5) MonitorRound am_monitor_effect(3,4) [OF Cons.prems(1,2), where keys = keys and clk = clk and level = level and h = h]
        am_monitor_effect(5) [OF Cons.prems(1,2), where keys = keys and clk = clk and h = h] am_monitor_effect(1,2) [OF Cons.prems(1,2), where keys = keys and clk = clk and level = level]
      by (auto simp: alternate_snoc)
  next
    case (TouchObject now k)
    then show ?thesis using Cons.prems
      by (auto simp: oc_Touch_def am_keyed_def am_dead_def split: option.splits)
  qed
  then have "am_keyed ?am" "am_hasAlertCore ?am" "alternate ''INACTIVE_OBJECT'' ''ACTIVATED_OBJECT'' ?ts"
    "am_dead h ?am \<longleftrightarrow> odd (length ?ts)" by blast+
  from Cons.IH [OF this(1,2) _ this(3,4)] Cons.prems(3) show ?case by (simp add: case_prod_unfold Let_def)
qed simp

end
