(* ===== verification/SqlParser.thy ===== *)
theory SqlParser
  imports DayStore TextCache "HOL-Library.Multiset" "HOL-Library.List_Lexorder" "HOL-Library.Char_ord"
begin

text \<open>
  internal/util/sql\_parser.go: the tables that an SQL statement reads and writes, and
  internal/core/sql\_tables.go, which records them as texts. \<open>trim\<close> and \<open>upper\<close> are \<open>strings.TrimSpace\<close>
  and \<open>strings.ToUpper\<close>. A token is a string of bytes; \<open>keys\<close> is the order in which Go iterates over
  the map of the tables.
\<close>

subsection \<open>Tokens\<close>

text \<open>\<open>unicode.IsSpace\<close> of a byte, which is taken for a code point of Latin-1.\<close>

definition IsSpace :: "char \<Rightarrow> bool" where
  "IsSpace ch \<longleftrightarrow> of_char ch \<in> {9, 10, 11, 12, 13, 32, 0x85, 0xA0 :: nat}"

definition flush_token :: "string \<Rightarrow> string list \<Rightarrow> string list" where
  "flush_token current tokens = (if 0 < length current then tokens @ [current] else tokens)"

fun tokenize_loop :: "string \<Rightarrow> char option \<Rightarrow> string \<Rightarrow> string list \<Rightarrow> string list" where
  "tokenize_loop [] inString current tokens = flush_token current tokens"
| "tokenize_loop (ch # sql) (Some stringChar) current tokens =
     tokenize_loop sql (if ch = stringChar then None else Some stringChar) current tokens"
| "tokenize_loop (ch # sql) None current tokens =
     (if ch = CHR 0x27 \<or> ch = CHR 0x22 then tokenize_loop sql (Some ch) [] (flush_token current tokens)
      else if ch = CHR ''('' \<or> ch = CHR '')'' \<or> ch = CHR '','' \<or> ch = CHR '';''
        then tokenize_loop sql None [] (flush_token current tokens @ [[ch]])
      else if IsSpace ch then tokenize_loop sql None [] (flush_token current tokens)
      else tokenize_loop sql None (current @ [ch]) tokens)"

definition tokenize :: "string \<Rightarrow> string list" where
  "tokenize sql = tokenize_loop sql None [] []"

definition sql_keywords :: "string list" where
  "sql_keywords =
    [''SELECT'', ''FROM'', ''WHERE'', ''AND'', ''OR'',
     ''INSERT'', ''INTO'', ''VALUES'', ''UPDATE'', ''SET'',
     ''DELETE'', ''JOIN'', ''LEFT'', ''RIGHT'', ''INNER'',
     ''OUTER'', ''CROSS'', ''ON'', ''AS'', ''IN'',
     ''NOT'', ''NULL'', ''IS'', ''LIKE'', ''BETWEEN'',
     ''GROUP'', ''BY'', ''ORDER'', ''HAVING'', ''LIMIT'',
     ''OFFSET'', ''UNION'', ''ALL'', ''DISTINCT'', ''EXISTS'',
     ''CASE'', ''WHEN'', ''THEN'', ''ELSE'', ''END'',
     ''CREATE'', ''ALTER'', ''DROP'', ''TABLE'', ''INDEX'',
     ''MERGE'', ''USING'', ''MATCHED'', ''WITH'',
     ''('', '')'', '','', '';'', ''*'',
     ''FULL'', ''NATURAL'', ''FETCH'', ''FIRST'', ''NEXT'',
     ''ROWS'', ''ONLY'', ''FOR'']"

definition isTableName :: "string \<Rightarrow> bool" where
  "isTableName token =
     (if token = [] then False
      else if token \<in> set sql_keywords then False
      else let ch = of_char (token ! 0) :: nat
           in (65 \<le> ch \<and> ch \<le> 90) \<or> (97 \<le> ch \<and> ch \<le> 122) \<or> ch = 95)"

subsection \<open>Statements\<close>

type_synonym tables = "string \<Rightarrow> string option"

text \<open>The name behind a keyword, if it is one.\<close>

definition note_table :: "string list \<Rightarrow> string \<Rightarrow> tables \<Rightarrow> tables" where
  "note_table ts op m = (case ts of n # _ \<Rightarrow> if isTableName n then m(n \<mapsto> op) else m | [] \<Rightarrow> m)"

fun parseSelect :: "string list \<Rightarrow> tables \<Rightarrow> tables" where
  "parseSelect [] m = m"
| "parseSelect (t # ts) m = parseSelect ts (if t = ''FROM'' \<or> t = ''JOIN'' then note_table ts ''R'' m else m)"

text \<open>The loop that stops at the first keyword with a name behind it.\<close>

fun first_table :: "string \<Rightarrow> string \<Rightarrow> string list \<Rightarrow> tables \<Rightarrow> tables" where
  "first_table kw op [] m = m"
| "first_table kw op (t # ts) m =
     (if t = kw \<and> ts \<noteq> [] \<and> isTableName (hd ts) then m(hd ts \<mapsto> op) else first_table kw op ts m)"

definition parseInsert :: "string list \<Rightarrow> tables \<Rightarrow> tables" where
  "parseInsert tokens m =
     (let m = first_table ''INTO'' ''C'' tokens m
      in parseSelect (dropWhile (\<lambda>t. t \<noteq> ''SELECT'') tokens) m)"

text \<open>The loop of \<open>parseUpdate\<close> from the third token on is that of \<open>parseSelect\<close>.\<close>

definition parseUpdate :: "string list \<Rightarrow> tables \<Rightarrow> tables" where
  "parseUpdate tokens m =
     (let m = (if 1 < length tokens \<and> isTableName (tokens ! 1) then m(tokens ! 1 \<mapsto> ''U'') else m)
      in parseSelect (drop 2 tokens) m)"

definition parseDelete :: "string list \<Rightarrow> tables \<Rightarrow> tables" where
  "parseDelete tokens m = first_table ''FROM'' ''D'' tokens m"

fun parseMerge :: "string list \<Rightarrow> tables \<Rightarrow> tables" where
  "parseMerge [] m = m"
| "parseMerge (t # ts) m =
     parseMerge ts (let m = (if t = ''INTO'' then note_table ts ''U'' m else m) in if t = ''USING'' then note_table ts ''R'' m else m)"

definition statement_tables :: "string list \<Rightarrow> tables option" where
  "statement_tables tokens = (case tokens of
     [] \<Rightarrow> None
   | t # _ \<Rightarrow>
       if t = ''SELECT'' then Some (parseSelect tokens (\<lambda>_. None))
       else if t = ''INSERT'' then Some (parseInsert tokens (\<lambda>_. None))
       else if t = ''UPDATE'' then Some (parseUpdate tokens (\<lambda>_. None))
       else if t = ''DELETE'' then Some (parseDelete tokens (\<lambda>_. None))
       else if t = ''MERGE'' then Some (parseMerge tokens (\<lambda>_. None))
       else None)"

fun Join :: "string list \<Rightarrow> string \<Rightarrow> string" where
  "Join [] sep = []"
| "Join [x] sep = x"
| "Join (x # xs) sep = x @ sep @ Join xs sep"

definition table_text :: "tables \<Rightarrow> string \<Rightarrow> string" where
  "table_text m name = name @ ''('' @ (case m name of Some op \<Rightarrow> op | None \<Rightarrow> []) @ '')''"

definition ParseTableInfo :: "(string \<Rightarrow> string) \<Rightarrow> (string \<Rightarrow> string) \<Rightarrow> (tables \<Rightarrow> string list) \<Rightarrow> string \<Rightarrow> string" where
  "ParseTableInfo trim upper keys sql =
     (if sql = [] then []
      else case statement_tables (tokenize (upper (trim sql))) of
             None \<Rightarrow> []
           | Some m \<Rightarrow> if keys m = [] then [] else Join (sort (map (table_text m) (keys m))) '','')"

text \<open>Executable instances: the case of ASCII letters, and the keys in the order of the tokens.\<close>

definition ascii_upper :: "string \<Rightarrow> string" where
  "ascii_upper s = map (\<lambda>ch. let n = of_char ch :: nat in if 97 \<le> n \<and> n \<le> 122 then char_of (n - 32) else ch) s"

subsection \<open>What the parser computes\<close>

text \<open>The text with every literal replaced by a space.\<close>

fun mask_literals :: "char option \<Rightarrow> string \<Rightarrow> string" where
  "mask_literals q [] = []"
| "mask_literals None (ch # s) =
     (if ch = CHR 0x27 \<or> ch = CHR 0x22 then CHR '' '' # mask_literals (Some ch) s else ch # mask_literals None s)"
| "mask_literals (Some q) (ch # s) = mask_literals (if ch = q then None else Some q) s"

lemma tokenize_masked:
  "tokenize_loop sql None current tokens = tokenize_loop (mask_literals None sql) None current tokens"
  "tokenize_loop sql (Some q) [] tokens = tokenize_loop (mask_literals (Some q) sql) None [] tokens"
proof (induction sql arbitrary: q current tokens)
  case (Cons ch sql)
  case 1
  show ?case using Cons by (simp add: IsSpace_def)
next
  case (Cons ch sql)
  case 2
  show ?case using Cons by simp
qed simp_all

lemma tokenize_literals: "tokenize (mask_literals None sql) = tokenize sql"
  by (simp add: tokenize_def tokenize_masked(1) [of sql])

text \<open>The tokens that follow one another.\<close>

definition token_pairs :: "string list \<Rightarrow> (string \<times> string) list" where
  "token_pairs ts = zip ts (drop 1 ts)"

definition read_names :: "string list \<Rightarrow> string set" where
  "read_names ts = {n. isTableName n \<and> (\<exists>t. (t, n) \<in> set (token_pairs ts) \<and> (t = ''FROM'' \<or> t = ''JOIN''))}"

definition first_name :: "string \<Rightarrow> string list \<Rightarrow> string option" where
  "first_name kw ts = map_option snd (find (\<lambda>(t, n). t = kw \<and> isTableName n) (token_pairs ts))"

lemma token_pairs_simps [simp]:
  "token_pairs [] = []" "token_pairs [t] = []" "token_pairs (t # n # ts) = (t, n) # token_pairs (n # ts)"
  by (simp_all add: token_pairs_def)

lemma parseSelect_eq: "parseSelect ts m = (\<lambda>n. if n \<in> read_names ts then Some ''R'' else m n)"
proof (induction ts arbitrary: m)
  case (Cons t ts)
  show ?case
  proof (cases ts)
    case (Cons n ts')
    then show ?thesis using Cons.IH by (auto simp: note_table_def read_names_def fun_eq_iff)
  qed (simp add: note_table_def read_names_def)
qed (simp add: read_names_def)

lemma first_table_eq: "first_table kw op ts m = (case first_name kw ts of None \<Rightarrow> m | Some n \<Rightarrow> m(n \<mapsto> op))"
proof (induction ts)
  case (Cons t ts)
  then show ?case by (cases ts) (auto simp: first_name_def)
qed (simp add: first_name_def)

lemma parseMerge_names:
  "parseMerge ts m n \<noteq> m n \<Longrightarrow> isTableName n \<and> (\<exists>t. (t, n) \<in> set (token_pairs ts) \<and> (t = ''INTO'' \<or> t = ''USING''))"
proof (induction ts arbitrary: m)
  case (Cons t ts)
  show ?case
  proof (cases ts)
    case (Cons n' ts')
    let ?m = "let m = (if t = ''INTO'' then note_table ts ''U'' m else m) in if t = ''USING'' then note_table ts ''R'' m else m"
    show ?thesis
    proof (cases "parseMerge ts ?m n = ?m n")
      case True
      then have "?m n \<noteq> m n" using Cons.prems by simp
      then show ?thesis using Cons by (auto simp: note_table_def Let_def split: if_splits)
    next
      case False
      from Cons.IH [OF this] show ?thesis using Cons by auto
    qed
  qed (use Cons.prems in \<open>simp add: note_table_def Let_def split: if_splits\<close>)
qed simp

text \<open>Which tables a statement reads, creates, updates or deletes from; a table that is also read counts as read.\<close>

definition writes_of :: "string list \<Rightarrow> (string \<times> string) option" where
  "writes_of ts = (case ts of
     [] \<Rightarrow> None
   | t # ns \<Rightarrow>
       if t = ''INSERT'' then map_option (\<lambda>n. (n, ''C'')) (first_name ''INTO'' ts)
       else if t = ''UPDATE'' then (case ns of n # _ \<Rightarrow> if isTableName n then Some (n, ''U'') else None | [] \<Rightarrow> None)
       else if t = ''DELETE'' then map_option (\<lambda>n. (n, ''D'')) (first_name ''FROM'' ts)
       else None)"

definition reads_of :: "string list \<Rightarrow> string set" where
  "reads_of ts = (case ts of
     [] \<Rightarrow> {}
   | t # _ \<Rightarrow>
       if t = ''SELECT'' then read_names ts
       else if t = ''INSERT'' then read_names (dropWhile (\<lambda>t. t \<noteq> ''SELECT'') ts)
       else if t = ''UPDATE'' then read_names (drop 2 ts)
       else {})"

lemma statement_tables_eq:
  assumes "ts \<noteq> []" and "hd ts \<in> {''SELECT'', ''INSERT'', ''UPDATE'', ''DELETE''}"
  shows "statement_tables ts = Some (\<lambda>n. if n \<in> reads_of ts then Some ''R''
    else case writes_of ts of Some (w, op) \<Rightarrow> if n = w then Some op else None | None \<Rightarrow> None)"
proof -
  obtain t ns where ts: "ts = t # ns" using assms(1) by (cases ts) auto
  consider "t = ''SELECT''" | "t = ''INSERT''" | "t = ''UPDATE''" | "t = ''DELETE''" using assms(2) ts by auto
  then show ?thesis
  proof cases
    case 1
    then show ?thesis by (auto simp: statement_tables_def parseSelect_eq reads_of_def writes_of_def ts fun_eq_iff)
  next
    case 2
    then show ?thesis
      by (auto simp: statement_tables_def parseInsert_def parseSelect_eq first_table_eq reads_of_def writes_of_def ts fun_eq_iff
          split: option.split)
  next
    case 3
    then show ?thesis
      by (cases ns) (auto simp: statement_tables_def parseUpdate_def parseSelect_eq reads_of_def writes_of_def ts fun_eq_iff)
  next
    case 4
    then show ?thesis
      by (auto simp: statement_tables_def parseDelete_def first_table_eq reads_of_def writes_of_def ts fun_eq_iff
          split: option.split)
  qed
qed

text \<open>The result does not depend on the order of the iteration over the map.\<close>

lemma ParseTableInfo_order:
  assumes "\<And>m. finite (dom m) \<Longrightarrow> distinct (keys m) \<and> set (keys m) = dom m"
    and "\<And>m. finite (dom m) \<Longrightarrow> distinct (keys' m) \<and> set (keys' m) = dom m"
  shows "ParseTableInfo trim upper keys sql = ParseTableInfo trim upper keys' sql"
proof (cases "statement_tables (tokenize (upper (trim sql)))")
  case (Some m)
  have fin_note: "finite (dom m) \<Longrightarrow> finite (dom (note_table ts op m))" for ts op m
    by (cases ts) (auto simp: note_table_def)
  have sel: "finite (dom m) \<Longrightarrow> finite (dom (parseSelect ts m))" for ts m
    by (induction ts arbitrary: m) (auto simp: fin_note)
  have fst: "finite (dom m) \<Longrightarrow> finite (dom (first_table kw op ts m))" for kw op ts m
    by (induction ts) auto
  have mrg: "finite (dom m) \<Longrightarrow> finite (dom (parseMerge ts m))" for ts m
    by (induction ts arbitrary: m) (auto simp: fin_note Let_def)
  have "finite (dom m)" using Some
    by (auto simp: statement_tables_def parseInsert_def parseUpdate_def parseDelete_def sel fst mrg Let_def
        split: list.splits if_splits)
  then have "mset (keys m) = mset (keys' m)" using assms by (metis set_eq_iff_mset_eq_distinct)
  then have "sort (map (table_text m) (keys m)) = sort (map (table_text m) (keys' m))" "keys m = [] \<longleftrightarrow> keys' m = []"
    by (auto intro: properties_for_sort simp: mset_map)
  then show ?thesis using Some by (simp add: ParseTableInfo_def)
qed (simp add: ParseTableInfo_def)

text \<open>A byte of a longer UTF-8 code can look like a space: the token is cut there.\<close>

lemma utf8_token_cut:
  "tokenize (''FROM T_'' @ [CHR 0xEC, CHR 0xA0, CHR 0x95]) = [''FROM'', ''T_'' @ [CHR 0xEC], [CHR 0x95]]"
  by (simp add: tokenize_def flush_token_def IsSpace_def)

subsection \<open>Recording the tables\<close>

record sqlTableEntry =
  ste_date :: string
  ste_sqlHash :: i32
  ste_sqlText :: string

record SqlTables =
  st_textCache :: "TextCache option"
  st_hasTextWR :: bool
  st_parsedSet :: "(string \<times> i32) set"
  st_lastDate :: string

definition sqlTableTextType :: string where "sqlTableTextType = ''sqltable''"
definition sqlTableQueueSize :: nat where "sqlTableQueueSize = 4096"

definition NewSqlTables :: "TextCache option \<Rightarrow> bool \<Rightarrow> string \<Rightarrow> SqlTables" where
  "NewSqlTables textCache hasTextWR today =
     \<lparr>st_textCache = textCache, st_hasTextWR = hasTextWR, st_parsedSet = {}, st_lastDate = today\<rparr>"

definition st_Add :: "sqlTableEntry \<Rightarrow> sqlTableEntry list \<Rightarrow> sqlTableEntry list" where
  "st_Add e q = (if ste_sqlHash e = 0 \<or> ste_sqlText e = [] then q else enqueue sqlTableQueueSize e q)"

text \<open>The calls of \<open>textWR.Add\<close>: type, hash and text.\<close>

definition st_process :: "(string \<Rightarrow> string) \<Rightarrow> sqlTableEntry \<Rightarrow> SqlTables \<Rightarrow> (string \<times> i32 \<times> string) list \<times> SqlTables" where
  "st_process parse e st =
     (let st = (if ste_date e \<noteq> st_lastDate st then st\<lparr>st_parsedSet := {}, st_lastDate := ste_date e\<rparr> else st);
          key = (ste_date e, ste_sqlHash e)
      in if key \<in> st_parsedSet st then ([], st)
         else let st = st\<lparr>st_parsedSet := insert key (st_parsedSet st)\<rparr>;
                  tableInfo = parse (ste_sqlText e)
              in if tableInfo = [] then ([], st)
                 else (if st_hasTextWR st then [(sqlTableTextType, ste_sqlHash e, tableInfo)] else [],
                       st\<lparr>st_textCache := map_option (tc_Put sqlTableTextType (ste_sqlHash e) tableInfo) (st_textCache st)\<rparr>))"

fun st_run :: "(string \<Rightarrow> string) \<Rightarrow> sqlTableEntry list \<Rightarrow> SqlTables \<Rightarrow> (string \<times> i32 \<times> string) list \<times> SqlTables" where
  "st_run parse [] st = ([], st)"
| "st_run parse (e # es) st = (let (cs, st) = st_process parse e st; (cs', st) = st_run parse es st in (cs @ cs', st))"

text \<open>The parsed keys are of the last date, and while the date stays a statement is recorded once.\<close>

definition st_inv :: "SqlTables \<Rightarrow> bool" where
  "st_inv st \<longleftrightarrow> (\<forall>(d, h) \<in> st_parsedSet st. d = st_lastDate st)"

lemma st_process_inv: "st_inv st \<Longrightarrow> st_inv (snd (st_process parse e st))"
  by (auto simp: st_inv_def st_process_def Let_def)

lemma st_run_once:
  assumes "\<forall>e \<in> set es. ste_date e = st_lastDate st" and "st_inv st"
  shows "distinct (map (\<lambda>(t, h, i). h) (fst (st_run parse es st))) \<and>
    (\<forall>(t, h, i) \<in> set (fst (st_run parse es st)). (st_lastDate st, h) \<notin> st_parsedSet st)"
  using assms
proof (induction es arbitrary: st)
  case (Cons e es)
  let ?st = "snd (st_process parse e st)" and ?k = "(st_lastDate st, ste_sqlHash e)"
  have date: "ste_date e = st_lastDate st" using Cons.prems(1) by simp
  have st: "st_lastDate ?st = st_lastDate st" "st_parsedSet ?st = insert ?k (st_parsedSet st)"
    using date by (auto simp: st_process_def Let_def)
  have cs: "fst (st_process parse e st) = [] \<or>
      (\<exists>i. fst (st_process parse e st) = [(sqlTableTextType, ste_sqlHash e, i)] \<and> ?k \<notin> st_parsedSet st)"
    using date by (auto simp: st_process_def Let_def)
  have IH: "distinct (map (\<lambda>(t, h, i). h) (fst (st_run parse es ?st)))"
    "\<forall>(t, h, i) \<in> set (fst (st_run parse es ?st)). (st_lastDate st, h) \<notin> insert ?k (st_parsedSet st)"
    using Cons.IH [of ?st] Cons.prems st_process_inv [of st parse e] st by auto
  show ?case using cs IH by (fastforce simp: case_prod_unfold Let_def)
qed simp

end
