(* ===== verification/KvStore.thy ===== *)
theory KvStore
  imports Prelude
begin

text \<open>
  internal/db/kv: key-value pairs in memory, some with an expiry, saved to a file. \<open>now\<close> is
  \<open>time.Now().UnixMilli()\<close>; \<open>marshal\<close> and \<open>unmarshal\<close> are encoding/json on the pairs, whose strings come
  back if they are UTF-8; the file is \<^const>\<open>None\<close> before the first save. An operation that iterates over
  the map gets the keys in the order of the iteration. The system calls succeed.

  The lemmas show that any operations, the background tasks and restarts included, give what the last
  write of a key says: its value until it expires.
\<close>

record kvEntry =
  kv_Value :: string
  kv_ExpiresAt :: i64

type_synonym kv_data = "string \<Rightarrow> kvEntry option"

record 'f KVStore =
  ks_data :: kv_data
  ks_dirty :: bool
  ks_file :: "'f option"

definition kv_load :: "('f \<Rightarrow> kv_data option) \<Rightarrow> 'f KVStore \<Rightarrow> 'f KVStore" where
  "kv_load unmarshal s = (case ks_file s of
     None \<Rightarrow> s
   | Some f \<Rightarrow> (case unmarshal f of None \<Rightarrow> s | Some d \<Rightarrow> s\<lparr>ks_data := d\<rparr>))"

definition NewKVStore :: "('f \<Rightarrow> kv_data option) \<Rightarrow> 'f option \<Rightarrow> 'f KVStore" where
  "NewKVStore unmarshal file = kv_load unmarshal \<lparr>ks_data = (\<lambda>_. None), ks_dirty = False, ks_file = file\<rparr>"

definition kv_Get :: "i64 \<Rightarrow> string \<Rightarrow> 'f KVStore \<Rightarrow> string option" where
  "kv_Get now key s = (case ks_data s key of
     None \<Rightarrow> None
   | Some e \<Rightarrow> if 0 < sint (kv_ExpiresAt e) \<and> sint (kv_ExpiresAt e) < sint now then None else Some (kv_Value e))"

definition kv_Set :: "string \<Rightarrow> string \<Rightarrow> 'f KVStore \<Rightarrow> 'f KVStore" where
  "kv_Set key v s = s\<lparr>ks_data := (ks_data s)(key \<mapsto> \<lparr>kv_Value = v, kv_ExpiresAt = 0\<rparr>), ks_dirty := True\<rparr>"

definition kv_SetTTL :: "i64 \<Rightarrow> string \<Rightarrow> string \<Rightarrow> i64 \<Rightarrow> 'f KVStore \<Rightarrow> 'f KVStore" where
  "kv_SetTTL now key v ttlMs s =
     (let expiresAt = (if 0 < sint ttlMs then now + ttlMs else 0)
      in s\<lparr>ks_data := (ks_data s)(key \<mapsto> \<lparr>kv_Value = v, kv_ExpiresAt = expiresAt\<rparr>), ks_dirty := True\<rparr>)"

definition kv_GetBulk :: "i64 \<Rightarrow> string list \<Rightarrow> 'f KVStore \<Rightarrow> string \<Rightarrow> string option" where
  "kv_GetBulk now keys s =
     fold (\<lambda>key result. case ks_data s key of
         Some e \<Rightarrow> if kv_ExpiresAt e = 0 \<or> sint now \<le> sint (kv_ExpiresAt e) then result(key \<mapsto> kv_Value e) else result
       | None \<Rightarrow> result) keys (\<lambda>_. None)"

definition kv_SetBulk :: "(string \<times> string) list \<Rightarrow> 'f KVStore \<Rightarrow> 'f KVStore" where
  "kv_SetBulk pairs s =
     s\<lparr>ks_data := fold (\<lambda>(key, v) d. d(key \<mapsto> \<lparr>kv_Value = v, kv_ExpiresAt = 0\<rparr>)) pairs (ks_data s), ks_dirty := True\<rparr>"

fun kv_expire :: "i64 \<Rightarrow> string list \<Rightarrow> kv_data \<Rightarrow> nat \<times> kv_data" where
  "kv_expire now [] d = (0, d)"
| "kv_expire now (key # keys) d = (case d key of
     Some e \<Rightarrow>
       if 0 < sint (kv_ExpiresAt e) \<and> sint (kv_ExpiresAt e) < sint now
       then let (removed, d) = kv_expire now keys (d(key := None)) in (removed + 1, d)
       else kv_expire now keys d
   | None \<Rightarrow> kv_expire now keys d)"

definition kv_cleanupExpired :: "i64 \<Rightarrow> string list \<Rightarrow> 'f KVStore \<Rightarrow> 'f KVStore" where
  "kv_cleanupExpired now keys s =
     (let (removed, d) = kv_expire now keys (ks_data s)
      in s\<lparr>ks_data := d, ks_dirty := (if 0 < removed then True else ks_dirty s)\<rparr>)"

definition kv_save :: "(kv_data \<Rightarrow> 'f) \<Rightarrow> 'f KVStore \<Rightarrow> 'f KVStore" where
  "kv_save marshal s = (if \<not> ks_dirty s then s else s\<lparr>ks_dirty := False, ks_file := Some (marshal (ks_data s))\<rparr>)"

definition kv_Close :: "(kv_data \<Rightarrow> 'f) \<Rightarrow> 'f KVStore \<Rightarrow> 'f KVStore" where
  "kv_Close marshal s = kv_save marshal s"

subsection \<open>The two reads\<close>

lemma kv_GetBulk_eq:
  "kv_GetBulk now keys s key =
    (if key \<in> set keys then (case ks_data s key of
        Some e \<Rightarrow> if kv_ExpiresAt e = 0 \<or> sint now \<le> sint (kv_ExpiresAt e) then Some (kv_Value e) else None
      | None \<Rightarrow> None) else None)"
proof -
  have "fold (\<lambda>key result. case ks_data s key of
         Some e \<Rightarrow> if kv_ExpiresAt e = 0 \<or> sint now \<le> sint (kv_ExpiresAt e) then result(key \<mapsto> kv_Value e) else result
       | None \<Rightarrow> result) keys result key =
    (if key \<in> set keys then (case ks_data s key of
        Some e \<Rightarrow> if kv_ExpiresAt e = 0 \<or> sint now \<le> sint (kv_ExpiresAt e) then Some (kv_Value e) else result key
      | None \<Rightarrow> result key) else result key)" for result
    by (induction keys arbitrary: result) (auto split: option.split)
  then show ?thesis by (simp add: kv_GetBulk_def)
qed

text \<open>They agree unless the expiry is negative, as it is when the addition in \<open>SetTTL\<close> overflows.\<close>

lemma kv_Get_GetBulk:
  assumes "\<And>e. ks_data s key = Some e \<Longrightarrow> 0 \<le> sint (kv_ExpiresAt e)"
  shows "kv_GetBulk now [key] s key = kv_Get now key s"
proof -
  have "x = 0 \<or> 0 < sint x" if "0 \<le> sint x" for x :: i64
    using that by (metis order_le_less signed_word_eqI sint_0)
  with assms show ?thesis by (fastforce simp: kv_GetBulk_eq kv_Get_def split: option.split)
qed

lemma kv_overflow:
  assumes "0 < sint now" and "2 ^ 63 \<le> sint now + sint ttl" and "sint now \<le> sint later"
  shows "kv_Get later key (kv_SetTTL now key v ttl s) = Some v" and "kv_GetBulk later [key] (kv_SetTTL now key v ttl s) key = None"
proof -
  have ttl: "0 < sint ttl" "sint now < 2 ^ 63" "sint ttl < 2 ^ 63"
    using assms(2) sint_lt [of now] sint_lt [of ttl] by simp_all
  have "(sint now + sint ttl + 2 ^ 63) mod 2 ^ 64 = (sint now + sint ttl + 2 ^ 63 - 2 ^ 64) mod 2 ^ 64"
    by (rule minus_mod_self2 [symmetric])
  also have "\<dots> = sint now + sint ttl + 2 ^ 63 - 2 ^ 64" using assms ttl by (intro mod_pos_pos_trivial) simp_all
  finally have "sint (now + ttl) = sint now + sint ttl - 2 ^ 64"
    by (simp add: sint_word_ariths signed_take_bit_eq_take_bit_shift take_bit_eq_mod)
  then have neg: "sint (now + ttl) < 0" using ttl assms(2) by simp
  then have "now + ttl \<noteq> 0" by auto
  with neg ttl assms show "kv_Get later key (kv_SetTTL now key v ttl s) = Some v"
    "kv_GetBulk later [key] (kv_SetTTL now key v ttl s) key = None"
    by (auto simp: kv_Get_def kv_GetBulk_eq kv_SetTTL_def)
qed

subsection \<open>The last write of a key\<close>

datatype kv_op =
    KvSet string string
  | KvSetTTL i64 string string i64
  | KvSetBulk "(string \<times> string) list"
  | KvCleanup i64 "string list"
  | KvSave
  | KvRestart

fun kv_do :: "(kv_data \<Rightarrow> 'f) \<Rightarrow> ('f \<Rightarrow> kv_data option) \<Rightarrow> kv_op \<Rightarrow> 'f KVStore \<Rightarrow> 'f KVStore" where
  "kv_do marshal unmarshal (KvSet k v) s = kv_Set k v s"
| "kv_do marshal unmarshal (KvSetTTL now k v ttl) s = kv_SetTTL now k v ttl s"
| "kv_do marshal unmarshal (KvSetBulk ps) s = kv_SetBulk ps s"
| "kv_do marshal unmarshal (KvCleanup now keys) s = kv_cleanupExpired now keys s"
| "kv_do marshal unmarshal KvSave s = kv_save marshal s"
| "kv_do marshal unmarshal KvRestart s = NewKVStore unmarshal (ks_file (kv_Close marshal s))"

text \<open>The value of a key and, if it expires, when.\<close>

type_synonym kv_spec = "string \<Rightarrow> (string \<times> int option) option"

fun spec_do :: "kv_op \<Rightarrow> kv_spec \<Rightarrow> kv_spec" where
  "spec_do (KvSet k v) m = m(k \<mapsto> (v, None))"
| "spec_do (KvSetTTL now k v ttl) m = m(k \<mapsto> (v, if 0 < sint ttl then Some (sint now + sint ttl) else None))"
| "spec_do (KvSetBulk ps) m = fold (\<lambda>(k, v) m. m(k \<mapsto> (v, None))) ps m"
| "spec_do _ m = m"

definition spec_Get :: "int \<Rightarrow> string \<Rightarrow> kv_spec \<Rightarrow> string option" where
  "spec_Get now k m = (case m k of
     None \<Rightarrow> None
   | Some (v, exp) \<Rightarrow> (case exp of None \<Rightarrow> Some v | Some t \<Rightarrow> if t < now then None else Some v))"

text \<open>The clock does not go back, no expiry overflows, and the strings can be saved.\<close>

fun ok_kv_op :: "(string \<Rightarrow> bool) \<Rightarrow> kv_op \<Rightarrow> bool" where
  "ok_kv_op utf8 (KvSet k v) = (utf8 k \<and> utf8 v)"
| "ok_kv_op utf8 (KvSetTTL now k v ttl) = (utf8 k \<and> utf8 v \<and> 0 < sint now \<and> sint now + sint ttl < 2 ^ 63)"
| "ok_kv_op utf8 (KvSetBulk ps) = (\<forall>(k, v) \<in> set ps. utf8 k \<and> utf8 v)"
| "ok_kv_op utf8 _ = True"

fun op_time :: "kv_op \<Rightarrow> int option" where
  "op_time (KvCleanup now keys) = Some (sint now)"
| "op_time _ = None"

definition cleaned_until :: "kv_op list \<Rightarrow> int \<Rightarrow> bool" where
  "cleaned_until ops t \<longleftrightarrow> (\<forall>op \<in> set ops. \<forall>c. op_time op = Some c \<longrightarrow> c \<le> t)"

text \<open>
  The entries are those of the specification, but for some that have expired; what is not dirty is in
  the file.
\<close>

fun entry_as :: "kvEntry \<Rightarrow> string \<times> int option \<Rightarrow> bool" where
  "entry_as e (v, exp) = (kv_Value e = v \<and> (case exp of None \<Rightarrow> kv_ExpiresAt e = 0 | Some t \<Rightarrow> 0 < t \<and> sint (kv_ExpiresAt e) = t))"

fun key_rep :: "(string \<Rightarrow> bool) \<Rightarrow> int \<Rightarrow> string \<Rightarrow> kvEntry option \<Rightarrow> (string \<times> int option) option \<Rightarrow> bool" where
  "key_rep utf8 t k (Some e) (Some x) = (utf8 k \<and> utf8 (kv_Value e) \<and> entry_as e x)"
| "key_rep utf8 t k (Some e) None = False"
| "key_rep utf8 t k None None = True"
| "key_rep utf8 t k None (Some (v, None)) = False"
| "key_rep utf8 t k None (Some (v, Some u)) = (u < t)"

definition kv_rep :: "(kv_data \<Rightarrow> 'f) \<Rightarrow> (string \<Rightarrow> bool) \<Rightarrow> int \<Rightarrow> 'f KVStore \<Rightarrow> kv_spec \<Rightarrow> bool" where
  "kv_rep marshal utf8 t s m \<longleftrightarrow> (\<forall>k. key_rep utf8 t k (ks_data s k) (m k)) \<and>
     (\<not> ks_dirty s \<longrightarrow> (case ks_file s of Some f \<Rightarrow> f = marshal (ks_data s) | None \<Rightarrow> ks_data s = (\<lambda>_. None)))"

lemma key_rep_Get:
  assumes "key_rep utf8 t k d m" and "t \<le> sint now"
  shows "(case d of None \<Rightarrow> None | Some e \<Rightarrow> if 0 < sint (kv_ExpiresAt e) \<and> sint (kv_ExpiresAt e) < sint now then None else Some (kv_Value e)) =
    (case m of None \<Rightarrow> None | Some (v, exp) \<Rightarrow> (case exp of None \<Rightarrow> Some v | Some t \<Rightarrow> if t < sint now then None else Some v))"
  using assms by (cases "(utf8, t, k, d, m)" rule: key_rep.cases) (auto split: option.splits)

lemma kv_rep_Get:
  assumes "kv_rep marshal utf8 t s m" and "t \<le> sint now"
  shows "kv_Get now k s = spec_Get (sint now) k m"
  using assms key_rep_Get [of utf8 t k "ks_data s k" "m k" now] by (simp add: kv_rep_def kv_Get_def spec_Get_def)

lemma kv_rep_put:
  assumes "kv_rep marshal utf8 t s m" and "utf8 k" and "utf8 v" and "entry_as \<lparr>kv_Value = v, kv_ExpiresAt = x\<rparr> y"
  shows "kv_rep marshal utf8 t (s\<lparr>ks_data := (ks_data s)(k \<mapsto> \<lparr>kv_Value = v, kv_ExpiresAt = x\<rparr>), ks_dirty := True\<rparr>) (m(k \<mapsto> y))"
  using assms by (simp add: kv_rep_def)

lemma kv_rep_bulk:
  assumes "kv_rep marshal utf8 t s m" and "\<forall>(k, v) \<in> set ps. utf8 k \<and> utf8 v"
  shows "kv_rep marshal utf8 t (kv_SetBulk ps s) (fold (\<lambda>(k, v) m. m(k \<mapsto> (v, None))) ps m)"
proof -
  let ?put = "\<lambda>ps d. fold (\<lambda>(key, v) d. d(key \<mapsto> \<lparr>kv_Value = v, kv_ExpiresAt = 0\<rparr>)) ps d"
  have "kv_rep marshal utf8 t (s\<lparr>ks_data := ?put ps (ks_data s), ks_dirty := True\<rparr>) (fold (\<lambda>(k, v) m. m(k \<mapsto> (v, None))) ps m)"
    if "kv_rep marshal utf8 t (s\<lparr>ks_dirty := True\<rparr>) m" for s m
    using that assms(2)
  proof (induction ps arbitrary: s m)
    case (Cons p ps)
    obtain k v where p: "p = (k, v)" by (cases p)
    have "kv_rep marshal utf8 t (s\<lparr>ks_data := (ks_data s)(k \<mapsto> \<lparr>kv_Value = v, kv_ExpiresAt = 0\<rparr>), ks_dirty := True\<rparr>) (m(k \<mapsto> (v, None)))"
      using kv_rep_put [OF Cons.prems(1), of k v 0 "(v, None)"] Cons.prems(2) p by simp
    from Cons.IH [of "s\<lparr>ks_data := (ks_data s)(k \<mapsto> \<lparr>kv_Value = v, kv_ExpiresAt = 0\<rparr>)\<rparr>"] this Cons.prems(2)
    show ?case by (simp add: p del: fun_upd_apply)
  qed simp
  moreover have "kv_rep marshal utf8 t (s\<lparr>ks_dirty := True\<rparr>) m" using assms(1) by (simp add: kv_rep_def)
  ultimately show ?thesis by (simp add: kv_SetBulk_def)
qed

lemma kv_expire_eq:
  "snd (kv_expire now keys d) = (\<lambda>k. case d k of
      Some e \<Rightarrow> if k \<in> set keys \<and> 0 < sint (kv_ExpiresAt e) \<and> sint (kv_ExpiresAt e) < sint now then None else Some e
    | None \<Rightarrow> None)"
proof (induction keys arbitrary: d)
  case (Cons key keys)
  show ?case
  proof (cases "\<exists>e. d key = Some e \<and> 0 < sint (kv_ExpiresAt e) \<and> sint (kv_ExpiresAt e) < sint now")
    case True
    then have "kv_expire now (key # keys) d = (let (removed, d) = kv_expire now keys (d(key := None)) in (removed + 1, d))" by auto
    then show ?thesis using Cons.IH [of "d(key := None)"] True
      by (auto simp: fun_eq_iff case_prod_unfold Let_def split: option.splits)
  next
    case False
    then have "kv_expire now (key # keys) d = kv_expire now keys d" by (auto split: option.split)
    then show ?thesis using Cons.IH [of d] False by (auto simp: fun_eq_iff split: option.split)
  qed
qed (auto split: option.split)

lemma kv_expire_none: "fst (kv_expire now keys d) = 0 \<Longrightarrow> snd (kv_expire now keys d) = d"
  by (induction keys arbitrary: d) (auto simp: case_prod_unfold Let_def split: option.splits if_splits)

lemma kv_rep_later: "kv_rep marshal utf8 t s m \<Longrightarrow> t \<le> t' \<Longrightarrow> kv_rep marshal utf8 t' s m"
proof -
  have "key_rep utf8 t k d x \<Longrightarrow> t \<le> t' \<Longrightarrow> key_rep utf8 t' k d x" for k d x
    by (cases "(utf8, t, k, d, x)" rule: key_rep.cases) auto
  then show "kv_rep marshal utf8 t s m \<Longrightarrow> t \<le> t' \<Longrightarrow> kv_rep marshal utf8 t' s m" by (auto simp: kv_rep_def)
qed

lemma kv_rep_cleanup:
  assumes "kv_rep marshal utf8 t s m" and "sint now \<le> t"
  shows "kv_rep marshal utf8 t (kv_cleanupExpired now keys s) m"
proof -
  note eq = kv_expire_eq [of now keys "ks_data s"]
  have "key_rep utf8 t k (snd (kv_expire now keys (ks_data s)) k) (m k)" for k
  proof -
    have "key_rep utf8 t k (ks_data s k) (m k)" using assms(1) by (simp add: kv_rep_def)
    then show ?thesis using eq assms(2)
      by (cases "(utf8, t, k, ks_data s k, m k)" rule: key_rep.cases) (auto split: option.splits)
  qed
  then show ?thesis using assms(1) kv_expire_none [of now keys "ks_data s"]
    by (auto simp: kv_rep_def kv_cleanupExpired_def case_prod_unfold Let_def split: option.splits)
qed

lemma kv_rep_save: "kv_rep marshal utf8 t s m \<Longrightarrow> kv_rep marshal utf8 t (kv_save marshal s) m \<and> \<not> ks_dirty (kv_save marshal s)"
  by (simp add: kv_rep_def kv_save_def)

lemma kv_rep_restart:
  assumes "kv_rep marshal utf8 t s m"
    and "\<And>d. (\<And>k e. d k = Some e \<Longrightarrow> utf8 k \<and> utf8 (kv_Value e)) \<Longrightarrow> unmarshal (marshal d) = Some d"
  shows "kv_rep marshal utf8 t (NewKVStore unmarshal (ks_file (kv_Close marshal s))) m"
proof -
  let ?s = "kv_save marshal s"
  have s: "kv_rep marshal utf8 t ?s m" "\<not> ks_dirty ?s" using kv_rep_save [OF assms(1)] by simp_all
  have "utf8 k \<and> utf8 (kv_Value e)" if "ks_data ?s k = Some e" for k e
  proof -
    have "key_rep utf8 t k (Some e) (m k)" using s(1) that by (metis kv_rep_def)
    then show ?thesis by (cases "m k") auto
  qed
  then have "unmarshal (marshal (ks_data ?s)) = Some (ks_data ?s)" by (rule assms(2))
  with s show ?thesis by (auto simp: kv_rep_def NewKVStore_def kv_load_def kv_Close_def split: option.splits)
qed

lemma kv_do_rep:
  assumes "kv_rep marshal utf8 t s m" and "ok_kv_op utf8 op" and "case op_time op of Some c \<Rightarrow> c \<le> t | None \<Rightarrow> True"
    and "\<And>d. (\<And>k e. d k = Some e \<Longrightarrow> utf8 k \<and> utf8 (kv_Value e)) \<Longrightarrow> unmarshal (marshal d) = Some d"
  shows "kv_rep marshal utf8 t (kv_do marshal unmarshal op s) (spec_do op m)"
proof (cases op)
  case (KvSet k v)
  then show ?thesis using kv_rep_put [OF assms(1), of k v 0 "(v, None)"] assms(2) by (simp add: kv_Set_def)
next
  case (KvSetTTL now k v ttl)
  have "entry_as \<lparr>kv_Value = v, kv_ExpiresAt = (if 0 < sint ttl then now + ttl else 0)\<rparr>
      (v, if 0 < sint ttl then Some (sint now + sint ttl) else None)"
    using assms(2) KvSetTTL by (auto simp: sint_word_ariths signed_take_bit_int_eq_self)
  from kv_rep_put [OF assms(1) _ _ this, of k] show ?thesis using assms(2) KvSetTTL by (simp add: kv_SetTTL_def Let_def)
next
  case (KvSetBulk ps)
  then show ?thesis using kv_rep_bulk [OF assms(1), of ps] assms(2) by simp
next
  case (KvCleanup now keys)
  then show ?thesis using kv_rep_cleanup [OF assms(1), of now keys] assms(3) by simp
next
  case KvSave
  then show ?thesis using kv_rep_save [OF assms(1)] by simp
next
  case KvRestart
  then show ?thesis using kv_rep_restart [OF assms(1,4)] by simp
qed

lemma kv_run_Get:
  assumes "list_all (ok_kv_op utf8) ops" and "cleaned_until ops (sint now)"
    and "\<And>d. (\<And>k e. d k = Some e \<Longrightarrow> utf8 k \<and> utf8 (kv_Value e)) \<Longrightarrow> unmarshal (marshal d) = Some d"
  shows "kv_Get now k (fold (kv_do marshal unmarshal) ops (NewKVStore unmarshal None)) = spec_Get (sint now) k (fold spec_do ops (\<lambda>_. None))"
proof -
  have run: "kv_rep marshal utf8 (sint now) s m \<Longrightarrow> list_all (ok_kv_op utf8) ops \<Longrightarrow> cleaned_until ops (sint now) \<Longrightarrow>
    kv_rep marshal utf8 (sint now) (fold (kv_do marshal unmarshal) ops s) (fold spec_do ops m)" for s m
  proof (induction ops arbitrary: s m)
    case (Cons op ops)
    have "case op_time op of Some c \<Rightarrow> c \<le> sint now | None \<Rightarrow> True"
      using Cons.prems(3) by (auto simp: cleaned_until_def split: option.split)
    moreover have "ok_kv_op utf8 op" "list_all (ok_kv_op utf8) ops" using Cons.prems(2) by simp_all
    moreover have "cleaned_until ops (sint now)" using Cons.prems(3) by (simp add: cleaned_until_def)
    ultimately have "kv_rep marshal utf8 (sint now) (fold (kv_do marshal unmarshal) ops (kv_do marshal unmarshal op s))
        (fold spec_do ops (spec_do op m))"
      by (intro Cons.IH kv_do_rep [OF Cons.prems(1)] assms(3)) blast+
    then show ?case by simp
  qed simp
  have "kv_rep marshal utf8 (sint now) (NewKVStore unmarshal None) (\<lambda>_. None)"
    by (simp add: kv_rep_def NewKVStore_def kv_load_def)
  from kv_rep_Get [OF run [OF this assms(1,2)] order_refl] show ?thesis .
qed

end
