(* ===== verification/PlaceIndex.thy ===== *)
theory PlaceIndex
  imports DataFile IndexKeyFile
begin

text \<open>
  A key index in front of a file of entries: the data of a key is the five byte position of its entry. Shared
  by the profile, counter and text databases.
\<close>

lemma log_places_mem: "x \<in> set (log_places frame es) \<Longrightarrow> fst x \<in> set es"
  using log_places_fst [of frame es] by (metis image_eqI set_map)

text \<open>Changing entries of a file in place, where the length of their frames stays.\<close>

lemma log_places_update:
  assumes "\<And>e. e \<in> set es \<Longrightarrow> length (frame (g e)) = length (frame e)"
  shows "length (log_image frame (map g es)) = length (log_image frame es)"
    and "log_places frame (map g es) = map (\<lambda>(e, p). (g e, p)) (log_places frame es)"
  using assms by (induction es) simp_all

lemma log_image_update:
  assumes "(e, pos) \<in> set (log_places frame es)" and "length (log_image frame es) < 2 ^ 39" and "distinct es"
    and "\<And>e'. e' \<in> set es \<Longrightarrow> e' \<noteq> e \<Longrightarrow> g e' = e'" and "length (frame (g e)) = length (frame e)"
  shows "\<exists>pre post. log_image frame es = pre @ frame e @ post \<and> log_image frame (map g es) = pre @ frame (g e) @ post \<and>
    sint (Int5 pos) = int (length pre)"
  using assms
proof (induction es)
  case (Cons e' es)
  show ?case
  proof (cases "e' = e")
    case True
    then have "e \<notin> set es" using Cons.prems(3) by simp
    moreover from this have "(e, pos) \<notin> set (log_places frame es)" using log_places_mem [of "(e, pos)" frame es] by auto
    ultimately have "pos = Bytes5 (word_of_nat (length (log_image frame es)))" and "map g es = es"
      using Cons.prems(1,4) True by (auto intro: map_idI)
    then show ?thesis using Cons.prems(2) Int5_place [of "length (log_image frame es)"] True
      by (intro exI [of _ "log_image frame es"] exI [of _ "[]"]) simp
  next
    case False
    then have "(e, pos) \<in> set (log_places frame es)" using Cons.prems(1) by auto
    then obtain pre post where "log_image frame es = pre @ frame e @ post" "log_image frame (map g es) = pre @ frame (g e) @ post"
      "sint (Int5 pos) = int (length pre)"
      using Cons.IH Cons.prems by auto
    moreover have "g e' = e'" using Cons.prems(4) [of e'] False by simp
    ultimately show ?thesis by (intro exI [of _ pre] exI [of _ "post @ frame e'"]) simp
  qed
qed simp

definition place_hist :: "('e \<Rightarrow> bytes) \<Rightarrow> ('e \<Rightarrow> bytes) \<Rightarrow> 'e list \<Rightarrow> history" where
  "place_hist frame key es = map (\<lambda>(e, p). (False, key e, p)) (log_places frame es)"

lemma place_hist_simps [simp]: "place_hist frame key [] = []"
  "place_hist frame key (e # es) = (False, key e, Bytes5 (word_of_nat (length (log_image frame es)))) # place_hist frame key es"
  by (simp_all add: place_hist_def)

lemma place_hist_Get:
  "case hist_Get k (place_hist frame key es) of
     None \<Rightarrow> find (\<lambda>e. key e = k) es = None
   | Some p \<Rightarrow> \<exists>e. find (\<lambda>e. key e = k) es = Some e \<and> (e, p) \<in> set (log_places frame es)"
  by (induction es) (auto simp: hist_Get_def split: option.splits)

lemma find_member: "find P xs = Some x \<Longrightarrow> x \<in> set xs \<and> P x"
  by (induction xs) (auto split: if_splits)

lemma place_hist_size:
  assumes "\<And>e. e \<in> set es \<Longrightarrow> length (key e) = n"
  shows "hist_size (place_hist frame key es) = 2 + (14 + n) * length es"
  using assms by (induction es) (simp_all add: hist_size_def FirstPos_def kfileHeaderSize_def blob_head_def)

lemma place_hist_update:
  assumes "\<And>e. e \<in> set es \<Longrightarrow> length (frame (g e)) = length (frame e) \<and> key (g e) = key e"
  shows "place_hist frame key (map g es) = place_hist frame key es"
proof -
  have "key (g (fst x)) = key (fst x)" if "x \<in> set (log_places frame es)" for x using log_places_mem [OF that] assms by simp
  then show ?thesis using assms by (simp add: place_hist_def log_places_update(2) case_prod_unfold)
qed

text \<open>What is put behind the last entry.\<close>

lemma ix_Put_entry:
  assumes "ix_ready ix (place_hist frame key es)" and "length (key e) \<le> 119"
    and "hist_size (place_hist frame key (e # es)) \<le> 2 ^ 39"
  shows "\<exists>ix'. ix_Put (Some (key e)) (Some (Bytes5 (word_of_nat (length (log_image frame es))))) ix = (Ok (), ix') \<and>
    ix_ready ix' (place_hist frame key (e # es))"
  using ix_Put_ready [OF assms(1), of "key e" "Bytes5 (word_of_nat (length (log_image frame es)))"] assms(2,3)
  by (simp add: ok_record_def blob_head_def ok_blob_def)

end
