(* ===== verification/Runes.thy ===== *)
theory Runes
  imports Endian
begin

text \<open>
  How Go reads a string as a sequence of code points in a \<open>for range\<close> loop: each round decodes one UTF-8
  code of one to four bytes; a byte that starts no valid code counts as U+FFFD and is skipped alone.
\<close>

definition runeError :: i32 where "runeError = 0xFFFD"

definition continuation :: "byte \<Rightarrow> byte \<Rightarrow> byte \<Rightarrow> bool" where
  "continuation lo hi b \<longleftrightarrow> lo \<le> b \<and> b \<le> hi"

text \<open>The first code point, and how many bytes after the first one belong to it.\<close>

definition decodeRune :: "byte \<Rightarrow> bytes \<Rightarrow> i32 \<times> nat" where
  "decodeRune b bs =
     (let low = (\<lambda>x :: byte. ucast (and x 0x3F) :: i32);
          lo = (if b = 0xE0 then 0xA0 else if b = 0xF0 then 0x90 else 0x80);
          hi = (if b = 0xED then 0x9F else if b = 0xF4 then 0x8F else 0xBF)
      in if b < 0x80 then (ucast b, 0)
         else if 0xC2 \<le> b \<and> b \<le> 0xDF then
           (case bs of b1 # _ \<Rightarrow> if continuation 0x80 0xBF b1 then (or (push_bit 6 (ucast (and b 0x1F))) (low b1), 1) else (runeError, 0)
            | _ \<Rightarrow> (runeError, 0))
         else if 0xE0 \<le> b \<and> b \<le> 0xEF then
           (case bs of b1 # b2 # _ \<Rightarrow> if continuation lo hi b1 \<and> continuation 0x80 0xBF b2
                then (or (push_bit 12 (ucast (and b 0x0F))) (or (push_bit 6 (low b1)) (low b2)), 2) else (runeError, 0)
            | _ \<Rightarrow> (runeError, 0))
         else if 0xF0 \<le> b \<and> b \<le> 0xF4 then
           (case bs of b1 # b2 # b3 # _ \<Rightarrow> if continuation lo hi b1 \<and> continuation 0x80 0xBF b2 \<and> continuation 0x80 0xBF b3
                then (or (push_bit 18 (ucast (and b 0x07))) (or (push_bit 12 (low b1)) (or (push_bit 6 (low b2)) (low b3))), 3)
                else (runeError, 0)
            | _ \<Rightarrow> (runeError, 0))
         else (runeError, 0))"

function rune_list :: "bytes \<Rightarrow> i32 list" where
  "rune_list [] = []"
| "rune_list (b # bs) = (let (r, n) = decodeRune b bs in r # rune_list (drop n bs))"
  by pat_completeness auto
termination by (relation "measure length") auto

text \<open>A string of ASCII characters is its bytes.\<close>

lemma rune_list_ascii: "\<forall>b \<in> set bs. b < 0x80 \<Longrightarrow> rune_list bs = map ucast bs"
proof (induction bs)
  case (Cons b bs)
  then have "decodeRune b bs = (ucast b, 0)" by (simp add: decodeRune_def)
  then show ?case using Cons by simp
qed simp

end
