(* ===== verification/DailyCounter.thy ===== *)
theory DailyCounter
  imports DayStore PlaceIndex Runes "HOL-Library.Signed_Division"
begin

text \<open>
  internal/db/counter/daily\_counter.go: the five minute values of the counters of a day. A key index leads from
  an object and the hash of a counter's name to a record of 288 float64 buckets, which is updated in place.
  A \<open>float64\<close> is its 64 bits. The system calls succeed. The lemmas show that the file is
  the table of the values written last into every bucket.
\<close>

subsection \<open>Buckets\<close>

definition BucketsPerDay :: int where "BucketsPerDay = 288"
definition BytesPerBucket :: int where "BytesPerBucket = 8"
definition RecordSize :: int where "RecordSize = 2 + BucketsPerDay * BytesPerBucket"

text \<open>Division and remainder of Go truncate towards zero.\<close>

definition HHMMToBucket :: "int \<Rightarrow> int" where
  "HHMMToBucket hhmm = (let h = hhmm sdiv 100; m = hhmm smod 100 in h * 12 + m sdiv 5)"

definition BucketToHHMM :: "int \<Rightarrow> int" where
  "BucketToHHMM bucket = (let h = bucket sdiv 12; m = (bucket smod 12) * 5 in h * 100 + m)"

definition TimeSecToBucket :: "int \<Rightarrow> int" where
  "TimeSecToBucket sec = sec sdiv 300"

lemma sdiv_nonneg: "0 \<le> (a::int) \<Longrightarrow> 0 < b \<Longrightarrow> a sdiv b = a div b" "0 \<le> a \<Longrightarrow> 0 < b \<Longrightarrow> a smod b = a mod b"
  by (simp_all add: signed_divide_int_def signed_modulo_int_def sgn_if)

text \<open>The three ways to name a bucket agree on the times of a day, and the buckets are 0 to 287.\<close>

lemma bucket_of_clock:
  assumes "0 \<le> h" "h < 24" "0 \<le> m" "m < 60" "0 \<le> s" "s < 60"
  shows "HHMMToBucket (h * 100 + m) = TimeSecToBucket (h * 3600 + m * 60 + s)"
    and "0 \<le> HHMMToBucket (h * 100 + m)" "HHMMToBucket (h * 100 + m) < BucketsPerDay"
proof -
  have "(h * 100 + m) div 100 = h" "(h * 100 + m) mod 100 = m" using assms by auto
  then have hhmm: "HHMMToBucket (h * 100 + m) = h * 12 + m div 5"
    using assms by (simp add: HHMMToBucket_def sdiv_nonneg)
  have "TimeSecToBucket (h * 3600 + m * 60 + s) = (h * 3600 + m * 60 + s) div 300"
    using assms by (simp add: TimeSecToBucket_def sdiv_nonneg)
  then show "HHMMToBucket (h * 100 + m) = TimeSecToBucket (h * 3600 + m * 60 + s)" unfolding hhmm using assms by linarith
  show "0 \<le> HHMMToBucket (h * 100 + m)" "HHMMToBucket (h * 100 + m) < BucketsPerDay"
    unfolding hhmm BucketsPerDay_def using assms by linarith+
qed

lemma bucket_start:
  assumes "0 \<le> b"
  shows "HHMMToBucket (BucketToHHMM b) = b"
proof -
  have "BucketToHHMM b = b div 12 * 100 + b mod 12 * 5" using assms by (simp add: BucketToHHMM_def sdiv_nonneg)
  moreover have "(q * 100 + r * 5) div 100 = q" "(q * 100 + r * 5) mod 100 = r * 5" if "0 \<le> r" "r < 12" for q r :: int
    using that by (auto simp: div_add1_eq mod_add_eq [symmetric])
  from this [of "b mod 12" "b div 12"]
  have "(b div 12 * 100 + b mod 12 * 5) div 100 = b div 12" "(b div 12 * 100 + b mod 12 * 5) mod 100 = b mod 12 * 5" by simp_all
  moreover have "0 \<le> b div 12 * 100 + b mod 12 * 5" using assms by simp
  ultimately show ?thesis by (simp add: HHMMToBucket_def sdiv_nonneg)
qed

subsection \<open>The five minute values of a day\<close>

record DailyCounterData =
  dy_index :: IndexKeyFile
  dy_data :: bytes

record daily_files =
  df_index :: "bytes option \<times> bytes"
  df_data :: bytes

definition no_daily_files :: daily_files where
  "no_daily_files = \<lparr>df_index = (None, []), df_data = []\<rparr>"

definition NewDailyCounterData :: "daily_files \<Rightarrow> DailyCounterData" where
  "NewDailyCounterData fs = \<lparr>dy_index = NewIndexKeyFile (fst (df_index fs)) (snd (df_index fs)) 1, dy_data = df_data fs\<rparr>"

definition hashStr :: "string \<Rightarrow> i32" where
  "hashStr s = foldl (\<lambda>h c. 31 * h + c) 0 (rune_list (bytes_of_string s))"

definition makeCounterKey :: "i32 \<Rightarrow> string \<Rightarrow> bytes" where
  "makeCounterKey objHash counterName = PutUint32 objHash @ PutUint32 (hashStr counterName)"

text \<open>\<open>math.NaN()\<close> and \<open>math.IsNaN\<close> on the bits of a \<open>float64\<close>.\<close>

definition NaN :: f64 where "NaN = 0x7FF8000000000001"

definition IsNaN :: "f64 \<Rightarrow> bool" where
  "IsNaN v \<longleftrightarrow> and (drop_bit 52 v) 0x7FF = 0x7FF \<and> take_bit 52 v \<noteq> 0"

text \<open>\<open>WriteAt\<close> of a file: a gap before the position is filled with zeros.\<close>

definition WriteAt :: "bytes \<Rightarrow> i64 \<Rightarrow> bytes \<Rightarrow> bytes res" where
  "WriteAt disk off bs = (if sint off < 0 then Err (ErrText ''negative offset'') else Ok (file_write disk (nat (sint off)) bs))"

definition dy_empty_record :: bytes where
  "dy_empty_record = [0, 0] @ concat (replicate (nat BucketsPerDay) (PutUint64 NaN))"

text \<open>Where the record of a key is; it is made at the end of the file if there is none.\<close>

definition dy_record :: "bytes \<Rightarrow> bytes option \<Rightarrow> DailyCounterData \<Rightarrow> i64 res \<times> DailyCounterData" where
  "dy_record key posBytes d = (case posBytes of
     Some p \<Rightarrow> (if length p < 5 then Panic IndexOutOfRange else Ok (Int5 p), d)
   | None \<Rightarrow>
       let offset = word_of_nat (length (dy_data d)) in
       (case WriteAt (dy_data d) offset dy_empty_record of
          Ok data \<Rightarrow>
            let (r, ix) = ix_Put (Some key) (Some (Bytes5 offset)) (dy_index d)
            in (res_bind r (\<lambda>_. Ok offset), \<lparr>dy_index = ix, dy_data = data\<rparr>)
        | Err e \<Rightarrow> (Err e, d)
        | Panic p \<Rightarrow> (Panic p, d)))"

definition dy_bucketOffset :: "i64 \<Rightarrow> int \<Rightarrow> i64" where
  "dy_bucketOffset offset bucket = offset + 2 + word_of_int bucket * word_of_int BytesPerBucket"

definition dy_Write :: "i32 \<Rightarrow> string \<Rightarrow> int \<Rightarrow> f64 \<Rightarrow> DailyCounterData \<Rightarrow> (unit res \<times> DailyCounterData) option" where
  "dy_Write objHash counterName bucket v d =
     (if bucket < 0 \<or> BucketsPerDay \<le> bucket then Some (Ok (), d)
      else let key = makeCounterKey objHash counterName
        in map_option (\<lambda>(r, ix). let d = d\<lparr>dy_index := ix\<rparr> in (case r of
               Ok posBytes \<Rightarrow> (case dy_record key posBytes d of
                   (Ok offset, d) \<Rightarrow> (case WriteAt (dy_data d) (dy_bucketOffset offset bucket) (PutUint64 v) of
                       Ok data \<Rightarrow> (Ok (), d\<lparr>dy_data := data\<rparr>)
                     | Err e \<Rightarrow> (Err e, d)
                     | Panic p \<Rightarrow> (Panic p, d))
                 | (Err e, d) \<Rightarrow> (Err e, d)
                 | (Panic p, d) \<Rightarrow> (Panic p, d))
             | Err e \<Rightarrow> (Err e, d)
             | Panic p \<Rightarrow> (Panic p, d)))
           (ix_Get (Some key) (dy_index d)))"

text \<open>The result of \<open>Read\<close>: a value that is not a number is none.\<close>

definition dy_lookup :: "bytes \<Rightarrow> DailyCounterData \<Rightarrow> (bytes option res \<times> DailyCounterData) option" where
  "dy_lookup key d = map_option (\<lambda>(r, ix). (r, d\<lparr>dy_index := ix\<rparr>)) (ix_Get (Some key) (dy_index d))"

definition dy_Read :: "i32 \<Rightarrow> string \<Rightarrow> int \<Rightarrow> DailyCounterData \<Rightarrow> (f64 option res \<times> DailyCounterData) option" where
  "dy_Read objHash counterName bucket d =
     (if bucket < 0 \<or> BucketsPerDay \<le> bucket then Some (Ok None, d)
      else map_option (\<lambda>(r, d). (res_bind r (\<lambda>posBytes. case posBytes of
          None \<Rightarrow> Ok None
        | Some p \<Rightarrow>
            if length p < 5 then Panic IndexOutOfRange
            else res_bind (ReadAt (dy_data d) (sint (dy_bucketOffset (Int5 p) bucket)) 8) (\<lambda>buf.
              let v = Uint64 buf in Ok (if IsNaN v then None else Some v))), d))
        (dy_lookup (makeCounterKey objHash counterName) d))"

definition dy_values :: "bytes \<Rightarrow> f64 list" where
  "dy_values record = map (\<lambda>i. Uint64 (drop (2 + i * 8) record)) [0..<nat BucketsPerDay]"

definition dy_ReadAll :: "i32 \<Rightarrow> string \<Rightarrow> DailyCounterData \<Rightarrow> (f64 slice res \<times> DailyCounterData) option" where
  "dy_ReadAll objHash counterName d =
     map_option (\<lambda>(r, d). (res_bind r (\<lambda>posBytes. case posBytes of
          None \<Rightarrow> Ok None
        | Some p \<Rightarrow>
            if length p < 5 then Panic IndexOutOfRange
            else res_bind (ReadAt (dy_data d) (sint (Int5 p)) (nat RecordSize)) (\<lambda>record.
              Ok (Some (dy_values record)))), d))
        (dy_lookup (makeCounterKey objHash counterName) d)"

definition dy_Reload :: "DailyCounterData \<Rightarrow> unit res \<times> DailyCounterData" where
  "dy_Reload d = (let (r, ix) = ix_Reload (dy_index d) in (r, d\<lparr>dy_index := ix\<rparr>))"

text \<open>\<open>Close\<close>, and the files it leaves.\<close>

definition dy_Close :: "DailyCounterData \<Rightarrow> DailyCounterData" where
  "dy_Close d = d\<lparr>dy_index := ix_Close (dy_index d)\<rparr>"

definition dy_files :: "DailyCounterData \<Rightarrow> daily_files" where
  "dy_files d = \<lparr>df_index = (mh_file (ix_hashBlock (dy_index d)), kf_disk (ix_keyFile (dy_index d))), df_data = dy_data d\<rparr>"

definition dy_shut :: "DailyCounterData \<Rightarrow> daily_files" where
  "dy_shut d = dy_files (dy_Close d)"

subsection \<open>What the five minute file holds\<close>

text \<open>
  The records of the file, the newest first: a key and its 288 buckets. A write changes the bucket of the
  record of its key, or opens a record in which it is the only value.
\<close>

type_synonym daily_record = "bytes \<times> f64 list"

type_synonym daily_write = "bytes \<times> int \<times> f64"

definition dr_frame :: "daily_record \<Rightarrow> bytes" where
  "dr_frame r = [0, 0] @ concat (map PutUint64 (snd r))"

definition dr_set :: "bytes \<Rightarrow> int \<Rightarrow> f64 \<Rightarrow> daily_record \<Rightarrow> daily_record" where
  "dr_set key bucket v r = (fst r, if fst r = key then (snd r)[nat bucket := v] else snd r)"

definition dr_new :: daily_record where
  "dr_new = ([], replicate (nat BucketsPerDay) NaN)"

fun daily_put :: "daily_write \<Rightarrow> daily_record list \<Rightarrow> daily_record list" where
  "daily_put (key, bucket, v) T =
     (if bucket < 0 \<or> BucketsPerDay \<le> bucket then T
      else map (dr_set key bucket v) (if key \<in> fst ` set T then T else (key, snd dr_new) # T))"

fun daily_table :: "daily_write list \<Rightarrow> daily_record list" where
  "daily_table [] = []"
| "daily_table (w # es) = daily_put w (daily_table es)"

definition daily_ok :: "daily_record list \<Rightarrow> bool" where
  "daily_ok T \<longleftrightarrow> distinct (map fst T) \<and> (\<forall>(k, vs) \<in> set T. length k = 8 \<and> length vs = nat BucketsPerDay)"

abbreviation dy_hist :: "daily_record list \<Rightarrow> history" where
  "dy_hist \<equiv> place_hist dr_frame fst"

definition dy_fits :: "daily_write list \<Rightarrow> bool" where
  "dy_fits es \<longleftrightarrow> length (daily_table es) \<le> 2 ^ 27"

definition dy_rep :: "DailyCounterData \<Rightarrow> daily_record list \<Rightarrow> bool" where
  "dy_rep d T \<longleftrightarrow> ix_ready (dy_index d) (dy_hist T) \<and> dy_data d = log_image dr_frame T \<and> daily_ok T \<and> length T \<le> 2 ^ 27"

definition dy_holds :: "DailyCounterData \<Rightarrow> daily_write list \<Rightarrow> bool" where
  "dy_holds d es \<longleftrightarrow> dy_rep d (daily_table es)"

lemma BucketsPerDay_nat [simp]: "nat BucketsPerDay = 288"
  by (simp add: BucketsPerDay_def)

lemma dr_set_simps [simp]: "fst (dr_set k b v r) = fst r" "length (snd (dr_set k b v r)) = length (snd r)"
  by (simp_all add: dr_set_def)

lemma length_concat_Put [simp]: "length (concat (map PutUint64 vs)) = 8 * length vs"
  by (induction vs) simp_all

lemma length_dr_frame [simp]: "length (dr_frame r) = 2 + 8 * length (snd r)"
  by (simp add: dr_frame_def)

lemma keys_dr_set [simp]: "map fst (map (dr_set k b v) T) = map fst T" "fst ` dr_set k b v ` S = fst ` S"
  by (simp_all add: image_image)

lemma daily_ok_put: "daily_ok T \<Longrightarrow> length k = 8 \<Longrightarrow> daily_ok (daily_put (k, b, v) T)"
  by (force simp: daily_ok_def dr_new_def dr_set_def comp_def)

lemma length_daily_put: "length T \<le> length (daily_put w T)" by (cases w) auto

lemma log_image_length: "daily_ok T \<Longrightarrow> length (log_image dr_frame T) = 2306 * length T"
  by (induction T) (auto simp: daily_ok_def)

lemma patch_bucket:
  assumes "b < length vs"
  shows "dr_frame (k, vs[b := v]) = patch (2 + b * 8) (PutUint64 v) (dr_frame (k, vs))"
    and "take 8 (drop (2 + b * 8) (dr_frame (k, vs) @ post)) = PutUint64 (vs ! b)"
proof -
  have "\<exists>a z. length a = 2 + b * 8 \<and> dr_frame (k, vs) = a @ PutUint64 (vs ! b) @ z \<and> dr_frame (k, vs[b := v]) = a @ PutUint64 v @ z"
  proof (intro exI conjI)
    show "length ([0, 0] @ concat (map PutUint64 (take b vs))) = 2 + b * 8" using assms by simp
    show "dr_frame (k, vs) = ([0, 0] @ concat (map PutUint64 (take b vs))) @ PutUint64 (vs ! b) @ concat (map PutUint64 (drop (Suc b) vs))"
      by (subst id_take_nth_drop [OF assms]) (simp add: dr_frame_def)
    show "dr_frame (k, vs[b := v]) = ([0, 0] @ concat (map PutUint64 (take b vs))) @ PutUint64 v @ concat (map PutUint64 (drop (Suc b) vs))"
      using assms by (simp add: dr_frame_def upd_conv_take_nth_drop)
  qed
  then obtain a z where az: "2 + b * 8 = length a" "dr_frame (k, vs) = a @ PutUint64 (vs ! b) @ z" "dr_frame (k, vs[b := v]) = a @ PutUint64 v @ z"
    by metis
  show "dr_frame (k, vs[b := v]) = patch (2 + b * 8) (PutUint64 v) (dr_frame (k, vs))"
    unfolding az by (subst patch_append) simp_all
  show "take 8 (drop (2 + b * 8) (dr_frame (k, vs) @ post)) = PutUint64 (vs ! b)" unfolding az by simp
qed

lemma dy_hist_Get:
  "case hist_Get k (dy_hist T) of
     None \<Rightarrow> k \<notin> fst ` set T
   | Some p \<Rightarrow> \<exists>vs. ((k, vs), p) \<in> set (log_places dr_frame T) \<and> (k, vs) \<in> set T"
  using place_hist_Get [where k = k and frame = dr_frame and key = fst and es = T]
  by (auto simp: find_None_iff dest!: find_member split: option.splits)

lemma dy_hist_size: "daily_ok T \<Longrightarrow> hist_size (dy_hist T) = 2 + 22 * length T"
  using place_hist_size [of T fst 8 dr_frame] by (simp add: daily_ok_def case_prod_unfold)

text \<open>Writing a bucket of a record that is there.\<close>

lemma dy_bucketOffset_int:
  assumes "0 \<le> b" "b < BucketsPerDay" and "sint offset = int n" and "n < 2 ^ 40"
  shows "sint (dy_bucketOffset offset b) = int (n + (2 + nat b * 8))"
proof -
  have "offset = word_of_nat n" using assms(3) by (metis of_int_of_nat_eq scast_eq scast_id)
  moreover have "word_of_int b = (word_of_nat (nat b) :: i64)" using assms(1) by (metis int_nat_eq of_int_of_nat_eq)
  ultimately have eq: "dy_bucketOffset offset b = word_of_nat (n + (2 + nat b * 8))"
    by (simp add: dy_bucketOffset_def BytesPerBucket_def)
  have "n + (2 + nat b * 8) < 2 ^ 63" using assms by (simp add: BucketsPerDay_def)
  then show ?thesis unfolding eq by (intro sint_word_of_nat) simp
qed

lemma dy_hist_set [simp]: "dy_hist (map (dr_set k b v) T) = dy_hist T"
  by (rule place_hist_update) simp

lemma dy_place:
  assumes "dy_rep d T" and "((key, vs), p) \<in> set (log_places dr_frame T)"
  shows "length vs = 288" and "length p = 5"
    and "\<exists>pre post. log_image dr_frame T = pre @ dr_frame (key, vs) @ post \<and> sint (Int5 p) = int (length pre) \<and> length pre < 2 ^ 40 \<and>
      log_image dr_frame (map (dr_set key b v) T) = pre @ dr_frame (key, vs[nat b := v]) @ post"
proof -
  have ok: "daily_ok T" "length T \<le> 2 ^ 27" using assms(1) by (simp_all add: dy_rep_def)
  have mem: "(key, vs) \<in> set T" using log_places_mem [OF assms(2)] by simp
  show vs: "length vs = 288" using ok(1) mem by (auto simp: daily_ok_def)
  show "length p = 5" using log_place_length [OF assms(2)] .
  have dist: "distinct (map fst T)" "distinct T" using ok(1) by (auto simp: daily_ok_def distinct_map)
  have n: "length (log_image dr_frame T) < 2 ^ 39" using log_image_length [OF ok(1)] ok(2) by simp
  have other: "dr_set key b v r = r" if "r \<in> set T" "r \<noteq> (key, vs)" for r
    using that mem eq_key_imp_eq_value [OF dist(1), of key "snd r" vs] by (auto simp: dr_set_def prod_eq_iff)
  have "\<exists>pre post. log_image dr_frame T = pre @ dr_frame (key, vs) @ post \<and>
      log_image dr_frame (map (dr_set key b v) T) = pre @ dr_frame (dr_set key b v (key, vs)) @ post \<and> sint (Int5 p) = int (length pre)"
    by (rule log_image_update [OF assms(2) n dist(2) other]) simp_all
  then show "\<exists>pre post. log_image dr_frame T = pre @ dr_frame (key, vs) @ post \<and> sint (Int5 p) = int (length pre) \<and> length pre < 2 ^ 40 \<and>
      log_image dr_frame (map (dr_set key b v) T) = pre @ dr_frame (key, vs[nat b := v]) @ post"
    using n by (elim exE conjE, intro exI conjI) (auto simp: dr_set_def)
qed

lemma dy_set_rep:
  assumes "dy_rep d T" and "((key, vs), p) \<in> set (log_places dr_frame T)" and "0 \<le> b" "b < BucketsPerDay"
  shows "\<exists>data. WriteAt (dy_data d) (dy_bucketOffset (Int5 p) b) (PutUint64 v) = Ok data \<and>
    dy_rep (d\<lparr>dy_data := data\<rparr>) (map (dr_set key b v) T)"
proof -
  note vs = dy_place(1) [OF assms(1,2)]
  obtain pre post where im: "log_image dr_frame T = pre @ dr_frame (key, vs) @ post" "sint (Int5 p) = int (length pre)"
    "length pre < 2 ^ 40" "log_image dr_frame (map (dr_set key b v) T) = pre @ dr_frame (key, vs[nat b := v]) @ post"
    using dy_place(3) [OF assms(1,2)] by metis
  have b: "nat b < length vs" using assms(3,4) vs by (simp add: BucketsPerDay_def)
  note off = dy_bucketOffset_int [OF assms(3,4) im(2,3)]
  have ok: "daily_ok T" "ix_ready (dy_index d) (dy_hist T)" "dy_data d = log_image dr_frame T" "length T \<le> 2 ^ 27"
    using assms(1) by (simp_all add: dy_rep_def)
  have le: "2 + nat b * 8 + 8 \<le> length (dr_frame (key, vs))" using b by simp
  have "patch (length pre + (2 + nat b * 8)) (PutUint64 v) (pre @ dr_frame (key, vs) @ post) =
      pre @ patch (2 + nat b * 8) (PutUint64 v) (dr_frame (key, vs)) @ post"
    using le by (simp add: patch_def)
  then have "file_write (dy_data d) (length pre + (2 + nat b * 8)) (PutUint64 v) = log_image dr_frame (map (dr_set key b v) T)"
    using le by (simp add: file_write_def ok(3) im(1,4) patch_bucket(1) [OF b])
  moreover have "daily_ok (map (dr_set key b v) T)" using ok(1) by (auto simp: daily_ok_def comp_def dr_set_def)
  ultimately show ?thesis unfolding WriteAt_def off using ok by (simp only: nat_int) (simp add: dy_rep_def)
qed

lemma dr_frame_new: "dr_frame (k, replicate 288 NaN) = dy_empty_record"
  by (simp add: dr_frame_def dy_empty_record_def)

lemma dy_record_rep:
  assumes "dy_rep d T" and "length key = 8" and "T' = (if key \<in> fst ` set T then T else (key, replicate 288 NaN) # T)"
    and "length T' \<le> 2 ^ 27"
  shows "\<exists>p vs d'. dy_record key (hist_Get key (dy_hist T)) d = (Ok (Int5 p), d') \<and> dy_rep d' T' \<and>
    ((key, vs), p) \<in> set (log_places dr_frame T')"
proof (cases "hist_Get key (dy_hist T)")
  case (Some p)
  then obtain vs where "((key, vs), p) \<in> set (log_places dr_frame T)" "(key, vs) \<in> set T" using dy_hist_Get [of key T] by auto
  moreover from this have "T' = T" using assms(3) by force
  ultimately show ?thesis using Some assms(1) dy_place(2) [OF assms(1), of key vs p] by (auto simp: dy_record_def)
next
  case None
  let ?n = "length (log_image dr_frame T)" and ?r = "(key, replicate 288 NaN) :: daily_record"
  have T': "T' = ?r # T" "key \<notin> fst ` set T" using dy_hist_Get [of key T] None assms(3) by simp_all
  have ok: "daily_ok T" "ix_ready (dy_index d) (dy_hist T)" "dy_data d = log_image dr_frame T" using assms(1) by (simp_all add: dy_rep_def)
  have n: "?n < 2 ^ 39" using log_image_length [OF ok(1)] assms(4) T'(1) by simp
  have ok': "daily_ok T'" using ok(1) T' assms(2) by (force simp: daily_ok_def)
  have "hist_size (dy_hist T') \<le> 2 ^ 39" using dy_hist_size [OF ok'] assms(4) by simp
  then obtain ix where ix: "ix_Put (Some key) (Some (Bytes5 (word_of_nat ?n))) (dy_index d) = (Ok (), ix)" "ix_ready ix (dy_hist T')"
    using ix_Put_entry [OF ok(2), of ?r] assms(2) T'(1) by auto
  have place: "(?r, Bytes5 (word_of_nat ?n)) \<in> set (log_places dr_frame T')" by (simp add: T'(1))
  have "sint (word_of_nat ?n :: i64) = int ?n" using n by (simp add: sint_word_of_nat)
  then have "WriteAt (dy_data d) (word_of_nat ?n) dy_empty_record = Ok (log_image dr_frame T')"
    by (simp add: WriteAt_def ok(3) file_write_def patch_def T'(1) dr_frame_new)
  moreover have "Int5 (Bytes5 (word_of_nat ?n)) = (word_of_nat ?n :: i64)"
    using n by (simp add: fits5_def sint_word_of_nat)
  ultimately have "dy_record key None d = (Ok (Int5 (Bytes5 (word_of_nat ?n))), \<lparr>dy_index = ix, dy_data = log_image dr_frame T'\<rparr>)"
    using ix(1) by (simp add: dy_record_def ok(3) Let_def)
  moreover have "dy_rep \<lparr>dy_index = ix, dy_data = log_image dr_frame T'\<rparr> T'"
    using ix(2) ok' assms(4) by (simp add: dy_rep_def)
  ultimately show ?thesis using None place by auto
qed

lemma makeCounterKey_length [simp]: "length (makeCounterKey objHash name) = 8"
  by (simp add: makeCounterKey_def)

lemma dy_index_rep: "dy_rep d T \<Longrightarrow> ix_ready ix (dy_hist T) \<Longrightarrow> dy_rep (d\<lparr>dy_index := ix\<rparr>) T"
  by (simp add: dy_rep_def)

lemma dy_Write_rep:
  assumes "dy_rep d T" and "length (daily_put (makeCounterKey objHash name, b, v) T) \<le> 2 ^ 27"
  shows "\<exists>d'. dy_Write objHash name b v d = Some (Ok (), d') \<and> dy_rep d' (daily_put (makeCounterKey objHash name, b, v) T)"
proof (cases "b < 0 \<or> BucketsPerDay \<le> b")
  case False
  let ?k = "makeCounterKey objHash name"
  define T' where "T' = (if ?k \<in> fst ` set T then T else (?k, replicate 288 NaN) # T)"
  have put: "daily_put (?k, b, v) T = map (dr_set ?k b v) T'" using False by (simp add: T'_def dr_new_def)
  have "ix_ready (dy_index d) (dy_hist T)" using assms(1) by (simp add: dy_rep_def)
  then obtain ix where ix: "ix_Get (Some ?k) (dy_index d) = Some (Ok (hist_Get ?k (dy_hist T)), ix)" "ix_ready ix (dy_hist T)"
    using ix_Get_ready by blast
  let ?d = "d\<lparr>dy_index := ix\<rparr>"
  have "length T' \<le> 2 ^ 27" using assms(2) unfolding put by simp
  from dy_record_rep [OF dy_index_rep [OF assms(1) ix(2)] makeCounterKey_length T'_def this]
  obtain p vs d1 where d1: "dy_record ?k (hist_Get ?k (dy_hist T)) ?d = (Ok (Int5 p), d1)" "dy_rep d1 T'"
    "((?k, vs), p) \<in> set (log_places dr_frame T')" by blast
  obtain data where "WriteAt (dy_data d1) (dy_bucketOffset (Int5 p) b) (PutUint64 v) = Ok data"
    "dy_rep (d1\<lparr>dy_data := data\<rparr>) (map (dr_set ?k b v) T')"
    using dy_set_rep [OF d1(2,3), of b v] False by auto
  then show ?thesis using False ix(1) d1(1) put by (simp add: dy_Write_def Let_def)
qed (use assms in \<open>simp add: dy_Write_def\<close>)

text \<open>What is read of a table.\<close>

definition table_value :: "bytes \<Rightarrow> int \<Rightarrow> daily_record list \<Rightarrow> f64 option" where
  "table_value key b T = (case map_of T key of
     Some vs \<Rightarrow> if b < 0 \<or> BucketsPerDay \<le> b \<or> IsNaN (vs ! nat b) then None else Some (vs ! nat b)
   | None \<Rightarrow> None)"

lemma dy_lookup_rep:
  assumes "dy_rep d T"
  obtains d' where "dy_lookup key d = Some (Ok (hist_Get key (dy_hist T)), d')" "dy_rep d' T"
proof -
  have "ix_ready (dy_index d) (dy_hist T)" using assms by (simp add: dy_rep_def)
  from ix_Get_ready [OF this, of key] that dy_index_rep [OF assms] show ?thesis by (auto simp: dy_lookup_def)
qed

lemma table_mem:
  assumes "dy_rep d T" and "(key, vs) \<in> set T"
  shows "map_of T key = Some vs"
  using assms by (simp add: dy_rep_def daily_ok_def)

lemma dy_Read_rep:
  assumes "dy_rep d T"
  shows "\<exists>d'. dy_Read objHash name b d = Some (Ok (table_value (makeCounterKey objHash name) b T), d') \<and> dy_rep d' T"
proof (cases "b < 0 \<or> BucketsPerDay \<le> b")
  case False
  let ?k = "makeCounterKey objHash name"
  obtain d' where d': "dy_lookup ?k d = Some (Ok (hist_Get ?k (dy_hist T)), d')" "dy_rep d' T" using dy_lookup_rep [OF assms] .
  show ?thesis
  proof (cases "hist_Get ?k (dy_hist T)")
    case None
    then have "map_of T ?k = None" using dy_hist_Get [of ?k T] by (simp add: map_of_eq_None_iff)
    then show ?thesis using d' None False by (simp add: dy_Read_def table_value_def)
  next
    case (Some p)
    then obtain vs where place: "((?k, vs), p) \<in> set (log_places dr_frame T)" "(?k, vs) \<in> set T" using dy_hist_Get [of ?k T] by auto
    note vs = dy_place(1,2) [OF d'(2) place(1)]
    obtain pre post where im: "log_image dr_frame T = pre @ dr_frame (?k, vs) @ post" "sint (Int5 p) = int (length pre)" "length pre < 2 ^ 40"
      using dy_place(3) [OF d'(2) place(1)] by metis
    have b: "nat b < length vs" using False vs(1) by (auto simp: BucketsPerDay_def nat_less_iff)
    have off: "sint (dy_bucketOffset (Int5 p) b) = int (length pre + (2 + nat b * 8))"
      using False by (intro dy_bucketOffset_int im) simp_all
    have "take 8 (drop (length pre + (2 + nat b * 8)) (dy_data d')) = PutUint64 (vs ! nat b)"
      using d'(2) im(1) patch_bucket(2) [OF b, of ?k post] by (simp add: dy_rep_def)
    then have "ReadAt (dy_data d') (int (length pre + (2 + nat b * 8))) 8 = Ok (PutUint64 (vs ! nat b))"
      unfolding ReadAt_def by (simp only: nat_int) simp
    then show ?thesis using d' Some False vs(2) off table_mem [OF assms place(2)]
      by (simp add: dy_Read_def table_value_def Let_def)
  qed
qed (use assms in \<open>auto simp: dy_Read_def table_value_def split: option.splits\<close>)

lemma dy_values_frame:
  assumes "length vs = 288"
  shows "dy_values (dr_frame (k, vs)) = vs"
proof (rule nth_equalityI)
  fix i assume "i < length (dy_values (dr_frame (k, vs)))"
  then have i: "i < 288" by (simp add: dy_values_def)
  then have "take 8 (drop (2 + i * 8) (dr_frame (k, vs))) = PutUint64 (vs ! i)" using patch_bucket(2) [of i vs k "[]"] assms by simp
  moreover have "Uint64 bs = Uint64 (take 8 bs)" for bs by (simp add: Uint64_def)
  ultimately have "Uint64 (drop (2 + i * 8) (dr_frame (k, vs))) = vs ! i" by (metis Uint64_Put)
  then show "dy_values (dr_frame (k, vs)) ! i = vs ! i" using i by (simp add: dy_values_def)
qed (use assms in \<open>simp add: dy_values_def\<close>)

lemma dy_ReadAll_rep:
  assumes "dy_rep d T"
  shows "\<exists>d'. dy_ReadAll objHash name d = Some (Ok (map_of T (makeCounterKey objHash name)), d') \<and> dy_rep d' T"
proof -
  let ?k = "makeCounterKey objHash name"
  obtain d' where d': "dy_lookup ?k d = Some (Ok (hist_Get ?k (dy_hist T)), d')" "dy_rep d' T" using dy_lookup_rep [OF assms] .
  show ?thesis
  proof (cases "hist_Get ?k (dy_hist T)")
    case None
    then have "map_of T ?k = None" using dy_hist_Get [of ?k T] by (simp add: map_of_eq_None_iff)
    then show ?thesis using d' None by (simp add: dy_ReadAll_def)
  next
    case (Some p)
    then obtain vs where place: "((?k, vs), p) \<in> set (log_places dr_frame T)" "(?k, vs) \<in> set T" using dy_hist_Get [of ?k T] by auto
    note vs = dy_place(1,2) [OF d'(2) place(1)]
    obtain pre post where im: "log_image dr_frame T = pre @ dr_frame (?k, vs) @ post" "sint (Int5 p) = int (length pre)"
      using dy_place(3) [OF d'(2) place(1)] by metis
    have "ReadAt (dy_data d') (sint (Int5 p)) (nat RecordSize) = Ok (dr_frame (?k, vs))"
      unfolding im(2) using d'(2) im(1) vs(1)
      by (simp add: dy_rep_def) (intro ReadAt_part, simp_all add: RecordSize_def BucketsPerDay_def BytesPerBucket_def)
    then show ?thesis using d' Some vs(2) table_mem [OF assms place(2)] dy_values_frame [OF vs(1)]
      by (simp add: dy_ReadAll_def)
  qed
qed

subsection \<open>The container in the map of days\<close>

record DailyEntry =
  de_Date :: string
  de_ObjHash :: i32
  de_CounterName :: string
  de_Bucket :: int
  de_Value :: f64

definition de_stored :: "DailyEntry \<Rightarrow> daily_write" where
  "de_stored e = (makeCounterKey (de_ObjHash e) (de_CounterName e), de_Bucket e, de_Value e)"

definition dy_writeEntry :: "DailyEntry \<Rightarrow> DailyCounterData \<Rightarrow> (unit res \<times> DailyCounterData) option" where
  "dy_writeEntry e = dy_Write (de_ObjHash e) (de_CounterName e) (de_Bucket e) (de_Value e)"

text \<open>The last value written into a bucket.\<close>

definition last_value :: "daily_write list \<Rightarrow> bytes \<Rightarrow> int \<Rightarrow> f64" where
  "last_value es key b = (case find (\<lambda>(k, b', v). k = key \<and> b' = b) es of Some (_, _, v) \<Rightarrow> v | None \<Rightarrow> NaN)"

definition daily_value :: "daily_write list \<Rightarrow> bytes \<Rightarrow> int \<Rightarrow> f64 option" where
  "daily_value es key b =
     (if b < 0 \<or> BucketsPerDay \<le> b \<or> IsNaN (last_value es key b) then None else Some (last_value es key b))"

definition written :: "daily_write list \<Rightarrow> bytes \<Rightarrow> bool" where
  "written es key \<longleftrightarrow> list_ex (\<lambda>(k, b, v). k = key \<and> 0 \<le> b \<and> b < BucketsPerDay) es"

definition daily_values :: "daily_write list \<Rightarrow> bytes \<Rightarrow> f64 slice" where
  "daily_values es key =
     (if written es key then Some (map (\<lambda>i. last_value es key (int i)) [0..<nat BucketsPerDay]) else None)"

lemma IsNaN_NaN [simp]: "IsNaN NaN"
  by (simp add: IsNaN_def NaN_def)

lemma map_of_dr_set: "map_of (map (dr_set k b v) T) key =
   map_option (\<lambda>vs. if key = k then vs[nat b := v] else vs) (map_of T key)"
  by (induction T) (auto simp: dr_set_def)

lemma unwritten_last: "\<not> written es key \<Longrightarrow> 0 \<le> b \<Longrightarrow> b < BucketsPerDay \<Longrightarrow> last_value es key b = NaN"
  by (induction es) (auto simp: last_value_def written_def)

lemma map_of_daily_table:
  "map_of (daily_table es) key = daily_values es key"
  unfolding daily_values_def
proof (induction es)
  case (Cons w es)
  obtain k b v where w: "w = (k, b, v)" by (cases w)
  have last: "last_value (w # es) key b' = (if k = key \<and> b = b' then v else last_value es key b')" for b'
    by (simp add: last_value_def w)
  show ?case
  proof (cases "b < 0 \<or> BucketsPerDay \<le> b")
    case True
    then have "last_value (w # es) key (int i) = last_value es key (int i)" if "i < nat BucketsPerDay" for i
      using that by (auto simp: last BucketsPerDay_def)
    then show ?thesis using Cons.IH True by (auto simp: w written_def cong: map_cong)
  next
    case False
    let ?P = "written es key"
    let ?T = "if k \<in> fst ` set (daily_table es) then daily_table es else (k, snd dr_new) # daily_table es"
    have upd: "(map (\<lambda>i. last_value es key (int i)) [0..<288])[nat b := v] = map (\<lambda>i. last_value (w # es) key (int i)) [0..<288]" if "k = key"
      using False that by (intro nth_equalityI) (auto simp: nth_list_update last BucketsPerDay_def)
    have none: "\<not> ?P \<Longrightarrow> last_value es key (int i) = NaN" if "i < 288" for i
      using that by (intro unwritten_last) (simp_all add: BucketsPerDay_def)
    have "map_of ?T key = (if ?P then Some (map (\<lambda>i. last_value es key (int i)) [0..<288]) else
        if k = key then Some (replicate 288 NaN) else None)"
    proof (cases "k \<in> fst ` set (daily_table es)")
      case True
      then have "map_of (daily_table es) k \<noteq> None" by (simp add: map_of_eq_None_iff)
      then show ?thesis using Cons.IH True by (auto split: if_splits)
    next
      case new: False
      then have "map_of (daily_table es) k = None" by (simp add: map_of_eq_None_iff)
      then show ?thesis using Cons.IH new by (auto simp: dr_new_def split: if_splits)
    qed
    moreover have "replicate 288 NaN = map (\<lambda>i. last_value es key (int i)) [0..<288]" if "\<not> ?P"
      using none that by (intro nth_equalityI) simp_all
    ultimately have "map_of ?T key = (if ?P \<or> k = key then Some (map (\<lambda>i. last_value es key (int i)) [0..<288]) else None)"
      by simp
    moreover have "daily_table (w # es) = map (dr_set k b v) ?T" using False by (simp add: w)
    ultimately have "map_of (daily_table (w # es)) key = (if ?P \<or> k = key then Some (map (\<lambda>i. last_value (w # es) key (int i)) [0..<288]) else None)"
      using upd by (cases "k = key") (simp_all only: map_of_dr_set, simp_all add: last)
    then show ?thesis using False by (auto simp: w written_def)
  qed
qed (simp add: written_def)

lemma table_value_daily: "table_value key b (daily_table es) = daily_value es key b"
proof (cases "b < 0 \<or> BucketsPerDay \<le> b")
  case False
  then have b: "nat b < 288" "0 \<le> b" by (auto simp: BucketsPerDay_def nat_less_iff)
  show ?thesis
    using False b unwritten_last [of es key b]
    by (cases "written es key") (simp_all add: table_value_def map_of_daily_table daily_value_def daily_values_def)
qed (auto simp: table_value_def daily_value_def split: option.splits)

text \<open>As a container of the day map; where the walk of the index would not return, which does not happen, it is left as it is.\<close>

definition dy_write_day :: "DailyEntry \<Rightarrow> DailyCounterData \<Rightarrow> unit res \<times> DailyCounterData" where
  "dy_write_day e d = (case dy_writeEntry e d of Some r \<Rightarrow> r | None \<Rightarrow> (Err FuelOut, d))"

lemma dy_writeEntry_holds:
  assumes "dy_holds d es" and "dy_fits (de_stored e # es)"
  shows "\<exists>d'. dy_writeEntry e d = Some (Ok (), d') \<and> dy_holds d' (de_stored e # es)"
  using dy_Write_rep [of d "daily_table es" "de_ObjHash e" "de_CounterName e" "de_Bucket e" "de_Value e"] assms
  by (simp add: dy_holds_def dy_fits_def de_stored_def dy_writeEntry_def)

lemma dy_open_new: "dy_holds (NewDailyCounterData no_daily_files) []"
  using ix_new_ready by (simp add: dy_holds_def dy_rep_def NewDailyCounterData_def no_daily_files_def daily_ok_def)

lemma dy_reopen_rep:
  assumes "dy_rep d T"
  shows "dy_rep (NewDailyCounterData (dy_shut d)) T"
proof -
  have "dy_index (NewDailyCounterData (dy_shut d)) = ix_reopen 1 (dy_index d)"
    by (simp add: NewDailyCounterData_def dy_shut_def dy_files_def dy_Close_def ix_reopen_def Let_def)
  moreover have "dy_data (NewDailyCounterData (dy_shut d)) = dy_data d"
    by (simp add: NewDailyCounterData_def dy_shut_def dy_files_def dy_Close_def)
  ultimately show ?thesis using assms ix_reopen_ready by (simp add: dy_rep_def)
qed

interpretation yw: day_store NewDailyCounterData dy_shut no_daily_files dy_write_day "\<lambda>d. d" dy_holds "\<lambda>_. True" de_stored dy_fits
proof unfold_locales
  show "dy_holds c es \<Longrightarrow> dy_holds (NewDailyCounterData (dy_shut c)) es" for c es
    by (simp add: dy_holds_def dy_reopen_rep)
  show "dy_holds c es \<Longrightarrow> dy_fits (de_stored e # es) \<Longrightarrow>
      \<exists>c'. dy_write_day e c = (Ok (), c') \<and> dy_holds c' (de_stored e # es)" for c es e
    using dy_writeEntry_holds by (fastforce simp: dy_write_day_def)
qed (simp_all add: dy_open_new)

lemma dy_fits_suffix: "dy_fits (es @ es') \<Longrightarrow> dy_fits es'"
  by (induction es) (auto simp: dy_fits_def intro: order_trans [OF length_daily_put])

lemma dy_Read_holds:
  assumes "dy_holds d es"
  shows "\<exists>d'. dy_Read objHash name b d = Some (Ok (daily_value es (makeCounterKey objHash name) b), d') \<and> dy_holds d' es"
  using dy_Read_rep [of d "daily_table es"] assms by (simp add: dy_holds_def table_value_daily)

lemma dy_ReadAll_holds:
  assumes "dy_holds d es"
  shows "\<exists>d'. dy_ReadAll objHash name d = Some (Ok (daily_values es (makeCounterKey objHash name)), d') \<and> dy_holds d' es"
  using dy_ReadAll_rep [of d "daily_table es"] assms by (simp add: dy_holds_def map_of_daily_table)

end
