(* ===== verification/IndexReader.thy ===== *)
theory IndexReader
  imports PlaceIndex
begin

text \<open>
  An index that a reader has open beside the writer of the same files (the \<open>CounterRD\<close> and \<open>TextRD\<close> of
  internal/db): its key file is the one on the disk, its bucket table the one it loaded last, until
  \<open>IndexKeyFile.Reload\<close> loads it again. A reader appends nothing, so its append buffer is empty and
  the end of the file it remembers does not matter.
\<close>

definition ix_see :: "bytes option \<times> bytes \<Rightarrow> IndexKeyFile \<Rightarrow> IndexKeyFile" where
  "ix_see fs ix = \<lparr>ix_hashBlock = (ix_hashBlock ix)\<lparr>mh_file := fst fs\<rparr>, ix_keyFile = (ix_keyFile ix)\<lparr>kf_disk := snd fs\<rparr>\<rparr>"

definition ix_flushed :: "IndexKeyFile \<Rightarrow> bytes option \<times> bytes" where
  "ix_flushed ix = (mh_file (ix_hashBlock (ix_Close ix)), kf_disk (ix_keyFile (ix_Close ix)))"

definition kf_end :: "nat \<Rightarrow> RealKeyFile \<Rightarrow> RealKeyFile" where
  "kf_end n f = f\<lparr>kf_fileEnd := n\<rparr>"

lemma GetRecord_reader: "kf_appendBuf f = [] \<Longrightarrow> GetRecord pos f = (getRecordReadAt (kf_disk f) pos, f)"
  by (simp add: GetRecord_def flushAppendBuf_def Let_def)

lemma kf_end_simps [simp]: "kf_appendBuf (kf_end n f) = kf_appendBuf f" "kf_disk (kf_end n f) = kf_disk f"
  by (simp_all add: kf_end_def)

lemma chain_walk_reader:
  fixes f :: "KeyRecord \<Rightarrow> 'x \<Rightarrow> 'r + 'x"
  assumes "chain_walk GetRecord f pos s x = Some r" and "kf_appendBuf s = []"
  shows "snd r = s \<and> chain_walk GetRecord f pos (kf_end n s) x = Some (fst r, kf_end n s)"
proof -
  let ?P = "\<lambda>get (f :: KeyRecord \<Rightarrow> 'x \<Rightarrow> 'r + 'x) pos s x r. get = GetRecord \<longrightarrow> kf_appendBuf s = [] \<longrightarrow>
    snd r = s \<and> chain_walk GetRecord f pos (kf_end n s) x = Some (fst r, kf_end n s)"
  have "?P GetRecord f pos s x r"
  proof (rule chain_walk.raw_induct [where P = ?P and xa = "((((GetRecord, f), pos), s), x)" and y = r, unfolded prod.case, OF _ assms(1)], intro impI)
    fix rec get and f :: "KeyRecord \<Rightarrow> 'x \<Rightarrow> 'r + 'x" and pos :: i64 and s x r
    assume IH: "\<And>get f pos s x r. rec get f pos s x = Some r \<Longrightarrow> ?P get f pos s x r"
      and step: "(if 0 < sint pos
        then (case get (unat pos) s of
            (Ok r, s') \<Rightarrow> (case f r x of
                Inl y \<Rightarrow> Some (Ok (Inl y), s')
              | Inr x' \<Rightarrow> rec get f (kr_PrevPos r) s' x')
          | (Err e, s') \<Rightarrow> Some (Err e, s')
          | (Panic q, s') \<Rightarrow> Some (Panic q, s'))
        else Some (Ok (Inr x), s)) = Some r"
      and get: "get = GetRecord" and buf: "kf_appendBuf s = []"
    note read = GetRecord_reader [OF buf] GetRecord_reader [of "kf_end n s", simplified, OF buf]
    show "snd r = s \<and> chain_walk GetRecord f pos (kf_end n s) x = Some (fst r, kf_end n s)"
    proof (cases "0 < sint pos")
      case True
      show ?thesis
      proof (cases "getRecordReadAt (kf_disk s) (unat pos)")
        case (Ok rec0)
        show ?thesis
        proof (cases "f rec0 x")
          case (Inl y)
          then show ?thesis using step True Ok by (subst chain_walk.simps) (auto simp: get read)
        next
          case (Inr x')
          then have "rec GetRecord f (kr_PrevPos rec0) s x' = Some r" using step True Ok by (simp add: get read)
          from IH [OF this] buf show ?thesis using True Ok Inr by (subst chain_walk.simps) (simp add: read)
        qed
      qed (use step True in \<open>subst chain_walk.simps, auto simp: get read\<close>)+
    qed (use step in \<open>subst chain_walk.simps, auto\<close>)
  qed
  then show ?thesis using assms(2) by simp
qed

text \<open>What a reader finds: what the index had when its table was written.\<close>

lemma ix_Get_reader:
  assumes "ix_holds \<lparr>ix_hashBlock = m, ix_keyFile = f\<rparr> h" and "kf_appendBuf f = []"
  shows "ix_Get (Some k) \<lparr>ix_hashBlock = m, ix_keyFile = kf_end n f\<rparr> = Some (Ok (hist_Get k h), \<lparr>ix_hashBlock = m, ix_keyFile = kf_end n f\<rparr>)"
proof -
  let ?f = "\<lambda>r _. if \<not> kr_Deleted r \<and> kr_TimeKey r = k then Inl (kr_DataPos r) else Inr ()"
  obtain ix' where get: "ix_Get (Some k) \<lparr>ix_hashBlock = m, ix_keyFile = f\<rparr> = Some (Ok (hist_Get k h), ix')"
    using ix_Get_holds [OF assms(1)] by blast
  show ?thesis
  proof (cases "mh_Get m (HashBytes k)")
    case (Ok pos)
    with get obtain r where r: "chain_walk GetRecord ?f pos f () = Some r"
      by (cases "chain_walk GetRecord ?f pos f ()") (auto simp: ix_Get_def ix_walk_def)
    from chain_walk_reader [OF r assms(2), of n] get Ok r show ?thesis
      by (auto simp: ix_Get_def ix_walk_def case_prod_unfold)
  qed (use get in \<open>auto simp: ix_Get_def ix_walk_def\<close>)
qed

text \<open>A reader that loads the table again has the index that opening the files would give.\<close>

lemma ix_Reload_see:
  assumes "ix_ready ix h" and "h \<noteq> []" and "kf_appendBuf (ix_keyFile d) = []"
  shows "\<exists>m f n. ix_Reload (ix_see (ix_flushed ix) d) = (Ok (), \<lparr>ix_hashBlock = m, ix_keyFile = kf_end n f\<rparr>) \<and>
    ix_holds \<lparr>ix_hashBlock = m, ix_keyFile = f\<rparr> h \<and> kf_appendBuf f = [] \<and> mh_dirty m = False"
proof -
  let ?hb = "ix_hashBlock ix" and ?f = "kf_open (kf_disk (ix_keyFile (ix_Close ix)))"
  obtain es where es: "ik.irep ?hb (ix_keyFile ix) es" "h = map hist_of es" using assms(1) by (auto simp: ix_ready_def ix_holds_def)
  have dirty: "mh_dirty ?hb \<or> mh_file ?hb = Some (mh_buf ?hb)" using assms(1,2) by (auto simp: ix_ready_def)
  then have hfile: "fst (ix_flushed ix) = Some (mh_buf ?hb)" by (auto simp: ix_flushed_def ix_Close_def mh_Flush_def)
  have inv: "mh_inv ?hb" using es(1) by (simp add: ik.irep_def)
  have disk: "snd (ix_flushed ix) = kf_img es" "kf_rep (ix_keyFile ix) es"
    using es(1) kf_rep_flush_disk by (auto simp: ik.irep_def ix_flushed_def ix_Close_def)
  moreover have "kf_img es \<noteq> []" by (induction es) simp_all
  ultimately have ne: "snd (ix_flushed ix) \<noteq> []" by simp
  let ?m = "(ix_hashBlock (ix_see (ix_flushed ix) d))\<lparr>mh_buf := mh_buf ?hb, mh_bufSize := length (mh_buf ?hb) - memHeadReserved,
      mh_capacity := (length (mh_buf ?hb) - memHeadReserved) div keyLength, mh_count := sint (Int32 (drop 4 (mh_buf ?hb))), mh_dirty := False\<rparr>"
  have len: "\<not> length (mh_buf ?hb) < memHeadReserved" using inv by (simp add: mh_inv_def)
  have reload: "ix_Reload (ix_see (ix_flushed ix) d) = (Ok (), \<lparr>ix_hashBlock = ?m, ix_keyFile = (ix_keyFile d)\<lparr>kf_disk := snd (ix_flushed ix)\<rparr>\<rparr>)"
    using hfile len by (simp add: ix_Reload_def mh_Reload_def ix_see_def Let_def)
  have kf: "(ix_keyFile d)\<lparr>kf_disk := snd (ix_flushed ix)\<rparr> = kf_end (kf_fileEnd (ix_keyFile d)) ?f"
    using assms(3) ne by (cases "ix_keyFile d") (simp add: kf_end_def kf_open_def ix_flushed_def)
  have "mh_inv ?m" "mh_bucket ?m = mh_bucket ?hb" "mh_capacity ?m = mh_capacity ?hb"
    using inv mh_bucket_cong [of ?m ?hb] by (auto simp: mh_inv_def)
  moreover have "kf_rep ?f es" using kf_reopen_rep [OF disk(2)] by (simp add: ix_Close_def)
  ultimately have "ik.irep ?m ?f es" using es(1) by (simp add: ik.irep_def)
  then have "ix_holds \<lparr>ix_hashBlock = ?m, ix_keyFile = ?f\<rparr> h" using es(2) by (auto simp: ix_holds_def)
  moreover have "kf_appendBuf ?f = []" by (simp add: kf_open_def)
  ultimately show ?thesis using reload kf by (intro exI [of _ ?m] exI [of _ ?f] exI) auto
qed

end
