(* ===== verification/CounterDb.thy ===== *)
theory CounterDb
  imports DailyCounter IndexReader Values Codec
begin

text \<open>
  internal/db/counter: the values of the counters of every second (realtime\_counter.go), where a key index leads
  from an object and a second of the day to a data file of lists of named values, the writer of these
  and the five minute values (counter\_wr.go), with a queue and a map of open days for each of the
  two, and the reader (counter\_rd.go), which has the files open beside the writer and refreshes its index
  from time to time. A Go map that is written is the list of its entries in the order in which the
  \<open>range\<close> loop meets them. The writer of the realtime values does not flush its data file, so a
  reader sees what is on the disk. The clock, the calendar and the files at the time of a call are
  arguments.
\<close>

subsection \<open>The values of the seconds of a day\<close>

type_synonym counters = "(string \<times> value option) list"

record RealtimeCounterData =
  rl_index :: IndexKeyFile
  rl_data :: RealDataFile

record realtime_files =
  rf_index :: "bytes option \<times> bytes"
  rf_data :: bytes

definition no_realtime_files :: realtime_files where
  "no_realtime_files = \<lparr>rf_index = (None, []), rf_data = []\<rparr>"

definition NewRealtimeCounterData :: "realtime_files \<Rightarrow> RealtimeCounterData" where
  "NewRealtimeCounterData fs = \<lparr>rl_index = NewIndexKeyFile (fst (rf_index fs)) (snd (rf_index fs)) 1, rl_data = NewRealDataFile (rf_data fs)\<rparr>"

definition makeKey :: "i32 \<Rightarrow> i32 \<Rightarrow> bytes" where
  "makeKey objHash timeSec = PutUint32 objHash @ PutUint32 timeSec"

definition counters_Write :: "counters \<Rightarrow> dout \<Rightarrow> dout" where
  "counters_Write counters = writes [WriteByte (word_of_nat (length counters)), fold MapEntry_Write counters]"

definition rl_Write :: "i32 \<Rightarrow> i32 \<Rightarrow> counters \<Rightarrow> RealtimeCounterData \<Rightarrow> unit res \<times> RealtimeCounterData" where
  "rl_Write objHash timeSec counters d =
     (let blob = ToByteArray (counters_Write counters NewDataOutputX);
          dout = writes [WriteInt32 (word_of_nat (length blob)), Write blob] NewDataOutputX;
          (offset, f) = rd_Write (ToByteArray dout) (rl_data d);
          (r, ix) = ix_Put (Some (makeKey objHash timeSec)) (Some (Bytes5 (word_of_nat offset))) (rl_index d)
      in (r, \<lparr>rl_index = ix, rl_data = f\<rparr>))"

text \<open>The entries are put into a new map in the order in which they are read.\<close>

definition counters_Read :: "(string \<rightharpoonup> value) rd" where
  "counters_Read = rd_bind ReadByte (\<lambda>count.
     rd_bind (rd_times (unat count) (rd_bind ReadText (\<lambda>name. rd_bind ReadValue (\<lambda>v. rd_ret (name, v)))))
       (\<lambda>es. rd_ret (foldl (\<lambda>m (name, v). m(name \<mapsto> v)) Map.empty es)))"

definition readAtOffset :: "bytes \<Rightarrow> i64 \<Rightarrow> (string \<rightharpoonup> value) res" where
  "readAtOffset disk offset =
     (if sint offset < 0 then Err (ErrText ''negative offset'')
      else res_bind (file_read disk (nat (sint offset)) 4) (\<lambda>(lenBuf, pos).
        res_bind (file_read disk pos (unat (Uint32 lenBuf))) (\<lambda>(blob, _).
          fst (counters_Read (NewDataInputX blob)))))"

definition rl_at :: "i32 \<Rightarrow> i32 \<Rightarrow> RealtimeCounterData \<Rightarrow> ((string \<rightharpoonup> value) option res \<times> RealtimeCounterData) option" where
  "rl_at objHash timeSec d = map_option (\<lambda>(r, ix). (res_bind r (\<lambda>posBytes. case posBytes of
        None \<Rightarrow> Ok None
      | Some p \<Rightarrow>
          if length p < 5 then Panic IndexOutOfRange
          else res_bind (readAtOffset (rd_disk (rl_data d)) (Int5 p)) (\<lambda>m. Ok (Some m))), d\<lparr>rl_index := ix\<rparr>))
     (ix_Get (Some (makeKey objHash timeSec)) (rl_index d))"

definition rl_Read :: "i32 \<Rightarrow> i32 \<Rightarrow> RealtimeCounterData \<Rightarrow> ((string \<rightharpoonup> value) option res \<times> RealtimeCounterData) option" where
  "rl_Read = rl_at"

text \<open>
  \<open>ReadRange\<close> with the calls of the handler in their order. The seconds are 32 bits wide and wrap around, so
  the loop need not end; an error of one second is passed over.
\<close>

type_synonym counter_calls = "(i32 \<times> (string \<rightharpoonup> value)) list"

partial_function (option) rl_range ::
  "i32 \<Rightarrow> i32 \<Rightarrow> i32 \<Rightarrow> counter_calls \<Rightarrow> RealtimeCounterData \<Rightarrow> (unit res \<times> counter_calls \<times> RealtimeCounterData) option" where
  "rl_range objHash sec endSec calls d =
     (if sint sec \<le> sint endSec
      then (case rl_at objHash sec d of
          None \<Rightarrow> None
        | Some (Panic p, d) \<Rightarrow> Some (Panic p, calls, d)
        | Some (Err e, d) \<Rightarrow> rl_range objHash (sec + 1) endSec calls d
        | Some (Ok None, d) \<Rightarrow> rl_range objHash (sec + 1) endSec calls d
        | Some (Ok (Some m), d) \<Rightarrow> rl_range objHash (sec + 1) endSec (calls @ [(sec, m)]) d)
      else Some (Ok (), calls, d))"

definition rl_ReadRange :: "i32 \<Rightarrow> i32 \<Rightarrow> i32 \<Rightarrow> RealtimeCounterData \<Rightarrow> (unit res \<times> counter_calls \<times> RealtimeCounterData) option" where
  "rl_ReadRange objHash startSec endSec = rl_range objHash startSec endSec []"

definition rl_Flush :: "RealtimeCounterData \<Rightarrow> RealtimeCounterData" where
  "rl_Flush d = d\<lparr>rl_data := rd_Flush (rl_data d)\<rparr>"

definition rl_Reload :: "RealtimeCounterData \<Rightarrow> unit res \<times> RealtimeCounterData" where
  "rl_Reload d = (let (r, ix) = ix_Reload (rl_index d) in (r, d\<lparr>rl_index := ix\<rparr>))"

definition rl_Close :: "RealtimeCounterData \<Rightarrow> RealtimeCounterData" where
  "rl_Close d = \<lparr>rl_index = ix_Close (rl_index d), rl_data = rd_Close (rl_data d)\<rparr>"

definition rl_files :: "RealtimeCounterData \<Rightarrow> realtime_files" where
  "rl_files d = \<lparr>rf_index = (mh_file (ix_hashBlock (rl_index d)), kf_disk (ix_keyFile (rl_index d))), rf_data = rd_disk (rl_data d)\<rparr>"

definition rl_shut :: "RealtimeCounterData \<Rightarrow> realtime_files" where
  "rl_shut d = rl_files (rl_Close (rl_Flush d))"

subsection \<open>The writer\<close>

record RealtimeEntry =
  re_TimeMs :: i64
  re_ObjHash :: i32
  re_Counters :: counters

record CounterWR =
  cw_realtimeDays :: "(string, RealtimeCounterData, realtime_files) DayWriter"
  cw_dailyDays :: "(string, DailyCounterData, daily_files) DayWriter"

definition NewCounterWR :: CounterWR where
  "NewCounterWR = \<lparr>cw_realtimeDays = dw_new, cw_dailyDays = dw_new\<rparr>"

definition counterQueueSize :: nat where "counterQueueSize = 10000"

definition AddRealtime :: "RealtimeEntry \<Rightarrow> RealtimeEntry list \<Rightarrow> RealtimeEntry list" where
  "AddRealtime = enqueue counterQueueSize"

definition AddDaily :: "DailyEntry \<Rightarrow> DailyEntry list \<Rightarrow> DailyEntry list" where
  "AddDaily = enqueue counterQueueSize"

definition AddRealtimeFromPerfCounter :: "i64 \<Rightarrow> i32 \<Rightarrow> counters \<Rightarrow> RealtimeEntry list \<Rightarrow> RealtimeEntry list" where
  "AddRealtimeFromPerfCounter timeMs objHash counters =
     AddRealtime \<lparr>re_TimeMs = timeMs, re_ObjHash = objHash, re_Counters = counters\<rparr>"

definition cw_getRealtimeData :: "string \<Rightarrow> CounterWR \<Rightarrow> RealtimeCounterData \<times> CounterWR" where
  "cw_getRealtimeData date w = (let (d, days) = dw_getContainer NewRealtimeCounterData no_realtime_files date (cw_realtimeDays w)
     in (d, w\<lparr>cw_realtimeDays := days\<rparr>))"

definition cw_getDailyData :: "string \<Rightarrow> CounterWR \<Rightarrow> DailyCounterData \<times> CounterWR" where
  "cw_getDailyData date w = (let (d, days) = dw_getContainer NewDailyCounterData no_daily_files date (cw_dailyDays w)
     in (d, w\<lparr>cw_dailyDays := days\<rparr>))"

text \<open>\<open>fmt\<close> is \<open>util.FormatDate\<close> and \<open>clock\<close> the second of the day of a time.\<close>

definition writeRealtime :: "(i64 \<Rightarrow> string) \<Rightarrow> (i64 \<Rightarrow> i32) \<Rightarrow> RealtimeEntry \<Rightarrow> CounterWR \<Rightarrow> unit res \<times> CounterWR" where
  "writeRealtime fmt clock entry w =
     (let date = fmt (re_TimeMs entry); timeSec = clock (re_TimeMs entry);
          (d, w) = cw_getRealtimeData date w;
          (r, d) = rl_Write (re_ObjHash entry) timeSec (re_Counters entry) d
      in (r, w\<lparr>cw_realtimeDays := dw_set date d (cw_realtimeDays w)\<rparr>))"

definition writeDaily :: "DailyEntry \<Rightarrow> CounterWR \<Rightarrow> (unit res \<times> CounterWR) option" where
  "writeDaily entry w =
     (let (d, w) = cw_getDailyData (de_Date entry) w
      in map_option (\<lambda>(r, d). (r, w\<lparr>cw_dailyDays := dw_set (de_Date entry) d (cw_dailyDays w)\<rparr>)) (dy_writeEntry entry d))"

definition cw_PurgeOldDays :: "(string \<Rightarrow> bool) \<Rightarrow> CounterWR \<Rightarrow> CounterWR" where
  "cw_PurgeOldDays keep w = \<lparr>cw_realtimeDays = dw_purge rl_shut keep (cw_realtimeDays w),
     cw_dailyDays = dw_purge dy_shut keep (cw_dailyDays w)\<rparr>"

definition cw_flushAll :: "CounterWR \<Rightarrow> CounterWR" where
  "cw_flushAll w = w\<lparr>cw_realtimeDays := dw_flush rl_Flush (cw_realtimeDays w)\<rparr>"

text \<open>\<open>Close\<close> of the writer is its last operation: it leaves the closed containers in the maps.\<close>

definition cw_Close :: "CounterWR \<Rightarrow> CounterWR" where
  "cw_Close w = \<lparr>cw_realtimeDays = dw_close (\<lambda>d. rl_files (rl_Close d)) (cw_realtimeDays w),
     cw_dailyDays = dw_close dy_shut (cw_dailyDays w)\<rparr>"

subsection \<open>The reader\<close>

text \<open>
  The reader keeps its own index tables. Its key file and data file are those of the writer, so at
  a call the container is seen with the files as they are on the disk then; only the table is the one of
  the last load. Times are in nanoseconds, 0 before the first.
\<close>

record CounterRD =
  cr_realtimeDays :: "string \<Rightarrow> RealtimeCounterData option"
  cr_dailyDays :: "string \<Rightarrow> DailyCounterData option"
  cr_realtimeOpenAt :: "string \<Rightarrow> int"
  cr_dailyOpenAt :: "string \<Rightarrow> int"

definition NewCounterRD :: CounterRD where
  "NewCounterRD = \<lparr>cr_realtimeDays = (\<lambda>_. None), cr_dailyDays = (\<lambda>_. None), cr_realtimeOpenAt = (\<lambda>_. 0), cr_dailyOpenAt = (\<lambda>_. 0)\<rparr>"

definition dailyRefreshInterval :: int where "dailyRefreshInterval = 10 * 10 ^ 9"
definition realtimeRefreshInterval :: int where "realtimeRefreshInterval = 4 * 10 ^ 9"

definition dy_see :: "daily_files \<Rightarrow> DailyCounterData \<Rightarrow> DailyCounterData" where
  "dy_see fs d = \<lparr>dy_index = ix_see (df_index fs) (dy_index d), dy_data = df_data fs\<rparr>"

definition rl_see :: "realtime_files \<Rightarrow> RealtimeCounterData \<Rightarrow> RealtimeCounterData" where
  "rl_see fs d = \<lparr>rl_index = ix_see (rf_index fs) (rl_index d), rl_data = (rl_data d)\<lparr>rd_disk := rf_data fs\<rparr>\<rparr>"

definition cr_getRealtimeData :: "int \<Rightarrow> string \<Rightarrow> (string \<Rightarrow> realtime_files option) \<Rightarrow> string \<Rightarrow> CounterRD \<Rightarrow> RealtimeCounterData option \<times> CounterRD" where
  "cr_getRealtimeData now today disk date r =
     (case cr_realtimeDays r date of
        Some d0 \<Rightarrow>
          let d = (case disk date of Some fs \<Rightarrow> rl_see fs d0 | None \<Rightarrow> d0)
          in if date = today \<and> now - cr_realtimeOpenAt r date > realtimeRefreshInterval
             then let d = snd (rl_Reload d)
                  in (Some d, r\<lparr>cr_realtimeDays := (cr_realtimeDays r)(date \<mapsto> d), cr_realtimeOpenAt := (cr_realtimeOpenAt r)(date := now)\<rparr>)
             else (Some d, r\<lparr>cr_realtimeDays := (cr_realtimeDays r)(date \<mapsto> d)\<rparr>)
      | None \<Rightarrow> (case disk date of
            None \<Rightarrow> (None, r)
          | Some fs \<Rightarrow>
              let d = NewRealtimeCounterData fs
              in (Some d, r\<lparr>cr_realtimeDays := (cr_realtimeDays r)(date \<mapsto> d), cr_realtimeOpenAt := (cr_realtimeOpenAt r)(date := now)\<rparr>)))"

definition cr_getDailyData :: "int \<Rightarrow> string \<Rightarrow> (string \<Rightarrow> daily_files option) \<Rightarrow> string \<Rightarrow> CounterRD \<Rightarrow> DailyCounterData option \<times> CounterRD" where
  "cr_getDailyData now today disk date r =
     (case cr_dailyDays r date of
        Some d0 \<Rightarrow>
          let d = (case disk date of Some fs \<Rightarrow> dy_see fs d0 | None \<Rightarrow> d0)
          in if date = today \<and> now - cr_dailyOpenAt r date > dailyRefreshInterval
             then let d = snd (dy_Reload d)
                  in (Some d, r\<lparr>cr_dailyDays := (cr_dailyDays r)(date \<mapsto> d), cr_dailyOpenAt := (cr_dailyOpenAt r)(date := now)\<rparr>)
             else (Some d, r\<lparr>cr_dailyDays := (cr_dailyDays r)(date \<mapsto> d)\<rparr>)
      | None \<Rightarrow> (case disk date of
            None \<Rightarrow> (None, r)
          | Some fs \<Rightarrow>
              let d = NewDailyCounterData fs
              in (Some d, r\<lparr>cr_dailyDays := (cr_dailyDays r)(date \<mapsto> d), cr_dailyOpenAt := (cr_dailyOpenAt r)(date := now)\<rparr>)))"

definition ReadRealtime :: "int \<Rightarrow> string \<Rightarrow> (string \<Rightarrow> realtime_files option) \<Rightarrow> string \<Rightarrow> i32 \<Rightarrow> i32 \<Rightarrow> CounterRD \<Rightarrow>
    ((string \<rightharpoonup> value) option res \<times> CounterRD) option" where
  "ReadRealtime now today disk date objHash timeSec r = (case cr_getRealtimeData now today disk date r of
     (None, r) \<Rightarrow> Some (Ok None, r)
   | (Some d, r) \<Rightarrow> map_option (\<lambda>(y, d). (y, r\<lparr>cr_realtimeDays := (cr_realtimeDays r)(date \<mapsto> d)\<rparr>)) (rl_Read objHash timeSec d))"

definition ReadRealtimeRange :: "int \<Rightarrow> string \<Rightarrow> (string \<Rightarrow> realtime_files option) \<Rightarrow> string \<Rightarrow> i32 \<Rightarrow> i32 \<Rightarrow> i32 \<Rightarrow> CounterRD \<Rightarrow>
    (unit res \<times> counter_calls \<times> CounterRD) option" where
  "ReadRealtimeRange now today disk date objHash startSec endSec r = (case cr_getRealtimeData now today disk date r of
     (None, r) \<Rightarrow> Some (Ok (), [], r)
   | (Some d, r) \<Rightarrow> map_option (\<lambda>(y, calls, d). (y, calls, r\<lparr>cr_realtimeDays := (cr_realtimeDays r)(date \<mapsto> d)\<rparr>))
       (rl_ReadRange objHash startSec endSec d))"

definition ReadDaily :: "int \<Rightarrow> string \<Rightarrow> (string \<Rightarrow> daily_files option) \<Rightarrow> string \<Rightarrow> i32 \<Rightarrow> string \<Rightarrow> int \<Rightarrow> CounterRD \<Rightarrow>
    (f64 option res \<times> CounterRD) option" where
  "ReadDaily now today disk date objHash counterName bucket r = (case cr_getDailyData now today disk date r of
     (None, r) \<Rightarrow> Some (Ok None, r)
   | (Some d, r) \<Rightarrow> map_option (\<lambda>(y, d). (y, r\<lparr>cr_dailyDays := (cr_dailyDays r)(date \<mapsto> d)\<rparr>)) (dy_Read objHash counterName bucket d))"

definition ReadDailyAll :: "int \<Rightarrow> string \<Rightarrow> (string \<Rightarrow> daily_files option) \<Rightarrow> string \<Rightarrow> i32 \<Rightarrow> string \<Rightarrow> CounterRD \<Rightarrow>
    (f64 slice res \<times> CounterRD) option" where
  "ReadDailyAll now today disk date objHash counterName r = (case cr_getDailyData now today disk date r of
     (None, r) \<Rightarrow> Some (Ok None, r)
   | (Some d, r) \<Rightarrow> map_option (\<lambda>(y, d). (y, r\<lparr>cr_dailyDays := (cr_dailyDays r)(date \<mapsto> d)\<rparr>)) (dy_ReadAll objHash counterName d))"

text \<open>Closing a container of the reader writes nothing, since its index is never dirty (lemma below).\<close>

definition cr_PurgeOldDays :: "(string \<Rightarrow> bool) \<Rightarrow> CounterRD \<Rightarrow> CounterRD" where
  "cr_PurgeOldDays keep r =
     \<lparr>cr_realtimeDays = (\<lambda>k. if keep k then cr_realtimeDays r k else None),
      cr_dailyDays = (\<lambda>k. if keep k then cr_dailyDays r k else None),
      cr_realtimeOpenAt = (\<lambda>k. if keep k \<or> cr_realtimeDays r k = None then cr_realtimeOpenAt r k else 0),
      cr_dailyOpenAt = (\<lambda>k. if keep k \<or> cr_dailyDays r k = None then cr_dailyOpenAt r k else 0)\<rparr>"

definition cr_Close :: "CounterRD \<Rightarrow> CounterRD" where
  "cr_Close r = r\<lparr>cr_realtimeDays := (\<lambda>k. map_option rl_Close (cr_realtimeDays r k)), cr_dailyDays := (\<lambda>k. map_option dy_Close (cr_dailyDays r k))\<rparr>"

subsection \<open>What the realtime files hold\<close>

definition ok_counters :: "counters \<Rightarrow> bool" where
  "ok_counters cs \<longleftrightarrow> length cs < 256 \<and> distinct (map fst cs) \<and> (\<forall>(name, v) \<in> set cs. ok_text name \<and> ok_value v)"

definition counter_map :: "counters \<Rightarrow> string \<rightharpoonup> value" where
  "counter_map cs = map_of (map (\<lambda>(name, v). (name, norm_value v)) cs)"

lemma map_puts: "distinct (map fst es) \<Longrightarrow> foldl (\<lambda>m (name, v). m(name \<mapsto> v)) m es = m ++ map_of es"
proof (induction es arbitrary: m)
  case (Cons e es)
  then show ?case by (cases e) (auto simp: map_add_def fun_eq_iff dest!: map_of_SomeD intro: rev_image_eqI split: option.splits)
qed simp

lemma wire_counters:
  assumes "ok_counters cs"
  shows "wire (counters_Write cs) counters_Read (counter_map cs)"
proof -
  let ?norm = "\<lambda>(name, v). (name, norm_value v)"
  have "wire (MapEntry_Write e) (rd_bind ReadText (\<lambda>name. rd_bind ReadValue (\<lambda>v. rd_ret (name, v)))) (?norm e)" if "e \<in> set cs" for e
  proof -
    obtain name v where e: "e = (name, v)" by (cases e)
    then have "ok_text name" "ok_value v" using assms that by (auto simp: ok_counters_def)
    then show ?thesis unfolding e MapEntry_Write.simps writes.simps prod.case
      by (intro wire_seq [OF wire_Text] wire_last wire_values)
  qed
  then have entries: "wire (fold MapEntry_Write cs)
      (rd_times (length cs) (rd_bind ReadText (\<lambda>name. rd_bind ReadValue (\<lambda>v. rd_ret (name, v))))) (map ?norm cs)"
    by (rule wire_fold)
  have "distinct (map fst (map ?norm cs))" using assms by (simp add: ok_counters_def case_prod_unfold comp_def)
  then have map: "foldl (\<lambda>m (name, v). m(name \<mapsto> v)) Map.empty (map ?norm cs) = counter_map cs"
    by (simp add: map_puts counter_map_def)
  have "unat (word_of_nat (length cs) :: byte) = length cs" using assms by (simp add: ok_counters_def unat_of_nat)
  with wire_last [OF entries, of "foldl (\<lambda>m (name, v). m(name \<mapsto> v)) Map.empty", unfolded map]
  show ?thesis unfolding counters_Write_def counters_Read_def writes.simps
    by (intro wire_seq [OF wire_Byte]) simp
qed

lemma counters_read_back: "ok_counters cs \<Longrightarrow> fst (counters_Read (NewDataInputX (ToByteArray (counters_Write cs NewDataOutputX)))) = Ok (counter_map cs)"
proof -
  assume "ok_counters cs"
  then obtain bs where bs: "emits (counters_Write cs) bs" "consumes counters_Read bs (counter_map cs)"
    using wire_counters by (auto elim: wireE)
  have "counters_Read (NewDataInputX bs) = (Ok (counter_map cs), advance (length bs) (NewDataInputX bs))"
    by (rule consumesD [OF bs(2), where rest = "[]"]) (simp add: pending_def NewDataInputX_def)
  then show ?thesis using emits_ToByteArray [OF bs(1)] by simp
qed

text \<open>The entries of a day, the newest first: object, second, counters.\<close>

type_synonym realtime_write = "i32 \<times> i32 \<times> counters"

definition rl_blob :: "realtime_write \<Rightarrow> bytes" where
  "rl_blob e = ToByteArray (counters_Write (snd (snd e)) NewDataOutputX)"

definition rl_frame :: "realtime_write \<Rightarrow> bytes" where
  "rl_frame e = PutUint32 (word_of_nat (length (rl_blob e))) @ rl_blob e"

definition rl_key :: "realtime_write \<Rightarrow> bytes" where
  "rl_key e = makeKey (fst e) (fst (snd e))"

abbreviation rl_hist :: "realtime_write list \<Rightarrow> history" where
  "rl_hist \<equiv> place_hist rl_frame rl_key"

definition rl_fits :: "realtime_write list \<Rightarrow> bool" where
  "rl_fits es \<longleftrightarrow> length es \<le> 2 ^ 34 \<and> length (log_image rl_frame es) < 2 ^ 39 \<and>
     (\<forall>e \<in> set es. ok_counters (snd (snd e)) \<and> length (rl_blob e) < 2 ^ 32)"

definition rl_holds :: "RealtimeCounterData \<Rightarrow> realtime_write list \<Rightarrow> bool" where
  "rl_holds d es \<longleftrightarrow> ix_ready (rl_index d) (rl_hist es) \<and> rd_inv (rl_data d) \<and> rd_content (rl_data d) = log_image rl_frame es \<and> rl_fits es"

definition rl_synced :: "RealtimeCounterData \<Rightarrow> bool" where
  "rl_synced d \<longleftrightarrow> rd_writer (rl_data d) = []"

definition rl_stored :: "(i64 \<Rightarrow> i32) \<Rightarrow> RealtimeEntry \<Rightarrow> realtime_write" where
  "rl_stored clock e = (re_ObjHash e, clock (re_TimeMs e), re_Counters e)"

definition rl_write_day :: "(i64 \<Rightarrow> i32) \<Rightarrow> RealtimeEntry \<Rightarrow> RealtimeCounterData \<Rightarrow> unit res \<times> RealtimeCounterData" where
  "rl_write_day clock e = rl_Write (re_ObjHash e) (clock (re_TimeMs e)) (re_Counters e)"

lemma length_makeKey [simp]: "length (makeKey objHash timeSec) = 8"
  by (simp add: makeKey_def)

lemma PutUint32_inj: "PutUint32 a = PutUint32 b \<longleftrightarrow> a = b"
  by (metis Uint32_Put)

lemma makeKey_inj: "makeKey o1 s1 = makeKey o2 s2 \<longleftrightarrow> o1 = o2 \<and> s1 = s2"
  by (simp add: makeKey_def append_eq_append_conv PutUint32_inj)

lemma rl_Write_holds:
  assumes "rl_holds d es" and "rl_fits (e # es)"
  shows "\<exists>d'. rl_Write (fst e) (fst (snd e)) (snd (snd e)) d = (Ok (), d') \<and> rl_holds d' (e # es)"
proof -
  let ?n = "length (log_image rl_frame es)" and ?f = "rl_data d"
  have rd: "rd_inv ?f" "rd_content ?f = log_image rl_frame es" "ix_ready (rl_index d) (rl_hist es)"
    using assms(1) by (simp_all add: rl_holds_def)
  have "hist_size (rl_hist (e # es)) = 2 + (14 + 8) * length (e # es)" by (rule place_hist_size) (simp add: rl_key_def)
  moreover have "length (e # es) \<le> 2 ^ 34" using assms(2) by (simp add: rl_fits_def)
  ultimately have "hist_size (rl_hist (e # es)) \<le> 2 ^ 39" by simp
  moreover have "length (rl_key e) \<le> 119" by (simp add: rl_key_def)
  ultimately obtain ix where ix: "ix_Put (Some (rl_key e)) (Some (Bytes5 (word_of_nat ?n))) (rl_index d) = (Ok (), ix)" "ix_ready ix (rl_hist (e # es))"
    using ix_Put_entry [OF rd(3)] by blast
  obtain f where f: "rd_Write (rl_frame e) ?f = (?n, f)" "rd_inv f" "rd_content f = log_image rl_frame (e # es)"
    using rd_Write_content [OF rd(1), of "rl_frame e"] rd(2) by (cases "rd_Write (rl_frame e) ?f") simp
  have out: "ToByteArray (writes [WriteInt32 (word_of_nat (length (rl_blob e))), Write (rl_blob e)] NewDataOutputX) = rl_frame e"
    using emits_ToByteArray [OF emits_seq [OF emits_WriteInt32 emits_Write]] by (simp add: rl_frame_def)
  have "rl_Write (fst e) (fst (snd e)) (snd (snd e)) d = (Ok (), \<lparr>rl_index = ix, rl_data = f\<rparr>)"
    using out f(1) ix(1) unfolding rl_Write_def rl_key_def rl_blob_def by (simp only: Let_def prod.case)
  then show ?thesis using ix(2) f(2,3) assms(2) by (simp add: rl_holds_def)
qed

lemma rl_open_new: "rl_holds (NewRealtimeCounterData no_realtime_files) []"
  using ix_new_ready by (simp add: rl_holds_def NewRealtimeCounterData_def no_realtime_files_def rl_fits_def)

lemma rl_reopen_holds:
  assumes "rl_holds d es"
  shows "rl_holds (NewRealtimeCounterData (rl_shut d)) es"
proof -
  have "rl_index (NewRealtimeCounterData (rl_shut d)) = ix_reopen 1 (rl_index d)"
    by (simp add: NewRealtimeCounterData_def rl_shut_def rl_files_def rl_Close_def rl_Flush_def ix_reopen_def Let_def)
  moreover have "rl_data (NewRealtimeCounterData (rl_shut d)) = NewRealDataFile (rd_content (rl_data d))"
    by (simp add: NewRealtimeCounterData_def rl_shut_def rl_files_def rl_Close_def rl_Flush_def rd_Close_def)
  ultimately show ?thesis using assms ix_reopen_ready by (simp add: rl_holds_def)
qed

interpretation rw: day_store NewRealtimeCounterData rl_shut no_realtime_files "rl_write_day clock" rl_Flush rl_holds rl_synced
  "rl_stored clock" rl_fits
  for clock :: "i64 \<Rightarrow> i32"
proof unfold_locales
  show "rl_holds c es \<Longrightarrow> rl_fits (rl_stored clock e # es) \<Longrightarrow>
      \<exists>c'. rl_write_day clock e c = (Ok (), c') \<and> rl_holds c' (rl_stored clock e # es)" for c es e
    using rl_Write_holds [of c es "rl_stored clock e"] by (simp add: rl_stored_def rl_write_day_def)
  show "rl_holds c es \<Longrightarrow> rl_holds (rl_Flush c) es" for c es by (simp add: rl_holds_def rl_Flush_def)
qed (simp_all add: rl_open_new rl_reopen_holds, simp_all add: rl_synced_def NewRealtimeCounterData_def NewRealDataFile_def rl_Flush_def rd_Flush_def)

subsection \<open>What is read of them\<close>

definition counters_of :: "realtime_write list \<Rightarrow> i32 \<Rightarrow> i32 \<Rightarrow> (string \<rightharpoonup> value) option" where
  "counters_of es objHash sec = map_option (\<lambda>(_, _, cs). counter_map cs) (find (\<lambda>(obj, s, cs). obj = objHash \<and> s = sec) es)"

lemma readAtOffset_place:
  assumes "rl_fits es" and "(e, p) \<in> set (log_places rl_frame es)"
  shows "readAtOffset (log_image rl_frame es) (Int5 p) = Ok (counter_map (snd (snd e)))"
proof -
  have "e \<in> set es" using log_places_mem [OF assms(2)] by simp
  then have ok: "ok_counters (snd (snd e))" "length (rl_blob e) < 2 ^ 32" using assms(1) by (simp_all add: rl_fits_def)
  obtain pre post where im: "log_image rl_frame es = pre @ rl_frame e @ post" "sint (Int5 p) = int (length pre)"
    using log_place [OF assms(2)] assms(1) by (auto simp: rl_fits_def)
  have n: "unat (word_of_nat (length (rl_blob e)) :: i32) = length (rl_blob e)" using ok(2) by (simp add: unat_of_nat)
  have "file_read (pre @ rl_frame e @ post) (length pre) 4 = Ok (PutUint32 (word_of_nat (length (rl_blob e))), length pre + 4)"
    using file_read_part [of "length pre" pre 4 "PutUint32 (word_of_nat (length (rl_blob e)))"] by (simp add: rl_frame_def)
  moreover have "file_read (pre @ rl_frame e @ post) (length pre + 4) (length (rl_blob e)) = Ok (rl_blob e, length pre + 4 + length (rl_blob e))"
    using file_read_part [of "length pre + 4" "pre @ PutUint32 (word_of_nat (length (rl_blob e)))" "length (rl_blob e)" "rl_blob e" post]
    by (simp add: rl_frame_def)
  ultimately show ?thesis using n im counters_read_back [OF ok(1)] by (simp add: readAtOffset_def rl_blob_def)
qed

lemma rl_at_holds:
  assumes "rl_holds d es" and "rl_synced d"
  shows "\<exists>d'. rl_at objHash sec d = Some (Ok (counters_of es objHash sec), d') \<and> rl_holds d' es \<and> rl_synced d'"
proof -
  let ?k = "makeKey objHash sec"
  have d: "ix_ready (rl_index d) (rl_hist es)" "rd_disk (rl_data d) = log_image rl_frame es" "rl_fits es"
    using assms by (simp_all add: rl_holds_def rl_synced_def rd_content_def)
  obtain ix where ix: "ix_Get (Some ?k) (rl_index d) = Some (Ok (hist_Get ?k (rl_hist es)), ix)" "ix_ready ix (rl_hist es)"
    using ix_Get_ready [OF d(1)] by blast
  have key: "(\<lambda>e. rl_key e = ?k) = (\<lambda>(obj, s, cs). obj = objHash \<and> s = sec)" by (auto simp: fun_eq_iff rl_key_def makeKey_inj)
  have d': "rl_holds (d\<lparr>rl_index := ix\<rparr>) es" "rl_synced (d\<lparr>rl_index := ix\<rparr>)"
    using assms ix(2) by (simp_all add: rl_holds_def rl_synced_def)
  show ?thesis
  proof (cases "hist_Get ?k (rl_hist es)")
    case None
    then show ?thesis using place_hist_Get [where k = ?k and frame = rl_frame and key = rl_key and es = es] ix(1) d'
      by (simp add: rl_at_def counters_of_def key)
  next
    case (Some p)
    then obtain e where e: "find (\<lambda>(obj, s, cs). obj = objHash \<and> s = sec) es = Some e" "(e, p) \<in> set (log_places rl_frame es)"
      using place_hist_Get [where k = ?k and frame = rl_frame and key = rl_key and es = es] by (auto simp: key)
    show ?thesis using Some ix(1) d' e(1) readAtOffset_place [OF d(3) e(2)] log_place_length [OF e(2)] d(2)
      by (simp add: rl_at_def counters_of_def case_prod_unfold)
  qed
qed

text \<open>
  A range of seconds: the entries of its seconds in their order, if the end is not the largest 32 bit number;
  then the loop does not end.
\<close>

definition seconds :: "int \<Rightarrow> int \<Rightarrow> i32 list" where
  "seconds a b = map word_of_int [a..b]"

definition range_calls :: "realtime_write list \<Rightarrow> i32 \<Rightarrow> i32 list \<Rightarrow> counter_calls" where
  "range_calls es objHash secs = concat (map (\<lambda>sec. case counters_of es objHash sec of Some m \<Rightarrow> [(sec, m)] | None \<Rightarrow> []) secs)"

lemma sint_Suc: "sint (sec :: i32) < 2147483647 \<Longrightarrow> sint (sec + 1) = sint sec + 1"
  using sint_ge [of sec] by (simp add: sint_word_ariths signed_take_bit_int_eq_self)

lemma rl_range_holds:
  assumes "rl_holds d es" and "rl_synced d" and "sint endSec < 2147483647"
  shows "\<exists>d'. rl_range objHash sec endSec calls d = Some (Ok (), calls @ range_calls es objHash (seconds (sint sec) (sint endSec)), d') \<and>
    rl_holds d' es \<and> rl_synced d'"
  using assms(1,2)
proof (induction "nat (sint endSec - sint sec + 1)" arbitrary: sec calls d)
  case 0
  then have "sint endSec < sint sec" by simp
  then show ?case using 0 by (subst rl_range.simps) (simp add: seconds_def range_calls_def)
next
  case (Suc n)
  then have le: "sint sec \<le> sint endSec" by simp
  then have sec1: "sint (sec + 1) = sint sec + 1" using assms(3) sint_Suc by simp
  have n: "n = nat (sint endSec - sint (sec + 1) + 1)" using Suc(2) sec1 by simp
  obtain d1 where d1: "rl_at objHash sec d = Some (Ok (counters_of es objHash sec), d1)" "rl_holds d1 es" "rl_synced d1"
    using rl_at_holds [OF Suc.prems] by blast
  have secs: "seconds (sint sec) (sint endSec) = sec # seconds (sint (sec + 1)) (sint endSec)"
    using le by (simp add: seconds_def upto_rec1 sec1)
  show ?case
  proof (cases "counters_of es objHash sec")
    case None
    then show ?thesis using Suc.hyps(1) [OF n d1(2,3), of calls] le d1(1)
      by (subst rl_range.simps) (simp add: secs range_calls_def)
  next
    case (Some m)
    then show ?thesis using Suc.hyps(1) [OF n d1(2,3), of "calls @ [(sec, m)]"] le d1(1)
      by (subst rl_range.simps) (simp add: secs range_calls_def)
  qed
qed

lemma rl_range_returns:
  assumes "rl_range objHash sec endSec calls d = Some r" and "rl_holds d es" and "rl_synced d"
  shows "endSec \<noteq> 0x7FFFFFFF"
proof -
  let ?P = "\<lambda>objHash sec (endSec :: i32) calls d r. rl_holds d es \<longrightarrow> rl_synced d \<longrightarrow> endSec \<noteq> 0x7FFFFFFF"
  have "?P objHash sec endSec calls d r"
  proof (rule rl_range.raw_induct [where P = ?P, OF _ assms(1)], intro impI)
    fix rec objHash and sec endSec :: i32 and calls d r
    assume IH: "\<And>a sec endSec calls d r. rec a sec endSec calls d = Some r \<Longrightarrow> ?P a sec endSec calls d r"
      and step: "(if sint sec \<le> sint endSec
        then (case rl_at objHash sec d of
            None \<Rightarrow> None
          | Some (Panic p, d) \<Rightarrow> Some (Panic p, calls, d)
          | Some (Err e, d) \<Rightarrow> rec objHash (sec + 1) endSec calls d
          | Some (Ok None, d) \<Rightarrow> rec objHash (sec + 1) endSec calls d
          | Some (Ok (Some m), d) \<Rightarrow> rec objHash (sec + 1) endSec (calls @ [(sec, m)]) d)
        else Some (Ok (), calls, d)) = Some r"
      and d: "rl_holds d es" "rl_synced d"
    obtain d1 where d1: "rl_at objHash sec d = Some (Ok (counters_of es objHash sec), d1)" "rl_holds d1 es" "rl_synced d1"
      using rl_at_holds [OF d] by blast
    have top: "sint sec \<le> 2147483647" using sint_lt [of sec] by simp
    show "endSec \<noteq> 0x7FFFFFFF"
    proof
      assume "endSec = 0x7FFFFFFF"
      with step d1(1) top obtain calls' where "rec objHash (sec + 1) 0x7FFFFFFF calls' d1 = Some r"
        by (auto split: option.splits)
      from IH [OF this] d1(2,3) show False by simp
    qed
  qed
  then show ?thesis using assms(2,3) by simp
qed

lemma rl_range_forever:
  assumes "rl_holds d es" and "rl_synced d"
  shows "rl_range objHash sec 0x7FFFFFFF calls d = None"
  using rl_range_returns [OF _ assms, of objHash sec "0x7FFFFFFF" calls]
  by (cases "rl_range objHash sec 0x7FFFFFFF calls d") simp_all

text \<open>
  The number of counters is written as one byte: of more than 255 only the first ones, in the order of
  the \<open>range\<close> loop, are read, as many as their number modulo 256.
\<close>

lemma counters_wrap:
  assumes "distinct (map fst cs)" and "\<forall>(name, v) \<in> set cs. ok_text name \<and> ok_value v"
  shows "fst (counters_Read (NewDataInputX (ToByteArray (counters_Write cs NewDataOutputX)))) =
    Ok (counter_map (take (length cs mod 256) cs))"
proof -
  let ?n = "length cs mod 256"
  let ?short = "take ?n cs"
  have "ok_counters ?short"
    using assms by (auto simp: ok_counters_def distinct_map_filter take_map [symmetric] min_def dest!: in_set_takeD)
  then obtain bs where bs: "emits (counters_Write ?short) bs" "consumes counters_Read bs (counter_map ?short)"
    using wire_counters by (auto elim: wireE)
  have entry: "\<exists>b. emits (MapEntry_Write e) b" if "e \<in> set cs" for e
  proof -
    have "ok_entry e" using assms(2) that by (cases e) auto
    from wire_values(3) [OF this] show ?thesis by (auto elim: wireE)
  qed
  then obtain enc where enc: "\<And>e. e \<in> set cs \<Longrightarrow> emits (MapEntry_Write e) (enc e)" by metis
  have byte: "word_of_nat (length ?short) = (word_of_nat (length cs) :: byte)"
    by (simp add: word_of_nat_eq_iff take_bit_eq_mod min_absorb2)
  have all: "emits (counters_Write es) (word_of_nat (length es) # concat (map enc es))" if "set es \<subseteq> set cs" for es
    using emits_seq [OF emits_WriteByte emits_fold, of es MapEntry_Write enc "word_of_nat (length es)"] enc that
    by (auto simp: counters_Write_def)
  have "set ?short \<subseteq> set cs" by (rule set_take_subset)
  from all [OF this] bs(1) have "bs = word_of_nat (length ?short) # concat (map enc ?short)" by (rule emits_unique [symmetric])
  moreover have "word_of_nat (length cs) # concat (map enc cs) =
      (word_of_nat (length ?short) # concat (map enc ?short)) @ concat (map enc (drop ?n cs))"
    unfolding byte by (simp flip: concat_append map_append)
  ultimately have "ToByteArray (counters_Write cs NewDataOutputX) = bs @ concat (map enc (drop ?n cs))"
    using emits_ToByteArray [OF all [of cs]] by simp
  then have "counters_Read (NewDataInputX (ToByteArray (counters_Write cs NewDataOutputX))) =
      (Ok (counter_map ?short), advance (length bs) (NewDataInputX (ToByteArray (counters_Write cs NewDataOutputX))))"
    by (intro consumesD [OF bs(2)]) (simp add: pending_def NewDataInputX_def)
  then show ?thesis by simp
qed

subsection \<open>The writer and the reader together\<close>

datatype counter_op = WRealtime RealtimeEntry | WDaily DailyEntry | WPurge "string \<Rightarrow> bool" | WFlush

fun cw_do :: "(i64 \<Rightarrow> string) \<Rightarrow> (i64 \<Rightarrow> i32) \<Rightarrow> counter_op \<Rightarrow> CounterWR \<Rightarrow> CounterWR option" where
  "cw_do fmt clock (WRealtime e) w = Some (snd (writeRealtime fmt clock e w))"
| "cw_do fmt clock (WDaily e) w = map_option snd (writeDaily e w)"
| "cw_do fmt clock (WPurge keep) w = Some (cw_PurgeOldDays keep w)"
| "cw_do fmt clock WFlush w = Some (cw_flushAll w)"

fun cw_run :: "(i64 \<Rightarrow> string) \<Rightarrow> (i64 \<Rightarrow> i32) \<Rightarrow> counter_op list \<Rightarrow> CounterWR \<Rightarrow> CounterWR option" where
  "cw_run fmt clock [] w = Some w"
| "cw_run fmt clock (op # ops) w = Option.bind (cw_do fmt clock op w) (cw_run fmt clock ops)"

text \<open>What was written for a day, the newest first.\<close>

definition realtime_log :: "(i64 \<Rightarrow> string) \<Rightarrow> (i64 \<Rightarrow> i32) \<Rightarrow> counter_op list \<Rightarrow> string \<Rightarrow> realtime_write list" where
  "realtime_log fmt clock ops date =
     rev (concat (map (\<lambda>op. case op of WRealtime e \<Rightarrow> if fmt (re_TimeMs e) = date then [rl_stored clock e] else [] | _ \<Rightarrow> []) ops))"

definition daily_log :: "counter_op list \<Rightarrow> string \<Rightarrow> daily_write list" where
  "daily_log ops date = rev (concat (map (\<lambda>op. case op of WDaily e \<Rightarrow> if de_Date e = date then [de_stored e] else [] | _ \<Rightarrow> []) ops))"

definition counters_fit :: "(i64 \<Rightarrow> string) \<Rightarrow> (i64 \<Rightarrow> i32) \<Rightarrow> counter_op list \<Rightarrow> bool" where
  "counters_fit fmt clock ops \<longleftrightarrow> (\<forall>date. rl_fits (realtime_log fmt clock ops date) \<and> dy_fits (daily_log ops date))"

definition cw_holds :: "CounterWR \<Rightarrow> (string \<Rightarrow> realtime_write list) \<Rightarrow> (string \<Rightarrow> daily_write list) \<Rightarrow> bool" where
  "cw_holds w R D \<longleftrightarrow> rw.dw_holds (cw_realtimeDays w) R \<and> yw.dw_holds (cw_dailyDays w) D"

lemma rl_fits_suffix: "rl_fits (es @ es') \<Longrightarrow> rl_fits es'"
  by (induction es) (simp_all add: rl_fits_def)

lemma logs_snoc [simp]:
  "realtime_log fmt clock (ops @ [op]) date =
    (case op of WRealtime e \<Rightarrow> if fmt (re_TimeMs e) = date then [rl_stored clock e] else [] | _ \<Rightarrow> []) @ realtime_log fmt clock ops date"
  "daily_log (ops @ [op]) date =
    (case op of WDaily e \<Rightarrow> if de_Date e = date then [de_stored e] else [] | _ \<Rightarrow> []) @ daily_log ops date"
  by (auto simp: realtime_log_def daily_log_def split: counter_op.split)

lemma cw_do_holds:
  assumes "cw_holds w (realtime_log fmt clock ops) (daily_log ops)" and "counters_fit fmt clock (ops @ [op])"
  shows "\<exists>w'. cw_do fmt clock op w = Some w' \<and> cw_holds w' (realtime_log fmt clock (ops @ [op])) (daily_log (ops @ [op]))"
proof -
  let ?R = "realtime_log fmt clock ops" and ?D = "daily_log ops"
  have r: "rw.dw_holds (cw_realtimeDays w) ?R" and d: "yw.dw_holds (cw_dailyDays w) ?D" using assms(1) by (simp_all add: cw_holds_def)
  show ?thesis
  proof (cases op)
    case (WRealtime e)
    let ?date = "fmt (re_TimeMs e)"
    have "rl_fits (realtime_log fmt clock (ops @ [op]) ?date)" using assms(2) unfolding counters_fit_def by blast
    then have "rl_fits (rl_stored clock e # ?R ?date)" by (simp add: WRealtime)
    from rw.dw_process_holds [OF r this] obtain days where
      days: "dw_process NewRealtimeCounterData no_realtime_files (rl_write_day clock) ?date e (cw_realtimeDays w) = (Ok (), days)"
      "rw.dw_holds days (?R(?date := rl_stored clock e # ?R ?date))" by blast
    have "snd (writeRealtime fmt clock e w) = w\<lparr>cw_realtimeDays := days\<rparr>"
      using days(1) by (simp add: writeRealtime_def cw_getRealtimeData_def dw_process_def rl_write_day_def Let_def case_prod_unfold prod_eq_iff)
    moreover have "realtime_log fmt clock (ops @ [op]) = ?R(?date := rl_stored clock e # ?R ?date)" "daily_log (ops @ [op]) = ?D"
      by (auto simp: WRealtime fun_eq_iff)
    ultimately show ?thesis using days(2) d by (simp add: WRealtime cw_holds_def)
  next
    case (WDaily e)
    let ?date = "de_Date e"
    have "dy_fits (daily_log (ops @ [op]) ?date)" using assms(2) unfolding counters_fit_def by blast
    then have fit: "dy_fits (de_stored e # ?D ?date)" by (simp add: WDaily)
    obtain c days where c: "dw_getContainer NewDailyCounterData no_daily_files ?date (cw_dailyDays w) = (c, days)" "dy_holds c (?D ?date)"
      "yw.dw_holds days ?D" using yw.dw_getContainer_holds [OF d] by metis
    obtain c' where c': "dy_writeEntry e c = Some (Ok (), c')" "dy_holds c' (de_stored e # ?D ?date)"
      using dy_writeEntry_holds [OF c(2) fit] by blast
    have "writeDaily e w = Some (Ok (), w\<lparr>cw_dailyDays := dw_set ?date c' days\<rparr>)"
      using c(1) c'(1) by (simp add: writeDaily_def cw_getDailyData_def)
    moreover have "daily_log (ops @ [op]) = ?D(?date := de_stored e # ?D ?date)" "realtime_log fmt clock (ops @ [op]) = ?R"
      by (auto simp: WDaily fun_eq_iff)
    ultimately show ?thesis using yw.dw_set_holds [OF c(3) c'(2)] r by (simp add: WDaily cw_holds_def)
  next
    case (WPurge keep)
    have "realtime_log fmt clock (ops @ [op]) = ?R" "daily_log (ops @ [op]) = ?D" by (auto simp: WPurge fun_eq_iff)
    then show ?thesis using rw.dw_purge_holds [OF r] yw.dw_purge_holds [OF d] by (simp add: WPurge cw_PurgeOldDays_def cw_holds_def)
  next
    case WFlush
    have "realtime_log fmt clock (ops @ [op]) = ?R" "daily_log (ops @ [op]) = ?D" by (auto simp: WFlush fun_eq_iff)
    then show ?thesis using rw.dw_flush_holds [OF r] d by (simp add: WFlush cw_flushAll_def cw_holds_def)
  qed
qed

lemma counters_fit_prefix: "counters_fit fmt clock (ops @ [op]) \<Longrightarrow> counters_fit fmt clock ops"
  unfolding counters_fit_def logs_snoc by (blast dest: rl_fits_suffix dy_fits_suffix)

lemma cw_run_snoc: "cw_run fmt clock (ops @ [op]) w = Option.bind (cw_run fmt clock ops w) (cw_do fmt clock op)"
proof (induction ops arbitrary: w)
  case Nil
  have "cw_run fmt clock [] = Some" by (simp add: fun_eq_iff)
  then show ?case by simp
qed (auto intro!: bind_option_cong simp: Option.bind_assoc)

lemma cw_run_holds:
  assumes "counters_fit fmt clock ops"
  shows "\<exists>w. cw_run fmt clock ops NewCounterWR = Some w \<and> cw_holds w (realtime_log fmt clock ops) (daily_log ops)"
  using assms
proof (induction ops rule: rev_induct)
  case Nil
  have "realtime_log fmt clock [] = (\<lambda>_. [])" "daily_log [] = (\<lambda>_. [])" by (auto simp: fun_eq_iff realtime_log_def daily_log_def)
  then show ?case using rw.dw_new_holds yw.dw_new_holds by (simp add: NewCounterWR_def cw_holds_def)
next
  case (snoc op ops)
  obtain w where w: "cw_run fmt clock ops NewCounterWR = Some w" "cw_holds w (realtime_log fmt clock ops) (daily_log ops)"
    using snoc.IH counters_fit_prefix [OF snoc.prems] by blast
  from cw_do_holds [OF w(2) snoc.prems] w(1) show ?case by (simp add: cw_run_snoc del: logs_snoc)
qed

text \<open>Closing without a \<open>Flush\<close> leaves the same files.\<close>

lemma rl_Close_files: "(\<lambda>d. rl_files (rl_Close d)) = rl_shut"
  by (simp add: fun_eq_iff rl_shut_def rl_files_def rl_Close_def rl_Flush_def rd_Close_def rd_content_def)
    (simp add: rd_Flush_def)

text \<open>A reader opened after the writer was closed.\<close>

lemma counters_after_close:
  assumes "counters_fit fmt clock ops"
  shows "\<exists>w. cw_run fmt clock ops NewCounterWR = Some w \<and>
    (\<exists>r. ReadRealtime now today (dw_files (cw_realtimeDays (cw_Close w))) date objHash sec NewCounterRD =
      Some (Ok (counters_of (realtime_log fmt clock ops date) objHash sec), r)) \<and>
    (sint endSec < 2147483647 \<longrightarrow> (\<exists>r. ReadRealtimeRange now today (dw_files (cw_realtimeDays (cw_Close w))) date objHash startSec endSec NewCounterRD =
      Some (Ok (), range_calls (realtime_log fmt clock ops date) objHash (seconds (sint startSec) (sint endSec)), r))) \<and>
    (\<exists>r. ReadDaily now today (dw_files (cw_dailyDays (cw_Close w))) date objHash name b NewCounterRD =
      Some (Ok (daily_value (daily_log ops date) (makeCounterKey objHash name) b), r)) \<and>
    (\<exists>r. ReadDailyAll now today (dw_files (cw_dailyDays (cw_Close w))) date objHash name NewCounterRD =
      Some (Ok (daily_values (daily_log ops date) (makeCounterKey objHash name)), r))"
proof -
  let ?R = "realtime_log fmt clock ops date" and ?D = "daily_log ops date"
  obtain w where w: "cw_run fmt clock ops NewCounterWR = Some w" "cw_holds w (realtime_log fmt clock ops) (daily_log ops)"
    using cw_run_holds [OF assms] by blast
  let ?rf = "dw_files (cw_realtimeDays (cw_Close w)) date" and ?df = "dw_files (cw_dailyDays (cw_Close w)) date"
  have "rw.dw_holds (cw_realtimeDays (cw_Close w)) (realtime_log fmt clock ops)" "yw.dw_holds (cw_dailyDays (cw_Close w)) (daily_log ops)"
    using rw.dw_close_reader(1) [of "cw_realtimeDays w"] yw.dw_close_reader(1) [of "cw_dailyDays w"] w(2)
    by (simp_all add: cw_holds_def cw_Close_def rl_Close_files)
  note days = rw.dw_holdsD [OF this(1), of date] yw.dw_holdsD [OF this(2), of date]
  have none: "dw_days (cw_realtimeDays (cw_Close w)) date = None" "dw_days (cw_dailyDays (cw_Close w)) date = None"
    by (simp_all add: cw_Close_def dw_close_def dw_purge_def)
  have rt: "\<exists>d r. cr_getRealtimeData now today (dw_files (cw_realtimeDays (cw_Close w))) date NewCounterRD = (Some d, r) \<and> rl_holds d ?R \<and> rl_synced d"
    if "?rf = Some fs" for fs
    using days(1) none(1) that rw.open_synced [of fs] by (simp add: cr_getRealtimeData_def NewCounterRD_def Let_def)
  have dy: "\<exists>d r. cr_getDailyData now today (dw_files (cw_dailyDays (cw_Close w))) date NewCounterRD = (Some d, r) \<and> dy_holds d ?D"
    if "?df = Some fs" for fs
    using days(2) none(2) that by (simp add: cr_getDailyData_def NewCounterRD_def Let_def)
  have "\<exists>r. ReadRealtime now today (dw_files (cw_realtimeDays (cw_Close w))) date objHash sec NewCounterRD = Some (Ok (counters_of ?R objHash sec), r)"
  proof (cases ?rf)
    case None
    then show ?thesis using days(1) none(1) by (simp add: ReadRealtime_def cr_getRealtimeData_def NewCounterRD_def counters_of_def)
  next
    case (Some fs)
    from rt [OF this] show ?thesis using rl_at_holds [of _ ?R objHash sec] by (fastforce simp: ReadRealtime_def rl_Read_def)
  qed
  moreover have "\<exists>r. ReadRealtimeRange now today (dw_files (cw_realtimeDays (cw_Close w))) date objHash startSec endSec NewCounterRD =
      Some (Ok (), range_calls ?R objHash (seconds (sint startSec) (sint endSec)), r)" if last: "sint endSec < 2147483647"
  proof (cases ?rf)
    case None
    then show ?thesis using days(1) none(1)
      by (simp add: ReadRealtimeRange_def cr_getRealtimeData_def NewCounterRD_def range_calls_def counters_of_def)
  next
    case (Some fs)
    from rt [OF this] show ?thesis using rl_range_holds [OF _ _ last, of _ ?R objHash startSec "[]"]
      by (fastforce simp: ReadRealtimeRange_def rl_ReadRange_def)
  qed
  moreover have "\<exists>r. ReadDaily now today (dw_files (cw_dailyDays (cw_Close w))) date objHash name b NewCounterRD =
      Some (Ok (daily_value ?D (makeCounterKey objHash name) b), r)"
  proof (cases ?df)
    case None
    then show ?thesis using days(2) none(2)
      by (simp add: ReadDaily_def cr_getDailyData_def NewCounterRD_def daily_value_def last_value_def)
  next
    case (Some fs)
    from dy [OF this] show ?thesis using dy_Read_holds [of _ ?D objHash name b] by (fastforce simp: ReadDaily_def)
  qed
  moreover have "\<exists>r. ReadDailyAll now today (dw_files (cw_dailyDays (cw_Close w))) date objHash name NewCounterRD =
      Some (Ok (daily_values ?D (makeCounterKey objHash name)), r)"
  proof (cases ?df)
    case None
    then show ?thesis using days(2) none(2)
      by (simp add: ReadDailyAll_def cr_getDailyData_def NewCounterRD_def daily_values_def written_def)
  next
    case (Some fs)
    from dy [OF this] show ?thesis using dy_ReadAll_holds [of _ ?D objHash name] by (fastforce simp: ReadDailyAll_def)
  qed
  ultimately show ?thesis using w(1) by blast
qed

lemma closed_realtime:
  assumes "cw_holds w R D"
  shows "dw_files (cw_realtimeDays (cw_Close w)) date = None \<Longrightarrow> R date = []"
    and "dw_files (cw_realtimeDays (cw_Close w)) date = Some fs \<Longrightarrow>
      \<exists>d r. cr_getRealtimeData now today (dw_files (cw_realtimeDays (cw_Close w))) date NewCounterRD = (Some d, r) \<and> rl_holds d (R date) \<and> rl_synced d"
proof -
  have "rw.dw_holds (cw_realtimeDays (cw_Close w)) R"
    using rw.dw_close_reader(1) [of "cw_realtimeDays w"] assms by (simp add: cw_holds_def cw_Close_def rl_Close_files)
  note days = rw.dw_holdsD [OF this, of date]
  have none: "dw_days (cw_realtimeDays (cw_Close w)) date = None" by (simp add: cw_Close_def dw_close_def dw_purge_def)
  show "R date = []" if "dw_files (cw_realtimeDays (cw_Close w)) date = None" using days none that by simp
  show "\<exists>d r. cr_getRealtimeData now today (dw_files (cw_realtimeDays (cw_Close w))) date NewCounterRD = (Some d, r) \<and> rl_holds d (R date) \<and> rl_synced d"
    if "dw_files (cw_realtimeDays (cw_Close w)) date = Some fs"
    using days none that rw.open_synced [of fs] by (simp add: cr_getRealtimeData_def NewCounterRD_def Let_def)
qed

lemma range_after_close:
  assumes "cw_holds w R D" and "R date \<noteq> []"
  shows "ReadRealtimeRange now today (dw_files (cw_realtimeDays (cw_Close w))) date objHash startSec 0x7FFFFFFF NewCounterRD = None"
proof -
  obtain fs where "dw_files (cw_realtimeDays (cw_Close w)) date = Some fs" using closed_realtime(1) [OF assms(1)] assms(2) by fastforce
  from closed_realtime(2) [OF assms(1) this, of now today] show ?thesis
    using rl_range_forever [of _ "R date" objHash startSec "[]"] by (auto simp: ReadRealtimeRange_def rl_ReadRange_def)
qed

text \<open>
  A reader that has a day open while the writer works on it: once the index of the writer was flushed and
  the refresh interval is over, it reads what the writer wrote.
\<close>

lemma dy_Read_same:
  assumes "dy_lookup (makeCounterKey objHash name) c = Some (y, c')" and "dy_lookup (makeCounterKey objHash name) d = Some (y, d')"
    and "dy_data c' = dy_data d'"
  shows "map_option fst (dy_Read objHash name b c) = map_option fst (dy_Read objHash name b d)"
  using assms by (simp add: dy_Read_def cong: if_cong)

lemma daily_refreshed:
  assumes "dy_holds d es" and "written es key" and "disk today = Some (dy_shut d)"
    and "cr_dailyDays r today = Some d0" and "kf_appendBuf (ix_keyFile (dy_index d0)) = []"
    and "now - cr_dailyOpenAt r today > dailyRefreshInterval"
  shows "\<exists>r'. ReadDaily now today disk today objHash name b r = Some (Ok (daily_value es (makeCounterKey objHash name) b), r') \<and>
    cr_dailyOpenAt r' today = now"
proof -
  let ?k = "makeCounterKey objHash name" and ?h = "dy_hist (daily_table es)"
  have rep: "ix_ready (dy_index d) ?h" using assms(1) by (simp add: dy_holds_def dy_rep_def)
  have "daily_table es \<noteq> []" using map_of_daily_table [of es key] assms(2) by (auto simp: daily_values_def)
  then have "?h \<noteq> []" by (cases "daily_table es") simp_all
  from ix_Reload_see [OF rep this assms(5)] obtain m f n where
    reload: "ix_Reload (ix_see (ix_flushed (dy_index d)) (dy_index d0)) = (Ok (), \<lparr>ix_hashBlock = m, ix_keyFile = kf_end n f\<rparr>)"
      "ix_holds \<lparr>ix_hashBlock = m, ix_keyFile = f\<rparr> ?h" "kf_appendBuf f = []" by blast
  let ?d = "\<lparr>dy_index = \<lparr>ix_hashBlock = m, ix_keyFile = kf_end n f\<rparr>, dy_data = dy_data d\<rparr>"
  have shut: "df_index (dy_shut d) = ix_flushed (dy_index d)" "df_data (dy_shut d) = dy_data d"
    by (simp_all add: dy_shut_def dy_files_def dy_Close_def ix_flushed_def)
  have get: "cr_getDailyData now today disk today r = (Some ?d, r\<lparr>cr_dailyDays := (cr_dailyDays r)(today \<mapsto> ?d), cr_dailyOpenAt := (cr_dailyOpenAt r)(today := now)\<rparr>)"
    using assms(3,4,6) reload(1) by (simp add: cr_getDailyData_def dy_see_def dy_Reload_def shut Let_def)
  have look: "dy_lookup ?k ?d = Some (Ok (hist_Get ?k ?h), ?d)"
    using ix_Get_reader [OF reload(2,3), of ?k n] by (simp add: dy_lookup_def)
  obtain c where c: "dy_lookup ?k d = Some (Ok (hist_Get ?k ?h), c)" "dy_rep c (daily_table es)"
    using dy_lookup_rep assms(1) unfolding dy_holds_def by blast
  have "dy_data c = dy_data d" using c(2) assms(1) by (simp add: dy_holds_def dy_rep_def)
  then have "map_option fst (dy_Read objHash name b ?d) = map_option fst (dy_Read objHash name b d)"
    by (intro dy_Read_same [OF look c(1)]) simp
  then obtain d' where "dy_Read objHash name b ?d = Some (Ok (daily_value es ?k b), d')"
    using dy_Read_holds [OF assms(1), of objHash name b] by auto
  then show ?thesis by (simp add: ReadDaily_def get)
qed

text \<open>Two counters whose names have the same 32 bit hash share their record.\<close>

lemma hashStr_collision: "hashStr ''Aa'' = hashStr ''BB''"
  by (simp add: hashStr_def bytes_of_string_def byte_of_char_def decodeRune_def)

lemma counter_collision:
  "\<exists>d d'. dy_Write objHash ''Aa'' 0 v (NewDailyCounterData no_daily_files) = Some (Ok (), d) \<and>
    dy_Read objHash ''BB'' 0 d = Some (Ok (if IsNaN v then None else Some v), d')"
proof -
  let ?e = "\<lparr>de_Date = [], de_ObjHash = objHash, de_CounterName = ''Aa'', de_Bucket = 0, de_Value = v\<rparr>"
  have "dy_fits [de_stored ?e]" by (simp add: dy_fits_def de_stored_def)
  then obtain d where d: "dy_Write objHash ''Aa'' 0 v (NewDailyCounterData no_daily_files) = Some (Ok (), d)" "dy_holds d [de_stored ?e]"
    using dy_writeEntry_holds [OF dy_open_new, of ?e] by (auto simp: dy_writeEntry_def)
  have "makeCounterKey objHash ''BB'' = makeCounterKey objHash ''Aa''" by (simp add: makeCounterKey_def hashStr_collision)
  then have "daily_value [de_stored ?e] (makeCounterKey objHash ''BB'') 0 = (if IsNaN v then None else Some v)"
    by (simp add: daily_value_def last_value_def de_stored_def BucketsPerDay_def)
  then show ?thesis using d(1) dy_Read_holds [OF d(2), of objHash "''BB''" 0] by auto
qed

end
