(* ===== verification/TextTables.thy ===== *)
theory TextTables
  imports IndexReader "HOL-Library.Signed_Division"
begin

text \<open>
  internal/db/text: the tables of texts by division and hash. text\_table.go keeps the texts of a day in one
  key index, opened at the first use; text\_perm\_table.go and text\_perm\_data.go keep the permanent texts in
  an index and a file of length-prefixed texts per division; rehash.go rebuilds the index of a
  division with another number of buckets. \<open>mb\<close> is the size of the bucket table in megabytes that the
  configuration gives, of a division or of the tables of a day. The system calls succeed.
\<close>

subsection \<open>The texts of a day\<close>

type_synonym index_files = "bytes option \<times> bytes"

definition no_index_files :: index_files where "no_index_files = (None, [])"

text \<open>The files are those of the closed table.\<close>

record TextTable =
  tt_files :: index_files
  tt_index :: "IndexKeyFile option"

definition NewTextTable :: "index_files \<Rightarrow> TextTable" where
  "NewTextTable fs = \<lparr>tt_files = fs, tt_index = None\<rparr>"

definition tt_getIndex :: "int \<Rightarrow> TextTable \<Rightarrow> IndexKeyFile \<times> TextTable" where
  "tt_getIndex mb t = (case tt_index t of
     Some idx \<Rightarrow> (idx, t)
   | None \<Rightarrow> let idx = NewIndexKeyFile (fst (tt_files t)) (snd (tt_files t)) mb in (idx, t\<lparr>tt_index := Some idx\<rparr>))"

definition makeHashKey :: "string \<Rightarrow> i32 \<Rightarrow> bytes" where
  "makeHashKey dv hash = PutUint32 (HashString dv) @ PutUint32 hash"

definition tt_Set :: "int \<Rightarrow> string \<Rightarrow> i32 \<Rightarrow> string \<Rightarrow> TextTable \<Rightarrow> (unit res \<times> TextTable) option" where
  "tt_Set mb dv hash txt t =
     (let (idx, t) = tt_getIndex mb t; key = makeHashKey dv hash
      in map_option (\<lambda>(r, idx). (case r of
            Ok exists \<Rightarrow> (if exists then (Ok (), t\<lparr>tt_index := Some idx\<rparr>)
              else let (r, idx) = ix_Put (Some key) (Some (bytes_of_string txt)) idx in (r, t\<lparr>tt_index := Some idx\<rparr>))
          | Err e \<Rightarrow> (Err e, t\<lparr>tt_index := Some idx\<rparr>)
          | Panic p \<Rightarrow> (Panic p, t\<lparr>tt_index := Some idx\<rparr>)))
        (ix_HasKey (Some key) idx))"

text \<open>\<^const>\<open>None\<close> in the result: not found.\<close>

definition tt_Get :: "int \<Rightarrow> string \<Rightarrow> i32 \<Rightarrow> TextTable \<Rightarrow> (string option res \<times> TextTable) option" where
  "tt_Get mb dv hash t =
     (let (idx, t) = tt_getIndex mb t
      in map_option (\<lambda>(r, idx). (res_bind r (\<lambda>v. Ok (map_option string_of_bytes v)), t\<lparr>tt_index := Some idx\<rparr>))
        (ix_Get (Some (makeHashKey dv hash)) idx))"

definition tt_Close :: "TextTable \<Rightarrow> TextTable" where
  "tt_Close t = (case tt_index t of
     Some idx \<Rightarrow> t\<lparr>tt_files := ix_flushed idx, tt_index := None\<rparr>
   | None \<Rightarrow> t)"

subsection \<open>The permanent texts\<close>

definition pd_WriteText :: "bytes \<Rightarrow> bytes \<Rightarrow> nat \<times> bytes" where
  "pd_WriteText data disk = (length disk, file_write (file_write disk (length disk) (PutUint32 (word_of_nat (length data)))) (length disk + 4) data)"

definition pd_ReadText :: "i64 \<Rightarrow> bytes \<Rightarrow> bytes res" where
  "pd_ReadText pos disk =
     (if sint pos < 0 then Err (ErrText ''negative offset'')
      else res_bind (file_read disk (nat (sint pos)) 4) (\<lambda>(lenBuf, p).
        res_bind (file_read disk p (unat (Uint32 lenBuf))) (\<lambda>(buf, _). Ok buf)))"

text \<open>
  The table: the open index and data file of every division, and the files on the disk of the divisions
  that are not open.
\<close>

record TextPermTable =
  pt_indexes :: "string \<Rightarrow> IndexKeyFile option"
  pt_dataFiles :: "string \<Rightarrow> bytes option"
  pt_indexDisk :: "string \<Rightarrow> index_files"
  pt_dataDisk :: "string \<Rightarrow> bytes"

definition NewTextPermTable :: "(string \<Rightarrow> index_files) \<Rightarrow> (string \<Rightarrow> bytes) \<Rightarrow> TextPermTable" where
  "NewTextPermTable fs ds = \<lparr>pt_indexes = (\<lambda>_. None), pt_dataFiles = (\<lambda>_. None), pt_indexDisk = fs, pt_dataDisk = ds\<rparr>"

definition pt_getFiles :: "(string \<Rightarrow> int) \<Rightarrow> string \<Rightarrow> TextPermTable \<Rightarrow> (IndexKeyFile \<times> bytes) \<times> TextPermTable" where
  "pt_getFiles mb dv t = (case (pt_indexes t dv, pt_dataFiles t dv) of
     (Some idx, Some data) \<Rightarrow> ((idx, data), t)
   | (i, d) \<Rightarrow>
       let idx = (case i of Some idx \<Rightarrow> idx | None \<Rightarrow> NewIndexKeyFile (fst (pt_indexDisk t dv)) (snd (pt_indexDisk t dv)) (mb dv));
           data = (case d of Some data \<Rightarrow> data | None \<Rightarrow> pt_dataDisk t dv)
       in ((idx, data), t\<lparr>pt_indexes := (pt_indexes t)(dv \<mapsto> idx), pt_dataFiles := (pt_dataFiles t)(dv \<mapsto> data)\<rparr>))"

definition makePermHashKey :: "i32 \<Rightarrow> bytes" where
  "makePermHashKey hash = PutUint32 hash"

definition pt_set_files :: "string \<Rightarrow> IndexKeyFile \<Rightarrow> bytes \<Rightarrow> TextPermTable \<Rightarrow> TextPermTable" where
  "pt_set_files dv idx data t = t\<lparr>pt_indexes := (pt_indexes t)(dv \<mapsto> idx), pt_dataFiles := (pt_dataFiles t)(dv \<mapsto> data)\<rparr>"

definition pt_Set :: "(string \<Rightarrow> int) \<Rightarrow> string \<Rightarrow> i32 \<Rightarrow> string \<Rightarrow> TextPermTable \<Rightarrow> (unit res \<times> TextPermTable) option" where
  "pt_Set mb dv hash txt t =
     (let ((idx, data), t) = pt_getFiles mb dv t; key = makePermHashKey hash
      in map_option (\<lambda>(r, idx). (case r of
            Ok exists \<Rightarrow> (if exists then (Ok (), pt_set_files dv idx data t)
              else let (dataPos, data) = pd_WriteText (bytes_of_string txt) data;
                       (r, idx) = ix_Put (Some key) (Some (Bytes5 (word_of_nat dataPos))) idx
                   in (r, pt_set_files dv idx data t))
          | Err e \<Rightarrow> (Err e, pt_set_files dv idx data t)
          | Panic p \<Rightarrow> (Panic p, pt_set_files dv idx data t)))
        (ix_HasKey (Some key) idx))"

definition pt_Get :: "(string \<Rightarrow> int) \<Rightarrow> string \<Rightarrow> i32 \<Rightarrow> TextPermTable \<Rightarrow> (string option res \<times> TextPermTable) option" where
  "pt_Get mb dv hash t =
     (let ((idx, data), t) = pt_getFiles mb dv t
      in map_option (\<lambda>(r, idx). (res_bind r (\<lambda>posBytes. case posBytes of
            None \<Rightarrow> Ok None
          | Some p \<Rightarrow>
              if length p < 5 then Panic IndexOutOfRange
              else if sint (Int5 p) < 0 then Ok None
              else res_bind (pd_ReadText (Int5 p) data) (\<lambda>textBytes. Ok (Some (string_of_bytes textBytes)))),
          pt_set_files dv idx data t))
        (ix_Get (Some (makePermHashKey hash)) idx))"

definition pt_HasKey :: "(string \<Rightarrow> int) \<Rightarrow> string \<Rightarrow> i32 \<Rightarrow> TextPermTable \<Rightarrow> (bool res \<times> TextPermTable) option" where
  "pt_HasKey mb dv hash t =
     (let ((idx, data), t) = pt_getFiles mb dv t
      in map_option (\<lambda>(r, idx). (r, pt_set_files dv idx data t)) (ix_HasKey (Some (makePermHashKey hash)) idx))"

definition pt_Close :: "TextPermTable \<Rightarrow> TextPermTable" where
  "pt_Close t = NewTextPermTable
     (\<lambda>dv. case pt_indexes t dv of Some idx \<Rightarrow> ix_flushed idx | None \<Rightarrow> pt_indexDisk t dv)
     (\<lambda>dv. case pt_dataFiles t dv of Some data \<Rightarrow> data | None \<Rightarrow> pt_dataDisk t dv)"

subsection \<open>Rebuilding an index\<close>

text \<open>
  The directory: the index files by division; those of the name with \<open>\_rehash\_tmp\<close> are the temporary ones. The
  backup files of the replaced index, the log and the times are left out. \<open>Read\<close> calls the handler with
  the records of the old index; what the handler does to the new one is a loop over these calls.
\<close>

type_synonym text_dir = "string \<Rightarrow> index_files"

record RehashResult =
  rr_Div :: string
  rr_Records :: int
  rr_OldBucket :: int
  rr_NewBucket :: int
  rr_HashMB :: int

fun rh_insert :: "(bytes \<times> bytes) list \<Rightarrow> nat \<Rightarrow> IndexKeyFile \<Rightarrow> unit res \<times> nat \<times> IndexKeyFile" where
  "rh_insert [] n ix = (Ok (), n, ix)"
| "rh_insert ((key, dataPos) # calls) n ix = (case ix_Put (Some key) (Some dataPos) ix of
     (Ok _, ix) \<Rightarrow> rh_insert calls (n + 1) ix
   | (Err e, ix) \<Rightarrow> (Err e, n, ix)
   | (Panic p, ix) \<Rightarrow> (Panic p, n, ix))"

definition rh_tmp :: "string \<Rightarrow> string" where "rh_tmp dv = dv @ ''_rehash_tmp''"

definition rh_fill :: "string \<Rightarrow> int \<Rightarrow> int \<Rightarrow> IndexKeyFile \<Rightarrow> text_dir \<Rightarrow> (RehashResult res \<times> text_dir) option" where
  "rh_fill dv newHashSizeMB oldBuckets oldIdx d =
     (let newIdx = NewIndexKeyFile (fst (d (rh_tmp dv))) (snd (d (rh_tmp dv))) newHashSizeMB
      in map_option (\<lambda>(err, calls, oldIdx).
           let (insertErr, inserted, newIdx) = rh_insert calls 0 newIdx;
               d = d(dv := ix_flushed oldIdx)
           in (case (err, insertErr) of
                (Panic p, _) \<Rightarrow> (Panic p, d(rh_tmp dv := ix_flushed newIdx))
              | (_, Panic p) \<Rightarrow> (Panic p, d(rh_tmp dv := ix_flushed newIdx))
              | (Err e, _) \<Rightarrow> (Err e, d(rh_tmp dv := no_index_files))
              | (_, Err e) \<Rightarrow> (Err e, d(rh_tmp dv := no_index_files))
              | _ \<Rightarrow> (Ok \<lparr>rr_Div = dv, rr_Records = int inserted, rr_OldBucket = oldBuckets,
                    rr_NewBucket = newHashSizeMB * 1024 * 1024 sdiv 5, rr_HashMB = newHashSizeMB\<rparr>,
                  d(dv := ix_flushed newIdx, rh_tmp dv := no_index_files))))
         (ix_Read oldIdx))"

definition rh_rebuild :: "string \<Rightarrow> int \<Rightarrow> int \<Rightarrow> text_dir \<Rightarrow> (RehashResult res \<times> text_dir) option" where
  "rh_rebuild dv newHashSizeMB oldBuckets d = (case ix_Read (NewIndexKeyFile (fst (d dv)) (snd (d dv)) 1) of
     None \<Rightarrow> None
   | Some (Ok _, calls, oldIdx) \<Rightarrow>
       if calls = []
       then Some (Ok \<lparr>rr_Div = dv, rr_Records = 0, rr_OldBucket = oldBuckets,
           rr_NewBucket = newHashSizeMB * 1024 * 1024 sdiv 5, rr_HashMB = newHashSizeMB\<rparr>, d(dv := ix_flushed oldIdx))
       else rh_fill dv newHashSizeMB oldBuckets oldIdx d
   | Some (Err e, _, oldIdx) \<Rightarrow> Some (Err e, d(dv := ix_flushed oldIdx))
   | Some (Panic p, _, oldIdx) \<Rightarrow> Some (Panic p, d))"

definition rehashDiv :: "string \<Rightarrow> int \<Rightarrow> text_dir \<Rightarrow> (RehashResult res \<times> text_dir) option" where
  "rehashDiv dv newHashSizeMB d = (case fst (d dv) of
     None \<Rightarrow> Some (Err (ErrText ''stat old hfile''), d)
   | Some hfile \<Rightarrow>
       let oldBufSize = int (length hfile) - 1024;
           oldBuckets = oldBufSize sdiv 5;
           targetBufSize = newHashSizeMB * 1024 * 1024
       in if oldBufSize = targetBufSize
          then Some (Ok \<lparr>rr_Div = dv, rr_Records = -1, rr_OldBucket = oldBuckets, rr_NewBucket = oldBuckets, rr_HashMB = newHashSizeMB\<rparr>, d)
          else rh_rebuild dv newHashSizeMB oldBuckets (d(rh_tmp dv := no_index_files)))"

definition resolveHashSizeMB :: "(string \<Rightarrow> int) option \<Rightarrow> string \<Rightarrow> int \<Rightarrow> int" where
  "resolveHashSizeMB cfg dv fallbackMB = (case cfg of
     Some mb \<Rightarrow> (if mb dv > 1 then mb dv else fallbackMB)
   | None \<Rightarrow> fallbackMB)"

text \<open>The divisions of the \<open>.hfile\<close> names of a directory listing.\<close>

definition rh_divs :: "string list \<Rightarrow> string list" where
  "rh_divs names = concat (map (\<lambda>nm.
     if prefix ''text_'' nm \<and> suffix ''.hfile'' nm
     then (let t = drop 5 nm; dv = (if suffix ''.hfile'' t then take (length t - 6) t else t) in if dv \<noteq> [] then [dv] else [])
     else []) names)"

fun rh_all :: "(string \<Rightarrow> int) \<Rightarrow> string list \<Rightarrow> RehashResult list \<Rightarrow> text_dir \<Rightarrow> (unit res \<times> RehashResult list \<times> text_dir) option" where
  "rh_all hashMB [] results d = Some (Ok (), results, d)"
| "rh_all hashMB (dv # divs) results d = (case rehashDiv dv (hashMB dv) d of
     None \<Rightarrow> None
   | Some (Ok result, d) \<Rightarrow> rh_all hashMB divs (results @ [result]) d
   | Some (Err e, d) \<Rightarrow> Some (Err e, results, d)
   | Some (Panic p, d) \<Rightarrow> Some (Panic p, results, d))"

text \<open>The names are those of the listing, \<^const>\<open>None\<close> if there is no directory.\<close>

definition RehashAll :: "(string \<Rightarrow> int) option \<Rightarrow> int \<Rightarrow> string list option \<Rightarrow> text_dir \<Rightarrow> (unit res \<times> RehashResult list \<times> text_dir) option" where
  "RehashAll cfg fallbackMB names d = (case names of
     None \<Rightarrow> Some (Err (ErrText ''text directory not found''), [], d)
   | Some names \<Rightarrow>
       let divs = rh_divs names
       in if divs = [] then Some (Err (ErrText ''no text index files found''), [], d)
          else rh_all (\<lambda>dv. resolveHashSizeMB cfg dv fallbackMB) divs [] d)"

subsection \<open>What the tables hold\<close>

text \<open>
  The texts of a table, the newest first: a text is kept only if its key has none. \<open>text\_put\<close> is the
  specification of \<open>Set\<close>; \<^const>\<open>map_of\<close> that of \<open>Get\<close>.
\<close>

definition text_put :: "'k \<Rightarrow> string \<Rightarrow> ('k \<times> string) list \<Rightarrow> ('k \<times> string) list" where
  "text_put k txt es = (if k \<in> fst ` set es then es else (k, txt) # es)"

lemma map_of_text_put: "map_of (text_put k txt es) = (if map_of es k = None then (map_of es)(k \<mapsto> txt) else map_of es)"
  by (auto simp: text_put_def map_of_eq_None_iff)

definition opens_to :: "index_files \<Rightarrow> history \<Rightarrow> bool" where
  "opens_to fs h \<longleftrightarrow> (\<forall>mb. ix_ready (NewIndexKeyFile (fst fs) (snd fs) mb) h)"

lemma opens_to_new: "opens_to no_index_files []"
  using ix_new_ready by (simp add: opens_to_def no_index_files_def)

lemma opens_to_file: "opens_to fs h \<Longrightarrow> h \<noteq> [] \<Longrightarrow> fst fs \<noteq> None"
  by (cases "fst fs") (auto simp: opens_to_def ix_ready_def NewIndexKeyFile_def mh_open_def Let_def)

lemma opens_to_flushed: "ix_ready ix h \<Longrightarrow> opens_to (ix_flushed ix) h"
  using ix_reopen_ready [of ix h] by (simp add: opens_to_def ix_flushed_def ix_reopen_def Let_def)

lemma ix_HasKey_ready:
  assumes "ix_ready ix h"
  shows "\<exists>ix'. ix_HasKey (Some k) ix = Some (Ok (hist_Get k h \<noteq> None), ix') \<and> ix_ready ix' h"
  using ix_HasKey_holds [of ix h k] ix_ready_same_table [OF assms] ix_table_kept(2) assms by (fastforce simp: ix_ready_def)

definition tt_hist :: "(bytes \<times> string) list \<Rightarrow> history" where
  "tt_hist es = map (\<lambda>(k, txt). (False, k, bytes_of_string txt)) es"

definition tt_fits :: "(bytes \<times> string) list \<Rightarrow> bool" where
  "tt_fits es \<longleftrightarrow> hist_size (tt_hist es) \<le> 2 ^ 39 \<and> (\<forall>(k, txt) \<in> set es. length txt < 2 ^ 31)"

definition tt_rep :: "TextTable \<Rightarrow> (bytes \<times> string) list \<Rightarrow> bool" where
  "tt_rep t es \<longleftrightarrow> (case tt_index t of Some idx \<Rightarrow> ix_ready idx (tt_hist es) | None \<Rightarrow> opens_to (tt_files t) (tt_hist es))"

lemma tt_hist_Get: "hist_Get k (tt_hist es) = map_option bytes_of_string (map_of es k)"
  by (induction es) (auto simp: hist_Get_def tt_hist_def)

lemma tt_new_rep: "tt_rep (NewTextTable no_index_files) []"
  using opens_to_new by (simp add: tt_rep_def NewTextTable_def tt_hist_def)

lemma tt_getIndex_rep:
  assumes "tt_rep t es"
  obtains idx t' where "tt_getIndex mb t = (idx, t')" "ix_ready idx (tt_hist es)" "tt_index t' = Some idx"
  using assms that by (cases "tt_index t") (auto simp: tt_rep_def tt_getIndex_def opens_to_def Let_def)

lemma tt_Set_rep:
  assumes "tt_rep t es" and "tt_fits (text_put (makeHashKey dv hash) txt es)"
  shows "\<exists>t'. tt_Set mb dv hash txt t = Some (Ok (), t') \<and> tt_rep t' (text_put (makeHashKey dv hash) txt es)"
proof -
  let ?k = "makeHashKey dv hash"
  obtain idx t1 where t1: "tt_getIndex mb t = (idx, t1)" "ix_ready idx (tt_hist es)" "tt_index t1 = Some idx"
    using tt_getIndex_rep [OF assms(1)] .
  obtain idx' where idx': "ix_HasKey (Some ?k) idx = Some (Ok (hist_Get ?k (tt_hist es) \<noteq> None), idx')" "ix_ready idx' (tt_hist es)"
    using ix_HasKey_ready [OF t1(2)] by blast
  show ?thesis
  proof (cases "map_of es ?k")
    case None
    then have put: "text_put ?k txt es = (?k, txt) # es" by (auto simp: text_put_def map_of_eq_None_iff)
    have "ok_record ?k (bytes_of_string txt)"
      using assms(2) unfolding put by (simp add: tt_fits_def ok_record_def makeHashKey_def blob_head_def ok_blob_def)
    moreover have "tt_hist ((?k, txt) # es) = (False, ?k, bytes_of_string txt) # tt_hist es" by (simp add: tt_hist_def)
    ultimately obtain ix where "ix_Put (Some ?k) (Some (bytes_of_string txt)) idx' = (Ok (), ix)" "ix_ready ix (tt_hist ((?k, txt) # es))"
      using ix_Put_ready [OF idx'(2), of ?k "bytes_of_string txt"] assms(2) unfolding put by (auto simp: tt_fits_def)
    then show ?thesis using t1(1) idx'(1) None put by (simp add: tt_Set_def tt_hist_Get tt_rep_def)
  next
    case (Some txt')
    then have "text_put ?k txt es = es" by (auto simp: text_put_def dest!: map_of_SomeD intro: rev_image_eqI)
    then show ?thesis using t1(1) idx' Some by (simp add: tt_Set_def tt_hist_Get tt_rep_def)
  qed
qed

lemma tt_Get_rep:
  assumes "tt_rep t es"
  shows "\<exists>t'. tt_Get mb dv hash t = Some (Ok (map_of es (makeHashKey dv hash)), t') \<and> tt_rep t' es"
proof -
  let ?k = "makeHashKey dv hash"
  obtain idx t1 where t1: "tt_getIndex mb t = (idx, t1)" "ix_ready idx (tt_hist es)" "tt_index t1 = Some idx"
    using tt_getIndex_rep [OF assms(1)] .
  obtain idx' where "ix_Get (Some ?k) idx = Some (Ok (hist_Get ?k (tt_hist es)), idx')" "ix_ready idx' (tt_hist es)"
    using ix_Get_ready [OF t1(2)] by blast
  then show ?thesis using t1(1) by (simp add: tt_Get_def tt_hist_Get option.map_comp comp_def option.map_ident tt_rep_def)
qed

lemma tt_Close_rep: "tt_rep t es \<Longrightarrow> tt_rep (tt_Close t) es"
  using opens_to_flushed by (auto simp: tt_Close_def tt_rep_def split: option.split)

text \<open>The permanent texts of a division.\<close>

type_synonym perm_text = "i32 \<times> string"

definition tp_frame :: "perm_text \<Rightarrow> bytes" where
  "tp_frame e = PutUint32 (word_of_nat (length (snd e))) @ bytes_of_string (snd e)"

definition tp_key :: "perm_text \<Rightarrow> bytes" where "tp_key e = makePermHashKey (fst e)"

abbreviation tp_hist :: "perm_text list \<Rightarrow> history" where "tp_hist \<equiv> place_hist tp_frame tp_key"

definition tp_fits :: "perm_text list \<Rightarrow> bool" where
  "tp_fits es \<longleftrightarrow> length es \<le> 2 ^ 34 \<and> length (log_image tp_frame es) < 2 ^ 39 \<and> (\<forall>e \<in> set es. length (snd e) < 2 ^ 32)"

definition pt_div :: "IndexKeyFile option \<Rightarrow> bytes option \<Rightarrow> index_files \<Rightarrow> bytes \<Rightarrow> perm_text list \<Rightarrow> bool" where
  "pt_div i d fs ds es \<longleftrightarrow>
     (case i of Some idx \<Rightarrow> ix_ready idx (tp_hist es) | None \<Rightarrow> opens_to fs (tp_hist es)) \<and>
     (case d of Some data \<Rightarrow> data | None \<Rightarrow> ds) = log_image tp_frame es \<and> tp_fits es"

definition pt_rep :: "TextPermTable \<Rightarrow> (string \<Rightarrow> perm_text list) \<Rightarrow> bool" where
  "pt_rep t L \<longleftrightarrow> (\<forall>dv. pt_div (pt_indexes t dv) (pt_dataFiles t dv) (pt_indexDisk t dv) (pt_dataDisk t dv) (L dv))"

lemma pt_new_rep: "pt_rep (NewTextPermTable (\<lambda>_. no_index_files) (\<lambda>_. [])) (\<lambda>_. [])"
  using opens_to_new by (simp add: pt_rep_def pt_div_def NewTextPermTable_def tp_fits_def)

lemma pt_repD: "pt_rep t L \<Longrightarrow> pt_div (pt_indexes t dv) (pt_dataFiles t dv) (pt_indexDisk t dv) (pt_dataDisk t dv) (L dv)"
  by (simp add: pt_rep_def)

lemma pt_fits: "pt_rep t L \<Longrightarrow> tp_fits (L dv)"
  using pt_repD [of t L dv] by (simp add: pt_div_def)

lemma pt_set_files_rep:
  assumes "pt_rep t L" and "ix_ready idx (tp_hist es)" and "data = log_image tp_frame es" and "tp_fits es"
  shows "pt_rep (pt_set_files dv idx data t) (L(dv := es))"
proof -
  have "pt_div (Some idx) (Some data) fs ds es" for fs ds using assms(2-4) by (simp add: pt_div_def)
  then show ?thesis using pt_repD [OF assms(1)] by (simp add: pt_rep_def pt_set_files_def)
qed

lemma pt_same_files_rep:
  "pt_rep t L \<Longrightarrow> ix_ready idx (tp_hist (L dv)) \<Longrightarrow> pt_rep (pt_set_files dv idx (log_image tp_frame (L dv)) t) L"
  using pt_set_files_rep [of t L idx "L dv" _ dv] pt_fits [of t L dv] by simp

lemma pt_getFiles_rep:
  assumes "pt_rep t L"
  obtains idx t' where "pt_getFiles mb dv t = ((idx, log_image tp_frame (L dv)), t')" "ix_ready idx (tp_hist (L dv))" "pt_rep t' L"
proof -
  note dv = pt_repD [OF assms, of dv, unfolded pt_div_def]
  define idx where "idx = (case pt_indexes t dv of Some idx \<Rightarrow> idx | None \<Rightarrow> NewIndexKeyFile (fst (pt_indexDisk t dv)) (snd (pt_indexDisk t dv)) (mb dv))"
  define data where "data = (case pt_dataFiles t dv of Some data \<Rightarrow> data | None \<Rightarrow> pt_dataDisk t dv)"
  have idx: "ix_ready idx (tp_hist (L dv))" and data: "data = log_image tp_frame (L dv)"
    using dv by (auto simp: idx_def data_def opens_to_def split: option.splits)
  have "pt_getFiles mb dv t = ((idx, data), pt_set_files dv idx data t)"
    by (cases "pt_indexes t dv"; cases "pt_dataFiles t dv") (auto simp: pt_getFiles_def Let_def idx_def data_def pt_set_files_def fun_upd_idem)
  then show ?thesis using that pt_same_files_rep [OF assms idx] idx data by simp
qed

lemma makePermHashKey_inj: "makePermHashKey a = makePermHashKey b \<longleftrightarrow> a = b"
  by (metis makePermHashKey_def Uint32_Put)

lemma tp_find: "find (\<lambda>e. tp_key e = makePermHashKey hash) es = map_option (\<lambda>txt. (hash, txt)) (map_of es hash)"
  by (induction es) (auto simp: tp_key_def makePermHashKey_inj)

lemma tp_hist_Get:
  "case hist_Get (makePermHashKey hash) (tp_hist es) of
     None \<Rightarrow> map_of es hash = None
   | Some p \<Rightarrow> \<exists>txt. map_of es hash = Some txt \<and> ((hash, txt), p) \<in> set (log_places tp_frame es)"
  using place_hist_Get [where k = "makePermHashKey hash" and frame = tp_frame and key = tp_key and es = es]
  by (auto simp: tp_find split: option.splits)

lemma pd_WriteText_image:
  "pd_WriteText (bytes_of_string txt) (log_image tp_frame es) = (length (log_image tp_frame es), log_image tp_frame ((hash, txt) # es))"
proof -
  have "file_write disk (length disk) bs = disk @ bs" for disk bs by (rule file_write_end)
  moreover have "file_write (disk @ PutUint32 n) (length disk + 4) bs = disk @ PutUint32 n @ bs" for disk n bs
    using file_write_end [of "disk @ PutUint32 n" bs] by simp
  ultimately show ?thesis by (simp add: pd_WriteText_def tp_frame_def)
qed

lemma pd_ReadText_place:
  assumes "tp_fits es" and "(e, p) \<in> set (log_places tp_frame es)"
  shows "pd_ReadText (Int5 p) (log_image tp_frame es) = Ok (bytes_of_string (snd e))" and "0 \<le> sint (Int5 p)"
proof -
  define b where "b = bytes_of_string (snd e)"
  have frame: "tp_frame e = PutUint32 (word_of_nat (length b)) @ b" by (simp add: tp_frame_def b_def)
  have "e \<in> set es" using log_places_mem [OF assms(2)] by simp
  then have "length b < 2 ^ 32" using assms(1) by (simp add: tp_fits_def b_def)
  then have n: "unat (word_of_nat (length b) :: i32) = length b" by (simp add: unat_of_nat)
  obtain pre post where im: "log_image tp_frame es = pre @ tp_frame e @ post" "sint (Int5 p) = int (length pre)"
    using log_place [OF assms(2)] assms(1) by (auto simp: tp_fits_def)
  have "file_read (pre @ tp_frame e @ post) (length pre) 4 = Ok (PutUint32 (word_of_nat (length b)), length pre + 4)"
    using file_read_part [of "length pre" pre 4 "PutUint32 (word_of_nat (length b))"] by (simp add: frame)
  moreover have "file_read (pre @ tp_frame e @ post) (length pre + 4) (length b) = Ok (b, length pre + 4 + length b)"
    using file_read_part [of "length pre + 4" "pre @ PutUint32 (word_of_nat (length b))" "length b" b post]
    by (simp add: frame)
  ultimately show "pd_ReadText (Int5 p) (log_image tp_frame es) = Ok (bytes_of_string (snd e))"
    using n im by (simp add: pd_ReadText_def b_def [symmetric])
  show "0 \<le> sint (Int5 p)" using im(2) by simp
qed

lemma pt_Set_rep:
  assumes "pt_rep t L" and "tp_fits (text_put hash txt (L dv))"
  shows "\<exists>t'. pt_Set mb dv hash txt t = Some (Ok (), t') \<and> pt_rep t' (L(dv := text_put hash txt (L dv)))"
proof -
  let ?k = "makePermHashKey hash" and ?es = "L dv"
  obtain idx t1 where t1: "pt_getFiles mb dv t = ((idx, log_image tp_frame ?es), t1)" "ix_ready idx (tp_hist ?es)" "pt_rep t1 L"
    using pt_getFiles_rep [OF assms(1)] .
  obtain idx' where idx': "ix_HasKey (Some ?k) idx = Some (Ok (hist_Get ?k (tp_hist ?es) \<noteq> None), idx')" "ix_ready idx' (tp_hist ?es)"
    using ix_HasKey_ready [OF t1(2)] by blast
  show ?thesis
  proof (cases "map_of ?es hash")
    case None
    let ?e = "(hash, txt)"
    have put: "text_put hash txt ?es = ?e # ?es" using None by (auto simp: text_put_def map_of_eq_None_iff)
    have "hist_Get ?k (tp_hist ?es) = None" using tp_hist_Get [where hash = hash and es = ?es] None by (auto split: option.splits)
    note has = idx'(1) [unfolded this]
    have "hist_size (tp_hist (?e # ?es)) = 2 + (14 + 4) * length (?e # ?es)"
      by (rule place_hist_size) (simp add: tp_key_def makePermHashKey_def)
    moreover have "length (?e # ?es) \<le> 2 ^ 34" using assms(2) unfolding put by (simp add: tp_fits_def)
    ultimately have "hist_size (tp_hist (?e # ?es)) \<le> 2 ^ 39" by simp
    moreover have "length (tp_key ?e) \<le> 119" by (simp add: tp_key_def makePermHashKey_def)
    moreover have "tp_key ?e = ?k" by (simp add: tp_key_def)
    ultimately obtain ix where ix: "ix_Put (Some ?k) (Some (Bytes5 (word_of_nat (length (log_image tp_frame ?es))))) idx' = (Ok (), ix)"
      "ix_ready ix (tp_hist (?e # ?es))" using ix_Put_entry [OF idx'(2), of ?e] by metis
    have "pt_Set mb dv hash txt t = Some (Ok (), pt_set_files dv ix (log_image tp_frame (?e # ?es)) t1)"
      using t1(1) has ix(1) by (simp add: pt_Set_def pd_WriteText_image [where hash = hash] del: log_image.simps)
    then show ?thesis using pt_set_files_rep [OF t1(3) ix(2) refl] assms(2) put by simp
  next
    case (Some txt')
    then have put: "text_put hash txt ?es = ?es" by (auto simp: text_put_def dest!: map_of_SomeD intro: rev_image_eqI)
    have "hist_Get ?k (tp_hist ?es) \<noteq> None" using tp_hist_Get [where hash = hash and es = ?es] Some by (auto split: option.splits)
    then have "pt_Set mb dv hash txt t = Some (Ok (), pt_set_files dv idx' (log_image tp_frame ?es) t1)"
      using t1(1) idx'(1) by (simp add: pt_Set_def)
    moreover have "L(dv := text_put hash txt ?es) = L" using put by simp
    ultimately show ?thesis using pt_same_files_rep [OF t1(3) idx'(2)] by simp
  qed
qed

lemma pt_Get_rep:
  assumes "pt_rep t L"
  shows "\<exists>t'. pt_Get mb dv hash t = Some (Ok (map_of (L dv) hash), t') \<and> pt_rep t' L"
proof -
  let ?k = "makePermHashKey hash" and ?es = "L dv"
  obtain idx t1 where t1: "pt_getFiles mb dv t = ((idx, log_image tp_frame ?es), t1)" "ix_ready idx (tp_hist ?es)" "pt_rep t1 L"
    using pt_getFiles_rep [OF assms(1)] .
  obtain idx' where idx': "ix_Get (Some ?k) idx = Some (Ok (hist_Get ?k (tp_hist ?es)), idx')" "ix_ready idx' (tp_hist ?es)"
    using ix_Get_ready [OF t1(2)] by blast
  note fits = pt_fits [OF assms, of dv]
  have rep: "pt_rep (pt_set_files dv idx' (log_image tp_frame ?es) t1) L"
    by (rule pt_same_files_rep [OF t1(3) idx'(2)])
  show ?thesis
  proof (cases "hist_Get ?k (tp_hist ?es)")
    case None
    then show ?thesis using tp_hist_Get [where hash = hash and es = ?es] t1(1) idx'(1) rep by (simp add: pt_Get_def)
  next
    case (Some p)
    then obtain s where found: "map_of ?es hash = Some s" "((hash, s), p) \<in> set (log_places tp_frame ?es)"
      using tp_hist_Get [where hash = hash and es = ?es] by auto
    show ?thesis using Some found(1) t1(1) idx'(1) rep pd_ReadText_place [OF fits found(2)] log_place_length [OF found(2)]
      by (simp add: pt_Get_def)
  qed
qed

lemma pt_HasKey_rep:
  assumes "pt_rep t L"
  shows "\<exists>t'. pt_HasKey mb dv hash t = Some (Ok (map_of (L dv) hash \<noteq> None), t') \<and> pt_rep t' L"
proof -
  let ?k = "makePermHashKey hash" and ?es = "L dv"
  obtain idx t1 where t1: "pt_getFiles mb dv t = ((idx, log_image tp_frame ?es), t1)" "ix_ready idx (tp_hist ?es)" "pt_rep t1 L"
    using pt_getFiles_rep [OF assms(1)] .
  obtain idx' where idx': "ix_HasKey (Some ?k) idx = Some (Ok (hist_Get ?k (tp_hist ?es) \<noteq> None), idx')" "ix_ready idx' (tp_hist ?es)"
    using ix_HasKey_ready [OF t1(2)] by blast
  note rep = pt_same_files_rep [OF t1(3) idx'(2)]
  have "hist_Get ?k (tp_hist ?es) = None \<longleftrightarrow> map_of ?es hash = None" using tp_hist_Get [where hash = hash and es = ?es] by (auto split: option.splits)
  then show ?thesis using t1(1) idx'(1) rep by (simp add: pt_HasKey_def)
qed

lemma pt_Close_rep:
  assumes "pt_rep t L"
  shows "pt_rep (pt_Close t) L"
  unfolding pt_rep_def
proof
  fix dv
  show "pt_div (pt_indexes (pt_Close t) dv) (pt_dataFiles (pt_Close t) dv) (pt_indexDisk (pt_Close t) dv) (pt_dataDisk (pt_Close t) dv) (L dv)"
    using pt_repD [OF assms, of dv] opens_to_flushed by (auto simp: pt_div_def pt_Close_def NewTextPermTable_def split: option.splits)
qed

subsection \<open>Rebuilding keeps the texts\<close>

definition live :: "history \<Rightarrow> history" where
  "live h = filter (\<lambda>(deleted, k, v). \<not> deleted) h"

lemma live_lookups: "hist_Get k (live h) = hist_Get k h" "hist_GetAll k (live h) = hist_GetAll k h" "hist_Read (live h) = hist_Read h"
proof -
  show "hist_Get k (live h) = hist_Get k h" by (induction h) (auto simp: hist_Get_def live_def)
  show "hist_GetAll k (live h) = hist_GetAll k h" by (induction h) (auto simp: hist_GetAll_def live_def)
  show "hist_Read (live h) = hist_Read h" by (simp add: hist_Read_def live_def case_prod_unfold rev_filter)
qed

lemma live_live [simp]: "live (live h) = live h"
  by (simp add: live_def)

lemma hist_Read_live: "rev (map (\<lambda>(k, v). (False, k, v)) (hist_Read h)) = live h"
  by (induction h) (auto simp: hist_Read_def live_def)

lemma hist_size_live: "hist_size (live h) \<le> hist_size h"
  by (induction h) (auto simp: live_def hist_size_def)

lemma ix_holds_ok:
  assumes "ix_holds ix h"
  shows "hist_size h \<le> 2 ^ 39" and "\<And>x k v. (x, k, v) \<in> set h \<Longrightarrow> ok_record k v"
proof -
  obtain es where es: "ik.irep (ix_hashBlock ix) (ix_keyFile ix) es" "h = map hist_of es"
    using assms by (auto simp: ix_holds_def)
  have "records_size kf_size FirstPos es' = hist_size (map hist_of es')" for es'
    by (induction es') (simp_all add: hist_size_def kf_size_def hist_of_def)
  then show "hist_size h \<le> 2 ^ 39" using es by (simp add: ik.irep_def)
  show "ok_record k v" if "(x, k, v) \<in> set h" for x k v
    using that es by (auto simp: hist_of_def ik.irep_def kf_rep_def)
qed

lemma ix_Read_ready:
  assumes "ix_ready ix h"
  shows "\<exists>ix'. ix_Read ix = Some (Ok (), hist_Read h, ix') \<and> ix_ready ix' h"
  using ix_Read_holds [of ix h] ix_ready_same_table [OF assms] ix_table_kept(5) assms by (fastforce simp: ix_ready_def)

lemma rh_insert_ready:
  assumes "ix_ready ix h" and "\<And>k v. (k, v) \<in> set calls \<Longrightarrow> ok_record k v"
    and "hist_size (rev (map (\<lambda>(k, v). (False, k, v)) calls) @ h) \<le> 2 ^ 39"
  shows "\<exists>ix'. rh_insert calls n ix = (Ok (), n + length calls, ix') \<and>
    ix_ready ix' (rev (map (\<lambda>(k, v). (False, k, v)) calls) @ h)"
  using assms
proof (induction calls arbitrary: n ix h)
  case (Cons c calls)
  obtain k v where c: "c = (k, v)" by (cases c)
  have "hist_size ((False, k, v) # h) \<le> hist_size (rev (map (\<lambda>(k, v). (False, k, v)) (c # calls)) @ h)"
    by (simp add: hist_size_def c)
  then have "hist_size ((False, k, v) # h) \<le> 2 ^ 39" using Cons.prems(3) by linarith
  moreover have "ok_record k v" by (rule Cons.prems(2)) (simp add: c)
  ultimately obtain ix1 where ix1: "ix_Put (Some k) (Some v) ix = (Ok (), ix1)" "ix_ready ix1 ((False, k, v) # h)"
    using ix_Put_ready [OF Cons.prems(1)] by blast
  from Cons.IH [OF ix1(2), of "n + 1"] Cons.prems(2,3) ix1(1) show ?case by (simp add: c)
qed simp

text \<open>
  A rebuilt index opens, with every number of buckets, to a history with the same undeleted records in the same
  order; the other divisions are as before. The temporary files are gone.
\<close>

lemma rehashDiv_opens:
  assumes "opens_to (d dv) h" and hfile: "fst (d dv) = Some hfile"
  shows "\<exists>r d' h'. rehashDiv dv mb d = Some (Ok r, d') \<and> opens_to (d' dv) h' \<and> (h' = h \<or> h' = live h) \<and>
    d' (rh_tmp dv) = (if int (length hfile) - 1024 = mb * 1024 * 1024 then d (rh_tmp dv) else no_index_files) \<and>
    (\<forall>other. other \<noteq> dv \<longrightarrow> other \<noteq> rh_tmp dv \<longrightarrow> d' other = d other)"
proof -
  let ?old = "int (length hfile) - 1024"
  show ?thesis
  proof (cases "?old = mb * 1024 * 1024")
    case True
    then show ?thesis using hfile assms(1) by (auto simp: rehashDiv_def Let_def)
  next
    case False
    have tmp: "rh_tmp dv \<noteq> dv" by (simp add: rh_tmp_def)
    let ?d = "d(rh_tmp dv := no_index_files)"
    have "ix_ready (NewIndexKeyFile (fst (?d dv)) (snd (?d dv)) 1) h" using assms(1) tmp by (simp add: opens_to_def)
    then obtain oldIdx where old: "ix_Read (NewIndexKeyFile (fst (?d dv)) (snd (?d dv)) 1) = Some (Ok (), hist_Read h, oldIdx)" "ix_ready oldIdx h"
      using ix_Read_ready by blast
    have run: "rehashDiv dv mb d = rh_rebuild dv mb (?old sdiv 5) ?d"
      using False hfile by (simp add: rehashDiv_def Let_def)
    show ?thesis
    proof (cases "hist_Read h = []")
      case True
      have "opens_to (ix_flushed oldIdx) h" by (rule opens_to_flushed [OF old(2)])
      then show ?thesis using True False old(1) tmp unfolding run rh_rebuild_def by (auto simp: Let_def)
    next
      case some: False
      let ?new = "NewIndexKeyFile None [] mb"
      obtain oldIdx2 where old2: "ix_Read oldIdx = Some (Ok (), hist_Read h, oldIdx2)" using ix_Read_ready [OF old(2)] by blast
      have ok: "ok_record k v" if "(k, v) \<in> set (hist_Read h)" for k v
        using that old(2) ix_holds_ok(2) by (auto simp: ix_ready_def hist_Read_def)
      have "hist_size h \<le> 2 ^ 39" using old(2) ix_holds_ok(1) unfolding ix_ready_def by blast
      then have "hist_size (live h) \<le> 2 ^ 39" using hist_size_live [of h] by linarith
      then have "hist_size (rev (map (\<lambda>(k, v). (False, k, v)) (hist_Read h)) @ []) \<le> 2 ^ 39"
        by (simp only: hist_Read_live append_Nil2)
      from rh_insert_ready [OF ix_new_ready [of mb] ok this, of 0, unfolded hist_Read_live append_Nil2] obtain newIdx where
        "rh_insert (hist_Read h) 0 ?new = (Ok (), length (hist_Read h), newIdx)" "ix_ready newIdx (live h)"
        by auto
      moreover from this have "opens_to (ix_flushed newIdx) (live h)" by (intro opens_to_flushed)
      ultimately show ?thesis using some False old(1) old2 tmp unfolding run rh_rebuild_def rh_fill_def
        by (auto simp: Let_def no_index_files_def)
    qed
  qed
qed

text \<open>A table whose texts were written, closed and rebuilt.\<close>

lemma live_place_hist: "live (place_hist frame key es) = place_hist frame key es"
  by (induction es) (simp_all add: live_def)

lemma rehash_rep:
  assumes "pt_rep t L" and "fst (pt_indexDisk (pt_Close t) dv) \<noteq> None" and "L (rh_tmp dv) = []"
  shows "\<exists>r d'. rehashDiv dv mb (pt_indexDisk (pt_Close t)) = Some (Ok r, d') \<and>
    pt_rep (NewTextPermTable d' (pt_dataDisk (pt_Close t))) L"
proof -
  let ?t = "pt_Close t"
  have t: "opens_to (pt_indexDisk ?t dv) (tp_hist (L dv)) \<and> pt_dataDisk ?t dv = log_image tp_frame (L dv) \<and> tp_fits (L dv)" for dv
    using pt_repD [OF pt_Close_rep [OF assms(1)], of dv] by (simp add: pt_div_def pt_Close_def NewTextPermTable_def)
  obtain r d' h' where d': "rehashDiv dv mb (pt_indexDisk ?t) = Some (Ok r, d')" "opens_to (d' dv) h'"
    "h' = tp_hist (L dv) \<or> h' = live (tp_hist (L dv))"
    "d' (rh_tmp dv) = pt_indexDisk ?t (rh_tmp dv) \<or> d' (rh_tmp dv) = no_index_files"
    "\<And>other. other \<noteq> dv \<Longrightarrow> other \<noteq> rh_tmp dv \<Longrightarrow> d' other = pt_indexDisk ?t other"
    using rehashDiv_opens [of "pt_indexDisk ?t" dv "tp_hist (L dv)" _ mb] t assms(2) by (metis not_None_eq)
  have "h' = tp_hist (L dv)" using d'(3) by (auto simp: live_place_hist)
  then have "opens_to (d' other) (tp_hist (L other))" for other
    using d'(2,4,5) t [of other] assms(3) opens_to_new by (cases "other = dv"; cases "other = rh_tmp dv") auto
  then have "pt_rep (NewTextPermTable d' (pt_dataDisk ?t)) L"
    using t by (simp add: pt_rep_def pt_div_def) (simp add: NewTextPermTable_def)
  then show ?thesis using d'(1) by blast
qed

text \<open>A temporary file left by an interrupted run counts as a division and makes the next run fail after the first division.\<close>

lemma rehash_leftover:
  assumes "opens_to (d ''x'') h" and "fst (d ''x'') = Some hfile" and "fst (d (rh_tmp ''x'')) \<noteq> None"
    and "int (length hfile) - 1024 \<noteq> mb * 1024 * 1024"
  shows "\<exists>r d'. RehashAll None mb (Some [''text_x.hfile'', ''text_x_rehash_tmp.hfile'']) d = Some (Err (ErrText ''stat old hfile''), [r], d')"
proof -
  have divs: "rh_divs [''text_x.hfile'', ''text_x_rehash_tmp.hfile''] = [''x'', rh_tmp ''x'']"
    by (simp add: rh_divs_def rh_tmp_def suffix_def)
  obtain r d' where d': "rehashDiv ''x'' mb d = Some (Ok r, d')" "d' (rh_tmp ''x'') = no_index_files"
    using rehashDiv_opens [where d = d and dv = "''x''" and mb = mb, OF assms(1,2)] assms(4) by auto
  then have "rehashDiv (rh_tmp ''x'') mb d' = Some (Err (ErrText ''stat old hfile''), d')"
    by (simp add: rehashDiv_def no_index_files_def)
  with d' show ?thesis by (simp add: RehashAll_def divs resolveHashSizeMB_def)
qed

end
