(* ===== verification/TextDb.thy ===== *)
theory TextDb
  imports TextTables DayStore
begin

text \<open>
  internal/db/text: the writer of the texts (text\_wr.go), which keeps a set of the keys it wrote lately, and
  the reader (text\_rd.go), which caches what it found. Permanent texts are in one table, those
  of a day in a table per day. \<open>mb\<close> and \<open>mbDaily\<close> are the sizes of the bucket tables that the
  configuration gives. The reader has the files open beside the writer: at a call it sees the key and data
  files as they are on the disk, but the bucket tables it loaded when it opened them.
\<close>

subsection \<open>The writer\<close>

definition maxDupCheckSize :: nat where "maxDupCheckSize = 100000"
definition textQueueSize :: nat where "textQueueSize = 10000"

record TextData =
  td_Div :: string
  td_Hash :: i32
  td_Text :: string

type_synonym perm_files = "(string \<Rightarrow> index_files) \<times> (string \<Rightarrow> bytes)"

definition open_perm :: "perm_files \<Rightarrow> TextPermTable" where
  "open_perm fs = NewTextPermTable (fst fs) (snd fs)"

definition shut_perm :: "TextPermTable \<Rightarrow> perm_files" where
  "shut_perm t = (pt_indexDisk (pt_Close t), pt_dataDisk (pt_Close t))"

text \<open>
  The files are those of the tables that are not open: the permanent table, opened when it is first used, and the
  tables of the days. \<open>tw_queue\<close> is the channel; the count of the wait group is the length of the queue.
\<close>

record TextWR =
  tw_table :: "TextPermTable option"
  tw_dailyTables :: "string \<Rightarrow> TextTable option"
  tw_dupCheck :: "(string \<times> i32) set"
  tw_queue :: "TextData list"
  tw_closed :: bool
  tw_permFiles :: perm_files
  tw_dailyFiles :: "string \<Rightarrow> index_files"

definition NewTextWR :: "perm_files \<Rightarrow> (string \<Rightarrow> index_files) \<Rightarrow> TextWR" where
  "NewTextWR perm daily = \<lparr>tw_table = None, tw_dailyTables = (\<lambda>_. None), tw_dupCheck = {}, tw_queue = [], tw_closed = False,
     tw_permFiles = perm, tw_dailyFiles = daily\<rparr>"

text \<open>\<open>Add\<close>; \<^const>\<open>None\<close> is the panic of a send on the closed channel.\<close>

definition tw_Add :: "string \<Rightarrow> i32 \<Rightarrow> string \<Rightarrow> TextWR \<Rightarrow> TextWR option" where
  "tw_Add dv hash txt w = (if tw_closed w then None
     else Some (w\<lparr>tw_queue := enqueue textQueueSize \<lparr>td_Div = dv, td_Hash = hash, td_Text = txt\<rparr> (tw_queue w)\<rparr>))"

definition tw_getTable :: "TextWR \<Rightarrow> TextPermTable \<times> TextWR" where
  "tw_getTable w = (case tw_table w of
     Some t \<Rightarrow> (t, w)
   | None \<Rightarrow> let t = open_perm (tw_permFiles w) in (t, w\<lparr>tw_table := Some t\<rparr>))"

text \<open>
  The eviction runs over the keys in an order of its own, \<open>order\<close>, and deletes the first tenth of the capacity.
\<close>

definition tw_evict :: "(string \<times> i32) list \<Rightarrow> (string \<times> i32) set \<Rightarrow> (string \<times> i32) set" where
  "tw_evict order dup = (if card dup \<ge> maxDupCheckSize then dup - set (take (maxDupCheckSize div 10) order) else dup)"

definition tw_process :: "(string \<Rightarrow> int) \<Rightarrow> (string \<times> i32) list \<Rightarrow> TextData \<Rightarrow> TextWR \<Rightarrow> TextWR option" where
  "tw_process mb order data w =
     (let key = (td_Div data, td_Hash data)
      in if key \<in> tw_dupCheck w then Some w
         else let (t, w) = tw_getTable w
           in map_option (\<lambda>(r, t). let w = w\<lparr>tw_table := Some t\<rparr> in
                (case r of Ok _ \<Rightarrow> w\<lparr>tw_dupCheck := insert key (tw_evict order (tw_dupCheck w))\<rparr> | _ \<Rightarrow> w))
              (pt_Set mb (td_Div data) (td_Hash data) (td_Text data) t))"

text \<open>One round of the goroutine of \<open>Start\<close>.\<close>

definition tw_step :: "(string \<Rightarrow> int) \<Rightarrow> (string \<times> i32) list \<Rightarrow> TextWR \<Rightarrow> TextWR option" where
  "tw_step mb order w = (case tw_queue w of
     [] \<Rightarrow> Some w
   | data # q \<Rightarrow> tw_process mb order data (w\<lparr>tw_queue := q\<rparr>))"

definition found_text :: "string option res \<Rightarrow> string res" where
  "found_text r = res_bind r (\<lambda>v. Ok (case v of Some txt \<Rightarrow> txt | None \<Rightarrow> []))"

definition tw_GetString :: "(string \<Rightarrow> int) \<Rightarrow> string \<Rightarrow> i32 \<Rightarrow> TextWR \<Rightarrow> (string res \<times> TextWR) option" where
  "tw_GetString mb dv hash w =
     (let (t, w) = tw_getTable w in map_option (\<lambda>(r, t). (found_text r, w\<lparr>tw_table := Some t\<rparr>)) (pt_Get mb dv hash t))"

definition tw_getDailyTable :: "string \<Rightarrow> TextWR \<Rightarrow> TextTable \<times> TextWR" where
  "tw_getDailyTable date w = (case tw_dailyTables w date of
     Some t \<Rightarrow> (t, w)
   | None \<Rightarrow> let t = NewTextTable (tw_dailyFiles w date) in (t, w\<lparr>tw_dailyTables := (tw_dailyTables w)(date \<mapsto> t)\<rparr>))"

definition tw_AddDaily :: "int \<Rightarrow> string \<Rightarrow> string \<Rightarrow> i32 \<Rightarrow> string \<Rightarrow> TextWR \<Rightarrow> TextWR option" where
  "tw_AddDaily mbDaily date dv hash txt w =
     (let (t, w) = tw_getDailyTable date w
      in map_option (\<lambda>(_, t). w\<lparr>tw_dailyTables := (tw_dailyTables w)(date \<mapsto> t)\<rparr>) (tt_Set mbDaily dv hash txt t))"

definition tw_GetDailyString :: "int \<Rightarrow> string \<Rightarrow> string \<Rightarrow> i32 \<Rightarrow> TextWR \<Rightarrow> (string res \<times> TextWR) option" where
  "tw_GetDailyString mbDaily date dv hash w =
     (let (t, w) = tw_getDailyTable date w
      in map_option (\<lambda>(r, t). (found_text r, w\<lparr>tw_dailyTables := (tw_dailyTables w)(date \<mapsto> t)\<rparr>)) (tt_Get mbDaily dv hash t))"

text \<open>What waits in the queue when the writer is closed is still taken by the goroutine until it sees the closed channel.\<close>

definition tw_Close :: "TextWR \<Rightarrow> TextWR" where
  "tw_Close w = (if tw_closed w then w
     else w\<lparr>tw_closed := True,
         tw_permFiles := (case tw_table w of Some t \<Rightarrow> shut_perm t | None \<Rightarrow> tw_permFiles w), tw_table := None,
         tw_dailyFiles := (\<lambda>date. case tw_dailyTables w date of Some t \<Rightarrow> tt_files (tt_Close t) | None \<Rightarrow> tw_dailyFiles w date),
         tw_dailyTables := (\<lambda>_. None), tw_dupCheck := {}\<rparr>)"

subsection \<open>The reader\<close>

record TextRD =
  tr_table :: "TextPermTable option"
  tr_dailyTables :: "string \<Rightarrow> TextTable option"
  tr_cache :: "string \<times> i32 \<Rightarrow> string option"

definition NewTextRD :: TextRD where
  "NewTextRD = \<lparr>tr_table = None, tr_dailyTables = (\<lambda>_. None), tr_cache = (\<lambda>_. None)\<rparr>"

text \<open>The tables with the files of the disk: an open index keeps its bucket table.\<close>

definition pt_see :: "perm_files \<Rightarrow> TextPermTable \<Rightarrow> TextPermTable" where
  "pt_see disk t = \<lparr>pt_indexes = (\<lambda>dv. map_option (ix_see (fst disk dv)) (pt_indexes t dv)),
     pt_dataFiles = (\<lambda>dv. map_option (\<lambda>_. snd disk dv) (pt_dataFiles t dv)),
     pt_indexDisk = fst disk, pt_dataDisk = snd disk\<rparr>"

definition tt_see :: "index_files \<Rightarrow> TextTable \<Rightarrow> TextTable" where
  "tt_see fs t = t\<lparr>tt_files := fs, tt_index := map_option (ix_see fs) (tt_index t)\<rparr>"

definition tr_getTable :: "perm_files \<Rightarrow> TextRD \<Rightarrow> TextPermTable \<times> TextRD" where
  "tr_getTable disk r = (let t = (case tr_table r of Some t \<Rightarrow> pt_see disk t | None \<Rightarrow> open_perm disk)
     in (t, r\<lparr>tr_table := Some t\<rparr>))"

definition tr_GetString :: "(string \<Rightarrow> int) \<Rightarrow> perm_files \<Rightarrow> string \<Rightarrow> i32 \<Rightarrow> TextRD \<Rightarrow> (string res \<times> TextRD) option" where
  "tr_GetString mb disk dv hash r = (case tr_cache r (dv, hash) of
     Some txt \<Rightarrow> Some (Ok txt, r)
   | None \<Rightarrow>
       let (t, r) = tr_getTable disk r
       in map_option (\<lambda>(y, t). let r = r\<lparr>tr_table := Some t\<rparr> in
            (case y of
               Ok (Some txt) \<Rightarrow> (Ok txt, r\<lparr>tr_cache := (tr_cache r)((dv, hash) \<mapsto> txt)\<rparr>)
             | _ \<Rightarrow> (found_text y, r)))
          (pt_Get mb dv hash t))"

definition tr_GetDailyString :: "int \<Rightarrow> (string \<Rightarrow> index_files) \<Rightarrow> string \<Rightarrow> string \<Rightarrow> i32 \<Rightarrow> TextRD \<Rightarrow> (string res \<times> TextRD) option" where
  "tr_GetDailyString mbDaily disk date dv hash r =
     (let t = (case tr_dailyTables r date of Some t \<Rightarrow> tt_see (disk date) t | None \<Rightarrow> NewTextTable (disk date))
      in map_option (\<lambda>(y, t). (found_text y, r\<lparr>tr_dailyTables := (tr_dailyTables r)(date \<mapsto> t)\<rparr>)) (tt_Get mbDaily dv hash t))"

definition tr_Close :: "TextRD \<Rightarrow> TextRD" where
  "tr_Close r = NewTextRD"

subsection \<open>What the writer holds\<close>

text \<open>
  The specification: the texts of every division and of every day, each under the hash or key that was first given a text.
\<close>

record text_store =
  ts_perm :: "string \<Rightarrow> perm_text list"
  ts_daily :: "string \<Rightarrow> (bytes \<times> string) list"

definition tw_perm :: "TextWR \<Rightarrow> TextPermTable" where
  "tw_perm w = (case tw_table w of Some t \<Rightarrow> t | None \<Rightarrow> open_perm (tw_permFiles w))"

definition tw_day :: "TextWR \<Rightarrow> string \<Rightarrow> TextTable" where
  "tw_day w date = (case tw_dailyTables w date of Some t \<Rightarrow> t | None \<Rightarrow> NewTextTable (tw_dailyFiles w date))"

definition tw_rep :: "TextWR \<Rightarrow> text_store \<Rightarrow> bool" where
  "tw_rep w s \<longleftrightarrow> pt_rep (tw_perm w) (ts_perm s) \<and> (\<forall>date. tt_rep (tw_day w date) (ts_daily s date)) \<and>
     (\<forall>(dv, hash) \<in> tw_dupCheck w. hash \<in> fst ` set (ts_perm s dv))"

lemma tw_perm_simps [simp]:
  "tw_perm (w\<lparr>tw_table := Some t\<rparr>) = t" "tw_perm (w\<lparr>tw_dailyTables := ds\<rparr>) = tw_perm w"
  "tw_perm (w\<lparr>tw_dupCheck := dup\<rparr>) = tw_perm w" "tw_perm (w\<lparr>tw_queue := q\<rparr>) = tw_perm w"
  "tw_day (w\<lparr>tw_table := x\<rparr>) = tw_day w" "tw_day (w\<lparr>tw_dupCheck := dup\<rparr>) = tw_day w" "tw_day (w\<lparr>tw_queue := q\<rparr>) = tw_day w"
  "tw_day (w\<lparr>tw_dailyTables := (tw_dailyTables w)(date \<mapsto> t')\<rparr>) = (tw_day w)(date := t')"
  by (simp_all add: tw_perm_def tw_day_def fun_eq_iff split: option.split)

lemma tw_getTable_perm: "tw_getTable w = (tw_perm w, w\<lparr>tw_table := Some (tw_perm w)\<rparr>)"
  by (cases "tw_table w") (simp_all add: tw_getTable_def tw_perm_def Let_def)

lemma tw_getDailyTable_day: "tw_getDailyTable date w = (tw_day w date, w\<lparr>tw_dailyTables := (tw_dailyTables w)(date \<mapsto> tw_day w date)\<rparr>)"
  by (cases "tw_dailyTables w date") (auto simp: tw_getDailyTable_def tw_day_def Let_def fun_upd_idem)

definition ts_put :: "string \<Rightarrow> i32 \<Rightarrow> string \<Rightarrow> text_store \<Rightarrow> text_store" where
  "ts_put dv hash txt s = s\<lparr>ts_perm := (ts_perm s)(dv := text_put hash txt (ts_perm s dv))\<rparr>"

definition ts_putDaily :: "string \<Rightarrow> string \<Rightarrow> i32 \<Rightarrow> string \<Rightarrow> text_store \<Rightarrow> text_store" where
  "ts_putDaily date dv hash txt s = s\<lparr>ts_daily := (ts_daily s)(date := text_put (makeHashKey dv hash) txt (ts_daily s date))\<rparr>"

definition ts_fits :: "text_store \<Rightarrow> bool" where
  "ts_fits s \<longleftrightarrow> (\<forall>dv. tp_fits (ts_perm s dv)) \<and> (\<forall>date. tt_fits (ts_daily s date))"

lemma tw_dupI:
  assumes "tw_rep w s" and "(dv, hash) \<in> tw_dupCheck w"
  shows "ts_put dv hash txt s = s"
proof -
  have "hash \<in> fst ` set (ts_perm s dv)" using assms unfolding tw_rep_def by fast
  then show ?thesis by (simp add: ts_put_def text_put_def)
qed

lemma tw_process_rep:
  assumes "tw_rep w s" and "ts_fits (ts_put (td_Div data) (td_Hash data) (td_Text data) s)"
  shows "\<exists>w'. tw_process mb order data w = Some w' \<and> tw_rep w' (ts_put (td_Div data) (td_Hash data) (td_Text data) s) \<and>
    tw_queue w' = tw_queue w \<and> tw_closed w' = tw_closed w"
proof (cases "(td_Div data, td_Hash data) \<in> tw_dupCheck w")
  case True
  then show ?thesis using assms(1) tw_dupI [OF assms(1) True] by (simp add: tw_process_def)
next
  case False
  let ?dv = "td_Div data" and ?h = "td_Hash data"
  let ?s = "ts_put ?dv ?h (td_Text data) s" and ?dup = "insert (?dv, ?h) (tw_evict order (tw_dupCheck w))"
  have w: "pt_rep (tw_perm w) (ts_perm s)" "\<And>date. tt_rep (tw_day w date) (ts_daily s date)"
    "\<And>dv hash. (dv, hash) \<in> tw_dupCheck w \<Longrightarrow> hash \<in> fst ` set (ts_perm s dv)"
    using assms(1) unfolding tw_rep_def by fast+
  have "tp_fits (ts_perm ?s ?dv)" using assms(2) unfolding ts_fits_def by blast
  then have "tp_fits (text_put ?h (td_Text data) (ts_perm s ?dv))" by (simp add: ts_put_def)
  from pt_Set_rep [OF w(1) this, of mb] obtain t' where
    t': "pt_Set mb ?dv ?h (td_Text data) (tw_perm w) = Some (Ok (), t')" "pt_rep t' (ts_perm ?s)"
    by (auto simp: ts_put_def)
  have "hash \<in> fst ` set (ts_perm ?s dv)" if "(dv, hash) \<in> ?dup" for dv hash
    using that w(3) [of dv hash] by (auto simp: tw_evict_def ts_put_def text_put_def split: if_splits)
  moreover have "ts_daily ?s = ts_daily s" by (simp add: ts_put_def)
  ultimately have "tw_rep (w\<lparr>tw_table := Some t', tw_dupCheck := ?dup\<rparr>) ?s"
    using w(2) t'(2) by (auto simp: tw_rep_def)
  moreover have "tw_process mb order data w = Some (w\<lparr>tw_table := Some t', tw_dupCheck := ?dup\<rparr>)"
    using False t'(1) by (simp add: tw_process_def tw_getTable_perm)
  ultimately show ?thesis by simp
qed

definition text_or_empty :: "string option \<Rightarrow> string" where
  "text_or_empty v = (case v of Some txt \<Rightarrow> txt | None \<Rightarrow> [])"

lemma found_text_Ok [simp]: "found_text (Ok v) = Ok (text_or_empty v)"
  by (simp add: found_text_def text_or_empty_def)

lemma tw_GetString_rep:
  assumes "tw_rep w s"
  shows "\<exists>w'. tw_GetString mb dv hash w = Some (Ok (text_or_empty (map_of (ts_perm s dv) hash)), w') \<and> tw_rep w' s \<and>
    tw_queue w' = tw_queue w \<and> tw_closed w' = tw_closed w"
proof -
  have "pt_rep (tw_perm w) (ts_perm s)" using assms(1) by (simp add: tw_rep_def)
  then obtain t' where "pt_Get mb dv hash (tw_perm w) = Some (Ok (map_of (ts_perm s dv) hash), t')" "pt_rep t' (ts_perm s)"
    using pt_Get_rep by blast
  then show ?thesis using assms by (simp add: tw_GetString_def tw_getTable_perm tw_rep_def)
qed

lemma tw_set_day:
  assumes "tw_rep w s" and "tt_rep t' es"
  shows "tw_rep (w\<lparr>tw_dailyTables := (tw_dailyTables w)(date \<mapsto> t')\<rparr>) (s\<lparr>ts_daily := (ts_daily s)(date := es)\<rparr>)"
  using assms by (simp add: tw_rep_def)

lemma tw_AddDaily_rep:
  assumes "tw_rep w s" and "ts_fits (ts_putDaily date dv hash txt s)"
  shows "\<exists>w'. tw_AddDaily mbDaily date dv hash txt w = Some w' \<and> tw_rep w' (ts_putDaily date dv hash txt s) \<and>
    tw_queue w' = tw_queue w \<and> tw_closed w' = tw_closed w"
proof -
  have t: "tt_rep (tw_day w date) (ts_daily s date)" using assms(1) by (simp add: tw_rep_def)
  have "tt_fits (ts_daily (ts_putDaily date dv hash txt s) date)" using assms(2) unfolding ts_fits_def by blast
  then have "tt_fits (text_put (makeHashKey dv hash) txt (ts_daily s date))" by (simp add: ts_putDaily_def)
  from tt_Set_rep [OF t this, of mbDaily] obtain t' where
    "tt_Set mbDaily dv hash txt (tw_day w date) = Some (Ok (), t')" "tt_rep t' (text_put (makeHashKey dv hash) txt (ts_daily s date))" by blast
  then show ?thesis using tw_set_day [OF assms(1), of t' _ date] by (simp add: tw_AddDaily_def tw_getDailyTable_day ts_putDaily_def)
qed

lemma tw_GetDailyString_rep:
  assumes "tw_rep w s"
  shows "\<exists>w'. tw_GetDailyString mbDaily date dv hash w = Some (Ok (text_or_empty (map_of (ts_daily s date) (makeHashKey dv hash))), w') \<and> tw_rep w' s \<and>
    tw_queue w' = tw_queue w \<and> tw_closed w' = tw_closed w"
proof -
  have t: "tt_rep (tw_day w date) (ts_daily s date)" using assms(1) by (simp add: tw_rep_def)
  obtain t' where "tt_Get mbDaily dv hash (tw_day w date) = Some (Ok (map_of (ts_daily s date) (makeHashKey dv hash)), t')" "tt_rep t' (ts_daily s date)"
    using tt_Get_rep [OF t] by blast
  then show ?thesis using tw_set_day [OF assms(1), of t' "ts_daily s date" date] by (simp add: tw_GetDailyString_def tw_getDailyTable_day)
qed

lemma shut_perm_open: "open_perm (shut_perm t) = pt_Close t"
  by (simp add: open_perm_def shut_perm_def pt_Close_def NewTextPermTable_def)

lemma tw_Close_rep:
  assumes "tw_rep w s"
  shows "tw_rep (tw_Close w) s"
proof (cases "tw_closed w")
  case False
  have w: "pt_rep (tw_perm w) (ts_perm s)" "\<And>date. tt_rep (tw_day w date) (ts_daily s date)" using assms by (simp_all add: tw_rep_def)
  have "tt_rep (NewTextTable (tt_files (tt_Close t))) es" if "tt_rep t es" for t es
    using tt_Close_rep [OF that] by (auto simp: tt_rep_def NewTextTable_def tt_Close_def split: option.splits)
  moreover have "tw_day (tw_Close w) date = NewTextTable (tt_files (tt_Close (tw_day w date)))" for date
    using False by (simp add: tw_day_def tw_Close_def NewTextTable_def tt_Close_def split: option.split)
  ultimately have "tt_rep (tw_day (tw_Close w) date) (ts_daily s date)" for date using w(2) by simp
  moreover have "pt_rep (tw_perm (tw_Close w)) (ts_perm s)"
    using w(1) pt_Close_rep [OF w(1)] False shut_perm_open by (simp add: tw_perm_def tw_Close_def split: option.splits)
  ultimately show ?thesis using False by (simp add: tw_rep_def) (simp add: tw_Close_def)
qed (use assms in \<open>simp add: tw_Close_def\<close>)

text \<open>
  Sequences of operations on a new writer. The log of a sequence: what waits in the queue, the texts that were
  taken from it, and the texts of days, in their order.
\<close>

datatype text_op =
    TxAdd string i32 string
  | TxStep "(string \<times> i32) list"
  | TxAddDaily string string i32 string
  | TxGet string i32
  | TxGetDaily string string i32

fun tx_do :: "(string \<Rightarrow> int) \<Rightarrow> int \<Rightarrow> text_op \<Rightarrow> TextWR \<Rightarrow> TextWR option" where
  "tx_do mb mbDaily (TxAdd dv hash s) w = tw_Add dv hash s w"
| "tx_do mb mbDaily (TxStep order) w = tw_step mb order w"
| "tx_do mb mbDaily (TxAddDaily date dv hash s) w = tw_AddDaily mbDaily date dv hash s w"
| "tx_do mb mbDaily (TxGet dv hash) w = map_option snd (tw_GetString mb dv hash w)"
| "tx_do mb mbDaily (TxGetDaily date dv hash) w = map_option snd (tw_GetDailyString mbDaily date dv hash w)"

fun tx_run :: "(string \<Rightarrow> int) \<Rightarrow> int \<Rightarrow> text_op list \<Rightarrow> TextWR \<Rightarrow> TextWR option" where
  "tx_run mb mbDaily [] w = Some w"
| "tx_run mb mbDaily (op # ops) w = Option.bind (tx_do mb mbDaily op w) (tx_run mb mbDaily ops)"

type_synonym text_log = "TextData list \<times> TextData list \<times> (string \<times> TextData) list"

fun tx_log :: "text_op \<Rightarrow> text_log \<Rightarrow> text_log" where
  "tx_log (TxAdd dv hash s) (q, taken, days) = (enqueue textQueueSize \<lparr>td_Div = dv, td_Hash = hash, td_Text = s\<rparr> q, taken, days)"
| "tx_log (TxStep order) (q, taken, days) = (case q of [] \<Rightarrow> (q, taken, days) | d # q' \<Rightarrow> (q', taken @ [d], days))"
| "tx_log (TxAddDaily date dv hash s) (q, taken, days) = (q, taken, days @ [(date, \<lparr>td_Div = dv, td_Hash = hash, td_Text = s\<rparr>)])"
| "tx_log _ l = l"

definition text_log_of :: "text_op list \<Rightarrow> text_log" where
  "text_log_of ops = fold tx_log ops ([], [], [])"

definition log_store :: "text_log \<Rightarrow> text_store" where
  "log_store l = fold (\<lambda>(date, d). ts_putDaily date (td_Div d) (td_Hash d) (td_Text d)) (snd (snd l))
     (fold (\<lambda>d. ts_put (td_Div d) (td_Hash d) (td_Text d)) (fst (snd l)) \<lparr>ts_perm = (\<lambda>_. []), ts_daily = (\<lambda>_. [])\<rparr>)"

text \<open>The first text that was given for a division and hash.\<close>

definition first_text :: "TextData list \<Rightarrow> string \<Rightarrow> i32 \<Rightarrow> string" where
  "first_text taken dv hash = text_or_empty (map_option td_Text (find (\<lambda>d. td_Div d = dv \<and> td_Hash d = hash) taken))"

definition first_daily :: "(string \<times> TextData) list \<Rightarrow> string \<Rightarrow> string \<Rightarrow> i32 \<Rightarrow> string" where
  "first_daily days date dv hash = text_or_empty (map_option (\<lambda>(_, d). td_Text d)
     (find (\<lambda>(date', d). date' = date \<and> makeHashKey (td_Div d) (td_Hash d) = makeHashKey dv hash) days))"

lemma find_snoc: "find P (xs @ [x]) = (case find P xs of Some y \<Rightarrow> Some y | None \<Rightarrow> if P x then Some x else None)"
  by (induction xs) auto

lemma ts_swap: "ts_put dv hash s (ts_putDaily date dv' hash' s' st) = ts_putDaily date dv' hash' s' (ts_put dv hash s st)"
  by (simp add: ts_put_def ts_putDaily_def)

lemma fold_swap: "fold (\<lambda>(date, d). ts_putDaily date (td_Div d) (td_Hash d) (td_Text d)) days (ts_put dv hash s st) =
   ts_put dv hash s (fold (\<lambda>(date, d). ts_putDaily date (td_Div d) (td_Hash d) (td_Text d)) days st)"
  by (induction days arbitrary: st) (auto simp: ts_swap [symmetric])

lemma log_store_perm:
  "map_of (ts_perm (log_store (q, taken, days)) dv) hash = map_option td_Text (find (\<lambda>d. td_Div d = dv \<and> td_Hash d = hash) taken)"
proof -
  have days: "ts_perm (fold (\<lambda>(date, d). ts_putDaily date (td_Div d) (td_Hash d) (td_Text d)) days st) = ts_perm st" for st
    by (induction days arbitrary: st) (auto simp: ts_putDaily_def)
  show ?thesis unfolding log_store_def fst_conv snd_conv days
    by (induction taken rule: rev_induct) (auto simp: ts_put_def map_of_text_put find_snoc split: option.split)
qed

lemma log_store_daily:
  "map_of (ts_daily (log_store (q, taken, days)) date) (makeHashKey dv hash) =
    map_option (\<lambda>(_, d). td_Text d) (find (\<lambda>(date', d). date' = date \<and> makeHashKey (td_Div d) (td_Hash d) = makeHashKey dv hash) days)"
proof -
  have "ts_daily (fold (\<lambda>d. ts_put (td_Div d) (td_Hash d) (td_Text d)) taken st) = ts_daily st" for st
    by (induction taken arbitrary: st) (auto simp: ts_put_def)
  then show ?thesis unfolding log_store_def fst_conv snd_conv
    by (induction days rule: rev_induct) (auto simp: ts_putDaily_def map_of_text_put find_snoc split: option.splits if_splits)
qed

lemma tx_log_grows:
  "\<exists>new newdays. fst (snd (tx_log op l)) = fst (snd l) @ new \<and> snd (snd (tx_log op l)) = snd (snd l) @ newdays"
  by (cases "(op, l)" rule: tx_log.cases) (auto split: list.split)

lemma tp_fits_put: "tp_fits (text_put k s es) \<Longrightarrow> tp_fits es"
  by (auto simp: tp_fits_def text_put_def split: if_splits)

lemma tt_fits_put: "tt_fits (text_put k s es) \<Longrightarrow> tt_fits es"
  by (auto simp: tt_fits_def text_put_def tt_hist_def hist_size_def split: if_splits)

lemma ts_fits_put:
  "ts_fits (ts_put dv hash s st) \<Longrightarrow> ts_fits st" "ts_fits (ts_putDaily date dv hash s st) \<Longrightarrow> ts_fits st"
  by (auto simp: ts_fits_def ts_put_def ts_putDaily_def dest: tp_fits_put tt_fits_put split: if_splits)

lemma log_store_step:
  "log_store (tx_log op l) = log_store l \<or>
   (\<exists>order d q. op = TxStep order \<and> fst l = d # q \<and> log_store (tx_log op l) = ts_put (td_Div d) (td_Hash d) (td_Text d) (log_store l)) \<or>
   (\<exists>date dv hash s. op = TxAddDaily date dv hash s \<and> log_store (tx_log op l) = ts_putDaily date dv hash s (log_store l))"
  by (cases "(op, l)" rule: tx_log.cases) (auto simp: log_store_def fold_swap split: list.split)

lemma log_store_fits: "ts_fits (log_store (tx_log op l)) \<Longrightarrow> ts_fits (log_store l)"
  using log_store_step [of op l] by (auto dest: ts_fits_put)

lemma tx_do_rep:
  assumes "tw_rep w (log_store l)" and "tw_queue w = fst l" and "\<not> tw_closed w" and "ts_fits (log_store (tx_log op l))"
  shows "\<exists>w'. tx_do mb mbDaily op w = Some w' \<and> tw_rep w' (log_store (tx_log op l)) \<and> tw_queue w' = fst (tx_log op l) \<and> \<not> tw_closed w'"
proof -
  obtain q taken days where l: "l = (q, taken, days)" by (cases l)
  show ?thesis
  proof (cases op)
    case (TxAdd dv hash s)
    then show ?thesis using assms(1-3) by (simp add: l tw_Add_def tw_rep_def log_store_def)
  next
    case (TxStep order)
    show ?thesis
    proof (cases q)
      case Nil
      then show ?thesis using assms(1-3) by (simp add: l TxStep tw_step_def)
    next
      case (Cons d q')
      have put: "log_store (tx_log op l) = ts_put (td_Div d) (td_Hash d) (td_Text d) (log_store l)"
        by (simp add: l TxStep Cons log_store_def fold_swap)
      have "tw_rep (w\<lparr>tw_queue := q'\<rparr>) (log_store l)" using assms(1) by (simp add: tw_rep_def)
      from tw_process_rep [OF this assms(4) [unfolded put], of mb order] assms(2,3) show ?thesis
        unfolding put by (auto simp: l TxStep Cons tw_step_def)
    qed
  next
    case (TxAddDaily date dv hash s)
    have put: "log_store (tx_log op l) = ts_putDaily date dv hash s (log_store l)" by (simp add: l TxAddDaily log_store_def)
    from tw_AddDaily_rep [OF assms(1) assms(4) [unfolded put], of mbDaily] assms(2,3) show ?thesis
      unfolding put by (auto simp: l TxAddDaily)
  next
    case (TxGet dv hash)
    with tw_GetString_rep [OF assms(1), of mb dv hash] assms(2,3) show ?thesis by (auto simp: l)
  next
    case (TxGetDaily date dv hash)
    with tw_GetDailyString_rep [OF assms(1), of mbDaily date dv hash] assms(2,3) show ?thesis by (auto simp: l)
  qed
qed

definition new_text_writer :: TextWR where
  "new_text_writer = NewTextWR (\<lambda>_. no_index_files, \<lambda>_. []) (\<lambda>_. no_index_files)"

lemma new_text_writer_rep: "tw_rep new_text_writer (log_store ([], [], []))"
  using pt_new_rep tt_new_rep
  by (simp add: new_text_writer_def NewTextWR_def tw_rep_def tw_perm_def tw_day_def log_store_def open_perm_def)

lemma tx_run_snoc: "tx_run mb mbDaily (ops @ [op]) w = Option.bind (tx_run mb mbDaily ops w) (tx_do mb mbDaily op)"
proof (induction ops arbitrary: w)
  case Nil
  have "tx_run mb mbDaily [] = Some" by (simp add: fun_eq_iff)
  then show ?case by simp
qed (auto intro!: bind_option_cong simp: Option.bind_assoc)

lemma tx_run_rep:
  assumes "ts_fits (log_store (text_log_of ops))"
  shows "\<exists>w. tx_run mb mbDaily ops new_text_writer = Some w \<and> tw_rep w (log_store (text_log_of ops)) \<and> tw_queue w = fst (text_log_of ops) \<and> \<not> tw_closed w"
  using assms
proof (induction ops rule: rev_induct)
  case Nil
  show ?case using new_text_writer_rep by (simp add: text_log_of_def) (simp add: new_text_writer_def NewTextWR_def)
next
  case (snoc op ops)
  have log: "text_log_of (ops @ [op]) = tx_log op (text_log_of ops)" by (simp add: text_log_of_def)
  from snoc.prems have "ts_fits (log_store (text_log_of ops))" unfolding log by (rule log_store_fits)
  from snoc.IH [OF this] obtain w where w: "tx_run mb mbDaily ops new_text_writer = Some w" "tw_rep w (log_store (text_log_of ops))"
    "tw_queue w = fst (text_log_of ops)" "\<not> tw_closed w" by blast
  from tx_do_rep [OF w(2-4) snoc.prems [unfolded log], of mb mbDaily] w(1) show ?case by (auto simp: log tx_run_snoc)
qed

lemma tr_GetString_new:
  "pt_Get mb dv hash (open_perm disk) = Some (Ok v, t1) \<Longrightarrow> \<exists>r. tr_GetString mb disk dv hash NewTextRD = Some (Ok (text_or_empty v), r)"
  by (cases v) (simp_all add: tr_GetString_def tr_getTable_def NewTextRD_def text_or_empty_def Let_def)

text \<open>What the writer answers, and what a reader finds after the writer was closed.\<close>

lemma tx_run_texts:
  assumes "text_log_of ops = (q, taken, days)" and "ts_fits (log_store (q, taken, days))"
  shows "\<exists>w. tx_run mb mbDaily ops new_text_writer = Some w \<and>
    (\<exists>w'. tw_GetString mb dv hash w = Some (Ok (first_text taken dv hash), w')) \<and>
    (\<exists>w'. tw_GetDailyString mbDaily date dv hash w = Some (Ok (first_daily days date dv hash), w')) \<and>
    (\<exists>r. tr_GetString mb' (tw_permFiles (tw_Close w)) dv hash NewTextRD = Some (Ok (first_text taken dv hash), r)) \<and>
    (\<exists>r. tr_GetDailyString mbDaily' (tw_dailyFiles (tw_Close w)) date dv hash NewTextRD = Some (Ok (first_daily days date dv hash), r))"
proof -
  let ?s = "log_store (q, taken, days)"
  obtain w where w: "tx_run mb mbDaily ops new_text_writer = Some w" "tw_rep w ?s" "\<not> tw_closed w"
    using tx_run_rep [of ops mb mbDaily] assms by auto
  have perm: "text_or_empty (map_of (ts_perm ?s dv) hash) = first_text taken dv hash"
    by (simp add: log_store_perm first_text_def)
  have daily: "text_or_empty (map_of (ts_daily ?s date) (makeHashKey dv hash)) = first_daily days date dv hash"
    by (simp add: log_store_daily first_daily_def)
  let ?c = "tw_Close w"
  have "tw_table ?c = None" "tw_dailyTables ?c = (\<lambda>_. None)" using w(3) by (simp_all add: tw_Close_def)
  then have c: "tw_perm ?c = open_perm (tw_permFiles ?c)" "tw_day ?c date = NewTextTable (tw_dailyFiles ?c date)"
    by (simp_all add: tw_perm_def tw_day_def)
  have rep: "tw_rep ?c ?s" by (rule tw_Close_rep [OF w(2)])
  have "pt_rep (open_perm (tw_permFiles ?c)) (ts_perm ?s)" using rep unfolding tw_rep_def c(1) by blast
  then obtain t1 where t1: "pt_Get mb' dv hash (open_perm (tw_permFiles ?c)) = Some (Ok (map_of (ts_perm ?s dv) hash), t1)"
    using pt_Get_rep by blast
  have "tt_rep (NewTextTable (tw_dailyFiles ?c date)) (ts_daily ?s date)" using rep unfolding tw_rep_def c(2) [symmetric] by blast
  then obtain t2 where t2: "tt_Get mbDaily' dv hash (NewTextTable (tw_dailyFiles ?c date)) = Some (Ok (map_of (ts_daily ?s date) (makeHashKey dv hash)), t2)"
    using tt_Get_rep by blast
  have "\<exists>r. tr_GetString mb' (tw_permFiles ?c) dv hash NewTextRD = Some (Ok (first_text taken dv hash), r)"
    using tr_GetString_new [OF t1] unfolding perm .
  moreover have "\<exists>r. tr_GetDailyString mbDaily' (tw_dailyFiles ?c) date dv hash NewTextRD = Some (Ok (first_daily days date dv hash), r)"
    using t2 unfolding daily [symmetric] by (simp add: tr_GetDailyString_def NewTextRD_def)
  ultimately show ?thesis using w(1) tw_GetString_rep [OF w(2), of mb dv hash, unfolded perm]
    tw_GetDailyString_rep [OF w(2), of mbDaily date dv hash, unfolded daily] by blast
qed

text \<open>A text that was found is answered from the cache from then on; a send after \<open>Close\<close> panics.\<close>

lemma tr_cached:
  assumes "tr_GetString mb disk dv hash r = Some (Ok s, r')" and "s \<noteq> []"
  shows "tr_GetString mb' disk' dv hash r' = Some (Ok s, r')"
proof (cases "tr_cache r (dv, hash)")
  case (Some x)
  then show ?thesis using assms by (simp add: tr_GetString_def)
next
  case None
  obtain t r1 where t: "tr_getTable disk r = (t, r1)" by (cases "tr_getTable disk r")
  with assms(1) None obtain y t' where y: "pt_Get mb dv hash t = Some (y, t')" by (auto simp: tr_GetString_def)
  with assms None t obtain x where "y = Ok (Some x)"
    by (cases y) (auto simp: tr_GetString_def found_text_def Let_def split: option.splits)
  then have "tr_cache r' (dv, hash) = Some s" using assms(1) None t y by (auto simp: tr_GetString_def Let_def)
  then show ?thesis by (simp add: tr_GetString_def)
qed

lemma tw_Add_closed: "tw_Add dv hash s (tw_Close w) = None"
  by (simp add: tw_Add_def tw_Close_def)

text \<open>The permanent texts after the writer was closed and the index of a division rebuilt with another size.\<close>

lemma rehashed_texts:
  assumes "text_log_of ops = (q, taken, days)" and "ts_fits (log_store (q, taken, days))"
    and "\<forall>d \<in> set taken. td_Div d \<noteq> rh_tmp dv0" and "tx_run mb mbDaily ops new_text_writer = Some w"
    and "\<exists>d \<in> set taken. td_Div d = dv0"
  shows "\<exists>res d'. rehashDiv dv0 hashMB (fst (tw_permFiles (tw_Close w))) = Some (Ok res, d') \<and>
    (\<exists>r. tr_GetString mb' (d', snd (tw_permFiles (tw_Close w))) dv hash NewTextRD = Some (Ok (first_text taken dv hash), r))"
proof -
  let ?s = "log_store (q, taken, days)"
  have w: "tw_rep w ?s" "\<not> tw_closed w" using tx_run_rep [of ops mb mbDaily] assms(1,2,4) by auto
  let ?c = "tw_Close w"
  have "tw_table ?c = None" using w(2) by (simp add: tw_Close_def)
  then have c: "tw_perm ?c = open_perm (tw_permFiles ?c)" by (simp add: tw_perm_def)
  have rep: "pt_rep (open_perm (tw_permFiles ?c)) (ts_perm ?s)" using tw_Close_rep [OF w(1)] unfolding tw_rep_def c by blast
  have shut: "pt_indexDisk (pt_Close (open_perm fs)) = fst fs" "pt_dataDisk (pt_Close (open_perm fs)) = snd fs" for fs
    by (simp_all add: open_perm_def pt_Close_def NewTextPermTable_def)
  have "map_of (ts_perm ?s (rh_tmp dv0)) hash = None" for hash
    using assms(3) by (auto simp: log_store_perm find_None_iff)
  then have "map_of (ts_perm ?s (rh_tmp dv0)) = Map.empty" by (simp add: fun_eq_iff)
  then have "ts_perm ?s (rh_tmp dv0) = []" by simp
  moreover have "fst (fst (tw_permFiles ?c) dv0) \<noteq> None"
  proof -
    obtain d where d: "d \<in> set taken" "td_Div d = dv0" using assms(5) by blast
    then have "map_of (ts_perm ?s dv0) (td_Hash d) \<noteq> None" by (auto simp: log_store_perm find_None_iff)
    then have "ts_perm ?s dv0 \<noteq> []" by auto
    then have "tp_hist (ts_perm ?s dv0) \<noteq> []" by (cases "ts_perm ?s dv0") simp_all
    moreover have "opens_to (fst (tw_permFiles ?c) dv0) (tp_hist (ts_perm ?s dv0))"
      using pt_repD [OF rep, of dv0] by (simp add: pt_div_def open_perm_def NewTextPermTable_def)
    ultimately show ?thesis by (simp add: opens_to_file)
  qed
  ultimately have "ts_perm ?s (rh_tmp dv0) = []" "fst (fst (tw_permFiles ?c) dv0) \<noteq> None" by simp_all
  with rehash_rep [OF rep, of dv0 hashMB] obtain res d' where
    d': "rehashDiv dv0 hashMB (fst (tw_permFiles ?c)) = Some (Ok res, d')" "pt_rep (NewTextPermTable d' (snd (tw_permFiles ?c))) (ts_perm ?s)"
    by (auto simp: shut)
  obtain t1 where t1: "pt_Get mb' dv hash (NewTextPermTable d' (snd (tw_permFiles ?c))) = Some (Ok (map_of (ts_perm ?s dv) hash), t1)"
    using pt_Get_rep [OF d'(2)] by blast
  have "text_or_empty (map_of (ts_perm ?s dv) hash) = first_text taken dv hash"
    by (simp add: log_store_perm first_text_def)
  then have "\<exists>r. tr_GetString mb' (d', snd (tw_permFiles ?c)) dv hash NewTextRD = Some (Ok (first_text taken dv hash), r)"
    using tr_GetString_new [of mb' dv hash "(d', snd (tw_permFiles ?c))"] t1 by (simp add: open_perm_def)
  then show ?thesis using d'(1) by blast
qed

end
