(* ===== verification/Decimal.thy ===== *)
theory Decimal
  imports Main
begin

text \<open>
  The decimal notation of an \<open>int\<close>, written out by \<open>itoa\<close> of internal/tagcnt/store.go and of
  internal/db/visitor/visitor\_db.go, and read back by \<open>atoi\<close>. They are called with values of 32 bits, for
  which the buffer of 20 bytes is long enough and \<open>-i\<close> does not overflow.
\<close>

fun itoa_digits :: "nat \<Rightarrow> string \<Rightarrow> string" where
  "itoa_digits n buf = (if n = 0 then buf else itoa_digits (n div 10) (char_of (48 + n mod 10) # buf))"

declare itoa_digits.simps [simp del]

definition itoa :: "int \<Rightarrow> string" where
  "itoa i = (if i = 0 then ''0''
     else if i < 0 then CHR ''-'' # itoa_digits (nat (- i)) [] else itoa_digits (nat i) [])"

fun atoi_loop :: "string \<Rightarrow> int \<Rightarrow> int" where
  "atoi_loop [] r = r"
| "atoi_loop (c # s) r = (if of_char c < (48 :: int) \<or> 57 < (of_char c :: int) then r else atoi_loop s (r * 10 + (of_char c - 48)))"

definition atoi :: "string \<Rightarrow> int" where
  "atoi s = (case s of
     c # t \<Rightarrow> if c = CHR ''-'' then - atoi_loop t 0 else atoi_loop s 0
   | [] \<Rightarrow> atoi_loop s 0)"

lemma itoa_digits_append: "itoa_digits n (xs @ ys) = itoa_digits n xs @ ys"
proof (induction n xs rule: itoa_digits.induct)
  case (1 n xs)
  show ?case
  proof (cases "n = 0")
    case True
    then show ?thesis by (simp add: itoa_digits.simps [of 0])
  next
    case False
    then show ?thesis using 1
      by (subst itoa_digits.simps, subst (2) itoa_digits.simps) simp
  qed
qed

lemma itoa_digits_snoc: "0 < n \<Longrightarrow> itoa_digits n [] = itoa_digits (n div 10) [] @ [char_of (48 + n mod 10)]"
  using itoa_digits_append [of "n div 10" "[]" "[char_of (48 + n mod 10)]"] by (subst itoa_digits.simps) simp

lemma of_digit: "(of_char (char_of (48 + n mod 10 :: nat)) :: int) = 48 + int (n mod 10)"
proof -
  have "n mod 10 < 10" by simp
  then have "(48 + n mod 10) mod 256 = 48 + n mod 10" by (intro mod_less) linarith
  then have "(of_char (char_of (48 + n mod 10 :: nat)) :: nat) = 48 + n mod 10" by (simp add: of_char_of)
  moreover have "(of_char c :: int) = int (of_char c)" for c :: char by (rule of_nat_of_char [symmetric])
  ultimately show ?thesis by simp
qed

lemma atoi_digits: "atoi_loop (itoa_digits n [] @ s) 0 = atoi_loop s (int n)"
proof (induction n arbitrary: s rule: less_induct)
  case (less n)
  show ?case
  proof (cases "n = 0")
    case True
    then show ?thesis by (simp add: itoa_digits.simps)
  next
    case False
    then have step: "itoa_digits n [] = itoa_digits (n div 10) [] @ [char_of (48 + n mod 10)]" by (intro itoa_digits_snoc) simp
    have "atoi_loop (itoa_digits n [] @ s) 0 = atoi_loop (char_of (48 + n mod 10) # s) (int (n div 10))"
      using less [of "n div 10" "char_of (48 + n mod 10) # s"] False by (simp add: step)
    also have "\<dots> = atoi_loop s (int (n div 10) * 10 + int (n mod 10))"
    proof -
      have "n mod 10 < 10" by simp
      then show ?thesis by (simp add: of_digit del: mod_less_divisor)
    qed
    also have "int (n div 10) * 10 + int (n mod 10) = int n" by presburger
    finally show ?thesis .
  qed
qed

lemma itoa_digits_head: "0 < n \<Longrightarrow> \<exists>c s. itoa_digits n [] = c # s \<and> c \<noteq> CHR ''-''"
proof (induction n rule: less_induct)
  case (less n)
  have c: "char_of (48 + n mod 10) \<noteq> CHR ''-''"
  proof
    assume "char_of (48 + n mod 10) = CHR ''-''"
    then have "(of_char (char_of (48 + n mod 10)) :: int) = of_char CHR ''-''" by simp
    then show False unfolding of_digit by simp
  qed
  show ?case
  proof (cases "n div 10 = 0")
    case True
    then show ?thesis using itoa_digits_snoc [OF less.prems] c by (simp add: itoa_digits.simps)
  next
    case False
    then obtain d t where "itoa_digits (n div 10) [] = d # t" "d \<noteq> CHR ''-''" using less.IH [of "n div 10"] less.prems by auto
    then show ?thesis using itoa_digits_snoc [OF less.prems] by simp
  qed
qed

lemma atoi_itoa [simp]: "atoi (itoa i) = i"
proof -
  have digits: "atoi_loop (itoa_digits n []) 0 = int n" for n using atoi_digits [of n "[]"] by simp
  show ?thesis
  proof (cases "0 < i")
    case True
    then have "0 < nat i" by simp
    from itoa_digits_head [OF this] True show ?thesis using digits [of "nat i"] by (auto simp: itoa_def atoi_def)
  next
    case False
    then show ?thesis using digits [of "nat (- i)"] by (simp add: itoa_def atoi_def)
  qed
qed

lemma itoa_inj [simp]: "itoa i = itoa j \<longleftrightarrow> i = j"
  by (metis atoi_itoa)

end
