(* ===== verification/Visitor.thy ===== *)
theory Visitor
  imports Endian Decimal "HOL-Library.AList"
begin

text \<open>
  internal/db/visitor: the HyperLogLog counter (hll.go), the visitors of a day by object type and by object
  (visitor\_db.go) and the visitors of an hour by object (visitor\_hourly\_db.go). \<open>Count\<close> is arithmetic on
  \<open>float64\<close> that depends on nothing but the registers; it is the argument \<open>est\<close> here. A Go map is an
  association list, the files of a directory are a map from the date and the name of a file.
\<close>

subsection \<open>HyperLogLog\<close>

definition hllPrecision :: nat where "hllPrecision = 14"
definition hllRegisters :: nat where "hllRegisters = push_bit hllPrecision 1"

record HLL =
  hll_registers :: bytes
  hll_dirty :: bool

definition NewHLL :: HLL where
  "NewHLL = \<lparr>hll_registers = replicate hllRegisters 0, hll_dirty = False\<rparr>"

text \<open>\<open>fnv.New64a\<close> of the standard library, on the eight bytes of a value.\<close>

definition fnv64a :: "bytes \<Rightarrow> i64" where
  "fnv64a bs = foldl (\<lambda>h b. (xor h (ucast b)) * 1099511628211) 14695981039346656037 bs"

definition hashValue :: "i64 \<Rightarrow> i64" where
  "hashValue v = fnv64a (PutUint64 v)"

text \<open>The loop is entered with \<open>x\<close> not 0, and keeps it so.\<close>

function lz_loop :: "byte \<Rightarrow> i64 \<Rightarrow> byte" where
  "lz_loop n x = (if x \<noteq> 0 \<and> and x (push_bit 63 1) = 0 then lz_loop (n + 1) (push_bit 1 x) else n)"
  by pat_completeness auto

lemma shift_top:
  assumes "and x (push_bit 63 1) = (0 :: i64)"
  shows "unat x < 2 ^ 63" and "unat (push_bit 1 x) = 2 * unat x"
proof -
  have "\<not> bit x 63" using assms by (metis and_exp_eq_0_iff_not_bit push_bit_of_1)
  moreover have "bit x n \<longleftrightarrow> bit (take_bit 63 x) n" if "n < 64" for n using that calculation by (cases "n = 63") (auto simp: bit_take_bit_iff)
  ultimately have "take_bit 63 x = x" by (intro bit_word_eqI) simp
  then have "unat x = take_bit 63 (unat x)" by (metis unsigned_take_bit_eq)
  then show "unat x < 2 ^ 63" by (metis take_bit_nat_less_exp)
  then show "unat (push_bit 1 x) = 2 * unat x"
    by (simp add: push_bit_eq_mult unat_word_ariths)
qed

termination lz_loop
proof (relation "measure (\<lambda>(n, x). 2 ^ 64 - unat x)")
  fix n :: byte and x :: i64
  assume x: "x \<noteq> 0 \<and> and x (push_bit 63 1) = 0"
  then have "0 < unat x" by (simp add: unat_gt_0)
  with shift_top [of x] x show "((n + 1, push_bit 1 x), n, x) \<in> measure (\<lambda>(n, x). 2 ^ 64 - unat x)" by auto
qed simp

declare lz_loop.simps [simp del]

definition leadingZeros :: "i64 \<Rightarrow> byte" where
  "leadingZeros x = (if x = 0 then 64 else lz_loop 0 x)"

definition hll_index :: "i64 \<Rightarrow> nat" where
  "hll_index v = unat (drop_bit (64 - hllPrecision) (hashValue v))"

definition hll_rho :: "i64 \<Rightarrow> byte" where
  "hll_rho v = leadingZeros (push_bit hllPrecision (hashValue v)) + 1"

definition hll_Offer :: "i64 \<Rightarrow> HLL \<Rightarrow> HLL" where
  "hll_Offer v h =
     (let idx = hll_index v; rho = hll_rho v
      in if hll_registers h ! idx < rho then \<lparr>hll_registers = (hll_registers h)[idx := rho], hll_dirty = True\<rparr> else h)"

definition hll_Serialize :: "HLL \<Rightarrow> bytes \<times> HLL" where
  "hll_Serialize h = (hll_registers h, h\<lparr>hll_dirty := False\<rparr>)"

definition hll_Deserialize :: "bytes \<Rightarrow> HLL \<Rightarrow> HLL" where
  "hll_Deserialize data h = (if hllRegisters \<le> length data then h\<lparr>hll_registers := take hllRegisters data\<rparr> else h)"

definition hll_Merge :: "HLL \<Rightarrow> HLL \<Rightarrow> HLL" where
  "hll_Merge h other = foldl (\<lambda>h i. if hll_registers h ! i < hll_registers other ! i
       then \<lparr>hll_registers = (hll_registers h)[i := hll_registers other ! i], hll_dirty = True\<rparr> else h)
     h [0..<hllRegisters]"

subsection \<open>The visitors of a day\<close>

text \<open>The files of the directories \<open>visit\<close> and \<open>visit\_hourly\<close>.\<close>

type_synonym visit_files = "string \<times> string \<Rightarrow> bytes option"

definition loadHLL :: "visit_files \<Rightarrow> string \<Rightarrow> string \<Rightarrow> HLL" where
  "loadHLL disk date name = (case disk (date, name @ ''.usr'') of
     Some data \<Rightarrow> if hllRegisters \<le> length data then hll_Deserialize data NewHLL else NewHLL
   | None \<Rightarrow> NewHLL)"

definition saveHLL :: "string \<Rightarrow> string \<Rightarrow> HLL \<Rightarrow> visit_files \<Rightarrow> visit_files \<times> HLL" where
  "saveHLL date name h disk = (let (data, h) = hll_Serialize h in (disk((date, name @ ''.usr'') \<mapsto> data), h))"

definition objHashKey :: "i32 \<Rightarrow> string" where
  "objHashKey h = ''obj_'' @ itoa (sint h)"

text \<open>The two blocks of \<open>Offer\<close>, and the loops of \<open>flush\<close>, for a map of counters with the names of their files.\<close>

definition hlls_Offer :: "('k \<Rightarrow> HLL) \<Rightarrow> 'k \<Rightarrow> i64 \<Rightarrow> ('k \<times> HLL) list \<Rightarrow> ('k \<times> HLL) list" where
  "hlls_Offer load k v hlls =
     (let hlls = (case map_of hlls k of Some _ \<Rightarrow> hlls | None \<Rightarrow> AList.update k (load k) hlls)
      in AList.update k (hll_Offer v (the (map_of hlls k))) hlls)"

fun hlls_flush :: "string \<Rightarrow> ('k \<Rightarrow> string) \<Rightarrow> ('k \<times> HLL) list \<Rightarrow> visit_files \<Rightarrow> ('k \<times> HLL) list \<times> visit_files" where
  "hlls_flush date nm [] disk = ([], disk)"
| "hlls_flush date nm ((k, h) # hlls) disk =
     (let (disk, h) = (if hll_dirty h then saveHLL date (nm k) h disk else (disk, h));
          (hlls, disk) = hlls_flush date nm hlls disk
      in ((k, h) # hlls, disk))"

record VisitorDB =
  vd_date :: string
  vd_typeHLLs :: "(string \<times> HLL) list"
  vd_objHLLs :: "(i32 \<times> HLL) list"
  vd_files :: visit_files

definition NewVisitorDB :: "string \<Rightarrow> visit_files \<Rightarrow> VisitorDB" where
  "NewVisitorDB today disk = \<lparr>vd_date = today, vd_typeHLLs = [], vd_objHLLs = [], vd_files = disk\<rparr>"

definition typeKey :: "string \<Rightarrow> string" where "typeKey objType = ''type_'' @ objType"

definition vd_flush :: "VisitorDB \<Rightarrow> VisitorDB" where
  "vd_flush db =
     (let (types, disk) = hlls_flush (vd_date db) typeKey (vd_typeHLLs db) (vd_files db);
          (objs, disk) = hlls_flush (vd_date db) objHashKey (vd_objHLLs db) disk
      in db\<lparr>vd_typeHLLs := types, vd_objHLLs := objs, vd_files := disk\<rparr>)"

definition vd_Offer :: "string \<Rightarrow> string \<Rightarrow> i32 \<Rightarrow> i64 \<Rightarrow> VisitorDB \<Rightarrow> VisitorDB" where
  "vd_Offer today objType objHash userid db =
     (let db = (if today \<noteq> vd_date db then (vd_flush db)\<lparr>vd_date := today, vd_typeHLLs := [], vd_objHLLs := []\<rparr> else db)
      in db\<lparr>vd_typeHLLs := hlls_Offer (\<lambda>t. loadHLL (vd_files db) (vd_date db) (typeKey t)) objType userid (vd_typeHLLs db),
            vd_objHLLs := hlls_Offer (\<lambda>h. loadHLL (vd_files db) (vd_date db) (objHashKey h)) objHash userid (vd_objHLLs db)\<rparr>)"

definition CountByType :: "(bytes \<Rightarrow> i64) \<Rightarrow> string \<Rightarrow> VisitorDB \<Rightarrow> i64" where
  "CountByType est objType db = (case map_of (vd_typeHLLs db) objType of Some h \<Rightarrow> est (hll_registers h) | None \<Rightarrow> 0)"

definition CountByObj :: "(bytes \<Rightarrow> i64) \<Rightarrow> i32 \<Rightarrow> VisitorDB \<Rightarrow> i64" where
  "CountByObj est objHash db = (case map_of (vd_objHLLs db) objHash of Some h \<Rightarrow> est (hll_registers h) | None \<Rightarrow> 0)"

definition CountByObjGroup :: "(bytes \<Rightarrow> i64) \<Rightarrow> i32 list \<Rightarrow> VisitorDB \<Rightarrow> i64" where
  "CountByObjGroup est objHashes db = est (hll_registers (foldl (\<lambda>merged hash.
     case map_of (vd_objHLLs db) hash of Some h \<Rightarrow> hll_Merge merged h | None \<Rightarrow> merged) NewHLL objHashes))"

definition LoadDate :: "(bytes \<Rightarrow> i64) \<Rightarrow> string \<Rightarrow> i32 \<Rightarrow> VisitorDB \<Rightarrow> i64" where
  "LoadDate est date objHash db = est (hll_registers (loadHLL (vd_files db) date (objHashKey objHash)))"

definition LoadDateTotal :: "(bytes \<Rightarrow> i64) \<Rightarrow> string \<Rightarrow> string \<Rightarrow> VisitorDB \<Rightarrow> i64" where
  "LoadDateTotal est date objType db = est (hll_registers (loadHLL (vd_files db) date (typeKey objType)))"

subsection \<open>The visitors of an hour\<close>

text \<open>The name of a file is that of \<open>Sprintf\<close> with the object and the hour in two digits.\<close>

definition two_digits :: "int \<Rightarrow> string" where
  "two_digits hour = (if 0 \<le> hour \<and> hour < 10 then ''0'' else []) @ itoa hour"

definition hourKey :: "int \<Rightarrow> i32 \<Rightarrow> string" where
  "hourKey hour h = ''obj_'' @ itoa (sint h) @ ''_'' @ two_digits hour"

record VisitorHourlyDB =
  vh_date :: string
  vh_hour :: int
  vh_objHLLs :: "(i32 \<times> HLL) list"
  vh_files :: visit_files

definition NewVisitorHourlyDB :: "string \<Rightarrow> int \<Rightarrow> visit_files \<Rightarrow> VisitorHourlyDB" where
  "NewVisitorHourlyDB date hour disk = \<lparr>vh_date = date, vh_hour = hour, vh_objHLLs = [], vh_files = disk\<rparr>"

definition vh_flush :: "VisitorHourlyDB \<Rightarrow> VisitorHourlyDB" where
  "vh_flush db = (let (objs, disk) = hlls_flush (vh_date db) (hourKey (vh_hour db)) (vh_objHLLs db) (vh_files db)
     in db\<lparr>vh_objHLLs := objs, vh_files := disk\<rparr>)"

definition vh_Offer :: "string \<Rightarrow> int \<Rightarrow> i32 \<Rightarrow> i64 \<Rightarrow> VisitorHourlyDB \<Rightarrow> VisitorHourlyDB" where
  "vh_Offer today currentHour objHash userid db =
     (let db = (if today \<noteq> vh_date db \<or> currentHour \<noteq> vh_hour db
           then (vh_flush db)\<lparr>vh_date := today, vh_hour := currentHour, vh_objHLLs := []\<rparr> else db)
      in db\<lparr>vh_objHLLs := hlls_Offer (\<lambda>h. loadHLL (vh_files db) (vh_date db) (hourKey (vh_hour db) h)) objHash userid (vh_objHLLs db)\<rparr>)"

definition LoadHour :: "(bytes \<Rightarrow> i64) \<Rightarrow> string \<Rightarrow> i32 \<Rightarrow> int \<Rightarrow> VisitorHourlyDB \<Rightarrow> i64" where
  "LoadHour est date objHash hour db = est (hll_registers (loadHLL (vh_files db) date (hourKey hour objHash)))"

definition LoadAllHours :: "(bytes \<Rightarrow> i64) \<Rightarrow> string \<Rightarrow> i32 list \<Rightarrow> VisitorHourlyDB \<Rightarrow> i64 list" where
  "LoadAllHours est date objHashes db = map (\<lambda>hour. est (hll_registers
     (foldl (\<lambda>merged hash. hll_Merge merged (loadHLL (vh_files db) date (hourKey (int hour) hash))) NewHLL objHashes))) [0..<24]"

subsection \<open>What the registers hold\<close>

text \<open>
  The registers of a list of values, which only depend on the set of the values: each holds the largest
  \<open>rho\<close> of the values of its index.
\<close>

definition hll_of :: "i64 list \<Rightarrow> bytes" where
  "hll_of vs = map (\<lambda>i. foldr max (map hll_rho (filter (\<lambda>v. hll_index v = i) vs)) 0) [0..<hllRegisters]"

lemma length_hll_of [simp]: "length (hll_of vs) = hllRegisters"
  by (simp add: hll_of_def)

lemma foldr_max: "foldr max xs 0 = Max (insert 0 (set xs))" for xs :: "byte list"
  by (induction xs) (simp_all add: insert_commute Max_insert [symmetric] del: Max_insert)

lemma hll_of_set: "set vs = set ws \<Longrightarrow> hll_of vs = hll_of ws"
  by (simp add: hll_of_def foldr_max)

lemma NewHLL_of: "hll_registers NewHLL = hll_of []" "\<not> hll_dirty NewHLL"
  by (simp_all add: NewHLL_def hll_of_def map_replicate_const)

lemma hll_index_less: "hll_index v < hllRegisters"
proof -
  have "unat (hashValue v) < 2 ^ 64" using unsigned_less [of "hashValue v"] by simp
  moreover have "unat (drop_bit 50 (hashValue v)) = unat (hashValue v) div 2 ^ 50"
    by (subst unat_drop_bit_eq) (rule drop_bit_eq_div)
  ultimately have "unat (drop_bit 50 (hashValue v)) < 2 ^ 14" by simp
  then show ?thesis by (simp add: hll_index_def hllPrecision_def hllRegisters_def)
qed

lemma hll_Offer_of:
  assumes "hll_registers h = hll_of vs"
  shows "hll_registers (hll_Offer v h) = hll_of (v # vs)"
proof -
  have "hll_registers (hll_Offer v h) = (hll_of vs)[hll_index v := max (hll_rho v) (hll_of vs ! hll_index v)]"
    using assms by (auto simp: hll_Offer_def Let_def max_def)
  also have "\<dots> = hll_of (v # vs)"
    using hll_index_less [of v] by (intro nth_equalityI) (auto simp: hll_of_def nth_list_update)
  finally show ?thesis .
qed

lemma hll_Offer_clean: "\<not> hll_dirty (hll_Offer v h) \<Longrightarrow> hll_Offer v h = h"
  by (auto simp: hll_Offer_def Let_def split: if_splits)

lemma hll_Merge_of:
  assumes "hll_registers h = hll_of vs" and "hll_registers other = hll_of ws"
  shows "hll_registers (hll_Merge h other) = hll_of (vs @ ws)"
proof -
  let ?step = "\<lambda>h i. if hll_registers h ! i < hll_registers other ! i
       then \<lparr>hll_registers = (hll_registers h)[i := hll_registers other ! i], hll_dirty = True\<rparr> else h"
  have step: "hll_registers (?step h i) = (hll_registers h)[i := max (hll_registers h ! i) (hll_registers other ! i)]" for h i
    by (cases "hll_registers h ! i < hll_registers other ! i") (simp_all add: max_absorb1 max_absorb2 less_imp_le)
  have loop: "hll_registers (foldl ?step h [0..<n]) =
     map (\<lambda>i. if i < n then max (hll_registers h ! i) (hll_registers other ! i) else hll_registers h ! i) [0..<hllRegisters]"
    if "n \<le> hllRegisters" for n
    using that
  proof (induction n)
    case 0
    then show ?case using assms(1) by (intro nth_equalityI) simp_all
  next
    case (Suc n)
    let ?h = "foldl ?step h [0..<n]"
    have "hll_registers (foldl ?step h [0..<Suc n]) =
        (hll_registers ?h)[n := max (hll_registers ?h ! n) (hll_registers other ! n)]"
      using step [of ?h n] by (simp only: upt_Suc_append foldl_append foldl.simps zero_le)
    also have "\<dots> = map (\<lambda>i. if i < Suc n then max (hll_registers h ! i) (hll_registers other ! i) else hll_registers h ! i) [0..<hllRegisters]"
      using Suc unfolding Suc.IH [OF Suc_leD [OF Suc.prems]] by (intro nth_equalityI) (auto simp: nth_list_update)
    finally show ?case .
  qed
  have "foldr max (xs @ ys) 0 = max (foldr max xs 0) (foldr max ys 0)" for xs ys :: "byte list"
    by (induction xs) (simp_all add: max.assoc)
  then show ?thesis using loop [of hllRegisters] assms
    by (intro nth_equalityI) (simp_all add: hll_Merge_def hll_of_def)
qed

lemma Merge_group:
  assumes "\<And>k. k \<in> set ks \<Longrightarrow> hll_registers (f k) = hll_of (U k)" and "hll_registers h = hll_of vs"
  shows "hll_registers (foldl (\<lambda>merged k. hll_Merge merged (f k)) h ks) = hll_of (vs @ concat (map U ks))"
  using assms
proof (induction ks arbitrary: h vs)
  case (Cons k ks)
  have "hll_registers (hll_Merge h (f k)) = hll_of (vs @ U k)" using Cons.prems by (intro hll_Merge_of) simp_all
  from Cons.IH [OF _ this] Cons.prems(1) show ?case by simp
qed simp

text \<open>The reference for \<open>leadingZeros\<close>.\<close>

lemma lz_loop_bounds:
  "x \<noteq> 0 \<Longrightarrow> \<exists>k. k < 64 \<and> lz_loop n x = n + word_of_nat k \<and> 2 ^ 63 \<le> unat x * 2 ^ k \<and> unat x * 2 ^ k < 2 ^ 64"
proof (induction n x rule: lz_loop.induct)
  case (1 n x)
  show ?case
  proof (cases "and x (push_bit 63 1) = 0")
    case True
    have "0 < unat x" using 1(2) by (simp add: unat_gt_0)
    moreover have "push_bit 1 x \<noteq> 0"
    proof
      assume "push_bit 1 x = 0"
      then have "unat (push_bit 1 x) = 0" by simp
      then show False using shift_top(2) [OF True] \<open>0 < unat x\<close> by simp
    qed
    then obtain k where k: "lz_loop (n + 1) (push_bit 1 x) = n + 1 + word_of_nat k" "2 ^ 63 \<le> unat x * 2 ^ Suc k" "unat x * 2 ^ Suc k < 2 ^ 64"
      using 1(1) [OF conjI [OF 1(2) True]] shift_top(2) [OF True] by (auto simp: mult.assoc mult.left_commute)
    have "1 * 2 ^ Suc k \<le> unat x * 2 ^ Suc k" using \<open>0 < unat x\<close> by (intro mult_le_mono1) simp
    then have "2 ^ Suc k < (2 :: nat) ^ 64" using k(3) by linarith
    then have "Suc k < 64" by (rule power_less_imp_less_exp [rotated]) simp
    moreover have "lz_loop n x = n + word_of_nat (Suc k)" using 1(2) True k(1) by (subst lz_loop.simps) (simp add: ac_simps)
    ultimately show ?thesis using k(2,3) by blast
  next
    case False
    have "bit x 63" using False by (metis and_exp_eq_0_iff_not_bit push_bit_of_1)
    then have "bit (unat x) 63" by (simp add: bit_unsigned_iff)
    then have "unat x div 2 ^ 63 \<noteq> 0" unfolding bit_iff_odd by (metis even_zero)
    then have "2 ^ 63 \<le> unat x" by (metis div_less not_le)
    then show ?thesis using False unsigned_less [of x] by (intro exI [of _ 0]) (simp add: lz_loop.simps)
  qed
qed

lemma leadingZeros_bounds:
  assumes "x \<noteq> 0"
  shows "2 ^ 63 \<le> unat x * 2 ^ unat (leadingZeros x) \<and> unat x * 2 ^ unat (leadingZeros x) < 2 ^ 64"
proof -
  obtain k where k: "k < 64" "leadingZeros x = word_of_nat k" "2 ^ 63 \<le> unat x * 2 ^ k" "unat x * 2 ^ k < 2 ^ 64"
    using lz_loop_bounds [OF assms, of 0] assms by (auto simp: leadingZeros_def)
  then have "unat (leadingZeros x) = k" by (simp add: unat_of_nat)
  with k(3,4) show ?thesis by simp
qed

subsection \<open>What the tables of counters hold\<close>

text \<open>Every counter is that of the visitors of its key, in memory or in its file; one that is not dirty is as in its file.\<close>

definition hlls_rep :: "('k \<Rightarrow> HLL) \<Rightarrow> ('k \<times> HLL) list \<Rightarrow> ('k \<Rightarrow> i64 list) \<Rightarrow> bool" where
  "hlls_rep load hlls U \<longleftrightarrow> distinct (map fst hlls) \<and> (\<forall>k. case map_of hlls k of
       Some h \<Rightarrow> hll_registers h = hll_of (U k) \<and> (\<not> hll_dirty h \<longrightarrow> hll_registers (load k) = hll_of (U k))
     | None \<Rightarrow> hll_registers (load k) = hll_of (U k))"

lemma hlls_rep_new: "(\<And>k. hll_registers (load k) = hll_of (U k)) \<Longrightarrow> hlls_rep load [] U"
  by (simp add: hlls_rep_def)

lemma hlls_repI:
  assumes "distinct (map fst hlls)"
    and "\<And>k h. map_of hlls k = Some h \<Longrightarrow> hll_registers h = hll_of (U k) \<and> (\<not> hll_dirty h \<longrightarrow> hll_registers (load k) = hll_of (U k))"
    and "\<And>k. map_of hlls k = None \<Longrightarrow> hll_registers (load k) = hll_of (U k)"
  shows "hlls_rep load hlls U"
  using assms by (auto simp: hlls_rep_def split: option.split)

lemma hlls_repD:
  assumes "hlls_rep load hlls U"
  shows "distinct (map fst hlls)" and "map_of hlls k = Some h \<Longrightarrow> hll_registers h = hll_of (U k)"
    and "map_of hlls k = Some h \<Longrightarrow> \<not> hll_dirty h \<Longrightarrow> hll_registers (load k) = hll_of (U k)"
    and "map_of hlls k = None \<Longrightarrow> hll_registers (load k) = hll_of (U k)"
  using assms by (auto simp: hlls_rep_def split: option.splits dest: spec [of _ k])

lemma hlls_Offer_rep:
  assumes rep: "hlls_rep load hlls U" and clean: "\<And>k. \<not> hll_dirty (load k)"
  shows "hlls_rep load (hlls_Offer load k v hlls) (U(k := v # U k))"
proof -
  note D = hlls_repD [OF rep]
  obtain h hlls' where h: "hlls_Offer load k v hlls = AList.update k (hll_Offer v h) hlls'" "distinct (map fst hlls')"
    "\<And>k'. k' \<noteq> k \<Longrightarrow> map_of hlls' k' = map_of hlls k'"
    "hll_registers h = hll_of (U k)" "\<not> hll_dirty h \<longrightarrow> hll_registers (load k) = hll_of (U k)"
  proof (cases "map_of hlls k")
    case None
    with D(1) D(4) [OF None] that [of "load k" "AList.update k (load k) hlls"] show thesis
      by (simp add: hlls_Offer_def distinct_update update_conv')
  next
    case (Some h)
    with D(1) D(2) [OF Some] D(3) [OF Some] that [of h hlls] show thesis by (simp add: hlls_Offer_def)
  qed
  have new: "hll_registers (hll_Offer v h) = hll_of (v # U k)" by (rule hll_Offer_of [OF h(4)])
  have "\<not> hll_dirty (hll_Offer v h) \<longrightarrow> hll_registers (load k) = hll_of (v # U k)"
    using hll_Offer_clean [of v h] h(4,5) new by auto
  then show ?thesis unfolding h(1) using new D h(2,3)
    by (intro hlls_repI) (auto simp: update_conv' distinct_update split: if_splits)
qed

text \<open>\<open>flush\<close> leaves the counter of every key in its file, and no other file is written.\<close>

lemma hlls_flush_eq:
  assumes "distinct (map fst hlls)" and "inj nm"
  shows "fst (hlls_flush date nm hlls disk) = map (\<lambda>(k, h). (k, h\<lparr>hll_dirty := False\<rparr>)) hlls \<and>
    (\<forall>k. snd (hlls_flush date nm hlls disk) (date, nm k @ ''.usr'') =
      (case map_of hlls k of Some h \<Rightarrow> if hll_dirty h then Some (hll_registers h) else disk (date, nm k @ ''.usr'')
       | None \<Rightarrow> disk (date, nm k @ ''.usr''))) \<and>
    (\<forall>d n. d \<noteq> date \<or> n \<notin> range (\<lambda>k. nm k @ ''.usr'') \<longrightarrow> snd (hlls_flush date nm hlls disk) (d, n) = disk (d, n))"
  using assms(1)
proof (induction hlls arbitrary: disk)
  case (Cons kh hlls)
  obtain k h where kh: "kh = (k, h)" by (cases kh)
  have none: "map_of hlls k = None" using Cons.prems kh by (simp add: map_of_eq_None_iff)
  have same: "nm k1 = nm k2 \<longleftrightarrow> k1 = k2" for k1 k2 using assms(2) by (auto dest: injD)
  show ?case
  proof (cases "hll_dirty h")
    case True
    define disk2 where "disk2 = disk((date, nm k @ ''.usr'') \<mapsto> hll_registers h)"
    then have disk2: "disk2 (d, n) = (if d = date \<and> n = nm k @ ''.usr'' then Some (hll_registers h) else disk (d, n))" for d n by simp
    obtain hlls' disk' where run: "hlls_flush date nm hlls disk2 = (hlls', disk')" by (cases "hlls_flush date nm hlls disk2")
    with True have step: "hlls_flush date nm (kh # hlls) disk = ((k, h\<lparr>hll_dirty := False\<rparr>) # hlls', disk')"
      by (simp add: kh saveHLL_def hll_Serialize_def flip: disk2_def)
    have "distinct (map fst hlls)" using Cons.prems by simp
    note IH = Cons.IH [OF this, of disk2, unfolded run fst_conv snd_conv disk2]
    show ?thesis unfolding step fst_conv snd_conv using IH none True
      by (auto simp: kh same split: option.split)
  next
    case False
    then show ?thesis using Cons.IH [of disk] Cons.prems none
      by (auto simp: kh split_beta)
  qed
qed simp

lemma loadHLL_cong: "disk (date, name @ ''.usr'') = disk' (date, name @ ''.usr'') \<Longrightarrow> loadHLL disk date name = loadHLL disk' date name"
  by (simp add: loadHLL_def)

lemma loadHLL_clean [simp]: "\<not> hll_dirty (loadHLL disk date name)"
  by (auto simp: loadHLL_def hll_Deserialize_def NewHLL_def split: option.split)

lemma loadHLL_saved:
  "disk (date, name @ ''.usr'') = Some (hll_of vs) \<Longrightarrow> hll_registers (loadHLL disk date name) = hll_of vs"
  by (simp add: loadHLL_def hll_Deserialize_def)

lemma loadHLL_none: "disk (date, name @ ''.usr'') = None \<Longrightarrow> hll_registers (loadHLL disk date name) = hll_of []"
  by (simp add: loadHLL_def NewHLL_of)

lemma map_of_clean: "map_of (map (\<lambda>(k, h). (k, h\<lparr>hll_dirty := False\<rparr>)) hlls) k = map_option (\<lambda>h. h\<lparr>hll_dirty := False\<rparr>) (map_of hlls k)"
  by (induction hlls) auto

lemma hlls_flush_rep:
  assumes "hlls_rep (\<lambda>k. loadHLL disk date (nm k)) hlls U" and "inj nm" and "hlls_flush date nm hlls disk = (hlls', disk')"
  shows "hll_registers (loadHLL disk' date (nm k)) = hll_of (U k)" and "hlls_rep (\<lambda>k. loadHLL disk' date (nm k)) hlls' U"
    and "d \<noteq> date \<or> n \<notin> range nm \<Longrightarrow> loadHLL disk' d n = loadHLL disk d n"
proof -
  note D = hlls_repD [OF assms(1)]
  note flush = hlls_flush_eq [OF D(1) assms(2), of date disk, unfolded assms(3) fst_conv snd_conv]
  have saved: "hll_registers (loadHLL disk' date (nm k)) = hll_of (U k)" for k
  proof (cases "map_of hlls k")
    case None
    then have "disk' (date, nm k @ ''.usr'') = disk (date, nm k @ ''.usr'')" using flush by simp
    then show ?thesis using D(4) [OF None] loadHLL_cong [of disk' date "nm k" disk] by simp
  next
    case (Some h)
    then have "disk' (date, nm k @ ''.usr'') = (if hll_dirty h then Some (hll_registers h) else disk (date, nm k @ ''.usr''))"
      using flush by simp
    then show ?thesis using D(2,3) [OF Some] loadHLL_cong [of disk' date "nm k" disk] loadHLL_saved [of disk' date "nm k" "U k"]
      by (cases "hll_dirty h") simp_all
  qed
  then show "hll_registers (loadHLL disk' date (nm k)) = hll_of (U k)" .
  have "distinct (map fst hlls')" using flush D(1) by (simp add: comp_def case_prod_unfold)
  moreover have "map_of hlls' k = map_option (\<lambda>h. h\<lparr>hll_dirty := False\<rparr>) (map_of hlls k)" for k
    using flush by (simp add: map_of_clean)
  ultimately show "hlls_rep (\<lambda>k. loadHLL disk' date (nm k)) hlls' U"
    using saved D(2) by (intro hlls_repI) auto
  show "loadHLL disk' d n = loadHLL disk d n" if "d \<noteq> date \<or> n \<notin> range nm"
    using that flush by (intro loadHLL_cong) (auto simp: image_iff)
qed

subsection \<open>Sequences of visits\<close>

text \<open>A visit: the date on which it was offered, the object type, the object and the user; the newest is first.\<close>

type_synonym visit = "string \<times> string \<times> i32 \<times> i64"

definition type_users :: "visit list \<Rightarrow> string \<Rightarrow> string \<Rightarrow> i64 list" where
  "type_users log date objType = map (\<lambda>(_, _, _, u). u) (filter (\<lambda>(d, t, _, _). d = date \<and> t = objType) log)"

definition obj_users :: "visit list \<Rightarrow> string \<Rightarrow> i32 \<Rightarrow> i64 list" where
  "obj_users log date objHash = map (\<lambda>(_, _, _, u). u) (filter (\<lambda>(d, _, h, _). d = date \<and> h = objHash) log)"

definition vd_saved :: "visit_files \<Rightarrow> visit list \<Rightarrow> string \<Rightarrow> bool" where
  "vd_saved disk log d \<longleftrightarrow> (\<forall>t. hll_registers (loadHLL disk d (typeKey t)) = hll_of (type_users log d t)) \<and>
     (\<forall>h. hll_registers (loadHLL disk d (objHashKey h)) = hll_of (obj_users log d h))"

definition vd_rep :: "VisitorDB \<Rightarrow> visit list \<Rightarrow> bool" where
  "vd_rep db log \<longleftrightarrow> (\<forall>d. d \<noteq> vd_date db \<longrightarrow> vd_saved (vd_files db) log d) \<and>
     hlls_rep (\<lambda>t. loadHLL (vd_files db) (vd_date db) (typeKey t)) (vd_typeHLLs db) (type_users log (vd_date db)) \<and>
     hlls_rep (\<lambda>h. loadHLL (vd_files db) (vd_date db) (objHashKey h)) (vd_objHLLs db) (obj_users log (vd_date db))"

lemma visit_keys: "inj typeKey" "inj objHashKey" "typeKey t \<notin> range objHashKey" "objHashKey h \<notin> range typeKey"
  by (auto simp: typeKey_def objHashKey_def inj_on_def signed_word_eqI)

lemma vd_flush_rep:
  assumes "vd_rep db log"
  shows "vd_rep (vd_flush db) log" and "vd_date (vd_flush db) = vd_date db" and "vd_saved (vd_files (vd_flush db)) log d"
proof -
  let ?date = "vd_date db"
  obtain types disk1 where types: "hlls_flush ?date typeKey (vd_typeHLLs db) (vd_files db) = (types, disk1)"
    by (cases "hlls_flush ?date typeKey (vd_typeHLLs db) (vd_files db)")
  obtain objs disk2 where objs: "hlls_flush ?date objHashKey (vd_objHLLs db) disk1 = (objs, disk2)"
    by (cases "hlls_flush ?date objHashKey (vd_objHLLs db) disk1")
  have db: "vd_flush db = db\<lparr>vd_typeHLLs := types, vd_objHLLs := objs, vd_files := disk2\<rparr>"
    by (simp add: vd_flush_def types objs)
  have T: "hlls_rep (\<lambda>t. loadHLL (vd_files db) ?date (typeKey t)) (vd_typeHLLs db) (type_users log ?date)"
    and B: "hlls_rep (\<lambda>h. loadHLL (vd_files db) ?date (objHashKey h)) (vd_objHLLs db) (obj_users log ?date)"
    using assms by (simp_all add: vd_rep_def)
  note t = hlls_flush_rep [OF T visit_keys(1) types]
  have "hlls_rep (\<lambda>h. loadHLL disk1 ?date (objHashKey h)) (vd_objHLLs db) (obj_users log ?date)"
    using B t(3) [of ?date "objHashKey _"] visit_keys(4) by simp
  note b = hlls_flush_rep [OF this visit_keys(2) objs]
  have other: "loadHLL disk2 d n = loadHLL (vd_files db) d n" if "d \<noteq> ?date" for d n using t(3) b(3) that by simp
  have tkeep: "loadHLL disk2 ?date (typeKey k) = loadHLL disk1 ?date (typeKey k)" for k using b(3) visit_keys(3) by simp
  have saved: "vd_saved disk2 log d" for d
  proof (cases "d = ?date")
    case True
    then show ?thesis using t(1) b(1) tkeep by (simp add: vd_saved_def)
  next
    case False
    then show ?thesis using assms other by (simp add: vd_rep_def vd_saved_def)
  qed
  then show "vd_saved (vd_files (vd_flush db)) log d" by (simp add: db)
  show "vd_date (vd_flush db) = vd_date db" by (simp add: db)
  show "vd_rep (vd_flush db) log" using saved t(2) b(2) tkeep by (simp add: vd_rep_def db)
qed

lemma vd_fresh_rep:
  "(\<And>d. vd_saved disk log d) \<Longrightarrow> vd_rep \<lparr>vd_date = today, vd_typeHLLs = [], vd_objHLLs = [], vd_files = disk\<rparr> log"
  by (auto simp: vd_rep_def vd_saved_def intro!: hlls_rep_new)

lemma vd_Offer_rep:
  assumes "vd_rep db log"
  shows "vd_rep (vd_Offer today objType objHash userid db) ((today, objType, objHash, userid) # log)"
proof -
  define db1 where "db1 = (if today \<noteq> vd_date db then (vd_flush db)\<lparr>vd_date := today, vd_typeHLLs := [], vd_objHLLs := []\<rparr> else db)"
  let ?log = "(today, objType, objHash, userid) # log"
  have rep: "vd_rep db1 log"
    using assms vd_fresh_rep [OF vd_flush_rep(3) [OF assms], of today] unfolding db1_def by (cases "vd_flush db") simp
  have date: "vd_date db1 = today" by (simp add: db1_def)
  have T: "type_users ?log d = (if d = today then (type_users log d)(objType := userid # type_users log d objType) else type_users log d)"
    and B: "obj_users ?log d = (if d = today then (obj_users log d)(objHash := userid # obj_users log d objHash) else obj_users log d)" for d
    by (auto simp: type_users_def obj_users_def fun_eq_iff)
  have run: "vd_Offer today objType objHash userid db =
      db1\<lparr>vd_typeHLLs := hlls_Offer (\<lambda>t. loadHLL (vd_files db1) today (typeKey t)) objType userid (vd_typeHLLs db1),
         vd_objHLLs := hlls_Offer (\<lambda>h. loadHLL (vd_files db1) today (objHashKey h)) objHash userid (vd_objHLLs db1)\<rparr>"
    using date by (simp add: vd_Offer_def db1_def [symmetric] Let_def)
  have "hlls_rep (\<lambda>t. loadHLL (vd_files db1) today (typeKey t)) (vd_typeHLLs db1) (type_users log today)"
    "hlls_rep (\<lambda>h. loadHLL (vd_files db1) today (objHashKey h)) (vd_objHLLs db1) (obj_users log today)"
    "\<And>d. d \<noteq> today \<Longrightarrow> vd_saved (vd_files db1) log d"
    using rep date by (simp_all add: vd_rep_def)
  note h = hlls_Offer_rep [OF this(1) loadHLL_clean, of objType userid] hlls_Offer_rep [OF this(2) loadHLL_clean, of objHash userid] this(3)
  then show ?thesis unfolding run vd_rep_def using date by (simp add: T B vd_saved_def)
qed

text \<open>A restart is a shutdown, at which the flusher flushes once more, and a new database.\<close>

datatype visit_op = VisitOffer string string i32 i64 | VisitFlush | VisitRestart string

fun vd_do :: "visit_op \<Rightarrow> VisitorDB \<Rightarrow> VisitorDB" where
  "vd_do (VisitOffer today objType objHash userid) db = vd_Offer today objType objHash userid db"
| "vd_do VisitFlush db = vd_flush db"
| "vd_do (VisitRestart today) db = NewVisitorDB today (vd_files (vd_flush db))"

definition visits_of :: "visit_op list \<Rightarrow> visit list" where
  "visits_of ops = rev (concat (map (\<lambda>op. case op of VisitOffer d t h u \<Rightarrow> [(d, t, h, u)] | _ \<Rightarrow> []) ops))"

lemma vd_run_rep: "vd_rep (fold vd_do ops (NewVisitorDB today (\<lambda>_. None))) (visits_of ops)"
proof (induction ops rule: rev_induct)
  case Nil
  have "vd_saved (\<lambda>_. None) [] d" for d by (simp add: vd_saved_def type_users_def obj_users_def loadHLL_none)
  then show ?case by (simp add: NewVisitorDB_def visits_of_def vd_fresh_rep)
next
  case (snoc op ops)
  show ?case
  proof (cases op)
    case (VisitOffer d t h u)
    with vd_Offer_rep [OF snoc.IH, of d t h u] show ?thesis by (simp add: visits_of_def)
  next
    case VisitFlush
    with vd_flush_rep(1) [OF snoc.IH] show ?thesis by (simp add: visits_of_def)
  next
    case (VisitRestart d)
    with vd_fresh_rep [OF vd_flush_rep(3) [OF snoc.IH], of d] show ?thesis by (simp add: visits_of_def NewVisitorDB_def)
  qed
qed

text \<open>What is counted in memory for the day, and what is counted from the files after a flush.\<close>

lemma vd_counts:
  assumes "vd_rep db log"
  shows "CountByObj est objHash db = (if map_of (vd_objHLLs db) objHash = None then 0 else est (hll_of (obj_users log (vd_date db) objHash)))"
    and "CountByType est objType db = (if map_of (vd_typeHLLs db) objType = None then 0 else est (hll_of (type_users log (vd_date db) objType)))"
    and "CountByObjGroup est hs db = est (hll_of (concat (map (\<lambda>h. if map_of (vd_objHLLs db) h = None then [] else obj_users log (vd_date db) h) hs)))"
    and "LoadDate est date objHash (vd_flush db) = est (hll_of (obj_users log date objHash))"
    and "LoadDateTotal est date objType (vd_flush db) = est (hll_of (type_users log date objType))"
proof -
  note reg = hlls_repD(2)
  have T: "hlls_rep (\<lambda>t. loadHLL (vd_files db) (vd_date db) (typeKey t)) (vd_typeHLLs db) (type_users log (vd_date db))"
    and B: "hlls_rep (\<lambda>h. loadHLL (vd_files db) (vd_date db) (objHashKey h)) (vd_objHLLs db) (obj_users log (vd_date db))"
    using assms by (simp_all add: vd_rep_def)
  show "CountByObj est objHash db = (if map_of (vd_objHLLs db) objHash = None then 0 else est (hll_of (obj_users log (vd_date db) objHash)))"
    using reg [OF B] by (simp add: CountByObj_def split: option.split)
  show "CountByType est objType db = (if map_of (vd_typeHLLs db) objType = None then 0 else est (hll_of (type_users log (vd_date db) objType)))"
    using reg [OF T] by (simp add: CountByType_def split: option.split)
  show "LoadDate est date objHash (vd_flush db) = est (hll_of (obj_users log date objHash))"
    "LoadDateTotal est date objType (vd_flush db) = est (hll_of (type_users log date objType))"
    using vd_flush_rep(3) [OF assms, of date] by (simp_all add: LoadDate_def LoadDateTotal_def vd_saved_def)
  have "hll_registers (foldl (\<lambda>merged hash. case map_of (vd_objHLLs db) hash of Some h \<Rightarrow> hll_Merge merged h | None \<Rightarrow> merged) m hs) =
      hll_of (vs @ concat (map (\<lambda>h. if map_of (vd_objHLLs db) h = None then [] else obj_users log (vd_date db) h) hs))"
    if "hll_registers m = hll_of vs" for m vs
    using that
  proof (induction hs arbitrary: m vs)
    case (Cons h hs)
    show ?case
    proof (cases "map_of (vd_objHLLs db) h")
      case None
      then show ?thesis using Cons by simp
    next
      case (Some x)
      from Cons.IH [OF hll_Merge_of [OF Cons.prems reg [OF B Some]]] Some show ?thesis by simp
    qed
  qed simp
  from this [OF NewHLL_of(1)] show "CountByObjGroup est hs db =
      est (hll_of (concat (map (\<lambda>h. if map_of (vd_objHLLs db) h = None then [] else obj_users log (vd_date db) h) hs)))"
    by (simp add: CountByObjGroup_def)
qed

subsection \<open>Sequences of visits by the hour\<close>

type_synonym hour_visit = "string \<times> int \<times> i32 \<times> i64"

definition hour_users :: "hour_visit list \<Rightarrow> string \<Rightarrow> int \<Rightarrow> i32 \<Rightarrow> i64 list" where
  "hour_users log date hour objHash = map (\<lambda>(_, _, _, u). u) (filter (\<lambda>(d, hr, h, _). d = date \<and> hr = hour \<and> h = objHash) log)"

definition hours :: "int set" where "hours = {0..<24}"

lemma hours_nat: "hour \<in> hours \<longleftrightarrow> (\<exists>n \<in> set [0..<24]. hour = int n)"
  by (auto simp: hours_def intro!: bexI [of _ "nat hour"])

lemma two_digits_length: "hour \<in> hours \<Longrightarrow> length (two_digits hour) = 2"
proof -
  have "\<forall>n \<in> set [0..<24]. length (two_digits (int n)) = 2" by code_simp
  then show "hour \<in> hours \<Longrightarrow> length (two_digits hour) = 2" unfolding hours_nat by blast
qed

lemma two_digits_inj: "hour \<in> hours \<Longrightarrow> hour' \<in> hours \<Longrightarrow> two_digits hour = two_digits hour' \<longleftrightarrow> hour = hour'"
proof -
  have "\<forall>n \<in> set [0..<24]. atoi (two_digits (int n)) = int n" by code_simp
  then show "hour \<in> hours \<Longrightarrow> hour' \<in> hours \<Longrightarrow> two_digits hour = two_digits hour' \<longleftrightarrow> hour = hour'"
    unfolding hours_nat by metis
qed

lemma hourKey_inj:
  assumes "hour \<in> hours" and "hour' \<in> hours"
  shows "hourKey hour h = hourKey hour' h' \<longleftrightarrow> hour = hour' \<and> h = h'"
proof -
  have "length (''_'' @ two_digits hour) = length (''_'' @ two_digits hour')" using assms two_digits_length by simp
  then have "(itoa (sint h) @ ''_'' @ two_digits hour = itoa (sint h') @ ''_'' @ two_digits hour') \<longleftrightarrow>
      itoa (sint h) = itoa (sint h') \<and> ''_'' @ two_digits hour = ''_'' @ two_digits hour'"
    by (rule append_eq_append_conv [OF disjI2])
  then show ?thesis using two_digits_inj [OF assms] by (auto simp: hourKey_def signed_word_eqI)
qed

definition vh_saved :: "visit_files \<Rightarrow> hour_visit list \<Rightarrow> string \<Rightarrow> int \<Rightarrow> bool" where
  "vh_saved disk log d hour \<longleftrightarrow> (\<forall>h. hll_registers (loadHLL disk d (hourKey hour h)) = hll_of (hour_users log d hour h))"

definition vh_rep :: "VisitorHourlyDB \<Rightarrow> hour_visit list \<Rightarrow> bool" where
  "vh_rep db log \<longleftrightarrow> vh_hour db \<in> hours \<and>
     (\<forall>d. \<forall>hour \<in> hours. (d, hour) \<noteq> (vh_date db, vh_hour db) \<longrightarrow> vh_saved (vh_files db) log d hour) \<and>
     hlls_rep (\<lambda>h. loadHLL (vh_files db) (vh_date db) (hourKey (vh_hour db) h)) (vh_objHLLs db) (hour_users log (vh_date db) (vh_hour db))"

lemma vh_flush_rep:
  assumes "vh_rep db log"
  shows "vh_rep (vh_flush db) log" and "hour \<in> hours \<Longrightarrow> vh_saved (vh_files (vh_flush db)) log d hour"
proof -
  let ?date = "vh_date db" and ?hour = "vh_hour db"
  obtain objs disk where objs: "hlls_flush ?date (hourKey ?hour) (vh_objHLLs db) (vh_files db) = (objs, disk)"
    by (cases "hlls_flush ?date (hourKey ?hour) (vh_objHLLs db) (vh_files db)")
  have db: "vh_flush db = db\<lparr>vh_objHLLs := objs, vh_files := disk\<rparr>" by (simp add: vh_flush_def objs)
  have H: "?hour \<in> hours" and B: "hlls_rep (\<lambda>h. loadHLL (vh_files db) ?date (hourKey ?hour h)) (vh_objHLLs db) (hour_users log ?date ?hour)"
    using assms by (simp_all add: vh_rep_def)
  have "inj (hourKey ?hour)" using hourKey_inj [OF H H] by (simp add: inj_on_def)
  note b = hlls_flush_rep [OF B this objs]
  have saved: "vh_saved disk log d hour" if "hour \<in> hours" for d hour
  proof (cases "(d, hour) = (?date, ?hour)")
    case True
    then show ?thesis using b(1) by (simp add: vh_saved_def)
  next
    case False
    then have "d \<noteq> ?date \<or> hourKey hour h \<notin> range (hourKey ?hour)" for h using hourKey_inj [OF that H] by auto
    then have "loadHLL disk d (hourKey hour h) = loadHLL (vh_files db) d (hourKey hour h)" for h by (rule b(3))
    then show ?thesis using assms False that by (simp add: vh_rep_def vh_saved_def)
  qed
  then show "hour \<in> hours \<Longrightarrow> vh_saved (vh_files (vh_flush db)) log d hour" by (simp add: db)
  show "vh_rep (vh_flush db) log" using saved b(2) H by (simp add: vh_rep_def db)
qed

lemma vh_fresh_rep:
  assumes "\<And>d hour. hour \<in> hours \<Longrightarrow> vh_saved disk log d hour" and "hour \<in> hours"
  shows "vh_rep \<lparr>vh_date = today, vh_hour = hour, vh_objHLLs = [], vh_files = disk\<rparr> log"
  using assms by (auto simp: vh_rep_def vh_saved_def intro!: hlls_rep_new)

lemma vh_Offer_rep:
  assumes "vh_rep db log" and "hour \<in> hours"
  shows "vh_rep (vh_Offer today hour objHash userid db) ((today, hour, objHash, userid) # log)"
proof -
  define db1 where "db1 = (if today \<noteq> vh_date db \<or> hour \<noteq> vh_hour db
    then (vh_flush db)\<lparr>vh_date := today, vh_hour := hour, vh_objHLLs := []\<rparr> else db)"
  let ?log = "(today, hour, objHash, userid) # log"
  have rep: "vh_rep db1 log"
    using assms(1) vh_fresh_rep [OF vh_flush_rep(2) [OF assms(1)] assms(2), of today] unfolding db1_def by (cases "vh_flush db") simp
  have now: "vh_date db1 = today" "vh_hour db1 = hour" by (auto simp: db1_def)
  have B: "hour_users ?log d hr = (if d = today \<and> hr = hour then (hour_users log d hr)(objHash := userid # hour_users log d hr objHash)
      else hour_users log d hr)" for d hr
    by (auto simp: hour_users_def fun_eq_iff)
  have run: "vh_Offer today hour objHash userid db =
      db1\<lparr>vh_objHLLs := hlls_Offer (\<lambda>h. loadHLL (vh_files db1) today (hourKey hour h)) objHash userid (vh_objHLLs db1)\<rparr>"
    unfolding vh_Offer_def db1_def [symmetric] Let_def now ..
  have "hlls_rep (\<lambda>h. loadHLL (vh_files db1) today (hourKey hour h)) (vh_objHLLs db1) (hour_users log today hour)"
    "\<And>d hr. hr \<in> hours \<Longrightarrow> (d, hr) \<noteq> (today, hour) \<Longrightarrow> vh_saved (vh_files db1) log d hr"
    using rep now by (simp_all add: vh_rep_def)
  note h = hlls_Offer_rep [OF this(1) loadHLL_clean, of objHash userid] this(2)
  then show ?thesis unfolding run vh_rep_def using now assms(2) by (auto simp: B vh_saved_def)
qed

datatype hour_op = HourOffer string int i32 i64 | HourFlush | HourRestart string int

fun vh_do :: "hour_op \<Rightarrow> VisitorHourlyDB \<Rightarrow> VisitorHourlyDB" where
  "vh_do (HourOffer today hour objHash userid) db = vh_Offer today hour objHash userid db"
| "vh_do HourFlush db = vh_flush db"
| "vh_do (HourRestart today hour) db = NewVisitorHourlyDB today hour (vh_files (vh_flush db))"

definition ok_hours :: "hour_op list \<Rightarrow> bool" where
  "ok_hours ops \<longleftrightarrow> (\<forall>op \<in> set ops. case op of HourOffer _ hour _ _ \<Rightarrow> hour \<in> hours | HourRestart _ hour \<Rightarrow> hour \<in> hours | HourFlush \<Rightarrow> True)"

definition hour_visits :: "hour_op list \<Rightarrow> hour_visit list" where
  "hour_visits ops = rev (concat (map (\<lambda>op. case op of HourOffer d hr h u \<Rightarrow> [(d, hr, h, u)] | _ \<Rightarrow> []) ops))"

lemma vh_run_rep:
  assumes "ok_hours ops" and "hour \<in> hours"
  shows "vh_rep (fold vh_do ops (NewVisitorHourlyDB today hour (\<lambda>_. None))) (hour_visits ops)"
  using assms(1)
proof (induction ops rule: rev_induct)
  case Nil
  have "vh_saved (\<lambda>_. None) [] d hr" for d hr by (simp add: vh_saved_def hour_users_def loadHLL_none)
  then show ?case using assms(2) by (simp add: NewVisitorHourlyDB_def hour_visits_def vh_fresh_rep)
next
  case (snoc op ops)
  then have IH: "vh_rep (fold vh_do ops (NewVisitorHourlyDB today hour (\<lambda>_. None))) (hour_visits ops)" by (simp add: ok_hours_def)
  show ?case
  proof (cases op)
    case (HourOffer d hr h u)
    with vh_Offer_rep [OF IH, of hr d h u] snoc.prems show ?thesis by (simp add: hour_visits_def ok_hours_def)
  next
    case HourFlush
    with vh_flush_rep(1) [OF IH] show ?thesis by (simp add: hour_visits_def)
  next
    case (HourRestart d hr)
    with vh_fresh_rep [OF vh_flush_rep(2) [OF IH], of hr d] snoc.prems show ?thesis
      by (simp add: hour_visits_def NewVisitorHourlyDB_def ok_hours_def)
  qed
qed

text \<open>The visitors of a group of objects by the hour: those of the objects taken together.\<close>

lemma vh_counts:
  assumes "vh_rep db log"
  shows "hour \<in> hours \<Longrightarrow> LoadHour est date objHash hour (vh_flush db) = est (hll_of (hour_users log date hour objHash))"
    and "LoadAllHours est date hs (vh_flush db) = map (\<lambda>hour. est (hll_of (concat (map (hour_users log date (int hour)) hs)))) [0..<24]"
proof -
  note saved = vh_flush_rep(2) [OF assms, unfolded vh_saved_def, rule_format]
  show "hour \<in> hours \<Longrightarrow> LoadHour est date objHash hour (vh_flush db) = est (hll_of (hour_users log date hour objHash))"
    by (simp add: LoadHour_def saved)
  have "hll_registers (foldl (\<lambda>merged hash. hll_Merge merged (loadHLL (vh_files (vh_flush db)) date (hourKey (int hour) hash))) NewHLL hs) =
      hll_of (concat (map (hour_users log date (int hour)) hs))" if "hour < 24" for hour
    using Merge_group [of hs "\<lambda>hash. loadHLL (vh_files (vh_flush db)) date (hourKey (int hour) hash)" "hour_users log date (int hour)" NewHLL "[]"]
      saved [of "int hour"] that NewHLL_of(1) by (simp add: hours_def)
  then show "LoadAllHours est date hs (vh_flush db) = map (\<lambda>hour. est (hll_of (concat (map (hour_users log date (int hour)) hs)))) [0..<24]"
    unfolding LoadAllHours_def by (intro map_cong) simp_all
qed

end
