(* ===== verification/TagCount.thy ===== *)
theory TagCount
  imports XLogPack Decimal "HOL-Library.AList"
begin

text \<open>
  internal/tagcnt: the numbers of transactions of a day by service and by error, hour by hour (core.go), and
  their files (store.go). A counter is a \<open>float64\<close> to which 1 is added; below \<open>2 ^ 53\<close> it is the natural
  number taken here. Go maps are association lists; encoding/json is a pair of arguments, \<open>marshal\<close> and
  \<open>unmarshal\<close>. The date and the hour of a time are \<open>fmt\<close> and \<open>hour\<close>.
\<close>

subsection \<open>The store\<close>

type_synonym hourlyCounter = "nat list"

definition new_hourlyCounter :: hourlyCounter where "new_hourlyCounter = replicate 24 0"

type_synonym tag_values = "(i32 \<times> hourlyCounter) list"
type_synonym tag_files = "string \<times> string \<Rightarrow> bytes option"

definition ts_Save :: "((string \<times> hourlyCounter) list \<Rightarrow> bytes) \<Rightarrow> string \<Rightarrow> string \<Rightarrow> tag_values \<Rightarrow> tag_files \<Rightarrow> tag_files" where
  "ts_Save marshal date tagKey data disk =
     disk((date, tagKey) \<mapsto> marshal (foldl (\<lambda>entries (k, hc). AList.update (itoa (sint k)) hc entries) [] data))"

definition ts_Load :: "(bytes \<Rightarrow> (string \<times> hourlyCounter) list option) \<Rightarrow> string \<Rightarrow> string \<Rightarrow> tag_files \<Rightarrow> tag_values option" where
  "ts_Load unmarshal date tagKey disk = (case disk (date, tagKey) of
     None \<Rightarrow> None
   | Some bs \<Rightarrow> map_option (foldl (\<lambda>result (k, counts). AList.update (word_of_int (atoi k)) counts result) []) (unmarshal bs))"

subsection \<open>The counting\<close>

definition maxTopN :: nat where "maxTopN = 100"

definition TagKeyServiceTotal :: string where "TagKeyServiceTotal = ''service.total''"
definition TagKeyServiceService :: string where "TagKeyServiceService = ''service.service''"
definition TagKeyErrorTotal :: string where "TagKeyErrorTotal = ''error.total''"
definition TagKeyErrorError :: string where "TagKeyErrorError = ''error.error''"

type_synonym date_data = "(string \<times> tag_values) list"

record TagCountCore =
  tc_disk :: tag_files
  tc_data :: "(string \<times> date_data) list"
  tc_lastDate :: string

definition NewTagCountCore :: "string \<Rightarrow> tag_files \<Rightarrow> TagCountCore" where
  "NewTagCountCore today disk = \<lparr>tc_disk = disk, tc_data = [], tc_lastDate = today\<rparr>"

definition tc_increment :: "string \<Rightarrow> i32 \<Rightarrow> nat \<Rightarrow> date_data \<Rightarrow> date_data" where
  "tc_increment tagKey tagValue hour dateData =
     (let keyData = (case map_of dateData tagKey of Some m \<Rightarrow> m | None \<Rightarrow> []);
          dateData = AList.update tagKey keyData dateData
      in if map_of keyData tagValue = None \<and> maxTopN \<le> length keyData then dateData
         else let hc = (case map_of keyData tagValue of Some hc \<Rightarrow> hc | None \<Rightarrow> new_hourlyCounter)
           in AList.update tagKey (AList.update tagValue (hc[hour := hc ! hour + 1]) keyData) dateData)"

definition tc_flushLocked :: "((string \<times> hourlyCounter) list \<Rightarrow> bytes) \<Rightarrow> TagCountCore \<Rightarrow> TagCountCore" where
  "tc_flushLocked marshal tc = tc\<lparr>tc_disk :=
     foldl (\<lambda>disk (date, dateData). foldl (\<lambda>disk (tagKey, keyData). ts_Save marshal date tagKey keyData disk) disk dateData)
       (tc_disk tc) (tc_data tc)\<rparr>"

definition tc_count :: "XLogPack \<Rightarrow> nat \<Rightarrow> date_data \<Rightarrow> date_data" where
  "tc_count xp hour dateData =
     (let dateData = tc_increment TagKeyServiceTotal 0 hour dateData;
          dateData = (if xlog_Service xp \<noteq> 0 then tc_increment TagKeyServiceService (xlog_Service xp) hour dateData else dateData)
      in if xlog_Error xp \<noteq> 0
         then tc_increment TagKeyErrorError (xlog_Error xp) hour (tc_increment TagKeyErrorTotal 0 hour dateData) else dateData)"

definition tc_process :: "((string \<times> hourlyCounter) list \<Rightarrow> bytes) \<Rightarrow> (i64 \<Rightarrow> string) \<Rightarrow> (i64 \<Rightarrow> nat) \<Rightarrow> XLogPack \<Rightarrow> TagCountCore \<Rightarrow> TagCountCore" where
  "tc_process marshal fmt hour xp tc =
     (let date = fmt (xlog_EndTime xp); hr = hour (xlog_EndTime xp);
          tc = (if date \<noteq> tc_lastDate tc then (tc_flushLocked marshal tc)\<lparr>tc_data := [], tc_lastDate := date\<rparr> else tc);
          dateData = (case map_of (tc_data tc) date of Some m \<Rightarrow> m | None \<Rightarrow> [])
      in tc\<lparr>tc_data := AList.update date (tc_count xp hr dateData) (tc_data tc)\<rparr>)"

definition tc_Flush :: "((string \<times> hourlyCounter) list \<Rightarrow> bytes) \<Rightarrow> TagCountCore \<Rightarrow> TagCountCore" where
  "tc_Flush = tc_flushLocked"

subsection \<open>What is counted\<close>

text \<open>
  The transactions that were counted, the newest first: hour, service and error. Of the values of a key the
  first hundred are counted.
\<close>

type_synonym tagged = "nat \<times> i32 \<times> i32"

definition tag_values :: "string \<Rightarrow> tagged \<Rightarrow> i32 list" where
  "tag_values tagKey x = (case x of (_, service, error) \<Rightarrow>
     if tagKey = TagKeyServiceTotal then [0]
     else if tagKey = TagKeyServiceService then (if service \<noteq> 0 then [service] else [])
     else if tagKey = TagKeyErrorTotal then (if error \<noteq> 0 then [0] else [])
     else if tagKey = TagKeyErrorError then (if error \<noteq> 0 then [error] else [])
     else [])"

definition tag_seen :: "string \<Rightarrow> tagged list \<Rightarrow> i32 list" where
  "tag_seen tagKey xs = rev (remdups (concat (map (tag_values tagKey) xs)))"

definition tag_tops :: "string \<Rightarrow> tagged list \<Rightarrow> i32 list" where
  "tag_tops tagKey xs = take maxTopN (tag_seen tagKey xs)"

definition tag_hours :: "string \<Rightarrow> i32 \<Rightarrow> tagged list \<Rightarrow> hourlyCounter" where
  "tag_hours tagKey v xs = map (\<lambda>h. length (filter (\<lambda>x. fst x = h \<and> v \<in> set (tag_values tagKey x)) xs)) [0..<24]"

definition tag_count :: "string \<Rightarrow> tagged list \<Rightarrow> i32 \<Rightarrow> hourlyCounter option" where
  "tag_count tagKey xs v = (if v \<in> set (tag_tops tagKey xs) then Some (tag_hours tagKey v xs) else None)"

definition key_rep :: "tag_values \<Rightarrow> string \<Rightarrow> tagged list \<Rightarrow> bool" where
  "key_rep m tagKey xs \<longleftrightarrow> map fst m = tag_tops tagKey xs \<and> map_of m = tag_count tagKey xs"

definition date_rep :: "date_data \<Rightarrow> tagged list \<Rightarrow> bool" where
  "date_rep dd xs \<longleftrightarrow> distinct (map fst dd) \<and> (\<forall>key. case map_of dd key of
       Some m \<Rightarrow> key_rep m key xs \<and> m \<noteq> [] | None \<Rightarrow> tag_seen key xs = [])"

definition inc_key :: "i32 \<Rightarrow> nat \<Rightarrow> tag_values \<Rightarrow> tag_values" where
  "inc_key v hour m = (if map_of m v = None \<and> maxTopN \<le> length m then m
     else let hc = (case map_of m v of Some hc \<Rightarrow> hc | None \<Rightarrow> new_hourlyCounter)
       in AList.update v (hc[hour := hc ! hour + 1]) m)"

definition get_key :: "date_data \<Rightarrow> string \<Rightarrow> tag_values" where
  "get_key dd key = (case map_of dd key of Some m \<Rightarrow> m | None \<Rightarrow> [])"

lemma map_of_increment:
  "map_of (tc_increment key v hour dd) = (map_of dd)(key \<mapsto> inc_key v hour (get_key dd key))"
  by (simp add: tc_increment_def inc_key_def get_key_def Let_def update_conv')

lemma distinct_increment: "distinct (map fst dd) \<Longrightarrow> distinct (map fst (tc_increment key v hour dd))"
  by (simp add: tc_increment_def Let_def distinct_update)

lemmas tag_keys = TagKeyServiceTotal_def TagKeyServiceService_def TagKeyErrorTotal_def TagKeyErrorError_def

lemma map_of_count:
  "map_of (tc_count xp hour dd) key = (case tag_values key (hour, xlog_Service xp, xlog_Error xp) of
     [] \<Rightarrow> map_of dd key | v # _ \<Rightarrow> Some (inc_key v hour (get_key dd key)))"
  by (auto simp: tc_count_def tag_values_def map_of_increment get_key_def tag_keys Let_def)

lemma distinct_count: "distinct (map fst dd) \<Longrightarrow> distinct (map fst (tc_count xp hour dd))"
  by (simp add: tc_count_def Let_def distinct_increment)

lemma tag_values_cases: "tag_values key x = [] \<or> (\<exists>v. tag_values key x = [v])"
  by (auto simp: tag_values_def split: prod.split)

lemma tag_seen_Cons:
  "tag_values key x = [] \<Longrightarrow> tag_seen key (x # xs) = tag_seen key xs"
  "tag_values key x = [v] \<Longrightarrow> tag_seen key (x # xs) = (if v \<in> set (tag_seen key xs) then tag_seen key xs else tag_seen key xs @ [v])"
  by (simp_all add: tag_seen_def)

lemma tag_hours_Cons:
  assumes "fst x < 24"
  shows "tag_hours key v (x # xs) = (if v \<in> set (tag_values key x) then (tag_hours key v xs)[fst x := tag_hours key v xs ! fst x + 1]
    else tag_hours key v xs)"
  using assms by (auto simp: tag_hours_def nth_list_update intro!: nth_equalityI)

lemma tag_hours_unseen: "v \<notin> set (tag_seen key xs) \<Longrightarrow> tag_hours key v xs = new_hourlyCounter"
proof -
  assume "v \<notin> set (tag_seen key xs)"
  then have "filter (\<lambda>x. fst x = h \<and> v \<in> set (tag_values key x)) xs = []" for h
    by (auto simp: tag_seen_def filter_empty_conv)
  then show ?thesis by (simp add: tag_hours_def new_hourlyCounter_def map_replicate_const)
qed

lemma key_rep_skip: "tag_values key x = [] \<Longrightarrow> fst x < 24 \<Longrightarrow> key_rep m key (x # xs) = key_rep m key xs"
  by (simp add: key_rep_def tag_tops_def tag_count_def tag_seen_Cons tag_hours_Cons fun_eq_iff)

lemma key_rep_new: "tag_seen key xs = [] \<Longrightarrow> key_rep [] key xs"
  by (simp add: key_rep_def tag_tops_def tag_count_def fun_eq_iff)

lemma keys_update: "map fst (AList.update k v m) = (if k \<in> set (map fst m) then map fst m else map fst m @ [k])"
  by (induction m) auto

lemma key_rep_inc:
  assumes "key_rep m key xs" and "tag_values key x = [v]" and "fst x < 24"
  shows "key_rep (inc_key v (fst x) m) key (x # xs)"
proof -
  let ?seen = "tag_seen key xs"
  have m: "map fst m = take maxTopN ?seen" "map_of m = tag_count key xs" using assms(1) by (simp_all add: key_rep_def tag_tops_def)
  have len: "length m = min (length ?seen) maxTopN" using arg_cong [OF m(1), of length] by simp
  have none: "map_of m v = None \<longleftrightarrow> v \<notin> set (take maxTopN ?seen)" by (simp add: m(2) tag_count_def tag_tops_def)
  have hours: "tag_hours key w (x # xs) = (if w = v then (tag_hours key v xs)[fst x := tag_hours key v xs ! fst x + 1] else tag_hours key w xs)" for w
    using tag_hours_Cons [OF assms(3), of key w xs] assms(2) by simp
  show ?thesis
  proof (cases "v \<in> set (take maxTopN ?seen)")
    case True
    then have seen: "tag_tops key (x # xs) = take maxTopN ?seen"
      using in_set_takeD [OF True] by (simp add: tag_tops_def tag_seen_Cons(2) [OF assms(2)])
    have "map_of m v = Some (tag_hours key v xs)" using True by (simp add: m(2) tag_count_def tag_tops_def)
    then have "inc_key v (fst x) m = AList.update v ((tag_hours key v xs)[fst x := tag_hours key v xs ! fst x + 1]) m"
      by (simp add: inc_key_def Let_def)
    then show ?thesis using True seen by (simp add: key_rep_def keys_update m update_conv' tag_count_def fun_eq_iff hours tag_tops_def)
  next
    case False
    show ?thesis
    proof (cases "length ?seen < maxTopN")
      case True
      with False have new: "v \<notin> set ?seen" by simp
      then have seen: "tag_tops key (x # xs) = ?seen @ [v]" using True by (simp add: tag_tops_def tag_seen_Cons(2) [OF assms(2)])
      have "inc_key v (fst x) m = AList.update v (new_hourlyCounter[fst x := new_hourlyCounter ! fst x + 1]) m"
        using False True len none by (simp add: inc_key_def)
      then show ?thesis using True new seen
        by (simp add: key_rep_def keys_update m update_conv' tag_count_def fun_eq_iff hours tag_tops_def tag_hours_unseen)
    next
      case full: False
      then have "tag_tops key (x # xs) = take maxTopN ?seen" by (simp add: tag_tops_def tag_seen_Cons(2) [OF assms(2)])
      moreover have "inc_key v (fst x) m = m" using False full len none by (simp add: inc_key_def)
      ultimately show ?thesis using False by (auto simp: key_rep_def m tag_count_def fun_eq_iff hours tag_tops_def)
    qed
  qed
qed

lemma inc_key_some: "m \<noteq> [] \<or> length m < maxTopN \<Longrightarrow> inc_key v hour m \<noteq> []"
  by (cases m) (auto simp: inc_key_def Let_def maxTopN_def)

lemma date_rep_count:
  assumes "date_rep dd xs" and "hour < 24"
  shows "date_rep (tc_count xp hour dd) ((hour, xlog_Service xp, xlog_Error xp) # xs)"
proof -
  let ?x = "(hour, xlog_Service xp, xlog_Error xp)"
  have case_dd: "case map_of dd key of Some m \<Rightarrow> key_rep m key xs \<and> m \<noteq> [] | None \<Rightarrow> tag_seen key xs = []" for key
    using assms(1) by (simp add: date_rep_def)
  have dd: "distinct (map fst dd)" "map_of dd key = Some m \<Longrightarrow> key_rep m key xs \<and> m \<noteq> []"
    "map_of dd key = None \<Longrightarrow> tag_seen key xs = []" for key m
    using assms(1) case_dd [of key] by (simp_all add: date_rep_def)
  have get: "key_rep (get_key dd key) key xs" for key
    using dd(2,3) key_rep_new by (auto simp: get_key_def split: option.split)
  have "case map_of (tc_count xp hour dd) key of Some m \<Rightarrow> key_rep m key (?x # xs) \<and> m \<noteq> [] | None \<Rightarrow> tag_seen key (?x # xs) = []" for key
    using tag_values_cases [of key ?x]
  proof
    assume skip: "tag_values key ?x = []"
    then show ?thesis using dd(2,3) assms(2)
      by (auto simp: map_of_count key_rep_skip tag_seen_Cons split: option.split)
  next
    assume "\<exists>v. tag_values key ?x = [v]"
    then obtain v where v: "tag_values key ?x = [v]" by blast
    have "key_rep (inc_key v hour (get_key dd key)) key (?x # xs)" using key_rep_inc [OF get v] assms(2) by simp
    moreover have "inc_key v hour (get_key dd key) \<noteq> []"
      using dd(2) by (intro inc_key_some) (auto simp: get_key_def maxTopN_def split: option.split)
    ultimately show ?thesis by (simp add: map_of_count v)
  qed
  then show ?thesis using dd(1) by (simp add: date_rep_def distinct_count)
qed

subsection \<open>The files\<close>

text \<open>What is relied on of encoding/json: a map that was written is read back, in some order.\<close>

definition json_ok :: "((string \<times> hourlyCounter) list \<Rightarrow> bytes) \<Rightarrow> (bytes \<Rightarrow> (string \<times> hourlyCounter) list option) \<Rightarrow> bool" where
  "json_ok marshal unmarshal \<longleftrightarrow> (\<forall>m. distinct (map fst m) \<longrightarrow>
     (\<exists>m'. unmarshal (marshal m) = Some m' \<and> distinct (map fst m') \<and> map_of m' = map_of m))"

lemma itoa_key [simp]: "sint v = sint w \<longleftrightarrow> v = w" for v w :: i32
  by (auto intro: signed_word_eqI)

lemma save_entries:
  "distinct (map fst acc) \<Longrightarrow> distinct (map fst data) \<Longrightarrow>
   distinct (map fst (foldl (\<lambda>entries (k :: i32, hc). AList.update (itoa (sint k)) hc entries) acc data)) \<and>
   map_of (foldl (\<lambda>entries (k :: i32, hc). AList.update (itoa (sint k)) hc entries) acc data) s =
     (case find (\<lambda>(k, hc). itoa (sint k) = s) data of Some (k, hc) \<Rightarrow> Some hc | None \<Rightarrow> map_of acc s)"
proof (induction data arbitrary: acc)
  case (Cons kh data)
  obtain k hc where kh: "kh = (k, hc)" by (cases kh)
  have "find (\<lambda>(k, hc). itoa (sint k) = itoa (sint k')) data = None" if "k' = k" for k'
    using Cons.prems(2) that by (auto simp: find_None_iff kh itoa_key image_iff)
  then show ?case using Cons.IH [of "AList.update (itoa (sint k)) hc acc"] Cons.prems
    by (auto simp: kh distinct_update update_conv' split: option.split)
qed simp

lemma find_map_of: "find (\<lambda>(k, hc). k = v) data = map_option (\<lambda>hc. (v, hc)) (map_of data v)"
  by (induction data) auto

lemma load_entries:
  assumes "distinct (map fst es)" and "\<And>s. s \<in> fst ` set es \<Longrightarrow> \<exists>v :: i32. s = itoa (sint v)"
  shows "map_of (foldl (\<lambda>result (k, counts). AList.update (word_of_int (atoi k) :: i32) counts result) acc es) v =
    (case map_of es (itoa (sint v)) of Some c \<Rightarrow> Some c | None \<Rightarrow> map_of acc v)"
  using assms
proof (induction es arbitrary: acc)
  case (Cons e es)
  obtain k c where e: "e = (k, c)" by (cases e)
  obtain w :: i32 where w: "k = itoa (sint w)" using Cons.prems(2) [of k] by (auto simp: e)
  have "map_of es (itoa (sint w)) = None" using Cons.prems(1) by (simp add: e w map_of_eq_None_iff)
  then show ?case using Cons.IH [of "AList.update w c acc"] Cons.prems
    by (auto simp: e w update_conv' itoa_key split: option.split)
qed simp

lemma load_saved:
  assumes "json_ok marshal unmarshal" and "distinct (map fst data)"
  shows "map_option map_of (ts_Load unmarshal date key (ts_Save marshal date key data disk)) = Some (map_of data)"
proof -
  let ?es = "foldl (\<lambda>entries (k, hc). AList.update (itoa (sint k)) hc entries) [] data"
  have es: "distinct (map fst ?es)" "map_of ?es s = (case find (\<lambda>(k, hc). itoa (sint k) = s) data of Some (k, hc) \<Rightarrow> Some hc | None \<Rightarrow> None)" for s
    using save_entries [OF _ assms(2), of "[]"] by (simp, simp split: option.split)
  obtain m' where m': "unmarshal (marshal ?es) = Some m'" "distinct (map fst m')" "map_of m' = map_of ?es"
    using assms(1) es(1) by (auto simp: json_ok_def)
  have "\<exists>v :: i32. s = itoa (sint v)" if "s \<in> fst ` set m'" for s
  proof -
    have "map_of m' s \<noteq> None" using that by (simp add: map_of_eq_None_iff)
    then have "find (\<lambda>(k, hc). itoa (sint k) = s) data \<noteq> None" unfolding m'(3) es(2) by (auto split: option.splits)
    then show ?thesis by (auto simp: find_None_iff)
  qed
  from load_entries [OF m'(2) this, of "[]"] have "map_of (foldl (\<lambda>result (k, counts). AList.update (word_of_int (atoi k)) counts result) [] m') v =
      map_of data v" for v :: i32
    by (simp add: m'(3) es(2) find_map_of split: option.split)
  then show ?thesis using m'(1) by (simp add: ts_Load_def ts_Save_def fun_eq_iff)
qed

lemma load_other: "(d, k) \<noteq> (date, key) \<Longrightarrow> ts_Load unmarshal d k (ts_Save marshal date key data disk) = ts_Load unmarshal d k disk"
  by (auto simp: ts_Load_def ts_Save_def)

lemma load_flushed:
  assumes "json_ok marshal unmarshal" and "distinct (map fst dd)" and "\<forall>(key, m) \<in> set dd. distinct (map fst m)"
  shows "map_option map_of (ts_Load unmarshal d k (foldl (\<lambda>disk (tagKey, keyData). ts_Save marshal date tagKey keyData disk) disk dd)) =
    (case (if d = date then map_of dd k else None) of Some m \<Rightarrow> Some (map_of m) | None \<Rightarrow> map_option map_of (ts_Load unmarshal d k disk))"
  using assms(2,3)
proof (induction dd arbitrary: disk)
  case (Cons e dd)
  obtain key m where e: "e = (key, m)" by (cases e)
  have none: "map_of dd key = None" using Cons.prems(1) by (simp add: e map_of_eq_None_iff)
  have "distinct (map fst dd)" "\<forall>(key, m) \<in> set dd. distinct (map fst m)" "distinct (map fst m)"
    using Cons.prems by (auto simp: e)
  note IH = Cons.IH [OF this(1,2), where disk = "ts_Save marshal date key m disk"] and saved = load_saved [OF assms(1) this(3), where date = date and key = key and disk = disk]
  show ?case
  proof (cases "(d, k) = (date, key)")
    case True
    then show ?thesis using IH none saved by (simp add: e)
  next
    case False
    then show ?thesis using IH load_other [OF False, of unmarshal marshal m disk] by (auto simp: e split: option.split)
  qed
qed simp

subsection \<open>Sequences of transactions\<close>

datatype tag_op = TagXLog XLogPack | TagFlush | TagRestart string

fun tc_do :: "((string \<times> hourlyCounter) list \<Rightarrow> bytes) \<Rightarrow> (i64 \<Rightarrow> string) \<Rightarrow> (i64 \<Rightarrow> nat) \<Rightarrow> tag_op \<Rightarrow> TagCountCore \<Rightarrow> TagCountCore" where
  "tc_do marshal fmt hour (TagXLog xp) tc = tc_process marshal fmt hour xp tc"
| "tc_do marshal fmt hour TagFlush tc = tc_Flush marshal tc"
| "tc_do marshal fmt hour (TagRestart today) tc = NewTagCountCore today (tc_disk tc)"

text \<open>
  The transactions behind every file, and those that are counted in memory: those since the last restart or
  change of the date, which replace what was in the files of their date.
\<close>

record tag_spec =
  sp_saved :: "string \<Rightarrow> string \<Rightarrow> tagged list"
  sp_date :: string
  sp_cur :: "tagged list"

definition sp_flush :: "tag_spec \<Rightarrow> tag_spec" where
  "sp_flush s = s\<lparr>sp_saved := (\<lambda>d key. if d = sp_date s \<and> tag_seen key (sp_cur s) \<noteq> [] then sp_cur s else sp_saved s d key)\<rparr>"

fun sp_do :: "(i64 \<Rightarrow> string) \<Rightarrow> (i64 \<Rightarrow> nat) \<Rightarrow> tag_op \<Rightarrow> tag_spec \<Rightarrow> tag_spec" where
  "sp_do fmt hour (TagXLog xp) s =
     (let date = fmt (xlog_EndTime xp); x = (hour (xlog_EndTime xp), xlog_Service xp, xlog_Error xp)
      in if date \<noteq> sp_date s then (sp_flush s)\<lparr>sp_date := date, sp_cur := [x]\<rparr> else s\<lparr>sp_cur := x # sp_cur s\<rparr>)"
| "sp_do fmt hour TagFlush s = sp_flush s"
| "sp_do fmt hour (TagRestart today) s = s\<lparr>sp_date := today, sp_cur := []\<rparr>"

definition file_counts :: "string \<Rightarrow> tagged list \<Rightarrow> (i32 \<rightharpoonup> hourlyCounter) option" where
  "file_counts key xs = (if tag_seen key xs = [] then None else Some (tag_count key xs))"

definition tc_rep :: "(bytes \<Rightarrow> (string \<times> hourlyCounter) list option) \<Rightarrow> TagCountCore \<Rightarrow> tag_spec \<Rightarrow> bool" where
  "tc_rep unmarshal tc s \<longleftrightarrow> tc_lastDate tc = sp_date s \<and>
     (\<forall>date key. map_option map_of (ts_Load unmarshal date key (tc_disk tc)) = file_counts key (sp_saved s date key)) \<and>
     (if sp_cur s = [] then tc_data tc = [] else (\<exists>dd. tc_data tc = [(sp_date s, dd)] \<and> date_rep dd (sp_cur s)))"

lemma key_rep_distinct: "key_rep m key xs \<Longrightarrow> distinct (map fst m)"
  by (simp add: key_rep_def tag_tops_def tag_seen_def)

lemma tc_flush_rep:
  assumes "tc_rep unmarshal tc s" and "json_ok marshal unmarshal"
  shows "tc_rep unmarshal (tc_flushLocked marshal tc) (sp_flush s)"
proof (cases "sp_cur s = []")
  case True
  then show ?thesis using assms(1) by (simp add: tc_rep_def tc_flushLocked_def sp_flush_def tag_seen_def)
next
  case False
  then obtain dd where dd: "tc_data tc = [(sp_date s, dd)]" "date_rep dd (sp_cur s)" using assms(1) by (auto simp: tc_rep_def)
  have case_dd: "case map_of dd key of Some m \<Rightarrow> key_rep m key (sp_cur s) \<and> m \<noteq> [] | None \<Rightarrow> tag_seen key (sp_cur s) = []" for key
    using dd(2) by (simp add: date_rep_def)
  have dist: "distinct (map fst dd)" using dd(2) by (simp add: date_rep_def)
  have m: "key_rep m key (sp_cur s)" if "(key, m) \<in> set dd" for key m
    using case_dd [of key] map_of_is_SomeI [OF dist that] by simp
  have seen: "tag_seen key (sp_cur s) \<noteq> []" if "map_of dd key = Some m" for key m
    using case_dd [of key] that by (auto simp: key_rep_def tag_tops_def)
  have m_dist: "\<forall>(key, m) \<in> set dd. distinct (map fst m)" using m key_rep_distinct by blast
  have load: "map_option map_of (ts_Load unmarshal d k (tc_disk (tc_flushLocked marshal tc))) =
      file_counts k (sp_saved (sp_flush s) d k)" for d k
  proof -
    have "map_option map_of (ts_Load unmarshal d k (tc_disk (tc_flushLocked marshal tc))) =
        (case (if d = sp_date s then map_of dd k else None) of Some m \<Rightarrow> Some (map_of m) | None \<Rightarrow> file_counts k (sp_saved s d k))"
      using load_flushed [OF assms(2) dist m_dist, where d = d and k = k and date = "sp_date s" and disk = "tc_disk tc"] assms(1)
      by (auto simp: tc_flushLocked_def dd(1) tc_rep_def split: option.split)
    also have "\<dots> = file_counts k (sp_saved (sp_flush s) d k)"
      using case_dd [of k] seen [of k] by (auto simp: sp_flush_def file_counts_def key_rep_def split: option.splits)
    finally show ?thesis .
  qed
  then show ?thesis using assms(1) dd False by (simp add: tc_rep_def) (simp add: tc_flushLocked_def sp_flush_def)
qed

lemma date_rep_new: "date_rep [] []"
  by (simp add: date_rep_def tag_seen_def)

lemma tc_do_rep:
  assumes "tc_rep unmarshal tc s" and "json_ok marshal unmarshal" and "\<And>t. hour t < 24"
  shows "tc_rep unmarshal (tc_do marshal fmt hour op tc) (sp_do fmt hour op s)"
proof (cases op)
  case (TagXLog xp)
  let ?date = "fmt (xlog_EndTime xp)" and ?hr = "hour (xlog_EndTime xp)"
  let ?x = "(?hr, xlog_Service xp, xlog_Error xp)"
  show ?thesis
  proof (cases "?date = sp_date s")
    case True
    obtain dd where dd: "(case map_of (tc_data tc) ?date of Some m \<Rightarrow> m | None \<Rightarrow> []) = dd" "date_rep dd (sp_cur s)"
      "AList.update ?date (tc_count xp ?hr dd) (tc_data tc) = [(?date, tc_count xp ?hr dd)]"
      using assms(1) True date_rep_new by (cases "sp_cur s = []") (auto simp: tc_rep_def)
    from date_rep_count [OF dd(2) assms(3)] dd(1,3) show ?thesis using assms(1) True
      by (simp add: TagXLog tc_process_def tc_rep_def Let_def)
  next
    case False
    from date_rep_count [OF date_rep_new assms(3)] have "date_rep (tc_count xp ?hr []) [?x]" .
    then show ?thesis using tc_flush_rep [OF assms(1,2)] False assms(1)
      by (simp add: TagXLog tc_process_def tc_rep_def Let_def)
  qed
next
  case TagFlush
  with tc_flush_rep [OF assms(1,2)] show ?thesis by (simp add: tc_Flush_def)
next
  case (TagRestart today)
  then show ?thesis using assms(1) by (simp add: tc_rep_def NewTagCountCore_def)
qed

definition no_tags :: "string \<Rightarrow> tag_spec" where
  "no_tags today = \<lparr>sp_saved = (\<lambda>_ _. []), sp_date = today, sp_cur = []\<rparr>"

lemma tc_run_rep:
  assumes "json_ok marshal unmarshal" and "\<And>t. hour t < 24"
  shows "tc_rep unmarshal (fold (tc_do marshal fmt hour) ops (NewTagCountCore today (\<lambda>_. None))) (fold (sp_do fmt hour) ops (no_tags today))"
proof (induction ops rule: rev_induct)
  case Nil
  show ?case by (simp add: tc_rep_def NewTagCountCore_def no_tags_def file_counts_def tag_seen_def ts_Load_def)
next
  case (snoc op ops)
  from tc_do_rep [OF this assms] show ?case by simp
qed

lemma tc_saved:
  assumes "json_ok marshal unmarshal" and "\<And>t. hour t < 24"
  shows "map_option map_of (ts_Load unmarshal date key (tc_disk (tc_Flush marshal (fold (tc_do marshal fmt hour) ops (NewTagCountCore today (\<lambda>_. None)))))) =
    file_counts key (sp_saved (sp_flush (fold (sp_do fmt hour) ops (no_tags today))) date key)"
  using tc_flush_rep [OF tc_run_rep [OF assms] assms(1)] by (simp add: tc_Flush_def tc_rep_def)

text \<open>
  A transaction of the day before that comes after one of the new day: the files of the day before are
  replaced by files that count it alone.
\<close>

lemma late_transaction:
  assumes "json_ok marshal unmarshal" and "\<And>t. hour t < 24"
    and "fmt (xlog_EndTime x1) = d1" and "fmt (xlog_EndTime x2) = d2" and "fmt (xlog_EndTime x3) = d1" and "d1 \<noteq> d2"
  shows "map_option map_of (ts_Load unmarshal d1 TagKeyServiceTotal (tc_disk (tc_Flush marshal
      (fold (tc_do marshal fmt hour) [TagXLog x1, TagXLog x2, TagXLog x3] (NewTagCountCore d1 (\<lambda>_. None)))))) =
    Some [0 \<mapsto> new_hourlyCounter[hour (xlog_EndTime x3) := 1]]"
proof -
  let ?x = "(hour (xlog_EndTime x3), xlog_Service x3, xlog_Error x3)"
  have "tag_count TagKeyServiceTotal [?x] = [0 \<mapsto> new_hourlyCounter[hour (xlog_EndTime x3) := 1]]"
    using tag_hours_Cons [of ?x TagKeyServiceTotal 0 "[]"] assms(2)
    by (auto simp: tag_count_def tag_tops_def tag_seen_def tag_values_def maxTopN_def tag_hours_def new_hourlyCounter_def fun_eq_iff
        map_replicate_const)
  then show ?thesis using assms(3-6)
    unfolding tc_saved [OF assms(1,2)] by (simp add: no_tags_def sp_flush_def file_counts_def tag_seen_def tag_values_def Let_def)
qed

end
