(* ===== verification/GroupPerf.thy ===== *)
theory GroupPerf
  imports XLogPack HashUtil TextCache TextDb "HOL-Library.AList"
begin

text \<open>
  internal/core/xlog\_group\_util.go derives the service group of a transaction from its URL;
  internal/core/xlog\_group\_perf.go adds up the transactions of the last seconds by group. The text cache and
  the text reader are shared with other components and passed along. \<open>strings.ToLower\<close> is the argument
  \<open>lower\<close>; an eviction that takes the first key of a map iteration takes the key that \<open>pick\<close> gives. The
  clock is in seconds or milliseconds since 1970, and not before. Counters of diagnostics are left out.
\<close>

subsection \<open>The group of a URL\<close>

definition imageExts :: "string list" where "imageExts = [''gif'', ''jpg'', ''png'', ''bmp'', ''ico'']"
definition staticExts :: "string list" where "staticExts = [''html'', ''htm'', ''css'', ''xml'', ''js'']"
definition groupMapMax :: nat where "groupMapMax = 50000"

definition hJsp :: i32 where "hJsp = HashString ''*.jsp''"
definition hImages :: i32 where "hImages = HashString ''images''"
definition hStatics :: i32 where "hStatics = HashString ''statics''"
definition hRoot :: i32 where "hRoot = HashString ''/**''"

record XLogGroupUtil =
  gu_groupMap :: "(i32 \<times> i32) list"
  gu_diskSearched :: "i32 list"
  gu_hasTextRD :: bool

definition NewXLogGroupUtil :: "bool \<Rightarrow> TextCache \<Rightarrow> XLogGroupUtil \<times> TextCache" where
  "NewXLogGroupUtil hasTextRD c =
     (\<lparr>gu_groupMap = [], gu_diskSearched = [], gu_hasTextRD = hasTextRD\<rparr>,
      tc_Put ''group'' hRoot ''/**'' (tc_Put ''group'' hStatics ''statics'' (tc_Put ''group'' hImages ''images''
        (tc_Put ''group'' (HashString ''**'') ''**'' (tc_Put ''group'' hJsp ''*.jsp'' c)))))"

text \<open>\<open>strings.Index\<close> and \<open>strings.LastIndex\<close> of one character.\<close>

fun index_of :: "char \<Rightarrow> string \<Rightarrow> nat option" where
  "index_of c [] = None"
| "index_of c (x # xs) = (if x = c then Some 0 else map_option Suc (index_of c xs))"

definition last_index_of :: "char \<Rightarrow> string \<Rightarrow> nat option" where
  "last_index_of c s = map_option (\<lambda>i. length s - 1 - i) (index_of c (rev s))"

text \<open>The group of a file extension.\<close>

definition ext_group :: "(string \<Rightarrow> string) \<Rightarrow> string \<Rightarrow> i32 option" where
  "ext_group lower ext = (if lower ext = ''jsp'' then Some hJsp
     else if lower ext \<in> set imageExts then Some hImages else if lower ext \<in> set staticExts then Some hStatics else None)"

definition getGroupHash :: "(string \<Rightarrow> string) \<Rightarrow> string \<Rightarrow> TextCache \<Rightarrow> i32 \<times> TextCache" where
  "getGroupHash lower url c =
     (if url = [] then (0, c)
      else
        let ext = (case last_index_of CHR ''.'' url of
            Some x \<Rightarrow> if 0 < x
              then ext_group lower (drop (x + 1) url)
              else None
          | None \<Rightarrow> None)
        in case ext of
            Some h \<Rightarrow> (h, c)
          | None \<Rightarrow>
              if url = ''/'' \<or> url = [] then (hRoot, c)
              else (case index_of CHR ''/'' (drop 1 url) of
                  None \<Rightarrow> (hRoot, c)
                | Some x1 \<Rightarrow> let groupName = take (x1 + 1) url; grpHash = HashString groupName
                    in (grpHash, tc_Put ''group'' grpHash groupName c)))"

definition cacheGroupHash :: "((i32 \<times> i32) list \<Rightarrow> i32) \<Rightarrow> i32 \<Rightarrow> i32 \<Rightarrow> XLogGroupUtil \<Rightarrow> XLogGroupUtil" where
  "cacheGroupHash pick service groupHash g =
     (let m = (if groupMapMax \<le> length (gu_groupMap g) then AList.delete (pick (gu_groupMap g)) (gu_groupMap g) else gu_groupMap g)
      in g\<lparr>gu_groupMap := AList.update service groupHash m\<rparr>)"

text \<open>The first search of a service on the disk, which is left to a goroutine; whether there is one.\<close>

definition gu_markSearched :: "(i32 list \<Rightarrow> i32) \<Rightarrow> i32 \<Rightarrow> XLogGroupUtil \<Rightarrow> bool \<times> XLogGroupUtil" where
  "gu_markSearched pick service g =
     (if service \<in> set (gu_diskSearched g) then (False, g)
      else let s = service # gu_diskSearched g
        in (True, g\<lparr>gu_diskSearched := (if groupMapMax < length s then remove1 (pick s) s else s)\<rparr>))"

definition makeGroupHash :: "(string \<Rightarrow> string) \<Rightarrow> ((i32 \<times> i32) list \<Rightarrow> i32) \<Rightarrow> (i32 list \<Rightarrow> i32) \<Rightarrow> i32 \<Rightarrow>
    XLogGroupUtil \<Rightarrow> TextCache \<Rightarrow> i32 \<times> bool \<times> XLogGroupUtil \<times> TextCache" where
  "makeGroupHash lower pick pick' service g c = (case map_of (gu_groupMap g) service of
     Some groupHash \<Rightarrow> (groupHash, False, g, c)
   | None \<Rightarrow>
       let (url, c) = tc_Get ''service'' service c;
           (search, g) = (if url = None \<and> gu_hasTextRD g then gu_markSearched pick' service g else (False, g))
       in (case url of
            Some u \<Rightarrow> if u = [] then (0, search, g, c)
              else let (groupHash, c) = getGroupHash lower u c in (groupHash, search, cacheGroupHash pick service groupHash g, c)
          | None \<Rightarrow> (0, search, g, c)))"

text \<open>The goroutine that searches the disk.\<close>

definition gu_searchDisk :: "(string \<Rightarrow> int) \<Rightarrow> perm_files \<Rightarrow> i32 \<Rightarrow> TextRD \<Rightarrow> TextCache \<Rightarrow> (TextRD \<times> TextCache) option" where
  "gu_searchDisk mb disk svc r c = map_option (\<lambda>(diskTxt, r). (r, case diskTxt of
       Ok t \<Rightarrow> if t \<noteq> [] then tc_Put ''service'' svc t c else c
     | _ \<Rightarrow> c)) (tr_GetString mb disk ''service'' svc r)"

definition gu_Process :: "(string \<Rightarrow> string) \<Rightarrow> ((i32 \<times> i32) list \<Rightarrow> i32) \<Rightarrow> (i32 list \<Rightarrow> i32) \<Rightarrow> XLogPack \<Rightarrow>
    XLogGroupUtil \<Rightarrow> TextCache \<Rightarrow> XLogPack \<times> bool \<times> XLogGroupUtil \<times> TextCache" where
  "gu_Process lower pick pick' xp g c =
     (if xlog_Group xp \<noteq> 0 then (xp, False, g, c)
      else let (h, search, g, c) = makeGroupHash lower pick pick' (xlog_Service xp) g c in (xp\<lparr>xlog_Group := h\<rparr>, search, g, c))"

subsection \<open>The sums of the last seconds\<close>

definition meterBucketCount :: nat where "meterBucketCount = 600"
definition defaultPerfStatPeriod :: nat where "defaultPerfStatPeriod = 30"
definition maxMeterEntries :: nat where "maxMeterEntries = 2000"

record PerfStat =
  ps_Count :: i64
  ps_Error :: i64
  ps_Elapsed :: i64

definition ps_Add :: "PerfStat \<Rightarrow> PerfStat \<Rightarrow> PerfStat" where
  "ps_Add s t = \<lparr>ps_Count = ps_Count s + ps_Count t, ps_Error = ps_Error s + ps_Error t, ps_Elapsed = ps_Elapsed s + ps_Elapsed t\<rparr>"

record meterBucket =
  mb_timeSec :: int
  mb_stat :: PerfStat

type_synonym meterService = "meterBucket list"

definition no_stat :: PerfStat where "no_stat = \<lparr>ps_Count = 0, ps_Error = 0, ps_Elapsed = 0\<rparr>"

definition new_meterService :: meterService where
  "new_meterService = replicate meterBucketCount \<lparr>mb_timeSec = 0, mb_stat = no_stat\<rparr>"

definition bucket_index :: "int \<Rightarrow> nat" where
  "bucket_index sec = nat (sec mod int meterBucketCount)"

definition meter_add :: "int \<Rightarrow> i32 \<Rightarrow> bool \<Rightarrow> meterService \<Rightarrow> meterService" where
  "meter_add sec elapsed isError m =
     (let idx = bucket_index sec;
          b = (if mb_timeSec (m ! idx) \<noteq> sec then \<lparr>mb_timeSec = sec, mb_stat = no_stat\<rparr> else m ! idx)
      in m[idx := b\<lparr>mb_stat := ps_Add (mb_stat b) \<lparr>ps_Count = 1, ps_Error = (if isError then 1 else 0), ps_Elapsed = scast elapsed\<rparr>\<rparr>])"

definition getPerfStat :: "int \<Rightarrow> nat \<Rightarrow> meterService \<Rightarrow> PerfStat" where
  "getPerfStat now periodSec m = foldl (\<lambda>stat i. let sec = now - int i; b = m ! bucket_index sec
     in if mb_timeSec b = sec then ps_Add stat (mb_stat b) else stat) no_stat [0..<min periodSec meterBucketCount]"

type_synonym groupKey = "i32 \<times> i32"

record XLogGroupPerf =
  gp_meters :: "(groupKey \<times> meterService) list"
  gp_groupUtil :: XLogGroupUtil
  gp_cachedResult :: "(i32 \<rightharpoonup> PerfStat) option"
  gp_cachedObjFilter :: "i32 list"
  gp_cacheTime :: int

definition NewXLogGroupPerf :: "bool \<Rightarrow> TextCache \<Rightarrow> XLogGroupPerf \<times> TextCache" where
  "NewXLogGroupPerf hasTextRD c = (let (g, c) = NewXLogGroupUtil hasTextRD c
     in (\<lparr>gp_meters = [], gp_groupUtil = g, gp_cachedResult = None, gp_cachedObjFilter = [], gp_cacheTime = 0\<rparr>, c))"

definition gp_Process :: "(string \<Rightarrow> string) \<Rightarrow> ((i32 \<times> i32) list \<Rightarrow> i32) \<Rightarrow> (i32 list \<Rightarrow> i32) \<Rightarrow> XLogPack \<Rightarrow>
    XLogGroupPerf \<Rightarrow> TextCache \<Rightarrow> XLogPack \<times> bool \<times> XLogGroupPerf \<times> TextCache" where
  "gp_Process lower pick pick' xp x c = (let (xp, search, g, c) = gu_Process lower pick pick' xp (gp_groupUtil x) c
     in (xp, search, x\<lparr>gp_groupUtil := g\<rparr>, c))"

definition gp_Add :: "((groupKey \<times> meterService) list \<Rightarrow> groupKey) \<Rightarrow> int \<Rightarrow> XLogPack \<Rightarrow> XLogGroupPerf \<Rightarrow> XLogGroupPerf" where
  "gp_Add pick sec xp x =
     (if xlog_Group xp = 0 then x
      else let key = (xlog_ObjHash xp, xlog_Group xp);
               meters = (case map_of (gp_meters x) key of
                  Some _ \<Rightarrow> gp_meters x
                | None \<Rightarrow> AList.update key new_meterService
                    (if maxMeterEntries \<le> length (gp_meters x) then AList.delete (pick (gp_meters x)) (gp_meters x) else gp_meters x));
               m = the (map_of meters key)
        in x\<lparr>gp_meters := AList.update key (meter_add sec (xlog_Elapsed xp) (xlog_Error xp \<noteq> 0) m) meters\<rparr>)"

definition mapsEqual :: "i32 list \<Rightarrow> i32 list \<Rightarrow> bool" where
  "mapsEqual a b \<longleftrightarrow> length a = length b \<and> (\<forall>k \<in> set a. k \<in> set b)"

definition gp_sum :: "int \<Rightarrow> i32 list \<Rightarrow> (groupKey \<times> meterService) list \<Rightarrow> (i32 \<rightharpoonup> PerfStat)" where
  "gp_sum now objHashes meters = foldl (\<lambda>result ((objHash, group), meter).
     if objHashes \<noteq> [] \<and> objHash \<notin> set objHashes then result
     else let stat = getPerfStat now defaultPerfStatPeriod meter
       in if ps_Count stat = 0 then result
          else (case result group of Some existing \<Rightarrow> result(group \<mapsto> ps_Add existing stat) | None \<Rightarrow> result(group \<mapsto> stat)))
     Map.empty meters"

text \<open>The time is in milliseconds; the meters read the clock again, in seconds.\<close>

definition GetGroupPerfStat :: "int \<Rightarrow> int \<Rightarrow> i32 list \<Rightarrow> XLogGroupPerf \<Rightarrow> (i32 \<rightharpoonup> PerfStat) \<times> XLogGroupPerf" where
  "GetGroupPerfStat nowMs now objHashes x =
     (case gp_cachedResult x of
        Some r \<Rightarrow> if nowMs - gp_cacheTime x < 1000 \<and> mapsEqual (gp_cachedObjFilter x) objHashes then (r, x)
          else (let result = gp_sum now objHashes (gp_meters x)
            in (result, x\<lparr>gp_cachedResult := Some result, gp_cachedObjFilter := objHashes, gp_cacheTime := nowMs\<rparr>))
      | None \<Rightarrow> (let result = gp_sum now objHashes (gp_meters x)
            in (result, x\<lparr>gp_cachedResult := Some result, gp_cachedObjFilter := objHashes, gp_cacheTime := nowMs\<rparr>)))"

subsection \<open>What is added up\<close>

text \<open>The transactions that were added, the newest first: second, object and group, elapsed time, error.\<close>

type_synonym group_entry = "int \<times> groupKey \<times> i32 \<times> bool"

definition ge_stat :: "group_entry \<Rightarrow> PerfStat" where
  "ge_stat e = (case e of (_, _, elapsed, isError) \<Rightarrow>
     \<lparr>ps_Count = 1, ps_Error = (if isError then 1 else 0), ps_Elapsed = scast elapsed\<rparr>)"

definition stat_sum :: "group_entry list \<Rightarrow> PerfStat" where
  "stat_sum es = foldr (\<lambda>e s. ps_Add (ge_stat e) s) es no_stat"

lemma ps_Add_simps [simp]: "ps_Add no_stat s = s" "ps_Add s no_stat = s" "ps_Count no_stat = 0"
  by (simp_all add: ps_Add_def no_stat_def)

lemma ps_Add_ac: "ps_Add (ps_Add a b) c = ps_Add a (ps_Add b c)" "ps_Add a b = ps_Add b a" "ps_Add a (ps_Add b c) = ps_Add b (ps_Add a c)"
  by (simp_all add: ps_Add_def)

lemma stat_sum_simps [simp]: "stat_sum [] = no_stat" "stat_sum (e # es) = ps_Add (ge_stat e) (stat_sum es)"
  by (simp_all add: stat_sum_def)

lemma stat_sum_split:
  "\<forall>e \<in> set es. \<not> (P e \<and> Q e) \<Longrightarrow> stat_sum (filter (\<lambda>e. P e \<or> Q e) es) = ps_Add (stat_sum (filter P es)) (stat_sum (filter Q es))"
  by (induction es) (auto simp: ps_Add_ac)

lemma stat_sum_count: "ps_Count (stat_sum es) = word_of_nat (length es)"
  by (induction es) (auto simp: no_stat_def ps_Add_def ge_stat_def)

lemma stat_sum_none: "length es < 2 ^ 64 \<Longrightarrow> ps_Count (stat_sum es) = 0 \<longleftrightarrow> es = []"
  by (simp add: stat_sum_count word_of_nat_eq_0_iff) (auto dest: nat_dvd_not_less)

definition meter_rep :: "meterService \<Rightarrow> group_entry list \<Rightarrow> int \<Rightarrow> bool" where
  "meter_rep m log now \<longleftrightarrow> length m = meterBucketCount \<and> (\<forall>e \<in> set log. fst e \<le> now) \<and> (\<forall>b \<in> set m. mb_timeSec b \<le> now) \<and>
     (\<forall>t. now - int meterBucketCount < t \<and> t \<le> now \<longrightarrow>
        (if mb_timeSec (m ! bucket_index t) = t then mb_stat (m ! bucket_index t) = stat_sum (filter (\<lambda>e. fst e = t) log)
         else filter (\<lambda>e. fst e = t) log = []))"

lemma meter_repD:
  assumes "meter_rep m log now"
  shows "length m = meterBucketCount" and "e \<in> set log \<Longrightarrow> fst e \<le> now" and "b \<in> set m \<Longrightarrow> mb_timeSec b \<le> now"
    and "now - int meterBucketCount < t \<Longrightarrow> t \<le> now \<Longrightarrow>
      (if mb_timeSec (m ! bucket_index t) = t then mb_stat (m ! bucket_index t) = stat_sum (filter (\<lambda>e. fst e = t) log)
       else filter (\<lambda>e. fst e = t) log = [])"
  using assms unfolding meter_rep_def by blast+

lemma bucket_index_less [simp]: "bucket_index t < meterBucketCount"
  by (simp add: bucket_index_def meterBucketCount_def nat_less_iff)

lemma bucket_index_inj:
  assumes "bucket_index t = bucket_index u" and "\<bar>t - u\<bar> < int meterBucketCount"
  shows "t = u"
proof -
  have "t mod 600 = u mod 600"
    using assms(1) by (simp add: bucket_index_def meterBucketCount_def eq_nat_nat_iff)
  then have "600 dvd t - u" by (simp add: mod_eq_dvd_iff)
  then show ?thesis using assms(2) zdvd_imp_le [of 600 "\<bar>t - u\<bar>"] by (auto simp: meterBucketCount_def)
qed

lemma meter_rep_new: "0 \<le> now \<Longrightarrow> meter_rep new_meterService [] now"
  by (simp add: meter_rep_def new_meterService_def)

lemma meter_rep_later:
  assumes "meter_rep m log now" and "now \<le> now'"
  shows "meter_rep m log now'"
proof -
  note D = meter_repD [OF assms(1)]
  have no: "filter (\<lambda>e. fst e = t) log = []" "mb_timeSec (m ! bucket_index t) \<noteq> t" if "now < t" for t
    using D(2) D(3) [of "m ! bucket_index t"] D(1) that by (fastforce simp: filter_empty_conv)+
  show ?thesis unfolding meter_rep_def
  proof (intro conjI allI impI ballI)
    fix t
    assume "now' - int meterBucketCount < t \<and> t \<le> now'"
    then show "if mb_timeSec (m ! bucket_index t) = t then mb_stat (m ! bucket_index t) = stat_sum (filter (\<lambda>e. fst e = t) log)
        else filter (\<lambda>e. fst e = t) log = []"
      using D(4) [of t] no [of t] assms(2) by (cases "now < t") simp_all
  qed (use D(1) order_trans [OF D(2) assms(2)] order_trans [OF D(3) assms(2)] in auto)
qed

lemma meter_add_rep:
  assumes "meter_rep m log now"
  shows "meter_rep (meter_add now elapsed isError m) ((now, k, elapsed, isError) # log) now"
proof -
  let ?i = "bucket_index now" and ?e = "(now, k, elapsed, isError)"
  note D = meter_repD [OF assms]
  note len = D(1)
  have at: "if mb_timeSec (m ! ?i) = now then mb_stat (m ! ?i) = stat_sum (filter (\<lambda>e. fst e = now) log)
      else filter (\<lambda>e. fst e = now) log = []"
    using meter_repD(4) [OF assms, of now] by (simp add: meterBucketCount_def)
  obtain b where add: "meter_add now elapsed isError m = m[?i := b]" "mb_timeSec b = now"
    "mb_stat b = ps_Add (ge_stat ?e) (stat_sum (filter (\<lambda>e. fst e = now) log))"
    using at by (auto simp: meter_add_def ge_stat_def Let_def ps_Add_ac(2) split: if_splits)
  have other: "bucket_index t \<noteq> ?i" if "now - int meterBucketCount < t" "t \<le> now" "t \<noteq> now" for t
    using bucket_index_inj [of t now] that by linarith
  show ?thesis unfolding add(1) meter_rep_def
  proof (intro conjI allI impI ballI)
    fix t
    assume t: "now - int meterBucketCount < t \<and> t \<le> now"
    then show "if mb_timeSec (m[?i := b] ! bucket_index t) = t then mb_stat (m[?i := b] ! bucket_index t) = stat_sum (filter (\<lambda>e. fst e = t) (?e # log))
        else filter (\<lambda>e. fst e = t) (?e # log) = []"
      using D(4) [of t] other [of t] add(2,3) len by (cases "t = now") simp_all
  next
    fix b'
    assume "b' \<in> set (m[?i := b])"
    then have "b' = b \<or> b' \<in> set m" using set_update_subset_insert by fast
    then show "mb_timeSec b' \<le> now" using add(2) D(3) by auto
  qed (use D(2) len in auto)
qed

lemma getPerfStat_sum:
  assumes "meter_rep m log now"
  shows "getPerfStat now p m = stat_sum (filter (\<lambda>e. now - int (min p meterBucketCount) < fst e) log)"
proof -
  have "foldl (\<lambda>stat i. let sec = now - int i; b = m ! bucket_index sec in if mb_timeSec b = sec then ps_Add stat (mb_stat b) else stat) no_stat [0..<n] =
      stat_sum (filter (\<lambda>e. now - int n < fst e) log)" if "n \<le> meterBucketCount" for n
    using that
  proof (induction n)
    case 0
    have "filter (\<lambda>e. now < fst e) log = []" using meter_repD(2) [OF assms] by (fastforce simp: filter_empty_conv)
    then show ?case by simp
  next
    case (Suc n)
    let ?t = "now - int n"
    have at: "if mb_timeSec (m ! bucket_index ?t) = ?t then mb_stat (m ! bucket_index ?t) = stat_sum (filter (\<lambda>e. fst e = ?t) log)
        else filter (\<lambda>e. fst e = ?t) log = []"
      using meter_repD(4) [OF assms, of ?t] Suc.prems by simp
    have "(now - int (Suc n) < fst e) = (now - int n < fst e \<or> fst e = ?t)" for e :: group_entry by auto
    then have "stat_sum (filter (\<lambda>e. now - int (Suc n) < fst e) log) =
        ps_Add (stat_sum (filter (\<lambda>e. now - int n < fst e) log)) (stat_sum (filter (\<lambda>e. fst e = ?t) log))"
      using stat_sum_split [of log "\<lambda>e. now - int n < fst e" "\<lambda>e. fst e = ?t"] by simp
    then show ?case using Suc at by (auto simp: Let_def split: if_splits)
  qed
  then show ?thesis by (simp add: getPerfStat_def)
qed

subsection \<open>The sums of the groups\<close>

definition ge_key :: "group_entry \<Rightarrow> groupKey" where "ge_key e = fst (snd e)"

definition gp_rep :: "XLogGroupPerf \<Rightarrow> group_entry list \<Rightarrow> int \<Rightarrow> bool" where
  "gp_rep x log now \<longleftrightarrow> distinct (map fst (gp_meters x)) \<and> fst ` set (gp_meters x) = ge_key ` set log \<and>
     (\<forall>(k, m) \<in> set (gp_meters x). meter_rep m (filter (\<lambda>e. ge_key e = k) log) now)"

lemma gp_rep_later: "gp_rep x log now \<Longrightarrow> now \<le> now' \<Longrightarrow> gp_rep x log now'"
  unfolding gp_rep_def using meter_rep_later by blast

definition ge_of :: "int \<Rightarrow> XLogPack \<Rightarrow> group_entry" where
  "ge_of sec xp = (sec, (xlog_ObjHash xp, xlog_Group xp), xlog_Elapsed xp, xlog_Error xp \<noteq> 0)"

lemma set_AList_update:
  "distinct (map fst al) \<Longrightarrow> (k', v') \<in> set (AList.update k v al) \<longleftrightarrow> (if k' = k then v' = v else (k', v') \<in> set al)"
  by (metis distinct_update map_of_eq_Some_iff fun_upd_apply option.inject update_conv')

lemma gp_Add_rep:
  assumes "gp_rep x log sec" and "0 \<le> sec" and "xlog_Group xp \<noteq> 0" and "card (ge_key ` set (ge_of sec xp # log)) \<le> maxMeterEntries"
  shows "gp_rep (gp_Add pick sec xp x) (ge_of sec xp # log) sec"
proof -
  let ?k = "(xlog_ObjHash xp, xlog_Group xp)"
  let ?add = "meter_add sec (xlog_Elapsed xp) (xlog_Error xp \<noteq> 0)"
  have d: "distinct (map fst (gp_meters x))" and keys: "fst ` set (gp_meters x) = ge_key ` set log"
    and m: "\<And>k m. (k, m) \<in> set (gp_meters x) \<Longrightarrow> meter_rep m (filter (\<lambda>e. ge_key e = k) log) sec"
    using assms(1) by (auto simp: gp_rep_def)
  have k: "ge_key (ge_of sec xp) = ?k" by (simp add: ge_key_def ge_of_def)
  obtain m0 where m0: "gp_meters (gp_Add pick sec xp x) = AList.update ?k (?add m0) (gp_meters x)"
    "meter_rep m0 (filter (\<lambda>e. ge_key e = ?k) log) sec"
  proof (cases "map_of (gp_meters x) ?k")
    case (Some m1)
    then have "gp_meters (gp_Add pick sec xp x) = AList.update ?k (?add m1) (gp_meters x)"
      using assms(3) by (simp add: gp_Add_def)
    then show thesis by (rule that [OF _ m [OF map_of_SomeD [OF Some]]])
  next
    case None
    then have new: "?k \<notin> ge_key ` set log" by (simp add: keys [symmetric] map_of_eq_None_iff)
    have "card (ge_key ` set log) = length (gp_meters x)"
      using distinct_card [OF d] by (simp add: keys)
    then have "length (gp_meters x) < maxMeterEntries" using assms(4) new by (simp add: k)
    then have upd: "gp_meters (gp_Add pick sec xp x) = AList.update ?k (?add new_meterService) (AList.update ?k new_meterService (gp_meters x))"
      using assms(3) None by (simp add: gp_Add_def update_conv')
    have "AList.update ?k v (AList.update ?k w al) = AList.update ?k v al" for v w :: meterService and al
      by (induction al) auto
    moreover have "filter (\<lambda>e. ge_key e = ?k) log = []" using new unfolding filter_empty_conv by (metis image_eqI)
    ultimately show thesis using that [of new_meterService] upd meter_rep_new [OF assms(2)] by simp
  qed
  have "meter_rep (?add m0) (ge_of sec xp # filter (\<lambda>e. ge_key e = ?k) log) sec"
    using meter_add_rep [OF m0(2), of "xlog_Elapsed xp" "xlog_Error xp \<noteq> 0" ?k] by (simp add: ge_of_def)
  moreover have "fst ` set (gp_meters (gp_Add pick sec xp x)) = ge_key ` set (ge_of sec xp # log)"
    unfolding m0(1) using keys by (simp add: dom_update k)
  ultimately show ?thesis using d m unfolding gp_rep_def m0(1)
    by (auto simp: distinct_update set_AList_update [OF d] k split: if_splits)
qed

definition in_window :: "int \<Rightarrow> i32 list \<Rightarrow> group_entry \<Rightarrow> bool" where
  "in_window now objHashes e \<longleftrightarrow> now - int defaultPerfStatPeriod < fst e \<and> (objHashes = [] \<or> fst (ge_key e) \<in> set objHashes)"

definition group_sums :: "int \<Rightarrow> i32 list \<Rightarrow> group_entry list \<Rightarrow> i32 \<Rightarrow> PerfStat option" where
  "group_sums now objHashes log g = (let es = filter (\<lambda>e. in_window now objHashes e \<and> snd (ge_key e) = g) log
     in if es = [] then None else Some (stat_sum es))"

lemma gp_sum_rep:
  assumes "gp_rep x log now" and "length log < 2 ^ 64"
  shows "gp_sum now objHashes (gp_meters x) = group_sums now objHashes log"
proof -
  define part where "part K g = filter (\<lambda>e. in_window now objHashes e \<and> snd (ge_key e) = g \<and> ge_key e \<in> K) log" for K g
  have loop: "gp_sum now objHashes ms g = (if part (fst ` set ms) g = [] then None else Some (stat_sum (part (fst ` set ms) g)))"
    if "distinct (map fst ms)" "\<forall>(k, m) \<in> set ms. meter_rep m (filter (\<lambda>e. ge_key e = k) log) now" for ms g
    using that
  proof (induction ms arbitrary: g rule: rev_induct)
    case Nil
    then show ?case by (simp add: gp_sum_def part_def)
  next
    case (snoc km ms)
    obtain objHash group m where km: "km = ((objHash, group), m)" by (metis prod.exhaust)
    let ?k = "(objHash, group)" and ?K = "fst ` set ms"
    have IH: "gp_sum now objHashes ms = (\<lambda>g. if part ?K g = [] then None else Some (stat_sum (part ?K g)))"
      using snoc by (auto simp: fun_eq_iff)
    have new: "?k \<notin> ?K" using snoc.prems(1) by (auto simp: km)
    define es where "es = filter (\<lambda>e. now - int defaultPerfStatPeriod < fst e) (filter (\<lambda>e. ge_key e = ?k) log)"
    have "meter_rep m (filter (\<lambda>e. ge_key e = ?k) log) now" using snoc.prems(2) by (simp add: km)
    moreover have "min defaultPerfStatPeriod meterBucketCount = defaultPerfStatPeriod"
      by (simp add: defaultPerfStatPeriod_def meterBucketCount_def)
    ultimately have stat: "getPerfStat now defaultPerfStatPeriod m = stat_sum es"
      unfolding es_def by (simp only: getPerfStat_sum)
    have "length es \<le> length log" unfolding es_def by (rule order_trans [OF length_filter_le length_filter_le])
    then have none: "ps_Count (stat_sum es) = 0 \<longleftrightarrow> es = []" using assms(2) by (intro stat_sum_none) simp
    define sel where "sel \<longleftrightarrow> objHashes = [] \<or> objHash \<in> set objHashes"
    have es: "es = part {?k} group" if sel
      unfolding es_def part_def filter_filter by (intro filter_cong refl) (use that in \<open>auto simp: in_window_def sel_def\<close>)
    have union: "part (insert ?k ?K) g = filter (\<lambda>e. (in_window now objHashes e \<and> snd (ge_key e) = g \<and> ge_key e \<in> ?K) \<or>
        (in_window now objHashes e \<and> snd (ge_key e) = g \<and> ge_key e \<in> {?k})) log" for g
      unfolding part_def by (intro filter_cong refl) auto
    have sum: "stat_sum (part (insert ?k ?K) g) = ps_Add (stat_sum (part ?K g)) (stat_sum (part {?k} g))" for g
      by (rule trans [OF arg_cong [OF union]], unfold part_def, rule stat_sum_split) (use new singletonD in metis)
    have empty: "part (insert ?k ?K) g = [] \<longleftrightarrow> part ?K g = [] \<and> part {?k} g = []" for g
      by (auto simp: part_def filter_empty_conv)
    have other: "part {?k} g = []" if "g \<noteq> group \<or> \<not> sel" for g
      using that by (auto simp: part_def in_window_def filter_empty_conv sel_def)
    have step: "gp_sum now objHashes (ms @ [km]) = (if \<not> sel \<or> es = [] then gp_sum now objHashes ms
        else (gp_sum now objHashes ms)(group \<mapsto> (case gp_sum now objHashes ms group of Some s \<Rightarrow> ps_Add s (stat_sum es) | None \<Rightarrow> stat_sum es)))"
      by (auto simp: gp_sum_def km stat none Let_def sel_def split: option.split)
    show ?case
    proof (cases "\<not> sel \<or> es = []")
      case True
      then have "part {?k} g = []" using other [of g] es by (cases sel; cases "g = group") simp_all
      moreover from this have "stat_sum (part (insert ?k ?K) g) = stat_sum (part ?K g)" using sum [of g] by simp
      ultimately show ?thesis using step True IH empty [of g] by (simp add: km)
    next
      case False
      then have e: "part {?k} group = es" "es \<noteq> []" using es by simp_all
      show ?thesis
      proof (cases "g = group")
        case True
        then show ?thesis using step False IH empty [of group] sum [of group] e by (simp add: km)
      next
        case False
        moreover have "stat_sum (part (insert ?k ?K) g) = stat_sum (part ?K g)" using other [of g] False sum [of g] by simp
        ultimately show ?thesis using step IH empty [of g] other [of g] by (simp add: km)
      qed
    qed
  qed
  have "gp_sum now objHashes (gp_meters x) g = group_sums now objHashes log g" for g
  proof -
    have "fst ` set (gp_meters x) = ge_key ` set log" using assms(1) by (simp add: gp_rep_def)
    then have "part (fst ` set (gp_meters x)) g = filter (\<lambda>e. in_window now objHashes e \<and> snd (ge_key e) = g) log"
      unfolding part_def by (intro filter_cong refl) auto
    then show ?thesis using loop [of "gp_meters x" g] assms(1) by (simp add: gp_rep_def group_sums_def Let_def)
  qed
  then show ?thesis by blast
qed

text \<open>Transactions added one after the other, with the seconds at which they were.\<close>

definition gp_adds :: "((groupKey \<times> meterService) list \<Rightarrow> groupKey) \<Rightarrow> (int \<times> XLogPack) list \<Rightarrow> XLogGroupPerf \<Rightarrow> XLogGroupPerf" where
  "gp_adds pick ads = fold (\<lambda>(sec, xp). gp_Add pick sec xp) ads"

definition group_entries :: "(int \<times> XLogPack) list \<Rightarrow> group_entry list" where
  "group_entries ads = rev (map (\<lambda>(sec, xp). ge_of sec xp) (filter (\<lambda>(sec, xp). xlog_Group xp \<noteq> 0) ads))"

lemma gp_Add_cached [simp]: "gp_cachedResult (gp_Add pick sec xp x) = gp_cachedResult x"
  "gp_cachedObjFilter (gp_Add pick sec xp x) = gp_cachedObjFilter x" "gp_cacheTime (gp_Add pick sec xp x) = gp_cacheTime x"
  by (simp_all add: gp_Add_def Let_def)

lemma gp_Add_none: "xlog_Group xp = 0 \<Longrightarrow> gp_Add pick sec xp x = x"
  by (simp add: gp_Add_def)

lemma gp_adds_rep:
  assumes "gp_meters x = []" and "sorted (map fst ads)" and "\<forall>(sec, xp) \<in> set ads. 0 \<le> sec \<and> sec \<le> now"
    and "card (ge_key ` set (group_entries ads)) \<le> maxMeterEntries"
  shows "gp_rep (gp_adds pick ads x) (group_entries ads) now \<and> gp_cachedResult (gp_adds pick ads x) = gp_cachedResult x"
  using assms(2-4)
proof (induction ads arbitrary: now rule: rev_induct)
  case Nil
  then show ?case using assms(1) by (simp add: gp_rep_def gp_adds_def group_entries_def)
next
  case (snoc a ads)
  obtain sec xp where a: "a = (sec, xp)" by (cases a)
  have run: "gp_adds pick (ads @ [a]) x = gp_Add pick sec xp (gp_adds pick ads x)" by (simp add: gp_adds_def a)
  have es: "group_entries (ads @ [a]) = (if xlog_Group xp = 0 then group_entries ads else ge_of sec xp # group_entries ads)"
    by (simp add: group_entries_def a)
  have "card (ge_key ` set (group_entries ads)) \<le> card (ge_key ` set (group_entries (ads @ [a])))"
    unfolding es by (intro card_mono) auto
  then have "gp_rep (gp_adds pick ads x) (group_entries ads) sec \<and> gp_cachedResult (gp_adds pick ads x) = gp_cachedResult x"
    using snoc.prems by (intro snoc.IH) (auto simp: a sorted_append split: prod.splits)
  then show ?case using snoc.prems gp_Add_rep [of "gp_adds pick ads x" "group_entries ads" sec xp pick]
      gp_rep_later [of _ _ sec now]
    unfolding run es by (cases "xlog_Group xp = 0") (auto simp: a es gp_Add_none)
qed

lemma group_stat:
  assumes "sorted (map fst ads)" and "\<forall>(sec, xp) \<in> set ads. 0 \<le> sec \<and> sec \<le> now"
    and "card (ge_key ` set (group_entries ads)) \<le> maxMeterEntries" and "length ads < 2 ^ 64"
  shows "fst (GetGroupPerfStat nowMs now objHashes (gp_adds pick ads (fst (NewXLogGroupPerf hasTextRD c)))) =
    group_sums now objHashes (group_entries ads)"
proof -
  let ?x = "fst (NewXLogGroupPerf hasTextRD c)"
  have new: "gp_meters ?x = []" "gp_cachedResult ?x = None" by (simp_all add: NewXLogGroupPerf_def case_prod_unfold Let_def)
  have "length (group_entries ads) \<le> length ads" by (simp add: group_entries_def)
  then show ?thesis using gp_adds_rep [OF new(1) assms(1-3), of pick] gp_sum_rep [of _ "group_entries ads" now objHashes] new(2) assms(4)
    by (simp add: GetGroupPerfStat_def Let_def)
qed

text \<open>Within a second the answer for the same objects is repeated, whatever was added.\<close>

lemma group_stat_cached:
  assumes "GetGroupPerfStat nowMs now objHashes x = (r, x')" and "nowMs' - gp_cacheTime x' < 1000"
  shows "fst (GetGroupPerfStat nowMs' now' objHashes (gp_Add pick sec xp x')) = r"
proof -
  have "mapsEqual objHashes objHashes" by (simp add: mapsEqual_def)
  then have "gp_cachedResult x' = Some r \<and> mapsEqual (gp_cachedObjFilter x') objHashes"
    using assms(1) by (auto simp: GetGroupPerfStat_def Let_def split: option.splits if_splits)
  then show ?thesis using assms(2) by (simp add: GetGroupPerfStat_def)
qed

subsection \<open>Which group a URL has\<close>

lemma index_of_Some: "c \<notin> set a \<Longrightarrow> index_of c (a @ c # b) = Some (length a)"
  by (induction a) auto

lemma index_of_None: "index_of c s = None \<longleftrightarrow> c \<notin> set s"
  by (induction s) auto

lemma last_index_of_Some: "c \<notin> set b \<Longrightarrow> last_index_of c (a @ c # b) = Some (length a)"
proof -
  assume "c \<notin> set b"
  then have "index_of c (rev b @ c # rev a) = Some (length (rev b))" by (intro index_of_Some) simp
  then show "last_index_of c (a @ c # b) = Some (length a)" by (simp add: last_index_of_def)
qed

lemma last_index_of_None: "c \<notin> set s \<Longrightarrow> last_index_of c s = None"
  using index_of_None [of c "rev s"] by (simp add: last_index_of_def)

text \<open>The reference: the group of a known extension, else the name of the first part of the path.\<close>

definition path_group :: "string \<Rightarrow> i32" where
  "path_group url = (if CHR ''/'' \<in> set (drop 1 url) then HashString (hd url # takeWhile (\<lambda>c. c \<noteq> CHR ''/'') (drop 1 url)) else hRoot)"

definition url_group :: "(string \<Rightarrow> string) \<Rightarrow> string \<Rightarrow> i32" where
  "url_group lower url = (if url = [] then 0
     else if CHR ''.'' \<in> set (drop 1 url) then
       (case ext_group lower (rev (takeWhile (\<lambda>c. c \<noteq> CHR ''.'') (rev url))) of Some h \<Rightarrow> h | None \<Rightarrow> path_group url)
     else path_group url)"

lemma getGroupHash_url: "fst (getGroupHash lower url c) = url_group lower url"
proof (cases url)
  case (Cons x s)
  have path: "(if url = ''/'' \<or> url = [] then hRoot else case index_of CHR ''/'' (drop 1 url) of
      None \<Rightarrow> hRoot | Some x1 \<Rightarrow> HashString (take (x1 + 1) url)) = path_group url"
  proof (cases "CHR ''/'' \<in> set s")
    case True
    then obtain a b where ab: "s = a @ CHR ''/'' # b" "CHR ''/'' \<notin> set a" by (auto dest: split_list_first)
    then have "index_of CHR ''/'' s = Some (length a)" using index_of_Some by simp
    moreover have "takeWhile (\<lambda>c. c \<noteq> CHR ''/'') (a @ CHR ''/'' # b) = a" using ab(2) by (induction a) auto
    ultimately show ?thesis using Cons ab by (simp add: path_group_def)
  next
    case False
    then have "index_of CHR ''/'' s = None" by (simp add: index_of_None)
    then show ?thesis using False Cons by (simp add: path_group_def)
  qed
  have ne: "url \<noteq> []" using Cons by simp
  define E where "E = (case last_index_of CHR ''.'' url of
      Some i \<Rightarrow> if 0 < i then ext_group lower (drop (i + 1) url) else None | None \<Rightarrow> None)"
  have "fst (getGroupHash lower url c) = (case E of Some h \<Rightarrow> h | None \<Rightarrow> path_group url)"
  proof (cases E)
    case None
    show ?thesis unfolding path [symmetric] None
      using ne by (simp add: getGroupHash_def E_def [symmetric] None Let_def split: option.split)
  next
    case (Some h)
    then show ?thesis using ne by (simp add: getGroupHash_def E_def [symmetric])
  qed
  also have "\<dots> = url_group lower url"
  proof (cases "CHR ''.'' \<in> set url")
    case True
    then obtain a b where ab: "url = a @ CHR ''.'' # b" "CHR ''.'' \<notin> set b" by (auto dest: split_list_last)
    have "takeWhile (\<lambda>c. c \<noteq> CHR ''.'') (rs @ CHR ''.'' # t) = rs" if "CHR ''.'' \<notin> set rs" for rs t using that by (induction rs) auto
    from this [of "rev b" "rev a"] have "takeWhile (\<lambda>c. c \<noteq> CHR ''.'') (rev url) = rev b" using ab by simp
    then show ?thesis using ab last_index_of_Some [OF ab(2), of a] by (cases a) (simp_all add: url_group_def E_def cong: option.case_cong)
  next
    case False
    then have "CHR ''.'' \<notin> set (drop 1 url)" by (meson in_set_dropD)
    then show ?thesis using last_index_of_None [OF False] Cons by (simp add: url_group_def E_def)
  qed
  finally show ?thesis .
qed (simp add: getGroupHash_def url_group_def)

text \<open>
  With a text cache that holds for a service only its URL, the groups that are remembered are those of
  the URLs, so a pack without a group gets the group of its URL, or none if the text is not in the cache.
\<close>

definition urls_ok :: "(i32 \<Rightarrow> string) \<Rightarrow> TextCache \<Rightarrow> bool" where
  "urls_ok url c \<longleftrightarrow> tc_inv c \<and> (\<forall>svc t. map_of (tc_abs c) (''service'', svc) = Some t \<longrightarrow> t = url svc)"

definition groups_ok :: "(string \<Rightarrow> string) \<Rightarrow> (i32 \<Rightarrow> string) \<Rightarrow> XLogGroupUtil \<Rightarrow> bool" where
  "groups_ok lower url g \<longleftrightarrow> (\<forall>svc h. map_of (gu_groupMap g) svc = Some h \<longrightarrow> url svc \<noteq> [] \<and> h = url_group lower (url svc))"

lemma map_of_take: "map_of (take n xs) k = Some v \<Longrightarrow> map_of xs k = Some v"
  by (induction xs arbitrary: n) (auto simp: take_Cons split: nat.splits if_splits)

lemma map_of_touch: "map_of (lru_touch k v xs) k' = (if k' = k then Some v else map_of xs k')"
proof -
  have "k' \<noteq> k \<Longrightarrow> map_of (filter (\<lambda>x. fst x \<noteq> k) xs) k' = map_of xs k'" by (induction xs) auto
  then show ?thesis by (simp add: lru_touch_def)
qed

lemma urls_ok_Put:
  assumes "urls_ok url c" and "d = ''service'' \<longrightarrow> t = url h"
  shows "urls_ok url (tc_Put d h t c)"
proof -
  have inv: "tc_inv c" and old: "\<And>svc u. map_of (tc_abs c) (''service'', svc) = Some u \<Longrightarrow> u = url svc"
    using assms(1) by (auto simp: urls_ok_def)
  have "u = url svc" if "map_of (tc_abs (tc_Put d h t c)) (''service'', svc) = Some u" for svc u
    using that old assms(2) unfolding tc_Put_abs(2) [OF inv] lru_Put_def
    by (auto simp: map_of_touch dest!: map_of_take split: if_splits)
  then show ?thesis using tc_Put_abs(1) [OF inv] by (simp add: urls_ok_def)
qed

lemma urls_ok_Get:
  assumes "urls_ok url c"
  shows "urls_ok url (snd (tc_Get d h c))" and "fst (tc_Get d h c) = map_of (tc_abs c) (d, h)"
proof -
  have inv: "tc_inv c" and old: "\<And>svc u. map_of (tc_abs c) (''service'', svc) = Some u \<Longrightarrow> u = url svc"
    using assms(1) by (auto simp: urls_ok_def)
  have r: "fst (tc_Get d h c) = map_of (tc_abs c) (d, h)"
    "tc_abs (snd (tc_Get d h c)) = (case map_of (tc_abs c) (d, h) of None \<Rightarrow> tc_abs c | Some v \<Rightarrow> lru_touch (d, h) v (tc_abs c))"
    using tc_Get_abs(2) [OF inv, of d h] by (simp_all add: lru_Get_def)
  then show "fst (tc_Get d h c) = map_of (tc_abs c) (d, h)" by simp
  have "u = url svc" if "map_of (tc_abs (snd (tc_Get d h c))) (''service'', svc) = Some u" for svc u
    using that old unfolding r(2) by (auto simp: map_of_touch split: option.splits if_splits)
  then show "urls_ok url (snd (tc_Get d h c))" using tc_Get_abs(1) [OF inv] by (simp add: urls_ok_def)
qed

lemma getGroupHash_cache: "urls_ok url c \<Longrightarrow> urls_ok url (snd (getGroupHash lower u c))"
  by (auto simp: getGroupHash_def Let_def intro: urls_ok_Put split: option.split)

lemma groups_ok_cache:
  assumes "groups_ok lower url g" and "url svc \<noteq> []"
  shows "groups_ok lower url (cacheGroupHash pick svc (url_group lower (url svc)) g)"
  using assms by (auto simp: groups_ok_def cacheGroupHash_def Let_def update_conv' delete_conv' restrict_map_def split: if_splits)

text \<open>The group that a transaction of a service gets.\<close>

definition service_group :: "(string \<Rightarrow> string) \<Rightarrow> XLogGroupUtil \<Rightarrow> TextCache \<Rightarrow> i32 \<Rightarrow> i32" where
  "service_group lower g c svc = (case map_of (gu_groupMap g) svc of Some h \<Rightarrow> h
     | None \<Rightarrow> (case map_of (tc_abs c) (''service'', svc) of Some u \<Rightarrow> url_group lower u | None \<Rightarrow> 0))"

lemma makeGroupHash_group:
  assumes "urls_ok url c" and "groups_ok lower url g" and "makeGroupHash lower pick pick' svc g c = (h, search, g', c')"
  shows "h = service_group lower g c svc \<and> h \<in> {0, url_group lower (url svc)} \<and> urls_ok url c' \<and> groups_ok lower url g'"
proof (cases "map_of (gu_groupMap g) svc")
  case (Some h0)
  then show ?thesis using assms by (auto simp: makeGroupHash_def service_group_def groups_ok_def)
next
  case None
  obtain t c1 where get: "tc_Get ''service'' svc c = (t, c1)" by fastforce
  then have t: "t = map_of (tc_abs c) (''service'', svc)" and c1: "urls_ok url c1"
    using urls_ok_Get [OF assms(1), of "''service''" svc] by simp_all
  have tu: "u = url svc" if "t = Some u" for u using that t assms(1) by (auto simp: urls_ok_def)
  define mark where "mark = (if t = None \<and> gu_hasTextRD g then gu_markSearched pick' svc g else (False, g))"
  obtain s g1 where m: "mark = (s, g1)" by fastforce
  have "gu_groupMap g1 = gu_groupMap g"
    using m by (auto simp: mark_def gu_markSearched_def Let_def split: if_splits)
  then have g1: "groups_ok lower url g1" using assms(2) by (simp add: groups_ok_def)
  have r: "(h, search, g', c') = (case t of Some u \<Rightarrow> if u = [] then (0, s, g1, c1)
       else let (groupHash, c) = getGroupHash lower u c1 in (groupHash, s, cacheGroupHash pick svc groupHash g1, c)
     | None \<Rightarrow> (0, s, g1, c1))"
    using assms(3) unfolding makeGroupHash_def None get mark_def [symmetric] m by (simp add: Let_def mark_def [symmetric] m)
  show ?thesis
  proof (cases "\<exists>u. t = Some u \<and> u \<noteq> []")
    case True
    then obtain u where u: "t = Some u" "u \<noteq> []" by blast
    obtain gh c2 where gg: "getGroupHash lower u c1 = (gh, c2)" by fastforce
    then have "gh = url_group lower u" "urls_ok url c2"
      using getGroupHash_url [of lower u c1] getGroupHash_cache [OF c1, of lower u] by simp_all
    moreover have "(h, search, g', c') = (gh, s, cacheGroupHash pick svc gh g1, c2)"
      using r u gg by simp
    ultimately show ?thesis using None u tu [OF u(1)] groups_ok_cache [OF g1] by (simp add: service_group_def t [symmetric])
  next
    case False
    then have "(h, search, g', c') = (0, s, g1, c1)" using r by (auto split: option.splits)
    then show ?thesis using None False c1 g1 by (auto simp: service_group_def url_group_def t [symmetric] split: option.splits)
  qed
qed

end
