(* ===== verification/PackReads.thy ===== *)
theory PackReads
  imports Packs
begin

text \<open>
  What is known of a pack that was read: reading takes at least its type byte, so a loop over the packs of a
  buffer ends, and the counters of a performance pack are there, none of them nil.
\<close>

lemma takes_inner: "takes 0 (rd_inner r b)"
  by (auto simp: takes_def rd_inner_def)

lemmas field_takes = takes_set takes_fixed [THEN takes_weaken] takes_Decimal [THEN takes_weaken]
  takes_Text [THEN takes_weaken] takes_Blob [THEN takes_weaken] takes_ReadValue [THEN takes_weaken] takes_ret takes_inner

lemma takes_steps_intros:
  "takes 0 (rd_steps [] s)" "takes 0 (f s) \<Longrightarrow> (\<And>s. takes 0 (rd_steps fs s)) \<Longrightarrow> takes 0 (rd_steps (f # fs) s)"
  by (auto intro!: takes_bind_first intro: takes_ret)

lemma takes_pack_Read: "takes 0 (pack_Read p)"
  by (cases p) (auto simp del: rd_steps.simps simp: TextPack_Read_def PerfCounterPack_Read_def StatusPack_Read_def
    StackPack_Read_def SummaryPack_Read_def BatchPack_Read_def InteractionPerfCounterPack_Read_def AlertPack_Read_def
    ObjectPack_Read_def SpanContainerPack_Read_def SpanPack_Read_def XLogProfilePack_Read_def XLogProfilePack2_Read_def
    DroppedXLogPack_Read_def MapPack_Read_def XLogPack_Read_def
    intro!: takes_bind_first takes_steps_intros takes_slice intro: field_takes)

lemma takes_ReadPack: "takes 1 ReadPack"
  unfolding ReadPack_def
proof (rule takes_bind_first, rule takes_fixed)
  have "takes 0 (rd_wrap t r)" if "takes 0 r" for t and r :: "pack rd"
    using that by (fastforce simp: takes_def rd_wrap_def split: prod.splits res.splits)
  then show "takes 0 (case CreatePack t of Ok p \<Rightarrow> rd_wrap t (pack_Read p) | Err e \<Rightarrow> rd_fail e | Panic p \<Rightarrow> rd_panic p)" for t
    by (auto split: res.split intro: takes_fail takes_pack_Read)
qed

text \<open>What an input operation yields.\<close>

definition yields :: "('a \<Rightarrow> bool) \<Rightarrow> 'a rd \<Rightarrow> bool" where
  "yields P r \<longleftrightarrow> (\<forall>d v d'. r d = (Ok v, d') \<longrightarrow> P v)"

lemma yields_bind: "(\<And>x. yields P (f x)) \<Longrightarrow> yields P (rd_bind r f)"
  by (fastforce simp: yields_def rd_bind_def split: prod.splits res.splits)

lemma yields_bind_of: "yields Q r \<Longrightarrow> (\<And>x. Q x \<Longrightarrow> yields P (f x)) \<Longrightarrow> yields P (rd_bind r f)"
  by (fastforce simp: yields_def rd_bind_def split: prod.splits res.splits)

lemma yields_ret: "P v \<Longrightarrow> yields P (rd_ret v)"
  by (simp add: yields_def rd_ret_def)

lemma yields_fail: "yields P (rd_fail e)" "yields P (rd_panic q)"
  by (simp_all add: yields_def rd_fail_def rd_panic_def)

lemma yields_times: "yields P r \<Longrightarrow> yields (\<lambda>xs. \<forall>x \<in> set xs. P x) (rd_times n r)"
  by (induction n) (auto intro!: yields_bind_of [where r = r] yields_bind_of [where r = "rd_times _ r"] yields_ret)

lemma yields_slice: "yields P r \<Longrightarrow> yields (\<lambda>xs. \<forall>x \<in> set xs. P x) (rd_slice s n r)"
  by (auto simp: rd_slice_def intro: yields_times yields_fail yields_ret)

definition no_nil :: "map_field \<Rightarrow> bool" where
  "no_nil m \<longleftrightarrow> (case m of None \<Rightarrow> False | Some es \<Rightarrow> \<forall>(k, v) \<in> set (elems es). v \<noteq> None)"

lemma yields_ReadValue: "yields (\<lambda>v. no_nil (as_map v)) ReadValue"
proof -
  have "yields (\<lambda>(k, v). v \<noteq> None) (rd_bind ReadText (\<lambda>k. rd_bind rv (\<lambda>x. rd_ret (k, Some x))))" for rv :: "value rd"
    by (intro yields_bind yields_ret) simp
  note map = yields_bind_of [OF yields_slice [OF this]]
  have "yields (\<lambda>v. no_nil (as_map v)) (MapValue_Read rv)" for rv
    unfolding MapValue_Read_def by (rule yields_bind, rule map, rule yields_ret) (simp add: as_map_def no_nil_def)
  then have "yields (\<lambda>v. no_nil (as_map v)) (value_Read rv v)" for rv v
    by (cases v) (auto simp: value_read_defs(1-16) as_map_def no_nil_def NewMapValue_def intro!: yields_bind yields_ret)
  then have "yields (\<lambda>v. no_nil (as_map v)) (ReadValue_body rv)" for rv
    unfolding ReadValue_body_def by (intro yields_bind) (auto split: res.split intro: yields_fail)
  then have "yields (\<lambda>v. no_nil (as_map v)) (ReadValue_bounded n)" for n
    by (cases n) (auto intro: yields_fail)
  then show ?thesis unfolding yields_def ReadValue_def by blast
qed

lemma yields_set: "yields Q r \<Longrightarrow> (\<And>v. Q v \<Longrightarrow> P (upd v s)) \<Longrightarrow> yields P (rd_set r upd s)"
  unfolding rd_set_def by (rule yields_bind_of [where Q = Q]) (auto intro: yields_ret)

lemma yields_steps: "(\<And>s. yields P (f s)) \<Longrightarrow> yields P (rd_steps (fs @ [f]) s)"
  by (induction fs arbitrary: s) (auto intro!: yields_bind simp: yields_def rd_bind_def rd_ret_def split: prod.splits res.splits)

definition perf_ok :: "pack \<Rightarrow> bool" where
  "perf_ok p \<longleftrightarrow> (case p of PerfCounterPack cp \<Rightarrow> no_nil (perf_Data cp) | _ \<Rightarrow> True)"

lemma yields_ReadPack: "yields perf_ok ReadPack"
proof -
  have "yields (\<lambda>p. no_nil (perf_Data p)) (PerfCounterPack_Read p)" for p
    unfolding PerfCounterPack_Read_def
    using yields_steps [where f = "rd_set ReadValue (\<lambda>v p. p\<lparr>perf_Data := as_map v\<rparr>)" and P = "\<lambda>p. no_nil (perf_Data p)"
        and fs = "[rd_set ReadInt64 (\<lambda>v p. p\<lparr>perf_Time := v\<rparr>), rd_set ReadText (\<lambda>v p. p\<lparr>perf_ObjName := v\<rparr>),
          rd_set ReadByte (\<lambda>v p. p\<lparr>perf_TimeType := v\<rparr>)]", OF yields_set [OF yields_ReadValue]] by simp
  from yields_bind_of [OF this, where P = perf_ok] have perf: "yields perf_ok (pack_Read (PerfCounterPack q))" for q
    by (simp add: perf_ok_def yields_ret)
  have "yields perf_ok (pack_Read p)" for p
  proof (cases "\<exists>q. p = PerfCounterPack q")
    case False
    then show ?thesis by (cases p) (auto simp: perf_ok_def intro!: yields_bind [OF yields_ret])
  qed (use perf in blast)
  then have "yields perf_ok (rd_wrap t (pack_Read p))" for t p
    by (fastforce simp: yields_def rd_wrap_def split: prod.splits res.splits)
  then show ?thesis unfolding ReadPack_def by (intro yields_bind) (auto split: res.split intro: yields_fail)
qed

text \<open>The pack that is read has the type of its type byte.\<close>

lemma CreatePack_type: "CreatePack t = Ok p \<Longrightarrow> PackType p = t"
  by (auto simp: CreatePack_def split: if_splits)

lemma yields_type: "yields (\<lambda>p'. PackType p' = PackType p) (pack_Read p)"
  by (cases p) (auto intro!: yields_bind yields_ret)

lemma ReadPack_typed:
  assumes "fst (ReadPack d) = Ok p"
  shows "fst (ReadByte d) = Ok (PackType p) \<and> perf_ok p"
proof -
  obtain d' where r: "ReadPack d = (Ok p, d')" using assms by (cases "ReadPack d") simp
  then obtain t d1 where t: "ReadByte d = (Ok t, d1)"
    by (auto simp: ReadPack_def rd_bind_def split: prod.splits res.splits)
  then obtain p0 where p0: "CreatePack t = Ok p0" "rd_wrap t (pack_Read p0) d1 = (Ok p, d')"
    using r by (auto simp: ReadPack_def rd_bind_def rd_fail_def rd_panic_def split: res.splits)
  then have "pack_Read p0 d1 = (Ok p, d')" by (auto simp: rd_wrap_def split: prod.splits res.splits)
  then have "PackType p = PackType p0" using yields_type [of p0] by (auto simp: yields_def)
  moreover have "perf_ok p" using yields_ReadPack r by (auto simp: yields_def)
  ultimately show ?thesis using t CreatePack_type [OF p0(1)] by simp
qed

end
