(* ===== verification/PackCores.thy ===== *)
theory PackCores
  imports Steps UdpProcessor Agents AlertCache AlertDb ProfileDb XLogDb CounterDb TextDb GroupPerf Visitor TagCount PackReads
begin

text \<open>
  The pack handlers of internal/core: text\_core.go, xlog\_core.go, perf\_count\_core.go with auto\_5m\_sampling.go,
  profile\_core.go, alert\_core.go, summary\_core.go, span\_core.go, visitor\_core.go and text\_cache\_reset.go. A handler
  takes a pack from the dispatcher and puts it into the queue of its core, or drops it when the queue is full;
  the goroutine of the core takes the packs from the queue, changes the caches and adds entries to the
  queues of the writers. The state is that of all cores, as cmd/scouter-server/main.go wires them, so a core that main
  always passes is not optional here; logging is left out. A goroutine is one step for each pack.
\<close>

subsection \<open>Numbers\<close>

text \<open>The conversions of Go from \<open>int64\<close> and \<open>float32\<close> to \<open>float64\<close>, as bits, rounding to nearest even.\<close>

fun top_bit :: "nat \<Rightarrow> nat" where
  "top_bit n = (if n < 2 then 0 else Suc (top_bit (n div 2)))"

declare top_bit.simps [simp del]

definition float64_of_nat :: "nat \<Rightarrow> nat" where
  "float64_of_nat n =
     (if n = 0 then 0
      else let e = top_bit n in
        if e \<le> 52 then (e + 1023) * 2 ^ 52 + (n * 2 ^ (52 - e) - 2 ^ 52)
        else let q = n div 2 ^ (e - 52); r = n mod 2 ^ (e - 52); half = 2 ^ (e - 53);
                 q = (if half < r \<or> (r = half \<and> odd q) then q + 1 else q)
          in (e + 1023) * 2 ^ 52 + (q - 2 ^ 52))"

definition float64_of_int64 :: "i64 \<Rightarrow> f64" where
  "float64_of_int64 w = (if sint w < 0 then word_of_nat (2 ^ 63 + float64_of_nat (nat (- sint w)))
     else word_of_nat (float64_of_nat (nat (sint w))))"

definition float64_of_float32 :: "f32 \<Rightarrow> f64" where
  "float64_of_float32 w =
     (let s = unat w div 2 ^ 31; e = unat w div 2 ^ 23 mod 2 ^ 8; m = unat w mod 2 ^ 23
      in word_of_nat (s * 2 ^ 63 +
           (if e = 255 then 2047 * 2 ^ 52 + (if m = 0 then 0 else m * 2 ^ 29 mod 2 ^ 51 + 2 ^ 51)
            else if e = 0 then (if m = 0 then 0
              else let k = top_bit m in (k + 874) * 2 ^ 52 + (m * 2 ^ (52 - k) - 2 ^ 52))
            else (e + 896) * 2 ^ 52 + m * 2 ^ 29)))"

fun ToFloat64 :: "value option \<Rightarrow> f64 option" where
  "ToFloat64 (Some (DecimalValue v)) = Some (float64_of_int64 v)"
| "ToFloat64 (Some (FloatValue v)) = Some (float64_of_float32 v)"
| "ToFloat64 (Some (DoubleValue v)) = Some v"
| "ToFloat64 (Some (BooleanValue v)) = Some (if v then 0x3FF0000000000000 else 0)"
| "ToFloat64 _ = None"

subsection \<open>The sampling of the realtime counters\<close>

record Auto5MSampling =
  as_counterMap :: "(CounterKey \<times> value) list"
  as_fiveMinKeys :: "CounterKey set"

definition NewAuto5MSampling :: Auto5MSampling where
  "NewAuto5MSampling = \<lparr>as_counterMap = [], as_fiveMinKeys = {}\<rparr>"

definition fiveMinKey :: "CounterKey \<Rightarrow> CounterKey" where
  "fiveMinKey key = \<lparr>ck_ObjHash = ck_ObjHash key, ck_Counter = ck_Counter key, ck_TimeType = TimeTypeFiveMin\<rparr>"

definition as_Add :: "CounterKey \<Rightarrow> value option \<Rightarrow> Auto5MSampling \<Rightarrow> Auto5MSampling res" where
  "as_Add key v a =
     (if ck_TimeType key = TimeTypeRealtime
      then (case v of
          None \<Rightarrow> Panic NilDeref
        | Some v \<Rightarrow> Ok (if ValueType v \<in> {10, 20, 30, 40} then a\<lparr>as_counterMap := AList.update key v (as_counterMap a)\<rparr> else a))
      else if ck_TimeType key = TimeTypeFiveMin
      then Ok (a\<lparr>as_fiveMinKeys := insert (fiveMinKey key) (as_fiveMinKeys a)\<rparr>)
      else Ok a)"

text \<open>
  \<open>flush\<close> at a time of the day \<open>hhmm\<close>; the range loop meets the entries of the map in an order of its own, and
  the set of five minute keys is kept.
\<close>

definition as_flush :: "((CounterKey \<times> value) list \<Rightarrow> (CounterKey \<times> value) list) \<Rightarrow> string \<Rightarrow> int \<Rightarrow> Auto5MSampling \<Rightarrow>
    DailyEntry list \<Rightarrow> Auto5MSampling \<times> DailyEntry list" where
  "as_flush order date hhmm a q = (a\<lparr>as_counterMap := []\<rparr>,
     foldl (\<lambda>q (key, v).
         if fiveMinKey key \<in> as_fiveMinKeys a then q
         else (case ToFloat64 (Some v) of
             None \<Rightarrow> q
           | Some f64 \<Rightarrow> AddDaily \<lparr>de_Date = date, de_ObjHash = ck_ObjHash key, de_CounterName = ck_Counter key,
               de_Bucket = HHMMToBucket hhmm, de_Value = f64\<rparr> q))
       q (order (as_counterMap a)))"

subsection \<open>The state of the cores\<close>

record visitorEntry =
  ve_objType :: string
  ve_objHash :: i32
  ve_userid :: i64

text \<open>
  The caches, the queues of the cores, the state of the group statistics and of the sampling, the services
  whose text a goroutine searches on the disk, and the queues of the writers.
\<close>

record Cores =
  sv_textCache :: TextCache
  sv_xlogCache :: XLogCache
  sv_counterCache :: CounterCache
  sv_alertCache :: AlertCache
  sv_objectCache :: ObjectCache
  sv_typeManager :: ObjectTypeManager
  sv_groupPerf :: XLogGroupPerf
  sv_searches :: "i32 list"
  sv_sampling :: Auto5MSampling
  sv_textQ :: "TextPack list"
  sv_xlogQ :: "XLogPack list"
  sv_perfQ :: "PerfCounterPack list"
  sv_profileQ :: "XLogProfilePack list"
  sv_alertQ :: "AlertPack list"
  sv_summaryQ :: "SummaryPack list"
  sv_spanQ :: "SpanPack list"
  sv_visitorQ :: "visitorEntry list"
  sv_tagQ :: "(string \<times> XLogPack) list"
  sv_xlogWQ :: "xlog_entry list"
  sv_realtimeWQ :: "RealtimeEntry list"
  sv_dailyWQ :: "DailyEntry list"
  sv_profileWQ :: "ProfileEntry list"
  sv_alertWQ :: "AlertEntry list"
  sv_summaryWQ :: "SummaryEntry list"

text \<open>
  What the configuration says, and what the cores get from outside: the lookup of internal/geoip, the date and the
  time of the day of a time in milliseconds, the order of the iterations over maps, and the formats of the standard
  library.
\<close>

record CoreConfig =
  cf_xlogQueue :: nat
  cf_profileQueue :: int
  cf_tagcnt :: bool
  cf_hourly :: bool
  cf_zipkin :: bool
  cf_geo :: "(bytes \<Rightarrow> string \<times> i32) option"
  cf_deadTimeout :: int
  cf_date :: "i64 \<Rightarrow> string"
  cf_hhmm :: "i64 \<Rightarrow> int"
  cf_lower :: "string \<Rightarrow> string"
  cf_pickGroup :: "(i32 \<times> i32) list \<Rightarrow> i32"
  cf_pickSearched :: "i32 list \<Rightarrow> i32"
  cf_pickMeter :: "(groupKey \<times> meterService) list \<Rightarrow> groupKey"
  cf_counterOrder :: "counters \<Rightarrow> counters"
  cf_sampleOrder :: "(CounterKey \<times> value) list \<Rightarrow> (CounterKey \<times> value) list"
  cf_ipv6 :: "bytes \<Rightarrow> string"
  cf_format :: "value option \<Rightarrow> string"

definition pack_bytes :: "pack \<Rightarrow> bytes" where
  "pack_bytes p = ToByteArray (WritePack p NewDataOutputX)"

text \<open>The step of the goroutine of a core: nothing when its queue is empty.\<close>

definition take_queue :: "('s \<Rightarrow> 'e list) \<Rightarrow> ('e list \<Rightarrow> 's \<Rightarrow> 's) \<Rightarrow> ('e \<Rightarrow> 's \<Rightarrow> 's res) \<Rightarrow> 's \<Rightarrow> 's res" where
  "take_queue get put run s = (case get s of [] \<Rightarrow> Ok s | e # q \<Rightarrow> run e (put q s))"

fun fold_res :: "('a \<Rightarrow> 's \<Rightarrow> 's res) \<Rightarrow> 'a list \<Rightarrow> 's \<Rightarrow> 's res" where
  "fold_res f [] s = Ok s"
| "fold_res f (x # xs) s = res_bind (f x s) (fold_res f xs)"

subsection \<open>Texts\<close>

definition textCoreQueue :: nat where "textCoreQueue = 2048"

definition TextCore_Handler :: "pack \<Rightarrow> Cores \<Rightarrow> Cores" where
  "TextCore_Handler p s = (case p of
     TextPack tp \<Rightarrow> s\<lparr>sv_textCache := tc_Put (text_XType tp) (text_Hash tp) (text_Text tp) (sv_textCache s),
       sv_textQ := enqueue textCoreQueue tp (sv_textQ s)\<rparr>
   | _ \<Rightarrow> s)"

definition TextCore_AddText :: "string \<Rightarrow> i32 \<Rightarrow> string \<Rightarrow> Cores \<Rightarrow> Cores" where
  "TextCore_AddText xtype hash txt s =
     s\<lparr>sv_textQ := enqueue textCoreQueue \<lparr>text_XType = xtype, text_Hash = hash, text_Text = txt\<rparr> (sv_textQ s)\<rparr>"

text \<open>The configured kinds of texts are also stored by day; \<^const>\<open>None\<close> as in the text database.\<close>

definition shouldUseDailyText :: "bool \<Rightarrow> bool \<Rightarrow> bool \<Rightarrow> string \<Rightarrow> bool" where
  "shouldUseDailyText dailyService dailyApi dailyUa dv =
     (if dv = ''service'' then dailyService else if dv = ''apicall'' then dailyApi else if dv = ''ua'' then dailyUa else False)"

definition TextCore_run :: "(string \<Rightarrow> bool) \<Rightarrow> int \<Rightarrow> string \<Rightarrow> TextPack \<Rightarrow> TextWR \<Rightarrow> TextWR option" where
  "TextCore_run daily mbDaily today tp w =
     (case if daily (text_XType tp) then tw_AddDaily mbDaily today (text_XType tp) (text_Hash tp) (text_Text tp) w else Some w of
        None \<Rightarrow> None
      | Some w \<Rightarrow> tw_Add (text_XType tp) (text_Hash tp) (text_Text tp) w)"

subsection \<open>Alerts and summaries\<close>

definition alertCoreQueue :: nat where "alertCoreQueue = 1024"

definition AlertCore_Add :: "AlertPack \<Rightarrow> Cores \<Rightarrow> Cores" where
  "AlertCore_Add ap s = s\<lparr>sv_alertQ := enqueue alertCoreQueue ap (sv_alertQ s)\<rparr>"

definition AlertCore_Handler :: "i64 \<Rightarrow> pack \<Rightarrow> Cores \<Rightarrow> Cores" where
  "AlertCore_Handler now p s = (case p of
     AlertPack ap \<Rightarrow> AlertCore_Add (if alert_Time ap = 0 then ap\<lparr>alert_Time := now\<rparr> else ap) s
   | _ \<Rightarrow> s)"

definition AlertCore_run :: "AlertPack \<Rightarrow> Cores \<Rightarrow> Cores res" where
  "AlertCore_run ap s =
     (let data = pack_bytes (AlertPack ap)
      in res_bind (ac_Add (Some data) (sv_alertCache s)) (\<lambda>c.
           Ok (s\<lparr>sv_alertCache := c, sv_alertWQ := aw_Add \<lparr>ae_TimeMs = alert_Time ap, ae_Data = data\<rparr> (sv_alertWQ s)\<rparr>)))"

definition summaryCoreQueue :: nat where "summaryCoreQueue = 1024"

definition SummaryCore_Handler :: "i64 \<Rightarrow> pack \<Rightarrow> Cores \<Rightarrow> Cores" where
  "SummaryCore_Handler now p s = (case p of
     SummaryPack sp \<Rightarrow> s\<lparr>sv_summaryQ := enqueue summaryCoreQueue (if summary_Time sp = 0 then sp\<lparr>summary_Time := now\<rparr> else sp)
       (sv_summaryQ s)\<rparr>
   | _ \<Rightarrow> s)"

definition SummaryCore_run :: "SummaryPack \<Rightarrow> Cores \<Rightarrow> Cores res" where
  "SummaryCore_run sp s = Ok (s\<lparr>sv_summaryWQ :=
     sw_Add \<lparr>se_TimeMs = summary_Time sp, se_SType = summary_SType sp, se_Data = pack_bytes (SummaryPack sp)\<rparr> (sv_summaryWQ s)\<rparr>)"

subsection \<open>Profiles\<close>

definition profileCoreQueue :: nat where "profileCoreQueue = 4096"

definition ProfileCore_Handler :: "i64 \<Rightarrow> pack \<Rightarrow> Cores \<Rightarrow> Cores" where
  "ProfileCore_Handler now p s = (case p of
     XLogProfilePack pp \<Rightarrow> s\<lparr>sv_profileQ := enqueue profileCoreQueue (if prof_Time pp = 0 then pp\<lparr>prof_Time := now\<rparr> else pp)
       (sv_profileQ s)\<rparr>
   | XLogProfilePack2 pp \<Rightarrow>
       let t = (if prof_Time pp = 0 then now else prof_Time pp)
       in s\<lparr>sv_profileQ := enqueue profileCoreQueue \<lparr>prof_Time = t, prof_ObjHash = prof_ObjHash pp, prof_Service = prof_Service pp,
            prof_Txid = prof_Txid pp, prof_Profile = prof_Profile pp\<rparr> (sv_profileQ s)\<rparr>
   | _ \<Rightarrow> s)"

definition ProfileCore_run :: "CoreConfig \<Rightarrow> XLogProfilePack \<Rightarrow> Cores \<Rightarrow> Cores res" where
  "ProfileCore_run cf pp s = Ok (s\<lparr>sv_profileWQ := pw_Add (cf_profileQueue cf)
     \<lparr>pe_TimeMs = prof_Time pp, pe_Txid = prof_Txid pp, pe_Data = prof_Profile pp\<rparr> (sv_profileWQ s)\<rparr>)"

subsection \<open>Performance counters\<close>

definition perfCoreQueue :: nat where "perfCoreQueue = 4096"

definition PerfCountCore_Handler :: "i64 \<Rightarrow> pack \<Rightarrow> Cores \<Rightarrow> Cores" where
  "PerfCountCore_Handler now p s = (case p of
     PerfCounterPack cp \<Rightarrow> s\<lparr>sv_perfQ := enqueue perfCoreQueue (if perf_Time cp = 0 then cp\<lparr>perf_Time := now\<rparr> else cp) (sv_perfQ s)\<rparr>
   | _ \<Rightarrow> s)"

definition perf_sample :: "CounterKey \<Rightarrow> value option \<Rightarrow> Cores \<Rightarrow> Cores res" where
  "perf_sample key v s = res_bind (as_Add key v (sv_sampling s)) (\<lambda>a. Ok (s\<lparr>sv_sampling := a\<rparr>))"

definition perf_daily :: "CoreConfig \<Rightarrow> PerfCounterPack \<Rightarrow> i32 \<Rightarrow> string \<times> value option \<Rightarrow> Cores \<Rightarrow> Cores res" where
  "perf_daily cf cp objHash entry s = (case ToFloat64 (snd entry) of
     None \<Rightarrow> Ok s
   | Some f64 \<Rightarrow>
       perf_sample \<lparr>ck_ObjHash = objHash, ck_Counter = fst entry, ck_TimeType = perf_TimeType cp\<rparr> (snd entry)
         (s\<lparr>sv_dailyWQ := AddDaily \<lparr>de_Date = cf_date cf (perf_Time cp), de_ObjHash = objHash, de_CounterName = fst entry,
             de_Bucket = HHMMToBucket (cf_hhmm cf (perf_Time cp)), de_Value = f64\<rparr> (sv_dailyWQ s)\<rparr>))"

definition PerfCountCore_run :: "CoreConfig \<Rightarrow> PerfCounterPack \<Rightarrow> Cores \<Rightarrow> Cores res" where
  "PerfCountCore_run cf cp s = (case perf_Data cp of
     None \<Rightarrow> Panic NilDeref
   | Some d \<Rightarrow>
       let objHash = HashString (perf_ObjName cp); entries = elems d;
           key = (\<lambda>name. \<lparr>ck_ObjHash = objHash, ck_Counter = name, ck_TimeType = perf_TimeType cp\<rparr>);
           s = s\<lparr>sv_counterCache := fold (\<lambda>(name, v). cc_Put (key name) v) entries (sv_counterCache s)\<rparr>
       in if perf_TimeType cp = TimeTypeRealtime
          then let counters = cf_counterOrder cf (foldl (\<lambda>m (name, v). AList.update name v m) [] entries)
               in fold_res (\<lambda>(name, v). perf_sample (key name) v) entries
                    (s\<lparr>sv_realtimeWQ := AddRealtimeFromPerfCounter (perf_Time cp) objHash counters (sv_realtimeWQ s)\<rparr>)
          else fold_res (perf_daily cf cp objHash) entries s)"

definition Auto5M_flush :: "CoreConfig \<Rightarrow> i64 \<Rightarrow> Cores \<Rightarrow> Cores" where
  "Auto5M_flush cf now s = (let (a, q) = as_flush (cf_sampleOrder cf) (cf_date cf now) (cf_hhmm cf now) (sv_sampling s) (sv_dailyWQ s)
     in s\<lparr>sv_sampling := a, sv_dailyWQ := q\<rparr>)"

subsection \<open>Visitors\<close>

definition visitorCoreQueue :: nat where "visitorCoreQueue = 4096"

definition obj_type :: "i32 \<Rightarrow> ObjectCache \<Rightarrow> string" where
  "obj_type objHash c = (case oc_Get objHash c of Some info \<Rightarrow> object_ObjType (oi_Pack info) | None \<Rightarrow> [])"

definition VisitorCore_Add :: "XLogPack \<Rightarrow> Cores \<Rightarrow> Cores" where
  "VisitorCore_Add xp s =
     (if xlog_Userid xp = 0 then s
      else s\<lparr>sv_visitorQ := enqueue visitorCoreQueue
        \<lparr>ve_objType = obj_type (xlog_ObjHash xp) (sv_objectCache s), ve_objHash = xlog_ObjHash xp, ve_userid = xlog_Userid xp\<rparr>
        (sv_visitorQ s)\<rparr>)"

definition VisitorCore_process :: "bool \<Rightarrow> string \<Rightarrow> int \<Rightarrow> visitorEntry \<Rightarrow> VisitorDB \<times> VisitorHourlyDB \<Rightarrow> VisitorDB \<times> VisitorHourlyDB" where
  "VisitorCore_process hourlyEnabled today hour entry dbs =
     (vd_Offer today (ve_objType entry) (ve_objHash entry) (ve_userid entry) (fst dbs),
      if hourlyEnabled then vh_Offer today hour (ve_objHash entry) (ve_userid entry) (snd dbs) else snd dbs)"

definition tagQueue :: nat where "tagQueue = 4096"

definition ProcessXLog :: "string \<Rightarrow> XLogPack \<Rightarrow> Cores \<Rightarrow> Cores" where
  "ProcessXLog objType xp s = s\<lparr>sv_tagQ := enqueue tagQueue (objType, xp) (sv_tagQ s)\<rparr>"

subsection \<open>Transactions\<close>

definition XLogCore_Handler :: "CoreConfig \<Rightarrow> i64 \<Rightarrow> pack \<Rightarrow> Cores \<Rightarrow> Cores" where
  "XLogCore_Handler cf now p s = (case p of
     XLogPack xp \<Rightarrow> s\<lparr>sv_xlogQ := enqueue (cf_xlogQueue cf) (if xlog_EndTime xp = 0 then xp\<lparr>xlog_EndTime := now\<rparr> else xp) (sv_xlogQ s)\<rparr>
   | _ \<Rightarrow> s)"

definition is_service :: "XLogPack \<Rightarrow> bool" where
  "is_service xp \<longleftrightarrow> xlog_XType xp = 0 \<or> xlog_XType xp = 1"

definition geo_lookup :: "(bytes \<Rightarrow> string \<times> i32) option \<Rightarrow> XLogPack \<Rightarrow> XLogPack" where
  "geo_lookup geo xp = (case geo of
     None \<Rightarrow> xp
   | Some lookup \<Rightarrow>
       if 0 < length (xlog_IPAddr xp)
       then let (countryCode, cityHash) = lookup (xlog_IPAddr xp);
                xp = (if countryCode \<noteq> [] then xp\<lparr>xlog_CountryCode := countryCode\<rparr> else xp)
            in if cityHash \<noteq> 0 then xp\<lparr>xlog_City := cityHash\<rparr> else xp
       else xp)"

definition xlog_calc :: "CoreConfig \<Rightarrow> XLogPack \<Rightarrow> Cores \<Rightarrow> XLogPack \<times> Cores" where
  "xlog_calc cf xp s =
     (let (xp, search, gp, c) = gp_Process (cf_lower cf) (cf_pickGroup cf) (cf_pickSearched cf) xp (sv_groupPerf s) (sv_textCache s)
      in (geo_lookup (cf_geo cf) xp, s\<lparr>sv_groupPerf := gp, sv_textCache := c,
            sv_searches := (if search then sv_searches s @ [xlog_Service xp] else sv_searches s)\<rparr>))"

text \<open>The time is in seconds.\<close>

definition XLogCore_run :: "CoreConfig \<Rightarrow> int \<Rightarrow> XLogPack \<Rightarrow> Cores \<Rightarrow> Cores res" where
  "XLogCore_run cf sec xp s =
     (let isService = is_service xp;
          (xp, s) = (if isService then xlog_calc cf xp s else (xp, s));
          b = pack_bytes (XLogPack xp)
      in res_bind (xc_Put (xlog_ObjHash xp) (xlog_Elapsed xp) (xlog_Error xp \<noteq> 0) (Some b) (sv_xlogCache s)) (\<lambda>c.
           let s = s\<lparr>sv_xlogCache := c\<rparr>;
               s = (if isService then s\<lparr>sv_groupPerf := gp_Add (cf_pickMeter cf) sec xp (sv_groupPerf s)\<rparr> else s);
               s = (if xlog_Userid xp \<noteq> 0 then VisitorCore_Add xp s else s);
               s = (if cf_tagcnt cf then ProcessXLog (obj_type (xlog_ObjHash xp) (sv_objectCache s)) xp s else s)
           in Ok (s\<lparr>sv_xlogWQ := xw_Add \<lparr>xe_Time = xlog_EndTime xp, xe_Txid = xlog_Txid xp, xe_Gxid = xlog_Gxid xp,
                xe_Elapsed = xlog_Elapsed xp, xe_Data = b\<rparr> (sv_xlogWQ s)\<rparr>)))"

subsection \<open>Spans\<close>

definition spanCoreQueue :: nat where "spanCoreQueue = 4096"

definition SpanCore_Handler :: "pack \<Rightarrow> Cores \<Rightarrow> Cores" where
  "SpanCore_Handler p s = (case p of SpanPack sp \<Rightarrow> s\<lparr>sv_spanQ := enqueue spanCoreQueue sp (sv_spanQ s)\<rparr> | _ \<Rightarrow> s)"

text \<open>
  The handler of a container reads packs until the blob is exhausted. A panic of the reader ends the handler; the
  spans that were queued before it stay.
\<close>

function span_loop :: "din \<Rightarrow> Cores \<Rightarrow> Cores \<times> go_panic option" where
  "span_loop d s =
     (if Available d > 0
      then (case ReadPack d of
          (Ok p, d') \<Rightarrow> span_loop d' (SpanCore_Handler p s)
        | (Err e, d') \<Rightarrow> (s, None)
        | (Panic q, d') \<Rightarrow> (s, Some q))
      else (s, None))"
  by pat_completeness auto
termination
  by (relation "measure (\<lambda>(d, s). length (pending d))") (auto dest!: takesD [OF takes_ReadPack, OF sym])

declare span_loop.simps [simp del]

definition SpanCore_ContainerHandler :: "pack \<Rightarrow> Cores \<Rightarrow> Cores \<times> go_panic option" where
  "SpanCore_ContainerHandler p s = (case p of
     SpanContainerPack cp \<Rightarrow> if length (spanc_Spans cp) = 0 then (s, None) else span_loop (NewDataInputX (spanc_Spans cp)) s
   | _ \<Rightarrow> (s, None))"

text \<open>The first millisecond of the year 2000.\<close>

definition minReasonableTimeMs :: i64 where "minReasonableTimeMs = 946684800000"

definition spanToXLog :: "i64 \<Rightarrow> SpanPack \<Rightarrow> XLogPack" where
  "spanToXLog now sp =
     (let endTime = span_Timestamp sp + scast (span_Elapsed sp);
          endTime = (if sint endTime < sint minReasonableTimeMs then now else endTime)
      in XLogPack_zero\<lparr>xlog_EndTime := endTime, xlog_ObjHash := span_ObjHash sp, xlog_Service := span_Name sp, xlog_Txid := span_Txid sp,
           xlog_Caller := span_Caller sp, xlog_Gxid := span_Gxid sp, xlog_Elapsed := span_Elapsed sp, xlog_Error := span_Error sp,
           xlog_IPAddr := span_LocalEndpointIp sp, xlog_B3Mode := True\<rparr>)"

definition map_field_elems :: "map_field \<Rightarrow> (string \<times> value option) list" where
  "map_field_elems m = (case m of None \<Rightarrow> [] | Some es \<Rightarrow> elems es)"

definition list_field_elems :: "list_field \<Rightarrow> value option list" where
  "list_field_elems l = (case l of None \<Rightarrow> [] | Some vs \<Rightarrow> elems vs)"

definition spanHasDetail :: "SpanPack \<Rightarrow> bool" where
  "spanHasDetail sp \<longleftrightarrow> map_field_elems (span_Tags sp) \<noteq> [] \<or> list_field_elems (span_AnnotationTimestamps sp) \<noteq> []"

definition spanKindName :: "byte \<Rightarrow> string" where
  "spanKindName kind = (if kind = 1 then ''CLIENT'' else if kind = 2 then ''SERVER'' else if kind = 3 then ''PRODUCER''
     else if kind = 4 then ''CONSUMER'' else [])"

definition hex_byte :: "byte \<Rightarrow> string" where
  "hex_byte b = (let digit = (\<lambda>n. ''0123456789abcdef'' ! n) in [digit (unat b div 16), digit (unat b mod 16)])"

definition formatIP :: "(bytes \<Rightarrow> string) \<Rightarrow> bytes \<Rightarrow> string" where
  "formatIP ipv6 ip =
     (if length ip = 4 then itoa (uint (ip ! 0)) @ ''.'' @ itoa (uint (ip ! 1)) @ ''.'' @ itoa (uint (ip ! 2)) @ ''.'' @ itoa (uint (ip ! 3))
      else if length ip = 16 then ipv6 ip
      else concat (map hex_byte ip))"

definition endpoint_text :: "(bytes \<Rightarrow> string) \<Rightarrow> bytes \<Rightarrow> i16 \<Rightarrow> string" where
  "endpoint_text ipv6 ip port = (if port \<noteq> 0 then formatIP ipv6 ip @ '':'' @ itoa (sint port) else formatIP ipv6 ip)"

text \<open>The messages of a profile with their start times; each is written as a step with the next index.\<close>

definition span_name :: "i32 \<Rightarrow> TextCache \<Rightarrow> string \<times> TextCache" where
  "span_name h c = (if h \<noteq> 0 then (let (t, c) = tc_Get ''object'' h c in (case t of Some n \<Rightarrow> n | None \<Rightarrow> [], c)) else ([], c))"

fun span_annotations :: "i64 \<Rightarrow> value option list \<Rightarrow> value option list \<Rightarrow> (i32 \<times> string) list" where
  "span_annotations base (t # ts) (v # vs) =
     (let ts' = (case t of Some (DecimalValue d) \<Rightarrow> d | _ \<Rightarrow> 0);
          val = (case v of Some (TextValue x) \<Rightarrow> x | _ \<Rightarrow> []);
          startTime = (if sint ts' > 0 \<and> sint base > 0 then ucast (ts' - base) else 0)
      in (startTime, ''[annotation] '' @ val) # span_annotations base ts vs)"
| "span_annotations base _ _ = []"

definition span_tag :: "(value option \<Rightarrow> string) \<Rightarrow> string \<times> value option \<Rightarrow> i32 \<times> string" where
  "span_tag format entry = (0, ''[tag] '' @ fst entry @ '' = '' @ (case snd entry of
     Some (TextValue x) \<Rightarrow> x | Some (DecimalValue d) \<Rightarrow> itoa (sint d) | v \<Rightarrow> format v))"

definition span_messages :: "CoreConfig \<Rightarrow> SpanPack \<Rightarrow> TextCache \<Rightarrow> (i32 \<times> string) list \<times> TextCache" where
  "span_messages cf sp c =
     (let kind = spanKindName (span_SpanType sp);
          m1 = (if kind \<noteq> [] then [(0, ''['' @ kind @ ''] span'')] else []);
          (svcName, c) = span_name (span_LocalEndpointServiceName sp) c;
          m2 = (if svcName \<noteq> [] then [(0, ''local.service = '' @ svcName)] else []);
          m3 = (if 0 < length (span_LocalEndpointIp sp)
            then [(0, ''local.endpoint = '' @ endpoint_text (cf_ipv6 cf) (span_LocalEndpointIp sp) (span_LocalEndpointPort sp))] else []);
          (remoteSvc, c) = span_name (span_RemoteEndpointServiceName sp) c;
          m4 = (if remoteSvc \<noteq> [] then [(0, ''remote.service = '' @ remoteSvc)] else []);
          m5 = (if 0 < length (span_RemoteEndpointIp sp)
            then [(0, ''remote.endpoint = '' @ endpoint_text (cf_ipv6 cf) (span_RemoteEndpointIp sp) (span_RemoteEndpointPort sp))] else []);
          m6 = span_annotations (span_Timestamp sp) (list_field_elems (span_AnnotationTimestamps sp)) (list_field_elems (span_AnnotationValues sp));
          m7 = map (span_tag (cf_format cf)) (map_field_elems (span_Tags sp))
      in (m1 @ m2 @ m3 @ m4 @ m5 @ m6 @ m7, c))"

definition message_step :: "nat \<Rightarrow> i32 \<times> string \<Rightarrow> step" where
  "message_step idx m = MessageStep \<lparr>step_Parent = 0, step_Index = word_of_nat idx, step_StartTime = fst m, step_StartCpu = 0, message_Message = snd m\<rparr>"

definition buildSpanProfile :: "CoreConfig \<Rightarrow> SpanPack \<Rightarrow> TextCache \<Rightarrow> bytes \<times> TextCache" where
  "buildSpanProfile cf sp c = (let (ms, c) = span_messages cf sp c
     in (ToByteArray (fold (\<lambda>(idx, m). WriteStep (message_step idx m)) (List.enumerate 0 ms) NewDataOutputX), c))"

text \<open>\<open>ProfileCount\<close> is set after the pack was written, so nothing depends on it.\<close>

definition SpanCore_run :: "CoreConfig \<Rightarrow> i64 \<Rightarrow> int \<Rightarrow> SpanPack \<Rightarrow> Cores \<Rightarrow> Cores res" where
  "SpanCore_run cf now nanos sp s =
     (let xp = spanToXLog now sp; b = pack_bytes (XLogPack xp)
      in res_bind (xc_Put (xlog_ObjHash xp) (xlog_Elapsed xp) (xlog_Error xp \<noteq> 0) (Some b) (sv_xlogCache s)) (\<lambda>c.
           let s = s\<lparr>sv_xlogCache := c, sv_objectCache := snd (oc_Touch nanos (xlog_ObjHash xp) (sv_objectCache s)),
                 sv_xlogWQ := xw_Add \<lparr>xe_Time = xlog_EndTime xp, xe_Txid = xlog_Txid xp, xe_Gxid = xlog_Gxid xp,
                   xe_Elapsed = xlog_Elapsed xp, xe_Data = b\<rparr> (sv_xlogWQ s)\<rparr>
           in if spanHasDetail sp
              then let (profileData, tc) = buildSpanProfile cf sp (sv_textCache s)
                in Ok (s\<lparr>sv_textCache := tc, sv_profileWQ := (if 0 < length profileData
                     then pw_Add (cf_profileQueue cf) \<lparr>pe_TimeMs = xlog_EndTime xp, pe_Txid = xlog_Txid xp, pe_Data = profileData\<rparr> (sv_profileWQ s)
                     else sv_profileWQ s)\<rparr>)
              else Ok s))"

subsection \<open>The reset of the texts\<close>

text \<open>
  One tick of the watcher: the date it knows, and the live objects whose agents are called when the date has
  changed.
\<close>

definition resetAllAgents :: "i32 list \<Rightarrow> int \<Rightarrow> int \<Rightarrow> ObjectCache \<Rightarrow> i32 list" where
  "resetAllAgents keys now deadTimeout c = map (\<lambda>info. object_ObjHash (oi_Pack info)) (oc_GetLive keys now deadTimeout c)"

definition tcr_tick :: "string \<Rightarrow> i32 list \<Rightarrow> int \<Rightarrow> int \<Rightarrow> ObjectCache \<Rightarrow> string \<Rightarrow> string \<times> i32 list" where
  "tcr_tick curDate keys now deadTimeout c oldDate =
     (if curDate \<noteq> oldDate then (curDate, resetAllAgents keys now deadTimeout c) else (oldDate, []))"

end
