(* ===== verification/Server.thy ===== *)
theory Server
  imports PackCores "HOL-Library.Sublist"
begin

text \<open>
  The server that cmd/scouter-server/main.go puts together: the dispatcher with the handlers of the cores, what one
  datagram does, and the goroutines of the cores and of the writers as the steps of a transition relation. A
  goroutine takes one step at a time, in any order. A step of the text database that does not return is
  no step.
\<close>

subsection \<open>The dispatcher\<close>

text \<open>
  A panic of a handler is recovered when the datagram is done with; the handlers that would come after it
  do not run.
\<close>

type_synonym handled = "Cores \<times> go_panic option"

definition guarded :: "(pack \<Rightarrow> Cores \<Rightarrow> handled) \<Rightarrow> pack \<Rightarrow> handled \<Rightarrow> handled" where
  "guarded h p s = (case snd s of None \<Rightarrow> h p (fst s) | Some q \<Rightarrow> s)"

definition plain :: "(pack \<Rightarrow> Cores \<Rightarrow> Cores) \<Rightarrow> pack \<Rightarrow> handled \<Rightarrow> handled" where
  "plain h = guarded (\<lambda>p s. (h p s, None))"

definition agents_of :: "CoreConfig \<Rightarrow> Cores \<Rightarrow> AgentManager" where
  "agents_of cf s = \<lparr>am_objectCache = sv_objectCache s, am_textCache = Some (sv_textCache s), am_hasTextCore = True,
     am_hasAlertCore = True, am_deadTimeout = cf_deadTimeout cf, am_typeManager = Some (sv_typeManager s)\<rparr>"

definition put_agents :: "AgentManager \<Rightarrow> Cores \<Rightarrow> Cores" where
  "put_agents am s = s\<lparr>sv_objectCache := am_objectCache am,
     sv_textCache := (case am_textCache am of Some c \<Rightarrow> c | None \<Rightarrow> sv_textCache s),
     sv_typeManager := (case am_typeManager am of Some m \<Rightarrow> m | None \<Rightarrow> sv_typeManager s)\<rparr>"

fun agent_call_run :: "agent_call \<Rightarrow> Cores \<Rightarrow> Cores" where
  "agent_call_run (AlertAdd ap) s = AlertCore_Add ap s"
| "agent_call_run (AddText xtype hash txt) s = TextCore_AddText xtype hash txt s"

definition AgentManager_Handler :: "CoreConfig \<Rightarrow> (nat \<Rightarrow> int) \<Rightarrow> string option \<Rightarrow> pack \<Rightarrow> Cores \<Rightarrow> Cores" where
  "AgentManager_Handler cf clk addr p s =
     (let (calls, am) = am_Handler clk p addr (agents_of cf s) in fold agent_call_run calls (put_agents am s))"

definition AgentManager_round :: "CoreConfig \<Rightarrow> (nat \<Rightarrow> int) \<Rightarrow> byte \<Rightarrow> i32 list \<Rightarrow> Cores \<Rightarrow> Cores" where
  "AgentManager_round cf clk level keys s =
     (let (calls, am) = am_monitor clk level keys (agents_of cf s) in fold agent_call_run calls (put_agents am s))"

text \<open>The handlers in the order in which main registers them; \<open>clk\<close> is the clock they read.\<close>

definition server_dispatcher :: "CoreConfig \<Rightarrow> (nat \<Rightarrow> int) \<Rightarrow> string option \<Rightarrow> handled Dispatcher" where
  "server_dispatcher cf clk addr =
     (let now = UnixMilli (clk 0);
          d = Register 50 (plain TextCore_Handler) NewDispatcher;
          d = Register 21 (plain (XLogCore_Handler cf now)) d;
          d = Register 60 (plain (PerfCountCore_Handler now)) d;
          d = Register 26 (plain (ProfileCore_Handler now)) d;
          d = Register 27 (plain (ProfileCore_Handler now)) d;
          d = Register 80 (plain (AgentManager_Handler cf clk addr)) d;
          d = Register 70 (plain (AlertCore_Handler now)) d;
          d = Register 63 (plain (SummaryCore_Handler now)) d
      in if cf_zipkin cf
         then Register 32 (guarded SpanCore_ContainerHandler) (Register 31 (plain SpanCore_Handler) d)
         else d)"

text \<open>The packs of a datagram, each with the clock of its handler.\<close>

definition dispatch_all :: "CoreConfig \<Rightarrow> (nat \<Rightarrow> nat \<Rightarrow> int) \<Rightarrow> string option \<Rightarrow> pack list \<Rightarrow> Cores \<Rightarrow> Cores" where
  "dispatch_all cf clks addr ps s =
     fst (fold (\<lambda>(i, p). Dispatch (server_dispatcher cf (clks i) addr) p) (List.enumerate 0 ps) (s, None))"

subsection \<open>The cores\<close>

datatype turn = XLogTurn int | PerfTurn | ProfileTurn | AlertTurn | SummaryTurn | SpanTurn i64 int

fun core_turn :: "CoreConfig \<Rightarrow> turn \<Rightarrow> Cores \<Rightarrow> Cores res" where
  "core_turn cf (XLogTurn sec) s = take_queue sv_xlogQ (\<lambda>q s. s\<lparr>sv_xlogQ := q\<rparr>) (XLogCore_run cf sec) s"
| "core_turn cf PerfTurn s = take_queue sv_perfQ (\<lambda>q s. s\<lparr>sv_perfQ := q\<rparr>) (PerfCountCore_run cf) s"
| "core_turn cf ProfileTurn s = take_queue sv_profileQ (\<lambda>q s. s\<lparr>sv_profileQ := q\<rparr>) (ProfileCore_run cf) s"
| "core_turn cf AlertTurn s = take_queue sv_alertQ (\<lambda>q s. s\<lparr>sv_alertQ := q\<rparr>) AlertCore_run s"
| "core_turn cf SummaryTurn s = take_queue sv_summaryQ (\<lambda>q s. s\<lparr>sv_summaryQ := q\<rparr>) SummaryCore_run s"
| "core_turn cf (SpanTurn now nanos) s = take_queue sv_spanQ (\<lambda>q s. s\<lparr>sv_spanQ := q\<rparr>) (SpanCore_run cf now nanos) s"

subsection \<open>The state and its steps\<close>

record Server =
  srv_cores :: Cores
  srv_mpp :: MultiPacketProcessor
  srv_textWR :: TextWR
  srv_textRD :: TextRD
  srv_visitors :: "VisitorDB \<times> VisitorHourlyDB"
  srv_tags :: TagCountCore
  srv_xlogBatch :: "xlog_entry list"
  srv_xlogWR :: XLogWR
  srv_counterWR :: CounterWR
  srv_profileWR :: ProfileWR
  srv_alertWR :: AlertWR
  srv_summaryWR :: SummaryWR

text \<open>The environment of the writers: the codec, the calendar, the sizes of the indexes, the configuration.\<close>

record StoreConfig =
  st_enc :: "bytes \<Rightarrow> bytes"
  st_gdm :: "i64 \<Rightarrow> nat"
  st_clock :: "i64 \<Rightarrow> i32"
  st_hour :: "i64 \<Rightarrow> nat"
  st_compressXLog :: bool
  st_compressProfile :: bool
  st_mb :: "string \<Rightarrow> int"
  st_mbDaily :: int
  st_dailyText :: "string \<Rightarrow> bool"
  st_marshal :: "(string \<times> hourlyCounter) list \<Rightarrow> bytes"
  st_victim :: "(i64 \<times> multiPacket) list \<Rightarrow> i64"

inductive server_step :: "CoreConfig \<Rightarrow> StoreConfig \<Rightarrow> Server \<Rightarrow> Server \<Rightarrow> bool" for cf :: CoreConfig and st :: StoreConfig where
  step_datagram: "udp_process (st_victim st) now data (srv_mpp s) = (ps, mpp) \<Longrightarrow>
    server_step cf st s (s\<lparr>srv_cores := dispatch_all cf clks addr ps (srv_cores s), srv_mpp := mpp\<rparr>)"
| step_cleanup: "server_step cf st s (s\<lparr>srv_mpp := mp_cleanup now (srv_mpp s)\<rparr>)"
| step_core: "core_turn cf t (srv_cores s) = Ok c \<Longrightarrow> server_step cf st s (s\<lparr>srv_cores := c\<rparr>)"
| step_sampling: "server_step cf st s (s\<lparr>srv_cores := Auto5M_flush cf now (srv_cores s)\<rparr>)"
| step_agents: "iterates keys (sv_objectCache (srv_cores s)) \<Longrightarrow>
    server_step cf st s (s\<lparr>srv_cores := AgentManager_round cf clk level keys (srv_cores s)\<rparr>)"
| step_text: "sv_textQ (srv_cores s) = tp # q \<Longrightarrow> TextCore_run (st_dailyText st) (st_mbDaily st) today tp (srv_textWR s) = Some w \<Longrightarrow>
    server_step cf st s (s\<lparr>srv_cores := srv_cores s\<lparr>sv_textQ := q\<rparr>, srv_textWR := w\<rparr>)"
| step_text_writer: "tw_step (st_mb st) order (srv_textWR s) = Some w \<Longrightarrow> server_step cf st s (s\<lparr>srv_textWR := w\<rparr>)"
| step_search: "svc \<in> set (sv_searches (srv_cores s)) \<Longrightarrow>
    gu_searchDisk (st_mb st) disk svc (srv_textRD s) (sv_textCache (srv_cores s)) = Some (r, tc) \<Longrightarrow>
    server_step cf st s (s\<lparr>srv_cores := srv_cores s\<lparr>sv_textCache := tc, sv_searches := remove1 svc (sv_searches (srv_cores s))\<rparr>,
      srv_textRD := r\<rparr>)"
| step_visitor: "sv_visitorQ (srv_cores s) = e # q \<Longrightarrow>
    server_step cf st s (s\<lparr>srv_cores := srv_cores s\<lparr>sv_visitorQ := q\<rparr>,
      srv_visitors := VisitorCore_process (cf_hourly cf) today hr e (srv_visitors s)\<rparr>)"
| step_tag: "sv_tagQ (srv_cores s) = (objType, xp) # q \<Longrightarrow>
    server_step cf st s (s\<lparr>srv_cores := srv_cores s\<lparr>sv_tagQ := q\<rparr>,
      srv_tags := tc_process (st_marshal st) (cf_date cf) (st_hour st) xp (srv_tags s)\<rparr>)"
| step_xlog_writer: "bw_step batchSize (\<lambda>e w. snd (xw_process (st_enc st) (st_gdm st) (cf_date cf) (st_compressXLog st, e) w)) xw_flushData
      \<lparr>bw_queue = sv_xlogWQ (srv_cores s), bw_batch = srv_xlogBatch s, bw_writer = srv_xlogWR s\<rparr> = Some b \<Longrightarrow>
    server_step cf st s (s\<lparr>srv_cores := srv_cores s\<lparr>sv_xlogWQ := bw_queue b\<rparr>, srv_xlogBatch := bw_batch b, srv_xlogWR := bw_writer b\<rparr>)"
| step_profile_writer: "sv_profileWQ (srv_cores s) = e # q \<Longrightarrow>
    server_step cf st s (s\<lparr>srv_cores := srv_cores s\<lparr>sv_profileWQ := q\<rparr>,
      srv_profileWR := snd (pw_process (st_enc st) (cf_date cf) (st_compressProfile st, e) (srv_profileWR s))\<rparr>)"
| step_realtime_writer: "sv_realtimeWQ (srv_cores s) = e # q \<Longrightarrow>
    server_step cf st s (s\<lparr>srv_cores := srv_cores s\<lparr>sv_realtimeWQ := q\<rparr>,
      srv_counterWR := snd (writeRealtime (cf_date cf) (st_clock st) e (srv_counterWR s))\<rparr>)"
| step_daily_writer: "sv_dailyWQ (srv_cores s) = e # q \<Longrightarrow> writeDaily e (srv_counterWR s) = Some (r, w) \<Longrightarrow>
    server_step cf st s (s\<lparr>srv_cores := srv_cores s\<lparr>sv_dailyWQ := q\<rparr>, srv_counterWR := w\<rparr>)"
| step_alert_writer: "sv_alertWQ (srv_cores s) = e # q \<Longrightarrow>
    server_step cf st s (s\<lparr>srv_cores := srv_cores s\<lparr>sv_alertWQ := q\<rparr>,
      srv_alertWR := snd (aw_process (st_gdm st) (cf_date cf) e (srv_alertWR s))\<rparr>)"
| step_summary_writer: "sv_summaryWQ (srv_cores s) = e # q \<Longrightarrow>
    server_step cf st s (s\<lparr>srv_cores := srv_cores s\<lparr>sv_summaryWQ := q\<rparr>,
      srv_summaryWR := snd (sw_process (st_gdm st) (cf_date cf) e (srv_summaryWR s))\<rparr>)"
| step_purge: "server_step cf st s (s\<lparr>srv_xlogWR := xw_PurgeOldDays keep (srv_xlogWR s), srv_counterWR := cw_PurgeOldDays keep (srv_counterWR s),
      srv_profileWR := pw_PurgeOldDays keep (srv_profileWR s), srv_alertWR := aw_PurgeOldDays keep (srv_alertWR s),
      srv_summaryWR := sw_PurgeOldDays keep (srv_summaryWR s)\<rparr>)"

inductive_cases server_stepE: "server_step cf st s s'"

text \<open>The server when main has started it, on the files of the databases.\<close>

definition NewCores :: "CoreConfig \<Rightarrow> TextCache \<Rightarrow> nat \<Rightarrow> ObjectTypeManager \<Rightarrow> Cores" where
  "NewCores cf tc xlogCacheSize types =
     (let (gp, tc) = NewXLogGroupPerf True tc
      in \<lparr>sv_textCache = tc, sv_xlogCache = NewXLogCache xlogCacheSize, sv_counterCache = (\<lambda>_. None),
         sv_alertCache = NewAlertCache 1024, sv_objectCache = NewObjectCache, sv_typeManager = types, sv_groupPerf = gp,
         sv_searches = [], sv_sampling = NewAuto5MSampling, sv_textQ = [], sv_xlogQ = [], sv_perfQ = [], sv_profileQ = [],
         sv_alertQ = [], sv_summaryQ = [], sv_spanQ = [], sv_visitorQ = [], sv_tagQ = [], sv_xlogWQ = [], sv_realtimeWQ = [],
         sv_dailyWQ = [], sv_profileWQ = [], sv_alertWQ = [], sv_summaryWQ = []\<rparr>)"

definition server_start :: "CoreConfig \<Rightarrow> Server \<Rightarrow> bool" where
  "server_start cf s \<longleftrightarrow> (\<exists>tc n types. 0 < n \<and> srv_cores s = NewCores cf tc n types)"

inductive server_reach :: "CoreConfig \<Rightarrow> StoreConfig \<Rightarrow> Server \<Rightarrow> bool" for cf :: CoreConfig and st :: StoreConfig where
  reach_start: "server_start cf s \<Longrightarrow> server_reach cf st s"
| reach_step: "server_reach cf st s \<Longrightarrow> server_step cf st s s' \<Longrightarrow> server_reach cf st s'"

subsection \<open>No core panics\<close>

definition xc_ok :: "XLogCache \<Rightarrow> bool" where
  "xc_ok c \<longleftrightarrow> xc_pos c < length (xc_entries c) \<and> xc_size c = length (xc_entries c)"

definition ac_ok :: "AlertCache \<Rightarrow> bool" where
  "ac_ok c \<longleftrightarrow> ac_index c < length (ac_buf c) \<and> ac_size c = length (ac_buf c)"

definition cores_ok :: "Cores \<Rightarrow> bool" where
  "cores_ok s \<longleftrightarrow> xc_ok (sv_xlogCache s) \<and> ac_ok (sv_alertCache s) \<and> (\<forall>cp \<in> set (sv_perfQ s). no_nil (perf_Data cp))"

lemma xc_Put_ok: "xc_ok c \<Longrightarrow> \<exists>c'. xc_Put h e er b c = Ok c' \<and> xc_ok c'"
  by (auto simp: xc_ok_def xc_Put_def Let_def)

lemma ac_Add_ok: "ac_ok c \<Longrightarrow> \<exists>c'. ac_Add d c = Ok c' \<and> ac_ok c'"
  by (auto simp: ac_ok_def ac_Add_def Let_def)

lemma set_enqueue: "x \<in> set (enqueue n e q) \<Longrightarrow> x = e \<or> x \<in> set q"
  by (auto simp: enqueue_def split: if_splits)

lemma fold_res_ok:
  assumes "\<And>x s. x \<in> set xs \<Longrightarrow> I s \<Longrightarrow> \<exists>s'. f x s = Ok s' \<and> I s'" and "I s"
  shows "\<exists>s'. fold_res f xs s = Ok s' \<and> I s'"
  using assms
proof (induction xs arbitrary: s)
  case (Cons x xs)
  obtain s1 where "f x s = Ok s1" "I s1" using Cons.prems by (meson list.set_intros(1))
  then show ?case using Cons by simp
qed simp

lemma perf_sample_ok:
  assumes "v \<noteq> None"
  shows "\<exists>a. perf_sample key v s = Ok (s\<lparr>sv_sampling := a\<rparr>)"
proof -
  have "\<exists>a. as_Add key v (sv_sampling s) = Ok a" using assms by (auto simp: as_Add_def)
  then show ?thesis by (auto simp: perf_sample_def)
qed

lemma cores_ok_simps [simp]:
  "cores_ok (s\<lparr>sv_textCache := x0\<rparr>) = cores_ok s" "cores_ok (s\<lparr>sv_counterCache := x1\<rparr>) = cores_ok s"
  "cores_ok (s\<lparr>sv_objectCache := x2\<rparr>) = cores_ok s" "cores_ok (s\<lparr>sv_typeManager := x3\<rparr>) = cores_ok s"
  "cores_ok (s\<lparr>sv_groupPerf := x4\<rparr>) = cores_ok s" "cores_ok (s\<lparr>sv_searches := x5\<rparr>) = cores_ok s"
  "cores_ok (s\<lparr>sv_sampling := x6\<rparr>) = cores_ok s" "cores_ok (s\<lparr>sv_textQ := x7\<rparr>) = cores_ok s"
  "cores_ok (s\<lparr>sv_xlogQ := x8\<rparr>) = cores_ok s" "cores_ok (s\<lparr>sv_profileQ := x9\<rparr>) = cores_ok s"
  "cores_ok (s\<lparr>sv_alertQ := x10\<rparr>) = cores_ok s" "cores_ok (s\<lparr>sv_summaryQ := x11\<rparr>) = cores_ok s"
  "cores_ok (s\<lparr>sv_spanQ := x12\<rparr>) = cores_ok s" "cores_ok (s\<lparr>sv_visitorQ := x13\<rparr>) = cores_ok s"
  "cores_ok (s\<lparr>sv_tagQ := x14\<rparr>) = cores_ok s" "cores_ok (s\<lparr>sv_xlogWQ := x15\<rparr>) = cores_ok s"
  "cores_ok (s\<lparr>sv_realtimeWQ := x16\<rparr>) = cores_ok s" "cores_ok (s\<lparr>sv_dailyWQ := x17\<rparr>) = cores_ok s"
  "cores_ok (s\<lparr>sv_profileWQ := x18\<rparr>) = cores_ok s" "cores_ok (s\<lparr>sv_alertWQ := x19\<rparr>) = cores_ok s"
  "cores_ok (s\<lparr>sv_summaryWQ := x20\<rparr>) = cores_ok s"
  by (simp_all add: cores_ok_def)

text \<open>What a step of a core other than that of the alerts keeps.\<close>

definition quiet :: "Cores \<Rightarrow> Cores \<Rightarrow> bool" where
  "quiet s s' \<longleftrightarrow> cores_ok s' \<and> sv_alertQ s' = sv_alertQ s \<and> sv_alertWQ s' = sv_alertWQ s"

lemma PerfCountCore_run_ok:
  assumes "cores_ok s" and "no_nil (perf_Data cp)"
  shows "\<exists>s'. PerfCountCore_run cf cp s = Ok s' \<and> quiet s s'"
proof -
  obtain d where d: "perf_Data cp = Some d" "\<forall>(k, v) \<in> set (elems d). v \<noteq> None"
    using assms(2) by (auto simp: no_nil_def split: option.splits)
  have sample: "\<exists>s'. perf_sample key v t = Ok s' \<and> quiet s s'" if "v \<noteq> None" "quiet s t" for key v t
    using perf_sample_ok [OF that(1), of key t] that(2) by (auto simp: quiet_def)
  have sampled: "\<exists>s'. (\<lambda>(name, v). perf_sample (key name) v) x t = Ok s' \<and> quiet s s'"
    if "x \<in> set (elems d)" "quiet s t" for key x t
    using that d(2) sample by (cases x) auto
  have daily: "\<exists>s'. perf_daily cf cp h x t = Ok s' \<and> quiet s s'" if "x \<in> set (elems d)" "quiet s t" for h x t
  proof -
    have "snd x \<noteq> None" using that d(2) by (cases x) auto
    note smp = sample [OF this]
    show ?thesis using that(2) by (auto simp: perf_daily_def quiet_def intro!: smp [unfolded quiet_def] split: option.split)
  qed
  have ok: "quiet s (s\<lparr>sv_counterCache := c, sv_realtimeWQ := q\<rparr>)" "quiet s (s\<lparr>sv_counterCache := c\<rparr>)" for c q
    using assms(1) by (simp_all add: quiet_def)
  show ?thesis unfolding PerfCountCore_run_def Let_def d(1) option.case
    using fold_res_ok [where I = "quiet s" and xs = "elems d", OF sampled ok(1)]
      fold_res_ok [where I = "quiet s" and xs = "elems d", OF daily ok(2)] by simp
qed

lemma XLogCore_run_ok:
  assumes "cores_ok s"
  shows "\<exists>s'. XLogCore_run cf sec xp s = Ok s' \<and> quiet s s'"
proof -
  obtain xp1 s1 where e: "(if is_service xp then xlog_calc cf xp s else (xp, s)) = (xp1, s1)" by fastforce
  then have s1: "quiet s s1" using assms
    by (auto simp: xlog_calc_def case_prod_unfold Let_def quiet_def split: if_splits)
  then obtain c where "xc_Put (xlog_ObjHash xp1) (xlog_Elapsed xp1) (xlog_Error xp1 \<noteq> 0) (Some (pack_bytes (XLogPack xp1)))
      (sv_xlogCache s1) = Ok c" "xc_ok c"
    using xc_Put_ok unfolding quiet_def cores_ok_def by blast
  then show ?thesis using s1 unfolding XLogCore_run_def Let_def e
    by (auto simp: quiet_def cores_ok_def VisitorCore_Add_def ProcessXLog_def)
qed

lemma SpanCore_run_ok:
  assumes "cores_ok s"
  shows "\<exists>s'. SpanCore_run cf now nanos sp s = Ok s' \<and> quiet s s'"
proof -
  obtain c where "xc_Put (xlog_ObjHash (spanToXLog now sp)) (xlog_Elapsed (spanToXLog now sp)) (xlog_Error (spanToXLog now sp) \<noteq> 0)
      (Some (pack_bytes (XLogPack (spanToXLog now sp)))) (sv_xlogCache s) = Ok c" "xc_ok c"
    using assms xc_Put_ok unfolding cores_ok_def by blast
  then show ?thesis using assms unfolding SpanCore_run_def Let_def
    by (auto simp: quiet_def cores_ok_def case_prod_unfold)
qed

lemma take_queue_quiet:
  assumes "quiet s s" and "\<And>e q. get s = e # q \<Longrightarrow> quiet s (put q s)" and "\<And>e q. get s = e # q \<Longrightarrow> quiet s (put q s) \<Longrightarrow> \<exists>s'. run e (put q s) = Ok s' \<and> quiet (put q s) s'"
  shows "\<exists>s'. take_queue get put run s = Ok s' \<and> quiet s s'"
proof (cases "get s")
  case (Cons e q)
  with assms(2,3) show ?thesis by (fastforce simp: take_queue_def quiet_def)
qed (use assms(1) in \<open>simp add: take_queue_def\<close>)

definition alert_entry :: "AlertPack \<Rightarrow> AlertEntry" where
  "alert_entry ap = \<lparr>ae_TimeMs = alert_Time ap, ae_Data = pack_bytes (AlertPack ap)\<rparr>"

lemma core_turn_quiet:
  assumes "cores_ok s" and "t \<noteq> AlertTurn"
  shows "\<exists>s'. core_turn cf t s = Ok s' \<and> quiet s s'"
proof -
  have s: "quiet s s" using assms(1) by (simp add: quiet_def)
  show ?thesis
  proof (cases t)
    case (XLogTurn sec)
    show ?thesis unfolding XLogTurn core_turn.simps
      by (rule take_queue_quiet [OF s], use assms(1) in \<open>simp add: quiet_def\<close>, rule XLogCore_run_ok, use assms(1) in simp)
  next
    case PerfTurn
    show ?thesis unfolding PerfTurn core_turn.simps
    proof (rule take_queue_quiet [OF s])
      fix cp q
      assume "sv_perfQ s = cp # q"
      then have "no_nil (perf_Data cp)" "cores_ok (s\<lparr>sv_perfQ := q\<rparr>)" using assms(1) by (simp_all add: cores_ok_def)
      then show "quiet s (s\<lparr>sv_perfQ := q\<rparr>)" "\<exists>s'. PerfCountCore_run cf cp (s\<lparr>sv_perfQ := q\<rparr>) = Ok s' \<and> quiet (s\<lparr>sv_perfQ := q\<rparr>) s'"
        using PerfCountCore_run_ok [of "s\<lparr>sv_perfQ := q\<rparr>" cp cf] by (simp_all add: quiet_def)
    qed
  next
    case (SpanTurn now nanos)
    show ?thesis unfolding SpanTurn core_turn.simps
      by (rule take_queue_quiet [OF s], use assms(1) in \<open>simp add: quiet_def\<close>, rule SpanCore_run_ok, use assms(1) in simp)
  next
    case ProfileTurn
    show ?thesis unfolding ProfileTurn core_turn.simps
      by (rule take_queue_quiet [OF s]) (use assms(1) in \<open>simp_all add: quiet_def ProfileCore_run_def\<close>)
  next
    case SummaryTurn
    show ?thesis unfolding SummaryTurn core_turn.simps
      by (rule take_queue_quiet [OF s]) (use assms(1) in \<open>simp_all add: quiet_def SummaryCore_run_def\<close>)
  qed (use assms(2) in simp)
qed

lemma alert_turn:
  assumes "cores_ok s"
  shows "\<exists>s'. core_turn cf AlertTurn s = Ok s' \<and> cores_ok s' \<and> (case sv_alertQ s of [] \<Rightarrow> s' = s
    | ap # q \<Rightarrow> sv_alertQ s' = q \<and> sv_alertWQ s' = aw_Add (alert_entry ap) (sv_alertWQ s))"
proof (cases "sv_alertQ s")
  case (Cons ap q)
  obtain c where "ac_Add (Some (pack_bytes (AlertPack ap))) (sv_alertCache s) = Ok c" "ac_ok c"
    using assms ac_Add_ok unfolding cores_ok_def by blast
  then show ?thesis using assms Cons by (simp add: take_queue_def AlertCore_run_def Let_def cores_ok_def alert_entry_def)
qed (use assms in \<open>simp add: take_queue_def\<close>)

lemma core_turn_ok: "cores_ok s \<Longrightarrow> \<exists>s'. core_turn cf t s = Ok s' \<and> cores_ok s'"
  using core_turn_quiet [of s t cf] alert_turn [of s cf] by (cases "t = AlertTurn") (auto simp: quiet_def)

text \<open>
  What a handler does: the queue of the alerts only grows at its end, the queue of the alert writer stays, and the
  invariant is kept.
\<close>

definition grows :: "Cores \<Rightarrow> Cores \<Rightarrow> bool" where
  "grows s s' \<longleftrightarrow> (\<exists>zs. sv_alertQ s' = sv_alertQ s @ zs) \<and> sv_alertWQ s' = sv_alertWQ s \<and> (cores_ok s \<longrightarrow> cores_ok s')"

lemma grows_refl: "grows s s"
  by (simp add: grows_def)

lemma grows_trans: "grows s s1 \<Longrightarrow> grows s1 s2 \<Longrightarrow> grows s s2"
  by (fastforce simp: grows_def)

lemma growsI: "sv_alertQ s' = sv_alertQ s \<Longrightarrow> sv_alertWQ s' = sv_alertWQ s \<Longrightarrow> (cores_ok s \<Longrightarrow> cores_ok s') \<Longrightarrow> grows s s'"
  by (simp add: grows_def)

lemma enqueue_grows: "\<exists>zs. enqueue n e q = q @ zs"
  by (simp add: enqueue_def)

lemma grows_AlertCore_Add: "grows s (AlertCore_Add ap s)"
  using enqueue_grows by (simp add: grows_def AlertCore_Add_def)

lemma grows_agent_calls: "grows s (fold agent_call_run calls s)"
proof (induction calls arbitrary: s)
  case (Cons c calls)
  have "grows s (agent_call_run c s)"
    by (cases c) (auto simp: grows_AlertCore_Add TextCore_AddText_def intro: growsI)
  then show ?case using Cons grows_trans by simp
qed (simp add: grows_refl)

lemma grows_put_agents: "grows s (put_agents am s)"
  by (auto simp: put_agents_def intro!: growsI)

lemma grows_AgentManager: "grows s (AgentManager_Handler cf clk addr p s)" "grows s (AgentManager_round cf clk level keys s)"
  using grows_put_agents grows_agent_calls grows_trans
  by (auto simp: AgentManager_Handler_def AgentManager_round_def case_prod_unfold Let_def) blast+

lemma grows_handlers:
  "grows s (TextCore_Handler p s)" "grows s (XLogCore_Handler cf now p s)" "grows s (ProfileCore_Handler now p s)"
  "grows s (AlertCore_Handler now p s)" "grows s (SummaryCore_Handler now p s)" "grows s (SpanCore_Handler p s)"
  by (auto simp: TextCore_Handler_def XLogCore_Handler_def ProfileCore_Handler_def AlertCore_Handler_def SummaryCore_Handler_def
      SpanCore_Handler_def Let_def grows_refl grows_AlertCore_Add intro!: growsI split: pack.split)

lemma grows_PerfCountCore_Handler:
  assumes "perf_ok p"
  shows "grows s (PerfCountCore_Handler now p s)"
proof (cases "\<exists>cp. p = PerfCounterPack cp")
  case True
  then obtain cp where "p = PerfCounterPack cp" by blast
  with assms show ?thesis
    by (auto simp: PerfCountCore_Handler_def grows_def cores_ok_def perf_ok_def dest!: set_enqueue)
qed (auto simp: PerfCountCore_Handler_def grows_refl split: pack.split)

lemma grows_span_loop: "grows s (fst (span_loop d s))"
proof (induction d s rule: span_loop.induct)
  case (1 d s)
  show ?case
  proof (cases "Available d > 0 \<and> (\<exists>p d'. ReadPack d = (Ok p, d'))")
    case True
    then obtain p d' where p: "Available d > 0" "ReadPack d = (Ok p, d')" by blast
    from "1.IH" [OF p(1) p(2) [symmetric] refl] have "grows (SpanCore_Handler p s) (fst (span_loop d' (SpanCore_Handler p s)))" .
    from grows_trans [OF grows_handlers(6) this] show ?thesis using p by (simp add: span_loop.simps [of d])
  next
    case False
    then show ?thesis by (auto simp: span_loop.simps [of d] grows_refl split: prod.split res.split)
  qed
qed

lemma grows_Dispatch:
  assumes "perf_ok p"
  shows "grows (fst s) (fst (Dispatch (server_dispatcher cf clk addr) p s))"
proof -
  have plain: "grows (fst s) (fst (plain h p s))" if "grows (fst s) (h p (fst s))" for h
    using that by (simp add: plain_def guarded_def grows_refl split: option.split)
  have cont: "grows (fst s) (fst (guarded SpanCore_ContainerHandler p s))"
    by (auto simp: guarded_def SpanCore_ContainerHandler_def grows_refl grows_span_loop split: option.split pack.split)
  have none: "Dispatch NewDispatcher p s = s" by (simp add: Dispatch_def NewDispatcher_def)
  show ?thesis unfolding server_dispatcher_def Let_def
    by (simp add: Dispatch_Register none grows_refl cont plain grows_handlers grows_AgentManager grows_PerfCountCore_Handler [OF assms])
qed

lemma grows_dispatch_all:
  assumes "\<forall>p \<in> set ps. perf_ok p"
  shows "grows s (dispatch_all cf clks addr ps s)"
proof -
  have "grows (fst s) (fst (fold (\<lambda>(i, p). Dispatch (server_dispatcher cf (clks i) addr) p) (List.enumerate n ps) s))" for n s
    using assms
  proof (induction ps arbitrary: n s)
    case (Cons p ps)
    then have "grows (fst s) (fst (Dispatch (server_dispatcher cf (clks n) addr) p s))" using grows_Dispatch by simp
    with Cons grows_trans show ?case by simp
  qed (simp add: grows_refl)
  then show ?thesis unfolding dispatch_all_def using fst_conv by metis
qed

lemma perf_ok_read: "(Ok p, d') = ReadPack d \<Longrightarrow> perf_ok p"
  using yields_ReadPack by (auto simp: yields_def dest!: sym [of "(_, _)"])

lemma processCafe_perf: "\<forall>p \<in> set (processCafe d). perf_ok p"
  using yields_ReadPack by (auto simp: processCafe_def yields_def split: res.splits) (metis fst_conv prod.collapse)

lemma cafeN_loop_perf: "\<forall>p \<in> set (cafeN_loop n d). perf_ok p"
proof (induction n d rule: cafeN_loop.induct)
  case (2 n d)
  show ?case using "2.IH" perf_ok_read by (auto split: prod.split res.split)
qed simp

lemma udp_process_perf: "udp_process victim now data m = (ps, m') \<Longrightarrow> \<forall>p \<in> set ps. perf_ok p"
  using processCafe_perf cafeN_loop_perf
  by (fastforce simp: udp_process_def processCafeN_def processCafeMTU_def split: prod.splits res.splits if_splits option.splits)

lemma grows_flush: "grows s (Auto5M_flush cf now s)"
  by (auto simp: Auto5M_flush_def case_prod_unfold Let_def intro!: growsI)

lemma server_step_ok:
  assumes "server_step cf st s s'" and "cores_ok (srv_cores s)"
  shows "cores_ok (srv_cores s')"
  using assms
proof cases
  case (step_core t c)
  then show ?thesis using core_turn_ok [OF assms(2), of cf t] by auto
next
  case (step_datagram now data ps mpp clks addr)
  then show ?thesis using assms(2) grows_dispatch_all [OF udp_process_perf [OF step_datagram(2)]] by (auto simp: grows_def)
qed (use assms(2) grows_AgentManager grows_flush in \<open>auto simp: grows_def\<close>)

lemma NewCores_ok: "0 < n \<Longrightarrow> cores_ok (NewCores cf tc n types)"
  by (simp add: NewCores_def case_prod_unfold Let_def cores_ok_def xc_ok_def ac_ok_def NewXLogCache_def NewAlertCache_def)

lemma server_reach_ok: "server_reach cf st s \<Longrightarrow> cores_ok (srv_cores s)"
  by (induction rule: server_reach.induct) (auto simp: server_start_def NewCores_ok intro: server_step_ok)

subsection \<open>The way of an alert\<close>

lemma server_step_alerts:
  assumes "server_step cf st s s'" and "cores_ok (srv_cores s)"
  obtains (grow) zs where "sv_alertQ (srv_cores s') = sv_alertQ (srv_cores s) @ zs" "sv_alertWQ (srv_cores s') = sv_alertWQ (srv_cores s)"
      "srv_alertWR s' = srv_alertWR s"
  | (core) ap q where "sv_alertQ (srv_cores s) = ap # q" "sv_alertQ (srv_cores s') = q"
      "sv_alertWQ (srv_cores s') = aw_Add (alert_entry ap) (sv_alertWQ (srv_cores s))" "srv_alertWR s' = srv_alertWR s"
  | (writer) e q where "sv_alertWQ (srv_cores s) = e # q" "sv_alertWQ (srv_cores s') = q" "sv_alertQ (srv_cores s') = sv_alertQ (srv_cores s)"
      "srv_alertWR s' = snd (aw_process (st_gdm st) (cf_date cf) e (srv_alertWR s))"
  | (purge) keep where "srv_cores s' = srv_cores s" "srv_alertWR s' = aw_PurgeOldDays keep (srv_alertWR s)"
  using assms(1)
proof cases
  case (step_core t c)
  show ?thesis
  proof (cases "t = AlertTurn \<and> sv_alertQ (srv_cores s) \<noteq> []")
    case True
    then obtain ap q where "sv_alertQ (srv_cores s) = ap # q" by (cases "sv_alertQ (srv_cores s)") auto
    with True alert_turn [OF assms(2), of cf] step_core core show ?thesis by auto
  next
    case False
    then consider "t \<noteq> AlertTurn" | "t = AlertTurn" "sv_alertQ (srv_cores s) = []" by blast
    then have "sv_alertQ c = sv_alertQ (srv_cores s) \<and> sv_alertWQ c = sv_alertWQ (srv_cores s)"
    proof cases
      case 1
      then show ?thesis using core_turn_quiet [OF assms(2), of t cf] step_core(2) by (auto simp: quiet_def)
    next
      case 2
      then show ?thesis using alert_turn [OF assms(2), of cf] step_core(2) by auto
    qed
    then show ?thesis using grow [of "[]"] step_core by simp
  qed
next
  case (step_datagram now data ps mpp clks addr)
  then show ?thesis using grows_dispatch_all [OF udp_process_perf [OF step_datagram(2)], where s = "srv_cores s"] grow
    by (auto simp: grows_def)
next
  case (step_agents keys clk level)
  then show ?thesis using grows_AgentManager(2) [of "srv_cores s" cf clk level keys] grow by (auto simp: grows_def)
next
  case (step_sampling now)
  then show ?thesis using grows_flush [of "srv_cores s" cf now] grow by (auto simp: grows_def)
next
  case (step_alert_writer e q)
  then show ?thesis using writer by simp
next
  case (step_purge keep)
  then show ?thesis using purge by simp
next
  case step_cleanup
  show ?thesis by (rule grow [of "[]"]) (simp_all add: step_cleanup(1))
next
  case step_text
  show ?thesis by (rule grow [of "[]"]) (simp_all add: step_text(1))
next
  case step_text_writer
  show ?thesis by (rule grow [of "[]"]) (simp_all add: step_text_writer(1))
next
  case step_search
  show ?thesis by (rule grow [of "[]"]) (simp_all add: step_search(1))
next
  case step_visitor
  show ?thesis by (rule grow [of "[]"]) (simp_all add: step_visitor(1))
next
  case step_tag
  show ?thesis by (rule grow [of "[]"]) (simp_all add: step_tag(1))
next
  case step_xlog_writer
  show ?thesis by (rule grow [of "[]"]) (simp_all add: step_xlog_writer(1))
next
  case step_profile_writer
  show ?thesis by (rule grow [of "[]"]) (simp_all add: step_profile_writer(1))
next
  case step_realtime_writer
  show ?thesis by (rule grow [of "[]"]) (simp_all add: step_realtime_writer(1))
next
  case step_daily_writer
  show ?thesis by (rule grow [of "[]"]) (simp_all add: step_daily_writer(1))
next
  case step_summary_writer
  show ?thesis by (rule grow [of "[]"]) (simp_all add: step_summary_writer(1))
qed

text \<open>
  The runs of the server with the alerts that were accepted by the queue of the alert core, and the entries that
  the writer has taken.
\<close>

definition alerts_in :: "Server \<Rightarrow> Server \<Rightarrow> AlertPack list" where
  "alerts_in s s' = drop (length (sv_alertQ (srv_cores s))) (sv_alertQ (srv_cores s'))"

definition alerts_out :: "Server \<Rightarrow> Server \<Rightarrow> AlertEntry list" where
  "alerts_out s s' = take (length (sv_alertWQ (srv_cores s)) - length (sv_alertWQ (srv_cores s'))) (sv_alertWQ (srv_cores s))"

inductive alert_run :: "CoreConfig \<Rightarrow> StoreConfig \<Rightarrow> Server \<Rightarrow> AlertPack list \<Rightarrow> AlertEntry list \<Rightarrow> bool" for cf :: CoreConfig and st :: StoreConfig where
  run_start: "server_start cf s \<Longrightarrow> srv_alertWR s = dw_new \<Longrightarrow> alert_run cf st s [] []"
| run_step: "alert_run cf st s log es \<Longrightarrow> server_step cf st s s' \<Longrightarrow> alert_run cf st s' (log @ alerts_in s s') (es @ alerts_out s s')"

lemma alert_run_reach: "alert_run cf st s log es \<Longrightarrow> server_reach cf st s"
  by (induction rule: alert_run.induct) (auto intro: server_reach.intros)

definition alert_log :: "(i64 \<Rightarrow> string) \<Rightarrow> AlertEntry list \<Rightarrow> string \<Rightarrow> AlertEntry list" where
  "alert_log fmt es date = rev (filter (\<lambda>e. fmt (ae_TimeMs e) = date) es)"

definition small_alerts :: "AlertEntry list \<Rightarrow> bool" where
  "small_alerts es \<longleftrightarrow> (\<forall>e \<in> set es. 0 < sint (ae_TimeMs e) \<and> length (ae_Data e) < 2 ^ 16) \<and> length es \<le> 2 ^ 20"

lemma day_writes_map [simp]: "day_writes (map DayWrite es) = es"
  by (induction es) simp_all

lemma alert_log_fits: "small_alerts es \<Longrightarrow> al_fits (map al_stored (alert_log fmt es date))"
  using al_log_fits [of "map DayWrite es" al_stored "\<lambda>e. fmt (ae_TimeMs e)" date]
  by (simp add: small_alerts_def alert_log_def day_log_def al_stored_def)

lemma alert_run_kept:
  "alert_run cf st s log es \<Longrightarrow> \<exists>kept. es @ sv_alertWQ (srv_cores s) = map alert_entry kept \<and> subseq (kept @ sv_alertQ (srv_cores s)) log"
proof (induction rule: alert_run.induct)
  case (run_start s)
  then show ?case by (auto simp: server_start_def NewCores_def case_prod_unfold Let_def)
next
  case (run_step s log es s')
  then obtain kept where kept: "es @ sv_alertWQ (srv_cores s) = map alert_entry kept" "subseq (kept @ sv_alertQ (srv_cores s)) log" by blast
  have "cores_ok (srv_cores s)" using run_step.hyps(1) alert_run_reach server_reach_ok by blast
  with run_step.hyps(2) show ?case
  proof (cases rule: server_step_alerts)
    case (grow zs)
    then show ?thesis using kept by (intro exI [of _ kept]) (simp add: alerts_in_def alerts_out_def, simp flip: append_assoc add: list_emb_append_mono)
  next
    case (core ap q)
    have none: "alerts_in s s' = []" using core by (simp add: alerts_in_def)
    show ?thesis
    proof (cases "length (sv_alertWQ (srv_cores s)) < alertQueueSize")
      case True
      then show ?thesis using core kept none
        by (intro exI [of _ "kept @ [ap]"]) (simp add: alerts_out_def aw_Add_def enqueue_def)
    next
      case False
      have "subseq (kept @ q) (kept @ ap # q)" by (rule list_emb_append_mono) (simp_all add: list_emb_Cons)
      then have "subseq (kept @ q) log" using kept(2) core(1) subseq_order.order_trans by metis
      then show ?thesis using core kept(1) none False
        by (intro exI [of _ kept]) (simp add: alerts_out_def aw_Add_def enqueue_def)
    qed
  next
    case (writer e q)
    then show ?thesis using kept by (intro exI [of _ kept]) (simp add: alerts_in_def alerts_out_def)
  next
    case (purge keep)
    then show ?thesis using kept by (intro exI [of _ kept]) (simp add: alerts_in_def alerts_out_def)
  qed
qed

lemma small_alerts_prefix: "small_alerts (es @ fs) \<Longrightarrow> small_alerts es"
  by (simp add: small_alerts_def)

lemma alert_run_stored:
  "alert_run cf st s log es \<Longrightarrow> small_alerts es \<Longrightarrow>
    aw.dw_holds (st_gdm st) (srv_alertWR s) (\<lambda>date. map al_stored (alert_log (cf_date cf) es date))"
proof (induction rule: alert_run.induct)
  case (run_start s)
  then show ?case using aw.dw_new_holds by (simp add: alert_log_def)
next
  case (run_step s log es s')
  let ?log = "\<lambda>es date. map al_stored (alert_log (cf_date cf) es date)"
  have IH: "aw.dw_holds (st_gdm st) (srv_alertWR s) (?log es)"
    using run_step.IH small_alerts_prefix [OF run_step.prems] by blast
  have "cores_ok (srv_cores s)" using run_step.hyps(1) alert_run_reach server_reach_ok by blast
  with run_step.hyps(2) show ?case
  proof (cases rule: server_step_alerts)
    case (writer e q)
    then have w: "alerts_out s s' = [e]" by (simp add: alerts_out_def)
    let ?k = "cf_date cf (ae_TimeMs e)"
    have log: "?log (es @ [e]) = (?log es)(?k := al_stored e # ?log es ?k)" by (auto simp: alert_log_def)
    have "al_fits (al_stored e # ?log es ?k)"
      using alert_log_fits [OF run_step.prems, of "cf_date cf" ?k] by (simp add: w alert_log_def)
    from aw.dw_process_holds [OF IH this] show ?thesis
      unfolding w log writer(4) aw_process_def by force
  next
    case (purge keep)
    then show ?thesis using aw.dw_purge_holds [OF IH] by (simp add: alerts_out_def aw_PurgeOldDays_def)
  next
    case (core ap q)
    then show ?thesis using IH by (simp add: alerts_out_def aw_Add_def enqueue_def)
  qed (use IH in \<open>simp add: alerts_out_def\<close>)
qed

lemma read_pack_bytes: "ok_pack p \<Longrightarrow> fst (ReadPack (NewDataInputX (pack_bytes p))) = Ok (norm_pack p)"
  using pc.read_back [of p "NewDataInputX (pack_bytes p)" "[]"] by (simp add: pack_bytes_def)

text \<open>
  After the writer is closed, a reader finds the packs of the alerts that were not dropped: those of a day
  whose half seconds touch the range, in the order of their times.
\<close>

definition alerts_on :: "(i64 \<Rightarrow> string) \<Rightarrow> string \<Rightarrow> AlertPack list \<Rightarrow> AlertPack list" where
  "alerts_on fmt date aps = filter (\<lambda>ap. fmt (alert_Time ap) = date) aps"

definition unpack :: "bytes \<Rightarrow> pack res" where
  "unpack data = fst (ReadPack (NewDataInputX data))"

lemma alert_log_kept:
  "map al_stored (alert_log fmt (map alert_entry kept) date) =
     map (\<lambda>ap. (alert_Time ap, pack_bytes (AlertPack ap))) (rev (alerts_on fmt date kept))"
  by (simp add: alert_log_def alerts_on_def rev_map filter_map comp_def alert_entry_def al_stored_def)

lemma fold_snoc: "fold (\<lambda>x rs. rs @ [f x]) xs rs = rs @ map f xs"
  by (induction xs arbitrary: rs) simp_all

lemma stored_alerts_read:
  assumes "aw.dw_holds gdm w (\<lambda>date. map al_stored (alert_log fmt (map alert_entry kept) date))"
    and "\<forall>ap \<in> set kept. ok_pack (AlertPack ap)"
    and "sorts srt" and "local_day gdm mid" and "0 < sint stime" and "range_reach mid stime etime"
    and "\<forall>ap \<in> set (alerts_on fmt date kept). of_day mid (alert_Time ap, [])"
  shows "\<exists>ys r. mset ys = filter_mset (\<lambda>ap. in_buckets mid stime etime (alert_Time ap, [])) (mset (alerts_on fmt date kept)) \<and>
    sorted (map (\<lambda>ap. sint (alert_Time ap)) ys) \<and>
    ar_ReadRange gdm srt date stime etime (\<lambda>d rs. rs @ [unpack d]) [] (aw_Close w) =
      Some ((Ok (), map (\<lambda>ap. Ok (norm_pack (AlertPack ap))) ys), r)"
proof -
  let ?f = "\<lambda>ap. (alert_Time ap, pack_bytes (AlertPack ap))" and ?on = "alerts_on fmt date kept"
  note close = aw.dw_close_reader [OF assms(1), unfolded alert_log_kept]
  have "\<forall>e \<in> set (map ?f (rev ?on)). of_day mid (fst e, [])" using assms(7) by simp
  from ar_read_holds [where handler = "\<lambda>t d rs. rs @ [unpack d]" and s = "[]", OF close assms(3-6) this] obtain xs r where
    xs: "mset xs = filter_mset (\<lambda>e. in_buckets mid stime etime (fst e, [])) (mset (map ?f (rev ?on)))"
    "sorted (map (\<lambda>e. sint (fst e)) xs)"
    "ar_ReadRange gdm srt date stime etime (\<lambda>d rs. rs @ [unpack d]) [] (aw_Close w) =
      Some ((Ok (), fold (\<lambda>e rs. rs @ [unpack (snd e)]) xs []), r)"
    by (auto simp: ar_ReadRange_def ar_getContainer_def aw_Close_def)
  from xs(1) have "mset xs = image_mset ?f (filter_mset (\<lambda>ap. in_buckets mid stime etime (alert_Time ap, [])) (mset ?on))"
    by (simp add: filter_mset_image_mset comp_def)
  from permuted_map [OF this] obtain ys where
    ys: "mset ys = filter_mset (\<lambda>ap. in_buckets mid stime etime (alert_Time ap, [])) (mset ?on)" "map ?f ys = xs" by blast
  have "set ys \<subseteq> set kept"
    using arg_cong [OF ys(1), of set_mset] by (auto simp: alerts_on_def)
  then have "map (\<lambda>e. unpack (snd e)) xs = map (\<lambda>ap. Ok (norm_pack (AlertPack ap))) ys"
    using assms(2) read_pack_bytes unfolding ys(2) [symmetric] by (auto simp: unpack_def simp del: norm_pack.simps)
  moreover have "sorted (map (\<lambda>ap. sint (alert_Time ap)) ys)"
    using xs(2) unfolding ys(2) [symmetric] by (simp add: comp_def)
  ultimately show ?thesis using ys(1) xs(3) by (auto simp: fold_snoc)
qed

lemma alert_run_delivers:
  assumes "alert_run cf st s log es" and "small_alerts es" and "\<forall>ap \<in> set log. ok_pack (AlertPack ap)"
    and "sorts srt" and "local_day (st_gdm st) mid" and "0 < sint stime" and "range_reach mid stime etime"
    and "\<forall>ap \<in> set (alerts_on (cf_date cf) date log). of_day mid (alert_Time ap, [])"
  shows "\<exists>kept ys r. subseq kept log \<and> length kept = length es \<and> (length es = length log \<longrightarrow> kept = log) \<and>
    mset ys = filter_mset (\<lambda>ap. in_buckets mid stime etime (alert_Time ap, [])) (mset (alerts_on (cf_date cf) date kept)) \<and>
    sorted (map (\<lambda>ap. sint (alert_Time ap)) ys) \<and>
    ar_ReadRange (st_gdm st) srt date stime etime (\<lambda>d rs. rs @ [unpack d]) [] (aw_Close (srv_alertWR s)) =
      Some ((Ok (), map (\<lambda>ap. Ok (norm_pack (AlertPack ap))) ys), r)"
proof -
  obtain all where all: "es @ sv_alertWQ (srv_cores s) = map alert_entry all" "subseq (all @ sv_alertQ (srv_cores s)) log"
    using alert_run_kept [OF assms(1)] by blast
  define kept where "kept = take (length es) all"
  have es: "es = map alert_entry kept"
    using arg_cong [OF all(1), of "take (length es)"] by (simp add: kept_def take_map)
  have "subseq kept (all @ sv_alertQ (srv_cores s))" unfolding kept_def
    by (metis append_take_drop_id append_assoc list_emb_append2 prefix_imp_subseq prefixI)
  then have sub: "subseq kept log" using all(2) subseq_order.order_trans by blast
  then have set: "set kept \<subseteq> set log" by (auto elim: list_emb_set)
  have same: "length es = length log \<longrightarrow> kept = log"
    using sub es by (auto dest: subseq_same_length)
  have "alert_log (cf_date cf) es = alert_log (cf_date cf) (map alert_entry kept)" using es by simp
  with alert_run_stored [OF assms(1,2)]
  have holds: "aw.dw_holds (st_gdm st) (srv_alertWR s) (\<lambda>date. map al_stored (alert_log (cf_date cf) (map alert_entry kept) date))" by simp
  have "\<forall>ap \<in> set kept. ok_pack (AlertPack ap)" "\<forall>ap \<in> set (alerts_on (cf_date cf) date kept). of_day mid (alert_Time ap, [])"
    using assms(3,8) set by (auto simp: alerts_on_def simp del: ok_pack.simps)
  from stored_alerts_read [OF holds this(1) assms(4-7) this(2)] show ?thesis using sub same es by (metis length_map)
qed

text \<open>The datagram of one alert, as long as there is room in the queue.\<close>

lemma dispatch_alert:
  "dispatch_all cf clks addr [AlertPack ap] c = AlertCore_Handler (UnixMilli (clks 0 0)) (AlertPack ap) c"
  by (simp add: dispatch_all_def server_dispatcher_def Let_def Dispatch_Register plain_def guarded_def)

lemma alert_accepted:
  assumes "ok_pack (AlertPack ap)" and "alert_Time ap \<noteq> 0" and "length (sv_alertQ (srv_cores s)) < alertCoreQueue"
  shows "server_step cf st s (s\<lparr>srv_cores := srv_cores s\<lparr>sv_alertQ := sv_alertQ (srv_cores s) @ [ap\<lparr>alert_Tags := norm_map_field (alert_Tags ap)\<rparr>]\<rparr>\<rparr>)"
proof -
  note step_datagram [OF udp_cafe [OF assms(1)], where s = s and cf = cf and st = st and clks = "\<lambda>_ _. 0" and addr = None]
  then show ?thesis using assms(2,3) by (simp add: dispatch_alert AlertCore_Handler_def AlertCore_Add_def enqueue_def)
qed

text \<open>No reachable state has a core whose next step panics.\<close>

lemma cores_progress: "server_reach cf st s \<Longrightarrow> \<exists>c. core_turn cf t (srv_cores s) = Ok c"
  using server_reach_ok core_turn_ok by blast

subsection \<open>The spans of a container\<close>

lemma pack_bytes_not_empty: "ok_pack p \<Longrightarrow> pack_bytes p \<noteq> []"
proof
  assume "ok_pack p" "pack_bytes p = []"
  then show False using read_pack_bytes [of p] takesD [OF takes_ReadPack, of "NewDataInputX []"] by (cases "ReadPack (NewDataInputX [])") auto
qed

lemma span_loop_packs:
  assumes "\<forall>p \<in> set ps. ok_pack p" and "ok_pack q" and "n < length (pack_bytes q)"
    and "in_reader d = None" and "pending d = concat (map pack_bytes ps) @ take n (pack_bytes q)"
  shows "span_loop d s = (fold (\<lambda>p. SpanCore_Handler (norm_pack p)) ps s, None)"
  using assms
proof (induction ps arbitrary: d s)
  case Nil
  show ?case
  proof (cases "n = 0")
    case True
    then show ?thesis using Nil Available_buffer [of d] by (simp add: span_loop.simps [of d])
  next
    case False
    obtain bs where bs: "truncates ReadPack bs" "pack_bytes q = bs"
      using pc.put_bytes [OF Nil(2)] unfolding pack_bytes_def by metis
    then have "strict_prefix (pending d) bs" using Nil(3,5) by (auto simp: strict_prefix_def take_is_prefix)
    with bs(1) obtain e d' where "ReadPack d = (Err e, d')" unfolding truncates_def by blast
    then show ?thesis by (simp add: span_loop.simps [of d])
  qed
next
  case (Cons p ps)
  let ?d = "advance (Size (WritePack p NewDataOutputX)) d"
  have size: "Size (WritePack p NewDataOutputX) = length (pack_bytes p)"
    using Cons.prems(1) pc.Size_put by (simp add: pack_bytes_def)
  have "pending d = ToByteArray (WritePack p NewDataOutputX) @ concat (map pack_bytes ps) @ take n (pack_bytes q)"
    using Cons.prems(5) by (simp add: pack_bytes_def [of p])
  from pc.read_back [OF _ this] have "ReadPack d = (Ok (norm_pack p), ?d)" using Cons.prems(1) by simp
  moreover have "Available d > 0" using Cons.prems pack_bytes_not_empty [of p] Available_pos [of d] by simp
  moreover have "in_reader ?d = None" "pending ?d = concat (map pack_bytes ps) @ take n (pack_bytes q)"
    using Cons.prems(4,5) by (simp_all add: size) (simp add: advance_def)
  ultimately show ?case using Cons.IH [of ?d "SpanCore_Handler (norm_pack p) s"] Cons.prems(1-3)
    by (simp add: span_loop.simps [of d])
qed

lemma container_spans:
  assumes "\<forall>p \<in> set ps. ok_pack p" and "ok_pack q" and "n < length (pack_bytes q)"
    and "spanc_Spans cp = concat (map pack_bytes ps) @ take n (pack_bytes q)"
  shows "SpanCore_ContainerHandler (SpanContainerPack cp) s = (fold (\<lambda>p. SpanCore_Handler (norm_pack p)) ps s, None)"
proof (cases "spanc_Spans cp = []")
  case True
  then have "ps = []" using assms(1,4) pack_bytes_not_empty by (cases ps) auto
  then show ?thesis using True by (simp add: SpanCore_ContainerHandler_def)
next
  case False
  have "span_loop (NewDataInputX (spanc_Spans cp)) s = (fold (\<lambda>p. SpanCore_Handler (norm_pack p)) ps s, None)"
    by (rule span_loop_packs [OF assms(1-3)]) (simp_all add: assms(4), simp_all add: NewDataInputX_def)
  then show ?thesis using False by (simp add: SpanCore_ContainerHandler_def)
qed

subsection \<open>The samples\<close>

text \<open>The values of a counter since the last flush, and the counters that were ever sent with five minute values.\<close>

definition sampled :: "CounterKey \<times> value \<Rightarrow> bool" where
  "sampled kv \<longleftrightarrow> ck_TimeType (fst kv) = TimeTypeRealtime \<and> ValueType (snd kv) \<in> {10, 20, 30, 40}"

definition last_samples :: "(CounterKey \<times> value) list \<Rightarrow> CounterKey \<rightharpoonup> value" where
  "last_samples adds = map_of (rev (filter sampled adds))"

definition five_min :: "(CounterKey \<times> value) list \<Rightarrow> CounterKey set" where
  "five_min adds = fiveMinKey ` {k. k \<in> fst ` set adds \<and> ck_TimeType k = TimeTypeFiveMin}"

lemma sample_types: "TimeTypeRealtime \<noteq> TimeTypeFiveMin"
  by (simp add: TimeTypeRealtime_def TimeTypeFiveMin_def)

lemma as_Adds:
  "\<exists>a'. fold_res (\<lambda>(k, v). as_Add k (Some v)) adds a = Ok a' \<and> map_of (as_counterMap a') = map_of (as_counterMap a) ++ last_samples adds \<and>
    (distinct (map fst (as_counterMap a)) \<longrightarrow> distinct (map fst (as_counterMap a'))) \<and>
    as_fiveMinKeys a' = as_fiveMinKeys a \<union> five_min adds"
proof (induction adds arbitrary: a)
  case (Cons kv adds)
  obtain k v where kv: "kv = (k, v)" by (cases kv)
  define a1 where "a1 = (if sampled kv then a\<lparr>as_counterMap := AList.update k v (as_counterMap a)\<rparr>
    else if ck_TimeType k = TimeTypeFiveMin then a\<lparr>as_fiveMinKeys := insert (fiveMinKey k) (as_fiveMinKeys a)\<rparr> else a)"
  have a1: "as_Add k (Some v) a = Ok a1"
    using sample_types by (auto simp: a1_def as_Add_def sampled_def kv)
  obtain a' where a': "fold_res (\<lambda>(k, v). as_Add k (Some v)) adds a1 = Ok a'"
    "map_of (as_counterMap a') = map_of (as_counterMap a1) ++ last_samples adds"
    "distinct (map fst (as_counterMap a1)) \<longrightarrow> distinct (map fst (as_counterMap a'))"
    "as_fiveMinKeys a' = as_fiveMinKeys a1 \<union> five_min adds"
    using Cons.IH by blast
  have "map_of (as_counterMap a1) ++ last_samples adds = map_of (as_counterMap a) ++ last_samples (kv # adds)"
    by (auto simp: a1_def last_samples_def kv update_conv' map_add_def fun_eq_iff split: option.split)
  moreover have "as_fiveMinKeys a1 \<union> five_min adds = as_fiveMinKeys a \<union> five_min (kv # adds)"
    using sample_types by (auto simp: a1_def five_min_def kv sampled_def)
  moreover have "distinct (map fst (as_counterMap a)) \<longrightarrow> distinct (map fst (as_counterMap a1))"
    by (simp add: a1_def distinct_update)
  ultimately show ?case using a1 a' by (simp add: kv)
qed (simp add: last_samples_def five_min_def)

definition sample_entry :: "string \<Rightarrow> int \<Rightarrow> CounterKey set \<Rightarrow> CounterKey \<times> value \<Rightarrow> DailyEntry option" where
  "sample_entry date hhmm marked kv = (if fiveMinKey (fst kv) \<in> marked then None
     else map_option (\<lambda>f. \<lparr>de_Date = date, de_ObjHash = ck_ObjHash (fst kv), de_CounterName = ck_Counter (fst kv),
       de_Bucket = HHMMToBucket hhmm, de_Value = f\<rparr>) (ToFloat64 (Some (snd kv))))"

lemma set_map_filter_Some: "set (List.map_filter f xs) = {e. \<exists>x \<in> set xs. f x = Some e}"
  by (induction xs) (auto simp: List.map_filter_simps split: option.splits)

lemma foldl_enqueue:
  "length q + length xs \<le> cap \<Longrightarrow>
    foldl (\<lambda>q x. case f x of None \<Rightarrow> q | Some e \<Rightarrow> enqueue cap e q) q xs = q @ List.map_filter f xs"
proof (induction xs arbitrary: q)
  case (Cons x xs)
  then show ?case using Cons.IH [of q] by (cases "f x") (simp_all add: enqueue_def List.map_filter_simps)
qed simp

lemma as_flush_entries:
  assumes "length q + length (order (as_counterMap a)) \<le> counterQueueSize"
  shows "as_flush order date hhmm a q =
    (a\<lparr>as_counterMap := []\<rparr>, q @ List.map_filter (sample_entry date hhmm (as_fiveMinKeys a)) (order (as_counterMap a)))"
proof -
  have "(\<lambda>q (key, v). if fiveMinKey key \<in> as_fiveMinKeys a then q else (case ToFloat64 (Some v) of None \<Rightarrow> q
      | Some f64 \<Rightarrow> AddDaily \<lparr>de_Date = date, de_ObjHash = ck_ObjHash key, de_CounterName = ck_Counter key,
          de_Bucket = HHMMToBucket hhmm, de_Value = f64\<rparr> q)) =
    (\<lambda>q x. case sample_entry date hhmm (as_fiveMinKeys a) x of None \<Rightarrow> q | Some e \<Rightarrow> enqueue counterQueueSize e q)"
    by (auto simp: fun_eq_iff sample_entry_def AddDaily_def split: option.split)
  then show ?thesis using foldl_enqueue [OF assms] by (simp add: as_flush_def)
qed

lemma samples_flushed:
  assumes "fold_res (\<lambda>(k, v). as_Add k (Some v)) adds (b\<lparr>as_counterMap := []\<rparr>) = Ok a"
    and "\<And>xs. mset (order xs) = mset xs" and "length q + card (dom (last_samples adds)) \<le> counterQueueSize"
  shows "\<exists>new. as_flush order date hhmm a q = (a\<lparr>as_counterMap := []\<rparr>, q @ new) \<and>
    set new = {e. \<exists>k v. last_samples adds k = Some v \<and> sample_entry date hhmm (as_fiveMinKeys b \<union> five_min adds) (k, v) = Some e}"
proof -
  obtain a' where "fold_res (\<lambda>(k, v). as_Add k (Some v)) adds (b\<lparr>as_counterMap := []\<rparr>) = Ok a'"
    "map_of (as_counterMap a') = last_samples adds" "distinct (map fst (as_counterMap a'))"
    "as_fiveMinKeys a' = as_fiveMinKeys b \<union> five_min adds"
    using as_Adds [of adds "b\<lparr>as_counterMap := []\<rparr>"] by auto
  then have a: "map_of (as_counterMap a) = last_samples adds" "distinct (map fst (as_counterMap a))"
    "as_fiveMinKeys a = as_fiveMinKeys b \<union> five_min adds"
    using assms(1) by simp_all
  have "length (order (as_counterMap a)) = length (as_counterMap a)" using assms(2) by (metis size_mset)
  also have "\<dots> = card (dom (last_samples adds))"
    unfolding a(1) [symmetric] dom_map_of_conv_image_fst using distinct_card [OF a(2)] by simp
  finally have len: "length q + length (order (as_counterMap a)) \<le> counterQueueSize" using assms(3) by simp
  have "set (order (as_counterMap a)) = set (as_counterMap a)" using assms(2) by (metis set_mset_mset)
  moreover have "(k, v) \<in> set (as_counterMap a) \<longleftrightarrow> last_samples adds k = Some v" for k v
    using a(1,2) by (metis map_of_eq_Some_iff)
  ultimately have mem: "kv \<in> set (order (as_counterMap a)) \<longleftrightarrow> last_samples adds (fst kv) = Some (snd kv)" for kv
    by (metis prod.collapse)
  have "set (List.map_filter f (order (as_counterMap a))) = {e. \<exists>k v. last_samples adds k = Some v \<and> f (k, v) = Some e}"
    for f :: "CounterKey \<times> value \<Rightarrow> DailyEntry option"
  proof (intro set_eqI iffI)
    fix e
    assume "e \<in> set (List.map_filter f (order (as_counterMap a)))"
    then obtain kv where "last_samples adds (fst kv) = Some (snd kv)" "f (fst kv, snd kv) = Some e"
      unfolding set_map_filter_Some mem Bex_def by auto
    then show "e \<in> {e. \<exists>k v. last_samples adds k = Some v \<and> f (k, v) = Some e}" by blast
  qed (unfold set_map_filter_Some mem Bex_def, force)
  then show ?thesis unfolding as_flush_entries [where order = order and a = a, OF len] a(3) by blast
qed

text \<open>The conversions: exact below \<open>2 ^ 53\<close>, and to the even neighbour of a tie above it.\<close>

lemma float64_examples:
  "float64_of_int64 0 = 0" "float64_of_int64 1 = 0x3FF0000000000000" "float64_of_int64 (-3) = 0xC008000000000000"
  "float64_of_int64 (2 ^ 53 + 1) = 0x4340000000000000" "float64_of_int64 (2 ^ 53 + 3) = 0x4340000000000002"
  "float64_of_float32 0x3FC00000 = 0x3FF8000000000000" "float64_of_float32 1 = 0x36A0000000000000"
  by (simp_all add: float64_of_int64_def float64_of_float32_def float64_of_nat_def top_bit.simps Let_def)

end
