(* ===== verification/Requests.thy ===== *)
theory Requests
  imports PackReads
begin

text \<open>
  The conversation of a client with the server: the commands and flags of internal/protocol, the registry of
  internal/netio/service/handler.go and \<open>handleClient\<close> of internal/netio/tcp/server.go; and the calls the server makes
  to an agent, internal/netio/tcp/agent\_call.go with the framing of agent\_worker.go.

  A handler reads its request from the input stream, writes its answer to the output stream and works on a state \<open>'w\<close>;
  \<^const>\<open>None\<close> is a handler that does not return. What is in the output stream has been written to the buffered
  writer of the connection.
\<close>

definition FLAG_HAS_NEXT :: byte where "FLAG_HAS_NEXT = 0x03"
definition FLAG_NO_NEXT :: byte where "FLAG_NO_NEXT = 0x04"
definition FLAG_INVALID_SESSION :: byte where "FLAG_INVALID_SESSION = 0x44"

definition CLOSE :: string where "CLOSE = ''CLOSE''"
definition FreeCmds :: "string set" where "FreeCmds = {''LOGIN'', ''SERVER_VERSION'', ''SERVER_TIME''}"

type_synonym 'w handler = "din \<Rightarrow> dout \<Rightarrow> bool \<Rightarrow> 'w \<Rightarrow> (unit res \<times> din \<times> dout \<times> 'w) option"

type_synonym 'w Registry = "string \<rightharpoonup> 'w handler"

definition NewRegistry :: "'w Registry" where "NewRegistry = (\<lambda>_. None)"

definition reg_Register :: "string \<Rightarrow> 'w handler \<Rightarrow> 'w Registry \<Rightarrow> 'w Registry" where
  "reg_Register cmd h r = r(cmd \<mapsto> h)"

definition reg_Get :: "'w Registry \<Rightarrow> string \<Rightarrow> 'w handler option" where
  "reg_Get r cmd = r cmd"

text \<open>How the handlers begin: the request is a \<open>MapPack\<close>, and any other pack fails the type assertion.\<close>

definition with_param :: "(MapPack \<Rightarrow> dout \<Rightarrow> 'w \<Rightarrow> (unit res \<times> dout \<times> 'w) option) \<Rightarrow> 'w handler" where
  "with_param f din dout login w = (case ReadPack din of
     (Ok (MapPack m), din) \<Rightarrow> map_option (\<lambda>(r, dout, w). (r, din, dout, w)) (f m dout w)
   | (Ok _, din) \<Rightarrow> Some (Panic TypeAssertion, din, dout, w)
   | (Err e, din) \<Rightarrow> Some (Ok (), din, dout, w)
   | (Panic q, din) \<Rightarrow> Some (Panic q, din, dout, w))"

text \<open>Some drop the request whatever it is, and some do not read one.\<close>

definition with_any :: "(dout \<Rightarrow> 'w \<Rightarrow> (unit res \<times> dout \<times> 'w) option) \<Rightarrow> 'w handler" where
  "with_any f din dout login w = (case ReadPack din of
     (Panic q, din) \<Rightarrow> Some (Panic q, din, dout, w)
   | (_, din) \<Rightarrow> map_option (\<lambda>(r, dout, w). (r, din, dout, w)) (f dout w))"

definition with_none :: "(dout \<Rightarrow> 'w \<Rightarrow> (unit res \<times> dout \<times> 'w) option) \<Rightarrow> 'w handler" where
  "with_none f din dout login w = map_option (\<lambda>(r, dout, w). (r, din, dout, w)) (f dout w)"

text \<open>The registration of a list of handlers.\<close>

definition reg_all :: "(string \<times> 'w handler) list \<Rightarrow> 'w Registry \<Rightarrow> 'w Registry" where
  "reg_all hs r = fold (\<lambda>(cmd, h). reg_Register cmd h) hs r"

lemma reg_all_Get:
  "distinct (map fst hs) \<Longrightarrow> reg_Get (reg_all hs r) cmd = (case map_of hs cmd of Some h \<Rightarrow> Some h | None \<Rightarrow> reg_Get r cmd)"
proof (induction hs arbitrary: r)
  case (Cons x hs)
  obtain c h where x: "x = (c, h)" by (cases x)
  have "reg_all (x # hs) r = reg_all hs (reg_Register c h r)" by (simp add: reg_all_def x)
  moreover have "map_of hs c = None" using Cons.prems x by (simp add: map_of_eq_None_iff)
  moreover have "reg_Get (reg_Register c h r) cmd = (if cmd = c then Some h else reg_Get r cmd)"
    by (simp add: reg_Get_def reg_Register_def)
  ultimately show ?case using Cons.IH [of "reg_Register c h r"] Cons.prems x by (auto split: option.split)
qed (simp add: reg_all_def)

text \<open>How they answer.\<close>

definition reply_pack :: "pack \<Rightarrow> dout \<Rightarrow> dout" where
  "reply_pack p = writes [WriteByte FLAG_HAS_NEXT, WritePack p]"

definition reply_value :: "value option \<Rightarrow> dout \<Rightarrow> dout" where
  "reply_value v = writes [WriteByte FLAG_HAS_NEXT, WriteValue v]"

definition reply_data :: "bytes \<Rightarrow> dout \<Rightarrow> dout" where
  "reply_data data = writes [WriteByte FLAG_HAS_NEXT, Write data]"

text \<open>A handler that ends with one answer, and one that ends without.\<close>

definition answer :: "MapPack \<Rightarrow> dout \<Rightarrow> 'w \<Rightarrow> (unit res \<times> dout \<times> 'w) option" where
  "answer m dout w = Some (Ok (), reply_pack (MapPack m) dout, w)"

definition no_answer :: "dout \<Rightarrow> 'w \<Rightarrow> (unit res \<times> dout \<times> 'w) option" where
  "no_answer dout w = Some (Ok (), dout, w)"

definition emptyMap :: MapPack where
  "emptyMap = \<lparr>map_Table = []\<rparr>"

text \<open>A handler of a component that is a part of the state.\<close>

definition along :: "('w \<Rightarrow> 's) \<Rightarrow> ('s \<Rightarrow> 'w \<Rightarrow> 'w) \<Rightarrow> 's handler \<Rightarrow> 'w handler" where
  "along get put h din dout login w =
     map_option (\<lambda>(r, din, dout, s). (r, din, dout, put s w)) (h din dout login (get w))"

subsection \<open>The connection of a client\<close>

text \<open>The handler of a command; the request of a command that is not known is read and dropped.\<close>

definition serve :: "'w Registry \<Rightarrow> string \<Rightarrow> 'w handler" where
  "serve reg cmd din dout login w = (case reg_Get reg cmd of
     Some h \<Rightarrow> h din dout login w
   | None \<Rightarrow> (case ReadPack din of
       (Panic q, din) \<Rightarrow> Some (Panic q, din, dout, w)
     | (_, din) \<Rightarrow> Some (Ok (), din, dout, w)))"

text \<open>
  What is read in front of the handler: the command and the session. \<open>okSession\<close> asks the session manager; once a
  session of the connection was accepted, no other is asked about.
\<close>

datatype request = Closed | InvalidSession | Request string i64 din bool

definition read_request :: "(i64 \<Rightarrow> 'w \<Rightarrow> bool) \<Rightarrow> din \<Rightarrow> bool \<Rightarrow> 'w \<Rightarrow> request" where
  "read_request okSession din sessionOk w = (case ReadText din of
     (Ok cmd, din) \<Rightarrow>
       if cmd = CLOSE then Closed
       else (case ReadInt64 din of
           (Ok session, din) \<Rightarrow>
             if \<not> sessionOk \<and> cmd \<notin> FreeCmds
             then (if okSession session w then Request cmd session din True else InvalidSession)
             else Request cmd session din sessionOk
         | _ \<Rightarrow> Closed)
   | _ \<Rightarrow> Closed)"

text \<open>One round of the loop: it goes on with the next request, or the connection ends, a panic of the handler being recovered.\<close>

datatype 'w turn_result = TurnOn din dout bool 'w | TurnEnd dout 'w

definition client_turn :: "(i64 \<Rightarrow> 'w \<Rightarrow> bool) \<Rightarrow> 'w Registry \<Rightarrow> din \<Rightarrow> dout \<Rightarrow> bool \<Rightarrow> 'w \<Rightarrow> 'w turn_result option" where
  "client_turn okSession reg din dout sessionOk w = (case read_request okSession din sessionOk w of
     Closed \<Rightarrow> Some (TurnEnd dout w)
   | InvalidSession \<Rightarrow> Some (TurnEnd (WriteByte FLAG_INVALID_SESSION dout) w)
   | Request cmd session din sessionOk \<Rightarrow>
       map_option (\<lambda>(r, din, dout, w).
           if is_Ok r then TurnOn din (WriteByte FLAG_NO_NEXT dout) sessionOk w else TurnEnd dout w)
         (serve reg cmd din dout sessionOk w))"

text \<open>
  The loop. \<open>others\<close> is what the clock, the agents and the other connections make of the state in front of a request;
  it is any function, a state that holds a script of what comes gives each request its own.
\<close>

partial_function (option) handleClient ::
    "(i64 \<Rightarrow> 'w \<Rightarrow> bool) \<Rightarrow> ('w \<Rightarrow> 'w) \<Rightarrow> 'w Registry \<Rightarrow> din \<Rightarrow> dout \<Rightarrow> bool \<Rightarrow> 'w \<Rightarrow> (dout \<times> 'w) option" where
  "handleClient okSession others reg din dout sessionOk w =
     (case client_turn okSession reg din dout sessionOk (others w) of
     None \<Rightarrow> None
   | Some (TurnEnd dout w) \<Rightarrow> Some (dout, w)
   | Some (TurnOn din dout sessionOk w) \<Rightarrow> handleClient okSession others reg din dout sessionOk w)"

subsection \<open>Nothing but the free commands without a session\<close>

text \<open>
  A connection in progress, with the requests that were served and the state in which each was; between two of them
  other connections change the state.
\<close>

inductive connection :: "(i64 \<Rightarrow> 'w \<Rightarrow> bool) \<Rightarrow> 'w Registry \<Rightarrow> (string \<times> i64 \<times> 'w) list \<Rightarrow> din \<Rightarrow> dout \<Rightarrow> bool \<Rightarrow> bool"
  for okSession reg where
  conn_start: "connection okSession reg [] din dout False"
| conn_turn: "connection okSession reg log din dout sessionOk \<Longrightarrow>
    read_request okSession din sessionOk w = Request cmd session din1 sessionOk1 \<Longrightarrow>
    client_turn okSession reg din dout sessionOk w = Some (TurnOn din' dout' sessionOk' w') \<Longrightarrow>
    connection okSession reg (log @ [(cmd, session, w)]) din' dout' sessionOk'"

lemma read_request_session:
  assumes "read_request okSession din sessionOk w = Request cmd session din' sessionOk'"
  shows "sessionOk' \<longrightarrow> sessionOk \<or> okSession session w" and "cmd \<notin> FreeCmds \<longrightarrow> sessionOk'"
  using assms by (auto simp: read_request_def split: prod.splits res.splits if_splits)

lemma connection_session:
  "connection okSession reg log din dout sessionOk \<Longrightarrow> sessionOk \<Longrightarrow> \<exists>(cmd, session, w) \<in> set log. okSession session w"
proof (induction rule: connection.induct)
  case (conn_turn log din dout sessionOk w cmd session din1 sessionOk1 din' dout' sessionOk' w')
  then have "sessionOk' = sessionOk1" by (auto simp: client_turn_def split: if_splits)
  then show ?case using conn_turn read_request_session(1) [OF conn_turn.hyps(2)] by auto
qed simp

lemma served_with_session:
  assumes "connection okSession reg log din dout sessionOk"
    and "read_request okSession din sessionOk w = Request cmd session din' sessionOk'" and "cmd \<notin> FreeCmds"
  shows "\<exists>(cmd', session', w') \<in> set (log @ [(cmd, session, w)]). okSession session' w'"
  using connection_session [OF assms(1)] read_request_session [OF assms(2)] assms(3) by auto

subsection \<open>The connection ends when its input does\<close>

text \<open>An input operation never puts bytes back, also when it fails.\<close>

definition shrinks :: "'a rd \<Rightarrow> bool" where
  "shrinks r \<longleftrightarrow> (\<forall>d. length (pending (snd (r d))) \<le> length (pending d))"

lemma shrinks_bind:
  assumes "shrinks r" and f: "\<And>x. shrinks (f x)"
  shows "shrinks (rd_bind r f)"
  unfolding shrinks_def
proof
  fix d
  have r: "length (pending (snd (r d))) \<le> length (pending d)" using assms(1) by (simp add: shrinks_def)
  have "length (pending (snd (f x (snd (r d))))) \<le> length (pending (snd (r d)))" for x
    using f [of x] by (simp add: shrinks_def)
  note le_trans [OF this r]
  then show "length (pending (snd (rd_bind r f d))) \<le> length (pending d)"
    using r by (simp add: rd_bind_def split: prod.split res.split) (metis snd_conv)
qed

lemma shrinks_basic: "shrinks (rd_ret v)" "shrinks (rd_fail e)" "shrinks (rd_panic q)"
  by (simp_all add: shrinks_def rd_ret_def rd_fail_def rd_panic_def)

lemma shrinks_if: "(c \<Longrightarrow> shrinks r) \<Longrightarrow> (\<not> c \<Longrightarrow> shrinks r') \<Longrightarrow> shrinks (if c then r else r')"
  by simp

lemma shrinks_Read: "shrinks (Read n)"
  by (auto simp: shrinks_def Read_def pending_def split: option.split)

lemma shrinks_Byte: "shrinks ReadByte"
  by (auto simp: shrinks_def ReadByte_def pending_def split: option.split list.split)

lemma pending_offset: "in_reader d = None \<Longrightarrow> in_offset d \<le> n \<Longrightarrow> length (pending (d\<lparr>in_offset := n\<rparr>)) \<le> length (pending d)"
  by (simp add: pending_def)

lemma shrinks_Int: "shrinks ReadInt16" "shrinks ReadUint16" "shrinks ReadInt32" "shrinks ReadInt64"
proof -
  have b: "shrinks (rd_bind (Read n) (\<lambda>b. rd_ret (f b)))" for n f
    by (intro shrinks_bind shrinks_Read shrinks_basic)
  have c: "length (pending (snd (rd_bind (Read n) (\<lambda>b. rd_ret (f b)) d))) \<le> length (pending d)" for n f d
    using b [of n f] by (simp add: shrinks_def)
  show "shrinks ReadInt16" "shrinks ReadUint16" "shrinks ReadInt32" "shrinks ReadInt64"
    unfolding shrinks_def ReadInt16_def ReadUint16_def ReadInt32_def ReadInt64_def
    by (simp_all split: option.split add: pending_offset c)
qed

lemma shrinks_times: "shrinks r \<Longrightarrow> shrinks (rd_times n r)"
  by (induction n) (auto intro!: shrinks_bind intro: shrinks_basic)

lemma shrinks_slice: "shrinks r \<Longrightarrow> shrinks (rd_slice s n r)"
  by (simp add: rd_slice_def shrinks_times shrinks_basic)

named_theorems shrinks_intro "input operations never put bytes back"

lemmas shrinks_rules [shrinks_intro] = shrinks_bind shrinks_basic shrinks_if shrinks_Read shrinks_Byte shrinks_Int shrinks_slice

lemma shrinks_Decimal [shrinks_intro]: "shrinks ReadDecimal"
  unfolding ReadDecimal_def ReadInt3_def ReadLong5_def by (intro shrinks_intro)

lemma shrinks_Text [shrinks_intro]: "shrinks ReadBlob" "shrinks ReadText"
  unfolding ReadText_def ReadBlob_def by (intro shrinks_intro)+

lemma shrinks_more [shrinks_intro]: "shrinks ReadBoolean" "shrinks ReadFloat32" "shrinks ReadFloat64" "shrinks ReadInt3"
  "shrinks ReadArrayInt" "shrinks ReadArrayFloat" "shrinks ReadArrayLong"
  unfolding ReadBoolean_def ReadFloat32_def ReadFloat64_def ReadInt3_def ReadArrayInt_def ReadArrayFloat_def ReadArrayLong_def
  by (intro shrinks_intro)+

lemma shrinks_value_Read: "shrinks rv \<Longrightarrow> shrinks (value_Read rv v)"
  by (cases v) (auto simp: value_read_defs TextArray_Read_def intro!: shrinks_intro)

lemma shrinks_ReadValue [shrinks_intro]: "shrinks ReadValue"
proof -
  have "shrinks (ReadValue_body rv)" if "shrinks rv" for rv
    unfolding ReadValue_body_def
    by (intro shrinks_intro) (auto split: res.split intro: shrinks_value_Read that shrinks_basic)
  then have b: "shrinks (ReadValue_bounded n)" for n
    by (induction n) (auto intro: shrinks_basic)
  show ?thesis unfolding shrinks_def ReadValue_def using b [unfolded shrinks_def] by blast
qed

lemma shrinks_inner [shrinks_intro]: "shrinks (rd_inner r b)"
  by (auto simp: shrinks_def rd_inner_def)

lemma shrinks_set [shrinks_intro]: "shrinks r \<Longrightarrow> shrinks (rd_set r upd s)"
  unfolding rd_set_def by (intro shrinks_intro)

lemma shrinks_steps [shrinks_intro]:
  "shrinks (rd_steps [] s)" "shrinks (f s) \<Longrightarrow> (\<And>s. shrinks (rd_steps fs s)) \<Longrightarrow> shrinks (rd_steps (f # fs) s)"
  by (auto intro!: shrinks_intro)

lemma shrinks_pack_Read: "shrinks (pack_Read p)"
  by (cases p) (auto simp del: rd_steps.simps simp: TextPack_Read_def PerfCounterPack_Read_def StatusPack_Read_def
    StackPack_Read_def SummaryPack_Read_def BatchPack_Read_def InteractionPerfCounterPack_Read_def AlertPack_Read_def
    ObjectPack_Read_def SpanContainerPack_Read_def SpanPack_Read_def XLogProfilePack_Read_def XLogProfilePack2_Read_def
    DroppedXLogPack_Read_def MapPack_Read_def XLogPack_Read_def
    intro!: shrinks_intro)

lemma shrinks_ReadPack: "shrinks ReadPack"
  unfolding ReadPack_def
proof (rule shrinks_bind, rule shrinks_Byte)
  have "shrinks (rd_wrap t r)" if "shrinks r" for t and r :: "pack rd"
    unfolding shrinks_def
  proof
    show "length (pending (snd (rd_wrap t r d))) \<le> length (pending d)" for d
      using that [unfolded shrinks_def, rule_format, of d] by (auto simp: rd_wrap_def split: prod.split res.split)
  qed
  then show "shrinks (case CreatePack t of Ok p \<Rightarrow> rd_wrap t (pack_Read p) | Err e \<Rightarrow> rd_fail e | Panic p \<Rightarrow> rd_panic p)" for t
    by (auto split: res.split intro: shrinks_basic shrinks_pack_Read)
qed

text \<open>A handler that returns, and does not put bytes back.\<close>

definition returns :: "'w handler \<Rightarrow> bool" where
  "returns h \<longleftrightarrow> (\<forall>din dout login w. \<exists>r din' dout' w'.
     h din dout login w = Some (r, din', dout', w') \<and> length (pending din') \<le> length (pending din))"

lemma returns_param:
  assumes "\<And>m dout w. f m dout w \<noteq> None"
  shows "returns (with_param f)"
  unfolding returns_def
proof (intro allI)
  fix din dout login w
  obtain r d where r: "ReadPack din = (r, d)" by fastforce
  then have "length (pending d) \<le> length (pending din)"
    using shrinks_ReadPack [unfolded shrinks_def, rule_format, of din] by simp
  moreover have "\<exists>r1 dout1 w1. f m dout w = Some (r1, dout1, w1)" for m
    using assms [of m dout w] by auto
  ultimately show "\<exists>r din' dout' w'. with_param f din dout login w = Some (r, din', dout', w') \<and> length (pending din') \<le> length (pending din)"
    using r by (cases r) (force simp: with_param_def split: pack.split)+
qed

lemma returns_any:
  assumes "\<And>dout w. f dout w \<noteq> None"
  shows "returns (with_any f)"
  unfolding returns_def
proof (intro allI)
  fix din dout login w
  obtain r d where r: "ReadPack din = (r, d)" by fastforce
  then have "length (pending d) \<le> length (pending din)"
    using shrinks_ReadPack [unfolded shrinks_def, rule_format, of din] by simp
  moreover have "\<exists>r1 dout1 w1. f dout w = Some (r1, dout1, w1)" using assms [of dout w] by auto
  ultimately show "\<exists>r din' dout' w'. with_any f din dout login w = Some (r, din', dout', w') \<and> length (pending din') \<le> length (pending din)"
    using r by (cases r) (force simp: with_any_def)+
qed

lemma returns_none: "(\<And>dout w. f dout w \<noteq> None) \<Longrightarrow> returns (with_none f)"
  by (fastforce simp: returns_def with_none_def)

lemma returns_along: "returns h \<Longrightarrow> returns (along get put h)"
  by (fastforce simp: returns_def along_def)

lemma returns_serve:
  assumes "\<And>h. reg_Get reg cmd = Some h \<Longrightarrow> returns h"
  shows "returns (serve reg cmd)"
  unfolding returns_def
proof (intro allI)
  fix din dout login w
  show "\<exists>r din' dout' w'. serve reg cmd din dout login w = Some (r, din', dout', w') \<and> length (pending din') \<le> length (pending din)"
  proof (cases "reg_Get reg cmd")
    case None
    then show ?thesis using shrinks_ReadPack [unfolded shrinks_def, rule_format, of din]
      by (cases "ReadPack din") (auto simp: serve_def split: res.split)
  next
    case (Some h)
    then show ?thesis using assms [OF Some] by (simp add: serve_def returns_def)
  qed
qed

lemma read_request_shrinks:
  assumes "read_request okSession din sessionOk w = Request cmd session din' sessionOk'"
  shows "length (pending din') < length (pending din)"
proof -
  obtain d where "ReadText din = (Ok cmd, d)" "ReadInt64 d = (Ok session, din')"
    using assms by (auto simp: read_request_def split: prod.splits res.splits if_splits)
  then show ?thesis
    using takesD [OF takes_Text, of din] shrinks_Int(4) [unfolded shrinks_def, rule_format, of d] by fastforce
qed

locale returning_services =
  fixes okSession :: "i64 \<Rightarrow> 'w \<Rightarrow> bool" and reg :: "'w Registry"
  assumes handler_returns: "reg_Get reg cmd = Some h \<Longrightarrow> returns h"
begin

text \<open>The turn goes on only with less to read, so the loop ends with the input at the latest.\<close>

lemma turn_returns:
  "\<exists>r. client_turn okSession reg din dout sessionOk w = Some r \<and>
    (\<forall>din' dout' ok' w'. r = TurnOn din' dout' ok' w' \<longrightarrow> length (pending din') < length (pending din))"
proof (cases "read_request okSession din sessionOk w")
  case (Request cmd session d ok)
  have "returns (serve reg cmd)" using handler_returns by (rule returns_serve)
  then obtain r din' dout' w' where s: "serve reg cmd d dout ok w = Some (r, din', dout', w')"
    "length (pending din') \<le> length (pending d)" unfolding returns_def by blast
  with Request read_request_shrinks [OF Request] show ?thesis by (auto simp: client_turn_def)
qed (auto simp: client_turn_def)

lemma connection_returns: "\<exists>r. handleClient okSession others reg din dout sessionOk w = Some r"
proof (induction "length (pending din)" arbitrary: din dout sessionOk w rule: less_induct)
  case less
  obtain r where r: "client_turn okSession reg din dout sessionOk (others w) = Some r"
    "\<And>din' dout' ok' w'. r = TurnOn din' dout' ok' w' \<Longrightarrow> length (pending din') < length (pending din)"
    using turn_returns by blast
  then show ?case
    using less.hyps by (cases r) (auto simp: handleClient.simps [of okSession others reg din])
qed

end

subsection \<open>A conversation\<close>

text \<open>What a client sends: the command, its session and the parameters.\<close>

type_synonym client_request = "string \<times> i64 \<times> MapPack"

fun put_request :: "client_request \<Rightarrow> dout \<Rightarrow> dout" where
  "put_request (cmd, session, m) = writes [WriteText cmd, WriteInt64 session, WritePack (MapPack m)]"

definition norm_param :: "MapPack \<Rightarrow> MapPack" where
  "norm_param m = m\<lparr>map_Table := map norm_entry (map_Table m)\<rparr>"

text \<open>What the requests mean on an abstract state: the packs that answer each, and the state at the end.\<close>

fun run_spec :: "(string \<Rightarrow> MapPack \<Rightarrow> 's \<Rightarrow> pack list \<times> 's) \<Rightarrow> ('s \<Rightarrow> 's) \<Rightarrow> client_request list \<Rightarrow> 's \<Rightarrow> pack list list \<times> 's" where
  "run_spec spec others [] s = ([], others s)"
| "run_spec spec others ((cmd, session, m) # reqs) s =
    (let (ps, s) = spec cmd (norm_param m) (others s); (pss, s) = run_spec spec others reqs s in (ps # pss, s))"

fun put_answer :: "pack list \<Rightarrow> dout \<Rightarrow> dout" where
  "put_answer ps dout = WriteByte FLAG_NO_NEXT (fold reply_pack ps dout)"

fun ok_request :: "client_request \<Rightarrow> bool" where
  "ok_request (cmd, session, m) \<longleftrightarrow> cmd \<noteq> CLOSE \<and> ok_text cmd \<and> ok_pack (MapPack m)"

definition admitted ::
    "(i64 \<Rightarrow> 'w \<Rightarrow> bool) \<Rightarrow> ('w \<Rightarrow> bool) \<Rightarrow> (string \<Rightarrow> MapPack \<Rightarrow> bool) \<Rightarrow> bool \<Rightarrow> client_request \<Rightarrow> bool" where
  "admitted okSession good ok sessionOk r \<longleftrightarrow> ok_request r \<and> (case r of (cmd, session, m) \<Rightarrow>
     ok cmd (norm_param m) \<and> (sessionOk \<or> cmd \<in> FreeCmds \<or> (\<forall>w. good w \<longrightarrow> okSession session w)))"

lemma admitted_mono: "admitted okSession good ok sessionOk r \<Longrightarrow> sessionOk \<longrightarrow> sessionOk' \<Longrightarrow> admitted okSession good ok sessionOk' r"
  by (auto simp: admitted_def)

lemma ReadText_end: "pending din = [] \<Longrightarrow> \<exists>e d. ReadText din = (Err e, d)"
  by (cases "in_reader din") (auto simp: pending_def ReadText_def ReadBlob_def ReadByte_def rd_bind_def)

text \<open>A request that a client wrote is read in front of its handler, which reads its parameters.\<close>

lemma request_read:
  assumes "ok_request (cmd, session, m)" and "sessionOk \<or> cmd \<in> FreeCmds \<or> okSession session w"
    and "pending din = ToByteArray (put_request (cmd, session, m) NewDataOutputX) @ rest"
  obtains din1 din2 where "read_request okSession din sessionOk w = Request cmd session din1 (sessionOk \<or> cmd \<notin> FreeCmds)"
    and "ReadPack din1 = (Ok (MapPack (norm_param m)), din2)" and "pending din2 = rest"
proof -
  have r: "ok_text cmd" "ok_pack (MapPack m)" "cmd \<noteq> CLOSE" using assms(1) by simp_all
  obtain b1 where b1: "emits (WriteText cmd) b1" "consumes ReadText b1 cmd" using wire_Text [OF r(1)] by (blast elim: wireE)
  obtain b2 where b2: "emits (WriteInt64 session) b2" "consumes ReadInt64 b2 session" using wire_Int64 [of session] by (blast elim: wireE)
  obtain b3 where b3: "emits (WritePack (MapPack m)) b3" "consumes ReadPack b3 (MapPack (norm_param m))"
    using wire_pack [OF r(2)] by (auto elim: wireE simp: norm_param_def)
  have "emits (put_request (cmd, session, m)) (b1 @ b2 @ b3)"
    using b1(1) b2(1) b3(1) by (auto intro!: emits_intro)
  note emits_ToByteArray [OF this]
  then have p: "pending din = b1 @ b2 @ b3 @ rest" using assms(3) by simp
  note consumesD [OF b1(2), of din "b2 @ b3 @ rest"] consumesD [OF b2(2), of "advance (length b1) din" "b3 @ rest"]
    consumesD [OF b3(2), of "advance (length b2) (advance (length b1) din)" rest]
  with p have "ReadText din = (Ok cmd, advance (length b1) din)"
    "ReadInt64 (advance (length b1) din) = (Ok session, advance (length b1 + length b2) din)"
    and read: "ReadPack (advance (length b1 + length b2) din) =
      (Ok (MapPack (norm_param m)), advance (length b1 + (length b2 + length b3)) din)"
    by (simp_all add: add.assoc)
  then have "read_request okSession din sessionOk w =
      Request cmd session (advance (length b1 + length b2) din) (sessionOk \<or> cmd \<notin> FreeCmds)"
    using r(3) assms(2) by (auto simp: read_request_def)
  from this read show thesis by (rule that) (simp add: p)
qed

text \<open>
  The contract of the services: where the state stands for \<open>s\<close>, the handler of a request answers what \<open>spec\<close> says and
  leaves a state that stands for what \<open>spec\<close> makes of \<open>s\<close>.
\<close>

locale services =
  fixes reg :: "'w Registry" and spec :: "string \<Rightarrow> MapPack \<Rightarrow> 's \<Rightarrow> pack list \<times> 's"
    and rep :: "'w \<Rightarrow> 's \<Rightarrow> bool" and ok :: "string \<Rightarrow> MapPack \<Rightarrow> bool"
  assumes serves: "ok cmd m \<Longrightarrow> rep w s \<Longrightarrow> ReadPack din = (Ok (MapPack m), din') \<Longrightarrow>
      \<exists>w'. serve reg cmd din dout login w = Some (Ok (), din', fold reply_pack (fst (spec cmd m s)) dout, w') \<and>
        rep w' (snd (spec cmd m s))"
    and spec_ok: "ok cmd m \<Longrightarrow> rep w s \<Longrightarrow> p \<in> set (fst (spec cmd m s)) \<Longrightarrow> ok_pack p"
begin

lemma request_turn:
  assumes "admitted okSession (\<lambda>w. \<exists>s. rep w s) ok sessionOk (cmd, session, m)" and "rep w s"
    and "pending din = ToByteArray (put_request (cmd, session, m) NewDataOutputX) @ rest"
  shows "\<exists>din' ok' w'. pending din' = rest \<and> (sessionOk \<longrightarrow> ok') \<and> rep w' (snd (spec cmd (norm_param m) s)) \<and>
    client_turn okSession reg din dout sessionOk w =
      Some (TurnOn din' (put_answer (fst (spec cmd (norm_param m) s)) dout) ok' w')"
proof -
  have r: "ok_request (cmd, session, m)" "ok cmd (norm_param m)" "sessionOk \<or> cmd \<in> FreeCmds \<or> okSession session w"
    using assms(1,2) by (auto simp: admitted_def)
  obtain din1 din2 where d: "read_request okSession din sessionOk w = Request cmd session din1 (sessionOk \<or> cmd \<notin> FreeCmds)"
    "ReadPack din1 = (Ok (MapPack (norm_param m)), din2)" "pending din2 = rest"
    using r(1,3) assms(3) by (rule request_read)
  obtain w' where "serve reg cmd din1 dout (sessionOk \<or> cmd \<notin> FreeCmds) w =
      Some (Ok (), din2, fold reply_pack (fst (spec cmd (norm_param m) s)) dout, w')" "rep w' (snd (spec cmd (norm_param m) s))"
    using serves [OF r(2) assms(2) d(2)] by blast
  then show ?thesis
    by (intro exI [of _ din2] exI [of _ "sessionOk \<or> cmd \<notin> FreeCmds"] exI [of _ w']) (simp add: client_turn_def d)
qed

text \<open>What happens between two requests does \<open>spec_others\<close> to the abstract state.\<close>

lemma conversation:
  assumes others_rep: "\<And>w s. rep w s \<Longrightarrow> rep (others w) (spec_others s)"
    and "\<forall>r \<in> set reqs. admitted okSession (\<lambda>w. \<exists>s. rep w s) ok sessionOk r" and "rep w s"
    and "pending din = concat (map (\<lambda>r. ToByteArray (put_request r NewDataOutputX)) reqs)"
  shows "\<exists>w'. handleClient okSession others reg din dout sessionOk w =
    Some (fold put_answer (fst (run_spec spec spec_others reqs s)) dout, w') \<and> rep w' (snd (run_spec spec spec_others reqs s))"
  using assms(2-)
proof (induction reqs arbitrary: din dout sessionOk w s)
  case Nil
  then have "\<exists>e d. ReadText din = (Err e, d)" by (intro ReadText_end) simp
  then show ?case using others_rep [OF Nil.prems(2)]
    by (auto simp: handleClient.simps [of okSession others reg din] client_turn_def read_request_def)
next
  case (Cons r reqs)
  obtain cmd session m where r: "r = (cmd, session, m)" by (cases r)
  let ?s = "snd (spec cmd (norm_param m) (spec_others s))"
  have w: "admitted okSession (\<lambda>w. \<exists>s. rep w s) ok sessionOk (cmd, session, m)" "rep (others w) (spec_others s)"
    using Cons.prems others_rep by (auto simp: r)
  obtain din' ok' w' where t: "pending din' = concat (map (\<lambda>r. ToByteArray (put_request r NewDataOutputX)) reqs)"
    "sessionOk \<longrightarrow> ok'" "rep w' ?s" "client_turn okSession reg din dout sessionOk (others w) =
      Some (TurnOn din' (put_answer (fst (spec cmd (norm_param m) (spec_others s))) dout) ok' w')"
    using request_turn [OF w, of din _ dout] Cons.prems(3) by (auto simp: r)
  have "\<forall>r \<in> set reqs. admitted okSession (\<lambda>w. \<exists>s. rep w s) ok ok' r"
    using Cons.prems(1) t(2) admitted_mono by (meson list.set_intros(2))
  with Cons.IH [OF _ t(3,1)] show ?case
    by (simp add: handleClient.simps [of okSession others reg din] t(4) r case_prod_unfold Let_def)
qed

lemma answers_ok:
  assumes others_rep: "\<And>w s. rep w s \<Longrightarrow> rep (others w) (spec_others s)"
    and "\<forall>r \<in> set reqs. admitted okSession (\<lambda>w. \<exists>s. rep w s) ok sessionOk r" and "rep w s"
    and "ps \<in> set (fst (run_spec spec spec_others reqs s))" and "p \<in> set ps"
  shows "ok_pack p"
  using assms(2-)
proof (induction reqs arbitrary: w s)
  case (Cons r reqs)
  obtain cmd session m where r: "r = (cmd, session, m)" by (cases r)
  have o: "ok cmd (norm_param m)" "rep (others w) (spec_others s)"
    using Cons.prems(1,2) others_rep by (auto simp: r admitted_def)
  let ?w = "spec cmd (norm_param m) (spec_others s)"
  show ?case
  proof (cases "ps = fst ?w")
    case True
    then show ?thesis using spec_ok [OF o] Cons.prems(4) by simp
  next
    case False
    then have "ps \<in> set (fst (run_spec spec spec_others reqs (snd ?w)))"
      using Cons.prems(3) by (simp add: r case_prod_unfold Let_def)
    moreover obtain w' where "rep w' (snd ?w)"
      using request_turn [of okSession sessionOk cmd session m "others w" "spec_others s"
          "NewDataInputX (ToByteArray (put_request (cmd, session, m) NewDataOutputX))" "[]"] Cons.prems(1) others_rep [OF Cons.prems(2)]
      by (auto simp: r)
    ultimately show ?thesis using Cons.IH Cons.prems(1,4) by simp
  qed
qed simp

end

end
