(* ===== verification/AgentCalls.thy ===== *)
theory AgentCalls
  imports Requests "HOL-Library.AList"
begin

text \<open>
  The connections of the agents the server calls on: internal/netio/tcp/agent\_worker.go, agent\_manager.go and
  agent\_call.go.

  The input of a worker is what the agent sends until it closes the connection or the read deadline passes, its output
  what was sent to the agent. \<open>flushed\<close> says whether a flush succeeds, \<open>now\<close> is the time in milliseconds. A worker is in one
  queue or with the goroutine that took it out, so the queues hold the workers themselves.
\<close>

subsection \<open>A connection\<close>

definition TCP_AGENT :: i32 where "TCP_AGENT = 0xCAFE1001"
definition TCP_AGENT_V2 :: i32 where "TCP_AGENT_V2 = 0xCAFE1002"

record AgentWorker =
  wk_din :: din
  wk_dout :: dout
  wk_protocolType :: i32
  wk_objHash :: i32
  wk_lastWriteTime :: int
  wk_closed :: bool

definition NewAgentWorker :: "int \<Rightarrow> bytes \<Rightarrow> i32 \<Rightarrow> i32 \<Rightarrow> AgentWorker" where
  "NewAgentWorker now input protocolType objHash = \<lparr>wk_din = NewDataInputXStream input, wk_dout = NewDataOutputXStream,
     wk_protocolType = protocolType, wk_objHash = objHash, wk_lastWriteTime = now, wk_closed = False\<rparr>"

definition ErrClosedPipe :: go_error where
  "ErrClosedPipe = ErrText ''io: read/write on closed pipe''"

definition wk_Close :: "AgentWorker \<Rightarrow> AgentWorker" where
  "wk_Close w = w\<lparr>wk_closed := True\<rparr>"

definition wk_Write :: "int \<Rightarrow> bool \<Rightarrow> string \<Rightarrow> pack \<Rightarrow> AgentWorker \<Rightarrow> unit res \<times> AgentWorker" where
  "wk_Write now flushed cmd p w =
     (if wk_closed w then (Err ErrClosedPipe, w)
      else let w = w\<lparr>wk_dout :=
               (if wk_protocolType w = TCP_AGENT then writes [WriteText cmd, WritePack p] (wk_dout w)
                else if wk_protocolType w = TCP_AGENT_V2
                then WriteIntBytes (ToByteArray (writes [WriteText cmd, WritePack p] NewDataOutputX)) (wk_dout w)
                else wk_dout w)\<rparr>
        in if \<not> flushed then (Err (ErrText ''write''), wk_Close w)
           else (Ok (), w\<lparr>wk_lastWriteTime := now\<rparr>))"

definition wk_ReadPack :: "AgentWorker \<Rightarrow> pack res \<times> AgentWorker" where
  "wk_ReadPack w =
     (if wk_closed w then (Err ErrClosedPipe, w)
      else if wk_protocolType w = TCP_AGENT then (let (r, din) = ReadPack (wk_din w) in (r, w\<lparr>wk_din := din\<rparr>))
      else if wk_protocolType w = TCP_AGENT_V2 then (case ReadIntBytes (wk_din w) of
          (Ok buf, din) \<Rightarrow> (fst (ReadPack (NewDataInputX buf)), w\<lparr>wk_din := din\<rparr>)
        | (Err e, din) \<Rightarrow> (Err e, wk_Close (w\<lparr>wk_din := din\<rparr>))
        | (Panic q, din) \<Rightarrow> (Panic q, w\<lparr>wk_din := din\<rparr>))
      else (Err IoUnexpectedEOF, w))"

definition wk_ReadByte :: "AgentWorker \<Rightarrow> byte res \<times> AgentWorker" where
  "wk_ReadByte w =
     (if wk_closed w then (Err ErrClosedPipe, w)
      else case ReadByte (wk_din w) of
          (Ok b, din) \<Rightarrow> (Ok b, w\<lparr>wk_din := din\<rparr>)
        | (Err e, din) \<Rightarrow> (Err e, wk_Close (w\<lparr>wk_din := din\<rparr>))
        | (Panic q, din) \<Rightarrow> (Panic q, w\<lparr>wk_din := din\<rparr>))"

definition wk_IsExpired :: "int \<Rightarrow> int \<Rightarrow> AgentWorker \<Rightarrow> bool" where
  "wk_IsExpired now keepaliveInterval w \<longleftrightarrow> now - wk_lastWriteTime w \<ge> keepaliveInterval"

text \<open>Each read of a byte takes one, so what comes after it has less to read.\<close>

definition wk_left :: "AgentWorker \<Rightarrow> nat" where
  "wk_left w = length (pending (wk_din w))"

lemma wk_ReadByte_left: "wk_ReadByte w = (Ok b, w') \<Longrightarrow> wk_left w' < wk_left w"
  using takesD [OF takes_fixed(1), of "wk_din w"]
  by (fastforce simp: wk_ReadByte_def wk_left_def wk_Close_def split: if_splits prod.splits res.splits)

lemma shrinks_IntBytes: "shrinks ReadIntBytes"
  unfolding ReadIntBytes_def by (intro shrinks_intro)

lemma wk_ReadPack_left: "wk_left (snd (wk_ReadPack w)) \<le> wk_left w"
  using shrinks_ReadPack [unfolded shrinks_def, rule_format, of "wk_din w"]
    shrinks_IntBytes [unfolded shrinks_def, rule_format, of "wk_din w"]
  by (auto simp: wk_ReadPack_def wk_left_def wk_Close_def split: prod.split res.split)

text \<open>The responses to a keepalive are dropped; an error of reading one is not looked at.\<close>

definition wk_skip_response :: "AgentWorker \<Rightarrow> unit res \<times> AgentWorker" where
  "wk_skip_response w =
     (if wk_protocolType w = TCP_AGENT then (case ReadPack (wk_din w) of
          (Panic q, din) \<Rightarrow> (Panic q, w\<lparr>wk_din := din\<rparr>)
        | (_, din) \<Rightarrow> (Ok (), w\<lparr>wk_din := din\<rparr>))
      else if wk_protocolType w = TCP_AGENT_V2 then (case ReadIntBytes (wk_din w) of
          (Panic q, din) \<Rightarrow> (Panic q, w\<lparr>wk_din := din\<rparr>)
        | (_, din) \<Rightarrow> (Ok (), w\<lparr>wk_din := din\<rparr>))
      else (Ok (), w))"

lemma wk_skip_left: "wk_left (snd (wk_skip_response w)) \<le> wk_left w"
  using shrinks_ReadPack [unfolded shrinks_def, rule_format, of "wk_din w"]
    shrinks_IntBytes [unfolded shrinks_def, rule_format, of "wk_din w"]
  by (auto simp: wk_skip_response_def wk_left_def split: prod.split res.split)

function wk_drain :: "AgentWorker \<Rightarrow> unit res \<times> AgentWorker" where
  "wk_drain w = (case wk_ReadByte w of
     (Ok b, w1) \<Rightarrow>
       if b \<noteq> FLAG_HAS_NEXT then (Ok (), w1)
       else (case wk_skip_response w1 of
           (Ok _, w2) \<Rightarrow> wk_drain w2
         | (Err e, w2) \<Rightarrow> (Err e, w2)
         | (Panic q, w2) \<Rightarrow> (Panic q, w2))
   | (Err e, w1) \<Rightarrow> (Ok (), w1)
   | (Panic q, w1) \<Rightarrow> (Panic q, w1))"
  by pat_completeness auto
termination
proof (relation "measure wk_left", simp)
  fix w r w1 b r2 w2 u
  assume "(r, w1) = wk_ReadByte w" "r = Ok b" "(r2, w2) = wk_skip_response w1" "r2 = Ok u"
  then show "(w2, w) \<in> measure wk_left"
    using wk_ReadByte_left [of w b w1] wk_skip_left [of w1] by (cases "wk_skip_response w1") auto
qed

definition wk_SendKeepAlive :: "int \<Rightarrow> bool \<Rightarrow> AgentWorker \<Rightarrow> unit res \<times> AgentWorker" where
  "wk_SendKeepAlive now flushed w =
     (if wk_closed w then (Ok (), w)
      else case wk_Write now flushed ''KEEP_ALIVE'' (MapPack \<lparr>map_Table = []\<rparr>) w of
          (Ok _, w) \<Rightarrow> wk_drain w
        | (_, w) \<Rightarrow> (Ok (), w))"

subsection \<open>The pool of connections\<close>

type_synonym agentQueue = "AgentWorker list"

definition defaultMaxAgents :: nat where "defaultMaxAgents = 5000"

record TcpAgentManager =
  tm_agents :: "(i32 \<times> agentQueue) list"
  tm_maxConnsPerAgent :: int
  tm_keepaliveInterval :: int
  tm_getConnWait :: int

record AgentManagerConfig =
  MaxConnsPerAgent :: int
  KeepaliveInterval :: int
  GetConnWait :: int

definition NewAgentManagerWithConfig :: "AgentManagerConfig \<Rightarrow> TcpAgentManager" where
  "NewAgentManagerWithConfig cfg = \<lparr>tm_agents = [],
     tm_maxConnsPerAgent = (if MaxConnsPerAgent cfg \<le> 0 then 50 else MaxConnsPerAgent cfg),
     tm_keepaliveInterval = (if KeepaliveInterval cfg \<le> 0 then 60000 else KeepaliveInterval cfg),
     tm_getConnWait = (if GetConnWait cfg \<le> 0 then 5000 else GetConnWait cfg)\<rparr>"

text \<open>A worker for which there is no room is closed.\<close>

definition q_put :: "AgentWorker \<Rightarrow> int \<Rightarrow> agentQueue \<Rightarrow> agentQueue" where
  "q_put w maxSize q = (if int (length q) < maxSize then q @ [w] else q)"

text \<open>\<open>arrived\<close> is what the queue holds when the wait is over.\<close>

definition q_get :: "int \<Rightarrow> agentQueue \<Rightarrow> agentQueue \<Rightarrow> AgentWorker option \<times> agentQueue" where
  "q_get timeout arrived q = (case q of
     w # ws \<Rightarrow> (Some w, ws)
   | [] \<Rightarrow>
       if timeout \<le> 0 then (None, [])
       else (case arrived of w # ws \<Rightarrow> (Some w, ws) | [] \<Rightarrow> (None, [])))"

definition tm_Add :: "i32 \<Rightarrow> AgentWorker \<Rightarrow> TcpAgentManager \<Rightarrow> TcpAgentManager" where
  "tm_Add objHash w m = (case map_of (tm_agents m) objHash of
     None \<Rightarrow>
       if length (tm_agents m) \<ge> defaultMaxAgents then m
       else m\<lparr>tm_agents := AList.update objHash (q_put w (tm_maxConnsPerAgent m) []) (tm_agents m)\<rparr>
   | Some q \<Rightarrow> m\<lparr>tm_agents := AList.update objHash (q_put w (tm_maxConnsPerAgent m) q) (tm_agents m)\<rparr>)"

definition tm_Get :: "agentQueue \<Rightarrow> i32 \<Rightarrow> TcpAgentManager \<Rightarrow> AgentWorker option \<times> TcpAgentManager" where
  "tm_Get arrived objHash m = (case map_of (tm_agents m) objHash of
     None \<Rightarrow> (None, m)
   | Some q \<Rightarrow> (let (w, q) = q_get (tm_getConnWait m) arrived q
       in (w, m\<lparr>tm_agents := AList.update objHash q (tm_agents m)\<rparr>)))"

definition tm_HasAgent :: "i32 \<Rightarrow> TcpAgentManager \<Rightarrow> bool" where
  "tm_HasAgent objHash m = (case map_of (tm_agents m) objHash of None \<Rightarrow> False | Some q \<Rightarrow> length q > 0)"

definition tm_Size :: "TcpAgentManager \<Rightarrow> nat" where
  "tm_Size m = length (tm_agents m)"

definition tm_Close :: "TcpAgentManager \<Rightarrow> TcpAgentManager" where
  "tm_Close m = m\<lparr>tm_agents := []\<rparr>"

text \<open>
  The keepalive of one queue: it is drained, and the connections that are open, or still open after the keepalive, come
  back. \<open>keys\<close> are the agents in the order of the iteration; a panic ends the daemon.
\<close>

fun keepalive_workers ::
    "int \<Rightarrow> (AgentWorker \<Rightarrow> bool) \<Rightarrow> int \<Rightarrow> int \<Rightarrow> AgentWorker list \<Rightarrow> agentQueue \<Rightarrow> agentQueue res" where
  "keepalive_workers now flushed interval maxConns [] q = Ok q"
| "keepalive_workers now flushed interval maxConns (w # ws) q =
     (if wk_closed w then keepalive_workers now flushed interval maxConns ws q
      else case (if wk_IsExpired now interval w then wk_SendKeepAlive now (flushed w) w else (Ok (), w)) of
          (Ok _, w) \<Rightarrow> keepalive_workers now flushed interval maxConns ws (if wk_closed w then q else q_put w maxConns q)
        | (Err e, w) \<Rightarrow> Err e
        | (Panic p, w) \<Rightarrow> Panic p)"

fun tm_runKeepalive :: "int \<Rightarrow> (AgentWorker \<Rightarrow> bool) \<Rightarrow> i32 list \<Rightarrow> TcpAgentManager \<Rightarrow> TcpAgentManager res" where
  "tm_runKeepalive now flushed [] m = Ok m"
| "tm_runKeepalive now flushed (k # keys) m = (case map_of (tm_agents m) k of
     None \<Rightarrow> tm_runKeepalive now flushed keys m
   | Some ws \<Rightarrow> (case keepalive_workers now flushed (tm_keepaliveInterval m) (tm_maxConnsPerAgent m) ws [] of
        Ok q \<Rightarrow> tm_runKeepalive now flushed keys
          (m\<lparr>tm_agents := (if q = [] then AList.delete k (tm_agents m) else AList.update k q (tm_agents m))\<rparr>)
      | Err e \<Rightarrow> Err e
      | Panic p \<Rightarrow> Panic p))"

subsection \<open>The calls\<close>

text \<open>
  The loop of both calls: the packs of the answer, in the order they come, and how it ended, with \<^const>\<open>Ok\<close> at a flag
  that is not \<^const>\<open>FLAG_HAS_NEXT\<close>.
\<close>

function read_answers :: "AgentWorker \<Rightarrow> pack list \<times> unit res \<times> AgentWorker" where
  "read_answers w = (case wk_ReadByte w of
     (Ok flag, w1) \<Rightarrow>
       if flag \<noteq> FLAG_HAS_NEXT then ([], Ok (), w1)
       else (case wk_ReadPack w1 of
           (Ok p, w2) \<Rightarrow> (let (ps, r, w3) = read_answers w2 in (p # ps, r, w3))
         | (Err e, w2) \<Rightarrow> ([], Err e, w2)
         | (Panic q, w2) \<Rightarrow> ([], Panic q, w2))
   | (Err e, w1) \<Rightarrow> ([], Err e, w1)
   | (Panic q, w1) \<Rightarrow> ([], Panic q, w1))"
  by pat_completeness auto
termination
proof (relation "measure wk_left", simp)
  fix w r w1 b r2 w2 p
  assume "(r, w1) = wk_ReadByte w" "r = Ok b" "(r2, w2) = wk_ReadPack w1" "r2 = Ok p"
  then show "(w2, w) \<in> measure wk_left"
    using wk_ReadByte_left [of w b w1] wk_ReadPack_left [of w1] by (cases "wk_ReadPack w1") auto
qed

text \<open>The worker goes back to the pool however the call ends; a parameter that is nil is an empty pack.\<close>

definition ac_exchange ::
    "int \<Rightarrow> bool \<Rightarrow> string \<Rightarrow> MapPack option \<Rightarrow> AgentWorker \<Rightarrow> pack list \<times> unit res \<times> AgentWorker" where
  "ac_exchange now flushed cmd param w =
     (case wk_Write now flushed cmd (MapPack (case param of None \<Rightarrow> \<lparr>map_Table = []\<rparr> | Some m \<Rightarrow> m)) w of
        (Ok _, w) \<Rightarrow> read_answers w
      | (r, w) \<Rightarrow> ([], r, w))"

definition ac_Call ::
    "int \<Rightarrow> bool \<Rightarrow> agentQueue \<Rightarrow> i32 \<Rightarrow> string \<Rightarrow> MapPack option \<Rightarrow> TcpAgentManager \<Rightarrow> MapPack option res \<times> TcpAgentManager" where
  "ac_Call now flushed arrived objHash cmd param m = (case tm_Get arrived objHash m of
     (None, m) \<Rightarrow> (Ok None, m)
   | (Some w, m) \<Rightarrow>
       let (ps, r, w) = ac_exchange now flushed cmd param w in
       (case r of
           Ok _ \<Rightarrow> Ok (if ps = [] then None else case last ps of MapPack mp \<Rightarrow> Some mp | _ \<Rightarrow> None)
         | Err e \<Rightarrow> Ok None
         | Panic q \<Rightarrow> Panic q,
        tm_Add objHash w m))"

definition ac_CallStream ::
    "int \<Rightarrow> bool \<Rightarrow> agentQueue \<Rightarrow> i32 \<Rightarrow> string \<Rightarrow> MapPack option \<Rightarrow> (pack \<Rightarrow> 's \<Rightarrow> 's) \<Rightarrow> 's \<Rightarrow> TcpAgentManager
      \<Rightarrow> unit res \<times> 's \<times> TcpAgentManager" where
  "ac_CallStream now flushed arrived objHash cmd param handle s m = (case tm_Get arrived objHash m of
     (None, m) \<Rightarrow> (Ok (), s, m)
   | (Some w, m) \<Rightarrow>
       let (ps, r, w) = ac_exchange now flushed cmd param w in
       (case r of Panic q \<Rightarrow> Panic q | _ \<Rightarrow> Ok (), fold handle ps s, tm_Add objHash w m))"

subsection \<open>Calls are answered in sync\<close>

text \<open>What an agent writes: in the second protocol every pack is behind its length.\<close>

definition put_response :: "i32 \<Rightarrow> pack \<Rightarrow> dout \<Rightarrow> dout" where
  "put_response protocolType p =
     (if protocolType = TCP_AGENT_V2
      then writes [WriteByte FLAG_HAS_NEXT, WriteIntBytes (ToByteArray (WritePack p NewDataOutputX))]
      else writes [WriteByte FLAG_HAS_NEXT, WritePack p])"

definition put_responses :: "i32 \<Rightarrow> pack list \<Rightarrow> dout \<Rightarrow> dout" where
  "put_responses protocolType ps dout = WriteByte FLAG_NO_NEXT (fold (put_response protocolType) ps dout)"

definition ok_response :: "i32 \<Rightarrow> pack \<Rightarrow> bool" where
  "ok_response protocolType p \<longleftrightarrow> ok_pack p \<and>
     (protocolType = TCP_AGENT_V2 \<longrightarrow> ok_blob (ToByteArray (WritePack p NewDataOutputX)))"

definition open_worker :: "AgentWorker \<Rightarrow> bool" where
  "open_worker w \<longleftrightarrow> \<not> wk_closed w \<and> (wk_protocolType w = TCP_AGENT \<or> wk_protocolType w = TCP_AGENT_V2)"

lemma protocols_differ [simp]: "TCP_AGENT \<noteq> TCP_AGENT_V2" "TCP_AGENT_V2 \<noteq> TCP_AGENT"
  by (simp_all add: TCP_AGENT_def TCP_AGENT_V2_def)

lemma consumes_Byte: "consumes ReadByte [b] b"
  using fixed_reader_consumes [OF fixed_reader_ReadByte, of "[b]"] by simp

lemma wk_ReadByte_next:
  assumes "\<not> wk_closed w" and "pending (wk_din w) = b # rest"
  shows "wk_ReadByte w = (Ok b, w\<lparr>wk_din := advance 1 (wk_din w)\<rparr>)"
  using assms consumesD [OF consumes_Byte, of "wk_din w" b rest] by (simp add: wk_ReadByte_def)

definition pack_frame :: "i32 \<Rightarrow> pack \<Rightarrow> bytes" where
  "pack_frame protocolType p =
     (if protocolType = TCP_AGENT_V2 then ToByteArray (WriteIntBytes (ToByteArray (WritePack p NewDataOutputX)) NewDataOutputX)
      else ToByteArray (WritePack p NewDataOutputX))"

lemma emits_response:
  assumes "ok_response protocolType p"
  shows "emits (put_response protocolType p) (FLAG_HAS_NEXT # pack_frame protocolType p)"
proof (cases "protocolType = TCP_AGENT_V2")
  case True
  then obtain bs where "emits (WriteIntBytes (ToByteArray (WritePack p NewDataOutputX))) bs"
    using wire_IntBytes assms by (auto simp: ok_response_def elim: wireE)
  with emits_seq [OF emits_WriteByte this] True show ?thesis
    by (simp add: put_response_def pack_frame_def emits_ToByteArray)
next
  case False
  obtain bs where "emits (WritePack p) bs" using wire_pack assms by (auto simp: ok_response_def elim: wireE)
  with emits_seq [OF emits_WriteByte this] False show ?thesis
    by (simp add: put_response_def pack_frame_def emits_ToByteArray)
qed

lemma response_read:
  assumes "ok_response (wk_protocolType w) p" and "open_worker w"
    and "pending (wk_din w) = pack_frame (wk_protocolType w) p @ rest"
  shows "wk_ReadPack w = (Ok (norm_pack p), w\<lparr>wk_din := advance (length (pack_frame (wk_protocolType w) p)) (wk_din w)\<rparr>)"
proof (cases "wk_protocolType w = TCP_AGENT_V2")
  case True
  then obtain bs where bs: "emits (WriteIntBytes (ToByteArray (WritePack p NewDataOutputX))) bs"
    "consumes ReadIntBytes bs (ToByteArray (WritePack p NewDataOutputX))"
    using wire_IntBytes assms(1) by (auto simp: ok_response_def elim: wireE)
  have "fst (ReadPack (NewDataInputX (ToByteArray (WritePack p NewDataOutputX)))) = Ok (norm_pack p)"
    using assms(1) by (intro pc.round_trip) (simp add: ok_response_def)
  with bs True show ?thesis
    using assms(2,3) consumesD [OF bs(2), of "wk_din w" rest]
    by (simp add: wk_ReadPack_def open_worker_def pack_frame_def emits_ToByteArray)
next
  case False
  obtain bs where bs: "emits (WritePack p) bs" "consumes ReadPack bs (norm_pack p)"
    using wire_pack assms(1) by (auto simp: ok_response_def elim: wireE)
  with False show ?thesis
    using assms(2,3) consumesD [OF bs(2), of "wk_din w" rest]
    by (simp add: wk_ReadPack_def open_worker_def pack_frame_def emits_ToByteArray)
qed

text \<open>The reader of an answer gets the packs in their order and stops right behind the answer.\<close>

definition answer_bytes :: "i32 \<Rightarrow> pack list \<Rightarrow> bytes" where
  "answer_bytes protocolType ps = concat (map (\<lambda>p. FLAG_HAS_NEXT # pack_frame protocolType p) ps) @ [FLAG_NO_NEXT]"

lemma emits_responses:
  assumes "\<forall>p \<in> set ps. ok_response protocolType p"
  shows "emits (put_responses protocolType ps) (answer_bytes protocolType ps)"
proof -
  have "emits (fold (put_response protocolType) ps) (concat (map (\<lambda>p. FLAG_HAS_NEXT # pack_frame protocolType p) ps))"
    using assms by (intro emits_fold emits_response) simp
  from emits_seq [OF this emits_WriteByte] show ?thesis
    by (simp add: put_responses_def [abs_def] answer_bytes_def fcomp_def)
qed

lemma read_answers_all:
  assumes "\<forall>p \<in> set ps. ok_response (wk_protocolType w) p" and "open_worker w"
    and "pending (wk_din w) = answer_bytes (wk_protocolType w) ps @ rest"
  shows "read_answers w =
    (map norm_pack ps, Ok (), w\<lparr>wk_din := advance (length (answer_bytes (wk_protocolType w) ps)) (wk_din w)\<rparr>)"
  using assms
proof (induction ps arbitrary: w)
  case Nil
  then show ?case using wk_ReadByte_next [of w FLAG_NO_NEXT rest]
    by (simp add: read_answers.simps [of w] open_worker_def answer_bytes_def FLAG_NO_NEXT_def FLAG_HAS_NEXT_def)
next
  case (Cons p ps)
  let ?pt = "wk_protocolType w"
  define w2 where "w2 n = w\<lparr>wk_din := advance n (wk_din w)\<rparr>" for n
  have w2: "wk_protocolType (w2 n) = ?pt" "open_worker (w2 n)" "wk_din (w2 n) = advance n (wk_din w)" for n
    using Cons.prems(2) by (simp_all add: w2_def open_worker_def)
  let ?n = "Suc (length (pack_frame ?pt p))"
  have p: "pending (wk_din w) = FLAG_HAS_NEXT # pack_frame ?pt p @ answer_bytes ?pt ps @ rest"
    using Cons.prems(3) by (simp add: answer_bytes_def)
  have "wk_ReadByte w = (Ok FLAG_HAS_NEXT, w2 1)"
    using wk_ReadByte_next [OF _ p] Cons.prems(2) by (simp add: open_worker_def w2_def)
  moreover have "wk_ReadPack (w2 1) = (Ok (norm_pack p), w2 ?n)"
    using response_read [of "w2 1" p "answer_bytes ?pt ps @ rest"] Cons.prems(1) p w2 by (simp add: w2_def)
  moreover have "read_answers (w2 ?n) = (map norm_pack ps, Ok (), w2 (?n + length (answer_bytes ?pt ps)))"
    using Cons.IH [of "w2 ?n"] Cons.prems(1) p w2 by (simp add: w2_def)
  ultimately show ?case by (simp add: read_answers.simps [of w] w2_def answer_bytes_def)
qed

lemma wk_Write_ok:
  assumes "open_worker w" and "wk_Write now True cmd p w = (r, w')"
  shows "r = Ok ()" "wk_din w' = wk_din w" "wk_protocolType w' = wk_protocolType w" "open_worker w'"
  using assms by (auto simp: wk_Write_def open_worker_def Let_def)

lemma exchange_in_sync:
  assumes "\<forall>p \<in> set ps. ok_response (wk_protocolType w) p" and "open_worker w"
    and "pending (wk_din w) = ToByteArray (put_responses (wk_protocolType w) ps NewDataOutputX) @ rest"
  shows "\<exists>w'. ac_exchange now True cmd param w = (map norm_pack ps, Ok (), w') \<and> open_worker w' \<and> pending (wk_din w') = rest"
proof -
  obtain r w1 where w1: "wk_Write now True cmd (MapPack (case param of None \<Rightarrow> \<lparr>map_Table = []\<rparr> | Some m \<Rightarrow> m)) w = (r, w1)"
    by fastforce
  note ok = wk_Write_ok [OF assms(2) w1]
  have "pending (wk_din w1) = answer_bytes (wk_protocolType w1) ps @ rest"
    using assms(1,3) emits_ToByteArray [OF emits_responses, of ps "wk_protocolType w"] ok by simp
  with read_answers_all [of ps w1 rest] show ?thesis
    using w1 ok assms(1) by (auto simp: ac_exchange_def open_worker_def)
qed

text \<open>
  The whole call: the oldest connection of the agent is asked, the caller gets the last pack of the answer if it is a
  \<open>MapPack\<close>, and the connection is the newest of the pool again, with nothing of the answer left in it.
\<close>

lemma Call_in_sync:
  assumes "map_of (tm_agents m) objHash = Some (w # ws)" and "int (length ws) < tm_maxConnsPerAgent m"
    and "\<forall>p \<in> set ps. ok_response (wk_protocolType w) p" and "open_worker w"
    and "pending (wk_din w) = ToByteArray (put_responses (wk_protocolType w) ps NewDataOutputX) @ rest"
  shows "\<exists>w'. ac_Call now True arrived objHash cmd param m =
      (Ok (if ps = [] then None else case norm_pack (last ps) of MapPack mp \<Rightarrow> Some mp | _ \<Rightarrow> None),
       m\<lparr>tm_agents := AList.update objHash (ws @ [w']) (tm_agents m)\<rparr>) \<and> open_worker w' \<and> pending (wk_din w') = rest"
proof -
  obtain w' where "ac_exchange now True cmd param w = (map norm_pack ps, Ok (), w')" "open_worker w'" "pending (wk_din w') = rest"
    using exchange_in_sync [OF assms(3-5)] by blast
  with assms(1,2) show ?thesis
    by (auto simp: ac_Call_def tm_Get_def q_get_def tm_Add_def q_put_def update_conv' last_map)
qed

lemma CallStream_in_sync:
  assumes "map_of (tm_agents m) objHash = Some (w # ws)" and "int (length ws) < tm_maxConnsPerAgent m"
    and "\<forall>p \<in> set ps. ok_response (wk_protocolType w) p" and "open_worker w"
    and "pending (wk_din w) = ToByteArray (put_responses (wk_protocolType w) ps NewDataOutputX) @ rest"
  shows "\<exists>w'. ac_CallStream now True arrived objHash cmd param handle s m =
      (Ok (), fold handle (map norm_pack ps) s, m\<lparr>tm_agents := AList.update objHash (ws @ [w']) (tm_agents m)\<rparr>) \<and>
      open_worker w' \<and> pending (wk_din w') = rest"
proof -
  obtain w' where "ac_exchange now True cmd param w = (map norm_pack ps, Ok (), w')" "open_worker w'" "pending (wk_din w') = rest"
    using exchange_in_sync [OF assms(3-5)] by blast
  with assms(1,2) show ?thesis
    by (auto simp: ac_CallStream_def tm_Get_def q_get_def tm_Add_def q_put_def update_conv')
qed

subsection \<open>The bounds of the pool\<close>

definition tm_ok :: "TcpAgentManager \<Rightarrow> bool" where
  "tm_ok m \<longleftrightarrow> 0 < tm_maxConnsPerAgent m \<and> distinct (map fst (tm_agents m)) \<and> length (tm_agents m) \<le> defaultMaxAgents \<and>
    (\<forall>(k, q) \<in> set (tm_agents m). int (length q) \<le> tm_maxConnsPerAgent m)"

lemma NewAgentManager_ok: "tm_ok (NewAgentManagerWithConfig cfg)"
  by (simp add: tm_ok_def NewAgentManagerWithConfig_def)

lemma put_bounded: "int (length q) \<le> n \<Longrightarrow> int (length (q_put w n q)) \<le> n"
  by (auto simp: q_put_def)

lemma update_bounded:
  assumes "\<forall>(k, q) \<in> set al. P q" and "P q"
  shows "\<forall>(k, q) \<in> set (AList.update k q al). P q"
  using assms by (induction al) auto

lemma length_AList_update: "length (AList.update k v al) = (if k \<in> fst ` set al then length al else Suc (length al))"
  by (induction al) auto

lemma map_of_bounded: "\<forall>(k, q) \<in> set al. P q \<Longrightarrow> map_of al k = Some q \<Longrightarrow> P q"
  by (auto dest!: map_of_SomeD)

lemma set_queue_ok:
  assumes "tm_ok m" and "map_of (tm_agents m) k \<noteq> None" and "int (length q) \<le> tm_maxConnsPerAgent m"
  shows "tm_ok (m\<lparr>tm_agents := AList.update k q (tm_agents m)\<rparr>)"
proof -
  have "k \<in> fst ` set (tm_agents m)" using assms(2) by (metis map_of_eq_None_iff)
  then show ?thesis
    using assms(1,3) update_bounded [of "tm_agents m" "\<lambda>q. int (length q) \<le> tm_maxConnsPerAgent m" q k]
    by (auto simp: tm_ok_def length_AList_update distinct_update)
qed

lemma Add_ok:
  assumes "tm_ok m"
  shows "tm_ok (tm_Add k w m)"
proof (cases "map_of (tm_agents m) k")
  case None
  then have "k \<notin> fst ` set (tm_agents m)" by (simp add: map_of_eq_None_iff)
  moreover have "int (length (q_put w (tm_maxConnsPerAgent m) [])) \<le> tm_maxConnsPerAgent m"
    using assms by (intro put_bounded) (simp add: tm_ok_def)
  ultimately show ?thesis
    using assms None update_bounded [of "tm_agents m" "\<lambda>q. int (length q) \<le> tm_maxConnsPerAgent m" _ k]
    by (auto simp: tm_Add_def tm_ok_def length_AList_update distinct_update)
next
  case (Some q)
  then have "int (length q) \<le> tm_maxConnsPerAgent m"
    using assms map_of_bounded [of "tm_agents m" "\<lambda>q. int (length q) \<le> tm_maxConnsPerAgent m"] by (simp add: tm_ok_def)
  with Some assms show ?thesis by (simp add: tm_Add_def set_queue_ok put_bounded)
qed

lemma Get_ok:
  assumes "tm_ok m" and "int (length arrived) \<le> tm_maxConnsPerAgent m"
  shows "tm_ok (snd (tm_Get arrived k m))"
proof (cases "map_of (tm_agents m) k")
  case (Some q)
  then have "int (length q) \<le> tm_maxConnsPerAgent m"
    using assms map_of_bounded [of "tm_agents m" "\<lambda>q. int (length q) \<le> tm_maxConnsPerAgent m"] by (simp add: tm_ok_def)
  then have "int (length (snd (q_get (tm_getConnWait m) arrived q))) \<le> tm_maxConnsPerAgent m"
    using assms by (auto simp: q_get_def tm_ok_def split: list.split)
  then show ?thesis using Some assms by (simp add: tm_Get_def case_prod_unfold Let_def set_queue_ok)
qed (simp add: tm_Get_def assms)

lemma keepalive_bounded:
  assumes "keepalive_workers now flushed interval n ws q = Ok q'" and "int (length q) \<le> n" and "\<forall>w \<in> set q. \<not> wk_closed w"
  shows "int (length q') \<le> n \<and> (\<forall>w \<in> set q'. \<not> wk_closed w)"
  using assms
proof (induction ws arbitrary: q)
  case (Cons w ws)
  show ?case
  proof (cases "wk_closed w")
    case True
    then show ?thesis using Cons.IH [OF _ Cons.prems(2,3)] Cons.prems(1) by simp
  next
    case False
    obtain r w' where k: "(if wk_IsExpired now interval w then wk_SendKeepAlive now (flushed w) w else (Ok (), w)) = (r, w')"
      by fastforce
    have "keepalive_workers now flushed interval n ws (if wk_closed w' then q else q_put w' n q) = Ok q'"
      using Cons.prems(1) False unfolding keepalive_workers.simps k by (cases r) simp_all
    moreover have "int (length (if wk_closed w' then q else q_put w' n q)) \<le> n"
      using Cons.prems(2) put_bounded by simp
    moreover have "\<forall>w \<in> set (if wk_closed w' then q else q_put w' n q). \<not> wk_closed w"
      using Cons.prems(3) by (simp add: q_put_def)
    ultimately show ?thesis by (rule Cons.IH)
  qed
qed simp

lemma delete_subset: "set (AList.delete k al) \<subseteq> set al"
  by (auto simp: AList.delete_eq)

text \<open>A round of the daemon leaves only connections that are open, and no empty queue, of the agents it came to.\<close>

lemma runKeepalive_ok:
  assumes "tm_runKeepalive now flushed keys m = Ok m'" and "tm_ok m" and "distinct keys"
  shows "tm_ok m' \<and> (\<forall>k \<in> set keys. \<forall>q. map_of (tm_agents m') k = Some q \<longrightarrow> q \<noteq> [] \<and> (\<forall>w \<in> set q. \<not> wk_closed w)) \<and>
    (\<forall>k. k \<notin> set keys \<longrightarrow> map_of (tm_agents m') k = map_of (tm_agents m) k)"
  using assms
proof (induction keys arbitrary: m)
  case (Cons k keys)
  show ?case
  proof (cases "map_of (tm_agents m) k")
    case None
    then show ?thesis using Cons by fastforce
  next
    case (Some ws)
    then obtain q where q: "keepalive_workers now flushed (tm_keepaliveInterval m) (tm_maxConnsPerAgent m) ws [] = Ok q"
      using Cons.prems(1) by (auto split: res.splits)
    let ?m = "m\<lparr>tm_agents := (if q = [] then AList.delete k (tm_agents m) else AList.update k q (tm_agents m))\<rparr>"
    have b: "int (length q) \<le> tm_maxConnsPerAgent m \<and> (\<forall>w \<in> set q. \<not> wk_closed w)"
      using keepalive_bounded [OF q] Cons.prems(2) by (simp add: tm_ok_def)
    have "tm_ok (m\<lparr>tm_agents := AList.delete k (tm_agents m)\<rparr>)"
      using Cons.prems(2) length_delete_le [of k "tm_agents m"] delete_subset [of k "tm_agents m"]
      by (auto simp: tm_ok_def distinct_delete)
    moreover have "tm_ok (m\<lparr>tm_agents := AList.update k q (tm_agents m)\<rparr>)"
      using Cons.prems(2) Some b by (simp add: set_queue_ok)
    ultimately have ok: "tm_ok ?m" by simp
    have m: "tm_runKeepalive now flushed keys ?m = Ok m'" using Cons.prems(1) Some q by simp
    have "distinct keys" "k \<notin> set keys" using Cons.prems(3) by simp_all
    with Cons.IH [OF m ok] have ih: "tm_ok m'" "\<forall>k \<in> set keys. \<forall>q. map_of (tm_agents m') k = Some q \<longrightarrow> q \<noteq> [] \<and> (\<forall>w \<in> set q. \<not> wk_closed w)"
      "\<forall>k. k \<notin> set keys \<longrightarrow> map_of (tm_agents m') k = map_of (tm_agents ?m) k"
      by blast+
    have at: "map_of (tm_agents ?m) k' = (if k' = k then (if q = [] then None else Some q) else map_of (tm_agents m) k')" for k'
      by (simp add: update_conv' delete_conv')
    from ih(3) \<open>k \<notin> set keys\<close> have k: "map_of (tm_agents m') k = (if q = [] then None else Some q)" by (simp only: at if_True) simp
    have "\<forall>k'. k' \<notin> set (k # keys) \<longrightarrow> map_of (tm_agents m') k' = map_of (tm_agents m) k'"
      using ih(3) unfolding at by simp
    moreover have "\<forall>k' \<in> set (k # keys). \<forall>q. map_of (tm_agents m') k' = Some q \<longrightarrow> q \<noteq> [] \<and> (\<forall>w \<in> set q. \<not> wk_closed w)"
      using ih(2) k b by (simp split: if_splits)
    ultimately show ?thesis using ih(1) by blast
  qed
qed simp

text \<open>The pools that come from a new one by the operations.\<close>

inductive pool :: "AgentManagerConfig \<Rightarrow> TcpAgentManager \<Rightarrow> bool" for cfg where
  pool_new: "pool cfg (NewAgentManagerWithConfig cfg)"
| pool_add: "pool cfg m \<Longrightarrow> pool cfg (tm_Add k w m)"
| pool_get: "pool cfg m \<Longrightarrow> int (length arrived) \<le> tm_maxConnsPerAgent m \<Longrightarrow> pool cfg (snd (tm_Get arrived k m))"
| pool_keepalive: "pool cfg m \<Longrightarrow> distinct keys \<Longrightarrow> tm_runKeepalive now flushed keys m = Ok m' \<Longrightarrow> pool cfg m'"
| pool_close: "pool cfg m \<Longrightarrow> pool cfg (tm_Close m)"

lemma runKeepalive_max: "tm_runKeepalive now flushed keys m = Ok m' \<Longrightarrow> tm_maxConnsPerAgent m' = tm_maxConnsPerAgent m"
  by (induction keys arbitrary: m) (auto split: option.splits res.splits)

lemma pool_ok:
  assumes "pool cfg m"
  shows "tm_ok m \<and> tm_maxConnsPerAgent m = (if MaxConnsPerAgent cfg \<le> 0 then 50 else MaxConnsPerAgent cfg)"
  using assms
proof induction
  case (pool_new)
  then show ?case using NewAgentManager_ok by (simp add: NewAgentManagerWithConfig_def)
next
  case (pool_add m k w)
  then show ?case using Add_ok by (simp add: tm_Add_def split: option.split)
next
  case (pool_get m arrived k)
  moreover have "tm_maxConnsPerAgent (snd (tm_Get arrived k m)) = tm_maxConnsPerAgent m"
    by (simp add: tm_Get_def case_prod_unfold Let_def split: option.split)
  ultimately show ?case using Get_ok by simp
next
  case (pool_keepalive m keys now flushed m')
  then show ?case using runKeepalive_ok runKeepalive_max by metis
next
  case (pool_close m)
  then show ?case by (simp add: tm_Close_def tm_ok_def)
qed

text \<open>
  A negative length from an agent makes \<open>ReadIntBytes\<close> panic. In a call the handler's connection recovers, but the
  keepalive daemon does not: one such answer to a keepalive ends the server.
\<close>

lemma drain_panics:
  assumes "\<not> wk_closed w" and "wk_protocolType w = TCP_AGENT_V2" and stream: "in_reader (wk_din w) \<noteq> None"
    and p: "pending (wk_din w) = FLAG_HAS_NEXT # PutUint32 n @ rest" and "sint n < 0"
  shows "fst (wk_drain w) = Panic MakeSliceLen"
proof -
  let ?w = "w\<lparr>wk_din := advance 1 (wk_din w)\<rparr>"
  obtain bs where "emits (WriteInt32 n) bs" "consumes ReadInt32 bs n" using wire_Int32 [of n] by (blast elim: wireE)
  then have c: "consumes ReadInt32 (PutUint32 n) n" using emits_unique [OF emits_WriteInt32] by simp
  have "wk_ReadByte w = (Ok FLAG_HAS_NEXT, ?w)" using assms by (intro wk_ReadByte_next)
  moreover have "fst (Read (sint n) (advance m d)) = Panic MakeSliceLen" if "in_reader d \<noteq> None" for d m
    using that assms(5) by (auto simp: Read_def advance_def)
  then have "fst (ReadIntBytes (wk_din ?w)) = Panic MakeSliceLen"
    using consumesD [OF c, of "wk_din ?w" rest] p stream by (auto simp: ReadIntBytes_def rd_bind_def split: prod.split)
  ultimately show ?thesis using assms(2)
    by (cases "ReadIntBytes (wk_din ?w)") (simp add: wk_drain.simps [of w] wk_skip_response_def)
qed

lemma keepalive_panic:
  assumes "map_of (tm_agents m) k = Some (w # ws)" and "\<not> wk_closed w" and "wk_IsExpired now (tm_keepaliveInterval m) w"
    and "wk_protocolType w = TCP_AGENT_V2" and "in_reader (wk_din w) \<noteq> None"
    and "pending (wk_din w) = FLAG_HAS_NEXT # PutUint32 n @ rest" and "sint n < 0" and "flushed w"
  shows "tm_runKeepalive now flushed (k # keys) m = Panic MakeSliceLen"
proof -
  obtain w' where w': "wk_Write now True ''KEEP_ALIVE'' (MapPack \<lparr>map_Table = []\<rparr>) w = (Ok (), w')"
    "wk_din w' = wk_din w" "\<not> wk_closed w'" "wk_protocolType w' = TCP_AGENT_V2"
    using assms(2,4) by (simp add: wk_Write_def Let_def)
  have "fst (wk_drain w') = Panic MakeSliceLen"
    using assms(5-7) w' by (intro drain_panics) simp_all
  then show ?thesis using assms(1-3,8) w'(1) by (cases "wk_drain w'") (simp add: wk_SendKeepAlive_def)
qed

subsection \<open>A client that reads its answers\<close>

text \<open>A client reads an answer as a call of the server to an agent does.\<close>

fun read_all :: "nat \<Rightarrow> AgentWorker \<Rightarrow> pack list list" where
  "read_all 0 w = []"
| "read_all (Suc n) w = (let (ps, r, w) = read_answers w in ps # read_all n w)"

lemma put_answer_responses: "put_answer ps = put_responses TCP_AGENT ps"
proof -
  have r: "reply_pack = put_response TCP_AGENT" by (rule ext)+ (simp add: put_response_def reply_pack_def)
  show ?thesis by (rule ext) (simp add: put_responses_def r)
qed

lemma read_all_answers:
  assumes "\<forall>ps \<in> set pss. \<forall>p \<in> set ps. ok_pack p" and "open_worker w" and "wk_protocolType w = TCP_AGENT"
    and "pending (wk_din w) = concat (map (answer_bytes TCP_AGENT) pss)"
  shows "read_all (length pss) w = map (map norm_pack) pss"
  using assms
proof (induction pss arbitrary: w)
  case (Cons ps pss)
  let ?w = "w\<lparr>wk_din := advance (length (answer_bytes TCP_AGENT ps)) (wk_din w)\<rparr>"
  have "read_answers w = (map norm_pack ps, Ok (), ?w)"
    using read_answers_all [of ps w "concat (map (answer_bytes TCP_AGENT) pss)"] Cons.prems by (simp add: ok_response_def)
  moreover have "read_all (length pss) ?w = map (map norm_pack) pss"
    using Cons.IH [of ?w] Cons.prems by (simp add: open_worker_def)
  ultimately show ?case by simp
qed simp

lemma emits_answers:
  assumes "\<forall>ps \<in> set pss. \<forall>p \<in> set ps. ok_pack p"
  shows "emits (fold put_answer pss) (concat (map (answer_bytes TCP_AGENT) pss))"
  using assms by (intro emits_fold) (simp add: put_answer_responses [abs_def] emits_responses ok_response_def del: put_answer.simps)

lemma client_reads:
  assumes "\<forall>ps \<in> set pss. \<forall>p \<in> set ps. ok_pack p"
  shows "read_all (length pss) (NewAgentWorker now (out_bytes (fold put_answer pss NewDataOutputXStream)) TCP_AGENT objHash) =
    map (map norm_pack) pss"
proof (rule read_all_answers [OF assms])
  have "out_bytes (fold put_answer pss NewDataOutputXStream) = concat (map (answer_bytes TCP_AGENT) pss)"
    using emits_out_bytes [OF emits_answers [OF assms]] by (simp add: out_bytes_def NewDataOutputXStream_def)
  then show "pending (wk_din (NewAgentWorker now (out_bytes (fold put_answer pss NewDataOutputXStream)) TCP_AGENT objHash)) =
      concat (map (answer_bytes TCP_AGENT) pss)"
    by (simp add: NewAgentWorker_def)
qed (simp_all add: NewAgentWorker_def open_worker_def)

end
