(* ===== verification/Accounts.thy ===== *)
theory Accounts
  imports Requests
begin

text \<open>
  Users and their sessions: internal/login (account.go, account\_xml.go, session.go) and the handlers
  handler\_login.go and handler\_account.go of internal/netio/service.

  \<open>marshal\<close> and \<open>unmarshal\<close> are encoding/xml on the elements of a file; a file is its contents and the time of its last
  change, \<^const>\<open>None\<close> before it exists. \<open>now\<close> is the time in milliseconds. The system calls succeed, but for reading
  a file that is not there.
\<close>

subsection \<open>Accounts as bytes\<close>

record Account =
  acct_ID :: string
  acct_Password :: string
  acct_Email :: string
  acct_Group :: string

definition writeField :: "string \<Rightarrow> bytes" where
  "writeField s = (let b = take 255 (bytes_of_string s) in word_of_nat (length b) # b)"

definition Account_ToBytes :: "Account \<Rightarrow> bytes" where
  "Account_ToBytes a = concat (map writeField [acct_ID a, acct_Password a, acct_Email a, acct_Group a])"

definition readField :: "bytes \<Rightarrow> string \<times> bytes" where
  "readField data = (case data of
     [] \<Rightarrow> ('''', [])
   | l # rest \<Rightarrow>
       if unat l > length rest then (string_of_bytes rest, [])
       else (string_of_bytes (take (unat l) rest), drop (unat l) rest))"

definition AccountFromBytes :: "bytes \<Rightarrow> Account" where
  "AccountFromBytes data = (let
     (i, data) = readField data; (p, data) = readField data; (e, data) = readField data; (g, data) = readField data
   in \<lparr>acct_ID = i, acct_Password = p, acct_Email = e, acct_Group = g\<rparr>)"

lemma readField_writeField: "readField (writeField s @ rest) = (take 255 s, rest)"
proof -
  define b where "b = take 255 (bytes_of_string s)"
  have "length b \<le> 255" by (simp add: b_def)
  then have "unat (word_of_nat (length b) :: byte) = length b" by (simp add: unat_of_nat)
  moreover have "string_of_bytes b = take 255 s"
    by (simp add: b_def bytes_of_string_def string_of_bytes_def take_map comp_def)
  ultimately show ?thesis by (simp add: readField_def writeField_def flip: b_def)
qed

text \<open>Every field comes back, cut at 255 bytes.\<close>

definition cut_account :: "Account \<Rightarrow> Account" where
  "cut_account a = \<lparr>acct_ID = take 255 (acct_ID a), acct_Password = take 255 (acct_Password a),
     acct_Email = take 255 (acct_Email a), acct_Group = take 255 (acct_Group a)\<rparr>"

lemma AccountFromBytes_ToBytes: "AccountFromBytes (Account_ToBytes a) = cut_account a"
  using readField_writeField [of "acct_Group a" "[]"]
  by (simp add: AccountFromBytes_def Account_ToBytes_def readField_writeField cut_account_def Let_def)

subsection \<open>The two files\<close>

record xmlAccount =
  xa_ID :: string
  xa_Pass :: string
  xa_Group :: string
  xa_Email :: string

record 'f xmlFile =
  xf_data :: 'f
  xf_ModTime :: int

definition xml_of_account :: "Account \<Rightarrow> xmlAccount" where
  "xml_of_account a = \<lparr>xa_ID = acct_ID a, xa_Pass = acct_Password a, xa_Group = acct_Group a, xa_Email = acct_Email a\<rparr>"

definition account_of_xml :: "xmlAccount \<Rightarrow> Account" where
  "account_of_xml a = \<lparr>acct_ID = xa_ID a, acct_Password = xa_Pass a, acct_Email = xa_Email a, acct_Group = xa_Group a\<rparr>"

definition accounts_of :: "xmlAccount list \<Rightarrow> string \<rightharpoonup> Account" where
  "accounts_of doc = fold (\<lambda>a m. m(xa_ID a \<mapsto> account_of_xml a)) doc (\<lambda>_. None)"

definition read_doc :: "('f \<Rightarrow> 'd option) \<Rightarrow> 'f xmlFile option \<Rightarrow> 'd option" where
  "read_doc unmarshal file = (case file of None \<Rightarrow> None | Some f \<Rightarrow> unmarshal (xf_data f))"

definition parseAccountFile :: "('f \<Rightarrow> xmlAccount list option) \<Rightarrow> 'f xmlFile option \<Rightarrow> (string \<rightharpoonup> Account) option" where
  "parseAccountFile unmarshal file = map_option accounts_of (read_doc unmarshal file)"

definition addAccountToFile ::
    "(xmlAccount list \<Rightarrow> 'f) \<Rightarrow> ('f \<Rightarrow> xmlAccount list option) \<Rightarrow> int \<Rightarrow> Account \<Rightarrow> 'f xmlFile option \<Rightarrow> 'f xmlFile option" where
  "addAccountToFile marshal unmarshal now acct file = (case read_doc unmarshal file of
     None \<Rightarrow> None
   | Some doc \<Rightarrow> Some \<lparr>xf_data = marshal (doc @ [xml_of_account acct]), xf_ModTime = now\<rparr>)"

fun edit_doc :: "Account \<Rightarrow> xmlAccount list \<Rightarrow> xmlAccount list" where
  "edit_doc acct [] = []"
| "edit_doc acct (a # doc) =
     (if xa_ID a = acct_ID acct
      then a\<lparr>xa_Pass := acct_Password acct, xa_Group := acct_Group acct, xa_Email := acct_Email acct\<rparr> # doc
      else a # edit_doc acct doc)"

definition editAccountInFile ::
    "(xmlAccount list \<Rightarrow> 'f) \<Rightarrow> ('f \<Rightarrow> xmlAccount list option) \<Rightarrow> int \<Rightarrow> Account \<Rightarrow> 'f xmlFile option \<Rightarrow> 'f xmlFile option" where
  "editAccountInFile marshal unmarshal now acct file = (case read_doc unmarshal file of
     None \<Rightarrow> None
   | Some doc \<Rightarrow> Some \<lparr>xf_data = marshal (edit_doc acct doc), xf_ModTime = now\<rparr>)"

record xmlPolicy =
  AllowEditGroupPolicy :: string
  AllowHeapDump :: string
  AllowFileDump :: string
  AllowHeapHistogram :: string
  AllowThreadDump :: string
  AllowSystemGC :: string
  AllowConfigure :: string
  AllowExportCounter :: string
  AllowExportAppSum :: string
  AllowLoginList :: string
  AllowDBManager :: string
  AllowAddAccount :: string
  AllowEditAccount :: string
  AllowSqlParameter :: string
  AllowKillTransaction :: string
  AllowExportClass :: string
  AllowRedefineClass :: string
  AllowDefineObjectType :: string

record xmlGroup =
  xg_Name :: string
  xg_Policy :: xmlPolicy

definition policyFieldNames :: "string list" where
  "policyFieldNames = [''AllowEditGroupPolicy'', ''AllowHeapDump'', ''AllowFileDump'', ''AllowHeapHistogram'',
     ''AllowThreadDump'', ''AllowSystemGC'', ''AllowConfigure'', ''AllowExportCounter'', ''AllowExportAppSum'',
     ''AllowLoginList'', ''AllowDBManager'', ''AllowAddAccount'', ''AllowEditAccount'', ''AllowSqlParameter'',
     ''AllowKillTransaction'', ''AllowExportClass'', ''AllowRedefineClass'', ''AllowDefineObjectType'']"

text \<open>A Go map of strings: what it has at a key that is not there is the empty string.\<close>

definition at :: "(string \<rightharpoonup> string) \<Rightarrow> string \<Rightarrow> string" where
  "at m k = (case m k of None \<Rightarrow> '''' | Some v \<Rightarrow> v)"

definition policyToMap :: "xmlPolicy \<Rightarrow> string \<rightharpoonup> string" where
  "policyToMap p = map_of [(''AllowEditGroupPolicy'', AllowEditGroupPolicy p), (''AllowHeapDump'', AllowHeapDump p),
     (''AllowFileDump'', AllowFileDump p), (''AllowHeapHistogram'', AllowHeapHistogram p),
     (''AllowThreadDump'', AllowThreadDump p), (''AllowSystemGC'', AllowSystemGC p),
     (''AllowConfigure'', AllowConfigure p), (''AllowExportCounter'', AllowExportCounter p),
     (''AllowExportAppSum'', AllowExportAppSum p), (''AllowLoginList'', AllowLoginList p),
     (''AllowDBManager'', AllowDBManager p), (''AllowAddAccount'', AllowAddAccount p),
     (''AllowEditAccount'', AllowEditAccount p), (''AllowSqlParameter'', AllowSqlParameter p),
     (''AllowKillTransaction'', AllowKillTransaction p), (''AllowExportClass'', AllowExportClass p),
     (''AllowRedefineClass'', AllowRedefineClass p), (''AllowDefineObjectType'', AllowDefineObjectType p)]"

definition mapToPolicy :: "(string \<rightharpoonup> string) \<Rightarrow> xmlPolicy" where
  "mapToPolicy m = \<lparr>AllowEditGroupPolicy = at m ''AllowEditGroupPolicy'', AllowHeapDump = at m ''AllowHeapDump'',
     AllowFileDump = at m ''AllowFileDump'', AllowHeapHistogram = at m ''AllowHeapHistogram'',
     AllowThreadDump = at m ''AllowThreadDump'', AllowSystemGC = at m ''AllowSystemGC'',
     AllowConfigure = at m ''AllowConfigure'', AllowExportCounter = at m ''AllowExportCounter'',
     AllowExportAppSum = at m ''AllowExportAppSum'', AllowLoginList = at m ''AllowLoginList'',
     AllowDBManager = at m ''AllowDBManager'', AllowAddAccount = at m ''AllowAddAccount'',
     AllowEditAccount = at m ''AllowEditAccount'', AllowSqlParameter = at m ''AllowSqlParameter'',
     AllowKillTransaction = at m ''AllowKillTransaction'', AllowExportClass = at m ''AllowExportClass'',
     AllowRedefineClass = at m ''AllowRedefineClass'', AllowDefineObjectType = at m ''AllowDefineObjectType''\<rparr>"

text \<open>\<open>strings.EqualFold(s, "true")\<close>: none of the four letters has a case variant outside ASCII.\<close>

definition ascii_lower :: "char \<Rightarrow> char" where
  "ascii_lower c = (if 65 \<le> (of_char c :: nat) \<and> (of_char c :: nat) \<le> 90 then char_of ((of_char c :: nat) + 32) else c)"

definition is_true :: "string \<Rightarrow> bool" where
  "is_true s \<longleftrightarrow> map ascii_lower s = ''true''"

definition policy_value :: "xmlPolicy \<Rightarrow> map_entries" where
  "policy_value p = (let pm = policyToMap p
     in fold (\<lambda>name mv. map_Put mv name (Some (BooleanValue (is_true (at pm name))))) policyFieldNames NewMapValue)"

type_synonym policy = "(string \<times> value option) slice"

definition groups_of :: "xmlGroup list \<Rightarrow> string \<rightharpoonup> policy" where
  "groups_of doc = fold (\<lambda>g m. m(xg_Name g \<mapsto> Some (policy_value (xg_Policy g)))) doc (\<lambda>_. None)"

definition parseGroupFile :: "('f \<Rightarrow> xmlGroup list option) \<Rightarrow> 'f xmlFile option \<Rightarrow> (string \<rightharpoonup> policy) option" where
  "parseGroupFile unmarshal file = map_option groups_of (read_doc unmarshal file)"

definition addGroupToFile ::
    "(xmlGroup list \<Rightarrow> 'f) \<Rightarrow> ('f \<Rightarrow> xmlGroup list option) \<Rightarrow> int \<Rightarrow> string \<Rightarrow> policy \<Rightarrow> 'f xmlFile option \<Rightarrow> 'f xmlFile option" where
  "addGroupToFile marshal unmarshal now name policy file = (case read_doc unmarshal file of
     None \<Rightarrow> None
   | Some doc \<Rightarrow>
       let pm = fold (\<lambda>fn pm. pm(fn \<mapsto> ''false'')) policyFieldNames (\<lambda>_. None);
           pm = fold (\<lambda>fn pm. case map_Get (elems policy) fn of
               Some (Some (BooleanValue True)) \<Rightarrow> pm(fn \<mapsto> ''true'')
             | _ \<Rightarrow> pm) policyFieldNames pm
       in Some \<lparr>xf_data = marshal (doc @ [\<lparr>xg_Name = name, xg_Policy = mapToPolicy pm\<rparr>]), xf_ModTime = now\<rparr>)"

definition edit_policy :: "policy \<Rightarrow> xmlPolicy \<Rightarrow> xmlPolicy" where
  "edit_policy policy p = mapToPolicy (fold (\<lambda>fn pm. case map_Get (elems policy) fn of
       Some (Some (BooleanValue b)) \<Rightarrow> pm(fn \<mapsto> if b then ''true'' else ''false'')
     | _ \<Rightarrow> pm) policyFieldNames (policyToMap p))"

fun edit_groups :: "string \<Rightarrow> policy \<Rightarrow> xmlGroup list \<Rightarrow> xmlGroup list" where
  "edit_groups name policy [] = []"
| "edit_groups name policy (g # doc) =
     (if xg_Name g = name then g\<lparr>xg_Policy := edit_policy policy (xg_Policy g)\<rparr> # doc
      else g # edit_groups name policy doc)"

definition editGroupPolicyInFile ::
    "(xmlGroup list \<Rightarrow> 'f) \<Rightarrow> ('f \<Rightarrow> xmlGroup list option) \<Rightarrow> int \<Rightarrow> string \<Rightarrow> policy \<Rightarrow> 'f xmlFile option \<Rightarrow> 'f xmlFile option" where
  "editGroupPolicyInFile marshal unmarshal now name policy file = (case read_doc unmarshal file of
     None \<Rightarrow> None
   | Some doc \<Rightarrow> Some \<lparr>xf_data = marshal (edit_groups name policy doc), xf_ModTime = now\<rparr>)"

subsection \<open>The account manager\<close>

record 'f Xml =
  x_accounts :: "xmlAccount list \<Rightarrow> 'f"
  x_parse_accounts :: "'f \<Rightarrow> xmlAccount list option"
  x_groups :: "xmlGroup list \<Rightarrow> 'f"
  x_parse_groups :: "'f \<Rightarrow> xmlGroup list option"

record 'f AccountManager =
  am_accountMap :: "string \<rightharpoonup> Account"
  am_groupPolicyMap :: "string \<rightharpoonup> policy"
  am_accountModTime :: int
  am_groupModTime :: int
  am_accountFile :: "'f xmlFile option"
  am_groupFile :: "'f xmlFile option"

definition am_loadAccounts :: "'f Xml \<Rightarrow> 'f AccountManager \<Rightarrow> 'f AccountManager" where
  "am_loadAccounts xml am = (case am_accountFile am of
     None \<Rightarrow> am
   | Some info \<Rightarrow> (case parseAccountFile (x_parse_accounts xml) (am_accountFile am) of
       None \<Rightarrow> am
     | Some accounts \<Rightarrow> am\<lparr>am_accountMap := accounts, am_accountModTime := xf_ModTime info\<rparr>))"

definition am_loadGroups :: "'f Xml \<Rightarrow> 'f AccountManager \<Rightarrow> 'f AccountManager" where
  "am_loadGroups xml am = (case am_groupFile am of
     None \<Rightarrow> am
   | Some info \<Rightarrow> (case parseGroupFile (x_parse_groups xml) (am_groupFile am) of
       None \<Rightarrow> am
     | Some groups \<Rightarrow> am\<lparr>am_groupPolicyMap := groups, am_groupModTime := xf_ModTime info\<rparr>))"

text \<open>\<open>defaultA\<close> and \<open>defaultG\<close> are the embedded files; the time of a manager that has not loaded a file is the zero time.\<close>

definition am_ensureDefaults :: "int \<Rightarrow> 'f \<Rightarrow> 'f \<Rightarrow> 'f AccountManager \<Rightarrow> 'f AccountManager" where
  "am_ensureDefaults now defaultA defaultG am = am\<lparr>
     am_accountFile := (case am_accountFile am of None \<Rightarrow> Some \<lparr>xf_data = defaultA, xf_ModTime = now\<rparr> | f \<Rightarrow> f),
     am_groupFile := (case am_groupFile am of None \<Rightarrow> Some \<lparr>xf_data = defaultG, xf_ModTime = now\<rparr> | f \<Rightarrow> f)\<rparr>"

definition NewAccountManager ::
    "'f Xml \<Rightarrow> int \<Rightarrow> int \<Rightarrow> 'f \<Rightarrow> 'f \<Rightarrow> 'f xmlFile option \<Rightarrow> 'f xmlFile option \<Rightarrow> 'f AccountManager" where
  "NewAccountManager xml zeroTime now defaultA defaultG accountFile groupFile =
     am_loadGroups xml (am_loadAccounts xml (am_ensureDefaults now defaultA defaultG
       \<lparr>am_accountMap = (\<lambda>_. None), am_groupPolicyMap = (\<lambda>_. None), am_accountModTime = zeroTime, am_groupModTime = zeroTime,
        am_accountFile = accountFile, am_groupFile = groupFile\<rparr>))"

definition am_checkReload :: "'f Xml \<Rightarrow> 'f AccountManager \<Rightarrow> 'f AccountManager" where
  "am_checkReload xml am =
     (let am = (case am_accountFile am of
            Some info \<Rightarrow> if am_accountModTime am < xf_ModTime info then am_loadAccounts xml am else am
          | None \<Rightarrow> am)
      in (case am_groupFile am of
            Some info \<Rightarrow> if am_groupModTime am < xf_ModTime info then am_loadGroups xml am else am
          | None \<Rightarrow> am))"

definition am_AuthorizeAccount :: "string \<Rightarrow> string \<Rightarrow> 'f AccountManager \<Rightarrow> bool" where
  "am_AuthorizeAccount uid pass am = (case am_accountMap am uid of None \<Rightarrow> False | Some acct \<Rightarrow> acct_Password acct = pass)"

definition am_AddAccount :: "'f Xml \<Rightarrow> int \<Rightarrow> Account \<Rightarrow> 'f AccountManager \<Rightarrow> bool \<times> 'f AccountManager" where
  "am_AddAccount xml now acct am = (case am_accountMap am (acct_ID acct) of
     Some _ \<Rightarrow> (False, am)
   | None \<Rightarrow>
       let am = am\<lparr>am_accountMap := (am_accountMap am)(acct_ID acct \<mapsto> acct)\<rparr> in
       (case addAccountToFile (x_accounts xml) (x_parse_accounts xml) now acct (am_accountFile am) of
          None \<Rightarrow> (False, am)
        | Some f \<Rightarrow> (True, am\<lparr>am_accountFile := Some f, am_accountModTime := xf_ModTime f\<rparr>)))"

definition am_EditAccount :: "'f Xml \<Rightarrow> int \<Rightarrow> Account \<Rightarrow> 'f AccountManager \<Rightarrow> bool \<times> 'f AccountManager" where
  "am_EditAccount xml now acct am = (case am_accountMap am (acct_ID acct) of
     None \<Rightarrow> (False, am)
   | Some existing \<Rightarrow>
       let acct = (if acct_Password acct = '''' then acct\<lparr>acct_Password := acct_Password existing\<rparr> else acct);
           am = am\<lparr>am_accountMap := (am_accountMap am)(acct_ID acct \<mapsto> acct)\<rparr> in
       (case editAccountInFile (x_accounts xml) (x_parse_accounts xml) now acct (am_accountFile am) of
          None \<Rightarrow> (False, am)
        | Some f \<Rightarrow> (True, am\<lparr>am_accountFile := Some f, am_accountModTime := xf_ModTime f\<rparr>)))"

definition am_AvailableID :: "string \<Rightarrow> 'f AccountManager \<Rightarrow> bool" where
  "am_AvailableID uid am \<longleftrightarrow> am_accountMap am uid = None"

definition am_GetAccount :: "string \<Rightarrow> 'f AccountManager \<Rightarrow> Account option" where
  "am_GetAccount uid am = am_accountMap am uid"

text \<open>The lists are in the order of the iteration, which goes over the keys \<open>keys\<close>.\<close>

definition am_GetAccountList :: "string list \<Rightarrow> 'f AccountManager \<Rightarrow> Account list" where
  "am_GetAccountList keys am = List.map_filter (am_accountMap am) keys"

definition am_GetGroupList :: "string list \<Rightarrow> 'f AccountManager \<Rightarrow> string list" where
  "am_GetGroupList keys am = filter (\<lambda>k. am_groupPolicyMap am k \<noteq> None) keys"

definition am_GetGroupPolicy :: "string \<Rightarrow> 'f AccountManager \<Rightarrow> policy option" where
  "am_GetGroupPolicy name am = am_groupPolicyMap am name"

definition am_AllGroupPolicies :: "'f AccountManager \<Rightarrow> string \<rightharpoonup> policy" where
  "am_AllGroupPolicies am = am_groupPolicyMap am"

definition am_AddAccountGroup :: "'f Xml \<Rightarrow> int \<Rightarrow> string \<Rightarrow> policy \<Rightarrow> 'f AccountManager \<Rightarrow> bool \<times> 'f AccountManager" where
  "am_AddAccountGroup xml now name policy am = (case am_groupPolicyMap am name of
     Some _ \<Rightarrow> (False, am)
   | None \<Rightarrow>
       let am = am\<lparr>am_groupPolicyMap := (am_groupPolicyMap am)(name \<mapsto> policy)\<rparr> in
       (case addGroupToFile (x_groups xml) (x_parse_groups xml) now name policy (am_groupFile am) of
          None \<Rightarrow> (False, am)
        | Some f \<Rightarrow> (True, am\<lparr>am_groupFile := Some f, am_groupModTime := xf_ModTime f\<rparr>)))"

definition am_EditGroupPolicy :: "'f Xml \<Rightarrow> int \<Rightarrow> string \<Rightarrow> policy \<Rightarrow> 'f AccountManager \<Rightarrow> bool \<times> 'f AccountManager" where
  "am_EditGroupPolicy xml now name policy am = (case am_groupPolicyMap am name of
     None \<Rightarrow> (False, am)
   | Some _ \<Rightarrow>
       let am = am\<lparr>am_groupPolicyMap := (am_groupPolicyMap am)(name \<mapsto> policy)\<rparr> in
       (case editGroupPolicyInFile (x_groups xml) (x_parse_groups xml) now name policy (am_groupFile am) of
          None \<Rightarrow> (False, am)
        | Some f \<Rightarrow> (True, am\<lparr>am_groupFile := Some f, am_groupModTime := xf_ModTime f\<rparr>)))"

subsection \<open>Sessions\<close>

record User =
  user_Session :: i64
  user_ID :: string
  user_IP :: string
  user_Hostname :: string
  user_Version :: string
  user_Group :: string
  user_LoginTime :: int

record 'f SessionManager =
  sm_sessions :: "i64 \<rightharpoonup> User"
  sm_accountManager :: "'f AccountManager option"

text \<open>\<open>b\<close> are the eight bytes that \<open>rand.Read\<close> filled in.\<close>

definition generateSession :: "bytes \<Rightarrow> i64" where
  "generateSession b = (let v = Uint64 b; v = (if sint v < 0 then - v else v) in if v = 0 then 1 else v)"

definition sm_Login :: "int \<Rightarrow> bytes \<Rightarrow> string \<Rightarrow> string \<Rightarrow> string \<Rightarrow> 'f SessionManager \<Rightarrow> i64 \<times> 'f SessionManager" where
  "sm_Login now b uid pass ip sm =
     (if (case sm_accountManager sm of None \<Rightarrow> False | Some am \<Rightarrow> \<not> am_AuthorizeAccount uid pass am) then (0, sm)
      else let group = (case sm_accountManager sm of
                 None \<Rightarrow> ''default''
               | Some am \<Rightarrow> (case am_GetAccount uid am of None \<Rightarrow> ''default'' | Some acct \<Rightarrow> acct_Group acct));
               session = generateSession b;
               user = \<lparr>user_Session = session, user_ID = uid, user_IP = ip, user_Hostname = '''', user_Version = '''',
                 user_Group = group, user_LoginTime = now\<rparr>
        in (session, sm\<lparr>sm_sessions := (sm_sessions sm)(session \<mapsto> user)\<rparr>))"

definition sm_OkSession :: "i64 \<Rightarrow> 'f SessionManager \<Rightarrow> bool" where
  "sm_OkSession session sm \<longleftrightarrow> sm_sessions sm session \<noteq> None"

definition sm_GetUser :: "i64 \<Rightarrow> 'f SessionManager \<Rightarrow> User option" where
  "sm_GetUser session sm = sm_sessions sm session"

definition sm_GetAllUsers :: "i64 list \<Rightarrow> 'f SessionManager \<Rightarrow> User list" where
  "sm_GetAllUsers keys sm = List.map_filter (sm_sessions sm) keys"

subsection \<open>The handlers\<close>

text \<open>
  The account manager of the handlers is the one of the sessions. \<open>lw_random\<close> are the next random bytes, \<open>lw_users\<close>,
  \<open>lw_groups\<close> and \<open>lw_logins\<close> the keys of the maps in the order in which an iteration takes them. \<open>LoginConfig\<close> is what the
  handler of a login takes from the configuration, the host and the time zone; an empty link is not configured.
\<close>

record 'f LoginWorld =
  lw_sm :: "'f SessionManager"
  lw_now :: int
  lw_random :: bytes
  lw_users :: "string list"
  lw_groups :: "string list"
  lw_logins :: "i64 list"

record LoginConfig =
  lc_serverID :: string
  lc_soTimeout :: i64
  lc_timezone :: string
  lc_tagcntEnabled :: bool
  lc_extLinkName :: string
  lc_extLinkUrlPattern :: string

definition login_reply :: "LoginConfig \<Rightarrow> string \<Rightarrow> string \<Rightarrow> 'f LoginWorld \<Rightarrow> MapPack \<Rightarrow> MapPack" where
  "login_reply cfg version uid w m =
     (let m = MapPack_PutLong m ''time'' (word_of_int (lw_now w));
          m = MapPack_PutStr m ''server_id'' (lc_serverID cfg);
          (groupType, m) = (case sm_accountManager (lw_sm w) of
              None \<Rightarrow> (''default'', m)
            | Some am \<Rightarrow>
                let (groupType, m) = (case am_GetAccount uid am of
                      Some acct \<Rightarrow> (acct_Group acct, MapPack_PutStr m ''email'' (acct_Email acct))
                    | None \<Rightarrow> (''default'', m))
                in (groupType, case am_GetGroupPolicy groupType am of
                      Some policy \<Rightarrow> MapPack_Put m ''policy'' (Some (MapValue policy))
                    | None \<Rightarrow> m));
          m = MapPack_PutStr m ''type'' groupType;
          m = MapPack_PutStr m ''version'' version;
          m = MapPack_PutStr m ''timezone'' (lc_timezone cfg);
          m = MapPack_PutLong m ''so_time_out'' (lc_soTimeout cfg);
          menuMap = map_Put NewMapValue ''tag_count'' (Some (BooleanValue (lc_tagcntEnabled cfg)));
          m = MapPack_Put m ''menu'' (Some (MapValue (Some menuMap)));
          m = (if lc_extLinkName cfg \<noteq> '''' then MapPack_PutStr m ''ext_link_name'' (lc_extLinkName cfg) else m)
      in if lc_extLinkUrlPattern cfg \<noteq> '''' then MapPack_PutStr m ''ext_link_url_pattern'' (lc_extLinkUrlPattern cfg) else m)"

definition handle_LOGIN :: "LoginConfig \<Rightarrow> string \<Rightarrow> MapPack \<Rightarrow> dout \<Rightarrow> 'f LoginWorld \<Rightarrow> (unit res \<times> dout \<times> 'f LoginWorld) option" where
  "handle_LOGIN cfg version m dout w =
     (let uid = MapPack_GetText m ''id''; pass = MapPack_GetText m ''pass''; ip = MapPack_GetText m ''ip'';
          hostname = MapPack_GetText m ''hostname''; clientVer = MapPack_GetText m ''version'';
          (session, sm) = sm_Login (lw_now w) (lw_random w) uid pass ip (lw_sm w);
          m = MapPack_PutLong m ''session'' session
      in if session = 0 then answer (MapPack_PutStr m ''error'' ''login fail'') dout (w\<lparr>lw_sm := sm\<rparr>)
         else let sm = (case sm_GetUser session sm of
                    Some user \<Rightarrow> sm\<lparr>sm_sessions := (sm_sessions sm)(session \<mapsto> user\<lparr>user_Hostname := hostname, user_Version := clientVer\<rparr>)\<rparr>
                  | None \<Rightarrow> sm);
                  w = w\<lparr>lw_sm := sm\<rparr>
              in answer (login_reply cfg version uid w m) dout w)"

definition handle_CHECK_SESSION :: "MapPack \<Rightarrow> dout \<Rightarrow> 'f LoginWorld \<Rightarrow> (unit res \<times> dout \<times> 'f LoginWorld) option" where
  "handle_CHECK_SESSION m dout w =
     (if sm_OkSession (MapPack_GetLong m ''session'') (lw_sm w) then answer (MapPack_PutLong m ''validSession'' 1) dout w
      else answer (MapPack_PutStr (MapPack_PutLong m ''validSession'' 0) ''error'' ''login fail'') dout w)"

definition bool_reply :: "bool \<Rightarrow> MapPack" where
  "bool_reply b = MapPack_Put emptyMap ''result'' (Some (BooleanValue b))"

definition handle_CHECK_LOGIN :: "MapPack \<Rightarrow> dout \<Rightarrow> 'f LoginWorld \<Rightarrow> (unit res \<times> dout \<times> 'f LoginWorld) option" where
  "handle_CHECK_LOGIN m dout w =
     answer (bool_reply (case sm_accountManager (lw_sm w) of
         None \<Rightarrow> False
       | Some am \<Rightarrow> am_AuthorizeAccount (MapPack_GetText m ''id'') (MapPack_GetText m ''pass'') am)) dout w"

definition handle_GET_LOGIN_LIST :: "dout \<Rightarrow> 'f LoginWorld \<Rightarrow> (unit res \<times> dout \<times> 'f LoginWorld) option" where
  "handle_GET_LOGIN_LIST dout w =
     (let users = sm_GetAllUsers (lw_logins w) (lw_sm w);
          column = (\<lambda>f. Some (ListValue (Some (map (\<lambda>u. Some (f u)) users))));
          resp = MapPack_Put emptyMap ''session'' (column (\<lambda>u. DecimalValue (user_Session u)));
          resp = MapPack_Put resp ''user'' (column (\<lambda>u. TextValue (user_ID u)));
          resp = MapPack_Put resp ''ip'' (column (\<lambda>u. TextValue (user_IP u)));
          resp = MapPack_Put resp ''logintime''
            (column (\<lambda>u. DecimalValue (word_of_int ((lw_now w - user_LoginTime u) div 1000))));
          resp = MapPack_Put resp ''ver'' (column (\<lambda>u. TextValue (user_Version u)));
          resp = MapPack_Put resp ''host'' (column (\<lambda>u. TextValue (user_Hostname u)))
      in answer resp dout w)"

text \<open>A method of a nil account manager panics.\<close>

definition on_accounts ::
    "('f AccountManager \<Rightarrow> bool \<times> 'f AccountManager) \<Rightarrow> dout \<Rightarrow> 'f LoginWorld \<Rightarrow> (unit res \<times> dout \<times> 'f LoginWorld) option" where
  "on_accounts f dout w = (case sm_accountManager (lw_sm w) of
     None \<Rightarrow> Some (Panic NilDeref, dout, w)
   | Some am \<Rightarrow> (let (ok, am) = f am
       in answer (bool_reply ok) dout (w\<lparr>lw_sm := (lw_sm w)\<lparr>sm_accountManager := Some am\<rparr>\<rparr>)))"

definition account_param :: "MapPack \<Rightarrow> Account" where
  "account_param m = \<lparr>acct_ID = MapPack_GetText m ''id'', acct_Password = MapPack_GetText m ''pass'',
     acct_Email = MapPack_GetText m ''email'', acct_Group = MapPack_GetText m ''group''\<rparr>"

definition handle_ADD_ACCOUNT :: "'f Xml \<Rightarrow> MapPack \<Rightarrow> dout \<Rightarrow> 'f LoginWorld \<Rightarrow> (unit res \<times> dout \<times> 'f LoginWorld) option" where
  "handle_ADD_ACCOUNT xml m dout w = on_accounts (am_AddAccount xml (lw_now w) (account_param m)) dout w"

definition handle_EDIT_ACCOUNT :: "'f Xml \<Rightarrow> MapPack \<Rightarrow> dout \<Rightarrow> 'f LoginWorld \<Rightarrow> (unit res \<times> dout \<times> 'f LoginWorld) option" where
  "handle_EDIT_ACCOUNT xml m dout w = on_accounts (am_EditAccount xml (lw_now w) (account_param m)) dout w"

definition handle_CHECK_ACCOUNT_ID :: "MapPack \<Rightarrow> dout \<Rightarrow> 'f LoginWorld \<Rightarrow> (unit res \<times> dout \<times> 'f LoginWorld) option" where
  "handle_CHECK_ACCOUNT_ID m dout w = on_accounts (\<lambda>am. (am_AvailableID (MapPack_GetText m ''id'') am, am)) dout w"

definition handle_LIST_ACCOUNT :: "dout \<Rightarrow> 'f LoginWorld \<Rightarrow> (unit res \<times> dout \<times> 'f LoginWorld) option" where
  "handle_LIST_ACCOUNT dout w = (case sm_accountManager (lw_sm w) of
     None \<Rightarrow> Some (Panic NilDeref, dout, w)
   | Some am \<Rightarrow> Some (Ok (), fold (\<lambda>acct. reply_value (Some (BlobValue (Account_ToBytes acct))))
       (am_GetAccountList (lw_users w) am) dout, w))"

definition handle_LIST_ACCOUNT_GROUP :: "dout \<Rightarrow> 'f LoginWorld \<Rightarrow> (unit res \<times> dout \<times> 'f LoginWorld) option" where
  "handle_LIST_ACCOUNT_GROUP dout w = (case sm_accountManager (lw_sm w) of
     None \<Rightarrow> Some (Panic NilDeref, dout, w)
   | Some am \<Rightarrow> answer (MapPack_Put emptyMap ''group_list''
       (Some (ListValue (Some (map (\<lambda>g. Some (TextValue g)) (am_GetGroupList (lw_groups w) am)))))) dout w)"

definition handle_GET_GROUP_POLICY_ALL :: "dout \<Rightarrow> 'f LoginWorld \<Rightarrow> (unit res \<times> dout \<times> 'f LoginWorld) option" where
  "handle_GET_GROUP_POLICY_ALL dout w = (case sm_accountManager (lw_sm w) of
     None \<Rightarrow> Some (Panic NilDeref, dout, w)
   | Some am \<Rightarrow> answer (fold (\<lambda>name result. case am_AllGroupPolicies am name of
           Some mv \<Rightarrow> MapPack_Put result name (Some (MapValue mv))
         | None \<Rightarrow> result) (lw_groups w) emptyMap) dout w)"

definition handle_EDIT_GROUP_POLICY :: "'f Xml \<Rightarrow> MapPack \<Rightarrow> dout \<Rightarrow> 'f LoginWorld \<Rightarrow> (unit res \<times> dout \<times> 'f LoginWorld) option" where
  "handle_EDIT_GROUP_POLICY xml m dout w = (case MapPack_Get m ''policy'' of
     Some (MapValue mv) \<Rightarrow> on_accounts (am_EditGroupPolicy xml (lw_now w) (MapPack_GetText m ''name'') mv) dout w
   | _ \<Rightarrow> answer (bool_reply False) dout w)"

definition handle_ADD_ACCOUNT_GROUP :: "'f Xml \<Rightarrow> MapPack \<Rightarrow> dout \<Rightarrow> 'f LoginWorld \<Rightarrow> (unit res \<times> dout \<times> 'f LoginWorld) option" where
  "handle_ADD_ACCOUNT_GROUP xml m dout w =
     (let mv = (case MapPack_Get m ''policy'' of Some (MapValue v) \<Rightarrow> v | _ \<Rightarrow> Some NewMapValue)
      in on_accounts (am_AddAccountGroup xml (lw_now w) (MapPack_GetText m ''name'') mv) dout w)"

definition login_handlers :: "LoginConfig \<Rightarrow> string \<Rightarrow> (string \<times> 'f LoginWorld handler) list" where
  "login_handlers cfg version =
     [(''LOGIN'', with_param (handle_LOGIN cfg version)), (''CHECK_SESSION'', with_param handle_CHECK_SESSION)]"

definition RegisterLoginHandlers :: "LoginConfig \<Rightarrow> string \<Rightarrow> 'f LoginWorld Registry \<Rightarrow> 'f LoginWorld Registry" where
  "RegisterLoginHandlers cfg version r = reg_all (login_handlers cfg version) r"

definition login_ext_handlers :: "(string \<times> 'f LoginWorld handler) list" where
  "login_ext_handlers =
     [(''CHECK_LOGIN'', with_param handle_CHECK_LOGIN), (''GET_LOGIN_LIST'', with_any handle_GET_LOGIN_LIST)]"

definition RegisterLoginExtHandlers :: "'f LoginWorld Registry \<Rightarrow> 'f LoginWorld Registry" where
  "RegisterLoginExtHandlers r = reg_all login_ext_handlers r"

definition account_handlers :: "'f Xml \<Rightarrow> (string \<times> 'f LoginWorld handler) list" where
  "account_handlers xml =
     [(''ADD_ACCOUNT'', with_param (handle_ADD_ACCOUNT xml)), (''EDIT_ACCOUNT'', with_param (handle_EDIT_ACCOUNT xml)),
      (''CHECK_ACCOUNT_ID'', with_param handle_CHECK_ACCOUNT_ID), (''LIST_ACCOUNT'', with_none handle_LIST_ACCOUNT),
      (''LIST_ACCOUNT_GROUP'', with_none handle_LIST_ACCOUNT_GROUP),
      (''GET_GROUP_POLICY_ALL'', with_none handle_GET_GROUP_POLICY_ALL),
      (''EDIT_GROUP_POLICY'', with_param (handle_EDIT_GROUP_POLICY xml)),
      (''ADD_ACCOUNT_GROUP'', with_param (handle_ADD_ACCOUNT_GROUP xml))]"

definition RegisterAccountHandlers :: "'f Xml \<Rightarrow> 'f LoginWorld Registry \<Rightarrow> 'f LoginWorld Registry" where
  "RegisterAccountHandlers xml r = reg_all (account_handlers xml) r"

subsection \<open>A session is what a login gives\<close>

lemma generateSession_nonzero: "generateSession b \<noteq> 0"
  by (auto simp: generateSession_def Let_def)

definition authorized :: "string \<Rightarrow> string \<Rightarrow> 'f SessionManager \<Rightarrow> bool" where
  "authorized uid pass sm \<longleftrightarrow> (case sm_accountManager sm of None \<Rightarrow> True | Some am \<Rightarrow> am_AuthorizeAccount uid pass am)"

lemma Login_session:
  assumes "sm_Login now b uid pass ip sm = (session, sm')"
  shows "session \<noteq> 0 \<longleftrightarrow> authorized uid pass sm"
    and "sm_OkSession s sm' \<longleftrightarrow> sm_OkSession s sm \<or> authorized uid pass sm \<and> s = session"
    and "sm_accountManager sm' = sm_accountManager sm"
    and "\<not> authorized uid pass sm \<Longrightarrow> sm' = sm"
  using assms generateSession_nonzero [of b]
  by (auto simp: sm_Login_def authorized_def sm_OkSession_def Let_def split: option.splits if_splits)

text \<open>The table of the sessions after any handler.\<close>

lemma on_accounts_sessions:
  "on_accounts f dout w = Some (r, dout', w') \<Longrightarrow> sm_sessions (lw_sm w') = sm_sessions (lw_sm w)"
  by (auto simp: on_accounts_def answer_def case_prod_unfold Let_def split: option.splits)

lemmas login_handler_defs = handle_CHECK_SESSION_def handle_CHECK_LOGIN_def handle_GET_LOGIN_LIST_def
  handle_LIST_ACCOUNT_def handle_LIST_ACCOUNT_GROUP_def handle_GET_GROUP_POLICY_ALL_def

lemma other_handlers_sessions:
  "handle_CHECK_SESSION m dout w = Some (r, dout', w') \<Longrightarrow> w' = w"
  "handle_CHECK_LOGIN m dout w = Some (r, dout', w') \<Longrightarrow> w' = w"
  "handle_GET_LOGIN_LIST dout w = Some (r, dout', w') \<Longrightarrow> w' = w"
  "handle_LIST_ACCOUNT dout w = Some (r, dout', w') \<Longrightarrow> w' = w"
  "handle_LIST_ACCOUNT_GROUP dout w = Some (r, dout', w') \<Longrightarrow> w' = w"
  "handle_GET_GROUP_POLICY_ALL dout w = Some (r, dout', w') \<Longrightarrow> w' = w"
  by (auto simp: login_handler_defs answer_def Let_def split: option.splits if_splits)

lemma LOGIN_sessions:
  assumes "handle_LOGIN cfg version m dout w = Some (r, dout', w')"
  shows "sm_OkSession s (lw_sm w') \<longleftrightarrow> sm_OkSession s (lw_sm w) \<or>
    authorized (MapPack_GetText m ''id'') (MapPack_GetText m ''pass'') (lw_sm w) \<and> s = generateSession (lw_random w)"
proof -
  obtain session sm where l: "sm_Login (lw_now w) (lw_random w) (MapPack_GetText m ''id'') (MapPack_GetText m ''pass'')
      (MapPack_GetText m ''ip'') (lw_sm w) = (session, sm)" by fastforce
  have g: "authorized (MapPack_GetText m ''id'') (MapPack_GetText m ''pass'') (lw_sm w) \<Longrightarrow> session = generateSession (lw_random w)"
    using l by (auto simp: sm_Login_def authorized_def Let_def split: option.splits if_splits)
  have "sm_OkSession s (lw_sm w') \<longleftrightarrow> sm_OkSession s sm"
    using assms l by (auto simp: handle_LOGIN_def Let_def answer_def sm_OkSession_def sm_GetUser_def split: if_splits option.splits)
  then show ?thesis using Login_session(2) [OF l, of s] g by auto
qed

subsection \<open>The file of the accounts\<close>

lemma account_of_xml_of: "account_of_xml (xml_of_account a) = a"
  by (simp add: xml_of_account_def account_of_xml_def)

lemma accounts_of_append: "accounts_of (doc @ [a]) = (accounts_of doc)(xa_ID a \<mapsto> account_of_xml a)"
  by (simp add: accounts_of_def)

lemma fold_updates:
  "distinct (map key doc) \<Longrightarrow> fold (\<lambda>a m. m(key a \<mapsto> val a)) doc m =
    (\<lambda>k. case map_of (map (\<lambda>a. (key a, val a)) doc) k of None \<Rightarrow> m k | Some x \<Rightarrow> Some x)"
proof (induction doc arbitrary: m)
  case (Cons a doc)
  then have "map_of (map (\<lambda>a. (key a, val a)) doc) (key a) = None"
    by (auto simp: map_of_eq_None_iff)
  with Cons show ?case by (auto simp: fun_eq_iff split: option.split)
qed (simp add: fun_eq_iff)

lemma accounts_of_eq: "distinct (map xa_ID doc) \<Longrightarrow> accounts_of doc = map_of (map (\<lambda>a. (xa_ID a, account_of_xml a)) doc)"
  by (auto simp: accounts_of_def fold_updates fun_eq_iff split: option.split)

lemma groups_of_eq:
  "distinct (map xg_Name doc) \<Longrightarrow> groups_of doc = map_of (map (\<lambda>g. (xg_Name g, Some (policy_value (xg_Policy g)))) doc)"
  by (auto simp: groups_of_def fold_updates fun_eq_iff split: option.split)

lemma edit_doc_ids [simp]: "map xa_ID (edit_doc acct doc) = map xa_ID doc"
  by (induction doc) auto

lemma accounts_of_edit:
  assumes "distinct (map xa_ID doc)" and "acct_ID acct \<in> set (map xa_ID doc)"
  shows "accounts_of (edit_doc acct doc) = (accounts_of doc)(acct_ID acct \<mapsto> acct)"
proof -
  have same: "account_of_xml (a\<lparr>xa_Pass := acct_Password acct, xa_Group := acct_Group acct, xa_Email := acct_Email acct\<rparr>) = acct"
    if "xa_ID a = acct_ID acct" for a :: xmlAccount
    using that by (simp add: account_of_xml_def)
  have "map_of (map (\<lambda>a. (xa_ID a, account_of_xml a)) (edit_doc acct doc)) =
      (map_of (map (\<lambda>a. (xa_ID a, account_of_xml a)) doc))(acct_ID acct \<mapsto> acct)"
    using assms(2)
  proof (induction doc)
    case (Cons a doc)
    then show ?case by (cases "xa_ID a = acct_ID acct") (simp_all add: same fun_eq_iff)
  qed simp
  then show ?thesis using assms(1) by (simp add: accounts_of_eq)
qed

text \<open>The strings that encoding/xml gives back are \<open>legal\<close>.\<close>

definition legal_xml :: "(string \<Rightarrow> bool) \<Rightarrow> xmlAccount \<Rightarrow> bool" where
  "legal_xml legal a \<longleftrightarrow> legal (xa_ID a) \<and> legal (xa_Pass a) \<and> legal (xa_Group a) \<and> legal (xa_Email a)"

definition legal_account :: "(string \<Rightarrow> bool) \<Rightarrow> Account \<Rightarrow> bool" where
  "legal_account legal a \<longleftrightarrow> legal (acct_ID a) \<and> legal (acct_Password a) \<and> legal (acct_Group a) \<and> legal (acct_Email a)"

definition accounts_codec :: "'f Xml \<Rightarrow> (string \<Rightarrow> bool) \<Rightarrow> bool" where
  "accounts_codec xml legal \<longleftrightarrow> (\<forall>doc. (\<forall>a \<in> set doc. legal_xml legal a) \<longrightarrow> x_parse_accounts xml (x_accounts xml doc) = Some doc)"

text \<open>What is in memory is in the file.\<close>

definition accounts_saved :: "'f Xml \<Rightarrow> (string \<Rightarrow> bool) \<Rightarrow> 'f AccountManager \<Rightarrow> bool" where
  "accounts_saved xml legal am \<longleftrightarrow> (\<exists>f doc. am_accountFile am = Some f \<and> x_parse_accounts xml (xf_data f) = Some doc \<and>
     distinct (map xa_ID doc) \<and> (\<forall>a \<in> set doc. legal_xml legal a) \<and> accounts_of doc = am_accountMap am)"

lemma AddAccount_saved:
  assumes "accounts_codec xml legal" and "accounts_saved xml legal am" and "legal_account legal acct"
    and "am_AddAccount xml now acct am = (ok, am')"
  shows "accounts_saved xml legal am'" and "ok \<longleftrightarrow> am_accountMap am (acct_ID acct) = None"
    and "am_accountMap am' = (if ok then (am_accountMap am)(acct_ID acct \<mapsto> acct) else am_accountMap am)"
proof -
  obtain f doc where f: "am_accountFile am = Some f" "x_parse_accounts xml (xf_data f) = Some doc"
    "distinct (map xa_ID doc)" "\<forall>a \<in> set doc. legal_xml legal a" "accounts_of doc = am_accountMap am"
    using assms(2) by (auto simp: accounts_saved_def)
  let ?doc = "doc @ [xml_of_account acct]"
  have new: "accounts_saved xml legal am'"
    if none: "am_accountMap am (acct_ID acct) = None"
      and stored: "am_accountFile am' = Some \<lparr>xf_data = x_accounts xml ?doc, xf_ModTime = now\<rparr>"
      and map: "am_accountMap am' = (am_accountMap am)(acct_ID acct \<mapsto> acct)"
  proof -
    have l: "\<forall>a \<in> set ?doc. legal_xml legal a"
      using f(4) assms(3) by (auto simp: legal_xml_def legal_account_def xml_of_account_def)
    have "acct_ID acct \<notin> set (map xa_ID doc)"
      using none f(3) by (auto simp: f(5) [symmetric] accounts_of_eq map_of_eq_None_iff image_image)
    then have "distinct (map xa_ID ?doc)" using f(3) by (auto simp: xml_of_account_def)
    moreover have "accounts_of ?doc = am_accountMap am'"
      using map f(5) by (simp add: accounts_of_append account_of_xml_of) (simp add: xml_of_account_def)
    ultimately show ?thesis using l assms(1) stored by (auto simp: accounts_saved_def accounts_codec_def)
  qed
  from assms(4) new assms(2) f show "accounts_saved xml legal am'"
    by (auto simp: am_AddAccount_def addAccountToFile_def read_doc_def split: option.splits)
  from assms(4) f show "ok \<longleftrightarrow> am_accountMap am (acct_ID acct) = None"
    "am_accountMap am' = (if ok then (am_accountMap am)(acct_ID acct \<mapsto> acct) else am_accountMap am)"
    by (auto simp: am_AddAccount_def addAccountToFile_def read_doc_def split: option.splits)
qed

lemma edit_doc_legal:
  "\<forall>a \<in> set doc. legal_xml legal a \<Longrightarrow> legal_account legal acct \<Longrightarrow> a \<in> set (edit_doc acct doc) \<Longrightarrow> legal_xml legal a"
proof (induction doc)
  case (Cons b doc)
  then show ?case by (cases "xa_ID b = acct_ID acct") (auto simp: legal_xml_def legal_account_def)
qed simp

lemma EditAccount_saved:
  assumes "accounts_codec xml legal" and "accounts_saved xml legal am" and "legal_account legal acct"
    and "am_EditAccount xml now acct am = (ok, am')"
  shows "accounts_saved xml legal am'"
proof (cases "am_accountMap am (acct_ID acct)")
  case None
  then show ?thesis using assms(2,4) by (simp add: am_EditAccount_def)
next
  case (Some old)
  obtain f doc where f: "am_accountFile am = Some f" "x_parse_accounts xml (xf_data f) = Some doc"
    "distinct (map xa_ID doc)" "\<forall>a \<in> set doc. legal_xml legal a" "accounts_of doc = am_accountMap am"
    using assms(2) by (auto simp: accounts_saved_def)
  define acct' where "acct' = (if acct_Password acct = '''' then acct\<lparr>acct_Password := acct_Password old\<rparr> else acct)"
  have "map_of (map (\<lambda>a. (xa_ID a, account_of_xml a)) doc) (acct_ID acct) = Some old"
    using Some f(3) by (simp add: f(5) [symmetric] accounts_of_eq)
  from map_of_SomeD [OF this] obtain x where x: "x \<in> set doc" "xa_ID x = acct_ID acct" "account_of_xml x = old" by auto
  then have "legal (acct_Password old)" using f(4) by (auto simp: legal_xml_def account_of_xml_def)
  then have l': "legal_account legal acct'" "acct_ID acct' = acct_ID acct"
    using assms(3) by (auto simp: legal_account_def acct'_def)
  have "\<forall>a \<in> set (edit_doc acct' doc). legal_xml legal a"
    using edit_doc_legal [OF f(4) l'(1)] by blast
  then have "x_parse_accounts xml (x_accounts xml (edit_doc acct' doc)) = Some (edit_doc acct' doc)"
    using assms(1) by (simp add: accounts_codec_def)
  moreover have "accounts_of (edit_doc acct' doc) = (accounts_of doc)(acct_ID acct' \<mapsto> acct')"
  proof (rule accounts_of_edit [OF f(3)])
    have "xa_ID x \<in> set (map xa_ID doc)" using x(1) by simp
    then show "acct_ID acct' \<in> set (map xa_ID doc)" using x(2) l'(2) by simp
  qed
  moreover have "am' = am\<lparr>am_accountMap := (am_accountMap am)(acct_ID acct' \<mapsto> acct'),
      am_accountFile := Some \<lparr>xf_data = x_accounts xml (edit_doc acct' doc), xf_ModTime = now\<rparr>, am_accountModTime := now\<rparr>"
    using assms(4) unfolding am_EditAccount_def Some option.case Let_def acct'_def [symmetric]
    by (simp add: editAccountInFile_def read_doc_def f)
  ultimately show ?thesis using f(3,5) \<open>\<forall>a \<in> set (edit_doc acct' doc). legal_xml legal a\<close>
    by (simp add: accounts_saved_def)
qed

lemma restart_accounts:
  assumes "accounts_saved xml legal am"
  shows "am_accountMap (NewAccountManager xml zeroTime now defaultA defaultG (am_accountFile am) (am_groupFile am)) = am_accountMap am"
    and "am_accountMap (am_loadAccounts xml am) = am_accountMap am"
    and "accounts_saved xml legal (am_loadAccounts xml am)"
  using assms
  by (auto simp: accounts_saved_def NewAccountManager_def am_loadGroups_def am_loadAccounts_def am_ensureDefaults_def
      parseAccountFile_def read_doc_def split: option.splits)

text \<open>The changes of the accounts and what they mean; the files are read again when the watcher finds them changed.\<close>

datatype account_op = OpAdd int Account | OpEdit int Account | OpReload

fun account_do :: "'f Xml \<Rightarrow> account_op \<Rightarrow> 'f AccountManager \<Rightarrow> 'f AccountManager" where
  "account_do xml (OpAdd now acct) am = snd (am_AddAccount xml now acct am)"
| "account_do xml (OpEdit now acct) am = snd (am_EditAccount xml now acct am)"
| "account_do xml OpReload am = am_loadAccounts xml am"

fun account_spec :: "account_op \<Rightarrow> (string \<rightharpoonup> Account) \<Rightarrow> string \<rightharpoonup> Account" where
  "account_spec (OpAdd now a) m = (if m (acct_ID a) = None then m(acct_ID a \<mapsto> a) else m)"
| "account_spec (OpEdit now a) m = (case m (acct_ID a) of
     None \<Rightarrow> m
   | Some old \<Rightarrow> m(acct_ID a \<mapsto> (if acct_Password a = '''' then a\<lparr>acct_Password := acct_Password old\<rparr> else a)))"
| "account_spec OpReload m = m"

fun op_account :: "account_op \<Rightarrow> Account option" where
  "op_account (OpAdd now a) = Some a"
| "op_account (OpEdit now a) = Some a"
| "op_account OpReload = None"

lemma EditAccount_map:
  "am_accountMap (snd (am_EditAccount xml now acct am)) = account_spec (OpEdit now acct) (am_accountMap am)"
  by (auto simp: am_EditAccount_def Let_def split: option.split)

lemma account_do_saved:
  assumes "accounts_codec xml legal" and "accounts_saved xml legal am"
    and "\<forall>a. op_account op = Some a \<longrightarrow> legal_account legal a"
  shows "accounts_saved xml legal (account_do xml op am) \<and> am_accountMap (account_do xml op am) = account_spec op (am_accountMap am)"
proof (cases op)
  case (OpAdd now a)
  obtain ok am' where r: "am_AddAccount xml now a am = (ok, am')" by fastforce
  then show ?thesis using assms(3) AddAccount_saved [OF assms(1,2) _ r] by (auto simp: OpAdd)
next
  case (OpEdit now a)
  then show ?thesis using assms EditAccount_saved [OF assms(1,2), of a now "fst (am_EditAccount xml now a am)" "snd (am_EditAccount xml now a am)"]
    by (simp add: EditAccount_map del: account_spec.simps)
next
  case OpReload
  then show ?thesis using restart_accounts [OF assms(2)] by simp
qed

lemma accounts_run:
  assumes "accounts_codec xml legal" and "accounts_saved xml legal am"
    and "\<forall>op \<in> set ops. \<forall>a. op_account op = Some a \<longrightarrow> legal_account legal a"
  shows "accounts_saved xml legal (fold (account_do xml) ops am) \<and>
    am_accountMap (fold (account_do xml) ops am) = fold account_spec ops (am_accountMap am)"
  using assms(2,3)
proof (induction ops arbitrary: am)
  case (Cons op ops)
  then show ?case using account_do_saved [OF assms(1) Cons.prems(1), of op] by simp
qed simp

subsection \<open>The file of the groups\<close>

definition policy_says :: "policy \<Rightarrow> string \<Rightarrow> bool option" where
  "policy_says policy name = (case map_Get (elems policy) name of Some (Some (BooleanValue b)) \<Rightarrow> Some b | _ \<Rightarrow> None)"

lemma policyToMap_mapToPolicy: "name \<in> set policyFieldNames \<Longrightarrow> policyToMap (mapToPolicy m) name = Some (at m name)"
  by (auto simp: policyFieldNames_def policyToMap_def mapToPolicy_def)

lemma at_mapToPolicy: "name \<in> set policyFieldNames \<Longrightarrow> at (policyToMap (mapToPolicy m)) name = at m name"
  by (simp add: at_def [of "policyToMap _"] policyToMap_mapToPolicy)

lemma at_policyToMap_outside: "name \<notin> set policyFieldNames \<Longrightarrow> policyToMap p name = None"
  by (auto simp: policyFieldNames_def policyToMap_def)

lemma policy_value_Get:
  "map_Get (policy_value p) name =
    (if name \<in> set policyFieldNames then Some (Some (BooleanValue (is_true (at (policyToMap p) name)))) else None)"
proof -
  have "map_Get (fold (\<lambda>name mv. map_Put mv name (Some (BooleanValue (is_true (at pm name))))) names mv) name =
    (if name \<in> set names then Some (Some (BooleanValue (is_true (at pm name)))) else map_Get mv name)" for names mv pm
    by (induction names arbitrary: mv) (auto simp: map_Get_map_of map_of_map_Put)
  then show ?thesis by (simp add: policy_value_def Let_def NewMapValue_def)
qed

lemma edit_fold:
  "fold (\<lambda>fn pm. case map_Get (elems policy) fn of
       Some (Some (BooleanValue b)) \<Rightarrow> pm(fn \<mapsto> if b then ''true'' else ''false'')
     | _ \<Rightarrow> pm) names pm name =
   (if name \<in> set names then (case policy_says policy name of Some b \<Rightarrow> Some (if b then ''true'' else ''false'') | None \<Rightarrow> pm name)
    else pm name)"
  by (induction names arbitrary: pm) (auto simp: policy_says_def split: option.split "value.split")

lemma is_true_bool: "is_true (if b then ''true'' else ''false'') = b"
  by (simp add: is_true_def ascii_lower_def)

text \<open>What the file says of a group after its policy was edited: a field that the policy does not say is as it was.\<close>

lemma edit_policy_says:
  assumes "name \<in> set policyFieldNames"
  shows "policy_says (Some (policy_value (edit_policy policy p))) name =
    Some (case policy_says policy name of Some b \<Rightarrow> b | None \<Rightarrow> is_true (at (policyToMap p) name))"
proof -
  have "at (policyToMap (edit_policy policy p)) name =
      (case policy_says policy name of Some b \<Rightarrow> if b then ''true'' else ''false'' | None \<Rightarrow> at (policyToMap p) name)"
    using assms by (simp add: edit_policy_def at_mapToPolicy) (simp add: at_def edit_fold split: option.split)
  with assms show ?thesis using is_true_bool [of "the (policy_says policy name)"]
    by (auto simp: policy_says_def [of "Some _"] policy_value_Get split: option.split)
qed

definition legal_group :: "(string \<Rightarrow> bool) \<Rightarrow> xmlGroup \<Rightarrow> bool" where
  "legal_group legal g \<longleftrightarrow> legal (xg_Name g) \<and> (\<forall>fn \<in> set policyFieldNames. legal (at (policyToMap (xg_Policy g)) fn))"

definition groups_codec :: "'f Xml \<Rightarrow> (string \<Rightarrow> bool) \<Rightarrow> bool" where
  "groups_codec xml legal \<longleftrightarrow> legal ''true'' \<and> legal ''false'' \<and>
    (\<forall>doc. (\<forall>g \<in> set doc. legal_group legal g) \<longrightarrow> x_parse_groups xml (x_groups xml doc) = Some doc)"

definition groups_file :: "'f Xml \<Rightarrow> (string \<Rightarrow> bool) \<Rightarrow> xmlGroup list \<Rightarrow> 'f AccountManager \<Rightarrow> bool" where
  "groups_file xml legal doc am \<longleftrightarrow> (\<exists>f. am_groupFile am = Some f \<and> x_parse_groups xml (xf_data f) = Some doc \<and>
     distinct (map xg_Name doc) \<and> (\<forall>g \<in> set doc. legal_group legal g))"

lemma legal_edit_policy:
  assumes "groups_codec xml legal" and "legal_group legal g"
  shows "legal_group legal (g\<lparr>xg_Policy := edit_policy policy (xg_Policy g)\<rparr>)"
proof -
  have "legal (at (policyToMap (edit_policy policy (xg_Policy g))) fn)" if "fn \<in> set policyFieldNames" for fn
    using assms that by (simp add: edit_policy_def at_mapToPolicy)
      (auto simp: at_def edit_fold legal_group_def groups_codec_def split: option.split)
  then show ?thesis using assms(2) by (simp add: legal_group_def)
qed

lemma edit_groups_names [simp]: "map xg_Name (edit_groups name policy doc) = map xg_Name doc"
  by (induction doc) auto

lemma edit_groups_legal:
  assumes "groups_codec xml legal"
  shows "\<forall>g \<in> set doc. legal_group legal g \<Longrightarrow> \<forall>g \<in> set (edit_groups name policy doc). legal_group legal g"
proof (induction doc)
  case (Cons g doc)
  then show ?case using legal_edit_policy [OF assms, of g policy] by (cases "xg_Name g = name") simp_all
qed simp

lemma edit_groups_at:
  assumes "distinct (map xg_Name doc)" and "g \<in> set doc"
  shows "g\<lparr>xg_Policy := edit_policy policy (xg_Policy g)\<rparr> \<in> set (edit_groups (xg_Name g) policy doc)"
  using assms
proof (induction doc)
  case (Cons h doc)
  then show ?case by (cases "h = g") (auto simp: image_iff)
qed simp

lemma groups_of_at:
  assumes "distinct (map xg_Name doc)" and "g \<in> set doc"
  shows "groups_of doc (xg_Name g) = Some (Some (policy_value (xg_Policy g)))"
  using assms by (force simp: groups_of_eq comp_def intro!: map_of_is_SomeI)

lemma EditGroupPolicy_reload:
  assumes "groups_codec xml legal" and "groups_file xml legal doc am" and "g \<in> set doc"
    and "am_groupPolicyMap am (xg_Name g) \<noteq> None" and "am_EditGroupPolicy xml now (xg_Name g) policy am = (ok, am')"
  shows "ok \<and> groups_file xml legal (edit_groups (xg_Name g) policy doc) am' \<and>
    am_groupPolicyMap (am_loadGroups xml am') (xg_Name g) = Some (Some (policy_value (edit_policy policy (xg_Policy g))))"
proof -
  let ?doc = "edit_groups (xg_Name g) policy doc"
  obtain f where f: "am_groupFile am = Some f" "x_parse_groups xml (xf_data f) = Some doc"
    "distinct (map xg_Name doc)" "\<forall>g \<in> set doc. legal_group legal g"
    using assms(2) by (auto simp: groups_file_def)
  have l: "\<forall>g \<in> set ?doc. legal_group legal g" using edit_groups_legal [OF assms(1) f(4)] .
  have p: "x_parse_groups xml (x_groups xml ?doc) = Some ?doc" using assms(1) l by (simp add: groups_codec_def)
  have r: "ok" "am_groupFile am' = Some \<lparr>xf_data = x_groups xml ?doc, xf_ModTime = now\<rparr>"
    using assms(4,5) f by (auto simp: am_EditGroupPolicy_def editGroupPolicyInFile_def read_doc_def)
  have "groups_of ?doc (xg_Name g) = Some (Some (policy_value (edit_policy policy (xg_Policy g))))"
    using groups_of_at [OF _ edit_groups_at [OF f(3) assms(3)], of policy] f(3) by simp
  then have "am_groupPolicyMap (am_loadGroups xml am') (xg_Name g) = Some (Some (policy_value (edit_policy policy (xg_Policy g))))"
    using r p by (simp add: am_loadGroups_def parseGroupFile_def read_doc_def)
  moreover have "groups_file xml legal ?doc am'" using r(2) p l f(3) by (auto simp: groups_file_def)
  ultimately show ?thesis using r(1) by blast
qed

end
