(* ===== verification/KvService.thy ===== *)
theory KvService
  imports Requests KvStore
begin

text \<open>
  internal/netio/service/handler\_kv.go: the two key-value stores as services. \<open>kw_now\<close> is the clock in milliseconds,
  \<open>kw_keys\<close> the keys of a map in the order in which an iteration takes them.

  The answers a client gets in a conversation are those of two maps with expiries.
\<close>

record 'f KvWorld =
  kw_global :: "'f KVStore"
  kw_custom :: "'f KVStore"
  kw_now :: i64
  kw_keys :: "(string \<rightharpoonup> string) \<Rightarrow> string list"

definition handle_GET_GLOBAL_KV :: "MapPack \<Rightarrow> dout \<Rightarrow> 'f KvWorld \<Rightarrow> (unit res \<times> dout \<times> 'f KvWorld) option" where
  "handle_GET_GLOBAL_KV m dout w = answer (case kv_Get (kw_now w) (MapPack_GetText m ''key'') (kw_global w) of
     Some v \<Rightarrow> MapPack_PutStr emptyMap ''value'' v
   | None \<Rightarrow> emptyMap) dout w"

definition handle_SET_GLOBAL_KV :: "MapPack \<Rightarrow> dout \<Rightarrow> 'f KvWorld \<Rightarrow> (unit res \<times> dout \<times> 'f KvWorld) option" where
  "handle_SET_GLOBAL_KV m dout w = answer emptyMap dout
     (w\<lparr>kw_global := kv_Set (MapPack_GetText m ''key'') (MapPack_GetText m ''value'') (kw_global w)\<rparr>)"

definition handle_SET_GLOBAL_TTL :: "MapPack \<Rightarrow> dout \<Rightarrow> 'f KvWorld \<Rightarrow> (unit res \<times> dout \<times> 'f KvWorld) option" where
  "handle_SET_GLOBAL_TTL m dout w = answer emptyMap dout
     (w\<lparr>kw_global := kv_SetTTL (kw_now w) (MapPack_GetText m ''key'') (MapPack_GetText m ''value'') (MapPack_GetLong m ''ttl'') (kw_global w)\<rparr>)"

definition handle_GET_CUSTOM_KV :: "MapPack \<Rightarrow> dout \<Rightarrow> 'f KvWorld \<Rightarrow> (unit res \<times> dout \<times> 'f KvWorld) option" where
  "handle_GET_CUSTOM_KV m dout w = answer (case kv_Get (kw_now w) (MapPack_GetText m ''key'') (kw_custom w) of
     Some v \<Rightarrow> MapPack_PutStr emptyMap ''value'' v
   | None \<Rightarrow> emptyMap) dout w"

definition handle_SET_CUSTOM_KV :: "MapPack \<Rightarrow> dout \<Rightarrow> 'f KvWorld \<Rightarrow> (unit res \<times> dout \<times> 'f KvWorld) option" where
  "handle_SET_CUSTOM_KV m dout w = answer emptyMap dout
     (w\<lparr>kw_custom := kv_Set (MapPack_GetText m ''key'') (MapPack_GetText m ''value'') (kw_custom w)\<rparr>)"

definition handle_SET_CUSTOM_TTL :: "MapPack \<Rightarrow> dout \<Rightarrow> 'f KvWorld \<Rightarrow> (unit res \<times> dout \<times> 'f KvWorld) option" where
  "handle_SET_CUSTOM_TTL m dout w = answer emptyMap dout
     (w\<lparr>kw_custom := kv_SetTTL (kw_now w) (MapPack_GetText m ''key'') (MapPack_GetText m ''value'') (MapPack_GetLong m ''ttl'') (kw_custom w)\<rparr>)"

text \<open>The keys of a bulk request: what is not a text in a list is passed over.\<close>

definition bulk_keys :: "MapPack \<Rightarrow> string list" where
  "bulk_keys m = (case MapPack_Get m ''keys'' of
     Some (ListValue l) \<Rightarrow> List.map_filter (\<lambda>v. case v of Some (TextValue t) \<Rightarrow> Some t | _ \<Rightarrow> None) (elems l)
   | _ \<Rightarrow> [])"

definition bulk_reply :: "string list \<Rightarrow> (string \<rightharpoonup> string) \<Rightarrow> MapPack" where
  "bulk_reply keys result = fold (\<lambda>k response. case result k of Some v \<Rightarrow> MapPack_PutStr response k v | None \<Rightarrow> response) keys emptyMap"

definition handle_GET_GLOBAL_KV_BULK :: "MapPack \<Rightarrow> dout \<Rightarrow> 'f KvWorld \<Rightarrow> (unit res \<times> dout \<times> 'f KvWorld) option" where
  "handle_GET_GLOBAL_KV_BULK m dout w =
     (let result = kv_GetBulk (kw_now w) (bulk_keys m) (kw_global w) in answer (bulk_reply (kw_keys w result) result) dout w)"

text \<open>The pairs of a bulk request, in a map: the last of a key counts.\<close>

definition bulk_pairs :: "MapPack \<Rightarrow> string \<rightharpoonup> string" where
  "bulk_pairs m = fold (\<lambda>(k, v) pairs. case v of Some (TextValue t) \<Rightarrow> pairs(k \<mapsto> t) | _ \<Rightarrow> pairs) (map_Table m) (\<lambda>_. None)"

definition pair_list :: "string list \<Rightarrow> (string \<rightharpoonup> string) \<Rightarrow> (string \<times> string) list" where
  "pair_list keys pairs = List.map_filter (\<lambda>k. map_option (\<lambda>v. (k, v)) (pairs k)) keys"

definition handle_SET_GLOBAL_KV_BULK :: "MapPack \<Rightarrow> dout \<Rightarrow> 'f KvWorld \<Rightarrow> (unit res \<times> dout \<times> 'f KvWorld) option" where
  "handle_SET_GLOBAL_KV_BULK m dout w =
     (let pairs = bulk_pairs m in answer emptyMap dout (w\<lparr>kw_global := kv_SetBulk (pair_list (kw_keys w pairs) pairs) (kw_global w)\<rparr>))"

definition handle_GET_CUSTOM_KV_BULK :: "MapPack \<Rightarrow> dout \<Rightarrow> 'f KvWorld \<Rightarrow> (unit res \<times> dout \<times> 'f KvWorld) option" where
  "handle_GET_CUSTOM_KV_BULK m dout w =
     (let result = kv_GetBulk (kw_now w) (bulk_keys m) (kw_custom w) in answer (bulk_reply (kw_keys w result) result) dout w)"

definition handle_SET_CUSTOM_KV_BULK :: "MapPack \<Rightarrow> dout \<Rightarrow> 'f KvWorld \<Rightarrow> (unit res \<times> dout \<times> 'f KvWorld) option" where
  "handle_SET_CUSTOM_KV_BULK m dout w =
     (let pairs = bulk_pairs m in answer emptyMap dout (w\<lparr>kw_custom := kv_SetBulk (pair_list (kw_keys w pairs) pairs) (kw_custom w)\<rparr>))"

definition kv_handlers :: "(string \<times> 'f KvWorld handler) list" where
  "kv_handlers =
     [(''GET_GLOBAL_KV'', with_param handle_GET_GLOBAL_KV), (''SET_GLOBAL_KV'', with_param handle_SET_GLOBAL_KV),
      (''SET_GLOBAL_TTL'', with_param handle_SET_GLOBAL_TTL), (''GET_CUSTOM_KV'', with_param handle_GET_CUSTOM_KV),
      (''SET_CUSTOM_KV'', with_param handle_SET_CUSTOM_KV), (''SET_CUSTOM_TTL'', with_param handle_SET_CUSTOM_TTL),
      (''GET_GLOBAL_KV_BULK'', with_param handle_GET_GLOBAL_KV_BULK),
      (''SET_GLOBAL_KV_BULK'', with_param handle_SET_GLOBAL_KV_BULK),
      (''GET_CUSTOM_KV_BULK'', with_param handle_GET_CUSTOM_KV_BULK),
      (''SET_CUSTOM_KV_BULK'', with_param handle_SET_CUSTOM_KV_BULK)]"

definition RegisterKVHandlers :: "'f KvWorld Registry \<Rightarrow> 'f KvWorld Registry" where
  "RegisterKVHandlers r = reg_all kv_handlers r"

subsection \<open>The requests on maps with expiries\<close>

record kv_abs =
  ka_global :: kv_spec
  ka_custom :: kv_spec
  ka_now :: i64

definition get_answer :: "int \<Rightarrow> MapPack \<Rightarrow> kv_spec \<Rightarrow> pack list" where
  "get_answer now m kv = [MapPack (case spec_Get now (MapPack_GetText m ''key'') kv of
     Some v \<Rightarrow> MapPack_PutStr emptyMap ''value'' v
   | None \<Rightarrow> emptyMap)]"

definition set_op :: "MapPack \<Rightarrow> kv_op" where
  "set_op m = KvSet (MapPack_GetText m ''key'') (MapPack_GetText m ''value'')"

definition ttl_op :: "i64 \<Rightarrow> MapPack \<Rightarrow> kv_op" where
  "ttl_op now m = KvSetTTL now (MapPack_GetText m ''key'') (MapPack_GetText m ''value'') (MapPack_GetLong m ''ttl'')"

definition kv_request :: "string \<Rightarrow> MapPack \<Rightarrow> kv_abs \<Rightarrow> pack list \<times> kv_abs" where
  "kv_request cmd m s =
     (if cmd = ''GET_GLOBAL_KV'' then (get_answer (sint (ka_now s)) m (ka_global s), s)
      else if cmd = ''GET_CUSTOM_KV'' then (get_answer (sint (ka_now s)) m (ka_custom s), s)
      else ([MapPack emptyMap],
        if cmd = ''SET_GLOBAL_KV'' then s\<lparr>ka_global := spec_do (set_op m) (ka_global s)\<rparr>
        else if cmd = ''SET_CUSTOM_KV'' then s\<lparr>ka_custom := spec_do (set_op m) (ka_custom s)\<rparr>
        else if cmd = ''SET_GLOBAL_TTL'' then s\<lparr>ka_global := spec_do (ttl_op (ka_now s) m) (ka_global s)\<rparr>
        else if cmd = ''SET_CUSTOM_TTL'' then s\<lparr>ka_custom := spec_do (ttl_op (ka_now s) m) (ka_custom s)\<rparr>
        else s))"

definition kv_commands :: "string set" where
  "kv_commands = {''GET_GLOBAL_KV'', ''GET_CUSTOM_KV'', ''SET_GLOBAL_KV'', ''SET_CUSTOM_KV'', ''SET_GLOBAL_TTL'', ''SET_CUSTOM_TTL''}"

lemma in_six: "x \<in> {a, b, c, d, e, f} \<Longrightarrow> (x = a \<Longrightarrow> P) \<Longrightarrow> (x = b \<Longrightarrow> P) \<Longrightarrow> (x = c \<Longrightarrow> P) \<Longrightarrow> (x = d \<Longrightarrow> P) \<Longrightarrow> (x = e \<Longrightarrow> P) \<Longrightarrow> (x = f \<Longrightarrow> P) \<Longrightarrow> P"
  by blast

lemmas kv_command_cases = in_six [where a = "''GET_GLOBAL_KV''" and b = "''GET_CUSTOM_KV''" and c = "''SET_GLOBAL_KV''"
    and d = "''SET_CUSTOM_KV''" and e = "''SET_GLOBAL_TTL''" and f = "''SET_CUSTOM_TTL''", folded kv_commands_def]

text \<open>The strings can be saved and sent, and no expiry reaches the end of the integers.\<close>

definition kv_ok :: "(string \<Rightarrow> bool) \<Rightarrow> string \<Rightarrow> MapPack \<Rightarrow> bool" where
  "kv_ok legal cmd m \<longleftrightarrow> cmd \<in> kv_commands \<and> legal (MapPack_GetText m ''key'') \<and> legal (MapPack_GetText m ''value'') \<and>
     ok_text (MapPack_GetText m ''key'') \<and> ok_text (MapPack_GetText m ''value'') \<and> sint (MapPack_GetLong m ''ttl'') < 2 ^ 62"

definition kw_rep :: "(kv_data \<Rightarrow> 'f) \<Rightarrow> (string \<Rightarrow> bool) \<Rightarrow> 'f KvWorld \<Rightarrow> kv_abs \<Rightarrow> bool" where
  "kw_rep marshal legal w s \<longleftrightarrow> ka_now s = kw_now w \<and> 0 < sint (kw_now w) \<and> sint (kw_now w) < 2 ^ 62 \<and>
     kv_rep marshal (\<lambda>x. legal x \<and> ok_text x) (sint (kw_now w)) (kw_global w) (ka_global s) \<and>
     kv_rep marshal (\<lambda>x. legal x \<and> ok_text x) (sint (kw_now w)) (kw_custom w) (ka_custom s)"

lemma kv_rep_set:
  assumes "kv_rep marshal ok t s m" and "ok k" and "ok v"
  shows "kv_rep marshal ok t (kv_Set k v s) (spec_do (KvSet k v) m)"
  using kv_rep_put [OF assms, of 0 "(v, None)"] by (simp add: kv_Set_def)

lemma kv_rep_ttl:
  assumes "kv_rep marshal ok t s m" and "ok k" and "ok v" and "0 < sint now" and "sint now < 2 ^ 62" and "sint ttl < 2 ^ 62"
  shows "kv_rep marshal ok t (kv_SetTTL now k v ttl s) (spec_do (KvSetTTL now k v ttl) m)"
proof -
  have "sint (now + ttl) = sint now + sint ttl" if "0 < sint ttl"
    using that assms(4-6) by (simp add: sint_word_ariths signed_take_bit_int_eq_self)
  then have "entry_as \<lparr>kv_Value = v, kv_ExpiresAt = if 0 < sint ttl then now + ttl else 0\<rparr>
      (v, if 0 < sint ttl then Some (sint now + sint ttl) else None)"
    using assms(4) by simp
  from kv_rep_put [OF assms(1-3) this] show ?thesis by (simp add: kv_SetTTL_def Let_def)
qed

lemmas kv_handler_defs = handle_GET_GLOBAL_KV_def handle_SET_GLOBAL_KV_def handle_SET_GLOBAL_TTL_def
  handle_GET_CUSTOM_KV_def handle_SET_CUSTOM_KV_def handle_SET_CUSTOM_TTL_def

definition kv_handle :: "string \<Rightarrow> MapPack \<Rightarrow> dout \<Rightarrow> 'f KvWorld \<Rightarrow> (unit res \<times> dout \<times> 'f KvWorld) option" where
  "kv_handle cmd =
     (if cmd = ''GET_GLOBAL_KV'' then handle_GET_GLOBAL_KV else if cmd = ''GET_CUSTOM_KV'' then handle_GET_CUSTOM_KV
      else if cmd = ''SET_GLOBAL_KV'' then handle_SET_GLOBAL_KV else if cmd = ''SET_CUSTOM_KV'' then handle_SET_CUSTOM_KV
      else if cmd = ''SET_GLOBAL_TTL'' then handle_SET_GLOBAL_TTL else handle_SET_CUSTOM_TTL)"

lemma kv_handlers_at: "cmd \<in> kv_commands \<Longrightarrow> map_of kv_handlers cmd = Some (with_param (kv_handle cmd))"
  by (auto simp: kv_commands_def kv_handlers_def kv_handle_def)

lemma kv_serves:
  assumes "kv_ok legal cmd m" and "kw_rep marshal legal w s"
  shows "\<exists>w'. kv_handle cmd m dout w = Some (Ok (), fold reply_pack (fst (kv_request cmd m s)) dout, w') \<and>
    kw_rep marshal legal w' (snd (kv_request cmd m s))"
proof -
  let ?ok = "\<lambda>x. legal x \<and> ok_text x" and ?t = "sint (kw_now w)"
  have r: "ka_now s = kw_now w" "0 < ?t" "?t < 2 ^ 62" "kv_rep marshal ?ok ?t (kw_global w) (ka_global s)"
    "kv_rep marshal ?ok ?t (kw_custom w) (ka_custom s)"
    using assms(2) by (simp_all add: kw_rep_def)
  have k: "?ok (MapPack_GetText m ''key'')" "?ok (MapPack_GetText m ''value'')" "sint (MapPack_GetLong m ''ttl'') < 2 ^ 62"
    using assms(1) by (simp_all add: kv_ok_def)
  have get: "kv_Get (kw_now w) x (kw_global w) = spec_Get ?t x (ka_global s)" "kv_Get (kw_now w) x (kw_custom w) = spec_Get ?t x (ka_custom s)" for x
    using kv_rep_Get [OF r(4)] kv_rep_Get [OF r(5)] by simp_all
  note ops = kv_rep_set [OF r(4) k(1,2)] kv_rep_set [OF r(5) k(1,2)] kv_rep_ttl [OF r(4) k(1,2) r(2,3) k(3)]
    kv_rep_ttl [OF r(5) k(1,2) r(2,3) k(3)]
  note defs = kv_handle_def kv_handler_defs kv_request_def get_answer_def set_op_def ttl_op_def answer_def
  have "cmd \<in> kv_commands" using assms(1) by (simp add: kv_ok_def)
  then show ?thesis
  proof (rule kv_command_cases)
    assume "cmd = ''GET_GLOBAL_KV''"
    then show ?thesis using assms(2) by (simp add: defs get r(1))
  next
    assume "cmd = ''GET_CUSTOM_KV''"
    then show ?thesis using assms(2) by (simp add: defs get r(1))
  next
    assume "cmd = ''SET_GLOBAL_KV''"
    then show ?thesis using ops(1) r by (simp add: defs kw_rep_def del: spec_do.simps)
  next
    assume "cmd = ''SET_CUSTOM_KV''"
    then show ?thesis using ops(2) r by (simp add: defs kw_rep_def del: spec_do.simps)
  next
    assume "cmd = ''SET_GLOBAL_TTL''"
    then show ?thesis using ops(3) r by (simp add: defs kw_rep_def del: spec_do.simps)
  next
    assume "cmd = ''SET_CUSTOM_TTL''"
    then show ?thesis using ops(4) r by (simp add: defs kw_rep_def del: spec_do.simps)
  qed
qed

lemma spec_Get_ok:
  assumes "kv_rep marshal (\<lambda>x. legal x \<and> ok_text x) t st kv" and "spec_Get now x kv = Some v" and "t \<le> now"
  shows "ok_text v"
proof -
  have "key_rep (\<lambda>x. legal x \<and> ok_text x) t x (ks_data st x) (kv x)" using assms(1) by (simp add: kv_rep_def)
  then show ?thesis using assms(2,3)
    by (cases "(\<lambda>x. legal x \<and> ok_text x, t, x, ks_data st x, kv x)" rule: key_rep.cases)
      (auto simp: spec_Get_def split: option.splits if_splits)
qed

lemma ok_emptyMap: "ok_pack (MapPack emptyMap)"
  by (simp add: emptyMap_def ok_array_def)

lemma ok_value_reply: "ok_text v \<Longrightarrow> ok_pack (MapPack (MapPack_PutStr emptyMap ''value'' v))"
  by (simp add: emptyMap_def ok_array_def MapPack_PutStr_def MapPack_Put_def ok_text_def)

lemma kv_spec_ok:
  assumes "kw_rep marshal legal w s" and "p \<in> set (fst (kv_request cmd m s))"
  shows "ok_pack p"
proof -
  let ?ok = "\<lambda>x. legal x \<and> ok_text x" and ?t = "sint (kw_now w)"
  have r: "ka_now s = kw_now w" "kv_rep marshal ?ok ?t (kw_global w) (ka_global s)"
    "kv_rep marshal ?ok ?t (kw_custom w) (ka_custom s)"
    using assms(1) by (simp_all add: kw_rep_def)
  have "ok_pack p" if "p \<in> set (get_answer ?t m (ka_global s)) \<or> p \<in> set (get_answer ?t m (ka_custom s))"
    using that spec_Get_ok [OF r(2)] spec_Get_ok [OF r(3)] ok_emptyMap ok_value_reply
    by (auto simp: get_answer_def split: option.splits simp del: ok_pack.simps)
  then show ?thesis using assms(2) ok_emptyMap by (auto simp: kv_request_def r(1) split: if_splits simp del: ok_pack.simps)
qed

end
