(* ===== verification/XLogService.thy ===== *)
theory XLogService
  imports Requests XLogDb ProfileDb XLogCache
begin

text \<open>
  The xlogs as services: internal/netio/service/handler\_xlog.go and handler\_xlog\_read.go over the cache and the
  databases of the xlogs and profiles.

  The writer and the reader have containers of their own. The environment \<^term>\<open>e\<close> has the zstd library, the local time
  zone, the sort, the order in which a set is iterated, and what the configuration says (or the defaults where there is
  none); \<open>today\<close> is the date of the clock. The parallel lookups of \<open>XLOG_LOAD_BY_TXIDS\<close> are in the order of the request;
  a panic of one is that of the handler here, while in the code its goroutine does not recover.
\<close>

record XLogWorld =
  xs_wr :: XLogWR
  xs_rd :: XLogWR
  xs_profileWR :: ProfileWR
  xs_cache :: XLogCache

record XLogEnv =
  env_dec :: "bytes \<Rightarrow> bytes option"
  env_gdm :: "i64 \<Rightarrow> nat"
  env_srt :: "timed list \<Rightarrow> timed list"
  env_FormatDate :: "i64 \<Rightarrow> string"
  env_DateToMillis :: "string \<Rightarrow> i64"
  env_today :: string
  env_order :: "i32 list \<Rightarrow> i32 list"
  cfg_XLogRealtimeLowerBoundMs :: int
  cfg_XLogPasttimeLowerBoundMs :: int
  cfg_XLogPasttimeMaxCount :: int
  cfg_XLogPasttimeMaxScan :: int
  cfg_ReqSearchXLogMaxCount :: int

type_synonym 'w outcome = "(unit res \<times> dout \<times> 'w) option"

subsection \<open>The writer first, and the reader for what it does not hold\<close>

definition find_xlog :: "XLogEnv \<Rightarrow> string \<Rightarrow> i64 \<Rightarrow> XLogWorld \<Rightarrow> (bytes option res \<times> XLogWorld) option" where
  "find_xlog e date txid w = (case xw_GetByTxid (env_dec e) date txid (xs_wr w) of
     None \<Rightarrow> None
   | Some (Some r, wr) \<Rightarrow> Some (r, w\<lparr>xs_wr := wr\<rparr>)
   | Some (None, wr) \<Rightarrow>
       map_option (\<lambda>(r, rd). (r, w\<lparr>xs_wr := wr, xs_rd := rd\<rparr>)) (xr_GetByTxid (env_dec e) date txid (xs_rd w)))"

text \<open>A failure of a lookup is no answer; a panic is one of the handler.\<close>

definition reply_found :: "bytes option res \<Rightarrow> dout \<Rightarrow> unit res \<times> dout" where
  "reply_found r dout = (case r of
     Ok (Some data) \<Rightarrow> (Ok (), reply_data data dout)
   | Panic q \<Rightarrow> (Panic q, dout)
   | _ \<Rightarrow> (Ok (), dout))"

definition send_xlog :: "XLogEnv \<Rightarrow> string \<Rightarrow> i64 \<Rightarrow> dout \<Rightarrow> XLogWorld \<Rightarrow> XLogWorld outcome" where
  "send_xlog e date txid dout w = map_option (\<lambda>(r, w). let (r, dout) = reply_found r dout in (r, dout, w)) (find_xlog e date txid w)"

definition send_gxid :: "XLogEnv \<Rightarrow> string \<Rightarrow> i64 \<Rightarrow> dout \<Rightarrow> XLogWorld \<Rightarrow> XLogWorld outcome" where
  "send_gxid e date gxid dout w =
     (let reply = (\<lambda>r. case r of Ok ds \<Rightarrow> (Ok (), fold reply_data ds dout) | Err _ \<Rightarrow> (Ok (), dout) | Panic q \<Rightarrow> (Panic q, dout))
      in case xw_ReadByGxid (env_dec e) date gxid (xs_wr w) of
          None \<Rightarrow> None
        | Some (Some r, wr) \<Rightarrow> (let (r, dout) = reply r in Some (r, dout, w\<lparr>xs_wr := wr\<rparr>))
        | Some (None, wr) \<Rightarrow>
            map_option (\<lambda>(r, rd). let (r, dout) = reply r in (r, dout, w\<lparr>xs_wr := wr, xs_rd := rd\<rparr>))
              (xr_ReadByGxid (env_dec e) date gxid (xs_rd w)))"

text \<open>A read of a range with a handler that has a state, forwards or backwards.\<close>

definition read_range ::
    "XLogEnv \<Rightarrow> bool \<Rightarrow> string \<Rightarrow> i64 \<Rightarrow> i64 \<Rightarrow> (bytes \<Rightarrow> 'x \<Rightarrow> bool res \<times> 'x) \<Rightarrow> 'x \<Rightarrow> XLogWorld \<Rightarrow> (unit res \<times> 'x \<times> XLogWorld) option" where
  "read_range e backwards date stime etime handler s w =
     (let dropError = (\<lambda>r. case r of Panic q \<Rightarrow> Panic q | _ \<Rightarrow> Ok ()) in
      case (if backwards then xw_ReadFromEndTime (env_dec e) (env_gdm e) (env_srt e) date stime etime handler s (xs_wr w)
            else xw_ReadByTime (env_dec e) (env_gdm e) (env_srt e) date stime etime handler s (xs_wr w)) of
        None \<Rightarrow> None
      | Some (Some (r, s), wr) \<Rightarrow> Some (dropError r, s, w\<lparr>xs_wr := wr\<rparr>)
      | Some (None, wr) \<Rightarrow>
          map_option (\<lambda>((r, s), rd). (dropError r, s, w\<lparr>xs_wr := wr, xs_rd := rd\<rparr>))
            (if backwards then xr_ReadFromEndTime (env_dec e) (env_gdm e) (env_srt e) date stime etime handler s (xs_rd w)
             else xr_ReadByTime (env_dec e) (env_gdm e) (env_srt e) date stime etime handler s (xs_rd w)))"

text \<open>One part of a handler behind another: the second runs unless the first panics.\<close>

definition and_then :: "'w outcome \<Rightarrow> (dout \<Rightarrow> 'w \<Rightarrow> 'w outcome) \<Rightarrow> 'w outcome" where
  "and_then x f = (case x of
     Some (Ok _, dout, w) \<Rightarrow> f dout w
   | _ \<Rightarrow> x)"

subsection \<open>Lookups\<close>

definition handle_XLOG_READ_BY_TXID :: "XLogEnv \<Rightarrow> MapPack \<Rightarrow> dout \<Rightarrow> XLogWorld \<Rightarrow> XLogWorld outcome" where
  "handle_XLOG_READ_BY_TXID e m dout w = send_xlog e (MapPack_GetText m ''date'') (MapPack_GetLong m ''txid'') dout w"

definition handle_XLOG_READ_BY_GXID :: "XLogEnv \<Rightarrow> MapPack \<Rightarrow> dout \<Rightarrow> XLogWorld \<Rightarrow> XLogWorld outcome" where
  "handle_XLOG_READ_BY_GXID e m dout w = send_gxid e (MapPack_GetText m ''date'') (MapPack_GetLong m ''gxid'') dout w"

definition handle_XLOG_LOAD_BY_GXID :: "XLogEnv \<Rightarrow> MapPack \<Rightarrow> dout \<Rightarrow> XLogWorld \<Rightarrow> XLogWorld outcome" where
  "handle_XLOG_LOAD_BY_GXID e m dout w =
     (let date = env_FormatDate e (MapPack_GetLong m ''stime''); date2 = env_FormatDate e (MapPack_GetLong m ''etime'');
          gxid = MapPack_GetLong m ''gxid''
      in and_then (send_gxid e date gxid dout w)
        (\<lambda>dout w. if date \<noteq> date2 then send_gxid e date2 gxid dout w else Some (Ok (), dout, w)))"

definition handle_QUICKSEARCH_XLOG_LIST :: "XLogEnv \<Rightarrow> MapPack \<Rightarrow> dout \<Rightarrow> XLogWorld \<Rightarrow> XLogWorld outcome" where
  "handle_QUICKSEARCH_XLOG_LIST e m dout w =
     (let date = MapPack_GetText m ''date''; txid = MapPack_GetLong m ''txid''; gxid = MapPack_GetLong m ''gxid''
      in and_then (if txid \<noteq> 0 then send_xlog e date txid dout w else Some (Ok (), dout, w))
        (\<lambda>dout w. if gxid \<noteq> 0 then send_gxid e date gxid dout w else Some (Ok (), dout, w)))"

text \<open>The lookups of a list, all before the first answer.\<close>

fun find_all :: "XLogEnv \<Rightarrow> string \<Rightarrow> value option list \<Rightarrow> XLogWorld \<Rightarrow> (bytes list res \<times> XLogWorld) option" where
  "find_all e date [] w = Some (Ok [], w)"
| "find_all e date (hv # hvs) w = (case hv of
     Some (DecimalValue txid) \<Rightarrow> (case find_xlog e date txid w of
         None \<Rightarrow> None
       | Some (Panic q, w) \<Rightarrow> Some (Panic q, w)
       | Some (Ok (Some data), w) \<Rightarrow> map_option (\<lambda>(r, w). (res_bind r (\<lambda>ds. Ok (data # ds)), w)) (find_all e date hvs w)
       | Some (_, w) \<Rightarrow> find_all e date hvs w)
   | _ \<Rightarrow> find_all e date hvs w)"

definition handle_XLOG_LOAD_BY_TXIDS :: "XLogEnv \<Rightarrow> MapPack \<Rightarrow> dout \<Rightarrow> XLogWorld \<Rightarrow> XLogWorld outcome" where
  "handle_XLOG_LOAD_BY_TXIDS e m dout w = (case MapPack_GetList m ''txid'' of
     None \<Rightarrow> no_answer dout w
   | Some txidLv \<Rightarrow>
       map_option (\<lambda>(r, w). case r of
           Ok results \<Rightarrow> (Ok (), fold reply_data results dout, w)
         | Err _ \<Rightarrow> (Ok (), dout, w)
         | Panic q \<Rightarrow> (Panic q, dout, w)) (find_all e (MapPack_GetText m ''date'') (elems txidLv) w))"

subsection \<open>Ranges of time\<close>

text \<open>The object hashes of a request, \<^const>\<open>None\<close> if it has no list with something in it.\<close>

definition objHash_filter :: "MapPack \<Rightarrow> i32 list option" where
  "objHash_filter m = (case MapPack_Get m ''objHash'' of
     Some (ListValue l) \<Rightarrow>
       if elems l \<noteq> []
       then Some (remdups (List.map_filter (\<lambda>v. case v of Some (DecimalValue d) \<Rightarrow> Some (ucast d) | _ \<Rightarrow> None) (elems l)))
       else None
   | _ \<Rightarrow> None)"

text \<open>The state of the handler of a range: how many were sent, how many were looked at, and the output.\<close>

record range_state =
  rs_cnt :: int
  rs_scanCnt :: int
  rs_dout :: dout

definition send_data :: "bytes \<Rightarrow> range_state \<Rightarrow> bool res \<times> range_state" where
  "send_data data s = (Ok True, s\<lparr>rs_dout := reply_data data (rs_dout s), rs_cnt := rs_cnt s + 1\<rparr>)"

definition dataHandler :: "int \<Rightarrow> int \<Rightarrow> i32 list \<Rightarrow> i32 \<Rightarrow> bytes \<Rightarrow> range_state \<Rightarrow> bool res \<times> range_state" where
  "dataHandler maxCount maxScan objHashFilter limit data s =
     (if rs_cnt s \<ge> maxCount then (Ok False, s)
      else let s = s\<lparr>rs_scanCnt := rs_scanCnt s + 1\<rparr>
      in if rs_scanCnt s > maxScan then (Ok False, s)
      else if objHashFilter \<noteq> [] \<or> 0 < sint limit
      then (case ReadXLogFilterFields data of
          Ok (objHash, elapsed) \<Rightarrow>
            if objHashFilter \<noteq> [] \<and> objHash \<notin> set objHashFilter then (Ok True, s)
            else if 0 < sint limit \<and> sint elapsed \<le> sint limit then (Ok True, s)
            else send_data data s
        | Err _ \<Rightarrow> (Ok True, s)
        | Panic q \<Rightarrow> (Panic q, s))
      else send_data data s)"

definition load_limit :: "XLogEnv \<Rightarrow> MapPack \<Rightarrow> i32" where
  "load_limit e m = (let limit = word_of_int (cfg_XLogPasttimeLowerBoundMs e); limitTime = MapPack_GetInt m ''limit''
     in if sint limit < sint limitTime then limitTime else limit)"

definition load_max :: "XLogEnv \<Rightarrow> MapPack \<Rightarrow> i32" where
  "load_max e m = (let maxCount = MapPack_GetInt m ''max''; serverMax = cfg_XLogPasttimeMaxCount e
     in if sint maxCount \<le> 0 \<or> sint maxCount > serverMax then word_of_int serverMax else maxCount)"

definition tranxLoadTimeGroupHandler :: "XLogEnv \<Rightarrow> MapPack \<Rightarrow> dout \<Rightarrow> XLogWorld \<Rightarrow> XLogWorld outcome" where
  "tranxLoadTimeGroupHandler e m dout w =
     (let objHashFilter = (case objHash_filter m of None \<Rightarrow> [] | Some hs \<Rightarrow> hs);
          handler = dataHandler (sint (load_max e m)) (cfg_XLogPasttimeMaxScan e) objHashFilter (load_limit e m)
      in map_option (\<lambda>(r, s, w). (r, rs_dout s, w))
        (read_range e (MapPack_GetBoolean m ''reverse'') (MapPack_GetText m ''date'') (MapPack_GetLong m ''stime'')
          (MapPack_GetLong m ''etime'') handler \<lparr>rs_cnt = 0, rs_scanCnt = 0, rs_dout = dout\<rparr> w))"

definition searchHandler :: "int \<Rightarrow> i32 \<Rightarrow> bytes \<Rightarrow> range_state \<Rightarrow> bool res \<times> range_state" where
  "searchHandler maxCount objHash data s =
     (if 0 < maxCount \<and> rs_cnt s \<ge> maxCount then (Ok False, s)
      else if objHash \<noteq> 0
      then (case ReadXLogFilterFields data of
          Ok (packObjHash, _) \<Rightarrow> if packObjHash \<noteq> objHash then (Ok True, s) else send_data data s
        | Err _ \<Rightarrow> (Ok True, s)
        | Panic q \<Rightarrow> (Panic q, s))
      else send_data data s)"

definition handle_SEARCH_XLOG_LIST :: "XLogEnv \<Rightarrow> MapPack \<Rightarrow> dout \<Rightarrow> XLogWorld \<Rightarrow> XLogWorld outcome" where
  "handle_SEARCH_XLOG_LIST e m dout w =
     (let stime = MapPack_GetLong m ''stime''; etime = MapPack_GetLong m ''etime'';
          date = env_FormatDate e stime; date2 = env_FormatDate e etime;
          handler = searchHandler (cfg_ReqSearchXLogMaxCount e) (MapPack_GetInt m ''objHash'');
          s = \<lparr>rs_cnt = 0, rs_scanCnt = 0, rs_dout = dout\<rparr>
      in if date = date2 then map_option (\<lambda>(r, s, w). (r, rs_dout s, w)) (read_range e False date stime etime handler s w)
         else let mtime = env_DateToMillis e date2 in
           (case read_range e False date stime (mtime - 1) handler s w of
              None \<Rightarrow> None
            | Some (Ok _, s, w) \<Rightarrow>
                map_option (\<lambda>(r, s, w). (r, rs_dout s, w)) (read_range e False date2 mtime etime handler s w)
            | Some (r, s, w) \<Rightarrow> Some (r, rs_dout s, w)))"

subsection \<open>Profiles\<close>

definition send_profile :: "XLogEnv \<Rightarrow> string \<Rightarrow> i64 \<Rightarrow> dout \<Rightarrow> XLogWorld \<Rightarrow> XLogWorld outcome" where
  "send_profile e date txid dout w =
     map_option (\<lambda>(r, p). (case r of
           Panic q \<Rightarrow> Panic q
         | _ \<Rightarrow> Ok (), case r of
           Ok blocks \<Rightarrow>
             if blocks = [] then dout
             else reply_pack (XLogProfilePack \<lparr>prof_Time = 0, prof_ObjHash = 0, prof_Service = 0, prof_Txid = 0,
               prof_Profile = concat blocks\<rparr>) dout
         | _ \<Rightarrow> dout, w\<lparr>xs_profileWR := p\<rparr>))
       (pw_Read (env_dec e) date txid (-1) (xs_profileWR w))"

definition handle_TRANX_PROFILE :: "XLogEnv \<Rightarrow> MapPack \<Rightarrow> dout \<Rightarrow> XLogWorld \<Rightarrow> XLogWorld outcome" where
  "handle_TRANX_PROFILE e m dout w = send_profile e (MapPack_GetText m ''date'') (MapPack_GetLong m ''txid'') dout w"

definition handle_TRANX_PROFILE_FULL :: "XLogEnv \<Rightarrow> MapPack \<Rightarrow> dout \<Rightarrow> XLogWorld \<Rightarrow> XLogWorld outcome" where
  "handle_TRANX_PROFILE_FULL e m dout w =
     (let date = MapPack_GetText m ''date''
      in send_profile e (if date = '''' then env_today e else date) (MapPack_GetLong m ''txid'') dout w)"

subsection \<open>The newest xlogs\<close>

definition send_recent :: "XLogEnv \<Rightarrow> i32 \<Rightarrow> MapPack \<Rightarrow> dout \<Rightarrow> XLogWorld \<Rightarrow> XLogWorld outcome" where
  "send_recent e limit m dout w =
     (case xc_Get (MapPack_GetLong m ''loop'') (sint (MapPack_GetInt m ''index'')) limit
         (map_option (env_order e) (objHash_filter m)) (xs_cache w) of
        Ok (loop, index, data) \<Rightarrow>
          let outparam = MapPack_PutLong (MapPack_PutLong emptyMap ''loop'' loop) ''index'' (word_of_nat index)
          in Some (Ok (), fold (\<lambda>entry. reply_data (elems (ce_Data entry))) data (reply_pack (MapPack outparam) dout), w)
      | Err _ \<Rightarrow> Some (Ok (), dout, w)
      | Panic q \<Rightarrow> Some (Panic q, dout, w))"

definition handle_TRANX_REAL_TIME_GROUP :: "XLogEnv \<Rightarrow> MapPack \<Rightarrow> dout \<Rightarrow> XLogWorld \<Rightarrow> XLogWorld outcome" where
  "handle_TRANX_REAL_TIME_GROUP e m dout w =
     (let limit = MapPack_GetInt m ''limit''; bound = word_of_int (cfg_XLogRealtimeLowerBoundMs e)
      in send_recent e (if sint limit < sint bound then bound else limit) m dout w)"

definition handle_TRANX_REAL_TIME_GROUP_LATEST :: "XLogEnv \<Rightarrow> MapPack \<Rightarrow> dout \<Rightarrow> XLogWorld \<Rightarrow> XLogWorld outcome" where
  "handle_TRANX_REAL_TIME_GROUP_LATEST e m dout w = send_recent e 0 m dout w"

definition xlog_handlers :: "XLogEnv \<Rightarrow> (string \<times> XLogWorld handler) list" where
  "xlog_handlers e = map (\<lambda>(cmd, f). (cmd, with_param f))
     [(''TRANX_REAL_TIME_GROUP'', handle_TRANX_REAL_TIME_GROUP e),
      (''TRANX_REAL_TIME_GROUP_LATEST'', handle_TRANX_REAL_TIME_GROUP_LATEST e)]"

definition RegisterXLogHandlers :: "XLogEnv \<Rightarrow> XLogWorld Registry \<Rightarrow> XLogWorld Registry" where
  "RegisterXLogHandlers e r = reg_all (xlog_handlers e) r"

definition xlog_read_handlers :: "XLogEnv \<Rightarrow> (string \<times> XLogWorld handler) list" where
  "xlog_read_handlers e = map (\<lambda>(cmd, f). (cmd, with_param f))
     [(''XLOG_READ_BY_TXID'', handle_XLOG_READ_BY_TXID e), (''XLOG_READ_BY_GXID'', handle_XLOG_READ_BY_GXID e),
      (''TRANX_LOAD_TIME_GROUP'', tranxLoadTimeGroupHandler e), (''TRANX_LOAD_TIME_GROUP_V2'', tranxLoadTimeGroupHandler e),
      (''TRANX_PROFILE'', handle_TRANX_PROFILE e), (''TRANX_PROFILE_FULL'', handle_TRANX_PROFILE_FULL e),
      (''XLOG_LOAD_BY_TXIDS'', handle_XLOG_LOAD_BY_TXIDS e), (''XLOG_LOAD_BY_GXID'', handle_XLOG_LOAD_BY_GXID e),
      (''QUICKSEARCH_XLOG_LIST'', handle_QUICKSEARCH_XLOG_LIST e), (''SEARCH_XLOG_LIST'', handle_SEARCH_XLOG_LIST e)]"

definition RegisterXLogReadHandlers :: "XLogEnv \<Rightarrow> XLogWorld Registry \<Rightarrow> XLogWorld Registry" where
  "RegisterXLogReadHandlers e r = reg_all (xlog_read_handlers e) r"

subsection \<open>What a range sends\<close>

text \<open>A property of the state of the handler that every call keeps is kept by a read, whatever the database.\<close>

definition keeps :: "('x \<Rightarrow> bool) \<Rightarrow> ('d \<Rightarrow> 'x \<Rightarrow> bool res \<times> 'x) \<Rightarrow> bool" where
  "keeps P handler \<longleftrightarrow> (\<forall>d s. P s \<longrightarrow> P (snd (handler d s)))"

lemma keeps_by_place: "keeps P handler \<Longrightarrow> keeps P (by_place dec d handler)"
  by (auto simp: keeps_def by_place_def split: res.split)

lemma deliver_keeps: "keeps P handler \<Longrightarrow> P s \<Longrightarrow> P (snd (deliver handler xs s))"
proof (induction xs arbitrary: s)
  case (Cons x xs)
  obtain r s' where h: "handler x s = (r, s')" by fastforce
  then have "P s'" using Cons.prems unfolding keeps_def by (metis snd_conv)
  then show ?case using Cons h by (cases r) (auto split: bool.split)
qed simp

lemma ticks_keeps:
  assumes "ticks gdm srt go step out n t s it = Some (r, s', it')" and "\<And>items s. P s \<Longrightarrow> P (snd (out items s))" and "P s"
  shows "P s'"
  using assms(1,3)
proof (induction n arbitrary: t s it)
  case (Suc n)
  show ?case
  proof (cases "go t")
    case go: True
    show ?thesis
    proof (cases "mt_Get gdm (it_timeBlockHash it) t")
      case (Ok v)
      show ?thesis
      proof (cases "v = 0")
        case True
        then show ?thesis using Suc go Ok by simp
      next
        case False
        then obtain r1 it1 where s: "getSecAll gdm srt t it = Some (r1, it1)"
          using Suc.prems(1) go Ok by (cases "getSecAll gdm srt t it") auto
        show ?thesis
        proof (cases r1)
          case items: (Ok items)
          obtain r2 s2 where o: "out items s = (r2, s2)" by fastforce
          have p: "P s2" using assms(2) [OF Suc.prems(2), of items] o by simp
          show ?thesis using Suc.prems(1) go Ok False s items o p Suc.IH [of _ s2] by (cases r2) (auto split: bool.splits)
        qed (use Suc.prems go Ok False s in auto)
      qed
    qed (use Suc.prems go in auto)
  qed (use Suc.prems in simp)
qed simp

lemma dc_ReadByTime_keeps:
  assumes "dc_ReadByTime dec gdm srt stime etime handler s c = Some ((r, s'), c')" and "keeps P handler" and "P s"
  shows "P s'"
  using assms(1) ticks_keeps [where P = P and out = "deliver (by_place dec (dc_data c) handler)"]
    deliver_keeps [OF keeps_by_place [OF assms(2)]] assms(3)
  by (fastforce simp: dc_ReadByTime_def it_Read_def)

lemma dc_ReadFromEndTime_keeps:
  assumes "dc_ReadFromEndTime dec gdm srt stime etime handler s c = Some ((r, s'), c')" and "keeps P handler" and "P s"
  shows "P s'"
  using assms(1) ticks_keeps [where P = P and out = "\<lambda>items. deliver (by_place dec (dc_data c) handler) (rev items)"]
    deliver_keeps [OF keeps_by_place [OF assms(2)]] assms(3)
  by (fastforce simp: dc_ReadFromEndTime_def ReadFromEnd_def)

lemma dw_read_SomeD: "dw_read k f w = Some (Some y, w') \<Longrightarrow> \<exists>c c'. f c = Some (y, c')"
  by (auto simp: dw_read_def split: option.splits)

lemma xr_readD: "xr_read date nothing f r = Some (y, r') \<Longrightarrow> y = nothing \<or> (\<exists>c c'. f c = Some (y, c'))"
  by (auto simp: xr_read_def split: option.splits prod.splits)

lemma read_range_keeps:
  assumes "read_range e backwards date stime etime handler s w = Some (r, s', w')" and "keeps P handler" and "P s"
  shows "P s'"
proof -
  define f where "f c = (if backwards then dc_ReadFromEndTime (env_dec e) (env_gdm e) (env_srt e) stime etime handler s c
    else dc_ReadByTime (env_dec e) (env_gdm e) (env_srt e) stime etime handler s c)" for c
  have keep: "P s'" if "f c = Some ((r, s'), c')" for c r s' c'
    using that dc_ReadByTime_keeps [OF _ assms(2,3)] dc_ReadFromEndTime_keeps [OF _ assms(2,3)]
    by (auto simp: f_def split: if_splits)
  have w: "(if backwards then xw_ReadFromEndTime (env_dec e) (env_gdm e) (env_srt e) date stime etime handler s (xs_wr w)
      else xw_ReadByTime (env_dec e) (env_gdm e) (env_srt e) date stime etime handler s (xs_wr w)) = dw_read date f (xs_wr w)"
    by (simp add: xw_ReadByTime_def xw_ReadFromEndTime_def f_def [abs_def])
  have rd: "(if backwards then xr_ReadFromEndTime (env_dec e) (env_gdm e) (env_srt e) date stime etime handler s (xs_rd w)
      else xr_ReadByTime (env_dec e) (env_gdm e) (env_srt e) date stime etime handler s (xs_rd w)) = xr_read date (Ok (), s) f (xs_rd w)"
    by (simp add: xr_ReadByTime_def xr_ReadFromEndTime_def f_def [abs_def])
  show ?thesis
  proof (cases "dw_read date f (xs_wr w)")
    case (Some x)
    obtain y wr where x: "x = (y, wr)" by fastforce
    show ?thesis
    proof (cases y)
      case None
      then obtain r1 rd' where "xr_read date (Ok (), s) f (xs_rd w) = Some ((r1, s'), rd')"
        using assms(1) by (auto simp: read_range_def w rd Some x)
      with xr_readD [OF this] keep assms(3) show ?thesis by auto
    next
      case (Some z)
      then obtain r1 where "z = (r1, s')"
        using assms(1) \<open>dw_read date f (xs_wr w) = Some x\<close> by (cases z) (simp add: read_range_def w x)
      with dw_read_SomeD [of date f "xs_wr w" z wr] \<open>dw_read date f (xs_wr w) = Some x\<close> keep show ?thesis by (auto simp: x Some)
    qed
  qed (use assms(1) in \<open>simp add: read_range_def w\<close>)
qed

text \<open>Which xlogs a request wants; the fields are only read if there is something to filter.\<close>

definition wanted :: "i32 list \<Rightarrow> i32 \<Rightarrow> bytes \<Rightarrow> bool" where
  "wanted objHashFilter limit data \<longleftrightarrow> objHashFilter = [] \<and> sint limit \<le> 0 \<or>
     (case ReadXLogFilterFields data of
        Ok (objHash, elapsed) \<Rightarrow> (objHashFilter = [] \<or> objHash \<in> set objHashFilter) \<and> (sint limit \<le> 0 \<or> sint limit < sint elapsed)
      | _ \<Rightarrow> False)"

lemma dataHandler_cases:
  assumes "rs_cnt s < maxCount" and "rs_scanCnt s < maxScan"
  shows "dataHandler maxCount maxScan objs limit data s =
    (let s' = s\<lparr>rs_scanCnt := rs_scanCnt s + 1\<rparr> in
     if wanted objs limit data then send_data data s'
     else (case ReadXLogFilterFields data of Panic q \<Rightarrow> (Panic q, s') | _ \<Rightarrow> (Ok True, s')))"
  using assms by (auto simp: dataHandler_def wanted_def Let_def split: res.split)

text \<open>No read sends more than the count or the scan allows, or anything that is not wanted.\<close>

definition sent_within :: "int \<Rightarrow> int \<Rightarrow> i32 list \<Rightarrow> i32 \<Rightarrow> dout \<Rightarrow> range_state \<Rightarrow> bool" where
  "sent_within maxCount maxScan objs limit dout s \<longleftrightarrow> (\<exists>ds. rs_dout s = fold reply_data ds dout \<and> rs_cnt s = int (length ds) \<and>
     int (length ds) \<le> max 0 maxCount \<and> int (length ds) \<le> rs_scanCnt s \<and> int (length ds) \<le> max 0 maxScan \<and> (\<forall>d \<in> set ds. wanted objs limit d))"

lemma keeps_dataHandler: "keeps (sent_within maxCount maxScan objs limit dout) (dataHandler maxCount maxScan objs limit)"
  unfolding keeps_def
proof (intro allI impI)
  fix d s
  assume "sent_within maxCount maxScan objs limit dout s"
  then obtain ds where ds: "rs_dout s = fold reply_data ds dout" "rs_cnt s = int (length ds)" "int (length ds) \<le> max 0 maxCount"
    "int (length ds) \<le> rs_scanCnt s" "int (length ds) \<le> max 0 maxScan" "\<forall>d \<in> set ds. wanted objs limit d"
    by (auto simp: sent_within_def)
  let ?s = "s\<lparr>rs_scanCnt := rs_scanCnt s + 1\<rparr>"
  have scan: "sent_within maxCount maxScan objs limit dout s" "sent_within maxCount maxScan objs limit dout ?s"
    using ds by (auto simp: sent_within_def)
  show "sent_within maxCount maxScan objs limit dout (snd (dataHandler maxCount maxScan objs limit d s))"
  proof (cases "rs_cnt s < maxCount \<and> rs_scanCnt s < maxScan")
    case True
    have "sent_within maxCount maxScan objs limit dout (snd (send_data d ?s))" if "wanted objs limit d"
      unfolding sent_within_def using ds that True by (intro exI [of _ "ds @ [d]"]) (simp add: send_data_def)
    with True scan show ?thesis by (auto simp: dataHandler_cases Let_def split: res.split)
  next
    case False
    then show ?thesis using scan by (auto simp: dataHandler_def Let_def)
  qed
qed

text \<open>What the handler sends of a list of entries, when none of them makes it panic.\<close>

lemma pass_on_dataHandler:
  assumes "\<forall>d \<in> set ds. \<forall>q. ReadXLogFilterFields d \<noteq> Panic q"
  shows "\<exists>s'. pass_on (dataHandler maxCount maxScan objs limit) ds s = (Ok (), s') \<and>
    rs_dout s' = fold reply_data (take (nat (maxCount - rs_cnt s))
      (filter (wanted objs limit) (take (nat (maxScan - rs_scanCnt s)) ds))) (rs_dout s)"
  using assms
proof (induction ds arbitrary: s)
  case (Cons d ds)
  let ?h = "dataHandler maxCount maxScan objs limit" and ?s = "s\<lparr>rs_scanCnt := rs_scanCnt s + 1\<rparr>"
  show ?case
  proof (cases "rs_cnt s < maxCount \<and> rs_scanCnt s < maxScan")
    case True
    have n: "nat (maxScan - rs_scanCnt s) = Suc (nat (maxScan - (rs_scanCnt s + 1)))"
      "nat (maxCount - rs_cnt s) = Suc (nat (maxCount - (rs_cnt s + 1)))" using True by arith+
    show ?thesis
    proof (cases "wanted objs limit d")
      case w: True
      then have "?h d s = (Ok True, ?s\<lparr>rs_dout := reply_data d (rs_dout s), rs_cnt := rs_cnt s + 1\<rparr>)"
        using True by (simp add: dataHandler_cases Let_def send_data_def)
      then show ?thesis using Cons.IH [of "?s\<lparr>rs_dout := reply_data d (rs_dout s), rs_cnt := rs_cnt s + 1\<rparr>"] Cons.prems w
        by (simp add: n)
    next
      case w: False
      then have "?h d s = (Ok True, ?s)"
        using True Cons.prems by (auto simp: dataHandler_cases Let_def split: res.split)
      then show ?thesis using Cons.IH [of ?s] Cons.prems w n(1) by simp
    qed
  next
    case False
    then show ?thesis by (auto simp: dataHandler_def Let_def)
  qed
qed simp

subsection \<open>The lookups on a history\<close>

text \<open>
  The writer holds the history \<open>ces\<close>, and the reader holds it for the days that the writer does not have open.
\<close>

definition xs_rep :: "XLogEnv \<Rightarrow> (bytes \<Rightarrow> bytes) \<Rightarrow> XLogWorld \<Rightarrow> (bool \<times> xlog_entry) list \<Rightarrow> bool" where
  "xs_rep e enc w ces \<longleftrightarrow> (let H = day_stored enc (env_FormatDate e) ces in
     xw.dw_holds (env_dec e) (env_gdm e) (xs_wr w) H \<and> xw.dw_synced (xs_wr w) \<and>
     (\<exists>R. xw.dw_holds (env_dec e) (env_gdm e) (xs_rd w) R \<and> xw.dw_synced (xs_rd w) \<and>
       (\<forall>date. dw_days (xs_wr w) date = None \<longrightarrow> R date = H date)))"

lemma dw_read_holds:
  assumes "xw.dw_holds dec gdm w H" and "xw.dw_synced w"
    and "\<And>c. dc_holds dec gdm c (H date) \<Longrightarrow> dc_synced c \<Longrightarrow> \<exists>c'. f c = Some (y, c') \<and> dc_holds dec gdm c' (H date) \<and> dc_synced c'"
  shows "\<exists>w'. dw_read date f w = Some (if dw_days w date = None then None else Some y, w') \<and>
    xw.dw_holds dec gdm w' H \<and> xw.dw_synced w' \<and> (\<forall>d. dw_days w' d = None \<longleftrightarrow> dw_days w d = None)"
proof (cases "dw_days w date")
  case None
  then show ?thesis using assms(1,2) by (simp add: dw_read_def)
next
  case (Some c)
  with xw_open [OF assms(1,2) Some] assms(3) obtain c' where
    c': "f c = Some (y, c')" "dc_holds dec gdm c' (H date)" "dc_synced c'" by blast
  then have "xw.dw_holds dec gdm (dw_set date c' w) H" "xw.dw_synced (dw_set date c' w)"
    using xw.dw_set_same [OF assms(1)] xw.dw_set_synced [OF assms(2)] by blast+
  moreover have "\<forall>d. dw_days (dw_set date c' w) d = None \<longleftrightarrow> dw_days w d = None" using Some by (simp add: dw_set_def)
  ultimately show ?thesis using Some c'(1) by (simp add: dw_read_def)
qed

text \<open>A read of the writer, or else of the reader.\<close>

lemma read_both:
  assumes "xs_rep e enc w ces"
    and f: "\<And>c. dc_holds (env_dec e) (env_gdm e) c (day_stored enc (env_FormatDate e) ces date) \<Longrightarrow> dc_synced c \<Longrightarrow>
      \<exists>c'. f c = Some (y, c') \<and> dc_holds (env_dec e) (env_gdm e) c' (day_stored enc (env_FormatDate e) ces date) \<and> dc_synced c'"
    and "day_stored enc (env_FormatDate e) ces date = [] \<Longrightarrow> nothing = y"
  obtains (writer) wr where "dw_read date f (xs_wr w) = Some (Some y, wr)" "xs_rep e enc (w\<lparr>xs_wr := wr\<rparr>) ces"
  | (reader) wr rd where "dw_read date f (xs_wr w) = Some (None, wr)" "xr_read date nothing f (xs_rd w) = Some (y, rd)"
      "xs_rep e enc (w\<lparr>xs_wr := wr, xs_rd := rd\<rparr>) ces"
proof -
  let ?H = "day_stored enc (env_FormatDate e) ces"
  obtain R where R: "xw.dw_holds (env_dec e) (env_gdm e) (xs_wr w) ?H" "xw.dw_synced (xs_wr w)"
    "xw.dw_holds (env_dec e) (env_gdm e) (xs_rd w) R" "xw.dw_synced (xs_rd w)"
    "\<forall>date. dw_days (xs_wr w) date = None \<longrightarrow> R date = ?H date"
    using assms(1) by (auto simp: xs_rep_def Let_def)
  from dw_read_holds [where f = f and y = y, OF R(1,2), of date] f obtain wr where
    wr: "dw_read date f (xs_wr w) = Some (if dw_days (xs_wr w) date = None then None else Some y, wr)"
    "xw.dw_holds (env_dec e) (env_gdm e) wr ?H" "xw.dw_synced wr" "\<forall>d. dw_days wr d = None \<longleftrightarrow> dw_days (xs_wr w) d = None"
    by blast
  show thesis
  proof (cases "dw_days (xs_wr w) date")
    case None
    then have H: "R date = ?H date" using R(5) by blast
    have "\<exists>rd. xr_read date nothing f (xs_rd w) = Some (y, rd) \<and> xw.dw_holds (env_dec e) (env_gdm e) rd R \<and> xw.dw_synced rd"
    proof (rule xr_read_holds [OF R(3,4)])
      show "\<exists>c'. f c = Some (y, c') \<and> dc_holds (env_dec e) (env_gdm e) c' (R date) \<and> dc_synced c'"
        if "dc_holds (env_dec e) (env_gdm e) c (R date)" "dc_synced c" for c
        using f that unfolding H by blast
      show "R date = [] \<Longrightarrow> nothing = y" using assms(3) H by simp
    qed
    then obtain rd where rd: "xr_read date nothing f (xs_rd w) = Some (y, rd)"
      "xw.dw_holds (env_dec e) (env_gdm e) rd R" "xw.dw_synced rd"
      by blast
    have "xs_rep e enc (w\<lparr>xs_wr := wr, xs_rd := rd\<rparr>) ces"
      using wr rd R(5) unfolding xs_rep_def Let_def by auto
    then show thesis using reader wr(1) rd(1) None by simp
  next
    case (Some c)
    have "xs_rep e enc (w\<lparr>xs_wr := wr\<rparr>) ces"
      using wr R(3-5) unfolding xs_rep_def Let_def by auto
    then show thesis using writer wr(1) Some by simp
  qed
qed

lemma find_xlog_rep:
  assumes "xs_rep e enc w ces"
  shows "\<exists>w'. find_xlog e date txid w = Some (Ok (newest_data (env_FormatDate e) ces date txid), w') \<and> xs_rep e enc w' ces"
proof -
  let ?es = "day_stored enc (env_FormatDate e) ces date"
  let ?y = "Ok (map_option (\<lambda>eb. xe_Data (fst eb)) (find (\<lambda>eb. xe_Txid (fst eb) = txid) ?es)) :: bytes option res"
  have y: "?y = Ok (newest_data (env_FormatDate e) ces date txid)"
    unfolding find_day_stored [where f = xe_Data and P = "\<lambda>e. xe_Txid e = txid"] newest_data_def by simp
  have f: "\<exists>c'. dc_GetByTxid (env_dec e) txid c = Some (?y, c') \<and> dc_holds (env_dec e) (env_gdm e) c' ?es \<and> dc_synced c'"
    if "dc_holds (env_dec e) (env_gdm e) c ?es" "dc_synced c" for c
    using dc_GetByTxid_holds [OF that] by blast
  show ?thesis
    unfolding y [symmetric]
    by (rule read_both [OF assms f, where nothing = "Ok None"])
      (auto simp: find_xlog_def xw_GetByTxid_def xr_GetByTxid_def)
qed

lemma send_gxid_rep:
  assumes "xs_rep e enc w ces"
  shows "\<exists>w'. send_gxid e date gxid dout w = Some (Ok (), fold reply_data (gxid_data (env_FormatDate e) ces date gxid) dout, w') \<and>
    xs_rep e enc w' ces"
proof -
  let ?es = "day_stored enc (env_FormatDate e) ces date"
  let ?ds = "map (\<lambda>eb. xe_Data (fst eb)) (filter (\<lambda>eb. xe_Gxid (fst eb) = gxid \<and> gxid \<noteq> 0) ?es)"
  have y: "?ds = gxid_data (env_FormatDate e) ces date gxid"
    unfolding filter_day_stored [where f = xe_Data and P = "\<lambda>e. xe_Gxid e = gxid \<and> gxid \<noteq> 0"] gxid_data_def by simp
  have f: "\<exists>c'. dc_ReadByGxid (env_dec e) gxid c = Some (Ok ?ds, c') \<and> dc_holds (env_dec e) (env_gdm e) c' ?es \<and> dc_synced c'"
    if "dc_holds (env_dec e) (env_gdm e) c ?es" "dc_synced c" for c
    using dc_ReadByGxid_holds [OF that] by blast
  show ?thesis
    unfolding y [symmetric]
    by (rule read_both [OF assms f, where nothing = "Ok []"])
      (auto simp: send_gxid_def xw_ReadByGxid_def xr_ReadByGxid_def Let_def)
qed

lemma find_all_rep:
  assumes "xs_rep e enc w ces"
  shows "\<exists>w'. find_all e date hvs w = Some (Ok (List.map_filter (\<lambda>hv. case hv of
        Some (DecimalValue txid) \<Rightarrow> newest_data (env_FormatDate e) ces date txid
      | _ \<Rightarrow> None) hvs), w') \<and> xs_rep e enc w' ces"
  using assms
proof (induction hvs arbitrary: w)
  case (Cons hv hvs)
  show ?case
  proof (cases "\<exists>txid. hv = Some (DecimalValue txid)")
    case True
    then obtain txid where hv: "hv = Some (DecimalValue txid)" ..
    obtain w1 where w1: "find_xlog e date txid w = Some (Ok (newest_data (env_FormatDate e) ces date txid), w1)" "xs_rep e enc w1 ces"
      using find_xlog_rep [OF Cons.prems] by blast
    with Cons.IH [OF w1(2)] show ?thesis
      by (cases "newest_data (env_FormatDate e) ces date txid") (auto simp: hv List.map_filter_simps)
  next
    case False
    then have "find_all e date (hv # hvs) w = find_all e date hvs w" by (auto split: option.split "value.split")
    with False Cons.IH [OF Cons.prems] show ?thesis
      by (auto simp: List.map_filter_simps split: option.split "value.split")
  qed
qed (simp add: List.map_filter_simps)

definition lookup_data :: "(i64 \<Rightarrow> string) \<Rightarrow> (bool \<times> xlog_entry) list \<Rightarrow> string \<Rightarrow> MapPack \<Rightarrow> bytes list" where
  "lookup_data fmt ces cmd m =
     (let date = MapPack_GetText m ''date''; txid = MapPack_GetLong m ''txid''; gxid = MapPack_GetLong m ''gxid'';
          by_txid = (\<lambda>t. case newest_data fmt ces date t of None \<Rightarrow> [] | Some d \<Rightarrow> [d]);
          day = fmt (MapPack_GetLong m ''stime''); day2 = fmt (MapPack_GetLong m ''etime'')
      in if cmd = ''XLOG_READ_BY_TXID'' then by_txid txid
         else if cmd = ''XLOG_READ_BY_GXID'' then gxid_data fmt ces date gxid
         else if cmd = ''XLOG_LOAD_BY_GXID''
         then gxid_data fmt ces day gxid @ (if day = day2 then [] else gxid_data fmt ces day2 gxid)
         else if cmd = ''QUICKSEARCH_XLOG_LIST'' then (if txid = 0 then [] else by_txid txid) @ gxid_data fmt ces date gxid
         else (case MapPack_GetList m ''txid'' of None \<Rightarrow> [] | Some l \<Rightarrow> List.map_filter (\<lambda>hv. case hv of
                 Some (DecimalValue t) \<Rightarrow> newest_data fmt ces date t
               | _ \<Rightarrow> None) (elems l)))"

definition lookup_commands :: "string set" where
  "lookup_commands = {''XLOG_READ_BY_TXID'', ''XLOG_READ_BY_GXID'', ''XLOG_LOAD_BY_GXID'', ''QUICKSEARCH_XLOG_LIST'', ''XLOG_LOAD_BY_TXIDS''}"

definition lookup_handle :: "XLogEnv \<Rightarrow> string \<Rightarrow> MapPack \<Rightarrow> dout \<Rightarrow> XLogWorld \<Rightarrow> XLogWorld outcome" where
  "lookup_handle e cmd =
     (if cmd = ''XLOG_READ_BY_TXID'' then handle_XLOG_READ_BY_TXID e else if cmd = ''XLOG_READ_BY_GXID'' then handle_XLOG_READ_BY_GXID e
      else if cmd = ''XLOG_LOAD_BY_GXID'' then handle_XLOG_LOAD_BY_GXID e
      else if cmd = ''QUICKSEARCH_XLOG_LIST'' then handle_QUICKSEARCH_XLOG_LIST e else handle_XLOG_LOAD_BY_TXIDS e)"

lemma lookup_handlers_at: "cmd \<in> lookup_commands \<Longrightarrow> map_of (xlog_read_handlers e) cmd = Some (with_param (lookup_handle e cmd))"
  by (auto simp: lookup_commands_def xlog_read_handlers_def lookup_handle_def)

lemma in_five: "x \<in> {a, b, c, d, e} \<Longrightarrow> (x = a \<Longrightarrow> P) \<Longrightarrow> (x = b \<Longrightarrow> P) \<Longrightarrow> (x = c \<Longrightarrow> P) \<Longrightarrow> (x = d \<Longrightarrow> P) \<Longrightarrow> (x = e \<Longrightarrow> P) \<Longrightarrow> P"
  by blast

lemmas lookup_cases = in_five [where a = "''XLOG_READ_BY_TXID''" and b = "''XLOG_READ_BY_GXID''" and c = "''XLOG_LOAD_BY_GXID''"
    and d = "''QUICKSEARCH_XLOG_LIST''" and e = "''XLOG_LOAD_BY_TXIDS''", folded lookup_commands_def]

lemma send_xlog_rep:
  assumes "xs_rep e enc w ces"
  shows "\<exists>w'. send_xlog e date txid dout w = Some (Ok (), fold reply_data
      (case newest_data (env_FormatDate e) ces date txid of None \<Rightarrow> [] | Some d \<Rightarrow> [d]) dout, w') \<and> xs_rep e enc w' ces"
  using find_xlog_rep [OF assms, of date txid] by (auto simp: send_xlog_def reply_found_def Let_def split: option.split)

lemma and_then_rep:
  assumes "\<exists>w'. x = Some (Ok (), fold reply_data ds dout, w') \<and> P w'"
    and "\<And>dout w. P w \<Longrightarrow> \<exists>w'. f dout w = Some (Ok (), fold reply_data ds' dout, w') \<and> P w'"
  shows "\<exists>w'. and_then x f = Some (Ok (), fold reply_data (ds @ ds') dout, w') \<and> P w'"
  using assms by (fastforce simp: and_then_def)

lemma gxid_data_0: "gxid_data fmt ces date 0 = []"
  by (simp add: gxid_data_def)

lemma lookup_serves:
  assumes "cmd \<in> lookup_commands" and "xs_rep e enc w ces"
  shows "\<exists>w'. lookup_handle e cmd m dout w = Some (Ok (), fold reply_data (lookup_data (env_FormatDate e) ces cmd m) dout, w') \<and>
    xs_rep e enc w' ces"
  using assms(1)
proof (rule lookup_cases)
  note sends = send_xlog_rep [OF assms(2)] send_gxid_rep [OF assms(2)]
  assume "cmd = ''XLOG_READ_BY_TXID''"
  then show ?thesis using sends(1) by (simp add: lookup_handle_def handle_XLOG_READ_BY_TXID_def lookup_data_def)
next
  assume "cmd = ''XLOG_READ_BY_GXID''"
  then show ?thesis using send_gxid_rep [OF assms(2)] by (simp add: lookup_handle_def handle_XLOG_READ_BY_GXID_def lookup_data_def)
next
  let ?d1 = "env_FormatDate e (MapPack_GetLong m ''stime'')" and ?d2 = "env_FormatDate e (MapPack_GetLong m ''etime'')"
  let ?g = "MapPack_GetLong m ''gxid''"
  assume "cmd = ''XLOG_LOAD_BY_GXID''"
  moreover have "\<exists>w'. and_then (send_gxid e ?d1 ?g dout w) (\<lambda>dout w. if ?d1 \<noteq> ?d2 then send_gxid e ?d2 ?g dout w else Some (Ok (), dout, w)) =
      Some (Ok (), fold reply_data (gxid_data (env_FormatDate e) ces ?d1 ?g @ (if ?d1 = ?d2 then [] else gxid_data (env_FormatDate e) ces ?d2 ?g)) dout, w') \<and>
      xs_rep e enc w' ces"
    by (rule and_then_rep [OF send_gxid_rep [OF assms(2)]]) (simp add: send_gxid_rep)
  ultimately show ?thesis by (simp add: lookup_handle_def handle_XLOG_LOAD_BY_GXID_def lookup_data_def Let_def)
next
  let ?d = "MapPack_GetText m ''date''" and ?t = "MapPack_GetLong m ''txid''" and ?g = "MapPack_GetLong m ''gxid''"
  assume "cmd = ''QUICKSEARCH_XLOG_LIST''"
  moreover have "\<exists>w'. and_then (if ?t \<noteq> 0 then send_xlog e ?d ?t dout w else Some (Ok (), dout, w))
      (\<lambda>dout w. if ?g \<noteq> 0 then send_gxid e ?d ?g dout w else Some (Ok (), dout, w)) =
      Some (Ok (), fold reply_data ((if ?t = 0 then [] else case newest_data (env_FormatDate e) ces ?d ?t of None \<Rightarrow> [] | Some d \<Rightarrow> [d]) @
        gxid_data (env_FormatDate e) ces ?d ?g) dout, w') \<and> xs_rep e enc w' ces"
    by (rule and_then_rep) (use assms(2) in \<open>auto simp: send_gxid_rep gxid_data_0 intro: send_xlog_rep\<close>)
  ultimately show ?thesis by (simp add: lookup_handle_def handle_QUICKSEARCH_XLOG_LIST_def lookup_data_def Let_def)
next
  assume "cmd = ''XLOG_LOAD_BY_TXIDS''"
  then show ?thesis
    using assms(2) find_all_rep [OF assms(2)]
    by (fastforce simp: lookup_handle_def handle_XLOG_LOAD_BY_TXIDS_def lookup_data_def no_answer_def split: option.split)
qed

text \<open>A writer that ran, and a reader that opens what a closed writer leaves, hold the history of the writes.\<close>

lemma xs_rep_run:
  assumes "\<And>d. env_dec e (enc d) = Some d" and "ok_writes enc (ops_entries ops)"
    and "xs_wr w = xw_run enc (env_gdm e) (env_FormatDate e) ops dw_new" and "xs_rd w = xw_Close (xs_wr w)"
  shows "xs_rep e enc w (ops_entries ops)"
  unfolding xs_rep_def Let_def assms(3,4)
  using xw_run_holds [OF assms(1,2), of "env_gdm e" "env_FormatDate e"] xw_close_reader by blast

definition request_filter :: "MapPack \<Rightarrow> i32 list" where
  "request_filter m = (case objHash_filter m of None \<Rightarrow> [] | Some hs \<Rightarrow> hs)"

lemma load_bounded:
  assumes "tranxLoadTimeGroupHandler e m dout w = Some (r, dout', w')"
  shows "\<exists>ds. dout' = fold reply_data ds dout \<and> int (length ds) \<le> max 0 (sint (load_max e m)) \<and>
    int (length ds) \<le> max 0 (cfg_XLogPasttimeMaxScan e) \<and> (\<forall>d \<in> set ds. wanted (request_filter m) (load_limit e m) d)"
proof -
  let ?P = "sent_within (sint (load_max e m)) (cfg_XLogPasttimeMaxScan e) (request_filter m) (load_limit e m) dout"
  obtain s where s: "rs_dout s = dout'" "read_range e (MapPack_GetBoolean m ''reverse'') (MapPack_GetText m ''date'') (MapPack_GetLong m ''stime'')
      (MapPack_GetLong m ''etime'') (dataHandler (sint (load_max e m)) (cfg_XLogPasttimeMaxScan e) (request_filter m) (load_limit e m))
      \<lparr>rs_cnt = 0, rs_scanCnt = 0, rs_dout = dout\<rparr> w = Some (r, s, w')"
    using assms by (auto simp: tranxLoadTimeGroupHandler_def Let_def request_filter_def)
  have "?P \<lparr>rs_cnt = 0, rs_scanCnt = 0, rs_dout = dout\<rparr>"
    unfolding sent_within_def by (intro exI [of _ "[]"]) simp
  from read_range_keeps [OF s(2) keeps_dataHandler this] show ?thesis
    using s(1) by (auto simp: sent_within_def)
qed

lemma load_exact:
  assumes "\<And>d. env_dec e (enc d) = Some d" and "ok_writes enc (ops_entries ops)"
    and w: "xs_wr w = xw_run enc (env_gdm e) (env_FormatDate e) ops dw_new"
    and "dw_days (xs_wr w) date \<noteq> None" and "sorts (env_srt e)" and "local_day (env_gdm e) mid"
    and "\<forall>ce \<in> set (day_entries (env_FormatDate e) (ops_entries ops) date). of_day mid (xe_Time (snd ce), [])"
    and m: "MapPack_GetText m ''date'' = date" "MapPack_GetLong m ''stime'' = stime" "MapPack_GetLong m ''etime'' = etime"
      "\<not> MapPack_GetBoolean m ''reverse''"
    and "0 < sint stime" and "range_reach mid stime etime"
    and whole: "\<forall>ce \<in> set (ops_entries ops). \<forall>q. ReadXLogFilterFields (xe_Data (snd ce)) \<noteq> Panic q"
  shows "\<exists>ys w'. mset ys = filter_mset (\<lambda>x. in_buckets mid stime etime (xe_Time x, []))
        (mset (map snd (day_entries (env_FormatDate e) (ops_entries ops) date))) \<and>
    sorted (map (\<lambda>x. sint (xe_Time x)) ys) \<and>
    tranxLoadTimeGroupHandler e m dout w = Some (Ok (), fold reply_data (take (nat (sint (load_max e m)))
      (filter (wanted (request_filter m) (load_limit e m)) (take (nat (cfg_XLogPasttimeMaxScan e)) (map xe_Data ys)))) dout, w')"
proof -
  let ?h = "dataHandler (sint (load_max e m)) (cfg_XLogPasttimeMaxScan e) (request_filter m) (load_limit e m)"
  let ?s = "\<lparr>rs_cnt = 0, rs_scanCnt = 0, rs_dout = dout\<rparr>"
  obtain ys wr where ys: "mset ys = filter_mset (\<lambda>x. in_buckets mid stime etime (xe_Time x, []))
        (mset (map snd (day_entries (env_FormatDate e) (ops_entries ops) date)))"
    "sorted (map (\<lambda>x. sint (xe_Time x)) ys)"
    "xw_ReadByTime (env_dec e) (env_gdm e) (env_srt e) date stime etime ?h ?s (xs_wr w) = Some (Some (pass_on ?h (map xe_Data ys) ?s), wr)"
    using xw_run_ReadByTime [OF assms(1,2) _ assms(5,6) assms(12,13), of "env_FormatDate e" date ?h ?s] assms(4,7) unfolding w by blast
  have "set ys \<subseteq> set (map snd (day_entries (env_FormatDate e) (ops_entries ops) date))"
    using arg_cong [OF ys(1), of set_mset] by auto
  then have "\<forall>d \<in> set (map xe_Data ys). \<forall>q. ReadXLogFilterFields d \<noteq> Panic q"
    using whole by (fastforce simp: day_entries_def)
  from pass_on_dataHandler [OF this, of "sint (load_max e m)" "cfg_XLogPasttimeMaxScan e" "request_filter m" "load_limit e m" ?s]
  obtain s' where "pass_on ?h (map xe_Data ys) ?s = (Ok (), s')"
    "rs_dout s' = fold reply_data (take (nat (sint (load_max e m)))
      (filter (wanted (request_filter m) (load_limit e m)) (take (nat (cfg_XLogPasttimeMaxScan e)) (map xe_Data ys)))) dout"
    by auto
  then have "tranxLoadTimeGroupHandler e m dout w = Some (Ok (), fold reply_data (take (nat (sint (load_max e m)))
      (filter (wanted (request_filter m) (load_limit e m)) (take (nat (cfg_XLogPasttimeMaxScan e)) (map xe_Data ys)))) dout, w\<lparr>xs_wr := wr\<rparr>)"
    using ys(3) m by (simp add: tranxLoadTimeGroupHandler_def read_range_def Let_def flip: request_filter_def)
  with ys(1,2) show ?thesis by blast
qed

end
