(* ===== verification/Services.thy ===== *)
theory Services
  imports AgentCalls Accounts KvService XLogService PackCores
begin

text \<open>
  The services together: the state of the handlers that are modelled, their registration, and the conversations of a
  client with them.
\<close>

record 'f ServiceWorld =
  svc_login :: "'f LoginWorld"
  svc_kv :: "'f KvWorld"
  svc_xlog :: XLogWorld

definition lift_handlers :: "('w \<Rightarrow> 's) \<Rightarrow> ('s \<Rightarrow> 'w \<Rightarrow> 'w) \<Rightarrow> (string \<times> 's handler) list \<Rightarrow> (string \<times> 'w handler) list" where
  "lift_handlers get put hs = map (\<lambda>(cmd, h). (cmd, along get put h)) hs"

definition account_services :: "LoginConfig \<Rightarrow> string \<Rightarrow> 'f Xml \<Rightarrow> (string \<times> 'f ServiceWorld handler) list" where
  "account_services cfg version xml = lift_handlers svc_login (\<lambda>x w. w\<lparr>svc_login := x\<rparr>)
     (login_handlers cfg version @ login_ext_handlers @ account_handlers xml)"

definition kv_services :: "(string \<times> 'f ServiceWorld handler) list" where
  "kv_services = lift_handlers svc_kv (\<lambda>x w. w\<lparr>svc_kv := x\<rparr>) kv_handlers"

definition xlog_services :: "XLogEnv \<Rightarrow> (string \<times> 'f ServiceWorld handler) list" where
  "xlog_services e = lift_handlers svc_xlog (\<lambda>x w. w\<lparr>svc_xlog := x\<rparr>) (xlog_handlers e @ xlog_read_handlers e)"

text \<open>The registration over the handlers \<open>rest\<close> of the services that are not modelled.\<close>

definition service_registry ::
    "LoginConfig \<Rightarrow> string \<Rightarrow> 'f Xml \<Rightarrow> XLogEnv \<Rightarrow> 'f ServiceWorld Registry \<Rightarrow> 'f ServiceWorld Registry" where
  "service_registry cfg version xml e rest =
     reg_all (account_services cfg version xml @ xlog_services e @ kv_services) rest"

definition svc_OkSession :: "i64 \<Rightarrow> 'f ServiceWorld \<Rightarrow> bool" where
  "svc_OkSession session w = sm_OkSession session (lw_sm (svc_login w))"

lemma lift_names [simp]: "map fst (lift_handlers get put hs) = map fst hs"
  by (simp add: lift_handlers_def comp_def case_prod_unfold)

lemma lift_at: "map_of (lift_handlers get put hs) cmd = map_option (along get put) (map_of hs cmd)"
  by (induction hs) (auto simp: lift_handlers_def)

lemma service_names: "distinct (map fst (account_services cfg version xml @ xlog_services e @ kv_services))"
  by (simp add: account_services_def xlog_services_def kv_services_def login_handlers_def login_ext_handlers_def
      account_handlers_def xlog_handlers_def xlog_read_handlers_def kv_handlers_def)

subsection \<open>Connections of the account and key-value services end\<close>

lemma login_handlers_return:
  assumes "(cmd, h) \<in> set (login_handlers cfg version @ login_ext_handlers @ account_handlers xml)"
  shows "returns h"
  using assms
  by (auto simp: login_handlers_def login_ext_handlers_def account_handlers_def login_handler_defs handle_LOGIN_def
      handle_ADD_ACCOUNT_def handle_EDIT_ACCOUNT_def handle_CHECK_ACCOUNT_ID_def handle_EDIT_GROUP_POLICY_def
      handle_ADD_ACCOUNT_GROUP_def on_accounts_def answer_def Let_def case_prod_unfold
      intro!: returns_param returns_any returns_none split: option.splits "value.splits")

lemma kv_handlers_return: "(cmd, h) \<in> set kv_handlers \<Longrightarrow> returns h"
  by (auto simp: kv_handlers_def kv_handler_defs handle_GET_GLOBAL_KV_BULK_def handle_SET_GLOBAL_KV_BULK_def
      handle_GET_CUSTOM_KV_BULK_def handle_SET_CUSTOM_KV_BULK_def answer_def Let_def intro!: returns_param)

lemma lifted_return:
  assumes "\<And>cmd h. (cmd, h) \<in> set hs \<Longrightarrow> returns h" and "map_of (lift_handlers get put hs) cmd = Some h"
  shows "returns h"
  using assms by (auto simp: lift_at dest!: map_of_SomeD intro: returns_along)

definition account_registry :: "LoginConfig \<Rightarrow> string \<Rightarrow> 'f Xml \<Rightarrow> 'f ServiceWorld Registry" where
  "account_registry cfg version xml = reg_all (account_services cfg version xml @ kv_services) NewRegistry"

lemma account_registry_returns:
  assumes "reg_Get (account_registry cfg version xml) cmd = Some h"
  shows "returns h"
proof -
  have "distinct (map fst (account_services cfg version xml @ (kv_services :: (string \<times> 'a ServiceWorld handler) list)))"
    by (simp add: account_services_def kv_services_def login_handlers_def login_ext_handlers_def account_handlers_def kv_handlers_def)
  from reg_all_Get [OF this, of NewRegistry cmd] assms
  have "map_of (account_services cfg version xml @ kv_services) cmd = Some h"
    by (auto simp: account_registry_def reg_Get_def NewRegistry_def split: option.splits)
  then consider "map_of (account_services cfg version xml) cmd = Some h" | "map_of kv_services cmd = Some h"
    by (auto simp: map_add_def split: option.splits)
  then show ?thesis
  proof cases
    case 1
    show ?thesis by (rule lifted_return [OF _ 1 [unfolded account_services_def]]) (erule login_handlers_return)
  next
    case 2
    show ?thesis by (rule lifted_return [OF _ 2 [unfolded kv_services_def]]) (erule kv_handlers_return)
  qed
qed

interpretation acc: returning_services svc_OkSession "account_registry cfg version xml"
  by unfold_locales (rule account_registry_returns)

subsection \<open>Sessions come from logins\<close>

lemma lifted_keeps:
  assumes "map_of (lift_handlers get put hs) cmd = Some h" and "\<And>x w. f (put x w) = f w" and "h din dout login w = Some (r, din', dout', w')"
  shows "f w' = f w"
  using assms by (auto simp: lift_at along_def split: option.splits)

text \<open>No handler but that of a login changes the sessions, whatever it reads.\<close>

definition keeps_sessions :: "'f LoginWorld handler \<Rightarrow> bool" where
  "keeps_sessions h \<longleftrightarrow> (\<forall>din dout login w r din' dout' w'. h din dout login w = Some (r, din', dout', w') \<longrightarrow>
     sm_sessions (lw_sm w') = sm_sessions (lw_sm w))"

lemma keeps_sessions_with:
  "(\<And>m dout w r dout' w'. f m dout w = Some (r, dout', w') \<Longrightarrow> sm_sessions (lw_sm w') = sm_sessions (lw_sm w)) \<Longrightarrow>
    keeps_sessions (with_param f)"
  "(\<And>dout w r dout' w'. g dout w = Some (r, dout', w') \<Longrightarrow> sm_sessions (lw_sm w') = sm_sessions (lw_sm w)) \<Longrightarrow>
    keeps_sessions (with_any g) \<and> keeps_sessions (with_none g)"
  by (auto simp: keeps_sessions_def with_param_def with_any_def with_none_def split: prod.splits res.splits pack.splits)

lemma account_handlers_keep:
  assumes "(cmd, h) \<in> set (login_handlers cfg version @ login_ext_handlers @ account_handlers xml)" and "cmd \<noteq> ''LOGIN''"
  shows "keeps_sessions h"
proof -
  have "\<And>m dout w r dout' w'. handle_EDIT_GROUP_POLICY xml m dout w = Some (r, dout', w') \<Longrightarrow>
      sm_sessions (lw_sm w') = sm_sessions (lw_sm w)"
    by (auto simp: handle_EDIT_GROUP_POLICY_def answer_def dest: on_accounts_sessions split: option.splits "value.splits")
  then show ?thesis using assms
    by (auto simp: login_handlers_def login_ext_handlers_def account_handlers_def handle_ADD_ACCOUNT_def handle_EDIT_ACCOUNT_def
        handle_CHECK_ACCOUNT_ID_def handle_ADD_ACCOUNT_GROUP_def Let_def
        dest: on_accounts_sessions other_handlers_sessions
        intro!: keeps_sessions_with(1) keeps_sessions_with(2) [THEN conjunct1] keeps_sessions_with(2) [THEN conjunct2])
qed

lemma account_handler_sessions:
  assumes "map_of (login_handlers cfg version @ login_ext_handlers @ account_handlers xml) cmd = Some h"
    and "h din dout login w = Some (r, din', dout', w')" and "sm_OkSession s (lw_sm w')"
  shows "sm_OkSession s (lw_sm w) \<or> cmd = ''LOGIN'' \<and> (\<exists>m. fst (ReadPack din) = Ok (MapPack m) \<and>
    authorized (MapPack_GetText m ''id'') (MapPack_GetText m ''pass'') (lw_sm w) \<and> s = generateSession (lw_random w))"
proof (cases "cmd = ''LOGIN''")
  case True
  then have h: "h = with_param (handle_LOGIN cfg version)" using assms(1) by (simp add: login_handlers_def)
  show ?thesis
  proof (cases "\<exists>m. fst (ReadPack din) = Ok (MapPack m)")
    case True
    then obtain m d where m: "ReadPack din = (Ok (MapPack m), d)" by (cases "ReadPack din") auto
    then have "handle_LOGIN cfg version m dout w = Some (r, dout', w')" using assms(2) by (auto simp: h with_param_def)
    from LOGIN_sessions [OF this] m assms(3) \<open>cmd = ''LOGIN''\<close> show ?thesis by auto
  next
    case False
    then have "w' = w" using assms(2) by (auto simp: h with_param_def split: prod.splits res.splits pack.splits)
    then show ?thesis using assms(3) by simp
  qed
next
  case False
  then show ?thesis using account_handlers_keep [OF map_of_SomeD [OF assms(1)]] assms(2,3)
    by (auto simp: keeps_sessions_def sm_OkSession_def)
qed

lemma session_by_login:
  assumes "serve (service_registry cfg version xml e NewRegistry) cmd din dout login w = Some (r, din', dout', w')"
    and "svc_OkSession s w'"
  shows "svc_OkSession s w \<or> cmd = ''LOGIN'' \<and> (\<exists>m. fst (ReadPack din) = Ok (MapPack m) \<and>
    authorized (MapPack_GetText m ''id'') (MapPack_GetText m ''pass'') (lw_sm (svc_login w)) \<and>
    s = generateSession (lw_random (svc_login w)))"
proof -
  have same: "svc_login w' = svc_login w \<Longrightarrow> ?thesis" using assms(2) by (simp add: svc_OkSession_def)
  show ?thesis
  proof (cases "map_of (account_services cfg version xml @ xlog_services e @ kv_services) cmd")
    case None
    then have "reg_Get (service_registry cfg version xml e NewRegistry) cmd = None"
      unfolding service_registry_def reg_all_Get [OF service_names] None by (simp add: reg_Get_def NewRegistry_def)
    then have "w' = w" using assms(1) by (auto simp: serve_def split: prod.splits res.splits)
    then show ?thesis using same by simp
  next
    case (Some h)
    then have h: "h din dout login w = Some (r, din', dout', w')"
      using assms(1) by (simp add: serve_def service_registry_def reg_all_Get [OF service_names])
    from Some consider "map_of (account_services cfg version xml) cmd = Some h" | "map_of (xlog_services e) cmd = Some h" | "map_of kv_services cmd = Some h"
      by (auto simp: map_add_def split: option.splits)
    then show ?thesis
    proof cases
      case 1
      then obtain h' where "map_of (login_handlers cfg version @ login_ext_handlers @ account_handlers xml) cmd = Some h'"
        and h': "h = along svc_login (\<lambda>x w. w\<lparr>svc_login := x\<rparr>) h'"
        by (auto simp: account_services_def lift_at simp del: map_of_append)
      note a = account_handler_sessions [OF this(1)]
      obtain x where "h' din dout login (svc_login w) = Some (r, din', dout', x)" "w' = w\<lparr>svc_login := x\<rparr>"
        using h by (auto simp: h' along_def)
      with a [of din dout login "svc_login w" r din' dout' x s] assms(2) show ?thesis by (simp add: svc_OkSession_def)
    next
      case 2
      show ?thesis by (rule same, rule lifted_keeps [OF 2 [unfolded xlog_services_def] _ h]) simp
    next
      case 3
      show ?thesis by (rule same, rule lifted_keeps [OF 3 [unfolded kv_services_def] _ h]) simp
    qed
  qed
qed

subsection \<open>Conversations\<close>

text \<open>
  The abstract state: the two maps of the key-value stores with the clock, and the history of the xlogs. \<open>pk\<close> says which
  pack the bytes of an xlog are.
\<close>

record service_abs =
  sa_kv :: kv_abs
  sa_xlogs :: "(bool \<times> xlog_entry) list"

definition svc_ok :: "(string \<Rightarrow> bool) \<Rightarrow> string \<Rightarrow> MapPack \<Rightarrow> bool" where
  "svc_ok legal cmd m \<longleftrightarrow> kv_ok legal cmd m \<or> cmd \<in> lookup_commands"

definition svc_spec :: "(i64 \<Rightarrow> string) \<Rightarrow> (bytes \<Rightarrow> pack) \<Rightarrow> string \<Rightarrow> MapPack \<Rightarrow> service_abs \<Rightarrow> pack list \<times> service_abs" where
  "svc_spec fmt pk cmd m s =
     (if cmd \<in> kv_commands then (let (ps, kv) = kv_request cmd m (sa_kv s) in (ps, s\<lparr>sa_kv := kv\<rparr>))
      else (map pk (lookup_data fmt (sa_xlogs s) cmd m), s))"

definition packs_of :: "(bytes \<Rightarrow> pack) \<Rightarrow> (bool \<times> xlog_entry) list \<Rightarrow> bool" where
  "packs_of pk ces \<longleftrightarrow> (\<forall>ce \<in> set ces. ok_pack (pk (xe_Data (snd ce))) \<and> pack_bytes (pk (xe_Data (snd ce))) = xe_Data (snd ce))"

definition svc_rep ::
    "(kv_data \<Rightarrow> 'f) \<Rightarrow> (string \<Rightarrow> bool) \<Rightarrow> XLogEnv \<Rightarrow> (bytes \<Rightarrow> bytes) \<Rightarrow> (bytes \<Rightarrow> pack) \<Rightarrow> i64 set \<Rightarrow> 'f ServiceWorld \<Rightarrow> service_abs \<Rightarrow> bool" where
  "svc_rep marshal legal e enc pk sessions w s \<longleftrightarrow> (\<forall>x \<in> sessions. svc_OkSession x w) \<and>
     kw_rep marshal legal (svc_kv w) (sa_kv s) \<and> xs_rep e enc (svc_xlog w) (sa_xlogs s) \<and> packs_of pk (sa_xlogs s)"

lemma reply_data_pack: "ok_pack p \<Longrightarrow> reply_data (pack_bytes p) = reply_pack p"
proof -
  assume "ok_pack p"
  then obtain bs where "emits (WritePack p) bs" using wire_pack by (auto elim: wireE)
  then have "WritePack p = Write (pack_bytes p)" by (auto simp: fun_eq_iff pack_bytes_def emits_ToByteArray dest: emitsD)
  then show ?thesis by (simp add: fun_eq_iff reply_data_def reply_pack_def)
qed

lemma find_in: "find P xs = Some x \<Longrightarrow> x \<in> set xs"
  by (auto simp: find_Some_iff)

lemma newest_data_in: "newest_data fmt ces date txid = Some d \<Longrightarrow> \<exists>ce \<in> set ces. xe_Data (snd ce) = d"
  by (force simp: newest_data_def day_entries_def dest!: find_in)

lemma gxid_data_in: "d \<in> set (gxid_data fmt ces date gxid) \<Longrightarrow> \<exists>ce \<in> set ces. xe_Data (snd ce) = d"
  by (auto simp: gxid_data_def day_entries_def)

lemma newest_of_in:
  assumes "d \<in> set (List.map_filter (\<lambda>hv. case hv of Some (DecimalValue t) \<Rightarrow> newest_data fmt ces date t | _ \<Rightarrow> None) hvs)"
  shows "\<exists>ce \<in> set ces. xe_Data (snd ce) = d"
proof -
  from assms obtain hv where "(case hv of Some (DecimalValue t) \<Rightarrow> newest_data fmt ces date t | _ \<Rightarrow> None) = Some d"
    by (auto simp: List.map_filter_def)
  then obtain t where "newest_data fmt ces date t = Some d" by (auto split: option.splits "value.splits")
  then show ?thesis by (rule newest_data_in)
qed

lemma lookup_data_in:
  assumes "d \<in> set (lookup_data fmt ces cmd m)"
  shows "\<exists>ce \<in> set ces. xe_Data (snd ce) = d"
proof -
  have "d \<in> set (if a then x1 else if b then x2 else if c then x3 else if e then x4 else x5) \<Longrightarrow>
      d \<in> set x1 \<union> set x2 \<union> set x3 \<union> set x4 \<union> set x5" for a b c e x1 x2 x3 x4 x5
    by (auto split: if_splits)
  note this [OF assms [unfolded lookup_data_def Let_def]]
  then show ?thesis
    using newest_data_in gxid_data_in newest_of_in by (auto split: if_splits option.splits)
qed

lemma serve_at:
  assumes "map_of (account_services cfg version xml @ xlog_services e @ kv_services) cmd = Some (along get put (with_param f))"
    and "ReadPack din = (Ok (MapPack m), din')" and "f m dout (get w) = Some (r, dout', x)"
  shows "serve (service_registry cfg version xml e rest) cmd din dout login w = Some (r, din', dout', put x w)"
  using assms by (simp add: serve_def service_registry_def reg_all_Get [OF service_names] along_def with_param_def)

lemma kv_not_others:
  assumes "cmd \<in> kv_commands"
  shows "map_of (account_services cfg version xml @ xlog_services e @ kv_services) cmd =
    Some (along svc_kv (\<lambda>x w. w\<lparr>svc_kv := x\<rparr>) (with_param (kv_handle cmd)))"
proof -
  have "cmd \<notin> set (map fst (account_services cfg version xml @ xlog_services e))"
    using assms by (rule kv_command_cases) (simp_all add: account_services_def xlog_services_def login_handlers_def
      login_ext_handlers_def account_handlers_def xlog_handlers_def xlog_read_handlers_def)
  then have "map_of (account_services cfg version xml @ xlog_services e) cmd = None"
    by (simp add: map_of_eq_None_iff)
  then show ?thesis
    by (simp add: kv_services_def lift_at map_add_def kv_handlers_at [OF assms] flip: append_assoc split: option.split)
qed

lemma lookup_not_others:
  assumes "cmd \<in> lookup_commands"
  shows "map_of (account_services cfg version xml @ xlog_services e @ kv_services) cmd =
    Some (along svc_xlog (\<lambda>x w. w\<lparr>svc_xlog := x\<rparr>) (with_param (lookup_handle e cmd)))" and "cmd \<notin> kv_commands"
proof -
  have "cmd \<notin> set (map fst (account_services cfg version xml))" "cmd \<notin> set (map fst (xlog_handlers e))"
    using assms by (rule lookup_cases; simp add: account_services_def login_handlers_def
      login_ext_handlers_def account_handlers_def xlog_handlers_def)+
  then have "map_of (account_services cfg version xml) cmd = None" "map_of (xlog_handlers e) cmd = None"
    by (simp_all add: map_of_eq_None_iff)
  then show "map_of (account_services cfg version xml @ xlog_services e @ kv_services) cmd =
      Some (along svc_xlog (\<lambda>x w. w\<lparr>svc_xlog := x\<rparr>) (with_param (lookup_handle e cmd)))"
    by (simp add: xlog_services_def lift_at map_add_def lookup_handlers_at [OF assms] split: option.split)
  show "cmd \<notin> kv_commands" using assms by (rule lookup_cases) (simp_all add: kv_commands_def)
qed

interpretation svc: services "service_registry cfg version xml e rest" "svc_spec (env_FormatDate e) pk"
  "svc_rep marshal legal e enc pk sessions" "svc_ok legal"
proof
  fix cmd m w s din din' dout login
  assume ok: "svc_ok legal cmd m" and rep: "svc_rep marshal legal e enc pk sessions w s"
    and read: "ReadPack din = (Ok (MapPack m), din')"
  show "\<exists>w'. serve (service_registry cfg version xml e rest) cmd din dout login w =
      Some (Ok (), din', fold reply_pack (fst (svc_spec (env_FormatDate e) pk cmd m s)) dout, w') \<and>
      svc_rep marshal legal e enc pk sessions w' (snd (svc_spec (env_FormatDate e) pk cmd m s))"
  proof (cases "cmd \<in> kv_commands")
    case True
    then have "kv_ok legal cmd m" using ok lookup_not_others(2) by (auto simp: svc_ok_def)
    then obtain x where x: "kv_handle cmd m dout (svc_kv w) = Some (Ok (), fold reply_pack (fst (kv_request cmd m (sa_kv s))) dout, x)"
      "kw_rep marshal legal x (snd (kv_request cmd m (sa_kv s)))"
      using kv_serves rep unfolding svc_rep_def by blast
    from serve_at [OF kv_not_others [OF True] read x(1), where rest = rest and login = login] show ?thesis
      using True x(2) rep by (auto simp: svc_spec_def case_prod_unfold Let_def svc_rep_def svc_OkSession_def)
  next
    case False
    then have l: "cmd \<in> lookup_commands" using ok by (auto simp: svc_ok_def kv_ok_def)
    let ?ds = "lookup_data (env_FormatDate e) (sa_xlogs s) cmd m"
    obtain x where x: "lookup_handle e cmd m dout (svc_xlog w) = Some (Ok (), fold reply_data ?ds dout, x)"
      "xs_rep e enc x (sa_xlogs s)"
      using lookup_serves [OF l] rep unfolding svc_rep_def by blast
    have "reply_data d = reply_pack (pk d)" if "d \<in> set ?ds" for d
      using lookup_data_in [OF that] rep reply_data_pack [of "pk d"] by (auto simp: svc_rep_def packs_of_def)
    then have "fold reply_data ?ds dout = fold reply_pack (map pk ?ds) dout"
      by (auto simp: fold_map intro!: fold_cong)
    with serve_at [OF lookup_not_others(1) [OF l] read x(1), where rest = rest and login = login] show ?thesis
      using False x(2) rep by (auto simp: svc_spec_def svc_rep_def svc_OkSession_def)
  qed
next
  fix cmd m w s p
  assume ok: "svc_ok legal cmd m" and rep: "svc_rep marshal legal e enc pk sessions w s"
    and p: "p \<in> set (fst (svc_spec (env_FormatDate e) pk cmd m s))"
  show "ok_pack p"
  proof (cases "cmd \<in> kv_commands")
    case True
    then show ?thesis using p rep kv_spec_ok [of marshal legal "svc_kv w" "sa_kv s" p cmd m]
      by (simp add: svc_spec_def case_prod_unfold Let_def svc_rep_def)
  next
    case False
    then show ?thesis using p rep lookup_data_in [of _ "env_FormatDate e" "sa_xlogs s" cmd m]
      by (auto simp: svc_spec_def svc_rep_def packs_of_def)
  qed
qed

end
