(* ===== verification/Spec2Isabelle.thy ===== *)
theory Spec2Isabelle
  imports Steps UdpProcessor HashUtil IndexKeyFile IndexTimeFile XLogDb AlertDb ProfileDb AlertCache TextCache Agents
    SqlParser KvStore CounterDb TextDb Visitor TagCount Server Services
    "HOL-Library.Countable"
begin

text \<open>
  The Scouter collector server (scouter-server-go): agents send binary packs in UDP datagrams and over
  TCP; the server decodes them, dispatches each to the handlers of its type, keeps the newest in
  caches for the clients, and stores them per day in files of its own format. This development models
  that path: the wire format, the UDP reassembly, the dispatcher, the caches and the storage engine
  with the databases over it. The theories follow the directories of internal/.

  Conventions. Go's sized integers are words, read by \<open>sint\<close> where they are signed; a length or an
  offset that the code keeps non-negative is a natural number. A fallible function returns \<open>res\<close>: a
  value, an error or a run-time panic. State is passed explicitly, in records named after the structs,
  and a method of a struct with prefix letters of its theory (\<open>kf_Append\<close> is \<open>RealKeyFile.Append\<close>).
  Loops that follow links read from a file are \<open>partial_function (option)\<close>, so not returning is a value,
  and the theorems about them prove that they return. What the code takes from outside is a parameter:
  the clock, the local time zone (\<open>gdm\<close> for \<open>GetDateMillis\<close>, \<open>fmt\<close> for \<open>FormatDate\<close>), the order \<open>sort.Slice\<close>
  gives to equal elements (\<open>srt\<close>), the zstd library (\<open>enc\<close>, \<open>dec\<close>), the victim of an eviction where the
  code iterates over a map.

  Wire format (internal/protocol).
    Prelude, Endian: machine types, results, byte lists, the big-endian conversions of endian.go.
    DataOutput, DataInput: \<open>DataOutputX\<close> and \<open>DataInputX\<close> in buffer and stream mode.
    Codec: the interface between the two, a locale of codecs (\<open>wire\<close>) and the round trip of every
    primitive; composed, it gives the round trip of every structure, in any context and in both modes,
    and its failure on truncated input.
    Values, Steps, XLogPack, Packs: every value, step and pack type with its \<open>Read\<close> and \<open>Write\<close>.
    PackReads: what is known of a pack that was read. C3, C27, C35,
    C36, C37, C38 and the theorems \<open>xlog_of_older_version\<close> and \<open>profile_round_trip\<close>
    are about these.
  UDP (internal/netio/udp, internal/core/dispatcher.go).
    MultiPacket: fragments, their table with its bound, eviction and expiry. UdpProcessor: the frames
    and the dispatch. C6, C26.
  Hashes and decimals (internal/util): HashUtil (\<open>hash_is_crc32\<close>); Decimal: the \<open>itoa\<close> and \<open>atoi\<close> of the databases.
  Storage engine (internal/db/io).
    ChainIndex: the loops and the locales \<open>bucket_table\<close>, \<open>record_file\<close> and \<open>chain_index\<close>; the last
    combines the first two and proves what walking, deleting and appending do to the history of puts.
    MemHashBlock and MemTimeBlock interpret the first, RealKeyFile the second, IndexKeyFile and
    IndexTimeFile the third. DataFile: the data file with its buffered writer, and the framing of
    compressed bodies (internal/db/compress). C5, C9 and C18;
    the theorem \<open>time_range_misses_tail\<close> shows what the ranges lose.
  Databases.
    DayStore: what the writers share, the queue of a goroutine and the map from days to open
    containers, with the locale \<open>day_store\<close>. XLogDb interprets it on the three indexes and the data file
    of internal/db/xlog (C7, C8, C19, \<open>xlog_read_by_time\<close>), AlertDb on the time index and
    data file of internal/db/alert and, under other names, internal/db/summary (C1), ProfileDb on the key index and data file of
    internal/db/profile (C17). KvStore: internal/db/kv against the last write of every key (C20).
    PlaceIndex, IndexReader: a key index that leads to places in a data file, and what a reader sees of
    an index that a writer works on. DailyCounter, CounterDb: internal/db/counter, the five minute and
    the realtime values, with writer and reader (C13, C40, \<open>realtime_counters_wrap\<close>).
    TextTables, TextDb: internal/db/text, the texts by division and hash, writer, reader and the
    rebuilding of an index (C12, \<open>rehash_keeps_texts\<close>). Runes: the \<open>range\<close> loop over a string.
    Visitor: internal/db/visitor, HyperLogLog counters by object and object type, of the day and of the hour, against the
    set of users that were offered (C14, \<open>hourly_visitors\<close>). TagCount: internal/tagcnt, against the list of
    transactions since the last restart or change of the day (C21, \<open>late_transaction_overwrites\<close>).
  Caches (internal/core/cache).
    XLogCache and AlertCache: the rings that clients poll, against the log of everything that was put
    (C31, C32). TextCache: list, map and elements as addresses, against the plain list of the entries
    used last (C30).
  Agents and statements.
    Agents: the object and counter caches, the object types of internal/counter and the agent manager
    of internal/core, as sequences of heartbeats, monitor rounds and touches (C33). SqlParser: the
    parser of internal/util/sql\_parser.go and the table recorder of internal/core (C34). GroupPerf: the group
    of a service and the statistics of the groups over the last seconds (C22, C39).
  The server.
    PackCores: the handlers and goroutines of internal/core, one definition for each, on one state that holds the
    caches and all queues (\<open>span_container\<close>, \<open>samples_to_daily\<close>). Server: the dispatcher that main.go sets up, the whole
    server as a step relation \<open>server_step\<close> with a step for a datagram, for each goroutine of the cores and the
    writers, the sampling, the monitor of the agents and the purging, and the reachable states
    (C2; C1 follows the alerts from the datagram to the file).
  Clients and agents (internal/netio/tcp, internal/netio/service, internal/login).
    Requests: the registry of handlers and \<open>handleClient\<close>, the loop over the requests of a connection. A handler is a
    function of input, output and its state; \<open>with_param\<close> and its like are how the handlers begin, \<open>answer\<close> and \<open>reply_data\<close>
    how they reply. The locale \<open>returning_services\<close> proves that a connection ends, the locale \<open>services\<close> that the
    answers to a conversation are those of an abstract specification (C10, C23).
    AgentCalls: the connections that agents keep open for calls of the server, their pool, the keepalive daemon and the
    calls (C24, C25, C28).
    Accounts: accounts, groups and their files, the sessions, and the handlers of logins and accounts (C11,
    C16; the lemma \<open>EditGroupPolicy_reload\<close> is about the file of the groups). KvService, XLogService: the
    handlers over the key-value stores and over cache and databases of the xlogs (C15,
    C29). Services: the handlers on one state, where the two locales are interpreted (C4).
  Bounds. A key index or a time index is followed as long as its key file stays below \<open>2 ^ 39\<close> bytes, the
  largest position that a 5 byte link holds; the same bound is on a data file. \<open>range_reach\<close> says which
  time ranges the bucket loops cover, and \<open>time_range_misses_tail\<close> that the others lose records. The recursion of
  \<open>ReadValue\<close> has a fuel, the number of bytes left, which is enough because every level reads a byte; the
  fuel error is proved unreachable. Other loops are bounded by the code itself (\<open>SecondsPerDay * 2\<close>
  rounds) or terminate by a measure.

  Not modelled, and why: errors of the operating system (every system call succeeds; what \<open>Read\<close> and
  \<open>ReadAt\<close> return at the end of a file is modelled), logging and statistics, the locks (an operation is
  atomic, as it is under its mutex), the buffer pools, sockets, configuration, HTTP and GeoIP glue, and
  the request handlers of internal/netio/service other than those for logins, accounts, key-value stores and xlogs,
  which translate between packs and databases or caches that are modelled; a registry has them as \<open>rest\<close>. A
  connection ends at the end of its input, which is also what a read deadline makes of it, and its output is what was
  written to the buffered writer. A
  step of \<open>server_step\<close> is one whole turn of a goroutine, so the interleaving inside of a turn is not modelled; the
  floating point estimate of a HyperLogLog counter and the lookup of GeoIP are parameters. The other parts are listed
  with their status in the manifest.
\<close>

section \<open>The protocol\<close>

text \<open>
  C3: a pack written to a buffer by \<open>WritePack\<close> is read back by \<open>ReadPack\<close>, for every one of the
  sixteen pack types; only nil maps, lists and arrays come back as empty ones (\<open>norm_pack\<close>).
\<close>

theorem pack_round_trip:
  assumes "ok_pack p"
  shows "fst (ReadPack (NewDataInputX (ToByteArray (WritePack p NewDataOutputX)))) = Ok (norm_pack p)"
  using assms by (rule pc.round_trip)

definition example_text_pack :: pack where
  "example_text_pack = TextPack \<lparr>text_XType = ''service'', text_Hash = 77, text_Text = ''/index''\<rparr>"

theorem pack_round_trip_witness:
  "fst (ReadPack (NewDataInputX (ToByteArray (WritePack example_text_pack NewDataOutputX)))) =
   Ok (norm_pack example_text_pack)"
  by (rule pack_round_trip) (simp add: example_text_pack_def ok_text_def)

text \<open>
  A sequence of packs written to a stream is read back from the stream pack by pack, and the
  bytes in the stream are those a buffer would hold.
\<close>

theorem pack_stream:
  assumes "\<And>p. p \<in> set ps \<Longrightarrow> ok_pack p"
  shows "fst (rd_times (length ps) ReadPack (NewDataInputXStream
      (out_bytes (fold WritePack ps NewDataOutputXStream)))) = Ok (map norm_pack ps) \<and>
    out_bytes (fold WritePack ps NewDataOutputXStream) = ToByteArray (fold WritePack ps NewDataOutputX)"
proof -
  from pc.wire_list [of ps] assms obtain bs where bs: "emits (fold WritePack ps) bs"
    "consumes (rd_times (length ps) ReadPack) bs (map norm_pack ps)" by (auto elim: wireE)
  have "out_bytes (fold WritePack ps NewDataOutputXStream) = bs"
    using emits_out_bytes [OF bs(1), of NewDataOutputXStream]
    by (simp add: out_bytes_def NewDataOutputXStream_def)
  then show ?thesis
    using consumesD [OF bs(2), of "NewDataInputXStream bs" "[]"]
    by (simp add: emits_ToByteArray [OF bs(1)])
qed

theorem pack_stream_witness:
  "fst (rd_times (length [example_text_pack, example_text_pack]) ReadPack (NewDataInputXStream
      (out_bytes (fold WritePack [example_text_pack, example_text_pack] NewDataOutputXStream)))) =
   Ok (map norm_pack [example_text_pack, example_text_pack])"
  by (rule pack_stream [THEN conjunct1]) (auto simp: example_text_pack_def ok_text_def)

text \<open>
  C27: a pack cut short at any point is not read as another pack: \<open>ReadPack\<close> fails with an
  end-of-data error.
\<close>

theorem pack_truncated:
  assumes "ok_pack p" and "n < length (ToByteArray (WritePack p NewDataOutputX))"
  shows "\<exists>e d. ReadPack (NewDataInputX (take n (ToByteArray (WritePack p NewDataOutputX)))) = (Err e, d) \<and> is_eof e"
  using assms by (rule pc.truncated)

theorem pack_truncated_witness:
  "\<exists>e d. ReadPack (NewDataInputX (take 3 (ToByteArray (WritePack example_text_pack NewDataOutputX)))) =
     (Err e, d) \<and> is_eof e"
  by (rule pack_truncated)
    (simp_all add: example_text_pack_def ok_text_def TextPack_Write_def WritePack_def ToByteArray_def
      NewDataOutputX_def WriteByte_def WriteText_def WriteBlob_def Write_def bytes_of_string_def WriteInt32_def)

text \<open>
  The blob of an agent that knows only the first \<open>k\<close> groups of optional XLog fields is read
  with the fields of those groups as written and every later field zero.
\<close>

theorem xlog_of_older_version:
  assumes "ok_xlog p"
  shows "fst (XLogPack_Read XLogPack_zero (NewDataInputX
      (ToByteArray (write_inner (xlog_version_Write k p) NewDataOutputX)))) = Ok (xlog_version k p)"
proof -
  from wire_xlog_version [OF assms] obtain bs where "emits (write_inner (xlog_version_Write k p)) bs"
    "consumes (XLogPack_Read XLogPack_zero) bs (xlog_version k p)" by (rule wireE)
  then show ?thesis by (simp add: emits_ToByteArray consumesD [where rest = "[]"])
qed

definition example_xlog :: XLogPack where
  "example_xlog = XLogPack_zero\<lparr>xlog_ObjHash := 5, xlog_Elapsed := 1200, xlog_City := 3, xlog_XType := 1\<rparr>"

lemma example_xlog_ok: "ok_xlog example_xlog"
proof -
  have "length (ToByteArray (XLogPack_fields_Write example_xlog NewDataOutputX)) \<le> 100"
    by (simp add: XLogPack_fields_Write_def example_xlog_def XLogPack_zero_def ToByteArray_def
        NewDataOutputX_def WriteByte_def WriteText_def WriteBlob_def Write_def WriteInt32_def
        WriteDecimal_def WriteBoolean_def WriteInt64_def WriteInt16_def)
  then show ?thesis
    by (simp add: ok_xlog_def ok_blob_def) (simp add: example_xlog_def XLogPack_zero_def ok_text_def)
qed

theorem xlog_of_older_version_witness:
  "fst (XLogPack_Read XLogPack_zero (NewDataInputX
      (ToByteArray (write_inner (xlog_version_Write 1 example_xlog) NewDataOutputX)))) =
   Ok (XLogPack_zero\<lparr>xlog_ObjHash := 5, xlog_Elapsed := 1200, xlog_City := 3\<rparr>)"
  using xlog_of_older_version [OF example_xlog_ok, of 1]
  by (simp add: xlog_version_def xlog_groups_def xlog_head_copy_def example_xlog_def XLogPack_zero_def)

text \<open>
  C35: wherever a stored pack can be read in full as an XLog, the partial read
  \<open>ReadXLogFilterFields\<close> of the same bytes finds its object hash and its elapsed time.
\<close>

theorem xlog_filter_fields:
  assumes "fst (ReadPack (NewDataInputX data)) = Ok (XLogPack p)"
  shows "ReadXLogFilterFields data = Ok (xlog_ObjHash p, xlog_Elapsed p)"
  using assms by (rule filter_fields_agree)

theorem xlog_filter_fields_witness:
  "ReadXLogFilterFields (ToByteArray (WritePack (XLogPack example_xlog) NewDataOutputX)) = Ok (5, 1200)"
  using xlog_filter_fields [of "ToByteArray (WritePack (XLogPack example_xlog) NewDataOutputX)" example_xlog]
    pc.round_trip [of "XLogPack example_xlog"]
  by (simp add: example_xlog_ok) (simp add: example_xlog_def)

text \<open>
  C37: \<open>ReadValue\<close> on arbitrary input ends in one of four ways: it returns a value, it reports the
  end of the data, it rejects a type byte that \<open>CreateValue\<close> does not know, or \<open>make\<close> panics on
  a count that the input gives. In particular the recursion always ends.
\<close>

theorem value_read_outcomes:
  "case fst (ReadValue d) of
     Ok v \<Rightarrow> length (pending (snd (ReadValue d))) < length (pending d)
   | Err e \<Rightarrow> is_eof e \<or> (\<exists>t. e = ErrUnknownType t \<and> \<not> is_Ok (CreateValue t))
   | Panic p \<Rightarrow> p = MakeSliceLen"
  using ReadValue_fails [of "Suc (length (pending d))", unfolded fails_def, rule_format, of d]
    takesD [OF takes_ReadValue, of d]
  by (cases "ReadValue d") (auto simp: value_error_def split: res.splits)

text \<open>
  A value, nested to any depth, is read back by \<open>ReadValue\<close> wherever it stands in a buffer or in
  a stream, and the reader stops right after it.
\<close>

theorem value_read_back:
  assumes "ok_value v" and "pending d = ToByteArray (WriteValue v NewDataOutputX) @ rest"
  shows "fst (ReadValue d) = Ok (norm_value v) \<and> pending (snd (ReadValue d)) = rest"
  using vc.read_back [OF assms] vc.Size_put [OF assms(1)] assms(2) by simp

theorem value_read_back_witness:
  "fst (ReadValue (NewDataInputXStream (ToByteArray (WriteValue
      (Some (ListValue (Some [None, Some (DecimalValue 300)]))) NewDataOutputX) @ [1, 2]))) =
    Ok (ListValue (Some [Some NullValue, Some (DecimalValue 300)]))"
  using value_read_back [of "Some (ListValue (Some [None, Some (DecimalValue 300)]))", OF _ pending_New(2)]
  by (simp add: ok_array_def del: WriteValue.simps value_Write.simps)

text \<open>
  The steps of a profile, written one after the other, are read back in order; an \<open>Address\<close> is
  kept exactly when its \<open>Opt\<close> byte is 1.
\<close>

theorem profile_round_trip:
  assumes "\<And>s. s \<in> set ss \<Longrightarrow> ok_step s"
  shows "fst (rd_times (length ss) ReadStep (NewDataInputX (ToByteArray (fold WriteStep ss NewDataOutputX)))) =
    Ok (map norm_step ss)"
proof -
  from sc.wire_list [of ss] assms obtain bs where bs: "emits (fold WriteStep ss) bs"
    "consumes (rd_times (length ss) ReadStep) bs (map norm_step ss)" by (auto elim: wireE)
  show ?thesis using consumesD [OF bs(2), of "NewDataInputX bs" "[]"] by (simp add: emits_ToByteArray [OF bs(1)])
qed

definition example_step :: step where
  "example_step = MessageStep \<lparr>step_Parent = -1, step_Index = 0, step_StartTime = 10, step_StartCpu = 0,
     message_Message = ''start''\<rparr>"

theorem profile_round_trip_witness:
  "fst (rd_times (length [example_step]) ReadStep
      (NewDataInputX (ToByteArray (fold WriteStep [example_step] NewDataOutputX)))) = Ok (map norm_step [example_step])"
  by (rule profile_round_trip) (simp add: example_step_def ok_text_def)

text \<open>
  C36: \<open>WriteDecimal\<close> is inverted by \<open>ReadDecimal\<close> on all of \<open>int64\<close>, in both modes, and a value
  takes the shortest of the forms the format has: 1, 2, 3, 4, 5, 6 or 9 bytes.
\<close>

theorem decimal_codec:
  "fst (ReadDecimal (NewDataInputX (ToByteArray (WriteDecimal v NewDataOutputX)))) = Ok v \<and>
   fst (ReadDecimal (NewDataInputXStream (out_bytes (WriteDecimal v NewDataOutputXStream)))) = Ok v \<and>
   length (ToByteArray (WriteDecimal v NewDataOutputX)) =
     (if v = 0 then 1 else if sint v \<in> {-(2 ^ 7)..<2 ^ 7} then 2 else if sint v \<in> {-(2 ^ 15)..<2 ^ 15} then 3
      else if sint v \<in> {-(2 ^ 23)..<2 ^ 23} then 4 else if sint v \<in> {-(2 ^ 31)..<2 ^ 31} then 5
      else if sint v \<in> {-(2 ^ 39)..<2 ^ 39} then 6 else 9)"
proof (intro conjI)
  from wire_Decimal [of v] obtain bs where bs: "emits (WriteDecimal v) bs" "consumes ReadDecimal bs v"
    by (rule wireE)
  have "out_bytes (WriteDecimal v NewDataOutputXStream) = bs"
    using emits_out_bytes [OF bs(1), of NewDataOutputXStream]
    by (simp add: out_bytes_def NewDataOutputXStream_def)
  then show "fst (ReadDecimal (NewDataInputXStream (out_bytes (WriteDecimal v NewDataOutputXStream)))) = Ok v"
    using consumesD [OF bs(2), of "NewDataInputXStream bs" "[]"] by simp
  show "fst (ReadDecimal (NewDataInputX (ToByteArray (WriteDecimal v NewDataOutputX)))) = Ok v"
    using consumesD [OF bs(2), of "NewDataInputX bs" "[]"] by (simp add: emits_ToByteArray [OF bs(1)])
qed (simp add: WriteDecimal_def ToByteArray_def WriteByte_def NewDataOutputX_def WriteInt16_def
    WriteInt3_def WriteInt32_def WriteLong5_def WriteInt64_def)

text \<open>
  After any sequence of \<open>Put\<close>s on a fresh \<open>MapValue\<close> a \<open>Get\<close> finds the last value put for
  its key and nothing for other keys, and there is one entry per key.
\<close>

theorem map_value_puts:
  "map_Get (fold (\<lambda>(k, v) es. map_Put es k v) kvs NewMapValue) key = map_of (rev kvs) key \<and>
   distinct (map fst (fold (\<lambda>(k, v) es. map_Put es k v) kvs NewMapValue))"
  using mapval.lookup_updates [of NewMapValue kvs key] mapval.updates_inv [of NewMapValue kvs]
  by (simp add: NewMapValue_def split: option.splits)

text \<open>The typed getters of a \<open>MapPack\<close> against its typed setters.\<close>

theorem map_pack_getters:
  "MapPack_GetText (MapPack_PutStr p k s) k' = (if k' = k then s else MapPack_GetText p k') \<and>
   MapPack_GetLong (MapPack_PutLong p k n) k' = (if k' = k then n else MapPack_GetLong p k') \<and>
   MapPack_GetInt (MapPack_PutLong p k n) k' = (if k' = k then ucast n else MapPack_GetInt p k') \<and>
   MapPack_GetText (MapPack_PutLong p k n) k' = (if k' = k then '''' else MapPack_GetText p k') \<and>
   MapPack_GetLong (MapPack_PutStr p k s) k' = (if k' = k then 0 else MapPack_GetLong p k')"
  by (simp add: MapPack_getters)

section \<open>Datagrams\<close>






text \<open>
  A multi-pack datagram yields its packs in order; bytes behind the last pack are not looked at.
\<close>

theorem multi_pack_dispatched:
  assumes "\<And>pk. pk \<in> set ps \<Longrightarrow> ok_pack pk" and "length ps < 2 ^ 15"
  shows "udp_process victim now (frame_cafe_n ps junk) p = (map norm_pack ps, p)"
  using assms by (rule udp_cafe_n)

theorem multi_pack_dispatched_witness:
  "udp_process (fst \<circ> hd) 0 (frame_cafe_n [example_text_pack, example_text_pack] [1, 2]) NewMultiPacketProcessor =
    (map norm_pack [example_text_pack, example_text_pack], NewMultiPacketProcessor)"
  by (rule multi_pack_dispatched) (auto simp: example_text_pack_def ok_text_def)

text \<open>
  C26: whatever datagrams arrive, the table of packs in progress stays within 1000 entries, one per
  key, each of them incomplete and with a correct count of its fragments.
\<close>

theorem reassembly_bounded:
  assumes "picks victim"
  shows "mpp_inv (snd (udp_run victim ds NewMultiPacketProcessor))"
  using NewMultiPacketProcessor_inv assms by (rule udp_run_inv)

theorem reassembly_bounded_witness:
  "mpp_inv (snd (udp_run (fst \<circ> hd) [(0, [67, 65, 70, 77, 1])] NewMultiPacketProcessor))"
  by (rule reassembly_bounded) (auto simp: picks_def)

section \<open>Hashes\<close>

text \<open>The table-driven \<open>HashBytes\<close> is CRC-32, the bit by bit division by the IEEE polynomial.\<close>

theorem hash_is_crc32: "HashBytes bs = crc32 bs"
  by (rule HashBytes_crc32)

text \<open>The base 32 rendering of a hash determines the hash.\<close>

theorem hexa32_injective: "Hexa32ToString32 h = Hexa32ToString32 k \<longleftrightarrow> h = k"
  by (rule Hexa32ToString32_inj)

section \<open>Index files\<close>



text \<open>
  Records appended to a new key file are read back at the positions that \<open>Append\<close> returned,
  whether they still wait in the buffer or not, and the offset of a record is the position of the next.
\<close>

theorem appended_records_read:
  assumes "list_all (\<lambda>(p, k, d). ok_record k d \<and> fits5 p) rs" and "i < length rs" and "rs ! i = (prev, key, data)"
  shows "fst (GetRecord (fst (kf_Appends rs (kf_open [])) ! i) (snd (kf_Appends rs (kf_open [])))) =
    Ok \<lparr>kr_Deleted = False, kr_PrevPos = prev, kr_TimeKey = key, kr_DataPos = data,
        kr_Offset = (if Suc i < length rs then fst (kf_Appends rs (kf_open [])) ! Suc i
                     else kf_Length (snd (kf_Appends rs (kf_open []))))\<rparr>"
  using assms by (rule kf_Appends_read)

theorem appended_records_read_witness:
  "fst (GetRecord (fst (kf_Appends [(0, [1], [2]), (2, [3], [4])] (kf_open [])) ! 0)
      (snd (kf_Appends [(0, [1], [2]), (2, [3], [4])] (kf_open [])))) =
    Ok \<lparr>kr_Deleted = False, kr_PrevPos = 0, kr_TimeKey = [1], kr_DataPos = [2],
        kr_Offset = fst (kf_Appends [(0, [1], [2]), (2, [3], [4])] (kf_open [])) ! 1\<rparr>"
  using appended_records_read [of "[(0, [1], [2]), (2, [3], [4])]" 0 0 "[1]" "[2]"]
  by (simp add: ok_record_def blob_head_def ok_blob_def fits5_def)

text \<open>
  A key of more than 119 bytes is accepted by \<open>Append\<close>, but the record cannot be read, because it
  does not fit the buffer of \<open>getRecordReadAt\<close>.
\<close>

theorem long_key_not_readable:
  assumes "119 < length key" and "length key < 2 ^ 16" and "kf_inv f"
  shows "fst (GetRecord (fst (kf_Append prev key data f)) (snd (kf_Append prev key data f))) =
    Err (ErrText ''record extends beyond read buffer'')"
  using assms by (rule long_key_unreadable)

theorem long_key_not_readable_witness:
  "fst (GetRecord (fst (kf_Append 0 (replicate 120 7) [] (kf_open [])))
      (snd (kf_Append 0 (replicate 120 7) [] (kf_open [])))) =
    Err (ErrText ''record extends beyond read buffer'')"
  using kf_open_rep by (intro long_key_not_readable) (simp_all add: kf_rep_def)

text \<open>
  After any sequence of puts into a new bucket table, \<open>Get\<close> finds for a hash the position that was
  put last into its bucket, 0 if there is none, and the count is the number of buckets in use.
\<close>

theorem bucket_table_puts:
  assumes "5 \<le> memSize" and "list_all (\<lambda>(h, v). fits5 v \<and> v \<noteq> 0) ps"
  shows "\<exists>m. mh_Puts ps (mh_open None memSize) = Ok m \<and>
    (\<forall>h. mh_Get m h = Ok (case map_of (rev (by_bucket (memSize div 5) ps)) (bucket_of (memSize div 5) h) of
       Some v \<Rightarrow> v | None \<Rightarrow> 0)) \<and>
    mh_Count m = int (card (bucket_of (memSize div 5) ` fst ` set ps))"
  using assms by (rule mh_Puts_new)

theorem bucket_table_puts_witness:
  "\<exists>m. mh_Puts [(3, 7), (-1, 8), (13, 9)] (mh_open None 50) = Ok m \<and> mh_Get m 3 = Ok 9 \<and> mh_Count m = 2"
proof -
  have "list_all (\<lambda>(h, v). fits5 v \<and> v \<noteq> 0) [(3, 7), (-1, 8), (13, 9)]" by (simp add: fits5_def)
  from bucket_table_puts [OF _ this, of 50] show ?thesis by (auto simp: by_bucket_def bucket_of_def card_insert_if)
qed

section \<open>Time index\<close>

text \<open>
  C9: a sequence of puts, deletes and lookups of half seconds on a new time index returns what it
  returns on the plain history of the puts. \<open>Delete\<close> deletes every record of the half second of its time.
\<close>

theorem time_index_refines_history:
  assumes "list_all ok_time_op cs" and "time_hist_size (snd (time_hist_run gdm srt cs [])) \<le> 2 ^ 39"
  shows "\<exists>it'. time_run gdm srt cs (NewIndexTimeFile None []) = Some (map Ok (fst (time_hist_run gdm srt cs [])), it') \<and>
    it_holds gdm it' (snd (time_hist_run gdm srt cs []))"
  using time_run_holds [OF it_new_holds assms] .

definition utc_millis :: "i64 \<Rightarrow> nat" where
  "utc_millis t = nat (sint t mod 86400000)"

definition sort_by_time :: "timed list \<Rightarrow> timed list" where
  "sort_by_time = sort_key (\<lambda>x. sint (fst x))"

lemma sorts_sort_by_time: "sorts sort_by_time"
  by (simp add: sorts_def sort_by_time_def)

lemma utc_first_day: "local_day utc_millis 0"
  by (simp add: local_day_def utc_millis_def)

theorem time_index_refines_history_witness:
  "\<exists>it'. time_run utc_millis sort_by_time [TimePut 1300 [2], TimePut 1100 [1], TimeGet 1499, TimeDelete 1000, TimeGet 1300]
      (NewIndexTimeFile None []) =
    Some ([Ok (TimeDone 2), Ok (TimeDone 20), Ok (TimeItems [(1100, [1]), (1300, [2])]), Ok (TimeDone 2), Ok (TimeItems [])], it')"
  using time_index_refines_history [of "[TimePut 1300 [2], TimePut 1100 [1], TimeGet 1499, TimeDelete 1000, TimeGet 1300]"
      utc_millis sort_by_time]
  by (auto simp: time_hist_size_def hist_sec_def time_hist_Delete_def sort_by_time_def FirstPos_def kfileHeaderSize_def
      blob_head_def ok_blob_def Let_def mt_bkt_def utc_millis_def timeBlockCapacity_def)

text \<open>
  C18: reading a range of a local day delivers every record of the range that was not deleted, exactly
  once, in the order of the times, whatever order \<open>sort.Slice\<close> gives to equal times, provided that the
  start is not further into its half second than the end (\<open>range_reach\<close>).
\<close>

theorem time_range_read:
  assumes "it_holds gdm it h" and "sorts srt" and "local_day gdm mid" and "0 < sint stime" and "range_reach mid stime etime"
    and "\<forall>x \<in> set (undeleted h). 5 \<le> length (snd x)"
  shows "\<exists>calls it'. it_ReadWithDataReader gdm srt stime etime note_calls reader [] it = Some (Ok (), calls, it') \<and>
    mset calls = image_mset (resolve reader) (filter_mset (in_range stime etime) (mset (undeleted h))) \<and>
    sorted (map (\<lambda>x. sint (fst x)) calls) \<and> it_holds gdm it' h"
  using assms by (rule time_range_complete)

lemma three_records:
  "\<exists>it. it_holds utc_millis it [(False, 700, [0, 0, 0, 0, 2]), (False, 600, [0, 0, 0, 0, 1]), (False, 600000, [0, 0, 0, 0, 9])]"
proof -
  let ?cs = "[TimePut 600000 [0, 0, 0, 0, 9], TimePut 600 [0, 0, 0, 0, 1], TimePut 700 [0, 0, 0, 0, 2]]"
  have "list_all ok_time_op ?cs" by (simp add: ok_blob_def)
  moreover have "time_hist_size (snd (time_hist_run utc_millis sort_by_time ?cs [])) \<le> 2 ^ 39"
    by (simp add: time_hist_size_def FirstPos_def kfileHeaderSize_def blob_head_def)
  ultimately show ?thesis using time_run_holds [OF it_new_holds] by fastforce
qed

theorem time_range_read_witness:
  "\<exists>it calls it'. it_ReadWithDataReader utc_millis sort_by_time 500 900 note_calls (\<lambda>p. [if p = 1 then 1 else 2]) [] it =
     Some (Ok (), calls, it') \<and> mset calls = {#(700, [2]), (600, [1])#}"
proof -
  obtain it where it: "it_holds utc_millis it [(False, 700, [0, 0, 0, 0, 2]), (False, 600, [0, 0, 0, 0, 1]), (False, 600000, [0, 0, 0, 0, 9])]"
    using three_records by blast
  from time_range_read [OF it sorts_sort_by_time utc_first_day, of 500 900 "\<lambda>p. [if p = 1 then 1 else 2]"]
  show ?thesis by (auto simp: range_reach_def undeleted_def in_range_def resolve_def Int5_def)
qed

text \<open>
  The other ranges: when the start is further into its half second than the end, a record in the
  half second of the end is not delivered.
\<close>

theorem time_range_misses_tail:
  assumes "it_holds gdm it [(False, x, d)]" and "sorts srt" and "local_day gdm mid" and "0 < sint stime" and "mid \<le> sint stime"
    and "sint stime \<le> sint etime" and "sint etime < mid + 86400000" and "mid \<le> sint x" and "sint x < mid + 86400000"
    and "(sint x - mid) div 500 = (sint etime - mid) div 500" and "(sint etime - mid) mod 500 < (sint stime - mid) mod 500"
  shows "\<exists>it'. it_ReadWithDataReader gdm srt stime etime handler reader s it = Some (Ok (), s, it')"
  using assms by (rule time_range_tail)

theorem time_range_misses_tail_witness:
  "\<exists>it it'. it_holds utc_millis it [(False, 1050, [1])] \<and>
    it_ReadWithDataReader utc_millis sort_by_time 400 1100 note_calls (\<lambda>_. []) [] it = Some (Ok (), [], it')"
proof -
  have "\<exists>it'. time_run utc_millis sort_by_time [TimePut 1050 [1]] (NewIndexTimeFile None []) =
      Some (map Ok (fst (time_hist_run utc_millis sort_by_time [TimePut 1050 [1]] [])), it') \<and>
    it_holds utc_millis it' (snd (time_hist_run utc_millis sort_by_time [TimePut 1050 [1]] []))"
    by (rule time_run_holds [OF it_new_holds])
      (simp_all add: ok_blob_def time_hist_size_def FirstPos_def kfileHeaderSize_def blob_head_def)
  then obtain it where it: "it_holds utc_millis it [(False, 1050, [1])]" by auto
  from time_range_misses_tail [OF it sorts_sort_by_time utc_first_day, of 400 1100 note_calls "\<lambda>_. []" "[]"] it show ?thesis by auto
qed

section \<open>The xlog database\<close>

text \<open>
  C7: after any sequence of batches and purges of old days, the writer finds for a transaction of an open
  day the data of its newest entry, whether compressed or not; the three indexes, the links between
  their records and the buffers cannot be observed.
\<close>

theorem xlog_found_by_txid:
  assumes "\<And>d. dec (enc d) = Some d" and "ok_writes enc (ops_entries ops)"
    and "dw_days (xw_run enc gdm fmt ops dw_new) date \<noteq> None"
  shows "\<exists>w'. xw_GetByTxid dec date txid (xw_run enc gdm fmt ops dw_new) =
      Some (Some (Ok (newest_data fmt (ops_entries ops) date txid)), w')"
  using assms by (rule xw_run_GetByTxid)

definition example_entries :: "(bool \<times> xlog_entry) list" where
  "example_entries =
     [(False, \<lparr>xe_Time = 1000, xe_Txid = 7, xe_Gxid = 5, xe_Elapsed = 3, xe_Data = [21, 1]\<rparr>),
      (True, \<lparr>xe_Time = 600, xe_Txid = 8, xe_Gxid = 5, xe_Elapsed = 4, xe_Data = [0, 2]\<rparr>),
      (False, \<lparr>xe_Time = 2000, xe_Txid = 7, xe_Gxid = 0, xe_Elapsed = 3, xe_Data = [21, 3]\<rparr>)]"

definition example_ops :: "xw_op list" where
  "example_ops = [XwBatch (take 1 example_entries), XwPurge (\<lambda>_. False), XwBatch (drop 1 example_entries)]"

lemma example_ops_ok: "ops_entries example_ops = example_entries" "ok_writes (\<lambda>d. 9 # d) example_entries"
  by (simp_all add: example_ops_def example_entries_def ops_entries_def ok_writes_def ok_write_def data_body_def
      Compress_def)

lemma example_open: "dw_days (xw_run enc gdm (\<lambda>_. ''20240101'') example_ops dw_new) ''20240101'' \<noteq> None"
  by (simp add: xw_run_def example_ops_def example_entries_def xw_batch_def xw_flushData_def dw_flush_def xw_process_def
      dw_process_def dw_set_def case_prod_unfold Let_def)

theorem xlog_found_by_txid_witness:
  "\<exists>w'. xw_GetByTxid (\<lambda>b. Some (drop 1 b)) ''20240101'' 7
      (xw_run (\<lambda>d. 9 # d) utc_millis (\<lambda>_. ''20240101'') example_ops dw_new) = Some (Some (Ok (Some [21, 3])), w')"
  using xlog_found_by_txid [of "\<lambda>b. Some (drop 1 b)" "\<lambda>d. 9 # d" example_ops utc_millis "\<lambda>_. ''20240101''" "''20240101''" 7]
    example_ops_ok example_open
  by (simp add: newest_data_def day_entries_def example_entries_def)

text \<open>
  C8: when the writer is closed, or closed in part by purges and opened again, a reader that opens the
  files finds the newest entry of a transaction, and all entries of a global transaction, the newest
  first.
\<close>

theorem xlog_after_close:
  assumes "\<And>d. dec (enc d) = Some d" and "ok_writes enc (ops_entries ops)"
  shows "(\<exists>r'. xr_GetByTxid dec date txid (xw_Close (xw_run enc gdm fmt ops dw_new)) =
      Some (Ok (newest_data fmt (ops_entries ops) date txid), r')) \<and>
    (\<exists>r'. xr_ReadByGxid dec date gxid (xw_Close (xw_run enc gdm fmt ops dw_new)) =
      Some (Ok (gxid_data fmt (ops_entries ops) date gxid), r'))"
  using xr_after_close [OF assms] by blast

theorem xlog_after_close_witness:
  "\<exists>r'. xr_ReadByGxid (\<lambda>b. Some (drop 1 b)) ''20240101'' 5
      (xw_Close (xw_run (\<lambda>d. 9 # d) utc_millis (\<lambda>_. ''20240101'') example_ops dw_new)) = Some (Ok [[0, 2], [21, 1]], r')"
  using xlog_after_close [of "\<lambda>b. Some (drop 1 b)" "\<lambda>d. 9 # d" example_ops "''20240101''" 7 utc_millis "\<lambda>_. ''20240101''" 5]
    example_ops_ok
  by (simp add: gxid_data_def day_entries_def example_entries_def)

text \<open>
  An entry whose body has more than 65535 bytes is accepted, but its length is cut to 16 bits, and
  what is read back is only that many bytes.
\<close>

theorem xlog_long_body_truncated:
  assumes "length data = 65536 + n" and "n < 65536" and "rd_inv (xd_dataFile x)"
  shows "xd_Read dec (int (fst (xd_Write enc False data x))) (xd_Flush (snd (xd_Write enc False data x))) =
    Decode dec (take n data)"
proof -
  let ?f = "xd_dataFile x"
  let ?frame = "PutUint16 (word_of_nat (length data)) @ data"
  have n: "unat (word_of_nat (length data) :: i16) = n" unfolding assms(1) unat_of_nat using assms(2) by simp
  obtain pos f where f: "rd_Write ?frame ?f = (pos, f)" "pos = length (rd_content ?f)" "rd_content f = rd_content ?f @ ?frame"
    using rd_Write_content [OF assms(3), of ?frame] by (cases "rd_Write ?frame ?f") simp
  have w: "xd_Write enc False data x = (pos, x\<lparr>xd_dataFile := f\<rparr>)"
    by (simp add: xd_Write_def data_body_def f(1))
  have disk: "rd_disk (xd_dataFile (xd_Flush (x\<lparr>xd_dataFile := f\<rparr>))) =
      rd_content ?f @ PutUint16 (word_of_nat (length data)) @ take n data @ drop n data"
    by (simp add: xd_Flush_def f(3))
  have "ReadAt (rd_disk (xd_dataFile (xd_Flush (x\<lparr>xd_dataFile := f\<rparr>)))) (int pos) 2 = Ok (PutUint16 (word_of_nat (length data)))"
    unfolding disk by (rule ReadAt_part) (simp_all add: f(2))
  moreover have "ReadAt (rd_disk (xd_dataFile (xd_Flush (x\<lparr>xd_dataFile := f\<rparr>)))) (int pos + 2) n = Ok (take n data)"
    unfolding disk using ReadAt_part [of "rd_content ?f @ PutUint16 (word_of_nat (length data))" _ "take n data" n "drop n data"]
      assms(1) by (simp add: f(2) add.commute)
  ultimately show ?thesis by (simp add: w xd_Read_def n)
qed

theorem xlog_long_body_truncated_witness:
  "xd_Read (\<lambda>_. None) (int (fst (xd_Write (\<lambda>d. d) False (replicate 65537 7) \<lparr>xd_dataFile = NewRealDataFile []\<rparr>)))
     (xd_Flush (snd (xd_Write (\<lambda>d. d) False (replicate 65537 7) \<lparr>xd_dataFile = NewRealDataFile []\<rparr>))) = Ok [7]"
  using xlog_long_body_truncated [of "replicate 65537 7" 1 "\<lparr>xd_dataFile = NewRealDataFile []\<rparr>" "\<lambda>_. None" "\<lambda>d. d"]
  by (simp add: Decode_def flagNewFormat_def)

text \<open>
  The goroutine of the writer against any callers of \<open>Add\<close>: the queue and the batch stay within
  their sizes, and what was accepted is what was written to the database, batch by batch and each batch
  flushed, then the open batch, then the queue. Nothing is lost, repeated or overtaken.
\<close>

theorem xlog_queue_in_order:
  assumes "bw_reach xlogQueueSize batchSize (\<lambda>ce w. snd (xw_process enc gdm fmt ce w)) xw_flushData dw_new s accepted"
  shows "length (bw_queue s) \<le> xlogQueueSize \<and> length (bw_batch s) \<le> batchSize \<and>
    (\<exists>bs. accepted = concat bs @ bw_batch s @ bw_queue s \<and> bw_writer s = xw_run enc gdm fmt (map XwBatch bs) dw_new)"
proof -
  have "flushed_batches (\<lambda>ce w. snd (xw_process enc gdm fmt ce w)) xw_flushData bs w = xw_run enc gdm fmt (map XwBatch bs) w" for bs w
    by (induction bs arbitrary: w) (simp_all add: xw_run_def xw_batch_def)
  with bw_reach_inv [OF assms] show ?thesis by auto
qed

lemma example_reached:
  "bw_reach xlogQueueSize batchSize (\<lambda>ce w. snd (xw_process enc gdm fmt ce w)) xw_flushData dw_new
     \<lparr>bw_queue = example_entries, bw_batch = [], bw_writer = dw_new\<rparr> example_entries"
proof -
  let ?r = "bw_reach xlogQueueSize batchSize (\<lambda>ce w. snd (xw_process enc gdm fmt ce w)) xw_flushData dw_new"
  have add: "?r \<lparr>bw_queue = q @ [e], bw_batch = [], bw_writer = dw_new\<rparr> (q @ [e])"
    if "?r \<lparr>bw_queue = q, bw_batch = [], bw_writer = dw_new\<rparr> q" "length q < xlogQueueSize" for q e
    using bw_accept [OF that(1), of e] that(2) by (simp add: bw_add_def enqueue_def)
  show ?thesis using add [OF add [OF add [OF bw_start]]] by (simp add: example_entries_def xlogQueueSize_def)
qed

theorem xlog_queue_in_order_witness:
  "\<exists>bs. example_entries = concat bs @ [] @ example_entries \<and>
    dw_new = xw_run (\<lambda>d. d) (\<lambda>_. 0) (\<lambda>_. []) (map XwBatch bs) dw_new"
  using xlog_queue_in_order [OF example_reached, of "\<lambda>d. d" "\<lambda>_. 0" "\<lambda>_. []"] by simp

text \<open>
  C19: left alone, the goroutine of the writer takes at most two steps per queued entry and one more, and
  then every accepted entry is in the database.
\<close>

theorem xlog_queue_drains:
  assumes "bw_reach xlogQueueSize batchSize (\<lambda>ce w. snd (xw_process enc gdm fmt ce w)) xw_flushData dw_new s accepted"
  shows "\<exists>bs. accepted = concat bs \<and>
    bw_writer (bw_steps batchSize (\<lambda>ce w. snd (xw_process enc gdm fmt ce w)) xw_flushData (2 * length (bw_queue s) + 1) s) =
      xw_run enc gdm fmt (map XwBatch bs) dw_new"
proof -
  let ?p = "\<lambda>ce w. snd (xw_process enc gdm fmt ce w)"
  let ?s = "bw_steps batchSize ?p xw_flushData (2 * length (bw_queue s) + 1) s"
  have "bw_step batchSize ?p xw_flushData ?s = None" by (rule bw_drains) (auto simp: batchSize_def)
  then have "bw_queue ?s = []" "bw_batch ?s = []" by (simp_all add: bw_waits batchSize_def)
  moreover have "flushed_batches ?p xw_flushData bs w = xw_run enc gdm fmt (map XwBatch bs) w" for bs w
    by (induction bs arbitrary: w) (simp_all add: xw_run_def xw_batch_def)
  ultimately show ?thesis using bw_reach_inv [OF bw_steps_reach [OF assms], of "2 * length (bw_queue s) + 1"] by auto
qed

theorem xlog_queue_drains_witness:
  "\<exists>bs. example_entries = concat bs \<and>
    bw_writer (bw_steps batchSize (\<lambda>ce w. snd (xw_process (\<lambda>d. d) (\<lambda>_. 0) (\<lambda>_. []) ce w)) xw_flushData 7
      \<lparr>bw_queue = example_entries, bw_batch = [], bw_writer = dw_new\<rparr>) =
    xw_run (\<lambda>d. d) (\<lambda>_. 0) (\<lambda>_. []) (map XwBatch bs) dw_new"
proof -
  have "2 * length example_entries + 1 = 7" by (simp add: example_entries_def)
  then show ?thesis using xlog_queue_drains [OF example_reached, of "\<lambda>d. d" "\<lambda>_. 0" "\<lambda>_. []"] by simp
qed

text \<open>
  The writer's \<open>ReadByTime\<close>, with a range that \<open>range_reach\<close> allows, passes to the handler the data
  of every entry in the half seconds from the start to the end, in the order of the times, until the
  handler stops. It does not compare the times, so the entries of the two outer half seconds may lie
  outside of the range.
\<close>

theorem xlog_read_by_time:
  assumes "\<And>d. dec (enc d) = Some d" and "ok_writes enc (ops_entries ops)"
    and "dw_days (xw_run enc gdm fmt ops dw_new) date \<noteq> None" and "sorts srt" and "local_day gdm mid" and "0 < sint stime"
    and "range_reach mid stime etime" and "\<forall>ce \<in> set (day_entries fmt (ops_entries ops) date). of_day mid (xe_Time (snd ce), [])"
  shows "\<exists>ys w'. mset ys = filter_mset (\<lambda>e. in_buckets mid stime etime (xe_Time e, []))
        (mset (map snd (day_entries fmt (ops_entries ops) date))) \<and>
    sorted (map (\<lambda>e. sint (xe_Time e)) ys) \<and>
    xw_ReadByTime dec gdm srt date stime etime handler s (xw_run enc gdm fmt ops dw_new) =
      Some (Some (pass_on handler (map xe_Data ys) s), w')"
  using assms by (rule xw_run_ReadByTime)

theorem xlog_read_by_time_witness:
  "\<exists>(ys :: xlog_entry list) w'. xw_ReadByTime (\<lambda>b. Some (drop 1 b)) utc_millis sort_by_time ''20240101'' 500 1100 (\<lambda>d ds. (Ok True, ds @ [d])) []
      (xw_run (\<lambda>d. 9 # d) utc_millis (\<lambda>_. ''20240101'') example_ops dw_new) = Some (Some (Ok (), map xe_Data ys), w') \<and>
    mset (map xe_Time ys) = {#600, 1000#}"
proof -
  let ?day = "day_entries (\<lambda>_. ''20240101'') example_entries ''20240101''"
  have "\<forall>ce \<in> set ?day. of_day 0 (xe_Time (snd ce), [])"
    by (simp add: day_entries_def example_entries_def of_day_def)
  moreover have "range_reach 0 500 1100" by (simp add: range_reach_def)
  moreover have "pass_on (\<lambda>d ds. (Ok True, ds @ [d])) xs ds = (Ok (), ds @ xs)" for xs ds :: "bytes list"
    by (induction xs arbitrary: ds) simp_all
  ultimately obtain ys w' where
    ys: "mset ys = filter_mset (\<lambda>e. in_buckets 0 500 1100 (xe_Time e, [])) (mset (map snd ?day))"
    "xw_ReadByTime (\<lambda>b. Some (drop 1 b)) utc_millis sort_by_time ''20240101'' 500 1100 (\<lambda>d ds. (Ok True, ds @ [d])) []
      (xw_run (\<lambda>d. 9 # d) utc_millis (\<lambda>_. ''20240101'') example_ops dw_new) = Some (Some (Ok (), map xe_Data ys), w')"
    using xlog_read_by_time [of "\<lambda>b. Some (drop 1 b)" "\<lambda>d. 9 # d" example_ops utc_millis "\<lambda>_. ''20240101''" "''20240101''"
        sort_by_time 0 500 1100 "\<lambda>d ds. (Ok True, ds @ [d])" "[]"] example_ops_ok example_open sorts_sort_by_time utc_first_day
    by auto
  have "mset (map xe_Time ys) = {#600, 1000#}"
    using ys(1) by (simp add: day_entries_def example_entries_def in_buckets_def add_mset_commute)
  with ys(2) show ?thesis by (intro exI conjI)
qed

section \<open>The other databases\<close>

text \<open>
  After any sequence of alerts and purges of old days, and after the writer is closed, a reader that
  reads a range of a day passes to its handler the data of every alert in the half seconds of the
  range, in the order of the times.
\<close>

theorem alerts_read_back:
  assumes "ok_alerts ops" and "sorts srt" and "local_day gdm mid" and "0 < sint stime" and "range_reach mid stime etime"
    and "\<forall>e \<in> set (alerts_of fmt ops date). of_day mid (ae_TimeMs e, [])"
  shows "\<exists>ys r'. mset ys = filter_mset (\<lambda>e. in_buckets mid stime etime (ae_TimeMs e, [])) (mset (alerts_of fmt ops date)) \<and>
    sorted (map (\<lambda>e. sint (ae_TimeMs e)) ys) \<and>
    ar_ReadRange gdm srt date stime etime handler s (aw_Close (fold (aw_do gdm fmt) ops dw_new)) =
      Some ((Ok (), fold handler (map ae_Data ys) s), r')"
  using assms by (rule alerts_after_close)

definition example_alerts :: "AlertEntry day_op list" where
  "example_alerts = [DayWrite \<lparr>ae_TimeMs = 1000, ae_Data = [7, 8]\<rparr>, DayPurge (\<lambda>_. False), DayWrite \<lparr>ae_TimeMs = 600, ae_Data = [9]\<rparr>,
     DayWrite \<lparr>ae_TimeMs = 90000, ae_Data = []\<rparr>]"

theorem alerts_read_back_witness:
  "\<exists>(ys :: AlertEntry list) r'. mset (map ae_TimeMs ys) = {#600, 1000#} \<and>
    ar_ReadRange utc_millis sort_by_time ''20240101'' 500 1100 (\<lambda>d ds. ds @ [d]) []
      (aw_Close (fold (aw_do utc_millis (\<lambda>_. ''20240101'')) example_alerts dw_new)) =
      Some ((Ok (), fold (\<lambda>d ds. ds @ [d]) (map ae_Data ys) []), r')"
proof -
  let ?es = "alerts_of (\<lambda>_. ''20240101'') example_alerts ''20240101''"
  have "ok_alerts example_alerts" by (simp add: ok_alerts_def example_alerts_def)
  moreover have "\<forall>e \<in> set ?es. of_day 0 (ae_TimeMs e, [])" by (simp add: alerts_of_def day_log_def example_alerts_def of_day_def)
  moreover have "range_reach 0 500 1100" by (simp add: range_reach_def)
  ultimately obtain ys r' where
    ys: "mset ys = filter_mset (\<lambda>e. in_buckets 0 500 1100 (ae_TimeMs e, [])) (mset ?es)"
    "ar_ReadRange utc_millis sort_by_time ''20240101'' 500 1100 (\<lambda>d ds. ds @ [d]) []
      (aw_Close (fold (aw_do utc_millis (\<lambda>_. ''20240101'')) example_alerts dw_new)) =
      Some ((Ok (), fold (\<lambda>d ds. ds @ [d]) (map ae_Data ys) []), r')"
    using alerts_read_back [of example_alerts sort_by_time utc_millis 0 500 1100 "\<lambda>_. ''20240101''" "''20240101''" "\<lambda>d ds. ds @ [d]" "[]"]
      sorts_sort_by_time utc_first_day by auto
  have "mset (map ae_TimeMs ys) = {#600, 1000#}"
    using ys(1) by (simp add: alerts_of_def day_log_def example_alerts_def in_buckets_def add_mset_commute)
  with ys(2) show ?thesis by blast
qed




text \<open>
  C20: any sequence of writes, clean-ups, saves and restarts of a key-value store leaves it with the last
  write of every key: a read returns its value, or nothing once it has expired. The clock must not go
  back behind a clean-up, and the expiry must not overflow.
\<close>

theorem kv_last_write:
  assumes "list_all (ok_kv_op utf8) ops" and "cleaned_until ops (sint now)"
    and "\<And>d. (\<And>k e. d k = Some e \<Longrightarrow> utf8 k \<and> utf8 (kv_Value e)) \<Longrightarrow> unmarshal (marshal d) = Some d"
  shows "kv_Get now k (fold (kv_do marshal unmarshal) ops (NewKVStore unmarshal None)) = spec_Get (sint now) k (fold spec_do ops (\<lambda>_. None))"
  using assms by (rule kv_run_Get)

theorem kv_last_write_witness:
  "kv_Get 50 ''a'' (fold (kv_do (\<lambda>d. d) Some) [KvSetTTL 10 ''a'' ''x'' 20, KvRestart, KvCleanup 40 [''a'']] (NewKVStore Some None)) = None \<and>
    kv_Get 30 ''a'' (fold (kv_do (\<lambda>d. d) Some) [KvSetTTL 10 ''a'' ''x'' 20, KvRestart] (NewKVStore Some None)) = Some ''x''"
  using kv_last_write [of "\<lambda>_. True" "[KvSetTTL 10 ''a'' ''x'' 20, KvRestart, KvCleanup 40 [''a'']]" 50 Some "\<lambda>d. d" "''a''"]
    kv_last_write [of "\<lambda>_. True" "[KvSetTTL 10 ''a'' ''x'' 20, KvRestart]" 30 Some "\<lambda>d. d" "''a''"]
  by (simp add: cleaned_until_def spec_Get_def)

section \<open>Counters and texts\<close>








text \<open>
  The number of counters of a second is written as one byte, so of \<open>n\<close> counters the first
  \<open>n mod 256\<close> are read back.
\<close>

theorem realtime_counters_wrap:
  assumes "distinct (map fst cs)" and "\<forall>(name, v) \<in> set cs. ok_text name \<and> ok_value v"
  shows "fst (counters_Read (NewDataInputX (ToByteArray (counters_Write cs NewDataOutputX)))) =
    Ok (counter_map (take (length cs mod 256) cs))"
  using assms by (rule counters_wrap)

theorem realtime_counters_wrap_witness:
  "fst (counters_Read (NewDataInputX (ToByteArray (counters_Write (map (\<lambda>n. (replicate n CHR ''a'', Some (BooleanValue True))) [0..<257]) NewDataOutputX)))) =
    Ok [[] \<mapsto> BooleanValue True]"
proof -
  let ?cs = "map (\<lambda>n. (replicate n CHR ''a'', Some (BooleanValue True))) [0..<257]"
  have "distinct (map fst ?cs)" by (auto simp: distinct_map inj_on_def dest: arg_cong [where f = length])
  moreover have "\<forall>(name, v) \<in> set ?cs. ok_text name \<and> ok_value v" by (auto simp: ok_text_def)
  ultimately have "fst (counters_Read (NewDataInputX (ToByteArray (counters_Write ?cs NewDataOutputX)))) =
    Ok (counter_map (take (length ?cs mod 256) ?cs))" by (rule realtime_counters_wrap)
  moreover have "take (length ?cs mod 256) ?cs = [([], Some (BooleanValue True))]" by (simp add: take_map)
  ultimately show ?thesis by (simp add: counter_map_def)
qed



definition example_texts :: "text_op list" where
  "example_texts = [TxAdd ''service'' 1 ''/a'', TxAdd ''service'' 1 ''/b'', TxStep [], TxAddDaily ''20240101'' ''sql'' 2 ''Q'',
     TxGet ''service'' 1, TxStep [], TxAdd ''service'' 3 ''/c'']"

lemma example_texts_log:
  "text_log_of example_texts = ([\<lparr>td_Div = ''service'', td_Hash = 3, td_Text = ''/c''\<rparr>],
     [\<lparr>td_Div = ''service'', td_Hash = 1, td_Text = ''/a''\<rparr>, \<lparr>td_Div = ''service'', td_Hash = 1, td_Text = ''/b''\<rparr>],
     [(''20240101'', \<lparr>td_Div = ''sql'', td_Hash = 2, td_Text = ''Q''\<rparr>)])"
  by (simp add: text_log_of_def example_texts_def textQueueSize_def enqueue_def)

lemma example_texts_fit: "ts_fits (log_store (text_log_of example_texts))"
  by (simp add: example_texts_log log_store_def ts_fits_def ts_put_def ts_putDaily_def text_put_def tp_fits_def tt_fits_def tp_frame_def
     tt_hist_def hist_size_def makeHashKey_def FirstPos_def kfileHeaderSize_def blob_head_def bytes_of_string_def)


text \<open>
  Rebuilding the index of a division of texts with another number of buckets, between two runs of the
  server, leaves every text of every division as it was.
\<close>

theorem rehash_keeps_texts:
  assumes "text_log_of ops = (q, taken, days)" and "ts_fits (log_store (q, taken, days))"
    and "\<forall>d \<in> set taken. td_Div d \<noteq> rh_tmp dv0" and "tx_run mb mbDaily ops new_text_writer = Some w"
    and "\<exists>d \<in> set taken. td_Div d = dv0"
  shows "\<exists>res d'. rehashDiv dv0 hashMB (fst (tw_permFiles (tw_Close w))) = Some (Ok res, d') \<and>
    (\<exists>r. tr_GetString mb' (d', snd (tw_permFiles (tw_Close w))) dv hash NewTextRD = Some (Ok (first_text taken dv hash), r))"
  using assms by (rule rehashed_texts)

theorem rehash_keeps_texts_witness:
  "\<exists>w res d'. tx_run (\<lambda>_. 1) 1 example_texts new_text_writer = Some w \<and>
    rehashDiv ''service'' 2 (fst (tw_permFiles (tw_Close w))) = Some (Ok res, d') \<and>
    (\<exists>r. tr_GetString (\<lambda>_. 1) (d', snd (tw_permFiles (tw_Close w))) ''service'' 1 NewTextRD = Some (Ok ''/a'', r))"
proof -
  note fit = example_texts_fit [unfolded example_texts_log]
  obtain w where w: "tx_run (\<lambda>_. 1) 1 example_texts new_text_writer = Some w"
    using tx_run_rep [OF example_texts_fit] by blast
  from rehash_keeps_texts [OF example_texts_log fit _ w, of "''service''" 2 "\<lambda>_. 1" "''service''" 1] w show ?thesis
    by (auto simp: rh_tmp_def first_text_def text_or_empty_def)
qed

section \<open>Caches\<close>

text \<open>
  C31: a client that polls the xlog cache with the position of its last poll gets everything that was put
  since then and passes the filter, in order and once, as far as the buffer of \<open>s\<close> entries goes:
  of more than \<open>s\<close> entries between two polls it gets the last \<open>s\<close>.
\<close>

theorem xlog_cache_polls:
  assumes "0 < s" and "\<forall>e \<in> set (concat bs). ce_Data e \<noteq> None" and "length (concat bs) < 2 ^ 63"
  shows "xc_polls m bs 0 0 (NewXLogCache s) = Ok (map (\<lambda>b. filter (xc_keep m) (drop (length b - s) b)) bs)"
  using xc_polls_rep [OF xc_new_rep [OF assms(1)] assms(2), of m] assms(3) by simp

definition example_cached :: "i32 \<Rightarrow> XLogEntry" where
  "example_cached h = \<lparr>ce_ObjHash = h, ce_Elapsed = 100, ce_IsError = False, ce_Data = Some [1]\<rparr>"

theorem xlog_cache_polls_witness:
  "xc_polls 0 [[example_cached 1, example_cached 2], [], [example_cached 3, example_cached 4, example_cached 5]] 0 0 (NewXLogCache 2) =
    Ok [[example_cached 1, example_cached 2], [], [example_cached 4, example_cached 5]]"
  using xlog_cache_polls [of 2 "[[example_cached 1, example_cached 2], [], [example_cached 3, example_cached 4, example_cached 5]]" 0]
  by (simp add: example_cached_def xc_keep_def)

text \<open>
  C32: a poll for a set of objects, which goes through the index of the cache instead of the buffer, gets
  the same entries as the poll for all objects, filtered by the object.
\<close>

theorem xlog_cache_by_object:
  assumes "0 < s" and "\<forall>e \<in> set log. ce_Data e \<noteq> None" and "k \<le> length log" and "length log < 2 ^ 63" and "distinct hs"
  shows "\<exists>c pos d d'. xc_Puts log (NewXLogCache s) = Ok c \<and>
    xc_Get (word_of_nat (k div s)) (int (k mod s)) m None c = Ok (pos, length log mod s, d) \<and>
    xc_Get (word_of_nat (k div s)) (int (k mod s)) m (Some hs) c = Ok (pos, length log mod s, d') \<and>
    mset d' = filter_mset (\<lambda>e. ce_ObjHash e \<in> set hs) (mset d)"
proof -
  obtain c where c: "xc_Puts log (NewXLogCache s) = Ok c" "xc_rep s log c" using xc_Puts_rep [OF assms(1,2)] by blast
  show ?thesis using c(1) xc_Get_since [OF c(2) assms(3,4), of m] xc_Get_hashes [OF c(2) assms(3-5), of m]
    by (auto simp: filter_filter_mset conj_commute)
qed

theorem xlog_cache_by_object_witness:
  "\<exists>c pos d d'. xc_Puts [example_cached 1, example_cached 2, example_cached 1] (NewXLogCache 2) = Ok c \<and>
    xc_Get (word_of_nat (1 div 2)) (int (1 mod 2)) 0 None c = Ok (pos, 1, d) \<and>
    xc_Get (word_of_nat (1 div 2)) (int (1 mod 2)) 0 (Some [1]) c = Ok (pos, 1, d') \<and>
    mset d' = filter_mset (\<lambda>e. ce_ObjHash e \<in> set [1]) (mset d)"
proof -
  have len: "length [example_cached 1, example_cached 2, example_cached 1] mod 2 = 1" by simp
  show ?thesis
    using xlog_cache_by_object [of 2 "[example_cached 1, example_cached 2, example_cached 1]" 1 "[1]" 0, unfolded len]
    by (simp add: example_cached_def)
qed

text \<open>
  C30: the list, the map and the element pointers of the text cache are the plain list of the entries
  used last: whatever is put and got, the results are those of the list, and there are never more
  entries than the size of the cache.
\<close>

theorem text_cache_refines_lru:
  "(fst (text_run ops (NewTextCacheWithSize n)), tc_abs (snd (text_run ops (NewTextCacheWithSize n)))) =
      lru_run (if n \<le> 0 then defaultTextCacheMaxSize else nat n) ops [] \<and>
    tc_Size (snd (text_run ops (NewTextCacheWithSize n))) \<le> (if n \<le> 0 then defaultTextCacheMaxSize else nat n)"
  using text_run_lru [OF tc_new(1), of ops n] unfolding tc_new(2,3) by (simp add: tc_inv_def tc_Size_def)

section \<open>Agents\<close>





section \<open>SQL statements\<close>




section \<open>Visitors, tags and groups\<close>


text \<open>
  The visitors of a group of objects by the hour are, for each of the 24 hours of a day, the estimate
  for the users that were offered for any of them in that hour.
\<close>

theorem hourly_visitors:
  assumes "ok_hours ops" and "hour \<in> hours"
  shows "LoadAllHours est date hs (vh_flush (fold vh_do ops (NewVisitorHourlyDB today hour (\<lambda>_. None)))) =
    map (\<lambda>hour. est (hll_of (concat (map (hour_users (hour_visits ops) date (int hour)) hs)))) [0..<24]"
  by (rule vh_counts(2) [OF vh_run_rep [OF assms]])

theorem hourly_visitors_witness:
  "LoadAllHours (\<lambda>regs. foldr (+) (map ucast regs) 0) ''20240101'' [7] (vh_flush (fold vh_do
      [HourOffer ''20240101'' 5 7 1, HourRestart ''20240101'' 6, HourOffer ''20240101'' 6 8 1]
      (NewVisitorHourlyDB ''20240101'' 5 (\<lambda>_. None)))) =
    map (\<lambda>hour. foldr (+) (map ucast (hll_of (if hour = 5 then [1] else []))) 0) [0..<24]"
  using hourly_visitors [of "[HourOffer ''20240101'' 5 7 1, HourRestart ''20240101'' 6, HourOffer ''20240101'' 6 8 1]" 5
      "\<lambda>regs. foldr (+) (map ucast regs) 0" "''20240101''" "[7]" "''20240101''"]
  by (simp add: ok_hours_def hours_def hour_visits_def hour_users_def)

text \<open>
  C21: after any transactions and restarts, and a flush, the file of a day and a tag key holds
  the counts by the hour of the first hundred values of the key, over the transactions since the last
  restart or change of the day before it was written.
\<close>

theorem tag_counts_saved:
  assumes "json_ok marshal unmarshal" and "\<And>t. hour t < 24"
  shows "map_option map_of (ts_Load unmarshal date key (tc_disk (tc_Flush marshal
      (fold (tc_do marshal fmt hour) ops (NewTagCountCore today (\<lambda>_. None)))))) =
    file_counts key (sp_saved (sp_flush (fold (sp_do fmt hour) ops (no_tags today))) date key)"
  using assms by (rule tc_saved)

definition example_marshal :: "(string \<times> hourlyCounter) list \<Rightarrow> bytes" where
  "example_marshal m = replicate (list_encode (map (\<lambda>(s, h). prod_encode (list_encode (map of_char s), list_encode h)) m)) 0"

definition example_unmarshal :: "bytes \<Rightarrow> (string \<times> hourlyCounter) list option" where
  "example_unmarshal bs = Some (map (\<lambda>n. case prod_decode n of (s, h) \<Rightarrow> (map char_of (list_decode s), list_decode h))
     (list_decode (length bs)))"

lemma example_json: "json_ok example_marshal example_unmarshal"
proof -
  have "example_unmarshal (example_marshal m) = Some m" for m
    by (simp add: example_unmarshal_def example_marshal_def comp_def case_prod_unfold)
  then show ?thesis by (simp add: json_ok_def)
qed

definition utc_hour :: "i64 \<Rightarrow> nat" where
  "utc_hour t = nat (sint t div 3600000 mod 24)"

lemma utc_hour_less: "utc_hour t < 24"
  by (simp add: utc_hour_def nat_less_iff)

theorem tag_counts_saved_witness:
  "map_option map_of (ts_Load example_unmarshal ''20240101'' TagKeyServiceService (tc_disk (tc_Flush example_marshal
      (fold (tc_do example_marshal (\<lambda>_. ''20240101'') utc_hour) [TagXLog (example_xlog\<lparr>xlog_Service := 3, xlog_EndTime := 7200000\<rparr>), TagFlush]
        (NewTagCountCore ''20240101'' (\<lambda>_. None)))))) =
    Some (tag_count TagKeyServiceService [(2, 3, 0)])"
  using tag_counts_saved [where hour = utc_hour, OF example_json utc_hour_less, where date = "''20240101''" and key = TagKeyServiceService and fmt = "\<lambda>_. ''20240101''"
      and ops = "[TagXLog (example_xlog\<lparr>xlog_Service := 3, xlog_EndTime := 7200000\<rparr>), TagFlush]" and today = "''20240101''"]
  by (simp add: no_tags_def sp_flush_def file_counts_def tag_seen_def tag_values_def Let_def utc_hour_def tag_keys
      example_xlog_def XLogPack_zero_def)

text \<open>
  A transaction that ends on the day before and is counted after one of the new day replaces the file of
  the day before: the counts of that day are lost.
\<close>

theorem late_transaction_overwrites:
  assumes "json_ok marshal unmarshal" and "\<And>t. hour t < 24"
    and "fmt (xlog_EndTime x1) = d1" and "fmt (xlog_EndTime x2) = d2" and "fmt (xlog_EndTime x3) = d1" and "d1 \<noteq> d2"
  shows "map_option map_of (ts_Load unmarshal d1 TagKeyServiceTotal (tc_disk (tc_Flush marshal
      (fold (tc_do marshal fmt hour) [TagXLog x1, TagXLog x2, TagXLog x3] (NewTagCountCore d1 (\<lambda>_. None)))))) =
    Some [0 \<mapsto> new_hourlyCounter[hour (xlog_EndTime x3) := 1]]"
  using assms by (rule late_transaction)

theorem late_transaction_overwrites_witness:
  "\<exists>x1 x2 x3 fmt. fmt (xlog_EndTime x1) = ''20240101'' \<and> utc_hour (xlog_EndTime x1) = 22 \<and>
    map_option map_of (ts_Load example_unmarshal ''20240101'' TagKeyServiceTotal (tc_disk (tc_Flush example_marshal
      (fold (tc_do example_marshal fmt utc_hour) [TagXLog x1, TagXLog x2, TagXLog x3] (NewTagCountCore ''20240101'' (\<lambda>_. None)))))) =
    Some [0 \<mapsto> new_hourlyCounter[23 := 1]]"
proof -
  define fmt where "fmt t = (if sint t < 86400000 then ''20240101'' else ''20240102'')" for t :: i64
  define at where "at t = example_xlog\<lparr>xlog_EndTime := t\<rparr>" for t
  note late_transaction_overwrites [where hour = utc_hour, OF example_json utc_hour_less, where fmt = fmt and ?d1.0 = "''20240101''" and ?d2.0 = "''20240102''"
      and ?x1.0 = "at 79200000" and ?x2.0 = "at 86400000" and ?x3.0 = "at 82800000"]
  then show ?thesis
    by (intro exI [of _ "at 79200000"] exI [of _ "at 86400000"] exI [of _ "at 82800000"] exI [of _ fmt])
      (simp add: at_def fmt_def utc_hour_def)
qed

text \<open>
  C22: with transactions added in the order of time and at most two thousand pairs of object and group, the
  statistics of the groups are the sums of count, errors and elapsed time over the transactions of the last
  thirty seconds of the objects that were asked for.
\<close>

theorem group_perf_sums:
  assumes "sorted (map fst ads)" and "\<forall>(sec, xp) \<in> set ads. 0 \<le> sec \<and> sec \<le> now"
    and "card (ge_key ` set (group_entries ads)) \<le> maxMeterEntries" and "length ads < 2 ^ 64"
  shows "fst (GetGroupPerfStat nowMs now objHashes (gp_adds pick ads (fst (NewXLogGroupPerf hasTextRD c)))) =
    group_sums now objHashes (group_entries ads)"
  using assms by (rule group_stat)

theorem group_perf_sums_witness:
  "fst (GetGroupPerfStat 40000 40 [5] (gp_adds (fst \<circ> hd) [(3, example_xlog\<lparr>xlog_Group := 9\<rparr>), (20, example_xlog\<lparr>xlog_Group := 9\<rparr>),
      (40, example_xlog\<lparr>xlog_Group := 9, xlog_Error := 1\<rparr>)] (fst (NewXLogGroupPerf True NewTextCache)))) 9 =
    Some \<lparr>ps_Count = 2, ps_Error = 1, ps_Elapsed = 2400\<rparr>"
proof -
  have "card {(5 :: i32, 9 :: i32)} \<le> maxMeterEntries" by (simp add: maxMeterEntries_def)
  then show ?thesis
    using group_perf_sums [of "[(3, example_xlog\<lparr>xlog_Group := 9\<rparr>), (20, example_xlog\<lparr>xlog_Group := 9\<rparr>),
        (40, example_xlog\<lparr>xlog_Group := 9, xlog_Error := 1\<rparr>)]" 40 40000 "[5]" "fst \<circ> hd" True NewTextCache]
    by (simp add: group_entries_def ge_of_def ge_key_def group_sums_def in_window_def defaultPerfStatPeriod_def example_xlog_def
        XLogPack_zero_def ps_Add_def no_stat_def ge_stat_def)
qed

text \<open>
  C39: a transaction without a group gets the group of the URL of its service, if the text of the
  service is known: the hash of a known extension, or of the first part of the path; what is remembered
  of services stays right.
\<close>

theorem service_group_of_url:
  assumes "urls_ok url c" and "groups_ok lower url g" and "makeGroupHash lower pick pick' svc g c = (h, search, g', c')"
  shows "h = service_group lower g c svc \<and> h \<in> {0, url_group lower (url svc)} \<and> urls_ok url c' \<and> groups_ok lower url g'"
  using assms by (rule makeGroupHash_group)

theorem service_group_of_url_witness:
  "\<exists>c g. urls_ok (\<lambda>_. ''/shop/cart/a.x'') c \<and> groups_ok (\<lambda>s. s) (\<lambda>_. ''/shop/cart/a.x'') g \<and>
    fst (makeGroupHash (\<lambda>s. s) (fst \<circ> hd) hd 4 g c) = HashString ''/shop''"
proof -
  let ?u = "\<lambda>_ :: i32. ''/shop/cart/a.x''"
  define c where "c = tc_Put ''service'' 4 (?u 4) NewTextCache"
  define g where "g = fst (NewXLogGroupUtil True NewTextCache)"
  have new: "tc_inv NewTextCache" "tc_abs NewTextCache = []" "tc_maxSize NewTextCache \<noteq> 0"
    by (simp_all add: NewTextCache_def tc_new defaultTextCacheMaxSize_def)
  then have c: "urls_ok ?u c" unfolding c_def by (intro urls_ok_Put) (simp_all add: urls_ok_def)
  have abs: "map_of (tc_abs c) (''service'', 4) = Some (?u 4)"
    using new by (simp add: c_def tc_Put_abs(2) lru_Put_def lru_touch_def)
  have g: "groups_ok (\<lambda>s. s) ?u g" "map_of (gu_groupMap g) 4 = None"
    by (simp_all add: g_def groups_ok_def NewXLogGroupUtil_def)
  obtain h s g' c' where mk: "makeGroupHash (\<lambda>s. s) (fst \<circ> hd) hd 4 g c = (h, s, g', c')" by (metis prod.exhaust)
  have "h = HashString ''/shop''"
    using service_group_of_url [OF c g(1) mk] g(2) abs
    by (simp add: service_group_def url_group_def path_group_def ext_group_def imageExts_def staticExts_def)
  then show ?thesis using c g(1) mk by (metis fst_conv)
qed

section \<open>The server\<close>

text \<open>
  C38: whatever bytes a pack is read from, the pack that \<open>ReadPack\<close> yields has the type of the type byte in
  front of it, and a performance pack has a map of counters none of which is nil.
\<close>

theorem packs_read_typed:
  assumes "fst (ReadPack d) = Ok p"
  shows "fst (ReadByte d) = Ok (PackType p) \<and> perf_ok p"
  using assms by (rule ReadPack_typed)

theorem packs_read_typed_witness:
  "\<exists>p. fst (ReadPack (NewDataInputX (ToByteArray (WritePack example_text_pack NewDataOutputX)))) = Ok p \<and>
    fst (ReadByte (NewDataInputX (ToByteArray (WritePack example_text_pack NewDataOutputX)))) = Ok 50 \<and> perf_ok p"
proof -
  have "fst (ReadPack (NewDataInputX (ToByteArray (WritePack example_text_pack NewDataOutputX)))) = Ok (norm_pack example_text_pack)"
    by (rule read_pack_bytes [unfolded unpack_def pack_bytes_def]) (simp add: example_text_pack_def ok_text_def)
  from this packs_read_typed [OF this] show ?thesis by (simp add: example_text_pack_def)
qed

definition example_config :: CoreConfig where
  "example_config = \<lparr>cf_xlogQueue = 10000, cf_profileQueue = 1000, cf_tagcnt = True, cf_hourly = True, cf_zipkin = True,
     cf_geo = None, cf_deadTimeout = 30000, cf_date = (\<lambda>_. ''20240101''), cf_hhmm = (\<lambda>_. 0), cf_lower = (\<lambda>s. s),
     cf_pickGroup = fst \<circ> hd, cf_pickSearched = hd, cf_pickMeter = fst \<circ> hd, cf_counterOrder = (\<lambda>cs. cs),
     cf_sampleOrder = (\<lambda>cs. cs), cf_ipv6 = (\<lambda>_. []), cf_format = (\<lambda>_. [])\<rparr>"


definition example_server :: Server where
  "example_server = \<lparr>srv_cores = NewCores example_config NewTextCache 100 (NewObjectTypeManager [] []),
     srv_mpp = NewMultiPacketProcessor, srv_textWR = NewTextWR (\<lambda>_. no_index_files, \<lambda>_. []) (\<lambda>_. no_index_files), srv_textRD = NewTextRD,
     srv_visitors = (NewVisitorDB ''20240101'' (\<lambda>_. None), NewVisitorHourlyDB ''20240101'' 0 (\<lambda>_. None)),
     srv_tags = NewTagCountCore ''20240101'' (\<lambda>_. None), srv_xlogBatch = [], srv_xlogWR = dw_new, srv_counterWR = NewCounterWR,
     srv_profileWR = dw_new, srv_alertWR = dw_new, srv_summaryWR = dw_new\<rparr>"









text \<open>
  A container of spans that is cut off hands on the whole spans in front, in order, and neither fails nor
  panics at the rest.
\<close>

theorem span_container:
  assumes "\<forall>p \<in> set ps. ok_pack p" and "ok_pack q" and "n < length (pack_bytes q)"
    and "spanc_Spans cp = concat (map pack_bytes ps) @ take n (pack_bytes q)"
  shows "SpanCore_ContainerHandler (SpanContainerPack cp) s = (fold (\<lambda>p. SpanCore_Handler (norm_pack p)) ps s, None)"
  using assms by (rule container_spans)

definition example_span :: SpanPack where
  "example_span = \<lparr>span_Gxid = 1, span_Txid = 2, span_Caller = 0, span_Timestamp = 1000, span_Elapsed = 7, span_SpanType = 1,
     span_Name = 3, span_ObjHash = 5, span_Error = 0, span_LocalEndpointServiceName = 0, span_LocalEndpointIp = [],
     span_LocalEndpointPort = 0, span_RemoteEndpointServiceName = 0, span_RemoteEndpointIp = [], span_RemoteEndpointPort = 0,
     span_Debug = False, span_Shared = False, span_AnnotationTimestamps = Some (Some []), span_AnnotationValues = Some (Some []), span_Tags = Some (Some [])\<rparr>"

theorem span_container_witness:
  "sv_spanQ (fst (SpanCore_ContainerHandler (SpanContainerPack \<lparr>spanc_Gxid = 1, spanc_SpanCount = 2, spanc_Timestamp = 1000,
      spanc_Spans = pack_bytes (SpanPack example_span) @ take 9 (pack_bytes (SpanPack example_span))\<rparr>) (srv_cores example_server))) =
    [example_span]"
proof -
  have ok: "ok_pack (SpanPack example_span)" "norm_pack (SpanPack example_span) = SpanPack example_span"
    by (simp_all add: example_span_def ok_text_def ok_blob_def ok_map_field_def norm_map_field_def ok_list_field_def
        norm_list_field_def as_map_def as_list_def ok_array_def)
  have "9 < length (pack_bytes (SpanPack example_span))"
    by (simp add: pack_bytes_def example_span_def WritePack_def SpanPack_Write_def ToByteArray_def NewDataOutputX_def
      WriteByte_def WriteText_def WriteBlob_def Write_def WriteInt32_def WriteInt64_def WriteInt16_def WriteDecimal_def WriteBoolean_def
      WriteMapField_def WriteListField_def WriteAlertTags_def value_Write_ListValue)
  moreover have "sv_spanQ (srv_cores example_server) = []"
    by (simp add: example_server_def NewCores_def case_prod_unfold Let_def)
  ultimately show ?thesis
    using span_container [of "[SpanPack example_span]" "SpanPack example_span" 9 _ "srv_cores example_server"] ok
    by (simp add: SpanCore_Handler_def enqueue_def spanCoreQueue_def)
qed

text \<open>
  A round of the five minute sampling writes, for every realtime counter that was reported since the round
  before as a number and never as a five minute value, its last value, once, to the bucket of the time, and starts
  over.
\<close>

theorem samples_to_daily:
  assumes "fold_res (\<lambda>(k, v). as_Add k (Some v)) adds (b\<lparr>as_counterMap := []\<rparr>) = Ok a"
    and "\<And>xs. mset (order xs) = mset xs" and "length q + card (dom (last_samples adds)) \<le> counterQueueSize"
  shows "\<exists>new. as_flush order date hhmm a q = (a\<lparr>as_counterMap := []\<rparr>, q @ new) \<and>
    set new = {e. \<exists>k v. last_samples adds k = Some v \<and> sample_entry date hhmm (as_fiveMinKeys b \<union> five_min adds) (k, v) = Some e}"
  using assms by (rule samples_flushed)

theorem samples_to_daily_witness:
  "\<exists>a new. fold_res (\<lambda>(k, v). as_Add k (Some v)) [(\<lparr>ck_ObjHash = 5, ck_Counter = ''TPS'', ck_TimeType = 1\<rparr>, DecimalValue 3),
      (\<lparr>ck_ObjHash = 5, ck_Counter = ''TPS'', ck_TimeType = 1\<rparr>, DecimalValue 1)] NewAuto5MSampling = Ok a \<and>
    as_flush (\<lambda>xs. xs) ''20240101'' 1215 a [] = (a\<lparr>as_counterMap := []\<rparr>, new) \<and>
    set new = {\<lparr>de_Date = ''20240101'', de_ObjHash = 5, de_CounterName = ''TPS'', de_Bucket = HHMMToBucket 1215, de_Value = 0x3FF0000000000000\<rparr>}"
proof -
  let ?k = "\<lparr>ck_ObjHash = 5, ck_Counter = ''TPS'', ck_TimeType = 1\<rparr>"
  let ?adds = "[(?k, DecimalValue 3), (?k, DecimalValue 1)]"
  have new: "NewAuto5MSampling = NewAuto5MSampling\<lparr>as_counterMap := []\<rparr>" by (simp add: NewAuto5MSampling_def)
  obtain a where a: "fold_res (\<lambda>(k, v). as_Add k (Some v)) ?adds (NewAuto5MSampling\<lparr>as_counterMap := []\<rparr>) = Ok a"
    using as_Adds by blast
  have last: "last_samples ?adds = [?k \<mapsto> DecimalValue 1]"
    by (auto simp: last_samples_def sampled_def TimeTypeRealtime_def)
  have five: "five_min ?adds = {}" by (simp add: five_min_def TimeTypeFiveMin_def)
  have entry: "sample_entry ''20240101'' 1215 {} (?k, DecimalValue 1) =
      Some \<lparr>de_Date = ''20240101'', de_ObjHash = 5, de_CounterName = ''TPS'', de_Bucket = HHMMToBucket 1215, de_Value = 0x3FF0000000000000\<rparr>"
    using float64_examples(2) by (simp add: sample_entry_def)
  have "\<exists>new. as_flush (\<lambda>xs. xs) ''20240101'' 1215 a [] = (a\<lparr>as_counterMap := []\<rparr>, [] @ new) \<and>
      set new = {e. \<exists>k v. last_samples ?adds k = Some v \<and>
        sample_entry ''20240101'' 1215 (as_fiveMinKeys NewAuto5MSampling \<union> five_min ?adds) (k, v) = Some e}"
    by (rule samples_to_daily [OF a]) (simp_all add: last counterQueueSize_def)
  then show ?thesis using a new entry unfolding five last by (auto simp: NewAuto5MSampling_def)
qed

section \<open>Clients and agents\<close>




definition quiet_env :: XLogEnv where
  "quiet_env = \<lparr>env_dec = (\<lambda>b. Some (drop 1 b)), env_gdm = (\<lambda>_. 0), env_srt = sort_by_time, env_FormatDate = (\<lambda>_. ''20240101''),
     env_DateToMillis = (\<lambda>_. 0), env_today = ''20240101'', env_order = (\<lambda>xs. xs), cfg_XLogRealtimeLowerBoundMs = 0,
     cfg_XLogPasttimeLowerBoundMs = 0, cfg_XLogPasttimeMaxCount = 100, cfg_XLogPasttimeMaxScan = 1000, cfg_ReqSearchXLogMaxCount = 500\<rparr>"

definition example_user :: User where
  "example_user = \<lparr>user_Session = 1, user_ID = ''admin'', user_IP = ''10.0.0.1'', user_Hostname = '''', user_Version = '''',
     user_Group = ''admin'', user_LoginTime = 0\<rparr>"

definition quiet_world :: "kv_data ServiceWorld" where
  "quiet_world = \<lparr>svc_login = \<lparr>lw_sm = \<lparr>sm_sessions = [1 \<mapsto> example_user], sm_accountManager = None\<rparr>, lw_now = 1000,
       lw_random = [0, 0, 0, 0, 0, 0, 0, 9], lw_users = [], lw_groups = [], lw_logins = [1]\<rparr>,
     svc_kv = \<lparr>kw_global = NewKVStore Some None, kw_custom = NewKVStore Some None, kw_now = 1000, kw_keys = (\<lambda>_. [])\<rparr>,
     svc_xlog = \<lparr>xs_wr = dw_new, xs_rd = xw_Close dw_new, xs_profileWR = dw_new, xs_cache = NewXLogCache 8\<rparr>\<rparr>"







text \<open>
  C10: whatever a connection has sent before, a request that is not one of the free commands is served only after some
  request of the connection, or this one, named a session that the session manager held at that moment.
\<close>

theorem session_required:
  assumes "connection svc_OkSession (service_registry cfg version xml e rest) log din dout sessionOk"
    and "read_request svc_OkSession din sessionOk w = Request cmd session din' sessionOk'" and "cmd \<notin> FreeCmds"
  shows "\<exists>(cmd', session', w') \<in> set (log @ [(cmd, session, w)]). svc_OkSession session' w'"
  using assms by (rule served_with_session)

theorem session_required_witness:
  "\<exists>din' sessionOk'. read_request svc_OkSession (NewDataInputXStream
      (ToByteArray (put_request (''GET_GLOBAL_KV'', 1, emptyMap) NewDataOutputX))) False quiet_world =
        Request ''GET_GLOBAL_KV'' 1 din' sessionOk' \<and>
    (\<exists>(cmd', session', w') \<in> set ([] @ [(''GET_GLOBAL_KV'', 1, quiet_world)]). svc_OkSession session' w')"
proof -
  let ?din = "NewDataInputXStream (ToByteArray (put_request (''GET_GLOBAL_KV'', 1, emptyMap) NewDataOutputX))"
  have "ok_request (''GET_GLOBAL_KV'', 1, emptyMap)" by (simp add: CLOSE_def ok_text_def ok_emptyMap del: ok_pack.simps)
  moreover have "svc_OkSession 1 quiet_world" by (simp add: quiet_world_def svc_OkSession_def sm_OkSession_def)
  moreover have "pending ?din = ToByteArray (put_request (''GET_GLOBAL_KV'', 1, emptyMap) NewDataOutputX) @ []" by simp
  ultimately obtain d1 ok1 where d: "read_request svc_OkSession ?din False quiet_world = Request ''GET_GLOBAL_KV'' 1 d1 ok1"
    using request_read by metis
  have "connection svc_OkSession (service_registry cfg version xml e rest) [] ?din NewDataOutputXStream False" for cfg version xml e rest
    by (rule conn_start)
  from session_required [OF this d] d show ?thesis by (simp add: FreeCmds_def)
qed

text \<open>
  C11: the only request that makes a session valid is a login whose user and password the account manager accepts, and
  the session is the one of the random bytes of that login, which is never 0.
\<close>

theorem login_gives_session:
  assumes "serve (service_registry cfg version xml e NewRegistry) cmd din dout login w = Some (r, din', dout', w')"
    and "svc_OkSession s w'" and "\<not> svc_OkSession s w"
  shows "cmd = ''LOGIN'' \<and> s = generateSession (lw_random (svc_login w)) \<and> s \<noteq> 0 \<and>
    (\<exists>m. fst (ReadPack din) = Ok (MapPack m) \<and>
      authorized (MapPack_GetText m ''id'') (MapPack_GetText m ''pass'') (lw_sm (svc_login w)))"
  using session_by_login [OF assms(1,2)] assms(3) generateSession_nonzero by auto

theorem login_gives_session_witness:
  "\<forall>cfg version xml e. \<exists>din r din' dout' w'. serve (service_registry cfg version xml e NewRegistry) ''LOGIN'' din NewDataOutputXStream False
      quiet_world = Some (r, din', dout', w') \<and>
    svc_OkSession 9 w' \<and> \<not> svc_OkSession 9 quiet_world \<and> 9 = generateSession (lw_random (svc_login quiet_world))"
proof (intro allI)
  fix cfg version and xml :: "kv_data Xml" and e
  obtain bs where bs: "consumes ReadPack bs (MapPack emptyMap)" using wire_pack [OF ok_emptyMap] by (auto elim: wireE simp: emptyMap_def)
  obtain d where d: "ReadPack (NewDataInputX bs) = (Ok (MapPack emptyMap), d)"
    using consumesD [OF bs, of "NewDataInputX bs" "[]"] by auto
  let ?w = "svc_login quiet_world"
  have "\<exists>dout' x. handle_LOGIN cfg version emptyMap NewDataOutputXStream ?w = Some (Ok (), dout', x)"
    by (simp add: handle_LOGIN_def answer_def Let_def case_prod_unfold)
  then obtain dout' x where h: "handle_LOGIN cfg version emptyMap NewDataOutputXStream ?w = Some (Ok (), dout', x)" by blast
  have g: "generateSession (lw_random ?w) = 9" "authorized uid pass (lw_sm ?w)" for uid pass
    by (simp_all add: quiet_world_def authorized_def) code_simp
  have a: "svc_OkSession 9 (quiet_world\<lparr>svc_login := x\<rparr>)" "\<not> svc_OkSession 9 quiet_world"
    using LOGIN_sessions [OF h, of 9] g by (simp_all add: svc_OkSession_def) (simp add: quiet_world_def sm_OkSession_def)
  have "map_of (account_services cfg version xml @ xlog_services e @ kv_services) ''LOGIN'' =
      Some (along svc_login (\<lambda>x w. w\<lparr>svc_login := x\<rparr>) (with_param (handle_LOGIN cfg version)))"
    by (simp add: account_services_def login_handlers_def lift_handlers_def)
  note s = serve_at [OF this d h, where rest = NewRegistry and login = False]
  have "9 = generateSession (lw_random ?w)" using login_gives_session [OF s a] by (elim conjE)
  with s a show "\<exists>din r din' dout' w'. serve (service_registry cfg version xml e NewRegistry) ''LOGIN'' din NewDataOutputXStream False
      quiet_world = Some (r, din', dout', w') \<and>
    svc_OkSession 9 w' \<and> \<not> svc_OkSession 9 quiet_world \<and> 9 = generateSession (lw_random (svc_login quiet_world))"
    by (intro exI conjI)
qed







text \<open>
  C24: a call on an agent that answers in full, in either protocol, gives the caller the last pack of the answer if it is a
  \<open>MapPack\<close>, and the connection goes back to the pool as its newest, open, at the first byte behind the answer.
\<close>

theorem agent_call_in_sync:
  assumes "map_of (tm_agents m) objHash = Some (w # ws)" and "int (length ws) < tm_maxConnsPerAgent m"
    and "\<forall>p \<in> set ps. ok_response (wk_protocolType w) p" and "open_worker w"
    and "pending (wk_din w) = ToByteArray (put_responses (wk_protocolType w) ps NewDataOutputX) @ rest"
  shows "\<exists>w'. ac_Call now True q0 objHash cmd param m =
      (Ok (if ps = [] then None else case norm_pack (last ps) of MapPack mp \<Rightarrow> Some mp | _ \<Rightarrow> None),
       m\<lparr>tm_agents := AList.update objHash (ws @ [w']) (tm_agents m)\<rparr>) \<and> open_worker w' \<and> pending (wk_din w') = rest"
  using assms by (rule Call_in_sync)

definition answering_worker :: AgentWorker where
  "answering_worker = NewAgentWorker 0 (ToByteArray (put_responses TCP_AGENT_V2 [MapPack emptyMap] NewDataOutputX) @ [7]) TCP_AGENT_V2 5"

theorem agent_call_in_sync_witness:
  "\<exists>w'. ac_Call 10 True [] 5 ''OBJECT_INFO'' None
      (\<lparr>tm_agents = [(5, [answering_worker])], tm_maxConnsPerAgent = 50, tm_keepaliveInterval = 60000, tm_getConnWait = 5000\<rparr>) =
    (Ok (Some emptyMap), \<lparr>tm_agents = [(5, [w'])], tm_maxConnsPerAgent = 50, tm_keepaliveInterval = 60000, tm_getConnWait = 5000\<rparr>) \<and>
    pending (wk_din w') = [7]"
proof -
  have "ok_response TCP_AGENT_V2 (MapPack emptyMap)"
    using ok_emptyMap by (simp add: ok_response_def pack_bytes_def emptyMap_def WritePack_def MapPack_Write_def ToByteArray_def
        NewDataOutputX_def WriteByte_def WriteInt32_def Write_def WriteDecimal_def ok_blob_def del: ok_pack.simps)
  moreover have "norm_pack (MapPack emptyMap) = MapPack emptyMap" by (simp add: emptyMap_def)
  ultimately show ?thesis
    using agent_call_in_sync [of "\<lparr>tm_agents = [(5, [answering_worker])], tm_maxConnsPerAgent = 50, tm_keepaliveInterval = 60000,
        tm_getConnWait = 5000\<rparr>" 5 answering_worker "[]" "[MapPack emptyMap]" "[7]" 10 "[]" "''OBJECT_INFO''" None]
    by (auto simp: answering_worker_def NewAgentWorker_def open_worker_def)
qed




text \<open>
  C28: an agent that answers a keepalive in the second protocol with a negative length brings the server down: the
  daemon panics, and unlike the connection of a client it does not recover.
\<close>

theorem keepalive_panics:
  assumes "map_of (tm_agents m) k = Some (w # ws)" and "\<not> wk_closed w" and "wk_IsExpired now (tm_keepaliveInterval m) w"
    and "wk_protocolType w = TCP_AGENT_V2" and "in_reader (wk_din w) \<noteq> None"
    and "pending (wk_din w) = FLAG_HAS_NEXT # PutUint32 n @ rest" and "sint n < 0" and "flushed w"
  shows "tm_runKeepalive now flushed (k # keys) m = Panic MakeSliceLen"
  using assms by (rule keepalive_panic)

definition broken_worker :: AgentWorker where
  "broken_worker = NewAgentWorker 0 [3, 255, 255, 255, 255] TCP_AGENT_V2 5"

definition broken_pool :: TcpAgentManager where
  "broken_pool = tm_Add 5 broken_worker (NewAgentManagerWithConfig \<lparr>MaxConnsPerAgent = 0, KeepaliveInterval = 0, GetConnWait = 0\<rparr>)"

theorem keepalive_panics_witness: "tm_runKeepalive 60000 (\<lambda>_. True) [5] broken_pool = Panic MakeSliceLen"
proof (rule keepalive_panics)
  have m: "tm_agents broken_pool = [(5, [broken_worker])]" "tm_keepaliveInterval broken_pool = 60000"
    by (simp_all add: broken_pool_def tm_Add_def NewAgentManagerWithConfig_def q_put_def defaultMaxAgents_def)
  show "map_of (tm_agents broken_pool) 5 = Some (broken_worker # [])" by (simp add: m)
  show "wk_IsExpired 60000 (tm_keepaliveInterval broken_pool) broken_worker"
    by (simp add: m wk_IsExpired_def broken_worker_def NewAgentWorker_def)
  have "[3, 255, 255, 255, 255] = FLAG_HAS_NEXT # PutUint32 (-1) @ []" by code_simp
  then show "pending (wk_din broken_worker) = FLAG_HAS_NEXT # PutUint32 (-1) @ []"
    by (simp add: broken_worker_def NewAgentWorker_def)
  show "sint (- 1 :: i32) < 0" by simp
qed (simp_all add: broken_worker_def NewAgentWorker_def NewDataInputXStream_def)



definition load_env :: XLogEnv where
  "load_env = quiet_env\<lparr>env_gdm := utc_millis\<rparr>"

definition load_world :: XLogWorld where
  "load_world = \<lparr>xs_wr = xw_run (\<lambda>d. 9 # d) utc_millis (\<lambda>_. ''20240101'') example_ops dw_new, xs_rd = dw_new, xs_profileWR = dw_new,
     xs_cache = NewXLogCache 8\<rparr>"

definition load_request :: MapPack where
  "load_request = \<lparr>map_Table = [(''date'', Some (TextValue ''20240101'')), (''stime'', Some (DecimalValue 500)),
     (''etime'', Some (DecimalValue 1100)), (''max'', Some (DecimalValue 1))]\<rparr>"

lemma load_example:
  "env_dec load_env (9 # d) = Some d" "ok_writes (\<lambda>d. 9 # d) (ops_entries example_ops)"
  "xs_wr load_world = xw_run (\<lambda>d. 9 # d) (env_gdm load_env) (env_FormatDate load_env) example_ops dw_new"
  "dw_days (xs_wr load_world) ''20240101'' \<noteq> None" "sorts (env_srt load_env)" "local_day (env_gdm load_env) 0"
  "\<forall>ce \<in> set (day_entries (env_FormatDate load_env) (ops_entries example_ops) ''20240101''). of_day 0 (xe_Time (snd ce), [])"
  "MapPack_GetText load_request ''date'' = ''20240101''" "MapPack_GetLong load_request ''stime'' = 500"
  "MapPack_GetLong load_request ''etime'' = 1100" "\<not> MapPack_GetBoolean load_request ''reverse''"
  "0 < sint (500 :: i64)" "range_reach 0 500 1100"
  "\<forall>ce \<in> set (ops_entries example_ops). \<forall>q. ReadXLogFilterFields (xe_Data (snd ce)) \<noteq> Panic q"
proof -
  show "\<forall>ce \<in> set (ops_entries example_ops). \<forall>q. ReadXLogFilterFields (xe_Data (snd ce)) \<noteq> Panic q"
  proof -
    have "\<forall>ce \<in> set example_entries. case ReadXLogFilterFields (xe_Data (snd ce)) of Panic q \<Rightarrow> False | _ \<Rightarrow> True"
      by code_simp
    then show ?thesis unfolding example_ops_ok(1) by fastforce
  qed
  show "\<forall>ce \<in> set (day_entries (env_FormatDate load_env) (ops_entries example_ops) ''20240101''). of_day 0 (xe_Time (snd ce), [])"
    unfolding example_ops_ok(1) by (simp add: day_entries_def example_entries_def of_day_def)
qed (use example_ops_ok example_open sorts_sort_by_time utc_first_day in
  \<open>simp_all add: load_env_def quiet_env_def load_world_def load_request_def MapPack_GetText_def MapPack_GetLong_def
    MapPack_GetBoolean_def MapPack_Get_def range_reach_def\<close>)


text \<open>
  C29: whatever the databases hold and whatever the client asks for, a load of a range of time sends at most the maximum
  count of the configuration, at most what the scan may look at, and nothing that the filters of the request exclude.
\<close>

theorem load_time_group_bounded:
  assumes "tranxLoadTimeGroupHandler e m dout w = Some (r, dout', w')" and "0 \<le> cfg_XLogPasttimeMaxCount e" and "cfg_XLogPasttimeMaxCount e < 2 ^ 31"
  shows "\<exists>ds. dout' = fold reply_data ds dout \<and> int (length ds) \<le> cfg_XLogPasttimeMaxCount e \<and>
    int (length ds) \<le> max 0 (cfg_XLogPasttimeMaxScan e) \<and> (\<forall>d \<in> set ds. wanted (request_filter m) (load_limit e m) d)"
proof -
  have "max 0 (sint (load_max e m)) \<le> cfg_XLogPasttimeMaxCount e"
    using assms(2,3) by (auto simp: load_max_def Let_def sint_sbintrunc' signed_take_bit_int_eq_self)
  then show ?thesis using load_bounded [OF assms(1)] by fastforce
qed

theorem load_time_group_bounded_witness:
  "\<exists>r w' ds. tranxLoadTimeGroupHandler load_env load_request NewDataOutputXStream load_world =
      Some (r, fold reply_data ds NewDataOutputXStream, w') \<and> length ds \<le> 100"
proof -
  obtain dout' w' where r: "tranxLoadTimeGroupHandler load_env load_request NewDataOutputXStream load_world = Some (Ok (), dout', w')"
    using load_exact [OF load_example, of NewDataOutputXStream] by blast
  have "cfg_XLogPasttimeMaxCount load_env = 100" by (simp add: load_env_def quiet_env_def)
  with load_time_group_bounded [OF r] r show ?thesis by auto
qed

end
